(* ===== verification/Bond_Prelude.thy ===== *)
theory Bond_Prelude
  imports Main "HOL-Library.Word"
begin

text \<open>
  Shared vocabulary of the development: the machine integer types of the C++ sources, the
  exceptions the library throws, the two monads in which the models are written (results and
  stateful operations that may throw), the little-endian object representation of integers, and
  the generic lemmas on lists and words that the component theories use.
\<close>

unbundle bit_operations_syntax

named_theorems monad_simps \<open>unfolding of the result and state monads\<close>
named_theorems unat_simps \<open>moving word arithmetic to the natural numbers\<close>

section \<open>Machine integers\<close>

type_synonym byte = "8 word"
type_synonym u8 = "8 word"
type_synonym u16 = "16 word"
type_synonym u32 = "32 word"
type_synonym u64 = "64 word"

section \<open>Exceptions and results\<close>

text \<open>
  The exceptions of the C++ code are values. \<open>UndefinedShift\<close> and \<open>OutOfBounds\<close> are not
  exceptions of the program: they mark the places where the C++ operation has no defined result
  (a shift by at least the width of the promoted operand, a memory access outside a buffer), so
  that the absence of undefined behaviour is a property that can be stated; \<open>TrapRepresentation\<close>
  is a load of a \<^verbatim>\<open>bool\<close> from a byte that is neither 0 nor 1, \<open>SignedOverflow\<close> an overflow of a
  signed integer, \<open>AssertionFailed\<close> a call of a library function whose precondition does not hold (its
  assertion fails, or in a release build the behaviour is undefined). \<open>OutOfFuel\<close> is the
  result of a fuel-driven model whose fuel was too small.
\<close>

datatype exn =
    StreamException nat nat nat
  | OverflowError
  | InvalidArgument
  | UnderflowError
  | BadAlloc
  | CoreException string
  | UndefinedShift
  | OutOfBounds
  | TrapRepresentation
  | SignedOverflow
  | AssertionFailed
  | OutOfFuel

type_synonym 'a res = "exn + 'a"

definition res_bind :: "'a res \<Rightarrow> ('a \<Rightarrow> 'b res) \<Rightarrow> 'b res" where
  [monad_simps]: "res_bind r f = (case r of Inl e \<Rightarrow> Inl e | Inr x \<Rightarrow> f x)"

lemma res_bind_Inr [simp]: "res_bind (Inr x) f = f x"
  by (simp add: res_bind_def)

lemma res_bind_Inl [simp]: "res_bind (Inl e) f = Inl e"
  by (simp add: res_bind_def)

lemma res_bind_Inr_iff: "res_bind r f = Inr y \<longleftrightarrow> (\<exists>x. r = Inr x \<and> f x = Inr y)"
  by (cases r) auto

lemma res_bind_cong [fundef_cong]:
  "r = r' \<Longrightarrow> (\<And>x. r' = Inr x \<Longrightarrow> f x = f' x) \<Longrightarrow> res_bind r f = res_bind r' f'"
  by (cases r') auto

text \<open>A stateful operation that may throw, and its sequencing.\<close>

type_synonym ('s, 'a) st = "'s \<Rightarrow> ('a \<times> 's) res"

definition ret :: "'a \<Rightarrow> ('s, 'a) st" where
  [monad_simps]: "ret x s = Inr (x, s)"

definition throw :: "exn \<Rightarrow> ('s, 'a) st" where
  [monad_simps]: "throw e s = Inl e"

definition bind :: "('s, 'a) st \<Rightarrow> ('a \<Rightarrow> ('s, 'b) st) \<Rightarrow> ('s, 'b) st" where
  [monad_simps]: "bind m f s = (case m s of Inl e \<Rightarrow> Inl e | Inr (x, s') \<Rightarrow> f x s')"

lemma bind_Inr: "m s = Inr (x, s') \<Longrightarrow> bind m f s = f x s'"
  by (simp add: bind_def)

lemma bind_Inl: "m s = Inl e \<Longrightarrow> bind m f s = Inl e"
  by (simp add: bind_def)

lemma bind_ret [simp]: "bind (ret x) f = f x"
  by (simp add: bind_def ret_def fun_eq_iff)

lemma bind_Inr_iff:
  "bind m f s = Inr (y, t) \<longleftrightarrow> (\<exists>x s'. m s = Inr (x, s') \<and> f x s' = Inr (y, t))"
  by (auto simp: bind_def split: sum.splits)

lemma bind_Inl_iff:
  "bind m f s = Inl e \<longleftrightarrow> m s = Inl e \<or> (\<exists>x s'. m s = Inr (x, s') \<and> f x s' = Inl e)"
  by (auto simp: bind_def split: sum.splits)

lemma bind_cong [fundef_cong]:
  assumes "m = m'" and "s = t" and "\<And>x s'. m' t = Inr (x, s') \<Longrightarrow> f x s' = f' x s'"
  shows "bind m f s = bind m' f' t"
  using assms by (auto simp: bind_def split: sum.splits)

lemma bind_assoc: "bind (bind m f) g = bind m (\<lambda>x. bind (f x) g)"
  by (auto simp: bind_def fun_eq_iff split: sum.splits)

text \<open>A counted loop: the body runs \<open>n\<close> times.\<close>

fun repeat_st :: "nat \<Rightarrow> ('s, unit) st \<Rightarrow> ('s, unit) st" where
  "repeat_st 0 m = ret ()"
| "repeat_st (Suc n) m = bind m (\<lambda>_. repeat_st n m)"

text \<open>The same loop collecting the results of the body.\<close>

fun collect_st :: "nat \<Rightarrow> ('s, 'a) st \<Rightarrow> ('s, 'a list) st" where
  "collect_st 0 m = ret []"
| "collect_st (Suc n) m = bind m (\<lambda>x. bind (collect_st n m) (\<lambda>xs. ret (x # xs)))"

section \<open>Words as natural numbers\<close>

lemma unat_add_no_overflow:
  fixes a b :: "'a::len word"
  shows "unat a + unat b < 2 ^ LENGTH('a) \<Longrightarrow> unat (a + b) = unat a + unat b"
  by (simp add: unat_word_ariths)

lemma unat_sub_no_underflow:
  fixes a b :: "'a::len word"
  shows "unat b \<le> unat a \<Longrightarrow> unat (a - b) = unat a - unat b"
  by (simp add: unat_sub word_le_nat_alt)

lemma unat_of_nat_small:
  "n < 2 ^ LENGTH('a) \<Longrightarrow> unat (of_nat n :: 'a::len word) = n"
  by (simp add: unat_of_nat)

lemma unat_minus_one_word: "unat ((-1) :: 'a::len word) = 2 ^ LENGTH('a) - 1"
  by (simp add: unsigned_minus_1_eq_mask mask_eq_exp_minus_1)

lemma unat_u32_bound: "unat (x :: u32) < 4294967296"
  using unsigned_less [of x, where ?'a = nat] by simp

lemma unat_ucast_up:
  fixes x :: "'a::len word"
  assumes "LENGTH('a) \<le> LENGTH('b)"
  shows "unat (ucast x :: 'b::len word) = unat x"
proof -
  have "unat x < 2 ^ LENGTH('b)"
    using unsigned_less [of x, where ?'a = nat] assms
    by (meson less_le_trans one_le_numeral power_increasing)
  then show ?thesis by (simp add: unsigned_ucast_eq take_bit_nat_eq_self)
qed

section \<open>Little-endian object representation\<close>

text \<open>
  \<open>le_bytes n w\<close> are the \<open>n\<close> low-order bytes of \<open>w\<close>, lowest first: the bytes that
  \<^verbatim>\<open>memcpy\<close> from an integer object sees on the little-endian targets of the library.
  \<open>of_le\<close> reads them back.
\<close>

fun le_bytes :: "nat \<Rightarrow> 'a::len word \<Rightarrow> byte list" where
  "le_bytes 0 w = []"
| "le_bytes (Suc n) w = ucast w # le_bytes n (drop_bit 8 w)"

fun of_le :: "byte list \<Rightarrow> 'a::len word" where
  "of_le [] = 0"
| "of_le (b # bs) = ucast b OR push_bit 8 (of_le bs)"

lemma le_bytes_numeral:
  "le_bytes (numeral k) w = ucast w # le_bytes (pred_numeral k) (drop_bit 8 w)"
  by (simp add: numeral_eq_Suc)

lemma length_le_bytes [simp]: "length (le_bytes n w) = n"
  by (induction n arbitrary: w) auto

lemma bit_of_le:
  "bit (of_le bs :: 'a::len word) i \<longleftrightarrow>
     i < LENGTH('a) \<and> i div 8 < length bs \<and> bit (bs ! (i div 8)) (i mod 8)"
proof (induction bs arbitrary: i)
  case Nil
  then show ?case by simp
next
  case (Cons b bs)
  show ?case
  proof (cases "i < 8")
    case True
    then show ?thesis by (auto simp: bit_simps)
  next
    case False
    then have "i div 8 = Suc ((i - 8) div 8)" and "i mod 8 = (i - 8) mod 8"
      by (auto simp: le_div_geq le_mod_geq not_less)
    with False show ?thesis
      by (auto simp: bit_simps Cons.IH dest: bit_imp_le_length)
  qed
qed

lemma nth_le_bytes: "i < n \<Longrightarrow> le_bytes n w ! i = ucast (drop_bit (8 * i) w)"
proof (induction n arbitrary: w i)
  case 0
  then show ?case by simp
next
  case (Suc n)
  then show ?case by (cases i) (auto simp: drop_bit_drop_bit ac_simps)
qed

lemma of_le_le_bytes:
  fixes w :: "'a::len word"
  assumes "LENGTH('a) \<le> 8 * n"
  shows "of_le (le_bytes n w) = w"
proof (rule bit_word_eqI)
  fix i assume i: "i < LENGTH('a)"
  then have "i div 8 < n" using assms by auto
  moreover have "8 * (i div 8) + i mod 8 = i" by simp
  ultimately show "bit (of_le (le_bytes n w) :: 'a word) i = bit w i"
    using i by (simp add: bit_of_le nth_le_bytes bit_simps)
qed

end
