(* ===== verification/Checked_Arith.thy ===== *)
theory Checked_Arith
  imports Bond_Prelude
begin

text \<open>
  The overflow-checked arithmetic of \<^verbatim>\<open>src/cpp/inc/bond/core/detail/checked.h\<close>: addition of
  an offset to a pointer, addition of unsigned integers and multiplication by a small factor.
  Each operation is total on its mathematical domain exactly when it does not throw.
\<close>

section \<open>Definitions\<close>

text \<open>A pointer is its 64-bit address.\<close>

definition checked_add_ptr :: "u64 \<Rightarrow> u32 \<Rightarrow> u64 res" where
  "checked_add_ptr ptr offset =
     (if (-1) - ucast offset < ptr then Inl OverflowError else Inr (ptr + ucast offset))"

definition checked_add :: "'a::len word \<Rightarrow> 'b::len word \<Rightarrow> 'a word res" where
  "checked_add lhs rhs =
     (if (-1) - lhs < ucast rhs then Inl OverflowError else Inr (lhs + ucast rhs))"

definition checked_multiply :: "'a::len word \<Rightarrow> u8 \<Rightarrow> 'a word res" where
  "checked_multiply lhs rhs =
     (let result = (ucast lhs :: u64) * (ucast rhs :: u64)
      in if result > ucast ((-1) :: 'a word) then Inl OverflowError else Inr (ucast result))"

section \<open>Correctness\<close>

lemma unat_minus_one_minus:
  fixes a :: "'a::len word"
  shows "unat ((-1) - a) = 2 ^ LENGTH('a) - 1 - unat a"
  by (simp add: unat_sub word_order.extremum unat_minus_one_word)

lemma checked_add_Inr:
  fixes lhs :: "'a::len word" and rhs :: "'b::len word"
  assumes "LENGTH('b) \<le> LENGTH('a)" and "unat lhs + unat rhs < 2 ^ LENGTH('a)"
  shows "checked_add lhs rhs = Inr (lhs + ucast rhs)"
    and "unat (lhs + (ucast rhs :: 'a word)) = unat lhs + unat rhs"
  using assms
  by (auto simp: checked_add_def word_less_nat_alt unat_minus_one_minus unat_ucast_up
        unat_add_no_overflow)

lemma checked_add_Inl:
  fixes lhs :: "'a::len word" and rhs :: "'b::len word"
  assumes "LENGTH('b) \<le> LENGTH('a)" and "2 ^ LENGTH('a) \<le> unat lhs + unat rhs"
  shows "checked_add lhs rhs = Inl OverflowError"
proof -
  have "unat lhs < 2 ^ LENGTH('a)" by (rule unsigned_less)
  with assms(2) have "2 ^ LENGTH('a) - 1 - unat lhs < unat rhs" by linarith
  with assms(1) show ?thesis
    by (auto simp: checked_add_def word_less_nat_alt unat_minus_one_minus unat_ucast_up)
qed

lemma checked_add_u32:
  fixes a b :: u32
  shows "checked_add a b =
    (if unat a + unat b < 2 ^ 32 then Inr (a + b) else Inl OverflowError)"
  using checked_add_Inr(1) [of a b] checked_add_Inl [of a b] by auto

lemma checked_add_ptr_Inr:
  assumes "unat p + unat n < 2 ^ 64"
  shows "checked_add_ptr p n = Inr (p + ucast n)"
  using assms
  by (auto simp: checked_add_ptr_def word_less_nat_alt unat_minus_one_minus unat_ucast_up)

text \<open>
  The product is computed in 64 bits, so no product of a value of at most 32 bits and a byte is
  lost before it is compared with the limit of the result type.
\<close>

lemma unat_checked_product:
  fixes lhs :: "'a::len word" and rhs :: u8
  assumes "LENGTH('a) \<le> 32"
  shows "unat ((ucast lhs :: u64) * (ucast rhs :: u64)) = unat lhs * unat rhs"
proof -
  have "unat lhs < 2 ^ LENGTH('a)" by (rule unsigned_less)
  also have "(2::nat) ^ LENGTH('a) \<le> 2 ^ 32" using assms by (intro power_increasing) auto
  finally have l: "unat lhs < 2 ^ 32" .
  have r: "unat rhs < 2 ^ 8" using unsigned_less [of rhs, where ?'a = nat] by simp
  have "unat lhs * unat rhs \<le> 2 ^ 32 * 2 ^ 8"
    using l r by (intro mult_le_mono) auto
  then have "unat lhs * unat rhs < 2 ^ 64" by simp
  moreover have "unat (ucast lhs :: u64) = unat lhs" and "unat (ucast rhs :: u64) = unat rhs"
    using assms by (auto intro!: unat_ucast_up)
  ultimately show ?thesis by (simp add: unat_word_ariths)
qed

lemma checked_multiply_spec:
  fixes lhs :: "'a::len word" and rhs :: u8
  assumes "LENGTH('a) \<le> 32"
  shows "checked_multiply lhs rhs =
    (if unat lhs * unat rhs < 2 ^ LENGTH('a)
     then Inr (of_nat (unat lhs * unat rhs)) else Inl OverflowError)"
proof -
  let ?p = "(ucast lhs :: u64) * (ucast rhs :: u64)"
  have p: "unat ?p = unat lhs * unat rhs" using assms by (rule unat_checked_product)
  have m: "unat (ucast ((-1) :: 'a word) :: u64) = 2 ^ LENGTH('a) - 1"
    using assms by (subst unat_ucast_up) (auto simp: unat_minus_one_word)
  have "(ucast ?p :: 'a word) = of_nat (unat ?p)"
    by (metis of_nat_unat)
  moreover have "ucast ((-1) :: 'a word) < ?p \<longleftrightarrow> 2 ^ LENGTH('a) - 1 < unat lhs * unat rhs"
    by (simp add: word_less_nat_alt p m del: unat_ucast_up)
  moreover have "2 ^ LENGTH('a) - 1 < unat lhs * unat rhs \<longleftrightarrow> \<not> unat lhs * unat rhs < 2 ^ LENGTH('a)"
    using zero_less_power [of "2::nat" "LENGTH('a)"] by linarith
  ultimately show ?thesis
    by (simp add: checked_multiply_def Let_def p)
qed

end
