(* ===== verification/Blob.thy ===== *)
theory Blob
  imports Checked_Arith
begin

text \<open>
  The memory blob of \<^verbatim>\<open>src/cpp/inc/bond/core/blob.h\<close>: a possibly owning pointer to immutable
  memory and a 32-bit length. A blob value of the model holds the address held by the owning
  smart pointer (none for a null \<open>_buffer\<close>), the content address, the length field and the bytes
  the view designates. The memory behind a blob is \<^verbatim>\<open>const char[]\<close>, so the bytes are part of
  the value; the output stream, whose buffers are still written while blobs refer to them, uses a
  store instead (theory \<open>Output_Buffer\<close>).
  \<^verbatim>\<open>boost::allocate_shared_noinit\<close> is a parameter \<open>alloc\<close>: the address of the array it
  returns, or the exception it throws.
\<close>

section \<open>Data and operations\<close>

record blob =
  blob_buffer :: "u64 option"
  blob_content :: u64
  blob_length :: u32
  blob_bytes :: "byte list"

definition blob_wf :: "blob \<Rightarrow> bool" where
  "blob_wf b \<longleftrightarrow> length (blob_bytes b) = unat (blob_length b)"

definition blob_empty :: blob where
  "blob_empty = \<lparr>blob_buffer = None, blob_content = 0, blob_length = 0, blob_bytes = []\<rparr>"

text \<open>
  The constructors. The memory at the pointer is given as the bytes that start there; a raw
  pointer leaves \<open>_buffer\<close> null, a smart pointer sets it. The constructed view designates the
  first \<open>length\<close> bytes at the offset.
\<close>

definition blob_raw :: "u64 \<Rightarrow> byte list \<Rightarrow> u32 \<Rightarrow> blob res" where
  "blob_raw content mem len =
     res_bind (checked_add_ptr content len) (\<lambda>_.
       Inr \<lparr>blob_buffer = None, blob_content = content, blob_length = len,
            blob_bytes = take (unat len) mem\<rparr>)"

definition blob_shared :: "u64 \<Rightarrow> byte list \<Rightarrow> u32 \<Rightarrow> u32 \<Rightarrow> blob res" where
  "blob_shared buffer mem offset len =
     res_bind (checked_add_ptr buffer offset) (\<lambda>content.
     res_bind (checked_add_ptr content len) (\<lambda>_.
       Inr \<lparr>blob_buffer = Some buffer, blob_content = content, blob_length = len,
            blob_bytes = take (unat len) (drop (unat offset) mem)\<rparr>))"

text \<open>The moved-from object of the move constructor and move assignment.\<close>

definition blob_move :: "blob \<Rightarrow> blob \<times> blob" where
  "blob_move that =
     (that, that\<lparr>blob_buffer := None, blob_content := 0, blob_length := 0, blob_bytes := []\<rparr>)"

definition blob_assign :: "blob \<Rightarrow> u32 \<Rightarrow> u32 \<Rightarrow> blob res" where
  "blob_assign from offset len =
     res_bind (checked_add offset len) (\<lambda>total.
       if total > blob_length from then Inl InvalidArgument
       else Inr \<lparr>blob_buffer = blob_buffer from,
                 blob_content = blob_content from + ucast offset,
                 blob_length = len,
                 blob_bytes = take (unat len) (drop (unat offset) (blob_bytes from))\<rparr>)"

definition blob_range :: "blob \<Rightarrow> u32 \<Rightarrow> u32 \<Rightarrow> blob res" where
  "blob_range b offset len =
     res_bind (checked_add offset len) (\<lambda>total.
       if total > blob_length b then Inl InvalidArgument
       else Inr (blob_empty\<lparr>blob_buffer := blob_buffer b,
                 blob_content := blob_content b + ucast offset,
                 blob_length := len,
                 blob_bytes := take (unat len) (drop (unat offset) (blob_bytes b))\<rparr>))"

definition blob_range_from :: "blob \<Rightarrow> u32 \<Rightarrow> blob res" where
  "blob_range_from b offset =
     (if offset > blob_length b then Inl InvalidArgument
      else Inr (b\<lparr>blob_content := blob_content b + ucast offset,
                  blob_length := blob_length b - offset,
                  blob_bytes := drop (unat offset) (blob_bytes b)\<rparr>))"

definition blob_swap :: "blob \<Rightarrow> blob \<Rightarrow> blob \<times> blob" where
  "blob_swap b src = (src, b)"

definition blob_clear :: "blob \<Rightarrow> blob" where
  "blob_clear b = fst (blob_swap b blob_empty)"

definition blob_is_empty :: "blob \<Rightarrow> bool" where
  "blob_is_empty b \<longleftrightarrow> 0 = blob_length b"

text \<open>\<open>operator==\<close>: the lengths agree and \<^verbatim>\<open>memcmp\<close> over that length is zero.\<close>

definition blob_eq :: "blob \<Rightarrow> blob \<Rightarrow> bool" where
  "blob_eq b src \<longleftrightarrow>
     blob_length b = blob_length src \<and>
     take (unat (blob_length b)) (blob_bytes b) = take (unat (blob_length b)) (blob_bytes src)"

definition blob_merge :: "(u32 \<Rightarrow> u64 res) \<Rightarrow> blob \<Rightarrow> blob \<Rightarrow> blob res" where
  "blob_merge alloc x y =
     (if blob_is_empty x \<or> blob_is_empty y then Inr (if blob_is_empty x then y else x)
      else res_bind (checked_add (blob_length x) (blob_length y)) (\<lambda>len.
           res_bind (alloc len) (\<lambda>buffer.
             blob_shared buffer (blob_bytes x @ blob_bytes y) 0 len)))"

fun merged_length :: "u32 \<Rightarrow> blob list \<Rightarrow> u32 res" where
  "merged_length len [] = Inr len"
| "merged_length len (b # bs) =
     res_bind (checked_add len (blob_length b)) (\<lambda>l. merged_length l bs)"

definition blob_merge_all :: "(u32 \<Rightarrow> u64 res) \<Rightarrow> blob list \<Rightarrow> blob res" where
  "blob_merge_all alloc bs =
     res_bind (merged_length 0 bs) (\<lambda>len.
       if 0 = len then Inr blob_empty
       else if len = blob_length (hd bs) then Inr (hd bs)
       else res_bind (alloc len) (\<lambda>buffer.
              blob_shared buffer (concat (map blob_bytes bs)) 0 len))"

definition blob_prolong :: "(u32 \<Rightarrow> u64 res) \<Rightarrow> blob \<Rightarrow> blob res" where
  "blob_prolong alloc src =
     (case blob_buffer src of
        Some _ \<Rightarrow> Inr src
      | None \<Rightarrow> res_bind (alloc (blob_length src)) (\<lambda>buffer.
                  blob_shared buffer (blob_bytes src) 0 (blob_length src)))"

text \<open>\<open>GetBufferRange\<close> of \<^verbatim>\<open>input_buffer.h\<close>: the bytes between two positions of one buffer.\<close>

definition GetBufferRange :: "blob \<Rightarrow> blob \<Rightarrow> blob res" where
  "GetBufferRange start stop = blob_range start 0 (blob_length start - blob_length stop)"

section \<open>Correctness\<close>

text \<open>What the code relies on from the allocator: an array never wraps around the address space.\<close>

definition alloc_ok :: "(u32 \<Rightarrow> u64 res) \<Rightarrow> bool" where
  "alloc_ok alloc \<longleftrightarrow> (\<forall>n. \<exists>a. alloc n = Inr a \<and> unat a + unat n < 2 ^ 64)"

lemma blob_wf_length: "blob_wf b \<Longrightarrow> length (blob_bytes b) = unat (blob_length b)"
  by (simp add: blob_wf_def)

lemma blob_wf_empty [simp]: "blob_wf blob_empty" "blob_bytes blob_empty = []"
  by (simp_all add: blob_wf_def blob_empty_def)

lemma blob_is_empty_iff: "blob_wf b \<Longrightarrow> blob_is_empty b \<longleftrightarrow> blob_bytes b = []"
  by (auto simp: blob_wf_def blob_is_empty_def unat_eq_0)

text \<open>A view inside the blob exists, and designates exactly that slice of its bytes.\<close>

lemma blob_range_Inr:
  assumes "blob_wf b" and "unat offset + unat len \<le> unat (blob_length b)"
  shows "\<exists>r. blob_range b offset len = Inr r \<and> blob_wf r \<and> blob_length r = len \<and>
             blob_bytes r = take (unat len) (drop (unat offset) (blob_bytes b))"
proof -
  have lt: "unat offset + unat len < 2 ^ 32"
    using assms(2) unat_u32_bound [of "blob_length b"] by simp
  then have "unat (offset + len) = unat offset + unat len"
    by (simp add: unat_add_no_overflow)
  with assms lt show ?thesis
    by (auto simp: blob_range_def checked_add_u32 word_less_nat_alt blob_wf_def)
qed

lemma blob_range_Inl:
  assumes "unat (blob_length b) < unat offset + unat len"
  shows "blob_range b offset len =
    Inl (if unat offset + unat len < 2 ^ 32 then InvalidArgument else OverflowError)"
  using assms
  by (auto simp: blob_range_def checked_add_u32 word_less_nat_alt unat_add_no_overflow)

lemma blob_assign_range: "blob_assign b offset len = blob_range b offset len"
  by (simp add: blob_assign_def blob_range_def blob_empty_def cong: if_cong)

lemma blob_range_from_Inr:
  assumes "blob_wf b" and "unat offset \<le> unat (blob_length b)"
  shows "\<exists>r. blob_range_from b offset = Inr r \<and> blob_wf r \<and>
             blob_length r = blob_length b - offset \<and>
             blob_bytes r = drop (unat offset) (blob_bytes b)"
  using assms
  by (auto simp: blob_range_from_def word_less_nat_alt blob_wf_def unat_sub_no_underflow)

lemma blob_shared_Inr:
  assumes "unat a + unat n < 2 ^ 64" and "unat n = length mem"
  shows "blob_shared a mem 0 n =
    Inr \<lparr>blob_buffer = Some a, blob_content = a, blob_length = n, blob_bytes = mem\<rparr>"
  using assms by (simp add: blob_shared_def checked_add_ptr_Inr)

lemma blob_merge_Inr:
  assumes "alloc_ok alloc" "blob_wf x" "blob_wf y"
    and "unat (blob_length x) + unat (blob_length y) < 2 ^ 32"
  shows "\<exists>r. blob_merge alloc x y = Inr r \<and> blob_wf r \<and> blob_bytes r = blob_bytes x @ blob_bytes y"
proof (cases "blob_is_empty x \<or> blob_is_empty y")
  case True
  then show ?thesis
    using assms(2,3) by (auto simp: blob_merge_def blob_is_empty_iff)
next
  case False
  let ?n = "blob_length x + blob_length y"
  have n: "unat ?n = unat (blob_length x) + unat (blob_length y)"
    using assms(4) by (simp add: unat_add_no_overflow)
  from assms(1) obtain a where a: "alloc ?n = Inr a" "unat a + unat ?n < 2 ^ 64"
    unfolding alloc_ok_def by blast
  have "unat ?n = length (blob_bytes x @ blob_bytes y)"
    using assms(2,3) n by (simp add: blob_wf_def)
  with a have "blob_shared a (blob_bytes x @ blob_bytes y) 0 ?n =
      Inr \<lparr>blob_buffer = Some a, blob_content = a, blob_length = ?n,
           blob_bytes = blob_bytes x @ blob_bytes y\<rparr>"
    by (intro blob_shared_Inr) auto
  with False a n assms(2-4) show ?thesis
    by (simp add: blob_merge_def checked_add_u32 blob_wf_def)
qed

lemma merged_length_Inr:
  assumes "unat n + sum_list (map (\<lambda>b. unat (blob_length b)) bs) < 2 ^ 32"
  shows "\<exists>l. merged_length n bs = Inr l \<and>
             unat l = unat n + sum_list (map (\<lambda>b. unat (blob_length b)) bs)"
  using assms
proof (induction bs arbitrary: n)
  case Nil
  then show ?case by simp
next
  case (Cons b bs)
  then have "unat (n + blob_length b) = unat n + unat (blob_length b)"
    by (simp add: unat_add_no_overflow)
  with Cons.IH [of "n + blob_length b"] Cons.prems show ?case
    by (auto simp: checked_add_u32 add.assoc)
qed

lemma merged_length_Inl:
  assumes "2 ^ 32 \<le> unat n + sum_list (map (\<lambda>b. unat (blob_length b)) bs)"
  shows "merged_length n bs = Inl OverflowError"
  using assms
proof (induction bs arbitrary: n)
  case Nil
  then show ?case using unat_u32_bound [of n] by simp
next
  case (Cons b bs)
  show ?case
  proof (cases "unat n + unat (blob_length b) < 2 ^ 32")
    case True
    then have "unat (n + blob_length b) = unat n + unat (blob_length b)"
      by (simp add: unat_add_no_overflow)
    with Cons True show ?thesis by (simp add: checked_add_u32 add.assoc)
  next
    case False
    then show ?thesis by (simp add: checked_add_u32)
  qed
qed

lemma blobs_wf_total:
  "\<forall>b \<in> set bs. blob_wf b \<Longrightarrow>
   sum_list (map (\<lambda>b. unat (blob_length b)) bs) = length (concat (map blob_bytes bs))"
  by (induction bs) (auto simp: blob_wf_def)

text \<open>
  Merging a sequence of blobs concatenates their bytes, whichever of the three branches of the
  code is taken, and throws exactly when the total does not fit 32 bits.
\<close>

theorem blob_merge_all_Inr:
  assumes "alloc_ok alloc" and wf: "\<forall>b \<in> set bs. blob_wf b"
    and small: "length (concat (map blob_bytes bs)) < 2 ^ 32"
  shows "\<exists>r. blob_merge_all alloc bs = Inr r \<and> blob_wf r \<and>
             blob_bytes r = concat (map blob_bytes bs)"
proof -
  let ?all = "concat (map blob_bytes bs)"
  obtain l where l: "merged_length 0 bs = Inr l" "unat l = length ?all"
    using merged_length_Inr [of 0 bs] blobs_wf_total [OF wf] small by auto
  consider "l = 0" | "l \<noteq> 0" "l = blob_length (hd bs)" | "l \<noteq> 0" "l \<noteq> blob_length (hd bs)"
    by blast
  then show ?thesis
  proof cases
    case 1
    with l have "?all = []" by simp
    with 1 l show ?thesis by (simp add: blob_merge_all_def)
  next
    case 2
    with l obtain b cs where bs: "bs = b # cs" by (cases bs) auto
    with wf have "length (blob_bytes b) = unat (blob_length b)" by (simp add: blob_wf_def)
    with 2 l bs have "concat (map blob_bytes cs) = []" by simp
    with 2 l bs wf show ?thesis by (simp add: blob_merge_all_def)
  next
    case 3
    from assms(1) obtain a where "alloc l = Inr a" "unat a + unat l < 2 ^ 64"
      unfolding alloc_ok_def by blast
    with 3 l show ?thesis
      by (simp add: blob_merge_all_def blob_shared_Inr blob_wf_def)
  qed
qed

lemma blob_merge_all_Inl:
  assumes wf: "\<forall>b \<in> set bs. blob_wf b" and "2 ^ 32 \<le> length (concat (map blob_bytes bs))"
  shows "blob_merge_all alloc bs = Inl OverflowError"
  using merged_length_Inl [of 0 bs] blobs_wf_total [OF wf] assms(2)
  by (simp add: blob_merge_all_def)

lemma blob_eq_iff: "blob_wf b \<Longrightarrow> blob_wf c \<Longrightarrow> blob_eq b c \<longleftrightarrow> blob_bytes b = blob_bytes c"
  by (auto simp: blob_eq_def blob_wf_def intro: word_unat_eq_iff [THEN iffD2])

text \<open>\<open>blob_prolong\<close> always returns an owning blob with the same bytes.\<close>

lemma blob_prolong_owned:
  assumes "alloc_ok alloc" and "blob_wf b"
  shows "\<exists>r. blob_prolong alloc b = Inr r \<and> blob_wf r \<and> blob_bytes r = blob_bytes b \<and>
             blob_buffer r \<noteq> None"
proof (cases "blob_buffer b")
  case (Some p)
  with assms show ?thesis by (simp add: blob_prolong_def)
next
  case None
  from assms(1) obtain a where "alloc (blob_length b) = Inr a"
      "unat a + unat (blob_length b) < 2 ^ 64"
    unfolding alloc_ok_def by blast
  with None assms(2) show ?thesis
    by (simp add: blob_prolong_def blob_shared_Inr blob_wf_def)
qed

end
