(* ===== verification/Input_Buffer.thy ===== *)
theory Input_Buffer
  imports Blob
begin

text \<open>
  The memory backed input stream of \<^verbatim>\<open>src/cpp/inc/bond/stream/input_buffer.h\<close> and the varint
  reader of \<^verbatim>\<open>src/cpp/inc/bond/protocol/encoding.h\<close>. The state is the blob that is read and the
  32-bit read position. Reading an arithmetic type reads its little-endian object representation
  (\<open>ib_read_le\<close>). \<open>ReadVariableUnsigned\<close> has two paths, the unrolled one that does no bounds
  checks (\<open>vuu_read\<close>) and the generic one (\<open>generic_read_loop\<close>).
\<close>

section \<open>State and fixed-size reads\<close>

record InputBuffer =
  ib_blob :: blob
  ib_pointer :: u32

definition InputBuffer_of :: "blob \<Rightarrow> InputBuffer" where
  "InputBuffer_of b = \<lparr>ib_blob = b, ib_pointer = 0\<rparr>"

definition ib_eq :: "InputBuffer \<Rightarrow> InputBuffer \<Rightarrow> bool" where
  "ib_eq x rhs \<longleftrightarrow> blob_eq (ib_blob x) (ib_blob rhs) \<and> ib_pointer x = ib_pointer rhs"

definition EofException :: "InputBuffer \<Rightarrow> u32 \<Rightarrow> exn" where
  "EofException ib sz =
     StreamException (unat sz) (unat (ib_pointer ib)) (unat (blob_length (ib_blob ib)))"

text \<open>\<open>Read(uint8_t&)\<close>\<close>

definition ib_read_u8 :: "(InputBuffer, u8) st" where
  "ib_read_u8 ib =
     (if blob_length (ib_blob ib) = ib_pointer ib then Inl (EofException ib 1)
      else Inr (blob_bytes (ib_blob ib) ! unat (ib_pointer ib),
                ib\<lparr>ib_pointer := ib_pointer ib + 1\<rparr>))"

text \<open>\<open>Read(void*, uint32_t)\<close>\<close>

definition ib_read_mem :: "u32 \<Rightarrow> (InputBuffer, byte list) st" where
  "ib_read_mem sz ib =
     (if sz > blob_length (ib_blob ib) - ib_pointer ib then Inl (EofException ib sz)
      else Inr (take (unat sz) (drop (unat (ib_pointer ib)) (blob_bytes (ib_blob ib))),
                ib\<lparr>ib_pointer := ib_pointer ib + sz\<rparr>))"

text \<open>\<open>Read(T&)\<close> for an arithmetic type of \<open>sz\<close> bytes\<close>

definition ib_read_le :: "u32 \<Rightarrow> (InputBuffer, 'a::len word) st" where
  "ib_read_le sz ib =
     (if sz > blob_length (ib_blob ib) - ib_pointer ib then Inl (EofException ib sz)
      else Inr (of_le (take (unat sz) (drop (unat (ib_pointer ib)) (blob_bytes (ib_blob ib)))),
                ib\<lparr>ib_pointer := ib_pointer ib + sz\<rparr>))"

text \<open>\<open>Read(blob&, uint32_t)\<close>\<close>

definition ib_read_blob :: "u32 \<Rightarrow> (InputBuffer, blob) st" where
  "ib_read_blob sz ib =
     (if sz > blob_length (ib_blob ib) - ib_pointer ib then Inl (EofException ib sz)
      else res_bind (blob_assign (ib_blob ib) (ib_pointer ib) sz) (\<lambda>b.
             Inr (b, ib\<lparr>ib_pointer := ib_pointer ib + sz\<rparr>)))"

text \<open>\<open>Skip\<close> past the end leaves the position where it is and does not throw.\<close>

definition ib_skip :: "u32 \<Rightarrow> (InputBuffer, unit) st" where
  "ib_skip sz ib =
     (if sz > blob_length (ib_blob ib) - ib_pointer ib then Inr ((), ib)
      else Inr ((), ib\<lparr>ib_pointer := ib_pointer ib + sz\<rparr>))"

definition ib_IsEof :: "InputBuffer \<Rightarrow> bool" where
  "ib_IsEof ib \<longleftrightarrow> ib_pointer ib = blob_length (ib_blob ib)"

definition GetCurrentBuffer :: "InputBuffer \<Rightarrow> blob res" where
  "GetCurrentBuffer ib = blob_range_from (ib_blob ib) (ib_pointer ib)"

section \<open>Varint reads\<close>

text \<open>
  The last byte of the unrolled reader: shift 14, 28 and 56 for \<^verbatim>\<open>uint16_t\<close>, \<^verbatim>\<open>uint32_t\<close> and
  \<^verbatim>\<open>uint64_t\<close>, the template specializations of the source.
\<close>

definition vuu_last :: "nat \<Rightarrow> nat" where
  "vuu_last width = (if width = 16 then 14 else if width = 32 then 28 else 56)"

text \<open>
  \<open>VariableUnsignedUnchecked<T, Shift>::Read\<close> on the bytes at the pointer. \<^verbatim>\<open>T byte = *p++\<close>
  converts a plain (signed) \<^verbatim>\<open>char\<close>, so the byte is sign-extended to the width of \<open>T\<close>. Reading
  past the memory the pointer designates is \<open>OutOfBounds\<close>.
\<close>

fun vuu_read :: "nat \<Rightarrow> byte list \<Rightarrow> 'a::len word \<Rightarrow> ('a word \<times> byte list) res" where
  "vuu_read shift [] val = Inl OutOfBounds"
| "vuu_read shift (c # p) val =
     (let byte = (scast c :: 'a word)
      in if shift = 0 then
           (if byte \<ge> 0x80 then vuu_read 7 p (byte AND 0x7f) else Inr (byte AND 0x7f, p))
         else if shift = vuu_last LENGTH('a) then
           (let val' = val OR push_bit shift byte
            in if LENGTH('a) = 64 \<and> byte \<ge> 0x80
               then (case p of [] \<Rightarrow> Inl OutOfBounds | _ # p' \<Rightarrow> Inr (val', p'))
               else Inr (val', p))
         else
           (let val' = val OR push_bit shift (byte AND 0x7f)
            in if byte \<ge> 0x80 then vuu_read (shift + 7) p val' else Inr (val', p)))"

text \<open>
  \<open>part << shift\<close> of the generic reader is evaluated in the promoted type: 32 bits (as a signed
  \<^verbatim>\<open>int\<close>, whose result must be representable) for \<^verbatim>\<open>uint16_t\<close>, the type itself for the wider ones.
\<close>

definition shl_defined :: "nat \<Rightarrow> nat \<Rightarrow> nat \<Rightarrow> bool" where
  "shl_defined width part shift \<longleftrightarrow>
     (if width < 32 then shift < 32 \<and> part * 2 ^ shift < 2 ^ 32 else shift < width)"

function generic_read_loop :: "nat \<Rightarrow> 'a::len word \<Rightarrow> (InputBuffer, 'a word) st" where
  "generic_read_loop shift val ib =
     (case ib_read_u8 ib of
        Inl e \<Rightarrow> Inl e
      | Inr (byte, ib') \<Rightarrow>
          (let part = (ucast (byte AND 0x7f) :: 'a word)
           in if \<not> shl_defined LENGTH('a) (unat (byte AND 0x7f)) shift then Inl UndefinedShift
              else if byte \<ge> 0x80
              then generic_read_loop (shift + 7) (val + push_bit shift part) ib'
              else Inr (val + push_bit shift part, ib')))"
  by pat_completeness auto
termination
  by (relation "measure (\<lambda>(shift, val :: 'a word, ib). (32 + LENGTH('a)) - shift)")
    (auto simp: shl_defined_def split: if_splits)

definition GenericReadVariableUnsigned :: "(InputBuffer, 'a::len word) st" where
  "GenericReadVariableUnsigned = generic_read_loop 0 0"

text \<open>\<open>ReadVariableUnsigned\<close>: unrolled when enough bytes remain for the longest encoding.\<close>

definition ReadVariableUnsigned :: "(InputBuffer, 'a::len word) st" where
  "ReadVariableUnsigned ib =
     (if unat (blob_length (ib_blob ib)) > unat (ib_pointer ib) + (LENGTH('a) div 8) * 8 div 7
      then res_bind (vuu_read 0 (drop (unat (ib_pointer ib)) (blob_bytes (ib_blob ib))) 0)
             (\<lambda>(v, p). Inr (v, ib\<lparr>ib_pointer :=
                of_nat (length (blob_bytes (ib_blob ib)) - length p)\<rparr>))
      else GenericReadVariableUnsigned ib)"

declare generic_read_loop.simps [simp del]

section \<open>The stream as a sequence of bytes\<close>

text \<open>
  The invariant of the class: the blob is well formed and the position is inside it. The
  abstraction is the list of bytes not yet read; \<open>ib_at ib bs\<close> says both.
\<close>

definition ib_ok :: "InputBuffer \<Rightarrow> bool" where
  "ib_ok ib \<longleftrightarrow> blob_wf (ib_blob ib) \<and> unat (ib_pointer ib) \<le> unat (blob_length (ib_blob ib))"

definition ib_rest :: "InputBuffer \<Rightarrow> byte list" where
  "ib_rest ib = drop (unat (ib_pointer ib)) (blob_bytes (ib_blob ib))"

definition ib_at :: "InputBuffer \<Rightarrow> byte list \<Rightarrow> bool" where
  "ib_at ib bs \<longleftrightarrow> ib_ok ib \<and> ib_rest ib = bs"

definition ib_adv :: "nat \<Rightarrow> InputBuffer \<Rightarrow> InputBuffer" where
  "ib_adv n ib = ib\<lparr>ib_pointer := ib_pointer ib + of_nat n\<rparr>"

lemma ib_adv_blob [simp]: "ib_blob (ib_adv n ib) = ib_blob ib"
  by (simp add: ib_adv_def)

lemma ib_at_InputBuffer_of: "blob_wf b \<Longrightarrow> ib_at (InputBuffer_of b) (blob_bytes b)"
  by (simp add: ib_at_def ib_ok_def ib_rest_def InputBuffer_of_def)

lemma ib_at_ok: "ib_at ib bs \<Longrightarrow> ib_ok ib"
  by (simp add: ib_at_def)

lemma ib_ok_at: "ib_ok ib \<Longrightarrow> ib_at ib (ib_rest ib)"
  by (simp add: ib_at_def)

lemma length_ib_rest:
  "ib_ok ib \<Longrightarrow> length (ib_rest ib) = unat (blob_length (ib_blob ib)) - unat (ib_pointer ib)"
  by (simp add: ib_ok_def ib_rest_def blob_wf_def)

lemma ib_at_remaining:
  "ib_at ib bs \<Longrightarrow> unat (blob_length (ib_blob ib) - ib_pointer ib) = length bs"
  by (auto simp: ib_at_def ib_ok_def ib_rest_def blob_wf_def unat_sub_no_underflow)

lemma ib_at_bound: "ib_at ib bs \<Longrightarrow> length bs < 2 ^ 32"
  using ib_at_remaining [of ib bs] unat_u32_bound [of "blob_length (ib_blob ib) - ib_pointer ib"]
  by simp

lemma ib_at_end: "ib_at ib bs \<Longrightarrow> unat (ib_pointer ib) + length bs = unat (blob_length (ib_blob ib))"
  by (auto simp: ib_at_def ib_ok_def ib_rest_def blob_wf_def)

lemma unat_ib_adv:
  assumes "ib_at ib bs" and "n \<le> length bs"
  shows "unat (ib_pointer (ib_adv n ib)) = unat (ib_pointer ib) + n"
proof -
  have "unat (ib_pointer ib) + n < 2 ^ 32"
    using ib_at_end [OF assms(1)] assms(2) unat_u32_bound [of "blob_length (ib_blob ib)"] by simp
  then show ?thesis by (simp add: ib_adv_def unat_add_no_overflow unat_of_nat_small)
qed

lemma ib_at_adv: "ib_at ib bs \<Longrightarrow> n \<le> length bs \<Longrightarrow> ib_at (ib_adv n ib) (drop n bs)"
  using ib_at_end [of ib bs] unat_ib_adv [of ib bs n]
  by (auto simp: ib_at_def ib_ok_def ib_rest_def add.commute)

lemma ib_at_adv_append: "ib_at ib (bs @ cs) \<Longrightarrow> ib_at (ib_adv (length bs) ib) cs"
  using ib_at_adv [of ib "bs @ cs" "length bs"] by simp

lemma ib_adv_0 [simp]: "ib_adv 0 ib = ib"
  by (simp add: ib_adv_def)

lemma ib_adv_adv [simp]: "ib_adv m (ib_adv n ib) = ib_adv (n + m) ib"
  by (simp add: ib_adv_def add.assoc)

lemma ib_pointer_add: "ib\<lparr>ib_pointer := ib_pointer ib + of_nat n\<rparr> = ib_adv n ib"
  by (simp add: ib_adv_def)

subsection \<open>Reads on the abstract state\<close>

lemma ib_read_u8_Cons:
  assumes "ib_at ib (b # bs)"
  shows "ib_read_u8 ib = Inr (b, ib_adv 1 ib)"
proof -
  have "unat (ib_pointer ib) \<noteq> unat (blob_length (ib_blob ib))"
    using ib_at_end [OF assms] by simp
  then have "blob_length (ib_blob ib) \<noteq> ib_pointer ib" by auto
  moreover have "blob_bytes (ib_blob ib) ! unat (ib_pointer ib) = b"
    using assms unfolding ib_at_def ib_rest_def
    by (metis nth_via_drop)
  ultimately show ?thesis
    using ib_pointer_add [of ib 1] by (simp add: ib_read_u8_def)
qed

lemma ib_read_u8_Nil:
  assumes "ib_at ib []"
  shows "ib_read_u8 ib = Inl (EofException ib 1)"
proof -
  have "blob_length (ib_blob ib) = ib_pointer ib"
    using ib_at_end [OF assms] by (simp add: word_unat_eq_iff)
  then show ?thesis by (simp add: ib_read_u8_def)
qed

lemma size_not_gt:
  "ib_at ib bs \<Longrightarrow> sz > blob_length (ib_blob ib) - ib_pointer ib \<longleftrightarrow> length bs < unat sz"
  by (simp add: word_less_nat_alt ib_at_remaining)

lemma ib_read_mem_at:
  assumes "ib_at ib bs"
  shows "ib_read_mem sz ib =
    (if unat sz \<le> length bs then Inr (take (unat sz) bs, ib_adv (unat sz) ib)
     else Inl (EofException ib sz))"
proof -
  have "drop (unat (ib_pointer ib)) (blob_bytes (ib_blob ib)) = bs"
    using assms by (simp add: ib_at_def ib_rest_def)
  then show ?thesis
    using assms ib_pointer_add [of ib "unat sz"]
    by (auto simp: ib_read_mem_def size_not_gt)
qed

lemma ib_read_le_at:
  assumes "ib_at ib bs"
  shows "ib_read_le sz ib =
    (if unat sz \<le> length bs then Inr (of_le (take (unat sz) bs), ib_adv (unat sz) ib)
     else Inl (EofException ib sz))"
proof -
  have "drop (unat (ib_pointer ib)) (blob_bytes (ib_blob ib)) = bs"
    using assms by (simp add: ib_at_def ib_rest_def)
  then show ?thesis
    using assms ib_pointer_add [of ib "unat sz"]
    by (auto simp: ib_read_le_def size_not_gt)
qed

lemma ib_skip_at:
  assumes "ib_at ib bs"
  shows "ib_skip sz ib =
    Inr ((), if unat sz \<le> length bs then ib_adv (unat sz) ib else ib)"
  using assms ib_pointer_add [of ib "unat sz"]
  by (auto simp: ib_skip_def size_not_gt)

lemma ib_read_blob_at:
  assumes "ib_at ib bs" and "unat sz \<le> length bs"
  shows "\<exists>b. ib_read_blob sz ib = Inr (b, ib_adv (unat sz) ib) \<and> blob_wf b \<and>
             blob_length b = sz \<and> blob_bytes b = take (unat sz) bs"
proof -
  have "blob_wf (ib_blob ib)" and bs: "drop (unat (ib_pointer ib)) (blob_bytes (ib_blob ib)) = bs"
    using assms(1) by (auto simp: ib_at_def ib_ok_def ib_rest_def)
  moreover have "unat (ib_pointer ib) + unat sz \<le> unat (blob_length (ib_blob ib))"
    using ib_at_end [OF assms(1)] assms(2) by simp
  ultimately obtain b where "blob_range (ib_blob ib) (ib_pointer ib) sz = Inr b" "blob_wf b"
      "blob_length b = sz" "blob_bytes b = take (unat sz) bs"
    using blob_range_Inr by blast
  then show ?thesis
    using assms ib_pointer_add [of ib "unat sz"]
    by (auto simp: ib_read_blob_def size_not_gt blob_assign_range)
qed

lemma ib_read_blob_eof:
  "ib_at ib bs \<Longrightarrow> length bs < unat sz \<Longrightarrow> ib_read_blob sz ib = Inl (EofException ib sz)"
  by (simp add: ib_read_blob_def size_not_gt)

lemma GetCurrentBuffer_at:
  assumes "ib_at ib bs"
  shows "\<exists>b. GetCurrentBuffer ib = Inr b \<and> blob_wf b \<and> blob_bytes b = bs"
  using blob_range_from_Inr [of "ib_blob ib" "ib_pointer ib"] assms
  by (auto simp: GetCurrentBuffer_def ib_at_def ib_ok_def ib_rest_def)

end
