(* ===== verification/Varint.thy ===== *)
theory Varint
  imports Input_Buffer
begin

text \<open>
  The variable-length and zigzag integer encodings of \<^verbatim>\<open>src/cpp/inc/bond/protocol/encoding.h\<close>.
  \<open>varint n\<close> is the encoding the protocol documentation describes (seven bits a byte, lowest
  first, the high bit marks a continuation). The reader of theory \<open>Input_Buffer\<close> is proved to
  decode it on both of its paths, to be memory safe on arbitrary input, and the zigzag mapping is
  proved to be a bijection with the documented numbering.
\<close>

unbundle bit_operations_syntax

section \<open>Definitions\<close>

definition EncodeZigZag :: "'a::len word \<Rightarrow> 'a word" where
  "EncodeZigZag v = push_bit 1 v XOR signed_drop_bit (LENGTH('a) - 1) v"

definition DecodeZigZag :: "'a::len word \<Rightarrow> 'a word" where
  "DecodeZigZag v = drop_bit 1 v XOR (- (v AND 1))"

fun varint :: "nat \<Rightarrow> byte list" where
  "varint n = (if n < 128 then [of_nat n] else of_nat (n mod 128 + 128) # varint (n div 128))"

declare varint.simps [simp del]

section \<open>Decoding canonical encodings\<close>

lemma varint_small: "n < 128 \<Longrightarrow> varint n = [of_nat n]"
  by (simp add: varint.simps)

lemma varint_big: "128 \<le> n \<Longrightarrow> varint n = of_nat (n mod 128 + 128) # varint (n div 128)"
  by (simp add: varint.simps)

lemma varint_not_Nil [simp]: "varint n \<noteq> []"
  by (simp add: varint.simps)

lemma length_varint_pos [simp]: "0 < length (varint n)"
  by simp

lemma bit_7_iff: "bit (c :: byte) 7 \<longleftrightarrow> 128 \<le> unat c"
proof -
  have "unat c < 256" using unsigned_less [of c, where ?'a = nat] by simp
  then have "unat c div 128 < 2" by auto
  moreover have "bit c 7 \<longleftrightarrow> bit (unat c) 7"
    by (simp add: bit_unsigned_iff)
  ultimately show ?thesis by (auto simp: bit_iff_odd odd_iff_mod_2_eq_one)
qed

lemma scast_and_7f:
  fixes c :: byte
  assumes "8 \<le> LENGTH('a::len)"
  shows "(scast c :: 'a word) AND 0x7f = ucast (c AND 0x7f)"
proof -
  have m: "(0x7f :: 'a word) = mask 7" "(0x7f :: byte) = mask 7"
    by (simp_all add: mask_eq_exp_minus_1)
  show ?thesis
    unfolding m by (rule bit_word_eqI) (use assms in \<open>auto simp: bit_simps min_def\<close>)
qed


lemma bit_imp_ge: "bit (w :: 'a::len word) n \<Longrightarrow> 2 ^ n \<le> unat w"
proof (rule ccontr)
  assume "bit w n" and "\<not> 2 ^ n \<le> unat w"
  then have "bit (unat w) n" and "unat w div 2 ^ n = 0" by (simp_all add: bit_unsigned_iff)
  then show False by (simp add: bit_iff_odd)
qed

lemma unat_numeral_small:
  "(numeral k :: nat) < 2 ^ LENGTH('a) \<Longrightarrow> unat (numeral k :: 'a::len word) = numeral k"
  using unat_of_nat_small [of "numeral k", where 'a = 'a] by simp

lemma pow_le_length: "k \<le> LENGTH('a::len) \<Longrightarrow> n < 2 ^ k \<Longrightarrow> (n::nat) < 2 ^ LENGTH('a)"
  by (meson less_le_trans one_le_numeral power_increasing)

lemma unat_80: "16 \<le> LENGTH('a::len) \<Longrightarrow> unat (0x80 :: 'a word) = 128"
  by (rule unat_numeral_small) (rule pow_le_length [of 16], auto)

lemma scast_ge_80:
  fixes c :: byte
  assumes "16 \<le> LENGTH('a::len)"
  shows "(0x80 :: 'a word) \<le> scast c \<longleftrightarrow> 128 \<le> unat c"
proof (cases "bit c 7")
  case True
  then have "bit (scast c :: 'a word) 7" using assms by (simp add: bit_simps)
  then have "2 ^ 7 \<le> unat (scast c :: 'a word)" by (rule bit_imp_ge)
  then show ?thesis using True unat_80 [OF assms] by (simp add: word_le_nat_alt bit_7_iff)
next
  case False
  have "\<not> bit c i" if "7 \<le> i" for i
    using that False bit_imp_le_length [of c i] by (cases "i = 7") auto
  then have "(scast c :: 'a word) = ucast c"
    by (intro bit_word_eqI) (use False in \<open>auto simp: bit_simps min_def\<close>)
  then show ?thesis using assms unat_80 [OF assms]
    by (simp add: word_le_nat_alt unat_ucast_up)
qed

lemma ge_80: "(0x80 :: byte) \<le> c \<longleftrightarrow> 128 \<le> unat c"
  by (simp add: word_le_nat_alt)

lemma and_7f: "c AND 0x7f = take_bit 7 (c :: byte)"
  by (simp add: take_bit_eq_mask mask_eq_exp_minus_1)

lemma unat_take_bit_7: "unat (take_bit 7 (c :: byte)) = unat c mod 128"
  by (simp add: unsigned_take_bit_eq) (simp add: take_bit_eq_mod)

lemma unat_varint_byte:
  "n < 128 \<Longrightarrow> unat (of_nat n :: byte) = n"
  "unat (of_nat (n mod 128 + 128) :: byte) = n mod 128 + 128"
  by (rule unat_of_nat_small, simp)+

lemma of_nat_mod_div:
  "(of_nat (n * 2 ^ s) :: 'a::len word) = of_nat ((n mod 128) * 2 ^ s) + of_nat ((n div 128) * 2 ^ (s + 7))"
proof -
  have "n * 2 ^ s = (n mod 128) * 2 ^ s + (n div 128) * 2 ^ (s + 7)"
    by (subst mod_mult_div_eq [of n 128, symmetric], subst add_mult_distrib) (simp add: power_add)
  then show ?thesis by (simp only: of_nat_add)
qed

lemma push_bit_of_nat: "push_bit s (of_nat n :: 'a::len word) = of_nat (n * 2 ^ s)"
  by (simp add: push_bit_eq_mult)

lemma ucast_eq_of_nat: "(ucast (c :: byte) :: 'a::len word) = of_nat (unat c)"
  by simp

lemma shl_defined_small:
  assumes "p * 2 ^ shift < 2 ^ LENGTH('a::len)" and "16 \<le> LENGTH('a)" and "shift < LENGTH('a)"
  shows "shl_defined LENGTH('a) p shift"
proof (cases "LENGTH('a) < 32")
  case True
  then have "(2::nat) ^ LENGTH('a) \<le> 2 ^ 32" by (intro power_increasing) auto
  with assms True show ?thesis by (auto simp: shl_defined_def)
next
  case False
  with assms show ?thesis by (simp add: shl_defined_def)
qed

theorem generic_read_varint:
  fixes val :: "'a::len word"
  assumes "ib_at ib (varint n @ rest)" and "n * 2 ^ shift < 2 ^ LENGTH('a)"
    and "16 \<le> LENGTH('a)" and "0 < n \<or> shift = 0"
  shows "generic_read_loop shift val ib =
     Inr (val + of_nat (n * 2 ^ shift), ib_adv (length (varint n)) ib)"
  using assms
proof (induction n arbitrary: shift val ib rule: varint.induct)
  case (1 n)
  have shift: "shift < LENGTH('a)"
  proof (cases "shift = 0")
    case False
    with "1.prems"(4) have "2 ^ shift \<le> n * 2 ^ shift" by simp
    with "1.prems"(2) have "(2::nat) ^ shift < 2 ^ LENGTH('a)" by linarith
    then show ?thesis by (rule power_less_imp_less_exp [rotated]) simp
  qed simp
  show ?case
  proof (cases "n < 128")
    case True
    with "1.prems"(1) have "ib_read_u8 ib = Inr (of_nat n, ib_adv 1 ib)"
      by (intro ib_read_u8_Cons) (simp add: varint_small)
    moreover have "shl_defined LENGTH('a) n shift"
      using "1.prems"(2,3) shift by (rule shl_defined_small)
    ultimately show ?thesis
      using True
      by (simp add: generic_read_loop.simps [of shift val ib] varint_small and_7f
          unat_take_bit_7 ge_80 unat_varint_byte ucast_eq_of_nat push_bit_of_nat
          del: of_nat_unat of_nat_mult)
  next
    case False
    let ?c = "of_nat (n mod 128 + 128) :: byte"
    from False "1.prems"(1) have at: "ib_at ib (?c # varint (n div 128) @ rest)"
      by (simp add: varint_big)
    then have rd: "ib_read_u8 ib = Inr (?c, ib_adv 1 ib)" by (rule ib_read_u8_Cons)
    have at': "ib_at (ib_adv 1 ib) (varint (n div 128) @ rest)"
      using ib_at_adv_append [of ib "[?c]"] at by simp
    have "(n div 128) * 2 ^ (shift + 7) \<le> n * 2 ^ shift" 
      by (simp add: power_add)
    with "1.prems"(2) have lt: "(n div 128) * 2 ^ (shift + 7) < 2 ^ LENGTH('a)" by linarith
    have "(n mod 128) * 2 ^ shift \<le> n * 2 ^ shift" by simp
    with "1.prems"(2) have "(n mod 128) * 2 ^ shift < 2 ^ LENGTH('a)" by linarith
    then have def: "shl_defined LENGTH('a) (n mod 128) shift"
      using "1.prems"(3) shift by (rule shl_defined_small)
    let ?v = "val + of_nat ((n mod 128) * 2 ^ shift)"
    have "generic_read_loop (shift + 7) ?v (ib_adv 1 ib) =
        Inr (?v + of_nat ((n div 128) * 2 ^ (shift + 7)), ib_adv (length (varint (n div 128))) (ib_adv 1 ib))"
      using False by (intro "1.IH" at' lt "1.prems"(3)) auto
    then show ?thesis
      using False rd def
      by (simp add: generic_read_loop.simps [of shift val ib] varint_big and_7f
          unat_take_bit_7 ge_80 unat_varint_byte ucast_eq_of_nat push_bit_of_nat
          of_nat_mod_div [of n shift] add.assoc
          del: of_nat_unat of_nat_mult of_nat_add)
  qed
qed

lemma push_bit_scast:
  fixes c :: byte
  assumes "LENGTH('a::len) \<le> s + 8"
  shows "push_bit s (scast c :: 'a word) = of_nat (unat c * 2 ^ s)"
proof -
  have "push_bit s (scast c :: 'a word) = push_bit s (ucast c)"
  proof (rule bit_word_eqI)
    fix i assume "i < LENGTH('a)"
    then have "s \<le> i \<Longrightarrow> min 7 (i - s) = i - s" using assms by simp
    then show "bit (push_bit s (scast c :: 'a word)) i = bit (push_bit s (ucast c :: 'a word)) i"
      by (auto simp: bit_simps)
  qed
  then show ?thesis
    by (simp add: ucast_eq_of_nat push_bit_of_nat del: of_nat_unat of_nat_mult)
qed

lemma or_push_bit_eq_add:
  fixes val x :: "'a::len word"
  assumes "unat val < 2 ^ s"
  shows "val OR push_bit s x = val + push_bit s x"
proof -
  have key: "i < s" if "bit val i" for i
  proof -
    have "2 ^ i \<le> unat val" using that by (rule bit_imp_ge)
    with assms have "(2::nat) ^ i < 2 ^ s" by linarith
    then show ?thesis by (rule power_less_imp_less_exp [rotated]) simp
  qed
  have "val AND push_bit s x = 0"
    by (intro bit_word_eqI) (auto simp: bit_simps dest: key)
  then show ?thesis by (simp add: disjunctive_add_eq_or)
qed

lemma or_of_nat_eq_add:
  fixes val :: "'a::len word"
  assumes "unat val < 2 ^ s"
  shows "val OR of_nat (p * 2 ^ s) = val + of_nat (p * 2 ^ s)"
  using or_push_bit_eq_add [OF assms, of "of_nat p"]
  by (simp add: push_bit_of_nat del: of_nat_mult)

lemma unat_add_le: "unat (a + b :: 'a::len word) \<le> unat a + unat b"
  by (simp add: unat_word_ariths)

lemma unat_of_nat_le: "unat (of_nat n :: 'a::len word) \<le> n"
  by (simp add: unat_of_nat)

lemma unat_acc_bound:
  assumes "unat val < 2 ^ s" and "p < 128"
  shows "unat (val + of_nat (p * 2 ^ s) :: 'a::len word) < 2 ^ (s + 7)"
proof -
  have "unat (val + of_nat (p * 2 ^ s)) \<le> unat val + p * 2 ^ s"
    using unat_add_le [of val "of_nat (p * 2 ^ s)"] unat_of_nat_le [of "p * 2 ^ s", where 'a = 'a]
    by linarith
  also have "\<dots> < 2 ^ s + p * 2 ^ s" using assms(1) by simp
  also have "\<dots> = (p + 1) * 2 ^ s" by simp
  also have "\<dots> \<le> 128 * 2 ^ s" using assms(2) by (intro mult_le_mono1) simp
  also have "\<dots> = 2 ^ (s + 7)" by (simp add: power_add)
  finally show ?thesis .
qed

lemma vuu_read_last:
  fixes val :: "'a::len word"
  assumes L: "LENGTH('a) \<in> {16, 32, 64}" and s: "s = vuu_last LENGTH('a)"
    and n: "n * 2 ^ s < 2 ^ LENGTH('a)" and val: "unat val < 2 ^ s"
  shows "vuu_read s (varint n @ rest) val = Inr (val + of_nat (n * 2 ^ s), rest)"
proof -
  have s8: "LENGTH('a) \<le> s + 8" and s0: "s \<noteq> 0"
    using L s by (auto simp: vuu_last_def)
  have "n < 256"
  proof (rule ccontr)
    assume "\<not> n < 256"
    then have "256 * 2 ^ s \<le> n * 2 ^ s" by (intro mult_le_mono1) simp
    moreover have "(2::nat) ^ LENGTH('a) \<le> 2 ^ (s + 8)" using s8 by (intro power_increasing) auto
    moreover have "(2::nat) ^ (s + 8) = 256 * 2 ^ s" by (simp add: power_add)
    ultimately show False using n by linarith
  qed
  show ?thesis
  proof (cases "n < 128")
    case True
    then show ?thesis
      using s s0 s8 L val
      by (auto simp: varint_small Let_def or_of_nat_eq_add push_bit_scast scast_ge_80
          unat_varint_byte simp del: of_nat_mult)
  next
    case False
    have "LENGTH('a) = 64"
    proof (rule ccontr)
      assume "LENGTH('a) \<noteq> 64"
      with L s n have "n < 128" by (auto simp: vuu_last_def)
      with False show False by simp
    qed
    moreover have "varint n = [of_nat n, 1]"
    proof -
      from False \<open>n < 256\<close> have d: "n div 128 = 1" by (intro div_nat_eqI) auto
      then have m: "n mod 128 + 128 = n" using mod_mult_div_eq [of n 128] by simp
      have "varint n = of_nat (n mod 128 + 128) # varint (n div 128)"
        using False by (intro varint_big) simp
      also have "\<dots> = of_nat n # varint 1" by (simp only: d m)
      finally show ?thesis by (simp add: varint_small)
    qed
    moreover have "unat (of_nat n :: byte) = n"
      using \<open>n < 256\<close> by (intro unat_of_nat_small) simp
    moreover have "(0x80 :: 'a word) \<le> scast (of_nat n :: byte)"
      using scast_ge_80 [where 'a = 'a] False calculation by simp
    ultimately show ?thesis
      using s [symmetric] s0 s8 val
      by (simp add: Let_def or_of_nat_eq_add push_bit_scast del: of_nat_mult)
  qed
qed

theorem vuu_read_varint:
  fixes val :: "'a::len word"
  assumes "LENGTH('a) \<in> {16, 32, 64}" and "7 dvd s" and "s \<le> vuu_last LENGTH('a)"
    and "n * 2 ^ s < 2 ^ LENGTH('a)" and "unat val < 2 ^ s" 
  shows "vuu_read s (varint n @ rest) val = Inr (val + of_nat (n * 2 ^ s), rest)"
  using assms
proof (induction n arbitrary: s val rule: varint.induct)
  case (1 n)
  have L16: "16 \<le> LENGTH('a)" using "1.prems"(1) by auto
  show ?case
  proof (cases "s = vuu_last LENGTH('a)")
    case True
    with "1.prems" show ?thesis by (intro vuu_read_last)
  next
    case False
    with "1.prems"(1,2,3) have s7: "s + 7 \<le> vuu_last LENGTH('a)" 
      by (auto simp: vuu_last_def elim!: dvdE)
    show ?thesis
    proof (cases "n < 128")
      case True
      then show ?thesis
        using False "1.prems"(5) L16
        by (auto simp: varint_small Let_def or_of_nat_eq_add scast_and_7f scast_ge_80 and_7f
            unat_take_bit_7 unat_varint_byte ucast_eq_of_nat push_bit_of_nat unat_eq_0
            simp del: of_nat_unat of_nat_mult)
    next
      case n: False
      have "(n div 128) * 2 ^ (s + 7) \<le> n * 2 ^ s" by (simp add: power_add)
      with "1.prems"(4) have lt: "(n div 128) * 2 ^ (s + 7) < 2 ^ LENGTH('a)" by linarith
      let ?v = "val + of_nat ((n mod 128) * 2 ^ s)"
      have "vuu_read (s + 7) (varint (n div 128) @ rest) ?v =
          Inr (?v + of_nat ((n div 128) * 2 ^ (s + 7)), rest)"
        using n "1.prems"(1,2,5) s7 lt by (intro "1.IH" unat_acc_bound) auto
      then show ?thesis
        using False n "1.prems"(5) L16
        by (auto simp: varint_big Let_def or_of_nat_eq_add scast_and_7f scast_ge_80 and_7f
            unat_take_bit_7 unat_varint_byte ucast_eq_of_nat push_bit_of_nat unat_eq_0
            of_nat_mod_div [of n s] add.assoc
            simp del: of_nat_unat of_nat_mult of_nat_add)
    qed
  qed
qed

lemma length_varint:
  "n < 2 ^ (7 * k) \<Longrightarrow> 0 < k \<Longrightarrow> length (varint n) \<le> k"
proof (induction n arbitrary: k rule: varint.induct)
  case (1 n)
  show ?case
  proof (cases "n < 128")
    case True
    with "1.prems" show ?thesis by (simp add: varint_small)
  next
    case False
    obtain j where k: "k = Suc j" using "1.prems"(2) by (cases k) auto
    with "1.prems"(1) have "n div 128 < 2 ^ (7 * j)"
      by (simp add: power_add less_mult_imp_div_less)
    moreover have "0 < j" using "1.prems"(1) False k by (cases j) auto
    ultimately have "length (varint (n div 128)) \<le> j" using False by (intro "1.IH") auto
    with False k show ?thesis by (simp add: varint_big)
  qed
qed

text \<open>Both paths of the reader decode a canonical encoding of any value of the type.\<close>

lemma ReadVariableUnsigned_varint:
  fixes v :: "'a::len word"
  assumes L: "LENGTH('a) \<in> {16, 32, 64}" and at: "ib_at ib (varint (unat v) @ rest)"
  shows "ReadVariableUnsigned ib = Inr (v, ib_adv (length (varint (unat v))) ib)"
proof (cases "unat (blob_length (ib_blob ib)) > unat (ib_pointer ib) + (LENGTH('a) div 8) * 8 div 7")
  case True
  have bytes: "drop (unat (ib_pointer ib)) (blob_bytes (ib_blob ib)) = varint (unat v) @ rest"
    using at by (simp add: ib_at_def ib_rest_def)
  have lt: "unat v < 2 ^ LENGTH('a)" by (rule unsigned_less)
  have "vuu_read 0 (varint (unat v) @ rest) (0 :: 'a word) = Inr (v, rest)"
    using vuu_read_varint [of 0 "unat v" "0 :: 'a word" rest] L lt by simp
  moreover have "length (blob_bytes (ib_blob ib)) = unat (blob_length (ib_blob ib))"
    using at by (simp add: ib_at_def ib_ok_def blob_wf_def)
  then have "length (blob_bytes (ib_blob ib)) - length rest =
      unat (ib_pointer ib) + length (varint (unat v))"
    using ib_at_end [OF at] by simp
  ultimately show ?thesis
    using True by (simp add: ReadVariableUnsigned_def bytes ib_adv_def)
next
  case False
  then show ?thesis
    using generic_read_varint [OF at, of 0 "0 :: 'a word"] L unsigned_less [of v, where ?'a = nat]
    by (auto simp: ReadVariableUnsigned_def GenericReadVariableUnsigned_def)
qed

section \<open>Memory safety on arbitrary input\<close>

text \<open>
  The unrolled path takes at most \<open>w * 8 / 7 + 1\<close> bytes, which its guard guarantees to be there.
\<close>

definition vuu_need :: "nat \<Rightarrow> nat \<Rightarrow> nat" where
  "vuu_need width s = (vuu_last width - s) div 7 + (if width = 64 then 2 else 1)"

lemma vuu_read_in_bounds:
  fixes val :: "'a::len word"
  assumes "LENGTH('a) \<in> {16, 32, 64}" and "7 dvd s" and "s \<le> vuu_last LENGTH('a)"
    and "vuu_need LENGTH('a) s \<le> length p"
  shows "\<exists>v k. vuu_read s p val = Inr (v, drop k p) \<and> 0 < k \<and> k \<le> vuu_need LENGTH('a) s"
  using assms
proof (induction p arbitrary: s val)
  case Nil
  then show ?case by (simp add: vuu_need_def split: if_splits)
next
  case (Cons c p)
  show ?case
  proof (cases "s = vuu_last LENGTH('a)")
    case True
    then have "s \<noteq> 0" using Cons.prems(1) by (auto simp: vuu_last_def)
    show ?thesis
    proof (cases "LENGTH('a) = 64 \<and> (0x80 :: 'a word) \<le> scast c")
      case wide: True
      with Cons.prems(4) True obtain d q where "p = d # q"
        by (cases p) (auto simp: vuu_need_def)
      with wide True \<open>s \<noteq> 0\<close> show ?thesis
        by (intro exI [of _ "val OR push_bit s (scast c)"] exI [of _ 2])
          (simp add: Let_def vuu_need_def)
    next
      case narrow: False
      then show ?thesis
        using True \<open>s \<noteq> 0\<close>
        by (intro exI [of _ "val OR push_bit s (scast c)"] exI [of _ 1])
          (auto simp: Let_def vuu_need_def)
    qed
  next
    case False
    with Cons.prems(2,3) have s7: "s + 7 \<le> vuu_last LENGTH('a)"
      using Cons.prems(1) by (auto simp: vuu_last_def elim!: dvdE)
    then have need: "vuu_need LENGTH('a) s = Suc (vuu_need LENGTH('a) (s + 7))"
      by (simp add: vuu_need_def le_div_geq)
    define val' where
      "val' = (if s = 0 then scast c AND 0x7f else val OR push_bit s (scast c AND 0x7f))"
    have step: "vuu_read s (c # p) val =
        (if (0x80 :: 'a word) \<le> scast c then vuu_read (s + 7) p val' else Inr (val', p))"
      using False by (simp add: val'_def Let_def)
    obtain v k where "vuu_read (s + 7) p val' = Inr (v, drop k p)" "0 < k"
        "k \<le> vuu_need LENGTH('a) (s + 7)"
      using Cons.IH [of "s + 7" val'] Cons.prems(1,2,4) s7 need by auto
    then show ?thesis
      unfolding step need
      by (cases "(0x80 :: 'a word) \<le> scast c")
        (auto intro: exI [of _ "Suc k"] exI [of _ "Suc 0"])
  qed
qed

text \<open>The generic path, taken near the end of the buffer, stops before any undefined shift.\<close>

lemma shl_defined_below:
  assumes "16 \<le> w" and "s + 7 \<le> w" and "p < 128"
  shows "shl_defined w p s"
proof -
  have "p * 2 ^ s < 128 * 2 ^ s" using assms(3) by (intro mult_strict_right_mono) auto
  also have "\<dots> = (2::nat) ^ (s + 7)" by (simp add: power_add)
  finally have p: "p * 2 ^ s < 2 ^ (s + 7)" .
  moreover have "w < 32 \<Longrightarrow> (2::nat) ^ (s + 7) \<le> 2 ^ 32"
    using assms(2) by (intro power_increasing) auto
  ultimately show ?thesis using assms by (auto simp: shl_defined_def)
qed

lemma generic_read_in_bounds:
  fixes val :: "'a::len word"
  assumes "ib_at ib bs" and "16 \<le> LENGTH('a)" and "s + 7 * length bs \<le> LENGTH('a)"
  shows "(\<exists>v k. generic_read_loop s val ib = Inr (v, ib_adv k ib) \<and> 0 < k \<and> k \<le> length bs) \<or>
         (\<exists>e. generic_read_loop s val ib = Inl (EofException e 1))"
  using assms
proof (induction bs arbitrary: s val ib)
  case Nil
  then have "generic_read_loop s val ib = Inl (EofException ib 1)"
    by (simp add: ib_read_u8_Nil generic_read_loop.simps [of s val ib])
  then show ?case by blast
next
  case (Cons b bs)
  have rd: "ib_read_u8 ib = Inr (b, ib_adv 1 ib)" using Cons.prems(1) by (rule ib_read_u8_Cons)
  have at: "ib_at (ib_adv 1 ib) bs" using ib_at_adv_append [of ib "[b]" bs] Cons.prems(1) by simp
  define part where "part = (ucast (b AND 0x7f) :: 'a word)"
  have "unat (b AND 0x7f) < 128" by (simp add: and_7f unat_take_bit_7)
  then have "shl_defined LENGTH('a) (unat (b AND 0x7f)) s"
    using Cons.prems(2,3) by (intro shl_defined_below) auto
  then have step: "generic_read_loop s val ib =
      (if b \<ge> 0x80 then generic_read_loop (s + 7) (val + push_bit s part) (ib_adv 1 ib)
       else Inr (val + push_bit s part, ib_adv 1 ib))"
    by (simp add: generic_read_loop.simps [of s val ib] rd part_def)
  show ?case
  proof (cases "b \<ge> 0x80")
    case False
    with step show ?thesis by (intro disjI1) auto
  next
    case True
    with step Cons.IH [OF at Cons.prems(2), of "s + 7" "val + push_bit s part"] Cons.prems(3)
    show ?thesis by (auto intro: exI [of _ "Suc k" for k])
  qed
qed

lemma ReadVariableUnsigned_safe:
  assumes "LENGTH('a::len) \<in> {16, 32, 64}" and ok: "ib_ok ib"
  shows "(\<exists>v k. (ReadVariableUnsigned ib :: ('a word \<times> InputBuffer) res) = Inr (v, ib_adv k ib) \<and>
            0 < k \<and> k \<le> length (ib_rest ib)) \<or>
         (\<exists>e. (ReadVariableUnsigned ib :: ('a word \<times> InputBuffer) res) = Inl (EofException e 1))"
proof (cases "unat (blob_length (ib_blob ib)) > unat (ib_pointer ib) + (LENGTH('a) div 8) * 8 div 7")
  case True
  have need: "vuu_need LENGTH('a) 0 = (LENGTH('a) div 8) * 8 div 7 + 1"
    using assms(1) by (auto simp: vuu_need_def vuu_last_def)
  have len: "length (ib_rest ib) = unat (blob_length (ib_blob ib)) - unat (ib_pointer ib)"
    using ok by (rule length_ib_rest)
  with True need have "vuu_need LENGTH('a) 0 \<le> length (ib_rest ib)" by simp
  with assms(1) obtain v k where v: "vuu_read 0 (ib_rest ib) (0 :: 'a word) = Inr (v, drop k (ib_rest ib))"
      and k: "0 < k" "k \<le> vuu_need LENGTH('a) 0"
    using vuu_read_in_bounds [of 0 "ib_rest ib" "0 :: 'a word"] by auto
  have kl: "k \<le> length (ib_rest ib)" using k(2) True need len by simp
  have "length (blob_bytes (ib_blob ib)) - length (drop k (ib_rest ib)) = unat (ib_pointer ib) + k"
    using kl ok by (auto simp: len ib_ok_def blob_wf_def)
  then have "(ReadVariableUnsigned ib :: ('a word \<times> InputBuffer) res) = Inr (v, ib_adv k ib)"
    using True v by (simp add: ReadVariableUnsigned_def ib_rest_def ib_adv_def)
  with k kl show ?thesis by blast
next
  case False
  then have "length (ib_rest ib) \<le> (LENGTH('a) div 8) * 8 div 7"
    using ok by (simp add: length_ib_rest)
  then have "0 + 7 * length (ib_rest ib) \<le> LENGTH('a)" using assms(1) by auto
  with False assms(1) generic_read_in_bounds [OF ib_ok_at [OF ok], of 0 "0 :: 'a word"]
  show ?thesis by (auto simp: ReadVariableUnsigned_def GenericReadVariableUnsigned_def)
qed

section \<open>Zigzag\<close>

lemma bit_EncodeZigZag:
  fixes v :: "'a::len word"
  shows "bit (EncodeZigZag v) i \<longleftrightarrow>
    i < LENGTH('a) \<and> ((0 < i \<and> bit v (i - 1)) \<noteq> bit v (LENGTH('a) - 1))"
proof -
  have "bit (push_bit 1 v) i \<longleftrightarrow> i < LENGTH('a) \<and> 0 < i \<and> bit v (i - 1)"
    unfolding bit_push_bit_iff by (auto dest: bit_imp_le_length)
  moreover have "bit (signed_drop_bit (LENGTH('a) - 1) v) i \<longleftrightarrow>
      i < LENGTH('a) \<and> bit v (LENGTH('a) - 1)"
  proof (cases "i = 0")
    case True
    then show ?thesis by (simp add: bit_signed_drop_bit_iff)
  next
    case False
    have "LENGTH('a) - (LENGTH('a) - 1) = 1" using len_gt_0 [where 'a = 'a] by linarith
    with False show ?thesis
      by (auto simp: bit_signed_drop_bit_iff dest: bit_imp_le_length)
  qed
  ultimately show ?thesis by (auto simp: EncodeZigZag_def bit_xor_iff)
qed

lemma bit_DecodeZigZag:
  fixes v :: "'a::len word"
  shows "bit (DecodeZigZag v) i \<longleftrightarrow> i < LENGTH('a) \<and> (bit v (Suc i) \<noteq> bit v 0)"
proof -
  have "- (v AND 1) = (if odd v then -1 else 0)" by (simp add: and_one_eq mod_2_eq_odd)
  then have "bit (- (v AND 1)) i \<longleftrightarrow> i < LENGTH('a) \<and> bit v 0" by (simp add: bit_0)
  then show ?thesis
    by (auto simp: DecodeZigZag_def bit_simps dest: bit_imp_le_length)
qed

theorem DecodeZigZag_EncodeZigZag: "DecodeZigZag (EncodeZigZag v) = v"
proof (rule bit_word_eqI)
  fix i assume "i < LENGTH('a)"
  then consider "Suc i < LENGTH('a)" | "i = LENGTH('a) - 1" by linarith
  then show "bit (DecodeZigZag (EncodeZigZag v)) i = bit v i"
    by cases (auto simp: bit_DecodeZigZag bit_EncodeZigZag)
qed

text \<open>The documented numbering: 0, -1, 1, -2, \dots are 0, 1, 2, 3, \dots\<close>

lemma signed_drop_bit_sign:
  fixes v :: "'a::len word"
  shows "signed_drop_bit (LENGTH('a) - 1) v = (if sint v < 0 then - 1 else 0)"
proof (rule bit_word_eqI)
  fix n assume "n < LENGTH('a)"
  have "bit v (LENGTH('a) - 1) \<longleftrightarrow> sint v < 0"
    by (simp add: bit_last_iff)
  then show "bit (signed_drop_bit (LENGTH('a) - 1) v) n = bit (if sint v < 0 then - 1 else 0 :: 'a word) n"
    using \<open>n < LENGTH('a)\<close>
    by (cases n) (auto simp: bit_signed_drop_bit_iff bit_simps)
qed

lemma EncodeZigZag_numbering:
  fixes v :: "'a::len word"
  shows "uint (EncodeZigZag v) = (if 0 \<le> sint v then 2 * sint v else - 2 * sint v - 1)"
proof -
  have b: "- (2 ^ (LENGTH('a) - 1)) \<le> sint v" "sint v < 2 ^ (LENGTH('a) - 1)"
    using sint_greater_eq [of v] sint_less [of v] by auto
  have p: "(2::int) * 2 ^ (LENGTH('a) - 1) = 2 ^ LENGTH('a)"
    by (metis len_gt_0 Suc_pred' power_Suc)
  have u: "uint (word_of_int k :: 'a word) = k" if "0 \<le> k" "k < 2 ^ LENGTH('a)" for k
    using that by (simp add: uint_word_of_int)
  show ?thesis
  proof (cases "0 \<le> sint v")
    case True
    then have "EncodeZigZag v = word_of_int (2 * sint v)"
      unfolding EncodeZigZag_def signed_drop_bit_sign
      by (simp add: push_bit_eq_mult)
    moreover have "uint (word_of_int (2 * sint v) :: 'a word) = 2 * sint v"
      using True b p by (intro u) auto
    ultimately show ?thesis using True by (simp only: if_True)
  next
    case False
    then have "EncodeZigZag v = word_of_int (- 2 * sint v - 1)"
      unfolding EncodeZigZag_def signed_drop_bit_sign
      by (simp add: push_bit_eq_mult not_eq_complement)
    moreover have "uint (word_of_int (- 2 * sint v - 1) :: 'a word) = - 2 * sint v - 1"
      using False b p by (intro u) auto
    ultimately show ?thesis using False by (simp only: if_False)
  qed
qed
end
