(* ===== verification/Bond_Types.thy ===== *)
theory Bond_Types
  imports Blob
begin

text \<open>
  The data the protocols carry: the type tags of \<^verbatim>\<open>src/idl/bond/core/bond_const.bond\<close>, the metadata
  of fields with the \<open>Variant\<close> that holds a default value (\<^verbatim>\<open>src/idl/bond/core/bond.bond\<close>,
  \<^verbatim>\<open>src/cpp/inc/bond/core/detail/metadata.h\<close>), instances of structs as trees, and the rule that
  says when a field with its default value is omitted
  (\<^verbatim>\<open>src/cpp/inc/bond/core/detail/omit_default.h\<close>). Signed integers are the words of their two's
  complement representation, floating point numbers the words of their IEEE 754 representation,
  wide characters are 32 bits (the wide character type of the GNU and Clang targets).
\<close>

unbundle bit_operations_syntax

section \<open>Type tags\<close>

text \<open>\<open>BT_other\<close> stands for the values of the enumeration type that have no enumerator.\<close>

datatype BondDataType =
    BT_STOP | BT_STOP_BASE | BT_BOOL | BT_UINT8 | BT_UINT16 | BT_UINT32 | BT_UINT64
  | BT_FLOAT | BT_DOUBLE | BT_STRING | BT_STRUCT | BT_LIST | BT_SET | BT_MAP
  | BT_INT8 | BT_INT16 | BT_INT32 | BT_INT64 | BT_WSTRING | BT_UNAVAILABLE
  | BT_other u8

fun type_code :: "BondDataType \<Rightarrow> u8" where
  "type_code BT_STOP = 0"
| "type_code BT_STOP_BASE = 1"
| "type_code BT_BOOL = 2"
| "type_code BT_UINT8 = 3"
| "type_code BT_UINT16 = 4"
| "type_code BT_UINT32 = 5"
| "type_code BT_UINT64 = 6"
| "type_code BT_FLOAT = 7"
| "type_code BT_DOUBLE = 8"
| "type_code BT_STRING = 9"
| "type_code BT_STRUCT = 10"
| "type_code BT_LIST = 11"
| "type_code BT_SET = 12"
| "type_code BT_MAP = 13"
| "type_code BT_INT8 = 14"
| "type_code BT_INT16 = 15"
| "type_code BT_INT32 = 16"
| "type_code BT_INT64 = 17"
| "type_code BT_WSTRING = 18"
| "type_code BT_UNAVAILABLE = 127"
| "type_code (BT_other c) = c"

text \<open>\<open>static_cast<BondDataType>\<close> of a byte.\<close>

definition type_tags :: "BondDataType list" where
  "type_tags =
     [BT_STOP, BT_STOP_BASE, BT_BOOL, BT_UINT8, BT_UINT16, BT_UINT32, BT_UINT64, BT_FLOAT,
      BT_DOUBLE, BT_STRING, BT_STRUCT, BT_LIST, BT_SET, BT_MAP, BT_INT8, BT_INT16, BT_INT32,
      BT_INT64, BT_WSTRING, BT_UNAVAILABLE]"

definition type_of_code :: "u8 \<Rightarrow> BondDataType" where
  "type_of_code c =
     (case find (\<lambda>t. type_code t = c) type_tags of Some t \<Rightarrow> t | None \<Rightarrow> BT_other c)"

text \<open>The types a value of a schema can have.\<close>

fun is_value_type :: "BondDataType \<Rightarrow> bool" where
  "is_value_type BT_STOP = False"
| "is_value_type BT_STOP_BASE = False"
| "is_value_type BT_UNAVAILABLE = False"
| "is_value_type (BT_other c) = False"
| "is_value_type t = True"

definition is_stop :: "BondDataType \<Rightarrow> bool" where
  "is_stop t \<longleftrightarrow> t = BT_STOP \<or> t = BT_STOP_BASE"

lemma type_of_code_of_type: "is_value_type t \<or> is_stop t \<Longrightarrow> type_of_code (type_code t) = t"
  by (cases t) (simp_all add: type_of_code_def type_tags_def is_stop_def)

lemma is_value_type_not_stop [simp]: "is_value_type t \<Longrightarrow> \<not> is_stop t"
  by (cases t) (simp_all add: is_stop_def)

lemma type_code_small: "is_value_type t \<or> is_stop t \<Longrightarrow> unat (type_code t) < 32"
  by (cases t) (simp_all add: is_stop_def)

section \<open>IEEE 754 comparison and conversion\<close>

definition double_is_nan :: "u64 \<Rightarrow> bool" where
  "double_is_nan d \<longleftrightarrow> take_bit 11 (drop_bit 52 d) = 2047 \<and> take_bit 52 d \<noteq> 0"

definition double_is_zero :: "u64 \<Rightarrow> bool" where
  "double_is_zero d \<longleftrightarrow> take_bit 63 d = 0"

text \<open>The operator \<open>==\<close> on doubles.\<close>

definition double_eq :: "u64 \<Rightarrow> u64 \<Rightarrow> bool" where
  "double_eq a b \<longleftrightarrow>
     \<not> double_is_nan a \<and> \<not> double_is_nan b \<and> (a = b \<or> double_is_zero a \<and> double_is_zero b)"

text \<open>
  Conversion from float to double is exact; a subnormal float with highest set bit \<open>k\<close> is the
  normal double with exponent \<open>k - 149\<close>. The conversion back rounds to nearest, ties to even.
\<close>

fun high_bit :: "nat \<Rightarrow> nat" where
  "high_bit n = (if n < 2 then 0 else Suc (high_bit (n div 2)))"

declare high_bit.simps [simp del]

definition float_to_double :: "u32 \<Rightarrow> u64" where
  "float_to_double f =
     (let s = unat (drop_bit 31 f); e = unat (take_bit 8 (drop_bit 23 f)); m = unat (take_bit 23 f);
          r = (if e = 255 then 2047 * 2 ^ 52 + (if m = 0 then 0 else 2 ^ 51 + (m mod 2 ^ 22) * 2 ^ 29)
               else if e > 0 then (e + 896) * 2 ^ 52 + m * 2 ^ 29
               else if m = 0 then 0
               else let k = high_bit m in (k + 874) * 2 ^ 52 + (m - 2 ^ k) * 2 ^ (52 - k))
      in of_nat (s * 2 ^ 63 + r))"

definition round_shift :: "nat \<Rightarrow> nat \<Rightarrow> nat" where
  "round_shift k n =
     (let q = n div 2 ^ k; r = n mod 2 ^ k; h = 2 ^ k div 2
      in if r > h \<or> (r = h \<and> odd q) then q + 1 else q)"

definition double_to_float :: "u64 \<Rightarrow> u32" where
  "double_to_float d =
     (let s = unat (drop_bit 63 d); e = unat (take_bit 11 (drop_bit 52 d)); m = unat (take_bit 52 d);
          r = (if e = 2047 then 255 * 2 ^ 23 + (if m = 0 then 0 else 2 ^ 22 + (m div 2 ^ 29) mod 2 ^ 22)
               else let sig = (if e = 0 then m else m + 2 ^ 52);
                        sh = (if e \<le> 896 then 926 - max e 1 else 29);
                        ex = (if e \<le> 896 then 0 else e - 897)
                    in min (255 * 2 ^ 23) (ex * 2 ^ 23 + round_shift sh sig))
      in of_nat (s * 2 ^ 31 + r))"

section \<open>Metadata\<close>

datatype Modifier = Optional | Required | RequiredOptional

record Variant =
  uint_value :: u64
  int_value :: u64
  double_value :: u64
  string_value :: "byte list"
  wstring_value :: "u32 list"
  nothing :: bool

record Metadata =
  md_name :: string
  md_qualified_name :: string
  md_attributes :: "(string \<times> string) list"
  md_modifier :: Modifier
  md_default_value :: Variant

definition Variant_init :: Variant where
  "Variant_init = \<lparr>uint_value = 0, int_value = 0, double_value = 0, string_value = [],
     wstring_value = [], nothing = False\<rparr>"

definition Metadata_init :: Metadata where
  "Metadata_init = \<lparr>md_name = [], md_qualified_name = [], md_attributes = [],
     md_modifier = Optional, md_default_value = Variant_init\<rparr>"

section \<open>Struct instances\<close>

text \<open>
  A container lists its items in the order of its \<open>const_enumerator\<close>; \<open>nullable<T>\<close> is a list
  with at most one item, an enumeration value an \<open>int32\<close>. A field of type \<open>maybe<T>\<close> has its own
  constructor, with the type of \<open>T\<close>. A struct has its metadata, its base and its own fields.
\<close>

datatype bvalue =
    VBool bool | VUInt8 u8 | VUInt16 u16 | VUInt32 u32 | VUInt64 u64
  | VInt8 u8 | VInt16 u16 | VInt32 u32 | VInt64 u64
  | VFloat u32 | VDouble u64
  | VString "byte list" | VWString "u32 list"
  | VBlob blob
  | VList BondDataType "bvalue list"
  | VSet BondDataType "bvalue list"
  | VMap BondDataType BondDataType "(bvalue \<times> bvalue) list"
  | VStruct bstruct
and bfield =
    Field u16 Metadata bvalue
  | MaybeField u16 Metadata BondDataType "bvalue option"
and bstruct =
    Struct Metadata "bstruct option" "bfield list"

text \<open>\<open>GetTypeId\<close>\<close>

fun GetTypeId :: "bvalue \<Rightarrow> BondDataType" where
  "GetTypeId (VBool b) = BT_BOOL"
| "GetTypeId (VUInt8 x) = BT_UINT8"
| "GetTypeId (VUInt16 x) = BT_UINT16"
| "GetTypeId (VUInt32 x) = BT_UINT32"
| "GetTypeId (VUInt64 x) = BT_UINT64"
| "GetTypeId (VInt8 x) = BT_INT8"
| "GetTypeId (VInt16 x) = BT_INT16"
| "GetTypeId (VInt32 x) = BT_INT32"
| "GetTypeId (VInt64 x) = BT_INT64"
| "GetTypeId (VFloat x) = BT_FLOAT"
| "GetTypeId (VDouble x) = BT_DOUBLE"
| "GetTypeId (VString s) = BT_STRING"
| "GetTypeId (VWString s) = BT_WSTRING"
| "GetTypeId (VBlob b) = BT_LIST"
| "GetTypeId (VList t vs) = BT_LIST"
| "GetTypeId (VSet t vs) = BT_SET"
| "GetTypeId (VMap k t kvs) = BT_MAP"
| "GetTypeId (VStruct s) = BT_STRUCT"

lemma is_value_type_GetTypeId [simp]: "is_value_type (GetTypeId v)"
  by (cases v) simp_all

fun is_basic :: "bvalue \<Rightarrow> bool" where
  "is_basic (VBlob b) = False"
| "is_basic (VList t vs) = False"
| "is_basic (VSet t vs) = False"
| "is_basic (VMap k t kvs) = False"
| "is_basic (VStruct s) = False"
| "is_basic v = True"

section \<open>Omitting default values\<close>

text \<open>\<open>is_default\<close> for the types of values; a comparison with the variant narrows the variant.\<close>

fun is_default :: "bvalue \<Rightarrow> Metadata \<Rightarrow> bool" where
  "is_default (VBool b) md = (b = (uint_value (md_default_value md) \<noteq> 0))"
| "is_default (VUInt8 x) md = (x = ucast (uint_value (md_default_value md)))"
| "is_default (VUInt16 x) md = (x = ucast (uint_value (md_default_value md)))"
| "is_default (VUInt32 x) md = (x = ucast (uint_value (md_default_value md)))"
| "is_default (VUInt64 x) md = (x = uint_value (md_default_value md))"
| "is_default (VInt8 x) md = (x = ucast (int_value (md_default_value md)))"
| "is_default (VInt16 x) md = (x = ucast (int_value (md_default_value md)))"
| "is_default (VInt32 x) md = (x = ucast (int_value (md_default_value md)))"
| "is_default (VInt64 x) md = (x = int_value (md_default_value md))"
| "is_default (VFloat x) md = double_eq (float_to_double x) (double_value (md_default_value md))"
| "is_default (VDouble x) md = double_eq x (double_value (md_default_value md))"
| "is_default (VString s) md = (string_value (md_default_value md) = s)"
| "is_default (VWString s) md = (wstring_value (md_default_value md) = s)"
| "is_default (VBlob b) md = (blob_length b = 0)"
| "is_default (VList t vs) md = ((of_nat (length vs) :: u32) = 0)"
| "is_default (VSet t vs) md = ((of_nat (length vs) :: u32) = 0)"
| "is_default (VMap k t kvs) md = ((of_nat (length kvs) :: u32) = 0)"
| "is_default (VStruct s) md = False"

definition omit_field :: "bool \<Rightarrow> Metadata \<Rightarrow> bvalue \<Rightarrow> bool" where
  "omit_field may_omit_fields md v \<longleftrightarrow>
     may_omit_fields \<and> md_modifier md = Optional \<and> is_default v md"

text \<open>\<open>is_default\<close> of a \<open>maybe<T>\<close> is \<open>is_nothing\<close>.\<close>

definition omit_maybe_field :: "bool \<Rightarrow> Metadata \<Rightarrow> bvalue option \<Rightarrow> bool" where
  "omit_maybe_field may_omit_fields md v \<longleftrightarrow>
     may_omit_fields \<and> md_modifier md = Optional \<and> v = None"

section \<open>Default values\<close>

text \<open>\<open>VariantGet\<close> for the type of the variable that receives the value\<close>

fun VariantGet :: "Variant \<Rightarrow> BondDataType \<Rightarrow> bvalue option" where
  "VariantGet var BT_BOOL = Some (VBool (uint_value var \<noteq> 0))"
| "VariantGet var BT_UINT8 = Some (VUInt8 (ucast (uint_value var)))"
| "VariantGet var BT_UINT16 = Some (VUInt16 (ucast (uint_value var)))"
| "VariantGet var BT_UINT32 = Some (VUInt32 (ucast (uint_value var)))"
| "VariantGet var BT_UINT64 = Some (VUInt64 (uint_value var))"
| "VariantGet var BT_INT8 = Some (VInt8 (ucast (int_value var)))"
| "VariantGet var BT_INT16 = Some (VInt16 (ucast (int_value var)))"
| "VariantGet var BT_INT32 = Some (VInt32 (ucast (int_value var)))"
| "VariantGet var BT_INT64 = Some (VInt64 (int_value var))"
| "VariantGet var BT_FLOAT = Some (VFloat (double_to_float (double_value var)))"
| "VariantGet var BT_DOUBLE = Some (VDouble (double_value var))"
| "VariantGet var BT_STRING = Some (VString (string_value var))"
| "VariantGet var BT_WSTRING = Some (VWString (wstring_value var))"
| "VariantGet var t = None"

lemma VariantGet_type: "VariantGet var t = Some v \<Longrightarrow> GetTypeId v = t \<and> is_basic v"
  by (cases t) auto

end
