(* ===== verification/Reading.thy ===== *)
theory Reading
  imports Varint Bond_Types
begin

text \<open>
  How operations on an input buffer are specified. \<open>decodes m bs v\<close>: wherever the bytes \<open>bs\<close> stand
  next in the buffer, \<open>m\<close> returns \<open>v\<close> and moves exactly past them. \<open>reads_safely r n m\<close>: on any
  well-formed buffer with at most \<open>r\<close> bytes left, \<open>m\<close> either moves forward by at least \<open>n\<close> bytes
  inside the buffer or throws one of the exceptions of the library. Both compose along \<open>bind\<close>.
\<close>

section \<open>Decoding\<close>

definition decodes :: "(InputBuffer, 'a) st \<Rightarrow> byte list \<Rightarrow> 'a \<Rightarrow> bool" where
  "decodes m bs v \<longleftrightarrow>
     (\<forall>ib rest. ib_at ib (bs @ rest) \<longrightarrow> m ib = Inr (v, ib_adv (length bs) ib))"

lemma decodesI:
  "(\<And>ib rest. ib_at ib (bs @ rest) \<Longrightarrow> m ib = Inr (v, ib_adv (length bs) ib)) \<Longrightarrow> decodes m bs v"
  by (simp add: decodes_def)

lemma decodesD: "decodes m bs v \<Longrightarrow> ib_at ib (bs @ rest) \<Longrightarrow> m ib = Inr (v, ib_adv (length bs) ib)"
  by (auto simp: decodes_def)

text \<open>A buffer never holds \<open>2 ^ 32\<close> bytes.\<close>

lemma decodes_bounded: "(length bs < 2 ^ 32 \<Longrightarrow> decodes m bs v) \<Longrightarrow> decodes m bs v"
  unfolding decodes_def using ib_at_bound by fastforce

lemma decodes_ret: "decodes (ret v) [] v"
  by (simp add: decodes_def ret_def)

lemma decodes_bind:
  assumes "decodes m bs x" and "decodes (f x) bs' y"
  shows "decodes (bind m f) (bs @ bs') y"
proof (rule decodesI)
  fix ib rest assume at: "ib_at ib ((bs @ bs') @ rest)"
  then have "m ib = Inr (x, ib_adv (length bs) ib)" by (intro decodesD [OF assms(1)]) simp
  moreover have "f x (ib_adv (length bs) ib) = Inr (y, ib_adv (length bs') (ib_adv (length bs) ib))"
    using at by (intro decodesD [OF assms(2)] ib_at_adv_append) simp
  ultimately show "bind m f ib = Inr (y, ib_adv (length (bs @ bs')) ib)"
    by (simp add: bind_Inr)
qed

lemma decodes_map:
  assumes "decodes m bs x"
  shows "decodes (bind m (\<lambda>x. ret (f x))) bs (f x)"
  using decodes_bind [OF assms decodes_ret] by simp

lemma decodes_repeat:
  assumes "\<And>x. x \<in> set xs \<Longrightarrow> decodes m (f x) ()"
  shows "decodes (repeat_st (length xs) m) (concat (map f xs)) ()"
  using assms by (induction xs) (auto intro!: decodes_ret decodes_bind)

lemma decodes_collect:
  assumes "\<And>x. x \<in> set xs \<Longrightarrow> decodes m (f x) (g x)"
  shows "decodes (collect_st (length xs) m) (concat (map f xs)) (map g xs)"
  using assms
proof (induction xs)
  case Nil
  then show ?case by (simp add: decodes_ret)
next
  case (Cons x xs)
  then show ?case by (auto intro!: decodes_bind [where x = "g x"] decodes_map)
qed

lemma decodes_u8: "decodes ib_read_u8 [b] b"
  by (auto simp: ib_read_u8_Cons intro!: decodesI)

lemma decodes_mem: "length bs < 2 ^ 32 \<Longrightarrow> decodes (ib_read_mem (of_nat (length bs))) bs bs"
  by (auto simp: ib_read_mem_at unat_of_nat_small intro!: decodesI)

lemma decodes_le:
  fixes w :: "'a::len word"
  assumes "LENGTH('a) \<le> 8 * n" and "unat sz = n"
  shows "decodes (ib_read_le sz) (le_bytes n w) w"
  using assms by (auto simp: ib_read_le_at of_le_le_bytes intro!: decodesI)

lemma decodes_varint:
  fixes v :: "'a::len word"
  assumes "LENGTH('a) \<in> {16, 32, 64}"
  shows "decodes ReadVariableUnsigned (varint (unat v)) v"
  using ReadVariableUnsigned_varint [OF assms] by (auto intro!: decodesI)

lemma decodes_varint32: "decodes ReadVariableUnsigned (varint (unat (n :: u32))) n"
  by (rule decodes_varint) simp

lemma decodes_skip: "length bs < 2 ^ 32 \<Longrightarrow> unat sz = length bs \<Longrightarrow> decodes (ib_skip sz) bs ()"
  by (auto simp: ib_skip_at intro!: decodesI)

section \<open>Safety on arbitrary input\<close>

definition documented :: "exn \<Rightarrow> bool" where
  "documented e \<longleftrightarrow> e \<notin> {UndefinedShift, OutOfBounds, TrapRepresentation, SignedOverflow, AssertionFailed, OutOfFuel}"

definition reads_safely :: "nat \<Rightarrow> nat \<Rightarrow> (InputBuffer, 'a) st \<Rightarrow> bool" where
  "reads_safely r n m \<longleftrightarrow>
     (\<forall>ib. ib_ok ib \<and> length (ib_rest ib) \<le> r \<longrightarrow>
        (case m ib of
           Inl e \<Rightarrow> documented e
         | Inr (x, ib') \<Rightarrow> \<exists>k. n \<le> k \<and> k \<le> length (ib_rest ib) \<and> ib' = ib_adv k ib))"

lemma reads_safelyI:
  assumes "\<And>ib. ib_ok ib \<Longrightarrow> length (ib_rest ib) \<le> r \<Longrightarrow>
    (\<exists>e. m ib = Inl e \<and> documented e) \<or>
    (\<exists>x k. m ib = Inr (x, ib_adv k ib) \<and> n \<le> k \<and> k \<le> length (ib_rest ib))"
  shows "reads_safely r n m"
  unfolding reads_safely_def using assms by fastforce

lemma reads_safelyE:
  assumes "reads_safely r n m" and "ib_ok ib" and "length (ib_rest ib) \<le> r"
  obtains e where "m ib = Inl e" "documented e"
    | x k where "m ib = Inr (x, ib_adv k ib)" "n \<le> k" "k \<le> length (ib_rest ib)"
  using assms unfolding reads_safely_def by (cases "m ib") force+

lemma documented_Eof [simp]: "documented (EofException ib n)"
  by (simp add: documented_def EofException_def)

lemma documented_simps [simp]:
  "documented OverflowError" "documented (CoreException s)" "documented BadAlloc"
  "documented (StreamException a b c)" "documented InvalidArgument" "documented UnderflowError"
  by (simp_all add: documented_def)

lemma ib_adv_ok:
  assumes "ib_ok ib" and "k \<le> length (ib_rest ib)"
  shows "ib_ok (ib_adv k ib)" and "ib_rest (ib_adv k ib) = drop k (ib_rest ib)"
  using ib_at_adv [OF ib_ok_at [OF assms(1)] assms(2)] by (auto simp: ib_at_def)

lemma reads_safely_weaken: "reads_safely r n m \<Longrightarrow> r' \<le> r \<Longrightarrow> n' \<le> n \<Longrightarrow> reads_safely r' n' m"
proof (rule reads_safelyI)
  fix ib assume a: "reads_safely r n m" "r' \<le> r" "n' \<le> n" "ib_ok ib" "length (ib_rest ib) \<le> r'"
  then have "length (ib_rest ib) \<le> r" by simp
  from reads_safelyE [OF a(1,4) this] a(3)
  show "(\<exists>e. m ib = Inl e \<and> documented e) \<or>
      (\<exists>x k. m ib = Inr (x, ib_adv k ib) \<and> n' \<le> k \<and> k \<le> length (ib_rest ib))"
    by (metis order_trans)
qed

lemma reads_safely_ret: "reads_safely r 0 (ret x)"
proof (rule reads_safelyI)
  fix ib show "(\<exists>e. ret x ib = Inl e \<and> documented e) \<or>
      (\<exists>y k. ret x ib = Inr (y, ib_adv k ib) \<and> 0 \<le> k \<and> k \<le> length (ib_rest ib))"
    by (auto simp: ret_def intro!: exI [of _ 0])
qed

lemma reads_safely_bind:
  assumes m: "reads_safely r a m" and f: "\<And>x. reads_safely (r - a) b (f x)"
  shows "reads_safely r (a + b) (bind m f)"
proof (rule reads_safelyI)
  fix ib assume ok: "ib_ok ib" "length (ib_rest ib) \<le> r"
  from m ok show "(\<exists>e. bind m f ib = Inl e \<and> documented e) \<or>
      (\<exists>x k. bind m f ib = Inr (x, ib_adv k ib) \<and> a + b \<le> k \<and> k \<le> length (ib_rest ib))"
  proof (cases rule: reads_safelyE)
    case (1 e)
    then show ?thesis by (auto simp: bind_Inl)
  next
    case (2 x k)
    note adv = ib_adv_ok [OF ok(1) 2(3)]
    have "length (ib_rest (ib_adv k ib)) \<le> r - a" using adv(2) 2(2) ok(2) by simp
    from f [of x] adv(1) this show ?thesis
    proof (cases rule: reads_safelyE)
      case (1 e)
      with 2 show ?thesis by (auto simp: bind_Inr)
    next
      case (2 y j)
      with \<open>m ib = Inr (x, ib_adv k ib)\<close> \<open>a \<le> k\<close> \<open>k \<le> length (ib_rest ib)\<close> adv(2) show ?thesis
        by (auto simp: bind_Inr intro!: exI [of _ "k + j"])
    qed
  qed
qed

lemma reads_safely_bind0:
  "reads_safely r a m \<Longrightarrow> (\<And>x. reads_safely r 0 (f x)) \<Longrightarrow> reads_safely r a (bind m f)"
  using reads_safely_bind [of r a m 0 f] reads_safely_weaken [of r 0 _ "r - a" 0]
  by (metis Nat.add_0_right diff_le_self le_refl)

lemma reads_safely_repeat: "reads_safely r 0 m \<Longrightarrow> reads_safely r 0 (repeat_st n m)"
  by (induction n) (auto intro: reads_safely_ret reads_safely_bind0)

lemma reads_safely_u8: "reads_safely r 1 ib_read_u8"
proof (rule reads_safelyI)
  fix ib assume "ib_ok ib"
  then have at: "ib_at ib (ib_rest ib)" by (rule ib_ok_at)
  show "(\<exists>e. ib_read_u8 ib = Inl e \<and> documented e) \<or>
      (\<exists>x k. ib_read_u8 ib = Inr (x, ib_adv k ib) \<and> 1 \<le> k \<and> k \<le> length (ib_rest ib))"
  proof (cases "ib_rest ib")
    case Nil
    with at show ?thesis by (simp add: ib_read_u8_Nil)
  next
    case (Cons b bs)
    with at show ?thesis by (auto simp: ib_read_u8_Cons)
  qed
qed

lemma reads_safely_le: "reads_safely r (unat sz) (ib_read_le sz :: (InputBuffer, 'a::len word) st)"
proof (rule reads_safelyI)
  fix ib assume "ib_ok ib"
  from ib_read_le_at [OF ib_ok_at [OF this], of sz, where ?'a = 'a]
  show "(\<exists>e. (ib_read_le sz :: (InputBuffer, 'a word) st) ib = Inl e \<and> documented e) \<or>
      (\<exists>x k. (ib_read_le sz :: (InputBuffer, 'a word) st) ib = Inr (x, ib_adv k ib) \<and> unat sz \<le> k \<and> k \<le> length (ib_rest ib))"
    by (cases "unat sz \<le> length (ib_rest ib)") auto
qed

lemma reads_safely_mem: "reads_safely r (unat sz) (ib_read_mem sz)"
proof (rule reads_safelyI)
  fix ib assume "ib_ok ib"
  from ib_read_mem_at [OF ib_ok_at [OF this], of sz]
  show "(\<exists>e. ib_read_mem sz ib = Inl e \<and> documented e) \<or>
      (\<exists>x k. ib_read_mem sz ib = Inr (x, ib_adv k ib) \<and> unat sz \<le> k \<and> k \<le> length (ib_rest ib))"
    by (cases "unat sz \<le> length (ib_rest ib)") auto
qed

lemma reads_safely_skip: "reads_safely r 0 (ib_skip sz)"
proof (rule reads_safelyI)
  fix ib assume "ib_ok ib"
  from ib_skip_at [OF ib_ok_at [OF this], of sz]
  show "(\<exists>e. ib_skip sz ib = Inl e \<and> documented e) \<or>
      (\<exists>x k. ib_skip sz ib = Inr (x, ib_adv k ib) \<and> 0 \<le> k \<and> k \<le> length (ib_rest ib))"
    by (cases "unat sz \<le> length (ib_rest ib)") (auto intro: exI [of _ 0])
qed

lemma reads_safely_varint:
  assumes "LENGTH('a::len) \<in> {16, 32, 64}"
  shows "reads_safely r 1 (ReadVariableUnsigned :: (InputBuffer, 'a word) st)"
proof (rule reads_safelyI)
  fix ib assume "ib_ok ib"
  from ReadVariableUnsigned_safe [OF assms this]
  show "(\<exists>e. (ReadVariableUnsigned :: (InputBuffer, 'a word) st) ib = Inl e \<and> documented e) \<or>
      (\<exists>x k. (ReadVariableUnsigned :: (InputBuffer, 'a word) st) ib = Inr (x, ib_adv k ib) \<and>
         1 \<le> k \<and> k \<le> length (ib_rest ib))"
    by (auto simp: Suc_le_eq)
qed

lemma reads_safely_varint32: "reads_safely r 1 (ReadVariableUnsigned :: (InputBuffer, u32) st)"
  by (rule reads_safely_varint) simp

lemma reads_safely_any: "reads_safely r n m \<Longrightarrow> reads_safely r 0 m"
  by (erule reads_safely_weaken) simp_all

text \<open>A read of at least one byte leaves at most \<open>r - 1\<close> bytes for what follows.\<close>

lemma reads_safely_then:
  assumes "reads_safely r 1 m" and "\<And>x. 0 < r \<Longrightarrow> reads_safely (r - 1) 0 (f x)"
  shows "reads_safely r 0 (bind m f)"
proof (cases "0 < r")
  case True
  with assms have "reads_safely r (1 + 0) (bind m f)" by (intro reads_safely_bind) auto
  then show ?thesis by (rule reads_safely_weaken) simp_all
next
  case False
  show ?thesis
  proof (rule reads_safelyI)
    fix ib assume "ib_ok ib" and "length (ib_rest ib) \<le> r"
    with assms(1) False show "(\<exists>e. bind m f ib = Inl e \<and> documented e) \<or>
        (\<exists>x k. bind m f ib = Inr (x, ib_adv k ib) \<and> 0 \<le> k \<and> k \<le> length (ib_rest ib))"
      by (elim reads_safelyE) (auto simp: bind_Inl)
  qed
qed

section \<open>Checked skips\<close>

definition lift_res :: "'a res \<Rightarrow> ('s, 'a) st" where
  "lift_res r s = res_bind r (\<lambda>x. Inr (x, s))"

text \<open>\<open>_input.Skip(detail::checked_multiply(size, n))\<close>\<close>

definition skip_fixed :: "u32 \<Rightarrow> u8 \<Rightarrow> (InputBuffer, unit) st" where
  "skip_fixed sz n = bind (lift_res (checked_multiply sz n)) ib_skip"

lemma skip_fixed_mult:
  "unat sz * unat n < 2 ^ 32 \<Longrightarrow> skip_fixed sz n = ib_skip (of_nat (unat sz * unat n))"
  by (simp add: skip_fixed_def lift_res_def bind_def checked_multiply_spec fun_eq_iff)

lemma decodes_skip_fixed:
  assumes "unat sz * unat n = length bs" and "length bs < 2 ^ 32"
  shows "decodes (skip_fixed sz n) bs ()"
proof -
  have "skip_fixed sz n = ib_skip (of_nat (length bs))"
    using assms skip_fixed_mult [of sz n] by simp
  with assms(2) show ?thesis by (simp add: decodes_skip unat_of_nat_small)
qed

lemma decodes_skip_fixed':
  assumes "unat sz * unat n = length bs"
  shows "decodes (skip_fixed sz n) bs ()"
  by (rule decodes_bounded) (rule decodes_skip_fixed [OF assms])

lemma reads_safely_skip_fixed: "reads_safely r 0 (skip_fixed sz n)"
proof (cases "unat sz * unat n < 2 ^ 32")
  case True
  then show ?thesis by (simp add: skip_fixed_mult reads_safely_skip)
next
  case False
  then have "skip_fixed sz n ib = Inl OverflowError" for ib
    by (simp add: skip_fixed_def lift_res_def bind_def checked_multiply_spec)
  then show ?thesis by (simp add: reads_safely_def)
qed

section \<open>Fuel\<close>

text \<open>
  Recursive reads are driven by fuel. More fuel does not change a result other than \<open>OutOfFuel\<close>;
  \<open>ev_decodes\<close> says that enough fuel makes the read decode.
\<close>

definition fuel_le :: "('s, 'a) st \<Rightarrow> ('s, 'a) st \<Rightarrow> bool" where
  "fuel_le m m' \<longleftrightarrow> (\<forall>s. m s \<noteq> Inl OutOfFuel \<longrightarrow> m' s = m s)"

lemma fuel_le_refl [simp, intro]: "fuel_le m m"
  by (simp add: fuel_le_def)

lemma fuel_le_bind:
  assumes "fuel_le m m'" and "\<And>x. fuel_le (f x) (f' x)"
  shows "fuel_le (bind m f) (bind m' f')"
  unfolding fuel_le_def
proof (intro allI impI)
  fix s assume a: "bind m f s \<noteq> Inl OutOfFuel"
  then have "m s \<noteq> Inl OutOfFuel" by (auto simp: bind_def)
  with assms(1) have m: "m' s = m s" by (simp add: fuel_le_def)
  show "bind m' f' s = bind m f s"
  proof (cases "m s")
    case (Inl e)
    with m show ?thesis by (simp add: bind_def)
  next
    case (Inr p)
    with a m assms(2) show ?thesis by (cases p) (auto simp: bind_def fuel_le_def)
  qed
qed

lemma fuel_le_repeat: "fuel_le m m' \<Longrightarrow> fuel_le (repeat_st n m) (repeat_st n m')"
  by (induction n) (auto intro: fuel_le_bind)

lemma fuel_le_throw [simp, intro]: "fuel_le (throw OutOfFuel) m"
  by (simp add: fuel_le_def throw_def)

lemma fuel_mono:
  assumes "\<And>n. fuel_le (S n) (S (Suc n))" and "n \<le> k" and "S n s \<noteq> Inl OutOfFuel"
  shows "S k s = S n s"
  using assms(2)
proof (induction k rule: dec_induct)
  case base
  then show ?case by simp
next
  case (step k)
  with assms(1) [of k] assms(3) show ?case by (simp add: fuel_le_def)
qed

definition ev_decodes :: "(nat \<Rightarrow> (InputBuffer, 'a) st) \<Rightarrow> byte list \<Rightarrow> 'a \<Rightarrow> bool" where
  "ev_decodes S bs v \<longleftrightarrow> (\<exists>N. \<forall>n \<ge> N. decodes (S n) bs v)"

lemma ev_decodes_const: "decodes m bs v \<Longrightarrow> ev_decodes (\<lambda>n. m) bs v"
  by (auto simp: ev_decodes_def)

lemma ev_decodes_bind:
  assumes "ev_decodes S bs x" and "ev_decodes (\<lambda>n. T n x) bs' y"
  shows "ev_decodes (\<lambda>n. bind (S n) (T n)) (bs @ bs') y"
proof -
  from assms obtain N M where "\<forall>n \<ge> N. decodes (S n) bs x" "\<forall>n \<ge> M. decodes (T n x) bs' y"
    by (auto simp: ev_decodes_def)
  then have "\<forall>n \<ge> max N M. decodes (bind (S n) (T n)) (bs @ bs') y" by (auto intro: decodes_bind)
  then show ?thesis unfolding ev_decodes_def by blast
qed

lemma ev_decodes_header:
  assumes "decodes m h x" and "ev_decodes (\<lambda>n. T n x) bs y"
  shows "ev_decodes (\<lambda>n. bind m (T n)) (h @ bs) y"
  using ev_decodes_const [OF assms(1)] assms(2) by (rule ev_decodes_bind [where T = T])

lemma ev_decodes_then:
  assumes "ev_decodes S bs ()" and "ev_decodes T cs y"
  shows "ev_decodes (\<lambda>n. bind (S n) (\<lambda>_. T n)) (bs @ cs) y"
  using assms by (rule ev_decodes_bind [where T = "\<lambda>n _. T n"])

lemma ev_decodes_Suc: "ev_decodes (\<lambda>n. S (Suc n)) bs v \<Longrightarrow> ev_decodes S bs v"
  unfolding ev_decodes_def by (metis Suc_le_D Suc_le_mono)

text \<open>A read that is safe with the fuel at hand and decodes with enough fuel does decode.\<close>

lemma ev_decodes_enough:
  assumes "ev_decodes S bs v" and "\<And>n. fuel_le (S n) (S (Suc n))"
    and at: "ib_at ib (bs @ rest)" and safe: "S n ib \<noteq> Inl OutOfFuel"
  shows "S n ib = Inr (v, ib_adv (length bs) ib)"
proof -
  from assms(1) obtain N where N: "\<forall>k \<ge> N. decodes (S k) bs v" by (auto simp: ev_decodes_def)
  have "S (max n N) ib = S n ib" by (rule fuel_mono [where S = S]) (use assms(2) safe in auto)
  moreover have "S (max n N) ib = Inr (v, ib_adv (length bs) ib)"
    using N at by (auto intro: decodesD)
  ultimately show ?thesis by simp
qed

lemma reads_safely_fuel:
  "reads_safely r k m \<Longrightarrow> ib_ok ib \<Longrightarrow> length (ib_rest ib) \<le> r \<Longrightarrow> m ib \<noteq> Inl OutOfFuel"
  by (erule reads_safelyE) (auto simp: documented_def)

end
