(* ===== verification/Output_Buffer.thy ===== *)
theory Output_Buffer
  imports Varint
begin

text \<open>
  The memory backed output stream of \<^verbatim>\<open>src/cpp/inc/bond/stream/output_buffer.h\<close>. The stream
  writes into a current buffer and chains blobs that refer to earlier parts of the same buffer, so
  buffers are kept in a store (\<open>os_heap\<close>, one entry per array the stream has been given or has
  allocated) and a chained blob of the stream's own memory is a reference \<open>Chunk buffer offset
  length\<close>. Memory from \<^verbatim>\<open>allocate_shared_noinit\<close> has arbitrary content (\<open>os_noinit\<close>).
  A copy outside an array is \<open>OutOfBounds\<close>.
\<close>

unbundle bit_operations_syntax

section \<open>State\<close>

datatype chained = Chunk nat nat nat | Extern blob

record OutputMemoryStream =
  os_heap :: "byte list list"
  os_noinit :: "nat \<Rightarrow> byte"
  os_buffer :: "nat option"
  os_bufferSize :: u32
  os_rangeSize :: u32
  os_rangeOffset :: u32
  os_minChainningSize :: u32
  os_maxChainLength :: u32
  os_rangePtr :: nat
  os_blobs :: "chained list"

definition OutputMemoryStream_empty :: "(nat \<Rightarrow> byte) \<Rightarrow> OutputMemoryStream" where
  "OutputMemoryStream_empty noinit =
     \<lparr>os_heap = [], os_noinit = noinit, os_buffer = None, os_bufferSize = 0, os_rangeSize = 0,
      os_rangeOffset = 0, os_minChainningSize = 32, os_maxChainLength = -1, os_rangePtr = 0,
      os_blobs = []\<rparr>"

text \<open>The constructor from a first buffer, and the one that allocates it.\<close>

definition OutputMemoryStream_on ::
    "(nat \<Rightarrow> byte) \<Rightarrow> byte list \<Rightarrow> u32 \<Rightarrow> u32 \<Rightarrow> u32 \<Rightarrow> OutputMemoryStream" where
  "OutputMemoryStream_on noinit buffer sz minChanningSize maxChainLength =
     \<lparr>os_heap = [buffer], os_noinit = noinit, os_buffer = Some 0, os_bufferSize = sz,
      os_rangeSize = 0, os_rangeOffset = 0, os_minChainningSize = minChanningSize,
      os_maxChainLength = maxChainLength, os_rangePtr = 0, os_blobs = []\<rparr>"

definition OutputMemoryStream_reserve ::
    "(nat \<Rightarrow> byte) \<Rightarrow> u32 \<Rightarrow> u32 \<Rightarrow> u32 \<Rightarrow> OutputMemoryStream" where
  "OutputMemoryStream_reserve noinit reserveSize minChanningSize maxChainLength =
     OutputMemoryStream_on noinit (map noinit [0..<unat reserveSize]) reserveSize
       minChanningSize maxChainLength"

section \<open>Raw memory\<close>

definition os_mem :: "OutputMemoryStream \<Rightarrow> byte list" where
  "os_mem s = (case os_buffer s of None \<Rightarrow> [] | Some i \<Rightarrow> os_heap s ! i)"

text \<open>\<^verbatim>\<open>memcpy\<close> into the current buffer at an offset.\<close>

definition os_memcpy :: "nat \<Rightarrow> byte list \<Rightarrow> OutputMemoryStream \<Rightarrow> OutputMemoryStream res" where
  "os_memcpy off bs s =
     (if bs = [] then Inr s
      else case os_buffer s of
        None \<Rightarrow> Inl OutOfBounds
      | Some i \<Rightarrow>
          if off + length bs \<le> length (os_heap s ! i)
          then Inr (s\<lparr>os_heap := (os_heap s)[i := take off (os_heap s ! i) @ bs @
                                          drop (off + length bs) (os_heap s ! i)]\<rparr>)
          else Inl OutOfBounds)"

text \<open>\<open>_buffer = boost::allocate_shared_noinit<char[]>(_allocator, n)\<close>\<close>

definition os_allocate :: "u32 \<Rightarrow> OutputMemoryStream \<Rightarrow> OutputMemoryStream" where
  "os_allocate n s =
     s\<lparr>os_heap := os_heap s @ [map (os_noinit s) [0..<unat n]],
       os_buffer := Some (length (os_heap s))\<rparr>"

text \<open>\<open>_blobs.emplace_back(_buffer, _rangeOffset, _rangeSize)\<close>\<close>

definition os_snap :: "OutputMemoryStream \<Rightarrow> OutputMemoryStream" where
  "os_snap s =
     s\<lparr>os_blobs := os_blobs s @
        [Chunk (the (os_buffer s)) (unat (os_rangeOffset s)) (unat (os_rangeSize s))]\<rparr>"

section \<open>Writing\<close>

text \<open>
  The tail of \<open>Write(const void*, uint32_t)\<close> once the current buffer is full: the current range
  is snapped if it is not empty, a larger buffer is allocated and the left over bytes go there.
\<close>

definition os_seal :: "OutputMemoryStream \<Rightarrow> OutputMemoryStream" where
  "os_seal s = (if os_rangeSize s > 0 then os_snap s else s)"

definition os_grow :: "byte list \<Rightarrow> OutputMemoryStream \<Rightarrow> OutputMemoryStream res" where
  "os_grow buffer s =
     (let sz = of_nat (length buffer); s1 = os_seal s
      in if os_bufferSize s1 > drop_bit 1 (-1) then Inl BadAlloc
         else let grown = os_bufferSize s1 +
                    (if os_bufferSize s1 \<noteq> 0 then os_bufferSize s1 div 2 else 4096);
                  newSize = max grown sz;
                  s2 = os_allocate newSize (s1\<lparr>os_bufferSize := newSize\<rparr>)
              in os_memcpy 0 buffer
                   (s2\<lparr>os_rangeOffset := 0, os_rangePtr := 0, os_rangeSize := sz\<rparr>))"

text \<open>\<open>Write(const void*, uint32_t)\<close>\<close>

definition os_write_mem :: "byte list \<Rightarrow> OutputMemoryStream \<Rightarrow> OutputMemoryStream res" where
  "os_write_mem buffer s =
     (let sz = (of_nat (length buffer) :: u32);
          avail = os_bufferSize s - os_rangeSize s - os_rangeOffset s;
          sizePart = (if avail > sz then sz else avail)
      in res_bind (os_memcpy (os_rangePtr s + unat (os_rangeSize s)) (take (unat sizePart) buffer) s)
         (\<lambda>s1.
          let s2 = s1\<lparr>os_rangeSize := os_rangeSize s1 + sizePart\<rparr>
          in if sz = sizePart then Inr s2 else os_grow (drop (unat sizePart) buffer) s2))"

text \<open>\<open>Write(const T&)\<close>: the object representation is stored directly when it fits.\<close>

definition os_write_le :: "byte list \<Rightarrow> OutputMemoryStream \<Rightarrow> OutputMemoryStream res" where
  "os_write_le obj s =
     (if length obj + unat (os_rangeSize s) + unat (os_rangeOffset s) \<le> unat (os_bufferSize s)
      then res_bind (os_memcpy (os_rangePtr s + unat (os_rangeSize s)) obj s)
             (\<lambda>s1. Inr (s1\<lparr>os_rangeSize := os_rangeSize s1 + of_nat (length obj)\<rparr>))
      else os_write_mem obj s)"

text \<open>\<open>Write(const blob&)\<close>: small blobs are copied, others are chained.\<close>

definition os_write_blob :: "blob \<Rightarrow> OutputMemoryStream \<Rightarrow> OutputMemoryStream res" where
  "os_write_blob buffer s =
     (if blob_length buffer < os_minChainningSize s
         \<or> length (os_blobs s) \<ge> unat (os_maxChainLength s)
      then os_write_mem (blob_bytes buffer) s
      else let s1 = (if os_rangeSize s > 0
                     then (os_snap s)\<lparr>os_rangeOffset := os_rangeOffset s + os_rangeSize s,
                                      os_rangePtr := os_rangePtr s + unat (os_rangeSize s),
                                      os_rangeSize := 0\<rparr>
                     else s)
           in Inr (s1\<lparr>os_blobs := os_blobs s1 @ [Extern buffer]\<rparr>))"

text \<open>
  \<open>VariableUnsignedUnchecked<T, N>::Write\<close> as the bytes it stores from the pointer on, the last
  byte of each type being one of the template specializations.
\<close>

definition vuw_last :: "nat \<Rightarrow> nat" where
  "vuw_last width = (if width = 16 then 3 else if width = 32 then 5 else 10)"

function vuw_bytes :: "nat \<Rightarrow> 'a::len word \<Rightarrow> byte list" where
  "vuw_bytes n val =
     (if n \<ge> vuw_last LENGTH('a) then [if LENGTH('a) = 64 then 1 else ucast val]
      else if drop_bit 7 val \<noteq> 0 then (ucast val OR 0x80) # vuw_bytes (n + 1) (drop_bit 7 val)
      else [ucast val])"
  by pat_completeness auto
termination
  by (relation "measure (\<lambda>(n, val :: 'a word). vuw_last LENGTH('a) - n)") auto

text \<open>
  \<open>WriteVariableUnsigned\<close> and \<open>GenericWriteVariableUnsigned\<close> call each other: the generic
  writer emits one byte and hands the rest to the stream's own method.
\<close>

lemma unat_drop_bit_7: "unat (drop_bit 7 (v :: 'a::len word)) = unat v div 128"
  unfolding unat_drop_bit_eq by (simp add: drop_bit_eq_div)

lemma drop_bit_7_less: "drop_bit 7 (v :: 'a::len word) \<noteq> 0 \<Longrightarrow> unat (drop_bit 7 v) < unat v"
  unfolding unat_eq_0 [symmetric] unat_drop_bit_7 by (cases "unat v") auto

function os_WriteVariableUnsigned :: "'a::len word \<Rightarrow> OutputMemoryStream \<Rightarrow> OutputMemoryStream res" where
  "os_WriteVariableUnsigned val s =
     (if (LENGTH('a) div 8) * 8 div 7 + unat (os_rangeSize s) + unat (os_rangeOffset s)
           < unat (os_bufferSize s)
      then (let bs = vuw_bytes 1 val
            in res_bind (os_memcpy (os_rangePtr s + unat (os_rangeSize s)) bs s)
                 (\<lambda>s1. Inr (s1\<lparr>os_rangeSize := os_rangeSize s1 + of_nat (length bs)\<rparr>)))
      else if drop_bit 7 val \<noteq> 0
      then res_bind (os_write_le [ucast (val OR 0x80)] s)
             (\<lambda>s1. os_WriteVariableUnsigned (drop_bit 7 val) s1)
      else os_write_le [ucast val] s)"
  by pat_completeness auto
termination
  by (relation "measure (\<lambda>(val :: 'a word, s). unat val)") (auto dest: drop_bit_7_less)

declare vuw_bytes.simps [simp del]
declare os_WriteVariableUnsigned.simps [simp del]

section \<open>Reading the result\<close>

fun chained_bytes :: "byte list list \<Rightarrow> chained \<Rightarrow> byte list" where
  "chained_bytes h (Chunk i off len) = take len (drop off (h ! i))"
| "chained_bytes h (Extern b) = blob_bytes b"

text \<open>The blob a chained entry stands for; its address is that of its array plus the offset.\<close>

fun chained_blob :: "(nat \<Rightarrow> u64) \<Rightarrow> byte list list \<Rightarrow> chained \<Rightarrow> blob" where
  "chained_blob addr h (Chunk i off len) =
     \<lparr>blob_buffer = Some (addr i), blob_content = addr i + of_nat off,
      blob_length = of_nat len, blob_bytes = take len (drop off (h ! i))\<rparr>"
| "chained_blob addr h (Extern b) = b"

definition os_current :: "OutputMemoryStream \<Rightarrow> chained" where
  "os_current s =
     Chunk (case os_buffer s of None \<Rightarrow> length (os_heap s) | Some i \<Rightarrow> i)
       (unat (os_rangeOffset s)) (unat (os_rangeSize s))"

definition os_GetBuffers :: "(nat \<Rightarrow> u64) \<Rightarrow> OutputMemoryStream \<Rightarrow> blob list" where
  "os_GetBuffers addr s =
     map (chained_blob addr (os_heap s)) (os_blobs s) @
     (if os_rangeSize s > 0 then [chained_blob addr (os_heap s) (os_current s)] else [])"

definition os_GetBuffer ::
    "(u32 \<Rightarrow> u64 res) \<Rightarrow> (nat \<Rightarrow> u64) \<Rightarrow> OutputMemoryStream \<Rightarrow> blob res" where
  "os_GetBuffer alloc addr s =
     res_bind (blob_merge_all alloc (map (chained_blob addr (os_heap s)) (os_blobs s)))
       (\<lambda>merged. blob_merge alloc merged
          (case os_buffer s of
             None \<Rightarrow> blob_empty
           | Some i \<Rightarrow> chained_blob addr (os_heap s) (os_current s)))"

definition CreateOutputBuffer :: "OutputMemoryStream \<Rightarrow> OutputMemoryStream" where
  "CreateOutputBuffer other =
     OutputMemoryStream_reserve (os_noinit other) (os_bufferSize other)
       (os_minChainningSize other) (os_maxChainLength other)"

section \<open>Invariant and abstraction\<close>

text \<open>
  The stream's content is the concatenation of the chained blobs and the current range. A chunk of
  the current buffer ends before the current range, which is why later writes leave it alone.
\<close>

fun chained_ok :: "byte list list \<Rightarrow> nat option \<Rightarrow> nat \<Rightarrow> chained \<Rightarrow> bool" where
  "chained_ok h cur off (Chunk i o' l) \<longleftrightarrow>
     i < length h \<and> o' + l \<le> length (h ! i) \<and> l < 2 ^ 32 \<and> (cur = Some i \<longrightarrow> o' + l \<le> off)"
| "chained_ok h cur off (Extern b) \<longleftrightarrow> blob_wf b"

definition os_range :: "OutputMemoryStream \<Rightarrow> byte list" where
  "os_range s = take (unat (os_rangeSize s)) (drop (unat (os_rangeOffset s)) (os_mem s))"

definition os_content :: "OutputMemoryStream \<Rightarrow> byte list" where
  "os_content s = concat (map (chained_bytes (os_heap s)) (os_blobs s)) @ os_range s"

definition os_ok :: "OutputMemoryStream \<Rightarrow> bool" where
  "os_ok s \<longleftrightarrow>
     os_rangePtr s = unat (os_rangeOffset s) \<and>
     unat (os_rangeOffset s) + unat (os_rangeSize s) \<le> unat (os_bufferSize s) \<and>
     length (os_mem s) = unat (os_bufferSize s) \<and>
     (\<forall>i. os_buffer s = Some i \<longrightarrow> i < length (os_heap s)) \<and>
     (\<forall>c \<in> set (os_blobs s).
        chained_ok (os_heap s) (os_buffer s) (unat (os_rangeOffset s)) c) \<and>
     unat (os_rangeOffset s) + unat (os_rangeSize s) \<le> length (os_content s)"

lemma os_ok_empty: "os_ok (OutputMemoryStream_empty noinit)"
  by (simp add: os_ok_def OutputMemoryStream_empty_def os_mem_def)

lemma os_ok_on:
  "length buffer = unat sz \<Longrightarrow> os_ok (OutputMemoryStream_on noinit buffer sz mn mx)"
  by (simp add: os_ok_def OutputMemoryStream_on_def os_mem_def)

lemma os_content_init [simp]:
  "os_content (OutputMemoryStream_empty noinit) = []"
  "os_content (OutputMemoryStream_on noinit buffer sz mn mx) = []"
  by (simp_all add: os_content_def os_range_def OutputMemoryStream_empty_def OutputMemoryStream_on_def)

subsection \<open>Appending to the current range\<close>

definition os_put :: "byte list \<Rightarrow> OutputMemoryStream \<Rightarrow> OutputMemoryStream" where
  "os_put bs s =
     s\<lparr>os_heap := (case os_buffer s of
         None \<Rightarrow> os_heap s
       | Some i \<Rightarrow> (os_heap s)[i :=
           take (unat (os_rangeOffset s) + unat (os_rangeSize s)) (os_heap s ! i) @ bs @
           drop (unat (os_rangeOffset s) + unat (os_rangeSize s) + length bs) (os_heap s ! i)]),
       os_rangeSize := os_rangeSize s + of_nat (length bs)\<rparr>"

definition os_room :: "OutputMemoryStream \<Rightarrow> nat" where
  "os_room s = unat (os_bufferSize s) - (unat (os_rangeSize s) + unat (os_rangeOffset s))"

lemma unat_rangeSize_put:
  assumes "os_ok s" and "length bs \<le> os_room s"
  shows "unat (os_rangeSize s + of_nat (length bs)) = unat (os_rangeSize s) + length bs"
proof -
  have le: "unat (os_rangeSize s) + length bs \<le> unat (os_bufferSize s)"
    using assms by (auto simp: os_ok_def os_room_def)
  then have "unat (os_rangeSize s) + length bs < 2 ^ 32"
    using unat_u32_bound [of "os_bufferSize s"] by simp
  then show ?thesis by (simp add: unat_add_no_overflow unat_of_nat_small)
qed

lemma os_memcpy_tail:
  assumes "os_ok s" and "length bs \<le> os_room s"
  shows "res_bind (os_memcpy (os_rangePtr s + unat (os_rangeSize s)) bs s)
           (\<lambda>s1. Inr (s1\<lparr>os_rangeSize := os_rangeSize s1 + of_nat (length bs)\<rparr>)) = Inr (os_put bs s)"
proof (cases "os_buffer s")
  case None
  with assms have "bs = []" by (auto simp: os_ok_def os_room_def os_mem_def)
  with None show ?thesis by (simp add: os_memcpy_def os_put_def)
next
  case (Some i)
  with assms have i: "i < length (os_heap s)"
      and len: "length (os_heap s ! i) = unat (os_bufferSize s)"
      and ptr: "os_rangePtr s = unat (os_rangeOffset s)"
    by (auto simp: os_ok_def os_mem_def)
  have "os_rangePtr s + unat (os_rangeSize s) + length bs \<le> length (os_heap s ! i)"
    using assms len ptr by (auto simp: os_ok_def os_room_def)
  with Some ptr show ?thesis
    by (auto simp: os_memcpy_def os_put_def add.assoc)
qed

lemma take_drop_take: "a + n \<le> k \<Longrightarrow> take n (drop a (take k zs)) = take n (drop a zs)"
  by (simp add: drop_take min_def)

lemma take_drop_update:
  assumes "a + n \<le> k" and "k + length bs \<le> length xs"
  shows "take n (drop a (take k xs @ bs @ drop (k + length bs) xs)) = take n (drop a xs)"
    (is "take n (drop a ?ys) = _")
proof -
  have "take k ?ys = take k xs" using assms(2) by simp
  then have "take n (drop a (take k ?ys)) = take n (drop a (take k xs))" by (simp only:)
  with assms(1) show ?thesis by (simp only: take_drop_take)
qed

lemma take_drop_update_tail:
  assumes "a + n = k" and "k + length bs \<le> length xs"
  shows "take (n + length bs) (drop a (take k xs @ bs @ drop (k + length bs) xs)) =
         take n (drop a xs) @ bs"
proof -
  have "drop a (take k xs) = take n (drop a xs)" using assms(1) by (auto simp: drop_take)
  with assms show ?thesis by simp
qed

lemma os_put_mem:
  assumes "os_ok s" and "length bs \<le> os_room s"
  shows "os_mem (os_put bs s) =
    take (unat (os_rangeOffset s) + unat (os_rangeSize s)) (os_mem s) @ bs @
    drop (unat (os_rangeOffset s) + unat (os_rangeSize s) + length bs) (os_mem s)"
  using assms by (auto simp: os_put_def os_mem_def os_ok_def os_room_def split: option.splits)

lemma chained_bytes_put:
  assumes ok: "os_ok s" and room: "length bs \<le> os_room s" and c: "c \<in> set (os_blobs s)"
  shows "chained_bytes (os_heap (os_put bs s)) c = chained_bytes (os_heap s) c"
proof (cases c)
  case (Chunk i a l)
  show ?thesis
  proof (cases "os_buffer s = Some i")
    case True
    with ok c Chunk have al: "a + l \<le> unat (os_rangeOffset s)" and i: "i < length (os_heap s)"
        and len: "length (os_heap s ! i) = unat (os_bufferSize s)"
      by (auto simp: os_ok_def os_mem_def)
    have "take l (drop a (os_heap s ! i)) = take l (drop a (take
        (unat (os_rangeOffset s) + unat (os_rangeSize s)) (os_heap s ! i) @ bs @
         drop (unat (os_rangeOffset s) + unat (os_rangeSize s) + length bs) (os_heap s ! i)))"
      using al len ok room by (intro take_drop_update [symmetric]) (auto simp: os_ok_def os_room_def)
    with True i Chunk show ?thesis by (simp add: os_put_def)
  next
    case False
    with Chunk show ?thesis by (auto simp: os_put_def split: option.splits)
  qed
qed simp

lemma os_put_content:
  assumes "os_ok s" and "length bs \<le> os_room s"
  shows "os_content (os_put bs s) = os_content s @ bs"
proof -
  have "concat (map (chained_bytes (os_heap (os_put bs s))) (os_blobs s)) =
      concat (map (chained_bytes (os_heap s)) (os_blobs s))"
    using chained_bytes_put [OF assms] by (metis (no_types, lifting) map_eq_conv)
  moreover have "os_range (os_put bs s) = os_range s @ bs"
  proof -
    let ?o = "unat (os_rangeOffset s)" and ?n = "unat (os_rangeSize s)"
    have "?o + ?n + length bs \<le> length (os_mem s)"
      using assms by (auto simp: os_ok_def os_room_def)
    then have "take (?n + length bs) (drop ?o (take (?o + ?n) (os_mem s) @ bs @
        drop (?o + ?n + length bs) (os_mem s))) = take ?n (drop ?o (os_mem s)) @ bs"
      by (intro take_drop_update_tail) auto
    then show ?thesis
      using unat_rangeSize_put [OF assms] os_put_mem [OF assms]
      by (simp add: os_range_def os_put_def)
  qed
  ultimately show ?thesis by (simp add: os_content_def os_put_def)
qed

lemma os_put_fields [simp]:
  "os_bufferSize (os_put bs s) = os_bufferSize s"
  "os_rangeOffset (os_put bs s) = os_rangeOffset s"
  "os_rangeSize (os_put bs s) = os_rangeSize s + of_nat (length bs)"
  "os_buffer (os_put bs s) = os_buffer s"
  "os_blobs (os_put bs s) = os_blobs s"
  "os_rangePtr (os_put bs s) = os_rangePtr s"
  "os_noinit (os_put bs s) = os_noinit s"
  "length (os_heap (os_put bs s)) = length (os_heap s)"
  by (simp_all add: os_put_def split: option.splits)

lemma length_heap_put:
  assumes "os_ok s" and "length bs \<le> os_room s"
  shows "length (os_heap (os_put bs s) ! i) = length (os_heap s ! i)"
proof (cases "os_buffer s = Some i")
  case True
  with assms show ?thesis
    by (auto simp: os_put_def os_ok_def os_room_def os_mem_def)
next
  case False
  then show ?thesis by (auto simp: os_put_def split: option.splits)
qed

lemma os_put_ok:
  assumes "os_ok s" and "length bs \<le> os_room s"
  shows "os_ok (os_put bs s)"
proof -
  have "chained_ok (os_heap (os_put bs s)) (os_buffer s) (unat (os_rangeOffset s)) c"
    if "c \<in> set (os_blobs s)" for c
  proof (cases c)
    case (Chunk i a l)
    with that assms(1) have "chained_ok (os_heap s) (os_buffer s) (unat (os_rangeOffset s)) (Chunk i a l)"
      by (auto simp: os_ok_def)
    with Chunk length_heap_put [OF assms] show ?thesis by simp
  next
    case (Extern b)
    with that assms(1) have "chained_ok (os_heap s) (os_buffer s) (unat (os_rangeOffset s)) (Extern b)"
      by (auto simp: os_ok_def)
    with Extern show ?thesis by simp
  qed
  moreover have "length (os_mem (os_put bs s)) = length (os_mem s)"
    using assms by (auto simp: os_put_mem os_ok_def os_room_def)
  ultimately show ?thesis
    using assms unat_rangeSize_put [OF assms] os_put_content [OF assms]
    by (auto simp: os_ok_def os_room_def)
qed

subsection \<open>Every write appends\<close>

text \<open>The contract all write operations share: below 2 GB of content they succeed and append.\<close>

definition os_appends ::
    "(OutputMemoryStream \<Rightarrow> OutputMemoryStream res) \<Rightarrow> byte list \<Rightarrow> bool" where
  "os_appends w bs \<longleftrightarrow>
     (\<forall>s. os_ok s \<and> length (os_content s) + length bs < 2 ^ 31 \<longrightarrow>
        (\<exists>s'. w s = Inr s' \<and> os_ok s' \<and> os_content s' = os_content s @ bs))"

lemma os_appendsD:
  "os_appends w bs \<Longrightarrow> os_ok s \<Longrightarrow> length (os_content s) + length bs < 2 ^ 31 \<Longrightarrow>
   \<exists>s'. w s = Inr s' \<and> os_ok s' \<and> os_content s' = os_content s @ bs"
  by (simp add: os_appends_def)

text \<open>Replacing the current buffer by a fresh one keeps the content.\<close>

definition os_fresh :: "u32 \<Rightarrow> OutputMemoryStream \<Rightarrow> OutputMemoryStream" where
  "os_fresh n s = (os_allocate n ((os_seal s)\<lparr>os_bufferSize := n\<rparr>))
     \<lparr>os_rangeOffset := 0, os_rangePtr := 0, os_rangeSize := 0\<rparr>"

lemma os_seal_blobs:
  assumes "os_ok s"
  shows "concat (map (chained_bytes (os_heap s)) (os_blobs (os_seal s))) = os_content s"
    and "\<forall>c \<in> set (os_blobs (os_seal s)). chained_ok (os_heap s) None 0 c"
proof -
  have weak: "chained_ok (os_heap s) None 0 c" if "c \<in> set (os_blobs s)" for c
  proof -
    from that assms have "chained_ok (os_heap s) (os_buffer s) (unat (os_rangeOffset s)) c"
      by (auto simp: os_ok_def)
    then show ?thesis by (cases c) auto
  qed
  have "os_rangeSize s = 0 \<or> (\<exists>i. os_buffer s = Some i)"
    using assms by (auto simp: os_ok_def os_mem_def unat_eq_0 split: option.splits)
  then show "concat (map (chained_bytes (os_heap s)) (os_blobs (os_seal s))) = os_content s"
    by (auto simp: os_seal_def os_snap_def os_content_def os_range_def os_mem_def word_gt_0)
  show "\<forall>c \<in> set (os_blobs (os_seal s)). chained_ok (os_heap s) None 0 c"
  proof (cases "os_rangeSize s > 0")
    case True
    then have "0 < unat (os_rangeSize s)" by (simp add: word_gt_0 unat_gt_0)
    with assms obtain i where i: "os_buffer s = Some i"
      by (auto simp: os_ok_def os_mem_def split: option.splits)
    with True assms weak unat_u32_bound [of "os_rangeSize s"] show ?thesis
      by (auto simp: os_seal_def os_snap_def os_ok_def os_mem_def)
  next
    case False
    with weak show ?thesis by (simp add: os_seal_def)
  qed
qed

lemma chained_extend:
  "chained_ok h None 0 c \<Longrightarrow> chained_bytes (h @ [m]) c = chained_bytes h c"
  "chained_ok h None 0 c \<Longrightarrow> chained_ok (h @ [m]) (Some (length h)) 0 c"
  by (cases c; simp add: nth_append)+

lemma os_fresh_ok:
  assumes "os_ok s"
  shows "os_ok (os_fresh n s)" and "os_content (os_fresh n s) = os_content s"
    and "os_room (os_fresh n s) = unat n" and "os_rangeSize (os_fresh n s) = 0"
    and "os_rangeOffset (os_fresh n s) = 0" and "os_rangePtr (os_fresh n s) = 0"
proof -
  let ?m = "map (os_noinit s) [0..<unat n]"
  note sealed = os_seal_blobs [OF assms]
  have f: "os_heap (os_fresh n s) = os_heap s @ [?m]" "os_blobs (os_fresh n s) = os_blobs (os_seal s)"
      "os_buffer (os_fresh n s) = Some (length (os_heap s))" "os_bufferSize (os_fresh n s) = n"
      "os_rangeSize (os_fresh n s) = 0" "os_rangeOffset (os_fresh n s) = 0"
      "os_rangePtr (os_fresh n s) = 0"
    by (simp_all add: os_fresh_def os_allocate_def os_seal_def os_snap_def)
  have meq: "map (chained_bytes (os_heap s @ [?m])) (os_blobs (os_seal s)) =
      map (chained_bytes (os_heap s)) (os_blobs (os_seal s))"
    using sealed(2) by (auto simp: chained_extend)
  have "os_content (os_fresh n s) =
      concat (map (chained_bytes (os_heap s @ [?m])) (os_blobs (os_seal s)))"
    by (simp add: os_content_def os_range_def f)
  then show content: "os_content (os_fresh n s) = os_content s"
    by (simp only: meq sealed(1))
  show "os_ok (os_fresh n s)"
    using sealed(2) by (auto simp: os_ok_def f os_mem_def chained_extend)
  show "os_room (os_fresh n s) = unat n" "os_rangeSize (os_fresh n s) = 0"
    "os_rangeOffset (os_fresh n s) = 0" "os_rangePtr (os_fresh n s) = 0"
    by (simp_all add: os_room_def f)
qed

lemma os_memcpy_rangeSize:
  "os_memcpy off bs (s\<lparr>os_rangeSize := x\<rparr>) =
   res_bind (os_memcpy off bs s) (\<lambda>s1. Inr (s1\<lparr>os_rangeSize := x\<rparr>))"
  "os_memcpy off bs s = Inr s1 \<Longrightarrow> os_rangeSize s1 = os_rangeSize s"
  by (auto simp: os_memcpy_def split: option.splits if_splits)

lemma os_memcpy_fresh:
  assumes ok: "os_ok s" and n: "length bs \<le> unat n"
  shows "os_memcpy 0 bs ((os_fresh n s)\<lparr>os_rangeSize := of_nat (length bs)\<rparr>) =
         Inr (os_put bs (os_fresh n s))"
proof -
  note fresh = os_fresh_ok [OF ok, of n]
  from n fresh have put: "res_bind (os_memcpy 0 bs (os_fresh n s))
      (\<lambda>s1. Inr (s1\<lparr>os_rangeSize := os_rangeSize s1 + of_nat (length bs)\<rparr>)) =
      Inr (os_put bs (os_fresh n s))"
    using os_memcpy_tail [of "os_fresh n s" bs] by simp
  then obtain s1 where s1: "os_memcpy 0 bs (os_fresh n s) = Inr s1"
    by (cases "os_memcpy 0 bs (os_fresh n s)") auto
  with put fresh(4) os_memcpy_rangeSize(2) [OF s1] show ?thesis
    by (simp add: os_memcpy_rangeSize(1))
qed

lemma unat_avail:
  assumes "os_ok s"
  shows "unat (os_bufferSize s - os_rangeSize s - os_rangeOffset s) = os_room s"
proof -
  have le: "unat (os_rangeSize s) \<le> unat (os_bufferSize s)"
    using assms by (simp add: os_ok_def)
  then have "unat (os_bufferSize s - os_rangeSize s) = unat (os_bufferSize s) - unat (os_rangeSize s)"
    by (rule unat_sub_no_underflow)
  moreover have "unat (os_rangeOffset s) \<le> unat (os_bufferSize s) - unat (os_rangeSize s)"
    using assms by (auto simp: os_ok_def)
  ultimately show ?thesis by (simp add: unat_sub_no_underflow os_room_def)
qed

lemma unat_cap: "unat (drop_bit 1 (-1) :: u32) = 2 ^ 31 - 1"
  by (simp add: mask_eq_exp_minus_1)

lemma os_grow_appends:
  assumes ok: "os_ok s" and full: "os_room s = 0"
    and total: "length (os_content s) + length buffer < 2 ^ 31"
  shows "\<exists>s'. os_grow buffer s = Inr s' \<and> os_ok s' \<and> os_content s' = os_content s @ buffer"
proof -
  have sz: "unat (of_nat (length buffer) :: u32) = length buffer"
    using total by (intro unat_of_nat_small) simp
  have "unat (os_bufferSize s) \<le> length (os_content s)"
    using ok full by (auto simp: os_ok_def os_room_def)
  then have cap: "\<not> os_bufferSize (os_seal s) > drop_bit 1 (-1)"
    using total by (simp add: os_seal_def os_snap_def word_less_nat_alt mask_eq_exp_minus_1)
  define n where "n = max (os_bufferSize s +
      (if os_bufferSize s \<noteq> 0 then os_bufferSize s div 2 else 4096)) (of_nat (length buffer))"
  have n: "length buffer \<le> unat n"
    using sz by (simp add: n_def max_def word_le_nat_alt)
  have bs: "os_bufferSize (os_seal s) = os_bufferSize s"
    by (simp add: os_seal_def os_snap_def)
  have "os_grow buffer s =
      os_memcpy 0 buffer ((os_fresh n s)\<lparr>os_rangeSize := of_nat (length buffer)\<rparr>)"
    using cap unfolding os_grow_def Let_def bs n_def [symmetric] by (simp add: os_fresh_def)
  then have "os_grow buffer s = Inr (os_put buffer (os_fresh n s))"
    using os_memcpy_fresh [OF ok n] by simp
  with n show ?thesis
    using os_fresh_ok [OF ok, of n] os_put_ok [of "os_fresh n s" buffer]
      os_put_content [of "os_fresh n s" buffer] by simp
qed

lemma os_write_mem_appends: "os_appends (os_write_mem buffer) buffer"
  unfolding os_appends_def
proof (intro allI impI)
  fix s assume a: "os_ok s \<and> length (os_content s) + length buffer < 2 ^ 31"
  then have ok: "os_ok s" and total: "length (os_content s) + length buffer < 2 ^ 31" by auto
  let ?sz = "of_nat (length buffer) :: u32"
  let ?avail = "os_bufferSize s - os_rangeSize s - os_rangeOffset s"
  define sizePart where "sizePart = (if ?avail > ?sz then ?sz else ?avail)"
  have sz: "unat ?sz = length buffer" using total by (intro unat_of_nat_small) simp
  have part: "unat sizePart = min (os_room s) (length buffer)"
    by (simp add: sizePart_def word_less_nat_alt unat_avail [OF ok] sz min_def del: of_nat_less_iff)
  let ?b1 = "take (unat sizePart) buffer" and ?b2 = "drop (unat sizePart) buffer"
  have b1: "length ?b1 = unat sizePart" using part by simp
  have sp: "(of_nat (length ?b1) :: u32) = sizePart" by (simp add: b1 del: length_take)
  have room1: "length ?b1 \<le> os_room s" using part by simp
  define s2 where "s2 = os_put ?b1 s"
  have s2: "os_ok s2" "os_content s2 = os_content s @ ?b1"
    using os_put_ok [OF ok room1] os_put_content [OF ok room1] by (simp_all add: s2_def)
  have "res_bind (os_memcpy (os_rangePtr s + unat (os_rangeSize s)) ?b1 s)
      (\<lambda>s1. Inr (s1\<lparr>os_rangeSize := os_rangeSize s1 + sizePart\<rparr>)) = Inr s2"
    using os_memcpy_tail [OF ok room1] by (simp only: sp s2_def)
  then obtain s1 where s1: "os_memcpy (os_rangePtr s + unat (os_rangeSize s)) ?b1 s = Inr s1"
      "s1\<lparr>os_rangeSize := os_rangeSize s1 + sizePart\<rparr> = s2"
    unfolding res_bind_Inr_iff by (elim exE conjE) (simp only: sum.inject)
  then have step: "os_write_mem buffer s = (if ?sz = sizePart then Inr s2 else os_grow ?b2 s2)"
    unfolding os_write_mem_def Let_def sizePart_def [symmetric] by simp
  show "\<exists>s'. os_write_mem buffer s = Inr s' \<and> os_ok s' \<and> os_content s' = os_content s @ buffer"
  proof (cases "?sz = sizePart")
    case True
    then have "?b1 = buffer" using sz by simp
    with step True s2 show ?thesis by auto
  next
    case False
    then have lt: "os_room s < length buffer"
      using part sz by (auto simp: min_def word_unat_eq_iff split: if_splits)
    then have "os_room s2 = 0"
      using unat_rangeSize_put [OF ok room1] b1 part ok
      by (auto simp: s2_def os_ok_def os_room_def)
    moreover have "length (os_content s2) + length ?b2 < 2 ^ 31"
      using total s2(2) part lt by simp
    ultimately obtain s' where "os_grow ?b2 s2 = Inr s'" "os_ok s'"
        "os_content s' = os_content s2 @ ?b2"
      using os_grow_appends [of s2 ?b2] s2(1) by blast
    with False step s2 show ?thesis by simp
  qed
qed

lemma os_write_le_appends: "os_appends (os_write_le obj) obj"
  unfolding os_appends_def
proof (intro allI impI)
  fix s assume a: "os_ok s \<and> length (os_content s) + length obj < 2 ^ 31"
  show "\<exists>s'. os_write_le obj s = Inr s' \<and> os_ok s' \<and> os_content s' = os_content s @ obj"
  proof (cases "length obj + unat (os_rangeSize s) + unat (os_rangeOffset s) \<le> unat (os_bufferSize s)")
    case True
    then have room: "length obj \<le> os_room s" by (simp add: os_room_def)
    with a True show ?thesis
      by (simp add: os_write_le_def os_memcpy_tail os_put_ok os_put_content)
  next
    case False
    with a show ?thesis
      using os_appendsD [OF os_write_mem_appends, of s obj] by (simp add: os_write_le_def)
  qed
qed

lemma os_chain_ok:
  assumes "os_ok s"
  shows "os_rangeSize s > 0 \<longrightarrow>
      os_ok ((os_snap s)\<lparr>os_rangeOffset := os_rangeOffset s + os_rangeSize s,
              os_rangePtr := os_rangePtr s + unat (os_rangeSize s), os_rangeSize := 0\<rparr>) \<and>
      os_content ((os_snap s)\<lparr>os_rangeOffset := os_rangeOffset s + os_rangeSize s,
              os_rangePtr := os_rangePtr s + unat (os_rangeSize s), os_rangeSize := 0\<rparr>) =
        os_content s"
    and "\<not> os_rangeSize s > 0 \<longrightarrow> os_rangeSize s = 0"
proof -
  let ?t = "(os_snap s)\<lparr>os_rangeOffset := os_rangeOffset s + os_rangeSize s,
              os_rangePtr := os_rangePtr s + unat (os_rangeSize s), os_rangeSize := 0\<rparr>"
  show "os_rangeSize s > 0 \<longrightarrow> os_ok ?t \<and> os_content ?t = os_content s"
  proof
    assume "os_rangeSize s > 0"
    then have "0 < unat (os_rangeSize s)" by (simp add: word_gt_0 unat_gt_0)
    with assms obtain i where i: "os_buffer s = Some i"
      by (auto simp: os_ok_def os_mem_def split: option.splits)
    have off: "unat (os_rangeOffset s + os_rangeSize s) =
        unat (os_rangeOffset s) + unat (os_rangeSize s)"
      using assms unat_u32_bound [of "os_bufferSize s"]
      by (intro unat_add_no_overflow) (simp add: os_ok_def)
    have mono: "chained_ok h cur o1 c \<Longrightarrow> o1 \<le> o2 \<Longrightarrow> chained_ok h cur o2 c" for h cur o1 o2 c
      by (cases c) auto
    have content: "os_content ?t = os_content s"
      using i by (simp add: os_content_def os_snap_def os_range_def os_mem_def)
    moreover have "chained_ok (os_heap s) (os_buffer s) (unat (os_rangeOffset s) + unat (os_rangeSize s)) c"
      if "c \<in> set (os_blobs ?t)" for c
      using that assms i unat_u32_bound [of "os_rangeSize s"]
      by (auto simp: os_snap_def os_ok_def os_mem_def intro: mono)
    ultimately show "os_ok ?t \<and> os_content ?t = os_content s"
      using assms off i by (simp add: os_ok_def os_mem_def) (simp add: os_snap_def)
  qed
  show "\<not> os_rangeSize s > 0 \<longrightarrow> os_rangeSize s = 0" by (simp add: word_gt_0)
qed

lemma os_write_blob_appends:
  assumes "blob_wf b"
  shows "os_appends (os_write_blob b) (blob_bytes b)"
  unfolding os_appends_def
proof (intro allI impI)
  fix s assume a: "os_ok s \<and> length (os_content s) + length (blob_bytes b) < 2 ^ 31"
  show "\<exists>s'. os_write_blob b s = Inr s' \<and> os_ok s' \<and> os_content s' = os_content s @ blob_bytes b"
  proof (cases "blob_length b < os_minChainningSize s \<or> length (os_blobs s) \<ge> unat (os_maxChainLength s)")
    case True
    with a show ?thesis
      using os_appendsD [OF os_write_mem_appends, of s "blob_bytes b"]
      by (simp add: os_write_blob_def)
  next
    case False
    define s1 where "s1 = (if os_rangeSize s > 0
        then (os_snap s)\<lparr>os_rangeOffset := os_rangeOffset s + os_rangeSize s,
                         os_rangePtr := os_rangePtr s + unat (os_rangeSize s), os_rangeSize := 0\<rparr>
        else s)"
    have s1: "os_ok s1 \<and> os_content s1 = os_content s \<and> os_rangeSize s1 = 0"
      using a os_chain_ok [of s] by (simp add: s1_def)
    have w: "os_write_blob b s = Inr (s1\<lparr>os_blobs := os_blobs s1 @ [Extern b]\<rparr>)"
      using False by (simp add: os_write_blob_def s1_def Let_def)
    have "os_content (s1\<lparr>os_blobs := os_blobs s1 @ [Extern b]\<rparr>) = os_content s @ blob_bytes b"
      using s1 by (auto simp: os_content_def os_range_def os_mem_def)
    with w s1 assms show ?thesis
      by (auto simp: os_ok_def os_mem_def split: option.splits)
  qed
qed

subsection \<open>Varints\<close>

lemma ucast_or_80:
  "8 \<le> LENGTH('a::len) \<Longrightarrow> (ucast (v OR 0x80 :: 'a word) :: byte) = ucast v OR 0x80"
  by (rule bit_word_eqI) (auto simp: bit_simps)

lemma or_80_byte: "(c OR 0x80 :: byte) = of_nat (unat c mod 128 + 128)"
proof -
  have e: "(0x80 :: byte) = 2 ^ 7" by simp
  have b: "bit (0x80 :: byte) i \<longleftrightarrow> i = 7" for i
    unfolding e bit_exp_iff by auto
  have "c OR 0x80 = take_bit 7 c OR 0x80"
  proof (rule bit_word_eqI)
    fix i assume "i < LENGTH(8)"
    then show "bit (c OR 0x80) i = bit (take_bit 7 c OR 0x80) i"
      by (cases "i = 7") (simp_all only: bit_or_iff bit_take_bit_iff b, auto)
  qed
  also have "\<dots> = take_bit 7 c OR of_nat (1 * 2 ^ 7)" by simp
  also have "\<dots> = take_bit 7 c + of_nat (1 * 2 ^ 7)"
    by (rule or_of_nat_eq_add) (simp add: unat_take_bit_7)
  also have "take_bit 7 c = of_nat (unat c mod 128)"
    by (simp only: unat_take_bit_7 [symmetric] of_nat_unat ucast_id)
  finally show ?thesis by simp
qed

lemma unat_ucast_byte_mod: "8 \<le> LENGTH('a::len) \<Longrightarrow> unat (ucast (v :: 'a word) :: byte) mod 128 = unat v mod 128"
  by (simp add: unsigned_ucast_eq take_bit_eq_mod mod_mod_cancel)

lemma varint_word:
  fixes v :: "'a::len word"
  assumes "8 \<le> LENGTH('a)"
  shows "varint (unat v) =
    (if drop_bit 7 v = 0 then [ucast v] else (ucast v OR 0x80) # varint (unat (drop_bit 7 v)))"
proof -
  have "drop_bit 7 v = 0 \<longleftrightarrow> unat v < 128"
    unfolding unat_eq_0 [symmetric] unat_drop_bit_7 by (simp add: div_eq_0_iff)
  moreover have "(ucast v OR 0x80 :: byte) = of_nat (unat v mod 128 + 128)"
    using unat_ucast_byte_mod [OF assms, of v] by (simp only: or_80_byte)
  ultimately show ?thesis
    by (simp add: varint_small varint_big unat_drop_bit_7 del: of_nat_add drop_bit_word_numeral)
qed

lemma vuw_bytes_varint:
  fixes val :: "'a::len word"
  assumes "LENGTH('a) \<in> {16, 32, 64}" and "0 < n" and "n \<le> vuw_last LENGTH('a)"
    and "unat val * 2 ^ (7 * (n - 1)) < 2 ^ LENGTH('a)" and "n = 1 \<or> val \<noteq> 0"
  shows "vuw_bytes n val = varint (unat val)"
  using assms
proof (induction n val rule: vuw_bytes.induct)
  case (1 n val)
  have L8: "8 \<le> LENGTH('a)" using "1.prems"(1) by auto
  show ?case
  proof (cases "n \<ge> vuw_last LENGTH('a)")
    case True
    with "1.prems"(1,3,4) have small: "unat val < 128" "LENGTH('a) = 64 \<Longrightarrow> unat val < 2"
      by (auto simp: vuw_last_def)
    have "val = 1" if "LENGTH('a) = 64"
    proof -
      have "n \<noteq> 1" using True that by (simp add: vuw_last_def)
      with "1.prems"(5) have "unat val \<noteq> 0" by (simp add: unat_eq_0)
      with small(2) [OF that] have "unat val = unat (1 :: 'a word)" by simp
      then show ?thesis by (simp only: word_unat_eq_iff)
    qed
    with True small(1) show ?thesis
      by (simp add: vuw_bytes.simps [of n val] varint_small)
  next
    case False
    show ?thesis
    proof (cases "drop_bit 7 val = 0")
      case True
      with False show ?thesis
        by (simp add: vuw_bytes.simps [of n val] varint_word [OF L8] del: drop_bit_word_numeral)
    next
      case nz: False
      have "unat (drop_bit 7 val) * 2 ^ (7 * (n + 1 - 1)) \<le> unat val * 2 ^ (7 * (n - 1))"
      proof -
        have "(2::nat) ^ (7 * n) = 128 * 2 ^ (7 * (n - 1))"
          using "1.prems"(2) by (cases n) (auto simp: power_add)
        then show ?thesis by (simp add: unat_drop_bit_7)
      qed
      with "1.prems"(4) have "unat (drop_bit 7 val) * 2 ^ (7 * (n + 1 - 1)) < 2 ^ LENGTH('a)"
        by linarith
      with "1.IH" False nz "1.prems"(1) have "vuw_bytes (n + 1) (drop_bit 7 val) = varint (unat (drop_bit 7 val))"
        by (simp del: drop_bit_word_numeral)
      with False nz show ?thesis
        by (simp add: vuw_bytes.simps [of n val] varint_word [OF L8, of val] del: drop_bit_word_numeral)
    qed
  qed
qed

lemma length_varint_word:
  assumes "LENGTH('a::len) \<in> {16, 32, 64}"
  shows "length (varint (unat (v :: 'a word))) \<le> (LENGTH('a) div 8) * 8 div 7 + 1"
proof -
  have v: "unat v < 2 ^ LENGTH('a)" by (rule unsigned_less)
  have "unat v < 2 ^ (7 * ((LENGTH('a) div 8) * 8 div 7 + 1))"
    using v by (rule order_less_le_trans) (rule power_increasing, use assms in auto)
  then show ?thesis by (rule length_varint) simp
qed

theorem os_WriteVariableUnsigned_appends:
  fixes v :: "'a::len word"
  assumes "LENGTH('a) \<in> {16, 32, 64}"
  shows "os_appends (os_WriteVariableUnsigned v) (varint (unat v))"
proof (induction "unat v" arbitrary: v rule: less_induct)
  case less
  have L8: "8 \<le> LENGTH('a)" using assms by auto
  show ?case
    unfolding os_appends_def
  proof (intro allI impI)
    fix s assume a: "os_ok s \<and> length (os_content s) + length (varint (unat v)) < 2 ^ 31"
    let ?fast = "(LENGTH('a) div 8) * 8 div 7 + unat (os_rangeSize s) + unat (os_rangeOffset s)
        < unat (os_bufferSize s)"
    have bytes: "vuw_bytes 1 v = varint (unat v)"
      using assms unsigned_less [of v, where ?'a = nat]
      by (intro vuw_bytes_varint) (auto simp: vuw_last_def)
    consider (fast) ?fast | (more) "\<not> ?fast" "drop_bit 7 v \<noteq> 0" | (one) "\<not> ?fast" "drop_bit 7 v = 0"
      by blast
    then show "\<exists>s'. os_WriteVariableUnsigned v s = Inr s' \<and> os_ok s' \<and>
        os_content s' = os_content s @ varint (unat v)"
    proof cases
      case fast
      then have "length (varint (unat v)) \<le> os_room s"
        using length_varint_word [OF assms, of v] by (simp add: os_room_def)
      with a fast bytes show ?thesis
        by (simp add: os_WriteVariableUnsigned.simps [of v s] os_memcpy_tail os_put_ok
            os_put_content Let_def)
    next
      case more
      let ?c = "ucast (v OR 0x80) :: byte"
      have vi: "varint (unat v) = ?c # varint (unat (drop_bit 7 v))"
        using more by (simp add: varint_word [OF L8, of v] ucast_or_80 [OF L8] del: drop_bit_word_numeral)
      obtain s1 where s1: "os_write_le [?c] s = Inr s1" "os_ok s1" "os_content s1 = os_content s @ [?c]"
        using os_appendsD [OF os_write_le_appends, of s "[?c]"] a vi by auto
      moreover have "os_appends (os_WriteVariableUnsigned (drop_bit 7 v)) (varint (unat (drop_bit 7 v)))"
        using more(2) by (intro less.hyps drop_bit_7_less)
      ultimately obtain s2 where "os_WriteVariableUnsigned (drop_bit 7 v) s1 = Inr s2" "os_ok s2"
          "os_content s2 = os_content s1 @ varint (unat (drop_bit 7 v))"
        using os_appendsD [of _ _ s1] a vi by fastforce
      with s1 more vi show ?thesis
        by (simp add: os_WriteVariableUnsigned.simps [of v s] del: drop_bit_word_numeral)
    next
      case one
      then have "varint (unat v) = [ucast v]"
        by (simp add: varint_word [OF L8, of v] del: drop_bit_word_numeral)
      with one a show ?thesis
        using os_appendsD [OF os_write_le_appends, of s "[ucast v]"]
        by (simp add: os_WriteVariableUnsigned.simps [of v s] del: drop_bit_word_numeral)
    qed
  qed
qed

subsection \<open>The collected blobs\<close>

lemma chained_blob_wf:
  assumes "chained_ok h cur off c"
  shows "blob_wf (chained_blob addr h c)" and "blob_bytes (chained_blob addr h c) = chained_bytes h c"
  using assms by (cases c; auto simp: blob_wf_def unat_of_nat_small min_def)+

lemma os_current_ok:
  assumes "os_ok s" and "os_buffer s = Some i"
  shows "chained_ok (os_heap s) None 0 (os_current s)"
    and "chained_bytes (os_heap s) (os_current s) = os_range s"
  using assms unat_u32_bound [of "os_rangeSize s"]
  by (auto simp: os_ok_def os_current_def os_mem_def os_range_def)

lemma os_blobs_ok:
  assumes "os_ok s"
  shows "c \<in> set (os_blobs s) \<Longrightarrow> blob_wf (chained_blob addr (os_heap s) c)"
    and "concat (map (blob_bytes \<circ> chained_blob addr (os_heap s)) (os_blobs s)) =
      concat (map (chained_bytes (os_heap s)) (os_blobs s))"
proof -
  have chained: "chained_ok (os_heap s) (os_buffer s) (unat (os_rangeOffset s)) c"
    if "c \<in> set (os_blobs s)" for c using that assms by (auto simp: os_ok_def)
  show "c \<in> set (os_blobs s) \<Longrightarrow> blob_wf (chained_blob addr (os_heap s) c)"
    by (rule chained_blob_wf(1) [OF chained])
  have "map (blob_bytes \<circ> chained_blob addr (os_heap s)) (os_blobs s) =
      map (chained_bytes (os_heap s)) (os_blobs s)"
    using chained_blob_wf(2) [OF chained] by simp
  then show "concat (map (blob_bytes \<circ> chained_blob addr (os_heap s)) (os_blobs s)) =
      concat (map (chained_bytes (os_heap s)) (os_blobs s))" by (rule arg_cong)
qed

lemma os_buffer_Some:
  assumes "os_ok s" and "os_rangeSize s > 0"
  obtains i where "os_buffer s = Some i"
proof -
  have "0 < unat (os_rangeSize s)" using assms(2) by (simp add: word_gt_0 unat_gt_0)
  with assms(1) that show ?thesis by (auto simp: os_ok_def os_mem_def split: option.splits)
qed

text \<open>\<open>GetBuffer\<close> returns one blob with the whole content.\<close>

lemma os_GetBuffer_content:
  assumes ok: "os_ok s" and alloc: "alloc_ok alloc" and small: "length (os_content s) < 2 ^ 32"
  shows "\<exists>b. os_GetBuffer alloc addr s = Inr b \<and> blob_wf b \<and> blob_bytes b = os_content s"
proof -
  let ?bs = "map (chained_blob addr (os_heap s)) (os_blobs s)"
  let ?cur = "case os_buffer s of None \<Rightarrow> blob_empty | Some i \<Rightarrow> chained_blob addr (os_heap s) (os_current s)"
  have wf: "\<forall>b \<in> set ?bs. blob_wf b" and bytes: "concat (map blob_bytes ?bs) =
      concat (map (chained_bytes (os_heap s)) (os_blobs s))"
    using os_blobs_ok [where addr = addr, OF ok] by (auto simp: comp_def)
  have cur: "blob_wf ?cur" "blob_bytes ?cur = os_range s"
    using ok os_current_ok [OF ok] chained_blob_wf [of "os_heap s" None 0 "os_current s"]
    by (auto simp: os_ok_def os_range_def os_mem_def split: option.splits)
  from small have l: "length (concat (map blob_bytes ?bs)) + length (os_range s) < 2 ^ 32"
    unfolding bytes os_content_def by simp
  then obtain m where m: "blob_merge_all alloc ?bs = Inr m" "blob_wf m"
      "blob_bytes m = concat (map blob_bytes ?bs)"
    using blob_merge_all_Inr [OF alloc wf] by auto
  moreover have "unat (blob_length m) + unat (blob_length ?cur) < 2 ^ 32"
    using l m cur by (simp add: blob_wf_def)
  ultimately show ?thesis
    using blob_merge_Inr [OF alloc m(2) cur(1)] bytes cur(2)
    by (auto simp: os_GetBuffer_def os_content_def)
qed

lemma os_GetBuffers_content:
  assumes ok: "os_ok s"
  shows "concat (map blob_bytes (os_GetBuffers addr s)) = os_content s"
    and "\<forall>b \<in> set (os_GetBuffers addr s). blob_wf b"
proof -
  note m = os_blobs_ok [where addr = addr, OF ok]
  have "concat (map blob_bytes (os_GetBuffers addr s)) = os_content s \<and>
      (\<forall>b \<in> set (os_GetBuffers addr s). blob_wf b)"
  proof (cases "os_rangeSize s > 0")
    case True
    with ok obtain i where "os_buffer s = Some i" by (rule os_buffer_Some)
    then show ?thesis
      using True os_current_ok [OF ok] chained_blob_wf [of "os_heap s" None 0 "os_current s"] m
      by (auto simp: os_GetBuffers_def os_content_def)
  next
    case False
    with m show ?thesis
      by (auto simp: os_GetBuffers_def os_content_def os_range_def word_gt_0)
  qed
  then show "concat (map blob_bytes (os_GetBuffers addr s)) = os_content s"
    and "\<forall>b \<in> set (os_GetBuffers addr s). blob_wf b" by auto
qed

end
