(* ===== verification/Output_Counter.thy ===== *)
theory Output_Counter
  imports Output_Buffer
begin

text \<open>
  The counting stream of \<^verbatim>\<open>src/cpp/inc/bond/stream/output_counter.h\<close>: it stores nothing and adds
  up the sizes of what is written in a wrapping 32-bit counter.
\<close>

unbundle bit_operations_syntax

record OutputCounter =
  oc_count :: u32

definition OutputCounter_init :: OutputCounter where
  "OutputCounter_init = \<lparr>oc_count = 0\<rparr>"

definition oc_GetCount :: "OutputCounter \<Rightarrow> u32" where
  "oc_GetCount c = oc_count c"

definition oc_write :: "byte list \<Rightarrow> OutputCounter \<Rightarrow> OutputCounter res" where
  "oc_write obj c = Inr (c\<lparr>oc_count := oc_count c + of_nat (length obj)\<rparr>)"

definition oc_write_mem :: "byte list \<Rightarrow> OutputCounter \<Rightarrow> OutputCounter res" where
  "oc_write_mem buffer c = Inr (c\<lparr>oc_count := oc_count c + of_nat (length buffer)\<rparr>)"

definition oc_write_blob :: "blob \<Rightarrow> OutputCounter \<Rightarrow> OutputCounter res" where
  "oc_write_blob buffer c = Inr (c\<lparr>oc_count := oc_count c + blob_length buffer\<rparr>)"

definition oc_write_buffer :: "u32 \<Rightarrow> OutputCounter \<Rightarrow> OutputCounter res" where
  "oc_write_buffer sz c = Inr (c\<lparr>oc_count := oc_count c + sz\<rparr>)"

text \<open>\<open>VariableUnsigned<T, N>::Write\<close>; the last \<open>N\<close> of each type is a template specialization.\<close>

function vuc_write :: "nat \<Rightarrow> 'a::len word \<Rightarrow> u32 \<Rightarrow> u32" where
  "vuc_write n val count =
     (if n \<ge> vuw_last LENGTH('a) then count + of_nat (vuw_last LENGTH('a))
      else if val \<noteq> 0 then vuc_write (n + 1) (drop_bit 7 val) count
      else count + of_nat n)"
  by pat_completeness auto
termination
  by (relation "measure (\<lambda>(n, val :: 'a word, count). vuw_last LENGTH('a) - n)") auto

declare vuc_write.simps [simp del]

definition oc_WriteVariableUnsigned :: "'a::len word \<Rightarrow> OutputCounter \<Rightarrow> OutputCounter res" where
  "oc_WriteVariableUnsigned val c = Inr (c\<lparr>oc_count := vuc_write 1 (drop_bit 7 val) (oc_count c)\<rparr>)"

definition oc_GetBuffer :: "OutputCounter \<Rightarrow> u32" where
  "oc_GetBuffer c = oc_GetCount c"

definition oc_CreateOutputBuffer :: "OutputCounter \<Rightarrow> OutputCounter" where
  "oc_CreateOutputBuffer other = OutputCounter_init"

section \<open>The counter counts the bytes of the encoding\<close>

lemma unat_drop_bit_7_zero: "drop_bit 7 (v :: 'a::len word) = 0 \<longleftrightarrow> unat v < 128"
  unfolding unat_eq_0 [symmetric] unat_drop_bit_7 by auto

lemma length_varint_drop:
  "drop_bit 7 (v :: 'a::len word) \<noteq> 0 \<Longrightarrow>
   length (varint (unat v)) = Suc (length (varint (unat (drop_bit 7 v))))"
  unfolding unat_drop_bit_7_zero unat_drop_bit_7 by (simp add: varint_big)

lemma vuc_write_varint:
  fixes v :: "'a::len word"
  assumes "0 < n" and "n + length (varint (unat v)) \<le> Suc (vuw_last LENGTH('a))"
  shows "vuc_write n (drop_bit 7 v) count = count + of_nat (n + length (varint (unat v)) - 1)"
  using assms
proof (induction "unat v" arbitrary: v n rule: less_induct)
  case less
  have pos: "0 < length (varint (unat v))" by simp
  show ?case
  proof (cases "n < vuw_last LENGTH('a) \<and> drop_bit 7 v \<noteq> 0")
    case True
    then have "length (varint (unat v)) = Suc (length (varint (unat (drop_bit 7 v))))"
      by (intro length_varint_drop) simp
    with True less.prems less.hyps [of "drop_bit 7 v" "n + 1"] drop_bit_7_less [of v]
    show ?thesis by (subst vuc_write.simps) simp
  next
    case False
    have "length (varint (unat v)) = 1" if "drop_bit 7 v = 0"
      using that unfolding unat_drop_bit_7_zero by (simp add: varint_small)
    moreover have "length (varint (unat v)) = 1" if "\<not> n < vuw_last LENGTH('a)"
      using that less.prems pos by linarith
    ultimately have len: "length (varint (unat v)) = 1" using False by blast
    show ?thesis
    proof (cases "n < vuw_last LENGTH('a)")
      case True
      with False have "drop_bit 7 v = 0" by simp
      with True len show ?thesis by (subst vuc_write.simps) simp
    next
      case False
      with less.prems len have "n = vuw_last LENGTH('a)" by simp
      with len show ?thesis by (subst vuc_write.simps) simp
    qed
  qed
qed

lemma oc_WriteVariableUnsigned_length:
  fixes v :: "'a::len word"
  assumes "LENGTH('a) \<in> {16, 32, 64}"
  shows "oc_WriteVariableUnsigned v c =
    Inr (c\<lparr>oc_count := oc_count c + of_nat (length (varint (unat v)))\<rparr>)"
proof -
  have "length (varint (unat v)) \<le> vuw_last LENGTH('a)"
    using length_varint_word [OF assms, of v] assms by (auto simp: vuw_last_def)
  then show ?thesis by (simp add: oc_WriteVariableUnsigned_def vuc_write_varint)
qed

end
