(* ===== verification/Output_Stream.thy ===== *)
theory Output_Stream
  imports Output_Counter
begin

text \<open>
  The interface between protocol writers and output streams. A writer is a template over its
  \<open>Buffer\<close> type; the members it calls are the components of the record \<open>Buffer\<close>, and the overload
  resolution of \<open>LengthBegin\<close>/\<open>LengthEnd\<close> in the compact binary writer (a buffer that is the
  counter or any other) is the component \<open>b_Counter\<close>. The locale \<open>output_stream\<close> states what
  the writers rely on: as long as fewer than \<open>2 ^ 31\<close> bytes are held, every write succeeds and
  appends the bytes it documents. It is interpreted on the memory stream and on the counter.
\<close>

record 'b Buffer =
  b_Write :: "byte list \<Rightarrow> 'b \<Rightarrow> 'b res"
  b_WriteMem :: "byte list \<Rightarrow> 'b \<Rightarrow> 'b res"
  b_WriteBlob :: "blob \<Rightarrow> 'b \<Rightarrow> 'b res"
  b_WriteVariableUnsigned16 :: "u16 \<Rightarrow> 'b \<Rightarrow> 'b res"
  b_WriteVariableUnsigned32 :: "u32 \<Rightarrow> 'b \<Rightarrow> 'b res"
  b_WriteVariableUnsigned64 :: "u64 \<Rightarrow> 'b \<Rightarrow> 'b res"
  b_Counter :: "('b \<Rightarrow> u32) option"

definition memory_stream :: "OutputMemoryStream Buffer" where
  "memory_stream =
     \<lparr>b_Write = os_write_le, b_WriteMem = os_write_mem, b_WriteBlob = os_write_blob,
      b_WriteVariableUnsigned16 = os_WriteVariableUnsigned,
      b_WriteVariableUnsigned32 = os_WriteVariableUnsigned,
      b_WriteVariableUnsigned64 = os_WriteVariableUnsigned, b_Counter = None\<rparr>"

definition counter_stream :: "OutputCounter Buffer" where
  "counter_stream =
     \<lparr>b_Write = oc_write, b_WriteMem = oc_write_mem, b_WriteBlob = oc_write_blob,
      b_WriteVariableUnsigned16 = oc_WriteVariableUnsigned,
      b_WriteVariableUnsigned32 = oc_WriteVariableUnsigned,
      b_WriteVariableUnsigned64 = oc_WriteVariableUnsigned, b_Counter = Some oc_GetCount\<rparr>"

text \<open>What the two streams are said to hold: the bytes, or only their number.\<close>

definition os_holds :: "OutputMemoryStream \<Rightarrow> byte list \<Rightarrow> bool" where
  "os_holds s bs \<longleftrightarrow> os_ok s \<and> os_content s = bs"

definition oc_holds :: "OutputCounter \<Rightarrow> byte list \<Rightarrow> bool" where
  "oc_holds c bs \<longleftrightarrow> unat (oc_count c) = length bs"

text \<open>\<open>stream_appends holds w bs\<close>: the write \<open>w\<close> appends \<open>bs\<close>.\<close>

definition stream_appends :: "('b \<Rightarrow> byte list \<Rightarrow> bool) \<Rightarrow> ('b \<Rightarrow> 'b res) \<Rightarrow> byte list \<Rightarrow> bool" where
  "stream_appends holds w bs \<longleftrightarrow>
     (\<forall>s c. holds s c \<and> length c + length bs < 2 ^ 31 \<longrightarrow>
        (\<exists>s'. w s = Inr s' \<and> holds s' (c @ bs)))"

lemma stream_appendsD:
  "stream_appends holds w bs \<Longrightarrow> holds s c \<Longrightarrow> length c + length bs < 2 ^ 31 \<Longrightarrow>
   \<exists>s'. w s = Inr s' \<and> holds s' (c @ bs)"
  by (simp add: stream_appends_def)

lemma stream_appends_Nil: "stream_appends holds Inr []"
  by (simp add: stream_appends_def)

lemma stream_appends_seq:
  assumes "stream_appends holds w bs" and "stream_appends holds w' bs'"
  shows "stream_appends holds (\<lambda>s. res_bind (w s) w') (bs @ bs')"
  unfolding stream_appends_def
proof (intro allI impI)
  fix s c assume a: "holds s c \<and> length c + length (bs @ bs') < 2 ^ 31"
  then obtain s1 where s1: "w s = Inr s1" "holds s1 (c @ bs)"
    using stream_appendsD [OF assms(1), of s c] by auto
  with a stream_appendsD [OF assms(2) s1(2)]
  show "\<exists>s'. res_bind (w s) w' = Inr s' \<and> holds s' (c @ bs @ bs')" by auto
qed

locale output_stream =
  fixes B :: "'b Buffer" and holds :: "'b \<Rightarrow> byte list \<Rightarrow> bool"
  assumes Write_law: "stream_appends holds (b_Write B obj) obj"
    and WriteMem_law: "stream_appends holds (b_WriteMem B bs) bs"
    and WriteBlob_law: "blob_wf b \<Longrightarrow> stream_appends holds (b_WriteBlob B b) (blob_bytes b)"
    and Var16_law: "stream_appends holds (b_WriteVariableUnsigned16 B x) (varint (unat x))"
    and Var32_law: "stream_appends holds (b_WriteVariableUnsigned32 B y) (varint (unat y))"
    and Var64_law: "stream_appends holds (b_WriteVariableUnsigned64 B z) (varint (unat z))"
    and Counter_law: "b_Counter B = Some count \<Longrightarrow> holds s c \<Longrightarrow> unat (count s) = length c"
begin

lemmas stream_laws = Write_law WriteMem_law WriteBlob_law Var16_law Var32_law Var64_law

end

lemma os_holds_appends: "os_appends w bs \<Longrightarrow> stream_appends os_holds w bs"
  by (auto simp: stream_appends_def os_holds_def dest: os_appendsD)

interpretation mem: output_stream memory_stream os_holds
  by unfold_locales
    (auto simp: memory_stream_def intro!: os_holds_appends os_write_le_appends os_write_mem_appends
      os_write_blob_appends os_WriteVariableUnsigned_appends)

lemma oc_holds_add:
  assumes "\<And>c. w c = Inr (c\<lparr>oc_count := oc_count c + of_nat (length bs)\<rparr>)"
  shows "stream_appends oc_holds w bs"
  unfolding stream_appends_def oc_holds_def
proof (intro allI impI)
  fix s :: OutputCounter and c
  assume a: "unat (oc_count s) = length (c :: byte list) \<and> length c + length bs < 2 ^ 31"
  then have "unat (oc_count s + of_nat (length bs)) = length c + length bs"
    by (simp add: unat_add_no_overflow unat_of_nat_small)
  then show "\<exists>s'. w s = Inr s' \<and> unat (oc_count s') = length (c @ bs)" by (simp add: assms)
qed

lemma blob_length_of_nat: "blob_wf b \<Longrightarrow> blob_length b = of_nat (length (blob_bytes b))"
  by (simp add: blob_wf_def)

interpretation cnt: output_stream counter_stream oc_holds
  by unfold_locales
    (auto simp: counter_stream_def oc_write_def oc_write_mem_def oc_write_blob_def blob_length_of_nat
      oc_WriteVariableUnsigned_length oc_GetCount_def oc_holds_def intro!: oc_holds_add)

end
