(* ===== verification/Serializer.thy ===== *)
theory Serializer
  imports Bond_Types
begin

text \<open>
  The transform \<open>Serializer\<close> of \<^verbatim>\<open>src/cpp/inc/bond/core/transforms.h\<close> applied to an instance of a
  struct by \<open>StaticParser\<close> (\<^verbatim>\<open>parser.h\<close>, \<^verbatim>\<open>detail/inheritance.h\<close>). It is a template over the
  protocol writer; the members of the writer it calls are the record \<open>Writer\<close>. Next to it stands
  the specification: a \<open>format\<close> says which bytes each construct stands for, and \<open>enc_struct\<close>
  composes them. The locale \<open>protocol_writer\<close> is the contract between the two: if each member of
  the writer emits what the format says then the serializer emits the encoding of the whole value.

  An emission is a pair of the bytes and the lengths of the non-base structs among them, in the
  order in which these structs begin. The lengths are what the first pass of the compact binary
  writer computes and what its second pass consumes.
\<close>

section \<open>Sequencing\<close>

definition seq :: "('s \<Rightarrow> 's res) \<Rightarrow> ('s \<Rightarrow> 's res) \<Rightarrow> 's \<Rightarrow> 's res" where
  "seq m m' s = res_bind (m s) m'"

lemma seq_Inr [simp]: "seq m Inr = m"
proof
  show "seq m Inr s = m s" for s by (cases "m s") (simp_all add: seq_def)
qed

lemma Inr_seq [simp]: "seq Inr m = m"
  by (simp add: seq_def fun_eq_iff)

lemma seq_assoc: "seq (seq a b) c = seq a (seq b c)"
proof
  show "seq (seq a b) c s = seq a (seq b c) s" for s by (cases "a s") (simp_all add: seq_def)
qed

section \<open>The writer's members\<close>

record 'w Writer =
  w_may_omit_fields :: bool
  w_WriteStructBegin :: "Metadata \<Rightarrow> bool \<Rightarrow> 'w \<Rightarrow> 'w res"
  w_WriteStructEnd :: "bool \<Rightarrow> 'w \<Rightarrow> 'w res"
  w_WriteField :: "u16 \<Rightarrow> Metadata \<Rightarrow> bvalue \<Rightarrow> 'w \<Rightarrow> 'w res"
  w_WriteFieldBegin :: "BondDataType \<Rightarrow> u16 \<Rightarrow> Metadata \<Rightarrow> 'w \<Rightarrow> 'w res"
  w_WriteFieldEnd :: "'w \<Rightarrow> 'w res"
  w_WriteFieldOmitted :: "BondDataType \<Rightarrow> u16 \<Rightarrow> Metadata \<Rightarrow> 'w \<Rightarrow> 'w res"
  w_WriteContainerBegin :: "u32 \<Rightarrow> BondDataType \<Rightarrow> 'w \<Rightarrow> 'w res"
  w_WriteContainerBegin2 :: "u32 \<Rightarrow> BondDataType \<times> BondDataType \<Rightarrow> 'w \<Rightarrow> 'w res"
  w_WriteContainerEnd :: "'w \<Rightarrow> 'w res"
  w_Write :: "bvalue \<Rightarrow> 'w \<Rightarrow> 'w res"
  w_WriteBlob :: "blob \<Rightarrow> 'w \<Rightarrow> 'w res"

text \<open>\<open>detail::WriteFieldOmitted\<close> does nothing for a writer that has no such member.\<close>

definition no_WriteFieldOmitted :: "BondDataType \<Rightarrow> u16 \<Rightarrow> Metadata \<Rightarrow> 'w \<Rightarrow> 'w res" where
  "no_WriteFieldOmitted type fid metadata w = Inr w"

section \<open>The serializer\<close>

definition NothingException :: exn where
  "NothingException = CoreException (''Field value is '' @ [CHR 0x27] @ ''nothing'' @ [CHR 0x27])"

text \<open>
  \<open>Write\<close> by the kind of value, \<open>WriteField\<close>, \<open>Field\<close> for plain and \<open>maybe\<close> fields, and
  \<open>StaticParser::Apply\<close> with \<open>Begin\<close>, \<open>Base\<close>, the fields in order, and \<open>End\<close>.
\<close>

function (sequential) Serializer_Write :: "'w Writer \<Rightarrow> bvalue \<Rightarrow> 'w \<Rightarrow> 'w res"
  and Serializer_WriteItems :: "'w Writer \<Rightarrow> bvalue list \<Rightarrow> 'w \<Rightarrow> 'w res"
  and Serializer_WritePairs :: "'w Writer \<Rightarrow> (bvalue \<times> bvalue) list \<Rightarrow> 'w \<Rightarrow> 'w res"
  and Serializer_Field :: "'w Writer \<Rightarrow> bfield \<Rightarrow> 'w \<Rightarrow> 'w res"
  and Serializer_Fields :: "'w Writer \<Rightarrow> bfield list \<Rightarrow> 'w \<Rightarrow> 'w res"
  and Serializer_Apply :: "'w Writer \<Rightarrow> bool \<Rightarrow> bstruct \<Rightarrow> 'w \<Rightarrow> 'w res" where
  "Serializer_Write W (VBlob b) =
     seq (w_WriteContainerBegin W (blob_length b) BT_INT8)
       (seq (w_WriteBlob W b) (w_WriteContainerEnd W))"
| "Serializer_Write W (VList t vs) =
     seq (w_WriteContainerBegin W (of_nat (length vs)) t)
       (seq (Serializer_WriteItems W vs) (w_WriteContainerEnd W))"
| "Serializer_Write W (VSet t vs) =
     seq (w_WriteContainerBegin W (of_nat (length vs)) t)
       (seq (Serializer_WriteItems W vs) (w_WriteContainerEnd W))"
| "Serializer_Write W (VMap k t kvs) =
     seq (w_WriteContainerBegin2 W (of_nat (length kvs)) (k, t))
       (seq (Serializer_WritePairs W kvs) (w_WriteContainerEnd W))"
| "Serializer_Write W (VStruct s) = Serializer_Apply W False s"
| "Serializer_Write W v = w_Write W v"
| "Serializer_WriteItems W [] = Inr"
| "Serializer_WriteItems W (v # vs) = seq (Serializer_Write W v) (Serializer_WriteItems W vs)"
| "Serializer_WritePairs W [] = Inr"
| "Serializer_WritePairs W ((k, v) # kvs) =
     seq (Serializer_Write W k) (seq (Serializer_Write W v) (Serializer_WritePairs W kvs))"
| "Serializer_Field W (Field fid metadata v) =
     (if omit_field (w_may_omit_fields W) metadata v
      then w_WriteFieldOmitted W (GetTypeId v) fid metadata
      else if is_basic v then w_WriteField W fid metadata v
      else seq (w_WriteFieldBegin W (GetTypeId v) fid metadata)
             (seq (Serializer_Write W v) (w_WriteFieldEnd W)))"
| "Serializer_Field W (MaybeField fid metadata t None) =
     (if omit_maybe_field (w_may_omit_fields W) metadata None
      then w_WriteFieldOmitted W t fid metadata
      else (\<lambda>w. Inl NothingException))"
| "Serializer_Field W (MaybeField fid metadata t (Some v)) =
     (if is_basic v then w_WriteField W fid metadata v
      else seq (w_WriteFieldBegin W (GetTypeId v) fid metadata)
             (seq (Serializer_Write W v) (w_WriteFieldEnd W)))"
| "Serializer_Fields W [] = Inr"
| "Serializer_Fields W (f # fs) = seq (Serializer_Field W f) (Serializer_Fields W fs)"
| "Serializer_Apply W base (Struct metadata None fs) =
     seq (w_WriteStructBegin W metadata base)
       (seq (Serializer_Fields W fs) (w_WriteStructEnd W base))"
| "Serializer_Apply W base (Struct metadata (Some b) fs) =
     seq (w_WriteStructBegin W metadata base)
       (seq (Serializer_Apply W True b)
          (seq (Serializer_Fields W fs) (w_WriteStructEnd W base)))"
  by pat_completeness auto
termination
  by (relation "measure (case_sum
      (case_sum (\<lambda>(W, v). size v)
         (case_sum (\<lambda>(W, vs). size_list size vs) (\<lambda>(W, kvs). size_list (size_prod size size) kvs)))
      (case_sum (\<lambda>(W, f). size f)
         (case_sum (\<lambda>(W, fs). size_list size fs) (\<lambda>(W, base, s). size s))))") auto

section \<open>The specification of an encoding\<close>

type_synonym emission = "byte list \<times> u32 list"

definition em_append :: "emission \<Rightarrow> emission \<Rightarrow> emission" where
  "em_append a b = (fst a @ fst b, snd a @ snd b)"

lemma fst_em_append [simp]: "fst (em_append a b) = fst a @ fst b"
  and snd_em_append [simp]: "snd (em_append a b) = snd a @ snd b"
  by (simp_all add: em_append_def)

lemma em_append_Nil [simp]: "em_append ([], []) e = e" "em_append e ([], []) = e"
  by (simp_all add: em_append_def)

record format =
  f_may_omit_fields :: bool
  f_struct :: "bool \<Rightarrow> emission \<Rightarrow> emission"
  f_field :: "BondDataType \<Rightarrow> u16 \<Rightarrow> byte list"
  f_container :: "u32 \<Rightarrow> BondDataType \<Rightarrow> byte list"
  f_container2 :: "u32 \<Rightarrow> BondDataType \<Rightarrow> BondDataType \<Rightarrow> byte list"
  f_basic :: "bvalue \<Rightarrow> byte list"

function (sequential) enc_value :: "format \<Rightarrow> bvalue \<Rightarrow> emission"
  and enc_items :: "format \<Rightarrow> bvalue list \<Rightarrow> emission"
  and enc_pairs :: "format \<Rightarrow> (bvalue \<times> bvalue) list \<Rightarrow> emission"
  and enc_field :: "format \<Rightarrow> bfield \<Rightarrow> emission"
  and enc_fields :: "format \<Rightarrow> bfield list \<Rightarrow> emission"
  and enc_struct :: "format \<Rightarrow> bool \<Rightarrow> bstruct \<Rightarrow> emission" where
  "enc_value F (VBlob b) = (f_container F (blob_length b) BT_INT8 @ blob_bytes b, [])"
| "enc_value F (VList t vs) = em_append (f_container F (of_nat (length vs)) t, []) (enc_items F vs)"
| "enc_value F (VSet t vs) = em_append (f_container F (of_nat (length vs)) t, []) (enc_items F vs)"
| "enc_value F (VMap k t kvs) =
     em_append (f_container2 F (of_nat (length kvs)) k t, []) (enc_pairs F kvs)"
| "enc_value F (VStruct s) = enc_struct F False s"
| "enc_value F v = (f_basic F v, [])"
| "enc_items F [] = ([], [])"
| "enc_items F (v # vs) = em_append (enc_value F v) (enc_items F vs)"
| "enc_pairs F [] = ([], [])"
| "enc_pairs F ((k, v) # kvs) =
     em_append (enc_value F k) (em_append (enc_value F v) (enc_pairs F kvs))"
| "enc_field F (Field fid md v) =
     (if omit_field (f_may_omit_fields F) md v then ([], [])
      else em_append (f_field F (GetTypeId v) fid, []) (enc_value F v))"
| "enc_field F (MaybeField fid md t None) = ([], [])"
| "enc_field F (MaybeField fid md t (Some v)) =
     em_append (f_field F (GetTypeId v) fid, []) (enc_value F v)"
| "enc_fields F [] = ([], [])"
| "enc_fields F (f # fs) = em_append (enc_field F f) (enc_fields F fs)"
| "enc_struct F base (Struct md None fs) = f_struct F base (enc_fields F fs)"
| "enc_struct F base (Struct md (Some b) fs) =
     f_struct F base (em_append (enc_struct F True b) (enc_fields F fs))"
  by pat_completeness auto
termination
  by (relation "measure (case_sum
      (case_sum (\<lambda>(F, v). size v)
         (case_sum (\<lambda>(F, vs). size_list size vs) (\<lambda>(F, kvs). size_list (size_prod size size) kvs)))
      (case_sum (\<lambda>(F, f). size f)
         (case_sum (\<lambda>(F, fs). size_list size fs) (\<lambda>(F, base, s). size s))))") auto

lemma enc_value_basic: "is_basic v \<Longrightarrow> enc_value F v = (f_basic F v, [])"
  by (cases v) auto

text \<open>
  Well-formed instances: items have the declared type, sizes fit the \<open>uint32_t\<close> counts, wide
  characters fit 16 bits, and a \<open>maybe\<close> field without value can be omitted.
\<close>

function (sequential) wf_value :: "bool \<Rightarrow> bvalue \<Rightarrow> bool"
  and wf_items :: "bool \<Rightarrow> BondDataType \<Rightarrow> bvalue list \<Rightarrow> bool"
  and wf_pairs :: "bool \<Rightarrow> BondDataType \<Rightarrow> BondDataType \<Rightarrow> (bvalue \<times> bvalue) list \<Rightarrow> bool"
  and wf_field :: "bool \<Rightarrow> bfield \<Rightarrow> bool"
  and wf_fields :: "bool \<Rightarrow> bfield list \<Rightarrow> bool"
  and wf_struct :: "bool \<Rightarrow> bstruct \<Rightarrow> bool" where
  "wf_value mo (VBlob b) = blob_wf b"
| "wf_value mo (VList t vs) = (is_value_type t \<and> length vs < 2 ^ 32 \<and> wf_items mo t vs)"
| "wf_value mo (VSet t vs) = (is_value_type t \<and> length vs < 2 ^ 32 \<and> wf_items mo t vs)"
| "wf_value mo (VMap k t kvs) =
     (is_value_type k \<and> is_value_type t \<and> length kvs < 2 ^ 32 \<and> wf_pairs mo k t kvs)"
| "wf_value mo (VStruct s) = wf_struct mo s"
| "wf_value mo (VString s) = (length s < 2 ^ 32)"
| "wf_value mo (VWString s) = (length s < 2 ^ 31 \<and> (\<forall>c \<in> set s. unat c < 2 ^ 16))"
| "wf_value mo v = True"
| "wf_items mo t [] = True"
| "wf_items mo t (v # vs) = (GetTypeId v = t \<and> wf_value mo v \<and> wf_items mo t vs)"
| "wf_pairs mo k t [] = True"
| "wf_pairs mo k t ((x, v) # kvs) =
     (GetTypeId x = k \<and> GetTypeId v = t \<and> wf_value mo x \<and> wf_value mo v \<and> wf_pairs mo k t kvs)"
| "wf_field mo (Field fid md v) = wf_value mo v"
| "wf_field mo (MaybeField fid md t None) = (mo \<and> md_modifier md = Optional)"
| "wf_field mo (MaybeField fid md t (Some v)) = (GetTypeId v = t \<and> wf_value mo v)"
| "wf_fields mo [] = True"
| "wf_fields mo (f # fs) = (wf_field mo f \<and> wf_fields mo fs)"
| "wf_struct mo (Struct md None fs) = wf_fields mo fs"
| "wf_struct mo (Struct md (Some b) fs) = (wf_struct mo b \<and> wf_fields mo fs)"
  by pat_completeness auto
termination
  by (relation "measure (case_sum
      (case_sum (\<lambda>(F, v). size v)
         (case_sum (\<lambda>(F, t, vs). size_list size vs) (\<lambda>(F, k, t, kvs). size_list (size_prod size size) kvs)))
      (case_sum (\<lambda>(F, f). size f)
         (case_sum (\<lambda>(F, fs). size_list size fs) (\<lambda>(F, s). size s))))") auto

section \<open>The contract of a protocol writer\<close>

locale protocol_writer =
  fixes W :: "'w Writer" and F :: format and emits :: "('w \<Rightarrow> 'w res) \<Rightarrow> emission \<Rightarrow> bool"
  assumes may_omit: "f_may_omit_fields F = w_may_omit_fields W"
    and emits_Nil: "emits Inr ([], [])"
    and emits_seq: "emits m a \<Longrightarrow> emits m' b \<Longrightarrow> emits (seq m m') (em_append a b)"
    and StructBegin_End: "emits m e \<Longrightarrow>
      emits (seq (w_WriteStructBegin W md base) (seq m (w_WriteStructEnd W base))) (f_struct F base e)"
    and FieldBegin: "is_value_type t \<Longrightarrow> emits (w_WriteFieldBegin W t fid md) (f_field F t fid, [])"
    and FieldEnd: "emits (w_WriteFieldEnd W) ([], [])"
    and FieldOmitted: "w_may_omit_fields W \<Longrightarrow> emits (w_WriteFieldOmitted W t fid md) ([], [])"
    and WriteField: "is_basic v \<Longrightarrow> wf_value (w_may_omit_fields W) v \<Longrightarrow>
      emits (w_WriteField W fid md v) (f_field F (GetTypeId v) fid @ f_basic F v, [])"
    and ContainerBegin: "is_value_type t \<Longrightarrow>
      emits (w_WriteContainerBegin W n t) (f_container F n t, [])"
    and ContainerBegin2: "is_value_type k \<Longrightarrow> is_value_type t \<Longrightarrow>
      emits (w_WriteContainerBegin2 W n (k, t)) (f_container2 F n k t, [])"
    and ContainerEnd: "emits (w_WriteContainerEnd W) ([], [])"
    and WriteBasic: "is_basic v \<Longrightarrow> wf_value (w_may_omit_fields W) v \<Longrightarrow>
      emits (w_Write W v) (f_basic F v, [])"
    and WriteBlob: "blob_wf bl \<Longrightarrow> emits (w_WriteBlob W bl) (blob_bytes bl, [])"
begin

lemma emits_last:
  assumes "emits m a" and "emits m' ([], [])"
  shows "emits (seq m m') a"
  using emits_seq [OF assms] by simp

lemma emits_container:
  assumes "emits b (h, [])" and "emits m e"
  shows "emits (seq b (seq m (w_WriteContainerEnd W))) (em_append (h, []) e)"
  by (intro emits_seq emits_last assms ContainerEnd)

lemmas emits_ContainerEnd = emits_last [OF _ ContainerEnd]

lemma emits_field:
  assumes "emits m e"
  shows "emits (seq (w_WriteFieldBegin W (GetTypeId v) fid md) (seq m (w_WriteFieldEnd W)))
    (em_append (f_field F (GetTypeId v) fid, []) e)"
  by (intro emits_seq emits_last assms FieldBegin FieldEnd) simp

lemma emits_WriteField:
  assumes "wf_value (w_may_omit_fields W) v" and "emits (Serializer_Write W v) (enc_value F v)"
  shows "emits (if is_basic v then w_WriteField W fid md v
      else seq (w_WriteFieldBegin W (GetTypeId v) fid md)
             (seq (Serializer_Write W v) (w_WriteFieldEnd W)))
    (em_append (f_field F (GetTypeId v) fid, []) (enc_value F v))"
proof (cases "is_basic v")
  case True
  with WriteField [OF this assms(1)] show ?thesis
    by (simp add: enc_value_basic em_append_def)
next
  case False
  with assms(2) show ?thesis by (simp add: emits_field)
qed

lemma emits_serializer_aux:
  "mo = w_may_omit_fields W \<Longrightarrow> wf_value mo v \<Longrightarrow> emits (Serializer_Write W v) (enc_value F v)"
  "mo = w_may_omit_fields W \<Longrightarrow> wf_items mo t vs \<Longrightarrow>
     emits (Serializer_WriteItems W vs) (enc_items F vs)"
  "mo = w_may_omit_fields W \<Longrightarrow> wf_pairs mo k t kvs \<Longrightarrow>
     emits (Serializer_WritePairs W kvs) (enc_pairs F kvs)"
  "mo = w_may_omit_fields W \<Longrightarrow> wf_field mo f \<Longrightarrow> emits (Serializer_Field W f) (enc_field F f)"
  "mo = w_may_omit_fields W \<Longrightarrow> wf_fields mo fs \<Longrightarrow>
     emits (Serializer_Fields W fs) (enc_fields F fs)"
  "mo = w_may_omit_fields W \<Longrightarrow> wf_struct mo s \<Longrightarrow>
     emits (Serializer_Apply W base s) (enc_struct F base s)"
proof (induction mo v and mo t vs and mo k t kvs and mo f and mo fs and mo s arbitrary: and and and and and base
    rule: wf_value_wf_items_wf_pairs_wf_field_wf_fields_wf_struct.induct)
  case (1 mo b)
  then have "emits (Serializer_Write W (VBlob b))
      (em_append (f_container F (blob_length b) BT_INT8, []) (blob_bytes b, []))"
    unfolding Serializer_Write.simps by (intro emits_container ContainerBegin WriteBlob) simp_all
  then show ?case by (simp add: em_append_def)
next
  case (13 mo fid md v)
  then show ?case using emits_WriteField [of v fid md] FieldOmitted by (auto simp: may_omit omit_field_def)
next
  case (14 mo fid md t)
  then show ?case using FieldOmitted by (auto simp: may_omit omit_maybe_field_def)
next
  case (15 mo fid md t v)
  then show ?case using emits_WriteField [of v fid md] by auto
next
  case (19 mo md b fs)
  then have "emits (seq (w_WriteStructBegin W md base)
      (seq (seq (Serializer_Apply W True b) (Serializer_Fields W fs)) (w_WriteStructEnd W base)))
      (f_struct F base (em_append (enc_struct F True b) (enc_fields F fs)))"
    by (intro StructBegin_End emits_seq) auto
  then show ?case by (simp add: seq_assoc)
qed (auto intro!: emits_ContainerEnd emits_seq emits_Nil ContainerBegin ContainerBegin2 StructBegin_End
       WriteBasic)

lemmas emits_Serializer_Apply = emits_serializer_aux(6) [OF refl]

end

end
