(* ===== verification/Wire_Scalars.thy ===== *)
theory Wire_Scalars
  imports Reading Output_Stream Serializer
begin

text \<open>
  What the binary protocols share: the object representation of the basic types, the transfer of
  string data and the hexadecimal digits of \<^verbatim>\<open>src/cpp/inc/bond/protocol/encoding.h\<close>, and the reads
  of the basic types from an input buffer. \<open>std::string\<close> has one byte characters and takes the
  block transfer; \<open>std::wstring\<close> has wide characters and takes the loop that converts each one.
\<close>

section \<open>Protocol versions\<close>

definition v1 :: u16 where "v1 = 1"
definition v2 :: u16 where "v2 = 2"

section \<open>Object representations\<close>

fun object_bytes :: "bvalue \<Rightarrow> byte list" where
  "object_bytes (VBool b) = [if b then 1 else 0]"
| "object_bytes (VUInt8 x) = [x]"
| "object_bytes (VUInt16 x) = le_bytes 2 x"
| "object_bytes (VUInt32 x) = le_bytes 4 x"
| "object_bytes (VUInt64 x) = le_bytes 8 x"
| "object_bytes (VInt8 x) = [x]"
| "object_bytes (VInt16 x) = le_bytes 2 x"
| "object_bytes (VInt32 x) = le_bytes 4 x"
| "object_bytes (VInt64 x) = le_bytes 8 x"
| "object_bytes (VFloat x) = le_bytes 4 x"
| "object_bytes (VDouble x) = le_bytes 8 x"
| "object_bytes v = []"

section \<open>String data\<close>

definition WriteStringData :: "'b Buffer \<Rightarrow> byte list \<Rightarrow> u32 \<Rightarrow> 'b \<Rightarrow> 'b res" where
  "WriteStringData B s len = b_WriteMem B (take (unat len) s)"

fun write_chars :: "'b Buffer \<Rightarrow> u32 list \<Rightarrow> 'b \<Rightarrow> 'b res" where
  "write_chars B [] = Inr"
| "write_chars B (c # cs) = seq (b_Write B (le_bytes 2 (ucast c :: u16))) (write_chars B cs)"

definition WriteWStringData :: "'b Buffer \<Rightarrow> u32 list \<Rightarrow> u32 \<Rightarrow> 'b \<Rightarrow> 'b res" where
  "WriteWStringData B s len = write_chars B (take (unat len) s)"

definition ReadStringData :: "u32 \<Rightarrow> (InputBuffer, byte list) st" where
  "ReadStringData len = ib_read_mem len"

definition ReadWStringData :: "u32 \<Rightarrow> (InputBuffer, u32 list) st" where
  "ReadWStringData len =
     collect_st (unat len) (bind (ib_read_le 2 :: (InputBuffer, u16) st) (\<lambda>ch. ret (ucast ch)))"

text \<open>\<open>string_length\<close> is the size of the string as a \<open>uint32_t\<close>.\<close>

definition string_length :: "'c list \<Rightarrow> u32" where
  "string_length s = of_nat (length s)"

section \<open>Hexadecimal digits\<close>

definition HexDigit :: "u32 \<Rightarrow> u8" where
  "HexDigit n = (let d = (ucast (n AND 0xf) :: u8) in if d < 10 then 48 + d else 97 + d - 10)"

definition HexDigit_of_char :: "u8 \<Rightarrow> int" where
  "HexDigit_of_char c =
     (if 97 \<le>s c \<and> c \<le>s 102 then sint c - 97 + 10
      else if 65 \<le>s c \<and> c \<le>s 70 then sint c - 65 + 10
      else sint c - 48)"

section \<open>Reading basic types as they are in memory\<close>

definition read_bool :: "(InputBuffer, bool) st" where
  "read_bool = bind (ib_read_le 1 :: (InputBuffer, u8) st)
     (\<lambda>b. if b = 0 then ret False else if b = 1 then ret True else throw TrapRepresentation)"

fun read_object :: "BondDataType \<Rightarrow> (InputBuffer, bvalue) st" where
  "read_object BT_BOOL = bind read_bool (\<lambda>x. ret (VBool x))"
| "read_object BT_UINT8 = bind ib_read_u8 (\<lambda>x. ret (VUInt8 x))"
| "read_object BT_UINT16 = bind (ib_read_le 2) (\<lambda>x. ret (VUInt16 x))"
| "read_object BT_UINT32 = bind (ib_read_le 4) (\<lambda>x. ret (VUInt32 x))"
| "read_object BT_UINT64 = bind (ib_read_le 8) (\<lambda>x. ret (VUInt64 x))"
| "read_object BT_INT8 = bind (ib_read_le 1) (\<lambda>x. ret (VInt8 x))"
| "read_object BT_INT16 = bind (ib_read_le 2) (\<lambda>x. ret (VInt16 x))"
| "read_object BT_INT32 = bind (ib_read_le 4) (\<lambda>x. ret (VInt32 x))"
| "read_object BT_INT64 = bind (ib_read_le 8) (\<lambda>x. ret (VInt64 x))"
| "read_object BT_FLOAT = bind (ib_read_le 4) (\<lambda>x. ret (VFloat x))"
| "read_object BT_DOUBLE = bind (ib_read_le 8) (\<lambda>x. ret (VDouble x))"
| "read_object t = throw InvalidArgument"

section \<open>Lemmas\<close>

definition wstring_bytes :: "u32 list \<Rightarrow> byte list" where
  "wstring_bytes s = concat (map (\<lambda>c. le_bytes 2 (ucast c :: u16)) s)"

lemma length_wstring_bytes [simp]: "length (wstring_bytes s) = 2 * length s"
  by (induction s) (simp_all add: wstring_bytes_def)

lemma string_length_small: "length s < 2 ^ 32 \<Longrightarrow> unat (string_length s) = length s"
  by (simp add: string_length_def unat_of_nat_small)

text \<open>Every type of a basic value is either read as an object or is a string.\<close>

fun is_object :: "bvalue \<Rightarrow> bool" where
  "is_object (VString s) = False"
| "is_object (VWString s) = False"
| "is_object v = is_basic v"

lemma decodes_le1: "decodes (ib_read_le 1) [b :: u8] b"
proof -
  have "le_bytes 1 b = [b]" by (simp add: eval_nat_numeral)
  then show ?thesis using decodes_le [of 1 1 b] by simp
qed

lemma decodes_bool: "decodes read_bool [if b then 1 else 0] b"
proof -
  have "decodes read_bool ([if b then 1 else 0] @ []) b"
    unfolding read_bool_def
    by (rule decodes_bind [OF decodes_le1]) (auto intro: decodes_ret)
  then show ?thesis by simp
qed

lemmas decodes_bools = decodes_bool [of True, simplified] decodes_bool [of False, simplified]

lemma decodes_object: "is_object v \<Longrightarrow> decodes (read_object (GetTypeId v)) (object_bytes v) v"
  by (cases v) (auto intro!: decodes_map decodes_u8 decodes_le decodes_le1 decodes_bools)

lemma decodes_string: "length s < 2 ^ 32 \<Longrightarrow> decodes (ReadStringData (string_length s)) s s"
  by (simp add: ReadStringData_def string_length_def decodes_mem)

lemma decodes_wstring:
  assumes "length s < 2 ^ 32" and "\<forall>c \<in> set s. unat c < 2 ^ 16"
  shows "decodes (ReadWStringData (string_length s)) (wstring_bytes s) s"
proof -
  have "decodes (bind (ib_read_le 2 :: (InputBuffer, u16) st) (\<lambda>ch. ret (ucast ch)))
      (le_bytes 2 (ucast c :: u16)) ((\<lambda>x. ucast (ucast x :: u16)) c)" for c :: u32
    by (intro decodes_map decodes_le) simp_all
  then have "decodes (ReadWStringData (string_length s)) (wstring_bytes s)
      (map (\<lambda>x. ucast (ucast x :: u16)) s)"
    unfolding ReadWStringData_def wstring_bytes_def string_length_small [OF assms(1)]
    by (rule decodes_collect)
  moreover have "map (\<lambda>x. ucast (ucast x :: u16)) s = s"
    using assms(2) by (intro map_idI) (simp add: word_unat_eq_iff unsigned_ucast_eq unsigned_take_bit_eq take_bit_nat_eq_self)
  ultimately show ?thesis by simp
qed

text \<open>What the writers emit for strings and objects.\<close>

context output_stream
begin

lemma WriteStringData_appends:
  "length s < 2 ^ 32 \<Longrightarrow> stream_appends holds (WriteStringData B s (string_length s)) s"
  using WriteMem_law [of s] by (simp add: WriteStringData_def string_length_small)

lemma write_chars_appends: "stream_appends holds (write_chars B s) (wstring_bytes s)"
proof (induction s)
  case Nil
  then show ?case by (simp add: wstring_bytes_def stream_appends_Nil)
next
  case (Cons c s)
  from stream_appends_seq [OF Write_law Cons, of "le_bytes 2 (ucast c :: u16)"]
  show ?case unfolding seq_def [symmetric] by (simp add: wstring_bytes_def del: le_bytes.simps)
qed

lemma WriteWStringData_appends:
  "length s < 2 ^ 32 \<Longrightarrow> stream_appends holds (WriteWStringData B s (string_length s)) (wstring_bytes s)"
  using write_chars_appends [of s] by (simp add: WriteWStringData_def string_length_small)

end

lemma stream_appends_seq':
  "stream_appends holds w bs \<Longrightarrow> stream_appends holds w' bs' \<Longrightarrow>
   stream_appends holds (seq w w') (bs @ bs')"
  using stream_appends_seq [of holds w bs w' bs'] by (simp add: seq_def [abs_def])

text \<open>Hexadecimal digits round trip.\<close>

lemma HexDigit_roundtrip: "HexDigit_of_char (HexDigit n) = uint (n AND 0xf)"
proof -
  have "n AND 0xf \<in> {0, 1, 2, 3, 4, 5, 6, 7, 8, 9, 10, 11, 12, 13, 14, 15}"
  proof -
    have "unat (n AND 0xf) < 16"
    proof -
      have "n AND 0xf = take_bit 4 n" by (simp add: take_bit_eq_mask mask_eq_exp_minus_1)
      then show ?thesis by (simp add: unsigned_take_bit_eq take_bit_nat_less_exp [of 4, simplified])
    qed
    then have "unat (n AND 0xf) \<in> {0, 1, 2, 3, 4, 5, 6, 7, 8, 9, 10, 11, 12, 13, 14, 15}"
      by (simp add: less_Suc_eq numeral_eq_Suc)
    then show ?thesis by (auto simp: word_unat_eq_iff)
  qed
  then show ?thesis
    unfolding HexDigit_def Let_def
    by (elim insertE emptyE) (simp_all add: HexDigit_of_char_def)
qed

end
