(* ===== verification/Fast_Binary.thy ===== *)
theory Fast_Binary
  imports Wire_Scalars
begin

text \<open>
  The Fast Binary protocol, \<^verbatim>\<open>src/cpp/inc/bond/protocol/fast_binary.h\<close>: the writer as a dictionary
  for the serializer, the reader over an input buffer, and the skipping of values by their type.
  The protocol's format is the record \<open>fast_format\<close>; the writer implements it on every output
  stream (a \<open>sublocale\<close> of \<open>output_stream\<close>), and skipping an encoded value lands exactly after it.
  The recursion of \<open>SkipType\<close> is driven by fuel; on a buffer with \<open>r\<close> bytes left, \<open>2 * r + 2\<close> is
  enough, because every nested call but the entry of a struct follows a byte that was consumed.
\<close>

unbundle bit_operations_syntax

section \<open>Writer\<close>

definition fast_magic :: u16 where "fast_magic = 0x464d"
definition fast_version :: u16 where "fast_version = 1"

definition fb_WriteVersion :: "'b Buffer \<Rightarrow> 'b \<Rightarrow> 'b res" where
  "fb_WriteVersion B = seq (b_Write B (le_bytes 2 fast_magic)) (b_Write B (le_bytes 2 fast_version))"

definition fb_WriteType :: "'b Buffer \<Rightarrow> BondDataType \<Rightarrow> 'b \<Rightarrow> 'b res" where
  "fb_WriteType B t = b_Write B [type_code t]"

definition fb_WriteStructBegin :: "Metadata \<Rightarrow> bool \<Rightarrow> 'b \<Rightarrow> 'b res" where
  "fb_WriteStructBegin metadata base = Inr"

definition fb_WriteStructEnd :: "'b Buffer \<Rightarrow> bool \<Rightarrow> 'b \<Rightarrow> 'b res" where
  "fb_WriteStructEnd B base = fb_WriteType B (if base then BT_STOP_BASE else BT_STOP)"

text \<open>\<open>Write\<close> for strings and for the other basic types\<close>

fun fb_Write :: "'b Buffer \<Rightarrow> bvalue \<Rightarrow> 'b \<Rightarrow> 'b res" where
  "fb_Write B (VString s) =
     seq (b_WriteVariableUnsigned32 B (string_length s)) (WriteStringData B s (string_length s))"
| "fb_Write B (VWString s) =
     seq (b_WriteVariableUnsigned32 B (string_length s)) (WriteWStringData B s (string_length s))"
| "fb_Write B v = b_Write B (object_bytes v)"

definition fb_WriteFieldBegin :: "'b Buffer \<Rightarrow> BondDataType \<Rightarrow> u16 \<Rightarrow> Metadata \<Rightarrow> 'b \<Rightarrow> 'b res" where
  "fb_WriteFieldBegin B t fid metadata = seq (fb_WriteType B t) (b_Write B (le_bytes 2 fid))"

definition fb_WriteFieldEnd :: "'b \<Rightarrow> 'b res" where
  "fb_WriteFieldEnd = Inr"

definition fb_WriteField :: "'b Buffer \<Rightarrow> u16 \<Rightarrow> Metadata \<Rightarrow> bvalue \<Rightarrow> 'b \<Rightarrow> 'b res" where
  "fb_WriteField B fid metadata v =
     seq (fb_WriteFieldBegin B (GetTypeId v) fid metadata) (seq (fb_Write B v) fb_WriteFieldEnd)"

definition fb_WriteContainerBegin :: "'b Buffer \<Rightarrow> u32 \<Rightarrow> BondDataType \<Rightarrow> 'b \<Rightarrow> 'b res" where
  "fb_WriteContainerBegin B sz t = seq (fb_WriteType B t) (b_WriteVariableUnsigned32 B sz)"

definition fb_WriteContainerBegin2 ::
    "'b Buffer \<Rightarrow> u32 \<Rightarrow> BondDataType \<times> BondDataType \<Rightarrow> 'b \<Rightarrow> 'b res" where
  "fb_WriteContainerBegin2 B sz t =
     seq (fb_WriteType B (fst t)) (seq (fb_WriteType B (snd t)) (b_WriteVariableUnsigned32 B sz))"

definition fb_WriteContainerEnd :: "'b \<Rightarrow> 'b res" where
  "fb_WriteContainerEnd = Inr"

definition fast_writer :: "'b Buffer \<Rightarrow> 'b Writer" where
  "fast_writer B =
     \<lparr>w_may_omit_fields = True, w_WriteStructBegin = fb_WriteStructBegin,
      w_WriteStructEnd = fb_WriteStructEnd B, w_WriteField = fb_WriteField B,
      w_WriteFieldBegin = fb_WriteFieldBegin B, w_WriteFieldEnd = fb_WriteFieldEnd,
      w_WriteFieldOmitted = no_WriteFieldOmitted, w_WriteContainerBegin = fb_WriteContainerBegin B,
      w_WriteContainerBegin2 = fb_WriteContainerBegin2 B,
      w_WriteContainerEnd = fb_WriteContainerEnd, w_Write = fb_Write B, w_WriteBlob = b_WriteBlob B\<rparr>"

section \<open>Reader\<close>

definition fb_ReadVersion :: "(InputBuffer, bool) st" where
  "fb_ReadVersion =
     bind (ib_read_le 2) (\<lambda>magic_value. bind (ib_read_le 2) (\<lambda>version_value.
       ret (magic_value = fast_magic \<and> version_value \<le> fast_version)))"

definition fb_ReadType :: "(InputBuffer, BondDataType) st" where
  "fb_ReadType = bind ib_read_u8 (\<lambda>byte. ret (type_of_code byte))"

fun fb_Read :: "BondDataType \<Rightarrow> (InputBuffer, bvalue) st" where
  "fb_Read BT_STRING =
     bind ReadVariableUnsigned (\<lambda>len. bind (ReadStringData len) (\<lambda>s. ret (VString s)))"
| "fb_Read BT_WSTRING =
     bind ReadVariableUnsigned (\<lambda>len. bind (ReadWStringData len) (\<lambda>s. ret (VWString s)))"
| "fb_Read t = read_object t"

definition fb_ReadStructBegin :: "(InputBuffer, unit) st" where
  "fb_ReadStructBegin = ret ()"

definition fb_ReadFieldBegin :: "(InputBuffer, BondDataType \<times> u16) st" where
  "fb_ReadFieldBegin =
     bind fb_ReadType (\<lambda>type.
       if type \<noteq> BT_STOP \<and> type \<noteq> BT_STOP_BASE
       then bind (ib_read_le 2) (\<lambda>fid. ret (type, fid)) else ret (type, 0))"

definition fb_ReadContainerBegin :: "(InputBuffer, u32 \<times> BondDataType) st" where
  "fb_ReadContainerBegin =
     bind fb_ReadType (\<lambda>type. bind ReadVariableUnsigned (\<lambda>sz. ret (sz, type)))"

definition fb_ReadContainerBegin2 :: "(InputBuffer, u32 \<times> BondDataType \<times> BondDataType) st" where
  "fb_ReadContainerBegin2 =
     bind fb_ReadType (\<lambda>k. bind fb_ReadType (\<lambda>t.
       bind ReadVariableUnsigned (\<lambda>sz. ret (sz, k, t))))"

text \<open>\<open>SkipType(type, size)\<close>, given \<open>SkipType(type)\<close> for the types that are skipped one by one\<close>

definition fb_SkipTypes ::
    "(BondDataType \<Rightarrow> (InputBuffer, unit) st) \<Rightarrow> BondDataType \<Rightarrow> u32 \<Rightarrow> (InputBuffer, unit) st" where
  "fb_SkipTypes skip type sz =
     (case type of
        BT_BOOL \<Rightarrow> skip_fixed sz 1
      | BT_UINT8 \<Rightarrow> skip_fixed sz 1
      | BT_INT8 \<Rightarrow> skip_fixed sz 1
      | BT_UINT16 \<Rightarrow> skip_fixed sz 2
      | BT_INT16 \<Rightarrow> skip_fixed sz 2
      | BT_UINT32 \<Rightarrow> skip_fixed sz 4
      | BT_INT32 \<Rightarrow> skip_fixed sz 4
      | BT_UINT64 \<Rightarrow> skip_fixed sz 8
      | BT_INT64 \<Rightarrow> skip_fixed sz 8
      | BT_FLOAT \<Rightarrow> skip_fixed sz 4
      | BT_DOUBLE \<Rightarrow> skip_fixed sz 8
      | BT_STRING \<Rightarrow> repeat_st (unat sz) (skip type)
      | BT_WSTRING \<Rightarrow> repeat_st (unat sz) (skip type)
      | BT_SET \<Rightarrow> repeat_st (unat sz) (skip type)
      | BT_LIST \<Rightarrow> repeat_st (unat sz) (skip type)
      | BT_MAP \<Rightarrow> repeat_st (unat sz) (skip type)
      | BT_STRUCT \<Rightarrow> repeat_st (unat sz) (skip type)
      | _ \<Rightarrow> ret ())"

fun fb_Skip :: "nat \<Rightarrow> BondDataType \<Rightarrow> (InputBuffer, unit) st"
  and fb_SkipStruct :: "nat \<Rightarrow> (InputBuffer, unit) st" where
  "fb_Skip 0 type = throw OutOfFuel"
| "fb_Skip (Suc n) type =
     (case type of
        BT_BOOL \<Rightarrow> skip_fixed 1 1
      | BT_UINT8 \<Rightarrow> skip_fixed 1 1
      | BT_INT8 \<Rightarrow> skip_fixed 1 1
      | BT_UINT16 \<Rightarrow> skip_fixed 1 2
      | BT_INT16 \<Rightarrow> skip_fixed 1 2
      | BT_UINT32 \<Rightarrow> skip_fixed 1 4
      | BT_INT32 \<Rightarrow> skip_fixed 1 4
      | BT_UINT64 \<Rightarrow> skip_fixed 1 8
      | BT_INT64 \<Rightarrow> skip_fixed 1 8
      | BT_FLOAT \<Rightarrow> skip_fixed 1 4
      | BT_DOUBLE \<Rightarrow> skip_fixed 1 8
      | BT_STRING \<Rightarrow> bind ReadVariableUnsigned (\<lambda>sz. ib_skip sz)
      | BT_WSTRING \<Rightarrow> bind ReadVariableUnsigned (\<lambda>sz. skip_fixed sz 2)
      | BT_SET \<Rightarrow> bind fb_ReadContainerBegin (\<lambda>(sz, t). fb_SkipTypes (fb_Skip n) t sz)
      | BT_LIST \<Rightarrow> bind fb_ReadContainerBegin (\<lambda>(sz, t). fb_SkipTypes (fb_Skip n) t sz)
      | BT_MAP \<Rightarrow> bind fb_ReadContainerBegin2 (\<lambda>(sz, k, t).
          repeat_st (unat sz) (bind (fb_Skip n k) (\<lambda>_. fb_Skip n t)))
      | BT_STRUCT \<Rightarrow> fb_SkipStruct n
      | _ \<Rightarrow> ret ())"
| "fb_SkipStruct 0 = throw OutOfFuel"
| "fb_SkipStruct (Suc n) =
     bind fb_ReadFieldBegin (\<lambda>(type, fid).
       if type = BT_STOP then ret ()
       else if type = BT_STOP_BASE then fb_SkipStruct n
       else bind (fb_Skip n type) (\<lambda>_. fb_SkipStruct n))"

text \<open>\<open>Skip(BondDataType)\<close> with the fuel that is always enough\<close>

definition fb_SkipType :: "BondDataType \<Rightarrow> (InputBuffer, unit) st" where
  "fb_SkipType type ib = fb_Skip (2 * length (ib_rest ib) + 2) type ib"

section \<open>The writer implements the format\<close>

fun fast_basic :: "bvalue \<Rightarrow> byte list" where
  "fast_basic (VString s) = varint (length s) @ s"
| "fast_basic (VWString s) = varint (length s) @ wstring_bytes s"
| "fast_basic v = object_bytes v"

definition fast_format :: format where
  "fast_format =
     \<lparr>f_may_omit_fields = True,
      f_struct = (\<lambda>base e. (fst e @ [if base then 1 else 0], snd e)),
      f_field = (\<lambda>t fid. type_code t # le_bytes 2 fid),
      f_container = (\<lambda>n t. type_code t # varint (unat n)),
      f_container2 = (\<lambda>n k t. [type_code k, type_code t] @ varint (unat n)),
      f_basic = fast_basic\<rparr>"

lemma fast_format_simps:
  "f_may_omit_fields fast_format = True"
  "f_struct fast_format base e = (fst e @ [if base then 1 else 0], snd e)"
  "f_field fast_format t fid = type_code t # le_bytes 2 fid"
  "f_container fast_format n t = type_code t # varint (unat n)"
  "f_container2 fast_format n k t = [type_code k, type_code t] @ varint (unat n)"
  "f_basic fast_format = fast_basic"
  by (simp_all add: fast_format_def)

lemmas fb_writer_defs = fast_writer_def fast_format_def fb_WriteStructBegin_def
  fb_WriteStructEnd_def fb_WriteFieldBegin_def fb_WriteFieldEnd_def fb_WriteField_def
  fb_WriteContainerBegin_def fb_WriteContainerBegin2_def fb_WriteContainerEnd_def fb_WriteType_def

context output_stream
begin

lemma fb_Write_appends:
  assumes "is_basic v" and "wf_value mo v"
  shows "stream_appends holds (fb_Write B v) (fast_basic v)"
proof (cases "is_object v")
  case True
  then have "fb_Write B v = b_Write B (object_bytes v)" "fast_basic v = object_bytes v"
    by (cases v; simp)+
  then show ?thesis by (simp add: Write_law)
next
  case False
  with assms(1) consider s where "v = VString s" | s where "v = VWString s" by (cases v) auto
  then show ?thesis
  proof cases
    case 1
    with assms(2) show ?thesis
      using stream_appends_seq' [OF Var32_law [of "string_length s"] WriteStringData_appends [of s]]
      by (simp add: string_length_small)
  next
    case 2
    with assms(2) show ?thesis
      using stream_appends_seq' [OF Var32_law [of "string_length s"] WriteWStringData_appends [of s]]
      by (simp add: string_length_small)
  qed
qed

lemma fb_type_appends: "stream_appends holds (b_Write B [type_code t]) [type_code t]"
  by (rule Write_law)

lemma stream_appends_Cons:
  "stream_appends holds w [b] \<Longrightarrow> stream_appends holds w' bs \<Longrightarrow>
   stream_appends holds (seq w w') (b # bs)"
  using stream_appends_seq' [of holds w "[b]" w' bs] by simp

end

sublocale output_stream \<subseteq> fast: protocol_writer "fast_writer B" fast_format
    "\<lambda>m e. stream_appends holds m (fst e)"
proof (unfold_locales, goal_cases)
  case (3 m a m' b)
  then show ?case by (simp add: stream_appends_seq')
next
  case (4 m e md base)
  then have "stream_appends holds (seq m (b_Write B [if base then 1 else 0]))
      (fst e @ [if base then 1 else 0])"
    by (intro stream_appends_seq' Write_law)
  then show ?case by (cases base) (simp_all add: fb_writer_defs)
next
  case (8 v fid md)
  then have "stream_appends holds (seq (fb_WriteFieldBegin B (GetTypeId v) fid md) (fb_Write B v))
      ((type_code (GetTypeId v) # le_bytes 2 fid) @ fast_basic v)"
    unfolding fb_WriteFieldBegin_def fb_WriteType_def
    by (intro stream_appends_seq' stream_appends_Cons Write_law fb_Write_appends)
  then show ?case by (simp add: fb_writer_defs del: le_bytes.simps)
qed (auto simp: fb_writer_defs no_WriteFieldOmitted_def [abs_def] stream_appends_Nil
      intro!: stream_appends_Cons Write_law Var32_law fb_Write_appends WriteBlob_law
      simp del: le_bytes.simps)

section \<open>Skipping is safe and terminates on arbitrary input\<close>

lemma reads_safely_fb_ReadType: "reads_safely r 1 fb_ReadType"
  unfolding fb_ReadType_def by (intro reads_safely_bind0 reads_safely_u8 reads_safely_ret)

lemma reads_safely_fb_ReadFieldBegin: "reads_safely r 1 fb_ReadFieldBegin"
  unfolding fb_ReadFieldBegin_def
proof (intro reads_safely_bind0 reads_safely_fb_ReadType)
  fix type :: BondDataType
  have "reads_safely r 0 (bind (ib_read_le 2 :: (InputBuffer, u16) st) (\<lambda>fid. ret (type, fid)))"
    by (intro reads_safely_bind0 reads_safely_ret reads_safely_any [OF reads_safely_le])
  then show "reads_safely r 0 (if type \<noteq> BT_STOP \<and> type \<noteq> BT_STOP_BASE
      then bind (ib_read_le 2) (\<lambda>fid. ret (type, fid)) else ret (type, 0 :: u16))"
    by (auto intro: reads_safely_ret)
qed

lemma reads_safely_fb_ReadContainerBegin: "reads_safely r 1 fb_ReadContainerBegin"
  unfolding fb_ReadContainerBegin_def
  by (intro reads_safely_bind0 reads_safely_fb_ReadType reads_safely_ret
      reads_safely_any [OF reads_safely_varint32])

lemma reads_safely_fb_ReadContainerBegin2: "reads_safely r 1 fb_ReadContainerBegin2"
  unfolding fb_ReadContainerBegin2_def
  by (intro reads_safely_bind0 reads_safely_fb_ReadType reads_safely_ret
      reads_safely_any [OF reads_safely_varint32] reads_safely_any [OF reads_safely_fb_ReadType])

lemma reads_safely_fb_SkipTypes:
  assumes "\<And>t. reads_safely r 0 (skip t)"
  shows "reads_safely r 0 (fb_SkipTypes skip t sz)"
  using assms
  by (cases t) (simp_all add: fb_SkipTypes_def reads_safely_skip_fixed reads_safely_ret reads_safely_repeat)

lemma reads_safely_fb_Skip_step:
  assumes skip: "\<And>t. 0 < r \<Longrightarrow> reads_safely (r - 1) 0 (fb_Skip n t)"
    and struct: "reads_safely r 0 (fb_SkipStruct n)"
  shows "reads_safely r 0 (fb_Skip (Suc n) t)"
proof -
  have str: "reads_safely r 0 (bind ReadVariableUnsigned (\<lambda>sz. ib_skip sz))"
      "reads_safely r 0 (bind ReadVariableUnsigned (\<lambda>sz. skip_fixed sz 2))"
    by (intro reads_safely_any [OF reads_safely_bind0 [OF reads_safely_varint32]]
        reads_safely_skip reads_safely_skip_fixed)+
  have list: "reads_safely r 0 (bind fb_ReadContainerBegin (\<lambda>(sz, t). fb_SkipTypes (fb_Skip n) t sz))"
    by (rule reads_safely_then [OF reads_safely_fb_ReadContainerBegin])
      (use skip in \<open>auto intro!: reads_safely_fb_SkipTypes\<close>)
  have "reads_safely r 0 (bind fb_ReadContainerBegin2 (\<lambda>(sz, k, t).
      repeat_st (unat sz) (bind (fb_Skip n k) (\<lambda>_. fb_Skip n t))))"
    by (rule reads_safely_then [OF reads_safely_fb_ReadContainerBegin2])
      (use skip in \<open>auto intro!: reads_safely_repeat reads_safely_bind0\<close>)
  with str list struct show ?thesis
    by (cases t) (simp_all add: reads_safely_skip_fixed reads_safely_ret)
qed

lemma reads_safely_fb_Skip:
  "(2 * r + 1 < n \<longrightarrow> reads_safely r 0 (fb_Skip n t)) \<and>
   (2 * r < n \<longrightarrow> reads_safely r 0 (fb_SkipStruct n))"
proof (induction n arbitrary: r t)
  case 0
  then show ?case by simp
next
  case (Suc n)
  have "reads_safely r 0 (fb_Skip (Suc n) t)" if "2 * r + 1 < Suc n"
    using Suc.IH that by (intro reads_safely_fb_Skip_step) auto
  moreover have "reads_safely r 0 (fb_SkipStruct (Suc n))" if "2 * r < Suc n"
    using Suc.IH that unfolding fb_SkipStruct.simps
    by (intro reads_safely_then [OF reads_safely_fb_ReadFieldBegin])
      (auto intro!: reads_safely_ret reads_safely_bind0)
  ultimately show ?case by blast
qed

lemma fb_SkipType_safe: "reads_safely r 0 (fb_SkipType t)"
proof (rule reads_safelyI)
  fix ib assume ok: "ib_ok ib"
  have "reads_safely (length (ib_rest ib)) 0 (fb_Skip (2 * length (ib_rest ib) + 2) t)"
    by (rule mp [OF conjunct1 [OF reads_safely_fb_Skip]]) simp
  from this ok show "(\<exists>e. fb_SkipType t ib = Inl e \<and> documented e) \<or>
      (\<exists>x k. fb_SkipType t ib = Inr (x, ib_adv k ib) \<and> 0 \<le> k \<and> k \<le> length (ib_rest ib))"
    unfolding fb_SkipType_def by (elim reads_safelyE) auto
qed

section \<open>More fuel does not change the result\<close>

lemma fuel_le_fb_SkipTypes:
  "(\<And>t. fuel_le (skip t) (skip' t)) \<Longrightarrow> fuel_le (fb_SkipTypes skip t sz) (fb_SkipTypes skip' t sz)"
  by (cases t) (simp_all add: fb_SkipTypes_def fuel_le_repeat)

lemma fuel_le_fb_Skip:
  "fuel_le (fb_Skip n t) (fb_Skip (Suc n) t) \<and> fuel_le (fb_SkipStruct n) (fb_SkipStruct (Suc n))"
proof (induction n arbitrary: t)
  case 0
  then show ?case by simp
next
  case (Suc n)
  have "fuel_le (fb_Skip (Suc n) t) (fb_Skip (Suc (Suc n)) t)"
    using Suc.IH
    by (cases t) (auto simp del: fb_Skip.simps(2) simp: fb_Skip.simps(2) [of n] fb_Skip.simps(2) [of "Suc n"]
        intro!: fuel_le_bind fuel_le_fb_SkipTypes fuel_le_repeat)
  moreover have "fuel_le (fb_SkipStruct (Suc n)) (fb_SkipStruct (Suc (Suc n)))"
    using Suc.IH
    by (auto simp del: fb_SkipStruct.simps(2) simp: fb_SkipStruct.simps(2) [of n] fb_SkipStruct.simps(2) [of "Suc n"]
        intro!: fuel_le_bind)
  ultimately show ?case by blast
qed

section \<open>Skipping an encoded value lands exactly after it\<close>

lemma decodes_fb_ReadType:
  "is_value_type t \<or> is_stop t \<Longrightarrow> decodes fb_ReadType [type_code t] t"
  unfolding fb_ReadType_def using decodes_map [OF decodes_u8, of type_of_code "type_code t"]
  by (simp add: type_of_code_of_type)

lemma decodes_fb_ReadFieldBegin:
  assumes "is_value_type t"
  shows "decodes fb_ReadFieldBegin (type_code t # le_bytes 2 fid) (t, fid)"
proof -
  have "decodes fb_ReadFieldBegin ([type_code t] @ le_bytes 2 fid) (t, fid)"
    unfolding fb_ReadFieldBegin_def
    by (rule decodes_bind [OF decodes_fb_ReadType])
      (use assms is_value_type_not_stop [of t] in \<open>auto simp: is_stop_def intro!: decodes_map decodes_le\<close>)
  then show ?thesis by simp
qed

lemma decodes_fb_ReadFieldBegin_stop:
  assumes "is_stop t"
  shows "decodes fb_ReadFieldBegin [type_code t] (t, 0)"
proof -
  have "decodes fb_ReadFieldBegin ([type_code t] @ []) (t, 0)"
    unfolding fb_ReadFieldBegin_def
    by (rule decodes_bind [OF decodes_fb_ReadType])
      (use assms in \<open>auto simp: is_stop_def intro!: decodes_ret\<close>)
  then show ?thesis by simp
qed

lemma decodes_fb_ReadContainerBegin:
  assumes "is_value_type t"
  shows "decodes fb_ReadContainerBegin (type_code t # varint (unat n)) (n, t)"
proof -
  have "decodes fb_ReadContainerBegin ([type_code t] @ varint (unat n)) (n, t)"
    unfolding fb_ReadContainerBegin_def
    by (rule decodes_bind [OF decodes_fb_ReadType]) (use assms in \<open>auto intro!: decodes_map decodes_varint32\<close>)
  then show ?thesis by simp
qed

lemma decodes_fb_ReadContainerBegin2:
  assumes "is_value_type k" and "is_value_type t"
  shows "decodes fb_ReadContainerBegin2 ([type_code k, type_code t] @ varint (unat n)) (n, k, t)"
proof -
  have "decodes fb_ReadContainerBegin2 ([type_code k] @ [type_code t] @ varint (unat n)) (n, k, t)"
    unfolding fb_ReadContainerBegin2_def
    by (rule decodes_bind [OF decodes_fb_ReadType], use assms in simp,
        rule decodes_bind [OF decodes_fb_ReadType]) (use assms in \<open>auto intro!: decodes_map decodes_varint32\<close>)
  then show ?thesis by simp
qed

text \<open>Types with a fixed size on the wire, and that size.\<close>

fun fast_width :: "BondDataType \<Rightarrow> nat option" where
  "fast_width BT_BOOL = Some 1"
| "fast_width BT_UINT8 = Some 1"
| "fast_width BT_INT8 = Some 1"
| "fast_width BT_UINT16 = Some 2"
| "fast_width BT_INT16 = Some 2"
| "fast_width BT_UINT32 = Some 4"
| "fast_width BT_INT32 = Some 4"
| "fast_width BT_UINT64 = Some 8"
| "fast_width BT_INT64 = Some 8"
| "fast_width BT_FLOAT = Some 4"
| "fast_width BT_DOUBLE = Some 8"
| "fast_width t = None"

lemma fast_width_enc:
  "fast_width (GetTypeId v) = Some k \<Longrightarrow> length (fst (enc_value fast_format v)) = k"
  by (cases v) (auto simp: fast_format_def)

lemma fast_width_items:
  "fast_width t = Some k \<Longrightarrow> wf_items mo t vs \<Longrightarrow>
   length (fst (enc_items fast_format vs)) = length vs * k"
  by (induction vs) (auto simp: fast_width_enc)

lemma fb_SkipTypes_width:
  "fast_width t = Some k \<Longrightarrow> fb_SkipTypes skip t sz = skip_fixed sz (of_nat k) \<and> unat (of_nat k :: u8) = k"
  by (cases t) (auto simp: fb_SkipTypes_def)

lemma fb_Skip_width: "fast_width t = Some k \<Longrightarrow> fb_Skip (Suc n) t = skip_fixed 1 (of_nat k)"
  by (cases t) auto

lemma fb_SkipTypes_repeat:
  "is_value_type t \<Longrightarrow> fast_width t = None \<Longrightarrow>
   fb_SkipTypes skip t sz = repeat_st (unat sz) (skip t)"
  by (cases t) (auto simp: fb_SkipTypes_def)

lemma ev_fb_SkipTypes:
  assumes t: "is_value_type t" and wf: "wf_items mo t vs" and len: "length vs < 2 ^ 32"
    and items: "ev_decodes (\<lambda>n. repeat_st (length vs) (fb_Skip n t)) (fst (enc_items fast_format vs)) ()"
  shows "ev_decodes (\<lambda>n. fb_SkipTypes (fb_Skip n) t (of_nat (length vs))) (fst (enc_items fast_format vs)) ()"
proof (cases "fast_width t")
  case None
  with t items len show ?thesis by (simp add: fb_SkipTypes_repeat unat_of_nat_small)
next
  case (Some k)
  have "decodes (skip_fixed (of_nat (length vs)) (of_nat k)) (fst (enc_items fast_format vs)) ()"
    using fb_SkipTypes_width [OF Some] fast_width_items [OF Some wf] len
    by (intro decodes_skip_fixed') (simp add: unat_of_nat_small)
  then show ?thesis
    using fb_SkipTypes_width [OF Some] by (simp add: ev_decodes_const)
qed

lemma ev_fb_Skip_basic:
  assumes "is_basic v" and "wf_value mo v"
  shows "ev_decodes (\<lambda>n. fb_Skip n (GetTypeId v)) (fast_basic v) ()"
proof (cases "fast_width (GetTypeId v)")
  case (Some k)
  have "fast_basic v = fst (enc_value fast_format v)"
    using assms(1) by (simp add: enc_value_basic fast_format_def)
  with Some have "length (fast_basic v) = k" by (simp add: fast_width_enc)
  then have "decodes (skip_fixed 1 (of_nat k)) (fast_basic v) ()"
    using fb_SkipTypes_width [OF Some] by (intro decodes_skip_fixed') simp
  then have "ev_decodes (\<lambda>n. fb_Skip (Suc n) (GetTypeId v)) (fast_basic v) ()"
    by (simp add: fb_Skip_width [OF Some] ev_decodes_const del: fb_Skip.simps)
  then show ?thesis by (rule ev_decodes_Suc)
next
  case None
  with assms(1) consider s where "v = VString s" | s where "v = VWString s" by (cases v) auto
  then show ?thesis
  proof cases
    case 1
    with assms(2) have "decodes (bind ReadVariableUnsigned ib_skip) (varint (unat (string_length s)) @ s) ()"
      by (intro decodes_bind [OF decodes_varint32] decodes_skip) (simp_all add: string_length_small)
    with 1 assms(2) have "ev_decodes (\<lambda>n. fb_Skip (Suc n) (GetTypeId v)) (fast_basic v) ()"
      by (simp add: ev_decodes_const string_length_small)
    then show ?thesis by (rule ev_decodes_Suc)
  next
    case 2
    with assms(2) have "decodes (bind ReadVariableUnsigned (\<lambda>sz. skip_fixed sz 2))
        (varint (unat (string_length s)) @ wstring_bytes s) ()"
      by (intro decodes_bind [OF decodes_varint32] decodes_skip_fixed') (simp add: string_length_small)
    with 2 assms(2) have "ev_decodes (\<lambda>n. fb_Skip (Suc n) (GetTypeId v)) (fast_basic v) ()"
      by (simp add: ev_decodes_const string_length_small)
    then show ?thesis by (rule ev_decodes_Suc)
  qed
qed

lemma ev_fb_SkipStruct_stop: "ev_decodes fb_SkipStruct [0] ()"
proof (rule ev_decodes_Suc)
  have "ev_decodes (\<lambda>n. fb_SkipStruct (Suc n)) ([type_code BT_STOP] @ []) ()"
    unfolding fb_SkipStruct.simps
    by (rule ev_decodes_header [OF decodes_fb_ReadFieldBegin_stop])
      (auto simp: is_stop_def intro: ev_decodes_const decodes_ret)
  then show "ev_decodes (\<lambda>n. fb_SkipStruct (Suc n)) [0] ()" by simp
qed

lemma ev_fb_SkipStruct_stop_base:
  assumes "ev_decodes fb_SkipStruct tail ()"
  shows "ev_decodes fb_SkipStruct (1 # tail) ()"
proof (rule ev_decodes_Suc)
  have "ev_decodes (\<lambda>n. fb_SkipStruct (Suc n)) ([type_code BT_STOP_BASE] @ tail) ()"
    unfolding fb_SkipStruct.simps
    by (rule ev_decodes_header [OF decodes_fb_ReadFieldBegin_stop])
      (use assms in \<open>auto simp: is_stop_def\<close>)
  then show "ev_decodes (\<lambda>n. fb_SkipStruct (Suc n)) (1 # tail) ()" by simp
qed

lemma ev_fb_SkipStruct_field:
  assumes "is_value_type t" and "ev_decodes (\<lambda>n. fb_Skip n t) bs ()" and "ev_decodes fb_SkipStruct tail ()"
  shows "ev_decodes fb_SkipStruct ((type_code t # le_bytes 2 (fid :: u16)) @ bs @ tail) ()"
proof (rule ev_decodes_Suc)
  have stop: "t \<noteq> BT_STOP" "t \<noteq> BT_STOP_BASE" using assms(1) by auto
  show "ev_decodes (\<lambda>n. fb_SkipStruct (Suc n)) ((type_code t # le_bytes 2 fid) @ bs @ tail) ()"
    unfolding fb_SkipStruct.simps
    by (rule ev_decodes_header [OF decodes_fb_ReadFieldBegin [OF assms(1)]])
      (use stop ev_decodes_then [OF assms(2,3)] in simp)
qed

lemma ev_fb_Skip_list:
  assumes "is_value_type t" and "length vs < 2 ^ 32" and "wf_items mo t vs"
    and "ev_decodes (\<lambda>n. repeat_st (length vs) (fb_Skip n t)) (fst (enc_items fast_format vs)) ()"
    and "c = BT_LIST \<or> c = BT_SET"
  shows "ev_decodes (\<lambda>n. fb_Skip n c)
    (f_container fast_format (of_nat (length vs)) t @ fst (enc_items fast_format vs)) ()"
proof (rule ev_decodes_Suc)
  have "ev_decodes (\<lambda>n. bind fb_ReadContainerBegin (\<lambda>(sz, t). fb_SkipTypes (fb_Skip n) t sz))
      (f_container fast_format (of_nat (length vs)) t @ fst (enc_items fast_format vs)) ()"
    using ev_fb_SkipTypes [OF assms(1,3,2,4)]
    by (intro ev_decodes_header [where x = "(of_nat (length vs), t)"])
      (simp_all add: fast_format_def decodes_fb_ReadContainerBegin assms(1))
  with assms(5) show "ev_decodes (\<lambda>n. fb_Skip (Suc n) c)
    (f_container fast_format (of_nat (length vs)) t @ fst (enc_items fast_format vs)) ()" by auto
qed

lemma ev_fb_Skip_map:
  assumes "is_value_type k" and "is_value_type t" and "length kvs < 2 ^ 32"
    and "ev_decodes (\<lambda>n. repeat_st (length kvs) (bind (fb_Skip n k) (\<lambda>_. fb_Skip n t))) bs ()"
  shows "ev_decodes (\<lambda>n. fb_Skip n BT_MAP) (f_container2 fast_format (of_nat (length kvs)) k t @ bs) ()"
proof (rule ev_decodes_Suc)
  have "ev_decodes (\<lambda>n. bind fb_ReadContainerBegin2 (\<lambda>(sz, k, t).
          repeat_st (unat sz) (bind (fb_Skip n k) (\<lambda>_. fb_Skip n t))))
      (f_container2 fast_format (of_nat (length kvs)) k t @ bs) ()"
    using assms decodes_fb_ReadContainerBegin2 [of k t "of_nat (length kvs)"]
    by (intro ev_decodes_header [where x = "(of_nat (length kvs), k, t)"])
      (simp_all add: fast_format_def unat_of_nat_small)
  then show "ev_decodes (\<lambda>n. fb_Skip (Suc n) BT_MAP)
    (f_container2 fast_format (of_nat (length kvs)) k t @ bs) ()" by simp
qed

lemma ev_fb_Skip_blob:
  assumes "blob_wf b"
  shows "ev_decodes (\<lambda>n. fb_Skip n BT_LIST)
    (f_container fast_format (blob_length b) BT_INT8 @ blob_bytes b) ()"
proof (rule ev_decodes_Suc)
  have "decodes (skip_fixed (blob_length b) 1) (blob_bytes b) ()"
    using assms by (intro decodes_skip_fixed') (simp add: blob_wf_def)
  then have "ev_decodes (\<lambda>n. bind fb_ReadContainerBegin (\<lambda>(sz, t). fb_SkipTypes (fb_Skip n) t sz))
      (f_container fast_format (blob_length b) BT_INT8 @ blob_bytes b) ()"
    using decodes_fb_ReadContainerBegin [of BT_INT8 "blob_length b"]
    by (intro ev_decodes_header [where x = "(blob_length b, BT_INT8)"])
      (simp_all add: fast_format_def fb_SkipTypes_def ev_decodes_const)
  then show "ev_decodes (\<lambda>n. fb_Skip (Suc n) BT_LIST)
    (f_container fast_format (blob_length b) BT_INT8 @ blob_bytes b) ()" by simp
qed

lemma ev_fb_Skip_struct:
  assumes "ev_decodes fb_SkipStruct bs ()"
  shows "ev_decodes (\<lambda>n. fb_Skip n BT_STRUCT) bs ()"
proof (rule ev_decodes_Suc)
  show "ev_decodes (\<lambda>n. fb_Skip (Suc n) BT_STRUCT) bs ()" using assms by simp
qed

lemma ev_fb_SkipStruct_end:
  assumes "base \<Longrightarrow> ev_decodes fb_SkipStruct tail ()" and "\<not> base \<Longrightarrow> tail = []"
  shows "ev_decodes fb_SkipStruct ((if base then 1 else 0) # tail) ()"
  using assms ev_fb_SkipStruct_stop ev_fb_SkipStruct_stop_base by auto

lemma ev_fb_Skip_aux:
  "wf_value mo v \<Longrightarrow> ev_decodes (\<lambda>n. fb_Skip n (GetTypeId v)) (fst (enc_value fast_format v)) ()"
  "wf_items mo t vs \<Longrightarrow>
     ev_decodes (\<lambda>n. repeat_st (length vs) (fb_Skip n t)) (fst (enc_items fast_format vs)) ()"
  "wf_pairs mo k t kvs \<Longrightarrow>
     ev_decodes (\<lambda>n. repeat_st (length kvs) (bind (fb_Skip n k) (\<lambda>_. fb_Skip n t)))
       (fst (enc_pairs fast_format kvs)) ()"
  "wf_field mo f \<Longrightarrow> ev_decodes fb_SkipStruct tail () \<Longrightarrow>
     ev_decodes fb_SkipStruct (fst (enc_field fast_format f) @ tail) ()"
  "wf_fields mo fs \<Longrightarrow> ev_decodes fb_SkipStruct tail () \<Longrightarrow>
     ev_decodes fb_SkipStruct (fst (enc_fields fast_format fs) @ tail) ()"
  "wf_struct mo s \<Longrightarrow> (base \<Longrightarrow> ev_decodes fb_SkipStruct tail ()) \<Longrightarrow> (\<not> base \<Longrightarrow> tail = []) \<Longrightarrow>
     ev_decodes fb_SkipStruct (fst (enc_struct fast_format base s) @ tail) ()"
proof (induction mo v and mo t vs and mo k t kvs and mo f and mo fs and mo s
    arbitrary: and and and tail and tail and base tail
    rule: wf_value_wf_items_wf_pairs_wf_field_wf_fields_wf_struct.induct)
  case (1 mo b)
  then show ?case by (simp add: ev_fb_Skip_blob)
next
  case (2 mo t vs)
  then show ?case using ev_fb_Skip_list [of t vs mo] by simp
next
  case (3 mo t vs)
  then show ?case using ev_fb_Skip_list [of t vs mo] by simp
next
  case (4 mo k t kvs)
  then show ?case by (simp add: ev_fb_Skip_map)
next
  case (5 mo s)
  then show ?case using "5.IH" [of False "[]"] by (simp add: ev_fb_Skip_struct)
next
  case (10 mo t v vs)
  then show ?case by (auto intro!: ev_decodes_then)
next
  case (12 mo k t x v kvs)
  then have "ev_decodes (\<lambda>n. bind (bind (fb_Skip n k) (\<lambda>_. fb_Skip n t))
        (\<lambda>_. repeat_st (length kvs) (bind (fb_Skip n k) (\<lambda>_. fb_Skip n t))))
      ((fst (enc_value fast_format x) @ fst (enc_value fast_format v)) @ fst (enc_pairs fast_format kvs)) ()"
    by (intro ev_decodes_then) auto
  then show ?case by simp
next
  case (13 mo fid md v)
  then show ?case
    using ev_fb_SkipStruct_field [of "GetTypeId v" "fst (enc_value fast_format v)" tail fid]
    by (simp add: fast_format_simps del: le_bytes.simps)
next
  case (15 mo fid md t v)
  then show ?case
    using ev_fb_SkipStruct_field [of "GetTypeId v" "fst (enc_value fast_format v)" tail fid]
    by (auto simp: fast_format_simps simp del: le_bytes.simps)
next
  case (18 mo md fs)
  then have "ev_decodes fb_SkipStruct
      (fst (enc_fields fast_format fs) @ (if base then 1 else 0) # tail) ()"
    by (intro "18.IH" ev_fb_SkipStruct_end) auto
  then show ?case by (simp add: fast_format_simps)
next
  case (19 mo md b fs)
  then have "ev_decodes fb_SkipStruct (fst (enc_struct fast_format True b) @
      fst (enc_fields fast_format fs) @ (if base then 1 else 0) # tail) ()"
    by (intro "19.IH" ev_fb_SkipStruct_end) auto
  then show ?case by (simp add: fast_format_simps)
qed (auto intro: ev_decodes_const decodes_ret intro!: ev_fb_Skip_basic
      simp: enc_value_basic fast_format_simps simp del: GetTypeId.simps enc_value.simps wf_value.simps
      fast_basic.simps)

theorem fb_SkipType_encoded:
  assumes "wf_value True v" and "ib_at ib (fst (enc_value fast_format v) @ rest)"
  shows "fb_SkipType (GetTypeId v) ib = Inr ((), ib_adv (length (fst (enc_value fast_format v))) ib)"
  unfolding fb_SkipType_def
proof (rule ev_decodes_enough [where S = "\<lambda>n. fb_Skip n (GetTypeId v)", OF _ _ assms(2)])
  show "ev_decodes (\<lambda>n. fb_Skip n (GetTypeId v)) (fst (enc_value fast_format v)) ()"
    using assms(1) by (rule ev_fb_Skip_aux)
  show "fuel_le (fb_Skip n (GetTypeId v)) (fb_Skip (Suc n) (GetTypeId v))" for n
    using fuel_le_fb_Skip by blast
  have "reads_safely (length (ib_rest ib)) 0 (fb_Skip (2 * length (ib_rest ib) + 2) (GetTypeId v))"
    by (rule mp [OF conjunct1 [OF reads_safely_fb_Skip]]) simp
  then show "fb_Skip (2 * length (ib_rest ib) + 2) (GetTypeId v) ib \<noteq> Inl OutOfFuel"
    using ib_at_ok [OF assms(2)] by (rule reads_safely_fuel) simp
qed

section \<open>Reading basic values\<close>

lemma decodes_fb_Read:
  assumes "is_basic v" and "wf_value mo v"
  shows "decodes (fb_Read (GetTypeId v)) (fast_basic v) v"
proof (cases "is_object v")
  case True
  then have "fb_Read (GetTypeId v) = read_object (GetTypeId v)" "fast_basic v = object_bytes v"
    by (cases v; simp)+
  with True show ?thesis by (simp add: decodes_object)
next
  case False
  with assms(1) consider s where "v = VString s" | s where "v = VWString s" by (cases v) auto
  then show ?thesis
  proof cases
    case 1
    with assms(2) have "decodes (fb_Read BT_STRING) (varint (unat (string_length s)) @ s) (VString s)"
      unfolding fb_Read.simps by (intro decodes_bind [OF decodes_varint32] decodes_map decodes_string) simp
    with 1 assms(2) show ?thesis by (simp add: string_length_small)
  next
    case 2
    with assms(2) have "decodes (fb_Read BT_WSTRING)
        (varint (unat (string_length s)) @ wstring_bytes s) (VWString s)"
      unfolding fb_Read.simps by (intro decodes_bind [OF decodes_varint32] decodes_map decodes_wstring) auto
    with 2 assms(2) show ?thesis by (simp add: string_length_small)
  qed
qed

end
