(* ===== verification/Simple_Array.thy ===== *)
theory Simple_Array
  imports Bond_Prelude
begin

text \<open>
  The growable array of \<^verbatim>\<open>src/cpp/inc/bond/protocol/detail/simple_array.h\<close> (\<open>SimpleArray<T, 64>\<close>)
  with which the compact binary writer keeps its struct lengths and the stack of open structs.
  Elements of the array that were never stored have arbitrary content (\<open>sa_noinit\<close>). The
  invariant \<open>sa_ok\<close> and the abstraction \<open>sa_list\<close> to a list give the contract of a stack with
  random access, which is stated as the locale \<open>stack_array\<close> and interpreted on the model.
\<close>

section \<open>State and operations\<close>

record 'a SimpleArray =
  sa_size :: u32
  sa_capacity :: u32
  sa_data :: "'a list"
  sa_noinit :: "nat \<Rightarrow> 'a"

definition SimpleArray_empty :: "(nat \<Rightarrow> 'a) \<Rightarrow> 'a SimpleArray" where
  "SimpleArray_empty noinit =
     \<lparr>sa_size = 0, sa_capacity = 64, sa_data = map noinit [0..<64], sa_noinit = noinit\<rparr>"

text \<open>Storing to \<open>_data[i]\<close> and loading from it, where the array has that element.\<close>

definition sa_store :: "nat \<Rightarrow> 'a \<Rightarrow> 'a SimpleArray \<Rightarrow> 'a SimpleArray res" where
  "sa_store i x a =
     (if i < length (sa_data a) then Inr (a\<lparr>sa_data := (sa_data a)[i := x]\<rparr>) else Inl OutOfBounds)"

definition sa_index :: "u32 \<Rightarrow> 'a SimpleArray \<Rightarrow> 'a res" where
  "sa_index i a = (if unat i < length (sa_data a) then Inr (sa_data a ! unat i) else Inl OutOfBounds)"

definition sa_pop :: "'a SimpleArray \<Rightarrow> ('a \<times> 'a SimpleArray) res" where
  "sa_pop a =
     (if sa_size a = 0 then Inl UnderflowError
      else let a1 = a\<lparr>sa_size := sa_size a - 1\<rparr>
           in res_bind (sa_index (sa_size a1) a1) (\<lambda>x. Inr (x, a1)))"

definition sa_grow :: "'a \<Rightarrow> 'a SimpleArray \<Rightarrow> 'a SimpleArray res" where
  "sa_grow x a =
     (if sa_capacity a \<ge> drop_bit 1 (-1) then Inl BadAlloc
      else let capacity = push_bit 1 (sa_capacity a);
               new_data = take (unat (sa_size a)) (sa_data a) @
                          map (sa_noinit a) [unat (sa_size a)..<unat capacity]
           in res_bind (sa_store (unat (sa_size a)) x
                          (a\<lparr>sa_capacity := capacity, sa_data := new_data\<rparr>))
                (\<lambda>a1. Inr (a1\<lparr>sa_size := sa_size a1 + 1\<rparr>)))"

definition sa_push :: "'a \<Rightarrow> 'a SimpleArray \<Rightarrow> 'a SimpleArray res" where
  "sa_push x a =
     (if sa_size a < sa_capacity a
      then res_bind (sa_store (unat (sa_size a)) x a) (\<lambda>a1. Inr (a1\<lparr>sa_size := sa_size a1 + 1\<rparr>))
      else sa_grow x a)"

section \<open>Invariant and abstraction\<close>

definition sa_ok :: "'a SimpleArray \<Rightarrow> bool" where
  "sa_ok a \<longleftrightarrow>
     sa_size a \<le> sa_capacity a \<and> length (sa_data a) = unat (sa_capacity a) \<and>
     (\<exists>k \<le> 25. unat (sa_capacity a) = 64 * 2 ^ k)"

definition sa_list :: "'a SimpleArray \<Rightarrow> 'a list" where
  "sa_list a = take (unat (sa_size a)) (sa_data a)"

lemma sa_ok_empty: "sa_ok (SimpleArray_empty noinit)" "sa_list (SimpleArray_empty noinit) = []"
  by (auto simp: sa_ok_def sa_list_def SimpleArray_empty_def intro!: exI [of _ 0])

lemma length_sa_list: "sa_ok a \<Longrightarrow> length (sa_list a) = unat (sa_size a)"
  by (simp add: sa_ok_def sa_list_def word_le_nat_alt)

text \<open>Storing one past the used part of the array and counting it in.\<close>

lemma sa_store_push:
  assumes "unat (sa_size a) < length (sa_data a)" and "length (sa_data a) \<le> 2 ^ 31"
  shows "\<exists>a'. res_bind (sa_store (unat (sa_size a)) x a) (\<lambda>a1. Inr (a1\<lparr>sa_size := sa_size a1 + 1\<rparr>)) = Inr a' \<and>
     sa_list a' = sa_list a @ [x] \<and> sa_capacity a' = sa_capacity a \<and>
     length (sa_data a') = length (sa_data a) \<and> unat (sa_size a') = unat (sa_size a) + 1"
proof -
  have "unat (sa_size a + 1) = unat (sa_size a) + 1"
    using assms by (subst unat_add_no_overflow) auto
  with assms(1) show ?thesis
    by (auto simp: sa_store_def sa_list_def take_Suc_conv_app_nth)
qed

lemma sa_push_Inr:
  assumes ok: "sa_ok a" and small: "length (sa_list a) < 2 ^ 31"
  shows "\<exists>a'. sa_push x a = Inr a' \<and> sa_ok a' \<and> sa_list a' = sa_list a @ [x]"
proof -
  obtain k where k: "k \<le> 25" "unat (sa_capacity a) = 64 * 2 ^ k"
    and len: "length (sa_data a) = unat (sa_capacity a)" and le: "unat (sa_size a) \<le> unat (sa_capacity a)"
    using ok by (auto simp: sa_ok_def word_le_nat_alt)
  have cap: "unat (sa_capacity a) \<le> 2 ^ 31"
    using k power_increasing [of k 25 "2 :: nat"] by simp
  show ?thesis
  proof (cases "sa_size a < sa_capacity a")
    case True
    then have "unat (sa_size a) < length (sa_data a)" by (simp add: len word_less_nat_alt)
    from sa_store_push [OF this, of x] cap True k len show ?thesis
      by (auto simp: sa_push_def sa_ok_def word_le_nat_alt word_less_nat_alt)
  next
    case False
    with le have eq: "unat (sa_size a) = unat (sa_capacity a)" by (simp add: word_less_nat_alt)
    with small ok have lt: "64 * 2 ^ k < (2 :: nat) ^ 31" by (simp add: length_sa_list k)
    have k25: "k < 25"
    proof (rule ccontr)
      assume "\<not> k < 25"
      with k(1) have "k = 25" by simp
      with lt show False by simp
    qed
    then have c30: "unat (sa_capacity a) \<le> 2 ^ 30"
      using k(2) power_increasing [of k 24 "2 :: nat"] by simp
    let ?c = "push_bit 1 (sa_capacity a)"
    have c: "unat ?c = 2 * unat (sa_capacity a)"
      using c30 by (simp add: push_bit_eq_mult unat_word_ariths)
    let ?b = "a\<lparr>sa_capacity := ?c, sa_data := take (unat (sa_size a)) (sa_data a) @
        map (sa_noinit a) [unat (sa_size a)..<unat ?c]\<rparr>"
    have lb: "length (sa_data ?b) = unat ?c" using eq len c by simp
    have "\<not> sa_capacity a \<ge> drop_bit 1 (-1)"
      using c30 by (simp add: word_le_nat_alt mask_eq_exp_minus_1)
    then have grow: "sa_push x a = res_bind (sa_store (unat (sa_size ?b)) x ?b)
        (\<lambda>a1. Inr (a1\<lparr>sa_size := sa_size a1 + 1\<rparr>))"
      using False by (simp add: sa_push_def sa_grow_def Let_def)
    have "unat (sa_size ?b) < length (sa_data ?b)" unfolding lb using eq c k by simp
    from sa_store_push [OF this, of x] lb c c30
    obtain a' where a': "sa_push x a = Inr a'" "sa_list a' = sa_list ?b @ [x]"
      "sa_capacity a' = ?c" "length (sa_data a') = unat ?c" "unat (sa_size a') = unat (sa_size a) + 1"
      unfolding grow by auto
    have "sa_list ?b = sa_list a" using eq len by (simp add: sa_list_def)
    moreover have "\<exists>j \<le> 25. unat ?c = 64 * 2 ^ j"
      using c k(2) k25 by (intro exI [of _ "Suc k"]) simp
    ultimately show ?thesis
      using a' eq c k by (auto simp: sa_ok_def word_le_nat_alt)
  qed
qed

lemma sa_pop_Inr:
  assumes "sa_ok a" and "sa_list a = xs @ [x]"
  shows "\<exists>a'. sa_pop a = Inr (x, a') \<and> sa_ok a' \<and> sa_list a' = xs"
proof -
  have sz: "unat (sa_size a) = length xs + 1" using assms length_sa_list [of a] by simp
  then have "sa_size a \<noteq> 0" by auto
  moreover have m: "unat (sa_size a - 1) = length xs"
    using sz by (subst unat_sub_no_underflow) auto
  moreover have "length xs < length (sa_data a)" "sa_data a ! length xs = x" "take (length xs) (sa_data a) = xs"
  proof -
    have t: "take (length xs + 1) (sa_data a) = xs @ [x]" using assms(2) sz by (simp add: sa_list_def)
    then have "length (take (length xs + 1) (sa_data a)) = length xs + 1" by simp
    then show l: "length xs < length (sa_data a)" by simp
    with t show "sa_data a ! length xs = x" "take (length xs) (sa_data a) = xs"
      by (auto simp: take_Suc_conv_app_nth)
  qed
  ultimately show ?thesis
    using assms(1) sz by (auto simp: sa_pop_def sa_index_def sa_ok_def sa_list_def word_le_nat_alt)
qed

lemma sa_pop_Inl: "sa_ok a \<Longrightarrow> sa_list a = [] \<Longrightarrow> sa_pop a = Inl UnderflowError"
  using length_sa_list [of a] by (simp add: sa_pop_def unat_eq_0)

lemma sa_index_nth:
  assumes "sa_ok a" and "unat i < length (sa_list a)"
  shows "sa_index i a = Inr (sa_list a ! unat i)"
  using assms by (auto simp: sa_index_def sa_list_def)

lemma sa_store_nth:
  assumes "sa_ok a" and "i < length (sa_list a)"
  shows "\<exists>a'. sa_store i x a = Inr a' \<and> sa_ok a' \<and> sa_list a' = (sa_list a)[i := x]"
  using assms by (auto simp: sa_store_def sa_list_def sa_ok_def take_update_swap)

section \<open>The contract\<close>

locale stack_array =
  fixes ok :: "'s \<Rightarrow> bool" and elems :: "'s \<Rightarrow> 'a list"
    and push :: "'a \<Rightarrow> 's \<Rightarrow> 's res" and pop :: "'s \<Rightarrow> ('a \<times> 's) res"
    and store :: "nat \<Rightarrow> 'a \<Rightarrow> 's \<Rightarrow> 's res"
  assumes push_law: "ok a \<Longrightarrow> length (elems a) < 2 ^ 31 \<Longrightarrow>
      \<exists>a'. push x a = Inr a' \<and> ok a' \<and> elems a' = elems a @ [x]"
    and pop_law: "ok a \<Longrightarrow> elems a = xs @ [x] \<Longrightarrow> \<exists>a'. pop a = Inr (x, a') \<and> ok a' \<and> elems a' = xs"
    and store_law: "ok a \<Longrightarrow> i < length (elems a) \<Longrightarrow>
      \<exists>a'. store i x a = Inr a' \<and> ok a' \<and> elems a' = (elems a)[i := x]"
begin

text \<open>What is pushed is popped, in reverse order.\<close>

fun push_all :: "'a list \<Rightarrow> 's \<Rightarrow> 's res" where
  "push_all [] a = Inr a"
| "push_all (x # xs) a = res_bind (push x a) (push_all xs)"

fun pop_all :: "nat \<Rightarrow> 's \<Rightarrow> ('a list \<times> 's) res" where
  "pop_all 0 a = Inr ([], a)"
| "pop_all (Suc n) a =
     res_bind (pop a) (\<lambda>(x, a1). res_bind (pop_all n a1) (\<lambda>(xs, a2). Inr (x # xs, a2)))"

lemma push_all_elems:
  assumes "ok a" and "length (elems a) + length xs \<le> 2 ^ 31"
  shows "\<exists>a'. push_all xs a = Inr a' \<and> ok a' \<and> elems a' = elems a @ xs"
  using assms
proof (induction xs arbitrary: a)
  case Nil
  then show ?case by simp
next
  case (Cons x xs)
  then obtain a1 where a1: "push x a = Inr a1" "ok a1" "elems a1 = elems a @ [x]"
    using push_law [of a x] by auto
  with Cons.prems have "length (elems a1) + length xs \<le> 2 ^ 31" by simp
  from Cons.IH [OF a1(2) this] a1 show ?case by auto
qed

lemma pop_all_elems:
  assumes "ok a" and "elems a = ys @ xs"
  shows "\<exists>a'. pop_all (length xs) a = Inr (rev xs, a') \<and> ok a' \<and> elems a' = ys"
  using assms
proof (induction xs arbitrary: a rule: rev_induct)
  case Nil
  then show ?case by simp
next
  case (snoc x xs)
  then obtain a1 where a1: "pop a = Inr (x, a1)" "ok a1" "elems a1 = ys @ xs"
    using pop_law [of a "ys @ xs" x] by auto
  with snoc.IH [OF a1(2,3)] show ?case by auto
qed

lemma push_pop_all:
  assumes "ok a" and "length (elems a) + length xs \<le> 2 ^ 31"
  shows "\<exists>a' a''. push_all xs a = Inr a' \<and> pop_all (length xs) a' = Inr (rev xs, a'') \<and>
     ok a'' \<and> elems a'' = elems a"
  using push_all_elems [OF assms] pop_all_elems by blast

end

interpretation sa: stack_array sa_ok sa_list sa_push sa_pop sa_store
  by unfold_locales (rule sa_push_Inr sa_pop_Inr sa_store_nth; assumption)+

end
