(* ===== verification/Compact_Writer.thy ===== *)
theory Compact_Writer
  imports Wire_Scalars Simple_Array
begin

text \<open>
  The writer of the Compact Binary protocol, \<^verbatim>\<open>src/cpp/inc/bond/protocol/compact_binary.h\<close>, and the
  double pass of \<^verbatim>\<open>src/cpp/inc/bond/core/detail/double_pass.h\<close>. In version 2 a struct is prefixed
  with its length. The lengths are computed in a first pass over a counting stream (\<open>Pass0\<close>), which
  keeps them in an array in the order in which structs begin, with a stack of the open structs; the
  second pass takes them from there. The theorem of this theory is that the two passes agree: the
  lengths that the first pass records are the lengths of the bytes that the second pass writes.
\<close>

unbundle bit_operations_syntax

section \<open>State\<close>

text \<open>
  \<open>cw_it\<close> is the pointer \<open>_it\<close>: null, or the part of the first pass's array from the pointer on.
\<close>

record 'b CompactBinaryWriter =
  cw_output :: 'b
  cw_it :: "u32 list option"
  cw_version :: u16
  cw_stack :: "u32 SimpleArray"
  cw_lengths :: "u32 SimpleArray"

definition compact_magic :: u16 where "compact_magic = 0x4243"

definition CompactBinaryWriter_init :: "(nat \<Rightarrow> u32) \<Rightarrow> 'b \<Rightarrow> u16 \<Rightarrow> 'b CompactBinaryWriter" where
  "CompactBinaryWriter_init noinit output version =
     \<lparr>cw_output = output, cw_it = None, cw_version = version,
      cw_stack = SimpleArray_empty noinit, cw_lengths = SimpleArray_empty noinit\<rparr>"

text \<open>\<open>_output.Write(...)\<close>\<close>

definition cw_put :: "('b \<Rightarrow> 'b res) \<Rightarrow> 'b CompactBinaryWriter \<Rightarrow> 'b CompactBinaryWriter res" where
  "cw_put f w = res_bind (f (cw_output w)) (\<lambda>b. Inr (w\<lparr>cw_output := b\<rparr>))"

section \<open>Operations\<close>

definition cw_NeedPass0 :: "'b CompactBinaryWriter \<Rightarrow> bool" where
  "cw_NeedPass0 w \<longleftrightarrow> cw_version w = v2 \<and> cw_it w = None"

definition cw_WriteVersion :: "'b Buffer \<Rightarrow> 'b CompactBinaryWriter \<Rightarrow> 'b CompactBinaryWriter res" where
  "cw_WriteVersion B w =
     seq (cw_put (b_Write B (le_bytes 2 compact_magic))) (cw_put (b_Write B (le_bytes 2 (cw_version w)))) w"

text \<open>\<open>LengthBegin\<close> and \<open>LengthEnd\<close>, with the overloads for the counter\<close>

definition cw_LengthBegin :: "'b Buffer \<Rightarrow> 'b CompactBinaryWriter \<Rightarrow> 'b CompactBinaryWriter res" where
  "cw_LengthBegin B w =
     (case b_Counter B of
        Some GetCount \<Rightarrow>
          res_bind (sa_push (sa_size (cw_lengths w)) (cw_stack w)) (\<lambda>stack.
          res_bind (sa_push (GetCount (cw_output w)) (cw_lengths w)) (\<lambda>lengths.
            Inr (w\<lparr>cw_stack := stack, cw_lengths := lengths\<rparr>)))
      | None \<Rightarrow>
          if cw_version w = v2
          then (case cw_it w of
                  Some (len # it) \<Rightarrow> cw_put (b_WriteVariableUnsigned32 B len) (w\<lparr>cw_it := Some it\<rparr>)
                | _ \<Rightarrow> Inl OutOfBounds)
          else Inr w)"

definition cw_LengthEnd :: "'b Buffer \<Rightarrow> 'b CompactBinaryWriter \<Rightarrow> 'b CompactBinaryWriter res" where
  "cw_LengthEnd B w =
     (case b_Counter B of
        Some GetCount \<Rightarrow>
          res_bind (sa_pop (cw_stack w)) (\<lambda>(i, stack).
          res_bind (sa_index i (cw_lengths w)) (\<lambda>start.
          (let len = GetCount (cw_output w) - start
           in res_bind (sa_store (unat i) len (cw_lengths w)) (\<lambda>lengths.
              cw_put (b_WriteVariableUnsigned32 B len)
                (w\<lparr>cw_stack := stack, cw_lengths := lengths\<rparr>)))))
      | None \<Rightarrow> Inr w)"

definition cw_WriteStructBegin ::
    "'b Buffer \<Rightarrow> Metadata \<Rightarrow> bool \<Rightarrow> 'b CompactBinaryWriter \<Rightarrow> 'b CompactBinaryWriter res" where
  "cw_WriteStructBegin B metadata base = (if \<not> base then cw_LengthBegin B else Inr)"

definition cw_WriteStructEnd ::
    "'b Buffer \<Rightarrow> bool \<Rightarrow> 'b CompactBinaryWriter \<Rightarrow> 'b CompactBinaryWriter res" where
  "cw_WriteStructEnd B base =
     (if base then cw_put (b_Write B [type_code BT_STOP_BASE])
      else seq (cw_put (b_Write B [type_code BT_STOP])) (cw_LengthEnd B))"

text \<open>\<open>WriteFieldBegin\<close>: the identifier is in the type byte, in the next byte or in the next two.\<close>

definition cw_WriteFieldBegin ::
    "'b Buffer \<Rightarrow> BondDataType \<Rightarrow> u16 \<Rightarrow> Metadata \<Rightarrow> 'b CompactBinaryWriter \<Rightarrow> 'b CompactBinaryWriter res" where
  "cw_WriteFieldBegin B type fid metadata =
     (if fid \<le> 5 then cw_put (b_Write B [type_code type OR push_bit 5 (ucast fid)])
      else if fid \<le> 0xff
      then seq (cw_put (b_Write B [type_code type OR push_bit 5 6])) (cw_put (b_Write B [ucast fid]))
      else seq (cw_put (b_Write B [type_code type OR push_bit 5 7])) (cw_put (b_Write B (le_bytes 2 fid))))"

definition cw_WriteFieldEnd :: "'b CompactBinaryWriter \<Rightarrow> 'b CompactBinaryWriter res" where
  "cw_WriteFieldEnd = Inr"

text \<open>\<open>Write\<close> for the basic types\<close>

fun cw_Write :: "'b Buffer \<Rightarrow> bvalue \<Rightarrow> 'b CompactBinaryWriter \<Rightarrow> 'b CompactBinaryWriter res" where
  "cw_Write B (VUInt16 x) = cw_put (b_WriteVariableUnsigned16 B x)"
| "cw_Write B (VUInt32 x) = cw_put (b_WriteVariableUnsigned32 B x)"
| "cw_Write B (VUInt64 x) = cw_put (b_WriteVariableUnsigned64 B x)"
| "cw_Write B (VInt16 x) = cw_put (b_WriteVariableUnsigned16 B (EncodeZigZag x))"
| "cw_Write B (VInt32 x) = cw_put (b_WriteVariableUnsigned32 B (EncodeZigZag x))"
| "cw_Write B (VInt64 x) = cw_put (b_WriteVariableUnsigned64 B (EncodeZigZag x))"
| "cw_Write B (VString s) =
     seq (cw_put (b_WriteVariableUnsigned32 B (string_length s)))
       (cw_put (WriteStringData B s (string_length s)))"
| "cw_Write B (VWString s) =
     seq (cw_put (b_WriteVariableUnsigned32 B (string_length s)))
       (cw_put (WriteWStringData B s (string_length s)))"
| "cw_Write B v = cw_put (b_Write B (object_bytes v))"

definition cw_WriteField ::
    "'b Buffer \<Rightarrow> u16 \<Rightarrow> Metadata \<Rightarrow> bvalue \<Rightarrow> 'b CompactBinaryWriter \<Rightarrow> 'b CompactBinaryWriter res" where
  "cw_WriteField B fid metadata v =
     seq (cw_WriteFieldBegin B (GetTypeId v) fid metadata) (seq (cw_Write B v) cw_WriteFieldEnd)"

definition cw_WriteContainerBegin ::
    "'b Buffer \<Rightarrow> u32 \<Rightarrow> BondDataType \<Rightarrow> 'b CompactBinaryWriter \<Rightarrow> 'b CompactBinaryWriter res" where
  "cw_WriteContainerBegin B sz type w =
     (if cw_version w = v2 \<and> sz < 7
      then cw_put (b_Write B [type_code type OR ucast (push_bit 5 (sz + 1))]) w
      else seq (cw_put (b_Write B [type_code type])) (cw_put (b_WriteVariableUnsigned32 B sz)) w)"

definition cw_WriteContainerBegin2 ::
    "'b Buffer \<Rightarrow> u32 \<Rightarrow> BondDataType \<times> BondDataType \<Rightarrow> 'b CompactBinaryWriter \<Rightarrow>
       'b CompactBinaryWriter res" where
  "cw_WriteContainerBegin2 B sz type =
     seq (cw_put (b_Write B [type_code (fst type)]))
       (seq (cw_put (b_Write B [type_code (snd type)])) (cw_put (b_WriteVariableUnsigned32 B sz)))"

definition cw_WriteContainerEnd :: "'b CompactBinaryWriter \<Rightarrow> 'b CompactBinaryWriter res" where
  "cw_WriteContainerEnd = Inr"

definition cw_WriteBlob :: "'b Buffer \<Rightarrow> blob \<Rightarrow> 'b CompactBinaryWriter \<Rightarrow> 'b CompactBinaryWriter res" where
  "cw_WriteBlob B b = cw_put (b_WriteBlob B b)"

definition compact_writer :: "'b Buffer \<Rightarrow> 'b CompactBinaryWriter Writer" where
  "compact_writer B =
     \<lparr>w_may_omit_fields = True, w_WriteStructBegin = cw_WriteStructBegin B,
      w_WriteStructEnd = cw_WriteStructEnd B, w_WriteField = cw_WriteField B,
      w_WriteFieldBegin = cw_WriteFieldBegin B, w_WriteFieldEnd = cw_WriteFieldEnd,
      w_WriteFieldOmitted = no_WriteFieldOmitted, w_WriteContainerBegin = cw_WriteContainerBegin B,
      w_WriteContainerBegin2 = cw_WriteContainerBegin2 B,
      w_WriteContainerEnd = cw_WriteContainerEnd, w_Write = cw_Write B,
      w_WriteBlob = cw_WriteBlob B\<rparr>"

section \<open>Double pass\<close>

text \<open>
  \<open>DoublePassApply\<close>: the first pass writes to a fresh counter with the version of this writer;
  \<open>WithPass0\<close> sets the pointer to the lengths and the destructor of \<open>Pass1\<close> resets it.
\<close>

definition cw_WithPass0 :: "OutputCounter CompactBinaryWriter \<Rightarrow> 'b CompactBinaryWriter \<Rightarrow> 'b CompactBinaryWriter" where
  "cw_WithPass0 pass0 w = w\<lparr>cw_it := Some (sa_data (cw_lengths pass0))\<rparr>"

definition DoublePassApply ::
    "(nat \<Rightarrow> u32) \<Rightarrow> 'b Buffer \<Rightarrow> bstruct \<Rightarrow> 'b CompactBinaryWriter \<Rightarrow> 'b CompactBinaryWriter res" where
  "DoublePassApply noinit B s w =
     res_bind (Serializer_Apply (compact_writer counter_stream) False s
                 (CompactBinaryWriter_init noinit OutputCounter_init (cw_version w)))
       (\<lambda>pass0.
     res_bind (Serializer_Apply (compact_writer B) False s (cw_WithPass0 pass0 w))
       (\<lambda>w1. Inr (w1\<lparr>cw_it := None\<rparr>)))"

definition cw_Serialize ::
    "(nat \<Rightarrow> u32) \<Rightarrow> 'b Buffer \<Rightarrow> bstruct \<Rightarrow> 'b CompactBinaryWriter \<Rightarrow> 'b CompactBinaryWriter res" where
  "cw_Serialize noinit B s w =
     (if cw_NeedPass0 w then DoublePassApply noinit B s w
      else Serializer_Apply (compact_writer B) False s w)"

section \<open>The format\<close>

fun compact_basic :: "bvalue \<Rightarrow> byte list" where
  "compact_basic (VUInt16 x) = varint (unat x)"
| "compact_basic (VUInt32 x) = varint (unat x)"
| "compact_basic (VUInt64 x) = varint (unat x)"
| "compact_basic (VInt16 x) = varint (unat (EncodeZigZag x))"
| "compact_basic (VInt32 x) = varint (unat (EncodeZigZag x))"
| "compact_basic (VInt64 x) = varint (unat (EncodeZigZag x))"
| "compact_basic (VString s) = varint (length s) @ s"
| "compact_basic (VWString s) = varint (length s) @ wstring_bytes s"
| "compact_basic v = object_bytes v"

definition compact_field :: "BondDataType \<Rightarrow> u16 \<Rightarrow> byte list" where
  "compact_field t fid =
     (if fid \<le> 5 then [type_code t OR push_bit 5 (ucast fid)]
      else if fid \<le> 0xff then [type_code t OR push_bit 5 6, ucast fid]
      else (type_code t OR push_bit 5 7) # le_bytes 2 fid)"

definition compact_container :: "u16 \<Rightarrow> u32 \<Rightarrow> BondDataType \<Rightarrow> byte list" where
  "compact_container v n t =
     (if v = v2 \<and> n < 7 then [type_code t OR ucast (push_bit 5 (n + 1))]
      else type_code t # varint (unat n))"

definition compact_struct :: "u16 \<Rightarrow> bool \<Rightarrow> emission \<Rightarrow> emission" where
  "compact_struct v base e =
     (if base then (fst e @ [1], snd e)
      else if v = v2
      then (varint (length (fst e) + 1) @ fst e @ [0], of_nat (length (fst e) + 1) # snd e)
      else (fst e @ [0], snd e))"

definition compact_format :: "u16 \<Rightarrow> format" where
  "compact_format v =
     \<lparr>f_may_omit_fields = True, f_struct = compact_struct v, f_field = compact_field,
      f_container = compact_container v,
      f_container2 = (\<lambda>n k t. [type_code k, type_code t] @ varint (unat n)),
      f_basic = compact_basic\<rparr>"

lemma compact_format_simps:
  "f_may_omit_fields (compact_format v) = True"
  "f_struct (compact_format v) = compact_struct v"
  "f_field (compact_format v) = compact_field"
  "f_container (compact_format v) = compact_container v"
  "f_container2 (compact_format v) n k t = [type_code k, type_code t] @ varint (unat n)"
  "f_basic (compact_format v) = compact_basic"
  by (simp_all add: compact_format_def)

section \<open>The writer implements the format\<close>

text \<open>
  The contract is the same for both passes but for the treatment of struct lengths, so it is proved
  once from what a pass does with plain output and with the lengths.
\<close>

lemmas cw_writer_defs = compact_writer_def cw_WriteStructBegin_def cw_WriteStructEnd_def
  cw_WriteFieldEnd_def cw_WriteContainerBegin2_def cw_WriteContainerEnd_def cw_WriteBlob_def

locale compact_pass = output_stream B holds for B :: "'b Buffer" and holds +
  fixes v :: u16 and emits :: "('b CompactBinaryWriter \<Rightarrow> 'b CompactBinaryWriter res) \<Rightarrow> emission \<Rightarrow> bool"
  assumes put_law: "stream_appends holds f bs \<Longrightarrow> emits (cw_put f) (bs, [])"
    and nil_law: "emits Inr ([], [])"
    and seq_law: "emits m a \<Longrightarrow> emits m' b \<Longrightarrow> emits (seq m m') (em_append a b)"
    and version_law: "(\<And>w. cw_version w = v \<Longrightarrow> m w = m' w) \<Longrightarrow> emits m' e \<Longrightarrow> emits m e"
    and struct_law: "emits m e \<Longrightarrow>
      emits (seq (cw_LengthBegin B) (seq m (seq (cw_put (b_Write B [0])) (cw_LengthEnd B))))
        (compact_struct v False e)"
begin

lemma put_put:
  "stream_appends holds f bs \<Longrightarrow> stream_appends holds g cs \<Longrightarrow>
   emits (seq (cw_put f) (cw_put g)) (bs @ cs, [])"
  using seq_law [OF put_law put_law, of f bs g cs] by (simp add: em_append_def)

lemma field_begin_law: "emits (cw_WriteFieldBegin B t fid md) (compact_field t fid, [])"
  using put_put [OF Write_law Write_law] put_law [OF Write_law]
  unfolding cw_WriteFieldBegin_def compact_field_def
  by (auto simp del: le_bytes.simps) (metis append_Cons append_Nil)+

lemma container_begin_law: "emits (cw_WriteContainerBegin B n t) (compact_container v n t, [])"
proof (cases "v = v2 \<and> n < 7")
  case True
  have "emits (cw_WriteContainerBegin B n t)
      ([type_code t OR ucast (push_bit 5 (n + 1))], [])"
    by (rule version_law [OF _ put_law [OF Write_law]]) (use True in \<open>simp add: cw_WriteContainerBegin_def\<close>)
  with True show ?thesis by (simp add: compact_container_def)
next
  case False
  have "emits (cw_WriteContainerBegin B n t) ([type_code t] @ varint (unat n), [])"
    by (rule version_law [OF _ put_put [OF Write_law Var32_law]])
      (use False in \<open>auto simp: cw_WriteContainerBegin_def\<close>)
  with False show ?thesis by (auto simp: compact_container_def)
qed

lemma write_law:
  assumes "is_basic x" and "wf_value mo x"
  shows "emits (cw_Write B x) (compact_basic x, [])"
proof -
  have s: "emits (cw_Write B (VString s)) (compact_basic (VString s), [])" if "length s < 2 ^ 32" for s
    using put_put [OF Var32_law [of "string_length s"] WriteStringData_appends [of s]] that
    by (simp add: string_length_small)
  have "emits (cw_Write B (VWString s)) (compact_basic (VWString s), [])" if "length s < 2 ^ 31" for s
    using put_put [OF Var32_law [of "string_length s"] WriteWStringData_appends [of s]] that
    by (simp add: string_length_small)
  with s assms show ?thesis
    by (cases x) (auto intro!: put_law stream_laws simp del: le_bytes.simps)
qed

end

sublocale compact_pass \<subseteq> protocol_writer "compact_writer B" "compact_format v" emits
proof (unfold_locales, goal_cases)
  case 2
  show ?case by (rule nil_law)
next
  case (3 m a m' b)
  then show ?case by (rule seq_law)
next
  case (4 m e md base)
  have "emits (seq m (cw_put (b_Write B [1]))) (fst e @ [1], snd e)"
    using seq_law [OF 4 put_law [OF Write_law, of "[1]"]] by (simp add: em_append_def)
  then show ?case using struct_law [OF 4]
    by (cases base) (simp_all add: cw_writer_defs compact_format_simps compact_struct_def)
next
  case (8 x fid md)
  from seq_law [OF field_begin_law write_law [OF 8]]
  show ?case by (simp add: cw_writer_defs cw_WriteField_def compact_format_simps em_append_def)
next
  case (10 k t n)
  from seq_law [OF put_law [OF Write_law [of "[type_code k]"]]
      put_put [OF Write_law [of "[type_code t]"] Var32_law [of n]]]
  show ?case by (simp add: cw_writer_defs compact_format_simps em_append_def)
qed (auto simp: cw_writer_defs compact_format_simps no_WriteFieldOmitted_def [abs_def] nil_law
      intro!: field_begin_law container_begin_law write_law put_law WriteBlob_law)

subsection \<open>The second pass\<close>

text \<open>The second pass takes the struct lengths of what it emits from the front of \<open>_it\<close>.\<close>

definition emits_pass1 :: "('b \<Rightarrow> byte list \<Rightarrow> bool) \<Rightarrow> u16 \<Rightarrow>
    ('b CompactBinaryWriter \<Rightarrow> 'b CompactBinaryWriter res) \<Rightarrow> emission \<Rightarrow> bool" where
  "emits_pass1 holds v m e \<longleftrightarrow>
     (\<forall>w c it. holds (cw_output w) c \<and> cw_version w = v \<and>
        cw_it w = (if v = v2 then Some (snd e @ it) else None) \<and> length c + length (fst e) < 2 ^ 31 \<longrightarrow>
        (\<exists>w'. m w = Inr w' \<and> holds (cw_output w') (c @ fst e) \<and> cw_version w' = v \<and>
           cw_it w' = (if v = v2 then Some it else None)))"

lemma emits_pass1D:
  "emits_pass1 holds v m e \<Longrightarrow> holds (cw_output w) c \<Longrightarrow> cw_version w = v \<Longrightarrow>
   cw_it w = (if v = v2 then Some (snd e @ it) else None) \<Longrightarrow> length c + length (fst e) < 2 ^ 31 \<Longrightarrow>
   \<exists>w'. m w = Inr w' \<and> holds (cw_output w') (c @ fst e) \<and> cw_version w' = v \<and>
      cw_it w' = (if v = v2 then Some it else None)"
  unfolding emits_pass1_def by blast

lemma emits_pass1_put:
  assumes "stream_appends holds f bs"
  shows "emits_pass1 holds v (cw_put f) (bs, [])"
  unfolding emits_pass1_def
proof (intro allI impI)
  fix w :: "'a CompactBinaryWriter" and c it
  assume a: "holds (cw_output w) c \<and> cw_version w = v \<and>
      cw_it w = (if v = v2 then Some (snd (bs, []) @ it) else None) \<and> length c + length (fst (bs, [] :: u32 list)) < 2 ^ 31"
  then obtain b where "f (cw_output w) = Inr b" "holds b (c @ bs)"
    using stream_appendsD [OF assms, of "cw_output w" c] by auto
  with a show "\<exists>w'. cw_put f w = Inr w' \<and> holds (cw_output w') (c @ fst (bs, [] :: u32 list)) \<and>
      cw_version w' = v \<and> cw_it w' = (if v = v2 then Some it else None)"
    by (simp add: cw_put_def)
qed

lemma emits_pass1_seq:
  assumes "emits_pass1 holds v m a" and "emits_pass1 holds v m' b"
  shows "emits_pass1 holds v (seq m m') (em_append a b)"
  unfolding emits_pass1_def
proof (intro allI impI)
  fix w :: "'a CompactBinaryWriter" and c it
  assume h: "holds (cw_output w) c \<and> cw_version w = v \<and>
      cw_it w = (if v = v2 then Some (snd (em_append a b) @ it) else None) \<and>
      length c + length (fst (em_append a b)) < 2 ^ 31"
  then obtain w1 where w1: "m w = Inr w1" "holds (cw_output w1) (c @ fst a)" "cw_version w1 = v"
      "cw_it w1 = (if v = v2 then Some (snd b @ it) else None)"
    using emits_pass1D [OF assms(1), of w c "snd b @ it"] by (auto split: if_splits)
  with h emits_pass1D [OF assms(2) w1(2-4)]
  show "\<exists>w'. seq m m' w = Inr w' \<and> holds (cw_output w') (c @ fst (em_append a b)) \<and>
      cw_version w' = v \<and> cw_it w' = (if v = v2 then Some it else None)"
    by (auto simp: seq_def)
qed

text \<open>A struct: the length is taken from the front and written before the body.\<close>

context output_stream
begin

lemma emits_pass1_struct:
  assumes m: "emits_pass1 holds v m e" and plain: "b_Counter B = None"
  shows "emits_pass1 holds v
    (seq (cw_LengthBegin B) (seq m (seq (cw_put (b_Write B [0])) (cw_LengthEnd B)))) (compact_struct v False e)"
proof -
  have "cw_LengthEnd B = Inr" using plain by (simp add: cw_LengthEnd_def [abs_def])
  moreover have body: "emits_pass1 holds v (seq m (cw_put (b_Write B [0]))) (fst e @ [0], snd e)"
    using emits_pass1_seq [OF m emits_pass1_put [OF Write_law [of "[0]"], of v]] by (simp add: em_append_def)
  moreover have "emits_pass1 holds v (seq (cw_LengthBegin B) (seq m (cw_put (b_Write B [0]))))
      (compact_struct v False e)"
  proof (cases "v = v2")
    case False
    have "cw_LengthBegin B w = Inr w" if "cw_version w = v" for w :: "'b CompactBinaryWriter"
      using plain False that by (simp add: cw_LengthBegin_def)
    then show ?thesis
      using body False unfolding emits_pass1_def compact_struct_def by (auto simp: seq_def)
  next
    case True
    let ?n = "length (fst e) + 1"
    show ?thesis
      unfolding emits_pass1_def
    proof (intro allI impI)
      fix w :: "'b CompactBinaryWriter" and c it
      assume h: "holds (cw_output w) c \<and> cw_version w = v \<and>
          cw_it w = (if v = v2 then Some (snd (compact_struct v False e) @ it) else None) \<and>
          length c + length (fst (compact_struct v False e)) < 2 ^ 31"
      then have n: "unat (of_nat ?n :: u32) = ?n"
        by (intro unat_of_nat_small) (simp add: compact_struct_def True)
      let ?w0 = "w\<lparr>cw_it := Some (snd e @ it)\<rparr>"
      have "emits_pass1 holds v (cw_put (b_WriteVariableUnsigned32 B (of_nat ?n))) (varint ?n, [])"
        using emits_pass1_put [OF Var32_law [of "of_nat ?n"], of v] by (simp only: n)
      then have "\<exists>w1. cw_put (b_WriteVariableUnsigned32 B (of_nat ?n)) ?w0 = Inr w1 \<and>
          holds (cw_output w1) (c @ varint ?n) \<and> cw_version w1 = v \<and> cw_it w1 = Some (snd e @ it)"
        using h True emits_pass1D [of holds v _ "(varint ?n, [])" ?w0 c "snd e @ it"]
        by (simp add: compact_struct_def)
      then obtain w1 where w1: "cw_put (b_WriteVariableUnsigned32 B (of_nat ?n)) ?w0 = Inr w1"
          "holds (cw_output w1) (c @ varint ?n)" "cw_version w1 = v" "cw_it w1 = Some (snd e @ it)" by blast
      have "cw_LengthBegin B w = Inr w1"
        using plain h True w1(1) by (simp add: cw_LengthBegin_def compact_struct_def)
      with h True w1 emits_pass1D [OF body w1(2,3)]
      show "\<exists>w'. seq (cw_LengthBegin B) (seq m (cw_put (b_Write B [0]))) w = Inr w' \<and>
          holds (cw_output w') (c @ fst (compact_struct v False e)) \<and> cw_version w' = v \<and>
          cw_it w' = (if v = v2 then Some it else None)"
        by (simp add: seq_def compact_struct_def)
    qed
  qed
  ultimately show ?thesis by simp
qed

end

locale plain_stream = output_stream +
  assumes no_Counter: "b_Counter B = None"

sublocale plain_stream \<subseteq> pass1: compact_pass B holds v "emits_pass1 holds v" for v
proof (unfold_locales, goal_cases)
  case (2)
  show ?case by (simp add: emits_pass1_def)
next
  case (4 m m' e)
  then show ?case by (simp add: emits_pass1_def)
qed (rule emits_pass1_put emits_pass1_seq emits_pass1_struct [OF _ no_Counter]; assumption)+

interpretation plain: plain_stream memory_stream os_holds
  by unfold_locales (simp add: memory_stream_def)

subsection \<open>The first pass\<close>

text \<open>
  The first pass counts the bytes, appends the struct lengths of what it emits to \<open>_lengths\<close> and
  leaves the stack of open structs as it was.
\<close>

definition pass0_ok :: "OutputCounter CompactBinaryWriter \<Rightarrow> bool" where
  "pass0_ok w \<longleftrightarrow> cw_version w = v2 \<and> sa_ok (cw_stack w) \<and> sa_ok (cw_lengths w)"

definition pass0_room :: "OutputCounter CompactBinaryWriter \<Rightarrow> byte list \<Rightarrow> emission \<Rightarrow> bool" where
  "pass0_room w c e \<longleftrightarrow>
     length c + length (fst e) < 2 ^ 31 \<and> length (sa_list (cw_lengths w)) + length (snd e) < 2 ^ 31 \<and>
     length (sa_list (cw_stack w)) + length (snd e) < 2 ^ 31"

definition pass0_done :: "OutputCounter CompactBinaryWriter \<Rightarrow> byte list \<Rightarrow> emission \<Rightarrow>
    OutputCounter CompactBinaryWriter \<Rightarrow> bool" where
  "pass0_done w c e w' \<longleftrightarrow>
     oc_holds (cw_output w') (c @ fst e) \<and> pass0_ok w' \<and>
     sa_list (cw_lengths w') = sa_list (cw_lengths w) @ snd e \<and>
     sa_list (cw_stack w') = sa_list (cw_stack w)"

definition emits_pass0 :: "(OutputCounter CompactBinaryWriter \<Rightarrow> OutputCounter CompactBinaryWriter res) \<Rightarrow>
    emission \<Rightarrow> bool" where
  "emits_pass0 m e \<longleftrightarrow>
     (\<forall>w c. oc_holds (cw_output w) c \<and> pass0_ok w \<and> pass0_room w c e \<longrightarrow>
        (\<exists>w'. m w = Inr w' \<and> pass0_done w c e w'))"

lemma emits_pass0D:
  "emits_pass0 m e \<Longrightarrow> oc_holds (cw_output w) c \<Longrightarrow> pass0_ok w \<Longrightarrow> pass0_room w c e \<Longrightarrow>
   \<exists>w'. m w = Inr w' \<and> pass0_done w c e w'"
  unfolding emits_pass0_def by blast

lemma emits_pass0_put:
  assumes "stream_appends oc_holds f bs"
  shows "emits_pass0 (cw_put f) (bs, [])"
  unfolding emits_pass0_def
proof (intro allI impI)
  fix w c assume a: "oc_holds (cw_output w) c \<and> pass0_ok w \<and> pass0_room w c (bs, [])"
  then obtain b where "f (cw_output w) = Inr b" "oc_holds b (c @ bs)"
    using stream_appendsD [OF assms, of "cw_output w" c] by (auto simp: pass0_room_def)
  with a show "\<exists>w'. cw_put f w = Inr w' \<and> pass0_done w c (bs, []) w'"
    by (simp add: cw_put_def pass0_done_def pass0_ok_def)
qed

lemma emits_pass0_seq:
  assumes "emits_pass0 m a" and "emits_pass0 m' b"
  shows "emits_pass0 (seq m m') (em_append a b)"
  unfolding emits_pass0_def
proof (intro allI impI)
  fix w c assume h: "oc_holds (cw_output w) c \<and> pass0_ok w \<and> pass0_room w c (em_append a b)"
  then obtain w1 where w1: "m w = Inr w1" "pass0_done w c a w1"
    using emits_pass0D [OF assms(1), of w c] by (auto simp: pass0_room_def)
  moreover have "pass0_room w1 (c @ fst a) b"
    using h w1(2) by (auto simp: pass0_room_def pass0_done_def)
  ultimately obtain w2 where "m' w1 = Inr w2" "pass0_done w1 (c @ fst a) b w2"
    using emits_pass0D [OF assms(2), of w1 "c @ fst a"] by (auto simp: pass0_done_def)
  with w1 show "\<exists>w'. seq m m' w = Inr w' \<and> pass0_done w c (em_append a b) w'"
    by (auto simp: seq_def pass0_done_def)
qed

text \<open>\<open>LengthBegin\<close> records where the struct starts, \<open>LengthEnd\<close> replaces that by its length.\<close>

lemma pass0_LengthBegin:
  assumes "oc_holds (cw_output w) c" and "pass0_ok w"
    and "length (sa_list (cw_lengths w)) < 2 ^ 31" and "length (sa_list (cw_stack w)) < 2 ^ 31"
  shows "\<exists>w'. cw_LengthBegin counter_stream w = Inr w' \<and> oc_holds (cw_output w') c \<and> pass0_ok w' \<and>
    sa_list (cw_lengths w') = sa_list (cw_lengths w) @ [of_nat (length c)] \<and>
    sa_list (cw_stack w') = sa_list (cw_stack w) @ [of_nat (length (sa_list (cw_lengths w)))]"
proof -
  have sz: "sa_size (cw_lengths w) = of_nat (length (sa_list (cw_lengths w)))"
    using assms(2) by (simp add: pass0_ok_def length_sa_list)
  have cnt: "oc_GetCount (cw_output w) = of_nat (length c)"
    using assms(1) by (metis oc_GetCount_def oc_holds_def of_nat_unat ucast_id)
  obtain st where "sa_push (sa_size (cw_lengths w)) (cw_stack w) = Inr st" "sa_ok st"
      "sa_list st = sa_list (cw_stack w) @ [sa_size (cw_lengths w)]"
    using sa.push_law [of "cw_stack w"] assms by (auto simp: pass0_ok_def)
  moreover obtain le where "sa_push (oc_GetCount (cw_output w)) (cw_lengths w) = Inr le" "sa_ok le"
      "sa_list le = sa_list (cw_lengths w) @ [oc_GetCount (cw_output w)]"
    using sa.push_law [of "cw_lengths w"] assms by (auto simp: pass0_ok_def)
  ultimately show ?thesis
    using assms(1,2) by (simp add: cw_LengthBegin_def counter_stream_def pass0_ok_def sz cnt)
qed

lemma pass0_LengthEnd:
  assumes c: "oc_holds (cw_output w) (c @ bs)" and ok: "pass0_ok w"
    and le: "sa_list (cw_lengths w) = ls @ of_nat (length c) # ls'"
    and st: "sa_list (cw_stack w) = st @ [of_nat (length ls)]"
    and room: "length c + length bs + length (varint (length bs)) < 2 ^ 31" "length ls < 2 ^ 31"
  shows "\<exists>w'. cw_LengthEnd counter_stream w = Inr w' \<and>
    oc_holds (cw_output w') (c @ varint (length bs) @ bs) \<and> pass0_ok w' \<and>
    sa_list (cw_lengths w') = ls @ of_nat (length bs) # ls' \<and> sa_list (cw_stack w') = st"
proof -
  let ?i = "of_nat (length ls) :: u32" and ?len = "of_nat (length bs) :: u32"
  have i: "unat ?i = length ls" using room(2) by (intro unat_of_nat_small) simp
  have len: "unat ?len = length bs" using room(1) by (intro unat_of_nat_small) simp
  have cnt: "oc_GetCount (cw_output w) - of_nat (length c) = ?len"
  proof -
    have "oc_GetCount (cw_output w) = of_nat (length (c @ bs))"
      using c by (metis oc_GetCount_def oc_holds_def of_nat_unat ucast_id)
    then show ?thesis by simp
  qed
  obtain st' where st': "sa_pop (cw_stack w) = Inr (?i, st')" "sa_ok st'" "sa_list st' = st"
    using sa.pop_law [OF _ st] ok by (auto simp: pass0_ok_def)
  have ix: "sa_index ?i (cw_lengths w) = Inr (of_nat (length c))"
    using sa_index_nth [of "cw_lengths w" ?i] ok le i by (simp add: pass0_ok_def)
  obtain le' where le': "sa_store (unat ?i) ?len (cw_lengths w) = Inr le'" "sa_ok le'"
      "sa_list le' = ls @ ?len # ls'"
    using sa.store_law [of "cw_lengths w" "unat ?i" ?len] ok le i by (auto simp: pass0_ok_def)
  have "stream_appends oc_holds (b_WriteVariableUnsigned32 counter_stream ?len) (varint (length bs))"
    using cnt.Var32_law [of ?len] by (simp only: len)
  from stream_appendsD [OF this c] room(1)
  obtain b where "b_WriteVariableUnsigned32 counter_stream ?len (cw_output w) = Inr b"
      "oc_holds b ((c @ bs) @ varint (length bs))" by auto
  with st' ix le' ok cnt show ?thesis
    by (simp add: cw_LengthEnd_def counter_stream_def cw_put_def pass0_ok_def Let_def oc_holds_def)
qed

lemma emits_pass0_struct:
  assumes m: "emits_pass0 m e"
  shows "emits_pass0 (seq (cw_LengthBegin counter_stream)
      (seq m (seq (cw_put (b_Write counter_stream [0])) (cw_LengthEnd counter_stream))))
    (compact_struct v2 False e)"
  unfolding emits_pass0_def
proof (intro allI impI)
  fix w c assume h: "oc_holds (cw_output w) c \<and> pass0_ok w \<and> pass0_room w c (compact_struct v2 False e)"
  let ?ls = "sa_list (cw_lengths w)" and ?st = "sa_list (cw_stack w)" and ?bs = "fst e @ [0]"
  have room: "length c + length ?bs + length (varint (length ?bs)) < 2 ^ 31"
      "length ?ls + length (snd e) + 1 < 2 ^ 31" "length ?st + length (snd e) + 1 < 2 ^ 31"
    using h by (auto simp: pass0_room_def compact_struct_def)
  have body: "emits_pass0 (seq m (cw_put (b_Write counter_stream [0]))) (?bs, snd e)"
    using emits_pass0_seq [OF m emits_pass0_put [OF cnt.Write_law [of "[0]"]]] by (simp add: em_append_def)
  obtain w1 where w1: "cw_LengthBegin counter_stream w = Inr w1" "oc_holds (cw_output w1) c" "pass0_ok w1"
      "sa_list (cw_lengths w1) = ?ls @ [of_nat (length c)]" "sa_list (cw_stack w1) = ?st @ [of_nat (length ?ls)]"
    using pass0_LengthBegin [of w c] h room by auto
  then obtain w2 where w2: "seq m (cw_put (b_Write counter_stream [0])) w1 = Inr w2"
      "pass0_done w1 c (?bs, snd e) w2"
    using emits_pass0D [OF body w1(2,3)] room by (auto simp: pass0_room_def)
  then obtain w3 where "cw_LengthEnd counter_stream w2 = Inr w3"
      "oc_holds (cw_output w3) (c @ varint (length ?bs) @ ?bs)" "pass0_ok w3"
      "sa_list (cw_lengths w3) = ?ls @ of_nat (length ?bs) # snd e" "sa_list (cw_stack w3) = ?st"
    using pass0_LengthEnd [of w2 c ?bs ?ls "snd e" ?st] w1 room by (auto simp: pass0_done_def)
  with w1 w2 show "\<exists>w'. seq (cw_LengthBegin counter_stream)
      (seq m (seq (cw_put (b_Write counter_stream [0])) (cw_LengthEnd counter_stream))) w = Inr w' \<and>
      pass0_done w c (compact_struct v2 False e) w'"
    by (simp add: seq_def seq_assoc [symmetric] pass0_done_def compact_struct_def)
qed

interpretation pass0: compact_pass counter_stream oc_holds v2 emits_pass0
proof (unfold_locales, goal_cases)
  case 2
  show ?case by (simp add: emits_pass0_def pass0_done_def)
next
  case (4 m m' e)
  then show ?case by (simp add: emits_pass0_def pass0_ok_def)
qed (rule emits_pass0_put emits_pass0_seq emits_pass0_struct; assumption)+

section \<open>The two passes agree\<close>

text \<open>Every struct emits at least its stop byte, so there are no more lengths than bytes.\<close>

lemma enc_lengths_le_bytes:
  "length (snd (enc_value (compact_format v) x)) \<le> length (fst (enc_value (compact_format v) x))"
  "length (snd (enc_items (compact_format v) xs)) \<le> length (fst (enc_items (compact_format v) xs))"
  "length (snd (enc_pairs (compact_format v) kvs)) \<le> length (fst (enc_pairs (compact_format v) kvs))"
  "length (snd (enc_field (compact_format v) f)) \<le> length (fst (enc_field (compact_format v) f))"
  "length (snd (enc_fields (compact_format v) fs)) \<le> length (fst (enc_fields (compact_format v) fs))"
  "length (snd (enc_struct (compact_format v) base s)) \<le> length (fst (enc_struct (compact_format v) base s))"
proof (induction "compact_format v" x and "compact_format v" xs and "compact_format v" kvs
    and "compact_format v" f and "compact_format v" fs and "compact_format v" base s
    rule: enc_value_enc_items_enc_pairs_enc_field_enc_fields_enc_struct.induct)
qed (auto simp: compact_format_simps compact_struct_def)

text \<open>
  What serialization with the compact writer does, whatever the version: it appends the encoding
  of the struct and leaves the writer ready for the next one.
\<close>

context plain_stream
begin

lemma pass1_Apply:
  assumes "wf_struct True s" and "holds (cw_output w) c" and "cw_version w = v"
    and "cw_it w = (if v = v2 then Some (snd (enc_struct (compact_format v) False s) @ it) else None)"
    and "length c + length (fst (enc_struct (compact_format v) False s)) < 2 ^ 31"
  shows "\<exists>w'. Serializer_Apply (compact_writer B) False s w = Inr w' \<and>
    holds (cw_output w') (c @ fst (enc_struct (compact_format v) False s)) \<and> cw_version w' = v \<and>
    cw_it w' = (if v = v2 then Some it else None)"
proof -
  have "emits_pass1 holds v (Serializer_Apply (compact_writer B) False s) (enc_struct (compact_format v) False s)"
    using assms(1) by (intro pass1.emits_Serializer_Apply) (simp add: compact_writer_def)
  from emits_pass1D [OF this assms(2-5)] show ?thesis .
qed

end

text \<open>The first pass over anything that emits \<open>e\<close>, from a new writer, records the lengths of \<open>e\<close>.\<close>

lemma pass0_lengths:
  assumes m: "emits_pass0 m e" and bytes: "length (fst e) < 2 ^ 31" and le: "length (snd e) \<le> length (fst e)"
  shows "\<exists>w junk. m (CompactBinaryWriter_init noinit OutputCounter_init v2) = Inr w \<and>
    sa_data (cw_lengths w) = snd e @ junk \<and> unat (oc_GetCount (cw_output w)) = length (fst e)"
proof -
  let ?w = "CompactBinaryWriter_init noinit OutputCounter_init v2"
  have "oc_holds (cw_output ?w) []" "pass0_ok ?w"
    by (simp_all add: CompactBinaryWriter_init_def oc_holds_def OutputCounter_init_def pass0_ok_def sa_ok_empty)
  moreover have "pass0_room ?w [] e"
    using bytes le by (simp add: pass0_room_def CompactBinaryWriter_init_def sa_ok_empty)
  ultimately obtain w where w: "m ?w = Inr w" "pass0_done ?w [] e w"
    using emits_pass0D [OF m] by blast
  moreover from w(2) have "sa_list (cw_lengths w) = snd e" and "oc_holds (cw_output w) (fst e)"
    by (simp_all add: pass0_done_def CompactBinaryWriter_init_def sa_ok_empty)
  moreover have "sa_data a = sa_list a @ drop (unat (sa_size a)) (sa_data a)" for a :: "u32 SimpleArray"
    by (simp add: sa_list_def)
  ultimately show ?thesis by (metis oc_GetCount_def oc_holds_def)
qed

lemma pass0_Apply:
  assumes "wf_struct True s" and "length (fst (enc_struct (compact_format v2) False s)) < 2 ^ 31"
  shows "\<exists>w junk. Serializer_Apply (compact_writer counter_stream) False s
      (CompactBinaryWriter_init noinit OutputCounter_init v2) = Inr w \<and>
    sa_data (cw_lengths w) = snd (enc_struct (compact_format v2) False s) @ junk \<and>
    unat (oc_GetCount (cw_output w)) = length (fst (enc_struct (compact_format v2) False s))"
proof (rule pass0_lengths [OF _ assms(2) enc_lengths_le_bytes(6)])
  show "emits_pass0 (Serializer_Apply (compact_writer counter_stream) False s) (enc_struct (compact_format v2) False s)"
    using assms(1) by (intro pass0.emits_Serializer_Apply) (simp add: compact_writer_def)
qed

context plain_stream
begin

lemma cw_Serialize_encodes:
  assumes wf: "wf_struct True s" and w: "holds (cw_output w) c" "cw_it w = None" "cw_version w = v"
    and room: "length c + length (fst (enc_struct (compact_format v) False s)) < 2 ^ 31"
  shows "\<exists>w'. cw_Serialize noinit B s w = Inr w' \<and>
    holds (cw_output w') (c @ fst (enc_struct (compact_format v) False s)) \<and>
    cw_it w' = None \<and> cw_version w' = v"
proof (cases "v = v2")
  case True
  with room obtain p junk where p: "Serializer_Apply (compact_writer counter_stream) False s
      (CompactBinaryWriter_init noinit OutputCounter_init v2) = Inr p"
      "sa_data (cw_lengths p) = snd (enc_struct (compact_format v2) False s) @ junk"
    using pass0_Apply [OF wf, of noinit] by auto
  with True w room pass1_Apply [OF wf, of "cw_WithPass0 p w" c v junk]
  show ?thesis by (auto simp: cw_Serialize_def cw_NeedPass0_def DoublePassApply_def cw_WithPass0_def)
next
  case False
  with w room pass1_Apply [OF wf, of w c v] show ?thesis
    by (auto simp: cw_Serialize_def cw_NeedPass0_def)
qed

end

end
