(* ===== verification/Compact_Reader.thy ===== *)
theory Compact_Reader
  imports Compact_Writer
begin

text \<open>
  The reader of the Compact Binary protocol, \<^verbatim>\<open>src/cpp/inc/bond/protocol/compact_binary.h\<close>, over an
  input buffer. The member \<open>_version\<close> is set by the constructor and by \<open>ReadVersion\<close> only, so the
  other operations take it as an argument. Skipping is driven by fuel as in theory \<open>Fast_Binary\<close>,
  with the same bound; in version 2 a struct is skipped by its length.
\<close>

unbundle bit_operations_syntax

section \<open>Operations\<close>

definition cr_ReadVersion :: "(InputBuffer, bool \<times> u16) st" where
  "cr_ReadVersion =
     bind (ib_read_le 2) (\<lambda>magic_value. bind (ib_read_le 2) (\<lambda>version.
       ret (magic_value = compact_magic \<and> version \<le> v2, version)))"

definition cr_ReadStructBegin :: "u16 \<Rightarrow> bool \<Rightarrow> (InputBuffer, unit) st" where
  "cr_ReadStructBegin version base =
     (if \<not> base \<and> version = v2 then bind (ReadVariableUnsigned :: (InputBuffer, u32) st) (\<lambda>_. ret ())
      else ret ())"

definition cr_ReadFieldBegin :: "(InputBuffer, BondDataType \<times> u16) st" where
  "cr_ReadFieldBegin =
     bind ib_read_u8 (\<lambda>raw.
       let type = type_of_code (raw AND 0x1f); fid = (ucast (raw AND 0xe0) :: u16)
       in if fid = 0xe0 then bind (ib_read_le 2) (\<lambda>fid. ret (type, fid))
          else if fid = 0xc0 then bind ib_read_u8 (\<lambda>raw. ret (type, ucast raw))
          else ret (type, drop_bit 5 fid))"

definition cr_ReadContainerBegin :: "u16 \<Rightarrow> (InputBuffer, u32 \<times> BondDataType) st" where
  "cr_ReadContainerBegin version =
     bind ib_read_u8 (\<lambda>raw.
       let type = type_of_code (raw AND 0x1f)
       in if version = v2 \<and> raw AND 0xe0 \<noteq> 0 then ret (ucast (drop_bit 5 raw) - 1, type)
          else bind ReadVariableUnsigned (\<lambda>sz. ret (sz, type)))"

definition cr_ReadContainerBegin2 :: "(InputBuffer, u32 \<times> BondDataType \<times> BondDataType) st" where
  "cr_ReadContainerBegin2 =
     bind ib_read_u8 (\<lambda>k. bind ib_read_u8 (\<lambda>t. bind ReadVariableUnsigned (\<lambda>sz.
       ret (sz, type_of_code k, type_of_code t))))"

fun cr_Read :: "BondDataType \<Rightarrow> (InputBuffer, bvalue) st" where
  "cr_Read BT_UINT16 = bind ReadVariableUnsigned (\<lambda>x. ret (VUInt16 x))"
| "cr_Read BT_UINT32 = bind ReadVariableUnsigned (\<lambda>x. ret (VUInt32 x))"
| "cr_Read BT_UINT64 = bind ReadVariableUnsigned (\<lambda>x. ret (VUInt64 x))"
| "cr_Read BT_INT16 = bind ReadVariableUnsigned (\<lambda>x. ret (VInt16 (DecodeZigZag x)))"
| "cr_Read BT_INT32 = bind ReadVariableUnsigned (\<lambda>x. ret (VInt32 (DecodeZigZag x)))"
| "cr_Read BT_INT64 = bind ReadVariableUnsigned (\<lambda>x. ret (VInt64 (DecodeZigZag x)))"
| "cr_Read BT_STRING =
     bind ReadVariableUnsigned (\<lambda>len. bind (ReadStringData len) (\<lambda>s. ret (VString s)))"
| "cr_Read BT_WSTRING =
     bind ReadVariableUnsigned (\<lambda>len. bind (ReadWStringData len) (\<lambda>s. ret (VWString s)))"
| "cr_Read t = read_object t"

section \<open>Skipping\<close>

text \<open>\<open>SkipType<BT_UINT64>()\<close>: any variable-length integer is read as 64 bits.\<close>

definition cr_SkipVarint :: "(InputBuffer, unit) st" where
  "cr_SkipVarint = bind (ReadVariableUnsigned :: (InputBuffer, u64) st) (\<lambda>_. ret ())"

definition cr_SkipStructV2 :: "(InputBuffer, unit) st" where
  "cr_SkipStructV2 = bind ReadVariableUnsigned (\<lambda>len. ib_skip len)"

text \<open>\<open>SkipType(type, size)\<close>, given \<open>SkipType(type)\<close> for the types that are skipped one by one\<close>

definition cr_SkipTypes ::
    "(BondDataType \<Rightarrow> (InputBuffer, unit) st) \<Rightarrow> BondDataType \<Rightarrow> u32 \<Rightarrow> (InputBuffer, unit) st" where
  "cr_SkipTypes skip type sz =
     (case type of
        BT_BOOL \<Rightarrow> skip_fixed sz 1
      | BT_UINT8 \<Rightarrow> skip_fixed sz 1
      | BT_INT8 \<Rightarrow> skip_fixed sz 1
      | BT_UINT64 \<Rightarrow> repeat_st (unat sz) (skip BT_UINT64)
      | BT_UINT32 \<Rightarrow> repeat_st (unat sz) (skip BT_UINT64)
      | BT_UINT16 \<Rightarrow> repeat_st (unat sz) (skip BT_UINT64)
      | BT_INT64 \<Rightarrow> repeat_st (unat sz) (skip BT_UINT64)
      | BT_INT32 \<Rightarrow> repeat_st (unat sz) (skip BT_UINT64)
      | BT_INT16 \<Rightarrow> repeat_st (unat sz) (skip BT_UINT64)
      | BT_FLOAT \<Rightarrow> skip_fixed sz 4
      | BT_DOUBLE \<Rightarrow> skip_fixed sz 8
      | BT_STRING \<Rightarrow> repeat_st (unat sz) (skip type)
      | BT_WSTRING \<Rightarrow> repeat_st (unat sz) (skip type)
      | BT_SET \<Rightarrow> repeat_st (unat sz) (skip BT_SET)
      | BT_LIST \<Rightarrow> repeat_st (unat sz) (skip BT_SET)
      | BT_MAP \<Rightarrow> repeat_st (unat sz) (skip type)
      | BT_STRUCT \<Rightarrow> repeat_st (unat sz) (skip type)
      | _ \<Rightarrow> ret ())"

fun cr_Skip :: "u16 \<Rightarrow> nat \<Rightarrow> BondDataType \<Rightarrow> (InputBuffer, unit) st"
  and cr_SkipStructV1 :: "u16 \<Rightarrow> nat \<Rightarrow> (InputBuffer, unit) st" where
  "cr_Skip version 0 type = throw OutOfFuel"
| "cr_Skip version (Suc n) type =
     (case type of
        BT_BOOL \<Rightarrow> skip_fixed 1 1
      | BT_UINT8 \<Rightarrow> skip_fixed 1 1
      | BT_INT8 \<Rightarrow> skip_fixed 1 1
      | BT_UINT64 \<Rightarrow> cr_SkipVarint
      | BT_UINT32 \<Rightarrow> cr_SkipVarint
      | BT_UINT16 \<Rightarrow> cr_SkipVarint
      | BT_INT64 \<Rightarrow> cr_SkipVarint
      | BT_INT32 \<Rightarrow> cr_SkipVarint
      | BT_INT16 \<Rightarrow> cr_SkipVarint
      | BT_FLOAT \<Rightarrow> skip_fixed 1 4
      | BT_DOUBLE \<Rightarrow> skip_fixed 1 8
      | BT_STRING \<Rightarrow> bind ReadVariableUnsigned (\<lambda>len. ib_skip len)
      | BT_WSTRING \<Rightarrow> bind ReadVariableUnsigned (\<lambda>len. skip_fixed len 2)
      | BT_SET \<Rightarrow> bind (cr_ReadContainerBegin version) (\<lambda>(sz, t). cr_SkipTypes (cr_Skip version n) t sz)
      | BT_LIST \<Rightarrow> bind (cr_ReadContainerBegin version) (\<lambda>(sz, t). cr_SkipTypes (cr_Skip version n) t sz)
      | BT_MAP \<Rightarrow> bind cr_ReadContainerBegin2 (\<lambda>(sz, k, t).
          repeat_st (unat sz) (bind (cr_Skip version n k) (\<lambda>_. cr_Skip version n t)))
      | BT_STRUCT \<Rightarrow>
          if version = v2 then cr_SkipStructV2
          else bind (cr_ReadStructBegin version False) (\<lambda>_. cr_SkipStructV1 version n)
      | _ \<Rightarrow> ret ())"
| "cr_SkipStructV1 version 0 = throw OutOfFuel"
| "cr_SkipStructV1 version (Suc n) =
     bind cr_ReadFieldBegin (\<lambda>(type, fid).
       if type = BT_STOP then ret ()
       else if type = BT_STOP_BASE
       then bind (cr_ReadStructBegin version False) (\<lambda>_. cr_SkipStructV1 version n)
       else bind (cr_Skip version n type) (\<lambda>_. cr_SkipStructV1 version n))"

text \<open>\<open>Skip(BondDataType)\<close> with the fuel that is always enough\<close>

definition cr_SkipType :: "u16 \<Rightarrow> BondDataType \<Rightarrow> (InputBuffer, unit) st" where
  "cr_SkipType version type ib = cr_Skip version (2 * length (ib_rest ib) + 2) type ib"

text \<open>\<open>is_protocol_version_same\<close>\<close>

definition is_protocol_version_same :: "u16 \<Rightarrow> 'b CompactBinaryWriter \<Rightarrow> bool" where
  "is_protocol_version_same reader_version w \<longleftrightarrow> reader_version = cw_version w"

section \<open>Skipping is safe and terminates on arbitrary input\<close>

lemma reads_safely_cr_ReadFieldBegin: "reads_safely r 1 cr_ReadFieldBegin"
  unfolding cr_ReadFieldBegin_def Let_def
proof (intro reads_safely_bind0 reads_safely_u8)
  fix raw
  have "reads_safely r 0 (bind (ib_read_le 2) (\<lambda>fid :: u16. ret (type_of_code (raw AND 0x1f), fid)))"
    by (intro reads_safely_bind0 reads_safely_ret reads_safely_any [OF reads_safely_le])
  moreover have "reads_safely r 0 (bind ib_read_u8 (\<lambda>x. ret (type_of_code (raw AND 0x1f), ucast x :: u16)))"
    by (intro reads_safely_bind0 reads_safely_ret reads_safely_any [OF reads_safely_u8])
  ultimately show "reads_safely r 0
      (if (ucast (raw AND 0xe0) :: u16) = 0xe0
       then bind (ib_read_le 2) (\<lambda>fid. ret (type_of_code (raw AND 0x1f), fid))
       else if (ucast (raw AND 0xe0) :: u16) = 0xc0
       then bind ib_read_u8 (\<lambda>x. ret (type_of_code (raw AND 0x1f), ucast x))
       else ret (type_of_code (raw AND 0x1f), drop_bit 5 (ucast (raw AND 0xe0) :: u16)))"
    by (auto simp: reads_safely_ret)
qed

lemma reads_safely_cr_ReadContainerBegin: "reads_safely r 1 (cr_ReadContainerBegin version)"
  unfolding cr_ReadContainerBegin_def Let_def
  by (intro reads_safely_bind0 reads_safely_u8)
    (auto intro!: reads_safely_bind0 reads_safely_ret reads_safely_any [OF reads_safely_varint32])

lemma reads_safely_cr_ReadContainerBegin2: "reads_safely r 1 cr_ReadContainerBegin2"
  unfolding cr_ReadContainerBegin2_def
  by (intro reads_safely_bind0 reads_safely_u8 reads_safely_ret
      reads_safely_any [OF reads_safely_varint32] reads_safely_any [OF reads_safely_u8])

lemma reads_safely_cr_ReadStructBegin: "reads_safely r 0 (cr_ReadStructBegin version base)"
  unfolding cr_ReadStructBegin_def
  by (auto intro!: reads_safely_bind0 reads_safely_ret reads_safely_any [OF reads_safely_varint32])

lemma reads_safely_cr_SkipVarint: "reads_safely r 0 cr_SkipVarint"
  unfolding cr_SkipVarint_def
  by (intro reads_safely_bind0 reads_safely_ret reads_safely_any [OF reads_safely_varint]) simp

lemma reads_safely_length_skip:
  "reads_safely r 0 (bind ReadVariableUnsigned (\<lambda>len. ib_skip len))"
  "reads_safely r 0 (bind ReadVariableUnsigned (\<lambda>len. skip_fixed len 2))"
  by (intro reads_safely_bind0 reads_safely_any [OF reads_safely_varint32]
      reads_safely_skip reads_safely_skip_fixed)+

lemma reads_safely_cr_SkipTypes:
  assumes "\<And>t. reads_safely r 0 (skip t)"
  shows "reads_safely r 0 (cr_SkipTypes skip t sz)"
  using assms
  by (cases t) (simp_all add: cr_SkipTypes_def reads_safely_skip_fixed reads_safely_ret reads_safely_repeat)

lemma reads_safely_cr_Skip_step:
  assumes skip: "\<And>t. 0 < r \<Longrightarrow> reads_safely (r - 1) 0 (cr_Skip version n t)"
    and struct: "reads_safely r 0 (cr_SkipStructV1 version n)"
  shows "reads_safely r 0 (cr_Skip version (Suc n) t)"
proof -
  have list: "reads_safely r 0
      (bind (cr_ReadContainerBegin version) (\<lambda>(sz, t). cr_SkipTypes (cr_Skip version n) t sz))"
    by (rule reads_safely_then [OF reads_safely_cr_ReadContainerBegin])
      (use skip in \<open>auto intro!: reads_safely_cr_SkipTypes\<close>)
  have "reads_safely r 0 (bind cr_ReadContainerBegin2 (\<lambda>(sz, k, t).
      repeat_st (unat sz) (bind (cr_Skip version n k) (\<lambda>_. cr_Skip version n t))))"
    by (rule reads_safely_then [OF reads_safely_cr_ReadContainerBegin2])
      (use skip in \<open>auto intro!: reads_safely_repeat reads_safely_bind0\<close>)
  with list struct show ?thesis
    by (cases t) (simp_all add: reads_safely_skip_fixed reads_safely_ret reads_safely_length_skip
        reads_safely_cr_SkipVarint cr_SkipStructV2_def reads_safely_bind0 reads_safely_cr_ReadStructBegin)
qed

lemma reads_safely_cr_Skip:
  "(2 * r + 1 < n \<longrightarrow> reads_safely r 0 (cr_Skip version n t)) \<and>
   (2 * r < n \<longrightarrow> reads_safely r 0 (cr_SkipStructV1 version n))"
proof (induction n arbitrary: r t)
  case 0
  then show ?case by simp
next
  case (Suc n)
  have "reads_safely r 0 (cr_Skip version (Suc n) t)" if "2 * r + 1 < Suc n"
    using Suc.IH that by (intro reads_safely_cr_Skip_step) auto
  moreover have "reads_safely r 0 (cr_SkipStructV1 version (Suc n))" if "2 * r < Suc n"
    using Suc.IH that unfolding cr_SkipStructV1.simps
    by (intro reads_safely_then [OF reads_safely_cr_ReadFieldBegin])
      (auto intro!: reads_safely_ret reads_safely_bind0 reads_safely_cr_ReadStructBegin)
  ultimately show ?case by blast
qed

lemma cr_Skip_enough: "reads_safely (length (ib_rest ib)) 0 (cr_Skip version (2 * length (ib_rest ib) + 2) t)"
  by (rule mp [OF conjunct1 [OF reads_safely_cr_Skip]]) simp

lemma cr_SkipType_safe: "reads_safely r 0 (cr_SkipType version t)"
proof (rule reads_safelyI)
  fix ib assume ok: "ib_ok ib"
  from cr_Skip_enough [of ib version t] ok show "(\<exists>e. cr_SkipType version t ib = Inl e \<and> documented e) \<or>
      (\<exists>x k. cr_SkipType version t ib = Inr (x, ib_adv k ib) \<and> 0 \<le> k \<and> k \<le> length (ib_rest ib))"
    unfolding cr_SkipType_def by (elim reads_safelyE) (auto simp del: cr_Skip.simps)
qed

section \<open>More fuel does not change the result\<close>

lemma fuel_le_cr_SkipTypes:
  "(\<And>t. fuel_le (skip t) (skip' t)) \<Longrightarrow> fuel_le (cr_SkipTypes skip t sz) (cr_SkipTypes skip' t sz)"
  by (cases t) (simp_all add: cr_SkipTypes_def fuel_le_repeat)

lemma fuel_le_cr_Skip:
  "fuel_le (cr_Skip version n t) (cr_Skip version (Suc n) t) \<and>
   fuel_le (cr_SkipStructV1 version n) (cr_SkipStructV1 version (Suc n))"
proof (induction n arbitrary: t)
  case 0
  then show ?case by simp
next
  case (Suc n)
  then have IH: "fuel_le (cr_Skip version n t) (cr_Skip version (Suc n) t)"
      "fuel_le (cr_SkipStructV1 version n) (cr_SkipStructV1 version (Suc n))" for t by blast+
  have "fuel_le (cr_Skip version (Suc n) t) (cr_Skip version (Suc (Suc n)) t)"
    unfolding cr_Skip.simps(2) [of version n t] cr_Skip.simps(2) [of version "Suc n" t]
    by (cases t) (auto intro!: fuel_le_bind fuel_le_cr_SkipTypes fuel_le_repeat IH
        simp del: cr_Skip.simps cr_SkipStructV1.simps)
  moreover have "fuel_le (cr_SkipStructV1 version (Suc n)) (cr_SkipStructV1 version (Suc (Suc n)))"
    by (subst cr_SkipStructV1.simps(2), subst cr_SkipStructV1.simps(2))
      (auto intro!: fuel_le_bind IH simp del: cr_Skip.simps cr_SkipStructV1.simps)
  ultimately show ?case by blast
qed

section \<open>Headers decode\<close>

lemma tag_bits:
  fixes c i :: u8
  assumes "unat c < 32"
  shows "(c OR push_bit 5 i) AND 0x1f = c" and "(c OR push_bit 5 i) AND 0xe0 = push_bit 5 i"
    and "c AND 0x1f = c" and "c AND 0xe0 = 0" and "drop_bit 5 (c OR push_bit 5 i) = take_bit 3 i"
proof -
  have m: "(0x1f :: u8) = mask 5" "(0xe0 :: u8) = push_bit 5 (mask 3)"
    by (simp_all add: mask_eq_exp_minus_1 push_bit_eq_mult)
  have c: "k < 5" if "bit c k" for k
  proof -
    have "take_bit 5 (unat c) = unat c" using assms by (simp add: take_bit_nat_eq_self)
    then have "take_bit 5 c = c" by (metis unsigned_take_bit_eq word_unat_eq_iff)
    with that show ?thesis by (metis bit_take_bit_iff)
  qed
  show "(c OR push_bit 5 i) AND 0x1f = c"
    unfolding m by (rule bit_word_eqI) (auto simp: bit_simps dest: c)
  show "(c OR push_bit 5 i) AND 0xe0 = push_bit 5 i"
    unfolding m by (rule bit_word_eqI) (auto simp: bit_simps dest: c bit_imp_le_length)
  show "c AND 0x1f = c" unfolding m by (rule bit_word_eqI) (auto simp: bit_simps dest: c)
  show "c AND 0xe0 = 0" unfolding m by (rule bit_word_eqI) (auto simp: bit_simps dest: c)
  show "drop_bit 5 (c OR push_bit 5 i) = take_bit 3 i"
    by (rule bit_word_eqI) (auto simp: bit_simps dest: c bit_imp_le_length)
qed

lemma field_id_small:
  fixes fid :: u16
  assumes "fid \<le> 5"
  shows "fid \<in> {0, 1, 2, 3, 4, 5}"
proof -
  have "unat fid \<le> 5" using assms by (simp add: word_le_nat_alt)
  then have "unat fid \<in> {0, 1, 2, 3, 4, 5}" by auto
  then show ?thesis by (auto simp: word_unat_eq_iff)
qed
lemma decodes_type_byte:
  assumes "\<And>b. b = raw \<Longrightarrow> decodes (f b) bs x"
  shows "decodes (bind ib_read_u8 f) (raw # bs) x"
  using decodes_bind [OF decodes_u8 [of raw], of f bs x] assms by simp

lemma decodes_cr_ReadFieldBegin:
  assumes "is_value_type t"
  shows "decodes cr_ReadFieldBegin (compact_field t fid) (t, fid)"
proof -
  have c: "unat (type_code t) < 32" "type_of_code (type_code t) = t"
    using assms type_code_small type_of_code_of_type by blast+
  note bits = tag_bits [OF c(1)] tag_bits(1,2) [OF c(1), of 6, simplified]
    tag_bits(1,2) [OF c(1), of 7, simplified]
  consider "fid \<le> 5" | "\<not> fid \<le> 5" "fid \<le> 0xff" | "\<not> fid \<le> 5" "\<not> fid \<le> 0xff" by blast
  then show ?thesis
  proof cases
    case 1
    then have "fid \<in> {0, 1, 2, 3, 4, 5}" by (rule field_id_small)
    then have "(ucast (push_bit 5 (ucast fid :: u8)) :: u16) \<noteq> 0xe0 \<and>
        (ucast (push_bit 5 (ucast fid :: u8)) :: u16) \<noteq> 0xc0 \<and>
        drop_bit 5 (ucast (push_bit 5 (ucast fid :: u8)) :: u16) = fid"
      by (elim insertE emptyE) simp_all
    then have "decodes cr_ReadFieldBegin [type_code t OR push_bit 5 (ucast fid)] (t, fid)"
      unfolding cr_ReadFieldBegin_def Let_def
      by (intro decodes_type_byte) (simp add: bits c(2) decodes_ret)
    with 1 show ?thesis by (simp add: compact_field_def)
  next
    case 2
    then have "ucast (ucast fid :: u8) = fid"
      by (simp add: word_unat_eq_iff word_le_nat_alt unsigned_ucast_eq unsigned_take_bit_eq take_bit_nat_eq_self)
    then have "decodes cr_ReadFieldBegin [type_code t OR push_bit 5 6, ucast fid] (t, fid)"
      unfolding cr_ReadFieldBegin_def Let_def
      by (intro decodes_type_byte) (auto simp: bits c(2) intro!: decodes_ret decodes_type_byte)
    with 2 show ?thesis by (simp add: compact_field_def)
  next
    case 3
    have "decodes cr_ReadFieldBegin ((type_code t OR push_bit 5 7) # le_bytes 2 fid) (t, fid)"
      unfolding cr_ReadFieldBegin_def Let_def
      by (intro decodes_type_byte) (auto simp: bits c(2) intro!: decodes_map decodes_le simp del: le_bytes.simps)
    with 3 show ?thesis by (simp add: compact_field_def del: le_bytes.simps)
  qed
qed

lemma decodes_cr_ReadFieldBegin_stop:
  "decodes cr_ReadFieldBegin [0] (BT_STOP, 0)" "decodes cr_ReadFieldBegin [1] (BT_STOP_BASE, 0)"
  unfolding cr_ReadFieldBegin_def Let_def
  by (intro decodes_type_byte; simp add: decodes_ret type_of_code_def type_tags_def)+

lemma decodes_cr_ReadContainerBegin:
  assumes "is_value_type t"
  shows "decodes (cr_ReadContainerBegin v) (compact_container v n t) (n, t)"
proof -
  have c: "unat (type_code t) < 32" "type_of_code (type_code t) = t"
    using assms type_code_small type_of_code_of_type by blast+
  note bits = tag_bits [OF c(1)]
  show ?thesis
  proof (cases "v = v2 \<and> n < 7")
    case True
    let ?i = "ucast (n + 1) :: u8"
    have "unat n < 7" using True by (simp add: word_less_nat_alt)
    then have "unat n \<in> {0, 1, 2, 3, 4, 5, 6}" by auto
    then have n: "n \<in> {0, 1, 2, 3, 4, 5, 6}" by (auto simp: word_unat_eq_iff)
    have u: "ucast (push_bit 5 (n + 1)) = push_bit 5 ?i"
      by (rule bit_word_eqI) (auto simp: bit_simps)
    have "ucast (take_bit 3 ?i) - 1 = n" "push_bit 5 ?i \<noteq> 0" using n by auto
    then have "decodes (cr_ReadContainerBegin v) [type_code t OR push_bit 5 ?i] (n, t)"
      using True unfolding cr_ReadContainerBegin_def Let_def
      by (intro decodes_type_byte) (auto simp: bits c(2) intro!: decodes_ret simp del: drop_bit_or)
    with True u show ?thesis by (simp add: compact_container_def)
  next
    case False
    have "decodes (cr_ReadContainerBegin v) (type_code t # varint (unat n)) (n, t)"
      unfolding cr_ReadContainerBegin_def Let_def
      by (intro decodes_type_byte) (auto simp: bits c(2) intro!: decodes_map decodes_varint32)
    with False show ?thesis by (auto simp: compact_container_def)
  qed
qed

lemma decodes_cr_ReadContainerBegin2:
  assumes "is_value_type k" and "is_value_type t"
  shows "decodes cr_ReadContainerBegin2 ([type_code k, type_code t] @ varint (unat n)) (n, k, t)"
proof -
  have "type_of_code (type_code k) = k" "type_of_code (type_code t) = t"
    using assms type_of_code_of_type by blast+
  then show ?thesis
    unfolding cr_ReadContainerBegin2_def using decodes_map [OF decodes_varint32, of "\<lambda>sz. (sz, k, t)" n]
    by (auto intro!: decodes_type_byte)
qed

text \<open>Basic values\<close>

lemma decodes_cr_Read:
  assumes "is_basic x" and "wf_value mo x"
  shows "decodes (cr_Read (GetTypeId x)) (compact_basic x) x"
proof -
  have zz: "decodes (bind ReadVariableUnsigned (\<lambda>x. ret (f (DecodeZigZag x))))
      (varint (unat (EncodeZigZag y))) (f y)" if "LENGTH('a) \<in> {16, 32, 64}"
    for f :: "'a::len word \<Rightarrow> bvalue" and y
    using decodes_map [OF decodes_varint [OF that], of "\<lambda>x. f (DecodeZigZag x)" "EncodeZigZag y"]
    by (simp add: DecodeZigZag_EncodeZigZag)
  have s: "decodes (cr_Read BT_STRING) (varint (length s) @ s) (VString s)" if "length s < 2 ^ 32" for s
  proof -
    have "decodes (cr_Read BT_STRING) (varint (unat (string_length s)) @ s) (VString s)"
      unfolding cr_Read.simps by (intro decodes_bind [OF decodes_varint32] decodes_map decodes_string that)
    with that show ?thesis by (simp add: string_length_small)
  qed
  have "decodes (cr_Read BT_WSTRING) (varint (length s) @ wstring_bytes s) (VWString s)"
    if "wf_value mo (VWString s)" for s
  proof -
    have "decodes (cr_Read BT_WSTRING) (varint (unat (string_length s)) @ wstring_bytes s) (VWString s)"
      unfolding cr_Read.simps using that
      by (intro decodes_bind [OF decodes_varint32] decodes_map decodes_wstring) auto
    with that show ?thesis by (simp add: string_length_small)
  qed
  moreover have "decodes (cr_Read (GetTypeId x)) (compact_basic x) x"
    if "is_object x" "cr_Read (GetTypeId x) = read_object (GetTypeId x)" "compact_basic x = object_bytes x"
    using that by (simp add: decodes_object)
  ultimately show ?thesis
    using assms s by (cases x) (auto intro!: decodes_map decodes_varint zz)
qed

section \<open>Skipping an encoded value lands exactly after it\<close>

text \<open>Types with a fixed size on the wire, and that size.\<close>

fun compact_width :: "BondDataType \<Rightarrow> nat option" where
  "compact_width BT_BOOL = Some 1"
| "compact_width BT_UINT8 = Some 1"
| "compact_width BT_INT8 = Some 1"
| "compact_width BT_FLOAT = Some 4"
| "compact_width BT_DOUBLE = Some 8"
| "compact_width t = None"

lemma compact_width_enc:
  "compact_width (GetTypeId x) = Some k \<Longrightarrow> length (fst (enc_value (compact_format v) x)) = k"
  by (cases x) (auto simp: compact_format_simps)

lemma compact_width_items:
  "compact_width t = Some k \<Longrightarrow> wf_items mo t xs \<Longrightarrow>
   length (fst (enc_items (compact_format v) xs)) = length xs * k"
  by (induction xs) (auto simp: compact_width_enc)

lemma cr_SkipTypes_width:
  "compact_width t = Some k \<Longrightarrow>
   cr_SkipTypes skip t sz = skip_fixed sz (of_nat k) \<and> unat (of_nat k :: u8) = k"
  by (cases t) (auto simp: cr_SkipTypes_def)

lemma cr_Skip_width: "compact_width t = Some k \<Longrightarrow> cr_Skip v (Suc n) t = skip_fixed 1 (of_nat k)"
  by (cases t) auto

lemma cr_SkipTypes_repeat:
  "is_value_type t \<Longrightarrow> compact_width t = None \<Longrightarrow>
   cr_SkipTypes (cr_Skip v n) t sz = repeat_st (unat sz) (cr_Skip v n t)"
  by (cases t; cases n) (auto simp: cr_SkipTypes_def)

lemma ev_cr_SkipTypes:
  assumes t: "is_value_type t" and wf: "wf_items mo t xs" and len: "length xs < 2 ^ 32"
    and items: "ev_decodes (\<lambda>n. repeat_st (length xs) (cr_Skip v n t)) (fst (enc_items (compact_format v) xs)) ()"
  shows "ev_decodes (\<lambda>n. cr_SkipTypes (cr_Skip v n) t (of_nat (length xs)))
    (fst (enc_items (compact_format v) xs)) ()"
proof (cases "compact_width t")
  case None
  with t items len show ?thesis by (simp add: cr_SkipTypes_repeat unat_of_nat_small)
next
  case (Some k)
  have "decodes (skip_fixed (of_nat (length xs)) (of_nat k)) (fst (enc_items (compact_format v) xs)) ()"
    using cr_SkipTypes_width [OF Some] compact_width_items [OF Some wf] len
    by (intro decodes_skip_fixed') (simp add: unat_of_nat_small)
  then show ?thesis
    using cr_SkipTypes_width [OF Some] by (simp add: ev_decodes_const)
qed

lemma decodes_cr_SkipVarint: "n < 2 ^ 64 \<Longrightarrow> decodes cr_SkipVarint (varint n) ()"
  unfolding cr_SkipVarint_def
  using decodes_map [OF decodes_varint [of "of_nat n :: u64"], of "\<lambda>_. ()"]
  by (simp add: unat_of_nat_small)

lemma unat_bound_64:
  "unat (x :: u16) < 2 ^ 64" "unat (y :: u32) < 2 ^ 64" "unat (z :: u64) < 2 ^ 64"
  using unsigned_less [of x, where ?'a = nat] unsigned_less [of y, where ?'a = nat]
    unsigned_less [of z, where ?'a = nat] by simp_all

lemma decodes_length_skip:
  assumes "unat (len :: u32) * k = length bs" and "k = 1 \<or> k = 2"
  shows "decodes (bind ReadVariableUnsigned (\<lambda>len. skip_fixed len (of_nat k))) (varint (unat len) @ bs) ()"
  using assms by (intro decodes_bind [OF decodes_varint32] decodes_skip_fixed') auto

lemma decodes_length_skip1:
  assumes "unat (len :: u32) = length bs"
  shows "decodes (bind ReadVariableUnsigned (\<lambda>len. ib_skip len)) (varint (unat len) @ bs) ()"
  using assms unat_u32_bound [of len] by (intro decodes_bind [OF decodes_varint32] decodes_skip) auto

lemma ev_cr_Skip_basic:
  assumes "is_basic x" and "wf_value mo x"
  shows "ev_decodes (\<lambda>n. cr_Skip v n (GetTypeId x)) (compact_basic x) ()"
proof (rule ev_decodes_Suc)
  have s: "decodes (bind ReadVariableUnsigned (\<lambda>len. ib_skip len)) (varint (length s) @ s) ()"
    if "length s < 2 ^ 32" for s
    using decodes_length_skip1 [of "string_length s" s] that by (simp add: string_length_small)
  have ws: "decodes (bind ReadVariableUnsigned (\<lambda>len. skip_fixed len 2)) (varint (length s) @ wstring_bytes s) ()"
    if "length s < 2 ^ 31" for s
    using decodes_length_skip [of "string_length s" 2 "wstring_bytes s"] that by (simp add: string_length_small)
  have w: "decodes (skip_fixed 1 (of_nat k)) (compact_basic x) ()" if "compact_width (GetTypeId x) = Some k" for k
  proof -
    have "length (compact_basic x) = k"
      using compact_width_enc [OF that, of v] assms(1) by (simp add: enc_value_basic compact_format_simps)
    then show ?thesis using cr_SkipTypes_width [OF that] by (intro decodes_skip_fixed') simp
  qed
  show "ev_decodes (\<lambda>n. cr_Skip v (Suc n) (GetTypeId x)) (compact_basic x) ()"
  proof (cases "compact_width (GetTypeId x)")
    case (Some k)
    with w show ?thesis by (simp add: cr_Skip_width ev_decodes_const del: cr_Skip.simps)
  next
    case None
    with assms s ws show ?thesis
      by (cases x) (auto intro!: ev_decodes_const decodes_cr_SkipVarint simp: unat_bound_64 [simplified])
  qed
qed

lemma ev_cr_Skip_list:
  assumes "is_value_type t" and "length xs < 2 ^ 32" and "wf_items mo t xs"
    and "ev_decodes (\<lambda>n. repeat_st (length xs) (cr_Skip v n t)) (fst (enc_items (compact_format v) xs)) ()"
    and "c = BT_LIST \<or> c = BT_SET"
  shows "ev_decodes (\<lambda>n. cr_Skip v n c)
    (compact_container v (of_nat (length xs)) t @ fst (enc_items (compact_format v) xs)) ()"
proof (rule ev_decodes_Suc)
  have "ev_decodes (\<lambda>n. bind (cr_ReadContainerBegin v) (\<lambda>(sz, t). cr_SkipTypes (cr_Skip v n) t sz))
      (compact_container v (of_nat (length xs)) t @ fst (enc_items (compact_format v) xs)) ()"
    using ev_cr_SkipTypes [OF assms(1,3,2,4)]
    by (intro ev_decodes_header [where x = "(of_nat (length xs), t)"])
      (simp_all add: decodes_cr_ReadContainerBegin assms(1))
  with assms(5) show "ev_decodes (\<lambda>n. cr_Skip v (Suc n) c)
    (compact_container v (of_nat (length xs)) t @ fst (enc_items (compact_format v) xs)) ()" by auto
qed

lemma ev_cr_Skip_map:
  assumes "is_value_type k" and "is_value_type t" and "length kvs < 2 ^ 32"
    and "ev_decodes (\<lambda>n. repeat_st (length kvs) (bind (cr_Skip v n k) (\<lambda>_. cr_Skip v n t))) bs ()"
  shows "ev_decodes (\<lambda>n. cr_Skip v n BT_MAP)
    (([type_code k, type_code t] @ varint (unat (of_nat (length kvs) :: u32))) @ bs) ()"
proof (rule ev_decodes_Suc)
  have "ev_decodes (\<lambda>n. bind cr_ReadContainerBegin2 (\<lambda>(sz, k, t).
          repeat_st (unat sz) (bind (cr_Skip v n k) (\<lambda>_. cr_Skip v n t))))
      (([type_code k, type_code t] @ varint (unat (of_nat (length kvs) :: u32))) @ bs) ()"
    using assms(3,4)
    by (intro ev_decodes_header [OF decodes_cr_ReadContainerBegin2 [OF assms(1,2)]])
      (simp add: unat_of_nat_small)
  then show "ev_decodes (\<lambda>n. cr_Skip v (Suc n) BT_MAP)
    (([type_code k, type_code t] @ varint (unat (of_nat (length kvs) :: u32))) @ bs) ()" by simp
qed

lemma ev_cr_Skip_blob:
  assumes "blob_wf b"
  shows "ev_decodes (\<lambda>n. cr_Skip v n BT_LIST)
    (compact_container v (blob_length b) BT_INT8 @ blob_bytes b) ()"
proof (rule ev_decodes_Suc)
  have "decodes (skip_fixed (blob_length b) 1) (blob_bytes b) ()"
    using assms by (intro decodes_skip_fixed') (simp add: blob_wf_def)
  then have "ev_decodes (\<lambda>n. bind (cr_ReadContainerBegin v) (\<lambda>(sz, t). cr_SkipTypes (cr_Skip v n) t sz))
      (compact_container v (blob_length b) BT_INT8 @ blob_bytes b) ()"
    using decodes_cr_ReadContainerBegin [of BT_INT8 v "blob_length b"]
    by (intro ev_decodes_header [where x = "(blob_length b, BT_INT8)"])
      (simp_all add: cr_SkipTypes_def ev_decodes_const)
  then show "ev_decodes (\<lambda>n. cr_Skip v (Suc n) BT_LIST)
    (compact_container v (blob_length b) BT_INT8 @ blob_bytes b) ()" by simp
qed

text \<open>Version 2: the length prefix of a struct is the number of bytes that follow it.\<close>

lemma ev_cr_Skip_struct_v2: "ev_decodes (\<lambda>n. cr_Skip v2 n BT_STRUCT) (fst (compact_struct v2 False e)) ()"
proof (rule ev_decodes_Suc)
  have "decodes cr_SkipStructV2 (fst (compact_struct v2 False e)) ()"
  proof (rule decodes_bounded)
    assume "length (fst (compact_struct v2 False e)) < 2 ^ 32"
    then have "unat (of_nat (length (fst e @ [0])) :: u32) = length (fst e @ [0])"
      by (intro unat_of_nat_small) (simp add: compact_struct_def)
    with decodes_length_skip1 [OF this] show "decodes cr_SkipStructV2 (fst (compact_struct v2 False e)) ()"
      by (simp add: compact_struct_def cr_SkipStructV2_def)
  qed
  then show "ev_decodes (\<lambda>n. cr_Skip v2 (Suc n) BT_STRUCT) (fst (compact_struct v2 False e)) ()"
    by (simp add: ev_decodes_const)
qed

text \<open>Other versions: the loop over the fields of the struct and of its bases.\<close>

lemma ev_cr_SkipStructV1_stop: "ev_decodes (cr_SkipStructV1 v) [0] ()"
proof (rule ev_decodes_Suc)
  have "ev_decodes (\<lambda>n. cr_SkipStructV1 v (Suc n)) ([0] @ []) ()"
    unfolding cr_SkipStructV1.simps
    by (rule ev_decodes_header [OF decodes_cr_ReadFieldBegin_stop(1)])
      (auto intro: ev_decodes_const decodes_ret)
  then show "ev_decodes (\<lambda>n. cr_SkipStructV1 v (Suc n)) [0] ()" by simp
qed

lemma ev_cr_SkipStructV1_stop_base:
  assumes "v \<noteq> v2" and "ev_decodes (cr_SkipStructV1 v) tail ()"
  shows "ev_decodes (cr_SkipStructV1 v) (1 # tail) ()"
proof (rule ev_decodes_Suc)
  have "ev_decodes (\<lambda>n. cr_SkipStructV1 v (Suc n)) ([1] @ tail) ()"
    unfolding cr_SkipStructV1.simps
    by (rule ev_decodes_header [OF decodes_cr_ReadFieldBegin_stop(2)])
      (use assms in \<open>simp add: cr_ReadStructBegin_def\<close>)
  then show "ev_decodes (\<lambda>n. cr_SkipStructV1 v (Suc n)) (1 # tail) ()" by simp
qed

lemma ev_cr_SkipStructV1_field:
  assumes "is_value_type t" and "ev_decodes (\<lambda>n. cr_Skip v n t) bs ()"
    and "ev_decodes (cr_SkipStructV1 v) tail ()"
  shows "ev_decodes (cr_SkipStructV1 v) (compact_field t fid @ bs @ tail) ()"
proof (rule ev_decodes_Suc)
  have stop: "t \<noteq> BT_STOP" "t \<noteq> BT_STOP_BASE" using assms(1) by auto
  show "ev_decodes (\<lambda>n. cr_SkipStructV1 v (Suc n)) (compact_field t fid @ bs @ tail) ()"
    unfolding cr_SkipStructV1.simps
    by (rule ev_decodes_header [OF decodes_cr_ReadFieldBegin [OF assms(1)]])
      (use stop ev_decodes_then [OF assms(2,3)] in simp)
qed

lemma ev_cr_SkipStructV1_end:
  assumes "v \<noteq> v2" and "base \<Longrightarrow> ev_decodes (cr_SkipStructV1 v) tail ()" and "\<not> base \<Longrightarrow> tail = []"
  shows "ev_decodes (cr_SkipStructV1 v) ((if base then 1 else 0) # tail) ()"
  using assms ev_cr_SkipStructV1_stop ev_cr_SkipStructV1_stop_base by auto

lemma ev_cr_Skip_struct_v1:
  assumes "v \<noteq> v2" and "ev_decodes (cr_SkipStructV1 v) bs ()"
  shows "ev_decodes (\<lambda>n. cr_Skip v n BT_STRUCT) bs ()"
proof (rule ev_decodes_Suc)
  show "ev_decodes (\<lambda>n. cr_Skip v (Suc n) BT_STRUCT) bs ()"
    using assms by (simp add: cr_ReadStructBegin_def)
qed

lemma compact_struct_other:
  "v \<noteq> v2 \<Longrightarrow> fst (compact_struct v base e) = fst e @ [if base then 1 else 0]"
  by (simp add: compact_struct_def)

lemma enc_struct_compact_v2:
  obtains e where "fst (enc_struct (compact_format v2) False s) = fst (compact_struct v2 False e)"
proof (cases s)
  case (Struct md b fs)
  with that show ?thesis by (cases b) (auto simp: compact_format_simps)
qed

lemma ev_cr_Skip_aux:
  "wf_value mo x \<Longrightarrow> ev_decodes (\<lambda>n. cr_Skip v n (GetTypeId x)) (fst (enc_value (compact_format v) x)) ()"
  "wf_items mo t xs \<Longrightarrow>
     ev_decodes (\<lambda>n. repeat_st (length xs) (cr_Skip v n t)) (fst (enc_items (compact_format v) xs)) ()"
  "wf_pairs mo k t kvs \<Longrightarrow>
     ev_decodes (\<lambda>n. repeat_st (length kvs) (bind (cr_Skip v n k) (\<lambda>_. cr_Skip v n t)))
       (fst (enc_pairs (compact_format v) kvs)) ()"
  "wf_field mo f \<Longrightarrow> ev_decodes (cr_SkipStructV1 v) tail () \<Longrightarrow>
     ev_decodes (cr_SkipStructV1 v) (fst (enc_field (compact_format v) f) @ tail) ()"
  "wf_fields mo fs \<Longrightarrow> ev_decodes (cr_SkipStructV1 v) tail () \<Longrightarrow>
     ev_decodes (cr_SkipStructV1 v) (fst (enc_fields (compact_format v) fs) @ tail) ()"
  "wf_struct mo s \<Longrightarrow> v \<noteq> v2 \<Longrightarrow> (base \<Longrightarrow> ev_decodes (cr_SkipStructV1 v) tail ()) \<Longrightarrow>
     (\<not> base \<Longrightarrow> tail = []) \<Longrightarrow>
     ev_decodes (cr_SkipStructV1 v) (fst (enc_struct (compact_format v) base s) @ tail) ()"
proof (induction mo x and mo t xs and mo k t kvs and mo f and mo fs and mo s
    arbitrary: and and and tail and tail and base tail
    rule: wf_value_wf_items_wf_pairs_wf_field_wf_fields_wf_struct.induct)
  case (1 mo b)
  then show ?case by (simp add: ev_cr_Skip_blob compact_format_simps)
next
  case (2 mo t vs)
  then show ?case using ev_cr_Skip_list [of t vs mo] by (simp add: compact_format_simps)
next
  case (3 mo t vs)
  then show ?case using ev_cr_Skip_list [of t vs mo] by (simp add: compact_format_simps)
next
  case (4 mo k t kvs)
  then show ?case using ev_cr_Skip_map [of k t kvs] by (simp add: compact_format_simps)
next
  case (5 mo s)
  show ?case
  proof (cases "v = v2")
    case True
    then show ?thesis using ev_cr_Skip_struct_v2 by (cases rule: enc_struct_compact_v2 [of s]) auto
  next
    case False
    with 5 "5.IH" [of False "[]"] show ?thesis by (simp add: ev_cr_Skip_struct_v1)
  qed
next
  case (10 mo t x xs)
  then show ?case by (auto intro!: ev_decodes_then)
next
  case (12 mo k t x y kvs)
  then have "ev_decodes (\<lambda>n. bind (bind (cr_Skip v n k) (\<lambda>_. cr_Skip v n t))
        (\<lambda>_. repeat_st (length kvs) (bind (cr_Skip v n k) (\<lambda>_. cr_Skip v n t))))
      ((fst (enc_value (compact_format v) x) @ fst (enc_value (compact_format v) y)) @
        fst (enc_pairs (compact_format v) kvs)) ()"
    by (intro ev_decodes_then) auto
  then show ?case by simp
next
  case (13 mo fid md x)
  then show ?case
    using ev_cr_SkipStructV1_field [of "GetTypeId x" v "fst (enc_value (compact_format v) x)" tail fid]
    by (simp add: compact_format_simps)
next
  case (15 mo fid md t x)
  then show ?case
    using ev_cr_SkipStructV1_field [of "GetTypeId x" v "fst (enc_value (compact_format v) x)" tail fid]
    by (auto simp: compact_format_simps)
next
  case (18 mo md fs)
  then have "ev_decodes (cr_SkipStructV1 v)
      (fst (enc_fields (compact_format v) fs) @ (if base then 1 else 0) # tail) ()"
    by (intro "18.IH" ev_cr_SkipStructV1_end) auto
  with 18 show ?case by (simp add: compact_format_simps compact_struct_other)
next
  case (19 mo md b fs)
  then have "ev_decodes (cr_SkipStructV1 v) (fst (enc_struct (compact_format v) True b) @
      fst (enc_fields (compact_format v) fs) @ (if base then 1 else 0) # tail) ()"
    by (intro "19.IH" ev_cr_SkipStructV1_end) auto
  with 19 show ?case by (simp add: compact_format_simps compact_struct_other)
qed (auto intro: ev_decodes_const decodes_ret intro!: ev_cr_Skip_basic
      simp: enc_value_basic compact_format_simps simp del: GetTypeId.simps enc_value.simps wf_value.simps
      compact_basic.simps)

theorem cr_SkipType_encoded:
  assumes "wf_value True x" and "ib_at ib (fst (enc_value (compact_format v) x) @ rest)"
  shows "cr_SkipType v (GetTypeId x) ib =
    Inr ((), ib_adv (length (fst (enc_value (compact_format v) x))) ib)"
  unfolding cr_SkipType_def
proof (rule ev_decodes_enough [where S = "\<lambda>n. cr_Skip v n (GetTypeId x)", OF _ _ assms(2)])
  show "ev_decodes (\<lambda>n. cr_Skip v n (GetTypeId x)) (fst (enc_value (compact_format v) x)) ()"
    using assms(1) by (rule ev_cr_Skip_aux)
  show "fuel_le (cr_Skip v n (GetTypeId x)) (cr_Skip v (Suc n) (GetTypeId x))" for n
    using fuel_le_cr_Skip by blast
  show "cr_Skip v (2 * length (ib_rest ib) + 2) (GetTypeId x) ib \<noteq> Inl OutOfFuel"
    using cr_Skip_enough ib_at_ok [OF assms(2)] by (rule reads_safely_fuel) simp
qed

end
