(* ===== verification/Pass_Through.thy ===== *)
theory Pass_Through
  imports Fast_Binary Compact_Reader
begin

text \<open>
  Fast pass-through, \<^verbatim>\<open>src/cpp/inc/bond/core/detail/pass_through.h\<close>: a struct is copied between a
  reader and a writer of the same protocol by skipping it and writing the skipped bytes as one blob.
  \<open>skip\<close> is \<open>value.Skip()\<close> of the reader's protocol.
\<close>

definition PassThrough ::
    "(InputBuffer, unit) st \<Rightarrow> 'b Buffer \<Rightarrow> InputBuffer \<Rightarrow> 'b \<Rightarrow> (InputBuffer \<times> 'b) res" where
  "PassThrough skip B ib out =
     res_bind (GetCurrentBuffer ib) (\<lambda>before.
     res_bind (skip ib) (\<lambda>(_, ib').
     res_bind (GetCurrentBuffer ib') (\<lambda>after.
     res_bind (GetBufferRange before after) (\<lambda>range.
     res_bind (b_WriteBlob B range out) (\<lambda>out'. Inr (ib', out'))))))"

lemma GetBufferRange_prefix:
  assumes "blob_wf before" and "blob_wf after" and "blob_bytes before = bs @ blob_bytes after"
  shows "\<exists>b. GetBufferRange before after = Inr b \<and> blob_wf b \<and> blob_bytes b = bs"
proof -
  have l: "unat (blob_length before) = length bs + unat (blob_length after)"
    using assms by (simp add: blob_wf_def)
  then have d: "unat (blob_length before - blob_length after) = length bs"
    by (simp add: unat_sub_no_underflow)
  with l blob_range_Inr [OF assms(1), of 0 "blob_length before - blob_length after"] assms(3)
  show ?thesis by (auto simp: GetBufferRange_def)
qed

context output_stream
begin

lemma PassThrough_copies:
  assumes skip: "skip ib = Inr ((), ib_adv (length bs) ib)" and at: "ib_at ib (bs @ rest)"
    and out: "holds out c" and room: "length c + length bs < 2 ^ 31"
  shows "\<exists>out'. PassThrough skip B ib out = Inr (ib_adv (length bs) ib, out') \<and> holds out' (c @ bs)"
proof -
  obtain x where x: "GetCurrentBuffer ib = Inr x" "blob_wf x" "blob_bytes x = bs @ rest"
    using GetCurrentBuffer_at [OF at] by auto
  obtain y where y: "GetCurrentBuffer (ib_adv (length bs) ib) = Inr y" "blob_wf y" "blob_bytes y = rest"
    using GetCurrentBuffer_at [OF ib_at_adv_append [OF at]] by auto
  obtain b where b: "GetBufferRange x y = Inr b" "blob_wf b" "blob_bytes b = bs"
    using GetBufferRange_prefix [of x y bs] x y by auto
  from stream_appendsD [OF WriteBlob_law [OF b(2)] out] room b(3)
  obtain out' where "b_WriteBlob B b out = Inr out'" "holds out' (c @ bs)" by auto
  with skip x y b show ?thesis by (simp add: PassThrough_def)
qed

end

end
