(* ===== verification/Bond_Schema.thy ===== *)
theory Bond_Schema
  imports Bond_Types
begin

text \<open>
  Compile-time schemas: the types a field can have, the fields and the base of a struct, as the
  generated reflection describes them to the templates of \<^verbatim>\<open>src/cpp/inc/bond/core/reflection.h\<close>. A
  type is a finite tree; a recursive schema is represented by its unfolding to the depth of the
  data. The theory also has the type traits the deserialization dispatches on (\<open>get_type_id\<close>,
  \<open>is_matching_basic\<close>, \<open>next_required_field\<close>), default-constructed objects, the conversion of a
  value to a matching wider type, and the ordered containers of the standard library with the
  interface of \<^verbatim>\<open>src/cpp/inc/bond/core/stl_containers.h\<close>.
\<close>

unbundle bit_operations_syntax

section \<open>Schemas\<close>

text \<open>Keys of maps and elements of sets have basic types. \<open>FieldDef\<close> says with a flag whether
  the field is a \<open>maybe<T>\<close>.\<close>

datatype btype =
    TBasic BondDataType
  | TBlob
  | TNullable btype
  | TList btype
  | TSet BondDataType
  | TMap BondDataType btype
  | TStruct sschema
and fdef =
    FieldDef (fd_id: u16) (fd_metadata: Metadata) (fd_maybe: bool) (fd_type: btype)
and sschema =
    Schema Metadata "sschema option" "fdef list"

fun get_type_id :: "btype \<Rightarrow> BondDataType" where
  "get_type_id (TBasic t) = t"
| "get_type_id TBlob = BT_LIST"
| "get_type_id (TNullable e) = BT_LIST"
| "get_type_id (TList e) = BT_LIST"
| "get_type_id (TSet t) = BT_SET"
| "get_type_id (TMap k e) = BT_MAP"
| "get_type_id (TStruct s) = BT_STRUCT"

text \<open>\<open>is_basic_type\<close> of a field or element type\<close>

fun is_basic_type :: "btype \<Rightarrow> bool" where
  "is_basic_type (TBasic t) = True"
| "is_basic_type t = False"

definition invalid_field_id :: u16 where
  "invalid_field_id = 0xffff"

text \<open>The id of the first required field whose id is at least \<open>minId\<close>\<close>

definition next_required_field :: "fdef list \<Rightarrow> u16 \<Rightarrow> u16" where
  "next_required_field fs minId =
     (case find (\<lambda>f. fd_id f \<ge> minId \<and> md_modifier (fd_metadata f) = Required) fs of
        None \<Rightarrow> invalid_field_id | Some f \<Rightarrow> fd_id f)"

section \<open>Type tags of the basic types\<close>

fun is_basic_tag :: "BondDataType \<Rightarrow> bool" where
  "is_basic_tag BT_STOP = False"
| "is_basic_tag BT_STOP_BASE = False"
| "is_basic_tag BT_STRUCT = False"
| "is_basic_tag BT_LIST = False"
| "is_basic_tag BT_SET = False"
| "is_basic_tag BT_MAP = False"
| "is_basic_tag BT_UNAVAILABLE = False"
| "is_basic_tag (BT_other c) = False"
| "is_basic_tag t = True"

fun sizeof_tag :: "BondDataType \<Rightarrow> nat" where
  "sizeof_tag BT_BOOL = 1"
| "sizeof_tag BT_UINT8 = 1"
| "sizeof_tag BT_INT8 = 1"
| "sizeof_tag BT_UINT16 = 2"
| "sizeof_tag BT_INT16 = 2"
| "sizeof_tag BT_UINT32 = 4"
| "sizeof_tag BT_INT32 = 4"
| "sizeof_tag BT_FLOAT = 4"
| "sizeof_tag BT_UINT64 = 8"
| "sizeof_tag BT_INT64 = 8"
| "sizeof_tag BT_DOUBLE = 8"
| "sizeof_tag t = 0"

definition is_unsigned_tag :: "BondDataType \<Rightarrow> bool" where
  "is_unsigned_tag t \<longleftrightarrow> t \<in> set [BT_BOOL, BT_UINT8, BT_UINT16, BT_UINT32, BT_UINT64]"

definition is_signed_tag :: "BondDataType \<Rightarrow> bool" where
  "is_signed_tag t \<longleftrightarrow> t \<in> set [BT_INT8, BT_INT16, BT_INT32, BT_INT64]"

text \<open>\<open>is_matching_basic<T1, T2>\<close> with its specializations, first those for equal types\<close>

definition is_matching_basic :: "BondDataType \<Rightarrow> BondDataType \<Rightarrow> bool" where
  "is_matching_basic t1 t2 \<longleftrightarrow>
     (if t1 = t2 then True
      else if t1 = BT_BOOL then False
      else if t1 = BT_UINT8 \<and> t2 = BT_BOOL then False
      else if t1 = BT_FLOAT \<and> t2 = BT_DOUBLE then True
      else sizeof_tag t1 \<le> sizeof_tag t2 \<and>
        (is_unsigned_tag t1 \<and> is_unsigned_tag t2 \<or> is_signed_tag t1 \<and> is_signed_tag t2))"

section \<open>Conversion to a matching type\<close>

fun unsigned_of :: "bvalue \<Rightarrow> u64" where
  "unsigned_of (VUInt8 x) = ucast x"
| "unsigned_of (VUInt16 x) = ucast x"
| "unsigned_of (VUInt32 x) = ucast x"
| "unsigned_of (VUInt64 x) = x"
| "unsigned_of v = 0"

fun signed_of :: "bvalue \<Rightarrow> u64" where
  "signed_of (VInt8 x) = scast x"
| "signed_of (VInt16 x) = scast x"
| "signed_of (VInt32 x) = scast x"
| "signed_of (VInt64 x) = x"
| "signed_of v = 0"

fun double_of :: "bvalue \<Rightarrow> u64" where
  "double_of (VFloat x) = float_to_double x"
| "double_of (VDouble x) = x"
| "double_of v = 0"

text \<open>\<open>static_cast<X>(value)\<close> of \<open>detail::set\<close>, for a value whose type matches \<open>X\<close>\<close>

fun static_cast :: "BondDataType \<Rightarrow> bvalue \<Rightarrow> bvalue" where
  "static_cast BT_UINT8 v = VUInt8 (ucast (unsigned_of v))"
| "static_cast BT_UINT16 v = VUInt16 (ucast (unsigned_of v))"
| "static_cast BT_UINT32 v = VUInt32 (ucast (unsigned_of v))"
| "static_cast BT_UINT64 v = VUInt64 (unsigned_of v)"
| "static_cast BT_INT8 v = VInt8 (ucast (signed_of v))"
| "static_cast BT_INT16 v = VInt16 (ucast (signed_of v))"
| "static_cast BT_INT32 v = VInt32 (ucast (signed_of v))"
| "static_cast BT_INT64 v = VInt64 (signed_of v)"
| "static_cast BT_DOUBLE v = VDouble (double_of v)"
| "static_cast t v = v"

section \<open>Default construction\<close>

text \<open>
  \<open>T()\<close> of a basic type or container, and the default constructor of a generated struct, which
  initializes every basic field with the default value of its metadata.
\<close>

fun default_basic :: "BondDataType \<Rightarrow> bvalue" where
  "default_basic t = (case VariantGet Variant_init t of Some v \<Rightarrow> v | None \<Rightarrow> VBool False)"

function (sequential) default_value :: "btype \<Rightarrow> bvalue"
  and default_field :: "fdef \<Rightarrow> bfield"
  and default_fields :: "fdef list \<Rightarrow> bfield list"
  and default_struct :: "sschema \<Rightarrow> bstruct" where
  "default_value (TBasic t) = default_basic t"
| "default_value TBlob = VBlob blob_empty"
| "default_value (TNullable e) = VList (get_type_id e) []"
| "default_value (TList e) = VList (get_type_id e) []"
| "default_value (TSet t) = VSet t []"
| "default_value (TMap k e) = VMap k (get_type_id e) []"
| "default_value (TStruct s) = VStruct (default_struct s)"
| "default_field (FieldDef fid md True t) = MaybeField fid md (get_type_id t) None"
| "default_field (FieldDef fid md False t) =
     Field fid md (case t of TBasic b \<Rightarrow> (case VariantGet (md_default_value md) b of
                       Some v \<Rightarrow> v | None \<Rightarrow> default_basic b)
                   | _ \<Rightarrow> default_value t)"
| "default_fields [] = []"
| "default_fields (f # fs) = default_field f # default_fields fs"
| "default_struct (Schema md None fs) = Struct md None (default_fields fs)"
| "default_struct (Schema md (Some b) fs) = Struct md (Some (default_struct b)) (default_fields fs)"
  by pat_completeness auto
termination
  by (relation "measure (case_sum (case_sum size size) (case_sum (size_list size) size))") auto

section \<open>Ordered containers\<close>

text \<open>The order of the elements: \<open>operator<\<close> of the basic types\<close>

definition sign_magnitude :: "nat \<Rightarrow> 'a::len word \<Rightarrow> int" where
  "sign_magnitude n w = (if bit w n then - uint (take_bit n w) else uint (take_bit n w))"

definition double_less :: "u64 \<Rightarrow> u64 \<Rightarrow> bool" where
  "double_less a b \<longleftrightarrow>
     \<not> double_is_nan a \<and> \<not> double_is_nan b \<and> sign_magnitude 63 a < sign_magnitude 63 b"

fun lex_less :: "('a \<Rightarrow> 'a \<Rightarrow> bool) \<Rightarrow> 'a list \<Rightarrow> 'a list \<Rightarrow> bool" where
  "lex_less lt xs [] = False"
| "lex_less lt [] (y # ys) = True"
| "lex_less lt (x # xs) (y # ys) = (lt x y \<or> \<not> lt y x \<and> lex_less lt xs ys)"

definition key_less :: "bvalue \<Rightarrow> bvalue \<Rightarrow> bool" where
  "key_less a b \<longleftrightarrow>
     (case a of
        VBool x \<Rightarrow> (case b of VBool y \<Rightarrow> \<not> x \<and> y | _ \<Rightarrow> False)
      | VUInt8 x \<Rightarrow> (case b of VUInt8 y \<Rightarrow> x < y | _ \<Rightarrow> False)
      | VUInt16 x \<Rightarrow> (case b of VUInt16 y \<Rightarrow> x < y | _ \<Rightarrow> False)
      | VUInt32 x \<Rightarrow> (case b of VUInt32 y \<Rightarrow> x < y | _ \<Rightarrow> False)
      | VUInt64 x \<Rightarrow> (case b of VUInt64 y \<Rightarrow> x < y | _ \<Rightarrow> False)
      | VInt8 x \<Rightarrow> (case b of VInt8 y \<Rightarrow> x <s y | _ \<Rightarrow> False)
      | VInt16 x \<Rightarrow> (case b of VInt16 y \<Rightarrow> x <s y | _ \<Rightarrow> False)
      | VInt32 x \<Rightarrow> (case b of VInt32 y \<Rightarrow> x <s y | _ \<Rightarrow> False)
      | VInt64 x \<Rightarrow> (case b of VInt64 y \<Rightarrow> x <s y | _ \<Rightarrow> False)
      | VFloat x \<Rightarrow> (case b of VFloat y \<Rightarrow> double_less (float_to_double x) (float_to_double y) | _ \<Rightarrow> False)
      | VDouble x \<Rightarrow> (case b of VDouble y \<Rightarrow> double_less x y | _ \<Rightarrow> False)
      | VString x \<Rightarrow> (case b of VString y \<Rightarrow> lex_less (<) x y | _ \<Rightarrow> False)
      | VWString x \<Rightarrow> (case b of VWString y \<Rightarrow> lex_less (\<lambda>c d. c <s d) x y | _ \<Rightarrow> False)
      | _ \<Rightarrow> False)"

text \<open>\<open>std::set::insert\<close>: an equivalent element that is already there stays.\<close>

fun set_insert :: "bvalue \<Rightarrow> bvalue list \<Rightarrow> bvalue list" where
  "set_insert x [] = [x]"
| "set_insert x (y # ys) =
     (if key_less y x then y # set_insert x ys else if key_less x y then x # y # ys else y # ys)"

text \<open>
  \<open>mapped_at\<close> returns a reference to the mapped value, inserted if it was not there: the value it
  refers to, and the map after an assignment through the reference.
\<close>

fun mapped_at :: "bvalue \<Rightarrow> bvalue \<Rightarrow> (bvalue \<times> bvalue) list \<Rightarrow> bvalue" where
  "mapped_at d k [] = d"
| "mapped_at d k ((k', v) # m) =
     (if key_less k' k then mapped_at d k m else if key_less k k' then d else v)"

fun map_assign :: "bvalue \<Rightarrow> bvalue \<Rightarrow> (bvalue \<times> bvalue) list \<Rightarrow> (bvalue \<times> bvalue) list" where
  "map_assign k w [] = [(k, w)]"
| "map_assign k w ((k', v) # m) =
     (if key_less k' k then (k', v) # map_assign k w m
      else if key_less k k' then (k, w) # (k', v) # m else (k', w) # m)"

text \<open>\<open>resize_list\<close> of a \<open>std::vector\<close> or \<open>std::list\<close>\<close>

definition resize_list :: "nat \<Rightarrow> bvalue \<Rightarrow> bvalue list \<Rightarrow> bvalue list" where
  "resize_list n d vs = take n vs @ replicate (n - length vs) d"

section \<open>Lemmas\<close>

lemma is_basic_tag_value_type: "is_basic_tag t \<Longrightarrow> is_value_type t"
  by (cases t) simp_all

lemma is_basic_tag_GetTypeId: "is_basic_tag (GetTypeId v) \<longleftrightarrow> is_basic v"
  by (cases v) simp_all

lemma length_default_fields [simp]: "length (default_fields fs) = length fs"
  by (induction fs) simp_all

lemma VariantGet_basic: "is_basic_tag t \<Longrightarrow> \<exists>v. VariantGet d t = Some v"
  by (cases t) simp_all

lemma set_insert_last: "\<forall>y \<in> set ys. key_less y x \<Longrightarrow> set_insert x ys = ys @ [x]"
  by (induction ys) simp_all

lemma map_assign_last: "\<forall>(y, v) \<in> set m. key_less y k \<Longrightarrow> map_assign k w m = m @ [(k, w)]"
  by (induction m) auto

lemma mapped_at_fresh: "\<forall>(y, v) \<in> set m. key_less y k \<Longrightarrow> mapped_at d k m = d"
  by (induction m) auto

text \<open>A conversion to a matching type keeps the number.\<close>

fun number_of :: "bvalue \<Rightarrow> int" where
  "number_of (VUInt8 x) = uint x"
| "number_of (VUInt16 x) = uint x"
| "number_of (VUInt32 x) = uint x"
| "number_of (VUInt64 x) = uint x"
| "number_of (VInt8 x) = sint x"
| "number_of (VInt16 x) = sint x"
| "number_of (VInt32 x) = sint x"
| "number_of (VInt64 x) = sint x"
| "number_of v = 0"

lemma ucast_ucast_id:
  "LENGTH('a) \<le> LENGTH('b) \<Longrightarrow> ucast (ucast (x :: 'a::len word) :: 'b::len word) = x"
  by (rule bit_word_eqI) (simp add: bit_simps)

lemma ucast_scast_id:
  "LENGTH('a) \<le> LENGTH('b) \<Longrightarrow> ucast (scast (x :: 'a::len word) :: 'b::len word) = x"
  by (rule bit_word_eqI) (auto simp: bit_simps)

lemma ucast_ucast_mid:
  "LENGTH('a) \<le> LENGTH('b) \<Longrightarrow> ucast (ucast (x :: 'a::len word) :: 'b::len word) = (ucast x :: 'c::len word)"
  by (rule bit_word_eqI) (auto simp: bit_simps dest: bit_imp_le_length)

lemma ucast_scast_mid:
  "LENGTH('c) \<le> LENGTH('b) \<Longrightarrow> ucast (scast (x :: 'a::len word) :: 'b::len word) = (scast x :: 'c::len word)"
  by (rule bit_word_eqI) (auto simp: bit_simps)

lemma uint_ucast_up: "LENGTH('a) \<le> LENGTH('b) \<Longrightarrow> uint (ucast (x :: 'a::len word) :: 'b::len word) = uint x"
  by (rule bit_eqI) (auto simp: bit_simps dest: bit_imp_le_length)

lemma sint_scast_up: "LENGTH('a) \<le> LENGTH('b) \<Longrightarrow> sint (scast (x :: 'a::len word) :: 'b::len word) = sint x"
  by (rule bit_eqI) (auto simp: bit_simps min_def)

lemma static_cast_type:
  "is_matching_basic (GetTypeId v) t \<Longrightarrow> is_basic v \<Longrightarrow>
    GetTypeId (static_cast t v) = t \<and> is_basic (static_cast t v)"
  by (cases v; cases t) (simp_all add: is_matching_basic_def is_unsigned_tag_def is_signed_tag_def)

lemma static_cast_number:
  "is_matching_basic (GetTypeId v) t \<Longrightarrow> is_unsigned_tag t \<or> is_signed_tag t \<Longrightarrow> is_basic v \<Longrightarrow>
    number_of (static_cast t v) = number_of v"
  by (cases v; cases t)
    (simp_all add: is_matching_basic_def is_unsigned_tag_def is_signed_tag_def
      uint_ucast_up sint_scast_up ucast_ucast_id ucast_scast_id ucast_ucast_mid ucast_scast_mid)

lemma static_cast_same: "static_cast (GetTypeId v) v = v"
  by (cases v) (simp_all add: ucast_ucast_id ucast_scast_id)

end
