(* ===== verification/Deserializer.thy ===== *)
theory Deserializer
  imports Reading Bond_Schema
begin

text \<open>
  Deserialization into an object whose compile-time schema is also the schema of the payload:
  \<open>value<T, Reader>\<close> (\<^verbatim>\<open>src/cpp/inc/bond/core/value.h\<close>), the type switches of
  \<^verbatim>\<open>src/cpp/inc/bond/core/detail/typeid_value.h\<close>, the parsers of \<^verbatim>\<open>src/cpp/inc/bond/core/parser.h\<close>
  and \<^verbatim>\<open>detail/inheritance.h\<close>, and the transform \<open>To<T>\<close> with its validator of required fields
  (\<^verbatim>\<open>src/cpp/inc/bond/core/transforms.h\<close>).

  The members of a protocol reader that the templates call are the record \<open>Reader\<close>; the members
  \<open>ReadStructEnd\<close>, \<open>ReadFieldEnd\<close> and \<open>ReadContainerEnd\<close> are empty in all binary readers and are
  left out; \<open>r_SkipValue\<close> is \<open>value<T, Reader>::Skip\<close>. Every function of the source is a definition of its own; code that a template
  instantiates for an element or field type is passed as a function that reads into a variable
  (\<open>bvalue \<Rightarrow> (InputBuffer, bvalue) st\<close>), and \<open>des_type\<close>, \<open>des_fields\<close> and \<open>des_struct\<close> tie the
  knot. The loops over the fields of a payload end because every tag read consumes input: the
  models of the loops check this (\<open>OutOfFuel\<close> otherwise), and that the check never fails is proved
  for the readers.
\<close>

section \<open>The reader's members\<close>

record Reader =
  r_static :: bool
  r_ReadStructBegin :: "bool \<Rightarrow> (InputBuffer, unit) st"
  r_ReadFieldBegin :: "(InputBuffer, BondDataType \<times> u16) st"
  r_ReadContainerBegin :: "BondDataType \<Rightarrow> (InputBuffer, u32 \<times> BondDataType) st"
  r_ReadContainerBegin2 ::
    "BondDataType \<times> BondDataType \<Rightarrow> (InputBuffer, u32 \<times> BondDataType \<times> BondDataType) st"
  r_Read :: "BondDataType \<Rightarrow> (InputBuffer, bvalue) st"
  r_ReadBlob :: "u32 \<Rightarrow> (InputBuffer, blob) st"
  r_Skip :: "BondDataType \<Rightarrow> (InputBuffer, unit) st"
  r_SkipValue :: "btype \<Rightarrow> (InputBuffer, unit) st"

type_synonym assign = "bvalue \<Rightarrow> (InputBuffer, bvalue) st"

section \<open>Basic values\<close>

text \<open>
  \<open>value<T, Reader>::Deserialize(X&)\<close> for a basic \<open>T\<close> that matches \<open>X\<close>: read a \<open>T\<close> and cast it,
  or read the variable itself when the types are the same.
\<close>

definition Deserialize_basic :: "Reader \<Rightarrow> BondDataType \<Rightarrow> BondDataType \<Rightarrow> assign" where
  "Deserialize_basic R t x var =
     (if t = x then r_Read R t else bind (r_Read R t) (\<lambda>data. ret (static_cast x data)))"

text \<open>
  The destructor of a \<open>value\<close> that was not read skips it and swallows exceptions. Only the length
  prefix or the varint of a basic value can throw: at the end of the stream, which is where the
  position then is, or, for the length of a wide string, on overflow after the prefix was read.
\<close>

definition skip_residue :: "exn \<Rightarrow> InputBuffer \<Rightarrow> InputBuffer res" where
  "skip_residue e ib =
     (case e of
        StreamException n p l \<Rightarrow> Inr (ib\<lparr>ib_pointer := blob_length (ib_blob ib)\<rparr>)
      | OverflowError \<Rightarrow> res_bind ((ReadVariableUnsigned :: (InputBuffer, u32) st) ib) (\<lambda>(_, ib'). Inr ib')
      | _ \<Rightarrow> Inl e)"

definition Skip_nothrow :: "Reader \<Rightarrow> BondDataType \<Rightarrow> (InputBuffer, unit) st" where
  "Skip_nothrow R t ib =
     (case r_Skip R t ib of
        Inr r \<Rightarrow> Inr r
      | Inl e \<Rightarrow> res_bind (skip_residue e ib) (\<lambda>ib'. Inr ((), ib')))"

section \<open>Containers\<close>

text \<open>
  An element is skipped by \<open>element.Skip()\<close> or by \<open>input.Skip(type)\<close>; the loops take the skipping
  of an element, and for a map that of a key too.
\<close>

type_synonym skip = "(InputBuffer, unit) st"

definition SkipElements :: "skip \<Rightarrow> u32 \<Rightarrow> skip" where
  "SkipElements skip sz = repeat_st (unat sz) skip"

definition SkipElements2 :: "skip \<Rightarrow> skip \<Rightarrow> u32 \<Rightarrow> skip" where
  "SkipElements2 key_skip skip sz = repeat_st (unat sz) (bind key_skip (\<lambda>_. skip))"

text \<open>The loop over the items of a resized list\<close>

fun read_items :: "assign \<Rightarrow> bvalue list \<Rightarrow> (InputBuffer, bvalue list) st" where
  "read_items element [] = ret []"
| "read_items element (x # xs) =
     bind (element x) (\<lambda>y. bind (read_items element xs) (\<lambda>ys. ret (y # ys)))"

text \<open>The loop that inserts into a set\<close>

fun read_set :: "assign \<Rightarrow> nat \<Rightarrow> bvalue \<Rightarrow> bvalue list \<Rightarrow> (InputBuffer, bvalue list) st" where
  "read_set element 0 e s = ret s"
| "read_set element (Suc n) e s =
     bind (element e) (\<lambda>e. read_set element n e (set_insert e s))"

fun items_of :: "bvalue \<Rightarrow> bvalue list" where
  "items_of (VList t vs) = vs"
| "items_of (VSet t vs) = vs"
| "items_of v = []"

text \<open>
  \<open>DeserializeElements\<close> for the kinds of container, given the type of the container, the functions
  that deserialize and skip an element, and whether the element of the payload matches; otherwise
  the elements are skipped. A \<open>nullable\<close> takes the first element only.
\<close>

fun DeserializeElements :: "Reader \<Rightarrow> btype \<Rightarrow> bool \<Rightarrow> assign \<Rightarrow> skip \<Rightarrow> u32 \<Rightarrow> assign" where
  "DeserializeElements R X False element skip sz var = bind (SkipElements skip sz) (\<lambda>_. ret var)"
| "DeserializeElements R (TList e) True element skip sz var =
     bind (read_items element (resize_list (unat sz) (default_value e) (items_of var)))
       (\<lambda>vs. ret (VList (get_type_id e) vs))"
| "DeserializeElements R (TNullable e) True element skip sz var =
     (if sz = 0 then ret (VList (get_type_id e) [])
      else bind (element (case items_of var of [] \<Rightarrow> default_value e | v # vs \<Rightarrow> v)) (\<lambda>v.
             bind (SkipElements skip (sz - 1)) (\<lambda>_. ret (VList (get_type_id e) [v]))))"
| "DeserializeElements R (TSet t) True element skip sz var =
     bind (read_set element (unat sz) (default_basic t) []) (\<lambda>vs. ret (VSet t vs))"
| "DeserializeElements R TBlob True element skip sz var =
     bind (r_ReadBlob R sz) (\<lambda>b. ret (VBlob b))"
| "DeserializeElements R X True element skip sz var = ret var"

text \<open>
  The cases of the switches in the \<open>MatchingTypeContainer\<close>, \<open>MatchingMapByKey\<close> and
  \<open>MatchingMapByElement\<close> overloads: the type tags handled for an element (or key) type.
\<close>

fun matching_cases :: "BondDataType \<Rightarrow> BondDataType list" where
  "matching_cases BT_BOOL = [BT_BOOL]"
| "matching_cases BT_STRING = [BT_STRING]"
| "matching_cases BT_WSTRING = [BT_WSTRING]"
| "matching_cases BT_FLOAT = [BT_FLOAT, BT_DOUBLE]"
| "matching_cases BT_DOUBLE = [BT_FLOAT, BT_DOUBLE]"
| "matching_cases BT_UINT8 = [BT_UINT8, BT_UINT16, BT_UINT32, BT_UINT64]"
| "matching_cases BT_UINT16 = [BT_UINT8, BT_UINT16, BT_UINT32, BT_UINT64]"
| "matching_cases BT_UINT32 = [BT_UINT8, BT_UINT16, BT_UINT32, BT_UINT64]"
| "matching_cases BT_UINT64 = [BT_UINT8, BT_UINT16, BT_UINT32, BT_UINT64]"
| "matching_cases BT_INT8 = [BT_INT8, BT_INT16, BT_INT32, BT_INT64]"
| "matching_cases BT_INT16 = [BT_INT8, BT_INT16, BT_INT32, BT_INT64]"
| "matching_cases BT_INT32 = [BT_INT8, BT_INT16, BT_INT32, BT_INT64]"
| "matching_cases BT_INT64 = [BT_INT8, BT_INT16, BT_INT32, BT_INT64]"
| "matching_cases t = []"

definition MatchingTypeContainer ::
    "Reader \<Rightarrow> btype \<Rightarrow> BondDataType \<Rightarrow> BondDataType \<Rightarrow> u32 \<Rightarrow> assign" where
  "MatchingTypeContainer R X e type sz var =
     (if type \<in> set (matching_cases e)
      then DeserializeElements R X (is_matching_basic type e) (Deserialize_basic R type e) (r_Skip R type) sz var
      else bind (SkipElements (r_Skip R type) sz) (\<lambda>_. ret var))"

text \<open>\<open>IsMatching<T>(type)\<close>, the check the asserts of the switches make\<close>

definition IsMatching :: "BondDataType \<Rightarrow> BondDataType \<Rightarrow> bool" where
  "IsMatching e type \<longleftrightarrow> is_basic_tag type \<and> is_matching_basic type e"

text \<open>\<open>DeserializeContainer\<close> for containers of structs or containers and for basic containers\<close>

definition DeserializeContainer_nested :: "Reader \<Rightarrow> btype \<Rightarrow> btype \<Rightarrow> assign \<Rightarrow> assign" where
  "DeserializeContainer_nested R X e element var =
     bind (r_ReadContainerBegin R (get_type_id e)) (\<lambda>(sz, type).
       if type = get_type_id e then DeserializeElements R X True element (r_SkipValue R e) sz var
       else bind (SkipElements (r_Skip R type) sz) (\<lambda>_. ret var))"

definition DeserializeContainer_basic :: "Reader \<Rightarrow> btype \<Rightarrow> BondDataType \<Rightarrow> assign" where
  "DeserializeContainer_basic R X e var =
     bind (r_ReadContainerBegin R e) (\<lambda>(sz, type).
       if type = BT_SET \<or> type = BT_MAP \<or> type = BT_LIST \<or> type = BT_STRUCT
       then bind (SkipElements (r_Skip R type) sz) (\<lambda>_. ret var)
       else MatchingTypeContainer R X e type sz var)"

section \<open>Maps\<close>

text \<open>\<open>DeserializeMapElements\<close>: the map is cleared; a value is deserialized into the mapped variable.\<close>

fun read_map ::
    "assign \<Rightarrow> assign \<Rightarrow> bvalue \<Rightarrow> nat \<Rightarrow> bvalue \<Rightarrow> (bvalue \<times> bvalue) list \<Rightarrow>
      (InputBuffer, (bvalue \<times> bvalue) list) st" where
  "read_map key element d 0 k m = ret m"
| "read_map key element d (Suc n) k m =
     bind (key k) (\<lambda>k. bind (element (mapped_at d k m)) (\<lambda>v.
       read_map key element d n k (map_assign k v m)))"

definition DeserializeMapElements ::
    "Reader \<Rightarrow> BondDataType \<Rightarrow> btype \<Rightarrow> BondDataType \<Rightarrow> assign \<Rightarrow> skip \<Rightarrow> u32 \<Rightarrow> assign" where
  "DeserializeMapElements R k e keyType element skip sz var =
     (if is_matching_basic keyType k
      then bind (read_map (Deserialize_basic R keyType k) element (default_value e) (unat sz)
                   (default_basic k) [])
             (\<lambda>kvs. ret (VMap k (get_type_id e) kvs))
      else bind (SkipElements2 (r_Skip R keyType) skip sz) (\<lambda>_. ret var))"

definition MatchingMapByKey ::
    "Reader \<Rightarrow> BondDataType \<Rightarrow> btype \<Rightarrow> BondDataType \<Rightarrow> assign \<Rightarrow> skip \<Rightarrow> u32 \<Rightarrow> assign" where
  "MatchingMapByKey R k e keyType element skip sz var =
     (if keyType \<in> set (matching_cases k)
      then DeserializeMapElements R k e keyType element skip sz var
      else bind (SkipElements2 (r_Skip R keyType) skip sz) (\<lambda>_. ret var))"

text \<open>\<open>MapByKey\<close> with an element that matches the mapped type, and with one that does not\<close>

definition MapByKey ::
    "Reader \<Rightarrow> BondDataType \<Rightarrow> btype \<Rightarrow> bool \<Rightarrow> BondDataType \<Rightarrow> assign \<Rightarrow> skip \<Rightarrow> u32 \<Rightarrow> assign" where
  "MapByKey R k e match keyType element skip sz var =
     (if match then MatchingMapByKey R k e keyType element skip sz var
      else bind (SkipElements2 (r_Skip R keyType) skip sz) (\<lambda>_. ret var))"

definition MatchingMapByElement ::
    "Reader \<Rightarrow> BondDataType \<Rightarrow> BondDataType \<Rightarrow> BondDataType \<Rightarrow> BondDataType \<Rightarrow> u32 \<Rightarrow> assign" where
  "MatchingMapByElement R k e keyType elementType sz var =
     (if elementType \<in> set (matching_cases e)
      then MapByKey R k (TBasic e) (is_matching_basic elementType e) keyType
             (Deserialize_basic R elementType e) (r_Skip R elementType) sz var
      else bind (SkipElements2 (r_Skip R keyType) (r_Skip R elementType) sz) (\<lambda>_. ret var))"

definition DeserializeMap_nested :: "Reader \<Rightarrow> BondDataType \<Rightarrow> btype \<Rightarrow> assign \<Rightarrow> assign" where
  "DeserializeMap_nested R k e element var =
     bind (r_ReadContainerBegin2 R (k, get_type_id e)) (\<lambda>(sz, keyType, elementType).
       if elementType = get_type_id e
       then MapByKey R k e True keyType element (r_SkipValue R e) sz var
       else bind (SkipElements2 (r_Skip R keyType) (r_Skip R elementType) sz) (\<lambda>_. ret var))"

definition DeserializeMap_basic :: "Reader \<Rightarrow> BondDataType \<Rightarrow> BondDataType \<Rightarrow> assign" where
  "DeserializeMap_basic R k e var =
     bind (r_ReadContainerBegin2 R (k, e)) (\<lambda>(sz, keyType, elementType).
       if elementType = BT_SET \<or> elementType = BT_MAP \<or> elementType = BT_LIST \<or> elementType = BT_STRUCT
       then bind (SkipElements2 (r_Skip R keyType) (r_Skip R elementType) sz) (\<lambda>_. ret var)
       else MatchingMapByElement R k e keyType elementType sz var)"

section \<open>The transform To\<close>

definition ElementNotFoundException :: exn where
  "ElementNotFoundException = CoreException ''Map element not found''"

definition MissingFieldException :: exn where
  "MissingFieldException = CoreException ''De-serialization failed: required field is missing''"

definition UnexpectedStructStopException :: exn where
  "UnexpectedStructStopException =
     CoreException ''De-serialization failed: unexpected struct stop encountered''"

text \<open>\<open>RequiredFieldValiadator::Validate\<close> of a field and of the end of the struct\<close>

definition Validate_field :: "fdef list \<Rightarrow> fdef \<Rightarrow> u16 \<Rightarrow> u16 res" where
  "Validate_field fs fd required =
     (if md_modifier (fd_metadata fd) = Required
      then if required = fd_id fd then Inr (next_required_field fs (fd_id fd + 1))
           else Inl MissingFieldException
      else Inr required)"

definition Validate_struct :: "u16 \<Rightarrow> unit res" where
  "Validate_struct required =
     (if required \<noteq> invalid_field_id then Inl MissingFieldException else Inr ())"

text \<open>\<open>AssignToVar\<close>; \<open>set_value\<close> of a \<open>maybe\<close> default-constructs the value if there is none.\<close>

fun AssignToVar :: "fdef \<Rightarrow> (bvalue \<Rightarrow> ('s, bvalue) st) \<Rightarrow> bfield \<Rightarrow> ('s, bfield) st" where
  "AssignToVar fd value (Field fid md v) = bind (value v) (\<lambda>v. ret (Field fid md v))"
| "AssignToVar fd value (MaybeField fid md t None) =
     bind (value (default_value (fd_type fd))) (\<lambda>v. ret (MaybeField fid md t (Some v)))"
| "AssignToVar fd value (MaybeField fid md t (Some v)) =
     bind (value v) (\<lambda>v. ret (MaybeField fid md t (Some v)))"

definition To_Field ::
    "fdef list \<Rightarrow> fdef \<Rightarrow> (bvalue \<Rightarrow> ('s, bvalue) st) \<Rightarrow> bfield \<Rightarrow> u16 \<Rightarrow> ('s, bfield \<times> u16) st" where
  "To_Field fs fd value var required =
     bind (lift_res (Validate_field fs fd required)) (\<lambda>required.
       bind (AssignToVar fd value var) (\<lambda>var. ret (var, required)))"

text \<open>
  \<open>BasicTypeField\<close> with \<open>To\<close>, for the field of the schema that has the id: \<open>AssignToField\<close> finds
  the field if the type matches; otherwise the value is skipped when it is destroyed.
\<close>

definition BasicTypeField ::
    "Reader \<Rightarrow> fdef list \<Rightarrow> fdef \<Rightarrow> BondDataType \<Rightarrow> bfield \<Rightarrow> u16 \<Rightarrow> (InputBuffer, bfield \<times> u16) st" where
  "BasicTypeField R fs fd type var required =
     (if \<not> is_basic_tag type then ret (var, required)
      else if is_matching_basic type (get_type_id (fd_type fd))
      then To_Field fs fd (Deserialize_basic R type (get_type_id (fd_type fd))) var required
      else bind (Skip_nothrow R type) (\<lambda>_. ret (var, required)))"

section \<open>The parsers\<close>

text \<open>\<open>UnknownField\<close> with \<open>To\<close> skips the field.\<close>

definition UnknownFieldOrTypeMismatch ::
    "Reader \<Rightarrow> fdef list \<Rightarrow> fdef \<Rightarrow> u16 \<Rightarrow> BondDataType \<Rightarrow> bfield \<Rightarrow> u16 \<Rightarrow>
      (InputBuffer, bfield \<times> u16) st" where
  "UnknownFieldOrTypeMismatch R fs fd fid type var required =
     (if is_basic_type (fd_type fd) \<and> fid = fd_id fd \<and>
         type \<noteq> BT_LIST \<and> type \<noteq> BT_SET \<and> type \<noteq> BT_MAP \<and> type \<noteq> BT_STRUCT
      then BasicTypeField R fs fd type var required
      else bind (r_Skip R type) (\<lambda>_. ret (var, required)))"

definition left :: "InputBuffer \<Rightarrow> nat" where
  "left ib = length (ib_rest ib)"

text \<open>\<open>DynamicParser::ReadFields\<close> after the last field of the schema\<close>

function dp_SkipFields ::
    "Reader \<Rightarrow> BondDataType \<Rightarrow> u16 \<Rightarrow> InputBuffer \<Rightarrow> ((BondDataType \<times> u16) \<times> InputBuffer) res" where
  "dp_SkipFields R type fid ib =
     (if is_stop type then Inr ((type, fid), ib)
      else res_bind (r_Skip R type ib) (\<lambda>(_, ib1).
             res_bind (r_ReadFieldBegin R ib1) (\<lambda>((type, fid), ib2).
               if left ib2 < left ib then dp_SkipFields R type fid ib2 else Inl OutOfFuel)))"
  by pat_completeness auto
termination by (relation "measure (\<lambda>(R, type, fid, ib). left ib)") auto

text \<open>\<open>ReadUnknownFields\<close>: the rest of the hierarchy, up to the end of the struct\<close>

function ReadUnknownFields ::
    "Reader \<Rightarrow> BondDataType \<Rightarrow> u16 \<Rightarrow> InputBuffer \<Rightarrow> (unit \<times> InputBuffer) res" where
  "ReadUnknownFields R type fid ib =
     (if type = BT_STOP then Inr ((), ib)
      else res_bind (if type = BT_STOP_BASE then Inr ((), ib) else r_Skip R type ib) (\<lambda>(_, ib1).
             res_bind (r_ReadFieldBegin R ib1) (\<lambda>((type, fid), ib2).
               if left ib2 < left ib then ReadUnknownFields R type fid ib2 else Inl OutOfFuel)))"
  by pat_completeness auto
termination by (relation "measure (\<lambda>(R, type, fid, ib). left ib)") auto

declare dp_SkipFields.simps [simp del] ReadUnknownFields.simps [simp del]

text \<open>
  \<open>DynamicParser::ReadFields\<close> with the fields of the schema: the head of the schema against the
  id and type of the next field of the payload. The variables are those of the object's fields.
\<close>

function (sequential) dp_ReadFields ::
    "Reader \<Rightarrow> fdef list \<Rightarrow> (fdef \<times> assign) list \<Rightarrow> bfield list \<Rightarrow> u16 \<Rightarrow> BondDataType \<Rightarrow> u16 \<Rightarrow>
      InputBuffer \<Rightarrow> ((bfield list \<times> u16 \<times> BondDataType \<times> u16) \<times> InputBuffer) res" where
  "dp_ReadFields R fs [] vars required type fid ib =
     res_bind (dp_SkipFields R type fid ib) (\<lambda>((type, fid), ib).
       Inr ((vars, required, type, fid), ib))"
| "dp_ReadFields R fs ((fd, value) # heads) (var # vars) required type fid ib =
     (if (fd_id fd = fid \<and> get_type_id (fd_type fd) = type) \<or> (fd_id fd \<ge> fid \<and> \<not> is_stop type)
      then res_bind ((if fd_id fd = fid \<and> get_type_id (fd_type fd) = type
                      then To_Field fs fd value var required
                      else UnknownFieldOrTypeMismatch R fs fd fid type var required) ib)
             (\<lambda>((var, required), ib1).
               res_bind (r_ReadFieldBegin R ib1) (\<lambda>((type, fid), ib2).
                 if fd_id fd < fid \<or> is_stop type
                 then res_bind (dp_ReadFields R fs heads vars required type fid ib2)
                        (\<lambda>((vars, r), ib3). Inr ((var # vars, r), ib3))
                 else if left ib2 < left ib
                 then dp_ReadFields R fs ((fd, value) # heads) (var # vars) required type fid ib2
                 else Inl OutOfFuel))
      else res_bind (dp_ReadFields R fs heads vars required type fid ib)
             (\<lambda>((vars, r), ib). Inr ((var # vars, r), ib)))"
| "dp_ReadFields R fs heads vars required type fid ib = Inl OutOfBounds"
  by pat_completeness auto
termination
  by (relation "measures [\<lambda>(R, fs, heads, vars, required, type, fid, ib). length heads,
      \<lambda>(R, fs, heads, vars, required, type, fid, ib). left ib]") auto

declare dp_ReadFields.simps [simp del]

text \<open>\<open>DynamicParser::ReadFields\<close>: the result says whether the struct ended inside a base.\<close>

definition DynamicParser_ReadFields ::
    "Reader \<Rightarrow> bool \<Rightarrow> (fdef \<times> assign) list \<Rightarrow> bfield list \<Rightarrow> u16 \<Rightarrow>
      (InputBuffer, bool \<times> bfield list \<times> u16) st" where
  "DynamicParser_ReadFields R base heads vars required =
     bind (r_ReadFieldBegin R) (\<lambda>(type, fid).
       bind (dp_ReadFields R (map fst heads) heads vars required type fid)
         (\<lambda>(vars, required, type, fid).
           if \<not> base then bind (ReadUnknownFields R type fid) (\<lambda>_. ret (False, vars, required))
           else ret (type = BT_STOP, vars, required)))"

text \<open>\<open>StaticParser::ReadFields\<close>: the payload has every field, in the order of the schema.\<close>

fun sp_ReadFields ::
    "fdef list \<Rightarrow> (fdef \<times> assign) list \<Rightarrow> bfield list \<Rightarrow> u16 \<Rightarrow> (InputBuffer, bfield list \<times> u16) st" where
  "sp_ReadFields fs [] vars required = ret (vars, required)"
| "sp_ReadFields fs ((fd, value) # heads) (var # vars) required =
     bind (To_Field fs fd value var required) (\<lambda>(var, required).
       bind (sp_ReadFields fs heads vars required) (\<lambda>(vars, required). ret (var # vars, required)))"
| "sp_ReadFields fs heads vars required = throw OutOfBounds"

definition StaticParser_ReadFields ::
    "(fdef \<times> assign) list \<Rightarrow> bfield list \<Rightarrow> u16 \<Rightarrow> (InputBuffer, bool \<times> bfield list \<times> u16) st" where
  "StaticParser_ReadFields heads vars required =
     bind (sp_ReadFields (map fst heads) heads vars required) (\<lambda>(vars, required).
       ret (False, vars, required))"

definition ReadFields ::
    "Reader \<Rightarrow> bool \<Rightarrow> (fdef \<times> assign) list \<Rightarrow> bfield list \<Rightarrow> u16 \<Rightarrow>
      (InputBuffer, bool \<times> bfield list \<times> u16) st" where
  "ReadFields R base heads vars required =
     (if r_static R then StaticParser_ReadFields heads vars required
      else DynamicParser_ReadFields R base heads vars required)"

text \<open>
  \<open>ParserInheritance::Read\<close> with \<open>To\<close>, after the base: the fields of this struct and the end of
  the validator.
\<close>

definition Read_struct ::
    "Reader \<Rightarrow> bool \<Rightarrow> (fdef \<times> assign) list \<Rightarrow> Metadata \<Rightarrow> bstruct option \<Rightarrow> bfield list \<Rightarrow>
      (InputBuffer, bool \<times> bstruct) st" where
  "Read_struct R base heads md b vars =
     bind (ReadFields R base heads vars (next_required_field (map fst heads) 0))
       (\<lambda>(done, vars, required).
         bind (lift_res (Validate_struct required)) (\<lambda>_. ret (done, Struct md b vars)))"

text \<open>\<open>AssignToBase\<close>\<close>

definition AssignToBase :: "(InputBuffer, bool \<times> bstruct) st \<Rightarrow> (InputBuffer, bstruct) st" where
  "AssignToBase m =
     bind m (\<lambda>(done, b). if done then throw UnexpectedStructStopException else ret b)"

fun fields_of :: "bstruct \<Rightarrow> bfield list" where
  "fields_of (Struct md b fs) = fs"

fun base_of :: "bstruct \<Rightarrow> bstruct option" where
  "base_of (Struct md b fs) = b"

fun struct_of :: "bvalue \<Rightarrow> bstruct" where
  "struct_of (VStruct s) = s"
| "struct_of v = Struct Metadata_init None []"

text \<open>
  \<open>value<T, Reader>::Deserialize\<close> by the type, the fields of a struct with the code that
  deserializes each, and \<open>Parser(input, base).Apply(To<T>(var), schema)\<close>.
\<close>

function (sequential) des_type :: "Reader \<Rightarrow> btype \<Rightarrow> assign"
  and des_fields :: "Reader \<Rightarrow> fdef list \<Rightarrow> (fdef \<times> assign) list"
  and des_struct :: "Reader \<Rightarrow> sschema \<Rightarrow> bool \<Rightarrow> bstruct \<Rightarrow> (InputBuffer, bool \<times> bstruct) st" where
  "des_type R (TBasic t) = Deserialize_basic R t t"
| "des_type R TBlob = DeserializeContainer_basic R TBlob BT_INT8"
| "des_type R (TNullable (TBasic t)) = DeserializeContainer_basic R (TNullable (TBasic t)) t"
| "des_type R (TNullable e) = DeserializeContainer_nested R (TNullable e) e (des_type R e)"
| "des_type R (TList (TBasic t)) = DeserializeContainer_basic R (TList (TBasic t)) t"
| "des_type R (TList e) = DeserializeContainer_nested R (TList e) e (des_type R e)"
| "des_type R (TSet t) = DeserializeContainer_basic R (TSet t) t"
| "des_type R (TMap k (TBasic t)) = DeserializeMap_basic R k t"
| "des_type R (TMap k e) = DeserializeMap_nested R k e (des_type R e)"
| "des_type R (TStruct s) =
     (\<lambda>var. bind (des_struct R s False (struct_of var)) (\<lambda>(done, s'). ret (VStruct s')))"
| "des_fields R [] = []"
| "des_fields R (FieldDef fid md mb t # fs) = (FieldDef fid md mb t, des_type R t) # des_fields R fs"
| "des_struct R (Schema md None fs) =
     (\<lambda>base var. bind (r_ReadStructBegin R base) (\<lambda>_.
        Read_struct R base (des_fields R fs) md None (fields_of var)))"
| "des_struct R (Schema md (Some b) fs) =
     (\<lambda>base var. bind (r_ReadStructBegin R base) (\<lambda>_.
        bind (AssignToBase (des_struct R b True (the (base_of var)))) (\<lambda>b'.
          Read_struct R base (des_fields R fs) md (Some b') (fields_of var))))"
  by pat_completeness auto
termination
  by (relation "measure (case_sum (\<lambda>(R, t). size t)
      (case_sum (\<lambda>(R, fs). size_list size fs) (\<lambda>(R, s). size s)))") auto

text \<open>\<open>bonded<T, Reader>::Deserialize\<close> to a default-constructed object\<close>

definition Deserialize :: "Reader \<Rightarrow> sschema \<Rightarrow> (InputBuffer, bstruct) st" where
  "Deserialize R s = bind (des_struct R s False (default_struct s)) (\<lambda>(done, var). ret var)"

end
