(* ===== verification/Simple_Binary.thy ===== *)
theory Simple_Binary
  imports Wire_Scalars
begin

text \<open>
  The Simple Binary protocol, \<^verbatim>\<open>src/cpp/inc/bond/protocol/simple_binary.h\<close> and
  \<^verbatim>\<open>simple_binary_impl.h\<close>: an untagged protocol, so that neither fields nor structs leave a trace
  of their own in the payload and an omitted field is written as its default value. The member
  \<open>_version\<close> never changes in the writer and only in \<open>ReadVersion\<close> in the reader; the operations
  take it as an argument. \<open>VariantGet\<close> gives the default value that stands for an omitted field.
\<close>

unbundle bit_operations_syntax

section \<open>Writer\<close>

definition simple_magic :: u16 where "simple_magic = 0x5053"

definition sb_WriteVersion :: "'b Buffer \<Rightarrow> u16 \<Rightarrow> 'b \<Rightarrow> 'b res" where
  "sb_WriteVersion B version = seq (b_Write B (le_bytes 2 simple_magic)) (b_Write B (le_bytes 2 version))"

definition sb_WriteSize :: "'b Buffer \<Rightarrow> u16 \<Rightarrow> u32 \<Rightarrow> 'b \<Rightarrow> 'b res" where
  "sb_WriteSize B version sz =
     (if version = v1 then b_Write B (le_bytes 4 sz) else b_WriteVariableUnsigned32 B sz)"

fun sb_Write :: "'b Buffer \<Rightarrow> u16 \<Rightarrow> bvalue \<Rightarrow> 'b \<Rightarrow> 'b res" where
  "sb_Write B version (VString s) =
     seq (sb_WriteSize B version (string_length s)) (WriteStringData B s (string_length s))"
| "sb_Write B version (VWString s) =
     seq (sb_WriteSize B version (string_length s)) (WriteWStringData B s (string_length s))"
| "sb_Write B version v = b_Write B (object_bytes v)"

definition sb_WriteStructBegin :: "Metadata \<Rightarrow> bool \<Rightarrow> 'b \<Rightarrow> 'b res" where
  "sb_WriteStructBegin metadata base = Inr"

definition sb_WriteStructEnd :: "bool \<Rightarrow> 'b \<Rightarrow> 'b res" where
  "sb_WriteStructEnd base = Inr"

definition sb_WriteFieldBegin :: "BondDataType \<Rightarrow> u16 \<Rightarrow> Metadata \<Rightarrow> 'b \<Rightarrow> 'b res" where
  "sb_WriteFieldBegin type fid metadata = Inr"

definition sb_WriteFieldEnd :: "'b \<Rightarrow> 'b res" where
  "sb_WriteFieldEnd = Inr"

definition sb_WriteField :: "'b Buffer \<Rightarrow> u16 \<Rightarrow> u16 \<Rightarrow> Metadata \<Rightarrow> bvalue \<Rightarrow> 'b \<Rightarrow> 'b res" where
  "sb_WriteField B version fid metadata v = sb_Write B version v"

definition sb_WriteContainerBegin :: "'b Buffer \<Rightarrow> u16 \<Rightarrow> u32 \<Rightarrow> 't \<Rightarrow> 'b \<Rightarrow> 'b res" where
  "sb_WriteContainerBegin B version sz type = sb_WriteSize B version sz"

definition sb_WriteContainerEnd :: "'b \<Rightarrow> 'b res" where
  "sb_WriteContainerEnd = Inr"

text \<open>\<open>WriteFieldOmitted\<close>\<close>

fun sb_WriteFieldOmitted :: "'b Buffer \<Rightarrow> u16 \<Rightarrow> BondDataType \<Rightarrow> u16 \<Rightarrow> Metadata \<Rightarrow> 'b \<Rightarrow> 'b res" where
  "sb_WriteFieldOmitted B version BT_BOOL fid md =
     sb_Write B version (VBool (uint_value (md_default_value md) \<noteq> 0))"
| "sb_WriteFieldOmitted B version BT_UINT8 fid md =
     sb_Write B version (VUInt8 (ucast (uint_value (md_default_value md))))"
| "sb_WriteFieldOmitted B version BT_UINT16 fid md =
     sb_Write B version (VUInt16 (ucast (uint_value (md_default_value md))))"
| "sb_WriteFieldOmitted B version BT_UINT32 fid md =
     sb_Write B version (VUInt32 (ucast (uint_value (md_default_value md))))"
| "sb_WriteFieldOmitted B version BT_UINT64 fid md =
     sb_Write B version (VUInt64 (uint_value (md_default_value md)))"
| "sb_WriteFieldOmitted B version BT_FLOAT fid md =
     sb_Write B version (VFloat (double_to_float (double_value (md_default_value md))))"
| "sb_WriteFieldOmitted B version BT_DOUBLE fid md =
     sb_Write B version (VDouble (double_value (md_default_value md)))"
| "sb_WriteFieldOmitted B version BT_STRING fid md =
     sb_Write B version (VString (string_value (md_default_value md)))"
| "sb_WriteFieldOmitted B version BT_LIST fid md = sb_WriteContainerBegin B version 0 BT_LIST"
| "sb_WriteFieldOmitted B version BT_SET fid md = sb_WriteContainerBegin B version 0 BT_SET"
| "sb_WriteFieldOmitted B version BT_MAP fid md = sb_WriteContainerBegin B version 0 BT_MAP"
| "sb_WriteFieldOmitted B version BT_INT8 fid md =
     sb_Write B version (VInt8 (ucast (int_value (md_default_value md))))"
| "sb_WriteFieldOmitted B version BT_INT16 fid md =
     sb_Write B version (VInt16 (ucast (int_value (md_default_value md))))"
| "sb_WriteFieldOmitted B version BT_INT32 fid md =
     sb_Write B version (VInt32 (ucast (int_value (md_default_value md))))"
| "sb_WriteFieldOmitted B version BT_INT64 fid md =
     sb_Write B version (VInt64 (int_value (md_default_value md)))"
| "sb_WriteFieldOmitted B version BT_WSTRING fid md =
     sb_Write B version (VWString (wstring_value (md_default_value md)))"
| "sb_WriteFieldOmitted B version t fid md = Inr"

definition simple_writer :: "'b Buffer \<Rightarrow> u16 \<Rightarrow> 'b Writer" where
  "simple_writer B version =
     \<lparr>w_may_omit_fields = False, w_WriteStructBegin = sb_WriteStructBegin,
      w_WriteStructEnd = sb_WriteStructEnd, w_WriteField = sb_WriteField B version,
      w_WriteFieldBegin = sb_WriteFieldBegin, w_WriteFieldEnd = sb_WriteFieldEnd,
      w_WriteFieldOmitted = sb_WriteFieldOmitted B version,
      w_WriteContainerBegin = sb_WriteContainerBegin B version,
      w_WriteContainerBegin2 = sb_WriteContainerBegin B version,
      w_WriteContainerEnd = sb_WriteContainerEnd, w_Write = sb_Write B version,
      w_WriteBlob = b_WriteBlob B\<rparr>"

section \<open>Reader\<close>

definition sr_ReadVersion :: "(InputBuffer, bool \<times> u16) st" where
  "sr_ReadVersion =
     bind (ib_read_le 2) (\<lambda>magic_value. bind (ib_read_le 2) (\<lambda>version.
       ret (magic_value = simple_magic \<and> version \<le> v2, version)))"

definition sr_ReadSize :: "u16 \<Rightarrow> (InputBuffer, u32) st" where
  "sr_ReadSize version = (if version = v1 then ib_read_le 4 else ReadVariableUnsigned)"

fun sr_Read :: "u16 \<Rightarrow> BondDataType \<Rightarrow> (InputBuffer, bvalue) st" where
  "sr_Read version BT_STRING =
     bind (sr_ReadSize version) (\<lambda>len. bind (ReadStringData len) (\<lambda>s. ret (VString s)))"
| "sr_Read version BT_WSTRING =
     bind (sr_ReadSize version) (\<lambda>len. bind (ReadWStringData len) (\<lambda>s. ret (VWString s)))"
| "sr_Read version t = read_object t"

definition sr_ReadContainerBegin :: "u16 \<Rightarrow> (InputBuffer, u32) st" where
  "sr_ReadContainerBegin version = sr_ReadSize version"

text \<open>
  \<open>Skip(BondDataType)\<close>; the number of bytes of a wide string is converted back to \<open>uint32_t\<close>
  without a check.
\<close>

fun sr_Skip :: "u16 \<Rightarrow> BondDataType \<Rightarrow> (InputBuffer, unit) st" where
  "sr_Skip version BT_BOOL = ib_skip 1"
| "sr_Skip version BT_UINT8 = ib_skip 1"
| "sr_Skip version BT_INT8 = ib_skip 1"
| "sr_Skip version BT_UINT16 = ib_skip 2"
| "sr_Skip version BT_INT16 = ib_skip 2"
| "sr_Skip version BT_UINT32 = ib_skip 4"
| "sr_Skip version BT_INT32 = ib_skip 4"
| "sr_Skip version BT_UINT64 = ib_skip 8"
| "sr_Skip version BT_INT64 = ib_skip 8"
| "sr_Skip version BT_FLOAT = ib_skip 4"
| "sr_Skip version BT_DOUBLE = ib_skip 8"
| "sr_Skip version BT_STRING = bind (sr_ReadSize version) (\<lambda>len. ib_skip len)"
| "sr_Skip version BT_WSTRING = bind (sr_ReadSize version) (\<lambda>len. ib_skip (len * 2))"
| "sr_Skip version t = ret ()"

section \<open>The writer implements the format\<close>

definition simple_size :: "u16 \<Rightarrow> u32 \<Rightarrow> byte list" where
  "simple_size version n = (if version = v1 then le_bytes 4 n else varint (unat n))"

fun simple_basic :: "u16 \<Rightarrow> bvalue \<Rightarrow> byte list" where
  "simple_basic version (VString s) = simple_size version (string_length s) @ s"
| "simple_basic version (VWString s) = simple_size version (string_length s) @ wstring_bytes s"
| "simple_basic version v = object_bytes v"

definition simple_format :: "u16 \<Rightarrow> format" where
  "simple_format version =
     \<lparr>f_may_omit_fields = False, f_struct = (\<lambda>base e. e), f_field = (\<lambda>t fid. []),
      f_container = (\<lambda>n t. simple_size version n),
      f_container2 = (\<lambda>n k t. simple_size version n), f_basic = simple_basic version\<rparr>"

lemma simple_format_simps:
  "f_may_omit_fields (simple_format version) = False"
  "f_struct (simple_format version) base e = e"
  "f_field (simple_format version) t fid = []"
  "f_container (simple_format version) n t = simple_size version n"
  "f_container2 (simple_format version) n k t = simple_size version n"
  "f_basic (simple_format version) = simple_basic version"
  by (simp_all add: simple_format_def)

lemmas sb_writer_defs = simple_writer_def sb_WriteStructBegin_def sb_WriteStructEnd_def
  sb_WriteFieldBegin_def sb_WriteFieldEnd_def sb_WriteField_def sb_WriteContainerBegin_def
  sb_WriteContainerEnd_def

context output_stream
begin

lemma sb_WriteSize_appends: "stream_appends holds (sb_WriteSize B version n) (simple_size version n)"
  by (simp add: sb_WriteSize_def simple_size_def Write_law Var32_law del: le_bytes.simps)

lemma sb_Write_appends:
  assumes "is_basic v" and "wf_value mo v"
  shows "stream_appends holds (sb_Write B version v) (simple_basic version v)"
proof (cases "is_object v")
  case True
  then have "sb_Write B version v = b_Write B (object_bytes v)" "simple_basic version v = object_bytes v"
    by (cases v; simp)+
  then show ?thesis by (simp add: Write_law)
next
  case False
  with assms(1) consider s where "v = VString s" | s where "v = VWString s" by (cases v) auto
  then show ?thesis
    by cases (use assms(2) in \<open>auto intro!: stream_appends_seq' sb_WriteSize_appends
      WriteStringData_appends WriteWStringData_appends\<close>)
qed

end

sublocale output_stream \<subseteq> simple: protocol_writer "simple_writer B version" "simple_format version"
    "\<lambda>m e. stream_appends holds m (fst e)" for version
proof (unfold_locales, goal_cases)
  case (3 m a m' b)
  then show ?case by (simp add: stream_appends_seq')
qed (auto simp: sb_writer_defs simple_format_simps stream_appends_Nil
      intro!: sb_WriteSize_appends sb_Write_appends WriteBlob_law)

text \<open>An omitted field of a basic type is written as the default value of its type.\<close>

lemma sb_WriteFieldOmitted_default:
  "VariantGet (md_default_value md) t = Some v \<Longrightarrow>
   sb_WriteFieldOmitted B version t fid md = sb_Write B version v"
  by (cases t) auto

section \<open>Reading back\<close>

lemma decodes_sr_ReadSize: "decodes (sr_ReadSize version) (simple_size version n) n"
  by (simp add: sr_ReadSize_def simple_size_def decodes_le decodes_varint32 del: le_bytes.simps)

lemma decodes_sr_Read:
  assumes "is_basic v" and "wf_value mo v"
  shows "decodes (sr_Read version (GetTypeId v)) (simple_basic version v) v"
proof (cases "is_object v")
  case True
  then have "sr_Read version (GetTypeId v) = read_object (GetTypeId v)"
      "simple_basic version v = object_bytes v"
    by (cases v; simp)+
  with True show ?thesis by (simp add: decodes_object)
next
  case False
  with assms(1) consider s where "v = VString s" | s where "v = VWString s" by (cases v) auto
  then show ?thesis
    by cases (use assms(2) in \<open>auto intro!: decodes_bind [OF decodes_sr_ReadSize] decodes_map
      decodes_string decodes_wstring\<close>)
qed

lemma decodes_sr_Skip:
  assumes "is_basic v" and "wf_value mo v"
  shows "decodes (sr_Skip version (GetTypeId v)) (simple_basic version v) ()"
proof -
  have w: "decodes (ib_skip (string_length s * 2)) (wstring_bytes s) ()" if "length s < 2 ^ 31" for s
    using that by (intro decodes_skip)
      (auto simp: string_length_def unat_word_ariths unat_of_nat)
  show ?thesis
    using assms
    by (cases v) (auto intro!: decodes_skip decodes_bind [OF decodes_sr_ReadSize] w
        simp: string_length_small)
qed

lemma sr_Read_safe_size: "reads_safely r 1 (sr_ReadSize version)"
  by (auto simp: sr_ReadSize_def intro!: reads_safely_varint32 [unfolded One_nat_def] reads_safely_weaken [OF reads_safely_le])

lemma sr_Skip_safe: "reads_safely r 0 (sr_Skip version t)"
  by (cases t) (auto intro!: reads_safely_skip reads_safely_ret reads_safely_bind0
      reads_safely_any [OF sr_Read_safe_size])

end
