(* ===== verification/Readers.thy ===== *)
theory Readers
  imports Deserializer Compact_Reader Fast_Binary Simple_Binary
begin

text \<open>
  The readers of the three binary protocols as instances of the record \<open>Reader\<close> of theory
  \<open>Deserializer\<close>. Compact and Fast Binary are tagged: the dynamic parser asks them for the type of
  every field and element, and a value is skipped by its type. Simple Binary is untagged: the
  static parser reads the fields of the schema, \<open>ReadContainerBegin\<close> leaves the types it is given,
  and a value is skipped element by element and field by field
  (\<open>Skip\<close>, \<open>SkipContainer\<close> and \<open>SkipMap\<close> of \<^verbatim>\<open>src/cpp/inc/bond/core/value.h\<close>, the transform \<open>Null\<close>).
\<close>

section \<open>Tagged protocols\<close>

definition compact_reader :: "u16 \<Rightarrow> Reader" where
  "compact_reader version =
     \<lparr>r_static = False, r_ReadStructBegin = cr_ReadStructBegin version,
      r_ReadFieldBegin = cr_ReadFieldBegin,
      r_ReadContainerBegin = (\<lambda>type. cr_ReadContainerBegin version),
      r_ReadContainerBegin2 = (\<lambda>type. cr_ReadContainerBegin2),
      r_Read = cr_Read, r_ReadBlob = ib_read_blob, r_Skip = cr_SkipType version,
      r_SkipValue = (\<lambda>t. cr_SkipType version (get_type_id t))\<rparr>"

definition fast_reader :: Reader where
  "fast_reader =
     \<lparr>r_static = False, r_ReadStructBegin = (\<lambda>base. fb_ReadStructBegin),
      r_ReadFieldBegin = fb_ReadFieldBegin,
      r_ReadContainerBegin = (\<lambda>type. fb_ReadContainerBegin),
      r_ReadContainerBegin2 = (\<lambda>type. fb_ReadContainerBegin2),
      r_Read = fb_Read, r_ReadBlob = ib_read_blob, r_Skip = fb_SkipType,
      r_SkipValue = (\<lambda>t. fb_SkipType (get_type_id t))\<rparr>"

section \<open>Skipping with the static parser\<close>

text \<open>
  A skip that fails inside a field of a struct is caught by the destructor of the field's value
  and the next field is skipped from where the failed one stopped. A skip is therefore modelled
  with the exception it throws, if any, and the buffer it leaves. Only the size of a string or
  container can fail to be read: in version 1 the position stays, in version 2 the end of the
  buffer is reached.
\<close>

type_synonym attempt = "InputBuffer \<Rightarrow> exn option \<times> InputBuffer"

definition attempt_size :: "u16 \<Rightarrow> (InputBuffer, 'a) st \<Rightarrow> ('a \<Rightarrow> attempt) \<Rightarrow> attempt" where
  "attempt_size version m f ib =
     (case m ib of
        Inr (x, ib') \<Rightarrow> f x ib'
      | Inl e \<Rightarrow> (Some e, if version = v1 then ib else ib\<lparr>ib_pointer := blob_length (ib_blob ib)\<rparr>))"

definition attempt_seq :: "attempt \<Rightarrow> attempt \<Rightarrow> attempt" where
  "attempt_seq a b ib = (case a ib of (None, ib') \<Rightarrow> b ib' | r \<Rightarrow> r)"

fun attempt_repeat :: "nat \<Rightarrow> attempt \<Rightarrow> attempt" where
  "attempt_repeat 0 a = (\<lambda>ib. (None, ib))"
| "attempt_repeat (Suc n) a = attempt_seq a (attempt_repeat n a)"

definition static_Skip_basic :: "u16 \<Rightarrow> BondDataType \<Rightarrow> attempt" where
  "static_Skip_basic version t = attempt_size version (sr_Skip version t) (\<lambda>_ ib. (None, ib))"

text \<open>\<open>SkipContainer\<close>, and \<open>SkipMap\<close> whose items are a key and an element\<close>

definition SkipContainer :: "u16 \<Rightarrow> attempt \<Rightarrow> attempt" where
  "SkipContainer version element =
     attempt_size version (sr_ReadContainerBegin version) (\<lambda>sz. attempt_repeat (unat sz) element)"

definition SkipMap :: "u16 \<Rightarrow> BondDataType \<Rightarrow> attempt \<Rightarrow> attempt" where
  "SkipMap version keyType element =
     attempt_size version (sr_ReadContainerBegin version)
       (\<lambda>sz. attempt_repeat (unat sz) (attempt_seq (static_Skip_basic version keyType) element))"

function (sequential) static_Skip :: "u16 \<Rightarrow> btype \<Rightarrow> attempt"
  and static_SkipFields :: "u16 \<Rightarrow> fdef list \<Rightarrow> InputBuffer \<Rightarrow> InputBuffer"
  and static_SkipStruct :: "u16 \<Rightarrow> sschema \<Rightarrow> InputBuffer \<Rightarrow> InputBuffer" where
  "static_Skip version (TBasic t) = static_Skip_basic version t"
| "static_Skip version TBlob = SkipContainer version (static_Skip_basic version BT_INT8)"
| "static_Skip version (TNullable e) = SkipContainer version (static_Skip version e)"
| "static_Skip version (TList e) = SkipContainer version (static_Skip version e)"
| "static_Skip version (TSet t) = SkipContainer version (static_Skip_basic version t)"
| "static_Skip version (TMap k e) = SkipMap version k (static_Skip version e)"
| "static_Skip version (TStruct s) = (\<lambda>ib. (None, static_SkipStruct version s ib))"
| "static_SkipFields version [] = (\<lambda>ib. ib)"
| "static_SkipFields version (FieldDef fid md mb t # fs) =
     (\<lambda>ib. static_SkipFields version fs (snd (static_Skip version t ib)))"
| "static_SkipStruct version (Schema md None fs) = static_SkipFields version fs"
| "static_SkipStruct version (Schema md (Some b) fs) =
     (\<lambda>ib. static_SkipFields version fs (static_SkipStruct version b ib))"
  by pat_completeness auto
termination
  by (relation "measure (case_sum (\<lambda>(v, t). size t)
      (case_sum (\<lambda>(v, fs). size_list size fs) (\<lambda>(v, s). size s)))") auto

definition sr_SkipValue :: "u16 \<Rightarrow> btype \<Rightarrow> (InputBuffer, unit) st" where
  "sr_SkipValue version t ib =
     (case static_Skip version t ib of (None, ib') \<Rightarrow> Inr ((), ib') | (Some e, ib') \<Rightarrow> Inl e)"

text \<open>
  \<open>detail::StructBegin\<close> does nothing for a reader without the member, and the static parser never
  asks for a field.
\<close>

definition simple_reader :: "u16 \<Rightarrow> Reader" where
  "simple_reader version =
     \<lparr>r_static = True, r_ReadStructBegin = (\<lambda>base. ret ()),
      r_ReadFieldBegin = throw InvalidArgument,
      r_ReadContainerBegin = (\<lambda>type. bind (sr_ReadContainerBegin version) (\<lambda>sz. ret (sz, type))),
      r_ReadContainerBegin2 =
        (\<lambda>(k, e). bind (sr_ReadContainerBegin version) (\<lambda>sz. ret (sz, k, e))),
      r_Read = sr_Read version, r_ReadBlob = ib_read_blob, r_Skip = sr_Skip version,
      r_SkipValue = sr_SkipValue version\<rparr>"

end
