(* ===== verification/Deserialize_Safety.thy ===== *)
theory Deserialize_Safety
  imports Readers
begin

text \<open>
  Deserialization of arbitrary input. \<open>runs n P m\<close>: on every well-formed input buffer \<open>m\<close> either
  throws an exception of the library (or loads a \<open>bool\<close> from a byte that is neither 0 nor 1), or it
  returns a value with the property \<open>P\<close> and a position at least \<open>n\<close> bytes further inside the
  buffer. In particular no access is out of bounds, no shift is undefined and no loop runs out of
  fuel. The locale \<open>safe_reader\<close> lists what the parsers need of a reader; from it follows that
  deserialization terminates safely and that the object has the shape its schema says.
\<close>

section \<open>Running on arbitrary input\<close>

definition defined_exn :: "exn \<Rightarrow> bool" where
  "defined_exn e \<longleftrightarrow> e \<notin> {UndefinedShift, OutOfBounds, SignedOverflow, AssertionFailed, OutOfFuel}"

definition outcome :: "nat \<Rightarrow> ('a \<Rightarrow> bool) \<Rightarrow> InputBuffer \<Rightarrow> ('a \<times> InputBuffer) res \<Rightarrow> bool" where
  "outcome n P ib r \<longleftrightarrow>
     (case r of
        Inl e \<Rightarrow> defined_exn e
      | Inr (x, ib') \<Rightarrow> P x \<and> (\<exists>k. n \<le> k \<and> k \<le> length (ib_rest ib) \<and> ib' = ib_adv k ib))"

definition runs :: "nat \<Rightarrow> ('a \<Rightarrow> bool) \<Rightarrow> (InputBuffer, 'a) st \<Rightarrow> bool" where
  "runs n P m \<longleftrightarrow> (\<forall>ib. ib_ok ib \<longrightarrow> outcome n P ib (m ib))"

lemma defined_exn_simps [simp]:
  "defined_exn OverflowError" "defined_exn (CoreException s)" "defined_exn InvalidArgument"
  "defined_exn (StreamException a b c)" "defined_exn TrapRepresentation"
  by (simp_all add: defined_exn_def)

lemma documented_defined: "documented e \<Longrightarrow> defined_exn e"
  by (auto simp: documented_def defined_exn_def)

lemma outcome_Inl [simp]: "outcome n P ib (Inl e) \<longleftrightarrow> defined_exn e"
  by (simp add: outcome_def)

lemma outcome_Inr: "P x \<Longrightarrow> n \<le> k \<Longrightarrow> k \<le> length (ib_rest ib) \<Longrightarrow> outcome n P ib (Inr (x, ib_adv k ib))"
  by (auto simp: outcome_def)

lemma outcome_here: "P x \<Longrightarrow> outcome 0 P ib (Inr (x, ib))"
  using outcome_Inr [of P x 0 0 ib] by simp

lemma outcomeE:
  assumes "outcome n P ib r"
  obtains e where "r = Inl e" "defined_exn e"
    | x k where "r = Inr (x, ib_adv k ib)" "P x" "n \<le> k" "k \<le> length (ib_rest ib)"
  using assms unfolding outcome_def by (cases r) force+

lemma outcome_if: "outcome n P ib a \<Longrightarrow> outcome n P ib b \<Longrightarrow> outcome n P ib (if c then a else b)"
  by simp

lemma outcome_weaken: "outcome n P ib r \<Longrightarrow> n' \<le> n \<Longrightarrow> (\<And>x. P x \<Longrightarrow> Q x) \<Longrightarrow> outcome n' Q ib r"
  by (erule outcomeE) (auto intro: outcome_Inr)

text \<open>The rest of a computation runs from a well-formed buffer with fewer bytes left.\<close>

lemma outcome_bind:
  assumes ok: "ib_ok ib" and r: "outcome a P ib r"
    and f: "\<And>x ib'. P x \<Longrightarrow> ib_ok ib' \<Longrightarrow> left ib' + a \<le> left ib \<Longrightarrow> outcome b Q ib' (f (x, ib'))"
  shows "outcome (a + b) Q ib (res_bind r f)"
  using r
proof (cases rule: outcomeE)
  case (2 x k)
  note adv = ib_adv_ok [OF ok 2(4)]
  have "left (ib_adv k ib) + a \<le> left ib" using 2(3,4) adv(2) by (simp add: left_def)
  from f [OF 2(2) adv(1) this] show ?thesis
  proof (cases rule: outcomeE)
    case (2 y j)
    with \<open>r = Inr (x, ib_adv k ib)\<close> \<open>a \<le> k\<close> \<open>k \<le> length (ib_rest ib)\<close> adv(2) show ?thesis
      by (auto intro!: outcome_Inr)
  qed (use 2(1) in simp)
qed simp

lemma runsI: "(\<And>ib. ib_ok ib \<Longrightarrow> outcome n P ib (m ib)) \<Longrightarrow> runs n P m"
  by (simp add: runs_def)

lemma runsD: "runs n P m \<Longrightarrow> ib_ok ib \<Longrightarrow> outcome n P ib (m ib)"
  by (simp add: runs_def)

lemma runs_reads_safely:
  assumes "\<And>r. reads_safely r n m"
  shows "runs n (\<lambda>_. True) m"
proof (rule runsI)
  fix ib assume "ib_ok ib"
  from assms [of "length (ib_rest ib)"] this show "outcome n (\<lambda>_. True) ib (m ib)"
    by (cases rule: reads_safelyE) (auto intro: documented_defined outcome_Inr)
qed

lemma runs_weaken: "runs n P m \<Longrightarrow> n' \<le> n \<Longrightarrow> (\<And>x. P x \<Longrightarrow> Q x) \<Longrightarrow> runs n' Q m"
  by (blast intro: runsI outcome_weaken dest: runsD)

lemma runs_any: "runs n P m \<Longrightarrow> runs 0 P m"
  by (erule runs_weaken) simp_all

lemma runs_true: "runs n P m \<Longrightarrow> runs 0 (\<lambda>_. True) m"
  by (erule runs_weaken) simp_all

lemma runs_ret: "P x \<Longrightarrow> runs 0 P (ret x)"
  by (rule runsI) (simp add: ret_def outcome_here)

lemma runs_throw: "defined_exn e \<Longrightarrow> runs n P (throw e)"
  by (rule runsI) (simp add: throw_def)

lemma runs_lift_res:
  "(\<And>e. r = Inl e \<Longrightarrow> defined_exn e) \<Longrightarrow> (\<And>x. r = Inr x \<Longrightarrow> P x) \<Longrightarrow> runs 0 P (lift_res r)"
  by (rule runsI, cases r) (auto simp: lift_res_def intro: outcome_here)

lemma bind_res_bind: "bind m f s = res_bind (m s) (\<lambda>(x, s'). f x s')"
  by (simp add: bind_def res_bind_def split: sum.splits)

lemma runs_bind:
  assumes "runs a P m" and "\<And>x. P x \<Longrightarrow> runs b Q (f x)"
  shows "runs (a + b) Q (bind m f)"
proof (rule runsI)
  fix ib assume ok: "ib_ok ib"
  show "outcome (a + b) Q ib (bind m f ib)"
    unfolding bind_res_bind using ok runsD [OF assms(1) ok]
    by (rule outcome_bind) (use assms(2) in \<open>auto dest: runsD\<close>)
qed

lemma runs_bind0: "runs 0 P m \<Longrightarrow> (\<And>x. P x \<Longrightarrow> runs 0 Q (f x)) \<Longrightarrow> runs 0 Q (bind m f)"
  using runs_bind [of 0 P m 0 Q f] by simp

lemma runs_bind1: "runs 1 P m \<Longrightarrow> (\<And>x. P x \<Longrightarrow> runs 0 Q (f x)) \<Longrightarrow> runs 1 Q (bind m f)"
  using runs_bind [of 1 P m 0 Q f] by simp

lemma ib_adv_end: "ib_ok ib \<Longrightarrow> ib\<lparr>ib_pointer := blob_length (ib_blob ib)\<rparr> = ib_adv (length (ib_rest ib)) ib"
  by (simp add: ib_adv_def length_ib_rest ib_ok_def word_le_nat_alt unat_sub_no_underflow)

lemma runs_repeat: "runs 0 P m \<Longrightarrow> runs 0 (\<lambda>_. True) (repeat_st n m)"
  by (induction n) (auto intro: runs_ret runs_bind0)

lemma runs_collect: "runs 0 P m \<Longrightarrow> runs 0 (\<lambda>_. True) (collect_st n m)"
  by (induction n) (auto intro!: runs_ret intro: runs_bind0)

section \<open>The shape of an object\<close>

text \<open>The variables of a schema: what the C++ type system guarantees of an object.\<close>

function (sequential) shaped :: "btype \<Rightarrow> bvalue \<Rightarrow> bool"
  and shaped_fields :: "fdef list \<Rightarrow> bfield list \<Rightarrow> bool"
  and shaped_struct :: "sschema \<Rightarrow> bstruct \<Rightarrow> bool" where
  "shaped (TBasic t) v = (is_basic v \<and> GetTypeId v = t)"
| "shaped TBlob v = (case v of VBlob b \<Rightarrow> blob_wf b | _ \<Rightarrow> False)"
| "shaped (TNullable e) v =
     (case v of VList t vs \<Rightarrow> t = get_type_id e \<and> length vs \<le> 1 \<and> list_all (shaped e) vs | _ \<Rightarrow> False)"
| "shaped (TList e) v = (case v of VList t vs \<Rightarrow> t = get_type_id e \<and> list_all (shaped e) vs | _ \<Rightarrow> False)"
| "shaped (TSet t) v =
     (case v of VSet t' vs \<Rightarrow> t' = t \<and> list_all (\<lambda>x. is_basic x \<and> GetTypeId x = t) vs | _ \<Rightarrow> False)"
| "shaped (TMap k e) v =
     (case v of VMap k' t kvs \<Rightarrow> k' = k \<and> t = get_type_id e \<and>
        list_all (\<lambda>(x, y). is_basic x \<and> GetTypeId x = k \<and> shaped e y) kvs | _ \<Rightarrow> False)"
| "shaped (TStruct s) v = (case v of VStruct x \<Rightarrow> shaped_struct s x | _ \<Rightarrow> False)"
| "shaped_fields [] vs = (vs = [])"
| "shaped_fields (FieldDef fid md mb t # fs) vs =
     (case vs of
        [] \<Rightarrow> False
      | f # vs \<Rightarrow> shaped_fields fs vs \<and>
          (case f of
             Field fid' md' v \<Rightarrow> \<not> mb \<and> fid' = fid \<and> md' = md \<and> shaped t v
           | MaybeField fid' md' t' v \<Rightarrow> mb \<and> fid' = fid \<and> md' = md \<and> t' = get_type_id t \<and>
               (case v of None \<Rightarrow> True | Some v \<Rightarrow> shaped t v)))"
| "shaped_struct (Schema md None fs) x =
     (case x of Struct md' b vs \<Rightarrow> md' = md \<and> b = None \<and> shaped_fields fs vs)"
| "shaped_struct (Schema md (Some s) fs) x =
     (case x of Struct md' b vs \<Rightarrow> md' = md \<and> shaped_fields fs vs \<and>
        (case b of None \<Rightarrow> False | Some b \<Rightarrow> shaped_struct s b))"
  by pat_completeness auto
termination
  by (relation "measure (case_sum (\<lambda>(t, v). size t)
      (case_sum (\<lambda>(fs, vs). size_list size fs) (\<lambda>(s, x). size s)))") auto

text \<open>Schemas whose basic types, keys and set elements have the tags of basic types\<close>

function (sequential) schema_ok_type :: "btype \<Rightarrow> bool"
  and schema_ok_fields :: "fdef list \<Rightarrow> bool"
  and schema_ok :: "sschema \<Rightarrow> bool" where
  "schema_ok_type (TBasic t) = is_basic_tag t"
| "schema_ok_type TBlob = True"
| "schema_ok_type (TNullable e) = schema_ok_type e"
| "schema_ok_type (TList e) = schema_ok_type e"
| "schema_ok_type (TSet t) = is_basic_tag t"
| "schema_ok_type (TMap k e) = (is_basic_tag k \<and> schema_ok_type e)"
| "schema_ok_type (TStruct s) = schema_ok s"
| "schema_ok_fields [] = True"
| "schema_ok_fields (FieldDef fid md mb t # fs) = (schema_ok_type t \<and> schema_ok_fields fs)"
| "schema_ok (Schema md None fs) = schema_ok_fields fs"
| "schema_ok (Schema md (Some b) fs) = (schema_ok b \<and> schema_ok_fields fs)"
  by pat_completeness auto
termination
  by (relation "measure (case_sum size (case_sum (size_list size) size))") auto

lemma default_basic_shape: "is_basic_tag t \<Longrightarrow> is_basic (default_basic t) \<and> GetTypeId (default_basic t) = t"
  by (cases t) simp_all

lemma default_variant_shape:
  "is_basic_tag t \<Longrightarrow> is_basic (case VariantGet d t of Some v \<Rightarrow> v | None \<Rightarrow> default_basic t) \<and>
    GetTypeId (case VariantGet d t of Some v \<Rightarrow> v | None \<Rightarrow> default_basic t) = t"
  using default_basic_shape VariantGet_type by (auto split: option.splits)

lemma shaped_default:
  "schema_ok_type t \<Longrightarrow> shaped t (default_value t)"
  "schema_ok_fields [f] \<Longrightarrow> shaped_fields [f] [default_field f]"
  "schema_ok_fields fs \<Longrightarrow> shaped_fields fs (default_fields fs)"
  "schema_ok s \<Longrightarrow> shaped_struct s (default_struct s)"
proof (induction t and f and fs and s rule: default_value_default_field_default_fields_default_struct.induct)
  case (9 fid md t)
  then show ?case
    using default_variant_shape by (cases t) auto
next
  case (11 f fs)
  then show ?case by (cases f) auto
qed (simp_all add: default_basic_shape del: default_basic.simps)

section \<open>Variables of containers and fields\<close>

abbreviation basic_of :: "BondDataType \<Rightarrow> bvalue \<Rightarrow> bool" where
  "basic_of t v \<equiv> is_basic v \<and> GetTypeId v = t"

lemma shaped_TBasic: "shaped (TBasic t) = basic_of t"
  by (simp add: fun_eq_iff)

text \<open>Elements of a container of type \<open>X\<close>\<close>

fun item_of :: "btype \<Rightarrow> bvalue \<Rightarrow> bool" where
  "item_of (TList e) = shaped e"
| "item_of (TNullable e) = shaped e"
| "item_of (TSet t) = basic_of t"
| "item_of X = (\<lambda>_. True)"

lemma shaped_items:
  "shaped (TList e) var \<Longrightarrow> list_all (shaped e) (items_of var)"
  "shaped (TNullable e) var \<Longrightarrow> list_all (shaped e) (items_of var)"
  by (cases var; simp)+

lemma list_all_set_insert: "P x \<Longrightarrow> list_all P ys \<Longrightarrow> list_all P (set_insert x ys)"
  by (induction ys) auto

lemma list_all_map_assign:
  "P (k, w) \<Longrightarrow> (\<And>k' v. P (k', v) \<Longrightarrow> P (k', w)) \<Longrightarrow> list_all P m \<Longrightarrow> list_all P (map_assign k w m)"
  by (induction m) auto

lemma mapped_at_all: "P d \<Longrightarrow> list_all (\<lambda>(x, y). P y) m \<Longrightarrow> P (mapped_at d k m)"
  by (induction m) auto

lemma list_all_resize: "P d \<Longrightarrow> list_all P vs \<Longrightarrow> list_all P (resize_list n d vs)"
  by (auto simp: resize_list_def list_all_iff dest: in_set_takeD)

lemma matching_cases_basic: "t \<in> set (matching_cases e) \<Longrightarrow> is_basic_tag t"
  by (cases e) auto

text \<open>A variable of a field, and code that reads into it\<close>

definition field_var :: "fdef \<Rightarrow> bfield \<Rightarrow> bool" where
  "field_var fd v = shaped_fields [fd] [v]"

lemma shaped_fields_iff: "shaped_fields fs vs \<longleftrightarrow> list_all2 field_var fs vs"
proof (induction fs arbitrary: vs)
  case (Cons f fs)
  then show ?case by (cases f; cases vs) (auto simp: field_var_def split: bfield.splits)
qed simp

definition value_ok :: "fdef \<times> assign \<Rightarrow> bool" where
  "value_ok h \<longleftrightarrow> schema_ok_fields [fst h] \<and>
     (\<forall>v. shaped (fd_type (fst h)) v \<longrightarrow> runs 0 (shaped (fd_type (fst h))) (snd h v))"

definition parsed :: "(fdef \<times> assign) list \<Rightarrow> bfield list \<times> 'r \<Rightarrow> bool" where
  "parsed heads p = shaped_fields (map fst heads) (fst p)"

lemma Validate_field_defined: "Validate_field fs fd r = Inl e \<Longrightarrow> defined_exn e"
  by (auto simp: Validate_field_def MissingFieldException_def split: if_splits)

lemma Validate_struct_defined: "Validate_struct r = Inl e \<Longrightarrow> defined_exn e"
  by (auto simp: Validate_struct_def MissingFieldException_def split: if_splits)

lemma map_fst_des_fields [simp]: "map fst (des_fields R' fs) = fs"
proof (induction fs)
  case (Cons f fs)
  then show ?case by (cases f) simp
qed simp

lemma dp_ReadFields_Cons:
  "dp_ReadFields R fs ((fd, val) # heads) (var # vars) required type fid ib =
     (if (fd_id fd = fid \<and> get_type_id (fd_type fd) = type) \<or> (fd_id fd \<ge> fid \<and> \<not> is_stop type)
      then res_bind ((if fd_id fd = fid \<and> get_type_id (fd_type fd) = type
                      then To_Field fs fd val var required
                      else UnknownFieldOrTypeMismatch R fs fd fid type var required) ib)
             (\<lambda>(vr, ib1). res_bind (r_ReadFieldBegin R ib1) (\<lambda>((type, fid), ib2).
                if fd_id fd < fid \<or> is_stop type
                then res_bind (dp_ReadFields R fs heads vars (snd vr) type fid ib2)
                       (\<lambda>((vars, r), ib3). Inr ((fst vr # vars, r), ib3))
                else if left ib2 < left ib
                then dp_ReadFields R fs ((fd, val) # heads) (fst vr # vars) (snd vr) type fid ib2
                else Inl OutOfFuel))
      else res_bind (dp_ReadFields R fs heads vars required type fid ib)
             (\<lambda>((vars, r), ib). Inr ((var # vars, r), ib)))"
  by (subst dp_ReadFields.simps(2)) (simp only: case_prod_unfold fst_conv snd_conv)

section \<open>What the parsers need of a reader\<close>

locale safe_reader =
  fixes R :: Reader
  assumes StructBegin_runs: "runs 0 (\<lambda>_. True) (r_ReadStructBegin R base)"
    and FieldBegin_runs: "\<not> r_static R \<Longrightarrow> runs 1 (\<lambda>_. True) (r_ReadFieldBegin R)"
    and ContainerBegin_runs: "runs 0 (\<lambda>_. True) (r_ReadContainerBegin R t)"
    and ContainerBegin2_runs: "runs 0 (\<lambda>_. True) (r_ReadContainerBegin2 R p)"
    and Read_runs: "is_basic_tag t \<Longrightarrow> runs 0 (basic_of t) (r_Read R t)"
    and ReadBlob_runs: "runs 0 blob_wf (r_ReadBlob R n)"
    and Skip_runs: "runs 0 (\<lambda>_. True) (r_Skip R t)"
    and SkipValue_runs: "runs 0 (\<lambda>_. True) (r_SkipValue R e)"
begin

lemma Deserialize_basic_runs:
  "is_basic_tag t \<Longrightarrow> is_matching_basic t x \<Longrightarrow> runs 0 (basic_of x) (Deserialize_basic R t x var)"
  unfolding Deserialize_basic_def
  using static_cast_type by (auto intro!: Read_runs runs_bind0 [OF Read_runs] runs_ret)

lemma SkipElements_runs: "runs 0 (\<lambda>_. True) skip \<Longrightarrow> runs 0 (\<lambda>_. True) (SkipElements skip sz)"
  unfolding SkipElements_def by (rule runs_repeat)

lemma SkipElements2_runs:
  "runs 0 (\<lambda>_. True) k \<Longrightarrow> runs 0 (\<lambda>_. True) skip \<Longrightarrow> runs 0 (\<lambda>_. True) (SkipElements2 k skip sz)"
  unfolding SkipElements2_def by (rule runs_repeat) (rule runs_bind0)

lemma skipped_runs:
  "runs 0 (\<lambda>_. True) m \<Longrightarrow> P var \<Longrightarrow> runs 0 P (bind m (\<lambda>_. ret var))"
  by (rule runs_bind0 [where P = "\<lambda>_. True"]) (simp_all add: runs_ret)

lemma read_items_runs:
  "(\<And>v. P v \<Longrightarrow> runs 0 P (element v)) \<Longrightarrow> list_all P vs \<Longrightarrow> runs 0 (list_all P) (read_items element vs)"
  by (induction vs) (auto intro!: runs_ret runs_bind0)

lemma read_set_runs:
  "(\<And>v. P v \<Longrightarrow> runs 0 P (element v)) \<Longrightarrow> P e \<Longrightarrow> list_all P s \<Longrightarrow>
   runs 0 (list_all P) (read_set element n e s)"
  by (induction n arbitrary: e s) (auto intro!: runs_ret runs_bind0 list_all_set_insert)

lemma read_map_runs:
  assumes "\<And>v. P v \<Longrightarrow> runs 0 P (key v)" and "\<And>v. Q v \<Longrightarrow> runs 0 Q (element v)" and "Q d"
  shows "P k \<Longrightarrow> list_all (\<lambda>(x, y). P x \<and> Q y) m \<Longrightarrow>
    runs 0 (list_all (\<lambda>(x, y). P x \<and> Q y)) (read_map key element d n k m)"
proof (induction n arbitrary: k m)
  case (Suc n)
  have "Q (mapped_at d x m)" for x
    using Suc.prems(2) assms(3) by (intro mapped_at_all [of Q]) (auto simp: list_all_iff)
  moreover have "runs 0 (list_all (\<lambda>(x, y). P x \<and> Q y)) (read_map key element d n x (map_assign x y m))"
    if "P x" "Q y" for x y
    using that Suc.prems(2) by (intro Suc.IH list_all_map_assign [where P = "\<lambda>(x, y). P x \<and> Q y"]) auto
  ultimately show ?case using Suc.prems(1)
    by (auto intro!: runs_bind0 [OF assms(1)] runs_bind0 [OF assms(2)])
qed (auto intro: runs_ret)

lemma DeserializeElements_runs:
  assumes "schema_ok_type X" and "shaped X var" and skip: "runs 0 (\<lambda>_. True) skip"
    and el: "match \<Longrightarrow> (\<And>v. item_of X v \<Longrightarrow> runs 0 (item_of X) (element v))"
  shows "runs 0 (shaped X) (DeserializeElements R X match element skip sz var)"
proof (cases match)
  case False
  with assms show ?thesis by (auto intro!: skipped_runs SkipElements_runs)
next
  case True
  note el = el [OF this]
  show ?thesis
  proof (cases X)
    case (TNullable e)
    have "shaped e (case items_of var of [] \<Rightarrow> default_value e | v # vs \<Rightarrow> v)"
      using assms(1,2) TNullable shaped_items(2) [of e var] shaped_default(1) [of e]
      by (auto split: list.splits)
    with el TNullable True show ?thesis
      by (auto intro!: runs_ret runs_bind0 [where P = "shaped e"] skipped_runs SkipElements_runs skip)
  next
    case (TList e)
    then have "list_all (shaped e) (resize_list (unat sz) (default_value e) (items_of var))"
      using assms(1,2) shaped_items(1) [of e var] by (intro list_all_resize shaped_default) auto
    then show ?thesis using TList True el
      by (auto intro!: runs_ret runs_bind0 [OF read_items_runs [where P = "shaped e"]])
  next
    case (TSet t)
    with True el assms(1) show ?thesis
      by (auto intro!: runs_ret runs_bind0 [OF read_set_runs [where P = "basic_of t"]]
          simp: default_basic_shape simp del: default_basic.simps)
  qed (use assms True in \<open>auto intro!: runs_ret runs_bind0 [OF ReadBlob_runs]\<close>)
qed

lemma MatchingTypeContainer_runs:
  assumes "schema_ok_type X" and "shaped X var"
    and "\<And>t. is_basic_tag t \<Longrightarrow> is_matching_basic t e \<Longrightarrow>
      \<forall>v. item_of X v \<longrightarrow> runs 0 (item_of X) (Deserialize_basic R t e v)"
  shows "runs 0 (shaped X) (MatchingTypeContainer R X e type sz var)"
  unfolding MatchingTypeContainer_def using assms
  by (auto intro!: DeserializeElements_runs skipped_runs SkipElements_runs Skip_runs
      dest: matching_cases_basic)

lemma DeserializeContainer_basic_runs:
  assumes "schema_ok_type X" and "shaped X var" and "item_of X = basic_of e \<or> item_of X = (\<lambda>_. True)"
  shows "runs 0 (shaped X) (DeserializeContainer_basic R X e var)"
proof -
  have "runs 0 (item_of X) (Deserialize_basic R t e v)" if "is_basic_tag t" "is_matching_basic t e" for t v
    using assms(3) Deserialize_basic_runs [OF that, of v] runs_true [OF Deserialize_basic_runs [OF that, of v]]
    by auto
  then show ?thesis
    unfolding DeserializeContainer_basic_def using assms
    by (intro runs_bind0 [OF ContainerBegin_runs])
      (auto intro!: MatchingTypeContainer_runs skipped_runs SkipElements_runs Skip_runs)
qed

lemma DeserializeContainer_nested_runs:
  assumes "schema_ok_type X" and "shaped X var"
    and "\<And>v. item_of X v \<Longrightarrow> runs 0 (item_of X) (element v)"
  shows "runs 0 (shaped X) (DeserializeContainer_nested R X e element var)"
  unfolding DeserializeContainer_nested_def using assms
  by (intro runs_bind0 [OF ContainerBegin_runs])
    (auto intro!: DeserializeElements_runs skipped_runs SkipElements_runs Skip_runs SkipValue_runs)

lemma MatchingMapByKey_runs:
  assumes ok: "schema_ok_type (TMap k e)" and var: "shaped (TMap k e) var"
    and skip: "runs 0 (\<lambda>_. True) skip" and el: "\<And>v. shaped e v \<Longrightarrow> runs 0 (shaped e) (element v)"
  shows "runs 0 (shaped (TMap k e)) (MatchingMapByKey R k e keyType element skip sz var)"
proof -
  have skipped: "runs 0 (shaped (TMap k e))
      (bind (SkipElements2 (r_Skip R keyType) skip sz) (\<lambda>_. ret var))"
    by (intro skipped_runs SkipElements2_runs Skip_runs skip var)
  have "runs 0 (shaped (TMap k e)) (DeserializeMapElements R k e keyType element skip sz var)"
    if kt: "is_basic_tag keyType"
  proof (cases "is_matching_basic keyType k")
    case True
    have "runs 0 (list_all (\<lambda>(x, y). basic_of k x \<and> shaped e y))
        (read_map (Deserialize_basic R keyType k) element (default_value e) (unat sz) (default_basic k) [])"
      using ok el kt True
      by (intro read_map_runs [where P = "basic_of k" and Q = "shaped e"] Deserialize_basic_runs)
        (auto simp: shaped_default default_basic_shape simp del: default_basic.simps)
    with True show ?thesis
      unfolding DeserializeMapElements_def
      by (auto intro!: runs_bind0 [where P = "list_all (\<lambda>(x, y). basic_of k x \<and> shaped e y)"] runs_ret)
  next
    case False
    with skipped show ?thesis by (simp add: DeserializeMapElements_def)
  qed
  with skipped show ?thesis by (auto simp: MatchingMapByKey_def dest: matching_cases_basic)
qed

lemma DeserializeMap_nested_runs:
  assumes "schema_ok_type (TMap k e)" and "shaped (TMap k e) var"
    and "\<And>v. shaped e v \<Longrightarrow> runs 0 (shaped e) (element v)"
  shows "runs 0 (shaped (TMap k e)) (DeserializeMap_nested R k e element var)"
  unfolding DeserializeMap_nested_def MapByKey_def
  by (rule runs_bind0 [OF ContainerBegin2_runs])
    (auto simp del: shaped.simps schema_ok_type.simps
      intro!: MatchingMapByKey_runs skipped_runs SkipElements2_runs Skip_runs SkipValue_runs assms)

lemma DeserializeMap_basic_runs:
  assumes "schema_ok_type (TMap k (TBasic e))" and "shaped (TMap k (TBasic e)) var"
  shows "runs 0 (shaped (TMap k (TBasic e))) (DeserializeMap_basic R k e var)"
proof -
  have "runs 0 (shaped (TBasic e)) (Deserialize_basic R t e v)"
    if "t \<in> set (matching_cases e)" "is_matching_basic t e" for t v
    by (rule runs_weaken [OF Deserialize_basic_runs [OF matching_cases_basic [OF that(1)] that(2)]]) simp_all
  then show ?thesis
    unfolding DeserializeMap_basic_def MatchingMapByElement_def MapByKey_def
    by (intro runs_bind0 [OF ContainerBegin2_runs])
      (auto simp del: shaped.simps schema_ok_type.simps
        intro!: MatchingMapByKey_runs skipped_runs SkipElements2_runs Skip_runs assms)
qed

section \<open>The parsers\<close>

lemma Skip_nothrow_runs: "runs 0 (\<lambda>_. True) (Skip_nothrow R t)"
proof (rule runsI)
  fix ib assume ok: "ib_ok ib"
  note at_end = ib_adv_end [OF ok]
  have varint: "outcome 0 (\<lambda>_. True) ib
      (res_bind (res_bind ((ReadVariableUnsigned :: (InputBuffer, u32) st) ib) (\<lambda>(_, ib'). Inr ib'))
        (\<lambda>ib'. Inr ((), ib')))"
    using runsD [OF runs_any [OF runs_reads_safely [OF reads_safely_varint32]] ok]
    by (rule outcomeE) (auto intro: outcome_Inr)
  have "outcome 0 (\<lambda>_. True) ib (res_bind (skip_residue e ib) (\<lambda>ib'. Inr ((), ib')))" if "defined_exn e" for e
    using that varint outcome_Inr [of "\<lambda>_. True" "()" 0 "length (ib_rest ib)" ib]
    by (cases e) (simp_all add: skip_residue_def at_end)
  with runsD [OF Skip_runs ok, of t] show "outcome 0 (\<lambda>_. True) ib (Skip_nothrow R t ib)"
    by (cases rule: outcomeE) (auto simp: Skip_nothrow_def intro: outcome_Inr)
qed

text \<open>A turn of the loops of the dynamic parser: some part of the payload and the next tag\<close>

lemma turn_outcome:
  assumes dyn: "\<not> r_static R" and ok: "ib_ok ib" and r: "outcome 0 P ib r"
    and K: "\<And>x type fid ib2. P x \<Longrightarrow> ib_ok ib2 \<Longrightarrow> left ib2 < left ib \<Longrightarrow>
      outcome 0 Q ib2 (K x type fid ib2)"
  shows "outcome 0 Q ib (res_bind r (\<lambda>(x, ib1).
    res_bind (r_ReadFieldBegin R ib1) (\<lambda>((type, fid), ib2). K x type fid ib2)))"
proof -
  have "outcome 0 Q ib1 (res_bind (r_ReadFieldBegin R ib1) (\<lambda>((type, fid), ib2). K x type fid ib2))"
    if "P x" and ib1: "ib_ok ib1" "left ib1 \<le> left ib" for x ib1
  proof -
    have "outcome (1 + 0) Q ib1
        (res_bind (r_ReadFieldBegin R ib1) (\<lambda>((type, fid), ib2). K x type fid ib2))"
      using ib1(1) runsD [OF FieldBegin_runs [OF dyn] ib1(1)]
      by (rule outcome_bind) (use that K in auto)
    then show ?thesis by (rule outcome_weaken) simp_all
  qed
  then have "outcome (0 + 0) Q ib (res_bind r (\<lambda>(x, ib1).
      res_bind (r_ReadFieldBegin R ib1) (\<lambda>((type, fid), ib2). K x type fid ib2)))"
    by (intro outcome_bind [OF ok r]) auto
  then show ?thesis by simp
qed

lemma dp_SkipFields_runs:
  assumes "\<not> r_static R" and "ib_ok ib"
  shows "outcome 0 (\<lambda>_. True) ib (dp_SkipFields R type fid ib)"
  using assms(2)
proof (induction "left ib" arbitrary: type fid ib rule: less_induct)
  case less
  have "outcome 0 (\<lambda>_. True) ib (res_bind (r_Skip R type ib) (\<lambda>(_, ib1).
      res_bind (r_ReadFieldBegin R ib1) (\<lambda>((type, fid), ib2).
        if left ib2 < left ib then dp_SkipFields R type fid ib2 else Inl OutOfFuel)))"
    using less by (intro turn_outcome [OF assms(1) _ runsD [OF Skip_runs]]) auto
  then show ?case by (subst dp_SkipFields.simps) (auto intro: outcome_here)
qed

lemma ReadUnknownFields_runs:
  assumes "\<not> r_static R" and "ib_ok ib"
  shows "outcome 0 (\<lambda>_. True) ib (ReadUnknownFields R type fid ib)"
  using assms(2)
proof (induction "left ib" arbitrary: type fid ib rule: less_induct)
  case less
  have r: "outcome 0 (\<lambda>_. True) ib (if type = BT_STOP_BASE then Inr ((), ib) else r_Skip R type ib)"
    using runsD [OF Skip_runs less.prems] by (auto intro: outcome_here)
  have "outcome 0 (\<lambda>_. True) ib
     (res_bind (if type = BT_STOP_BASE then Inr ((), ib) else r_Skip R type ib) (\<lambda>(_, ib1).
      res_bind (r_ReadFieldBegin R ib1) (\<lambda>((type, fid), ib2).
        if left ib2 < left ib then ReadUnknownFields R type fid ib2 else Inl OutOfFuel)))"
    using less by (intro turn_outcome [OF assms(1) _ r]) auto
  then show ?case by (subst ReadUnknownFields.simps) (auto intro: outcome_here)
qed

lemma AssignToVar_runs:
  assumes "schema_ok_fields [fd]" and "field_var fd var"
    and "\<And>v. shaped (fd_type fd) v \<Longrightarrow> runs 0 (shaped (fd_type fd)) (value v)"
  shows "runs 0 (field_var fd) (AssignToVar fd value var)"
proof (cases fd)
  case (FieldDef fid md mb t)
  with assms have "schema_ok_type t" "\<And>v. shaped t v \<Longrightarrow> runs 0 (shaped t) (value v)" by auto
  moreover have "shaped t (default_value t)" using calculation(1) by (rule shaped_default)
  ultimately show ?thesis using assms(2) FieldDef
    by (cases "(fd, value, var)" rule: AssignToVar.cases)
      (auto simp: field_var_def intro!: runs_bind0 [where P = "shaped t"] runs_ret)
qed

lemma To_Field_runs:
  assumes "schema_ok_fields [fd]" and "field_var fd var"
    and "\<And>v. shaped (fd_type fd) v \<Longrightarrow> runs 0 (shaped (fd_type fd)) (value v)"
  shows "runs 0 (\<lambda>(v, r). field_var fd v) (To_Field fs fd value var required)"
  unfolding To_Field_def
  by (intro runs_bind0 [where P = "\<lambda>_. True"] runs_bind0 [where P = "field_var fd"]
      runs_lift_res AssignToVar_runs assms)
    (auto intro: runs_ret Validate_field_defined)

lemma UnknownField_runs:
  assumes "schema_ok_fields [fd]" and "field_var fd var"
  shows "runs 0 (\<lambda>(v, r). field_var fd v) (UnknownFieldOrTypeMismatch R fs fd fid type var required)"
proof -
  have "runs 0 (\<lambda>(v, r). field_var fd v)
      (To_Field fs fd (Deserialize_basic R type (get_type_id (fd_type fd))) var required)"
    if m: "is_basic_type (fd_type fd)" "is_basic_tag type" "is_matching_basic type (get_type_id (fd_type fd))"
  proof (rule To_Field_runs [OF assms])
    fix v
    obtain t where "fd_type fd = TBasic t" using m(1) by (cases "fd_type fd") auto
    then show "runs 0 (shaped (fd_type fd)) (Deserialize_basic R type (get_type_id (fd_type fd)) v)"
      by (intro runs_weaken [OF Deserialize_basic_runs [OF m(2,3)]]) auto
  qed
  with assms(2) show ?thesis
    unfolding UnknownFieldOrTypeMismatch_def BasicTypeField_def
    by (auto intro!: runs_ret skipped_runs Skip_runs Skip_nothrow_runs)
qed

lemma parsed_next:
  assumes "ib_ok ib" and "field_var (fst h) var" and "outcome 0 (parsed heads) ib r"
  shows "outcome 0 (parsed (h # heads)) ib (res_bind r (\<lambda>((vars, r), ib3). Inr ((var # vars, r), ib3)))"
  using assms(3)
  by (rule outcomeE) (use assms(2) in \<open>auto simp: parsed_def shaped_fields_iff intro!: outcome_Inr\<close>)

lemma dp_ReadFields_runs:
  assumes "\<not> r_static R" and "list_all value_ok heads" and "shaped_fields (map fst heads) vars"
    and "ib_ok ib"
  shows "outcome 0 (parsed heads) ib (dp_ReadFields R fs heads vars required type fid ib)"
  using assms(2-)
proof (induction heads arbitrary: vars required type fid ib)
  case Nil
  have "outcome (0 + 0) (parsed []) ib (dp_ReadFields R fs [] vars required type fid ib)"
    unfolding dp_ReadFields.simps using Nil
    by (intro outcome_bind [OF _ dp_SkipFields_runs [OF assms(1)]]) (auto simp: parsed_def intro: outcome_here)
  then show ?case by simp
next
  case (Cons h heads)
  obtain fd val where h: "h = (fd, val)" by (cases h)
  with Cons.prems obtain var0 vars0 where "vars = var0 # vars0" "field_var fd var0"
      "shaped_fields (map fst heads) vars0"
    by (auto simp: shaped_fields_iff list_all2_Cons1)
  with h Cons.prems(3) show ?case
    unfolding h
  proof (induction "left ib" arbitrary: vars var0 vars0 required type fid ib rule: less_induct)
    case less
    let ?hit = "fd_id fd = fid \<and> get_type_id (fd_type fd) = type"
    let ?here = "(if ?hit then To_Field fs fd val var0 required
                 else UnknownFieldOrTypeMismatch R fs fd fid type var0 required) ib"
    have IH: "outcome 0 (parsed heads) ib' (dp_ReadFields R fs heads vars0 required type fid ib')"
      if "ib_ok ib'" for ib' required type fid
      using Cons.IH Cons.prems(1) less.prems that by (simp del: shaped_fields.simps)
    have fd: "schema_ok_fields [fd]" "\<And>v. shaped (fd_type fd) v \<Longrightarrow> runs 0 (shaped (fd_type fd)) (val v)"
      using Cons.prems(1) h by (auto simp: value_ok_def)
    have r: "outcome 0 (\<lambda>(v, r). field_var fd v) ib ?here"
      using less.prems fd by (auto intro!: runsD [OF To_Field_runs] runsD [OF UnknownField_runs])
    have hit: "outcome 0 (parsed ((fd, val) # heads)) ib (res_bind ?here (\<lambda>(vr, ib1).
        res_bind (r_ReadFieldBegin R ib1) (\<lambda>((type, fid), ib2).
            if fd_id fd < fid \<or> is_stop type
            then res_bind (dp_ReadFields R fs heads vars0 (snd vr) type fid ib2)
                   (\<lambda>((vars, r), ib3). Inr ((fst vr # vars, r), ib3))
            else if left ib2 < left ib
            then dp_ReadFields R fs ((fd, val) # heads) (fst vr # vars0) (snd vr) type fid ib2
            else Inl OutOfFuel)))"
      using less.prems
      by (intro turn_outcome [OF assms(1) _ r])
        (auto simp del: shaped_fields.simps intro!: parsed_next [where h = "(fd, val)"] IH less.hyps)
    have miss: "outcome 0 (parsed ((fd, val) # heads)) ib
       (res_bind (dp_ReadFields R fs heads vars0 required type fid ib)
             (\<lambda>((vars, r), ib). Inr ((var0 # vars, r), ib)))"
      using less.prems by (intro parsed_next [where h = "(fd, val)"] IH) auto
    show ?case
      unfolding \<open>vars = var0 # vars0\<close> by (subst dp_ReadFields_Cons) (rule outcome_if [OF hit miss])
  qed
qed

lemma DynamicParser_runs:
  assumes "\<not> r_static R" and "list_all value_ok heads" and "shaped_fields (map fst heads) vars"
  shows "runs 0 (\<lambda>(done, vs, r). shaped_fields (map fst heads) vs)
    (DynamicParser_ReadFields R base heads vars required)"
proof -
  have fields: "runs 0 (parsed heads) (dp_ReadFields R (map fst heads) heads vars required type fid)" for type fid
    by (intro runsI dp_ReadFields_runs assms)
  have unknown: "runs 0 (\<lambda>_. True) (ReadUnknownFields R type fid)" for type fid
    by (intro runsI ReadUnknownFields_runs assms)
  show ?thesis
    unfolding DynamicParser_ReadFields_def
    by (intro runs_bind0 [OF runs_any [OF FieldBegin_runs [OF assms(1)]]])
      (auto simp: parsed_def intro!: runs_ret runs_bind0 [OF fields] runs_bind0 [OF unknown])
qed

lemma sp_ReadFields_runs:
  "list_all value_ok heads \<Longrightarrow> shaped_fields (map fst heads) vars \<Longrightarrow>
   runs 0 (parsed heads) (sp_ReadFields fs heads vars required)"
proof (induction heads arbitrary: vars required)
  case Nil
  then show ?case by (auto simp: parsed_def intro: runs_ret)
next
  case (Cons h heads)
  obtain fd val where h: "h = (fd, val)" by (cases h)
  with Cons.prems obtain var0 vars0 where v: "vars = var0 # vars0" "field_var fd var0"
      "shaped_fields (map fst heads) vars0"
    by (auto simp: shaped_fields_iff list_all2_Cons1)
  have "runs 0 (\<lambda>(v, r). field_var fd v) (To_Field fs fd val var0 required)"
    using Cons.prems(1) h v by (intro To_Field_runs) (auto simp: value_ok_def)
  moreover have "runs 0 (parsed heads) (sp_ReadFields fs heads vars0 r)" for r
    using Cons.IH [OF _ v(3)] Cons.prems(1) by simp
  ultimately show ?case using h v(1)
    by (auto simp: parsed_def shaped_fields_iff
        intro!: runs_ret runs_bind0 [where P = "\<lambda>(v, r). field_var fd v"] runs_bind0 [where P = "parsed heads"])
qed

lemma Read_struct_runs:
  assumes "list_all value_ok heads" and "shaped_fields (map fst heads) vars"
  shows "runs 0 (\<lambda>(done, x). \<exists>vs. x = Struct md b vs \<and> shaped_fields (map fst heads) vs)
    (Read_struct R base heads md b vars)"
proof -
  have fields: "runs 0 (\<lambda>(done, vs, r). shaped_fields (map fst heads) vs) (ReadFields R base heads vars r)" for r
  proof (cases "r_static R")
    case True
    then show ?thesis unfolding ReadFields_def StaticParser_ReadFields_def
      by (auto intro!: runs_bind0 [OF sp_ReadFields_runs [OF assms]] runs_ret simp: parsed_def)
  next
    case False
    then show ?thesis by (simp add: ReadFields_def DynamicParser_runs [OF False assms])
  qed
  have valid: "runs 0 (\<lambda>_. True) (lift_res (Validate_struct r))" for r
    by (rule runs_lift_res) (auto dest: Validate_struct_defined)
  show ?thesis
    unfolding Read_struct_def by (auto intro!: runs_ret runs_bind0 [OF fields] runs_bind0 [OF valid])
qed

lemma des_runs:
  "R' = R \<Longrightarrow> schema_ok_type t \<Longrightarrow> shaped t var \<Longrightarrow> runs 0 (shaped t) (des_type R' t var)"
  "R' = R \<Longrightarrow> schema_ok_fields fs \<Longrightarrow> list_all value_ok (des_fields R' fs)"
  "R' = R \<Longrightarrow> schema_ok s \<Longrightarrow> shaped_struct s x \<Longrightarrow>
     runs 0 (\<lambda>(done, y). shaped_struct s y) (des_struct R' s base x)"
proof (induction R' t and R' fs and R' s arbitrary: var and and x base
    rule: des_type_des_fields_des_struct.induct)
  case (1 R' t)
  then show ?case
    by (auto simp: is_matching_basic_def intro!: runs_weaken [OF Deserialize_basic_runs])
next
  case (10 R' s)
  then obtain y where "var = VStruct y" "shaped_struct s y" by (cases var) auto
  with "10.IH" [OF "10.prems"(1)] "10.prems"(2)
  have "runs 0 (\<lambda>(done, y). shaped_struct s y) (des_struct R' s False (struct_of var))" by simp
  then show ?case
    unfolding des_type.simps by (rule runs_bind0) (auto intro: runs_ret)
next
  case (12 R' fid md mb t fs)
  then show ?case by (auto simp: value_ok_def)
next
  case (13 R' md fs)
  then have "list_all value_ok (des_fields R' fs)" "shaped_fields (map fst (des_fields R' fs)) (fields_of x)"
    by (auto split: bstruct.splits)
  then have "runs 0 (\<lambda>(done, y). shaped_struct (Schema md None fs) y)
      (Read_struct R base (des_fields R' fs) md None (fields_of x))"
    by (intro runs_weaken [OF Read_struct_runs]) auto
  then show ?case using 13 by (auto intro!: runs_bind0 [OF StructBegin_runs])
next
  case (14 R' md b fs)
  from "14.prems" obtain md' b' vs where x: "x = Struct md' (Some b') vs" "shaped_struct b b'" "shaped_fields fs vs"
    by (auto split: bstruct.splits option.splits)
  have base: "runs 0 (shaped_struct b) (AssignToBase (des_struct R' b True b'))"
    using "14.IH"(1) x "14.prems" unfolding AssignToBase_def
    by (auto intro!: runs_bind0 [where P = "\<lambda>(done, y). shaped_struct b y"] runs_ret runs_throw
        simp: UnexpectedStructStopException_def)
  have "runs 0 (\<lambda>(done, y). shaped_struct (Schema md (Some b) fs) y)
      (Read_struct R' base (des_fields R' fs) md (Some y) vs)" if "shaped_struct b y" for y
    using "14.IH"(2) "14.prems" x(3) that
    by (intro runs_weaken [OF Read_struct_runs [folded \<open>R' = R\<close>]]) auto
  then have "runs 0 (\<lambda>(done, y). shaped_struct (Schema md (Some b) fs) y)
      (bind (AssignToBase (des_struct R' b True b')) (\<lambda>b'. Read_struct R' base (des_fields R' fs) md (Some b') vs))"
    by (rule runs_bind0 [OF base])
  then show ?case using "14.prems"(1) x by (auto intro!: runs_bind0 [OF StructBegin_runs])
qed (auto intro!: DeserializeContainer_basic_runs DeserializeContainer_nested_runs
      DeserializeMap_basic_runs DeserializeMap_nested_runs simp del: shaped.simps schema_ok_type.simps
      simp: schema_ok_type.simps(1-4,6) shaped_TBasic)

lemma Deserialize_runs: "schema_ok s \<Longrightarrow> runs 0 (shaped_struct s) (Deserialize R s)"
  unfolding Deserialize_def
  by (auto intro!: runs_bind0 [OF des_runs(3) [OF refl]] runs_ret shaped_default)

end

section \<open>The readers\<close>

lemma runs_varint: "LENGTH('a) \<in> {16, 32, 64} \<Longrightarrow>
    runs 0 (\<lambda>_. True) (ReadVariableUnsigned :: (InputBuffer, 'a::len word) st)"
  using runs_any [OF runs_reads_safely [OF reads_safely_varint]] by blast

lemma runs_le: "runs 0 (\<lambda>_. True) (ib_read_le sz :: (InputBuffer, 'a::len word) st)"
  by (rule runs_any [OF runs_reads_safely [OF reads_safely_le]])

lemma runs_u8: "runs 0 (\<lambda>_. True) ib_read_u8"
  by (rule runs_any [OF runs_reads_safely [OF reads_safely_u8]])

lemma runs_ReadStringData: "runs 0 (\<lambda>_. True) (ReadStringData len)"
  unfolding ReadStringData_def by (rule runs_any [OF runs_reads_safely [OF reads_safely_mem]])

lemma runs_ReadWStringData: "runs 0 (\<lambda>_. True) (ReadWStringData len)"
  unfolding ReadWStringData_def
  by (rule runs_collect [where P = "\<lambda>_. True"]) (auto intro!: runs_bind0 [OF runs_le] runs_ret)

lemma runs_read_bool: "runs 0 (\<lambda>_. True) read_bool"
  unfolding read_bool_def by (rule runs_bind0 [OF runs_le]) (auto intro!: runs_ret runs_throw)

lemmas runs_bind_read = runs_bind0 [OF runs_le] runs_bind0 [OF runs_u8] runs_bind0 [OF runs_read_bool]
  runs_bind0 [OF runs_ReadStringData] runs_bind0 [OF runs_ReadWStringData]

lemma runs_read_object: "runs 0 (basic_of t) (read_object t)"
  by (cases t) (auto intro!: runs_bind_read runs_ret runs_throw)

lemma runs_cr_Read: "runs 0 (basic_of t) (cr_Read t)"
  using runs_read_object [of t]
  by (cases t) (auto intro!: runs_bind0 [OF runs_varint] runs_bind_read runs_ret)

lemma runs_fb_Read: "runs 0 (basic_of t) (fb_Read t)"
  using runs_read_object [of t]
  by (cases t) (auto intro!: runs_bind0 [OF runs_varint] runs_bind_read runs_ret)

lemma runs_sr_ReadSize: "runs 0 (\<lambda>_. True) (sr_ReadSize version)"
  by (rule runs_any [OF runs_reads_safely [OF sr_Read_safe_size]])

lemma runs_sr_Read: "runs 0 (basic_of t) (sr_Read version t)"
  using runs_read_object [of t]
  by (cases t) (auto intro!: runs_bind0 [OF runs_sr_ReadSize] runs_bind_read runs_ret)

lemma runs_read_blob: "runs 0 blob_wf (ib_read_blob sz)"
proof (rule runsI)
  fix ib assume "ib_ok ib"
  then have at: "ib_at ib (ib_rest ib)" by (rule ib_ok_at)
  show "outcome 0 blob_wf ib (ib_read_blob sz ib)"
  proof (cases "unat sz \<le> length (ib_rest ib)")
    case True
    with ib_read_blob_at [OF at True] show ?thesis by (auto intro: outcome_Inr)
  next
    case False
    with ib_read_blob_eof [OF at] show ?thesis by (simp add: EofException_def)
  qed
qed

interpretation compact: safe_reader "compact_reader version" for version
  by unfold_locales (simp_all add: compact_reader_def runs_cr_Read runs_read_blob
      runs_reads_safely reads_safely_cr_ReadStructBegin reads_safely_cr_ReadFieldBegin [unfolded One_nat_def] cr_SkipType_safe
      reads_safely_any [OF reads_safely_cr_ReadContainerBegin]
      reads_safely_any [OF reads_safely_cr_ReadContainerBegin2])

interpretation fast: safe_reader fast_reader
  by unfold_locales (simp_all add: fast_reader_def runs_fb_Read runs_read_blob fb_ReadStructBegin_def
      runs_reads_safely reads_safely_ret reads_safely_fb_ReadFieldBegin [unfolded One_nat_def] fb_SkipType_safe
      reads_safely_any [OF reads_safely_fb_ReadContainerBegin]
      reads_safely_any [OF reads_safely_fb_ReadContainerBegin2])

text \<open>Skipping with the static parser\<close>

definition attempts :: "attempt \<Rightarrow> bool" where
  "attempts a \<longleftrightarrow> (\<forall>ib. ib_ok ib \<longrightarrow>
     (\<exists>k \<le> length (ib_rest ib). snd (a ib) = ib_adv k ib) \<and> (\<forall>e. fst (a ib) = Some e \<longrightarrow> defined_exn e))"

lemma attemptsE:
  assumes "attempts a" and "ib_ok ib"
  obtains k where "k \<le> length (ib_rest ib)" "snd (a ib) = ib_adv k ib"
    "ib_ok (ib_adv k ib)" "length (ib_rest (ib_adv k ib)) = length (ib_rest ib) - k"
    "\<forall>e. fst (a ib) = Some e \<longrightarrow> defined_exn e"
proof -
  from assms obtain k where k: "k \<le> length (ib_rest ib)" "snd (a ib) = ib_adv k ib"
      "\<forall>e. fst (a ib) = Some e \<longrightarrow> defined_exn e" unfolding attempts_def by blast
  with that [OF k(1,2) ib_adv_ok(1) [OF assms(2) k(1)]] ib_adv_ok(2) [OF assms(2) k(1)] show ?thesis by simp
qed

lemma attempts_done: "attempts (\<lambda>ib. (None, ib))"
  by (auto simp: attempts_def intro!: exI [of _ 0])

lemma attempts_seq:
  assumes "attempts a" and "attempts b"
  shows "attempts (attempt_seq a b)"
  unfolding attempts_def
proof (intro allI impI)
  fix ib assume ok: "ib_ok ib"
  from assms(1) ok obtain k where k: "k \<le> length (ib_rest ib)" "snd (a ib) = ib_adv k ib"
      "ib_ok (ib_adv k ib)" "length (ib_rest (ib_adv k ib)) = length (ib_rest ib) - k"
      "\<forall>e. fst (a ib) = Some e \<longrightarrow> defined_exn e" by (rule attemptsE)
  show "(\<exists>k \<le> length (ib_rest ib). snd (attempt_seq a b ib) = ib_adv k ib) \<and>
      (\<forall>e. fst (attempt_seq a b ib) = Some e \<longrightarrow> defined_exn e)"
  proof (cases "fst (a ib)")
    case None
    then have "attempt_seq a b ib = b (ib_adv k ib)"
      using k(2) by (cases "a ib") (simp add: attempt_seq_def)
    moreover from assms(2) k(3) obtain j where "j \<le> length (ib_rest ib) - k"
        "snd (b (ib_adv k ib)) = ib_adv j (ib_adv k ib)"
        "\<forall>e. fst (b (ib_adv k ib)) = Some e \<longrightarrow> defined_exn e"
      using k(4) by (metis attemptsE)
    ultimately show ?thesis using k(1) by (auto intro!: exI [of _ "k + j"])
  next
    case (Some e)
    then have "attempt_seq a b ib = a ib" by (cases "a ib") (simp add: attempt_seq_def)
    with k show ?thesis by auto
  qed
qed

lemma attempts_repeat: "attempts a \<Longrightarrow> attempts (attempt_repeat n a)"
  by (induction n) (simp_all add: attempts_done attempts_seq)

lemma attempts_size:
  assumes m: "runs 0 (\<lambda>_. True) m" and f: "\<And>x. attempts (f x)"
  shows "attempts (attempt_size version m f)"
  unfolding attempts_def
proof (intro allI impI)
  fix ib assume ok: "ib_ok ib"
  from runsD [OF m ok]
  show "(\<exists>k \<le> length (ib_rest ib). snd (attempt_size version m f ib) = ib_adv k ib) \<and>
      (\<forall>e. fst (attempt_size version m f ib) = Some e \<longrightarrow> defined_exn e)"
  proof (cases rule: outcomeE)
    case (1 e)
    then show ?thesis
      by (auto simp: attempt_size_def ib_adv_end [OF ok] intro: exI [of _ 0])
  next
    case (2 x k)
    from f [of x] ib_adv_ok(1) [OF ok 2(4)] obtain j where "j \<le> length (ib_rest (ib_adv k ib))"
        "snd (f x (ib_adv k ib)) = ib_adv j (ib_adv k ib)"
        "\<forall>e. fst (f x (ib_adv k ib)) = Some e \<longrightarrow> defined_exn e" by (rule attemptsE)
    with 2 ib_adv_ok(2) [OF ok 2(4)] show ?thesis
      by (auto simp: attempt_size_def intro!: exI [of _ "k + j"])
  qed
qed

lemma attempts_basic: "attempts (static_Skip_basic version t)"
  unfolding static_Skip_basic_def
  by (intro attempts_size attempts_done runs_reads_safely sr_Skip_safe)

lemma attempts_container:
  "attempts a \<Longrightarrow> attempts (SkipContainer version a)" "attempts a \<Longrightarrow> attempts (SkipMap version k a)"
  unfolding SkipContainer_def SkipMap_def sr_ReadContainerBegin_def
  by (intro attempts_size attempts_repeat attempts_seq attempts_basic runs_sr_ReadSize; assumption)+

lemma attempts_static_Skip:
  "attempts (static_Skip version t)"
  "attempts (\<lambda>ib. (None, static_SkipFields version fs ib))"
  "attempts (\<lambda>ib. (None, static_SkipStruct version s ib))"
proof (induction version t and version fs and version s
    rule: static_Skip_static_SkipFields_static_SkipStruct.induct)
  case (9 version fid md mb t fs)
  have "attempts (\<lambda>ib. (None, snd (static_Skip version t ib)))"
    using 9(2) by (auto simp: attempts_def)
  from attempts_seq [OF this 9(1)] show ?case by (simp add: attempt_seq_def [abs_def])
next
  case (11 version md b fs)
  from attempts_seq [OF 11(2,1)] show ?case by (simp add: attempt_seq_def [abs_def])
qed (simp_all add: attempts_basic attempts_container attempts_done)

lemma runs_sr_SkipValue: "runs 0 (\<lambda>_. True) (sr_SkipValue version t)"
proof (rule runsI)
  fix ib assume ok: "ib_ok ib"
  from attempts_static_Skip(1) [of version t] ok show "outcome 0 (\<lambda>_. True) ib (sr_SkipValue version t ib)"
    by (rule attemptsE)
      (auto simp: sr_SkipValue_def intro: outcome_Inr split: prod.splits option.splits)
qed

interpretation simple: safe_reader "simple_reader version" for version
  by unfold_locales (auto simp: simple_reader_def runs_sr_Read runs_read_blob runs_sr_SkipValue
      sr_ReadContainerBegin_def runs_reads_safely sr_Skip_safe
      intro!: runs_ret runs_bind0 [OF runs_sr_ReadSize])

end
