(* ===== verification/Payload_View.thy ===== *)
theory Payload_View
  imports Deserialize_Safety
begin

text \<open>
  What deserialization means, on trees instead of bytes. \<open>view_struct s L var\<close> is the object that
  results from reading a payload with the levels \<open>L\<close> of an inheritance hierarchy into an object
  \<open>var\<close> of schema \<open>s\<close>: a field of the schema takes the value of the payload field with the same id
  if the types match (promoting numbers), keeps its value otherwise, and required fields must be
  there; further payload fields and derived levels are ignored. The view knows the content of blobs
  only, so results are compared after \<open>erase\<close>, which forgets where in memory a blob is.
\<close>

declare default_basic.simps [simp del]

section \<open>Objects up to the addresses of blobs\<close>

definition blob_of :: "byte list \<Rightarrow> blob" where
  "blob_of bs = \<lparr>blob_buffer = None, blob_content = 0, blob_length = of_nat (length bs), blob_bytes = bs\<rparr>"

primrec erase :: "bvalue \<Rightarrow> bvalue"
  and erase_field :: "bfield \<Rightarrow> bfield"
  and erase_struct :: "bstruct \<Rightarrow> bstruct" where
  "erase (VBool b) = VBool b"
| "erase (VUInt8 x) = VUInt8 x"
| "erase (VUInt16 x) = VUInt16 x"
| "erase (VUInt32 x) = VUInt32 x"
| "erase (VUInt64 x) = VUInt64 x"
| "erase (VInt8 x) = VInt8 x"
| "erase (VInt16 x) = VInt16 x"
| "erase (VInt32 x) = VInt32 x"
| "erase (VInt64 x) = VInt64 x"
| "erase (VFloat x) = VFloat x"
| "erase (VDouble x) = VDouble x"
| "erase (VString s) = VString s"
| "erase (VWString s) = VWString s"
| "erase (VBlob b) = VBlob (blob_of (blob_bytes b))"
| "erase (VList t vs) = VList t (map erase vs)"
| "erase (VSet t vs) = VSet t (map erase vs)"
| "erase (VMap k t kvs) = VMap k t (map (map_prod erase erase) kvs)"
| "erase (VStruct s) = VStruct (erase_struct s)"
| "erase_field (Field fid md v) = Field fid md (erase v)"
| "erase_field (MaybeField fid md t v) = MaybeField fid md t (map_option erase v)"
| "erase_struct (Struct md b fs) = Struct md (map_option erase_struct b) (map erase_field fs)"

lemma erase_basic [simp]: "is_basic v \<Longrightarrow> erase v = v"
  by (cases v) simp_all

lemma erase_is_basic [simp]: "is_basic (erase v) = is_basic v" "GetTypeId (erase v) = GetTypeId v"
  by (cases v; simp)+

section \<open>The view of a payload\<close>

text \<open>
  The present fields of a level, and the levels of a struct from the root of the hierarchy; a
  level says whether it is a base.
\<close>

type_synonym level = "(u16 \<times> bvalue) list \<times> bool"

fun present :: "bool \<Rightarrow> bfield \<Rightarrow> (u16 \<times> bvalue) list" where
  "present mo (Field fid md v) = (if omit_field mo md v then [] else [(fid, v)])"
| "present mo (MaybeField fid md t None) = []"
| "present mo (MaybeField fid md t (Some v)) = [(fid, v)]"

fun levels :: "bool \<Rightarrow> bool \<Rightarrow> bstruct \<Rightarrow> level list" where
  "levels mo base (Struct md None fs) = [(concat (map (present mo) fs), base)]"
| "levels mo base (Struct md (Some b) fs) =
     levels mo True b @ [(concat (map (present mo) fs), base)]"

text \<open>The type and the items of a list or set of the payload; a blob is a list of \<open>int8\<close>.\<close>

fun payload_items :: "bvalue \<Rightarrow> BondDataType \<times> bvalue list" where
  "payload_items (VList t xs) = (t, xs)"
| "payload_items (VSet t xs) = (t, xs)"
| "payload_items (VBlob b) = (BT_INT8, map VInt8 (blob_bytes b))"
| "payload_items v = (BT_STOP, [])"

fun int8_of :: "bvalue \<Rightarrow> byte" where
  "int8_of (VInt8 x) = x"
| "int8_of v = 0"

text \<open>A view takes a value of the payload and the variable it is read into.\<close>

type_synonym view = "bvalue \<Rightarrow> bvalue \<Rightarrow> bvalue res"

definition view_basic :: "BondDataType \<Rightarrow> view" where
  "view_basic t x var = Inr (static_cast t x)"

fun view_items :: "view \<Rightarrow> bvalue list \<Rightarrow> bvalue list \<Rightarrow> bvalue list res" where
  "view_items el (x # xs) (v # vs) =
     res_bind (el x v) (\<lambda>y. res_bind (view_items el xs vs) (\<lambda>ys. Inr (y # ys)))"
| "view_items el xs vs = Inr []"

fun view_set :: "view \<Rightarrow> bvalue list \<Rightarrow> bvalue \<Rightarrow> bvalue list \<Rightarrow> bvalue list res" where
  "view_set el [] e s = Inr s"
| "view_set el (x # xs) e s = res_bind (el x e) (\<lambda>e. view_set el xs e (set_insert e s))"

fun view_elements :: "btype \<Rightarrow> view \<Rightarrow> bvalue list \<Rightarrow> bvalue \<Rightarrow> bvalue res" where
  "view_elements (TList e) el xs var =
     res_bind (view_items el xs (resize_list (length xs) (default_value e) (items_of var)))
       (\<lambda>vs. Inr (VList (get_type_id e) vs))"
| "view_elements (TNullable e) el xs var =
     (case xs of
        [] \<Rightarrow> Inr (VList (get_type_id e) [])
      | x # _ \<Rightarrow> res_bind (el x (case items_of var of [] \<Rightarrow> default_value e | v # vs \<Rightarrow> v))
                  (\<lambda>v. Inr (VList (get_type_id e) [v])))"
| "view_elements (TSet t) el xs var =
     res_bind (view_set el xs (default_basic t) []) (\<lambda>vs. Inr (VSet t vs))"
| "view_elements TBlob el xs var = Inr (VBlob (blob_of (map int8_of xs)))"
| "view_elements X el xs var = Inr var"

definition view_container_basic :: "btype \<Rightarrow> BondDataType \<Rightarrow> view" where
  "view_container_basic X e x var =
     (if is_matching_basic (fst (payload_items x)) e
      then view_elements X (view_basic e) (snd (payload_items x)) var else Inr var)"

definition view_container_nested :: "btype \<Rightarrow> btype \<Rightarrow> view \<Rightarrow> view" where
  "view_container_nested X e el x var =
     (if fst (payload_items x) = get_type_id e then view_elements X el (snd (payload_items x)) var
      else Inr var)"

fun view_pairs ::
    "BondDataType \<Rightarrow> view \<Rightarrow> bvalue \<Rightarrow> (bvalue \<times> bvalue) list \<Rightarrow> (bvalue \<times> bvalue) list \<Rightarrow>
      (bvalue \<times> bvalue) list res" where
  "view_pairs k el d [] m = Inr m"
| "view_pairs k el d ((x, y) # kvs) m =
     res_bind (el y (mapped_at d (static_cast k x) m)) (\<lambda>v.
       view_pairs k el d kvs (map_assign (static_cast k x) v m))"

definition view_map :: "(BondDataType \<Rightarrow> bool) \<Rightarrow> BondDataType \<Rightarrow> btype \<Rightarrow> view \<Rightarrow> view" where
  "view_map match k e el x var =
     (case x of
        VMap kt t kvs \<Rightarrow>
          if match t \<and> is_matching_basic kt k
          then res_bind (view_pairs k el (default_value e) kvs []) (\<lambda>m. Inr (VMap k (get_type_id e) m))
          else Inr var
      | _ \<Rightarrow> Inr var)"

text \<open>A field of the schema and the payload field with its id\<close>

fun view_var :: "fdef \<Rightarrow> (bvalue \<Rightarrow> bvalue res) \<Rightarrow> bfield \<Rightarrow> bfield res" where
  "view_var fd f (Field fid md v) = res_bind (f v) (\<lambda>v. Inr (Field fid md v))"
| "view_var fd f (MaybeField fid md t v) =
     res_bind (f (case v of None \<Rightarrow> default_value (fd_type fd) | Some v \<Rightarrow> v))
       (\<lambda>v. Inr (MaybeField fid md t (Some v)))"

definition view_field :: "fdef list \<Rightarrow> fdef \<Rightarrow> view \<Rightarrow> bvalue \<Rightarrow> bfield \<Rightarrow> u16 \<Rightarrow> (bfield \<times> u16) res" where
  "view_field fs fd el x var required =
     (let t = get_type_id (fd_type fd) in
      if GetTypeId x = t \<or> is_basic_type (fd_type fd) \<and> is_matching_basic (GetTypeId x) t
      then res_bind (Validate_field fs fd required) (\<lambda>required.
             res_bind (view_var fd (if GetTypeId x = t then el x else view_basic t x) var) (\<lambda>var.
               Inr (var, required)))
      else Inr (var, required))"

fun view_level ::
    "fdef list \<Rightarrow> (fdef \<times> view) list \<Rightarrow> (u16 \<times> bvalue) list \<Rightarrow> bfield list \<Rightarrow> u16 \<Rightarrow>
      (bfield list \<times> u16) res" where
  "view_level fs [] ps vars required = Inr (vars, required)"
| "view_level fs ((fd, el) # heads) ps (var # vars) required =
     res_bind (case map_of ps (fd_id fd) of
                 None \<Rightarrow> Inr (var, required)
               | Some x \<Rightarrow> view_field fs fd el x var required) (\<lambda>(var, required).
       res_bind (view_level fs heads ps vars required) (\<lambda>(vars, required).
         Inr (var # vars, required)))"
| "view_level fs heads ps vars required = Inl OutOfBounds"

text \<open>The result of a base says whether the payload ends there.\<close>

definition view_read ::
    "bool \<Rightarrow> (fdef \<times> view) list \<Rightarrow> Metadata \<Rightarrow> bstruct option \<Rightarrow> level list \<Rightarrow> bfield list \<Rightarrow>
      (bool \<times> bstruct) res" where
  "view_read base heads md b L vars =
     res_bind (view_level (map fst heads) heads (fst (hd L)) vars (next_required_field (map fst heads) 0))
       (\<lambda>(vars, required). res_bind (Validate_struct required) (\<lambda>_.
          Inr (base \<and> \<not> snd (hd L), Struct md b vars)))"

fun depth :: "sschema \<Rightarrow> nat" where
  "depth (Schema md None fs) = 1"
| "depth (Schema md (Some b) fs) = Suc (depth b)"

function (sequential) view_type :: "btype \<Rightarrow> view"
  and view_fields :: "fdef list \<Rightarrow> (fdef \<times> view) list"
  and view_struct :: "sschema \<Rightarrow> bool \<Rightarrow> level list \<Rightarrow> bstruct \<Rightarrow> (bool \<times> bstruct) res" where
  "view_type (TBasic t) = view_basic t"
| "view_type TBlob = view_container_basic TBlob BT_INT8"
| "view_type (TNullable (TBasic t)) = view_container_basic (TNullable (TBasic t)) t"
| "view_type (TNullable e) = view_container_nested (TNullable e) e (view_type e)"
| "view_type (TList (TBasic t)) = view_container_basic (TList (TBasic t)) t"
| "view_type (TList e) = view_container_nested (TList e) e (view_type e)"
| "view_type (TSet t) = view_container_basic (TSet t) t"
| "view_type (TMap k (TBasic t)) = view_map (\<lambda>et. is_matching_basic et t) k (TBasic t) (view_basic t)"
| "view_type (TMap k e) = view_map (\<lambda>et. et = get_type_id e) k e (view_type e)"
| "view_type (TStruct s) =
     (\<lambda>x var. case x of
        VStruct y \<Rightarrow> res_bind (view_struct s False (levels True False y) (struct_of var))
                       (\<lambda>(done, z). Inr (VStruct z))
      | _ \<Rightarrow> Inr var)"
| "view_fields [] = []"
| "view_fields (FieldDef fid md mb t # fs) = (FieldDef fid md mb t, view_type t) # view_fields fs"
| "view_struct (Schema md None fs) =
     (\<lambda>base L var. view_read base (view_fields fs) md None L (fields_of var))"
| "view_struct (Schema md (Some b) fs) =
     (\<lambda>base L var. res_bind (view_struct b True L (the (base_of var))) (\<lambda>(done, b').
        if done then Inl UnexpectedStructStopException
        else view_read base (view_fields fs) md (Some b') (drop (depth b) L) (fields_of var)))"
  by pat_completeness auto
termination
  by (relation "measure (case_sum (\<lambda>t. size t)
      (case_sum (\<lambda>fs. size_list size fs) (\<lambda>s. size s)))") auto

text \<open>The object that a payload stands for, read into a default-constructed object\<close>

definition view_object :: "sschema \<Rightarrow> bstruct \<Rightarrow> bstruct res" where
  "view_object s x = res_bind (view_struct s False (levels True False x) (default_struct s))
     (\<lambda>(done, y). Inr y)"

section \<open>Well-formed payloads\<close>

text \<open>Every level of every struct lists its fields by increasing id.\<close>

definition field_id :: "bfield \<Rightarrow> u16" where
  "field_id f = (case f of Field fid md v \<Rightarrow> fid | MaybeField fid md t v \<Rightarrow> fid)"

primrec ordered :: "bvalue \<Rightarrow> bool"
  and ordered_field :: "bfield \<Rightarrow> bool"
  and ordered_struct :: "bstruct \<Rightarrow> bool" where
  "ordered (VBool b) = True"
| "ordered (VUInt8 x) = True"
| "ordered (VUInt16 x) = True"
| "ordered (VUInt32 x) = True"
| "ordered (VUInt64 x) = True"
| "ordered (VInt8 x) = True"
| "ordered (VInt16 x) = True"
| "ordered (VInt32 x) = True"
| "ordered (VInt64 x) = True"
| "ordered (VFloat x) = True"
| "ordered (VDouble x) = True"
| "ordered (VString s) = True"
| "ordered (VWString s) = True"
| "ordered (VBlob b) = True"
| "ordered (VList t vs) = list_all id (map ordered vs)"
| "ordered (VSet t vs) = list_all id (map ordered vs)"
| "ordered (VMap k t kvs) = list_all (\<lambda>(x, y). x \<and> y) (map (map_prod ordered ordered) kvs)"
| "ordered (VStruct s) = ordered_struct s"
| "ordered_field (Field fid md v) = ordered v"
| "ordered_field (MaybeField fid md t v) = (case map_option ordered v of None \<Rightarrow> True | Some b \<Rightarrow> b)"
| "ordered_struct (Struct md b fs) =
     (sorted_wrt (<) (map field_id fs) \<and> list_all id (map ordered_field fs) \<and>
      (case map_option ordered_struct b of None \<Rightarrow> True | Some b \<Rightarrow> b))"

definition good :: "bvalue \<Rightarrow> bool" where
  "good x \<longleftrightarrow> wf_value True x \<and> ordered x"

lemma wf_items_iff: "wf_items mo t xs \<longleftrightarrow> list_all (\<lambda>x. GetTypeId x = t \<and> wf_value mo x) xs"
  by (induction xs) auto

lemma wf_pairs_iff:
  "wf_pairs mo k t kvs \<longleftrightarrow>
     list_all (\<lambda>(x, y). GetTypeId x = k \<and> GetTypeId y = t \<and> wf_value mo x \<and> wf_value mo y) kvs"
  by (induction kvs) auto

lemma wf_fields_iff: "wf_fields mo fs \<longleftrightarrow> list_all (wf_field mo) fs"
  by (induction fs) auto

text \<open>A list or set of the payload is a header and its items.\<close>

lemma good_items:
  assumes "good x" and "GetTypeId x = BT_LIST \<or> GetTypeId x = BT_SET" and "payload_items x = (t, xs)"
    and int8: "\<And>b. f_basic F (VInt8 b) = [b]"
  shows "fst (enc_value F x) = f_container F (of_nat (length xs)) t @ fst (enc_items F xs)"
    and "is_value_type t" and "length xs < 2 ^ 32" and "list_all (\<lambda>y. good y \<and> GetTypeId y = t) xs"
proof -
  have int8s: "fst (enc_items F (map VInt8 bs)) = bs" for bs
    by (induction bs) (simp_all add: int8)
  have len: "blob_wf b \<Longrightarrow> length (blob_bytes b) < 2 ^ 32 \<and> of_nat (length (blob_bytes b)) = blob_length b" for b
    using unat_u32_bound [of "blob_length b"] by (simp add: blob_wf_def)
  have "fst (enc_value F x) = f_container F (of_nat (length xs)) t @ fst (enc_items F xs) \<and>
      is_value_type t \<and> length xs < 2 ^ 32 \<and> list_all (\<lambda>y. good y \<and> GetTypeId y = t) xs"
    using assms(1-3) int8s len
    by (cases x) (auto simp: good_def wf_items_iff list_all_iff)
  then show "fst (enc_value F x) = f_container F (of_nat (length xs)) t @ fst (enc_items F xs)"
    "is_value_type t" "length xs < 2 ^ 32" "list_all (\<lambda>y. good y \<and> GetTypeId y = t) xs" by blast+
qed

lemma default_basic_basic [simp]: "is_basic (default_basic t)"
  by (cases t) (simp_all add: default_basic.simps)

lemma erase_default:
  "erase (default_value t) = default_value t"
  "erase_field (default_field f) = default_field f"
  "map erase_field (default_fields fs) = default_fields fs"
  "erase_struct (default_struct s) = default_struct s"
proof (induction t and f and fs and s rule: default_value_default_field_default_fields_default_struct.induct)
  case (9 fid md t)
  then show ?case using default_basic_basic VariantGet_type
    by (cases t) (auto split: option.splits)
qed (auto simp: blob_empty_def blob_of_def default_basic_basic)

lemma items_of_erase: "items_of (erase v) = map erase (items_of v)"
  by (cases v) simp_all

lemma map_resize_list: "map f (resize_list n d vs) = resize_list n (f d) (map f vs)"
  by (simp add: resize_list_def take_map)

lemma length_resize_list [simp]: "length (resize_list n d vs) = n"
  by (simp add: resize_list_def)

lemma matching_basic_tag: "is_matching_basic t e \<Longrightarrow> is_basic_tag e \<Longrightarrow> is_basic_tag t"
  by (cases t; cases e) (simp_all add: is_matching_basic_def is_unsigned_tag_def is_signed_tag_def)

lemma matching_in_cases: "is_matching_basic t e \<Longrightarrow> is_basic_tag e \<Longrightarrow> t \<in> set (matching_cases e)"
  by (cases t; cases e) (simp_all add: is_matching_basic_def is_unsigned_tag_def is_signed_tag_def)

abbreviation erase_var :: "bfield \<times> u16 \<Rightarrow> bfield \<times> u16" where
  "erase_var \<equiv> map_prod erase_field (\<lambda>r. r)"

text \<open>Maps\<close>

definition erase_mapped :: "(bvalue \<times> bvalue) list \<Rightarrow> (bvalue \<times> bvalue) list" where
  "erase_mapped = map (\<lambda>(k, v). (k, erase v))"

lemma erase_mapped_simps [simp]: "erase_mapped [] = []" "erase_mapped ((k, v) # m) = (k, erase v) # erase_mapped m"
  by (simp_all add: erase_mapped_def)

lemma mapped_at_erase: "mapped_at (erase d) k (erase_mapped m) = erase (mapped_at d k m)"
  by (induction m) auto

lemma map_assign_erase: "map_assign k (erase v) (erase_mapped m) = erase_mapped (map_assign k v m)"
  by (induction m) auto

lemma erase_mapped_basic:
  "list_all (\<lambda>(x, y). basic_of k x \<and> Q y) m \<Longrightarrow> map (map_prod erase erase) m = erase_mapped m"
  by (induction m) auto

definition good_pairs :: "BondDataType \<Rightarrow> BondDataType \<Rightarrow> (bvalue \<times> bvalue) list \<Rightarrow> bool" where
  "good_pairs kt t kvs \<longleftrightarrow> list_all (\<lambda>(x, y). good x \<and> GetTypeId x = kt \<and> good y \<and> GetTypeId y = t) kvs"

lemma good_map:
  assumes "good x" and "GetTypeId x = BT_MAP"
  obtains kt t kvs where "x = VMap kt t kvs" "is_value_type kt" "is_value_type t" "length kvs < 2 ^ 32"
    "good_pairs kt t kvs"
  using assms
  by (cases x) (auto simp: good_def good_pairs_def wf_pairs_iff list_all_iff split_beta)

lemma tl_in_set: "y \<in> set (tl xs) \<Longrightarrow> y \<in> set xs"
  by (cases xs) auto

end
