(* ===== verification/Read_Containers.thy ===== *)
theory Read_Containers
  imports Payload_View
begin

text \<open>
  Reading encoded values: the calculus in which the refinement proofs are written, and the locale
  \<open>encoded_reader\<close>, which states what a protocol reader does on the encodings of a format. Under it
  the deserialization of lists, sets, blobs, nullables, maps and fields computes the view of theory
  \<open>Payload_View\<close>, given that it does so for elements.
\<close>

section \<open>Reading an encoding\<close>

text \<open>
  \<open>yields E m bs r\<close>: wherever the bytes \<open>bs\<close> stand next, \<open>m\<close> has the result \<open>r\<close> up to \<open>E\<close>; if \<open>r\<close>
  is a value then \<open>m\<close> moves exactly past the bytes.
\<close>

definition gives :: "('a \<Rightarrow> 'b) \<Rightarrow> InputBuffer \<Rightarrow> byte list \<Rightarrow> ('a \<times> InputBuffer) res \<Rightarrow> 'b res \<Rightarrow> bool" where
  "gives E ib bs res r \<longleftrightarrow>
     (case r of
        Inl e \<Rightarrow> res = Inl e
      | Inr v \<Rightarrow> \<exists>x. E x = v \<and> res = Inr (x, ib_adv (length bs) ib))"

definition yields :: "('a \<Rightarrow> 'b) \<Rightarrow> (InputBuffer, 'a) st \<Rightarrow> byte list \<Rightarrow> 'b res \<Rightarrow> bool" where
  "yields E m bs r \<longleftrightarrow> (\<forall>ib rest. ib_at ib (bs @ rest) \<longrightarrow> gives E ib bs (m ib) r)"

lemma gives_Inl [simp]: "gives E ib bs res (Inl e) \<longleftrightarrow> res = Inl e"
  by (simp add: gives_def)

lemma gives_Inr: "gives E ib bs (Inr (x, ib_adv (length bs) ib)) (Inr (E x))"
  by (auto simp: gives_def)

lemma givesE:
  assumes "gives E ib bs res r"
  obtains e where "r = Inl e" "res = Inl e"
    | x where "r = Inr (E x)" "res = Inr (x, ib_adv (length bs) ib)"
  using assms by (cases r) (auto simp: gives_def)

lemma yieldsI: "(\<And>ib rest. ib_at ib (bs @ rest) \<Longrightarrow> gives E ib bs (m ib) r) \<Longrightarrow> yields E m bs r"
  by (simp add: yields_def)

lemma yieldsD: "yields E m bs r \<Longrightarrow> ib_at ib (bs @ rest) \<Longrightarrow> gives E ib bs (m ib) r"
  by (auto simp: yields_def)

lemma yields_bounded: "(length bs < 2 ^ 32 \<Longrightarrow> yields E m bs r) \<Longrightarrow> yields E m bs r"
  unfolding yields_def using ib_at_bound by fastforce

lemma yields_decodes: "decodes m bs x \<Longrightarrow> yields E m bs (Inr (E x))"
  by (rule yieldsI) (simp add: decodesD gives_Inr)

lemma yields_ret: "yields E (ret x) [] (Inr (E x))"
  by (intro yields_decodes decodes_ret)

lemma runs_value: "runs n P m \<Longrightarrow> ib_at ib bs \<Longrightarrow> m ib = Inr (x, ib') \<Longrightarrow> P x"
  by (drule runsD [OF _ ib_at_ok]) (auto simp: outcome_def)

lemma gives_bind:
  assumes at: "ib_at ib (bs @ bs' @ rest)" and m: "gives E ib bs (m ib) r" and run: "runs n P m"
    and f: "\<And>x ib'. P x \<Longrightarrow> r = Inr (E x) \<Longrightarrow> ib_at ib' (bs' @ rest) \<Longrightarrow> left ib' \<le> left ib \<Longrightarrow>
      gives E' ib' bs' (f (x, ib')) (s (E x))"
  shows "gives E' ib (bs @ bs') (res_bind (m ib) f) (res_bind r s)"
  using m
proof (cases rule: givesE)
  case (2 x)
  have at': "ib_at (ib_adv (length bs) ib) (bs' @ rest)" using at by (rule ib_at_adv_append)
  have "ib_rest (ib_adv (length bs) ib) = bs' @ rest" "ib_rest ib = bs @ bs' @ rest"
    using at at' by (auto simp: ib_at_def)
  then have "left (ib_adv (length bs) ib) \<le> left ib" by (simp add: left_def)
  from f [OF runs_value [OF run at 2(2)] 2(1) at' this] 2 show ?thesis
    by (cases rule: givesE) (auto intro!: gives_Inr [of E' ib "bs @ bs'", simplified])
qed simp

lemma yields_bind:
  assumes "yields E m bs r" and "runs n P m"
    and "\<And>x. P x \<Longrightarrow> r = Inr (E x) \<Longrightarrow> yields E' (f x) bs' (s (E x))"
  shows "yields E' (bind m f) (bs @ bs') (res_bind r s)"
proof (rule yieldsI)
  fix ib rest assume at: "ib_at ib ((bs @ bs') @ rest)"
  then have at: "ib_at ib (bs @ bs' @ rest)" by simp
  show "gives E' ib (bs @ bs') (bind m f ib) (res_bind r s)"
    unfolding bind_res_bind
    by (rule gives_bind [OF at yieldsD [OF assms(1) at] assms(2)]) (use assms(3) in \<open>auto dest: yieldsD\<close>)
qed

lemma yields_header:
  assumes "decodes m bs x" and "yields E (f x) bs' r"
  shows "yields E (bind m f) (bs @ bs') r"
proof (rule yieldsI)
  fix ib rest assume at: "ib_at ib ((bs @ bs') @ rest)"
  then have "m ib = Inr (x, ib_adv (length bs) ib)" by (intro decodesD [OF assms(1)]) simp
  moreover have "gives E (ib_adv (length bs) ib) bs' (f x (ib_adv (length bs) ib)) r"
    using at by (intro yieldsD [OF assms(2)] ib_at_adv_append) simp
  ultimately show "gives E ib (bs @ bs') (bind m f ib) r"
    by (auto simp: bind_Inr gives_def split: sum.splits)
qed

lemma yields_skipped: "decodes m bs u \<Longrightarrow> yields E (bind m (\<lambda>_. ret v)) bs (Inr (E v))"
  using yields_header [OF _ yields_ret, of m bs u E "\<lambda>_. v"] by simp

lemma yields_map:
  assumes "yields E m bs r" and "runs n P m" and "\<And>x. P x \<Longrightarrow> E' (g x) = h (E x)"
  shows "yields E' (bind m (\<lambda>x. ret (g x))) bs (res_bind r (\<lambda>v. Inr (h v)))"
proof -
  have "yields E' (ret (g x)) [] (Inr (h (E x)))" if "P x" for x
    using yields_ret [of E' "g x"] assms(3) [OF that] by simp
  from yields_bind [OF assms(1,2), of E' "\<lambda>x. ret (g x)" "[]" "\<lambda>v. Inr (h v)"] this show ?thesis by simp
qed

lemma yields_lift_res:
  assumes "\<And>x. r = Inr x \<Longrightarrow> yields E (f x) bs (s x)"
  shows "yields E (bind (lift_res r) f) bs (res_bind r s)"
  using assms
  by (cases r) (auto simp: yields_def bind_res_bind lift_res_def)

section \<open>Containers\<close>

locale encoded_reader = safe_reader R for R :: Reader +
  fixes F :: format
  assumes ContainerBegin_decodes: "is_value_type t \<Longrightarrow> (r_static R \<Longrightarrow> t0 = t) \<Longrightarrow>
      decodes (r_ReadContainerBegin R t0) (f_container F n t) (n, t)"
    and ContainerBegin2_decodes: "is_value_type k \<Longrightarrow> is_value_type t \<Longrightarrow> (r_static R \<Longrightarrow> p = (k, t)) \<Longrightarrow>
      decodes (r_ReadContainerBegin2 R p) (f_container2 F n k t) (n, k, t)"
    and Read_decodes: "is_basic x \<Longrightarrow> wf_value True x \<Longrightarrow> decodes (r_Read R (GetTypeId x)) (f_basic F x) x"
    and ReadBlob_yields: "length bs < 2 ^ 32 \<Longrightarrow>
      yields blob_bytes (r_ReadBlob R (of_nat (length bs))) bs (Inr bs)"
    and int8_byte: "f_basic F (VInt8 b) = [b]"
    and Skip_decodes: "(r_static R \<Longrightarrow> is_basic x) \<Longrightarrow> wf_value True x \<Longrightarrow>
      decodes (r_Skip R (GetTypeId x)) (fst (enc_value F x)) ()"
    and SkipValue_tag: "\<not> r_static R \<Longrightarrow> r_SkipValue R e = r_Skip R (get_type_id e)"
begin

lemma Deserialize_basic_yields:
  assumes "is_basic x" and "wf_value True x"
  shows "yields erase (Deserialize_basic R (GetTypeId x) t var) (fst (enc_value F x)) (view_basic t x var')"
proof (cases "GetTypeId x = t")
  case True
  with assms yields_decodes [OF Read_decodes [OF assms], of erase] show ?thesis
    by (auto simp: Deserialize_basic_def view_basic_def enc_value_basic static_cast_same)
next
  case False
  then have "yields erase (Deserialize_basic R (GetTypeId x) t var) (f_basic F x) (Inr (erase (static_cast t x)))"
    unfolding Deserialize_basic_def
    using decodes_map [OF Read_decodes [OF assms], of "static_cast t"] by (auto intro: yields_decodes)
  moreover have "erase (static_cast t x) = static_cast t x" using assms(1) by (cases t; cases x) simp_all
  ultimately show ?thesis using assms by (simp add: view_basic_def enc_value_basic)
qed

lemma read_items_yields:
  assumes "\<And>x v. x \<in> set xs \<Longrightarrow> Q v \<Longrightarrow> yields erase (element v) (fst (enc_value F x)) (el x (erase v))"
    and "\<And>v. Q v \<Longrightarrow> runs 0 Q (element v)"
  shows "list_all Q vs \<Longrightarrow> length vs = length xs \<Longrightarrow>
    yields (map erase) (read_items element vs) (fst (enc_items F xs)) (view_items el xs (map erase vs))"
  using assms
proof (induction xs arbitrary: vs)
  case Nil
  then show ?case using yields_ret [of "map erase" "[]"] by simp
next
  case (Cons x xs)
  then obtain v ws where vs: "vs = v # ws" "Q v" "list_all Q ws" "length ws = length xs"
    by (cases vs) auto
  have tail: "yields (map erase) (bind (read_items element ws) (\<lambda>ys. ret (y # ys))) (fst (enc_items F xs))
      (res_bind (view_items el xs (map erase ws)) (\<lambda>ys. Inr (erase y # ys)))" for y
    using Cons vs by (intro yields_map [OF _ read_items_runs [where P = Q]]) auto
  have "yields (map erase) (bind (element v) (\<lambda>y. bind (read_items element ws) (\<lambda>ys. ret (y # ys))))
      (fst (enc_value F x) @ fst (enc_items F xs))
      (res_bind (el x (erase v)) (\<lambda>y. res_bind (view_items el xs (map erase ws)) (\<lambda>ys. Inr (y # ys))))"
    using Cons.prems vs by (intro yields_bind [OF Cons.prems(3) Cons.prems(4)] tail) auto
  then show ?case using vs by simp
qed

lemma read_set_yields:
  assumes "\<And>x v. x \<in> set xs \<Longrightarrow> Q v \<Longrightarrow> yields erase (element v) (fst (enc_value F x)) (el x (erase v))"
    and "\<And>v. Q v \<Longrightarrow> runs 0 Q (element v)" and "\<And>v. Q v \<Longrightarrow> is_basic v"
  shows "Q e \<Longrightarrow> yields (\<lambda>s. s) (read_set element (length xs) e s) (fst (enc_items F xs)) (view_set el xs e s)"
  using assms(1)
proof (induction xs arbitrary: e s)
  case Nil
  then show ?case using yields_ret [of "\<lambda>s. s"] by simp
next
  case (Cons x xs)
  have "yields (\<lambda>s. s) (bind (element e) (\<lambda>e. read_set element (length xs) e (set_insert e s)))
      (fst (enc_value F x) @ fst (enc_items F xs))
      (res_bind (el x (erase e)) (\<lambda>e. view_set el xs e (set_insert e s)))"
    using Cons assms(2,3) by (intro yields_bind [OF Cons.prems(2) assms(2) [OF Cons.prems(1)]]) auto
  then show ?case using assms(3) [OF Cons.prems(1)] by simp
qed

lemma SkipElements_decodes:
  assumes "\<And>x. x \<in> set xs \<Longrightarrow> decodes skip (fst (enc_value F x)) ()" and "length xs < 2 ^ 32"
  shows "decodes (SkipElements skip (of_nat (length xs))) (fst (enc_items F xs)) ()"
proof -
  have "fst (enc_items F xs) = concat (map (\<lambda>x. fst (enc_value F x)) xs)"
    by (induction xs) simp_all
  with decodes_repeat [of xs skip "\<lambda>x. fst (enc_value F x)"] assms show ?thesis
    by (simp add: SkipElements_def unat_of_nat_small)
qed

lemma SkipElements2_decodes:
  assumes "\<And>x y. (x, y) \<in> set kvs \<Longrightarrow> decodes k (fst (enc_value F x)) () \<and> decodes skip (fst (enc_value F y)) ()"
    and "length kvs < 2 ^ 32"
  shows "decodes (SkipElements2 k skip (of_nat (length kvs))) (fst (enc_pairs F kvs)) ()"
proof -
  have "fst (enc_pairs F kvs) = concat (map (\<lambda>(x, y). fst (enc_value F x) @ fst (enc_value F y)) kvs)"
    by (induction kvs) auto
  moreover have "decodes (bind k (\<lambda>_. skip)) ((\<lambda>(x, y). fst (enc_value F x) @ fst (enc_value F y)) p) ()"
    if "p \<in> set kvs" for p
    using assms(1) [of "fst p" "snd p"] that by (cases p) (auto intro: decodes_bind)
  ultimately show ?thesis
    using decodes_repeat [of kvs "bind k (\<lambda>_. skip)"] assms(2)
    by (simp add: SkipElements2_def unat_of_nat_small)
qed

text \<open>The elements of a container, given how one element is read\<close>

lemma DeserializeElements_yields:
  assumes "schema_ok_type X" and "shaped X var" and len: "length xs < 2 ^ 32"
    and el: "\<And>x v. x \<in> set xs \<Longrightarrow> item_of X v \<Longrightarrow> yields erase (element v) (fst (enc_value F x)) (el x (erase v))"
    and run: "\<And>v. item_of X v \<Longrightarrow> runs 0 (item_of X) (element v)"
    and skip: "\<And>e x. X = TNullable e \<Longrightarrow> x \<in> set (tl xs) \<Longrightarrow> decodes skip (fst (enc_value F x)) ()"
    and blob: "X = TBlob \<Longrightarrow> list_all (\<lambda>x. basic_of BT_INT8 x) xs"
    and X: "(\<exists>e. X = TList e \<or> X = TNullable e) \<or> (\<exists>t. X = TSet t) \<or> X = TBlob"
  shows "yields erase (DeserializeElements R X True element skip (of_nat (length xs)) var)
    (fst (enc_items F xs)) (view_elements X el xs (erase var))"
proof (cases X)
  case TBlob
  from blob [OF this] have "fst (enc_items F xs) = map int8_of xs"
  proof (induction xs)
    case (Cons x xs)
    then show ?case by (cases x) (simp_all add: int8_byte)
  qed simp
  moreover have "yields erase (bind (r_ReadBlob R (of_nat (length (map int8_of xs)))) (\<lambda>b. ret (VBlob b)))
      (map int8_of xs) (res_bind (Inr (map int8_of xs)) (\<lambda>bs. Inr (VBlob (blob_of bs))))"
    using len by (intro yields_map [OF ReadBlob_yields ReadBlob_runs]) simp_all
  ultimately show ?thesis using TBlob by simp
next
  case (TNullable e)
  let ?v = "case items_of var of [] \<Rightarrow> default_value e | v # vs \<Rightarrow> v"
  have v: "shaped e ?v" "erase ?v = (case items_of (erase var) of [] \<Rightarrow> default_value e | v # vs \<Rightarrow> v)"
    using assms(1,2) TNullable shaped_items(2) [of e var] shaped_default(1) [of e]
    by (auto simp: items_of_erase erase_default split: list.splits)
  show ?thesis
  proof (cases xs)
    case Nil
    then show ?thesis using TNullable yields_ret [of erase "VList (get_type_id e) []"] by simp
  next
    case (Cons x ys)
    have "unat (of_nat (length xs) :: u32) \<noteq> 0" using len Cons by (simp add: unat_of_nat_small del: of_nat_Suc)
    then have n: "(of_nat (length xs) :: u32) \<noteq> 0" "of_nat (length xs) - 1 = (of_nat (length ys) :: u32)"
      using Cons by auto
    have "decodes (SkipElements skip (of_nat (length ys))) (fst (enc_items F ys)) ()"
      using skip [OF TNullable] len Cons by (intro SkipElements_decodes) auto
    then have rest: "yields erase (bind (SkipElements skip (of_nat (length ys))) (\<lambda>_. ret (VList (get_type_id e) [v])))
        (fst (enc_items F ys)) (Inr (VList (get_type_id e) [erase v]))" for v
      using yields_skipped [where E = erase and v = "VList (get_type_id e) [v]"] by simp
    have "yields erase (bind (element ?v) (\<lambda>v. bind (SkipElements skip (of_nat (length ys)))
          (\<lambda>_. ret (VList (get_type_id e) [v]))))
        (fst (enc_value F x) @ fst (enc_items F ys))
        (res_bind (el x (erase ?v)) (\<lambda>v. Inr (VList (get_type_id e) [v])))"
      using TNullable Cons v(1) el [of x] run
      by (intro yields_bind [where P = "shaped e" and n = 0]) (auto intro: rest)
    then show ?thesis using TNullable Cons n v(2) by simp
  qed
next
  case (TList e)
  let ?vs = "resize_list (length xs) (default_value e) (items_of var)"
  have "list_all (shaped e) ?vs"
    using assms(1,2) TList shaped_items(1) [of e var] by (intro list_all_resize shaped_default) auto
  then have "yields (map erase) (read_items element ?vs) (fst (enc_items F xs)) (view_items el xs (map erase ?vs))"
      "runs 0 (list_all (shaped e)) (read_items element ?vs)"
    using el run TList by (auto intro!: read_items_yields [where Q = "shaped e"] read_items_runs)
  from yields_map [OF this, where E' = erase and g = "VList (get_type_id e)" and h = "VList (get_type_id e)"]
  show ?thesis using TList len
    by (simp add: unat_of_nat_small map_resize_list erase_default items_of_erase)
next
  case (TSet t)
  have t: "basic_of t (default_basic t)" using assms(1) TSet default_basic_shape by simp
  have "yields (\<lambda>s. s) (read_set element (length xs) (default_basic t) []) (fst (enc_items F xs))
        (view_set el xs (default_basic t) [])"
      "runs 0 (list_all (basic_of t)) (read_set element (length xs) (default_basic t) [])"
    using el run TSet t by (auto intro!: read_set_yields [where Q = "basic_of t"] read_set_runs
       )
  moreover have "map erase vs = vs" if "list_all (basic_of t) vs" for vs
    using that by (induction vs) simp_all
  ultimately have "yields erase
      (bind (read_set element (length xs) (default_basic t) []) (\<lambda>vs. ret (VSet t vs)))
      (fst (enc_items F xs)) (res_bind (view_set el xs (default_basic t) []) (\<lambda>vs. Inr (VSet t vs)))"
    by (intro yields_map [where E = "\<lambda>s. s" and P = "list_all (basic_of t)" and n = 0])
      auto
  then show ?thesis using TSet len by (simp add: unat_of_nat_small)
qed (use X in auto)

text \<open>A list, set or blob of the payload read into a container variable\<close>

lemma container_skipped:
  assumes "\<not> r_static R" and "list_all (\<lambda>y. good y \<and> GetTypeId y = t) xs" and "length xs < 2 ^ 32"
  shows "yields erase (bind (SkipElements (r_Skip R t) (of_nat (length xs))) (\<lambda>_. ret var))
    (fst (enc_items F xs)) (Inr (erase var))"
proof (rule yields_skipped)
  show "decodes (SkipElements (r_Skip R t) (of_nat (length xs))) (fst (enc_items F xs)) ()"
    using assms Skip_decodes by (intro SkipElements_decodes) (auto simp: list_all_iff good_def)
qed

lemma DeserializeContainer_basic_yields:
  assumes ok: "schema_ok_type X" "shaped X var" "is_basic_tag e"
    and x: "good x" "GetTypeId x = BT_LIST \<or> GetTypeId x = BT_SET"
    and X: "(X = TList (TBasic e) \<or> X = TNullable (TBasic e) \<or> X = TSet e) \<or> X = TBlob \<and> e = BT_INT8"
    and st: "r_static R \<Longrightarrow> fst (payload_items x) = e"
  shows "yields erase (DeserializeContainer_basic R X e var) (fst (enc_value F x))
    (view_container_basic X e x (erase var))"
proof -
  obtain t xs where t: "payload_items x = (t, xs)" by (cases "payload_items x")
  note items = good_items [OF x t int8_byte]
  have skipped: "yields erase (bind (SkipElements (r_Skip R t) (of_nat (length xs))) (\<lambda>_. ret var))
      (fst (enc_items F xs)) (Inr (erase var))" if "\<not> is_matching_basic t e"
    using that st t items(3,4) by (intro container_skipped) (auto simp: is_matching_basic_def)
  have read: "yields erase (DeserializeElements R X True (Deserialize_basic R t e) (r_Skip R t)
      (of_nat (length xs)) var) (fst (enc_items F xs)) (view_elements X (view_basic e) xs (erase var))"
    if m: "is_matching_basic t e"
  proof (rule DeserializeElements_yields)
    note bt = matching_basic_tag [OF m ok(3)]
    have good: "good y \<and> basic_of t y" if "y \<in> set xs" for y
      using items(4) that bt is_basic_tag_GetTypeId by (auto simp: list_all_iff)
    show "yields erase (Deserialize_basic R t e v) (fst (enc_value F y)) (view_basic e y (erase v))"
      if "y \<in> set xs" for y v
      using Deserialize_basic_yields [of y e v] good [OF that] by (auto simp: good_def)
    have "item_of X = basic_of e \<or> X = TBlob" using X by (auto simp: shaped_TBasic)
    then show "runs 0 (item_of X) (Deserialize_basic R t e v)" for v
      using Deserialize_basic_runs [OF bt m, of v] runs_true [OF Deserialize_basic_runs [OF bt m, of v]] by auto
    show "decodes (r_Skip R t) (fst (enc_value F y)) ()" if "y \<in> set (tl xs)" for y
      using Skip_decodes [of y] good [OF tl_in_set [OF that]] by (auto simp: good_def)
    show "list_all (basic_of BT_INT8) xs" if "X = TBlob"
    proof -
      have "e = BT_INT8" using that X by auto
      with m have "t = BT_INT8" by (cases t) (simp_all add: is_matching_basic_def is_unsigned_tag_def is_signed_tag_def)
      with good show ?thesis by (auto simp: list_all_iff)
    qed
  qed (use ok X items(3) in auto)
  have body: "yields erase
      (if t = BT_SET \<or> t = BT_MAP \<or> t = BT_LIST \<or> t = BT_STRUCT
       then bind (SkipElements (r_Skip R t) (of_nat (length xs))) (\<lambda>_. ret var)
       else MatchingTypeContainer R X e t (of_nat (length xs)) var)
      (fst (enc_items F xs)) (view_container_basic X e x (erase var))"
  proof (cases "is_matching_basic t e")
    case True
    note bt = matching_basic_tag [OF True ok(3)] matching_in_cases [OF True ok(3)]
    with read True t show ?thesis
      by (auto simp: MatchingTypeContainer_def view_container_basic_def)
  next
    case False
    with skipped t show ?thesis by (auto simp: MatchingTypeContainer_def view_container_basic_def)
  qed
  have header: "decodes (r_ReadContainerBegin R e) (f_container F (of_nat (length xs)) t) (of_nat (length xs), t)"
    using st t items(2) by (intro ContainerBegin_decodes) auto
  show ?thesis
    unfolding DeserializeContainer_basic_def items(1)
    by (rule yields_header [OF header], unfold prod.case, rule body)
qed

lemma DeserializeContainer_nested_yields:
  assumes ok: "schema_ok_type X" "shaped X var"
    and x: "good x" "GetTypeId x = BT_LIST \<or> GetTypeId x = BT_SET"
    and X: "X = TList e \<or> X = TNullable e"
    and el: "\<And>y v. good y \<Longrightarrow> GetTypeId y = get_type_id e \<Longrightarrow> y \<in> set (snd (payload_items x)) \<Longrightarrow>
      shaped e v \<Longrightarrow> yields erase (element v) (fst (enc_value F y)) (el y (erase v))"
    and run: "\<And>v. shaped e v \<Longrightarrow> runs 0 (shaped e) (element v)"
    and st: "r_static R \<Longrightarrow> fst (payload_items x) = get_type_id e \<and>
      (X = TNullable e \<longrightarrow> length (snd (payload_items x)) \<le> 1)"
  shows "yields erase (DeserializeContainer_nested R X e element var) (fst (enc_value F x))
    (view_container_nested X e el x (erase var))"
proof -
  obtain t xs where t: "payload_items x = (t, xs)" by (cases "payload_items x")
  note items = good_items [OF x t int8_byte]
  have item: "item_of X = shaped e" using X by auto
  have read: "yields erase (DeserializeElements R X True element (r_SkipValue R e) (of_nat (length xs)) var)
      (fst (enc_items F xs)) (view_elements X el xs (erase var))" if m: "t = get_type_id e"
  proof (rule DeserializeElements_yields)
    show "decodes (r_SkipValue R e) (fst (enc_value F y)) ()" if "X = TNullable e'" "y \<in> set (tl xs)" for e' y
    proof (cases "r_static R")
      case True
      then have "tl xs = []" using st t X that(1) by (cases xs) auto
      with that show ?thesis by simp
    next
      case False
      with SkipValue_tag Skip_decodes [of y] items(4) tl_in_set [OF that(2)] m show ?thesis
        by (auto simp: list_all_iff good_def)
    qed
  qed (use ok items el run X t m item in \<open>auto simp: list_all_iff\<close>)
  have body: "yields erase
      (if t = get_type_id e then DeserializeElements R X True element (r_SkipValue R e) (of_nat (length xs)) var
       else bind (SkipElements (r_Skip R t) (of_nat (length xs))) (\<lambda>_. ret var))
      (fst (enc_items F xs)) (view_container_nested X e el x (erase var))"
    using read t st items(3,4) container_skipped [of t xs var]
    by (auto simp: view_container_nested_def)
  have header: "decodes (r_ReadContainerBegin R (get_type_id e)) (f_container F (of_nat (length xs)) t)
      (of_nat (length xs), t)"
    using st t items(2) by (intro ContainerBegin_decodes) auto
  show ?thesis
    unfolding DeserializeContainer_nested_def items(1)
    by (rule yields_header [OF header], unfold prod.case, rule body)
qed

lemma read_map_yields:
  assumes kt: "is_basic_tag kt" "is_matching_basic kt k"
    and el: "\<And>x y v. (x, y) \<in> set kvs \<Longrightarrow> Q v \<Longrightarrow> yields erase (element v) (fst (enc_value F y)) (el y (erase v))"
    and run: "\<And>v. Q v \<Longrightarrow> runs 0 Q (element v)" and d: "Q d" "erase d = d"
  shows "good_pairs kt t kvs \<Longrightarrow> basic_of k k0 \<Longrightarrow> list_all (\<lambda>(x, y). basic_of k x \<and> Q y) m \<Longrightarrow>
    yields erase_mapped (read_map (Deserialize_basic R kt k) element d (length kvs) k0 m)
      (fst (enc_pairs F kvs)) (view_pairs k el d kvs (erase_mapped m))"
  using el
proof (induction kvs arbitrary: k0 m)
  case Nil
  then show ?case using yields_ret [of erase_mapped m] by simp
next
  case (Cons p kvs)
  obtain x y where p: "p = (x, y)" by (cases p)
  with Cons.prems(1) kt have x: "basic_of kt x" "good x" and ps: "good_pairs kt t kvs"
    using is_basic_tag_GetTypeId by (auto simp: good_pairs_def)
  have key: "yields erase (Deserialize_basic R kt k k0) (fst (enc_value F x)) (Inr (static_cast k x))"
    using Deserialize_basic_yields [of x k k0] x by (auto simp: good_def view_basic_def)
  have val: "yields erase_mapped (bind (element (mapped_at d x' m)) (\<lambda>v.
        read_map (Deserialize_basic R kt k) element d (length kvs) x' (map_assign x' v m)))
      (fst (enc_value F y) @ fst (enc_pairs F kvs))
      (res_bind (el y (mapped_at d x' (erase_mapped m))) (\<lambda>v.
        view_pairs k el d kvs (map_assign x' v (erase_mapped m))))" if "basic_of k x'" for x'
  proof -
    have q: "Q (mapped_at d x' m)"
      using Cons.prems(3) d(1) by (intro mapped_at_all [of Q]) (auto simp: list_all_iff)
    have "yields erase (element (mapped_at d x' m)) (fst (enc_value F y)) (el y (mapped_at d x' (erase_mapped m)))"
      using Cons.prems(4) [of x y, OF _ q] p mapped_at_erase [of d x' m] d(2) by simp
    then show ?thesis
      using run [OF q]
    proof (rule yields_bind)
      fix v assume "Q v"
      with Cons.prems(3) that have "list_all (\<lambda>(x, y). basic_of k x \<and> Q y) (map_assign x' v m)"
        by (intro list_all_map_assign) auto
      then have "yields erase_mapped (read_map (Deserialize_basic R kt k) element d (length kvs) x' (map_assign x' v m))
          (fst (enc_pairs F kvs)) (view_pairs k el d kvs (erase_mapped (map_assign x' v m)))"
        using Cons.prems(4) by (intro Cons.IH [OF ps that]) auto
      then show "yields erase_mapped (read_map (Deserialize_basic R kt k) element d (length kvs) x' (map_assign x' v m))
          (fst (enc_pairs F kvs)) (view_pairs k el d kvs (map_assign x' (erase v) (erase_mapped m)))"
        by (simp add: map_assign_erase)
    qed
  qed
  have "yields erase_mapped (bind (Deserialize_basic R kt k k0) (\<lambda>k'. bind (element (mapped_at d k' m)) (\<lambda>v.
        read_map (Deserialize_basic R kt k) element d (length kvs) k' (map_assign k' v m))))
      (fst (enc_value F x) @ fst (enc_value F y) @ fst (enc_pairs F kvs))
      (res_bind (Inr (static_cast k x)) (\<lambda>k'. res_bind (el y (mapped_at d k' (erase_mapped m))) (\<lambda>v.
        view_pairs k el d kvs (map_assign k' v (erase_mapped m)))))"
    using key Deserialize_basic_runs [OF kt, of k0]
  proof (rule yields_bind)
    fix x' assume "basic_of k x'"
    with val [OF this] show "yields erase_mapped (bind (element (mapped_at d x' m)) (\<lambda>v.
        read_map (Deserialize_basic R kt k) element d (length kvs) x' (map_assign x' v m)))
      (fst (enc_value F y) @ fst (enc_pairs F kvs))
      (res_bind (el y (mapped_at d (erase x') (erase_mapped m))) (\<lambda>v.
        view_pairs k el d kvs (map_assign (erase x') v (erase_mapped m))))" by simp
  qed
  then show ?case using p by simp
qed

lemma map_skipped:
  assumes "\<not> r_static R" and "good_pairs kt t kvs" and "length kvs < 2 ^ 32"
    and skip: "skip = r_Skip R t"
  shows "yields erase (bind (SkipElements2 (r_Skip R kt) skip (of_nat (length kvs))) (\<lambda>_. ret var))
    (fst (enc_pairs F kvs)) (Inr (erase var))"
proof (rule yields_skipped)
  show "decodes (SkipElements2 (r_Skip R kt) skip (of_nat (length kvs))) (fst (enc_pairs F kvs)) ()"
    using assms Skip_decodes
    by (intro SkipElements2_decodes) (auto simp: list_all_iff good_def good_pairs_def)
qed

lemma MatchingMapByKey_yields:
  assumes k: "is_basic_tag k" "schema_ok_type e"
    and kvs: "good_pairs kt t kvs" "length kvs < 2 ^ 32"
    and el: "\<And>x y v. (x, y) \<in> set kvs \<Longrightarrow> shaped e v \<Longrightarrow>
      yields erase (element v) (fst (enc_value F y)) (el y (erase v))"
    and run: "\<And>v. shaped e v \<Longrightarrow> runs 0 (shaped e) (element v)"
    and skip: "\<not> r_static R \<Longrightarrow> skip = r_Skip R t" and st: "r_static R \<Longrightarrow> kt = k"
  shows "yields erase (MatchingMapByKey R k e kt element skip (of_nat (length kvs)) var) (fst (enc_pairs F kvs))
    (if is_matching_basic kt k
     then res_bind (view_pairs k el (default_value e) kvs []) (\<lambda>m. Inr (VMap k (get_type_id e) m))
     else Inr (erase var))"
proof (cases "is_matching_basic kt k")
  case True
  note kt = matching_basic_tag [OF True k(1)] matching_in_cases [OF True k(1)]
  let ?read = "read_map (Deserialize_basic R kt k) element (default_value e) (length kvs) (default_basic k) []"
  have d: "shaped e (default_value e)" "basic_of k (default_basic k)"
    using k shaped_default default_basic_shape by blast+
  have "yields erase_mapped ?read (fst (enc_pairs F kvs)) (view_pairs k el (default_value e) kvs (erase_mapped []))"
    using el run d kvs(1) erase_default(1)
    by (intro read_map_yields [OF kt(1) True, where Q = "shaped e" and t = t]) simp_all
  moreover have "runs 0 (list_all (\<lambda>(x, y). basic_of k x \<and> shaped e y)) ?read"
    using run d by (intro read_map_runs [OF Deserialize_basic_runs [OF kt(1) True]]) auto
  ultimately have "yields erase (bind ?read (\<lambda>m. ret (VMap k (get_type_id e) m))) (fst (enc_pairs F kvs))
      (res_bind (view_pairs k el (default_value e) kvs []) (\<lambda>m. Inr (VMap k (get_type_id e) m)))"
    using erase_mapped_basic [of k "shaped e"]
    by (intro yields_map [where E = erase_mapped and n = 0 and
          P = "list_all (\<lambda>(x, y). basic_of k x \<and> shaped e y)"]) auto
  with True kt(2) kvs(2) show ?thesis
    by (simp add: MatchingMapByKey_def DeserializeMapElements_def unat_of_nat_small)
next
  case False
  then have "\<not> r_static R" using st by (auto simp: is_matching_basic_def)
  from map_skipped [OF this kvs skip [OF this]] False show ?thesis
    by (simp add: MatchingMapByKey_def DeserializeMapElements_def)
qed

lemma DeserializeMap_nested_yields:
  assumes k: "is_basic_tag k" "schema_ok_type e" and x: "good x" "GetTypeId x = BT_MAP"
    and el: "\<And>y v. good y \<Longrightarrow> GetTypeId y = get_type_id e \<Longrightarrow> (\<exists>kt t kvs z. x = VMap kt t kvs \<and> (z, y) \<in> set kvs) \<Longrightarrow>
      shaped e v \<Longrightarrow> yields erase (element v) (fst (enc_value F y)) (el y (erase v))"
    and run: "\<And>v. shaped e v \<Longrightarrow> runs 0 (shaped e) (element v)"
    and st: "\<And>kt t kvs. r_static R \<Longrightarrow> x = VMap kt t kvs \<Longrightarrow> kt = k \<and> t = get_type_id e"
  shows "yields erase (DeserializeMap_nested R k e element var) (fst (enc_value F x))
    (view_map (\<lambda>t. t = get_type_id e) k e el x (erase var))"
  using x
proof (cases rule: good_map)
  case (1 kt t kvs)
  have body: "yields erase
      (if t = get_type_id e
       then MapByKey R k e True kt element (r_SkipValue R e) (of_nat (length kvs)) var
       else bind (SkipElements2 (r_Skip R kt) (r_Skip R t) (of_nat (length kvs))) (\<lambda>_. ret var))
      (fst (enc_pairs F kvs)) (view_map (\<lambda>t. t = get_type_id e) k e el x (erase var))"
  proof (cases "t = get_type_id e")
    case True
    have "yields erase (MatchingMapByKey R k e kt element (r_SkipValue R e) (of_nat (length kvs)) var) (fst (enc_pairs F kvs))
      (if is_matching_basic kt k
       then res_bind (view_pairs k el (default_value e) kvs []) (\<lambda>m. Inr (VMap k (get_type_id e) m))
       else Inr (erase var))"
    proof (rule MatchingMapByKey_yields [OF k 1(5,4)])
      show "yields erase (element v) (fst (enc_value F y)) (el y (erase v))"
        if "(z, y) \<in> set kvs" "shaped e v" for z y v
        using that 1 True by (intro el) (auto simp: good_pairs_def list_all_iff)
    qed (use run st 1 SkipValue_tag True in auto)
    with True 1 show ?thesis by (simp add: MapByKey_def view_map_def)
  next
    case False
    then have "\<not> r_static R" using st 1 by auto
    from map_skipped [OF this 1(5,4)] False 1 show ?thesis by (simp add: view_map_def)
  qed
  have header: "decodes (r_ReadContainerBegin2 R (k, get_type_id e)) (f_container2 F (of_nat (length kvs)) kt t)
      (of_nat (length kvs), kt, t)"
    using st 1 by (intro ContainerBegin2_decodes) auto
  have enc: "fst (enc_value F x) = f_container2 F (of_nat (length kvs)) kt t @ fst (enc_pairs F kvs)"
    using 1 by simp
  show ?thesis
    unfolding DeserializeMap_nested_def enc by (rule yields_header [OF header], unfold prod.case, rule body)
qed

lemma DeserializeMap_basic_yields:
  assumes k: "is_basic_tag k" "is_basic_tag e" and x: "good x" "GetTypeId x = BT_MAP"
    and st: "\<And>kt t kvs. r_static R \<Longrightarrow> x = VMap kt t kvs \<Longrightarrow> kt = k \<and> t = e"
  shows "yields erase (DeserializeMap_basic R k e var) (fst (enc_value F x))
    (view_map (\<lambda>t. is_matching_basic t e) k (TBasic e) (view_basic e) x (erase var))"
  using x
proof (cases rule: good_map)
  case (1 kt t kvs)
  have body: "yields erase
      (if t = BT_SET \<or> t = BT_MAP \<or> t = BT_LIST \<or> t = BT_STRUCT
       then bind (SkipElements2 (r_Skip R kt) (r_Skip R t) (of_nat (length kvs))) (\<lambda>_. ret var)
       else MatchingMapByElement R k e kt t (of_nat (length kvs)) var)
      (fst (enc_pairs F kvs)) (view_map (\<lambda>t. is_matching_basic t e) k (TBasic e) (view_basic e) x (erase var))"
  proof (cases "is_matching_basic t e")
    case True
    note bt = matching_basic_tag [OF True k(2)] matching_in_cases [OF True k(2)]
    have "yields erase (MatchingMapByKey R k (TBasic e) kt (Deserialize_basic R t e) (r_Skip R t)
        (of_nat (length kvs)) var) (fst (enc_pairs F kvs))
      (if is_matching_basic kt k
       then res_bind (view_pairs k (view_basic e) (default_value (TBasic e)) kvs [])
              (\<lambda>m. Inr (VMap k (get_type_id (TBasic e)) m))
       else Inr (erase var))"
    proof (rule MatchingMapByKey_yields [OF k(1) _ 1(5,4)])
      show "yields erase (Deserialize_basic R t e v) (fst (enc_value F y)) (view_basic e y (erase v))"
        if "(z, y) \<in> set kvs" for z y v
        using Deserialize_basic_yields [of y e v] 1(5) that bt(1) is_basic_tag_GetTypeId [of y]
        by (auto simp: good_pairs_def list_all_iff good_def)
      show "runs 0 (shaped (TBasic e)) (Deserialize_basic R t e v)" for v
        using Deserialize_basic_runs [OF bt(1) True] by (simp add: shaped_TBasic)
    qed (use k st 1 in auto)
    with True bt 1 show ?thesis by (auto simp: MatchingMapByElement_def MapByKey_def view_map_def)
  next
    case False
    then have "\<not> r_static R" using st 1 by (auto simp: is_matching_basic_def)
    from map_skipped [OF this 1(5,4)] False 1 show ?thesis
      by (auto simp: MatchingMapByElement_def MapByKey_def view_map_def)
  qed
  have header: "decodes (r_ReadContainerBegin2 R (k, e)) (f_container2 F (of_nat (length kvs)) kt t)
      (of_nat (length kvs), kt, t)"
    using st 1 by (intro ContainerBegin2_decodes) auto
  have enc: "fst (enc_value F x) = f_container2 F (of_nat (length kvs)) kt t @ fst (enc_pairs F kvs)"
    using 1 by simp
  show ?thesis
    unfolding DeserializeMap_basic_def enc by (rule yields_header [OF header], unfold prod.case, rule body)
qed

text \<open>A field of the object\<close>

lemma AssignToVar_yields:
  assumes fd: "schema_ok_fields [fd]" "field_var fd var"
    and val: "\<And>v. shaped (fd_type fd) v \<Longrightarrow> yields erase (val v) bs (f (erase v))"
    and run: "\<And>v. shaped (fd_type fd) v \<Longrightarrow> runs 0 (shaped (fd_type fd)) (val v)"
  shows "yields erase_field (AssignToVar fd val var) bs (view_var fd f (erase_field var))"
proof -
  have d: "shaped (fd_type fd) (default_value (fd_type fd))"
    using fd(1) by (cases fd) (simp add: shaped_default)
  show ?thesis
  proof (cases var)
    case (Field fid md v)
    with fd(2) have "shaped (fd_type fd) v" by (cases fd) (auto simp: field_var_def)
    with Field val run show ?thesis by (auto intro!: yields_map)
  next
    case (MaybeField fid md t v)
    let ?v = "case v of None \<Rightarrow> default_value (fd_type fd) | Some v \<Rightarrow> v"
    have "shaped (fd_type fd) ?v"
      using fd(2) d MaybeField by (cases fd) (auto simp: field_var_def split: option.splits)
    then have "yields erase_field (bind (val ?v) (\<lambda>v. ret (MaybeField fid md t (Some v)))) bs
        (res_bind (f (erase ?v)) (\<lambda>v. Inr (MaybeField fid md t (Some v))))"
      using val run by (intro yields_map) auto
    with MaybeField show ?thesis by (cases v) (auto simp: erase_default)
  qed
qed

lemma To_Field_yields:
  assumes "schema_ok_fields [fd]" "field_var fd var"
    and "\<And>v. shaped (fd_type fd) v \<Longrightarrow> yields erase (val v) bs (f (erase v))"
    and "\<And>v. shaped (fd_type fd) v \<Longrightarrow> runs 0 (shaped (fd_type fd)) (val v)"
  shows "yields erase_var (To_Field fs fd val var required) bs
    (res_bind (Validate_field fs fd required) (\<lambda>required.
       res_bind (view_var fd f (erase_field var)) (\<lambda>var. Inr (var, required))))"
proof -
  have "yields erase_field (AssignToVar fd val var) bs (view_var fd f (erase_field var))"
      "runs 0 (field_var fd) (AssignToVar fd val var)"
    using assms by (intro AssignToVar_yields AssignToVar_runs; simp)+
  then show ?thesis unfolding To_Field_def by (intro yields_lift_res yields_map) auto
qed

end

end
