(* ===== verification/Tagged_Parser.thy ===== *)
theory Tagged_Parser
  imports Read_Containers
begin

text \<open>
  The dynamic parser on the encoding of a struct. The locale \<open>tagged_reader\<close> states what a protocol
  with type tags promises; under it the parser, which walks over the bytes and the fields of the
  schema in step, computes exactly the view of the encoded payload (\<open>Deserialize_view\<close>). Compact
  Binary and Fast Binary are interpretations.
\<close>

section \<open>Structs of a tagged protocol\<close>

text \<open>Schemas that list the fields of every struct by increasing id\<close>

function (sequential) schema_sorted_type :: "btype \<Rightarrow> bool"
  and schema_sorted_fields :: "fdef list \<Rightarrow> bool"
  and schema_sorted :: "sschema \<Rightarrow> bool" where
  "schema_sorted_type (TNullable e) = schema_sorted_type e"
| "schema_sorted_type (TList e) = schema_sorted_type e"
| "schema_sorted_type (TMap k e) = schema_sorted_type e"
| "schema_sorted_type (TStruct s) = schema_sorted s"
| "schema_sorted_type t = True"
| "schema_sorted_fields [] = True"
| "schema_sorted_fields (FieldDef fid md mb t # fs) =
     (schema_sorted_type t \<and> schema_sorted_fields fs \<and> list_all (\<lambda>f. fid < fd_id f) fs)"
| "schema_sorted (Schema md None fs) = schema_sorted_fields fs"
| "schema_sorted (Schema md (Some b) fs) = (schema_sorted b \<and> schema_sorted_fields fs)"
  by pat_completeness auto
termination
  by (relation "measure (case_sum size (case_sum (size_list size) size))") auto

lemma schema_sorted_ids: "schema_sorted_fields fs \<Longrightarrow> sorted_wrt (<) (map fd_id fs)"
proof (induction fs)
  case (Cons f fs)
  then show ?case by (cases f) (auto simp: list_all_iff)
qed simp

lemma map_fst_view_fields [simp]: "map fst (view_fields fs) = fs"
proof (induction fs)
  case (Cons f fs)
  then show ?case by (cases f) simp
qed simp

text \<open>The bytes of a level, and the tag that comes first in them\<close>

fun wire_fields :: "format \<Rightarrow> (u16 \<times> bvalue) list \<Rightarrow> byte list" where
  "wire_fields F [] = []"
| "wire_fields F ((fid, x) # ps) = f_field F (GetTypeId x) fid @ fst (enc_value F x) @ wire_fields F ps"

definition stop_byte :: "bool \<Rightarrow> byte" where
  "stop_byte base = (if base then 1 else 0)"

definition stop_tag :: "bool \<Rightarrow> BondDataType" where
  "stop_tag base = (if base then BT_STOP_BASE else BT_STOP)"

fun wire_level :: "format \<Rightarrow> level \<Rightarrow> byte list" where
  "wire_level F (ps, base) = wire_fields F ps @ [stop_byte base]"

fun first_tag :: "level \<Rightarrow> BondDataType \<times> u16" where
  "first_tag ([], base) = (stop_tag base, 0)"
| "first_tag ((fid, x) # ps, base) = (GetTypeId x, fid)"

fun tag_bytes :: "format \<Rightarrow> level \<Rightarrow> byte list" where
  "tag_bytes F ([], base) = [stop_byte base]"
| "tag_bytes F ((fid, x) # ps, base) = f_field F (GetTypeId x) fid"

fun after_tag :: "format \<Rightarrow> level \<Rightarrow> byte list" where
  "after_tag F ([], base) = []"
| "after_tag F ((fid, x) # ps, base) = fst (enc_value F x) @ wire_level F (ps, base)"

lemma wire_level_tag: "wire_level F l = tag_bytes F l @ after_tag F l"
  by (cases "(F, l)" rule: after_tag.cases) auto

lemma is_stop_tag [simp]: "is_stop (stop_tag base)"
  by (simp add: stop_tag_def is_stop_def)

text \<open>A level of a well-formed payload\<close>

definition good_level :: "(u16 \<times> bvalue) list \<Rightarrow> bool" where
  "good_level ps \<longleftrightarrow> sorted_wrt (<) (map fst ps) \<and> list_all (\<lambda>(fid, x). good x) ps"

lemma good_level_Cons:
  "good_level ((fid, x) # ps) \<longleftrightarrow> good x \<and> good_level ps \<and> (\<forall>p \<in> set ps. fid < fst p)"
  by (auto simp: good_level_def)

lemma map_of_above: "\<forall>p \<in> set ps. i < fst p \<Longrightarrow> map_of ps (i :: u16) = None"
  by (induction ps) auto

text \<open>
  The levels of a struct: each but the last is a base.
\<close>

fun wire_levels :: "format \<Rightarrow> level list \<Rightarrow> byte list" where
  "wire_levels F [] = []"
| "wire_levels F (l # ls) = wire_level F l @ wire_levels F ls"

fun complete :: "level list \<Rightarrow> bool" where
  "complete [] = False"
| "complete [(ps, base)] = (\<not> base)"
| "complete ((ps, base) # l # ls) = (base \<and> complete (l # ls))"

definition good_levels :: "level list \<Rightarrow> bool" where
  "good_levels L \<longleftrightarrow> list_all (\<lambda>l. good_level (fst l)) L"

lemma good_levels_simps [simp]:
  "good_levels []" "good_levels (l # ls) \<longleftrightarrow> good_level (fst l) \<and> good_levels ls"
  by (simp_all add: good_levels_def)

lemma good_levels_drop: "good_levels L \<Longrightarrow> good_levels (drop n L)"
  by (auto simp: good_levels_def list_all_iff dest: in_set_dropD)

lemma wire_levels_append [simp]: "wire_levels F (L @ L') = wire_levels F L @ wire_levels F L'"
  by (induction L) simp_all

lemma wire_fields_append [simp]: "wire_fields F (ps @ qs) = wire_fields F ps @ wire_fields F qs"
  by (induction ps) auto

lemma wire_fields_enc: "f_may_omit_fields F \<Longrightarrow> fst (enc_fields F fs) = wire_fields F (concat (map (present True) fs))"
proof (induction fs)
  case (Cons f fs)
  then show ?case by (cases "(True, f)" rule: present.cases) auto
qed simp

lemma complete_append: "\<forall>l \<in> set L. snd l \<Longrightarrow> complete (L @ [(ps, False)])"
proof (induction L)
  case (Cons l L)
  then show ?case by (cases l; cases L) auto
qed simp

lemma bases_levels: "base \<Longrightarrow> \<forall>l \<in> set (levels mo base y). snd l"
  by (induction mo base y rule: levels.induct) auto

lemma complete_levels: "complete (levels mo False y)"
proof (cases y)
  case (Struct md b fs)
  with bases_levels complete_append show ?thesis by (cases b) auto
qed

lemma present_id: "p \<in> set (present mo g) \<Longrightarrow> fst p = field_id g"
  by (cases "(mo, g)" rule: present.cases) (auto simp: field_id_def split: if_splits)

lemma present_sorted: "sorted_wrt (<) (map field_id fs) \<Longrightarrow> sorted_wrt (<) (map fst (concat (map (present mo) fs)))"
proof (induction fs)
  case (Cons f fs)
  have "sorted_wrt (<) (map fst (present mo f))"
    by (cases "(mo, f)" rule: present.cases) auto
  moreover have "x < y" if "x \<in> fst ` set (present mo f)" "y \<in> fst ` set (concat (map (present mo) fs))" for x y
  proof -
    from that(2) obtain g where "g \<in> set fs" "y \<in> fst ` set (present mo g)" by auto
    then have "x = field_id f" "y = field_id g" using present_id that(1) by blast+
    with \<open>g \<in> set fs\<close> Cons.prems show ?thesis by simp
  qed
  ultimately show ?case using Cons by (auto simp: sorted_wrt_append)
qed simp

lemma good_present: "wf_field True f \<Longrightarrow> ordered_field f \<Longrightarrow> list_all (\<lambda>(fid, x). good x) (present True f)"
  by (cases "(True, f)" rule: present.cases) (auto simp: good_def)

lemma good_levels_of: "wf_struct True y \<Longrightarrow> ordered_struct y \<Longrightarrow> good_levels (levels True base y)"
proof (induction True base y rule: levels.induct)
  case (1 base md fs)
  then show ?case using good_present
    by (fastforce simp: good_level_def present_sorted wf_fields_iff list_all_iff)
next
  case (2 base md b fs)
  then show ?case using good_present
    by (fastforce simp: good_level_def good_levels_def present_sorted wf_fields_iff list_all_iff)
qed

text \<open>Where a base of the schema ends, more levels follow unless the payload ends too.\<close>

lemma complete_next:
  assumes "complete L" and "view_read True heads md b L vars = Inr (False, y)"
  shows "complete (tl L)"
  using assms by (cases L rule: complete.cases) (auto simp: view_read_def res_bind_Inr_iff)

lemma complete_drop:
  "complete L \<Longrightarrow> view_struct s True L v = Inr (False, y) \<Longrightarrow> complete (drop (depth s) L)"
proof (induction s arbitrary: v y rule: depth.induct)
  case (1 md fs)
  then show ?case by (auto dest: complete_next simp: drop_Suc)
next
  case (2 md b fs)
  from "2.prems"(2) obtain b' where b: "view_struct b True L (the (base_of v)) = Inr (False, b')"
      "view_read True (view_fields fs) md (Some b') (drop (depth b) L) (fields_of v) = Inr (False, y)"
    by (auto simp: res_bind_Inr_iff split: if_splits)
  from complete_next [OF "2.IH" [OF "2.prems"(1) b(1)] b(2)] show ?case
    by (simp add: drop_Suc tl_drop)
qed

text \<open>Code that reads a field, and the view it implements\<close>

definition reads_as :: "format \<Rightarrow> fdef \<times> assign \<Rightarrow> fdef \<times> view \<Rightarrow> bool" where
  "reads_as F h g \<longleftrightarrow> fst h = fst g \<and>
     (\<forall>x v. good x \<and> GetTypeId x = get_type_id (fd_type (fst h)) \<and> shaped (fd_type (fst h)) v \<longrightarrow>
        yields erase (snd h v) (fst (enc_value F x)) (snd g x (erase v)))"

lemma get_type_id_value: "schema_ok_type t \<Longrightarrow> is_value_type (get_type_id t)"
  by (cases t) (simp_all add: is_basic_tag_value_type)

lemma view_level_cong:
  "(\<And>g. g \<in> set views \<Longrightarrow> map_of ps (fd_id (fst g)) = map_of ps' (fd_id (fst g))) \<Longrightarrow>
   view_level fs views ps vars required = view_level fs views ps' vars required"
proof (induction views arbitrary: vars required)
  case (Cons g views)
  obtain fd el where g: "g = (fd, el)" by (cases g)
  from Cons have "view_level fs views ps vs r = view_level fs views ps' vs r" for vs r by auto
  with Cons.prems [of g] g show ?case by (cases vars) simp_all
qed simp

text \<open>A payload field with a smaller id than all fields of the schema that are left does not count.\<close>

lemma view_level_drop:
  "\<forall>g \<in> set views. fid < fd_id (fst g) \<Longrightarrow>
   view_level fs views ((fid, x) # ps) vars required = view_level fs views ps vars required"
  by (rule view_level_cong) auto

text \<open>Results of the parser up to the addresses of blobs\<close>

abbreviation erase_parsed :: "bfield list \<times> u16 \<times> BondDataType \<times> u16 \<Rightarrow> bfield list \<times> u16 \<times> BondDataType \<times> u16" where
  "erase_parsed \<equiv> map_prod (map erase_field) (\<lambda>r. r)"

definition parse_result :: "bool \<Rightarrow> (bfield list \<times> u16) res \<Rightarrow> (bfield list \<times> u16 \<times> BondDataType \<times> u16) res" where
  "parse_result base r = res_bind r (\<lambda>(vars, required). Inr (vars, required, stop_tag base, 0))"

definition erase_read :: "bool \<times> bfield list \<times> u16 \<Rightarrow> bool \<times> bfield list \<times> u16" where
  "erase_read = (\<lambda>(done, vs, r). (done, map erase_field vs, r))"

definition erase_done :: "bool \<times> bstruct \<Rightarrow> bool \<times> bstruct" where
  "erase_done = (\<lambda>(done, x). (done, erase_struct x))"

locale tagged_reader = encoded_reader R F for R :: Reader and F :: format +
  assumes dynamic: "\<not> r_static R"
    and may_omit: "f_may_omit_fields F"
    and base_struct: "fst (f_struct F True e) = fst e @ [stop_byte True]"
    and base_StructBegin: "decodes (r_ReadStructBegin R True) [] ()"
    and StructBegin_decodes: "length (fst (f_struct F False e)) < 2 ^ 32 \<Longrightarrow>
      \<exists>pre. fst (f_struct F False e) = pre @ fst e @ [stop_byte False] \<and> decodes (r_ReadStructBegin R False) pre ()"
    and FieldBegin_decodes: "is_value_type t \<Longrightarrow> decodes (r_ReadFieldBegin R) (f_field F t fid) (t, fid)"
    and FieldBegin_stop: "decodes (r_ReadFieldBegin R) [stop_byte base] (stop_tag base, 0)"
    and field_nonempty: "f_field F t fid \<noteq> []"
begin

lemma tag_decodes: "decodes (r_ReadFieldBegin R) (tag_bytes F l) (first_tag l)" and tag_nonempty: "tag_bytes F l \<noteq> []"
  by (cases l rule: first_tag.cases; simp add: FieldBegin_decodes FieldBegin_stop field_nonempty)+

text \<open>A turn of the parser's loops over an encoding\<close>

lemma turn_gives_more:
  assumes at: "ib_at ib (bs @ wire_level F l @ cs @ rest)" and m: "gives E ib bs (m ib) r" and run: "runs n P m"
    and K: "\<And>x ib2. P x \<Longrightarrow> r = Inr (E x) \<Longrightarrow> ib_at ib2 (after_tag F l @ cs @ rest) \<Longrightarrow> left ib2 < left ib \<Longrightarrow>
      gives E' ib2 (after_tag F l @ cs) (K x (fst (first_tag l)) (snd (first_tag l)) ib2) (s (E x))"
  shows "gives E' ib (bs @ wire_level F l @ cs) (res_bind (m ib) (\<lambda>(x, ib1).
    res_bind (r_ReadFieldBegin R ib1) (\<lambda>((type, fid), ib2). K x type fid ib2))) (res_bind r s)"
proof (rule gives_bind [OF _ m run])
  fix x ib1 assume x: "P x" "r = Inr (E x)" and at1: "ib_at ib1 ((wire_level F l @ cs) @ rest)" and "left ib1 \<le> left ib"
  let ?ib2 = "ib_adv (length (tag_bytes F l)) ib1"
  have at1: "ib_at ib1 (tag_bytes F l @ after_tag F l @ cs @ rest)" using at1 by (simp add: wire_level_tag)
  then have at2: "ib_at ?ib2 (after_tag F l @ cs @ rest)" by (rule ib_at_adv_append)
  have "left ?ib2 < left ib1" using at1 at2 tag_nonempty [of l] by (simp add: left_def ib_at_def)
  with \<open>left ib1 \<le> left ib\<close> have "left ?ib2 < left ib" by simp
  from K [OF x at2 this] decodesD [OF tag_decodes at1]
  show "gives E' ib1 (wire_level F l @ cs) (case (x, ib1) of (x, ib1) \<Rightarrow>
      res_bind (r_ReadFieldBegin R ib1) (\<lambda>((type, fid), ib2). K x type fid ib2)) (s (E x))"
    by (auto simp: gives_def wire_level_tag case_prod_unfold split: sum.splits)
qed (use at in simp)

lemmas turn_gives = turn_gives_more [where cs = "[]", unfolded append_Nil append_Nil2]

lemma dp_SkipFields_decodes:
  "list_all (\<lambda>(fid, x). good x) ps \<Longrightarrow>
   yields (\<lambda>x. x) (dp_SkipFields R (fst (first_tag (ps, base))) (snd (first_tag (ps, base))))
     (after_tag F (ps, base)) (Inr (stop_tag base, 0))"
proof (induction ps)
  case Nil
  show ?case by (rule yieldsI) (simp add: dp_SkipFields.simps gives_def)
next
  case (Cons p ps)
  obtain fid x where p: "p = (fid, x)" by (cases p)
  have skip: "yields (\<lambda>x. x) (r_Skip R (GetTypeId x)) (fst (enc_value F x)) (Inr ())"
    using Skip_decodes [of x] dynamic Cons.prems p by (auto simp: good_def intro: yields_decodes)
  show ?case
  proof (rule yieldsI)
    fix ib rest assume "ib_at ib (after_tag F (p # ps, base) @ rest)"
    then have at: "ib_at ib (fst (enc_value F x) @ wire_level F (ps, base) @ rest)" using p by simp
    have "gives (\<lambda>x. x) ib (fst (enc_value F x) @ wire_level F (ps, base))
      (res_bind (r_Skip R (GetTypeId x) ib) (\<lambda>(_, ib1).
         res_bind (r_ReadFieldBegin R ib1) (\<lambda>((type, fid), ib2).
           if left ib2 < left ib then dp_SkipFields R type fid ib2 else Inl OutOfFuel)))
      (res_bind (Inr ()) (\<lambda>_. Inr (stop_tag base, 0)))"
      using at yieldsD [OF skip at] Skip_runs
      by (rule turn_gives) (use Cons in \<open>auto dest: yieldsD\<close>)
    then show "gives (\<lambda>x. x) ib (after_tag F (p # ps, base))
        (dp_SkipFields R (fst (first_tag (p # ps, base))) (snd (first_tag (p # ps, base))) ib) (Inr (stop_tag base, 0))"
      using p by (subst dp_SkipFields.simps) simp
  qed
qed

lemma skipped_field:
  assumes "good x"
  shows "yields erase_var (bind (r_Skip R (GetTypeId x)) (\<lambda>_. ret (var, required))) (fst (enc_value F x))
    (Inr (erase_field var, required))"
proof -
  have "decodes (r_Skip R (GetTypeId x)) (fst (enc_value F x)) ()"
    using assms dynamic Skip_decodes by (auto simp: good_def)
  from yields_skipped [OF this, of erase_var "(var, required)"] show ?thesis by simp
qed

lemma Skip_nothrow_decodes: "good x \<Longrightarrow> decodes (Skip_nothrow R (GetTypeId x)) (fst (enc_value F x)) ()"
  using Skip_decodes [of x] dynamic by (auto simp: decodes_def Skip_nothrow_def good_def)

lemma BasicTypeField_yields:
  assumes x: "good x" and fd: "schema_ok_fields [fd]" "field_var fd var" "is_basic_type (fd_type fd)"
    and neq: "GetTypeId x \<noteq> get_type_id (fd_type fd)" and basic: "is_basic x"
  shows "yields erase_var (BasicTypeField R fs fd (GetTypeId x) var required) (fst (enc_value F x))
    (view_field fs fd el x (erase_field var) required)"
proof -
  obtain t where t: "fd_type fd = TBasic t" using fd(3) by (cases "fd_type fd") auto
  have bt: "is_basic_tag (GetTypeId x)" using basic by (simp add: is_basic_tag_GetTypeId)
  show ?thesis
  proof (cases "is_matching_basic (GetTypeId x) t")
    case True
    have "yields erase_var (To_Field fs fd (Deserialize_basic R (GetTypeId x) t) var required) (fst (enc_value F x))
      (res_bind (Validate_field fs fd required) (\<lambda>required.
         res_bind (view_var fd (view_basic t x) (erase_field var)) (\<lambda>var. Inr (var, required))))"
      using basic x Deserialize_basic_runs [OF bt True] t
      by (intro To_Field_yields [OF fd(1,2)] Deserialize_basic_yields) (auto simp: good_def shaped_TBasic)
    with True t neq bt show ?thesis by (simp add: BasicTypeField_def view_field_def)
  next
    case False
    with yields_skipped [OF Skip_nothrow_decodes [OF x], of erase_var "(var, required)"] t neq bt
    show ?thesis by (simp add: BasicTypeField_def view_field_def)
  qed
qed

lemma field_yields:
  assumes x: "good x" and fd: "schema_ok_fields [fd]" "field_var fd var"
    and val: "reads_as F (fd, val) (fd, el)" "value_ok (fd, val)"
  shows "yields erase_var
    (if fd_id fd = fid \<and> get_type_id (fd_type fd) = GetTypeId x then To_Field fs fd val var required
     else UnknownFieldOrTypeMismatch R fs fd fid (GetTypeId x) var required)
    (fst (enc_value F x))
    (if fd_id fd = fid then view_field fs fd el x (erase_field var) required
     else Inr (erase_field var, required))"
proof -
  consider (same) "fd_id fd = fid" "get_type_id (fd_type fd) = GetTypeId x"
    | (basic) "fd_id fd = fid" "get_type_id (fd_type fd) \<noteq> GetTypeId x" "is_basic_type (fd_type fd)" "is_basic x"
    | (skip) "fd_id fd = fid \<Longrightarrow> get_type_id (fd_type fd) \<noteq> GetTypeId x \<and> \<not> (is_basic_type (fd_type fd) \<and> is_basic x)"
    by blast
  then show ?thesis
  proof cases
    case same
    have "yields erase_var (To_Field fs fd val var required) (fst (enc_value F x))
      (res_bind (Validate_field fs fd required) (\<lambda>required.
         res_bind (view_var fd (el x) (erase_field var)) (\<lambda>var. Inr (var, required))))"
      using val x same by (intro To_Field_yields [OF fd]) (auto simp: reads_as_def value_ok_def)
    with same show ?thesis by (simp add: view_field_def)
  next
    case basic
    then have "GetTypeId x \<noteq> BT_LIST" "GetTypeId x \<noteq> BT_SET" "GetTypeId x \<noteq> BT_MAP" "GetTypeId x \<noteq> BT_STRUCT"
      by (cases x; simp)+
    with basic BasicTypeField_yields [OF x fd basic(3) _ basic(4)] show ?thesis
      by (auto simp: UnknownFieldOrTypeMismatch_def)
  next
    case skip
    have "\<not> is_basic_type (fd_type fd) \<or> fd_id fd \<noteq> fid \<or> GetTypeId x \<in> {BT_LIST, BT_SET, BT_MAP, BT_STRUCT}"
      using skip by (cases x) auto
    moreover have "\<not> is_matching_basic (GetTypeId x) (get_type_id (fd_type fd))"
      if same: "fd_id fd = fid" "is_basic_type (fd_type fd)"
    proof -
      obtain t where "fd_type fd = TBasic t" "is_basic_tag t"
        using same(2) fd(1) by (cases fd; cases "fd_type fd") auto
      with skip same show ?thesis
        using matching_basic_tag [of "GetTypeId x" t] is_basic_tag_GetTypeId [of x] by auto
    qed
    ultimately show ?thesis
      using skip skipped_field [OF x, of var required]
      by (auto simp: UnknownFieldOrTypeMismatch_def view_field_def Let_def)
  qed
qed

lemma dp_ReadFields_tail:
  assumes "gives erase_parsed ib bs res (parse_result base (view_level fs views ps vars required))"
  shows "gives erase_parsed ib bs (res_bind res (\<lambda>((vars, r), ib3). Inr ((var # vars, r), ib3)))
    (parse_result base (res_bind (view_level fs views ps vars required) (\<lambda>(vars, required).
       Inr (erase_field var # vars, required))))"
  using assms
  by (cases "view_level fs views ps vars required") (auto simp: parse_result_def gives_def)

lemma dp_ReadFields_yields:
  assumes "list_all2 (reads_as F) heads views" and "list_all value_ok heads"
    and "sorted_wrt (<) (map (\<lambda>h. fd_id (fst h)) heads)"
    and "good_level ps" and "shaped_fields (map fst heads) vars"
  shows "yields erase_parsed
    (dp_ReadFields R fs heads vars required (fst (first_tag (ps, base))) (snd (first_tag (ps, base))))
    (after_tag F (ps, base))
    (parse_result base (view_level fs views ps (map erase_field vars) required))"
  using assms
proof (induction heads arbitrary: views ps vars required)
  case Nil
  show ?case
  proof (rule yieldsI)
    fix ib rest assume at: "ib_at ib (after_tag F (ps, base) @ rest)"
    have "list_all (\<lambda>(fid, x). good x) ps" using Nil.prems(4) by (simp add: good_level_def)
    from yieldsD [OF dp_SkipFields_decodes [OF this] at] Nil.prems(1)
    show "gives erase_parsed ib (after_tag F (ps, base))
        (dp_ReadFields R fs [] vars required (fst (first_tag (ps, base))) (snd (first_tag (ps, base))) ib)
        (parse_result base (view_level fs views ps (map erase_field vars) required))"
      by (auto simp: gives_def parse_result_def dp_ReadFields.simps)
  qed
next
  case (Cons h heads)
  obtain fd val where h: "h = (fd, val)" by (cases h)
  from Cons.prems(1) h obtain g views0 where g: "views = g # views0" "reads_as F (fd, val) g"
      "list_all2 (reads_as F) heads views0"
    by (auto simp: list_all2_Cons1)
  then obtain el where "g = (fd, el)" by (cases g) (auto simp: reads_as_def)
  with g have views: "views = (fd, el) # views0" "reads_as F (fd, val) (fd, el)"
      "list_all2 (reads_as F) heads views0" by auto
  from Cons.prems(5) h obtain var0 vars0 where vars: "vars = var0 # vars0" "field_var fd var0"
      "shaped_fields (map fst heads) vars0"
    by (auto simp: shaped_fields_iff list_all2_Cons1)
  have ok: "value_ok (fd, val)" "list_all value_ok heads" using Cons.prems(2) h by simp_all
  then have fd: "schema_ok_fields [fd]" by (simp add: value_ok_def)
  have above: "\<forall>g \<in> set views0. fd_id fd < fd_id (fst g)"
  proof
    fix g assume "g \<in> set views0"
    then obtain i where i: "i < length views0" "g = views0 ! i" by (auto simp: in_set_conv_nth)
    then have "fst g = fst (heads ! i)" "heads ! i \<in> set heads"
      using views(3) by (auto simp: list_all2_conv_all_nth reads_as_def)
    with Cons.prems(3) h show "fd_id fd < fd_id (fst g)" by auto
  qed
  have IH: "yields erase_parsed
      (dp_ReadFields R fs heads vars0 r (fst (first_tag (ps, base))) (snd (first_tag (ps, base))))
      (after_tag F (ps, base)) (parse_result base (view_level fs views0 ps (map erase_field vars0) r))"
    if "good_level ps" for ps r
    using Cons.prems(3) by (intro Cons.IH views(3) ok(2) that vars(3)) simp
  have tid: "is_value_type (get_type_id (fd_type fd))"
    using fd by (cases fd) (auto intro: get_type_id_value)
  show ?case
    using vars(2) Cons.prems(4) unfolding h views(1) vars(1)
  proof (induction ps arbitrary: var0 required)
    case Nil
    show ?case
    proof (rule yieldsI)
      fix ib rest assume at: "ib_at ib (after_tag F ([], base) @ rest)"
      have "get_type_id (fd_type fd) \<noteq> stop_tag base" using tid by (auto simp: stop_tag_def)
      with dp_ReadFields_tail [OF yieldsD [OF IH at], where var = var0]
      show "gives erase_parsed ib (after_tag F ([], base))
          (dp_ReadFields R fs ((fd, val) # heads) (var0 # vars0) required (fst (first_tag ([], base)))
            (snd (first_tag ([], base))) ib)
          (parse_result base (view_level fs ((fd, el) # views0) [] (map erase_field (var0 # vars0)) required))"
        by (subst dp_ReadFields_Cons) (simp add: good_level_def)
    qed
  next
    case (Cons p ps)
    obtain fid x where p: "p = (fid, x)" by (cases p)
    with Cons.prems(2) have x: "good x" "good_level ps" "\<forall>q \<in> set ps. fid < fst q"
      by (auto simp: good_level_Cons)
    let ?vs = "map erase_field vars0"
    let ?view = "\<lambda>ps v r. view_level fs ((fd, el) # views0) ps (v # ?vs) r"
    let ?next = "\<lambda>v r type fid ib ib2.
      if fd_id fd < fid \<or> is_stop type
      then res_bind (dp_ReadFields R fs heads vars0 r type fid ib2)
             (\<lambda>((vars, r), ib3). Inr ((v # vars, r), ib3))
      else if left ib2 < left ib
      then dp_ReadFields R fs ((fd, val) # heads) (v # vars0) r type fid ib2
      else Inl OutOfFuel"
    have step: "gives erase_parsed ib2 (after_tag F (ps, base))
        (?next v r (fst (first_tag (ps, base))) (snd (first_tag (ps, base))) ib ib2)
        (parse_result base (?view ps (erase_field v) r))"
      if "field_var fd v" and at: "ib_at ib2 (after_tag F (ps, base) @ rest)" and "left ib2 < left ib"
      for v r ib ib2 rest
    proof (cases "fd_id fd < snd (first_tag (ps, base)) \<or> is_stop (fst (first_tag (ps, base)))")
      case True
      have "map_of ps (fd_id fd) = None"
        using True x(2) by (intro map_of_above, cases ps) (force simp: good_level_Cons)+
      with True dp_ReadFields_tail [OF yieldsD [OF IH [OF x(2)] at], where var = v]
      show ?thesis by simp
    next
      case False
      with that yieldsD [OF Cons.IH [OF that(1) x(2)] at] show ?thesis by simp
    qed
    show ?case
    proof (rule yieldsI)
      fix ib rest assume at: "ib_at ib (after_tag F (p # ps, base) @ rest)"
      show "gives erase_parsed ib (after_tag F (p # ps, base))
          (dp_ReadFields R fs ((fd, val) # heads) (var0 # vars0) required (fst (first_tag (p # ps, base)))
            (snd (first_tag (p # ps, base))) ib)
          (parse_result base (view_level fs ((fd, el) # views0) (p # ps) (map erase_field (var0 # vars0)) required))"
      proof (cases "fd_id fd < fid")
        case True
        then have "map_of (p # ps) (fd_id fd) = None"
          using x(3) p by (intro map_of_above) auto
        with True p dp_ReadFields_tail [OF yieldsD [OF IH [OF Cons.prems(2)] at], where var = var0]
        show ?thesis by (subst dp_ReadFields_Cons) auto
      next
        case False
        from at p have at: "ib_at ib (fst (enc_value F x) @ wire_level F (ps, base) @ rest)" by simp
        note here = field_yields [OF x(1) fd Cons.prems(1) views(2) ok(1), of fid fs required]
        have run: "runs 0 (\<lambda>(v, r). field_var fd v) (if fd_id fd = fid \<and> get_type_id (fd_type fd) = GetTypeId x
            then To_Field fs fd val var0 required
            else UnknownFieldOrTypeMismatch R fs fd fid (GetTypeId x) var0 required)"
          using ok(1) fd Cons.prems(1) by (auto simp: value_ok_def intro!: To_Field_runs UnknownField_runs)
        have "gives erase_parsed ib (fst (enc_value F x) @ wire_level F (ps, base))
            (res_bind ((if fd_id fd = fid \<and> get_type_id (fd_type fd) = GetTypeId x
                then To_Field fs fd val var0 required
                else UnknownFieldOrTypeMismatch R fs fd fid (GetTypeId x) var0 required) ib)
             (\<lambda>(vr, ib1). res_bind (r_ReadFieldBegin R ib1) (\<lambda>((type, fid), ib2).
                ?next (fst vr) (snd vr) type fid ib ib2)))
            (res_bind (if fd_id fd = fid then view_field fs fd el x (erase_field var0) required
                       else Inr (erase_field var0, required))
              (\<lambda>vr. parse_result base (?view ps (fst vr) (snd vr))))"
          using at yieldsD [OF here at] run
        proof (rule turn_gives)
          fix vr :: "bfield \<times> u16" and ib2 assume "case vr of (v, r) \<Rightarrow> field_var fd v"
            "ib_at ib2 (after_tag F (ps, base) @ rest)" "left ib2 < left ib"
          then show "gives erase_parsed ib2 (after_tag F (ps, base))
              (?next (fst vr) (snd vr) (fst (first_tag (ps, base))) (snd (first_tag (ps, base))) ib ib2)
              (parse_result base (?view ps (fst (erase_var vr)) (snd (erase_var vr))))"
            using step [of "fst vr" ib2 rest ib "snd vr"] by (simp only: case_prod_unfold fst_map_prod snd_map_prod)
        qed
        moreover have "res_bind (if fd_id fd = fid then view_field fs fd el x (erase_field var0) required
                       else Inr (erase_field var0, required))
              (\<lambda>vr. parse_result base (?view ps (fst vr) (snd vr))) =
            parse_result base (?view (p # ps) (erase_field var0) required)"
        proof (cases "fd_id fd = fid")
          case True
          then have "map_of ps (fd_id fd) = None" using x(3) by (intro map_of_above) simp
          with True above p view_level_drop [of views0 fid fs x ps] show ?thesis
            by (cases "view_field fs fd el x (erase_field var0) required") (auto simp: parse_result_def)
        next
          case False
          with \<open>\<not> fd_id fd < fid\<close> have "fid < fd_id fd" by simp
          with above have "\<forall>g \<in> set ((fd, el) # views0). fid < fd_id (fst g)" by force
          note drop = view_level_drop [OF this]
          show ?thesis by (simp only: False if_False res_bind_Inr fst_conv snd_conv p drop)
        qed
        moreover have "(fd_id fd = fid \<and> get_type_id (fd_type fd) = GetTypeId x) \<or>
            (fid \<le> fd_id fd \<and> \<not> is_stop (GetTypeId x))" using False by auto
        note dp = dp_ReadFields_Cons [of R fs fd val heads var0 vars0 required "GetTypeId x" fid ib,
            unfolded if_P [OF this]]
        ultimately show ?thesis
          by (simp only: p after_tag.simps first_tag.simps fst_conv snd_conv list.map dp)
      qed
    qed
  qed
qed

text \<open>The levels derived from the last one of the schema are skipped.\<close>

lemma unknown_turn:
  assumes "yields (\<lambda>x. x) m bs (Inr ())" and "runs n P m" and "type \<noteq> BT_STOP"
    and m: "\<And>ib. m ib = (if type = BT_STOP_BASE then Inr ((), ib) else r_Skip R type ib)"
    and K: "yields (\<lambda>x. x) (ReadUnknownFields R (fst (first_tag l)) (snd (first_tag l))) (after_tag F l @ cs) (Inr ())"
  shows "yields (\<lambda>x. x) (ReadUnknownFields R type fid) (bs @ wire_level F l @ cs) (Inr ())"
proof (rule yieldsI)
  fix ib rest assume "ib_at ib ((bs @ wire_level F l @ cs) @ rest)"
  then have at: "ib_at ib (bs @ wire_level F l @ cs @ rest)" by simp
  have "gives (\<lambda>x. x) ib (bs @ wire_level F l @ cs) (res_bind (m ib) (\<lambda>(_, ib1).
      res_bind (r_ReadFieldBegin R ib1) (\<lambda>((type, fid), ib2).
        if left ib2 < left ib then ReadUnknownFields R type fid ib2 else Inl OutOfFuel)))
      (res_bind (Inr ()) (\<lambda>_. Inr ()))"
    using at yieldsD [OF assms(1) at] assms(2)
    by (rule turn_gives_more) (use yieldsD [OF K] in simp)
  with assms(3) show "gives (\<lambda>x. x) ib (bs @ wire_level F l @ cs) (ReadUnknownFields R type fid ib) (Inr ())"
    by (subst ReadUnknownFields.simps) (simp add: m)
qed

lemma unknown_level:
  assumes "yields (\<lambda>x. x) (ReadUnknownFields R (stop_tag base) 0) cs (Inr ())"
  shows "list_all (\<lambda>(fid, x). good x) ps \<Longrightarrow>
    yields (\<lambda>x. x) (ReadUnknownFields R (fst (first_tag (ps, base))) (snd (first_tag (ps, base))))
      (after_tag F (ps, base) @ cs) (Inr ())"
proof (induction ps)
  case (Cons p ps)
  obtain fid x where p: "p = (fid, x)" by (cases p)
  have skip: "yields (\<lambda>x. x) (r_Skip R (GetTypeId x)) (fst (enc_value F x)) (Inr ())"
    using Skip_decodes [of x] dynamic Cons.prems p by (auto simp: good_def intro: yields_decodes)
  have "GetTypeId x \<noteq> BT_STOP" "GetTypeId x \<noteq> BT_STOP_BASE" by (cases x; simp)+
  with unknown_turn [OF skip Skip_runs, of "GetTypeId x" "(ps, base)" cs fid] Cons p show ?case by simp
qed (use assms in simp)

lemma ReadUnknownFields_decodes:
  "complete ((ps, base) # ls) \<Longrightarrow> good_levels ((ps, base) # ls) \<Longrightarrow>
   yields (\<lambda>x. x) (ReadUnknownFields R (fst (first_tag (ps, base))) (snd (first_tag (ps, base))))
     (after_tag F (ps, base) @ wire_levels F ls) (Inr ())"
proof (induction ls arbitrary: ps base)
  case Nil
  have "yields (\<lambda>x. x) (ReadUnknownFields R (stop_tag base) 0) (wire_levels F []) (Inr ())"
    using Nil(1) by (intro yieldsI) (simp add: ReadUnknownFields.simps stop_tag_def gives_def)
  then show ?case using Nil by (intro unknown_level) (auto simp: good_level_def)
next
  case (Cons l ls)
  then have l: "base" "yields (\<lambda>x. x) (ReadUnknownFields R (fst (first_tag l)) (snd (first_tag l)))
      (after_tag F l @ wire_levels F ls) (Inr ())"
    by (cases l; auto)+
  have "yields (\<lambda>x. x) (ReadUnknownFields R (stop_tag base) 0) ([] @ wire_level F l @ wire_levels F ls) (Inr ())"
    using l by (intro unknown_turn [where m = "ret ()" and n = 0 and P = "\<lambda>_. True"] yields_ret runs_ret)
      (auto simp: stop_tag_def ret_def)
  then show ?case using Cons.prems by (intro unknown_level) (auto simp: good_level_def)
qed

lemma after_levels:
  assumes "complete ((ps, flag) # ls)" and "good_levels ls"
  shows "yields (\<lambda>x. x) (ReadUnknownFields R (stop_tag flag) 0) (wire_levels F ls) (Inr ())"
proof -
  have "complete (([], flag) # ls)" using assms(1) by (cases ls) auto
  from ReadUnknownFields_decodes [OF this] assms(2) show ?thesis by (simp add: good_level_def)
qed

lemma DynamicParser_yields:
  assumes heads: "list_all2 (reads_as F) heads views" "list_all value_ok heads"
      "sorted_wrt (<) (map (\<lambda>h. fd_id (fst h)) heads)" "shaped_fields (map fst heads) vars"
    and L: "complete (l # ls)" "good_levels (l # ls)"
  shows "yields erase_read (DynamicParser_ReadFields R base heads vars required)
    (if base then wire_level F l else wire_levels F (l # ls))
    (res_bind (view_level (map fst heads) views (fst l) (map erase_field vars) required)
       (\<lambda>(vs, r). Inr (base \<and> \<not> snd l, vs, r)))"
proof -
  obtain ps flag where l: "l = (ps, flag)" by (cases l)
  let ?tail = "if base then [] else wire_levels F ls"
  let ?K = "\<lambda>(vars, required, type, fid).
    if \<not> base then bind (ReadUnknownFields R type fid) (\<lambda>_. ret (False, vars, required))
    else ret (type = BT_STOP, vars, required)"
  let ?view = "view_level (map fst heads) views ps (map erase_field vars) required"
  have fields: "yields erase_parsed
      (dp_ReadFields R (map fst heads) heads vars required (fst (first_tag (ps, flag))) (snd (first_tag (ps, flag))))
      (after_tag F (ps, flag)) (parse_result flag ?view)"
    using heads L l by (intro dp_ReadFields_yields) auto
  have run: "runs 0 (parsed heads) (dp_ReadFields R (map fst heads) heads vars required type fid)" for type fid
    using heads dynamic by (intro runsI dp_ReadFields_runs) auto
  have rest: "yields erase_read (?K (vs, r, stop_tag flag, 0)) ?tail (Inr (base \<and> \<not> flag, map erase_field vs, r))"
    for vs r
  proof (cases base)
    case True
    with yields_ret [of erase_read "(\<not> flag, vs, r)"] show ?thesis
      by (cases flag) (simp_all add: erase_read_def stop_tag_def)
  next
    case False
    have "yields (\<lambda>x. x) (ReadUnknownFields R (stop_tag flag) 0) (wire_levels F ls) (Inr ())"
      using L l by (intro after_levels) auto
    moreover have "runs 0 (\<lambda>_. True) (ReadUnknownFields R (stop_tag flag) 0)"
      using dynamic by (intro runsI ReadUnknownFields_runs)
    ultimately have "yields erase_read (bind (ReadUnknownFields R (stop_tag flag) 0) (\<lambda>_. ret (False, vs, r)))
        (wire_levels F ls) (res_bind (Inr ()) (\<lambda>_. Inr (False, map erase_field vs, r)))"
      by (intro yields_map) (auto simp: erase_read_def)
    with False show ?thesis by simp
  qed
  have "yields erase_read (bind (dp_ReadFields R (map fst heads) heads vars required
      (fst (first_tag (ps, flag))) (snd (first_tag (ps, flag)))) ?K) (after_tag F (ps, flag) @ ?tail)
      (res_bind (parse_result flag ?view) (\<lambda>(vs, r, type, fid). Inr (base \<and> \<not> flag, vs, r)))"
    using fields run
  proof (rule yields_bind)
    fix q assume "parse_result flag ?view = Inr (erase_parsed q)"
    then obtain vs r where "q = (vs, r, stop_tag flag, 0)"
      by (cases ?view; cases q) (auto simp: parse_result_def)
    with rest [of vs r] show "yields erase_read (?K q) ?tail
        ((\<lambda>(vs, r, type, fid). Inr (base \<and> \<not> flag, vs, r)) (erase_parsed q))" by simp
  qed
  then have body: "yields erase_read (case first_tag l of (type, fid) \<Rightarrow>
      bind (dp_ReadFields R (map fst heads) heads vars required type fid) ?K) (after_tag F l @ ?tail)
      (res_bind (parse_result flag ?view) (\<lambda>(vs, r, type, fid). Inr (base \<and> \<not> flag, vs, r)))"
    using l by (simp add: case_prod_unfold)
  have enc: "(if base then wire_level F l else wire_levels F (l # ls)) = tag_bytes F l @ after_tag F l @ ?tail"
    by (simp add: wire_level_tag)
  have view: "res_bind (parse_result flag ?view) (\<lambda>(vs, r, type, fid). Inr (base \<and> \<not> flag, vs, r)) =
      res_bind (view_level (map fst heads) views (fst l) (map erase_field vars) required)
       (\<lambda>(vs, r). Inr (base \<and> \<not> snd l, vs, r))"
    using l by (cases ?view) (auto simp: parse_result_def)
  show ?thesis
    unfolding enc view [symmetric] DynamicParser_ReadFields_def
    by (rule yields_header [OF tag_decodes]) (rule body)
qed

lemma Read_struct_yields:
  assumes heads: "list_all2 (reads_as F) heads views" "list_all value_ok heads"
      "sorted_wrt (<) (map (\<lambda>h. fd_id (fst h)) heads)" "shaped_fields (map fst heads) vars"
    and L: "complete L" "good_levels L" and md: "map fst views = map fst heads"
  shows "yields erase_done (Read_struct R base heads md b vars)
    (if base then wire_level F (hd L) else wire_levels F L)
    (view_read base views md (map_option erase_struct b) L (map erase_field vars))"
proof -
  obtain l ls where l: "L = l # ls" using L(1) by (cases L) auto
  let ?rq = "next_required_field (map fst heads) 0"
  let ?view = "view_level (map fst heads) views (fst l) (map erase_field vars) ?rq"
  have "yields erase_read (ReadFields R base heads vars ?rq)
      (if base then wire_level F l else wire_levels F (l # ls)) (res_bind ?view (\<lambda>(vs, r). Inr (base \<and> \<not> snd l, vs, r)))"
    using DynamicParser_yields [OF heads L [unfolded l]] dynamic by (simp add: ReadFields_def)
  moreover have "runs 0 (\<lambda>_. True) (ReadFields R base heads vars ?rq)"
    using runs_true [OF DynamicParser_runs [OF dynamic heads(2,4)]] dynamic by (simp add: ReadFields_def)
  ultimately have "yields erase_done (Read_struct R base heads md b vars)
      ((if base then wire_level F l else wire_levels F (l # ls)) @ [])
      (res_bind (res_bind ?view (\<lambda>(vs, r). Inr (base \<and> \<not> snd l, vs, r)))
        (\<lambda>(done, vs, r). res_bind (Validate_struct r) (\<lambda>_. Inr (done, Struct md (map_option erase_struct b) vs))))"
    unfolding Read_struct_def
  proof (rule yields_bind)
    fix q :: "bool \<times> bfield list \<times> u16"
    obtain d vs r where q: "q = (d, vs, r)" by (cases q) auto
    have "yields erase_done (bind (lift_res (Validate_struct r)) (\<lambda>_. ret (d, Struct md b vs))) []
        (res_bind (Validate_struct r) (\<lambda>_. Inr (erase_done (d, Struct md b vs))))"
      by (intro yields_lift_res yields_ret)
    then show "yields erase_done (case q of (done, vs, r) \<Rightarrow> bind (lift_res (Validate_struct r))
          (\<lambda>_. ret (done, Struct md b vs))) []
        (case erase_read q of (done, vs, r) \<Rightarrow>
          res_bind (Validate_struct r) (\<lambda>_. Inr (done, Struct md (map_option erase_struct b) vs)))"
      by (simp add: q erase_read_def erase_done_def)
  qed
  moreover have "res_bind (res_bind ?view (\<lambda>(vs, r). Inr (base \<and> \<not> snd l, vs, r)))
        (\<lambda>(done, vs, r). res_bind (Validate_struct r) (\<lambda>_. Inr (done, Struct md (map_option erase_struct b) vs))) =
      view_read base views md (map_option erase_struct b) L (map erase_field vars)"
    by (cases ?view) (auto simp: view_read_def l md)
  ultimately show ?thesis by (simp only: l list.sel append_Nil2)
qed

lemma des_base_yields:
  assumes IH: "yields erase_done (des_struct R b True v) (wire_levels F (take (depth b) L)) (view_struct b True L (erase_struct v))"
    and run: "runs 0 (\<lambda>(done, y). shaped_struct b y) (des_struct R b True v)"
    and L: "complete L" "good_levels L"
    and rest: "\<And>y. shaped_struct b y \<Longrightarrow> complete (drop (depth b) L) \<Longrightarrow>
      yields erase_done (f y) bs (g (erase_struct y))"
  shows "yields erase_done (bind (AssignToBase (des_struct R b True v)) f) (wire_levels F (take (depth b) L) @ bs)
    (res_bind (view_struct b True L (erase_struct v)) (\<lambda>(done, b').
       if done then Inl UnexpectedStructStopException else g b'))"
  unfolding AssignToBase_def bind_assoc using IH run
proof (rule yields_bind)
  fix q assume "case q of (done, y) \<Rightarrow> shaped_struct b y" and v: "view_struct b True L (erase_struct v) = Inr (erase_done q)"
  then obtain d y where q: "q = (d, y)" "shaped_struct b y" by (cases q) auto
  show "yields erase_done (bind (case q of (done, b) \<Rightarrow> if done then throw UnexpectedStructStopException else ret b) f) bs
      (case erase_done q of (done, b') \<Rightarrow> if done then Inl UnexpectedStructStopException else g b')"
  proof (cases d)
    case True
    then show ?thesis by (simp add: q erase_done_def yields_def bind_def throw_def)
  next
    case False
    then have "complete (drop (depth b) L)" using complete_drop [OF L(1)] v q by (simp add: erase_done_def)
    from rest [OF q(2) this] False show ?thesis by (simp add: q erase_done_def)
  qed
qed

lemma enc_base_levels: "base \<Longrightarrow> fst (enc_struct F base y) = wire_levels F (levels True base y)"
  by (induction True base y rule: levels.induct) (auto simp: base_struct wire_fields_enc may_omit)

lemma enc_levels:
  assumes "length (fst (enc_struct F False y)) < 2 ^ 32"
  obtains pre where "fst (enc_struct F False y) = pre @ wire_levels F (levels True False y)"
    "decodes (r_ReadStructBegin R False) pre ()"
proof (cases y)
  case (Struct md b fs)
  then obtain e where e: "enc_struct F False y = f_struct F False e"
      "fst e @ [stop_byte False] = wire_levels F (levels True False y)"
    using may_omit by (cases b) (auto simp: wire_fields_enc enc_base_levels)
  with StructBegin_decodes [of e] assms that show ?thesis by auto
qed

lemma des_fields_read:
  assumes "list_all2 (reads_as F) (des_fields R fs) (view_fields fs)"
    and "schema_ok_fields fs" "schema_sorted_fields fs" "shaped_fields fs vs" "complete L" "good_levels L"
  shows "yields erase_done (Read_struct R base (des_fields R fs) md b vs)
    (if base then wire_level F (hd L) else wire_levels F L)
    (view_read base (view_fields fs) md (map_option erase_struct b) L (map erase_field vs))"
proof (rule Read_struct_yields)
  have "map (\<lambda>h. fd_id (fst h)) (des_fields R fs) = map fd_id (map fst (des_fields R fs))"
    by (simp only: map_map comp_def)
  then show "sorted_wrt (<) (map (\<lambda>h. fd_id (fst h)) (des_fields R fs))"
    using schema_sorted_ids [OF assms(3)] by (simp only: map_fst_des_fields)
qed (use assms des_runs(2) in auto)

lemma nested_yields:
  assumes IH: "\<And>var x. schema_sorted_type e \<Longrightarrow> shaped e var \<Longrightarrow> good x \<Longrightarrow> GetTypeId x = get_type_id e \<Longrightarrow>
      yields erase (des_type R e var) (fst (enc_value F x)) (view_type e x (erase var))"
    and e: "schema_ok_type e" "\<not> is_basic_type e" "schema_sorted_type e"
    and X: "X = TList e \<or> X = TNullable e \<or> X = TMap k e \<and> is_basic_tag k"
    and x: "shaped X var" "good x" "GetTypeId x = get_type_id X"
  shows "yields erase (des_type R X var) (fst (enc_value F x)) (view_type X x (erase var))"
proof -
  note run = des_runs(1) [OF refl e(1)]
  have "yields erase (DeserializeContainer_nested R X e (des_type R e) var) (fst (enc_value F x))
      (view_container_nested X e (view_type e) x (erase var))" if "X = TList e \<or> X = TNullable e"
    using that e IH x run dynamic
    by (intro DeserializeContainer_nested_yields) (auto simp del: shaped.simps)
  moreover have "yields erase (DeserializeMap_nested R k e (des_type R e) var) (fst (enc_value F x))
      (view_map (\<lambda>et. et = get_type_id e) k e (view_type e) x (erase var))" if "X = TMap k e" "is_basic_tag k"
    using that e IH x run dynamic
    by (intro DeserializeMap_nested_yields) (auto simp del: shaped.simps)
  ultimately show ?thesis using X e(2) by (cases e) auto
qed

lemmas nested_container_yields = nested_yields [where X = "TList e" and e = e for e]
  nested_yields [where X = "TNullable e" and e = e for e]
  nested_yields [where X = "TMap k e" and e = e and k = k for k e]

lemma des_view_aux:
  "R' = R \<Longrightarrow> schema_ok_type t \<Longrightarrow> schema_sorted_type t \<Longrightarrow> shaped t var \<Longrightarrow> good x \<Longrightarrow>
     GetTypeId x = get_type_id t \<Longrightarrow> yields erase (des_type R' t var) (fst (enc_value F x)) (view_type t x (erase var))"
  "R' = R \<Longrightarrow> schema_ok_fields fs \<Longrightarrow> schema_sorted_fields fs \<Longrightarrow>
     list_all2 (reads_as F) (des_fields R' fs) (view_fields fs)"
  "R' = R \<Longrightarrow> schema_ok s \<Longrightarrow> schema_sorted s \<Longrightarrow> shaped_struct s y \<Longrightarrow> complete L \<Longrightarrow> good_levels L \<Longrightarrow>
     decodes (r_ReadStructBegin R base) pre () \<Longrightarrow>
     yields erase_done (des_struct R' s base y)
       (pre @ (if base then wire_levels F (take (depth s) L) else wire_levels F L))
       (view_struct s base L (erase_struct y))"
proof (induction R' t and R' fs and R' s arbitrary: var x and and y base L pre
    rule: des_type_des_fields_des_struct.induct)
  case (1 R' t)
  then show ?case using Deserialize_basic_yields [of x t var "erase var"] is_basic_tag_GetTypeId [of x]
    by (auto simp: good_def)
next
  case (2 R')
  then show ?case by (auto intro!: DeserializeContainer_basic_yields simp: dynamic simp del: shaped.simps)
next
  case (3 R' t)
  then show ?case by (auto intro!: DeserializeContainer_basic_yields simp: dynamic simp del: shaped.simps)
next
  case (5 R' t)
  then show ?case by (auto intro!: DeserializeContainer_basic_yields simp: dynamic simp del: shaped.simps)
next
  case (7 R' t)
  then show ?case by (auto intro!: DeserializeContainer_basic_yields simp: dynamic simp del: shaped.simps)
next
  case (8 R' k t)
  then show ?case by (auto intro!: DeserializeMap_basic_yields simp: dynamic simp del: shaped.simps)
next
  case (10 R' s)
  then obtain z v where z: "x = VStruct z" "wf_struct True z" "ordered_struct z" and v: "var = VStruct v" "shaped_struct s v"
    by (cases x; cases var) (auto simp: good_def)
  have "yields erase_done (des_struct R' s False v) (fst (enc_struct F False z))
      (view_struct s False (levels True False z) (erase_struct v))"
  proof (rule yields_bounded)
    assume "length (fst (enc_struct F False z)) < 2 ^ 32"
    then obtain pre where pre: "fst (enc_struct F False z) = pre @ wire_levels F (levels True False z)"
      "decodes (r_ReadStructBegin R False) pre ()" by (rule enc_levels)
    then show ?thesis
      using "10.IH" [OF "10.prems"(1) _ _ v(2) complete_levels good_levels_of [OF z(2,3)] pre(2)] "10.prems"
      by (simp add: pre(1))
  qed
  moreover have "runs 0 (\<lambda>_. True) (des_struct R' s False v)"
    using runs_true [OF des_runs(3) [OF "10.prems"(1) _ v(2)]] "10.prems"(2) by simp
  ultimately have "yields erase (bind (des_struct R' s False v) (\<lambda>p. ret (VStruct (snd p)))) (fst (enc_struct F False z))
      (res_bind (view_struct s False (levels True False z) (erase_struct v)) (\<lambda>p. Inr (VStruct (snd p))))"
    by (intro yields_map [where P = "\<lambda>_. True" and n = 0]) (auto simp: erase_done_def)
  then show ?case using z v by (simp add: case_prod_unfold)
next
  case (12 R' fid md mb t fs)
  then show ?case by (auto simp: reads_as_def)
next
  case (13 R' md fs)
  then obtain vs where y: "y = Struct md None vs" "shaped_fields fs vs" by (cases y) auto
  have "yields erase_done (Read_struct R' base (des_fields R' fs) md None vs)
      (if base then wire_level F (hd L) else wire_levels F L)
      (view_read base (view_fields fs) md (map_option erase_struct None) L (map erase_field vs))"
    using 13 y des_fields_read [of fs vs L base md None] by simp
  moreover have "wire_levels F (take 1 L) = wire_level F (hd L)" using "13.prems"(5) by (cases L) auto
  ultimately show ?case using "13.prems"(1,7) y by (auto intro!: yields_header)
next
  case (14 R' md b fs)
  then obtain b0 vs where y: "y = Struct md (Some b0) vs" "shaped_fields fs vs" "shaped_struct b b0"
    by (cases y) (auto split: option.splits)
  let ?L = "drop (depth b) L" and ?f = "\<lambda>b'. Read_struct R' base (des_fields R' fs) md (Some b') vs"
  let ?bs = "if base then wire_levels F (take 1 ?L) else wire_levels F ?L"
  have rest: "yields erase_done (?f z) ?bs
      (view_read base (view_fields fs) md (Some (erase_struct z)) ?L (map erase_field vs))"
    if "complete ?L" for z
  proof -
    have "yields erase_done (?f z) (if base then wire_level F (hd ?L) else wire_levels F ?L)
      (view_read base (view_fields fs) md (map_option erase_struct (Some z)) ?L (map erase_field vs))"
      using 14 y that des_fields_read [of fs vs ?L base md "Some z"]
      by (simp add: good_levels_drop)
    moreover have "wire_levels F (take 1 ?L) = wire_level F (hd ?L)" using that by (cases ?L) auto
    ultimately show ?thesis by (cases base) simp_all
  qed
  have "yields erase_done (des_struct R' b True b0) (wire_levels F (take (depth b) L)) (view_struct b True L (erase_struct b0))"
    using "14.IH"(1) [of b0 L True "[]"] "14.prems" y(3) base_StructBegin by simp
  moreover have "runs 0 (\<lambda>(done, y). shaped_struct b y) (des_struct R' b True b0)"
    using des_runs(3) [of R' b b0 True] "14.prems" y(3) by simp
  ultimately have "yields erase_done (bind (AssignToBase (des_struct R' b True b0)) ?f)
      (wire_levels F (take (depth b) L) @ ?bs)
      (res_bind (view_struct b True L (erase_struct b0)) (\<lambda>(done, b'). if done then Inl UnexpectedStructStopException
         else view_read base (view_fields fs) md (Some b') ?L (map erase_field vs)))"
    using des_base_yields [of b b0 L ?f ?bs] "14.prems"(1,5,6) rest by simp
  moreover have "wire_levels F (take (depth b) L) @ ?bs =
      (if base then wire_levels F (take (Suc (depth b)) L) else wire_levels F L)"
    using take_add [of "depth b" 1 L] by (simp flip: wire_levels_append)
  ultimately show ?case using "14.prems"(1,7) y
    by (auto intro!: yields_header cong: if_cong)
next
  case (11 R')
  then show ?case by simp
qed ((hypsubst, rule nested_container_yields; simp del: shaped.simps des_type.simps view_type.simps)+)

theorem Deserialize_view:
  assumes "schema_ok s" "schema_sorted s" "wf_struct True x" "ordered_struct x"
  shows "yields erase_struct (Deserialize R s) (fst (enc_struct F False x)) (view_object s x)"
proof -
  have "yields erase_done (des_struct R s False (default_struct s)) (fst (enc_struct F False x))
      (view_struct s False (levels True False x) (erase_struct (default_struct s)))"
  proof (rule yields_bounded)
    assume "length (fst (enc_struct F False x)) < 2 ^ 32"
    then obtain pre where pre: "fst (enc_struct F False x) = pre @ wire_levels F (levels True False x)"
      "decodes (r_ReadStructBegin R False) pre ()" by (rule enc_levels)
    then show ?thesis
      using des_view_aux(3) [OF refl assms(1,2) shaped_default(4) [OF assms(1)] complete_levels
        good_levels_of [OF assms(3,4)] pre(2)] by (simp add: pre(1))
  qed
  moreover have "runs 0 (\<lambda>_. True) (des_struct R s False (default_struct s))"
    by (rule runs_true [OF des_runs(3) [OF refl assms(1) shaped_default(4) [OF assms(1)]]])
  ultimately have "yields erase_struct (bind (des_struct R s False (default_struct s)) (\<lambda>p. ret (snd p)))
      (fst (enc_struct F False x))
      (res_bind (view_struct s False (levels True False x) (default_struct s)) (\<lambda>p. Inr (snd p)))"
    by (intro yields_map [where P = "\<lambda>_. True" and n = 0]) (auto simp: erase_done_def erase_default)
  then show ?thesis by (simp add: Deserialize_def view_object_def case_prod_unfold)
qed

end

section \<open>The readers\<close>

lemma yields_read_blob: "length bs < 2 ^ 32 \<Longrightarrow> yields blob_bytes (ib_read_blob (of_nat (length bs))) bs (Inr bs)"
proof (rule yieldsI)
  fix ib rest assume "length bs < 2 ^ 32" "ib_at ib (bs @ rest)"
  with ib_read_blob_at [of ib "bs @ rest" "of_nat (length bs)"]
  show "gives blob_bytes ib bs (ib_read_blob (of_nat (length bs)) ib) (Inr bs)"
    by (auto simp: gives_def unat_of_nat_small)
qed

lemma compact_struct_prefix:
  assumes "length (fst (compact_struct v False e)) < 2 ^ 32"
  shows "\<exists>pre. fst (compact_struct v False e) = pre @ fst e @ [stop_byte False] \<and>
    decodes (cr_ReadStructBegin v False) pre ()"
proof (cases "v = v2")
  case True
  let ?n = "length (fst e) + 1"
  have "unat (of_nat ?n :: u32) = ?n" using assms True by (intro unat_of_nat_small) (simp add: compact_struct_def)
  then have "decodes (bind (ReadVariableUnsigned :: (InputBuffer, u32) st) (\<lambda>_. ret ())) (varint ?n) ()"
    using decodes_map [OF decodes_varint32 [of "of_nat ?n"], of "\<lambda>_. ()"] by simp
  with True show ?thesis
    by (auto simp: compact_struct_def cr_ReadStructBegin_def stop_byte_def)
next
  case False
  then show ?thesis by (simp add: compact_struct_def cr_ReadStructBegin_def stop_byte_def decodes_ret)
qed

interpretation compact: tagged_reader "compact_reader version" "compact_format version" for version
proof unfold_locales
  show "decodes (r_Skip (compact_reader version) (GetTypeId x)) (fst (enc_value (compact_format version) x)) ()"
    if "wf_value True x" for x
    using cr_SkipType_encoded [OF that] by (auto simp: compact_reader_def intro!: decodesI)
  show "length (fst (f_struct (compact_format version) False e)) < 2 ^ 32 \<Longrightarrow>
      \<exists>pre. fst (f_struct (compact_format version) False e) = pre @ fst e @ [stop_byte False] \<and>
        decodes (r_ReadStructBegin (compact_reader version) False) pre ()" for e
    using compact_struct_prefix [of version e] by (simp add: compact_reader_def compact_format_simps)
  show "f_field (compact_format version) t fid \<noteq> []" for t fid
    by (simp add: compact_format_simps compact_field_def)
qed (use decodes_cr_ReadFieldBegin_stop in \<open>auto simp: compact_reader_def compact_format_simps decodes_cr_ReadContainerBegin
      decodes_cr_ReadContainerBegin2 [simplified] decodes_cr_Read yields_read_blob compact_struct_def stop_byte_def stop_tag_def
      decodes_ret cr_ReadStructBegin_def decodes_cr_ReadFieldBegin\<close>)

interpretation fast: tagged_reader fast_reader fast_format
proof unfold_locales
  show "decodes (r_Skip fast_reader (GetTypeId x)) (fst (enc_value fast_format x)) ()"
    if "wf_value True x" for x
    using fb_SkipType_encoded [OF that] by (auto simp: fast_reader_def intro!: decodesI)
qed (use decodes_fb_ReadFieldBegin_stop [of BT_STOP] decodes_fb_ReadFieldBegin_stop [of BT_STOP_BASE]
      in \<open>auto simp: is_stop_def fast_reader_def fast_format_simps decodes_fb_ReadContainerBegin
      decodes_fb_ReadContainerBegin2 [simplified] decodes_fb_Read yields_read_blob stop_byte_def stop_tag_def
      decodes_ret fb_ReadStructBegin_def decodes_fb_ReadFieldBegin\<close>)

end
