(* ===== verification/Roundtrip.thy ===== *)
theory Roundtrip
  imports Tagged_Parser
begin

text \<open>
  Deserialization inverts serialization. An object conforms to a schema if it has the schema's shape,
  its sets and maps are sorted as the standard containers keep them, and every field that a tagged
  protocol omits has exactly its default value. The view of the encoding of such an object, in its
  own schema, is the object itself; with theory \<open>Tagged_Parser\<close> this is the round trip of Compact and
  Fast Binary. The static parser of Simple Binary has its own locale, \<open>untagged_reader\<close>.
\<close>

section \<open>Conforming objects\<close>

function (sequential) exact :: "btype \<Rightarrow> bvalue \<Rightarrow> bool"
  and exact_fields :: "fdef list \<Rightarrow> bfield list \<Rightarrow> bool"
  and exact_struct :: "sschema \<Rightarrow> bstruct \<Rightarrow> bool" where
  "exact (TNullable e) v = list_all (exact e) (items_of v)"
| "exact (TList e) v = list_all (exact e) (items_of v)"
| "exact (TSet t) v = sorted_wrt key_less (items_of v)"
| "exact (TMap k e) v =
     (case v of VMap kt t kvs \<Rightarrow> sorted_wrt key_less (map fst kvs) \<and> list_all (\<lambda>(x, y). exact e y) kvs
      | _ \<Rightarrow> True)"
| "exact (TStruct s) v = exact_struct s (struct_of v)"
| "exact t v = True"
| "exact_fields (FieldDef fid md mb t # fs) (f # vs) =
     (fid \<noteq> invalid_field_id \<and> exact_fields fs vs \<and>
      (case f of
         Field fid' md' v \<Rightarrow> exact t v \<and> (omit_field True md v \<longrightarrow> erase_field f = default_field (FieldDef fid md mb t))
       | MaybeField fid' md' t' v \<Rightarrow> (case v of None \<Rightarrow> True | Some v \<Rightarrow> exact t v)))"
| "exact_fields fs vs = True"
| "exact_struct (Schema md None fs) x = exact_fields fs (fields_of x)"
| "exact_struct (Schema md (Some b) fs) x =
     (exact_fields fs (fields_of x) \<and> exact_struct b (the (base_of x)))"
  by pat_completeness auto
termination
  by (relation "measure (case_sum (\<lambda>(t, v). size t)
      (case_sum (\<lambda>(fs, vs). size_list size fs) (\<lambda>(s, x). size s)))") auto

definition conforms :: "sschema \<Rightarrow> bstruct \<Rightarrow> bool" where
  "conforms s x \<longleftrightarrow> schema_ok s \<and> schema_sorted s \<and> shaped_struct s x \<and> exact_struct s x"

lemma shaped_GetTypeId: "shaped t x \<Longrightarrow> GetTypeId x = get_type_id t"
  by (cases t; cases x) auto

text \<open>An object with the shape of a sorted schema lists its fields by id.\<close>

lemma shaped_field_id: "field_var fd f \<Longrightarrow> field_id f = fd_id fd"
  by (cases fd; cases f) (auto simp: field_var_def field_id_def)

lemma shaped_field_ids: "shaped_fields fs vs \<Longrightarrow> map field_id vs = map fd_id fs"
  unfolding shaped_fields_iff by (induction rule: list_all2_induct) (simp_all add: shaped_field_id)

lemma shaped_ordered:
  "schema_sorted_type t \<Longrightarrow> shaped t x \<Longrightarrow> ordered x"
  "schema_sorted_fields fs \<Longrightarrow> shaped_fields fs vs \<Longrightarrow> list_all ordered_field vs"
  "schema_sorted s \<Longrightarrow> shaped_struct s y \<Longrightarrow> ordered_struct y"
proof (induction t x and fs vs and s y rule: shaped_shaped_fields_shaped_struct.induct)
  case (1 t v)
  then show ?case by (cases v) auto
next
  case (3 e v)
  then show ?case by (cases v) (auto simp: list_all_iff)
next
  case (4 e v)
  then show ?case by (cases v) (auto simp: list_all_iff)
next
  case (5 t v)
  have "is_basic x \<Longrightarrow> ordered x" for x by (cases x) auto
  with 5 show ?case by (cases v) (auto simp: list_all_iff)
next
  case (6 k e v)
  have "is_basic x \<Longrightarrow> ordered x" for x by (cases x) auto
  with 6 show ?case by (cases v) (fastforce simp: list_all_iff)+
next
  case (9 fid md mb t fs vs)
  then show ?case by (cases vs) (auto split: bfield.splits option.splits)
next
  case (10 md fs x)
  then show ?case using schema_sorted_ids shaped_field_ids
    by (cases x) (auto simp: list_all_iff)
next
  case (11 md s fs x)
  then show ?case using schema_sorted_ids shaped_field_ids
    by (cases x) (auto simp: list_all_iff split: option.splits)
qed (auto split: bvalue.splits)

section \<open>Containers of a conforming object\<close>

lemma view_items_exact:
  "length vs = length xs \<Longrightarrow> (\<And>x v. x \<in> set xs \<Longrightarrow> v \<in> set vs \<Longrightarrow> el x v = Inr (erase x)) \<Longrightarrow>
   view_items el xs vs = Inr (map erase xs)"
proof (induction xs arbitrary: vs)
  case (Cons x xs)
  then obtain v ws where "vs = v # ws" by (cases vs) auto
  with Cons show ?case by simp
qed simp

lemma view_set_exact:
  "sorted_wrt key_less (s @ xs) \<Longrightarrow> (\<And>x v. x \<in> set xs \<Longrightarrow> el x v = Inr x) \<Longrightarrow>
   view_set el xs e s = Inr (s @ xs)"
proof (induction xs arbitrary: e s)
  case (Cons x xs)
  then have "set_insert x s = s @ [x]" by (intro set_insert_last) (auto simp: sorted_wrt_append)
  with Cons show ?case by simp
qed simp

lemma view_pairs_exact:
  "sorted_wrt key_less (map fst (m @ kvs)) \<Longrightarrow>
   (\<And>x y. (x, y) \<in> set kvs \<Longrightarrow> static_cast k x = x \<and> el y d = Inr (erase y)) \<Longrightarrow>
   view_pairs k el d kvs (erase_mapped m) = Inr (erase_mapped (m @ kvs))"
proof (induction kvs arbitrary: m)
  case (Cons p kvs)
  obtain x y where p: "p = (x, y)" by (cases p)
  have fresh: "\<forall>(z, v) \<in> set (erase_mapped m). key_less z x"
    using Cons.prems(1) p by (auto simp: sorted_wrt_append erase_mapped_def)
  have "view_pairs k el d kvs (erase_mapped (m @ [(x, y)])) = Inr (erase_mapped ((m @ [(x, y)]) @ kvs))"
    using Cons.prems p by (intro Cons.IH) auto
  moreover have "erase_mapped (m @ [(x, y)]) = erase_mapped m @ [(x, erase y)]" by (simp add: erase_mapped_def)
  ultimately show ?case
    using Cons.prems(2) [of x y] p mapped_at_fresh [OF fresh] map_assign_last [OF fresh] by simp
qed simp

lemma basic_exact: "basic_of e x \<Longrightarrow> view_basic e x v = Inr (erase x)"
  using static_cast_same [of x] by (auto simp: view_basic_def)

lemma map_id_basic: "list_all (basic_of t) xs \<Longrightarrow> map erase xs = xs"
  by (induction xs) auto

lemma view_container_basic_exact:
  assumes "shaped X x" and "exact X x"
    and X: "X = TList (TBasic e) \<or> X = TNullable (TBasic e) \<or> X = TSet e \<or> X = TBlob \<and> e = BT_INT8"
  shows "view_container_basic X e x var = Inr (erase x)"
proof -
  have self: "is_matching_basic e e" by (simp add: is_matching_basic_def)
  have list: "view_elements (TList (TBasic e)) (view_basic e) xs var = Inr (VList e (map erase xs))"
    if "list_all (basic_of e) xs" for xs
    using that view_items_exact [of "resize_list (length xs) (default_basic e) (items_of var)" xs "view_basic e"]
    by (simp add: list_all_iff basic_exact)
  have set: "view_elements (TSet e) (view_basic e) xs var = Inr (VSet e (map erase xs))"
    if "list_all (basic_of e) xs" "sorted_wrt key_less xs" for xs
    using that view_set_exact [of "[]" xs "view_basic e" "default_basic e"] map_id_basic [OF that(1)]
    by (simp add: list_all_iff basic_exact)
  have null: "view_elements (TNullable (TBasic e)) (view_basic e) xs var = Inr (VList e (map erase xs))"
    if "list_all (basic_of e) xs" "length xs \<le> 1" for xs
    using that by (cases xs) (auto simp: basic_exact)
  from X show ?thesis
  proof (elim disjE conjE)
    assume "X = TList (TBasic e)"
    with assms(1) list self show ?thesis
      by (cases x) (auto simp: view_container_basic_def shaped_TBasic)
  next
    assume "X = TNullable (TBasic e)"
    with assms(1) null self show ?thesis
      by (cases x) (auto simp: view_container_basic_def shaped_TBasic)
  next
    assume "X = TSet e"
    with assms(1,2) set self show ?thesis by (cases x) (auto simp: view_container_basic_def)
  next
    assume "X = TBlob" "e = BT_INT8"
    moreover have "map int8_of (map VInt8 bs) = bs" for bs by (induction bs) simp_all
    ultimately show ?thesis using assms(1) self by (cases x) (auto simp: view_container_basic_def)
  qed
qed

lemma view_container_nested_exact:
  assumes x: "shaped X x" and X: "X = TList e \<or> X = TNullable e"
    and el: "\<And>y v. y \<in> set (items_of x) \<Longrightarrow> v \<in> insert (default_value e) (set (items_of var)) \<Longrightarrow>
      el y v = Inr (erase y)"
  shows "view_container_nested X e el x var = Inr (erase x)"
proof -
  from x X obtain xs where xs: "x = VList (get_type_id e) xs" and n: "X = TNullable e \<Longrightarrow> length xs \<le> 1"
    by (cases x) auto
  have "view_items el xs (resize_list (length xs) (default_value e) (items_of var)) = Inr (map erase xs)"
    using el xs by (intro view_items_exact) (auto simp: resize_list_def dest: in_set_takeD split: if_splits)
  moreover have "view_elements (TNullable e) el xs var = Inr (VList (get_type_id e) (map erase xs))"
    if "length xs \<le> 1"
    using that el xs by (cases xs; cases "items_of var") auto
  ultimately show ?thesis using X xs n by (auto simp: view_container_nested_def)
qed

lemma view_map_exact:
  assumes x: "shaped (TMap k e) x" "exact (TMap k e) x" and m: "match (get_type_id e)"
    and el: "\<And>z y. (case x of VMap kt t kvs \<Rightarrow> (z, y) \<in> set kvs | _ \<Rightarrow> False) \<Longrightarrow> el y (default_value e) = Inr (erase y)"
  shows "view_map match k e el x var = Inr (erase x)"
proof -
  from x obtain kvs where kvs: "x = VMap k (get_type_id e) kvs" "sorted_wrt key_less (map fst kvs)"
      "list_all (\<lambda>(x, y). basic_of k x \<and> shaped e y) kvs"
    by (cases x) auto
  have "view_pairs k el (default_value e) kvs (erase_mapped []) = Inr (erase_mapped ([] @ kvs))"
    using kvs el by (intro view_pairs_exact) (auto simp: list_all_iff static_cast_same)
  with kvs m show ?thesis
    by (simp add: view_map_def is_matching_basic_def erase_mapped_basic [OF kvs(3)])
qed

section \<open>Required fields of a conforming object\<close>

text \<open>
  While the fields of a struct are validated in order, the required field to come next is the first
  one among those that are left.
\<close>

lemma next_required_cons:
  "next_required_field (fd # fs) 0 =
     (if md_modifier (fd_metadata fd) = Required then fd_id fd else next_required_field fs 0)"
  by (simp add: next_required_field_def)

lemma next_required_skip:
  "\<forall>f \<in> set ps. fd_id f < i \<Longrightarrow> next_required_field (ps @ fs) i = next_required_field fs i"
  by (induction ps) (auto simp: next_required_field_def)

lemma next_required_all: "\<forall>f \<in> set fs. i \<le> fd_id f \<Longrightarrow> next_required_field fs i = next_required_field fs 0"
  by (induction fs) (auto simp: next_required_field_def)

lemma less_add1: "a < b \<Longrightarrow> a + 1 \<le> (b :: u16)"
  by (simp add: inc_le)

lemma less_next_id:
  assumes "i \<noteq> invalid_field_id"
  shows "i < i + 1"
proof -
  have "unat i \<noteq> 65535" using assms by (auto simp: invalid_field_id_def word_unat_eq_iff)
  moreover have "unat i < 65536" using unsigned_less [of i, where ?'a = nat] by simp
  ultimately have "unat (i + 1) = unat i + 1" by (simp add: unat_word_ariths)
  then show ?thesis by (simp add: word_less_nat_alt)
qed

lemma Validate_field_next:
  assumes "sorted_wrt (<) (map fd_id (ps @ fd # fs))" and "fd_id fd \<noteq> invalid_field_id"
  shows "Validate_field (ps @ fd # fs) fd (next_required_field (fd # fs) 0) = Inr (next_required_field fs 0)"
proof (cases "md_modifier (fd_metadata fd) = Required")
  case True
  have "fd_id fd < fd_id fd + 1" using assms(2) by (rule less_next_id)
  with assms(1) have "\<forall>f \<in> set (ps @ [fd]). fd_id f < fd_id fd + 1"
    by (auto simp: sorted_wrt_append)
  then have "next_required_field (ps @ fd # fs) (fd_id fd + 1) = next_required_field fs (fd_id fd + 1)"
    using next_required_skip [of "ps @ [fd]" "fd_id fd + 1" fs] by simp
  also have "\<dots> = next_required_field fs 0"
    using assms(1) by (intro next_required_all) (auto simp: sorted_wrt_append intro: less_add1)
  finally show ?thesis using True by (simp add: Validate_field_def next_required_cons)
qed (simp add: Validate_field_def next_required_cons)

section \<open>The view of a conforming object is the object\<close>

lemma view_var_default:
  assumes "field_var (FieldDef fid md mb t) f" and "present True f = [(fid, v)]"
    and "\<And>var. is_basic_type t \<or> var = default_value t \<Longrightarrow> g var = Inr (erase v)"
  shows "view_var (FieldDef fid md mb t) g (default_field (FieldDef fid md mb t)) = Inr (erase_field f)"
  using assms by (cases f; cases t) (auto simp: field_var_def split: if_splits option.splits)

text \<open>One level: the present fields of the object against the fields of the schema\<close>

definition level_exact :: "fdef list \<Rightarrow> bfield list \<Rightarrow> bool" where
  "level_exact fs vs \<longleftrightarrow>
     list_all2 (\<lambda>fd f. \<forall>v \<in> snd ` set (present True f). \<forall>var.
        is_basic_type (fd_type fd) \<or> var = default_value (fd_type fd) \<longrightarrow>
        view_type (fd_type fd) v var = Inr (erase v)) fs vs"

lemma present_cases:
  assumes "field_var (FieldDef fid md mb t) f" "wf_field True f" "exact_fields [FieldDef fid md mb t] [f]"
  obtains v where "present True f = [(fid, v)]" "GetTypeId v = get_type_id t"
    | "present True f = []" "md_modifier md = Optional" "erase_field f = default_field (FieldDef fid md mb t)"
proof (cases f)
  case (Field fid' md' v)
  with assms show ?thesis
    using that shaped_GetTypeId [of t v] by (cases "omit_field True md v") (auto simp: field_var_def omit_field_def)
next
  case (MaybeField fid' md' t' v)
  with assms show ?thesis
    using that shaped_GetTypeId [of t] by (cases v) (auto simp: field_var_def)
qed

text \<open>
  The schema may have fields that the payload's schema does not have: they keep their default values.
\<close>

fun with_defaults :: "(fdef \<Rightarrow> bool) \<Rightarrow> fdef list \<Rightarrow> bfield list \<Rightarrow> bfield list" where
  "with_defaults old (fd # fs) (f # vs) =
     (if old fd then f # with_defaults old fs vs else default_field fd # with_defaults old fs (f # vs))"
| "with_defaults old (fd # fs) [] = default_field fd # with_defaults old fs []"
| "with_defaults old [] vs = []"

lemma with_defaults_all: "length fs = length vs \<Longrightarrow> with_defaults (\<lambda>_. True) fs vs = vs"
  by (induction fs vs rule: list_induct2) simp_all

lemma with_defaults_new: "\<not> old fd \<Longrightarrow> with_defaults old (fd # fs) vs = default_field fd # with_defaults old fs vs"
  by (cases vs) simp_all

lemma view_level_added:
  "sorted_wrt (<) (map fd_id (ps @ fs)) \<Longrightarrow> \<forall>fd \<in> set fs. \<not> old fd \<longrightarrow> md_modifier (fd_metadata fd) \<noteq> Required \<Longrightarrow>
   shaped_fields (filter old fs) vs \<Longrightarrow> wf_fields True vs \<Longrightarrow> exact_fields (filter old fs) vs \<Longrightarrow>
   level_exact (filter old fs) vs \<Longrightarrow>
   view_level (ps @ fs) (view_fields fs) (concat (map (present True) vs)) (default_fields fs)
     (next_required_field fs 0) = Inr (with_defaults old fs (map erase_field vs), invalid_field_id)"
proof (induction fs arbitrary: ps vs)
  case Nil
  then show ?case by (simp add: next_required_field_def)
next
  case (Cons fd fs)
  obtain fid md mb t where fd: "fd = FieldDef fid md mb t" by (cases fd)
  let ?qs = "\<lambda>vs. concat (map (present True) vs)"
  have ids: "\<forall>g \<in> set fs. fid < fd_id g" using Cons.prems(1) fd by (auto simp: sorted_wrt_append)
  have above: "\<forall>q \<in> set (?qs ws). fid < fst q" if "shaped_fields (filter old fs) ws" for ws
  proof
    fix q assume "q \<in> set (?qs ws)"
    then obtain g where "g \<in> set ws" "fst q = field_id g" using present_id by fastforce
    then have "fst q \<in> set (map field_id ws)" by auto
    then show "fid < fst q" using ids shaped_field_ids [OF that] by auto
  qed
  have IH: "view_level (ps @ fd # fs) (view_fields fs) (?qs ws) (default_fields fs) (next_required_field fs 0) =
      Inr (with_defaults old fs (map erase_field ws), invalid_field_id)"
    if "shaped_fields (filter old fs) ws" "wf_fields True ws" "exact_fields (filter old fs) ws"
      "level_exact (filter old fs) ws" for ws
    using Cons.IH [of "ps @ [fd]" ws] Cons.prems(1,2) that by simp
  show ?case
  proof (cases "old fd")
    case False
    then have prems: "shaped_fields (filter old fs) vs" "wf_fields True vs" "exact_fields (filter old fs) vs"
      "level_exact (filter old fs) vs" using Cons.prems by auto
    have "map_of (?qs vs) fid = None" using above [OF prems(1)] by (rule map_of_above)
    moreover have "next_required_field (fd # fs) 0 = next_required_field fs 0"
      using False Cons.prems(2) by (simp add: next_required_cons)
    ultimately show ?thesis using IH [OF prems] False fd by (simp add: with_defaults_new)
  next
    case True
    with Cons.prems(3) obtain f ws where vs: "vs = f # ws" "field_var fd f" "shaped_fields (filter old fs) ws"
      by (auto simp: shaped_fields_iff list_all2_Cons1)
    have views: "\<forall>g \<in> set (view_fields fs). fid < fd_id (fst g)"
      using ids map_fst_view_fields [of fs] by (metis imageI list.set_map)
    have IH: "view_level (ps @ fd # fs) (view_fields fs) (?qs ws) (default_fields fs) (next_required_field fs 0) =
        Inr (with_defaults old fs (map erase_field ws), invalid_field_id)"
      using Cons.prems vs fd True by (intro IH) (auto simp: level_exact_def)
    have valid: "Validate_field (ps @ fd # fs) fd (next_required_field (fd # fs) 0) = Inr (next_required_field fs 0)"
      using Cons.prems(1,5) vs(1) fd True by (intro Validate_field_next) auto
    have "field_var (FieldDef fid md mb t) f" "wf_field True f" "exact_fields [FieldDef fid md mb t] [f]"
      using Cons.prems vs fd True by auto
    then show ?thesis
    proof (cases rule: present_cases)
      case (1 v)
      have "view_var fd (view_type t v) (default_field fd) = Inr (erase_field f)"
        using Cons.prems(6) vs(1,2) 1 fd True unfolding fd
        by (intro view_var_default) (auto simp: level_exact_def)
      with 1 IH valid vs(1) fd True view_level_drop [OF views, of "ps @ fd # fs" v "?qs ws"] show ?thesis
        by (simp add: view_field_def)
    next
      case 2
      have "map_of (?qs ws) fid = None" using above [OF vs(3)] by (rule map_of_above)
      moreover have "next_required_field (fd # fs) 0 = next_required_field fs 0"
        using 2 fd by (simp add: next_required_cons)
      ultimately show ?thesis using 2 IH vs(1) fd True by simp
    qed
  qed
qed

lemma view_level_exact:
  assumes "sorted_wrt (<) (map fd_id fs)" "shaped_fields fs vs" "wf_fields True vs" "exact_fields fs vs" "level_exact fs vs"
  shows "view_level fs (view_fields fs) (concat (map (present True) vs)) (default_fields fs)
    (next_required_field fs 0) = Inr (map erase_field vs, invalid_field_id)"
proof -
  have "length fs = length vs" using assms(2) by (simp add: shaped_fields_iff list_all2_lengthD)
  then show ?thesis
    using view_level_added [of "[]" fs "\<lambda>_. True" vs] assms by (simp add: with_defaults_all)
qed

text \<open>The whole object\<close>

lemma levels_length: "shaped_struct s x \<Longrightarrow> length (levels mo base x) = depth s"
proof (induction s arbitrary: x base rule: depth.induct)
  case (1 md fs)
  then show ?case by (cases x) auto
next
  case (2 md b fs)
  then show ?case by (cases x) (auto split: option.splits)
qed

lemma nested_exact:
  assumes IH: "\<And>y. shaped e y \<Longrightarrow> exact e y \<Longrightarrow> wf_value True y \<Longrightarrow> view_type e y (default_value e) = Inr (erase y)"
    and e: "\<not> is_basic_type e" and X: "X = TList e \<or> X = TNullable e \<or> X = TMap k e"
    and x: "shaped X x" "exact X x" "wf_value True x"
  shows "view_type X x (default_value X) = Inr (erase x)"
proof -
  have "view_container_nested X e (view_type e) x (default_value X) = Inr (erase x)"
    if "X = TList e \<or> X = TNullable e"
    using x that IH
    by (intro view_container_nested_exact) (cases x; auto simp: wf_items_iff list_all_iff)+
  moreover have "view_map (\<lambda>et. et = get_type_id e) k e (view_type e) x (default_value X) = Inr (erase x)"
    if "X = TMap k e"
  proof (rule view_map_exact)
    show "view_type e y (default_value e) = Inr (erase y)"
      if "case x of VMap kt t kvs \<Rightarrow> (z, y) \<in> set kvs | _ \<Rightarrow> False" for z y
      using x \<open>X = TMap k e\<close> that by (cases x) (auto intro!: IH simp: wf_pairs_iff list_all_iff)
  qed (use x that in auto)
  ultimately show ?thesis using X e by (cases e) auto
qed

lemmas nested_container_exact = nested_exact [where X = "TList e" and e = e for e]
  nested_exact [where X = "TNullable e" and e = e for e]
  nested_exact [where X = "TMap k e" and e = e and k = k for k e]

lemma struct_exact:
  assumes "level_exact fs vs" and "schema_sorted_fields fs" "shaped_fields fs vs" "wf_fields True vs" "exact_fields fs vs"
    and "hd L = (concat (map (present True) vs), base)"
  shows "view_read base (view_fields fs) md b L (default_fields fs) = Inr (False, Struct md b (map erase_field vs))"
  using view_level_exact [of fs vs] assms schema_sorted_ids [OF assms(2)]
  by (simp add: view_read_def Validate_struct_def)

lemma view_exact:
  "schema_ok_type t \<Longrightarrow> schema_sorted_type t \<Longrightarrow> shaped t x \<Longrightarrow> exact t x \<Longrightarrow> wf_value True x \<Longrightarrow>
     is_basic_type t \<or> var = default_value t \<Longrightarrow> view_type t x var = Inr (erase x)"
  "schema_ok_fields fs \<Longrightarrow> schema_sorted_fields fs \<Longrightarrow> shaped_fields fs vs \<Longrightarrow> exact_fields fs vs \<Longrightarrow>
     wf_fields True vs \<Longrightarrow> level_exact fs vs"
  "schema_ok s \<Longrightarrow> schema_sorted s \<Longrightarrow> shaped_struct s y \<Longrightarrow> exact_struct s y \<Longrightarrow> wf_struct True y \<Longrightarrow>
     view_struct s base (levels True base y @ L) (default_struct s) = Inr (False, erase_struct y)"
proof (induction t and fs and s arbitrary: x var and vs and y base L
    rule: view_type_view_fields_view_struct.induct)
  case (1 t)
  then show ?case by (simp add: basic_exact)
next
  case 2
  then show ?case by (simp add: view_container_basic_exact del: shaped.simps)
next
  case (3 t)
  then show ?case by (simp add: view_container_basic_exact del: shaped.simps)
next
  case (5 t)
  then show ?case by (simp add: view_container_basic_exact del: shaped.simps)
next
  case (7 t)
  then show ?case by (simp add: view_container_basic_exact del: shaped.simps)
next
  case (8 k t)
  then show ?case
    unfolding view_type.simps
    by (intro view_map_exact) (cases x; auto simp: is_matching_basic_def list_all_iff intro!: basic_exact)+
next
  case (10 s)
  then show ?case by (cases x) (auto dest: "10.IH" [where L = "[]" and base = False])
next
  case (11)
  then show ?case by (simp add: level_exact_def)
next
  case (12 fid md mb t fs)
  then obtain f ws where vs: "vs = f # ws" "field_var (FieldDef fid md mb t) f" "shaped_fields fs ws"
    by (auto simp: shaped_fields_iff list_all2_Cons1)
  have "view_type t v var = Inr (erase v)"
    if "v \<in> snd ` set (present True f)" "is_basic_type t \<or> var = default_value t" for v var
    using that "12.prems" vs by (cases "(True, f)" rule: present.cases)
      (auto intro!: "12.IH" simp: field_var_def split: if_splits)
  moreover have "level_exact fs ws" using "12.IH"(2) "12.prems" vs by simp
  ultimately show ?case using vs(1) by (auto simp: level_exact_def)
next
  case (13 md fs)
  then obtain vs where y: "y = Struct md None vs" by (cases y) auto
  with 13 struct_exact [of fs vs "levels True base y @ L" base md None] show ?case by simp
next
  case (14 md b fs)
  then obtain b0 vs where y: "y = Struct md (Some b0) vs" "shaped_struct b b0"
    by (cases y) (auto split: option.splits)
  let ?L = "(concat (map (present True) vs), base) # L"
  have base: "view_struct b True (levels True True b0 @ ?L) (default_struct b) = Inr (False, erase_struct b0)"
    using "14.IH"(1) [of b0 True ?L] "14.prems" y by simp
  then have "view_struct b True (levels True True b0 @ ?L) (the (base_of (default_struct (Schema md (Some b) fs)))) =
      Inr (False, erase_struct b0)" by simp
  from "14.IH"(2) [OF this refl] "14.prems" y have "level_exact fs vs" by simp
  moreover note base
  moreover have "drop (depth b) (levels True True b0 @ ?L) = ?L" using levels_length [OF y(2)] by simp
  moreover have "view_read base (view_fields fs) md (Some (erase_struct b0)) ?L (default_fields fs) =
      Inr (False, erase_struct y)"
    using "14.prems" y struct_exact [OF \<open>level_exact fs vs\<close>, of ?L base md "Some (erase_struct b0)"] by simp
  ultimately show ?case using y by simp
qed ((simp only: disj_not1 is_basic_type.simps simp_thms, rule nested_container_exact;
     simp del: shaped.simps view_type.simps exact.simps)+)

lemma view_object_exact: "conforms s x \<Longrightarrow> wf_struct True x \<Longrightarrow> view_object s x = Inr (erase_struct x)"
  using view_exact(3) [of s x False "[]"] by (simp add: view_object_def conforms_def)

context tagged_reader
begin

lemma Deserialize_roundtrip:
  assumes "conforms s x" and "wf_struct True x"
  shows "yields erase_struct (Deserialize R s) (fst (enc_struct F False x)) (Inr (erase_struct x))"
  using Deserialize_view [of s x] assms shaped_ordered(3) [of s x] view_object_exact [OF assms]
  by (simp add: conforms_def)

end

section \<open>Structs of an untagged protocol\<close>

text \<open>Without omission of fields every \<open>maybe\<close> field has a value.\<close>

lemma wf_mono:
  "wf_value mo x \<Longrightarrow> wf_value True x" "wf_items mo t xs \<Longrightarrow> wf_items True t xs"
  "wf_pairs mo k t kvs \<Longrightarrow> wf_pairs True k t kvs" "wf_field mo f \<Longrightarrow> wf_field True f"
  "wf_fields mo fs \<Longrightarrow> wf_fields True fs" "wf_struct mo s \<Longrightarrow> wf_struct True s"
  by (induction mo x and mo t xs and mo k t kvs and mo f and mo fs and mo s
      rule: wf_value_wf_items_wf_pairs_wf_field_wf_fields_wf_struct.induct) auto

definition reads_field :: "format \<Rightarrow> fdef \<times> assign \<Rightarrow> bfield \<Rightarrow> bool" where
  "reads_field F h f \<longleftrightarrow> value_ok h \<and>
     (\<forall>var. field_var (fst h) var \<longrightarrow>
        yields erase_field (AssignToVar (fst h) (snd h) var) (fst (enc_field F f)) (Inr (erase_field f)))"

definition erase_fields :: "bfield list \<times> u16 \<Rightarrow> bfield list \<times> u16" where
  "erase_fields = (\<lambda>(vs, r). (map erase_field vs, r))"

locale untagged_reader = encoded_reader R F for R :: Reader and F :: format +
  assumes static: "r_static R"
    and no_omit: "\<not> f_may_omit_fields F"
    and plain_struct: "f_struct F base e = e" and plain_field: "f_field F t fid = []"
    and plain_StructBegin: "decodes (r_ReadStructBegin R base) [] ()"
begin

lemma sp_ReadFields_yields:
  "list_all2 (reads_field F) heads xs \<Longrightarrow> sorted_wrt (<) (map fd_id (ps @ map fst heads)) \<Longrightarrow>
   list_all (\<lambda>h. fd_id (fst h) \<noteq> invalid_field_id) heads \<Longrightarrow> shaped_fields (map fst heads) vars \<Longrightarrow>
   yields erase_fields
     (sp_ReadFields (ps @ map fst heads) heads vars (next_required_field (map fst heads) 0))
     (fst (enc_fields F xs)) (Inr (map erase_field xs, invalid_field_id))"
proof (induction heads arbitrary: ps xs vars)
  case Nil
  then show ?case using yields_ret [of erase_fields "([], invalid_field_id)"]
    by (simp add: erase_fields_def next_required_field_def)
next
  case (Cons h heads)
  obtain fd val where h: "h = (fd, val)" by (cases h)
  from Cons.prems(1) obtain x ys where xs: "xs = x # ys" "reads_field F h x" "list_all2 (reads_field F) heads ys"
    by (auto simp: list_all2_Cons1)
  from Cons.prems(4) h obtain var0 vars0 where vars: "vars = var0 # vars0" "field_var fd var0"
      "shaped_fields (map fst heads) vars0"
    by (auto simp: shaped_fields_iff list_all2_Cons1)
  let ?fs = "ps @ fd # map fst heads" and ?r = "next_required_field (map fst heads) 0"
  have valid: "Validate_field ?fs fd (next_required_field (fd # map fst heads) 0) = Inr ?r"
    using Cons.prems(2,3) h by (intro Validate_field_next) auto
  have val: "yields erase_field (AssignToVar fd val var0) (fst (enc_field F x)) (Inr (erase_field x))"
      "runs 0 (field_var fd) (AssignToVar fd val var0)"
    using xs(2) vars(2) h by (auto simp: reads_field_def value_ok_def intro!: AssignToVar_runs)
  have "yields erase_var (bind (AssignToVar fd val var0) (\<lambda>var. ret (var, ?r))) (fst (enc_field F x))
      (res_bind (Inr (erase_field x)) (\<lambda>var. Inr (var, ?r)))"
    using val by (intro yields_map) auto
  then have field: "yields erase_var (To_Field ?fs fd val var0 (next_required_field (fd # map fst heads) 0))
      (fst (enc_field F x)) (Inr (erase_field x, ?r))"
    by (simp add: To_Field_def valid yields_def lift_res_def bind_def)
  have run: "runs 0 (\<lambda>(v, r). field_var fd v) (To_Field ?fs fd val var0 (next_required_field (fd # map fst heads) 0))"
    using xs(2) vars(2) h by (intro To_Field_runs) (auto simp: reads_field_def value_ok_def)
  have tail: "yields erase_fields (bind (sp_ReadFields ?fs heads vars0 ?r) (\<lambda>(vs, r). ret (v # vs, r)))
      (fst (enc_fields F ys)) (Inr (erase_field v # map erase_field ys, invalid_field_id))" for v
  proof -
    have "yields erase_fields (sp_ReadFields ?fs heads vars0 ?r) (fst (enc_fields F ys))
        (Inr (map erase_field ys, invalid_field_id))"
      using Cons.IH [of ys "ps @ [fd]" vars0] Cons.prems xs(3) vars(3) h by simp
    moreover have "runs 0 (\<lambda>_. True) (sp_ReadFields ?fs heads vars0 ?r)"
      using xs(3) vars(3) by (intro runs_true [OF sp_ReadFields_runs])
        (auto simp: list_all_length list_all2_conv_all_nth reads_field_def)
    ultimately have "yields erase_fields (bind (sp_ReadFields ?fs heads vars0 ?r) (\<lambda>p. ret (v # fst p, snd p)))
        (fst (enc_fields F ys))
        (res_bind (Inr (map erase_field ys, invalid_field_id)) (\<lambda>p. Inr (erase_field v # fst p, snd p)))"
      by (intro yields_map [where P = "\<lambda>_. True" and n = 0]) (auto simp: erase_fields_def)
    then show ?thesis by (simp add: case_prod_unfold)
  qed
  have "yields erase_fields (bind (To_Field ?fs fd val var0 (next_required_field (fd # map fst heads) 0))
        (\<lambda>(v, r). bind (sp_ReadFields ?fs heads vars0 r) (\<lambda>(vs, r). ret (v # vs, r))))
      (fst (enc_field F x) @ fst (enc_fields F ys))
      (res_bind (Inr (erase_field x, ?r)) (\<lambda>(v, r). Inr (v # map erase_field ys, invalid_field_id)))"
    using field run
  proof (rule yields_bind)
    fix p assume "Inr (erase_field x, ?r) = (Inr (erase_var p) :: (bfield \<times> u16) res)"
    then obtain v where "p = (v, ?r)" by (cases p) auto
    with tail [of v] show "yields erase_fields
        (case p of (v, r) \<Rightarrow> bind (sp_ReadFields ?fs heads vars0 r) (\<lambda>(vs, r). ret (v # vs, r)))
        (fst (enc_fields F ys)) (case erase_var p of (v, r) \<Rightarrow> Inr (v # map erase_field ys, invalid_field_id))"
      by simp
  qed
  then show ?case using h xs(1) vars(1) by simp
qed

lemma static_struct_yields:
  assumes "list_all2 (reads_field F) (des_fields R fs) xs" and "schema_sorted_fields fs"
    and "shaped_fields fs xs" "exact_fields fs xs" "shaped_fields fs vars"
  shows "yields erase_done (Read_struct R base (des_fields R fs) md b vars) (fst (enc_fields F xs))
    (Inr (False, Struct md (map_option erase_struct b) (map erase_field xs)))"
proof -
  have ids: "exact_fields fs xs \<Longrightarrow> shaped_fields fs xs \<Longrightarrow> list_all (\<lambda>fd. fd_id fd \<noteq> invalid_field_id) fs" for xs
  proof (induction fs arbitrary: xs)
    case (Cons f fs)
    then show ?case by (cases f; cases xs) auto
  qed simp
  have invalid: "list_all (\<lambda>h. fd_id (fst h) \<noteq> invalid_field_id) (des_fields R fs)"
    using ids [OF assms(4,3)] map_fst_des_fields [of R fs] by (metis (no_types, lifting) list.pred_map list.pred_cong comp_apply)
  have fields: "yields erase_fields (sp_ReadFields fs (des_fields R fs) vars (next_required_field fs 0))
      (fst (enc_fields F xs)) (Inr (map erase_field xs, invalid_field_id))"
    using sp_ReadFields_yields [OF assms(1), of "[]" vars] invalid assms(5) schema_sorted_ids [OF assms(2)] by simp
  have ok: "list_all value_ok (des_fields R fs)"
    using assms(1) by (auto simp: list_all_length list_all2_conv_all_nth reads_field_def)
  have run: "runs 0 (\<lambda>_. True) (sp_ReadFields fs (des_fields R fs) vars (next_required_field fs 0))"
    using ok assms(5) by (intro runs_true [OF sp_ReadFields_runs]) auto
  have rest: "yields erase_done (bind (lift_res (Validate_struct (snd p))) (\<lambda>_. ret (False, Struct md b (fst p)))) []
      (res_bind (Validate_struct (snd p)) (\<lambda>_. Inr (erase_done (False, Struct md b (fst p)))))" for p
    by (intro yields_lift_res yields_ret)
  have "yields erase_done (bind (sp_ReadFields fs (des_fields R fs) vars (next_required_field fs 0)) (\<lambda>p.
      bind (lift_res (Validate_struct (snd p))) (\<lambda>_. ret (False, Struct md b (fst p)))))
      (fst (enc_fields F xs) @ [])
      (res_bind (Inr (map erase_field xs, invalid_field_id)) (\<lambda>p. res_bind (Validate_struct (snd p))
        (\<lambda>_. Inr (False, Struct md (map_option erase_struct b) (fst p)))))"
    using fields run
  proof (rule yields_bind)
    fix p :: "bfield list \<times> u16" assume "(Inr (map erase_field xs, invalid_field_id) :: (bfield list \<times> u16) res) = Inr (erase_fields p)"
    then have "snd p = invalid_field_id" by (simp add: erase_fields_def case_prod_unfold)
    with rest [of p] show "yields erase_done
        (bind (lift_res (Validate_struct (snd p))) (\<lambda>_. ret (False, Struct md b (fst p)))) []
        (res_bind (Validate_struct (snd (erase_fields p)))
          (\<lambda>_. Inr (False, Struct md (map_option erase_struct b) (fst (erase_fields p)))))"
      by (simp add: erase_fields_def erase_done_def case_prod_unfold)
  qed
  then show ?thesis
    using static by (simp add: Read_struct_def ReadFields_def StaticParser_ReadFields_def bind_assoc
        case_prod_unfold Validate_struct_def)
qed

lemma static_nested_yields:
  assumes IH: "\<And>var x. schema_sorted_type e \<Longrightarrow> shaped e var \<Longrightarrow> shaped e x \<Longrightarrow> exact e x \<Longrightarrow> wf_value False x \<Longrightarrow>
      yields erase (des_type R e var) (fst (enc_value F x)) (Inr (erase x))"
    and e: "schema_ok_type e" "\<not> is_basic_type e" "schema_sorted_type e"
    and X: "X = TList e \<or> X = TNullable e \<or> X = TMap k e \<and> is_basic_tag k"
    and x: "shaped X var" "shaped X x" "exact X x" "wf_value False x"
  shows "yields erase (des_type R X var) (fst (enc_value F x)) (Inr (erase x))"
proof -
  have good: "good x"
    using x(2,4) X e wf_mono(1) [OF x(4)] shaped_ordered(1) [of X x] by (auto simp: good_def)
  note run = des_runs(1) [OF refl e(1)]
  have "yields erase (DeserializeContainer_nested R X e (des_type R e) var) (fst (enc_value F x))
      (view_container_nested X e (\<lambda>y v. Inr (erase y)) x (erase var))" if X: "X = TList e \<or> X = TNullable e"
  proof -
    from x(2) X obtain xs where xs: "x = VList (get_type_id e) xs" "list_all (shaped e) xs" "X = TNullable e \<Longrightarrow> length xs \<le> 1"
      by (cases x) auto
    then show ?thesis
      using X e IH x run good
      by (intro DeserializeContainer_nested_yields) (auto simp del: shaped.simps simp: list_all_iff wf_items_iff)
  qed
  moreover have "view_container_nested X e (\<lambda>y v. Inr (erase y)) x (erase var) = Inr (erase x)"
    if "X = TList e \<or> X = TNullable e"
    using view_container_nested_exact [OF x(2) that] by simp
  moreover have "yields erase (DeserializeMap_nested R k e (des_type R e) var) (fst (enc_value F x))
      (view_map (\<lambda>et. et = get_type_id e) k e (\<lambda>y v. Inr (erase y)) x (erase var))"
    if X: "X = TMap k e" "is_basic_tag k"
  proof -
    from x(2) X obtain kvs where kvs: "x = VMap k (get_type_id e) kvs" "list_all (\<lambda>(z, y). basic_of k z \<and> shaped e y) kvs"
      by (cases x) auto
    have el: "yields erase (des_type R e v) (fst (enc_value F y)) (Inr (erase y))" if "(z, y) \<in> set kvs" "shaped e v" for z y v
      using x kvs X that e by (intro IH) (auto simp: list_all_iff wf_pairs_iff)
    show ?thesis
      using kvs X e run good el x
      by (intro DeserializeMap_nested_yields) (auto simp del: shaped.simps)
  qed
  moreover have "view_map (\<lambda>et. et = get_type_id e) k e (\<lambda>y v. Inr (erase y)) x (erase var) = Inr (erase x)"
    if "X = TMap k e"
    using x that by (intro view_map_exact) auto
  ultimately show ?thesis using X e(2) by (cases e) auto
qed

lemmas static_container_yields = static_nested_yields [where X = "TList e" and e = e for e]
  static_nested_yields [where X = "TNullable e" and e = e for e]
  static_nested_yields [where X = "TMap k e" and e = e and k = k for k e]

lemma static_basic_yields:
  assumes "schema_ok_type X" "is_basic_tag e" "shaped X var" "shaped X x" "exact X x" "wf_value False x"
    and X: "(X = TList (TBasic e) \<or> X = TNullable (TBasic e) \<or> X = TSet e) \<or> X = TBlob \<and> e = BT_INT8"
  shows "yields erase (DeserializeContainer_basic R X e var) (fst (enc_value F x)) (Inr (erase x))"
proof -
  have "schema_sorted_type X" using X by auto
  then have "good x" using assms(4,6) wf_mono(1) shaped_ordered(1) by (auto simp: good_def)
  moreover have "GetTypeId x = BT_LIST \<or> GetTypeId x = BT_SET" "fst (payload_items x) = e"
    using X assms(4) by (cases x; auto)+
  ultimately have "yields erase (DeserializeContainer_basic R X e var) (fst (enc_value F x))
      (view_container_basic X e x (erase var))"
    using assms X by (intro DeserializeContainer_basic_yields) auto
  then show ?thesis using view_container_basic_exact [OF assms(4,5), of e "erase var"] X by auto
qed

lemma static_map_yields:
  assumes "is_basic_tag k" "is_basic_tag e" "shaped (TMap k (TBasic e)) x" "exact (TMap k (TBasic e)) x" "wf_value False x"
  shows "yields erase (DeserializeMap_basic R k e var) (fst (enc_value F x)) (Inr (erase x))"
proof -
  have "good x" using assms(3,5) wf_mono(1) shaped_ordered(1) [of "TMap k (TBasic e)"] by (auto simp: good_def)
  then have "yields erase (DeserializeMap_basic R k e var) (fst (enc_value F x))
      (view_map (\<lambda>t. is_matching_basic t e) k (TBasic e) (view_basic e) x (erase var))"
    using assms by (intro DeserializeMap_basic_yields) (auto split: bvalue.splits)
  moreover have "view_map (\<lambda>t. is_matching_basic t e) k (TBasic e) (view_basic e) x (erase var) = Inr (erase x)"
    using assms(3,4)
    by (intro view_map_exact) (cases x; auto simp: is_matching_basic_def list_all_iff intro!: basic_exact)+
  ultimately show ?thesis by simp
qed

lemma static_field_yields:
  assumes "field_var fd f" "schema_ok_fields [fd]" "wf_field False f"
    and val: "\<And>v x. shaped (fd_type fd) v \<Longrightarrow> shaped (fd_type fd) x \<Longrightarrow> f = Field (fd_id fd) (fd_metadata fd) x \<or>
        f = MaybeField (fd_id fd) (fd_metadata fd) (get_type_id (fd_type fd)) (Some x) \<Longrightarrow>
      yields erase (val v) (fst (enc_value F x)) (Inr (erase x))"
    and run: "value_ok (fd, val)"
  shows "reads_field F (fd, val) f"
proof -
  obtain fid md mb t where fd: "fd = FieldDef fid md mb t" by (cases fd)
  from assms(1,3) obtain x where x: "shaped t x"
      "f = Field fid md x \<or> f = MaybeField fid md (get_type_id t) (Some x)" "f = Field fid md x \<longleftrightarrow> \<not> mb"
    using fd by (cases f) (auto simp: field_var_def split: option.splits)
  have enc: "fst (enc_field F f) = fst (enc_value F x)"
    using x(2) no_omit by (auto simp: plain_field omit_field_def)
  have "yields erase_field (AssignToVar fd val var) (fst (enc_value F x)) (view_var fd (\<lambda>_. Inr (erase x)) (erase_field var))"
    if "field_var fd var" for var
    using assms(2) that val x run fd
    by (intro AssignToVar_yields) (auto simp: value_ok_def)
  moreover have "view_var fd (\<lambda>_. Inr (erase x)) (erase_field var) = Inr (erase_field f)" if "field_var fd var" for var
    using that x fd by (cases var) (auto simp: field_var_def)
  ultimately show ?thesis using run enc by (simp add: reads_field_def)
qed

lemma static_aux:
  "R' = R \<Longrightarrow> schema_ok_type t \<Longrightarrow> schema_sorted_type t \<Longrightarrow> shaped t var \<Longrightarrow> shaped t x \<Longrightarrow> exact t x \<Longrightarrow>
     wf_value False x \<Longrightarrow> yields erase (des_type R' t var) (fst (enc_value F x)) (Inr (erase x))"
  "R' = R \<Longrightarrow> schema_ok_fields fs \<Longrightarrow> schema_sorted_fields fs \<Longrightarrow> shaped_fields fs xs \<Longrightarrow> exact_fields fs xs \<Longrightarrow>
     wf_fields False xs \<Longrightarrow> list_all2 (reads_field F) (des_fields R' fs) xs"
  "R' = R \<Longrightarrow> schema_ok s \<Longrightarrow> schema_sorted s \<Longrightarrow> shaped_struct s y \<Longrightarrow> shaped_struct s z \<Longrightarrow> exact_struct s z \<Longrightarrow>
     wf_struct False z \<Longrightarrow> yields erase_done (des_struct R' s base y) (fst (enc_struct F base z)) (Inr (False, erase_struct z))"
proof (induction R' t and R' fs and R' s arbitrary: var x and xs and y z base
    rule: des_type_des_fields_des_struct.induct)
  case (1 R' t)
  then show ?case using Deserialize_basic_yields [of x t var "erase var"] wf_mono(1) [of False x]
    by (auto simp: basic_exact)
next
  case (2 R')
  then show ?case using static_basic_yields [of TBlob BT_INT8 var x] by simp
next
  case (3 R' t)
  then show ?case using static_basic_yields [of "TNullable (TBasic t)" t var x] by simp
next
  case (5 R' t)
  then show ?case using static_basic_yields [of "TList (TBasic t)" t var x] by simp
next
  case (7 R' t)
  then show ?case using static_basic_yields [of "TSet t" t var x] by simp
next
  case (8 R' k t)
  then show ?case using static_map_yields [of k t x var] by simp
next
  case (10 R' s)
  then obtain y z where v: "var = VStruct y" "shaped_struct s y" and z: "x = VStruct z" "shaped_struct s z"
    by (cases var; cases x) auto
  have "yields erase_done (des_struct R' s False y) (fst (enc_struct F False z)) (Inr (False, erase_struct z))"
    using "10.IH" [of y z False] "10.prems" v z by simp
  moreover have "runs 0 (\<lambda>_. True) (des_struct R' s False y)"
    using runs_true [OF des_runs(3) [OF "10.prems"(1) _ v(2)]] "10.prems"(2) by simp
  ultimately have "yields erase (bind (des_struct R' s False y) (\<lambda>p. ret (VStruct (snd p)))) (fst (enc_struct F False z))
      (res_bind (Inr (False, erase_struct z)) (\<lambda>p. Inr (VStruct (snd p))))"
    by (intro yields_map [where P = "\<lambda>_. True" and n = 0]) (auto simp: erase_done_def)
  then show ?case using z v by (simp add: case_prod_unfold)
next
  case (11 R')
  then show ?case by simp
next
  case (12 R' fid md mb t fs)
  then obtain f ws where xs: "xs = f # ws" "field_var (FieldDef fid md mb t) f" "shaped_fields fs ws"
    by (auto simp: shaped_fields_iff list_all2_Cons1)
  have val: "yields erase (des_type R' t v) (fst (enc_value F x)) (Inr (erase x))"
    if "shaped t v" "shaped t x" and f: "f = Field fid md x \<or> f = MaybeField fid md (get_type_id t) (Some x)" for v x
  proof -
    have "exact t x" "wf_value False x" using f "12.prems" xs by auto
    with "12.IH"(1) "12.prems" that(1,2) show ?thesis by simp
  qed
  have "value_ok (FieldDef fid md mb t, des_type R' t)"
    using "12.prems" des_runs(1) [of R' t] by (simp add: value_ok_def)
  moreover have "wf_field False f" "schema_ok_fields [FieldDef fid md mb t]" using "12.prems" xs by auto
  ultimately have "reads_field F (FieldDef fid md mb t, des_type R' t) f"
    using xs(2) val by (intro static_field_yields) auto
  moreover have "list_all2 (reads_field F) (des_fields R' fs) ws" using "12.IH"(2) "12.prems" xs by simp
  ultimately show ?case using xs(1) by simp
next
  case (13 R' md fs)
  then obtain vs ws where y: "y = Struct md None vs" "shaped_fields fs vs" and z: "z = Struct md None ws" "shaped_fields fs ws"
    by (cases y; cases z) auto
  have "yields erase_done (Read_struct R' base (des_fields R' fs) md None vs) (fst (enc_fields F ws))
      (Inr (False, Struct md (map_option erase_struct None) (map erase_field ws)))"
    using 13 y z static_struct_yields [of fs ws vs base md None] by simp
  then show ?case using "13.prems"(1) y z plain_StructBegin
    by (auto simp: plain_struct intro!: yields_header [where bs = "[]", simplified])
next
  case (14 R' md b fs)
  then obtain c vs d ws where y: "y = Struct md (Some c) vs" "shaped_fields fs vs" "shaped_struct b c"
      and z: "z = Struct md (Some d) ws" "shaped_fields fs ws" "shaped_struct b d"
    by (cases y; cases z) (auto split: option.splits)
  have base: "yields erase_done (des_struct R' b True c) (fst (enc_struct F True d)) (Inr (False, erase_struct d))"
    using "14.IH"(1) [of c d True] "14.prems" y z by simp
  have "yields erase_struct (AssignToBase (des_struct R' b True c)) (fst (enc_struct F True d)) (Inr (erase_struct d))"
    using base unfolding AssignToBase_def
    by (auto simp: yields_def gives_def erase_done_def bind_def ret_def)
  moreover have "runs 0 (\<lambda>_. True) (AssignToBase (des_struct R' b True c))"
    unfolding AssignToBase_def using runs_true [OF des_runs(3) [OF "14.prems"(1) _ y(3), of True]] "14.prems"(2)
    by (auto intro!: runs_bind0 [where P = "\<lambda>_. True"] runs_ret runs_throw simp: UnexpectedStructStopException_def)
  ultimately have "yields erase_done (bind (AssignToBase (des_struct R' b True c))
        (\<lambda>b'. Read_struct R' base (des_fields R' fs) md (Some b') vs))
      (fst (enc_struct F True d) @ fst (enc_fields F ws))
      (res_bind (Inr (erase_struct d)) (\<lambda>b'. Inr (False, Struct md (Some b') (map erase_field ws))))"
  proof (rule yields_bind)
    fix b'
    show "yields erase_done (Read_struct R' base (des_fields R' fs) md (Some b') vs) (fst (enc_fields F ws))
        (Inr (False, Struct md (Some (erase_struct b')) (map erase_field ws)))"
      using 14 y z static_struct_yields [of fs ws vs base md "Some b'"] by simp
  qed
  then show ?case using "14.prems"(1) y z plain_StructBegin
    by (auto simp: plain_struct intro!: yields_header [where bs = "[]", simplified])
qed ((hypsubst, rule static_container_yields; simp del: shaped.simps des_type.simps exact.simps)+)

lemma static_Deserialize_roundtrip:
  assumes "conforms s x" and "wf_struct False x"
  shows "yields erase_struct (Deserialize R s) (fst (enc_struct F False x)) (Inr (erase_struct x))"
proof -
  have ok: "schema_ok s" using assms(1) by (simp add: conforms_def)
  have "yields erase_done (des_struct R s False (default_struct s)) (fst (enc_struct F False x)) (Inr (False, erase_struct x))"
    using assms shaped_default(4) [OF ok] by (intro static_aux(3)) (auto simp: conforms_def)
  moreover have "runs 0 (\<lambda>_. True) (des_struct R s False (default_struct s))"
    by (rule runs_true [OF des_runs(3) [OF refl ok shaped_default(4) [OF ok]]])
  ultimately have "yields erase_struct (bind (des_struct R s False (default_struct s)) (\<lambda>p. ret (snd p)))
      (fst (enc_struct F False x)) (res_bind (Inr (False, erase_struct x)) (\<lambda>p. Inr (snd p)))"
    by (intro yields_map [where P = "\<lambda>_. True" and n = 0]) (auto simp: erase_done_def)
  then show ?thesis by (simp add: Deserialize_def case_prod_unfold)
qed

end

interpretation simple: untagged_reader "simple_reader version" "simple_format version" for version
proof unfold_locales
  have size: "decodes (bind (sr_ReadContainerBegin version) (\<lambda>sz. ret (f sz))) (simple_size version n) (f n)" for f :: "u32 \<Rightarrow> 'x" and n
    unfolding sr_ReadContainerBegin_def by (intro decodes_map decodes_sr_ReadSize)
  show "decodes (r_ReadContainerBegin (simple_reader version) t0) (f_container (simple_format version) n t) (n, t)"
    if "r_static (simple_reader version) \<Longrightarrow> t0 = t" for t t0 n
    using that size [of "\<lambda>sz. (sz, t)" n] by (simp add: simple_reader_def simple_format_simps)
  show "decodes (r_ReadContainerBegin2 (simple_reader version) p) (f_container2 (simple_format version) n k t) (n, k, t)"
    if "r_static (simple_reader version) \<Longrightarrow> p = (k, t)" for k t p n
    using that size [of "\<lambda>sz. (sz, k, t)" n] by (simp add: simple_reader_def simple_format_simps)
  show "decodes (r_Skip (simple_reader version) (GetTypeId x)) (fst (enc_value (simple_format version) x)) ()"
    if "r_static (simple_reader version) \<Longrightarrow> is_basic x" "wf_value True x" for x
    using that decodes_sr_Skip [of x True version] by (simp add: simple_reader_def simple_format_simps enc_value_basic)
qed (auto simp: simple_reader_def simple_format_simps decodes_sr_Read yields_read_blob decodes_ret)

end
