(* ===== verification/Static_Skip.thy ===== *)
theory Static_Skip
  imports Roundtrip
begin

text \<open>
  Skipping in Simple Binary: the static parser passes a value by the schema alone, because the
  payload has no type tags. \<open>passes a bs\<close>: wherever the bytes \<open>bs\<close> stand next, the attempt \<open>a\<close>
  succeeds and moves exactly past them.
\<close>

definition passes :: "attempt \<Rightarrow> byte list \<Rightarrow> bool" where
  "passes a bs \<longleftrightarrow> (\<forall>ib rest. ib_at ib (bs @ rest) \<longrightarrow> a ib = (None, ib_adv (length bs) ib))"

lemma passesD: "passes a bs \<Longrightarrow> ib_at ib (bs @ rest) \<Longrightarrow> a ib = (None, ib_adv (length bs) ib)"
  by (auto simp: passes_def)

lemma passes_done: "passes (\<lambda>ib. (None, ib)) []"
  by (simp add: passes_def)

lemma passes_seq:
  assumes "passes a bs" and "passes b bs'"
  shows "passes (attempt_seq a b) (bs @ bs')"
  unfolding passes_def
proof (intro allI impI)
  fix ib rest assume at: "ib_at ib ((bs @ bs') @ rest)"
  then have at: "ib_at ib (bs @ bs' @ rest)" by simp
  with passesD [OF assms(1) at] passesD [OF assms(2) ib_at_adv_append [OF at]]
  show "attempt_seq a b ib = (None, ib_adv (length (bs @ bs')) ib)"
    by (simp add: attempt_seq_def)
qed

lemma passes_size:
  assumes "decodes m bs x" and "passes (f x) bs'"
  shows "passes (attempt_size version m f) (bs @ bs')"
  unfolding passes_def
proof (intro allI impI)
  fix ib rest assume "ib_at ib ((bs @ bs') @ rest)"
  then have at: "ib_at ib (bs @ bs' @ rest)" by simp
  with decodesD [OF assms(1) at] passesD [OF assms(2) ib_at_adv_append [OF at]]
  show "attempt_size version m f ib = (None, ib_adv (length (bs @ bs')) ib)"
    by (simp add: attempt_size_def)
qed

lemma passes_basic: "is_basic x \<Longrightarrow> wf_value True x \<Longrightarrow>
    passes (static_Skip_basic version (GetTypeId x)) (fst (enc_value (simple_format version) x))"
  using passes_size [OF decodes_sr_Skip [of x True version] passes_done]
  by (simp add: static_Skip_basic_def simple_format_simps enc_value_basic)

lemma passes_items:
  "list_all (\<lambda>x. passes a (fst (enc_value F x))) xs \<Longrightarrow>
   passes (attempt_repeat (length xs) a) (fst (enc_items F xs))"
  by (induction xs) (auto intro: passes_done passes_seq)

lemma passes_pairs:
  "list_all (\<lambda>(x, y). passes a (fst (enc_value F x)) \<and> passes b (fst (enc_value F y))) kvs \<Longrightarrow>
   passes (attempt_repeat (length kvs) (attempt_seq a b)) (fst (enc_pairs F kvs))"
proof (induction kvs)
  case (Cons p kvs)
  obtain x y where p: "p = (x, y)" by (cases p)
  with Cons have "passes (attempt_seq (attempt_seq a b) (attempt_repeat (length kvs) (attempt_seq a b)))
      ((fst (enc_value F x) @ fst (enc_value F y)) @ fst (enc_pairs F kvs))"
    by (intro passes_seq) auto
  then show ?case using p by simp
qed (simp add: passes_done)

section \<open>Values\<close>

text \<open>A field that fails leaves the position it has reached, so for fields only the position counts.\<close>

definition moves :: "(InputBuffer \<Rightarrow> InputBuffer) \<Rightarrow> byte list \<Rightarrow> bool" where
  "moves f bs \<longleftrightarrow> (\<forall>ib rest. ib_at ib (bs @ rest) \<longrightarrow> f ib = ib_adv (length bs) ib)"

lemma moves_id: "moves (\<lambda>ib. ib) []"
  by (simp add: moves_def)

lemma moves_comp:
  assumes "moves f bs" and "moves g bs'"
  shows "moves (\<lambda>ib. g (f ib)) (bs @ bs')"
  unfolding moves_def
proof (intro allI impI)
  fix ib rest assume "ib_at ib ((bs @ bs') @ rest)"
  then have at: "ib_at ib (bs @ bs' @ rest)" by simp
  with assms ib_at_adv_append [OF at] show "g (f ib) = ib_adv (length (bs @ bs')) ib"
    by (fastforce simp: moves_def)
qed

lemma passes_moves: "passes a bs \<Longrightarrow> moves (\<lambda>ib. snd (a ib)) bs"
  by (simp add: passes_def moves_def)

lemma moves_passes: "moves f bs \<Longrightarrow> passes (\<lambda>ib. (None, f ib)) bs"
  by (simp add: passes_def moves_def)

lemma decodes_container: "decodes (sr_ReadContainerBegin version) (simple_size version n) n"
  unfolding sr_ReadContainerBegin_def by (rule decodes_sr_ReadSize)

lemma passes_container:
  assumes "list_all (\<lambda>x. passes el (fst (enc_value F x))) xs" and "length xs < 2 ^ 32"
  shows "passes (SkipContainer version el) (simple_size version (of_nat (length xs)) @ fst (enc_items F xs))"
  unfolding SkipContainer_def
  by (rule passes_size [OF decodes_container])
    (use passes_items [OF assms(1)] assms(2) in \<open>simp add: unat_of_nat_small\<close>)

lemma passes_map:
  assumes "list_all (\<lambda>(x, y). passes (static_Skip_basic version k) (fst (enc_value F x)) \<and> passes el (fst (enc_value F y))) kvs"
    and "length kvs < 2 ^ 32"
  shows "passes (SkipMap version k el) (simple_size version (of_nat (length kvs)) @ fst (enc_pairs F kvs))"
  unfolding SkipMap_def
  by (rule passes_size [OF decodes_container])
    (use passes_pairs [OF assms(1)] assms(2) in \<open>simp add: unat_of_nat_small\<close>)

lemma passes_blob:
  assumes "blob_wf b"
  shows "passes (SkipContainer version (static_Skip_basic version BT_INT8))
    (simple_size version (blob_length b) @ blob_bytes b)"
proof -
  have "fst (enc_items (simple_format version) (map VInt8 bs)) = bs" for bs
    by (induction bs) (simp_all add: simple_format_simps)
  moreover have "of_nat (length (blob_bytes b)) = blob_length b" "length (blob_bytes b) < 2 ^ 32"
    using assms unat_u32_bound [of "blob_length b"] by (simp_all add: blob_wf_def)
  moreover have "passes (static_Skip_basic version BT_INT8) (fst (enc_value (simple_format version) (VInt8 c)))" for c
    using passes_basic [of "VInt8 c" version] by simp
  ultimately show ?thesis
    using passes_container [of "static_Skip_basic version BT_INT8" "simple_format version" "map VInt8 (blob_bytes b)" version]
    by (simp add: list_all_iff)
qed

lemma passes_basic_of:
  "basic_of t x \<Longrightarrow> wf_value False x \<Longrightarrow>
   passes (static_Skip_basic version t) (fst (enc_value (simple_format version) x))"
  by (metis passes_basic wf_mono(1))

lemma static_Skip_passes:
  "shaped t x \<Longrightarrow> wf_value False x \<Longrightarrow> passes (static_Skip version t) (fst (enc_value (simple_format version) x))"
  "shaped_fields fs vs \<Longrightarrow> wf_fields False vs \<Longrightarrow>
     moves (static_SkipFields version fs) (fst (enc_fields (simple_format version) vs))"
  "shaped_struct s y \<Longrightarrow> wf_struct False y \<Longrightarrow>
     moves (static_SkipStruct version s) (fst (enc_struct (simple_format version) base y))"
proof (induction version t and version fs and version s arbitrary: x and vs and y base
    rule: static_Skip_static_SkipFields_static_SkipStruct.induct)
  case (1 version t)
  then show ?case using passes_basic_of [where t = t] by (simp add: shaped_TBasic)
next
  case (2 version)
  then show ?case using passes_blob by (cases x) (simp_all add: simple_format_simps)
next
  case (3 version e)
  then show ?case
    using passes_container [of "static_Skip version e" "simple_format version"]
    by (cases x) (auto simp: simple_format_simps wf_items_iff list_all_iff)
next
  case (4 version e)
  then show ?case
    using passes_container [of "static_Skip version e" "simple_format version"]
    by (cases x) (auto simp: simple_format_simps wf_items_iff list_all_iff)
next
  case (5 version t)
  then show ?case
    using passes_container [of "static_Skip_basic version t" "simple_format version"] passes_basic_of [where t = t]
    by (cases x) (auto simp: simple_format_simps wf_items_iff list_all_iff)
next
  case (6 version k e)
  then obtain kvs where x: "x = VMap k (get_type_id e) kvs" "length kvs < 2 ^ 32"
      "list_all (\<lambda>(x, y). basic_of k x \<and> shaped e y \<and> wf_value False x \<and> wf_value False y) kvs"
    by (cases x) (auto simp: wf_pairs_iff list_all_iff case_prod_unfold)
  have "list_all (\<lambda>(x, y). passes (static_Skip_basic version k) (fst (enc_value (simple_format version) x)) \<and>
      passes (static_Skip version e) (fst (enc_value (simple_format version) y))) kvs"
    using x(3)
  proof (rule list.pred_mono_strong)
    fix p assume "case p of (x, y) \<Rightarrow> basic_of k x \<and> shaped e y \<and> wf_value False x \<and> wf_value False y"
    then show "case p of (x, y) \<Rightarrow> passes (static_Skip_basic version k) (fst (enc_value (simple_format version) x)) \<and>
        passes (static_Skip version e) (fst (enc_value (simple_format version) y))"
      using "6.IH" passes_basic_of [of _ k] by (simp add: case_prod_unfold)
  qed
  from passes_map [OF this x(2)] x(1) show ?case by (simp add: simple_format_simps)
next
  case (7 version s)
  then show ?case by (cases x) (auto intro: moves_passes)
next
  case (8 version)
  then show ?case by (simp add: moves_id)
next
  case (9 version fid md mb t fs)
  then obtain f ws where vs: "vs = f # ws" "field_var (FieldDef fid md mb t) f" "shaped_fields fs ws"
    by (auto simp: shaped_fields_iff list_all2_Cons1)
  then obtain x where x: "shaped t x" "wf_value False x"
      "fst (enc_field (simple_format version) f) = fst (enc_value (simple_format version) x)"
    using "9.prems" by (cases f) (auto simp: field_var_def omit_field_def simple_format_simps split: option.splits)
  have "moves (\<lambda>ib. static_SkipFields version fs (snd (static_Skip version t ib)))
      (fst (enc_value (simple_format version) x) @ fst (enc_fields (simple_format version) ws))"
    using passes_moves [OF "9.IH"(2) [OF x(1,2)]] "9.IH"(1) [OF vs(3)] "9.prems" vs(1) by (intro moves_comp) auto
  then show ?case using vs(1) x(3) by simp
next
  case (10 version md fs)
  then show ?case by (cases y) (auto simp: simple_format_simps)
next
  case (11 version md b fs)
  then obtain c vs where y: "y = Struct md (Some c) vs" "shaped_struct b c" "shaped_fields fs vs"
    by (cases y) (auto split: option.splits)
  have "moves (\<lambda>ib. static_SkipFields version fs (static_SkipStruct version b ib))
      (fst (enc_struct (simple_format version) True c) @ fst (enc_fields (simple_format version) vs))"
    by (rule moves_comp) (use 11 y in auto)
  then show ?case using y(1) by (simp add: simple_format_simps)
qed

lemma sr_SkipValue_encoded:
  assumes "shaped t x" and "wf_value False x" and "ib_at ib (fst (enc_value (simple_format version) x) @ rest)"
  shows "sr_SkipValue version t ib = Inr ((), ib_adv (length (fst (enc_value (simple_format version) x))) ib)"
  using passesD [OF static_Skip_passes(1) [OF assms(1,2)] assms(3)] by (simp add: sr_SkipValue_def)

end
