(* ===== verification/Runtime_Schema.thy ===== *)
theory Runtime_Schema
  imports Bond_Schema
begin

text \<open>
  Run-time schemas: \<open>SchemaDef\<close> and its parts (\<^verbatim>\<open>src/idl/bond/core/bond.bond\<close>), the class
  \<open>RuntimeSchema\<close> and the transform \<open>InitSchemaDef\<close> that makes the run-time schema of a compile-time
  one (\<^verbatim>\<open>src/cpp/inc/bond/core/schema.h\<close>). A \<open>RuntimeSchema\<close> refers to a type of a schema by
  pointers; the model has the schema and the type themselves. Structs are identified by their index
  in the schema, so recursive structs are cycles. \<open>rep_type\<close> says that a type of a run-time schema is
  a compile-time type.
\<close>

section \<open>The data\<close>

datatype TypeDef = TypeDef
  (td_id: BondDataType) (td_struct_def: u16) (td_element: "TypeDef option") (td_key: "TypeDef option")
  (td_bonded_type: bool)

record RFieldDef =
  rf_metadata :: Metadata
  rf_id :: u16
  rf_type :: TypeDef

record StructDef =
  st_metadata :: Metadata
  st_base_def :: "TypeDef option"
  st_fields :: "RFieldDef list"

record SchemaDef =
  sd_structs :: "StructDef list"
  sd_root :: TypeDef

record RuntimeSchema =
  rs_schema :: SchemaDef
  rs_type :: TypeDef

definition RuntimeSchema_of :: "SchemaDef \<Rightarrow> RuntimeSchema" where
  "RuntimeSchema_of s = \<lparr>rs_schema = s, rs_type = sd_root s\<rparr>"

definition RuntimeSchema_type :: "RuntimeSchema \<Rightarrow> TypeDef \<Rightarrow> RuntimeSchema" where
  "RuntimeSchema_type rs t = rs\<lparr>rs_type := t\<rparr>"

definition RuntimeSchema_field :: "RuntimeSchema \<Rightarrow> RFieldDef \<Rightarrow> RuntimeSchema" where
  "RuntimeSchema_field rs f = rs\<lparr>rs_type := rf_type f\<rparr>"

abbreviation rs_GetTypeId :: "RuntimeSchema \<Rightarrow> BondDataType" where
  "rs_GetTypeId rs \<equiv> td_id (rs_type rs)"

definition GetStruct :: "RuntimeSchema \<Rightarrow> StructDef res" where
  "GetStruct rs =
     (let i = unat (td_struct_def (rs_type rs)); ss = sd_structs (rs_schema rs)
      in if i < length ss then Inr (ss ! i) else Inl OutOfBounds)"

definition HasBase :: "RuntimeSchema \<Rightarrow> bool res" where
  "HasBase rs = res_bind (GetStruct rs) (\<lambda>s. Inr (st_base_def s \<noteq> None))"

definition GetBaseSchema :: "RuntimeSchema \<Rightarrow> RuntimeSchema res" where
  "GetBaseSchema rs =
     res_bind (GetStruct rs) (\<lambda>s. case st_base_def s of
         None \<Rightarrow> Inl OutOfBounds
       | Some b \<Rightarrow> Inr (RuntimeSchema_type rs b))"

text \<open>
  The recursion of \<open>schema_depth\<close> along the bases has no end if they form a cycle; a chain without
  a cycle is not longer than the list of structs, the fuel of the model.
\<close>

fun schema_depth_from :: "nat \<Rightarrow> RuntimeSchema \<Rightarrow> u16 res" where
  "schema_depth_from 0 rs = Inl OutOfFuel"
| "schema_depth_from (Suc n) rs =
     res_bind (HasBase rs) (\<lambda>has.
       if has
       then res_bind (GetBaseSchema rs) (\<lambda>b. res_bind (schema_depth_from n b) (\<lambda>d. Inr (1 + d)))
       else Inr 1)"

definition schema_depth :: "RuntimeSchema \<Rightarrow> u16 res" where
  "schema_depth rs = schema_depth_from (length (sd_structs (rs_schema rs))) rs"

section \<open>The schema of a compile-time type\<close>

fun qualified_name :: "sschema \<Rightarrow> string" where
  "qualified_name (Schema md b fs) = md_qualified_name md"

text \<open>\<open>std::find_if\<close> over the structs that are there\<close>

definition find_struct :: "string \<Rightarrow> StructDef list \<Rightarrow> nat" where
  "find_struct name ss = length (takeWhile (\<lambda>d. md_qualified_name (st_metadata d) \<noteq> name) ss)"

abbreviation simple_td :: "BondDataType \<Rightarrow> TypeDef" where
  "simple_td t \<equiv> TypeDef t 0 None None False"

abbreviation struct_td :: "u16 \<Rightarrow> TypeDef" where
  "struct_td i \<equiv> TypeDef BT_STRUCT i None None False"

definition set_base :: "nat \<Rightarrow> TypeDef \<Rightarrow> StructDef list \<Rightarrow> StructDef list" where
  "set_base n t ss = ss[n := (ss ! n)\<lparr>st_base_def := Some t\<rparr>]"

definition push_field :: "nat \<Rightarrow> RFieldDef \<Rightarrow> StructDef list \<Rightarrow> StructDef list" where
  "push_field n f ss = ss[n := (ss ! n)\<lparr>st_fields := st_fields (ss ! n) @ [f]\<rparr>]"

text \<open>
  \<open>GetTypeDef\<close> returns the definition of a type and the structs of the schema, to which it may have
  appended; \<open>AppendStructDef\<close> applies the transform: it begins the struct at the end of the list, and
  each field is appended to it when its type is complete. A struct is looked up by its name.
\<close>

function (sequential) GetTypeDef :: "btype \<Rightarrow> StructDef list \<Rightarrow> TypeDef \<times> StructDef list"
  and InitFields :: "nat \<Rightarrow> fdef list \<Rightarrow> StructDef list \<Rightarrow> StructDef list"
  and AppendStructDef :: "sschema \<Rightarrow> StructDef list \<Rightarrow> StructDef list" where
  "GetTypeDef (TBasic t) ss = (simple_td t, ss)"
| "GetTypeDef TBlob ss = (TypeDef BT_LIST 0 (Some (simple_td BT_INT8)) None False, ss)"
| "GetTypeDef (TNullable e) ss =
     (let (t, ss) = GetTypeDef e ss in (TypeDef BT_LIST 0 (Some t) None False, ss))"
| "GetTypeDef (TList e) ss =
     (let (t, ss) = GetTypeDef e ss in (TypeDef BT_LIST 0 (Some t) None False, ss))"
| "GetTypeDef (TSet t) ss = (TypeDef BT_SET 0 (Some (simple_td t)) None False, ss)"
| "GetTypeDef (TMap k e) ss =
     (let (t, ss) = GetTypeDef e ss in (TypeDef BT_MAP 0 (Some t) (Some (simple_td k)) False, ss))"
| "GetTypeDef (TStruct s) ss =
     (let i = find_struct (qualified_name s) ss
      in (struct_td (of_nat i), if i = length ss then AppendStructDef s ss else ss))"
| "InitFields n [] ss = ss"
| "InitFields n (FieldDef fid md mb t # fs) ss =
     (let (td, ss) = GetTypeDef t ss
      in InitFields n fs (push_field n \<lparr>rf_metadata = md, rf_id = fid, rf_type = td\<rparr> ss))"
| "AppendStructDef (Schema md None fs) ss =
     InitFields (length ss) fs (ss @ [\<lparr>st_metadata = md, st_base_def = None, st_fields = []\<rparr>])"
| "AppendStructDef (Schema md (Some b) fs) ss =
     (let n = length ss;
          ss = ss @ [\<lparr>st_metadata = md, st_base_def = None, st_fields = []\<rparr>];
          i = find_struct (qualified_name b) ss;
          ss = (if i = length ss then AppendStructDef b ss else ss)
      in InitFields n fs (set_base n (struct_td (of_nat i)) ss))"
  by pat_completeness auto
termination
  by (relation "measure (case_sum (\<lambda>(t, ss). size t)
      (case_sum (\<lambda>(n, fs, ss). size_list size fs) (\<lambda>(s, ss). size s)))") auto

definition GetRuntimeSchema :: "sschema \<Rightarrow> RuntimeSchema" where
  "GetRuntimeSchema s =
     RuntimeSchema_of \<lparr>sd_structs = AppendStructDef s [], sd_root = struct_td 0\<rparr>"

section \<open>Representation\<close>

text \<open>The complete structs of a schema, by index\<close>

type_synonym structs = "nat \<Rightarrow> StructDef option"

definition structs_of :: "StructDef list \<Rightarrow> structs" where
  "structs_of ss i = (if i < length ss then Some (ss ! i) else None)"

function (sequential) rep_type :: "structs \<Rightarrow> TypeDef \<Rightarrow> btype \<Rightarrow> bool"
  and rep_fields :: "structs \<Rightarrow> RFieldDef list \<Rightarrow> fdef list \<Rightarrow> bool"
  and rep_struct :: "structs \<Rightarrow> nat \<Rightarrow> sschema \<Rightarrow> bool" where
  "rep_type m td (TBasic t) = (td = simple_td t)"
| "rep_type m td TBlob = (td = TypeDef BT_LIST 0 (Some (simple_td BT_INT8)) None False)"
| "rep_type m td (TNullable e) =
     (case td_element td of Some te \<Rightarrow> td = TypeDef BT_LIST 0 (Some te) None False \<and> rep_type m te e | None \<Rightarrow> False)"
| "rep_type m td (TList e) =
     (case td_element td of Some te \<Rightarrow> td = TypeDef BT_LIST 0 (Some te) None False \<and> rep_type m te e | None \<Rightarrow> False)"
| "rep_type m td (TSet t) = (td = TypeDef BT_SET 0 (Some (simple_td t)) None False)"
| "rep_type m td (TMap k e) =
     (case td_element td of Some te \<Rightarrow>
        td = TypeDef BT_MAP 0 (Some te) (Some (simple_td k)) False \<and> rep_type m te e | None \<Rightarrow> False)"
| "rep_type m td (TStruct s) =
     (td = struct_td (td_struct_def td) \<and> rep_struct m (unat (td_struct_def td)) s)"
| "rep_fields m rfs [] = (rfs = [])"
| "rep_fields m rfs (FieldDef fid md mb t # fs) =
     (case rfs of [] \<Rightarrow> False
      | f # rfs \<Rightarrow> rf_id f = fid \<and> rf_metadata f = md \<and> rep_type m (rf_type f) t \<and> rep_fields m rfs fs)"
| "rep_struct m i (Schema md None fs) =
     (case m i of None \<Rightarrow> False
      | Some d \<Rightarrow> st_metadata d = md \<and> st_base_def d = None \<and> rep_fields m (st_fields d) fs)"
| "rep_struct m i (Schema md (Some b) fs) =
     (case m i of None \<Rightarrow> False
      | Some d \<Rightarrow> st_metadata d = md \<and> rep_fields m (st_fields d) fs \<and>
          (case st_base_def d of None \<Rightarrow> False
           | Some t \<Rightarrow> t = struct_td (td_struct_def t) \<and> rep_struct m (unat (td_struct_def t)) b))"
  by pat_completeness auto
termination
  by (relation "measure (case_sum (\<lambda>(m, td, t). size t)
      (case_sum (\<lambda>(m, rfs, fs). size_list size fs) (\<lambda>(m, i, s). size s)))") auto

definition represents :: "RuntimeSchema \<Rightarrow> sschema \<Rightarrow> bool" where
  "represents rs s \<longleftrightarrow> rep_type (structs_of (sd_structs (rs_schema rs))) (rs_type rs) (TStruct s)"

lemma map_leD: "m \<subseteq>\<^sub>m m' \<Longrightarrow> m i = Some d \<Longrightarrow> m' i = Some d"
  by (auto simp: map_le_def dom_def)

lemma rep_mono:
  "m \<subseteq>\<^sub>m m' \<Longrightarrow> rep_type m td t \<Longrightarrow> rep_type m' td t"
  "m \<subseteq>\<^sub>m m' \<Longrightarrow> rep_fields m rfs fs \<Longrightarrow> rep_fields m' rfs fs"
  "m \<subseteq>\<^sub>m m' \<Longrightarrow> rep_struct m i s \<Longrightarrow> rep_struct m' i s"
proof (induction m td t and m rfs fs and m i s rule: rep_type_rep_fields_rep_struct.induct)
  case (10 m i md fs)
  then obtain d where "m i = Some d" by (auto split: option.splits)
  with 10 map_leD [of m m' i d] show ?case by simp
next
  case (11 m i md b fs)
  then obtain d where d: "m i = Some d" by (auto split: option.splits)
  then obtain t where t: "st_base_def d = Some t" using "11.prems" by (cases "st_base_def d") auto
  from d t 11 map_leD [of m m' i d] show ?case by simp
qed (auto split: option.splits list.splits)

section \<open>The run-time schema represents the compile-time schema\<close>

text \<open>The structs of a schema; a name must stand for one struct only.\<close>

function (sequential) structs_in_type :: "btype \<Rightarrow> sschema list"
  and structs_in_fields :: "fdef list \<Rightarrow> sschema list"
  and structs_in :: "sschema \<Rightarrow> sschema list" where
  "structs_in_type (TNullable e) = structs_in_type e"
| "structs_in_type (TList e) = structs_in_type e"
| "structs_in_type (TMap k e) = structs_in_type e"
| "structs_in_type (TStruct s) = structs_in s"
| "structs_in_type t = []"
| "structs_in_fields [] = []"
| "structs_in_fields (FieldDef fid md mb t # fs) = structs_in_type t @ structs_in_fields fs"
| "structs_in (Schema md None fs) = Schema md None fs # structs_in_fields fs"
| "structs_in (Schema md (Some b) fs) = Schema md (Some b) fs # structs_in b @ structs_in_fields fs"
  by pat_completeness auto
termination
  by (relation "measure (case_sum size (case_sum (size_list size) size))") auto

definition names_ok :: "sschema \<Rightarrow> bool" where
  "names_ok s \<longleftrightarrow> inj_on qualified_name (set (structs_in s)) \<and> length (structs_in s) < 2 ^ 16"

lemma structs_in_self: "s \<in> set (structs_in s)"
proof (cases s)
  case (Schema md b fs)
  then show ?thesis by (cases b) simp_all
qed

text \<open>The structs that are not in progress, when those with the indices in \<open>A\<close> are\<close>

definition finished :: "nat set \<Rightarrow> StructDef list \<Rightarrow> structs" where
  "finished A ss i = (if i < length ss \<and> i \<notin> A then Some (ss ! i) else None)"

definition struct_name :: "StructDef list \<Rightarrow> nat \<Rightarrow> string" where
  "struct_name ss i = md_qualified_name (st_metadata (ss ! i))"

definition init_inv :: "sschema set \<Rightarrow> nat set \<Rightarrow> StructDef list \<Rightarrow> bool" where
  "init_inv U A ss \<longleftrightarrow>
     (\<forall>i < length ss. i \<notin> A \<longrightarrow> (\<exists>s \<in> U. struct_name ss i = qualified_name s \<and> rep_struct (finished A ss) i s))"

text \<open>A struct in progress has a larger schema than what is being added.\<close>

definition pending :: "sschema set \<Rightarrow> nat set \<Rightarrow> nat \<Rightarrow> StructDef list \<Rightarrow> bool" where
  "pending U A k ss \<longleftrightarrow>
     (\<forall>i \<in> A. i < length ss \<and> (\<exists>s \<in> U. struct_name ss i = qualified_name s \<and> k < size s))"

definition extends :: "StructDef list \<Rightarrow> StructDef list \<Rightarrow> bool" where
  "extends ss ss' \<longleftrightarrow> length ss \<le> length ss' \<and> (\<forall>i < length ss. ss' ! i = ss ! i)"

lemma extends_refl [simp]: "extends ss ss"
  by (simp add: extends_def)

lemma extends_trans: "extends a b \<Longrightarrow> extends b c \<Longrightarrow> extends a c"
  by (simp add: extends_def)

lemma extends_finished: "extends ss ss' \<Longrightarrow> finished A ss \<subseteq>\<^sub>m finished A ss'"
  by (auto simp: extends_def finished_def map_le_def dom_def)

lemma extends_pending: "pending U A k ss \<Longrightarrow> extends ss ss' \<Longrightarrow> pending U A k ss'"
  by (fastforce simp: pending_def extends_def struct_name_def)

lemma pending_mono: "pending U A k ss \<Longrightarrow> k' \<le> k \<Longrightarrow> pending U A k' ss"
  by (fastforce simp: pending_def)

lemma find_struct_found: "find_struct name ss < length ss \<Longrightarrow> struct_name ss (find_struct name ss) = name"
  unfolding find_struct_def struct_name_def
  by (metis (mono_tags, lifting) nth_length_takeWhile)

lemma find_struct_le: "find_struct name ss \<le> length ss"
  by (simp add: find_struct_def length_takeWhile_le)

text \<open>A struct that is found by its name is complete, and it is the one looked for.\<close>

lemma found_rep:
  assumes "inj_on qualified_name U" and "s \<in> U" and "init_inv U A ss" and "pending U A k ss" and "size s \<le> k"
    and "find_struct (qualified_name s) ss < length ss"
  shows "rep_struct (finished A ss) (find_struct (qualified_name s) ss) s"
proof -
  let ?i = "find_struct (qualified_name s) ss"
  have name: "struct_name ss ?i = qualified_name s" by (rule find_struct_found [OF assms(6)])
  have "?i \<notin> A"
  proof
    assume "?i \<in> A"
    then obtain u where "u \<in> U" "qualified_name s = qualified_name u" "k < size u"
      using assms(4) name by (auto simp: pending_def)
    moreover have "s = u" using calculation(2) by (rule inj_onD [OF assms(1)]) (use assms(2) calculation(1) in auto)
    ultimately show False using assms(5) by simp
  qed
  with assms(3,6) name obtain u where "u \<in> U" "qualified_name s = qualified_name u" "rep_struct (finished A ss) ?i u"
    by (auto simp: init_inv_def)
  moreover have "s = u" using calculation(2) by (rule inj_onD [OF assms(1)]) (use assms(2) calculation(1) in auto)
  ultimately show ?thesis by simp
qed

text \<open>Updating a struct in progress does not change the finished ones.\<close>

lemma finished_update [simp]: "n \<in> A \<Longrightarrow> finished A (ss[n := d]) = finished A ss"
  by (rule ext) (metis finished_def length_list_update nth_list_update_neq)

lemma struct_name_update [simp]: "st_metadata d = st_metadata (ss ! n) \<Longrightarrow> struct_name (ss[n := d]) i = struct_name ss i"
  by (cases "i = n"; cases "n < length ss") (auto simp: struct_name_def list_update_beyond)

lemma update_inv:
  assumes "n \<in> A" and "st_metadata d = st_metadata (ss ! n)"
  shows "init_inv U A (ss[n := d]) = init_inv U A ss" "pending U A k (ss[n := d]) = pending U A k ss"
  using assms by (simp_all add: init_inv_def pending_def)

lemma finish_struct:
  assumes "init_inv U (insert n A) ss" and "s \<in> U" "struct_name ss n = qualified_name s"
    and "rep_struct (finished A ss) n s"
  shows "init_inv U A ss"
  unfolding init_inv_def
proof (intro allI impI)
  fix i assume i: "i < length ss" "i \<notin> A"
  show "\<exists>s \<in> U. struct_name ss i = qualified_name s \<and> rep_struct (finished A ss) i s"
  proof (cases "i = n")
    case True
    with assms show ?thesis by auto
  next
    case False
    have "finished (insert n A) ss \<subseteq>\<^sub>m finished A ss" by (auto simp: finished_def map_le_def dom_def)
    with assms(1) i False rep_mono(3) show ?thesis by (fastforce simp: init_inv_def)
  qed
qed

text \<open>A struct in progress is appended.\<close>

lemma begin_struct:
  assumes "init_inv U A ss" "pending U A k ss" "s \<in> U" "md_qualified_name (st_metadata d) = qualified_name s" "k' < size s" "k' \<le> k"
  shows "init_inv U (insert (length ss) A) (ss @ [d])" "pending U (insert (length ss) A) k' (ss @ [d])"
proof -
  have less: "i \<in> A \<Longrightarrow> i < length ss" for i using assms(2) by (simp add: pending_def)
  have "finished (insert (length ss) A) (ss @ [d]) = finished A ss"
    by (auto simp: finished_def fun_eq_iff nth_append)
  with assms(1) show "init_inv U (insert (length ss) A) (ss @ [d])"
    by (auto simp: init_inv_def struct_name_def nth_append less_Suc_eq)
  show "pending U (insert (length ss) A) k' (ss @ [d])"
    using assms less by (fastforce simp: pending_def struct_name_def nth_append)
qed

definition appended :: "sschema set \<Rightarrow> nat set \<Rightarrow> nat \<Rightarrow> StructDef list \<Rightarrow> StructDef list \<Rightarrow> bool" where
  "appended U A n ss ss' \<longleftrightarrow> init_inv U A ss' \<and> extends ss ss' \<and> length ss' \<le> length ss + n"

lemma found_or_appended:
  assumes inv: "inj_on qualified_name U" "set (structs_in s) \<subseteq> U" "init_inv U A ss" "pending U A (size s) ss"
      "length ss + length (structs_in s) < 2 ^ 16"
    and i: "i = find_struct (qualified_name s) ss" and ss': "ss' = (if i = length ss then AppendStructDef s ss else ss)"
    and append: "i = length ss \<Longrightarrow> appended U A (length (structs_in s)) ss (AppendStructDef s ss) \<and>
      rep_struct (finished A (AppendStructDef s ss)) (length ss) s"
  shows "appended U A (length (structs_in s)) ss ss'" "rep_struct (finished A ss') (unat (of_nat i :: u16)) s"
proof -
  have "i < 2 ^ 16" using i inv(5) find_struct_le [of "qualified_name s" ss] by simp
  then have u: "unat (of_nat i :: u16) = i" by (simp add: unat_of_nat)
  have "s \<in> U" using inv(2) structs_in_self by blast
  have "appended U A (length (structs_in s)) ss ss' \<and> rep_struct (finished A ss') i s"
  proof (cases "i = length ss")
    case True
    with append ss' show ?thesis by simp
  next
    case False
    then have "i < length ss" using i find_struct_le [of "qualified_name s" ss] by simp
    with found_rep [OF inv(1) \<open>s \<in> U\<close> inv(3,4)] i ss' False inv(3) show ?thesis by (simp add: appended_def)
  qed
  then show "appended U A (length (structs_in s)) ss ss'" "rep_struct (finished A ss') (unat (of_nat i :: u16)) s"
    using u by auto
qed

definition fields_added :: "sschema set \<Rightarrow> nat set \<Rightarrow> nat \<Rightarrow> fdef list \<Rightarrow> StructDef list \<Rightarrow> StructDef list \<Rightarrow> bool" where
  "fields_added U A n fs ss ss' \<longleftrightarrow>
     init_inv U A ss' \<and> length ss \<le> length ss' \<and> length ss' \<le> length ss + length (structs_in_fields fs) \<and>
     (\<forall>i < length ss. i \<noteq> n \<longrightarrow> ss' ! i = ss ! i) \<and>
     (\<exists>rfs. ss' ! n = (ss ! n)\<lparr>st_fields := st_fields (ss ! n) @ rfs\<rparr> \<and> rep_fields (finished A ss') rfs fs)"

text \<open>When its fields are added, the struct at the end of the list is complete.\<close>

lemma struct_complete:
  assumes added: "fields_added U (insert (length ss) A) (length ss) fs ss1 ss'"
    and ss1: "extends ss ss1" "length ss < length ss1" "length ss1 \<le> length ss + Suc k"
    and d: "st_metadata (ss1 ! length ss) = md" "st_fields (ss1 ! length ss) = []"
    and s: "s \<in> U" "s = Schema md b fs"
    and base: "case b of None \<Rightarrow> st_base_def (ss1 ! length ss) = None
      | Some b \<Rightarrow> \<exists>i. st_base_def (ss1 ! length ss) = Some (struct_td i) \<and>
          rep_struct (finished (insert (length ss) A) ss1) (unat i) b"
    and A: "length ss \<notin> A"
  shows "appended U A (Suc (k + length (structs_in_fields fs))) ss ss'" "rep_struct (finished A ss') (length ss) s"
proof -
  let ?n = "length ss"
  from added obtain rfs where 1: "init_inv U (insert ?n A) ss'" "length ss1 \<le> length ss'"
      "length ss' \<le> length ss1 + length (structs_in_fields fs)" "\<forall>i < length ss1. i \<noteq> ?n \<longrightarrow> ss' ! i = ss1 ! i"
      "ss' ! ?n = (ss1 ! ?n)\<lparr>st_fields := rfs\<rparr>" "rep_fields (finished (insert ?n A) ss') rfs fs"
    by (auto simp: fields_added_def d)
  have le: "finished (insert ?n A) ss' \<subseteq>\<^sub>m finished A ss'" by (auto simp: finished_def map_le_def dom_def)
  have le1: "finished (insert ?n A) ss1 \<subseteq>\<^sub>m finished A ss'"
    using 1(2,4) by (auto simp: finished_def map_le_def dom_def)
  have fields: "rep_fields (finished A ss') rfs fs" using le 1(6) by (rule rep_mono(2))
  have here: "finished A ss' ?n = Some ((ss1 ! ?n)\<lparr>st_fields := rfs\<rparr>)"
    using 1(2,5) ss1(2) A by (simp add: finished_def)
  show rep: "rep_struct (finished A ss') ?n s"
  proof (cases b)
    case None
    with here fields d(1) base s(2) show ?thesis by simp
  next
    case (Some b0)
    with base obtain i where "st_base_def (ss1 ! ?n) = Some (struct_td i)"
        "rep_struct (finished (insert ?n A) ss1) (unat i) b0" by auto
    with rep_mono(3) [OF le1] here fields d(1) s(2) Some show ?thesis by simp
  qed
  have "struct_name ss' ?n = qualified_name s" using 1(5) d(1) s(2) by (simp add: struct_name_def)
  from finish_struct [OF 1(1) s(1) this rep] 1(2-4) ss1 show "appended U A (Suc (k + length (structs_in_fields fs))) ss ss'"
    by (auto simp: appended_def extends_def)
qed

lemma init_schema:
  "inj_on qualified_name U \<Longrightarrow> set (structs_in_type t) \<subseteq> U \<Longrightarrow> init_inv U A ss \<Longrightarrow> pending U A (size t) ss \<Longrightarrow>
     length ss + length (structs_in_type t) < 2 ^ 16 \<Longrightarrow> GetTypeDef t ss = (td, ss') \<Longrightarrow>
     appended U A (length (structs_in_type t)) ss ss' \<and> rep_type (finished A ss') td t"
  "inj_on qualified_name U \<Longrightarrow> set (structs_in_fields fs) \<subseteq> U \<Longrightarrow> init_inv U A ss \<Longrightarrow>
     pending U A (size_list size fs) ss \<Longrightarrow> n \<in> A \<Longrightarrow> length ss + length (structs_in_fields fs) < 2 ^ 16 \<Longrightarrow>
     fields_added U A n fs ss (InitFields n fs ss)"
  "inj_on qualified_name U \<Longrightarrow> set (structs_in s) \<subseteq> U \<Longrightarrow> init_inv U A ss \<Longrightarrow> pending U A (size s) ss \<Longrightarrow>
     length ss + length (structs_in s) < 2 ^ 16 \<Longrightarrow>
     appended U A (length (structs_in s)) ss (AppendStructDef s ss) \<and>
     rep_struct (finished A (AppendStructDef s ss)) (length ss) s"
proof (induction t ss and n fs ss and s ss arbitrary: A td ss' and A and A
    rule: GetTypeDef_InitFields_AppendStructDef.induct)
  case (3 e ss)
  obtain te ss1 where e: "GetTypeDef e ss = (te, ss1)" by (cases "GetTypeDef e ss")
  with "3.IH" [OF "3.prems"(1) _ "3.prems"(3) pending_mono [OF "3.prems"(4)] _ e] "3.prems" show ?case by auto
next
  case (4 e ss)
  obtain te ss1 where e: "GetTypeDef e ss = (te, ss1)" by (cases "GetTypeDef e ss")
  with "4.IH" [OF "4.prems"(1) _ "4.prems"(3) pending_mono [OF "4.prems"(4)] _ e] "4.prems" show ?case by auto
next
  case (6 k e ss)
  obtain te ss1 where e: "GetTypeDef e ss = (te, ss1)" by (cases "GetTypeDef e ss")
  with "6.IH" [OF "6.prems"(1) _ "6.prems"(3) pending_mono [OF "6.prems"(4)] _ e] "6.prems" show ?case by auto
next
  case (7 s ss)
  have pend: "pending U A (size s) ss" using "7.prems"(4) by (rule pending_mono) simp
  obtain i where i: "i = find_struct (qualified_name s) ss" "td = struct_td (of_nat i)"
      "ss' = (if i = length ss then AppendStructDef s ss else ss)"
    using "7.prems"(6) by (auto simp: Let_def)
  have s: "set (structs_in s) \<subseteq> U" "length ss + length (structs_in s) < 2 ^ 16" using "7.prems" by simp_all
  have "appended U A (length (structs_in s)) ss (AppendStructDef s ss) \<and>
      rep_struct (finished A (AppendStructDef s ss)) (length ss) s" if "i = length ss"
    using "7.IH" [OF i(1) that "7.prems"(1) s(1) "7.prems"(3) pend s(2)] .
  from found_or_appended [OF "7.prems"(1) s(1) "7.prems"(3) pend s(2) i(1,3) this] i(2) show ?case by simp
next
  case (8 n ss)
  then show ?case by (auto simp: fields_added_def intro!: exI [of _ "[]"])
next
  case (9 n fid md mb t fs ss)
  obtain td ss1 where t: "GetTypeDef t ss = (td, ss1)" by (cases "GetTypeDef t ss")
  let ?f = "\<lparr>rf_metadata = md, rf_id = fid, rf_type = td\<rparr>"
  let ?ss = "push_field n ?f ss1"
  have 1: "appended U A (length (structs_in_type t)) ss ss1" "rep_type (finished A ss1) td t"
    using "9.IH"(1) [OF "9.prems"(1) _ "9.prems"(3) pending_mono [OF "9.prems"(4)] _ t] "9.prems" by auto
  have n: "n < length ss" using "9.prems"(4,5) by (simp add: pending_def)
  have meta: "init_inv U A ?ss = init_inv U A ss1" "pending U A k ?ss = pending U A k ss1" for k
    using "9.prems"(5) unfolding push_field_def by (simp_all add: update_inv)
  have pend: "pending U A (size_list size fs) ?ss"
    using extends_pending [OF pending_mono [OF "9.prems"(4)]] 1(1) meta by (simp add: appended_def)
  have "fields_added U A n fs ?ss (InitFields n fs ?ss)"
    using "9.IH"(2) [OF t [symmetric] refl "9.prems"(1) _ _ pend "9.prems"(5)] 1(1) meta "9.prems"
    by (auto simp: appended_def push_field_def)
  then obtain rfs where 2: "init_inv U A (InitFields n fs ?ss)" "length ss1 \<le> length (InitFields n fs ?ss)"
      "length (InitFields n fs ?ss) \<le> length ss1 + length (structs_in_fields fs)"
      "\<forall>i < length ss1. i \<noteq> n \<longrightarrow> InitFields n fs ?ss ! i = ss1 ! i"
      "InitFields n fs ?ss ! n = (?ss ! n)\<lparr>st_fields := st_fields (?ss ! n) @ rfs\<rparr>"
      "rep_fields (finished A (InitFields n fs ?ss)) rfs fs"
    by (auto simp: fields_added_def push_field_def)
  have "finished A ss1 \<subseteq>\<^sub>m finished A (InitFields n fs ?ss)"
    using 2(2,4) "9.prems"(5) by (auto simp: finished_def map_le_def dom_def)
  then have "rep_type (finished A (InitFields n fs ?ss)) td t" using 1(2) by (rule rep_mono(1))
  moreover have "?ss ! n = (ss ! n)\<lparr>st_fields := st_fields (ss ! n) @ [?f]\<rparr>"
    using 1(1) n by (simp add: push_field_def appended_def extends_def)
  ultimately have "InitFields n fs ?ss ! n = (ss ! n)\<lparr>st_fields := st_fields (ss ! n) @ ?f # rfs\<rparr> \<and>
      rep_fields (finished A (InitFields n fs ?ss)) (?f # rfs) (FieldDef fid md mb t # fs)"
    using 2(5,6) by simp
  then have "\<exists>rfs. InitFields n fs ?ss ! n = (ss ! n)\<lparr>st_fields := st_fields (ss ! n) @ rfs\<rparr> \<and>
      rep_fields (finished A (InitFields n fs ?ss)) rfs (FieldDef fid md mb t # fs)" by blast
  with 1(1) 2(1-4) t show ?case by (auto simp: fields_added_def appended_def extends_def)
next
  case (10 md fs ss)
  let ?s = "Schema md None fs" and ?d = "\<lparr>st_metadata = md, st_base_def = None, st_fields = []\<rparr>"
  let ?n = "length ss" and ?ss = "InitFields (length ss) fs (ss @ [\<lparr>st_metadata = md, st_base_def = None, st_fields = []\<rparr>])"
  have "?s \<in> U" using "10.prems"(2) by simp
  note started = begin_struct [OF "10.prems"(3,4) this, of ?d "size_list size fs"]
  have "fields_added U (insert ?n A) ?n fs (ss @ [?d]) ?ss"
    using "10.IH" [OF "10.prems"(1) _ started(1) started(2)] "10.prems" by simp
  from struct_complete [OF this, of 0 md ?s None] \<open>?s \<in> U\<close> "10.prems"(4) show ?case
    by (auto simp: pending_def extends_def nth_append)
next
  case (11 md b fs ss)
  let ?s = "Schema md (Some b) fs" and ?n = "length ss"
  define ss1 where "ss1 = ss @ [\<lparr>st_metadata = md, st_base_def = None, st_fields = []\<rparr>]"
  define i where "i = find_struct (qualified_name b) ss1"
  define ss2 where "ss2 = (if i = length ss1 then AppendStructDef b ss1 else ss1)"
  let ?A = "insert ?n A" and ?ss3 = "set_base ?n (struct_td (of_nat i)) ss2"
  have U: "?s \<in> U" "set (structs_in b) \<subseteq> U" "set (structs_in_fields fs) \<subseteq> U" using "11.prems"(2) by simp_all
  have inv1: "init_inv U ?A ss1" and pend: "k < size ?s \<Longrightarrow> pending U ?A k ss1" for k
    using begin_struct(1) [OF "11.prems"(3,4) U(1), of _ 0] begin_struct(2) [OF "11.prems"(3,4) U(1), of _ k]
    by (simp_all add: ss1_def)
  have len1: "length ss1 + length (structs_in b) + length (structs_in_fields fs) < 2 ^ 16"
    using "11.prems"(5) by (simp add: ss1_def)
  have IH1: "appended U ?A (length (structs_in b)) ss1 (AppendStructDef b ss1) \<and>
      rep_struct (finished ?A (AppendStructDef b ss1)) (length ss1) b" if "i = length ss1"
    using "11.IH"(1) [OF refl ss1_def i_def that "11.prems"(1) U(2) inv1 pend] len1 by simp
  have 2: "appended U ?A (length (structs_in b)) ss1 ss2" "rep_struct (finished ?A ss2) (unat (of_nat i :: u16)) b"
    using found_or_appended [OF "11.prems"(1) U(2) inv1 pend _ i_def ss2_def IH1] len1 by simp_all
  have meta: "init_inv U ?A ?ss3 = init_inv U ?A ss2" "pending U ?A k ?ss3 = pending U ?A k ss2" for k
    unfolding set_base_def by (simp_all add: update_inv)
  have "pending U ?A (size_list size fs) ?ss3"
    using extends_pending [OF pend] 2(1) meta by (simp add: appended_def)
  then have added: "fields_added U ?A ?n fs ?ss3 (InitFields ?n fs ?ss3)"
    using "11.IH"(2) [OF refl ss1_def i_def ss2_def "11.prems"(1) U(3)] 2(1) meta len1
    by (simp add: appended_def set_base_def)
  have n: "ss2 ! ?n = \<lparr>st_metadata = md, st_base_def = None, st_fields = []\<rparr>" "?n < length ss2"
      "extends ss ss2" "length ss2 \<le> Suc (?n + length (structs_in b))"
    using 2(1) by (auto simp: appended_def extends_def ss1_def nth_append)
  have "?n \<notin> A" using "11.prems"(4) by (auto simp: pending_def)
  from struct_complete [OF added, of "length (structs_in b)" md ?s "Some b"] U(1) n 2(2) this
  have "appended U A (Suc (length (structs_in b) + length (structs_in_fields fs))) ss (InitFields ?n fs ?ss3)"
      "rep_struct (finished A (InitFields ?n fs ?ss3)) ?n ?s"
    by (auto simp: set_base_def extends_def)
  moreover have "AppendStructDef ?s ss = InitFields ?n fs ?ss3"
    by (simp only: AppendStructDef.simps Let_def ss1_def [symmetric] i_def [symmetric] ss2_def [symmetric])
  ultimately show ?case by (simp only: structs_in.simps length_append list.size add_Suc_right add_0_right)
qed (auto simp: appended_def)

text \<open>The run-time schema of a struct represents its compile-time schema.\<close>

lemma GetRuntimeSchema_represents:
  assumes "names_ok s"
  shows "represents (GetRuntimeSchema s) s"
proof -
  have "rep_struct (finished {} (AppendStructDef s [])) 0 s"
    using init_schema(3) [of "set (structs_in s)" s "{}" "[]"] assms
    by (simp add: names_ok_def init_inv_def pending_def)
  moreover have "finished {} ss = structs_of ss" for ss
    by (simp add: finished_def structs_of_def fun_eq_iff)
  ultimately show ?thesis
    by (simp add: represents_def GetRuntimeSchema_def RuntimeSchema_of_def)
qed

end
