(* ===== verification/Schema_Validation.thy ===== *)
theory Schema_Validation
  imports Runtime_Schema
begin

text \<open>
  Validation of run-time schemas (\<^verbatim>\<open>src/cpp/inc/bond/core/validate.h\<close> and
  \<^verbatim>\<open>src/cpp/inc/bond/core/detail/validate.h\<close>): can a payload of the source schema be deserialized as
  the destination schema? The flag \<open>identical\<close> is a reference in the code and is passed along here;
  a struct is the index by which the code's pointer identifies it. Pairs of structs that are being
  validated are on a list, which ends the recursion on recursive structs: that is the termination
  argument of the functions below.
\<close>

definition StructBaseDifferentException :: exn where
  "StructBaseDifferentException = CoreException ''Schemas are incompatible; struct base different''"

definition RequiredFieldMissingException :: exn where
  "RequiredFieldMissingException = CoreException ''Schemas are incompatible; required field missing''"

definition OptionalToRequiredException :: exn where
  "OptionalToRequiredException = CoreException ''Schemas are incompatible; required modifier removed''"

definition FieldTypeIncompatibleException :: exn where
  "FieldTypeIncompatibleException = CoreException ''Schemas are incompatible; field types incompatible''"

text \<open>\<open>ValidateType\<close> of two type ids; type ids are compared as numbers.\<close>

definition ValidateTypeId :: "BondDataType \<Rightarrow> BondDataType \<Rightarrow> bool" where
  "ValidateTypeId src dst \<longleftrightarrow>
     (if src \<in> set [BT_UINT8, BT_UINT16, BT_UINT32] \<and> dst \<in> set [BT_UINT16, BT_UINT32, BT_UINT64] \<or>
         src \<in> set [BT_INT8, BT_INT16, BT_INT32] \<and> dst \<in> set [BT_INT16, BT_INT32, BT_INT64]
      then type_code src \<le> type_code dst
      else if src = BT_FLOAT then dst = BT_DOUBLE
      else src = dst)"

definition struct_index :: "RuntimeSchema \<Rightarrow> nat" where
  "struct_index rs = unat (td_struct_def (rs_type rs))"

text \<open>The pairs of structs that are not on the list yet\<close>

definition open_pairs :: "RuntimeSchema \<Rightarrow> RuntimeSchema \<Rightarrow> (nat \<times> nat) list \<Rightarrow> nat" where
  "open_pairs src dst list =
     card ({..<length (sd_structs (rs_schema dst))} \<times> {..<length (sd_structs (rs_schema src))} - set list)"

definition fields_size :: "RFieldDef list \<Rightarrow> RFieldDef list \<Rightarrow> nat" where
  "fields_size ss ds = length ss + sum_list (map (\<lambda>f. size (rf_type f) + 2) ds)"

lemma fields_size_simps [simp]:
  "fields_size (s # ss) ds = Suc (fields_size ss ds)"
  "fields_size ss (d # ds) = fields_size ss ds + size (rf_type d) + 2"
  by (simp_all add: fields_size_def)

lemma open_pairs_schema:
  "rs_schema src = rs_schema src' \<Longrightarrow> rs_schema dst = rs_schema dst' \<Longrightarrow>
   open_pairs src dst list = open_pairs src' dst' list"
  by (simp add: open_pairs_def)

lemma rs_schema_simps [simp]:
  "rs_schema (RuntimeSchema_type rs t) = rs_schema rs" "rs_schema (RuntimeSchema_field rs f) = rs_schema rs"
  "rs_type (RuntimeSchema_type rs t) = t" "rs_type (RuntimeSchema_field rs f) = rf_type f"
  by (simp_all add: RuntimeSchema_type_def RuntimeSchema_field_def)

lemma GetBaseSchema_schema: "GetBaseSchema rs = Inr b \<Longrightarrow> rs_schema b = rs_schema rs"
  by (auto simp: GetBaseSchema_def res_bind_def split: sum.splits option.splits)

lemma GetStruct_index: "GetStruct rs = Inr s \<Longrightarrow>
    struct_index rs < length (sd_structs (rs_schema rs)) \<and> s = sd_structs (rs_schema rs) ! struct_index rs"
  by (auto simp: GetStruct_def struct_index_def Let_def split: if_splits)

lemma open_pairs_less:
  assumes "(struct_index dst, struct_index src) \<notin> set list" and "GetStruct dst = Inr d" "GetStruct src = Inr s"
  shows "open_pairs src dst ((struct_index dst, struct_index src) # list) < open_pairs src dst list"
  unfolding open_pairs_def
  using assms GetStruct_index by (intro psubset_card_mono psubsetI) auto

lemma td_element_size: "td_element t = Some e \<Longrightarrow> size e < size t"
  by (cases t) auto

lemma td_key_size: "td_key t = Some e \<Longrightarrow> size e < size t"
  by (cases t) auto

text \<open>The results are the verdict and the flag, or the flag. \<open>list\<close> has pairs of the destination's
  and the source's struct.\<close>

function (sequential) ValidateType ::
    "RuntimeSchema \<Rightarrow> RuntimeSchema \<Rightarrow> (nat \<times> nat) list \<Rightarrow> bool \<Rightarrow> (bool \<times> bool) res"
  and ValidateFields ::
    "RFieldDef list \<Rightarrow> RFieldDef list \<Rightarrow> RuntimeSchema \<Rightarrow> RuntimeSchema \<Rightarrow> (nat \<times> nat) list \<Rightarrow> bool \<Rightarrow> bool res"
  and ValidateStruct ::
    "RuntimeSchema \<Rightarrow> RuntimeSchema \<Rightarrow> (nat \<times> nat) list \<Rightarrow> bool \<Rightarrow> bool res" where
  "ValidateType src dst list identical =
     (if rs_GetTypeId dst \<noteq> rs_GetTypeId src
      then Inr (ValidateTypeId (rs_GetTypeId src) (rs_GetTypeId dst), False)
      else
        let identical = (identical \<and> td_bonded_type (rs_type dst) = td_bonded_type (rs_type src)) in
        if rs_GetTypeId dst = BT_STRUCT \<and> \<not> td_bonded_type (rs_type dst)
        then res_bind (ValidateStruct src dst list identical) (\<lambda>identical. Inr (True, identical))
        else
          res_bind
            (case td_element (rs_type dst) of
               None \<Rightarrow> Inr (True, identical)
             | Some e \<Rightarrow>
                 (case td_element (rs_type src) of
                    None \<Rightarrow> Inl OutOfBounds
                  | Some e' \<Rightarrow> ValidateType (RuntimeSchema_type src e') (RuntimeSchema_type dst e) list identical))
            (\<lambda>(ok, identical).
               if \<not> ok then Inr (False, identical)
               else
                 case td_key (rs_type dst) of
                   None \<Rightarrow> Inr (True, identical)
                 | Some k \<Rightarrow>
                     (case td_key (rs_type src) of
                        None \<Rightarrow> Inl OutOfBounds
                      | Some k' \<Rightarrow>
                          ValidateType (RuntimeSchema_type src k') (RuntimeSchema_type dst k) list identical)))"
| "ValidateFields ss [] src dst list identical = Inr identical"
| "ValidateFields [] (d # ds) src dst list identical =
     (if md_modifier (rf_metadata d) = Required then Inl RequiredFieldMissingException
      else ValidateFields [] ds src dst list identical)"
| "ValidateFields (s # ss) (d # ds) src dst list identical =
     (if rf_id s < rf_id d then ValidateFields ss (d # ds) src dst list identical
      else if rf_id s > rf_id d
      then if md_modifier (rf_metadata d) = Required then Inl RequiredFieldMissingException
           else ValidateFields (s # ss) ds src dst list identical
      else if md_modifier (rf_metadata d) = Required \<and> md_modifier (rf_metadata s) = Optional
      then Inl OptionalToRequiredException
      else res_bind (ValidateType (RuntimeSchema_field src s) (RuntimeSchema_field dst d) list identical)
             (\<lambda>(ok, identical).
               if \<not> ok then Inl FieldTypeIncompatibleException
               else ValidateFields ss ds src dst list identical))"
| "ValidateStruct src dst list identical =
     res_bind (GetStruct dst) (\<lambda>s_dst. res_bind (GetStruct src) (\<lambda>s_src.
       let pair = (struct_index dst, struct_index src) in
       if pair \<in> set list then Inr identical
       else
         res_bind (schema_depth dst) (\<lambda>d_dst. res_bind (schema_depth src) (\<lambda>d_src.
           if d_dst > d_src then Inl StructBaseDifferentException
           else if d_src > d_dst
           then res_bind (GetBaseSchema src) (\<lambda>base. ValidateStruct base dst (pair # list) False)
           else
             res_bind
               (if st_base_def s_dst \<noteq> None
                then res_bind (GetBaseSchema src) (\<lambda>b_src. res_bind (GetBaseSchema dst) (\<lambda>b_dst.
                       ValidateStruct b_src b_dst (pair # list) identical))
                else Inr identical)
               (\<lambda>identical.
                 ValidateFields (st_fields s_src) (st_fields s_dst) src dst (pair # list)
                   (identical \<and> length (st_fields s_dst) = length (st_fields s_src)))))))"
  by pat_completeness auto
termination
proof (relation "measures [case_sum (\<lambda>(src, dst, list, i). open_pairs src dst list)
    (case_sum (\<lambda>(ss, ds, src, dst, list, i). open_pairs src dst list) (\<lambda>(src, dst, list, i). open_pairs src dst list)),
    case_sum (\<lambda>(src, dst, list, i). Suc (size (rs_type dst)))
    (case_sum (\<lambda>(ss, ds, src, dst, list, i). Suc (fields_size ss ds)) (\<lambda>(src, dst, list, i). 0))]", goal_cases)
qed (auto simp: open_pairs_less td_element_size td_key_size GetBaseSchema_schema
    cong: open_pairs_schema intro: open_pairs_schema)

declare ValidateType.simps [simp del] ValidateFields.simps [simp del] ValidateStruct.simps [simp del]

definition Validate :: "RuntimeSchema \<Rightarrow> RuntimeSchema \<Rightarrow> bool res" where
  "Validate src dst = ValidateStruct src dst [] True"

definition ValidateTwoWay :: "RuntimeSchema \<Rightarrow> RuntimeSchema \<Rightarrow> bool res" where
  "ValidateTwoWay s1 s2 = res_bind (Validate s1 s2) (\<lambda>a. res_bind (Validate s2 s1) (\<lambda>b. Inr (a \<and> b)))"

section \<open>Depth of a hierarchy\<close>

lemma HasBase_eq: "GetStruct rs = Inr s \<Longrightarrow> HasBase rs = Inr (st_base_def s \<noteq> None)"
  by (simp add: HasBase_def)

lemma GetBaseSchema_eq:
  "GetStruct rs = Inr s \<Longrightarrow> st_base_def s = Some b \<Longrightarrow> GetBaseSchema rs = Inr (RuntimeSchema_type rs b)"
  by (simp add: GetBaseSchema_def)

lemma schema_depth_from_base:
  "schema_depth_from k rs = Inr d \<Longrightarrow> k < 2 ^ 16 \<Longrightarrow> GetStruct rs = Inr s \<Longrightarrow>
   unat d \<le> k \<and> 1 \<le> unat d \<and> (st_base_def s \<noteq> None \<longleftrightarrow> 1 < unat d)"
proof (induction k arbitrary: rs d s)
  case (Suc k)
  show ?case
  proof (cases "st_base_def s")
    case None
    with Suc.prems show ?thesis by (simp add: HasBase_eq)
  next
    case (Some b)
    with Suc.prems obtain e where e: "schema_depth_from k (RuntimeSchema_type rs b) = Inr e" "d = 1 + e"
      by (auto simp: HasBase_eq GetBaseSchema_eq res_bind_Inr_iff)
    then obtain t where t: "GetStruct (RuntimeSchema_type rs b) = Inr t"
      by (cases k) (auto simp: res_bind_Inr_iff HasBase_def)
    from Suc.IH [OF e(1) _ t] Suc.prems(2) have "unat e \<le> k" "1 \<le> unat e" by auto
    moreover have "unat (1 + e) = Suc (unat e)"
      using \<open>unat e \<le> k\<close> Suc.prems(2) by (simp add: unat_word_ariths)
    ultimately show ?thesis using Some e(2) by simp
  qed
qed simp

section \<open>Validation of well-formed schemas\<close>

text \<open>
  Well-formed run-time schemas: struct indices are in range, the element and key types are there
  exactly for containers, and no hierarchy of bases is a cycle. Fields and elements may refer to
  structs recursively.
\<close>

primrec td_ok :: "nat \<Rightarrow> TypeDef \<Rightarrow> bool" where
  "td_ok n (TypeDef t i e k b) \<longleftrightarrow>
     (t = BT_STRUCT \<longrightarrow> unat i < n) \<and>
     (case map_option (td_ok n) e of None \<Rightarrow> t \<notin> set [BT_LIST, BT_SET, BT_MAP]
      | Some ok \<Rightarrow> t \<in> set [BT_LIST, BT_SET, BT_MAP] \<and> ok) \<and>
     (case map_option (td_ok n) k of None \<Rightarrow> t \<noteq> BT_MAP | Some ok \<Rightarrow> t = BT_MAP \<and> ok)"

definition struct_ok :: "nat \<Rightarrow> StructDef \<Rightarrow> bool" where
  "struct_ok n s \<longleftrightarrow> list_all (\<lambda>f. td_ok n (rf_type f)) (st_fields s) \<and>
     (case st_base_def s of None \<Rightarrow> True | Some b \<Rightarrow> td_id b = BT_STRUCT \<and> td_ok n b)"

definition schema_def_ok :: "SchemaDef \<Rightarrow> bool" where
  "schema_def_ok sd \<longleftrightarrow> length (sd_structs sd) < 2 ^ 16 \<and> list_all (struct_ok (length (sd_structs sd))) (sd_structs sd) \<and>
     list_all (\<lambda>i. \<exists>d. schema_depth \<lparr>rs_schema = sd, rs_type = struct_td (of_nat i)\<rparr> = Inr d) [0..<length (sd_structs sd)]"

definition rs_ok :: "RuntimeSchema \<Rightarrow> bool" where
  "rs_ok rs \<longleftrightarrow> schema_def_ok (rs_schema rs) \<and> td_ok (length (sd_structs (rs_schema rs))) (rs_type rs)"

definition validated :: "'a res \<Rightarrow> bool" where
  "validated r \<longleftrightarrow> (case r of Inr x \<Rightarrow> True | Inl e \<Rightarrow> \<exists>m. e = CoreException m)"

lemma validated_simps [simp]:
  "validated (Inr x)" "validated (Inl StructBaseDifferentException)" "validated (Inl RequiredFieldMissingException)"
  "validated (Inl OptionalToRequiredException)" "validated (Inl FieldTypeIncompatibleException)"
  by (simp_all add: validated_def StructBaseDifferentException_def RequiredFieldMissingException_def
      OptionalToRequiredException_def FieldTypeIncompatibleException_def)

lemma validated_bind: "validated r \<Longrightarrow> (\<And>x. r = Inr x \<Longrightarrow> validated (f x)) \<Longrightarrow> validated (res_bind r f)"
  by (cases r) (auto simp: validated_def)

lemma rs_ok_struct:
  assumes "rs_ok rs" and "rs_GetTypeId rs = BT_STRUCT"
  obtains s where "GetStruct rs = Inr s" "struct_ok (length (sd_structs (rs_schema rs))) s"
    "\<exists>d. schema_depth rs = Inr d"
proof -
  let ?ss = "sd_structs (rs_schema rs)" and ?i = "struct_index rs"
  have i: "?i < length ?ss" using assms by (cases "rs_type rs") (auto simp: rs_ok_def struct_index_def)
  have same: "schema_depth_from k \<lparr>rs_schema = rs_schema rs, rs_type = struct_td (of_nat ?i)\<rparr> = schema_depth_from k rs" for k
    by (cases k; cases rs) (simp_all add: struct_index_def HasBase_def GetStruct_def GetBaseSchema_def RuntimeSchema_type_def Let_def split: option.split)
  have "\<exists>d. schema_depth \<lparr>rs_schema = rs_schema rs, rs_type = struct_td (of_nat ?i)\<rparr> = Inr d"
    using assms(1) i by (auto simp: rs_ok_def schema_def_ok_def list_all_iff)
  then have "\<exists>d. schema_depth rs = Inr d" by (simp add: schema_depth_def same)
  with that [of "?ss ! ?i"] i assms(1) show ?thesis
    by (simp add: GetStruct_def struct_index_def rs_ok_def schema_def_ok_def list_all_iff)
qed

lemma rs_ok_type: "rs_ok rs \<Longrightarrow> td_ok (length (sd_structs (rs_schema rs))) t \<Longrightarrow> rs_ok (RuntimeSchema_type rs t)"
  by (simp add: rs_ok_def)

lemma rs_ok_element:
  assumes "rs_ok src" "rs_ok dst" "rs_GetTypeId dst = rs_GetTypeId src"
  shows "td_element (rs_type dst) = Some e \<Longrightarrow> rs_ok (RuntimeSchema_type dst e) \<and>
      (\<exists>e'. td_element (rs_type src) = Some e' \<and> rs_ok (RuntimeSchema_type src e'))"
    and "td_key (rs_type dst) = Some e \<Longrightarrow> rs_ok (RuntimeSchema_type dst e) \<and>
      (\<exists>e'. td_key (rs_type src) = Some e' \<and> rs_ok (RuntimeSchema_type src e'))"
  using assms by (cases "rs_type src"; cases "rs_type dst"; auto simp: rs_ok_def split: option.splits)+

text \<open>The bases that validation asks for are there.\<close>

lemma rs_ok_base:
  assumes "rs_ok rs" "rs_GetTypeId rs = BT_STRUCT" "schema_depth rs = Inr d" "1 < unat d"
  obtains b where "GetBaseSchema rs = Inr b" "rs_ok b" "rs_GetTypeId b = BT_STRUCT"
proof -
  obtain s where s: "GetStruct rs = Inr s" "struct_ok (length (sd_structs (rs_schema rs))) s"
    using rs_ok_struct [OF assms(1,2)] by metis
  have "st_base_def s \<noteq> None"
    using schema_depth_from_base [OF assms(3) [unfolded schema_depth_def] _ s(1)] assms(1,4)
    by (simp add: rs_ok_def schema_def_ok_def)
  with s that assms(1) show ?thesis
    by (auto simp: GetBaseSchema_eq struct_ok_def split: option.splits intro: rs_ok_type)
qed

lemma rs_ok_fields:
  "rs_ok rs \<Longrightarrow> GetStruct rs = Inr s \<Longrightarrow> list_all (\<lambda>f. rs_ok (RuntimeSchema_field rs f)) (st_fields s)"
  using GetStruct_index [of rs s]
  by (auto simp: rs_ok_def schema_def_ok_def list_all_iff struct_ok_def)

lemma validation_ends:
  "rs_ok src \<Longrightarrow> rs_ok dst \<Longrightarrow> validated (ValidateType src dst list i)"
  "list_all (\<lambda>f. rs_ok (RuntimeSchema_field src f)) ss \<Longrightarrow> list_all (\<lambda>f. rs_ok (RuntimeSchema_field dst f)) ds \<Longrightarrow>
     validated (ValidateFields ss ds src dst list i)"
  "rs_ok src \<Longrightarrow> rs_ok dst \<Longrightarrow> rs_GetTypeId src = BT_STRUCT \<Longrightarrow> rs_GetTypeId dst = BT_STRUCT \<Longrightarrow>
     validated (ValidateStruct src dst list i)"
proof (induction src dst list i and ss ds src dst list i and src dst list i
    rule: ValidateType_ValidateFields_ValidateStruct.induct)
  case (1 src dst list identical)
  show ?case
  proof (cases "rs_GetTypeId dst = rs_GetTypeId src")
    case same: True
    let ?i = "identical \<and> td_bonded_type (rs_type dst) = td_bonded_type (rs_type src)"
    show ?thesis
    proof (cases "rs_GetTypeId dst = BT_STRUCT \<and> \<not> td_bonded_type (rs_type dst)")
      case True
      with "1.IH"(1) [of ?i] "1.prems" same show ?thesis
        by (simp add: ValidateType.simps validated_bind)
    next
      case False
      let ?element = "case td_element (rs_type dst) of None \<Rightarrow> Inr (True, ?i)
        | Some e \<Rightarrow> (case td_element (rs_type src) of None \<Rightarrow> Inl OutOfBounds
            | Some e' \<Rightarrow> ValidateType (RuntimeSchema_type src e') (RuntimeSchema_type dst e) list ?i)"
      note parts = rs_ok_element [OF "1.prems" same]
      have "validated ?element"
      proof (cases "td_element (rs_type dst)")
        case (Some e)
        with parts(1) obtain e' where "td_element (rs_type src) = Some e'"
            "rs_ok (RuntimeSchema_type dst e)" "rs_ok (RuntimeSchema_type src e')" by auto
        with Some "1.IH"(2) [of ?i e e'] same False show ?thesis by simp
      qed simp
      moreover have "validated (case td_key (rs_type dst) of None \<Rightarrow> Inr (True, j)
        | Some k \<Rightarrow> (case td_key (rs_type src) of None \<Rightarrow> Inl OutOfBounds
            | Some k' \<Rightarrow> ValidateType (RuntimeSchema_type src k') (RuntimeSchema_type dst k) list j))"
        if ok: "?element = Inr (True, j)" for j
      proof (cases "td_key (rs_type dst)")
        case (Some k)
        with parts(2) obtain k' where "td_key (rs_type src) = Some k'"
            "rs_ok (RuntimeSchema_type dst k)" "rs_ok (RuntimeSchema_type src k')" by auto
        with Some "1.IH"(3) [of ?i "(True, j)" True j k k'] same False ok show ?thesis by simp
      qed simp
      ultimately have "validated (res_bind ?element (\<lambda>(ok, identical).
          if \<not> ok then Inr (False, identical)
          else case td_key (rs_type dst) of None \<Rightarrow> Inr (True, identical)
            | Some k \<Rightarrow> (case td_key (rs_type src) of None \<Rightarrow> Inl OutOfBounds
                | Some k' \<Rightarrow> ValidateType (RuntimeSchema_type src k') (RuntimeSchema_type dst k) list identical)))"
        by (intro validated_bind) auto
      with same False show ?thesis by (subst ValidateType.simps) (simp only: Let_def if_True if_False simp_thms)
    qed
  qed (simp add: ValidateType.simps)
next
  case (2 ss src dst list identical)
  show ?case by (simp add: ValidateFields.simps)
next
  case (3 d ds src dst list identical)
  then show ?case by (simp add: ValidateFields.simps)
next
  case (4 s ss d ds src dst list identical)
  then show ?case
    by (auto simp: ValidateFields.simps(3) intro!: validated_bind)
next
  case (5 src dst list identical)
  obtain d e where d: "GetStruct dst = Inr d" "schema_depth dst = Inr e"
    using rs_ok_struct [OF "5.prems"(2,4)] by metis
  obtain s f where s: "GetStruct src = Inr s" "schema_depth src = Inr f"
    using rs_ok_struct [OF "5.prems"(1,3)] by metis
  let ?pair = "(struct_index dst, struct_index src)"
  have small: "length (sd_structs (rs_schema rs)) < 2 ^ 16" if "rs_ok rs" for rs
    using that by (simp add: rs_ok_def schema_def_ok_def)
  have e: "1 \<le> unat e" "st_base_def d \<noteq> None \<longleftrightarrow> 1 < unat e"
    using schema_depth_from_base [OF d(2) [unfolded schema_depth_def] _ d(1)] small [OF "5.prems"(2)] by auto
  show ?case
  proof (cases "?pair \<in> set list \<or> f < e")
    case True
    with d s show ?thesis by (auto simp: ValidateStruct.simps Let_def)
  next
    case False
    then have new: "?pair \<notin> set list" and le: "\<not> f < e" by auto
    note IH = "5.IH" [OF d(1) s(1) refl new d(2) s(2) le]
    show ?thesis
    proof (cases "e < f")
      case True
      then have "1 < unat f" using e(1) by (simp add: word_less_nat_alt)
      then obtain b where b: "GetBaseSchema src = Inr b" "rs_ok b" "rs_GetTypeId b = BT_STRUCT"
        by (rule rs_ok_base [OF "5.prems"(1,3) s(2)])
      with IH(1) [OF True b(1) b(2) "5.prems"(2) b(3) "5.prems"(4)] True new le d s show ?thesis
        by (simp add: ValidateStruct.simps Let_def)
    next
      case False
      with le have "e = f" by simp
      have fields: "validated (ValidateFields (st_fields s) (st_fields d) src dst (?pair # list) i)"
        if "(if st_base_def d \<noteq> None
             then res_bind (GetBaseSchema src) (\<lambda>b. res_bind (GetBaseSchema dst) (\<lambda>c. ValidateStruct b c (?pair # list) identical))
             else Inr identical) = Inr j" "i = (j \<and> length (st_fields d) = length (st_fields s))" for i j
        using IH(3) [OF False that(1) rs_ok_fields [OF "5.prems"(1) s(1)] rs_ok_fields [OF "5.prems"(2) d(1)]] that(2)
        by simp
      have base: "validated (res_bind (GetBaseSchema src) (\<lambda>b. res_bind (GetBaseSchema dst) (\<lambda>c. ValidateStruct b c (?pair # list) identical)))"
        if has: "st_base_def d \<noteq> None"
      proof -
        have "1 < unat e" "1 < unat f" using has e(2) \<open>e = f\<close> by auto
        then obtain b c where b: "GetBaseSchema src = Inr b" "rs_ok b" "rs_GetTypeId b = BT_STRUCT"
            and c: "GetBaseSchema dst = Inr c" "rs_ok c" "rs_GetTypeId c = BT_STRUCT"
          using rs_ok_base [OF "5.prems"(1,3) s(2)] rs_ok_base [OF "5.prems"(2,4) d(2)] by metis
        with IH(2) [OF False has b(1) c(1) b(2) c(2) b(3) c(3)] show ?thesis by simp
      qed
      show ?thesis
        using new le False d s fields base
        by (simp add: ValidateStruct.simps Let_def validated_bind)
    qed
  qed
qed

lemma Validate_ends: "rs_ok src \<Longrightarrow> rs_ok dst \<Longrightarrow> rs_GetTypeId src = BT_STRUCT \<Longrightarrow> rs_GetTypeId dst = BT_STRUCT \<Longrightarrow>
    validated (Validate src dst)"
  unfolding Validate_def by (rule validation_ends(3))

end
