(* ===== verification/Schema_Evolution.thy ===== *)
theory Schema_Evolution
  imports Roundtrip
begin

text \<open>
  Consequences of the refinement of theory \<open>Tagged_Parser\<close> for payloads written with another version
  of a schema: slicing a derived struct to its base, fields that the reader does not know, fields
  that the writer did not know, required fields, and numbers of a wider type. They are facts about
  the view; the tagged protocols inherit them through \<open>tagged_Deserialize_view\<close>.
\<close>

definition tagged_protocol :: "Reader \<Rightarrow> format \<Rightarrow> bool" where
  "tagged_protocol R F \<longleftrightarrow>
     (\<exists>version. R = compact_reader version \<and> F = compact_format version) \<or> R = fast_reader \<and> F = fast_format"

lemma tagged_protocol_simps [simp]:
  "tagged_protocol (compact_reader version) (compact_format version)" "tagged_protocol fast_reader fast_format"
  by (auto simp: tagged_protocol_def)

lemma tagged_Deserialize_view:
  assumes "tagged_protocol R F" "schema_ok s" "schema_sorted s" "wf_struct True x" "ordered_struct x"
  shows "yields erase_struct (Deserialize R s) (fst (enc_struct F False x)) (view_object s x)"
  using assms compact.Deserialize_view fast.Deserialize_view by (auto simp: tagged_protocol_def)

lemma conforms_ordered: "conforms s x \<Longrightarrow> ordered_struct x"
  unfolding conforms_def using shaped_ordered(3) by blast

lemma yields_Inr:
  "yields E m bs (Inr v) \<Longrightarrow> ib_at ib (bs @ rest) \<Longrightarrow> \<exists>y. m ib = Inr (y, ib_adv (length bs) ib) \<and> E y = v"
  by (drule yieldsD) (auto simp: gives_def)

lemma yields_Inl: "yields E m bs (Inl e) \<Longrightarrow> ib_at ib (bs @ rest) \<Longrightarrow> m ib = Inl e"
  by (drule yieldsD) auto

section \<open>Bases and derived structs\<close>

lemma view_struct_base:
  "view_struct s False L v = res_bind (view_struct s True L v) (\<lambda>(d, y). Inr (False, y))"
proof (cases s)
  case (Schema md b fs)
  then show ?thesis
    by (cases b) (auto simp: view_read_def res_bind_def split: sum.splits)
qed

text \<open>Reading only the levels of a base ignores the levels derived from it.\<close>

lemma view_derived:
  assumes "schema_ok b" "schema_sorted b" "shaped_struct b y" "exact_struct b y" "wf_struct True y"
  shows "view_object b (Struct md (Some y) fs) = Inr (erase_struct y)"
  using view_exact(3) [OF assms, of True] by (simp add: view_object_def view_struct_base)

text \<open>A payload that ends inside the base is refused.\<close>

lemma view_struct_stop:
  assumes "shaped_struct s y"
  shows "view_struct s True (levels True False y) v =
    res_bind (view_struct s False (levels True False y) v) (\<lambda>(d, z). Inr (True, z))"
proof (cases s)
  case (Schema md b fs)
  then show ?thesis
    using assms levels_length [of "the b" "the (base_of y)" True True]
    by (cases b; cases y)
      (auto simp: view_read_def res_bind_def split: sum.splits option.splits)
qed

lemma view_base_as_derived:
  assumes "conforms b y" and "wf_struct True y"
  shows "view_object (Schema md (Some b) fs) y = Inl UnexpectedStructStopException"
  using assms view_exact(3) [of b y False "[]"] view_struct_stop [of b y]
  by (simp add: view_object_def conforms_def)

section \<open>Fields of another version\<close>

text \<open>A schema looks at the levels up to its own depth only.\<close>

lemma view_struct_levels:
  "take (depth s) L = take (depth s) L' \<Longrightarrow> view_struct s base L v = view_struct s base L' v"
proof (induction s arbitrary: base v rule: depth.induct)
  case (1 md fs)
  then show ?case by (cases L; cases L') (simp_all add: view_read_def)
next
  case (2 md b fs)
  have take: "take (depth b) L = take (depth b) L'"
    using arg_cong [OF "2.prems", of "take (depth b)"] by (simp add: min_def)
  have "take 1 (drop (depth b) L) = take 1 (drop (depth b) L')"
    using arg_cong [OF "2.prems", of "drop (depth b)"] by (simp add: take_drop add.commute)
  then have "hd (drop (depth b) L) = hd (drop (depth b) L')"
    by (cases "drop (depth b) L"; cases "drop (depth b) L'") auto
  then show ?case using "2.IH" [OF take] by (simp add: view_read_def cong: if_cong)
qed

definition base_shaped :: "sschema option \<Rightarrow> bstruct option \<Rightarrow> bool" where
  "base_shaped b x \<longleftrightarrow> rel_option shaped_struct b x"

text \<open>The fields of the last level are the only difference between two payloads.\<close>

lemma view_fields_cong:
  assumes "base_shaped b x"
    and "\<And>vars required. view_level fs (view_fields fs) (concat (map (present True) vs)) vars required =
      view_level fs (view_fields fs) (concat (map (present True) ws)) vars required"
  shows "view_object (Schema md b fs) (Struct md1 x vs) = view_object (Schema md b fs) (Struct md2 x ws)"
proof (cases b)
  case None
  with assms show ?thesis by (simp add: base_shaped_def view_object_def view_read_def)
next
  case (Some b0)
  with assms(1) obtain x0 where x: "x = Some x0" "shaped_struct b0 x0" by (auto simp: base_shaped_def option_rel_Some1)
  then have len: "length (levels True True x0) = depth b0" by (simp add: levels_length)
  have "view_struct b0 True (levels True True x0 @ L) v = view_struct b0 True (levels True True x0) v" for L v
    using len by (intro view_struct_levels) simp
  then show ?thesis using Some x(1) len assms(2) by (simp add: view_object_def view_read_def cong: if_cong)
qed

lemma map_of_known:
  "i \<in> ids \<Longrightarrow> map_of (concat (map (present True) (filter (\<lambda>f. field_id f \<in> ids) vs))) i =
     map_of (concat (map (present True) vs)) i"
proof (induction vs)
  case (Cons f vs)
  have "map_of (present True f) i = None" if "field_id f \<notin> ids"
    using that present_id [of _ True f] Cons.prems by (auto simp: map_of_eq_None_iff)
  with Cons show ?case by (simp add: map_add_def split: option.split)
qed simp

text \<open>Fields with ids that the schema does not have are ignored.\<close>

lemma view_known:
  assumes "base_shaped b x"
  shows "view_object (Schema md b fs) (Struct md1 x vs) =
    view_object (Schema md b fs) (Struct md1 x (filter (\<lambda>f. field_id f \<in> fd_id ` set fs) vs))"
proof (rule view_fields_cong [OF assms])
  fix vars required
  have "fd_id (fst g) \<in> fd_id ` set fs" if "g \<in> set (view_fields fs)" for g
    using that map_fst_view_fields [of fs] by (metis imageI list.set_map)
  then show "view_level fs (view_fields fs) (concat (map (present True) vs)) vars required =
      view_level fs (view_fields fs)
        (concat (map (present True) (filter (\<lambda>f. field_id f \<in> fd_id ` set fs) vs))) vars required"
    by (intro view_level_cong) (simp add: map_of_known)
qed

lemma base_shaped_of: "shaped_struct (Schema md b fs) (Struct md1 x vs) \<Longrightarrow> base_shaped b x"
  by (cases b; cases x) (auto simp: base_shaped_def)

lemma view_unknown_ignored:
  assumes "conforms (Schema md b fs) (Struct md x vs)" and "wf_struct True (Struct md x vs)"
    and "filter (\<lambda>f. field_id f \<in> fd_id ` set fs) ws = vs"
  shows "view_object (Schema md b fs) (Struct md1 x ws) = Inr (erase_struct (Struct md x vs))"
proof -
  have "base_shaped b x" using assms(1) base_shaped_of [of md b fs md x vs] by (simp add: conforms_def)
  from view_known [OF this, of md fs md1 ws] assms(3)
  have "view_object (Schema md b fs) (Struct md1 x ws) = view_object (Schema md b fs) (Struct md1 x vs)" by simp
  also have "\<dots> = view_object (Schema md b fs) (Struct md x vs)"
    using \<open>base_shaped b x\<close> by (rule view_fields_cong) simp
  finally show ?thesis using view_object_exact [OF assms(1,2)] by simp
qed

text \<open>Fields that the payload's schema did not have keep their defaults.\<close>

lemma view_added_defaults:
  assumes old: "conforms (Schema md b (filter old fs)) (Struct md x vs)" "wf_struct True (Struct md x vs)"
    and new: "schema_ok (Schema md b fs)" "schema_sorted (Schema md b fs)"
      "\<forall>fd \<in> set fs. \<not> old fd \<longrightarrow> md_modifier (fd_metadata fd) \<noteq> Required"
  shows "view_object (Schema md b fs) (Struct md x vs) =
    Inr (Struct md (map_option erase_struct x) (with_defaults old fs (map erase_field vs)))"
proof -
  have ids: "sorted_wrt (<) (map fd_id fs)"
    using new(2) by (cases b) (auto intro: schema_sorted_ids)
  have exact: "shaped_fields (filter old fs) vs" "wf_fields True vs" "exact_fields (filter old fs) vs"
    "schema_ok_fields (filter old fs)" "schema_sorted_fields (filter old fs)"
    using old by (cases b; cases x; auto simp: conforms_def)+
  then have level: "level_exact (filter old fs) vs" by (intro view_exact(2)) auto
  have top: "view_read base (view_fields fs) md y ((concat (map (present True) vs), f) # L) (default_fields fs) =
      Inr (base \<and> \<not> f, Struct md y (with_defaults old fs (map erase_field vs)))" for base y f L
    using view_level_added [of "[]" fs old vs] ids new(3) exact level by (simp add: view_read_def Validate_struct_def)
  show ?thesis
  proof (cases b)
    case None
    with old(1) top show ?thesis by (cases x) (auto simp: view_object_def conforms_def)
  next
    case (Some b0)
    with old obtain x0 where x: "x = Some x0" "shaped_struct b0 x0" "exact_struct b0 x0" "wf_struct True x0"
      "schema_ok b0" "schema_sorted b0"
      by (cases x) (auto simp: conforms_def)
    then show ?thesis
      using Some top levels_length [OF x(2), of True True] view_exact(3) [of b0 x0 True]
      by (simp add: view_object_def)
  qed
qed

section \<open>Required fields\<close>

definition matching_type :: "btype \<Rightarrow> bvalue \<Rightarrow> bool" where
  "matching_type t x \<longleftrightarrow>
     GetTypeId x = get_type_id t \<or> is_basic_type t \<and> is_matching_basic (GetTypeId x) (get_type_id t)"

definition supplied :: "(u16 \<times> bvalue) list \<Rightarrow> fdef \<Rightarrow> bool" where
  "supplied ps fd \<longleftrightarrow> (\<exists>x. map_of ps (fd_id fd) = Some x \<and> matching_type (fd_type fd) x)"

lemma view_level_step:
  assumes "view_level fs ((fd, el) # heads) ps vars r = Inr (vars', r')"
  obtains vs vs' r1 where "view_level fs heads ps vs r1 = Inr (vs', r')"
    "r1 = (if supplied ps fd \<and> md_modifier (fd_metadata fd) = Required
      then next_required_field fs (fd_id fd + 1) else r)"
    "supplied ps fd \<Longrightarrow> md_modifier (fd_metadata fd) = Required \<Longrightarrow> r = fd_id fd"
proof -
  from assms obtain var vs where vars: "vars = var # vs" by (cases vars) auto
  with assms that show thesis
    by (auto simp: view_field_def matching_type_def supplied_def Let_def Validate_field_def res_bind_def
        split: option.splits if_splits sum.splits)
qed

text \<open>A required field that was missed stays the one to come next.\<close>

lemma view_level_missed:
  "view_level fs heads ps vars required = Inr (vars', required') \<Longrightarrow>
   \<forall>h \<in> set heads. fd_id (fst h) \<noteq> required \<Longrightarrow> required' = required"
proof (induction heads arbitrary: vars vars')
  case Nil
  then show ?case by simp
next
  case (Cons h heads)
  obtain fd el where h: "h = (fd, el)" by (cases h)
  from Cons.prems(1) [unfolded h] Cons.prems(2) h show ?case
    by (cases rule: view_level_step) (use Cons.IH in \<open>auto split: if_splits\<close>)
qed

lemma view_level_required:
  "sorted_wrt (<) (map fd_id (qs @ map fst heads)) \<Longrightarrow> \<forall>h \<in> set heads. fd_id (fst h) \<noteq> invalid_field_id \<Longrightarrow>
   view_level (qs @ map fst heads) heads ps vars (next_required_field (map fst heads) 0) = Inr (vars', invalid_field_id) \<Longrightarrow>
   fd \<in> fst ` set heads \<Longrightarrow> md_modifier (fd_metadata fd) = Required \<Longrightarrow> supplied ps fd"
proof (induction heads arbitrary: qs vars vars')
  case (Cons h heads)
  obtain gd gl where h: "h = (gd, gl)" by (cases h)
  let ?fs = "qs @ gd # map fst heads" and ?r = "next_required_field (gd # map fst heads) 0"
  have valid: "Validate_field ?fs gd ?r = Inr (next_required_field (map fst heads) 0)"
    using Cons.prems(1,2) h by (intro Validate_field_next) auto
  have "view_level ?fs ((gd, gl) # heads) ps vars ?r = Inr (vars', invalid_field_id)"
    using Cons.prems(3) h by simp
  then obtain vs vs' r1 where rest: "view_level ?fs heads ps vs r1 = Inr (vs', invalid_field_id)"
    and r1: "r1 = (if supplied ps gd \<and> md_modifier (fd_metadata gd) = Required
      then next_required_field ?fs (fd_id gd + 1) else ?r)"
    by (rule view_level_step)
  have gd: "supplied ps gd" if req: "md_modifier (fd_metadata gd) = Required"
  proof (rule ccontr)
    assume "\<not> ?thesis"
    then have "r1 = fd_id gd" using r1 req by (simp add: next_required_cons)
    moreover have "\<forall>h' \<in> set heads. fd_id (fst h') \<noteq> fd_id gd"
      using Cons.prems(1) h by (auto simp: sorted_wrt_append)
    ultimately have "invalid_field_id = fd_id gd" using view_level_missed [OF rest] by simp
    then show False using Cons.prems(2) h by simp
  qed
  then have "r1 = next_required_field (map fst heads) 0"
    using r1 valid by (auto simp: Validate_field_def next_required_cons split: if_splits)
  then have "supplied ps fd" if "fd \<in> fst ` set heads"
    using Cons.IH [of "qs @ [gd]" vs vs'] Cons.prems h rest that by auto
  then show ?case using Cons.prems(4,5) gd h by auto
qed simp

lemma view_required:
  assumes "view_object (Schema md None fs) x = Inr y"
    and "schema_sorted (Schema md None fs)" "\<forall>fd \<in> set fs. fd_id fd \<noteq> invalid_field_id"
    and "fd \<in> set fs" "md_modifier (fd_metadata fd) = Required"
  shows "supplied (fst (hd (levels True False x))) fd"
proof -
  have ids: "sorted_wrt (<) (map fd_id fs)" using assms(2) by (auto intro: schema_sorted_ids)
  from assms(1) obtain vs where
    "view_level fs (view_fields fs) (fst (hd (levels True False x))) (default_fields fs) (next_required_field fs 0) =
      Inr (vs, invalid_field_id)"
    by (auto simp: view_object_def view_read_def Validate_struct_def res_bind_def split: sum.splits if_splits)
  moreover have "fd \<in> fst ` set (view_fields fs)"
    using assms(4) map_fst_view_fields [of fs] by (metis list.set_map)
  moreover have "\<forall>h \<in> set (view_fields fs). fd_id (fst h) \<noteq> invalid_field_id"
    using assms(3) map_fst_view_fields [of fs] by (metis imageI list.set_map)
  ultimately show ?thesis
    using view_level_required [of "[]" "view_fields fs" "fst (hd (levels True False x))"] ids assms(5) by auto
qed

section \<open>Wider types\<close>

text \<open>A basic field of the payload and the field of the schema, of a type it can be promoted to\<close>

fun widens :: "fdef \<Rightarrow> bfield \<Rightarrow> bool" where
  "widens (FieldDef fid md mb t) (Field fid' md' v) =
     (\<not> mb \<and> fid' = fid \<and> fid \<noteq> invalid_field_id \<and> is_basic_type t \<and> is_basic v \<and>
      is_matching_basic (GetTypeId v) (get_type_id t) \<and> (omit_field True md' v \<longrightarrow> md_modifier md \<noteq> Required))"
| "widens fd f = False"

fun widened :: "fdef \<Rightarrow> bfield \<Rightarrow> bfield" where
  "widened fd (Field fid' md' v) =
     (if omit_field True md' v then default_field fd
      else Field (fd_id fd) (fd_metadata fd) (static_cast (get_type_id (fd_type fd)) v))"
| "widened fd f = f"

lemma view_field_widened:
  assumes "widens fd f" and "present True f = [(fd_id fd, v)]"
    and "Validate_field fs fd r = Inr r'" and "fd_type fd = TBasic e" "is_matching_basic (GetTypeId v) e"
  shows "view_field fs fd (view_type (fd_type fd)) v (default_field fd) r = Inr (widened fd f, r')"
  using assms
  by (cases fd; cases f) (auto simp: view_field_def view_basic_def Let_def split: if_splits option.splits)

lemma view_level_widened:
  "sorted_wrt (<) (map fd_id (ps @ fs)) \<Longrightarrow> list_all2 widens fs vs \<Longrightarrow>
   view_level (ps @ fs) (view_fields fs) (concat (map (present True) vs)) (default_fields fs)
     (next_required_field fs 0) = Inr (map2 widened fs vs, invalid_field_id)"
proof (induction fs arbitrary: ps vs)
  case Nil
  then show ?case by (simp add: next_required_field_def)
next
  case (Cons fd fs)
  from Cons.prems(2) obtain f ws where vs: "vs = f # ws" "widens fd f" "list_all2 widens fs ws"
    by (auto simp: list_all2_Cons1)
  obtain fid md t where fd: "fd = FieldDef fid md False t" using vs(2) by (cases fd; cases f) auto
  obtain md' v where f: "f = Field fid md' v" using vs(2) fd by (cases f) auto
  obtain e where t: "t = TBasic e" using vs(2) fd f by (cases t) auto
  let ?qs = "concat (map (present True) ws)"
  have ids: "\<forall>g \<in> set fs. fid < fd_id g" using Cons.prems(1) fd by (auto simp: sorted_wrt_append)
  have "map field_id ws = map fd_id fs"
    using vs(3) by (induction rule: list_all2_induct) (auto simp: field_id_def elim!: widens.elims)
  then have "\<forall>g \<in> set ws. fid < field_id g" using ids by (metis (no_types, lifting) imageE imageI list.set_map)
  then have above: "\<forall>q \<in> set ?qs. fid < fst q" using present_id by fastforce
  have views: "\<forall>g \<in> set (view_fields fs). fid < fd_id (fst g)"
    using ids map_fst_view_fields [of fs] by (metis imageI list.set_map)
  have IH: "view_level (ps @ fd # fs) (view_fields fs) ?qs (default_fields fs) (next_required_field fs 0) =
      Inr (map2 widened fs ws, invalid_field_id)"
    using Cons.IH [of "ps @ [fd]" ws] Cons.prems(1) vs(3) by simp
  show ?case
  proof (cases "omit_field True md' v")
    case True
    have "next_required_field (fd # fs) 0 = next_required_field fs 0"
      using True vs(2) fd f by (simp add: next_required_cons)
    with True vs(1) fd f IH map_of_above [OF above] show ?thesis by simp
  next
    case False
    have "Validate_field (ps @ fd # fs) fd (next_required_field (fd # fs) 0) = Inr (next_required_field fs 0)"
      using Cons.prems(1) vs(2) fd f by (intro Validate_field_next) auto
    then have "view_field (ps @ fd # fs) fd (view_type t) v (default_field fd) (next_required_field (fd # fs) 0) =
        Inr (widened fd f, next_required_field fs 0)"
      using view_field_widened [OF vs(2)] False vs(2) fd f t by simp
    with False vs(1) fd f IH view_level_drop [OF views, of "ps @ fd # fs" v ?qs] show ?thesis by simp
  qed
qed

lemma view_widened:
  assumes "schema_sorted (Schema md None fs)" and "list_all2 widens fs vs"
  shows "view_object (Schema md None fs) (Struct md' None vs) = Inr (Struct md None (map2 widened fs vs))"
  using view_level_widened [of "[]" fs vs] assms schema_sorted_ids [of fs]
  by (simp add: view_object_def view_read_def Validate_struct_def)

text \<open>A widened integer is the same number.\<close>

lemma widened_number:
  assumes "widens fd (Field fid md v)" and "\<not> omit_field True md v"
    and "is_unsigned_tag (get_type_id (fd_type fd)) \<or> is_signed_tag (get_type_id (fd_type fd))"
  shows "\<exists>w. widened fd (Field fid md v) = Field (fd_id fd) (fd_metadata fd) w \<and>
    GetTypeId w = get_type_id (fd_type fd) \<and> number_of w = number_of v"
  using assms static_cast_number [of v] static_cast_type [of v] by (cases fd) simp

lemma widens_ordered:
  assumes "schema_sorted (Schema md None fs)" and "list_all2 widens fs vs"
  shows "ordered_struct (Struct md' None vs)"
proof -
  have basic: "is_basic v \<Longrightarrow> ordered v" for v by (cases v) auto
  from assms(2) have "map field_id vs = map fd_id fs \<and> list_all ordered_field vs"
    by (induction rule: list_all2_induct) (auto simp: field_id_def basic elim!: widens.elims)
  with assms(1) schema_sorted_ids [of fs] show ?thesis by (simp add: list_all_iff)
qed

text \<open>How a field of the result is related to the payload field\<close>

fun same_number :: "fdef \<Rightarrow> bfield \<Rightarrow> bfield \<Rightarrow> bool" where
  "same_number fd (Field fid md v) w =
     (if omit_field True md v then w = default_field fd
      else \<exists>u. w = Field (fd_id fd) (fd_metadata fd) u \<and> GetTypeId u = get_type_id (fd_type fd) \<and>
        number_of u = number_of v)"
| "same_number fd f w = False"

lemma widened_numbers:
  "list_all2 widens fs vs \<Longrightarrow>
   \<forall>fd \<in> set fs. is_unsigned_tag (get_type_id (fd_type fd)) \<or> is_signed_tag (get_type_id (fd_type fd)) \<Longrightarrow>
   list_all2 (\<lambda>(fd, f) w. same_number fd f w) (zip fs vs) (map2 widened fs vs)"
proof (induction rule: list_all2_induct)
  case (Cons fd fs f vs)
  obtain fid md v where f: "f = Field fid md v" using Cons.hyps(1) by (cases fd; cases f) auto
  have "same_number fd f (widened fd f)"
    using widened_number [of fd fid md v] Cons f by auto
  with Cons show ?case by simp
qed simp

end
