(* ===== verification/Validation_Sound.thy ===== *)
theory Validation_Sound
  imports Schema_Validation Schema_Evolution
begin

text \<open>
  Validation is sound: if the run-time schema of a source type validates against that of a
  destination type, then every object of the source type can be deserialized as the destination type.
  \<open>compat_struct\<close> is the compatibility that validation decides, stated on the compile-time schemas; a
  successful validation establishes it, and it suffices for the view of theory \<open>Payload_View\<close> to have
  a result.
\<close>

section \<open>Compatible types\<close>

fun element_of :: "btype \<Rightarrow> btype option" where
  "element_of TBlob = Some (TBasic BT_INT8)"
| "element_of (TNullable e) = Some e"
| "element_of (TList e) = Some e"
| "element_of (TSet t) = Some (TBasic t)"
| "element_of (TMap k e) = Some e"
| "element_of t = None"

abbreviation required :: "fdef \<Rightarrow> bool" where
  "required f \<equiv> md_modifier (fd_metadata f) = Required"

abbreviation optional :: "fdef \<Rightarrow> bool" where
  "optional f \<equiv> md_modifier (fd_metadata f) = Optional"

inductive compat_type :: "btype \<Rightarrow> btype \<Rightarrow> bool" and compat_struct :: "sschema \<Rightarrow> sschema \<Rightarrow> bool" where
  promoted: "get_type_id s \<noteq> get_type_id d \<Longrightarrow> ValidateTypeId (get_type_id s) (get_type_id d) \<Longrightarrow> compat_type s d"
| basic: "compat_type (TBasic t) (TBasic t)"
| container: "get_type_id s = get_type_id d \<Longrightarrow> element_of s = Some es \<Longrightarrow> element_of d = Some ed \<Longrightarrow>
    compat_type es ed \<Longrightarrow> compat_type s d"
| struct: "compat_struct a b \<Longrightarrow> compat_type (TStruct a) (TStruct b)"
| root: "\<forall>g \<in> set gs.
      (\<exists>f \<in> set fs. fd_id f = fd_id g \<and> \<not> (required g \<and> optional f) \<and> compat_type (fd_type f) (fd_type g)) \<or>
      fd_id g \<notin> fd_id ` set fs \<and> \<not> required g \<Longrightarrow>
    compat_struct (Schema md None fs) (Schema md' None gs)"
| derived: "compat_struct b b' \<Longrightarrow> depth b = depth b' \<Longrightarrow> \<forall>g \<in> set gs.
      (\<exists>f \<in> set fs. fd_id f = fd_id g \<and> \<not> (required g \<and> optional f) \<and> compat_type (fd_type f) (fd_type g)) \<or>
      fd_id g \<notin> fd_id ` set fs \<and> \<not> required g \<Longrightarrow>
    compat_struct (Schema md (Some b) fs) (Schema md' (Some b') gs)"
| slice: "compat_struct b d \<Longrightarrow> depth d \<le> depth b \<Longrightarrow> compat_struct (Schema md (Some b) fs) d"

definition compat_fields :: "fdef list \<Rightarrow> fdef list \<Rightarrow> bool" where
  "compat_fields fs gs \<longleftrightarrow> (\<forall>g \<in> set gs.
      (\<exists>f \<in> set fs. fd_id f = fd_id g \<and> \<not> (required g \<and> optional f) \<and> compat_type (fd_type f) (fd_type g)) \<or>
      fd_id g \<notin> fd_id ` set fs \<and> \<not> required g)"

section \<open>The weight of a type\<close>

text \<open>Types with the same run-time schema differ only in the kinds of their lists.\<close>

function (sequential) weight_type :: "btype \<Rightarrow> nat"
  and weight_fields :: "fdef list \<Rightarrow> nat"
  and weight :: "sschema \<Rightarrow> nat" where
  "weight_type (TNullable e) = Suc (weight_type e)"
| "weight_type (TList e) = Suc (weight_type e)"
| "weight_type (TMap k e) = Suc (weight_type e)"
| "weight_type (TStruct s) = weight s"
| "weight_type TBlob = 2"
| "weight_type (TSet t) = 2"
| "weight_type (TBasic t) = 1"
| "weight_fields [] = 0"
| "weight_fields (FieldDef fid md mb t # fs) = weight_type t + weight_fields fs"
| "weight (Schema md None fs) = Suc (weight_fields fs)"
| "weight (Schema md (Some b) fs) = Suc (weight b + weight_fields fs)"
  by pat_completeness auto
termination
  by (relation "measure (case_sum size (case_sum (size_list size) size))") auto

lemma rep_simple: "rep_type m (simple_td t) x \<Longrightarrow> is_basic_tag t \<Longrightarrow> weight_type x = 1"
  by (cases x) (auto split: option.splits)

lemma rep_weight:
  "schema_ok_type t \<Longrightarrow> schema_ok_type t' \<Longrightarrow> rep_type m td t \<Longrightarrow> rep_type m td t' \<Longrightarrow> weight_type t = weight_type t'"
  "schema_ok_fields fs \<Longrightarrow> schema_ok_fields fs' \<Longrightarrow> rep_fields m rfs fs \<Longrightarrow> rep_fields m rfs fs' \<Longrightarrow> weight_fields fs = weight_fields fs'"
  "schema_ok s \<Longrightarrow> schema_ok s' \<Longrightarrow> rep_struct m i s \<Longrightarrow> rep_struct m i s' \<Longrightarrow> weight s = weight s'"
proof (induction m td t and m rfs fs and m i s arbitrary: t' and fs' and s'
    rule: rep_type_rep_fields_rep_struct.induct)
  case (1 m td t)
  then show ?case by (cases t') (auto split: option.splits)
next
  case (2 m td)
  then show ?case by (cases t') (auto split: option.splits dest: rep_simple)
next
  case (3 m td e)
  from "3.prems"(3) obtain te where te: "td_element td = Some te" "td = TypeDef BT_LIST 0 (Some te) None False" "rep_type m te e"
    by (cases "td_element td") simp_all
  have "schema_ok_type u \<Longrightarrow> rep_type m te u \<Longrightarrow> weight_type e = weight_type u" for u
    using "3.IH" [OF te(1)] "3.prems"(1) te(3) by simp
  moreover have "weight_type e = 1" if "te = simple_td BT_INT8" using rep_simple [of m BT_INT8 e] te(3) that by simp
  ultimately show ?case using "3.prems"(2,4) te(2) by (cases t') auto
next
  case (4 m td e)
  from "4.prems"(3) obtain te where te: "td_element td = Some te" "td = TypeDef BT_LIST 0 (Some te) None False" "rep_type m te e"
    by (cases "td_element td") simp_all
  have "schema_ok_type u \<Longrightarrow> rep_type m te u \<Longrightarrow> weight_type e = weight_type u" for u
    using "4.IH" [OF te(1)] "4.prems"(1) te(3) by simp
  moreover have "weight_type e = 1" if "te = simple_td BT_INT8" using rep_simple [of m BT_INT8 e] te(3) that by simp
  ultimately show ?case using "4.prems"(2,4) te(2) by (cases t') auto
next
  case (5 m td t)
  then show ?case by (cases t') (auto split: option.splits)
next
  case (6 m td k e)
  from "6.prems"(3) obtain te where te: "td_element td = Some te"
      "td = TypeDef BT_MAP 0 (Some te) (Some (simple_td k)) False" "rep_type m te e"
    by (cases "td_element td") simp_all
  have "schema_ok_type u \<Longrightarrow> rep_type m te u \<Longrightarrow> weight_type e = weight_type u" for u
    using "6.IH" [OF te(1)] "6.prems"(1) te(3) by simp
  then show ?case using "6.prems"(2,4) te(2) by (cases t') auto
next
  case (7 m td s)
  from "7.prems"(3) obtain i where i: "td = struct_td i" "rep_struct m (unat i) s" by simp metis
  have "schema_ok u \<Longrightarrow> rep_struct m (unat i) u \<Longrightarrow> weight s = weight u" for u
    using "7.IH" "7.prems"(1) i by simp
  then show ?case using "7.prems"(2,4) i(1) by (cases t') auto
next
  case (8 m rfs)
  then show ?case by (cases "(m, rfs, fs')" rule: rep_fields.cases) auto
next
  case (9 m rfs fid md mb t fs)
  from "9.prems"(3) obtain f rest where f: "rfs = f # rest" "rep_type m (rf_type f) t" "rep_fields m rest fs"
    by (cases rfs) auto
  have ih: "schema_ok_type u \<Longrightarrow> rep_type m (rf_type f) u \<Longrightarrow> weight_type t = weight_type u"
    "schema_ok_fields us \<Longrightarrow> rep_fields m rest us \<Longrightarrow> weight_fields fs = weight_fields us" for u us
    using "9.IH" [OF f(1)] "9.prems"(1) f by auto
  show ?case using "9.prems"(2,4) f(1) ih by (cases "(m, rfs, fs')" rule: rep_fields.cases) auto
next
  case (10 m i md fs)
  from "10.prems"(3) obtain d where d: "m i = Some d" "st_base_def d = None" "rep_fields m (st_fields d) fs"
    by (cases "m i") auto
  have "schema_ok_fields us \<Longrightarrow> rep_fields m (st_fields d) us \<Longrightarrow> weight_fields fs = weight_fields us" for us
    using "10.IH" [OF d(1)] "10.prems"(1) d by simp
  then show ?case using "10.prems"(2,4) d by (cases "(m, i, s')" rule: rep_struct.cases) auto
next
  case (11 m i md b fs)
  from "11.prems"(3) obtain d where d: "m i = Some d" "rep_fields m (st_fields d) fs" "st_base_def d \<noteq> None"
    by (cases "m i") (auto split: option.splits)
  then obtain t where t: "st_base_def d = Some t" "rep_struct m (unat (td_struct_def t)) b"
    using "11.prems"(3) by (cases "st_base_def d") auto
  have ih: "schema_ok_fields us \<Longrightarrow> rep_fields m (st_fields d) us \<Longrightarrow> weight_fields fs = weight_fields us"
    "schema_ok u \<Longrightarrow> rep_struct m (unat (td_struct_def t)) u \<Longrightarrow> weight b = weight u" for u us
    using "11.IH" d(1,2) t "11.prems"(1) by auto
  show ?case using "11.prems"(2,4) d t(1) ih by (cases "(m, i, s')" rule: rep_struct.cases) auto
qed

section \<open>Validation establishes compatibility\<close>

lemma rep_type_id: "rep_type m td t \<Longrightarrow> td_id td = get_type_id t"
  by (cases t) (auto split: option.splits, metis TypeDef.sel(1))

lemma rep_element: "rep_type m td t \<Longrightarrow> element_of t = Some e \<Longrightarrow> \<exists>te. td_element td = Some te \<and> rep_type m te e"
  by (cases t) (auto split: option.splits)

lemma element_ok:
  assumes "schema_ok_type t" and "get_type_id t \<in> set [BT_LIST, BT_SET, BT_MAP]"
  obtains e where "element_of t = Some e" "weight_type e < weight_type t" "schema_ok_type e"
    "schema_sorted_type t \<Longrightarrow> schema_sorted_type e"
  using assms by (cases t) auto

definition small_schema :: "RuntimeSchema \<Rightarrow> bool" where
  "small_schema rs \<longleftrightarrow> length (sd_structs (rs_schema rs)) < 2 ^ 16"

abbreviation structs_at :: "RuntimeSchema \<Rightarrow> structs" where
  "structs_at rs \<equiv> structs_of (sd_structs (rs_schema rs))"

lemma small_schema_simps [simp]:
  "small_schema (RuntimeSchema_type rs t) = small_schema rs" "small_schema (RuntimeSchema_field rs f) = small_schema rs"
  by (simp_all add: small_schema_def)

lemma GetStruct_at: "structs_at rs (struct_index rs) = Some d \<Longrightarrow> GetStruct rs = Inr d"
  by (auto simp: structs_of_def GetStruct_def struct_index_def Let_def split: if_splits)

lemma schema_depth_rep:
  "schema_depth_from k rs = Inr e \<Longrightarrow> rep_struct (structs_at rs) (struct_index rs) s \<Longrightarrow> depth s \<le> k \<and> e = of_nat (depth s)"
proof (induction k arbitrary: rs e s)
  case (Suc k)
  obtain md b fs where s: "s = Schema md b fs" by (cases s)
  show ?case
  proof (cases b)
    case None
    with Suc.prems(2) s obtain d where "structs_at rs (struct_index rs) = Some d" "st_base_def d = None"
      by (auto split: option.splits)
    with Suc.prems(1) GetStruct_at [of rs d] s None show ?thesis by (simp add: HasBase_eq)
  next
    case (Some b)
    with Suc.prems(2) s obtain d t where d: "structs_at rs (struct_index rs) = Some d" "st_base_def d = Some t"
        "rep_struct (structs_at rs) (unat (td_struct_def t)) b"
      by (auto split: option.splits)
    with Suc.prems(1) GetStruct_at [of rs d] obtain e' where e: "schema_depth_from k (RuntimeSchema_type rs t) = Inr e'" "e = 1 + e'"
      by (auto simp: HasBase_eq GetBaseSchema_eq res_bind_Inr_iff)
    from Suc.IH [OF e(1), of b] d(3) e(2) s Some show ?thesis by (simp add: struct_index_def)
  qed
qed simp

text \<open>The pairs of structs on the list are larger than what is being validated.\<close>

definition list_inv :: "RuntimeSchema \<Rightarrow> RuntimeSchema \<Rightarrow> (nat \<times> nat) list \<Rightarrow> nat \<Rightarrow> bool" where
  "list_inv src dst list n \<longleftrightarrow> (\<forall>(j, k) \<in> set list. \<exists>a b. schema_ok a \<and> schema_ok b \<and>
     rep_struct (structs_at src) k a \<and> rep_struct (structs_at dst) j b \<and> n < weight a + weight b)"

lemma list_inv_mono: "list_inv src dst list n \<Longrightarrow> n' \<le> n \<Longrightarrow> list_inv src dst list n'"
  by (fastforce simp: list_inv_def)

lemma list_inv_schema:
  "rs_schema src' = rs_schema src \<Longrightarrow> rs_schema dst' = rs_schema dst \<Longrightarrow> list_inv src' dst' list n = list_inv src dst list n"
  by (simp add: list_inv_def)

lemma list_inv_new:
  assumes "list_inv src dst list (weight a + weight b)" "schema_ok a" "schema_ok b"
    and "rep_struct (structs_at src) (struct_index src) a" "rep_struct (structs_at dst) (struct_index dst) b"
  shows "(struct_index dst, struct_index src) \<notin> set list"
    and "n < weight a + weight b \<Longrightarrow> list_inv src dst ((struct_index dst, struct_index src) # list) n"
proof -
  show "(struct_index dst, struct_index src) \<notin> set list"
  proof
    assume "(struct_index dst, struct_index src) \<in> set list"
    with assms(1) obtain a' b' where "schema_ok a'" "schema_ok b'" "weight a + weight b < weight a' + weight b'"
      "rep_struct (structs_at src) (struct_index src) a'" "rep_struct (structs_at dst) (struct_index dst) b'"
      by (auto simp: list_inv_def)
    moreover have "weight a = weight a'" "weight b = weight b'"
      using calculation assms(2-5) rep_weight(3) by metis+
    ultimately show False by simp
  qed
  show "list_inv src dst ((struct_index dst, struct_index src) # list) n" if "n < weight a + weight b"
    using assms list_inv_mono [OF assms(1), of n] that by (auto simp: list_inv_def)
qed

lemma compat_fields_skip:
  assumes "compat_fields fs gs" and "\<forall>g \<in> set gs. fd_id f < fd_id g"
  shows "compat_fields (f # fs) gs"
  using assms by (fastforce simp: compat_fields_def)

lemma compat_structI:
  "compat_fields fs gs \<Longrightarrow> compat_struct (Schema md None fs) (Schema md' None gs)"
  "compat_struct b b' \<Longrightarrow> depth b = depth b' \<Longrightarrow> compat_fields fs gs \<Longrightarrow>
    compat_struct (Schema md (Some b) fs) (Schema md' (Some b') gs)"
  unfolding compat_fields_def by (rule root derived; assumption)+

lemma depth_word:
  assumes "small_schema rs" "schema_depth rs = Inr e" "rep_struct (structs_at rs) (struct_index rs) s"
  shows "unat e = depth s"
  using schema_depth_rep [OF assms(2) [unfolded schema_depth_def] assms(3)] assms(1)
  by (simp add: small_schema_def unat_of_nat)

text \<open>A struct of a run-time schema and its base\<close>

lemma rep_structE:
  assumes "rep_struct (structs_at rs) (struct_index rs) (Schema md b fs)"
  obtains d where "GetStruct rs = Inr d" "rep_fields (structs_at rs) (st_fields d) fs" "st_base_def d = None" "b = None"
    | d t b0 where "GetStruct rs = Inr d" "rep_fields (structs_at rs) (st_fields d) fs" "st_base_def d = Some t" "b = Some b0"
      "GetBaseSchema rs = Inr (RuntimeSchema_type rs t)"
      "rep_struct (structs_at (RuntimeSchema_type rs t)) (struct_index (RuntimeSchema_type rs t)) b0"
proof (cases b)
  case None
  with assms that(1) GetStruct_at [of rs] show ?thesis by (auto split: option.splits)
next
  case (Some b0)
  with assms obtain d t where "structs_at rs (struct_index rs) = Some d" "st_base_def d = Some t"
      "rep_struct (structs_at rs) (unat (td_struct_def t)) b0" "rep_fields (structs_at rs) (st_fields d) fs"
    by (auto split: option.splits)
  with Some that(2) GetStruct_at [of rs d] GetBaseSchema_eq [of rs d t] show ?thesis by (simp add: struct_index_def)
qed

lemma depth_pos [simp]: "0 < depth s"
  by (induction s rule: depth.induct) simp_all

lemma validated_compat:
  "ValidateType src dst list i = Inr (True, i') \<Longrightarrow> rep_type (structs_at src) (rs_type src) s \<Longrightarrow>
     rep_type (structs_at dst) (rs_type dst) d \<Longrightarrow> schema_ok_type s \<Longrightarrow> schema_ok_type d \<Longrightarrow>
     schema_sorted_type s \<Longrightarrow> schema_sorted_type d \<Longrightarrow> small_schema src \<Longrightarrow> small_schema dst \<Longrightarrow>
     list_inv src dst list (weight_type s + weight_type d) \<Longrightarrow> compat_type s d"
  "ValidateFields ss ds src dst list i = Inr i'' \<Longrightarrow> rep_fields (structs_at src) ss fs \<Longrightarrow>
     rep_fields (structs_at dst) ds gs \<Longrightarrow> schema_ok_fields fs \<Longrightarrow> schema_ok_fields gs \<Longrightarrow>
     schema_sorted_fields fs \<Longrightarrow> schema_sorted_fields gs \<Longrightarrow> small_schema src \<Longrightarrow> small_schema dst \<Longrightarrow>
     list_inv src dst list (weight_fields fs + weight_fields gs) \<Longrightarrow> compat_fields fs gs"
  "ValidateStruct src dst list i = Inr i'' \<Longrightarrow> rep_struct (structs_at src) (struct_index src) a \<Longrightarrow>
     rep_struct (structs_at dst) (struct_index dst) b \<Longrightarrow> schema_ok a \<Longrightarrow> schema_ok b \<Longrightarrow>
     schema_sorted a \<Longrightarrow> schema_sorted b \<Longrightarrow> small_schema src \<Longrightarrow> small_schema dst \<Longrightarrow>
     list_inv src dst list (weight a + weight b) \<Longrightarrow> compat_struct a b"
proof (induction src dst list i and ss ds src dst list i and src dst list i
    arbitrary: s d i' and fs gs i'' and a b i''
    rule: ValidateType_ValidateFields_ValidateStruct.induct)
  case (1 src dst list i)
  note ids = rep_type_id [OF "1.prems"(2)] rep_type_id [OF "1.prems"(3)]
  show ?case
  proof (cases "rs_GetTypeId dst = rs_GetTypeId src")
    case False
    with "1.prems"(1) ids show ?thesis by (auto simp: ValidateType.simps intro: promoted)
  next
    case same: True
    let ?i = "i \<and> td_bonded_type (rs_type dst) = td_bonded_type (rs_type src)"
    show ?thesis
    proof (cases "rs_GetTypeId dst = BT_STRUCT")
      case True
      then obtain a b where ab: "s = TStruct a" "d = TStruct b"
        using ids same "1.prems"(4,5) by (cases s; cases d) auto
      then have "rs_type dst = struct_td (td_struct_def (rs_type dst))" "rs_type src = struct_td (td_struct_def (rs_type src))"
        using "1.prems"(2,3) by simp_all
      then have bonded: "\<not> td_bonded_type (rs_type dst)" "\<not> td_bonded_type (rs_type src)" by (metis TypeDef.sel(5))+
      with "1.prems"(1) same True obtain j where j: "ValidateStruct src dst list ?i = Inr j"
        by (auto simp: ValidateType.simps res_bind_Inr_iff)
      have "compat_struct a b"
        using "1.IH"(1) [OF _ refl _ j, of a b] same True bonded ab "1.prems" by (simp add: struct_index_def)
      then show ?thesis using ab struct by simp
    next
      case False
      show ?thesis
      proof (cases "rs_GetTypeId dst \<in> set [BT_LIST, BT_SET, BT_MAP]")
        case True
        obtain es where es: "element_of s = Some es" "weight_type es < weight_type s" "schema_ok_type es" "schema_sorted_type es"
          using element_ok [OF "1.prems"(4)] True ids same "1.prems"(6) by metis
        obtain ed where ed: "element_of d = Some ed" "weight_type ed < weight_type d" "schema_ok_type ed" "schema_sorted_type ed"
          using element_ok [OF "1.prems"(5)] True ids "1.prems"(7) by metis
        obtain ts where ts: "td_element (rs_type src) = Some ts" "rep_type (structs_at src) ts es"
          using rep_element [OF "1.prems"(2) es(1)] by auto
        obtain td where td: "td_element (rs_type dst) = Some td" "rep_type (structs_at dst) td ed"
          using rep_element [OF "1.prems"(3) ed(1)] by auto
        from "1.prems"(1) same False ts td obtain j where
          j: "ValidateType (RuntimeSchema_type src ts) (RuntimeSchema_type dst td) list ?i = Inr (True, j)"
          by (auto simp: ValidateType.simps [of src dst] res_bind_Inr_iff split: if_splits)
        have "list_inv src dst list (weight_type es + weight_type ed)"
          using list_inv_mono [OF "1.prems"(10)] es(2) ed(2) by simp
        then have "compat_type es ed"
          using "1.IH"(2) [OF _ refl _ td(1) ts(1) j, of es ed] same False ts td es ed "1.prems"(8,9)
          by (simp add: list_inv_schema [of "RuntimeSchema_type src ts" src "RuntimeSchema_type dst td" dst])
        then show ?thesis using container [OF _ es(1) ed(1)] ids same by simp
      next
        case basic: False
        then obtain t where "s = TBasic t" "d = TBasic t"
          using False ids same by (cases s; cases d) auto
        then show ?thesis by (simp add: compat_type_compat_struct.basic)
      qed
    qed
  qed
next
  case (2 ss src dst list i)
  then have "gs = []" by (cases "(structs_at dst, [] :: RFieldDef list, gs)" rule: rep_fields.cases) auto
  then show ?case by (simp add: compat_fields_def)
next
  case (3 rd ds src dst list i)
  from "3.prems"(3) obtain fid md mb t gs' where gs: "gs = FieldDef fid md mb t # gs'" "rf_metadata rd = md"
      "rep_fields (structs_at dst) ds gs'"
    by (cases "(structs_at dst, rd # ds, gs)" rule: rep_fields.cases) auto
  have fs: "fs = []" using "3.prems"(2) by (cases "(structs_at dst, [] :: RFieldDef list, fs)" rule: rep_fields.cases) auto
  from "3.prems"(1) gs have req: "md_modifier md \<noteq> Required" "ValidateFields [] ds src dst list i = Inr i''"
    by (auto simp: ValidateFields.simps split: if_splits)
  have "compat_fields fs gs'"
    using "3.IH" [OF _ req(2), of fs gs'] req "3.prems" gs fs list_inv_mono [OF "3.prems"(10)] by simp
  with req fs gs show ?case by (simp add: compat_fields_def)
next
  case (4 rs ss rd ds src dst list i)
  from "4.prems"(2) obtain fid md mb t fs' where fs: "fs = FieldDef fid md mb t # fs'" "rf_metadata rs = md" "rf_id rs = fid"
      "rep_type (structs_at src) (rf_type rs) t" "rep_fields (structs_at src) ss fs'"
    by (cases "(structs_at src, rs # ss, fs)" rule: rep_fields.cases) auto
  from "4.prems"(3) obtain gid gmd gmb u gs' where gs: "gs = FieldDef gid gmd gmb u # gs'" "rf_metadata rd = gmd" "rf_id rd = gid"
      "rep_type (structs_at dst) (rf_type rd) u" "rep_fields (structs_at dst) ds gs'"
    by (cases "(structs_at dst, rd # ds, gs)" rule: rep_fields.cases) auto
  have above: "\<forall>g \<in> set gs'. gid < fd_id g" "\<forall>f \<in> set fs'. fid < fd_id f"
    using "4.prems"(6,7) fs gs by (simp_all add: list_all_iff)
  consider (less) "fid < gid" | (greater) "gid < fid" | (same) "fid = gid" by fastforce
  then show ?case
  proof cases
    case less
    with "4.prems"(1) fs gs have "ValidateFields ss (rd # ds) src dst list i = Inr i''" by (simp add: ValidateFields.simps)
    then have "compat_fields fs' gs"
      using "4.IH"(1) [of i'' fs' gs] less "4.prems" fs gs list_inv_mono [OF "4.prems"(10)] by simp
    then show ?thesis unfolding fs(1) by (rule compat_fields_skip) (use above less gs in auto)
  next
    case greater
    with "4.prems"(1) fs gs have v: "md_modifier gmd \<noteq> Required" "ValidateFields (rs # ss) ds src dst list i = Inr i''"
      by (auto simp: ValidateFields.simps split: if_splits)
    then have "compat_fields fs gs'"
      using "4.IH"(2) [of i'' fs gs'] greater "4.prems" fs gs list_inv_mono [OF "4.prems"(10)] by simp
    then show ?thesis using v(1) greater above gs(1) fs(1) by (auto simp: compat_fields_def)
  next
    case same
    with "4.prems"(1) fs gs obtain j where v: "\<not> (md_modifier gmd = Required \<and> md_modifier md = Optional)"
        "ValidateType (RuntimeSchema_field src rs) (RuntimeSchema_field dst rd) list i = Inr (True, j)"
        "ValidateFields ss ds src dst list j = Inr i''"
      by (auto simp: ValidateFields.simps res_bind_Inr_iff split: if_splits)
    have "list_inv src dst list (weight_type t + weight_type u)"
      using list_inv_mono [OF "4.prems"(10)] fs(1) gs(1) by simp
    then have "compat_type t u"
      using "4.IH"(3) [OF _ _ _ v(2), of t u] same v(1) fs gs "4.prems"(4-9)
      by (simp add: list_inv_schema [of "RuntimeSchema_field src rs" src "RuntimeSchema_field dst rd" dst])
    moreover have "compat_fields fs' gs'"
      using "4.IH"(4) [OF _ _ _ v(2) refl _ v(3), of fs' gs'] same v fs gs "4.prems" list_inv_mono [OF "4.prems"(10)] by simp
    then have "compat_fields fs gs'" unfolding fs(1) by (rule compat_fields_skip) (use above same in auto)
    ultimately show ?thesis using same v(1) gs(1) fs(1) by (simp add: compat_fields_def)
  qed
next
  case (5 src dst list i)
  obtain md ba fs md' bb gs where a: "a = Schema md ba fs" and b: "b = Schema md' bb gs" by (cases a; cases b)
  obtain d where d: "GetStruct dst = Inr d" "rep_fields (structs_at dst) (st_fields d) gs"
    using rep_structE [of dst md' bb gs] "5.prems"(3) b by metis
  obtain c where c: "GetStruct src = Inr c" "rep_fields (structs_at src) (st_fields c) fs"
    using rep_structE [of src md ba fs] "5.prems"(2) a by metis
  let ?pair = "(struct_index dst, struct_index src)"
  note new = list_inv_new [OF "5.prems"(10,4,5,2,3)]
  from "5.prems"(1) d(1) c(1) new(1) obtain e f where e: "schema_depth dst = Inr e" and f: "schema_depth src = Inr f"
    and le: "\<not> f < e"
    by (auto simp: ValidateStruct.simps Let_def res_bind_Inr_iff split: if_splits)
  have depth: "unat e = depth b" "unat f = depth a"
    using depth_word "5.prems"(2,3,8,9) e f by auto
  show ?case
  proof (cases "e < f")
    case True
    then have "depth b < depth a" using depth by (simp add: word_less_nat_alt)
    then have "ba \<noteq> None" using a depth_pos [of b] by (cases ba) (simp_all del: depth_pos)
    then obtain t b0 where t: "ba = Some b0" "GetBaseSchema src = Inr (RuntimeSchema_type src t)"
        "rep_struct (structs_at (RuntimeSchema_type src t)) (struct_index (RuntimeSchema_type src t)) b0"
      using rep_structE [of src md ba fs] "5.prems"(2) a by metis
    have v: "ValidateStruct (RuntimeSchema_type src t) dst (?pair # list) False = Inr i''"
      using "5.prems"(1) d(1) c(1) new(1) e f le True t(2) by (simp add: ValidateStruct.simps [of src dst] Let_def)
    have "list_inv src dst (?pair # list) (weight b0 + weight b)" using new(2) a t(1) by simp
    then have "compat_struct b0 b"
      using "5.IH"(1) [OF d(1) c(1) refl new(1) e f le True t(2) v, of b0 b] t "5.prems" a
      by (simp add: list_inv_schema [of "RuntimeSchema_type src t" src dst dst])
    then show ?thesis using slice \<open>depth b < depth a\<close> a t(1) by simp
  next
    case False
    then have eq: "depth a = depth b" using le depth by (simp add: word_less_nat_alt)
    from "5.prems"(1) d(1) c(1) new(1) e f le False obtain j where
      j: "(if st_base_def d \<noteq> None
           then res_bind (GetBaseSchema src) (\<lambda>b. res_bind (GetBaseSchema dst) (\<lambda>c. ValidateStruct b c (?pair # list) i))
           else Inr i) = Inr j"
        "ValidateFields (st_fields c) (st_fields d) src dst (?pair # list)
           (j \<and> length (st_fields d) = length (st_fields c)) = Inr i''"
      by (auto simp: ValidateStruct.simps [of src dst] Let_def res_bind_Inr_iff)
    have ok: "schema_ok_fields fs" "schema_ok_fields gs" "schema_sorted_fields fs" "schema_sorted_fields gs"
        "weight_fields fs < weight a" "weight_fields gs < weight b"
      using "5.prems"(4-7) a b by (cases ba; cases bb; simp)+
    have "list_inv src dst (?pair # list) (weight_fields fs + weight_fields gs)" using new(2) ok(5,6) by simp
    then have fields: "compat_fields fs gs"
      using "5.IH"(3) [OF d(1) c(1) refl new(1) e f le False j(1) j(2), of fs gs] c d ok "5.prems"(8,9) by simp
    show ?thesis
    proof (cases bb)
      case None
      then have "ba = None" using eq a b depth_pos [of "the ba"] by (cases ba) (simp_all del: depth_pos)
      with None fields a b show ?thesis by (simp add: compat_structI)
    next
      case (Some b1)
      then obtain b0 where b0: "ba = Some b0" "depth b0 = depth b1" using eq a b depth_pos [of b1] by (cases ba) auto
      obtain t where t: "GetBaseSchema src = Inr (RuntimeSchema_type src t)"
          "rep_struct (structs_at (RuntimeSchema_type src t)) (struct_index (RuntimeSchema_type src t)) b0"
        using rep_structE [of src md ba fs] "5.prems"(2) a b0(1) by (metis option.distinct(1) option.sel)
      obtain u where u: "GetBaseSchema dst = Inr (RuntimeSchema_type dst u)" "st_base_def d = Some u"
          "rep_struct (structs_at (RuntimeSchema_type dst u)) (struct_index (RuntimeSchema_type dst u)) b1"
        using rep_structE [of dst md' bb gs] "5.prems"(3) b Some d(1) by (metis option.distinct(1) option.sel sum.sel(2))
      have v: "ValidateStruct (RuntimeSchema_type src t) (RuntimeSchema_type dst u) (?pair # list) i = Inr j"
        using j(1) t(1) u by simp
      have "list_inv src dst (?pair # list) (weight b0 + weight b1)" using new(2) a b b0(1) Some by simp
      then have "compat_struct b0 b1"
        using "5.IH"(2) [OF d(1) c(1) refl new(1) e f le False _ t(1) u(1) v, of b0 b1] t u "5.prems" a b b0(1) Some
        by (simp add: list_inv_schema [of "RuntimeSchema_type src t" src "RuntimeSchema_type dst u" dst])
      then show ?thesis using b0 Some a b fields by (simp add: compat_structI)
    qed
  qed
qed

end
