(* ===== verification/Compatible_Payload.thy ===== *)
theory Compatible_Payload
  imports Validation_Sound
begin

text \<open>
  A payload of a compatible type can be viewed as the destination type: no required field is missing,
  the hierarchy of the payload is deep enough, and elements, mapped values and nested structs can be
  viewed in turn. With theory \<open>Validation_Sound\<close> this is the promise of \<open>Validate\<close>.
\<close>

section \<open>Declared types\<close>

text \<open>What the compiler guarantees of a schema: fields listed by increasing id, below the invalid id\<close>

fun ids_valid :: "sschema \<Rightarrow> bool" where
  "ids_valid (Schema md b fs) = (\<forall>f \<in> set fs. fd_id f \<noteq> invalid_field_id)"

definition declared :: "sschema \<Rightarrow> bool" where
  "declared s \<longleftrightarrow> schema_ok s \<and> schema_sorted s \<and> (\<forall>t \<in> set (structs_in s). ids_valid t)"

definition declared_type :: "btype \<Rightarrow> bool" where
  "declared_type t \<longleftrightarrow> schema_ok_type t \<and> schema_sorted_type t \<and> (\<forall>s \<in> set (structs_in_type t). ids_valid s)"

lemma declared_struct [simp]: "declared_type (TStruct s) = declared s"
  by (simp add: declared_def declared_type_def)

lemma declared_element: "declared_type t \<Longrightarrow> element_of t = Some e \<Longrightarrow> declared_type e"
  by (cases t) (auto simp: declared_type_def)

lemma declared_fields:
  "schema_ok_fields fs \<Longrightarrow> schema_sorted_fields fs \<Longrightarrow> \<forall>s \<in> set (structs_in_fields fs). ids_valid s \<Longrightarrow>
   f \<in> set fs \<Longrightarrow> declared_type (fd_type f)"
proof (induction fs)
  case (Cons g fs)
  then show ?case by (cases g) (auto simp: declared_type_def)
qed simp

lemma declared_parts:
  assumes "declared (Schema md b fs)"
  shows "sorted_wrt (<) (map fd_id fs)" "f \<in> set fs \<Longrightarrow> declared_type (fd_type f)"
    "f \<in> set fs \<Longrightarrow> fd_id f \<noteq> invalid_field_id" "b = Some b0 \<Longrightarrow> declared b0"
proof -
  have fs: "schema_ok_fields fs" "schema_sorted_fields fs" "\<forall>s \<in> set (structs_in_fields fs). ids_valid s"
      "ids_valid (Schema md b fs)"
    using assms by (cases b; auto simp: declared_def)+
  then show "sorted_wrt (<) (map fd_id fs)" "f \<in> set fs \<Longrightarrow> declared_type (fd_type f)"
    "f \<in> set fs \<Longrightarrow> fd_id f \<noteq> invalid_field_id"
    using schema_sorted_ids declared_fields by auto
  show "b = Some b0 \<Longrightarrow> declared b0" using assms by (simp add: declared_def)
qed

section \<open>Containers\<close>

text \<open>A payload value can be read into every variable of the type.\<close>

definition reads_into :: "(bvalue \<Rightarrow> bool) \<Rightarrow> view \<Rightarrow> bvalue \<Rightarrow> bool" where
  "reads_into P el x \<longleftrightarrow> (\<forall>var. P var \<longrightarrow> (\<exists>y. el x var = Inr y \<and> P y))"

abbreviation accepts :: "btype \<Rightarrow> bvalue \<Rightarrow> bool" where
  "accepts t \<equiv> reads_into (shaped t) (view_type t)"

lemma reads_intoE:
  assumes "reads_into P el x" "P var"
  obtains y where "el x var = Inr y" "P y"
  using assms by (auto simp: reads_into_def)

lemma accepts_basic: "is_basic x \<Longrightarrow> is_matching_basic (GetTypeId x) t \<Longrightarrow> accepts (TBasic t) x"
  using static_cast_type [of x t] by (simp add: reads_into_def view_basic_def)

lemma view_items_accepts:
  "list_all (reads_into P el) xs \<Longrightarrow> list_all P vs \<Longrightarrow> length vs = length xs \<Longrightarrow>
   \<exists>ys. view_items el xs vs = Inr ys \<and> list_all P ys"
proof (induction xs arbitrary: vs)
  case (Cons x xs)
  then obtain v ws where vs: "vs = v # ws" by (cases vs) auto
  obtain y where y: "el x v = Inr y" "P y" using Cons.prems vs by (auto elim: reads_intoE)
  obtain ys where "view_items el xs ws = Inr ys" "list_all P ys" using Cons vs by auto
  with y vs show ?case by simp
qed simp

lemma view_set_accepts:
  "list_all (\<lambda>x. is_basic x \<and> is_matching_basic (GetTypeId x) t) xs \<Longrightarrow> list_all (basic_of t) s \<Longrightarrow>
   \<exists>ys. view_set (view_basic t) xs e s = Inr ys \<and> list_all (basic_of t) ys"
proof (induction xs arbitrary: e s)
  case (Cons x xs)
  then have "basic_of t (static_cast t x)" using static_cast_type [of x t] by simp
  with Cons show ?case by (simp add: view_basic_def list_all_set_insert)
qed simp

lemma view_pairs_accepts:
  "list_all (\<lambda>(x, y). is_basic x \<and> is_matching_basic (GetTypeId x) k \<and> reads_into P el y) kvs \<Longrightarrow> P d \<Longrightarrow>
   list_all (\<lambda>(x, y). basic_of k x \<and> P y) m \<Longrightarrow>
   \<exists>m'. view_pairs k el d kvs m = Inr m' \<and> list_all (\<lambda>(x, y). basic_of k x \<and> P y) m'"
proof (induction kvs arbitrary: m)
  case (Cons p kvs)
  obtain x y where p: "p = (x, y)" by (cases p)
  let ?k = "static_cast k x"
  have k: "basic_of k ?k" using Cons.prems(1) p static_cast_type [of x k] by simp
  have "list_all (\<lambda>(x, y). P y) m" using Cons.prems(3) by (auto simp: list_all_iff)
  then have "P (mapped_at d ?k m)" using Cons.prems(2) mapped_at_all [of P d m ?k] by simp
  then obtain z where z: "el y (mapped_at d ?k m) = Inr z" "P z" using Cons.prems(1) p by (auto elim: reads_intoE)
  have "list_all (\<lambda>(x, y). basic_of k x \<and> P y) (map_assign ?k z m)"
    using k z(2) Cons.prems(3) by (intro list_all_map_assign) auto
  moreover have "view_pairs k el d (p # kvs) m = view_pairs k el d kvs (map_assign ?k z m)"
    using p z(1) by simp
  ultimately show ?case using Cons.IH [of "map_assign ?k z m"] Cons.prems(1,2) by simp
qed simp

text \<open>The items of a payload of a container type\<close>

lemma payload_parts:
  assumes "shaped s x" "wf_value True x" "element_of s = Some es" "get_type_id s \<noteq> BT_MAP"
  shows "fst (payload_items x) = get_type_id es"
    and "list_all (\<lambda>y. shaped es y \<and> wf_value True y) (snd (payload_items x))"
    and "length (snd (payload_items x)) < 2 ^ 32"
proof -
  have bytes: "length (blob_bytes b) < 2 ^ 32" if "blob_wf b" for b
    using that unat_u32_bound [of "blob_length b"] by (simp add: blob_wf_def)
  have "fst (payload_items x) = get_type_id es \<and>
      list_all (\<lambda>y. shaped es y \<and> wf_value True y) (snd (payload_items x)) \<and> length (snd (payload_items x)) < 2 ^ 32"
    using assms bytes by (cases s; cases x) (auto simp: wf_items_iff list_all_iff)
  then show "fst (payload_items x) = get_type_id es" "length (snd (payload_items x)) < 2 ^ 32"
    "list_all (\<lambda>y. shaped es y \<and> wf_value True y) (snd (payload_items x))" by auto
qed

lemma view_elements_accepts:
  assumes "shaped X var" "element_of X = Some e" "get_type_id X \<noteq> BT_MAP" "schema_ok_type e" "length xs < 2 ^ 32"
    and el: "list_all (reads_into (shaped e) el) xs"
    and set: "\<And>t. X = TSet t \<Longrightarrow> el = view_basic t \<and> list_all (\<lambda>x. is_basic x \<and> is_matching_basic (GetTypeId x) t) xs"
  shows "\<exists>y. view_elements X el xs var = Inr y \<and> shaped X y"
proof -
  have d: "shaped e (default_value e)" using assms(4) by (rule shaped_default)
  have list: "\<exists>ys. view_items el xs (resize_list (length xs) (default_value e) (items_of var)) = Inr ys \<and> list_all (shaped e) ys"
    if "list_all (shaped e) (items_of var)"
    using that d el by (intro view_items_accepts list_all_resize) simp_all
  have null: "\<exists>y. view_elements (TNullable e) el xs var = Inr y \<and> shaped (TNullable e) y"
    if "list_all (shaped e) (items_of var)"
  proof (cases xs)
    case (Cons x xs')
    let ?v = "case items_of var of [] \<Rightarrow> default_value e | v # vs \<Rightarrow> v"
    have "shaped e ?v" using that d by (cases "items_of var") simp_all
    then obtain y where "el x ?v = Inr y" "shaped e y" using el Cons by (auto elim: reads_intoE)
    with Cons show ?thesis by simp
  qed simp
  have blob: "blob_wf (blob_of bs)" if "length bs < 2 ^ 32" for bs
    using that by (simp add: blob_wf_def blob_of_def unat_of_nat)
  show ?thesis
  proof (cases X)
    case TBlob
    then show ?thesis using blob [of "map int8_of xs"] assms(5) by simp
  next
    case (TNullable e')
    then show ?thesis using null shaped_items(2) [of e' var] assms(1,2) by simp
  next
    case (TList e')
    then show ?thesis using list shaped_items(1) [of e' var] assms(1,2) by auto
  next
    case (TSet t)
    then show ?thesis
      using set [OF TSet] view_set_accepts [of t xs "[]" "default_basic t"] by auto
  qed (use assms in auto)
qed

lemma view_container_cases:
  assumes "element_of X = Some e" "get_type_id X \<noteq> BT_MAP"
    and "P (Inr var)"
    and "\<And>t. e = TBasic t \<Longrightarrow> is_matching_basic (fst (payload_items x)) t \<Longrightarrow>
      P (view_elements X (view_type e) (snd (payload_items x)) var)"
    and "\<not> is_basic_type e \<Longrightarrow> fst (payload_items x) = get_type_id e \<Longrightarrow>
      P (view_elements X (view_type e) (snd (payload_items x)) var)"
  shows "P (view_type X x var)"
proof -
  have "P (view_container_basic X t x var)" if "e = TBasic t" for t
    using that assms(3,4) by (simp add: view_container_basic_def)
  moreover have "P (view_container_nested X e (view_type e) x var)" if "\<not> is_basic_type e"
    using that assms(3,5) by (simp add: view_container_nested_def)
  ultimately show ?thesis using assms(1,2) by (cases X; cases e) auto
qed

lemma container_accepts:
  assumes x: "shaped s x" "wf_value True x" and s: "element_of s = Some es" and d: "element_of d = Some ed"
    and id: "get_type_id s = get_type_id d" "get_type_id d \<noteq> BT_MAP" and ok: "schema_ok_type d" "schema_ok_type ed"
    and el: "\<And>y. shaped es y \<Longrightarrow> wf_value True y \<Longrightarrow> accepts ed y"
  shows "accepts d x"
  unfolding reads_into_def
proof (intro allI impI)
  fix var assume var: "shaped d var"
  let ?xs = "snd (payload_items x)"
  note parts = payload_parts [OF x s, unfolded id, OF id(2)]
  have all: "list_all (accepts ed) ?xs" using parts(2) el by (auto simp: list_all_iff)
  have elems: "\<exists>y. view_elements d (view_type ed) ?xs var = Inr y \<and> shaped d y"
    if basic: "\<And>t. d = TSet t \<Longrightarrow> list_all (\<lambda>x. is_basic x \<and> is_matching_basic (GetTypeId x) t) ?xs"
    using basic d by (intro view_elements_accepts [OF var d id(2) ok(2) parts(3) all]) auto
  have basics: "list_all (\<lambda>x. is_basic x \<and> is_matching_basic (GetTypeId x) t) ?xs"
    if t: "ed = TBasic t" and match: "is_matching_basic (fst (payload_items x)) t" for t
  proof -
    have "is_basic_tag (get_type_id es)" using matching_basic_tag [OF match] ok(2) t parts(1) by simp
    then have "is_basic y \<and> is_matching_basic (GetTypeId y) t" if "shaped es y" for y
      using that match parts(1) shaped_GetTypeId [OF that] is_basic_tag_GetTypeId [of y] by simp
    with parts(2) show ?thesis by (auto simp: list_all_iff)
  qed
  show "\<exists>y. view_type d x var = Inr y \<and> shaped d y"
  proof (rule view_container_cases [OF d id(2), where P = "\<lambda>r. \<exists>y. r = Inr y \<and> shaped d y"])
    fix t assume t: "ed = TBasic t" "is_matching_basic (fst (payload_items x)) t"
    show "\<exists>y. view_elements d (view_type ed) ?xs var = Inr y \<and> shaped d y"
      using basics [OF t] t(1) d by (intro elems) auto
  next
    assume "\<not> is_basic_type ed"
    then show "\<exists>y. view_elements d (view_type ed) ?xs var = Inr y \<and> shaped d y"
      using d by (intro elems) auto
  qed (use var in simp)
qed

lemma view_map_accepts:
  assumes x: "shaped (TMap ks es) x" "wf_value True x" and ok: "schema_ok_type ed" and var: "shaped (TMap k ed) var"
    and el: "\<And>y. shaped es y \<Longrightarrow> wf_value True y \<Longrightarrow> accepts ed y"
  shows "\<exists>y. view_map match k ed (view_type ed) x var = Inr y \<and> shaped (TMap k ed) y"
proof -
  obtain kvs where kvs: "x = VMap ks (get_type_id es) kvs"
      "list_all (\<lambda>(z, y). is_basic z \<and> GetTypeId z = ks \<and> shaped es y) kvs"
    using x(1) by (cases x) auto
  have "\<exists>m. view_pairs k (view_type ed) (default_value ed) kvs [] = Inr m \<and> list_all (\<lambda>(z, y). basic_of k z \<and> shaped ed y) m"
    if "is_matching_basic ks k"
  proof (rule view_pairs_accepts)
    have "is_basic a \<and> GetTypeId a = ks" "shaped es b \<and> wf_value True b" if "(a, b) \<in> set kvs" for a b
      using kvs x(2) that by (fastforce simp: list_all_iff wf_pairs_iff)+
    then show "list_all (\<lambda>(z, y). is_basic z \<and> is_matching_basic (GetTypeId z) k \<and> accepts ed y) kvs"
      using el that by (fastforce simp: list_all_iff)
  qed (use ok shaped_default(1) in simp_all)
  with var kvs(1) show ?thesis by (auto simp: view_map_def split: if_splits)
qed

lemma map_accepts:
  assumes "shaped (TMap ks es) x" "wf_value True x" "schema_ok_type ed"
    and "\<And>y. shaped es y \<Longrightarrow> wf_value True y \<Longrightarrow> accepts ed y"
  shows "accepts (TMap k ed) x"
  unfolding reads_into_def
proof (intro allI impI)
  fix var assume var: "shaped (TMap k ed) var"
  have "\<exists>match. view_type (TMap k ed) x var = view_map match k ed (view_type ed) x var" by (cases ed) auto
  with view_map_accepts [OF assms(1-3) var assms(4)]
  show "\<exists>y. view_type (TMap k ed) x var = Inr y \<and> shaped (TMap k ed) y" by metis
qed

section \<open>Fields\<close>

text \<open>What a level must have for each field of the schema\<close>

definition supplies :: "(u16 \<times> bvalue) list \<Rightarrow> fdef \<Rightarrow> bool" where
  "supplies ps g \<longleftrightarrow>
     (case map_of ps (fd_id g) of
        None \<Rightarrow> \<not> required g
      | Some x \<Rightarrow> matching_type (fd_type g) x \<and> accepts (fd_type g) x)"

lemma view_var_accepts:
  assumes "field_var g var" "schema_ok_type (fd_type g)" "reads_into (shaped (fd_type g)) el x"
  shows "\<exists>w. view_var g (el x) var = Inr w \<and> field_var g w"
proof -
  obtain fid md mb t where g: "g = FieldDef fid md mb t" by (cases g)
  show ?thesis
  proof (cases var)
    case (Field fid' md' v)
    with assms g obtain y where "el x v = Inr y" "shaped t y" by (auto simp: field_var_def elim: reads_intoE)
    with assms(1) g Field show ?thesis by (simp add: field_var_def)
  next
    case (MaybeField fid' md' t' v)
    have "shaped t (case v of None \<Rightarrow> default_value t | Some v \<Rightarrow> v)"
      using assms(1,2) g MaybeField shaped_default(1) by (auto simp: field_var_def split: option.splits)
    with assms(3) g obtain y where "el x (case v of None \<Rightarrow> default_value t | Some v \<Rightarrow> v) = Inr y" "shaped t y"
      by (auto elim: reads_intoE)
    with assms(1) g MaybeField show ?thesis by (cases v) (auto simp: field_var_def)
  qed
qed

lemma view_field_accepts:
  assumes "field_var g var" "schema_ok_type (fd_type g)" "matching_type (fd_type g) x" "accepts (fd_type g) x"
    and "Validate_field fs g r = Inr r'"
  shows "\<exists>w. view_field fs g (view_type (fd_type g)) x var r = Inr (w, r') \<and> field_var g w"
proof -
  let ?t = "fd_type g"
  have "(if GetTypeId x = get_type_id ?t then view_type ?t x else view_basic (get_type_id ?t) x) = view_type ?t x"
    using assms(3) by (cases ?t) (auto simp: matching_type_def)
  then have "view_field fs g (view_type ?t) x var r = res_bind (view_var g (view_type ?t x) var) (\<lambda>w. Inr (w, r'))"
    using assms(3,5) by (auto simp: view_field_def matching_type_def Let_def)
  with view_var_accepts [OF assms(1,2,4)] show ?thesis by auto
qed

lemma view_level_accepts:
  "sorted_wrt (<) (map fd_id (qs @ gs)) \<Longrightarrow> list_all2 field_var gs vars \<Longrightarrow>
   \<forall>g \<in> set gs. fd_id g \<noteq> invalid_field_id \<and> schema_ok_type (fd_type g) \<and> supplies ps g \<Longrightarrow>
   \<exists>ws. view_level (qs @ gs) (view_fields gs) ps vars (next_required_field gs 0) = Inr (ws, invalid_field_id) \<and>
     list_all2 field_var gs ws"
proof (induction gs arbitrary: qs vars)
  case Nil
  then show ?case by (simp add: next_required_field_def)
next
  case (Cons g gs)
  obtain var vs where vars: "vars = var # vs" "field_var g var" "list_all2 field_var gs vs"
    using Cons.prems(2) by (auto simp: list_all2_Cons1)
  have view: "view_fields (g # gs) = (g, view_type (fd_type g)) # view_fields gs" by (cases g) simp
  obtain ws where IH: "view_level (qs @ g # gs) (view_fields gs) ps vs (next_required_field gs 0) = Inr (ws, invalid_field_id)"
      "list_all2 field_var gs ws"
    using Cons.IH [of "qs @ [g]" vs] Cons.prems vars by auto
  show ?case
  proof (cases "map_of ps (fd_id g)")
    case None
    then have "\<not> required g" using Cons.prems(3) by (simp add: supplies_def)
    then have "next_required_field (g # gs) 0 = next_required_field gs 0" by (simp add: next_required_cons)
    with None view vars IH show ?thesis by simp
  next
    case (Some x)
    have valid: "Validate_field (qs @ g # gs) g (next_required_field (g # gs) 0) = Inr (next_required_field gs 0)"
      using Cons.prems(1,3) by (intro Validate_field_next) auto
    obtain w where "view_field (qs @ g # gs) g (view_type (fd_type g)) x var (next_required_field (g # gs) 0) =
        Inr (w, next_required_field gs 0)" "field_var g w"
      using view_field_accepts [OF vars(2) _ _ _ valid] Cons.prems(3) Some by (auto simp: supplies_def)
    with Some view vars IH show ?thesis by simp
  qed
qed

section \<open>The payload of a compatible struct\<close>

lemma present_shaped:
  assumes "field_var f v" "wf_field True v"
  obtains x where "present True v = [(fd_id f, x)]" "shaped (fd_type f) x" "wf_value True x"
    | "present True v = []" "optional f"
proof -
  obtain fid md mb t where f: "f = FieldDef fid md mb t" by (cases f)
  show thesis
  proof (cases v)
    case (Field fid' md' x)
    with assms f that show ?thesis by (cases "omit_field True md x") (auto simp: field_var_def omit_field_def)
  next
    case (MaybeField fid' md' t' x)
    with assms f that show ?thesis by (cases x) (auto simp: field_var_def)
  qed
qed

lemma map_of_absent:
  assumes "shaped_fields fs vs" "i \<notin> fd_id ` set fs"
  shows "map_of (concat (map (present True) vs)) i = None"
proof -
  have "field_id v \<in> fd_id ` set fs" if "v \<in> set vs" for v
    using that shaped_field_ids [OF assms(1)] by (metis imageI list.set_map)
  then show ?thesis using assms(2) present_id by (fastforce simp: map_of_eq_None_iff)
qed

lemma map_of_present:
  "sorted_wrt (<) (map fd_id fs) \<Longrightarrow> list_all2 field_var fs vs \<Longrightarrow> f \<in> set fs \<Longrightarrow>
   \<exists>v \<in> set vs. field_var f v \<and> map_of (concat (map (present True) vs)) (fd_id f) = map_of (present True v) (fd_id f)"
proof (induction fs arbitrary: vs)
  case (Cons g fs)
  obtain v ws where vs: "vs = v # ws" "field_var g v" "list_all2 field_var fs ws"
    using Cons.prems(2) by (auto simp: list_all2_Cons1)
  let ?ps = "concat (map (present True) ws)"
  have own: "map_of (present True v) i = None" if "i \<noteq> fd_id g" for i
    using that present_id [of _ True v] shaped_field_id [OF vs(2)] by (auto simp: map_of_eq_None_iff)
  show ?case
  proof (cases "f = g")
    case True
    have "shaped_fields fs ws" using vs(3) by (simp add: shaped_fields_iff)
    moreover have "fd_id g \<notin> fd_id ` set fs" using Cons.prems(1) by auto
    ultimately have "map_of ?ps (fd_id g) = None" by (rule map_of_absent)
    with True vs show ?thesis by (auto simp: map_add_def split: option.split)
  next
    case False
    then have "fd_id f \<noteq> fd_id g" "f \<in> set fs" using Cons.prems(1,3) by auto
    then show ?thesis using Cons.IH [of ws] Cons.prems(1) vs own by (auto simp: map_add_def split: option.split)
  qed
qed simp

lemma ValidateTypeId_matching:
  "ValidateTypeId a b \<Longrightarrow> a \<noteq> b \<Longrightarrow> is_basic_tag a \<and> is_basic_tag b \<and> is_matching_basic a b"
  by (auto simp: ValidateTypeId_def is_matching_basic_def is_unsigned_tag_def is_signed_tag_def split: if_splits)

lemma basic_type_tag: "is_basic_tag (get_type_id t) \<longleftrightarrow> (\<exists>b. t = TBasic b \<and> is_basic_tag b)"
  by (cases t) auto

lemma compat_matching:
  assumes "compat_type s d" "shaped s x"
  shows "matching_type d x"
  using assms(1)
proof cases
  case promoted
  with ValidateTypeId_matching [OF promoted(2,1)] shaped_GetTypeId [OF assms(2)] show ?thesis
    by (auto simp: matching_type_def basic_type_tag)
qed (use shaped_GetTypeId [OF assms(2)] in \<open>simp_all add: matching_type_def\<close>)

lemma compat_supplies:
  assumes fs: "sorted_wrt (<) (map fd_id fs)" "shaped_fields fs vs" "wf_fields True vs"
    and g: "(\<exists>f \<in> set fs. fd_id f = fd_id g \<and> \<not> (required g \<and> optional f) \<and> compat_type (fd_type f) (fd_type g) \<and>
        (\<forall>x. shaped (fd_type f) x \<longrightarrow> wf_value True x \<longrightarrow> accepts (fd_type g) x)) \<or>
      fd_id g \<notin> fd_id ` set fs \<and> \<not> required g"
  shows "supplies (concat (map (present True) vs)) g"
  using g
proof (elim disjE bexE conjE)
  fix f assume f: "f \<in> set fs" "fd_id f = fd_id g" "\<not> (required g \<and> optional f)" "compat_type (fd_type f) (fd_type g)"
    "\<forall>x. shaped (fd_type f) x \<longrightarrow> wf_value True x \<longrightarrow> accepts (fd_type g) x"
  obtain v where v: "v \<in> set vs" "field_var f v"
      "map_of (concat (map (present True) vs)) (fd_id g) = map_of (present True v) (fd_id g)"
    using map_of_present [OF fs(1) fs(2) [unfolded shaped_fields_iff] f(1)] f(2) by auto
  have "wf_field True v" using fs(3) v(1) by (simp add: wf_fields_iff list_all_iff)
  from v(2) this show ?thesis
  proof (cases rule: present_shaped)
    case (1 x)
    with v(3) f compat_matching [OF f(4)] show ?thesis by (simp add: supplies_def)
  next
    case 2
    with v(3) f(3) show ?thesis by (simp add: supplies_def)
  qed
next
  assume "fd_id g \<notin> fd_id ` set fs" "\<not> required g"
  with map_of_absent [OF fs(2)] show ?thesis by (simp add: supplies_def)
qed

lemma view_read_accepts:
  assumes "declared (Schema md b gs)" "shaped_fields gs vars" "\<forall>g \<in> set gs. supplies (fst (hd L)) g"
  shows "\<exists>ws. view_read base (view_fields gs) md v L vars = Inr (base \<and> \<not> snd (hd L), Struct md v ws) \<and> shaped_fields gs ws"
proof -
  have "\<forall>g \<in> set gs. fd_id g \<noteq> invalid_field_id \<and> schema_ok_type (fd_type g) \<and> supplies (fst (hd L)) g"
    using declared_parts [OF assms(1)] assms(3) by (auto simp: declared_type_def)
  then show ?thesis
    using view_level_accepts [of "[]" gs vars "fst (hd L)"] declared_parts(1) [OF assms(1)] assms(2)
    by (auto simp: view_read_def Validate_struct_def shaped_fields_iff)
qed

lemma compat_accepts:
  "compat_type s d \<Longrightarrow> declared_type s \<Longrightarrow> declared_type d \<Longrightarrow> shaped s x \<Longrightarrow> wf_value True x \<Longrightarrow> accepts d x"
  "compat_struct a b \<Longrightarrow> declared a \<Longrightarrow> declared b \<Longrightarrow> shaped_struct a y \<Longrightarrow> wf_struct True y \<Longrightarrow> shaped_struct b v \<Longrightarrow>
     \<exists>done z. view_struct b base (levels True f y @ L) v = Inr (done, z) \<and> shaped_struct b z \<and> (done \<longrightarrow> base \<and> \<not> f)"
proof (induction s d and a b arbitrary: x and y base f L v rule: compat_type_compat_struct.inducts)
  case (promoted s d)
  from ValidateTypeId_matching [OF promoted(2,1)] obtain t where "d = TBasic t" "is_basic x" "is_matching_basic (GetTypeId x) t"
    using shaped_GetTypeId [OF promoted(5)] by (auto simp: basic_type_tag is_basic_tag_GetTypeId [symmetric])
  then show ?case using accepts_basic [of x t] by (simp only:)
next
  case (basic t)
  then show ?case by (intro accepts_basic) (simp_all add: is_matching_basic_def)
next
  case (container s d es ed)
  note ok = declared_element [OF container.prems(1) container.hyps(2)] declared_element [OF container.prems(2) container.hyps(3)]
  have el: "accepts ed y" if "shaped es y" "wf_value True y" for y
    using container.IH ok that by simp
  show ?case
  proof (cases "get_type_id d = BT_MAP")
    case True
    have "schema_ok_type s" "schema_ok_type d" using container.prems(1,2) by (simp_all add: declared_type_def)
    with True container.hyps(1-3) obtain ks k where "s = TMap ks es" "d = TMap k ed"
      by (cases s; cases d) auto
    moreover have "schema_ok_type ed" using ok(2) by (simp add: declared_type_def)
    ultimately show ?thesis
      using map_accepts [of ks es x ed k] container.prems(3,4) el by (simp del: shaped.simps view_type.simps)
  next
    case False
    then show ?thesis
      using container_accepts [OF container.prems(3,4) container.hyps(2,3,1) False] container.prems(2) ok(2) el
      by (simp add: declared_type_def)
  qed
next
  case (struct a b)
  obtain y where y: "x = VStruct y" "shaped_struct a y" "wf_struct True y"
    using struct.prems by (cases x) auto
  show ?case
    unfolding reads_into_def
  proof (intro allI impI)
    fix var assume "shaped (TStruct b) var"
    then obtain v where v: "var = VStruct v" "shaped_struct b v" by (cases var) auto
    obtain done' z where "view_struct b False (levels True False y) v = Inr (done', z)" "shaped_struct b z"
      using struct.IH [of y v False False "[]"] struct.prems y v by auto
    with y(1) v(1) show "\<exists>y. view_type (TStruct b) x var = Inr y \<and> shaped (TStruct b) y" by simp
  qed
next
  case (root gs fs md md')
  obtain vs where y: "y = Struct md None vs" "shaped_fields fs vs" "wf_fields True vs"
    using root.prems(3,4) by (cases y) auto
  obtain vars where v: "v = Struct md' None vars" "shaped_fields gs vars" using root.prems(5) by (cases v) auto
  note fs = declared_parts [OF root.prems(1)] and gs = declared_parts [OF root.prems(2)]
  have "\<forall>g \<in> set gs. supplies (concat (map (present True) vs)) g"
    using root.IH fs(2) gs(2) by (intro ballI compat_supplies [OF fs(1) y(2,3)]) blast
  then show ?case
    using view_read_accepts [OF root.prems(2) v(2), of "(concat (map (present True) vs), f) # L" base None] y(1) v(1) by auto
next
  case (derived b b' gs fs md md')
  obtain y0 vs where y: "y = Struct md (Some y0) vs" "shaped_fields fs vs" "wf_fields True vs" "shaped_struct b y0" "wf_struct True y0"
    using derived.prems(3,4) by (cases y) (auto split: option.splits)
  obtain v0 vars where v: "v = Struct md' (Some v0) vars" "shaped_fields gs vars" "shaped_struct b' v0"
    using derived.prems(5) by (cases v) (auto split: option.splits)
  note fs = declared_parts [OF derived.prems(1)] and gs = declared_parts [OF derived.prems(2)]
  let ?ps = "concat (map (present True) vs)"
  have "\<forall>g \<in> set gs. supplies ?ps g"
    using derived.IH(2) fs(2) gs(2) by (intro ballI compat_supplies [OF fs(1) y(2,3)]) blast
  then obtain ws where ws: "\<And>b. \<exists>ws. view_read base (view_fields gs) md' (Some b) ((?ps, f) # L) vars =
      Inr (base \<and> \<not> f, Struct md' (Some b) ws) \<and> shaped_fields gs ws"
    using view_read_accepts [OF derived.prems(2) v(2), of "(?ps, f) # L" base] by auto
  obtain done' z where z: "view_struct b' True (levels True True y0 @ (?ps, f) # L) v0 = Inr (done', z)" "shaped_struct b' z" "\<not> done'"
    using derived.IH(1) [of y0 v0 True True "(?ps, f) # L"] fs(4) gs(4) y v by auto
  show ?case using ws [of z] z y v derived.hyps levels_length [OF y(4), of True True] by auto
next
  case (slice b d md fs)
  obtain y0 vs where y: "y = Struct md (Some y0) vs" "shaped_struct b y0" "wf_struct True y0"
    using slice.prems(3,4) by (cases y) (auto split: option.splits)
  show ?case
    using slice.IH [of y0 v base True "(concat (map (present True) vs), f) # L"] declared_parts(4) [OF slice.prems(1)] slice.prems(2,5) y
    by auto
qed

section \<open>Validated schemas\<close>

lemma GetRuntimeSchema_small: "names_ok s \<Longrightarrow> small_schema (GetRuntimeSchema s)"
  using init_schema(3) [of "set (structs_in s)" s "{}" "[]"]
  by (simp add: names_ok_def init_inv_def pending_def small_schema_def GetRuntimeSchema_def RuntimeSchema_of_def appended_def)

lemma Validate_compat:
  assumes "Validate (GetRuntimeSchema a) (GetRuntimeSchema b) = Inr i" and "names_ok a" "names_ok b" "declared a" "declared b"
  shows "compat_struct a b"
proof (rule validated_compat(3) [OF assms(1) [unfolded Validate_def]])
  show "rep_struct (structs_at (GetRuntimeSchema a)) (struct_index (GetRuntimeSchema a)) a"
    "rep_struct (structs_at (GetRuntimeSchema b)) (struct_index (GetRuntimeSchema b)) b"
    using GetRuntimeSchema_represents assms(2,3) by (simp_all add: represents_def struct_index_def)
qed (use assms GetRuntimeSchema_small in \<open>simp_all add: declared_def list_inv_def\<close>)

lemma Validate_view:
  assumes "Validate (GetRuntimeSchema a) (GetRuntimeSchema b) = Inr i" and "names_ok a" "names_ok b" "declared a" "declared b"
    and "shaped_struct a y" "wf_struct True y"
  shows "\<exists>z. view_object b y = Inr z \<and> shaped_struct b z"
proof -
  have "shaped_struct b (default_struct b)" using assms(5) shaped_default(4) by (simp add: declared_def)
  then obtain d z where "view_struct b False (levels True False y) (default_struct b) = Inr (d, z)" "shaped_struct b z"
    using compat_accepts(2) [OF Validate_compat [OF assms(1-5)] assms(4-7), of "default_struct b" False False "[]"] by auto
  then show ?thesis by (simp add: view_object_def)
qed

text \<open>A payload of the source type is deserialized as the destination type.\<close>

lemma Validate_Deserialize:
  assumes "tagged_protocol R F" and "Validate (GetRuntimeSchema a) (GetRuntimeSchema b) = Inr i"
    and "names_ok a" "names_ok b" "declared a" "declared b" "shaped_struct a y" "wf_struct True y"
    and "ib_at ib (fst (enc_struct F False y) @ rest)"
  shows "\<exists>z. Deserialize R b ib = Inr (z, ib_adv (length (fst (enc_struct F False y))) ib) \<and>
    view_object b y = Inr (erase_struct z) \<and> shaped_struct b (erase_struct z)"
proof -
  obtain w where w: "view_object b y = Inr w" "shaped_struct b w" using Validate_view [OF assms(2-8)] by auto
  have "ordered_struct y" using assms(5,7) shaped_ordered(3) [of a y] by (simp add: declared_def)
  with tagged_Deserialize_view [OF assms(1) _ _ assms(8), of b] assms(6) w(1)
  have "yields erase_struct (Deserialize R b) (fst (enc_struct F False y)) (Inr w)" by (simp add: declared_def)
  from yields_Inr [OF this assms(9)] w show ?thesis by auto
qed

end
