(* ===== verification/Marshaling.thy ===== *)
theory Marshaling
  imports Roundtrip
begin

text \<open>
  Marshaled payloads: a magic number and a version before the serialized struct, from which the reader
  finds the protocol. \<open>Marshal\<close> is the transform \<open>Marshaler\<close> of \<^verbatim>\<open>src/cpp/inc/bond/core/transforms.h\<close>
  for the three binary writers; \<open>NextProtocol\<close> tries the built-in protocols in their order as
  \<^verbatim>\<open>src/cpp/inc/bond/core/select_protocol.h\<close> does, each on its own copy of the input buffer. The JSON
  reader never accepts a version; where a protocol is selected by its magic number alone, reading and
  writing JSON are parameters.
\<close>

unbundle bit_operations_syntax

section \<open>Marshaling\<close>

text \<open>A class of writers with its version\<close>

datatype protocol = CompactBinary u16 | FastBinary | SimpleBinary u16

definition json_magic :: u16 where
  "json_magic = 0x4a53"

primrec magic_of :: "protocol \<Rightarrow> u16" where
  "magic_of (CompactBinary version) = compact_magic"
| "magic_of FastBinary = fast_magic"
| "magic_of (SimpleBinary version) = simple_magic"

definition compact_Marshal ::
    "(nat \<Rightarrow> u32) \<Rightarrow> 'b Buffer \<Rightarrow> bstruct \<Rightarrow> 'b CompactBinaryWriter \<Rightarrow> 'b CompactBinaryWriter res" where
  "compact_Marshal noinit B x = seq (cw_WriteVersion B) (cw_Serialize noinit B x)"

definition fast_Marshal :: "'b Buffer \<Rightarrow> bstruct \<Rightarrow> 'b \<Rightarrow> 'b res" where
  "fast_Marshal B x = seq (fb_WriteVersion B) (Serializer_Apply (fast_writer B) False x)"

definition simple_Marshal :: "'b Buffer \<Rightarrow> u16 \<Rightarrow> bstruct \<Rightarrow> 'b \<Rightarrow> 'b res" where
  "simple_Marshal B version x = seq (sb_WriteVersion B version) (Serializer_Apply (simple_writer B version) False x)"

text \<open>A writer of the protocol is constructed over the output and the transform is applied.\<close>

primrec Marshal :: "(nat \<Rightarrow> u32) \<Rightarrow> 'b Buffer \<Rightarrow> protocol \<Rightarrow> bstruct \<Rightarrow> 'b \<Rightarrow> 'b res" where
  "Marshal noinit B (CompactBinary version) x = (\<lambda>output.
     res_bind (compact_Marshal noinit B x (CompactBinaryWriter_init noinit output version)) (\<lambda>w. Inr (cw_output w)))"
| "Marshal noinit B FastBinary x = fast_Marshal B x"
| "Marshal noinit B (SimpleBinary version) x = simple_Marshal B version x"

primrec Serialize :: "(nat \<Rightarrow> u32) \<Rightarrow> 'b Buffer \<Rightarrow> protocol \<Rightarrow> bstruct \<Rightarrow> 'b \<Rightarrow> 'b res" where
  "Serialize noinit B (CompactBinary version) x = (\<lambda>output.
     res_bind (cw_Serialize noinit B x (CompactBinaryWriter_init noinit output version)) (\<lambda>w. Inr (cw_output w)))"
| "Serialize noinit B FastBinary x = Serializer_Apply (fast_writer B) False x"
| "Serialize noinit B (SimpleBinary version) x = Serializer_Apply (simple_writer B version) False x"

section \<open>Selecting a protocol\<close>

definition UnknownProtocolException :: exn where
  "UnknownProtocolException = CoreException ''Unmarshaling failed: unsupported protocol''"

definition UnknownProtocolException_magic :: "u16 \<Rightarrow> exn" where
  "UnknownProtocolException_magic magic = CoreException ''Unsupported protocol''"

text \<open>\<open>mpl::try_apply\<close>: the first protocol with a result\<close>

fun try_apply :: "('i \<Rightarrow> 'r option res) list \<Rightarrow> 'i \<Rightarrow> 'r option res" where
  "try_apply [] input = Inr None"
| "try_apply [f] input = f input"
| "try_apply (f # g # fs) input =
     res_bind (f input) (\<lambda>r. case r of Some x \<Rightarrow> Inr (Some x) | None \<Rightarrow> try_apply (g # fs) input)"

text \<open>A transform applied to a reader\<close>

type_synonym 'a transform = "Reader \<Rightarrow> (InputBuffer, 'a) st"

text \<open>
  \<open>NextProtocolFunctor\<close>: the reader is constructed over the input, its version is read, and the
  transform is applied if the version is accepted.
\<close>

definition NextProtocolFunctor ::
    "u16 \<Rightarrow> (InputBuffer, bool \<times> Reader) st \<Rightarrow> 'a transform \<Rightarrow> InputBuffer \<Rightarrow> (u16 \<times> 'a) option res" where
  "NextProtocolFunctor magic ReadVersion transform input =
     res_bind (ReadVersion input) (\<lambda>((ok, R), reader).
       if ok then res_bind (transform R reader) (\<lambda>(x, reader). Inr (Some (magic, x))) else Inr None)"

definition compact_ReadVersion :: "(InputBuffer, bool \<times> Reader) st" where
  "compact_ReadVersion = bind cr_ReadVersion (\<lambda>(ok, version). ret (ok, compact_reader version))"

definition simple_ReadVersion :: "(InputBuffer, bool \<times> Reader) st" where
  "simple_ReadVersion = bind sr_ReadVersion (\<lambda>(ok, version). ret (ok, simple_reader version))"

definition fast_ReadVersion :: "(InputBuffer, bool \<times> Reader) st" where
  "fast_ReadVersion = bind fb_ReadVersion (\<lambda>ok. ret (ok, fast_reader))"

text \<open>\<open>SimpleJsonReader::ReadVersion\<close> returns false.\<close>

definition json_NextProtocol :: "InputBuffer \<Rightarrow> (u16 \<times> 'a) option res" where
  "json_NextProtocol input = Inr None"

definition NextProtocol :: "'a transform \<Rightarrow> InputBuffer \<Rightarrow> (u16 \<times> 'a) res" where
  "NextProtocol transform input =
     res_bind (try_apply
         [NextProtocolFunctor compact_magic compact_ReadVersion transform,
          NextProtocolFunctor simple_magic simple_ReadVersion transform,
          NextProtocolFunctor fast_magic fast_ReadVersion transform,
          json_NextProtocol] input)
       (\<lambda>r. case r of Some x \<Rightarrow> Inr x | None \<Rightarrow> Inl UnknownProtocolException)"

definition Unmarshal :: "sschema \<Rightarrow> InputBuffer \<Rightarrow> (u16 \<times> bstruct) res" where
  "Unmarshal s = NextProtocol (\<lambda>R. Deserialize R s)"

text \<open>The protocol is given by its magic number; readers and writers have their default version.\<close>

definition default_version :: u16 where
  "default_version = v1"

definition MagicFunctor :: "u16 \<Rightarrow> ('i \<Rightarrow> 'r res) \<Rightarrow> u16 \<Rightarrow> 'i \<Rightarrow> 'r option res" where
  "MagicFunctor magic f protocol input =
     (if magic = protocol then res_bind (f input) (\<lambda>x. Inr (Some x)) else Inr None)"

definition NextProtocol_magic :: "(InputBuffer \<Rightarrow> 'a res) \<Rightarrow> 'a transform \<Rightarrow> u16 \<Rightarrow> InputBuffer \<Rightarrow> 'a res" where
  "NextProtocol_magic json transform protocol input =
     res_bind (try_apply
         [MagicFunctor compact_magic (\<lambda>i. res_bind (transform (compact_reader default_version) i) (\<lambda>(x, i). Inr x)) protocol,
          MagicFunctor simple_magic (\<lambda>i. res_bind (transform (simple_reader default_version) i) (\<lambda>(x, i). Inr x)) protocol,
          MagicFunctor fast_magic (\<lambda>i. res_bind (transform fast_reader i) (\<lambda>(x, i). Inr x)) protocol,
          MagicFunctor json_magic json protocol] input)
       (\<lambda>r. case r of Some x \<Rightarrow> Inr x | None \<Rightarrow> Inl (UnknownProtocolException_magic protocol))"

text \<open>\<open>Apply<Transform>(value, output, protocol)\<close> for \<open>Serializer\<close>\<close>

definition Serialize_magic ::
    "(nat \<Rightarrow> u32) \<Rightarrow> 'b Buffer \<Rightarrow> (bstruct \<Rightarrow> 'b \<Rightarrow> 'b res) \<Rightarrow> bstruct \<Rightarrow> 'b \<Rightarrow> u16 \<Rightarrow> 'b res" where
  "Serialize_magic noinit B json x output protocol =
     res_bind (try_apply
         [MagicFunctor compact_magic (Serialize noinit B (CompactBinary default_version) x) protocol,
          MagicFunctor simple_magic (Serialize noinit B (SimpleBinary default_version) x) protocol,
          MagicFunctor fast_magic (Serialize noinit B FastBinary x) protocol,
          MagicFunctor json_magic (json x) protocol] output)
       (\<lambda>r. case r of Some out \<Rightarrow> Inr out | None \<Rightarrow> Inl (UnknownProtocolException_magic protocol))"

section \<open>The bytes of a marshaled struct\<close>

primrec format_of :: "protocol \<Rightarrow> format" where
  "format_of (CompactBinary version) = compact_format version"
| "format_of FastBinary = fast_format"
| "format_of (SimpleBinary version) = simple_format version"

primrec version_of :: "protocol \<Rightarrow> u16" where
  "version_of (CompactBinary version) = version"
| "version_of FastBinary = fast_version"
| "version_of (SimpleBinary version) = version"

primrec reader_of :: "protocol \<Rightarrow> Reader" where
  "reader_of (CompactBinary version) = compact_reader version"
| "reader_of FastBinary = fast_reader"
| "reader_of (SimpleBinary version) = simple_reader version"

definition header :: "protocol \<Rightarrow> byte list" where
  "header p = le_bytes 2 (magic_of p) @ le_bytes 2 (version_of p)"

abbreviation encoding :: "protocol \<Rightarrow> bstruct \<Rightarrow> byte list" where
  "encoding p x \<equiv> fst (enc_struct (format_of p) False x)"

lemma header_length [simp]: "length (header p) = 4"
  by (simp add: header_def)

context plain_stream
begin

lemma Serialize_appends:
  assumes "wf_struct (f_may_omit_fields (format_of p)) x"
  shows "stream_appends holds (Serialize noinit B p x) (encoding p x)"
proof (cases p)
  case (CompactBinary v)
  show ?thesis
    unfolding stream_appends_def
  proof (intro allI impI)
    fix s c assume s: "holds s c \<and> length c + length (encoding p x) < 2 ^ 31"
    have "wf_struct True x" using assms CompactBinary by (simp add: compact_format_simps)
    from cw_Serialize_encodes [OF this, of "CompactBinaryWriter_init noinit s v" c v noinit] s CompactBinary
    show "\<exists>s'. Serialize noinit B p x s = Inr s' \<and> holds s' (c @ encoding p x)"
      by (auto simp: CompactBinaryWriter_init_def)
  qed
next
  case FastBinary
  then show ?thesis
    using fast.emits_Serializer_Apply [of x False] assms by (simp add: fast_writer_def fast_format_simps)
next
  case (SimpleBinary v)
  then show ?thesis
    using simple.emits_Serializer_Apply [of v x False] assms by (simp add: simple_writer_def simple_format_simps)
qed

lemma cw_put_Write:
  assumes "holds (cw_output w) c" "length c + length bs < 2 ^ 31"
  shows "\<exists>out. cw_put (b_Write B bs) w = Inr (w\<lparr>cw_output := out\<rparr>) \<and> holds out (c @ bs)"
  using stream_appendsD [OF Write_law assms] by (auto simp: cw_put_def)

lemma cw_WriteVersion_appends:
  assumes "holds (cw_output w) c" "length c + 4 < 2 ^ 31"
  shows "\<exists>out. cw_WriteVersion B w = Inr (w\<lparr>cw_output := out\<rparr>) \<and> holds out (c @ header (CompactBinary (cw_version w)))"
proof -
  obtain out where out: "cw_put (b_Write B (le_bytes 2 compact_magic)) w = Inr (w\<lparr>cw_output := out\<rparr>)"
      "holds out (c @ le_bytes 2 compact_magic)"
    using cw_put_Write [OF assms(1), of "le_bytes 2 compact_magic"] assms(2) by auto
  with cw_put_Write [of "w\<lparr>cw_output := out\<rparr>" "c @ le_bytes 2 compact_magic" "le_bytes 2 (cw_version w)"] assms(2)
  show ?thesis by (auto simp: cw_WriteVersion_def seq_def header_def)
qed

lemma WriteVersion_appends:
  "stream_appends holds (seq (b_Write B (le_bytes 2 m)) (b_Write B (le_bytes 2 v))) (le_bytes 2 m @ le_bytes 2 v)"
  unfolding seq_def [abs_def] by (rule stream_appends_seq) (rule Write_law)+

text \<open>\<open>Marshal\<close> appends the header and the encoding of the protocol.\<close>

lemma Marshal_appends:
  assumes wf: "wf_struct (f_may_omit_fields (format_of p)) x"
  shows "stream_appends holds (Marshal noinit B p x) (header p @ encoding p x)"
proof (cases p)
  case (CompactBinary v)
  show ?thesis
    unfolding stream_appends_def
  proof (intro allI impI)
    fix s c assume s: "holds s c \<and> length c + length (header p @ encoding p x) < 2 ^ 31"
    have wf: "wf_struct True x" using wf CompactBinary by (simp add: compact_format_simps)
    let ?w = "CompactBinaryWriter_init noinit s v"
    obtain out where out: "cw_WriteVersion B ?w = Inr (?w\<lparr>cw_output := out\<rparr>)" "holds out (c @ header p)"
      using cw_WriteVersion_appends [of ?w c] s CompactBinary by (auto simp: CompactBinaryWriter_init_def)
    obtain w where "cw_Serialize noinit B x (?w\<lparr>cw_output := out\<rparr>) = Inr w" "holds (cw_output w) ((c @ header p) @ encoding p x)"
      using cw_Serialize_encodes [OF wf, of "?w\<lparr>cw_output := out\<rparr>" "c @ header p" v noinit] s out CompactBinary
      by (auto simp: CompactBinaryWriter_init_def)
    with out CompactBinary show "\<exists>s'. Marshal noinit B p x s = Inr s' \<and> holds s' (c @ header p @ encoding p x)"
      by (simp add: compact_Marshal_def seq_def)
  qed
next
  case FastBinary
  then show ?thesis
    using stream_appends_seq [OF WriteVersion_appends Serialize_appends [OF wf, of noinit], of fast_magic fast_version]
    by (simp add: fast_Marshal_def fb_WriteVersion_def seq_def [abs_def] header_def)
next
  case (SimpleBinary v)
  then show ?thesis
    using stream_appends_seq [OF WriteVersion_appends Serialize_appends [OF wf, of noinit], of simple_magic v]
    by (simp add: simple_Marshal_def sb_WriteVersion_def seq_def [abs_def] header_def)
qed

end

section \<open>Reading the header\<close>

lemma decodes_version:
  "decodes (bind (ib_read_le 2) (\<lambda>magic. bind (ib_read_le 2) (\<lambda>version. ret (f magic version))))
     (le_bytes 2 (m :: u16) @ le_bytes 2 (v :: u16)) (f m v)"
proof (rule decodes_bind)
  show "decodes (bind (ib_read_le 2) (\<lambda>version. ret (f m version))) (le_bytes 2 v) (f m v)"
    by (rule decodes_map, rule decodes_le) simp_all
qed (rule decodes_le, simp_all)

definition dispatched :: "u16 \<Rightarrow> 'a transform \<Rightarrow> Reader \<Rightarrow> InputBuffer \<Rightarrow> (u16 \<times> 'a) res" where
  "dispatched magic transform R ib = res_bind (transform R ib) (\<lambda>(x, ib). Inr (magic, x))"

lemma magics_distinct [simp]:
  "compact_magic \<noteq> simple_magic" "compact_magic \<noteq> fast_magic" "simple_magic \<noteq> fast_magic"
  "simple_magic \<noteq> compact_magic" "fast_magic \<noteq> compact_magic" "fast_magic \<noteq> simple_magic"
  by (simp_all add: compact_magic_def simple_magic_def fast_magic_def)

lemma NextProtocol_header:
  assumes "ib_at ib (le_bytes 2 m @ le_bytes 2 v @ rest)"
  shows "NextProtocol transform ib =
    (if m = compact_magic \<and> v \<le> v2 then dispatched m transform (compact_reader v) (ib_adv 4 ib)
     else if m = simple_magic \<and> v \<le> v2 then dispatched m transform (simple_reader v) (ib_adv 4 ib)
     else if m = fast_magic \<and> v \<le> fast_version then dispatched m transform fast_reader (ib_adv 4 ib)
     else Inl UnknownProtocolException)"
proof -
  have at: "ib_at ib ((le_bytes 2 m @ le_bytes 2 v) @ rest)" using assms by simp
  have "cr_ReadVersion ib = Inr ((m = compact_magic \<and> v \<le> v2, v), ib_adv 4 ib)"
    "sr_ReadVersion ib = Inr ((m = simple_magic \<and> v \<le> v2, v), ib_adv 4 ib)"
    "fb_ReadVersion ib = Inr (m = fast_magic \<and> v \<le> fast_version, ib_adv 4 ib)"
    using decodesD [OF decodes_version at] by (simp_all add: cr_ReadVersion_def sr_ReadVersion_def fb_ReadVersion_def)
  then have "compact_ReadVersion ib = Inr ((m = compact_magic \<and> v \<le> v2, compact_reader v), ib_adv 4 ib)"
    "simple_ReadVersion ib = Inr ((m = simple_magic \<and> v \<le> v2, simple_reader v), ib_adv 4 ib)"
    "fast_ReadVersion ib = Inr ((m = fast_magic \<and> v \<le> fast_version, fast_reader), ib_adv 4 ib)"
    by (simp_all add: compact_ReadVersion_def simple_ReadVersion_def fast_ReadVersion_def bind_def ret_def)
  then show ?thesis
    by (auto simp: NextProtocol_def NextProtocolFunctor_def json_NextProtocol_def dispatched_def res_bind_def
        split: sum.splits)
qed

section \<open>Unmarshaling\<close>

lemma Deserialize_encoding:
  assumes "conforms s x" and "wf_struct (f_may_omit_fields (format_of p)) x"
  shows "yields erase_struct (Deserialize (reader_of p) s) (encoding p x) (Inr (erase_struct x))"
  using assms compact.Deserialize_roundtrip fast.Deserialize_roundtrip simple.static_Deserialize_roundtrip
  by (cases p) (simp_all add: compact_format_simps fast_format_simps simple_format_simps)

definition supported :: "protocol \<Rightarrow> bool" where
  "supported p \<longleftrightarrow> version_of p \<le> v2"

lemma NextProtocol_supported:
  assumes "supported p" and "ib_at ib (header p @ rest)"
  shows "NextProtocol transform ib = dispatched (magic_of p) transform (reader_of p) (ib_adv 4 ib)"
  using assms(1) NextProtocol_header [of ib "magic_of p" "version_of p" rest] assms(2)
  by (cases p) (simp_all add: header_def supported_def fast_version_def)

lemma Unmarshal_header:
  assumes "supported p" and "ib_at ib (header p @ encoding p x @ rest)"
    and "conforms s x" and "wf_struct (f_may_omit_fields (format_of p)) x"
  shows "\<exists>y. Unmarshal s ib = Inr (magic_of p, y) \<and> erase_struct y = erase_struct x"
proof -
  have "ib_at (ib_adv 4 ib) (encoding p x @ rest)"
    using ib_at_adv_append [of ib "header p" "encoding p x @ rest"] assms(2) by simp
  from yieldsD [OF Deserialize_encoding [OF assms(3,4)] this] show ?thesis
    by (auto simp: Unmarshal_def NextProtocol_supported [OF assms(1,2)] dispatched_def gives_def)
qed

text \<open>Whatever the bytes are\<close>

definition unmarshaled :: "(u16 \<times> bstruct \<Rightarrow> bool) \<Rightarrow> (u16 \<times> bstruct) option res \<Rightarrow> bool" where
  "unmarshaled P r \<longleftrightarrow> (case r of Inl e \<Rightarrow> defined_exn e | Inr None \<Rightarrow> True | Inr (Some x) \<Rightarrow> P x)"

lemma NextProtocolFunctor_safe:
  assumes "runs 0 (\<lambda>(ok, R). Q R) ReadVersion" and "\<And>R. Q R \<Longrightarrow> runs 0 (shaped_struct s) (Deserialize R s)" and "ib_ok ib"
  shows "unmarshaled (\<lambda>(m, y). m = magic \<and> shaped_struct s y)
    (NextProtocolFunctor magic ReadVersion (\<lambda>R. Deserialize R s) ib)"
  using runsD [OF assms(1,3)]
proof (cases rule: outcomeE)
  case (1 e)
  then show ?thesis by (simp add: NextProtocolFunctor_def unmarshaled_def)
next
  case (2 v k)
  obtain ok R where v: "v = (ok, R)" by (cases v)
  have "ib_ok (ib_adv k ib)" using ib_adv_ok [OF assms(3) 2(4)] by simp
  from runsD [OF assms(2) this] 2(2) v have "outcome 0 (shaped_struct s) (ib_adv k ib) (Deserialize R s (ib_adv k ib))" by simp
  then show ?thesis
    using 2(1) v by (cases rule: outcomeE) (auto simp: NextProtocolFunctor_def unmarshaled_def)
qed

lemma ReadVersion_runs:
  "runs 0 (\<lambda>(ok, R). \<exists>v. R = compact_reader v) compact_ReadVersion"
  "runs 0 (\<lambda>(ok, R). \<exists>v. R = simple_reader v) simple_ReadVersion"
  "runs 0 (\<lambda>(ok, R). R = fast_reader) fast_ReadVersion"
  unfolding compact_ReadVersion_def simple_ReadVersion_def fast_ReadVersion_def
    cr_ReadVersion_def sr_ReadVersion_def fb_ReadVersion_def bind_assoc
  by (rule runs_bind0, rule runs_le, rule runs_bind0, rule runs_le,
    (auto simp: bind_def ret_def runs_def intro!: outcome_here) [1])+

lemma Unmarshal_safe:
  assumes "schema_ok s" and "ib_ok ib"
  shows "case Unmarshal s ib of
      Inl e \<Rightarrow> defined_exn e
    | Inr (m, y) \<Rightarrow> m \<in> {compact_magic, simple_magic, fast_magic} \<and> shaped_struct s y"
proof -
  have "unmarshaled (\<lambda>(m, y). m = compact_magic \<and> shaped_struct s y)
      (NextProtocolFunctor compact_magic compact_ReadVersion (\<lambda>R. Deserialize R s) ib)"
    "unmarshaled (\<lambda>(m, y). m = simple_magic \<and> shaped_struct s y)
      (NextProtocolFunctor simple_magic simple_ReadVersion (\<lambda>R. Deserialize R s) ib)"
    "unmarshaled (\<lambda>(m, y). m = fast_magic \<and> shaped_struct s y)
      (NextProtocolFunctor fast_magic fast_ReadVersion (\<lambda>R. Deserialize R s) ib)"
    using compact.Deserialize_runs [OF assms(1)] simple.Deserialize_runs [OF assms(1)] fast.Deserialize_runs [OF assms(1)]
    by (auto intro!: NextProtocolFunctor_safe [OF _ _ assms(2)] ReadVersion_runs)
  then show ?thesis
    by (auto simp: Unmarshal_def NextProtocol_def unmarshaled_def json_NextProtocol_def UnknownProtocolException_def
        split: sum.splits option.splits)
qed

end
