(* ===== verification/Counters.thy ===== *)
theory Counters
  imports Bond_Prelude
begin

text \<open>
  The counters and the allocator adapter of \<^verbatim>\<open>src/cpp/inc/bond/ext/\<close>:
  \<^verbatim>\<open>detail/counter_base.h\<close>, \<^verbatim>\<open>single_threaded_counter.h\<close> and \<^verbatim>\<open>capped_allocator.h\<close>, with the
  counter type \<^verbatim>\<open>std::size_t\<close> of 64 bits. The locale \<open>counter\<close> is what the allocator relies on; the
  allocator that it adapts is a parameter.
\<close>

section \<open>The single-threaded counter\<close>

record counter =
  ct_max :: u64
  ct_value :: u64

definition counter_init :: "u64 \<Rightarrow> counter" where
  "counter_init max_value = \<lparr>ct_max = max_value, ct_value = 0\<rparr>"

definition st_try_add :: "u64 \<Rightarrow> counter \<Rightarrow> bool \<times> counter" where
  "st_try_add n c =
     (if n \<le> ct_max c \<and> ct_value c \<le> ct_max c - n then (True, c\<lparr>ct_value := ct_value c + n\<rparr>) else (False, c))"

definition st_subtract :: "u64 \<Rightarrow> counter \<Rightarrow> counter" where
  "st_subtract n c = c\<lparr>ct_value := ct_value c - n\<rparr>"

definition counter_ok :: "counter \<Rightarrow> bool" where
  "counter_ok c \<longleftrightarrow> ct_value c \<le> ct_max c"

lemma fits_iff: "n \<le> m \<and> v \<le> m - n \<longleftrightarrow> unat v + unat n \<le> unat (m :: u64)"
  by (auto simp: word_le_nat_alt unat_sub)

lemma unat_add_fits: "unat (v :: u64) + unat (n :: u64) \<le> unat (m :: u64) \<Longrightarrow> unat (v + n) = unat v + unat n"
  using unsigned_less [of m, where ?'a = nat] by (simp add: unat_word_ariths)

lemma st_try_add_spec:
  assumes "counter_ok c"
  shows "st_try_add n c =
    (if unat (ct_value c) + unat n \<le> unat (ct_max c) then (True, c\<lparr>ct_value := ct_value c + n\<rparr>) else (False, c))"
  by (simp add: st_try_add_def fits_iff)

section \<open>The contract of a counter\<close>

text \<open>\<open>value\<close> and \<open>max_value\<close> as numbers; \<open>ok\<close> is the invariant of the counter.\<close>

locale counter =
  fixes try_add :: "u64 \<Rightarrow> 'c \<Rightarrow> bool \<times> 'c" and subtract :: "u64 \<Rightarrow> 'c \<Rightarrow> 'c"
    and count :: "'c \<Rightarrow> nat" and max_value :: "'c \<Rightarrow> nat" and ok :: "'c \<Rightarrow> bool"
  assumes bounded: "ok c \<Longrightarrow> count c \<le> max_value c \<and> max_value c < 2 ^ 64"
    and try_add_True: "ok c \<Longrightarrow> count c + unat n \<le> max_value c \<Longrightarrow> \<exists>c'. try_add n c = (True, c') \<and> ok c' \<and>
      count c' = count c + unat n \<and> max_value c' = max_value c"
    and try_add_False: "ok c \<Longrightarrow> max_value c < count c + unat n \<Longrightarrow> try_add n c = (False, c)"
    and subtract_law: "ok c \<Longrightarrow> unat n \<le> count c \<Longrightarrow> ok (subtract n c) \<and> count (subtract n c) = count c - unat n \<and>
      max_value (subtract n c) = max_value c"

interpretation st: counter st_try_add st_subtract "\<lambda>c. unat (ct_value c)" "\<lambda>c. unat (ct_max c)" counter_ok
proof
  fix c :: counter and n :: u64
  assume ok: "counter_ok c"
  show "unat (ct_value c) \<le> unat (ct_max c) \<and> unat (ct_max c) < 2 ^ 64"
    using ok unsigned_less [of "ct_max c", where ?'a = nat] by (simp add: counter_ok_def word_le_nat_alt)
  show "\<exists>c'. st_try_add n c = (True, c') \<and> counter_ok c' \<and>
      unat (ct_value c') = unat (ct_value c) + unat n \<and> unat (ct_max c') = unat (ct_max c)"
    if "unat (ct_value c) + unat n \<le> unat (ct_max c)"
    using that ok unat_add_fits [OF that] by (simp add: st_try_add_spec counter_ok_def word_le_nat_alt)
  show "st_try_add n c = (False, c)" if "unat (ct_max c) < unat (ct_value c) + unat n"
    using that ok by (simp add: st_try_add_spec)
  show "counter_ok (st_subtract n c) \<and> unat (ct_value (st_subtract n c)) = unat (ct_value c) - unat n \<and>
      unat (ct_max (st_subtract n c)) = unat (ct_max c)"
    if "unat n \<le> unat (ct_value c)"
  proof -
    have "unat (ct_value c - n) = unat (ct_value c) - unat n"
      using that by (simp add: unat_sub word_le_nat_alt)
    with ok that show ?thesis by (simp add: st_subtract_def counter_ok_def word_le_nat_alt)
  qed
qed

section \<open>The capped allocator\<close>

text \<open>
  The state: the counter, the allocator that is adapted, and the flag. The operations of the counter
  and of the adapted allocator (\<open>allocate\<close> returns a pointer or throws) are parameters, and so is the
  size of the elements.
\<close>

record ('c, 'a) capped_allocator =
  ca_count :: 'c
  ca_alloc :: 'a
  ca_subtract_on_deallocate :: bool

definition ca_allocate ::
    "(u64 \<Rightarrow> 'c \<Rightarrow> bool \<times> 'c) \<Rightarrow> (u64 \<Rightarrow> 'c \<Rightarrow> 'c) \<Rightarrow> (u64 \<Rightarrow> 'a \<Rightarrow> 'p res \<times> 'a) \<Rightarrow> u64 \<Rightarrow>
      u64 \<Rightarrow> ('c, 'a) capped_allocator \<Rightarrow> 'p res \<times> ('c, 'a) capped_allocator" where
  "ca_allocate try_add subtract allocate sizeof n ca =
     (let size = n * sizeof; (ok, count) = try_add size (ca_count ca); ca = ca\<lparr>ca_count := count\<rparr>
      in if ok
         then (case allocate n (ca_alloc ca) of
                 (Inr p, a) \<Rightarrow> (Inr p, ca\<lparr>ca_alloc := a\<rparr>)
               | (Inl e, a) \<Rightarrow> (Inl e, ca\<lparr>ca_alloc := a, ca_count := subtract size (ca_count ca)\<rparr>))
         else (Inl BadAlloc, ca))"

definition ca_allocate_hint ::
    "(u64 \<Rightarrow> 'c \<Rightarrow> bool \<times> 'c) \<Rightarrow> (u64 \<Rightarrow> 'c \<Rightarrow> 'c) \<Rightarrow> (u64 \<Rightarrow> 'h \<Rightarrow> 'a \<Rightarrow> 'p res \<times> 'a) \<Rightarrow> u64 \<Rightarrow>
      u64 \<Rightarrow> 'h \<Rightarrow> ('c, 'a) capped_allocator \<Rightarrow> 'p res \<times> ('c, 'a) capped_allocator" where
  "ca_allocate_hint try_add subtract allocate sizeof n hint ca =
     (let size = n * sizeof; (ok, count) = try_add size (ca_count ca); ca = ca\<lparr>ca_count := count\<rparr>
      in if ok
         then (case allocate n hint (ca_alloc ca) of
                 (Inr p, a) \<Rightarrow> (Inr p, ca\<lparr>ca_alloc := a\<rparr>)
               | (Inl e, a) \<Rightarrow> (Inl e, ca\<lparr>ca_alloc := a, ca_count := subtract size (ca_count ca)\<rparr>))
         else (Inl BadAlloc, ca))"

lemma ca_allocate_hint:
  "ca_allocate_hint try_add subtract allocate sizeof n hint = ca_allocate try_add subtract (\<lambda>n. allocate n hint) sizeof n"
  by (rule ext) (simp add: ca_allocate_hint_def ca_allocate_def)

definition ca_deallocate ::
    "(u64 \<Rightarrow> 'c \<Rightarrow> 'c) \<Rightarrow> ('p \<Rightarrow> u64 \<Rightarrow> 'a \<Rightarrow> 'a) \<Rightarrow> u64 \<Rightarrow>
      'p \<Rightarrow> u64 \<Rightarrow> ('c, 'a) capped_allocator \<Rightarrow> ('c, 'a) capped_allocator" where
  "ca_deallocate subtract deallocate sizeof p n ca =
     (let ca = ca\<lparr>ca_alloc := deallocate p n (ca_alloc ca)\<rparr>
      in if ca_subtract_on_deallocate ca then ca\<lparr>ca_count := subtract (n * sizeof) (ca_count ca)\<rparr> else ca)"

definition ca_max_size :: "('c \<Rightarrow> u64) \<Rightarrow> ('a \<Rightarrow> u64) \<Rightarrow> u64 \<Rightarrow> ('c, 'a) capped_allocator \<Rightarrow> u64" where
  "ca_max_size max_value max_size sizeof ca = min (max_value (ca_count ca) div sizeof) (max_size (ca_alloc ca))"

text \<open>
  A run of a client: requests that succeed, requests that fail, and deallocations of blocks it holds,
  each with the size it was allocated with. \<open>live\<close> are the blocks that the client holds.
\<close>

inductive ca_run ::
    "(u64 \<Rightarrow> 'c \<Rightarrow> bool \<times> 'c) \<Rightarrow> (u64 \<Rightarrow> 'c \<Rightarrow> 'c) \<Rightarrow> (u64 \<Rightarrow> 'a \<Rightarrow> 'p res \<times> 'a) \<Rightarrow> ('p \<Rightarrow> u64 \<Rightarrow> 'a \<Rightarrow> 'a) \<Rightarrow> u64 \<Rightarrow>
      ('c, 'a) capped_allocator \<Rightarrow> ('p \<times> u64) list \<Rightarrow> ('c, 'a) capped_allocator \<Rightarrow> bool"
  for try_add subtract allocate deallocate sizeof init where
  start: "ca_run try_add subtract allocate deallocate sizeof init [] init"
| allocated: "ca_run try_add subtract allocate deallocate sizeof init live ca \<Longrightarrow>
    ca_allocate try_add subtract allocate sizeof n ca = (Inr p, ca') \<Longrightarrow>
    ca_run try_add subtract allocate deallocate sizeof init ((p, n) # live) ca'"
| refused: "ca_run try_add subtract allocate deallocate sizeof init live ca \<Longrightarrow>
    ca_allocate try_add subtract allocate sizeof n ca = (Inl e, ca') \<Longrightarrow>
    ca_run try_add subtract allocate deallocate sizeof init live ca'"
| deallocated: "ca_run try_add subtract allocate deallocate sizeof init (xs @ (p, n) # ys) ca \<Longrightarrow>
    ca_run try_add subtract allocate deallocate sizeof init (xs @ ys) (ca_deallocate subtract deallocate sizeof p n ca)"

definition live_bytes :: "u64 \<Rightarrow> ('p \<times> u64) list \<Rightarrow> nat" where
  "live_bytes sizeof live = (\<Sum>(p, n) \<leftarrow> live. unat n * unat sizeof)"

lemma live_bytes_simps [simp]:
  "live_bytes sizeof [] = 0" "live_bytes sizeof ((p, n) # live) = unat n * unat sizeof + live_bytes sizeof live"
  "live_bytes sizeof (xs @ ys) = live_bytes sizeof xs + live_bytes sizeof ys"
  by (simp_all add: live_bytes_def)

text \<open>
  The adapted allocator refuses a request for more bytes than an address can count, as
  \<^verbatim>\<open>std::allocator\<close> does: then the product of the adapter does not wrap around.
\<close>

definition addressable :: "(u64 \<Rightarrow> 'a \<Rightarrow> 'p res \<times> 'a) \<Rightarrow> u64 \<Rightarrow> bool" where
  "addressable allocate sizeof \<longleftrightarrow> (\<forall>n a p a'. allocate n a = (Inr p, a') \<longrightarrow> unat n * unat sizeof < 2 ^ 64)"

context counter
begin

lemma allocate_True:
  assumes "ok (ca_count ca)" and "ca_allocate try_add subtract allocate sizeof n ca = (Inr p, ca')" and "addressable allocate sizeof"
  shows "ok (ca_count ca')" "max_value (ca_count ca') = max_value (ca_count ca)"
    "count (ca_count ca') = count (ca_count ca) + unat n * unat sizeof"
    "ca_subtract_on_deallocate ca' = ca_subtract_on_deallocate ca"
proof -
  let ?size = "n * sizeof"
  have fits: "count (ca_count ca) + unat ?size \<le> max_value (ca_count ca)"
  proof (rule ccontr)
    assume "\<not> ?thesis"
    with try_add_False [OF assms(1), of ?size] assms(2) show False by (simp add: ca_allocate_def Let_def)
  qed
  obtain c where c: "try_add ?size (ca_count ca) = (True, c)" "ok c" "count c = count (ca_count ca) + unat ?size"
      "max_value c = max_value (ca_count ca)"
    using try_add_True [OF assms(1) fits] by auto
  with assms(2) obtain a where a: "allocate n (ca_alloc ca) = (Inr p, a)" "ca' = ca\<lparr>ca_count := c, ca_alloc := a\<rparr>"
    by (auto simp: ca_allocate_def Let_def split: prod.splits sum.splits)
  with assms(3) have "unat n * unat sizeof < 2 ^ 64" by (auto simp: addressable_def)
  then have "unat ?size = unat n * unat sizeof" by (simp add: unat_word_ariths)
  with a(2) c show "ok (ca_count ca')" "max_value (ca_count ca') = max_value (ca_count ca)"
    "count (ca_count ca') = count (ca_count ca) + unat n * unat sizeof"
    "ca_subtract_on_deallocate ca' = ca_subtract_on_deallocate ca" by simp_all
qed

text \<open>A request that fails leaves the count as it was.\<close>

lemma allocate_False:
  assumes "ok (ca_count ca)" and "ca_allocate try_add subtract allocate sizeof n ca = (Inl e, ca')"
  shows "ok (ca_count ca')" "max_value (ca_count ca') = max_value (ca_count ca)" "count (ca_count ca') = count (ca_count ca)"
    "ca_subtract_on_deallocate ca' = ca_subtract_on_deallocate ca"
proof -
  let ?size = "n * sizeof"
  have "ok (ca_count ca') \<and> max_value (ca_count ca') = max_value (ca_count ca) \<and> count (ca_count ca') = count (ca_count ca) \<and>
    ca_subtract_on_deallocate ca' = ca_subtract_on_deallocate ca"
  proof (cases "count (ca_count ca) + unat ?size \<le> max_value (ca_count ca)")
    case True
    obtain c where c: "try_add ?size (ca_count ca) = (True, c)" "ok c" "count c = count (ca_count ca) + unat ?size"
        "max_value c = max_value (ca_count ca)"
      using try_add_True [OF assms(1) True] by auto
    with assms(2) subtract_law [OF c(2), of ?size] show ?thesis
      by (auto simp: ca_allocate_def Let_def split: prod.splits sum.splits)
  next
    case False
    with try_add_False [OF assms(1), of ?size] assms show ?thesis by (auto simp: ca_allocate_def Let_def)
  qed
  then show "ok (ca_count ca')" "max_value (ca_count ca') = max_value (ca_count ca)" "count (ca_count ca') = count (ca_count ca)"
    "ca_subtract_on_deallocate ca' = ca_subtract_on_deallocate ca" by simp_all
qed

lemma run_count:
  assumes "ca_run try_add subtract allocate deallocate sizeof init live ca" and "addressable allocate sizeof"
    and "ok (ca_count init)" "ca_subtract_on_deallocate init"
  shows "ok (ca_count ca) \<and> max_value (ca_count ca) = max_value (ca_count init) \<and> ca_subtract_on_deallocate ca \<and>
    count (ca_count ca) = count (ca_count init) + live_bytes sizeof live"
  using assms(1)
proof (induction rule: ca_run.induct)
  case start
  with assms show ?case by simp
next
  case (allocated live ca n p ca')
  with allocate_True [of ca allocate sizeof n p ca'] assms(2) show ?case by simp
next
  case (refused live ca n e ca')
  with allocate_False [of ca allocate sizeof n e ca'] show ?case by simp
next
  case (deallocated xs p n ys ca)
  have bound: "unat n * unat sizeof \<le> count (ca_count ca)" using deallocated.IH by simp
  moreover have "count (ca_count ca) < 2 ^ 64" using bounded [of "ca_count ca"] deallocated.IH by simp
  ultimately have "unat (n * sizeof) = unat n * unat sizeof" by (simp add: unat_word_ariths)
  with bound subtract_law [of "ca_count ca" "n * sizeof"] deallocated.IH show ?case
    by (simp add: ca_deallocate_def)
qed

end

end
