(* ===== verification/Concurrent_Counter.thy ===== *)
theory Concurrent_Counter
  imports Counters
begin

text \<open>
  The counter of \<^verbatim>\<open>src/cpp/inc/bond/ext/multi_threaded_counter.h\<close>: several threads run \<open>try_add\<close> and
  \<open>subtract\<close> on one atomic variable. A step is one access to the variable or one local test of one
  thread. The state keeps the modification order of the variable, newest value first. An atomic
  read-modify-write sees the newest value; a load, and the load of a compare-exchange that fails, may
  see any value of the modification order, which allows more than the acquire order of the code.
\<close>

section \<open>The state and the steps\<close>

text \<open>
  Where a thread is in \<open>try_add n\<close>: at its first test, before the first load, in the loop with the
  value that it has seen, or at its return. \<open>th_owned\<close> counts what the thread has added and not yet
  subtracted; it is no part of the code.
\<close>

datatype pc = Idle | Entered u64 | Loading u64 | Trying u64 u64 | Returning u64 bool

record thread =
  th_pc :: pc
  th_owned :: nat

record shared =
  sh_max :: u64
  sh_values :: "u64 list"
  sh_threads :: "thread list"

abbreviation "sh_value s \<equiv> hd (sh_values s)"
abbreviation "pc_of s i \<equiv> th_pc (sh_threads s ! i)"
abbreviation "owned_of s i \<equiv> th_owned (sh_threads s ! i)"

definition goto :: "nat \<Rightarrow> pc \<Rightarrow> shared \<Rightarrow> shared" where
  "goto i pc s = s\<lparr>sh_threads := (sh_threads s)[i := (sh_threads s ! i)\<lparr>th_pc := pc\<rparr>]\<rparr>"

definition own :: "nat \<Rightarrow> nat \<Rightarrow> shared \<Rightarrow> shared" where
  "own i k s = s\<lparr>sh_threads := (sh_threads s)[i := (sh_threads s ! i)\<lparr>th_owned := k\<rparr>]\<rparr>"

definition write_value :: "u64 \<Rightarrow> shared \<Rightarrow> shared" where
  "write_value v s = s\<lparr>sh_values := v # sh_values s\<rparr>"

definition shared_init :: "u64 \<Rightarrow> nat \<Rightarrow> shared" where
  "shared_init m k = \<lparr>sh_max = m, sh_values = [0], sh_threads = replicate k \<lparr>th_pc = Idle, th_owned = 0\<rparr>\<rparr>"

inductive mt_step :: "nat \<Rightarrow> shared \<Rightarrow> shared \<Rightarrow> bool" where
  call: "i < length (sh_threads s) \<Longrightarrow> pc_of s i = Idle \<Longrightarrow> mt_step i s (goto i (Entered n) s)"
| test: "i < length (sh_threads s) \<Longrightarrow> pc_of s i = Entered n \<Longrightarrow>
    mt_step i s (goto i (if n \<le> sh_max s then Loading n else Returning n False) s)"
| load: "i < length (sh_threads s) \<Longrightarrow> pc_of s i = Loading n \<Longrightarrow> v \<in> set (sh_values s) \<Longrightarrow>
    mt_step i s (goto i (Trying n v) s)"
| exit: "i < length (sh_threads s) \<Longrightarrow> pc_of s i = Trying n v \<Longrightarrow> \<not> v \<le> sh_max s - n \<Longrightarrow>
    mt_step i s (goto i (Returning n False) s)"
| exchange: "i < length (sh_threads s) \<Longrightarrow> pc_of s i = Trying n v \<Longrightarrow> v \<le> sh_max s - n \<Longrightarrow> sh_value s = v \<Longrightarrow>
    mt_step i s (goto i (Returning n True) (own i (owned_of s i + unat n) (write_value (v + n) s)))"
| retry: "i < length (sh_threads s) \<Longrightarrow> pc_of s i = Trying n v \<Longrightarrow> v \<le> sh_max s - n \<Longrightarrow> v' \<in> set (sh_values s) \<Longrightarrow>
    mt_step i s (goto i (Trying n v') s)"
| return: "i < length (sh_threads s) \<Longrightarrow> pc_of s i = Returning n b \<Longrightarrow> mt_step i s (goto i Idle s)"
| subtract: "i < length (sh_threads s) \<Longrightarrow> pc_of s i = Idle \<Longrightarrow> unat n \<le> owned_of s i \<Longrightarrow>
    mt_step i s (own i (owned_of s i - unat n) (write_value (sh_value s - n) s))"

inductive_cases mt_step_cases: "mt_step i s s'"

inductive reachable :: "shared \<Rightarrow> shared \<Rightarrow> bool" for s0 where
  init: "reachable s0 s0"
| step: "reachable s0 s \<Longrightarrow> mt_step i s s' \<Longrightarrow> reachable s0 s'"

lemma shared_simps [simp]:
  "sh_max (goto i pc s) = sh_max s" "sh_values (goto i pc s) = sh_values s"
  "sh_max (own i k s) = sh_max s" "sh_values (own i k s) = sh_values s"
  "sh_max (write_value v s) = sh_max s" "sh_values (write_value v s) = v # sh_values s"
  "sh_threads (write_value v s) = sh_threads s"
  "length (sh_threads (goto i pc s)) = length (sh_threads s)" "length (sh_threads (own i k s)) = length (sh_threads s)"
  "i < length (sh_threads s) \<Longrightarrow> pc_of (goto i pc s) j = (if i = j then pc else pc_of s j)"
  "i < length (sh_threads s) \<Longrightarrow> pc_of (own i k s) j = pc_of s j"
  by (auto simp: goto_def own_def write_value_def nth_list_update)

section \<open>The invariant\<close>

definition owned :: "shared \<Rightarrow> nat" where
  "owned s = sum_list (map th_owned (sh_threads s))"

definition seen_ok :: "shared \<Rightarrow> pc \<Rightarrow> bool" where
  "seen_ok s pc = (case pc of Trying n v \<Rightarrow> n \<le> sh_max s \<and> v \<in> set (sh_values s) | Loading n \<Rightarrow> n \<le> sh_max s
     | Returning n False \<Rightarrow> sh_max s < n \<or> (\<exists>v \<in> set (sh_values s). \<not> v \<le> sh_max s - n) | _ \<Rightarrow> True)"

definition shared_ok :: "shared \<Rightarrow> bool" where
  "shared_ok s \<longleftrightarrow> sh_values s \<noteq> [] \<and> (\<forall>v \<in> set (sh_values s). v \<le> sh_max s) \<and> unat (sh_value s) = owned s \<and>
     (\<forall>i < length (sh_threads s). seen_ok s (pc_of s i))"

lemma owned_goto [simp]: "i < length (sh_threads s) \<Longrightarrow> owned (goto i pc s) = owned s"
proof -
  assume "i < length (sh_threads s)"
  then have "map th_owned (sh_threads (goto i pc s)) = map th_owned (sh_threads s)"
    by (auto simp: goto_def nth_list_update intro: nth_equalityI)
  then show ?thesis by (simp add: owned_def)
qed

lemma owned_write_value [simp]: "owned (write_value v s) = owned s"
  by (simp add: owned_def)

lemma owned_of_le: "i < length (sh_threads s) \<Longrightarrow> owned_of s i \<le> owned s"
  unfolding owned_def by (rule member_le_sum_list) simp_all

lemma owned_own:
  "i < length (sh_threads s) \<Longrightarrow> owned (own i k s) = owned s - owned_of s i + k"
  using owned_of_le [of i s] by (simp add: owned_def own_def map_update sum_list_update)

lemma seen_ok_mono:
  "seen_ok s pc \<Longrightarrow> sh_max s' = sh_max s \<Longrightarrow> set (sh_values s) \<subseteq> set (sh_values s') \<Longrightarrow> seen_ok s' pc"
  by (auto simp: seen_ok_def split: pc.splits bool.splits)

lemma mt_step_seen:
  assumes "mt_step i s s'" and "shared_ok s" and "j < length (sh_threads s')"
  shows "seen_ok s' (pc_of s' j)"
proof -
  have "seen_ok s (pc_of s k)" if "k < length (sh_threads s)" for k
    using assms(2) that by (simp add: shared_ok_def)
  note ok = this
  have keep: "seen_ok s' (pc_of s j)" if "sh_max s' = sh_max s" "set (sh_values s) \<subseteq> set (sh_values s')" "j < length (sh_threads s)"
    using seen_ok_mono [OF ok that(1,2)] that(3) by blast
  from assms(1) show ?thesis
  proof cases
    case (test n)
    with keep assms(3) show ?thesis by (auto simp: seen_ok_def)
  next
    case (exit n v)
    with keep assms(3) ok [of i] show ?thesis by (auto simp: seen_ok_def)
  next
    case (retry n v)
    with keep assms(3) ok [of i] show ?thesis by (auto simp: seen_ok_def)
  next
    case (load n v)
    with keep assms(3) ok [of i] show ?thesis by (auto simp: seen_ok_def)
  qed (use keep assms(3) in \<open>auto simp: seen_ok_def\<close>)
qed

lemma mt_step_ok:
  assumes "mt_step i s s'" and "shared_ok s"
  shows "shared_ok s'"
proof -
  have seen: "\<forall>j < length (sh_threads s'). seen_ok s' (pc_of s' j)" using mt_step_seen [OF assms] by blast
  have ok: "sh_values s \<noteq> []" "\<forall>v \<in> set (sh_values s). v \<le> sh_max s" "unat (sh_value s) = owned s"
    using assms(2) by (simp_all add: shared_ok_def)
  from assms(1) show ?thesis
  proof cases
    case (exchange n v)
    have n: "n \<le> sh_max s" using assms(2) exchange by (auto simp: shared_ok_def seen_ok_def dest: spec [of _ i])
    have fits: "unat v + unat n \<le> unat (sh_max s)" using n exchange(4) fits_iff by blast
    have "v + n \<le> sh_max s" using fits unat_add_fits [OF fits] by (simp add: word_le_nat_alt)
    moreover have "unat (v + n) = owned s'"
      using exchange ok unat_add_fits [OF fits] owned_of_le [of i s] by (simp add: owned_own)
    ultimately show ?thesis using seen exchange ok by (simp add: shared_ok_def)
  next
    case (subtract n)
    have le: "unat n \<le> unat (sh_value s)" using subtract owned_of_le [of i s] ok by simp
    then have "unat (sh_value s - n) = unat (sh_value s) - unat n" by (simp add: unat_sub word_le_nat_alt)
    moreover have "sh_value s \<le> sh_max s" using ok by simp
    ultimately have "sh_value s - n \<le> sh_max s" "unat (sh_value s - n) = owned s'"
      using subtract ok owned_of_le [of i s] by (simp_all add: owned_own word_le_nat_alt)
    then show ?thesis using seen subtract ok by (simp add: shared_ok_def)
  qed (use seen ok in \<open>simp_all add: shared_ok_def\<close>)
qed

lemma shared_init_ok: "shared_ok (shared_init m k)"
  by (simp add: shared_ok_def shared_init_def owned_def seen_ok_def)

lemma reachable_ok: "reachable s0 s \<Longrightarrow> shared_ok s0 \<Longrightarrow> shared_ok s"
  by (induction rule: reachable.induct) (auto intro: mt_step_ok)

lemma mt_step_max: "mt_step i s s' \<Longrightarrow> sh_max s' = sh_max s"
  by (erule mt_step_cases) simp_all

lemma reachable_max: "reachable s0 s \<Longrightarrow> sh_max s = sh_max s0"
  by (induction rule: reachable.induct) (simp_all add: mt_step_max)

section \<open>Refinement of the single-threaded counter\<close>

text \<open>
  The abstraction forgets the threads. A step leaves the counter as it is, or it is the step at which
  an operation of a thread takes effect, and then it changes the counter as the same operation of the
  single-threaded counter does.
\<close>

definition counter_of :: "shared \<Rightarrow> counter" where
  "counter_of s = \<lparr>ct_max = sh_max s, ct_value = sh_value s\<rparr>"

inductive counter_step :: "counter \<Rightarrow> counter \<Rightarrow> bool" where
  added: "st_try_add n c = (True, c') \<Longrightarrow> counter_step c c'"
| subtracted: "unat n \<le> unat (ct_value c) \<Longrightarrow> counter_step c (st_subtract n c)"

lemma mt_step_refines:
  assumes "mt_step i s s'" and "shared_ok s"
  shows "counter_of s' = counter_of s \<or> counter_step (counter_of s) (counter_of s')"
  using assms(1)
proof cases
  case (exchange n v)
  have "n \<le> sh_max s" using assms(2) exchange by (auto simp: shared_ok_def seen_ok_def dest: spec [of _ i])
  with exchange have "st_try_add n (counter_of s) = (True, counter_of s')"
    by (simp add: st_try_add_def counter_of_def)
  then show ?thesis by (blast intro: counter_step.intros)
next
  case (subtract n)
  have "unat n \<le> unat (ct_value (counter_of s))"
    using subtract owned_of_le [of i s] assms(2) by (simp add: shared_ok_def counter_of_def)
  moreover have "counter_of s' = st_subtract n (counter_of s)"
    using subtract by (simp add: st_subtract_def counter_of_def)
  ultimately show ?thesis using counter_step.subtracted [of n "counter_of s"] by simp
qed (simp_all add: counter_of_def)

lemma reachable_refines:
  "reachable s0 s \<Longrightarrow> shared_ok s0 \<Longrightarrow> counter_step\<^sup>*\<^sup>* (counter_of s0) (counter_of s)"
proof (induction rule: reachable.induct)
  case (step s i s')
  with mt_step_refines [OF step.hyps(2) reachable_ok] show ?case
    by (metis rtranclp.rtrancl_into_rtrancl)
qed simp

text \<open>The answer of a call: \<open>True\<close> when the value changes by \<open>n\<close>, \<open>False\<close> for a value that has been the counter's.\<close>

lemma answer_False:
  assumes "shared_ok s" and "i < length (sh_threads s)" and "pc_of s i = Returning n False"
  shows "\<exists>v \<in> set (sh_values s). st_try_add n \<lparr>ct_max = sh_max s, ct_value = v\<rparr> = (False, \<lparr>ct_max = sh_max s, ct_value = v\<rparr>)"
proof -
  have "sh_values s \<noteq> []" using assms(1) by (simp add: shared_ok_def)
  then have "hd (sh_values s) \<in> set (sh_values s)" by simp
  moreover have "sh_max s < n \<or> (\<exists>v \<in> set (sh_values s). \<not> v \<le> sh_max s - n)"
    using assms by (auto simp: shared_ok_def seen_ok_def dest: spec [of _ i])
  ultimately show ?thesis by (auto simp: st_try_add_def)
qed

lemma answer_True:
  assumes "mt_step i s s'" and "shared_ok s" and "pc_of s' i = Returning n True" and "pc_of s i \<noteq> Returning n True"
  shows "st_try_add n (counter_of s) = (True, counter_of s')"
  using assms(1)
proof cases
  case (exchange m v)
  have "m \<le> sh_max s" using assms(2) exchange by (auto simp: shared_ok_def seen_ok_def dest: spec [of _ i])
  with exchange assms(3) show ?thesis by (simp add: st_try_add_def counter_of_def)
qed (use assms(3,4) in \<open>auto split: if_splits\<close>)

section \<open>A thread that runs alone returns\<close>

text \<open>
  The step of a thread that is not disturbed: its loads see the newest value and its exchange does not
  fail for no reason.
\<close>

definition alone :: "nat \<Rightarrow> shared \<Rightarrow> shared" where
  "alone i s = (case pc_of s i of
     Entered n \<Rightarrow> goto i (if n \<le> sh_max s then Loading n else Returning n False) s
   | Loading n \<Rightarrow> goto i (Trying n (sh_value s)) s
   | Trying n v \<Rightarrow>
       if \<not> v \<le> sh_max s - n then goto i (Returning n False) s
       else if sh_value s = v then goto i (Returning n True) (own i (owned_of s i + unat n) (write_value (v + n) s))
       else goto i (Trying n (sh_value s)) s
   | _ \<Rightarrow> s)"

lemma alone_step:
  assumes "shared_ok s" and "i < length (sh_threads s)"
  shows "alone i s = s \<or> mt_step i s (alone i s)"
proof -
  have "sh_value s \<in> set (sh_values s)" using assms(1) by (simp add: shared_ok_def)
  with assms(2) mt_step.test [OF assms(2)] show ?thesis
    by (cases "pc_of s i") (auto simp: alone_def intro: mt_step.intros)
qed

lemma alone_returns:
  assumes "i < length (sh_threads s)" and "pc_of s i = Entered n"
  shows "pc_of (alone i (alone i (alone i s))) i = Returning n (n \<le> sh_max s \<and> sh_value s \<le> sh_max s - n)"
  using assms by (simp add: alone_def)

lemma alone_retries:
  assumes "i < length (sh_threads s)" and "pc_of s i = Trying n v"
  shows "\<exists>b. pc_of (alone i s) i = Returning n b \<or> pc_of (alone i (alone i s)) i = Returning n b"
  using assms by (simp add: alone_def ex_bool_eq)

end
