(* ===== verification/Shared_Counter.thy ===== *)
theory Shared_Counter
  imports Counters
begin

text \<open>
  The counter of \<^verbatim>\<open>src/cpp/inc/bond/ext/shared_counter.h\<close>: handles that share one counter object with
  a count of references. The memory maps the address of an object to the object. The pointer that a
  handle holds calls \<open>intrusive_ptr_add_ref\<close> for every copy and \<open>intrusive_ptr_release\<close> for every
  destruction, as its type (of boost) documents.
\<close>

section \<open>The counter object\<close>

text \<open>\<open>ic_own_alloc\<close>: the object was allocated with an allocator that it keeps (\<open>internal_counter_with_allocator\<close>).\<close>

record internal_counter =
  ic_counter :: counter
  ic_refs :: u64
  ic_own_alloc :: bool

record 'a counter_memory =
  cm_cells :: "nat \<rightharpoonup> internal_counter"
  cm_alloc :: 'a

definition internal_counter_init :: "u64 \<Rightarrow> bool \<Rightarrow> internal_counter" where
  "internal_counter_init max_value own = \<lparr>ic_counter = counter_init max_value, ic_refs = 0, ic_own_alloc = own\<rparr>"

definition intrusive_ptr_add_ref :: "nat \<Rightarrow> 'a counter_memory \<Rightarrow> 'a counter_memory option" where
  "intrusive_ptr_add_ref p m = (case cm_cells m p of None \<Rightarrow> None
     | Some c \<Rightarrow> Some (m\<lparr>cm_cells := (cm_cells m)(p \<mapsto> c\<lparr>ic_refs := ic_refs c + 1\<rparr>)\<rparr>))"

text \<open>An object without an allocator of its own goes back by \<open>delete this\<close>, which no allocator sees.\<close>

definition delete_this ::
    "(nat \<Rightarrow> u64 \<Rightarrow> 'a \<Rightarrow> 'a) \<Rightarrow> u64 \<Rightarrow> nat \<Rightarrow> internal_counter \<Rightarrow> 'a counter_memory \<Rightarrow> 'a counter_memory" where
  "delete_this deallocate sizeof p c m =
     (let m = m\<lparr>cm_cells := (cm_cells m)(p := None)\<rparr>
      in if ic_own_alloc c then m\<lparr>cm_alloc := deallocate p sizeof (cm_alloc m)\<rparr> else m)"

definition intrusive_ptr_release ::
    "(nat \<Rightarrow> u64 \<Rightarrow> 'a \<Rightarrow> 'a) \<Rightarrow> u64 \<Rightarrow> nat \<Rightarrow> 'a counter_memory \<Rightarrow> 'a counter_memory option" where
  "intrusive_ptr_release deallocate sizeof p m = (case cm_cells m p of None \<Rightarrow> None
     | Some c \<Rightarrow>
         let c = c\<lparr>ic_refs := ic_refs c - 1\<rparr>; m = m\<lparr>cm_cells := (cm_cells m)(p \<mapsto> c)\<rparr>
         in Some (if ic_refs c = 0 then delete_this deallocate sizeof p c m else m))"

section \<open>The operations of a handle\<close>

definition sc_try_add :: "u64 \<Rightarrow> nat \<Rightarrow> 'a counter_memory \<Rightarrow> (bool \<times> 'a counter_memory) option" where
  "sc_try_add n p m = (case cm_cells m p of None \<Rightarrow> None
     | Some c \<Rightarrow> case st_try_add n (ic_counter c) of (b, k) \<Rightarrow>
         Some (b, m\<lparr>cm_cells := (cm_cells m)(p \<mapsto> c\<lparr>ic_counter := k\<rparr>)\<rparr>))"

definition sc_subtract :: "u64 \<Rightarrow> nat \<Rightarrow> 'a counter_memory \<Rightarrow> 'a counter_memory option" where
  "sc_subtract n p m = map_option (\<lambda>c. m\<lparr>cm_cells := (cm_cells m)(p \<mapsto> c\<lparr>ic_counter := st_subtract n (ic_counter c)\<rparr>)\<rparr>) (cm_cells m p)"

definition sc_value :: "nat \<Rightarrow> 'a counter_memory \<Rightarrow> u64 option" where
  "sc_value p m = map_option (ct_value \<circ> ic_counter) (cm_cells m p)"

definition sc_max_value :: "nat \<Rightarrow> 'a counter_memory \<Rightarrow> u64 option" where
  "sc_max_value p m = map_option (ct_max \<circ> ic_counter) (cm_cells m p)"

text \<open>
  \<open>shared_counter(max_value)\<close>, at an address that \<open>new\<close> returns, and \<open>shared_counter(max_value, alloc)\<close>:
  the object is allocated through a capped allocator with a counter of its own, and what that counter
  has counted is then added to the new counter, the result of the addition ignored.
\<close>

definition sc_new :: "u64 \<Rightarrow> nat \<Rightarrow> 'a counter_memory \<Rightarrow> 'a counter_memory option" where
  "sc_new max_value p m = intrusive_ptr_add_ref p (m\<lparr>cm_cells := (cm_cells m)(p \<mapsto> internal_counter_init max_value False)\<rparr>)"

definition allocate_counter ::
    "(u64 \<Rightarrow> 'a \<Rightarrow> nat res \<times> 'a) \<Rightarrow> u64 \<Rightarrow> u64 \<Rightarrow> 'a counter_memory \<Rightarrow> nat res \<times> 'a counter_memory option" where
  "allocate_counter allocate sizeof max_value m =
     (let capped = \<lparr>ca_count = counter_init max_value, ca_alloc = cm_alloc m, ca_subtract_on_deallocate = True\<rparr>
      in case ca_allocate st_try_add st_subtract allocate 1 sizeof capped of
           (Inl e, capped) \<Rightarrow> (Inl e, Some (m\<lparr>cm_alloc := ca_alloc capped\<rparr>))
         | (Inr p, capped) \<Rightarrow>
             let m = m\<lparr>cm_alloc := ca_alloc capped, cm_cells := (cm_cells m)(p \<mapsto> internal_counter_init max_value True)\<rparr>
             in (Inr p, Option.bind (intrusive_ptr_add_ref p m)
                          (\<lambda>m. map_option snd (sc_try_add (ct_value (ca_count capped)) p m))))"

lemma allocate_counter_Inr:
  assumes "sizeof \<le> max_value" and "allocate sizeof (cm_alloc m) = (Inr p, a)"
  shows "allocate_counter allocate sizeof max_value m = (Inr p, Some \<lparr>cm_cells = (cm_cells m)(p \<mapsto>
    \<lparr>ic_counter = \<lparr>ct_max = max_value, ct_value = sizeof\<rparr>, ic_refs = 1, ic_own_alloc = True\<rparr>), cm_alloc = a\<rparr>)"
  using assms
  by (simp add: allocate_counter_def ca_allocate_def st_try_add_def counter_init_def intrusive_ptr_add_ref_def
      sc_try_add_def internal_counter_init_def Let_def)

lemma allocate_counter_Inl:
  "\<not> sizeof \<le> max_value \<Longrightarrow> allocate_counter allocate sizeof max_value m = (Inl BadAlloc, Some m)"
  by (simp add: allocate_counter_def ca_allocate_def st_try_add_def counter_init_def Let_def)

section \<open>Handles and references\<close>

text \<open>A run of a program: \<open>handles\<close> lists the address of every handle that is alive. Storage that is handed out is not in use.\<close>

inductive sc_run ::
    "(u64 \<Rightarrow> 'a \<Rightarrow> nat res \<times> 'a) \<Rightarrow> (nat \<Rightarrow> u64 \<Rightarrow> 'a \<Rightarrow> 'a) \<Rightarrow> u64 \<Rightarrow> nat list \<Rightarrow> 'a counter_memory \<Rightarrow> bool"
  for allocate deallocate sizeof where
  empty: "sc_run allocate deallocate sizeof [] \<lparr>cm_cells = Map.empty, cm_alloc = a\<rparr>"
| new_default: "sc_run allocate deallocate sizeof hs m \<Longrightarrow> cm_cells m p = None \<Longrightarrow> sc_new max_value p m = Some m' \<Longrightarrow>
    sc_run allocate deallocate sizeof (p # hs) m'"
| new_alloc: "sc_run allocate deallocate sizeof hs m \<Longrightarrow> allocate_counter allocate sizeof max_value m = (Inr p, Some m') \<Longrightarrow>
    cm_cells m p = None \<Longrightarrow> sc_run allocate deallocate sizeof (p # hs) m'"
| copy: "sc_run allocate deallocate sizeof hs m \<Longrightarrow> p \<in> set hs \<Longrightarrow> Suc (length hs) < 2 ^ 64 \<Longrightarrow>
    intrusive_ptr_add_ref p m = Some m' \<Longrightarrow> sc_run allocate deallocate sizeof (p # hs) m'"
| destroy: "sc_run allocate deallocate sizeof (xs @ p # ys) m \<Longrightarrow> intrusive_ptr_release deallocate sizeof p m = Some m' \<Longrightarrow>
    sc_run allocate deallocate sizeof (xs @ ys) m'"
| add: "sc_run allocate deallocate sizeof hs m \<Longrightarrow> p \<in> set hs \<Longrightarrow> sc_try_add n p m = Some (b, m') \<Longrightarrow>
    sc_run allocate deallocate sizeof hs m'"
| sub: "sc_run allocate deallocate sizeof hs m \<Longrightarrow> p \<in> set hs \<Longrightarrow> sc_value p m = Some v \<Longrightarrow> n \<le> v \<Longrightarrow>
    sc_subtract n p m = Some m' \<Longrightarrow> sc_run allocate deallocate sizeof hs m'"

text \<open>Every object has as many references as handles, at least one, and its counter is within its limit.\<close>

definition refs_ok :: "nat list \<Rightarrow> (nat \<rightharpoonup> internal_counter) \<Rightarrow> bool" where
  "refs_ok hs cells \<longleftrightarrow> dom cells = set hs \<and>
     (\<forall>p c. cells p = Some c \<longrightarrow> unat (ic_refs c) = count_list hs p \<and> counter_ok (ic_counter c))"

lemma refs_okD:
  "refs_ok hs cells \<Longrightarrow> cells p = Some c \<Longrightarrow> unat (ic_refs c) = count_list hs p \<and> counter_ok (ic_counter c) \<and> p \<in> set hs"
  by (auto simp: refs_ok_def)

lemma refs_ok_in: "refs_ok hs cells \<Longrightarrow> p \<in> set hs \<Longrightarrow> \<exists>c. cells p = Some c"
  by (auto simp: refs_ok_def)

lemma refs_ok_new:
  assumes "refs_ok hs cells" and "cells p = None" and "ic_refs c = 1" and "counter_ok (ic_counter c)"
  shows "refs_ok (p # hs) (cells(p \<mapsto> c))"
proof -
  have "p \<notin> set hs" using assms(1,2) by (auto simp: refs_ok_def)
  then have "count_list hs p = 0" by (simp add: count_list_0_iff)
  with assms show ?thesis by (auto simp: refs_ok_def)
qed

lemma refs_ok_copy:
  assumes "refs_ok hs cells" and "cells p = Some c" and "Suc (length hs) < 2 ^ 64"
  shows "refs_ok (p # hs) (cells(p \<mapsto> c\<lparr>ic_refs := ic_refs c + 1\<rparr>))"
proof -
  have "unat (ic_refs c + 1) = Suc (unat (ic_refs c))"
    using refs_okD [OF assms(1,2)] count_le_length [of hs p] assms(3) by (simp add: unat_word_ariths)
  with assms(1,2) show ?thesis by (auto simp: refs_ok_def insert_absorb)
qed

lemma refs_ok_destroy:
  assumes "refs_ok (xs @ p # ys) cells" and "cells p = Some c"
  shows "refs_ok (xs @ ys) (if ic_refs c - 1 = 0 then cells(p := None) else cells(p \<mapsto> c\<lparr>ic_refs := ic_refs c - 1\<rparr>))"
proof -
  have refs: "unat (ic_refs c) = Suc (count_list (xs @ ys) p)" using refs_okD [OF assms] by simp
  then have "unat (ic_refs c - 1) = count_list (xs @ ys) p" by (simp add: unat_sub word_le_nat_alt)
  moreover from this have "ic_refs c - 1 = 0 \<longleftrightarrow> p \<notin> set (xs @ ys)"
    by (metis count_list_0_iff unat_eq_zero)
  ultimately show ?thesis using assms by (auto simp: refs_ok_def split: if_splits)
qed

lemma refs_ok_counter:
  "refs_ok hs cells \<Longrightarrow> cells p = Some c \<Longrightarrow> counter_ok k \<Longrightarrow> refs_ok hs (cells(p \<mapsto> c\<lparr>ic_counter := k\<rparr>))"
  by (auto simp: refs_ok_def)

lemma st_try_add_ok: "counter_ok c \<Longrightarrow> st_try_add n c = (b, c') \<Longrightarrow> counter_ok c'"
  using st.try_add_True [of c n] st.try_add_False [of c n] by (cases "unat (ct_value c) + unat n \<le> unat (ct_max c)") auto

lemma run_refs_ok: "sc_run allocate deallocate sizeof hs m \<Longrightarrow> refs_ok hs (cm_cells m)"
proof (induction rule: sc_run.induct)
  case (empty a)
  show ?case by (simp add: refs_ok_def)
next
  case (new_default hs m p max_value m')
  let ?c = "\<lparr>ic_counter = \<lparr>ct_max = max_value, ct_value = 0\<rparr>, ic_refs = 1, ic_own_alloc = False\<rparr>"
  from new_default have "cm_cells m' = (cm_cells m)(p \<mapsto> ?c)"
    by (auto simp: sc_new_def intrusive_ptr_add_ref_def internal_counter_init_def counter_init_def)
  moreover have "refs_ok (p # hs) ((cm_cells m)(p \<mapsto> ?c))"
    using new_default by (intro refs_ok_new) (simp_all add: counter_ok_def)
  ultimately show ?case by (simp only:)
next
  case (new_alloc hs m max_value p m')
  have le: "sizeof \<le> max_value" using new_alloc.hyps(2) allocate_counter_Inl [of sizeof max_value allocate m] by auto
  obtain a where a: "allocate sizeof (cm_alloc m) = (Inr p, a)"
    using new_alloc.hyps(2) le
    by (auto simp: allocate_counter_def ca_allocate_def st_try_add_def counter_init_def Let_def split: prod.splits sum.splits)
  have "cm_cells m' = (cm_cells m)(p \<mapsto>
      \<lparr>ic_counter = \<lparr>ct_max = max_value, ct_value = sizeof\<rparr>, ic_refs = 1, ic_own_alloc = True\<rparr>)"
    using new_alloc.hyps(2) allocate_counter_Inr [of sizeof max_value allocate m p a, OF le a] by auto
  moreover have "refs_ok (p # hs) ((cm_cells m)(p \<mapsto>
      \<lparr>ic_counter = \<lparr>ct_max = max_value, ct_value = sizeof\<rparr>, ic_refs = 1, ic_own_alloc = True\<rparr>))"
    using new_alloc le by (intro refs_ok_new) (simp_all add: counter_ok_def)
  ultimately show ?case by (simp only:)
next
  case (copy hs m p m')
  then show ?case by (auto simp del: fun_upd_apply simp: intrusive_ptr_add_ref_def refs_ok_copy split: option.splits)
next
  case (destroy xs p ys m m')
  then obtain c where c: "cm_cells m p = Some c" using refs_ok_in by fastforce
  with destroy refs_ok_destroy [OF destroy.IH c] show ?case
    by (auto simp del: fun_upd_apply simp: intrusive_ptr_release_def delete_this_def Let_def split: if_splits)
next
  case (add hs m p n b m')
  then show ?case
    by (auto simp del: fun_upd_apply simp: sc_try_add_def split: option.splits prod.splits intro!: refs_ok_counter dest: st_try_add_ok [rotated] refs_okD)
next
  case (sub hs m p v n m')
  then obtain c where c: "cm_cells m p = Some c" "m' = m\<lparr>cm_cells := (cm_cells m)(p \<mapsto> c\<lparr>ic_counter := st_subtract n (ic_counter c)\<rparr>)\<rparr>"
    by (auto simp: sc_subtract_def)
  have "unat n \<le> unat (ct_value (ic_counter c))" using sub.hyps(3,4) c by (simp add: sc_value_def word_le_nat_alt)
  with st.subtract_law refs_okD [OF sub.IH c(1)] have "counter_ok (st_subtract n (ic_counter c))" by blast
  with c sub.IH show ?case by (simp del: fun_upd_apply add: refs_ok_counter)
qed

end
