(* ===== verification/Json_Writer.thy ===== *)
theory Json_Writer
  imports Output_Stream Serializer Bond_Schema Wire_Scalars
begin

text \<open>
  The JSON writer \<open>SimpleJsonWriter\<close> and the transform \<open>Serializer\<close> specialized for it
  (\<^verbatim>\<open>src/cpp/inc/bond/protocol/simple_json_writer.h\<close>, \<^verbatim>\<open>detail/rapidjson_helper.h\<close>). The writer
  derives from the writer of RapidJSON, which is not part of the library: the text that its
  \<open>WriteString\<close>, \<open>WriteInt64\<close>, \<open>WriteUint64\<close>, \<open>WriteUint\<close> and \<open>WriteDouble\<close> put on the stream, one
  character at a time, is a parameter. The members \<open>_count\<close> and \<open>_level\<close> are of type \<open>int\<close>:
  they are integers whose increments and decrements are checked for overflow.
\<close>

unbundle bit_operations_syntax

section \<open>Characters\<close>

abbreviation (input) QUOTE :: byte where "QUOTE \<equiv> 0x22"
abbreviation (input) COMMA :: byte where "COMMA \<equiv> 0x2c"
abbreviation (input) COLON :: byte where "COLON \<equiv> 0x3a"
abbreviation (input) SPACE :: byte where "SPACE \<equiv> 0x20"
abbreviation (input) NEWLINE :: byte where "NEWLINE \<equiv> 0x0a"
abbreviation (input) BACKSLASH :: byte where "BACKSLASH \<equiv> 0x5c"
abbreviation (input) SLASH :: byte where "SLASH \<equiv> 0x2f"
abbreviation (input) LBRACK :: byte where "LBRACK \<equiv> 0x5b"
abbreviation (input) RBRACK :: byte where "RBRACK \<equiv> 0x5d"
abbreviation (input) LBRACE :: byte where "LBRACE \<equiv> 0x7b"
abbreviation (input) RBRACE :: byte where "RBRACE \<equiv> 0x7d"
abbreviation (input) LETTER_u :: byte where "LETTER_u \<equiv> 0x75"

definition bytes_of_string :: "string \<Rightarrow> byte list" where
  "bytes_of_string s = map of_char s"

definition true_text :: "byte list" where "true_text = [0x74, 0x72, 0x75, 0x65]"
definition false_text :: "byte list" where "false_text = [0x66, 0x61, 0x6c, 0x73, 0x65]"
definition null_text :: "byte list" where "null_text = [0x6e, 0x75, 0x6c, 0x6c]"

text \<open>\<open>detail::FieldName\<close>: the attribute \<open>JsonName\<close> if there is one\<close>

definition FieldName :: "Metadata \<Rightarrow> string" where
  "FieldName metadata =
     (case map_of (md_attributes metadata) ''JsonName'' of Some name \<Rightarrow> name | None \<Rightarrow> md_name metadata)"

section \<open>Checked counters\<close>

definition int_inc :: "int \<Rightarrow> int res" where
  "int_inc i = (if i = 2 ^ 31 - 1 then Inl SignedOverflow else Inr (i + 1))"

definition int_dec :: "int \<Rightarrow> int res" where
  "int_dec i = (if i = - (2 ^ 31) then Inl SignedOverflow else Inr (i - 1))"

section \<open>The writer\<close>

record rapidjson_writer =
  rj_WriteString :: "byte list \<Rightarrow> byte list"
  rj_WriteInt64 :: "u64 \<Rightarrow> byte list"
  rj_WriteUint64 :: "u64 \<Rightarrow> byte list"
  rj_WriteUint :: "u32 \<Rightarrow> byte list"
  rj_WriteDouble :: "u64 \<Rightarrow> byte list"

record 'b SimpleJsonWriter =
  jw_output :: 'b
  jw_count :: int
  jw_level :: int
  jw_indent :: int
  jw_pretty :: bool
  jw_all_fields :: bool

definition SimpleJsonWriter_init :: "'b \<Rightarrow> bool \<Rightarrow> int \<Rightarrow> bool \<Rightarrow> 'b SimpleJsonWriter" where
  "SimpleJsonWriter_init stream pretty indent all_fields =
     \<lparr>jw_output = stream, jw_count = 0, jw_level = 0, jw_indent = min indent 8, jw_pretty = pretty,
      jw_all_fields = all_fields\<rparr>"

definition on_output :: "('b \<Rightarrow> 'b res) \<Rightarrow> 'b SimpleJsonWriter \<Rightarrow> 'b SimpleJsonWriter res" where
  "on_output m w = res_bind (m (jw_output w)) (\<lambda>b. Inr (w\<lparr>jw_output := b\<rparr>))"

text \<open>\<open>_output.Write(c)\<close> of a character and \<open>_output.Write("...", n)\<close>\<close>

definition jw_char :: "'b Buffer \<Rightarrow> byte \<Rightarrow> 'b SimpleJsonWriter \<Rightarrow> 'b SimpleJsonWriter res" where
  "jw_char B c = on_output (b_Write B [c])"

definition jw_mem :: "'b Buffer \<Rightarrow> byte list \<Rightarrow> 'b SimpleJsonWriter \<Rightarrow> 'b SimpleJsonWriter res" where
  "jw_mem B bs = on_output (b_WriteMem B bs)"

text \<open>\<open>RapidJsonOutputStream::Put\<close>, and the sequence of \<open>Put\<close> of a member of RapidJSON's writer\<close>

definition RapidJsonOutputStream_Put :: "'b Buffer \<Rightarrow> byte \<Rightarrow> 'b \<Rightarrow> 'b res" where
  "RapidJsonOutputStream_Put B c = b_Write B [c]"

fun jw_puts :: "'b Buffer \<Rightarrow> byte list \<Rightarrow> 'b SimpleJsonWriter \<Rightarrow> 'b SimpleJsonWriter res" where
  "jw_puts B [] = Inr"
| "jw_puts B (c # cs) = seq (on_output (RapidJsonOutputStream_Put B c)) (jw_puts B cs)"

text \<open>
  \<open>NewLine\<close>: the indentation is copied from a literal of eight spaces; with a negative level the
  loop decrements past the least integer.
\<close>

definition jw_spaces :: "'b Buffer \<Rightarrow> 'b SimpleJsonWriter \<Rightarrow> 'b SimpleJsonWriter res" where
  "jw_spaces B w =
     (if 0 \<le> jw_indent w \<and> jw_indent w \<le> 8 then jw_mem B (replicate (nat (jw_indent w)) SPACE) w
      else Inl OutOfBounds)"

fun jw_indentation :: "'b Buffer \<Rightarrow> nat \<Rightarrow> 'b SimpleJsonWriter \<Rightarrow> 'b SimpleJsonWriter res" where
  "jw_indentation B 0 = Inr"
| "jw_indentation B (Suc i) = seq (jw_spaces B) (jw_indentation B i)"

definition jw_NewLine :: "'b Buffer \<Rightarrow> 'b SimpleJsonWriter \<Rightarrow> 'b SimpleJsonWriter res" where
  "jw_NewLine B w =
     (if \<not> jw_pretty w then Inr w
      else if jw_level w < 0 then Inl SignedOverflow
      else seq (jw_char B NEWLINE) (jw_indentation B (nat (jw_level w))) w)"

definition jw_WriteOpen :: "'b Buffer \<Rightarrow> byte \<Rightarrow> 'b SimpleJsonWriter \<Rightarrow> 'b SimpleJsonWriter res" where
  "jw_WriteOpen B bracket =
     seq (jw_char B bracket)
       (\<lambda>w. res_bind (int_inc (jw_level w)) (\<lambda>level. Inr (w\<lparr>jw_level := level, jw_count := 0\<rparr>)))"

definition jw_WriteClose :: "'b Buffer \<Rightarrow> byte \<Rightarrow> 'b SimpleJsonWriter \<Rightarrow> 'b SimpleJsonWriter res" where
  "jw_WriteClose B bracket =
     seq (\<lambda>w. res_bind (int_dec (jw_level w)) (\<lambda>level.
            res_bind (int_inc (jw_count w)) (\<lambda>count. Inr (w\<lparr>jw_level := level, jw_count := count\<rparr>))))
       (seq (jw_NewLine B) (jw_char B bracket))"

definition jw_WriteSeparator :: "'b Buffer \<Rightarrow> int \<Rightarrow> 'b SimpleJsonWriter \<Rightarrow> 'b SimpleJsonWriter res" where
  "jw_WriteSeparator B per_line =
     seq (\<lambda>w. if jw_count w \<noteq> 0 then jw_mem B (take (if jw_pretty w then 2 else 1) [COMMA, SPACE]) w else Inr w)
       (\<lambda>w. res_bind (int_inc (jw_count w)) (\<lambda>count.
          (if jw_count w mod per_line = 0 then jw_NewLine B else Inr) (w\<lparr>jw_count := count\<rparr>)))"

section \<open>Strings\<close>

definition unicode_escape :: "u32 \<Rightarrow> byte list" where
  "unicode_escape c =
     [BACKSLASH, LETTER_u, HexDigit (signed_drop_bit 12 c), HexDigit (signed_drop_bit 8 c),
      HexDigit (signed_drop_bit 4 c), HexDigit (signed_drop_bit 0 c)]"

definition jw_WriteUnicode :: "'b Buffer \<Rightarrow> u32 \<Rightarrow> 'b SimpleJsonWriter \<Rightarrow> 'b SimpleJsonWriter res" where
  "jw_WriteUnicode B c = jw_mem B (unicode_escape c)"

text \<open>The body of the loop over the characters of a wide string; \<open>wchar_t\<close> is signed.\<close>

definition escaped :: "u32 \<Rightarrow> bool" where
  "escaped c \<longleftrightarrow> c <s 0x20 \<or> c = ucast QUOTE \<or> c = ucast BACKSLASH \<or> c = ucast SLASH"

definition escape_letter :: "u32 \<Rightarrow> u32" where
  "escape_letter c =
     (if c = 0x08 then 0x62 else if c = 0x0c then 0x66 else if c = 0x0a then 0x6e
      else if c = 0x0d then 0x72 else if c = 0x09 then 0x74 else c)"

definition jw_WriteWChar :: "'b Buffer \<Rightarrow> u32 \<Rightarrow> 'b SimpleJsonWriter \<Rightarrow> 'b SimpleJsonWriter res" where
  "jw_WriteWChar B c =
     (let c' = (if escaped c then escape_letter c else c)
      in seq (if escaped c \<and> 0x20 \<le>s c' then jw_char B BACKSLASH else Inr)
           (if 0x20 \<le>s c' \<and> c' <s 0x80 then jw_char B (ucast c') else jw_WriteUnicode B c'))"

fun jw_WriteWChars :: "'b Buffer \<Rightarrow> u32 list \<Rightarrow> 'b SimpleJsonWriter \<Rightarrow> 'b SimpleJsonWriter res" where
  "jw_WriteWChars B [] = Inr"
| "jw_WriteWChars B (c # cs) = seq (jw_WriteWChar B c) (jw_WriteWChars B cs)"

definition jw_WriteWString :: "'b Buffer \<Rightarrow> u32 list \<Rightarrow> 'b SimpleJsonWriter \<Rightarrow> 'b SimpleJsonWriter res" where
  "jw_WriteWString B s = seq (jw_char B QUOTE) (seq (jw_WriteWChars B s) (jw_char B QUOTE))"

section \<open>Names and basic values\<close>

definition jw_WriteName ::
    "'b Buffer \<Rightarrow> rapidjson_writer \<Rightarrow> string \<Rightarrow> 'b SimpleJsonWriter \<Rightarrow> 'b SimpleJsonWriter res" where
  "jw_WriteName B J name =
     seq (jw_puts B (rj_WriteString J (bytes_of_string name)))
       (\<lambda>w. jw_mem B (take (if jw_pretty w then 2 else 1) [COLON, SPACE]) w)"

definition jw_WriteName_id ::
    "'b Buffer \<Rightarrow> rapidjson_writer \<Rightarrow> u16 \<Rightarrow> 'b SimpleJsonWriter \<Rightarrow> 'b SimpleJsonWriter res" where
  "jw_WriteName_id B J fid =
     seq (jw_char B QUOTE)
       (seq (jw_puts B (rj_WriteUint J (ucast fid)))
         (\<lambda>w. jw_mem B (take (if jw_pretty w then 3 else 2) [QUOTE, COLON, SPACE]) w))"

definition jw_WriteNull :: "'b Buffer \<Rightarrow> 'b SimpleJsonWriter \<Rightarrow> 'b SimpleJsonWriter res" where
  "jw_WriteNull B = jw_mem B null_text"

text \<open>\<open>Write\<close> has an overload for each basic type; there is none for the other values.\<close>

fun jw_Write ::
    "'b Buffer \<Rightarrow> rapidjson_writer \<Rightarrow> bvalue \<Rightarrow> 'b SimpleJsonWriter \<Rightarrow> 'b SimpleJsonWriter res" where
  "jw_Write B J (VBool b) = jw_mem B (if b then true_text else false_text)"
| "jw_Write B J (VUInt8 x) = jw_puts B (rj_WriteUint64 J (ucast x))"
| "jw_Write B J (VUInt16 x) = jw_puts B (rj_WriteUint64 J (ucast x))"
| "jw_Write B J (VUInt32 x) = jw_puts B (rj_WriteUint64 J (ucast x))"
| "jw_Write B J (VUInt64 x) = jw_puts B (rj_WriteUint64 J x)"
| "jw_Write B J (VInt8 x) = jw_puts B (rj_WriteInt64 J (scast x))"
| "jw_Write B J (VInt16 x) = jw_puts B (rj_WriteInt64 J (scast x))"
| "jw_Write B J (VInt32 x) = jw_puts B (rj_WriteInt64 J (scast x))"
| "jw_Write B J (VInt64 x) = jw_puts B (rj_WriteInt64 J x)"
| "jw_Write B J (VFloat x) = jw_puts B (rj_WriteDouble J (float_to_double x))"
| "jw_Write B J (VDouble x) = jw_puts B (rj_WriteDouble J x)"
| "jw_Write B J (VString s) = jw_puts B (rj_WriteString J s)"
| "jw_Write B J (VWString s) = jw_WriteWString B s"
| "jw_Write B J v = (\<lambda>w. Inl AssertionFailed)"

section \<open>The serializer\<close>

text \<open>\<open>WriteName\<close> of the serializer separates the members; \<open>WriteEnd\<close>\<close>

definition js_WriteName ::
    "'b Buffer \<Rightarrow> rapidjson_writer \<Rightarrow> string \<Rightarrow> 'b SimpleJsonWriter \<Rightarrow> 'b SimpleJsonWriter res" where
  "js_WriteName B J name = seq (jw_WriteSeparator B 1) (jw_WriteName B J name)"

definition js_WriteEnd :: "'b Buffer \<Rightarrow> bool \<Rightarrow> 'b SimpleJsonWriter \<Rightarrow> 'b SimpleJsonWriter res" where
  "js_WriteEnd B base = (if \<not> base then jw_WriteClose B RBRACE else Inr)"

text \<open>
  The state of a \<open>Serializer\<close> is its \<open>_level\<close> and the writer it refers to. \<open>Begin\<close> opens the object
  and \<open>End\<close> closes it at the outermost level only, so the fields of the bases and those of the
  struct are members of one object.
\<close>

type_synonym 'b serializer = "u32 \<times> 'b SimpleJsonWriter"

definition js_Begin :: "'b Buffer \<Rightarrow> 'b serializer \<Rightarrow> 'b serializer res" where
  "js_Begin B = (\<lambda>(level, w).
     res_bind (if level = 0 then jw_WriteOpen B LBRACE w else Inr w) (\<lambda>w. Inr (level + 1, w)))"

definition js_End :: "'b Buffer \<Rightarrow> 'b serializer \<Rightarrow> 'b serializer res" where
  "js_End B = (\<lambda>(level, w). res_bind (js_WriteEnd B (level - 1 \<noteq> 0) w) (\<lambda>w. Inr (level - 1, w)))"

definition on_writer :: "('b SimpleJsonWriter \<Rightarrow> 'b SimpleJsonWriter res) \<Rightarrow> 'b serializer \<Rightarrow> 'b serializer res" where
  "on_writer m = (\<lambda>(level, w). res_bind (m w) (\<lambda>w. Inr (level, w)))"

text \<open>The overload of \<open>Write\<close> for a \<open>blob\<close>\<close>

fun js_WriteBytes ::
    "'b Buffer \<Rightarrow> rapidjson_writer \<Rightarrow> byte list \<Rightarrow> 'b SimpleJsonWriter \<Rightarrow> 'b SimpleJsonWriter res" where
  "js_WriteBytes B J [] = Inr"
| "js_WriteBytes B J (ch # chs) =
     seq (jw_WriteSeparator B 1) (seq (jw_Write B J (VInt8 ch)) (js_WriteBytes B J chs))"

text \<open>
  \<open>Write\<close> by the kind of value (an item of a map is a pair, whose components are separated in turn),
  \<open>Field\<close> for plain and \<open>maybe\<close> fields, and \<open>StaticParser::Apply\<close> with \<open>Begin\<close>, \<open>Base\<close>, the fields in
  order, and \<open>End\<close>.
\<close>

function (sequential) js_Write ::
    "'b Buffer \<Rightarrow> rapidjson_writer \<Rightarrow> bvalue \<Rightarrow> 'b SimpleJsonWriter \<Rightarrow> 'b SimpleJsonWriter res"
  and js_WriteItems ::
    "'b Buffer \<Rightarrow> rapidjson_writer \<Rightarrow> bvalue list \<Rightarrow> 'b SimpleJsonWriter \<Rightarrow> 'b SimpleJsonWriter res"
  and js_WritePairs ::
    "'b Buffer \<Rightarrow> rapidjson_writer \<Rightarrow> int \<Rightarrow> (bvalue \<times> bvalue) list \<Rightarrow> 'b SimpleJsonWriter \<Rightarrow>
      'b SimpleJsonWriter res"
  and js_Field ::
    "'b Buffer \<Rightarrow> rapidjson_writer \<Rightarrow> bfield \<Rightarrow> 'b SimpleJsonWriter \<Rightarrow> 'b SimpleJsonWriter res"
  and js_Fields ::
    "'b Buffer \<Rightarrow> rapidjson_writer \<Rightarrow> bfield list \<Rightarrow> 'b SimpleJsonWriter \<Rightarrow> 'b SimpleJsonWriter res"
  and js_Apply :: "'b Buffer \<Rightarrow> rapidjson_writer \<Rightarrow> bstruct \<Rightarrow> 'b serializer \<Rightarrow> 'b serializer res" where
  "js_Write B J (VBlob b) =
     seq (jw_WriteOpen B LBRACK) (seq (js_WriteBytes B J (blob_bytes b)) (jw_WriteClose B RBRACK))"
| "js_Write B J (VList t vs) =
     seq (jw_WriteOpen B LBRACK) (seq (js_WriteItems B J vs) (jw_WriteClose B RBRACK))"
| "js_Write B J (VSet t vs) =
     seq (jw_WriteOpen B LBRACK) (seq (js_WriteItems B J vs) (jw_WriteClose B RBRACK))"
| "js_Write B J (VMap k t kvs) =
     seq (jw_WriteOpen B LBRACK)
       (seq (js_WritePairs B J (if is_basic_tag t then 2 else 1) kvs)
         (jw_WriteClose B RBRACK))"
| "js_Write B J (VStruct s) = (\<lambda>w. res_bind (js_Apply B J s (0, w)) (\<lambda>(level, w). Inr w))"
| "js_Write B J v = jw_Write B J v"
| "js_WriteItems B J [] = Inr"
| "js_WriteItems B J (v # vs) =
     seq (jw_WriteSeparator B 1) (seq (js_Write B J v) (js_WriteItems B J vs))"
| "js_WritePairs B J per_line [] = Inr"
| "js_WritePairs B J per_line ((k, v) # kvs) =
     seq (jw_WriteSeparator B 1)
       (seq (js_Write B J k)
         (seq (jw_WriteSeparator B per_line) (seq (js_Write B J v) (js_WritePairs B J per_line kvs))))"
| "js_Field B J (Field fid metadata v) =
     (\<lambda>w. if jw_all_fields w \<or> \<not> omit_field True metadata v
           then seq (js_WriteName B J (FieldName metadata)) (js_Write B J v) w
           else Inr w)"
| "js_Field B J (MaybeField fid metadata t None) = Inr"
| "js_Field B J (MaybeField fid metadata t (Some v)) =
     seq (js_WriteName B J (FieldName metadata)) (js_Write B J v)"
| "js_Fields B J [] = Inr"
| "js_Fields B J (f # fs) = seq (js_Field B J f) (js_Fields B J fs)"
| "js_Apply B J (Struct metadata None fs) =
     seq (js_Begin B) (seq (on_writer (js_Fields B J fs)) (js_End B))"
| "js_Apply B J (Struct metadata (Some b) fs) =
     seq (js_Begin B) (seq (js_Apply B J b) (seq (on_writer (js_Fields B J fs)) (js_End B)))"
  by pat_completeness auto
termination
  by (relation "measure (case_sum
      (case_sum (\<lambda>(B, J, v). size v)
         (case_sum (\<lambda>(B, J, vs). size_list size vs) (\<lambda>(B, J, n, kvs). size_list (size_prod size size) kvs)))
      (case_sum (\<lambda>(B, J, f). size f)
         (case_sum (\<lambda>(B, J, fs). size_list size fs) (\<lambda>(B, J, s). size s))))") auto

text \<open>\<open>Write\<close> of a \<open>nullable<T>\<close>\<close>

definition js_WriteNullable ::
    "'b Buffer \<Rightarrow> rapidjson_writer \<Rightarrow> bvalue option \<Rightarrow> 'b SimpleJsonWriter \<Rightarrow> 'b SimpleJsonWriter res" where
  "js_WriteNullable B J x =
     (case x of
        None \<Rightarrow> jw_WriteNull B
      | Some v \<Rightarrow> seq (jw_WriteOpen B LBRACK) (seq (js_Write B J v) (jw_WriteClose B RBRACK)))"

text \<open>
  \<open>UnknownField\<close> of a basic value is named by its id. \<open>OmittedField\<close> writes the default value of a field
  that the payload does not have: integers at 64 bits, an empty list or set as an array, an empty map
  as an object.
\<close>

definition js_UnknownField ::
    "'b Buffer \<Rightarrow> rapidjson_writer \<Rightarrow> u16 \<Rightarrow> bvalue \<Rightarrow> 'b SimpleJsonWriter \<Rightarrow> 'b SimpleJsonWriter res" where
  "js_UnknownField B J fid v =
     seq (seq (jw_WriteSeparator B 1) (jw_WriteName_id B J fid)) (js_Write B J v)"

fun js_OmittedValue ::
    "'b Buffer \<Rightarrow> rapidjson_writer \<Rightarrow> u16 \<Rightarrow> Metadata \<Rightarrow> BondDataType \<Rightarrow> 'b SimpleJsonWriter \<Rightarrow>
      'b SimpleJsonWriter res" where
  "js_OmittedValue B J fid md BT_BOOL = js_Field B J (Field fid md (VBool (uint_value (md_default_value md) \<noteq> 0)))"
| "js_OmittedValue B J fid md BT_UINT8 = js_Field B J (Field fid md (VUInt64 (uint_value (md_default_value md))))"
| "js_OmittedValue B J fid md BT_UINT16 = js_Field B J (Field fid md (VUInt64 (uint_value (md_default_value md))))"
| "js_OmittedValue B J fid md BT_UINT32 = js_Field B J (Field fid md (VUInt64 (uint_value (md_default_value md))))"
| "js_OmittedValue B J fid md BT_UINT64 = js_Field B J (Field fid md (VUInt64 (uint_value (md_default_value md))))"
| "js_OmittedValue B J fid md BT_FLOAT = js_Field B J (Field fid md (VDouble (double_value (md_default_value md))))"
| "js_OmittedValue B J fid md BT_DOUBLE = js_Field B J (Field fid md (VDouble (double_value (md_default_value md))))"
| "js_OmittedValue B J fid md BT_STRING = js_Field B J (Field fid md (VString (string_value (md_default_value md))))"
| "js_OmittedValue B J fid md BT_LIST =
     seq (js_WriteName B J (FieldName md)) (seq (jw_WriteOpen B LBRACK) (jw_WriteClose B RBRACK))"
| "js_OmittedValue B J fid md BT_SET =
     seq (js_WriteName B J (FieldName md)) (seq (jw_WriteOpen B LBRACK) (jw_WriteClose B RBRACK))"
| "js_OmittedValue B J fid md BT_MAP =
     seq (js_WriteName B J (FieldName md)) (seq (jw_WriteOpen B LBRACE) (jw_WriteClose B RBRACE))"
| "js_OmittedValue B J fid md BT_INT8 = js_Field B J (Field fid md (VInt64 (int_value (md_default_value md))))"
| "js_OmittedValue B J fid md BT_INT16 = js_Field B J (Field fid md (VInt64 (int_value (md_default_value md))))"
| "js_OmittedValue B J fid md BT_INT32 = js_Field B J (Field fid md (VInt64 (int_value (md_default_value md))))"
| "js_OmittedValue B J fid md BT_INT64 = js_Field B J (Field fid md (VInt64 (int_value (md_default_value md))))"
| "js_OmittedValue B J fid md BT_WSTRING = js_Field B J (Field fid md (VWString (wstring_value (md_default_value md))))"
| "js_OmittedValue B J fid md t = (\<lambda>w. Inl AssertionFailed)"

definition js_OmittedField ::
    "'b Buffer \<Rightarrow> rapidjson_writer \<Rightarrow> u16 \<Rightarrow> Metadata \<Rightarrow> BondDataType \<Rightarrow> 'b SimpleJsonWriter \<Rightarrow>
      'b SimpleJsonWriter res" where
  "js_OmittedField B J fid metadata type w =
     (if jw_all_fields w \<and> \<not> nothing (md_default_value metadata) then js_OmittedValue B J fid metadata type w
      else Inr w)"

text \<open>\<open>Apply(Serializer(writer), object)\<close>\<close>

definition js_Serialize ::
    "'b Buffer \<Rightarrow> rapidjson_writer \<Rightarrow> bstruct \<Rightarrow> 'b SimpleJsonWriter \<Rightarrow> 'b SimpleJsonWriter res" where
  "js_Serialize B J s = js_Write B J (VStruct s)"

end
