(* ===== verification/Json_Reader.thy ===== *)
theory Json_Reader
  imports Json_Writer Deserializer
begin

text \<open>
  The JSON reader: the adapter from input streams to RapidJSON and the matching of JSON values with Bond
  types (\<^verbatim>\<open>src/cpp/inc/bond/protocol/detail/rapidjson_helper.h\<close>), \<open>SimpleJsonReader\<close> with the
  deserialization of containers (\<^verbatim>\<open>simple_json_reader.h\<close>, \<^verbatim>\<open>simple_json_reader_impl.h\<close>), and
  \<open>DOMParser\<close> (\<^verbatim>\<open>src/cpp/inc/bond/core/parser.h\<close>) with the transform \<open>To\<close>.

  The document is a value of RapidJSON, which is not part of the library: its type is a type variable
  and its members are the record \<open>rapidjson_value\<close>. An accessor asserts that the value has the kind it
  returns (\<open>AssertionFailed\<close>). The state of a reader is the value it stands on, its member \<open>_value\<close>.
\<close>

section \<open>The input stream of RapidJSON\<close>

record RapidJsonInputStream =
  ris_input :: InputBuffer
  ris_current :: u8
  ris_count :: u64

definition RapidJsonInputStream_init :: "InputBuffer \<Rightarrow> RapidJsonInputStream res" where
  "RapidJsonInputStream_init input =
     res_bind (ib_read_u8 input) (\<lambda>(c, input). Inr \<lparr>ris_input = input, ris_current = c, ris_count = 0\<rparr>)"

definition ris_Peek :: "(RapidJsonInputStream, u8) st" where
  "ris_Peek s =
     (if ris_current s = 0
      then res_bind (ib_read_u8 (ris_input s)) (\<lambda>(c, input). Inr (c, s\<lparr>ris_input := input, ris_current := c\<rparr>))
      else Inr (ris_current s, s))"

definition ris_Tell :: "RapidJsonInputStream \<Rightarrow> u64" where
  "ris_Tell s = ris_count s"

definition ris_Take :: "(RapidJsonInputStream, u8) st" where
  "ris_Take s =
     (if ris_current s = 0
      then res_bind (ib_read_u8 (ris_input s)) (\<lambda>(c, input).
             Inr (c, s\<lparr>ris_input := input, ris_current := 0, ris_count := ris_count s + 1\<rparr>))
      else Inr (ris_current s, s\<lparr>ris_current := 0, ris_count := ris_count s + 1\<rparr>))"

section \<open>Values of RapidJSON\<close>

text \<open>
  The members of \<open>rapidjson::Value\<close>, and the two conversions of Boost: \<open>utf_to_utf\<close>, which may fail,
  and \<open>try_lexical_convert\<close> to \<open>uint16_t\<close>.
\<close>

record 'j rapidjson_value =
  rv_IsNull :: "'j \<Rightarrow> bool"
  rv_IsBool :: "'j \<Rightarrow> bool"
  rv_IsTrue :: "'j \<Rightarrow> bool"
  rv_IsInt :: "'j \<Rightarrow> bool"
  rv_IsUint :: "'j \<Rightarrow> bool"
  rv_IsInt64 :: "'j \<Rightarrow> bool"
  rv_IsUint64 :: "'j \<Rightarrow> bool"
  rv_IsNumber :: "'j \<Rightarrow> bool"
  rv_IsString :: "'j \<Rightarrow> bool"
  rv_IsArray :: "'j \<Rightarrow> bool"
  rv_IsObject :: "'j \<Rightarrow> bool"
  rv_GetBool :: "'j \<Rightarrow> bool"
  rv_GetInt :: "'j \<Rightarrow> u32"
  rv_GetInt64 :: "'j \<Rightarrow> u64"
  rv_GetUint64 :: "'j \<Rightarrow> u64"
  rv_GetDouble :: "'j \<Rightarrow> u64"
  rv_GetString :: "'j \<Rightarrow> byte list"
  rv_Elements :: "'j \<Rightarrow> 'j list"
  rv_Members :: "'j \<Rightarrow> (byte list \<times> 'j) list"
  rv_utf_to_utf :: "byte list \<Rightarrow> u16 list option"
  rv_lexical_uint16 :: "byte list \<Rightarrow> u16 option"

section \<open>Matching of types\<close>

record JsonTypeMatching =
  matchesObject :: bool
  matchesArray :: bool
  matchesNull :: bool
  matchesInt :: bool
  matchesInt64 :: bool
  matchesUint :: bool
  matchesUint64 :: bool
  matchesNumber :: bool
  matchesString :: bool
  matchesBool :: bool

definition in_range :: "BondDataType \<Rightarrow> BondDataType \<Rightarrow> BondDataType \<Rightarrow> bool" where
  "in_range t lo hi \<longleftrightarrow> type_code lo \<le> type_code t \<and> type_code t \<le> type_code hi"

definition JsonTypeMatching_init :: "BondDataType \<Rightarrow> BondDataType \<Rightarrow> bool \<Rightarrow> JsonTypeMatching" where
  "JsonTypeMatching_init type schema is_enum =
     \<lparr>matchesObject = (type = BT_STRUCT \<and> type = schema),
      matchesArray = ((type = BT_MAP \<or> type = BT_LIST \<or> type = BT_SET) \<and> type = schema),
      matchesNull = (type = BT_LIST \<and> type = schema),
      matchesInt = in_range type BT_INT8 BT_INT64,
      matchesInt64 = (type = BT_INT64),
      matchesUint = in_range type BT_UINT8 BT_UINT64,
      matchesUint64 = (type = BT_UINT64),
      matchesNumber = in_range type BT_FLOAT BT_DOUBLE,
      matchesString = (type = BT_STRING \<or> type = BT_WSTRING \<or> is_enum),
      matchesBool = (type = BT_BOOL)\<rparr>"

definition ComplexTypeMatch :: "'j rapidjson_value \<Rightarrow> JsonTypeMatching \<Rightarrow> 'j \<Rightarrow> bool" where
  "ComplexTypeMatch D m j \<longleftrightarrow>
     rv_IsObject D j \<and> matchesObject m \<or> rv_IsArray D j \<and> matchesArray m \<or> rv_IsNull D j \<and> matchesNull m"

definition BasicTypeMatch :: "'j rapidjson_value \<Rightarrow> JsonTypeMatching \<Rightarrow> 'j \<Rightarrow> bool" where
  "BasicTypeMatch D m j \<longleftrightarrow>
     rv_IsString D j \<and> matchesString m \<or> rv_IsUint D j \<and> matchesUint m \<or> rv_IsInt D j \<and> matchesInt m \<or>
     rv_IsUint64 D j \<and> matchesUint64 m \<or> rv_IsInt64 D j \<and> matchesInt64 m \<or> rv_IsNumber D j \<and> matchesNumber m \<or>
     rv_IsBool D j \<and> matchesBool m"

definition TypeMatch :: "'j rapidjson_value \<Rightarrow> JsonTypeMatching \<Rightarrow> 'j \<Rightarrow> bool" where
  "TypeMatch D m j \<longleftrightarrow> ComplexTypeMatch D m j \<or> BasicTypeMatch D m j"

section \<open>Basic values\<close>

definition UnicodeConversionException :: exn where
  "UnicodeConversionException = CoreException ''Unicode conversion exception''"

definition rv_get :: "('j \<Rightarrow> bool) \<Rightarrow> ('j \<Rightarrow> 'a) \<Rightarrow> 'j \<Rightarrow> 'a res" where
  "rv_get is_kind get j = (if is_kind j then Inr (get j) else Inl AssertionFailed)"

text \<open>\<open>detail::Read\<close> has an overload for each class of basic types.\<close>

definition json_Read_bool :: "'j rapidjson_value \<Rightarrow> 'j \<Rightarrow> bool res" where
  "json_Read_bool D j = rv_get (rv_IsBool D) (rv_GetBool D) j"

definition json_Read_float :: "'j rapidjson_value \<Rightarrow> (u64 \<Rightarrow> 'a) \<Rightarrow> 'j \<Rightarrow> 'a res" where
  "json_Read_float D cast j = res_bind (rv_get (rv_IsNumber D) (rv_GetDouble D) j) (\<lambda>d. Inr (cast d))"

definition json_Read_signed :: "'j rapidjson_value \<Rightarrow> 'j \<Rightarrow> 'a :: len word res" where
  "json_Read_signed D j = res_bind (rv_get (rv_IsInt64 D) (rv_GetInt64 D) j) (\<lambda>x. Inr (ucast x))"

definition json_Read_unsigned :: "'j rapidjson_value \<Rightarrow> 'j \<Rightarrow> 'a :: len word res" where
  "json_Read_unsigned D j = res_bind (rv_get (rv_IsUint64 D) (rv_GetUint64 D) j) (\<lambda>x. Inr (ucast x))"

definition json_Read_string :: "'j rapidjson_value \<Rightarrow> 'j \<Rightarrow> byte list res" where
  "json_Read_string D j = rv_get (rv_IsString D) (rv_GetString D) j"

definition json_Read_wstring :: "'j rapidjson_value \<Rightarrow> 'j \<Rightarrow> u32 list res" where
  "json_Read_wstring D j =
     res_bind (rv_get (rv_IsString D) (rv_GetString D) j) (\<lambda>s.
       case rv_utf_to_utf D s of
         None \<Rightarrow> Inl UnicodeConversionException
       | Some us \<Rightarrow> Inr (map ucast us))"

text \<open>A value of an enumeration is read by its name or by its number; \<open>ToEnum\<close> is generated code.\<close>

definition json_Read_enum :: "'j rapidjson_value \<Rightarrow> (byte list \<Rightarrow> u32 res) \<Rightarrow> 'j \<Rightarrow> u32 res" where
  "json_Read_enum D ToEnum j =
     (if rv_IsString D j then res_bind (rv_get (rv_IsString D) (rv_GetString D) j) ToEnum
      else rv_get (rv_IsInt D) (rv_GetInt D) j)"

fun json_Read :: "'j rapidjson_value \<Rightarrow> BondDataType \<Rightarrow> 'j \<Rightarrow> bvalue res" where
  "json_Read D BT_BOOL j = res_bind (json_Read_bool D j) (\<lambda>b. Inr (VBool b))"
| "json_Read D BT_FLOAT j = res_bind (json_Read_float D double_to_float j) (\<lambda>x. Inr (VFloat x))"
| "json_Read D BT_DOUBLE j = res_bind (json_Read_float D id j) (\<lambda>x. Inr (VDouble x))"
| "json_Read D BT_INT8 j = res_bind (json_Read_signed D j) (\<lambda>x. Inr (VInt8 x))"
| "json_Read D BT_INT16 j = res_bind (json_Read_signed D j) (\<lambda>x. Inr (VInt16 x))"
| "json_Read D BT_INT32 j = res_bind (json_Read_signed D j) (\<lambda>x. Inr (VInt32 x))"
| "json_Read D BT_INT64 j = res_bind (json_Read_signed D j) (\<lambda>x. Inr (VInt64 x))"
| "json_Read D BT_UINT8 j = res_bind (json_Read_unsigned D j) (\<lambda>x. Inr (VUInt8 x))"
| "json_Read D BT_UINT16 j = res_bind (json_Read_unsigned D j) (\<lambda>x. Inr (VUInt16 x))"
| "json_Read D BT_UINT32 j = res_bind (json_Read_unsigned D j) (\<lambda>x. Inr (VUInt32 x))"
| "json_Read D BT_UINT64 j = res_bind (json_Read_unsigned D j) (\<lambda>x. Inr (VUInt64 x))"
| "json_Read D BT_STRING j = res_bind (json_Read_string D j) (\<lambda>s. Inr (VString s))"
| "json_Read D BT_WSTRING j = res_bind (json_Read_wstring D j) (\<lambda>s. Inr (VWString s))"
| "json_Read D t j = Inl AssertionFailed"

section \<open>The reader\<close>

text \<open>\<open>SimpleJsonReader::Read\<close>, and a child reader for a member of the document\<close>

definition jr_Read :: "'j rapidjson_value \<Rightarrow> BondDataType \<Rightarrow> ('j, bvalue) st" where
  "jr_Read D t j = res_bind (json_Read D t j) (\<lambda>v. Inr (v, j))"

definition child_reader :: "'j \<Rightarrow> ('j, 'a) st \<Rightarrow> ('j, 'a) st" where
  "child_reader f m j = res_bind (m f) (\<lambda>(x, f'). Inr (x, j))"

text \<open>\<open>MemberBegin\<close> to \<open>MemberEnd\<close>, \<open>ArrayBegin\<close> to \<open>ArrayEnd\<close> and \<open>ArraySize\<close>\<close>

definition jr_members :: "'j rapidjson_value \<Rightarrow> 'j \<Rightarrow> (byte list \<times> 'j) list" where
  "jr_members D j = (if rv_IsObject D j then rv_Members D j else [])"

definition jr_array :: "'j rapidjson_value \<Rightarrow> 'j \<Rightarrow> 'j list" where
  "jr_array D j = (if rv_IsArray D j then rv_Elements D j else [])"

definition ArraySize :: "'j rapidjson_value \<Rightarrow> 'j \<Rightarrow> u32" where
  "ArraySize D j = (if rv_IsArray D j then of_nat (length (rv_Elements D j)) else 0)"

text \<open>\<open>FindField\<close>: names are C strings.\<close>

definition c_str :: "byte list \<Rightarrow> byte list" where
  "c_str s = takeWhile (\<lambda>c. c \<noteq> 0) s"

definition FindField ::
    "'j rapidjson_value \<Rightarrow> u16 \<Rightarrow> Metadata \<Rightarrow> BondDataType \<Rightarrow> bool \<Rightarrow> 'j \<Rightarrow> 'j option" where
  "FindField D fid metadata type is_enum j =
     (let jsonType = JsonTypeMatching_init type type is_enum;
          name = c_str (bytes_of_string (FieldName metadata))
      in map_option snd (find (\<lambda>(n, v). TypeMatch D jsonType v \<and>
           (c_str n = name \<or> rv_lexical_uint16 D (c_str n) = Some fid)) (jr_members D j)))"

section \<open>Containers\<close>

type_synonym 'j jassign = "bvalue \<Rightarrow> ('j, bvalue) st"

text \<open>\<open>DeserializeContainer\<close> for \<open>std::vector<bool>\<close>, for a blob and for lists and \<open>nullable\<close>\<close>

definition json_bools :: "'j rapidjson_value \<Rightarrow> 'j jassign" where
  "json_bools D var j = Inr (VList BT_BOOL (map (\<lambda>x. VBool (rv_IsTrue D x)) (jr_array D j)), j)"

definition json_blob :: "'j rapidjson_value \<Rightarrow> (u32 \<Rightarrow> u64 res) \<Rightarrow> 'j jassign" where
  "json_blob D alloc var j =
     (let size = ArraySize D j;
          bs = map (\<lambda>x. ucast (rv_GetInt D x)) (take (unat size) (filter (rv_IsInt D) (jr_array D j)))
      in if size \<noteq> 0
         then res_bind (alloc size) (\<lambda>buffer.
                res_bind (blob_shared buffer bs 0 (of_nat (length bs))) (\<lambda>b. Inr (VBlob b, j)))
         else Inr (VBlob blob_empty, j))"

fun json_list_items :: "'j rapidjson_value \<Rightarrow> JsonTypeMatching \<Rightarrow> 'j jassign \<Rightarrow> bvalue list \<Rightarrow> 'j list \<Rightarrow> bvalue list res" where
  "json_list_items D m element [] js = Inr []"
| "json_list_items D m element (v # vs) (j # js) =
     res_bind (if ComplexTypeMatch D m j \<or> BasicTypeMatch D m j
               then res_bind (element v j) (\<lambda>(v, j). Inr v) else Inr v)
       (\<lambda>v. res_bind (json_list_items D m element vs js) (\<lambda>vs. Inr (v # vs)))"
| "json_list_items D m element (v # vs) [] = Inl OutOfBounds"

definition json_resize :: "btype \<Rightarrow> nat \<Rightarrow> bvalue \<Rightarrow> bvalue list \<Rightarrow> bvalue list" where
  "json_resize X n d vs = (case X of TNullable e \<Rightarrow> resize_list (min n 1) d vs | _ \<Rightarrow> resize_list n d vs)"

definition json_list :: "'j rapidjson_value \<Rightarrow> btype \<Rightarrow> btype \<Rightarrow> 'j jassign \<Rightarrow> 'j jassign" where
  "json_list D X e element var j =
     res_bind (json_list_items D (JsonTypeMatching_init (get_type_id e) (get_type_id e) False) element
                 (json_resize X (unat (ArraySize D j)) (default_value e) (items_of var)) (jr_array D j))
       (\<lambda>vs. Inr (VList (get_type_id e) vs, j))"

text \<open>\<open>DeserializeContainer\<close> for sets: one variable receives the elements in turn.\<close>

fun json_set_items :: "'j rapidjson_value \<Rightarrow> BondDataType \<Rightarrow> 'j list \<Rightarrow> bvalue list \<Rightarrow> bvalue list res" where
  "json_set_items D t [] s = Inr s"
| "json_set_items D t (j # js) s =
     (if BasicTypeMatch D (JsonTypeMatching_init t t False) j
      then res_bind (json_Read D t j) (\<lambda>e. json_set_items D t js (set_insert e s))
      else json_set_items D t js s)"

definition json_set :: "'j rapidjson_value \<Rightarrow> BondDataType \<Rightarrow> 'j jassign" where
  "json_set D t var j = res_bind (json_set_items D t (jr_array D j) []) (\<lambda>s. Inr (VSet t s, j))"

text \<open>\<open>DeserializeMap\<close>: keys and values alternate; a value is read whatever its kind is.\<close>

definition InvalidKeyTypeException :: exn where
  "InvalidKeyTypeException = CoreException ''Map key type not valid''"

fun json_map_items ::
    "'j rapidjson_value \<Rightarrow> BondDataType \<Rightarrow> 'j jassign \<Rightarrow> bvalue \<Rightarrow> 'j list \<Rightarrow> (bvalue \<times> bvalue) list \<Rightarrow>
      (bvalue \<times> bvalue) list res" where
  "json_map_items D k element d [] m = Inr m"
| "json_map_items D k element d (j # js) m =
     (if BasicTypeMatch D (JsonTypeMatching_init k k False) j
      then res_bind (json_Read D k j) (\<lambda>key.
             case js of
               [] \<Rightarrow> Inl ElementNotFoundException
             | j' # js' \<Rightarrow>
                 res_bind (element (mapped_at d key m) j') (\<lambda>(v, _).
                   json_map_items D k element d js' (map_assign key v m)))
      else Inl InvalidKeyTypeException)"

definition json_map :: "'j rapidjson_value \<Rightarrow> BondDataType \<Rightarrow> btype \<Rightarrow> 'j jassign \<Rightarrow> 'j jassign" where
  "json_map D k e element var j =
     res_bind (json_map_items D k element (default_value e) (jr_array D j) [])
       (\<lambda>m. Inr (VMap k (get_type_id e) m, j))"

section \<open>The DOM parser\<close>

text \<open>\<open>DOMParser::ReadFields\<close> with \<open>To\<close>: each field of the schema is looked up in the object.\<close>

fun dom_ReadFields ::
    "'j rapidjson_value \<Rightarrow> fdef list \<Rightarrow> (fdef \<times> 'j jassign) list \<Rightarrow> bfield list \<Rightarrow> u16 \<Rightarrow>
      ('j, bfield list \<times> u16) st" where
  "dom_ReadFields D fs [] vars required = ret (vars, required)"
| "dom_ReadFields D fs ((fd, value) # heads) (var # vars) required =
     bind (\<lambda>j. case FindField D (fd_id fd) (fd_metadata fd) (get_type_id (fd_type fd)) False j of
                 None \<Rightarrow> Inr ((var, required), j)
               | Some f \<Rightarrow> child_reader f (To_Field fs fd value var required) j)
       (\<lambda>(var, required).
          bind (dom_ReadFields D fs heads vars required) (\<lambda>(vars, required). ret (var # vars, required)))"
| "dom_ReadFields D fs heads vars required = throw OutOfBounds"

definition dom_Read_struct ::
    "'j rapidjson_value \<Rightarrow> (fdef \<times> 'j jassign) list \<Rightarrow> Metadata \<Rightarrow> bstruct option \<Rightarrow> bfield list \<Rightarrow> ('j, bstruct) st" where
  "dom_Read_struct D heads md b vars =
     bind (dom_ReadFields D (map fst heads) heads vars (next_required_field (map fst heads) 0))
       (\<lambda>(vars, required). bind (lift_res (Validate_struct required)) (\<lambda>_. ret (Struct md b vars)))"

text \<open>
  The types of values, the fields of a struct with the code that deserializes each, and a struct after
  its bases, which are read from the same object. A list of \<open>bool\<close> is a \<open>std::vector<bool>\<close>.
\<close>

function (sequential) dom_type :: "'j rapidjson_value \<Rightarrow> (u32 \<Rightarrow> u64 res) \<Rightarrow> btype \<Rightarrow> 'j jassign"
  and dom_fields :: "'j rapidjson_value \<Rightarrow> (u32 \<Rightarrow> u64 res) \<Rightarrow> fdef list \<Rightarrow> (fdef \<times> 'j jassign) list"
  and dom_struct :: "'j rapidjson_value \<Rightarrow> (u32 \<Rightarrow> u64 res) \<Rightarrow> sschema \<Rightarrow> bstruct \<Rightarrow> ('j, bstruct) st" where
  "dom_type D alloc (TBasic t) = (\<lambda>var. jr_Read D t)"
| "dom_type D alloc TBlob = json_blob D alloc"
| "dom_type D alloc (TNullable e) = json_list D (TNullable e) e (dom_type D alloc e)"
| "dom_type D alloc (TList e) =
     (if e = TBasic BT_BOOL then json_bools D else json_list D (TList e) e (dom_type D alloc e))"
| "dom_type D alloc (TSet t) = json_set D t"
| "dom_type D alloc (TMap k e) = json_map D k e (dom_type D alloc e)"
| "dom_type D alloc (TStruct s) = (\<lambda>var. bind (dom_struct D alloc s (struct_of var)) (\<lambda>s'. ret (VStruct s')))"
| "dom_fields D alloc [] = []"
| "dom_fields D alloc (FieldDef fid md mb t # fs) = (FieldDef fid md mb t, dom_type D alloc t) # dom_fields D alloc fs"
| "dom_struct D alloc (Schema md None fs) =
     (\<lambda>var. dom_Read_struct D (dom_fields D alloc fs) md None (fields_of var))"
| "dom_struct D alloc (Schema md (Some b) fs) =
     (\<lambda>var. bind (dom_struct D alloc b (the (base_of var))) (\<lambda>b'.
        dom_Read_struct D (dom_fields D alloc fs) md (Some b') (fields_of var)))"
  by pat_completeness auto
termination
  by (relation "measure (case_sum (\<lambda>(D, alloc, t). size t)
      (case_sum (\<lambda>(D, alloc, fs). size_list size fs) (\<lambda>(D, alloc, s). size s)))") auto

lemma map_fst_dom_fields [simp]: "map fst (dom_fields D alloc fs) = fs"
proof (induction fs)
  case (Cons fd fs)
  then show ?case by (cases fd) simp
qed simp

text \<open>
  A reader on a stream parses one document, then deserializes it to a default-constructed object;
  \<open>ParseStream\<close> of RapidJSON is a parameter.
\<close>

definition json_Deserialize ::
    "'j rapidjson_value \<Rightarrow> (u32 \<Rightarrow> u64 res) \<Rightarrow> ('s, 'j) st \<Rightarrow> sschema \<Rightarrow> ('s, bstruct) st" where
  "json_Deserialize D alloc ParseStream s =
     bind ParseStream (\<lambda>document.
       lift_res (res_bind (dom_struct D alloc s (default_struct s) document) (\<lambda>(x, _). Inr x)))"

end
