(* ===== verification/Json_Safety.thy ===== *)
theory Json_Safety
  imports Json_Reader Deserialize_Safety
begin

text \<open>
  Deserialization from an arbitrary document. Elements and members are read only if their kind matches
  the type, except the values of maps: whatever the document is, deserialization gives an object of the
  type of the schema or throws an exception of the library; it runs into an assertion of RapidJSON only
  if the schema has a map to a basic type.
\<close>

section \<open>Outcomes\<close>

text \<open>Integers of 32 bits are integers of 64 bits for RapidJSON.\<close>

definition kinds_ok :: "'j rapidjson_value \<Rightarrow> bool" where
  "kinds_ok D \<longleftrightarrow> (\<forall>j. (rv_IsInt D j \<longrightarrow> rv_IsInt64 D j) \<and> (rv_IsUint D j \<longrightarrow> rv_IsUint64 D j))"

definition json_exn :: "bool \<Rightarrow> exn \<Rightarrow> bool" where
  "json_exn asserts e \<longleftrightarrow>
     e = InvalidKeyTypeException \<or> e = ElementNotFoundException \<or> e = MissingFieldException \<or>
     e = UnicodeConversionException \<or> asserts \<and> e = AssertionFailed"

definition res_outcome :: "bool \<Rightarrow> ('a \<Rightarrow> bool) \<Rightarrow> 'a res \<Rightarrow> bool" where
  "res_outcome asserts P r \<longleftrightarrow> (case r of Inl e \<Rightarrow> json_exn asserts e | Inr x \<Rightarrow> P x)"

definition dom_outcome :: "bool \<Rightarrow> ('a \<Rightarrow> bool) \<Rightarrow> 'j \<Rightarrow> ('a \<times> 'j) res \<Rightarrow> bool" where
  "dom_outcome asserts P j r \<longleftrightarrow> res_outcome asserts (\<lambda>(x, j'). P x \<and> j' = j) r"

lemma res_outcome_simps [simp]:
  "res_outcome a P (Inl e) = json_exn a e" "res_outcome a P (Inr x) = P x"
  by (simp_all add: res_outcome_def)

lemma dom_outcome_simps [simp]:
  "dom_outcome a P j (Inl e) = json_exn a e" "dom_outcome a P j (Inr (x, j')) = (P x \<and> j' = j)"
  by (simp_all add: dom_outcome_def)

lemma res_outcome_bind:
  "res_outcome a P r \<Longrightarrow> (\<And>x. P x \<Longrightarrow> res_outcome a Q (f x)) \<Longrightarrow> res_outcome a Q (res_bind r f)"
  by (cases r) simp_all

lemma dom_outcome_bind:
  "dom_outcome a P j (m j) \<Longrightarrow> (\<And>x. P x \<Longrightarrow> dom_outcome a Q j (f x j)) \<Longrightarrow> dom_outcome a Q j (bind m f j)"
  by (cases "m j") (auto simp: bind_def)

lemma dom_outcome_res:
  "res_outcome a P r \<Longrightarrow> (\<And>x. P x \<Longrightarrow> Q (f x)) \<Longrightarrow> dom_outcome a Q j (res_bind r (\<lambda>x. Inr (f x, j)))"
  by (cases r) simp_all

lemma json_exn_mono: "json_exn a e \<Longrightarrow> (a \<Longrightarrow> b) \<Longrightarrow> json_exn b e"
  by (auto simp: json_exn_def)

lemma dom_outcome_mono: "dom_outcome a P j r \<Longrightarrow> (a \<Longrightarrow> b) \<Longrightarrow> (\<And>x. P x \<Longrightarrow> Q x) \<Longrightarrow> dom_outcome b Q j r"
  by (cases r) (auto intro: json_exn_mono)

lemma res_of_dom: "dom_outcome a P j r \<Longrightarrow> res_outcome a P (res_bind r (\<lambda>(v, j). Inr v))"
  by (cases r) auto

section \<open>Basic values and containers\<close>

lemma json_Read_matched:
  assumes "kinds_ok D" and "is_basic_tag t" and "BasicTypeMatch D (JsonTypeMatching_init t t False) j"
  shows "res_outcome a (basic_of t) (json_Read D t j)"
  using assms
  by (cases t) (auto simp: kinds_ok_def BasicTypeMatch_def JsonTypeMatching_init_def in_range_def rv_get_def
      json_Read_bool_def json_Read_float_def json_Read_signed_def json_Read_unsigned_def json_Read_string_def
      json_Read_wstring_def json_exn_def split: option.splits)

lemma json_Read_any: "is_basic_tag t \<Longrightarrow> res_outcome True (basic_of t) (json_Read D t j)"
  by (cases t) (auto simp: rv_get_def json_Read_bool_def json_Read_float_def json_Read_signed_def json_Read_unsigned_def
      json_Read_string_def json_Read_wstring_def json_exn_def split: option.splits)

lemma json_list_items_outcome:
  "(\<And>v j. Q v \<Longrightarrow> TypeMatch D m j \<Longrightarrow> dom_outcome a Q j (element v j)) \<Longrightarrow> list_all Q vs \<Longrightarrow> length vs \<le> length js \<Longrightarrow>
   res_outcome a (\<lambda>ws. list_all Q ws \<and> length ws = length vs) (json_list_items D m element vs js)"
proof (induction vs arbitrary: js)
  case (Cons v vs)
  then obtain j js' where js: "js = j # js'" by (cases js) auto
  have "res_outcome a Q (if ComplexTypeMatch D m j \<or> BasicTypeMatch D m j
      then res_bind (element v j) (\<lambda>(v, j). Inr v) else Inr v)"
    using Cons.prems by (auto simp: TypeMatch_def intro!: res_of_dom)
  moreover have "res_outcome a (\<lambda>ws. list_all Q ws \<and> length ws = length vs) (json_list_items D m element vs js')"
    using Cons js by simp
  ultimately show ?case
    unfolding js json_list_items.simps by (elim res_outcome_bind) simp
qed simp

lemma json_set_insert_all: "P x \<Longrightarrow> list_all P s \<Longrightarrow> list_all P (set_insert x s)"
  by (induction s) auto

lemma json_map_assign_all: "list_all (\<lambda>(x, y). P x \<and> Q y) m \<Longrightarrow> P k \<Longrightarrow> Q v \<Longrightarrow> list_all (\<lambda>(x, y). P x \<and> Q y) (map_assign k v m)"
  by (induction m) auto

lemma json_mapped_at_all: "list_all (\<lambda>(x, y). P x \<and> Q y) m \<Longrightarrow> Q d \<Longrightarrow> Q (mapped_at d k m)"
  by (induction m) auto

lemma json_set_items_outcome:
  assumes "kinds_ok D" and "is_basic_tag t"
  shows "list_all (basic_of t) s \<Longrightarrow> res_outcome a (list_all (basic_of t)) (json_set_items D t js s)"
proof (induction js arbitrary: s)
  case (Cons j js)
  then show ?case
    by (auto intro!: res_outcome_bind [OF json_Read_matched [OF assms]] json_set_insert_all)
qed simp

lemma json_map_items_outcome:
  assumes "kinds_ok D" and "is_basic_tag k" and "Q d" and element: "\<And>v j. Q v \<Longrightarrow> dom_outcome a Q j (element v j)"
  shows "list_all (\<lambda>(x, y). basic_of k x \<and> Q y) m \<Longrightarrow>
    res_outcome a (list_all (\<lambda>(x, y). basic_of k x \<and> Q y)) (json_map_items D k element d js m)"
proof (induction js arbitrary: m rule: induct_list012)
  case 1
  then show ?case by simp
next
  case (2 j)
  then show ?case
    by (auto simp: json_exn_def intro!: res_outcome_bind [OF json_Read_matched [OF assms(1,2)]])
next
  case (3 j j' js)
  show ?case
  proof (cases "BasicTypeMatch D (JsonTypeMatching_init k k False) j")
    case True
    have "res_outcome a (list_all (\<lambda>(x, y). basic_of k x \<and> Q y))
        (res_bind (element (mapped_at d key m) j') (\<lambda>(v, _). json_map_items D k element d js (map_assign key v m)))"
      if "basic_of k key" for key
    proof -
      have "Q (mapped_at d key m)" using 3(3) assms(3) by (rule json_mapped_at_all)
      then have "dom_outcome a Q j' (element (mapped_at d key m) j')" by (rule element)
      moreover have "res_outcome a (list_all (\<lambda>(x, y). basic_of k x \<and> Q y)) (json_map_items D k element d js (map_assign key v m))"
        if "Q v" for v
        using json_map_assign_all [of "basic_of k" Q m key v] 3(3) that \<open>basic_of k key\<close> by (intro 3(1)) auto
      ultimately show ?thesis unfolding dom_outcome_def by (elim res_outcome_bind) auto
    qed
    then show ?thesis using True by (auto intro!: res_outcome_bind [OF json_Read_matched [OF assms(1,2) True]])
  qed (simp add: json_exn_def)
qed

lemma json_blob_outcome: "alloc_ok alloc \<Longrightarrow> dom_outcome a (shaped TBlob) j (json_blob D alloc var j)"
proof -
  assume alloc: "alloc_ok alloc"
  define size where "size = ArraySize D j"
  define bs where "bs = map (\<lambda>x. ucast (rv_GetInt D x) :: byte) (take (unat size) (filter (rv_IsInt D) (jr_array D j)))"
  have len: "length bs \<le> unat size" by (simp add: bs_def)
  have small: "length bs < 2 ^ 32" using len unat_u32_bound [of size] by simp
  obtain b where b: "alloc size = Inr b" "unat b + unat size < 2 ^ 64" using alloc by (auto simp: alloc_ok_def)
  have "unat b + unat (of_nat (length bs) :: u32) < 2 ^ 64" using b(2) len small by (simp add: unat_of_nat_small)
  from blob_shared_Inr [OF this] b(1) small show ?thesis
    by (simp add: json_blob_def Let_def size_def [symmetric] bs_def [symmetric] unat_of_nat_small blob_wf_def blob_empty_def)
qed

section \<open>Objects\<close>

text \<open>Schemas with a map to a basic type\<close>

function (sequential) may_assert :: "btype \<Rightarrow> bool"
  and may_assert_fields :: "fdef list \<Rightarrow> bool"
  and may_assert_struct :: "sschema \<Rightarrow> bool" where
  "may_assert (TNullable e) = may_assert e"
| "may_assert (TList e) = may_assert e"
| "may_assert (TMap k e) = (is_basic_type e \<or> may_assert e)"
| "may_assert (TStruct s) = may_assert_struct s"
| "may_assert t = False"
| "may_assert_fields [] = False"
| "may_assert_fields (FieldDef fid md mb t # fs) = (may_assert t \<or> may_assert_fields fs)"
| "may_assert_struct (Schema md None fs) = may_assert_fields fs"
| "may_assert_struct (Schema md (Some b) fs) = (may_assert_struct b \<or> may_assert_fields fs)"
  by pat_completeness auto
termination
  by (relation "measure (case_sum size (case_sum (size_list size) size))") auto

definition head_outcome :: "'j rapidjson_value \<Rightarrow> bool \<Rightarrow> fdef \<times> 'j jassign \<Rightarrow> bool" where
  "head_outcome D a h \<longleftrightarrow>
     (\<forall>v j. shaped (fd_type (fst h)) v \<and>
        TypeMatch D (JsonTypeMatching_init (get_type_id (fd_type (fst h))) (get_type_id (fd_type (fst h))) False) j \<longrightarrow>
        dom_outcome a (shaped (fd_type (fst h))) j (snd h v j))"

lemma AssignToVar_outcome:
  assumes "field_var fd var" and "schema_ok_type (fd_type fd)"
    and "\<And>v. shaped (fd_type fd) v \<Longrightarrow> dom_outcome a (shaped (fd_type fd)) j (m v j)"
  shows "dom_outcome a (field_var fd) j (AssignToVar fd m var j)"
proof -
  obtain fid md mb t where fd: "fd = FieldDef fid md mb t" by (cases fd)
  from assms shaped_default(1) [of t] show ?thesis
    by (cases "(fd, m, var)" rule: AssignToVar.cases)
      (auto simp: fd field_var_def ret_def intro!: dom_outcome_bind [where P = "shaped t"])
qed

lemma FindField_match:
  "FindField D fid md t e j = Some f \<Longrightarrow> TypeMatch D (JsonTypeMatching_init t t e) f"
  by (auto simp: FindField_def Let_def find_Some_iff)

lemma dom_ReadFields_outcome:
  "list_all (head_outcome D a) heads \<Longrightarrow> schema_ok_fields (map fst heads) \<Longrightarrow> shaped_fields (map fst heads) vars \<Longrightarrow>
   dom_outcome a (\<lambda>(vars, required). shaped_fields (map fst heads) vars) j (dom_ReadFields D fs heads vars required j)"
proof (induction heads arbitrary: vars required)
  case (Cons h heads)
  obtain fd m where h: "h = (fd, m)" by (cases h)
  obtain var ws where vars: "vars = var # ws" "field_var fd var" "shaped_fields (map fst heads) ws"
    using Cons.prems(3) by (auto simp: h shaped_fields_iff list_all2_Cons1)
  have ok: "schema_ok_type (fd_type fd)" "schema_ok_fields (map fst heads)" using Cons.prems(2) by (cases fd; simp add: h)+
  have "dom_outcome a (\<lambda>(v, r). field_var fd v) j
      (case FindField D (fd_id fd) (fd_metadata fd) (get_type_id (fd_type fd)) False j of
         None \<Rightarrow> Inr ((var, required), j)
       | Some f \<Rightarrow> child_reader f (To_Field fs fd m var required) j)"
  proof (cases "FindField D (fd_id fd) (fd_metadata fd) (get_type_id (fd_type fd)) False j")
    case None
    with vars show ?thesis by simp
  next
    case (Some f)
    have "dom_outcome a (field_var fd) f (AssignToVar fd m var f)"
      using Cons.prems(1) FindField_match [OF Some] vars(2) ok(1)
      by (intro AssignToVar_outcome) (auto simp: h head_outcome_def)
    with Some show ?thesis
      by (cases "AssignToVar fd m var f")
        (auto simp: child_reader_def To_Field_def bind_def ret_def lift_res_def Validate_field_def json_exn_def)
  qed
  then show ?case unfolding h vars dom_ReadFields.simps
  proof (rule dom_outcome_bind [OF _])
    fix x :: "bfield \<times> u16" assume x: "case x of (v, r) \<Rightarrow> field_var fd v"
    have "dom_outcome a (\<lambda>(vars, required). shaped_fields (map fst heads) vars) j (dom_ReadFields D fs heads ws (snd x) j)"
      using Cons ok vars by simp
    with x show "dom_outcome a (\<lambda>(vars, required). shaped_fields (map fst ((fd, m) # heads)) vars) j
        ((case x of (var, required) \<Rightarrow> bind (dom_ReadFields D fs heads ws required) (\<lambda>(vars, required). ret (var # vars, required))) j)"
      by (auto simp: ret_def shaped_fields_iff case_prod_unfold intro!: dom_outcome_bind)
  qed
qed (simp add: ret_def)

lemma json_list_outcome:
  assumes X: "X = TList e \<or> X = TNullable e" and e: "schema_ok_type e" and var: "shaped X var"
    and element: "\<And>v j. shaped e v \<Longrightarrow> TypeMatch D (JsonTypeMatching_init (get_type_id e) (get_type_id e) False) j \<Longrightarrow>
      dom_outcome a (shaped e) j (element v j)"
  shows "dom_outcome a (shaped X) j (json_list D X e element var j)"
proof -
  define vs where "vs = json_resize X (unat (ArraySize D j)) (default_value e) (items_of var)"
  have items: "list_all (shaped e) (items_of var)" using X var by (auto split: bvalue.splits)
  have "unat (ArraySize D j) \<le> length (jr_array D j)"
    by (simp add: ArraySize_def jr_array_def unat_of_nat unsigned_of_nat take_bit_nat_less_eq_self)
  then have vs: "list_all (shaped e) vs" "length vs \<le> length (jr_array D j)" "X = TNullable e \<Longrightarrow> length vs \<le> 1"
    using X items shaped_default(1) [OF e]
    by (auto simp: vs_def json_resize_def resize_list_def list_all_iff dest!: in_set_takeD)
  have "res_outcome a (\<lambda>ws. list_all (shaped e) ws \<and> length ws = length vs)
      (json_list_items D (JsonTypeMatching_init (get_type_id e) (get_type_id e) False) element vs (jr_array D j))"
    by (rule json_list_items_outcome [OF element vs(1,2)])
  then show ?thesis unfolding json_list_def vs_def [symmetric]
    by (rule dom_outcome_res) (use X vs(3) in auto)
qed

section \<open>Deserialization\<close>

lemma dom_Read_struct_outcome:
  assumes "list_all (head_outcome D a) (dom_fields D alloc fs)" and "schema_ok_fields fs" and "shaped_fields fs vars"
  shows "dom_outcome a (\<lambda>x. \<exists>ws. x = Struct md b ws \<and> shaped_fields fs ws) j
    (dom_Read_struct D (dom_fields D alloc fs) md b vars j)"
  unfolding dom_Read_struct_def
proof (rule dom_outcome_bind)
  show "dom_outcome a (\<lambda>(vars, required). shaped_fields fs vars) j
      (dom_ReadFields D (map fst (dom_fields D alloc fs)) (dom_fields D alloc fs) vars
         (next_required_field (map fst (dom_fields D alloc fs)) 0) j)"
    using dom_ReadFields_outcome [of D a "dom_fields D alloc fs"] assms by (simp)
qed (auto simp: bind_def ret_def lift_res_def Validate_struct_def json_exn_def)

lemma kind_matches: "is_basic_tag t \<Longrightarrow> TypeMatch D (JsonTypeMatching_init t t False) j \<Longrightarrow>
    BasicTypeMatch D (JsonTypeMatching_init t t False) j"
  by (cases t) (auto simp: TypeMatch_def ComplexTypeMatch_def JsonTypeMatching_init_def)

lemma dom_outcomes:
  assumes "alloc_ok alloc"
  shows "alloc' = alloc \<Longrightarrow> kinds_ok D \<Longrightarrow> schema_ok_type t \<Longrightarrow> shaped t var \<Longrightarrow> may_assert t \<longrightarrow> a \<Longrightarrow>
     is_basic_type t \<longrightarrow> a \<or> TypeMatch D (JsonTypeMatching_init (get_type_id t) (get_type_id t) False) j \<Longrightarrow>
     dom_outcome a (shaped t) j (dom_type D alloc' t var j)"
  and "alloc' = alloc \<Longrightarrow> kinds_ok D \<Longrightarrow> schema_ok_fields fs \<Longrightarrow> may_assert_fields fs \<longrightarrow> a \<Longrightarrow>
     list_all (head_outcome D a) (dom_fields D alloc' fs)"
  and "alloc' = alloc \<Longrightarrow> kinds_ok D \<Longrightarrow> schema_ok s \<Longrightarrow> shaped_struct s y \<Longrightarrow> may_assert_struct s \<longrightarrow> a \<Longrightarrow>
     dom_outcome a (shaped_struct s) j (dom_struct D alloc' s y j)"
proof (induction D alloc' t and D alloc' fs and D alloc' s arbitrary: var j and j and y j
    rule: dom_type_dom_fields_dom_struct.induct)
  case (1 D alloc' t)
  have "res_outcome a (basic_of t) (json_Read D t j)"
  proof (cases a)
    case True
    then show ?thesis using json_Read_any [of t D j] 1 by simp
  next
    case False
    then show ?thesis using json_Read_matched [of D t j a] kind_matches [of t D j] 1 by simp
  qed
  then show ?case by (simp add: jr_Read_def shaped_TBasic dom_outcome_res [where f = "\<lambda>x. x"])
next
  case (2 D alloc')
  then show ?case using json_blob_outcome [OF assms] by (simp del: shaped.simps)
next
  case (3 D alloc' e)
  then show ?case using json_list_outcome [where X = "TNullable e" and e = e and var = var and element = "dom_type D alloc e"] by (auto simp del: shaped.simps)
next
  case (4 D alloc' e)
  show ?case
  proof (cases "e = TBasic BT_BOOL")
    case True
    with 4 show ?thesis by (simp add: json_bools_def list_all_iff)
  next
    case False
    with 4 json_list_outcome [where X = "TList e" and e = e and var = var and element = "dom_type D alloc e"] show ?thesis by (auto simp del: shaped.simps)
  qed
next
  case (5 D alloc' t)
  have "dom_outcome a (shaped (TSet t)) j (json_set D t var j)"
    unfolding json_set_def
    by (rule dom_outcome_res [OF json_set_items_outcome]) (use 5 in \<open>simp_all\<close>)
  with 5 show ?case by (simp del: shaped.simps)
next
  case (6 D alloc' k e)
  have "dom_outcome a (shaped e) j' (dom_type D alloc e v j')" if "shaped e v" for v j'
    using that "6.IH" "6.prems" by auto
  then have "dom_outcome a (shaped (TMap k e)) j (json_map D k e (dom_type D alloc e) var j)"
    unfolding json_map_def
    using 6 shaped_default(1) [of e]
    by (intro dom_outcome_res [OF json_map_items_outcome [where Q = "shaped e"]]) auto
  with 6 show ?case by (simp del: shaped.simps)
next
  case (7 D alloc' s)
  then obtain y where y: "var = VStruct y" "shaped_struct s y" by (cases var) auto
  have "dom_outcome a (shaped_struct s) j (dom_struct D alloc s y j)" using 7 y by simp
  then have "dom_outcome a (shaped (TStruct s)) j (bind (dom_struct D alloc s y) (\<lambda>s'. ret (VStruct s')) j)"
    by (rule dom_outcome_bind) (simp add: ret_def)
  with 7 y show ?case by (simp del: shaped.simps)
next
  case (8 D alloc')
  then show ?case by simp
next
  case (9 D alloc' fid md mb t fs)
  then show ?case by (auto simp: head_outcome_def)
next
  case (10 D alloc' md fs)
  then obtain vs where y: "y = Struct md None vs" "shaped_fields fs vs" by (cases y) auto
  have "dom_outcome a (\<lambda>x. \<exists>ws. x = Struct md None ws \<and> shaped_fields fs ws) j
      (dom_Read_struct D (dom_fields D alloc fs) md None vs j)"
    using 10 y by (intro dom_Read_struct_outcome) auto
  with 10 y show ?case by (auto elim!: dom_outcome_mono)
next
  case (11 D alloc' md b fs)
  then obtain c vs where y: "y = Struct md (Some c) vs" "shaped_fields fs vs" "shaped_struct b c"
    by (cases y) (auto split: option.splits)
  have base: "dom_outcome a (shaped_struct b) j (dom_struct D alloc b c j)" using 11 y by simp
  have "dom_outcome a (shaped_struct (Schema md (Some b) fs)) j (dom_Read_struct D (dom_fields D alloc fs) md (Some b') vs j)"
    if "shaped_struct b b'" for b'
  proof (rule dom_outcome_mono)
    show "dom_outcome a (\<lambda>x. \<exists>ws. x = Struct md (Some b') ws \<and> shaped_fields fs ws) j
        (dom_Read_struct D (dom_fields D alloc fs) md (Some b') vs j)"
      using 11 y by (intro dom_Read_struct_outcome) auto
  qed (use that in auto)
  with base y "11.prems" show ?case by (auto intro!: dom_outcome_bind simp del: shaped_struct.simps)
qed

lemma json_Deserialize_outcome:
  assumes "alloc_ok alloc" and "kinds_ok D" and "schema_ok s" and "ParseStream r = Inr (document, r')"
  shows "dom_outcome (may_assert_struct s) (shaped_struct s) r' (json_Deserialize D alloc ParseStream s r)"
  using dom_outcomes(3) [OF assms(1) refl assms(2,3) shaped_default(4) [OF assms(3)], of "may_assert_struct s" document] assms(4)
  by (cases "dom_struct D alloc s (default_struct s) document") (auto simp: json_Deserialize_def bind_def lift_res_def)

end
