(* ===== verification/Json_Text.thy ===== *)
theory Json_Text
  imports Json_Writer
begin

text \<open>
  JSON as a language: the grammar of RFC 8259 as inductive predicates that relate a text to the tree
  it denotes, and the decoding of strings of ASCII characters and escapes to UTF-16 code units.
  Numbers and strings are leaves of a tree with their text. The theory also says which text and which
  tree the JSON writer is to produce for an instance of a struct, and proves that the text is a text
  of the grammar that denotes the tree.
\<close>

unbundle bit_operations_syntax

section \<open>The grammar\<close>

datatype json =
    JNull
  | JBool bool
  | JNumber "byte list"
  | JString "byte list"
  | JArray "json list"
  | JObject "(byte list \<times> json) list"

definition is_ws :: "byte list \<Rightarrow> bool" where
  "is_ws w \<longleftrightarrow> list_all (\<lambda>c. c \<in> {0x20, 0x09, 0x0a, 0x0d}) w"

definition is_digit :: "byte \<Rightarrow> bool" where
  "is_digit c \<longleftrightarrow> 0x30 \<le> c \<and> c \<le> 0x39"

definition is_hex :: "byte \<Rightarrow> bool" where
  "is_hex c \<longleftrightarrow> is_digit c \<or> 0x41 \<le> c \<and> c \<le> 0x46 \<or> 0x61 \<le> c \<and> c \<le> 0x66"

text \<open>Numbers: an optional minus, an integer without leading zeros, a fraction and an exponent\<close>

definition is_digits :: "byte list \<Rightarrow> bool" where
  "is_digits ds \<longleftrightarrow> ds \<noteq> [] \<and> list_all is_digit ds"

definition is_exponent :: "byte list \<Rightarrow> bool" where
  "is_exponent t =
     (case t of [] \<Rightarrow> True
      | e # ds \<Rightarrow> (e = 0x65 \<or> e = 0x45) \<and>
          (is_digits ds \<or> ds \<noteq> [] \<and> (hd ds = 0x2b \<or> hd ds = 0x2d) \<and> is_digits (tl ds)))"

definition is_fraction :: "byte list \<Rightarrow> bool" where
  "is_fraction t =
     (case t of [] \<Rightarrow> True
      | d # ds \<Rightarrow>
          if d = 0x2e then is_digits (takeWhile is_digit ds) \<and> is_exponent (dropWhile is_digit ds)
          else is_exponent t)"

definition is_unsigned_number :: "byte list \<Rightarrow> bool" where
  "is_unsigned_number t =
     (let ds = takeWhile is_digit t
      in is_digits ds \<and> (hd ds = 0x30 \<longrightarrow> ds = [0x30]) \<and> is_fraction (dropWhile is_digit t))"

definition is_number :: "byte list \<Rightarrow> bool" where
  "is_number t = (case t of [] \<Rightarrow> False | c # cs \<Rightarrow> is_unsigned_number (if c = 0x2d then cs else t))"

text \<open>Strings: characters other than controls, quote and backslash, and escapes\<close>

definition escape_unit :: "byte \<Rightarrow> u16 option" where
  "escape_unit c =
     (if c = QUOTE \<or> c = BACKSLASH \<or> c = SLASH then Some (ucast c)
      else if c = 0x62 then Some 0x08 else if c = 0x66 then Some 0x0c else if c = 0x6e then Some 0x0a
      else if c = 0x72 then Some 0x0d else if c = 0x74 then Some 0x09 else None)"

fun string_chars :: "byte list \<Rightarrow> bool" where
  "string_chars [] = True"
| "string_chars (c # cs) =
     (if c = BACKSLASH
      then (case cs of
              [] \<Rightarrow> False
            | e # cs' \<Rightarrow>
                if e = LETTER_u
                then (case cs' of
                        h1 # h2 # h3 # h4 # cs'' \<Rightarrow>
                          is_hex h1 \<and> is_hex h2 \<and> is_hex h3 \<and> is_hex h4 \<and> string_chars cs''
                      | _ \<Rightarrow> False)
                else escape_unit e \<noteq> None \<and> string_chars cs')
      else 0x20 \<le> c \<and> c \<noteq> QUOTE \<and> string_chars cs)"

definition string_literal :: "byte list \<Rightarrow> byte list" where
  "string_literal cs = QUOTE # cs @ [QUOTE]"

definition literal_chars :: "byte list \<Rightarrow> byte list" where
  "literal_chars t = butlast (tl t)"

definition is_string :: "byte list \<Rightarrow> bool" where
  "is_string t \<longleftrightarrow> t = string_literal (literal_chars t) \<and> string_chars (literal_chars t)"

inductive json_text :: "byte list \<Rightarrow> json \<Rightarrow> bool"
  and array_text :: "byte list \<Rightarrow> json list \<Rightarrow> bool"
  and object_text :: "byte list \<Rightarrow> (byte list \<times> json) list \<Rightarrow> bool" where
  null: "json_text null_text JNull"
| bool: "json_text (if b then true_text else false_text) (JBool b)"
| number: "is_number t \<Longrightarrow> json_text t (JNumber t)"
| string: "string_chars cs \<Longrightarrow> json_text (string_literal cs) (JString cs)"
| array: "array_text t vs \<Longrightarrow> is_ws w \<Longrightarrow> json_text ([LBRACK] @ t @ w @ [RBRACK]) (JArray vs)"
| object: "object_text t ms \<Longrightarrow> is_ws w \<Longrightarrow> json_text ([LBRACE] @ t @ w @ [RBRACE]) (JObject ms)"
| no_item: "array_text [] []"
| first_item: "is_ws w \<Longrightarrow> json_text t v \<Longrightarrow> array_text (w @ t) [v]"
| next_item: "array_text a vs \<Longrightarrow> vs \<noteq> [] \<Longrightarrow> is_ws w \<Longrightarrow> is_ws w' \<Longrightarrow> json_text t v \<Longrightarrow>
    array_text (a @ w @ [COMMA] @ w' @ t) (vs @ [v])"
| no_member: "object_text [] []"
| first_member: "is_ws w \<Longrightarrow> string_chars k \<Longrightarrow> is_ws w' \<Longrightarrow> is_ws w'' \<Longrightarrow> json_text t v \<Longrightarrow>
    object_text (w @ string_literal k @ w' @ [COLON] @ w'' @ t) [(k, v)]"
| next_member: "object_text a ms \<Longrightarrow> ms \<noteq> [] \<Longrightarrow> is_ws w0 \<Longrightarrow> is_ws w \<Longrightarrow> string_chars k \<Longrightarrow>
    is_ws w' \<Longrightarrow> is_ws w'' \<Longrightarrow> json_text t v \<Longrightarrow>
    object_text (a @ w0 @ [COMMA] @ w @ string_literal k @ w' @ [COLON] @ w'' @ t) (ms @ [(k, v)])"

section \<open>Decoding of strings\<close>

definition hex_value :: "byte \<Rightarrow> u16" where
  "hex_value c = (if is_digit c then ucast c - 0x30 else if c \<le> 0x46 then ucast c - 0x37 else ucast c - 0x57)"

text \<open>The code units of a string whose characters are ASCII\<close>

fun string_units :: "byte list \<Rightarrow> u16 list option" where
  "string_units [] = Some []"
| "string_units (c # cs) =
     (if c = BACKSLASH
      then (case cs of
              [] \<Rightarrow> None
            | e # cs' \<Rightarrow>
                if e = LETTER_u
                then (case cs' of
                        h1 # h2 # h3 # h4 # cs'' \<Rightarrow>
                          if is_hex h1 \<and> is_hex h2 \<and> is_hex h3 \<and> is_hex h4
                          then map_option (Cons (push_bit 12 (hex_value h1) OR push_bit 8 (hex_value h2) OR
                                 push_bit 4 (hex_value h3) OR hex_value h4)) (string_units cs'')
                          else None
                      | _ \<Rightarrow> None)
                else (case escape_unit e of
                        None \<Rightarrow> None
                      | Some u \<Rightarrow> map_option (Cons u) (string_units cs')))
      else if 0x20 \<le> c \<and> c < 0x80 \<and> c \<noteq> QUOTE then map_option (Cons (ucast c)) (string_units cs)
      else None)"

lemma json_hex4_cases:
  obtains h1 h2 h3 h4 cs'' where "cs = h1 # h2 # h3 # h4 # cs''"
    | "cs = []" | h1 where "cs = [h1]" | h1 h2 where "cs = [h1, h2]" | h1 h2 h3 where "cs = [h1, h2, h3]"
  by (metis list.exhaust)

lemma string_units_chars: "string_units cs = Some us \<Longrightarrow> string_chars cs"
proof (induction cs arbitrary: us rule: string_chars.induct)
  case 1
  then show ?case by simp
next
  case (2 c cs)
  show ?case
  proof (cases "c = BACKSLASH")
    case bs: True
    with "2.prems" obtain e cs' where cs: "cs = e # cs'" by (cases cs) simp_all
    show ?thesis
    proof (cases "e = LETTER_u")
      case True
      with "2.prems" bs cs obtain h1 h2 h3 h4 cs'' us' where
        h: "cs' = h1 # h2 # h3 # h4 # cs''" "is_hex h1 \<and> is_hex h2 \<and> is_hex h3 \<and> is_hex h4"
          "string_units cs'' = Some us'"
        by (cases cs' rule: json_hex4_cases) (auto split: if_split_asm)
      with "2.IH"(1) bs cs True show ?thesis by simp
    next
      case False
      with "2.prems" bs cs obtain u us' where "escape_unit e = Some u" "string_units cs' = Some us'"
        by (cases "escape_unit e") auto
      with "2.IH"(2) [OF bs cs False] bs cs False show ?thesis by simp
    qed
  next
    case False
    with "2.prems" obtain us' where "string_units cs = Some us'" by (auto split: if_split_asm)
    with "2.IH"(3) [OF False] False "2.prems" show ?thesis by (simp split: if_split_asm)
  qed
qed

section \<open>The text of a value\<close>

record json_format =
  jf_rapidjson :: rapidjson_writer
  jf_pretty :: bool
  jf_indent :: nat
  jf_all_fields :: bool

definition wchar_text :: "u32 \<Rightarrow> byte list" where
  "wchar_text c =
     (let c' = (if escaped c then escape_letter c else c)
      in (if escaped c \<and> 0x20 \<le>s c' then [BACKSLASH] else []) @
         (if 0x20 \<le>s c' \<and> c' <s 0x80 then [ucast c'] else unicode_escape c'))"

definition wstring_text :: "u32 list \<Rightarrow> byte list" where
  "wstring_text s = concat (map wchar_text s)"

fun basic_text :: "rapidjson_writer \<Rightarrow> bvalue \<Rightarrow> byte list" where
  "basic_text J (VBool b) = (if b then true_text else false_text)"
| "basic_text J (VUInt8 x) = rj_WriteUint64 J (ucast x)"
| "basic_text J (VUInt16 x) = rj_WriteUint64 J (ucast x)"
| "basic_text J (VUInt32 x) = rj_WriteUint64 J (ucast x)"
| "basic_text J (VUInt64 x) = rj_WriteUint64 J x"
| "basic_text J (VInt8 x) = rj_WriteInt64 J (scast x)"
| "basic_text J (VInt16 x) = rj_WriteInt64 J (scast x)"
| "basic_text J (VInt32 x) = rj_WriteInt64 J (scast x)"
| "basic_text J (VInt64 x) = rj_WriteInt64 J x"
| "basic_text J (VFloat x) = rj_WriteDouble J (float_to_double x)"
| "basic_text J (VDouble x) = rj_WriteDouble J x"
| "basic_text J (VString s) = rj_WriteString J s"
| "basic_text J (VWString s) = string_literal (wstring_text s)"
| "basic_text J v = []"

definition separator_text :: "json_format \<Rightarrow> byte list" where
  "separator_text F = (if jf_pretty F then [COMMA, SPACE] else [COMMA])"

definition newline_text :: "json_format \<Rightarrow> nat \<Rightarrow> byte list" where
  "newline_text F level =
     (if jf_pretty F then NEWLINE # replicate (level * jf_indent F) SPACE else [])"

text \<open>The items between brackets, each with a flag whether it starts on a new line\<close>

fun body_text :: "json_format \<Rightarrow> nat \<Rightarrow> bool \<Rightarrow> (bool \<times> byte list) list \<Rightarrow> byte list" where
  "body_text F level first [] = []"
| "body_text F level first ((nl, t) # xs) =
     (if first then [] else separator_text F) @ (if nl then newline_text F level else []) @ t @
     body_text F level False xs"

definition block_text :: "json_format \<Rightarrow> nat \<Rightarrow> byte \<Rightarrow> byte \<Rightarrow> (bool \<times> byte list) list \<Rightarrow> byte list" where
  "block_text F level left right xs =
     [left] @ body_text F (level + 1) True xs @ newline_text F level @ [right]"

definition name_text :: "json_format \<Rightarrow> Metadata \<Rightarrow> byte list" where
  "name_text F metadata = rj_WriteString (jf_rapidjson F) (bytes_of_string (FieldName metadata))"

definition member_text :: "json_format \<Rightarrow> Metadata \<Rightarrow> byte list \<Rightarrow> byte list" where
  "member_text F metadata t =
     name_text F metadata @ (if jf_pretty F then [COLON, SPACE] else [COLON]) @ t"

function (sequential) value_text :: "json_format \<Rightarrow> nat \<Rightarrow> bvalue \<Rightarrow> byte list"
  and items_text :: "json_format \<Rightarrow> nat \<Rightarrow> bvalue list \<Rightarrow> (bool \<times> byte list) list"
  and pairs_text :: "json_format \<Rightarrow> nat \<Rightarrow> bool \<Rightarrow> (bvalue \<times> bvalue) list \<Rightarrow> (bool \<times> byte list) list"
  and field_text :: "json_format \<Rightarrow> nat \<Rightarrow> bfield \<Rightarrow> (bool \<times> byte list) list"
  and fields_text :: "json_format \<Rightarrow> nat \<Rightarrow> bfield list \<Rightarrow> (bool \<times> byte list) list"
  and members_text :: "json_format \<Rightarrow> nat \<Rightarrow> bstruct \<Rightarrow> (bool \<times> byte list) list" where
  "value_text F l (VBlob b) =
     block_text F l LBRACK RBRACK (map (\<lambda>c. (True, basic_text (jf_rapidjson F) (VInt8 c))) (blob_bytes b))"
| "value_text F l (VList t vs) = block_text F l LBRACK RBRACK (items_text F (l + 1) vs)"
| "value_text F l (VSet t vs) = block_text F l LBRACK RBRACK (items_text F (l + 1) vs)"
| "value_text F l (VMap k t kvs) =
     block_text F l LBRACK RBRACK (pairs_text F (l + 1) (\<not> is_basic_tag t) kvs)"
| "value_text F l (VStruct s) = block_text F l LBRACE RBRACE (members_text F (l + 1) s)"
| "value_text F l v = basic_text (jf_rapidjson F) v"
| "items_text F l [] = []"
| "items_text F l (v # vs) = (True, value_text F l v) # items_text F l vs"
| "pairs_text F l nl [] = []"
| "pairs_text F l nl ((k, v) # kvs) =
     (True, value_text F l k) # (nl, value_text F l v) # pairs_text F l nl kvs"
| "field_text F l (Field fid metadata v) =
     (if jf_all_fields F \<or> \<not> omit_field True metadata v
      then [(True, member_text F metadata (value_text F l v))] else [])"
| "field_text F l (MaybeField fid metadata t None) = []"
| "field_text F l (MaybeField fid metadata t (Some v)) =
     [(True, member_text F metadata (value_text F l v))]"
| "fields_text F l [] = []"
| "fields_text F l (f # fs) = field_text F l f @ fields_text F l fs"
| "members_text F l (Struct metadata None fs) = fields_text F l fs"
| "members_text F l (Struct metadata (Some b) fs) = members_text F l b @ fields_text F l fs"
  by pat_completeness auto
termination
  by (relation "measure (case_sum
      (case_sum (\<lambda>(F, l, v). size v)
         (case_sum (\<lambda>(F, l, vs). size_list size vs) (\<lambda>(F, l, nl, kvs). size_list (size_prod size size) kvs)))
      (case_sum (\<lambda>(F, l, f). size f)
         (case_sum (\<lambda>(F, l, fs). size_list size fs) (\<lambda>(F, l, s). size s))))") auto

section \<open>Wide strings\<close>

text \<open>A character is written as itself, as a two-character escape or as \<open>\u\<close> and four digits.\<close>

lemma small_byte_cases:
  assumes "unat (d :: byte) < 16"
  shows "d \<in> {0, 1, 2, 3, 4, 5, 6, 7, 8, 9, 10, 11, 12, 13, 14, 15}"
proof -
  have "n \<in> {0, 1, 2, 3, 4, 5, 6, 7, 8, 9, 10, 11, 12, 13, 14, 15}" if "n < 16" for n :: nat
    using that unfolding insert_iff empty_iff by presburger
  then have "unat d \<in> {0, 1, 2, 3, 4, 5, 6, 7, 8, 9, 10, 11, 12, 13, 14, 15}" using assms by blast
  from imageI [OF this, of "of_nat :: nat \<Rightarrow> byte"] show ?thesis by simp
qed

lemma hex_value_HexDigit: "is_hex (HexDigit n)" "hex_value (HexDigit n) = take_bit 4 (ucast n)"
proof -
  define d :: byte where "d = take_bit 4 (ucast n)"
  have "(ucast (n AND 0xf) :: byte) = d"
    unfolding d_def by (simp add: take_bit_eq_mask unsigned_and_eq mask_eq_exp_minus_1)
  then have H: "HexDigit n = (if d < 10 then 0x30 + d else 0x61 + d - 10)" by (simp add: HexDigit_def)
  have "unat d < 16"
    using take_bit_nat_less_exp [of 4 "unat (ucast n :: byte)"] by (simp add: d_def unsigned_take_bit_eq)
  then have "d \<in> {0, 1, 2, 3, 4, 5, 6, 7, 8, 9, 10, 11, 12, 13, 14, 15}" by (rule small_byte_cases)
  then have "is_hex (HexDigit n) \<and> hex_value (HexDigit n) = ucast d"
    unfolding H by (elim insertE emptyE) (simp_all add: is_hex_def is_digit_def hex_value_def)
  moreover have "(ucast d :: u16) = take_bit 4 (ucast n)"
    unfolding d_def by (rule bit_word_eqI) (auto simp: bit_simps)
  ultimately show "is_hex (HexDigit n)" "hex_value (HexDigit n) = take_bit 4 (ucast n)" by simp_all
qed

lemma unicode_bits:
  fixes c :: u32
  shows "push_bit 12 (take_bit 4 (ucast (signed_drop_bit 12 c))) OR push_bit 8 (take_bit 4 (ucast (signed_drop_bit 8 c))) OR
      push_bit 4 (take_bit 4 (ucast (signed_drop_bit 4 c))) OR take_bit 4 (ucast (signed_drop_bit 0 c)) = (ucast c :: u16)"
proof (rule bit_word_eqI)
  fix n assume "n < LENGTH(16)"
  then consider "n < 4" | "4 \<le> n \<and> n < 8" | "8 \<le> n \<and> n < 12" | "12 \<le> n \<and> n < 16" by force
  then show "bit (push_bit 12 (take_bit 4 (ucast (signed_drop_bit 12 c))) OR push_bit 8 (take_bit 4 (ucast (signed_drop_bit 8 c))) OR
      push_bit 4 (take_bit 4 (ucast (signed_drop_bit 4 c))) OR take_bit 4 (ucast (signed_drop_bit 0 c)) :: u16) n = bit (ucast c :: u16) n"
    by cases (auto simp: bit_simps)
qed

lemma string_units_unicode: "string_units (unicode_escape c @ cs) = map_option (Cons (ucast c)) (string_units cs)"
  by (simp add: unicode_escape_def hex_value_HexDigit unicode_bits del: signed_drop_bit_0)

lemma ascii_char:
  fixes c :: u32
  assumes "0x20 \<le>s c" and "c <s 0x80"
  shows "0x20 \<le> (ucast c :: byte)" "(ucast c :: byte) < 0x80" "ucast (ucast c :: byte) = c"
    "(ucast (ucast c :: byte) :: u16) = ucast c"
proof -
  have "32 \<le> sint c" "sint c < 128" using assms by (simp_all add: word_sle_eq word_sless_alt)
  then obtain k where k: "sint c = int k" "32 \<le> k" "k < 128"
    by (metis nat_0_le nat_le_iff nat_less_iff of_nat_numeral order_trans zero_le_numeral nat_numeral_as_int)
  have "c = of_int (sint c)" by simp
  then have c: "c = of_nat k" by (simp only: k(1) of_int_of_nat_eq)
  have "unat c = k" using k by (simp add: c unat_of_nat)
  then have u: "unat (ucast c :: byte) = k" using k by (simp add: unsigned_ucast_eq take_bit_nat_eq_self)
  show "0x20 \<le> (ucast c :: byte)" "(ucast c :: byte) < 0x80"
    using u k by (simp_all add: word_le_nat_alt word_less_nat_alt)
  show "ucast (ucast c :: byte) = c" "(ucast (ucast c :: byte) :: u16) = ucast c"
    using u k \<open>unat c = k\<close> by (simp_all add: word_unat_eq_iff unsigned_ucast_eq unsigned_take_bit_eq take_bit_nat_eq_self)
qed

lemma string_units_wchar:
  "string_units (wchar_text c @ cs) = map_option (Cons (ucast c)) (string_units cs)"
proof (cases "escaped c")
  case True
  consider "c \<in> {0x08, 0x0c, 0x0a, 0x0d, 0x09}" | "c \<in> {0x22, 0x5c, 0x2f}"
    | "c \<notin> {0x08, 0x0c, 0x0a, 0x0d, 0x09}" "c <s 0x20" using True by (auto simp: escaped_def)
  then show ?thesis
  proof cases
    case 3
    then have "wchar_text c = unicode_escape c"
      by (simp add: wchar_text_def escape_letter_def word_sle_eq word_sless_alt)
    then show ?thesis by (simp add: string_units_unicode)
  qed (auto simp: wchar_text_def escaped_def escape_letter_def escape_unit_def)
next
  case False
  show ?thesis
  proof (cases "c <s 0x80")
    case True
    with False have "wchar_text c = [ucast c]"
      by (simp add: wchar_text_def escaped_def word_sle_eq word_sless_alt)
    moreover have "0x20 \<le>s c" using False by (auto simp: escaped_def word_sle_eq word_sless_alt)
    moreover have "ucast c \<noteq> QUOTE \<and> ucast c \<noteq> BACKSLASH"
      using ascii_char(3) [OF \<open>0x20 \<le>s c\<close> True] False by (auto simp: escaped_def)
    ultimately show ?thesis using ascii_char [OF _ True] by simp
  next
    case False': False
    with False have "wchar_text c = unicode_escape c" by (simp add: wchar_text_def escaped_def)
    then show ?thesis by (simp add: string_units_unicode)
  qed
qed

lemma string_units_wstring: "string_units (wstring_text s) = Some (map ucast s)"
  by (induction s) (simp_all add: wstring_text_def string_units_wchar)

definition nullable_text :: "json_format \<Rightarrow> nat \<Rightarrow> bvalue option \<Rightarrow> byte list" where
  "nullable_text F l x =
     (case x of None \<Rightarrow> null_text
      | Some v \<Rightarrow> block_text F l LBRACK RBRACK [(False, value_text F (l + 1) v)])"

section \<open>The tree of a value\<close>

definition chars_of :: "json_format \<Rightarrow> byte list \<Rightarrow> byte list" where
  "chars_of F s = literal_chars (rj_WriteString (jf_rapidjson F) s)"

function (sequential) value_tree :: "json_format \<Rightarrow> bvalue \<Rightarrow> json"
  and items_tree :: "json_format \<Rightarrow> bvalue list \<Rightarrow> json list"
  and pairs_tree :: "json_format \<Rightarrow> (bvalue \<times> bvalue) list \<Rightarrow> json list"
  and field_tree :: "json_format \<Rightarrow> bfield \<Rightarrow> (byte list \<times> json) list"
  and fields_tree :: "json_format \<Rightarrow> bfield list \<Rightarrow> (byte list \<times> json) list"
  and members_tree :: "json_format \<Rightarrow> bstruct \<Rightarrow> (byte list \<times> json) list" where
  "value_tree F (VBlob b) = JArray (map (\<lambda>c. JNumber (basic_text (jf_rapidjson F) (VInt8 c))) (blob_bytes b))"
| "value_tree F (VList t vs) = JArray (items_tree F vs)"
| "value_tree F (VSet t vs) = JArray (items_tree F vs)"
| "value_tree F (VMap k t kvs) = JArray (pairs_tree F kvs)"
| "value_tree F (VStruct s) = JObject (members_tree F s)"
| "value_tree F (VBool b) = JBool b"
| "value_tree F (VString s) = JString (chars_of F s)"
| "value_tree F (VWString s) = JString (wstring_text s)"
| "value_tree F v = JNumber (basic_text (jf_rapidjson F) v)"
| "items_tree F [] = []"
| "items_tree F (v # vs) = value_tree F v # items_tree F vs"
| "pairs_tree F [] = []"
| "pairs_tree F ((k, v) # kvs) = value_tree F k # value_tree F v # pairs_tree F kvs"
| "field_tree F (Field fid metadata v) =
     (if jf_all_fields F \<or> \<not> omit_field True metadata v
      then [(chars_of F (bytes_of_string (FieldName metadata)), value_tree F v)] else [])"
| "field_tree F (MaybeField fid metadata t None) = []"
| "field_tree F (MaybeField fid metadata t (Some v)) =
     [(chars_of F (bytes_of_string (FieldName metadata)), value_tree F v)]"
| "fields_tree F [] = []"
| "fields_tree F (f # fs) = field_tree F f @ fields_tree F fs"
| "members_tree F (Struct metadata None fs) = fields_tree F fs"
| "members_tree F (Struct metadata (Some b) fs) = members_tree F b @ fields_tree F fs"
  by pat_completeness auto
termination
  by (relation "measure (case_sum
      (case_sum (\<lambda>(F, v). size v)
         (case_sum (\<lambda>(F, vs). size_list size vs) (\<lambda>(F, kvs). size_list (size_prod size size) kvs)))
      (case_sum (\<lambda>(F, f). size f)
         (case_sum (\<lambda>(F, fs). size_list size fs) (\<lambda>(F, s). size s))))") auto

text \<open>
  What is relied on of RapidJSON's writer: it writes strings as string literals, integers and finite
  floating point numbers as numbers.
\<close>

definition double_is_finite :: "u64 \<Rightarrow> bool" where
  "double_is_finite d \<longleftrightarrow> take_bit 11 (drop_bit 52 d) \<noteq> 2047"

definition writes_json :: "rapidjson_writer \<Rightarrow> bool" where
  "writes_json J \<longleftrightarrow>
     (\<forall>s. is_string (rj_WriteString J s)) \<and> (\<forall>x. is_number (rj_WriteInt64 J x)) \<and>
     (\<forall>x. is_number (rj_WriteUint64 J x)) \<and> (\<forall>x. is_number (rj_WriteUint J x)) \<and>
     (\<forall>d. double_is_finite d \<longrightarrow> is_number (rj_WriteDouble J d))"

text \<open>
  The instances that have a JSON text: floating point numbers are finite, the items of a map are pairs
  of the declared types, and the bases of a struct are not more than the serializer can count.
\<close>

fun base_depth :: "bstruct \<Rightarrow> nat" where
  "base_depth (Struct metadata None fs) = 0"
| "base_depth (Struct metadata (Some b) fs) = Suc (base_depth b)"

function (sequential) json_value :: "bvalue \<Rightarrow> bool"
  and json_items :: "bvalue list \<Rightarrow> bool"
  and json_pairs :: "BondDataType \<Rightarrow> (bvalue \<times> bvalue) list \<Rightarrow> bool"
  and json_field :: "bfield \<Rightarrow> bool"
  and json_fields :: "bfield list \<Rightarrow> bool"
  and json_struct :: "bstruct \<Rightarrow> bool" where
  "json_value (VFloat x) = double_is_finite (float_to_double x)"
| "json_value (VDouble x) = double_is_finite x"
| "json_value (VList t vs) = json_items vs"
| "json_value (VSet t vs) = json_items vs"
| "json_value (VMap k t kvs) = json_pairs t kvs"
| "json_value (VStruct s) = (base_depth s + 1 < 2 ^ 32 \<and> json_struct s)"
| "json_value v = True"
| "json_items [] = True"
| "json_items (v # vs) = (json_value v \<and> json_items vs)"
| "json_pairs t [] = True"
| "json_pairs t ((k, v) # kvs) =
     (is_basic k \<and> json_value k \<and> GetTypeId v = t \<and> json_value v \<and> json_pairs t kvs)"
| "json_field (Field fid md v) = json_value v"
| "json_field (MaybeField fid md t None) = True"
| "json_field (MaybeField fid md t (Some v)) = json_value v"
| "json_fields [] = True"
| "json_fields (f # fs) = (json_field f \<and> json_fields fs)"
| "json_struct (Struct md None fs) = json_fields fs"
| "json_struct (Struct md (Some b) fs) = (json_struct b \<and> json_fields fs)"
  by pat_completeness auto
termination
  by (relation "measure (case_sum
      (case_sum size (case_sum (size_list size) (\<lambda>(t, kvs). size_list (size_prod size size) kvs)))
      (case_sum size (case_sum (size_list size) size)))") auto

section \<open>The text denotes the tree\<close>

lemma is_ws_Nil [simp]: "is_ws []"
  by (simp add: is_ws_def)

lemma is_ws_newline [simp]: "is_ws (newline_text F l)"
  by (auto simp: is_ws_def newline_text_def list_all_iff)

inductive_cases array_text_NilE: "array_text a []"
inductive_cases object_text_NilE: "object_text a []"

lemma is_ws_pretty: "is_ws w \<Longrightarrow> is_ws ((if jf_pretty F then [SPACE] else []) @ w)"
  by (simp add: is_ws_def)

lemma array_text_item:
  assumes "array_text a vs" and "is_ws w" and "json_text t v"
  shows "array_text (a @ (if vs = [] then [] else separator_text F) @ w @ t) (vs @ [v])"
proof (cases "vs = []")
  case True
  with assms(1) have "a = []" by (auto elim: array_text_NilE)
  with True first_item [OF assms(2,3)] show ?thesis by simp
next
  case False
  with next_item [OF assms(1) False is_ws_Nil is_ws_pretty [OF assms(2), of F] assms(3)] show ?thesis
    by (cases "jf_pretty F") (simp_all add: separator_text_def)
qed

lemma object_text_member:
  assumes "object_text a ms" and "is_ws w" and "string_chars k" and "is_ws w'" and "json_text t v"
  shows "object_text (a @ (if ms = [] then [] else separator_text F) @ w @ string_literal k @ [COLON] @ w' @ t)
    (ms @ [(k, v)])"
proof (cases "ms = []")
  case True
  with assms(1) have "a = []" by (auto elim: object_text_NilE)
  with True first_member [OF assms(2,3) is_ws_Nil assms(4,5)] show ?thesis by simp
next
  case False
  with next_member [OF assms(1) False is_ws_Nil is_ws_pretty [OF assms(2), of F] assms(3) is_ws_Nil assms(4,5)]
  show ?thesis by (cases "jf_pretty F") (simp_all add: separator_text_def)
qed

lemma body_text_array:
  assumes "list_all2 (\<lambda>x v. json_text (snd x) v) xs us" and "array_text a vs" and "first = (vs = [])"
  shows "array_text (a @ body_text F l first xs) (vs @ us)"
  using assms
proof (induction xs us arbitrary: a vs first rule: list_all2_induct)
  case (Cons x xs u us)
  obtain nl t where x: "x = (nl, t)" by fastforce
  have "array_text (a @ (if first then [] else separator_text F) @ (if nl then newline_text F l else []) @ t) (vs @ [u])"
    using array_text_item [OF Cons.prems(1), of "if nl then newline_text F l else []" t u F] Cons.hyps Cons.prems(2)
    by (simp add: x)
  from Cons.IH [OF this, of False] show ?case by (simp add: x)
qed simp

definition member_denotes :: "byte list \<Rightarrow> byte list \<times> json \<Rightarrow> bool" where
  "member_denotes t m \<longleftrightarrow>
     (\<exists>w t'. t = string_literal (fst m) @ [COLON] @ w @ t' \<and> is_ws w \<and> string_chars (fst m) \<and> json_text t' (snd m))"

lemma body_text_object:
  assumes "list_all2 (\<lambda>x m. member_denotes (snd x) m) xs us" and "object_text a ms" and "first = (ms = [])"
  shows "object_text (a @ body_text F l first xs) (ms @ us)"
  using assms
proof (induction xs us arbitrary: a ms first rule: list_all2_induct)
  case (Cons x xs u us)
  obtain nl t where x: "x = (nl, t)" by fastforce
  obtain w t' where t: "t = string_literal (fst u) @ [COLON] @ w @ t'" "is_ws w" "string_chars (fst u)" "json_text t' (snd u)"
    using Cons.hyps(1) by (auto simp: x member_denotes_def)
  have "object_text (a @ (if first then [] else separator_text F) @ (if nl then newline_text F l else []) @ t) (ms @ [u])"
    using object_text_member [OF Cons.prems(1) _ t(3,2,4), of "if nl then newline_text F l else []" F] Cons.prems(2)
    by (simp add: t(1))
  from Cons.IH [OF this, of False] show ?case by (simp add: x)
qed simp

lemma block_text_array:
  "list_all2 (\<lambda>x v. json_text (snd x) v) xs us \<Longrightarrow> json_text (block_text F l LBRACK RBRACK xs) (JArray us)"
  using array [OF body_text_array [OF _ no_item, of xs us True F "l + 1"] is_ws_newline]
  by (simp add: block_text_def)

lemma block_text_object:
  "list_all2 (\<lambda>x m. member_denotes (snd x) m) xs us \<Longrightarrow> json_text (block_text F l LBRACE RBRACE xs) (JObject us)"
  using object [OF body_text_object [OF _ no_member, of xs us True F "l + 1"] is_ws_newline]
  by (simp add: block_text_def)

lemma writes_jsonD:
  assumes "writes_json J"
  shows "rj_WriteString J s = string_literal (literal_chars (rj_WriteString J s))"
    "string_chars (literal_chars (rj_WriteString J s))"
    "is_number (rj_WriteInt64 J x)" "is_number (rj_WriteUint64 J x)"
    "double_is_finite d \<Longrightarrow> is_number (rj_WriteDouble J d)"
  using assms by (simp_all add: writes_json_def is_string_def)

lemma json_text_string:
  assumes "writes_json (jf_rapidjson F)"
  shows "json_text (rj_WriteString (jf_rapidjson F) s) (JString (chars_of F s))"
  unfolding chars_of_def
  by (subst writes_jsonD(1) [OF assms]) (rule json_text_array_text_object_text.string [OF writes_jsonD(2) [OF assms]])

lemma member_text_denotes:
  assumes "writes_json (jf_rapidjson F)" and "json_text t v"
  shows "member_denotes (member_text F md t) (chars_of F (bytes_of_string (FieldName md)), v)"
proof -
  have "is_ws (if jf_pretty F then [SPACE] else [])" by (simp add: is_ws_def)
  moreover have "member_text F md t =
      string_literal (chars_of F (bytes_of_string (FieldName md))) @ [COLON] @ (if jf_pretty F then [SPACE] else []) @ t"
    using writes_jsonD(1) [OF assms(1)] by (simp add: member_text_def name_text_def chars_of_def)
  ultimately show ?thesis
    using writes_jsonD(2) [OF assms(1)] assms(2) unfolding member_denotes_def fst_conv snd_conv chars_of_def by blast
qed

lemma bytes_denote:
  assumes "writes_json J"
  shows "list_all2 (\<lambda>x v. json_text (snd x) v) (map (\<lambda>c. (True, rj_WriteInt64 J (f c))) bs)
    (map (\<lambda>c. JNumber (rj_WriteInt64 J (f c))) bs)"
  by (induction bs) (simp_all add: number writes_jsonD [OF assms])

lemma bool_texts: "json_text true_text (JBool True)" "json_text false_text (JBool False)"
  using bool [of True] bool [of False] by simp_all

text \<open>Every value of an instance has a text that denotes its tree.\<close>

lemma text_denotes_tree:
  assumes J: "writes_json (jf_rapidjson F)"
  shows "json_value v \<Longrightarrow> json_text (value_text F l v) (value_tree F v)"
    and "json_items vs \<Longrightarrow> list_all2 (\<lambda>x v. json_text (snd x) v) (items_text F l vs) (items_tree F vs)"
    and "json_pairs t kvs \<Longrightarrow> list_all2 (\<lambda>x v. json_text (snd x) v) (pairs_text F l nl kvs) (pairs_tree F kvs)"
    and "json_field f \<Longrightarrow> list_all2 (\<lambda>x m. member_denotes (snd x) m) (field_text F l f) (field_tree F f)"
    and "json_fields fs \<Longrightarrow> list_all2 (\<lambda>x m. member_denotes (snd x) m) (fields_text F l fs) (fields_tree F fs)"
    and "json_struct s \<Longrightarrow> list_all2 (\<lambda>x m. member_denotes (snd x) m) (members_text F l s) (members_tree F s)"
proof (induction v and vs and t kvs and f and fs and s arbitrary: l and l and l nl and l and l and l
    rule: json_value_json_items_json_pairs_json_field_json_fields_json_struct.induct)
qed (auto intro!: block_text_array block_text_object member_text_denotes [OF J] list_all2_appendI json_text_string [OF J]
  number writes_jsonD [OF J] bytes_denote [OF J] bool_texts
  json_text_array_text_object_text.string [OF string_units_chars [OF string_units_wstring]])

definition nullable_tree :: "json_format \<Rightarrow> bvalue option \<Rightarrow> json" where
  "nullable_tree F x = (case x of None \<Rightarrow> JNull | Some v \<Rightarrow> JArray [value_tree F v])"

lemma nullable_denotes:
  assumes "writes_json (jf_rapidjson F)" and "case x of None \<Rightarrow> True | Some v \<Rightarrow> json_value v"
  shows "json_text (nullable_text F l x) (nullable_tree F x)"
proof (cases x)
  case None
  then show ?thesis by (simp add: nullable_text_def nullable_tree_def null)
next
  case (Some v)
  with assms text_denotes_tree(1) [of F v "l + 1"] show ?thesis
    by (auto simp: nullable_text_def nullable_tree_def intro!: block_text_array)
qed

text \<open>A concrete writer of numbers and strings: integers in decimal, every character of a string as
  a \<open>\u\<close> escape. It writes JSON, so what is relied on of RapidJSON can hold.\<close>

fun decimal :: "nat \<Rightarrow> byte list" where
  "decimal n = (if n < 10 then [0x30 + of_nat n] else decimal (n div 10) @ [0x30 + of_nat (n mod 10)])"

declare decimal.simps [simp del]

definition decimal_writer :: rapidjson_writer where
  "decimal_writer =
     \<lparr>rj_WriteString = (\<lambda>s. string_literal (concat (map (\<lambda>c. unicode_escape (ucast c)) s))),
      rj_WriteInt64 = (\<lambda>x. if x <s 0 then 0x2d # decimal (nat (- sint x)) else decimal (unat x)),
      rj_WriteUint64 = (\<lambda>x. decimal (unat x)),
      rj_WriteUint = (\<lambda>x. decimal (unat x)),
      rj_WriteDouble = (\<lambda>d. decimal (unat d))\<rparr>"

lemma is_digit_small: "n < 10 \<Longrightarrow> is_digit (0x30 + of_nat n)" "n < 10 \<Longrightarrow> 0 < n \<Longrightarrow> 0x30 + of_nat n \<noteq> (0x30 :: byte)"
proof -
  assume n: "n < 10"
  have "unat (0x30 + of_nat n :: byte) = 48 + n" using n by (simp add: unat_word_ariths unat_of_nat)
  then show "is_digit (0x30 + of_nat n)" "0 < n \<Longrightarrow> 0x30 + of_nat n \<noteq> (0x30 :: byte)"
    using n by (auto simp: is_digit_def word_le_nat_alt)
qed

lemma decimal_digits: "is_digits (decimal n) \<and> (hd (decimal n) = 0x30 \<longrightarrow> n = 0)"
proof (induction n rule: decimal.induct)
  case (1 n)
  then show ?case using is_digit_small [of n] is_digit_small [of "n mod 10"]
    by (subst (1 2) decimal.simps) (auto simp: is_digits_def)
qed

lemma is_unsigned_decimal: "is_unsigned_number (decimal n)"
proof -
  have d: "takeWhile is_digit (decimal n) = decimal n" "dropWhile is_digit (decimal n) = []"
    using decimal_digits [of n] by (simp_all add: is_digits_def list_all_iff)
  have "decimal 0 = [0x30]" by (simp add: decimal.simps)
  with decimal_digits [of n] show ?thesis
    unfolding is_unsigned_number_def Let_def d by (auto simp: is_fraction_def)
qed

lemma is_number_decimal: "is_number (decimal n)" "is_number (0x2d # decimal n)"
proof -
  show "is_number (0x2d # decimal n)" by (simp add: is_number_def is_unsigned_decimal)
  have "\<not> is_digit 0x2d" by (simp add: is_digit_def)
  with decimal_digits [of n] is_unsigned_decimal [of n] show "is_number (decimal n)"
    by (cases "decimal n") (auto simp: is_number_def is_digits_def)
qed

lemma string_units_escapes: "string_units (concat (map (\<lambda>c. unicode_escape (ucast c)) s)) = Some (map (\<lambda>c. ucast (ucast c :: u32)) s)"
  by (induction s) (simp_all add: string_units_unicode)

lemma literal_chars_literal [simp]: "literal_chars (string_literal cs) = cs"
  by (simp add: literal_chars_def string_literal_def)

lemma writes_json_decimal: "writes_json decimal_writer"
  using string_units_chars [OF string_units_escapes]
  by (auto simp: writes_json_def decimal_writer_def is_number_decimal is_string_def)

end
