(* ===== verification/Json_Writer_Correct.thy ===== *)
theory Json_Writer_Correct
  imports Json_Text
begin

text \<open>
  The JSON writer writes the text of the value: inside the contract of output streams, each member
  of the writer appends the text that \<open>Json_Text\<close> prescribes, and keeps the counters \<open>_count\<close> and
  \<open>_level\<close> below the number of bytes written, so that they do not overflow.
\<close>

section \<open>Bases are part of the object\<close>

text \<open>The members of the object: the fields of the bases, then those of the struct\<close>

fun js_members ::
    "'b Buffer \<Rightarrow> rapidjson_writer \<Rightarrow> bstruct \<Rightarrow> 'b SimpleJsonWriter \<Rightarrow> 'b SimpleJsonWriter res" where
  "js_members B J (Struct metadata None fs) = js_Fields B J fs"
| "js_members B J (Struct metadata (Some b) fs) = seq (js_members B J b) (js_Fields B J fs)"

lemma level_word:
  assumes "0 < k" and "k + 1 < 2 ^ 32"
  shows "(of_nat k :: u32) \<noteq> 0" and "1 + of_nat k \<noteq> (1 :: u32)"
proof -
  have "unat (of_nat k :: u32) = k" using assms by (intro unat_of_nat_small) simp
  with assms(1) show "(of_nat k :: u32) \<noteq> 0" by auto
  then show "1 + of_nat k \<noteq> (1 :: u32)" by simp
qed

lemma js_Apply_base:
  assumes "0 < k" and "k + base_depth s + 1 < 2 ^ 32"
  shows "js_Apply B J s (of_nat k, w) = res_bind (js_members B J s w) (\<lambda>w. Inr (of_nat k, w))"
  using assms
proof (induction s arbitrary: k w rule: base_depth.induct)
  case (1 metadata fs)
  then show ?case using level_word [of k]
    by (simp add: js_Begin_def js_End_def js_WriteEnd_def on_writer_def seq_def res_bind_def split: sum.splits)
next
  case (2 metadata b fs)
  have "js_Apply B J b (of_nat (Suc k), w) = res_bind (js_members B J b w) (\<lambda>w. Inr (of_nat (Suc k), w))" for w
    using "2.prems" by (intro "2.IH") simp_all
  then show ?case using level_word [of k] "2.prems"
    by (simp add: js_Begin_def js_End_def js_WriteEnd_def on_writer_def seq_def res_bind_def add.commute split: sum.splits)
qed

lemma js_Write_struct:
  assumes "base_depth s + 1 < 2 ^ 32"
  shows "js_Write B J (VStruct s) = seq (jw_WriteOpen B LBRACE) (seq (js_members B J s) (jw_WriteClose B RBRACE))"
proof (cases s rule: base_depth.cases)
  case (1 metadata fs)
  then show ?thesis
    by (simp add: fun_eq_iff js_Begin_def js_End_def js_WriteEnd_def on_writer_def seq_def res_bind_def split: sum.splits)
next
  case (2 metadata b fs)
  with js_Apply_base [of 1 b B J] assms show ?thesis
    by (simp add: fun_eq_iff js_Begin_def js_End_def js_WriteEnd_def on_writer_def seq_def res_bind_def split: sum.splits)
qed

section \<open>Emission\<close>

definition jw_at ::
    "('b \<Rightarrow> byte list \<Rightarrow> bool) \<Rightarrow> json_format \<Rightarrow> 'b SimpleJsonWriter \<Rightarrow> byte list \<Rightarrow> nat \<Rightarrow> nat \<Rightarrow> bool" where
  "jw_at holds F w c n l \<longleftrightarrow>
     holds (jw_output w) c \<and> jw_count w = int n \<and> jw_level w = int l \<and> jw_pretty w = jf_pretty F \<and>
     jw_indent w = int (jf_indent F) \<and> jf_indent F \<le> 8 \<and> jw_all_fields w = jf_all_fields F"

lemma js_Write_basic: "is_basic v \<Longrightarrow> js_Write B J v = jw_Write B J v"
  by (cases v) simp_all

lemma value_text_basic: "is_basic v \<Longrightarrow> value_text F l v = basic_text (jf_rapidjson F) v"
  by (cases v) simp_all

lemma number_not_Nil: "is_number t \<Longrightarrow> t \<noteq> []"
  by (auto simp: is_number_def)

lemma string_not_Nil: "is_string t \<Longrightarrow> t \<noteq> []"
  by (metis is_string_def list.distinct(1) string_literal_def)

lemma basic_text_not_Nil:
  assumes "writes_json J" and "is_basic v" and "json_value v"
  shows "basic_text J v \<noteq> []"
  using assms(2,3) writes_jsonD(3-5) [OF assms(1), THEN number_not_Nil] assms(1)
  by (cases v) (auto simp: true_text_def false_text_def string_literal_def writes_json_def dest: string_not_Nil)

context output_stream
begin

text \<open>A write that leaves the counters alone\<close>

definition emits_text :: "json_format \<Rightarrow> nat \<Rightarrow> ('b SimpleJsonWriter \<Rightarrow> 'b SimpleJsonWriter res) \<Rightarrow> byte list \<Rightarrow> bool" where
  "emits_text F l m text \<longleftrightarrow>
     (\<forall>w c n. jw_at holds F w c n l \<and> length c + length text < 2 ^ 31 \<longrightarrow>
        (\<exists>w'. m w = Inr w' \<and> jw_at holds F w' (c @ text) n l))"

lemma emits_textD:
  "emits_text F l m text \<Longrightarrow> jw_at holds F w c n l \<Longrightarrow> length c + length text < 2 ^ 31 \<Longrightarrow>
    \<exists>w'. m w = Inr w' \<and> jw_at holds F w' (c @ text) n l"
  by (auto simp: emits_text_def)

lemma emits_text_Nil: "emits_text F l Inr []"
  by (simp add: emits_text_def)

lemma emits_text_seq:
  assumes "emits_text F l m a" and "emits_text F l m' b"
  shows "emits_text F l (seq m m') (a @ b)"
  unfolding emits_text_def
proof (intro allI impI, elim conjE)
  fix w c n assume a: "jw_at holds F w c n l" "length c + length (a @ b) < 2 ^ 31"
  then obtain w1 where w1: "m w = Inr w1" "jw_at holds F w1 (c @ a) n l"
    using emits_textD [OF assms(1), of w c n] by auto
  with a emits_textD [OF assms(2) w1(2)] show "\<exists>w'. seq m m' w = Inr w' \<and> jw_at holds F w' (c @ a @ b) n l"
    by (simp add: seq_def)
qed

lemma emits_text_on_output: "stream_appends holds m bs \<Longrightarrow> emits_text F l (on_output m) bs"
  by (fastforce simp: emits_text_def on_output_def jw_at_def dest: stream_appendsD)

lemma emits_char: "emits_text F l (jw_char B c) [c]"
  unfolding jw_char_def by (intro emits_text_on_output Write_law)

lemma emits_mem: "emits_text F l (jw_mem B bs) bs"
  unfolding jw_mem_def by (intro emits_text_on_output WriteMem_law)

lemma emits_puts: "emits_text F l (jw_puts B bs) bs"
proof (induction bs)
  case (Cons c bs)
  have "emits_text F l (on_output (RapidJsonOutputStream_Put B c)) [c]"
    unfolding RapidJsonOutputStream_Put_def by (intro emits_text_on_output Write_law)
  from emits_text_seq [OF this Cons.IH] show ?case by simp
qed (simp add: emits_text_Nil)

lemma emits_wchar: "emits_text F l (jw_WriteWChar B c) (wchar_text c)"
  unfolding jw_WriteWChar_def wchar_text_def Let_def jw_WriteUnicode_def
  by (intro emits_text_seq) (simp_all add: emits_text_Nil emits_char emits_mem)

lemma emits_wchars: "emits_text F l (jw_WriteWChars B s) (wstring_text s)"
  by (induction s) (simp_all add: wstring_text_def emits_text_Nil emits_text_seq emits_wchar)

lemma emits_wstring: "emits_text F l (jw_WriteWString B s) (string_literal (wstring_text s))"
  using emits_text_seq [OF emits_char emits_text_seq [OF emits_wchars emits_char], of F l QUOTE s QUOTE]
  by (simp add: jw_WriteWString_def string_literal_def)

lemma emits_basic: "is_basic v \<Longrightarrow> emits_text F l (jw_Write B J v) (basic_text J v)"
  by (cases v) (simp_all add: emits_puts emits_mem emits_wstring)

text \<open>Members that depend on the format\<close>

lemma emits_text_cong:
  assumes "\<And>w c n. jw_at holds F w c n l \<Longrightarrow> m w = m' w" and "emits_text F l m' text"
  shows "emits_text F l m text"
  unfolding emits_text_def
proof (intro allI impI, elim conjE)
  fix w c n assume "jw_at holds F w c n l" "length c + length text < 2 ^ 31"
  with emits_textD [OF assms(2) this] assms(1) show "\<exists>w'. m w = Inr w' \<and> jw_at holds F w' (c @ text) n l" by simp
qed

lemma emits_colon: "emits_text F l (\<lambda>w. jw_mem B (take (if jw_pretty w then 2 else 1) [COLON, SPACE]) w)
    (if jf_pretty F then [COLON, SPACE] else [COLON])"
  by (rule emits_text_cong [OF _ emits_mem]) (simp add: jw_at_def)

lemma emits_name:
  "emits_text F l (jw_WriteName B (jf_rapidjson F) (FieldName md)) (member_text F md [])"
  unfolding jw_WriteName_def member_text_def name_text_def append_Nil2
  by (intro emits_text_seq emits_puts emits_colon)

lemma emits_indentation: "emits_text F l (jw_indentation B i) (replicate (i * jf_indent F) SPACE)"
proof (induction i)
  case (Suc i)
  have "emits_text F l (jw_spaces B) (replicate (jf_indent F) SPACE)"
    by (rule emits_text_cong [OF _ emits_mem]) (simp add: jw_at_def jw_spaces_def)
  from emits_text_seq [OF this Suc] show ?case by (simp add: replicate_add)
qed (simp add: emits_text_Nil)

lemma emits_newline: "emits_text F l (jw_NewLine B) (newline_text F l)"
proof (rule emits_text_cong)
  show "jw_NewLine B w = (if jf_pretty F then seq (jw_char B NEWLINE) (jw_indentation B l) else Inr) w"
    if "jw_at holds F w c n l" for w c n
    using that by (simp add: jw_at_def jw_NewLine_def)
  have "emits_text F l (seq (jw_char B NEWLINE) (jw_indentation B l)) ([NEWLINE] @ replicate (l * jf_indent F) SPACE)"
    by (intro emits_text_seq emits_char emits_indentation)
  then show "emits_text F l (if jf_pretty F then seq (jw_char B NEWLINE) (jw_indentation B l) else Inr) (newline_text F l)"
    by (simp add: newline_text_def emits_text_Nil)
qed

text \<open>The separator counts the item that follows it.\<close>

lemma emits_separator:
  assumes "jw_at holds F w c n l" and "n < length c" and "nl = (int n mod per_line = 0)"
    and "text = (if n = 0 then [] else separator_text F) @ (if nl then newline_text F l else [])"
    and "length c + length text < 2 ^ 31"
  shows "\<exists>w'. jw_WriteSeparator B per_line w = Inr w' \<and> jw_at holds F w' (c @ text) (n + 1) l"
proof -
  define sep where "sep = (if n = 0 then [] else separator_text F)"
  let ?sep = "if n = 0 then Inr else jw_mem B sep"
  have "emits_text F l ?sep sep" by (simp add: emits_mem emits_text_Nil sep_def)
  then obtain w1 where w1: "?sep w = Inr w1" "jw_at holds F w1 (c @ sep) n l"
    using emits_textD [OF _ assms(1), of ?sep sep] assms(4,5) by (auto simp: sep_def)
  moreover have "(if jw_count w \<noteq> 0 then jw_mem B (take (if jw_pretty w then 2 else 1) [COMMA, SPACE]) w else Inr w) = ?sep w"
    using assms(1) by (auto simp: jw_at_def sep_def separator_text_def)
  ultimately have "jw_WriteSeparator B per_line w =
      res_bind (int_inc (jw_count w1)) (\<lambda>count. (if jw_count w1 mod per_line = 0 then jw_NewLine B else Inr) (w1\<lparr>jw_count := count\<rparr>))"
    by (simp add: jw_WriteSeparator_def seq_def)
  also have "\<dots> = (if nl then jw_NewLine B else Inr) (w1\<lparr>jw_count := int n + 1\<rparr>)"
    using w1(2) assms(2,3,5) by (simp add: jw_at_def int_inc_def)
  finally have "jw_WriteSeparator B per_line w = (if nl then jw_NewLine B else Inr) (w1\<lparr>jw_count := int n + 1\<rparr>)" .
  moreover have "jw_at holds F (w1\<lparr>jw_count := int n + 1\<rparr>) (c @ sep) (n + 1) l"
    using w1(2) by (simp add: jw_at_def)
  ultimately show ?thesis
    using emits_textD [OF emits_newline, of F "w1\<lparr>jw_count := int n + 1\<rparr>" "c @ sep" "n + 1" l] assms(4,5)
    by (cases nl) (simp_all add: sep_def)
qed

text \<open>A write of a value, and of a sequence of items inside brackets\<close>

definition emits_value :: "json_format \<Rightarrow> nat \<Rightarrow> ('b SimpleJsonWriter \<Rightarrow> 'b SimpleJsonWriter res) \<Rightarrow> byte list \<Rightarrow> bool" where
  "emits_value F l m text \<longleftrightarrow>
     (\<forall>w c n. jw_at holds F w c n l \<and> n \<le> length c \<and> l \<le> length c \<and> length c + length text < 2 ^ 31 \<longrightarrow>
        (\<exists>w' n'. m w = Inr w' \<and> jw_at holds F w' (c @ text) n' l \<and> (n' = n \<or> 0 < n') \<and> n' < length (c @ text)))"

definition emits_body ::
    "(nat \<Rightarrow> bool) \<Rightarrow> json_format \<Rightarrow> nat \<Rightarrow> bool \<Rightarrow> ('b SimpleJsonWriter \<Rightarrow> 'b SimpleJsonWriter res) \<Rightarrow>
      (bool \<times> byte list) list \<Rightarrow> bool" where
  "emits_body P F l first m xs \<longleftrightarrow>
     (\<forall>w c n. jw_at holds F w c n l \<and> P n \<and> (n = 0) = first \<and> n < length c \<and> l \<le> length c \<and>
        length c + length (body_text F l first xs) < 2 ^ 31 \<longrightarrow>
        (\<exists>w' n'. m w = Inr w' \<and> jw_at holds F w' (c @ body_text F l first xs) n' l \<and> P n' \<and>
           (n' = 0) = (first \<and> xs = []) \<and> n' < length (c @ body_text F l first xs)))"

lemma emits_bodyD:
  assumes "emits_body P F l first m xs" and "jw_at holds F w c n l" and "P n" and "(n = 0) = first"
    and "n < length c" and "l \<le> length c" and "length c + length (body_text F l first xs) < 2 ^ 31"
  obtains w' n' where "m w = Inr w'" "jw_at holds F w' (c @ body_text F l first xs) n' l" "P n'"
    "(n' = 0) = (first \<and> xs = [])" "n' < length (c @ body_text F l first xs)"
  using assms unfolding emits_body_def by blast

lemma emits_text_value:
  assumes "emits_text F l m text" and "text \<noteq> []"
  shows "emits_value F l m text"
  unfolding emits_value_def
proof (intro allI impI, elim conjE)
  fix w c n assume a: "jw_at holds F w c n l" "n \<le> length c" "l \<le> length c" "length c + length text < 2 ^ 31"
  from emits_textD [OF assms(1) a(1,4)] obtain w' where "m w = Inr w'" "jw_at holds F w' (c @ text) n l" by blast
  with a(2) assms(2) show "\<exists>w' n'. m w = Inr w' \<and> jw_at holds F w' (c @ text) n' l \<and> (n' = n \<or> 0 < n') \<and> n' < length (c @ text)"
    by (intro exI [of _ w'] exI [of _ n]) (cases "text"; simp)
qed

lemma body_text_append:
  "body_text F l first (xs @ ys) = body_text F l first xs @ body_text F l (first \<and> xs = []) ys"
  by (induction F l first xs rule: body_text.induct) auto

lemma emits_body_Nil: "emits_body P F l first Inr []"
  unfolding emits_body_def by fastforce

lemma emits_body_seq:
  assumes "emits_body P F l first m xs" and "emits_body P F l (first \<and> xs = []) m' ys"
  shows "emits_body P F l first (seq m m') (xs @ ys)"
  unfolding emits_body_def
proof (intro allI impI, elim conjE)
  fix w c n
  assume at: "jw_at holds F w c n l" "P n" "(n = 0) = first" "n < length c" "l \<le> length c"
    and len: "length c + length (body_text F l first (xs @ ys)) < 2 ^ 31"
  have len1: "length c + length (body_text F l first xs) < 2 ^ 31" using len by (simp add: body_text_append)
  from emits_bodyD [OF assms(1) at len1] obtain w1 n1 where
    w1: "m w = Inr w1" "jw_at holds F w1 (c @ body_text F l first xs) n1 l" "P n1"
      "(n1 = 0) = (first \<and> xs = [])" "n1 < length (c @ body_text F l first xs)" .
  from at len have "l \<le> length (c @ body_text F l first xs)"
    "length (c @ body_text F l first xs) + length (body_text F l (first \<and> xs = []) ys) < 2 ^ 31"
    by (simp_all add: body_text_append)
  from emits_bodyD [OF assms(2) w1(2-5) this] obtain w2 n2 where
    w2: "m' w1 = Inr w2" "jw_at holds F w2 ((c @ body_text F l first xs) @ body_text F l (first \<and> xs = []) ys) n2 l"
      "P n2" "(n2 = 0) = ((first \<and> xs = []) \<and> ys = [])"
      "n2 < length ((c @ body_text F l first xs) @ body_text F l (first \<and> xs = []) ys)" .
  from w1(1) w2 show "\<exists>w' n'. seq m m' w = Inr w' \<and> jw_at holds F w' (c @ body_text F l first (xs @ ys)) n' l \<and> P n' \<and>
           (n' = 0) = (first \<and> xs @ ys = []) \<and> n' < length (c @ body_text F l first (xs @ ys))"
    by (intro exI [of _ w2] exI [of _ n2]) (simp add: seq_def body_text_append)
qed

lemma emits_item:
  assumes "emits_value F l m t"
  shows "emits_body (\<lambda>_. True) F l first (seq (jw_WriteSeparator B 1) m) [(True, t)]"
  unfolding emits_body_def
proof (intro allI impI, elim conjE)
  fix w c n
  assume at: "jw_at holds F w c n l" "(n = 0) = first" "n < length c" "l \<le> length c"
    and len: "length c + length (body_text F l first [(True, t)]) < 2 ^ 31"
  define sp where "sp = (if n = 0 then [] else separator_text F) @ newline_text F l"
  have body: "body_text F l first [(True, t)] = sp @ t" using at(2) by (auto simp: sp_def)
  obtain w1 where w1: "jw_WriteSeparator B 1 w = Inr w1" "jw_at holds F w1 (c @ sp) (n + 1) l"
    using emits_separator [OF at(1,3), of True 1 sp] len unfolding body by (auto simp: sp_def)
  have "n + 1 \<le> length (c @ sp)" "l \<le> length (c @ sp)" "length (c @ sp) + length t < 2 ^ 31"
    using at len unfolding body by simp_all
  with assms w1(2) obtain w2 n2 where "m w1 = Inr w2" "jw_at holds F w2 ((c @ sp) @ t) n2 l" "n2 = n + 1 \<or> 0 < n2"
    "n2 < length ((c @ sp) @ t)" unfolding emits_value_def by blast
  then show "\<exists>w' n'. seq (jw_WriteSeparator B 1) m w = Inr w' \<and> jw_at holds F w' (c @ body_text F l first [(True, t)]) n' l \<and> True \<and>
           (n' = 0) = (first \<and> [(True, t)] = []) \<and> n' < length (c @ body_text F l first [(True, t)])"
    unfolding body using w1(1) by (intro exI [of _ w2] exI [of _ n2]) (auto simp: seq_def)
qed

text \<open>A pair of basic values stays on one line: the count is even before it and after it.\<close>

lemma emits_text_item:
  assumes "emits_text F l m t" and "jw_at holds F w c n l" and "n < length c" and "nl = (int n mod per_line = 0)"
    and "length c + length (body_text F l (n = 0) [(nl, t)]) < 2 ^ 31"
  shows "\<exists>w'. seq (jw_WriteSeparator B per_line) m w = Inr w' \<and>
    jw_at holds F w' (c @ body_text F l (n = 0) [(nl, t)]) (n + 1) l"
proof -
  define sp where "sp = (if n = 0 then [] else separator_text F) @ (if nl then newline_text F l else [])"
  have body: "body_text F l (n = 0) [(nl, t)] = sp @ t" by (simp add: sp_def)
  obtain w1 where w1: "jw_WriteSeparator B per_line w = Inr w1" "jw_at holds F w1 (c @ sp) (n + 1) l"
    using emits_separator [OF assms(2,3,4) sp_def] assms(5) unfolding body by auto
  then show ?thesis using emits_textD [OF assms(1) w1(2)] assms(5) unfolding body by (auto simp: seq_def)
qed

lemma emits_pair:
  assumes "emits_text F l mk tk" and "emits_text F l mv tv" and "tk \<noteq> []" and "tv \<noteq> []"
  shows "emits_body even F l first (seq (seq (jw_WriteSeparator B 1) mk) (seq (jw_WriteSeparator B 2) mv))
    [(True, tk), (False, tv)]"
  unfolding emits_body_def
proof (intro allI impI, elim conjE)
  fix w c n
  assume at: "jw_at holds F w c n l" "even n" "(n = 0) = first" "n < length c" "l \<le> length c"
    and len: "length c + length (body_text F l first [(True, tk), (False, tv)]) < 2 ^ 31"
  have split: "body_text F l first [(True, tk), (False, tv)] =
      body_text F l (n = 0) [(True, tk)] @ body_text F l (n + 1 = 0) [(False, tv)]"
    using at(3) by auto
  obtain w1 where w1: "seq (jw_WriteSeparator B 1) mk w = Inr w1"
      "jw_at holds F w1 (c @ body_text F l (n = 0) [(True, tk)]) (n + 1) l"
    using emits_text_item [OF assms(1) at(1,4), of True 1] len unfolding split by auto
  have "n + 1 < length (c @ body_text F l (n = 0) [(True, tk)])" using at(4) assms(3) by (cases tk) auto
  moreover have "int (n + 1) mod 2 \<noteq> 0" using at(2) by presburger
  ultimately obtain w2 where w2: "seq (jw_WriteSeparator B 2) mv w1 = Inr w2"
      "jw_at holds F w2 ((c @ body_text F l (n = 0) [(True, tk)]) @ body_text F l (n + 1 = 0) [(False, tv)]) (n + 1 + 1) l"
    using emits_text_item [OF assms(2) w1(2), of False 2] len unfolding split by auto
  have "n + 1 + 1 < length (c @ body_text F l first [(True, tk), (False, tv)])"
    using at(4) assms(3,4) by (cases tk; cases tv) auto
  with w1(1) w2 at(2) show "\<exists>w' n'. seq (seq (jw_WriteSeparator B 1) mk) (seq (jw_WriteSeparator B 2) mv) w = Inr w' \<and>
      jw_at holds F w' (c @ body_text F l first [(True, tk), (False, tv)]) n' l \<and> even n' \<and>
      (n' = 0) = (first \<and> [(True, tk), (False, tv)] = []) \<and> n' < length (c @ body_text F l first [(True, tk), (False, tv)])"
    unfolding split by (intro exI [of _ w2] exI [of _ "n + 1 + 1"]) (simp add: seq_def)
qed

text \<open>Brackets\<close>

lemma emits_brackets:
  assumes "\<And>w c. jw_at holds F w c 0 (l + 1) \<Longrightarrow> 0 < length c \<Longrightarrow> l + 1 \<le> length c \<Longrightarrow>
      length c + length (body_text F (l + 1) True xs) < 2 ^ 31 \<Longrightarrow>
      \<exists>w' n'. m w = Inr w' \<and> jw_at holds F w' (c @ body_text F (l + 1) True xs) n' (l + 1) \<and>
        n' < length (c @ body_text F (l + 1) True xs)"
  shows "emits_value F l (seq (jw_WriteOpen B left) (seq m (jw_WriteClose B right))) (block_text F l left right xs)"
  unfolding emits_value_def
proof (intro allI impI, elim conjE)
  fix w c n
  assume at: "jw_at holds F w c n l" "n \<le> length c" "l \<le> length c"
    and len: "length c + length (block_text F l left right xs) < 2 ^ 31"
  define body where "body = body_text F (l + 1) True xs"
  have bt: "block_text F l left right xs = [left] @ body @ newline_text F l @ [right]"
    by (simp add: block_text_def body_def)
  obtain w0 where w0: "jw_char B left w = Inr w0" "jw_at holds F w0 (c @ [left]) n l"
    using emits_textD [OF emits_char at(1), of left] len unfolding bt by auto
  define w1 where "w1 = w0\<lparr>jw_level := int l + 1, jw_count := 0\<rparr>"
  have op: "jw_WriteOpen B left w = Inr w1"
    using w0 at(3) len unfolding bt by (simp add: jw_WriteOpen_def seq_def int_inc_def jw_at_def w1_def)
  have at1: "jw_at holds F w1 (c @ [left]) 0 (l + 1)" using w0(2) by (simp add: jw_at_def w1_def)
  have "0 < length (c @ [left])" "l + 1 \<le> length (c @ [left])"
    "length (c @ [left]) + length (body_text F (l + 1) True xs) < 2 ^ 31"
    using at(3) len unfolding bt body_def by simp_all
  from assms [OF at1 this] obtain w2 n2 where
    w2: "m w1 = Inr w2" "jw_at holds F w2 ((c @ [left]) @ body) n2 (l + 1)" "n2 < length ((c @ [left]) @ body)"
    unfolding body_def by blast
  define w3 where "w3 = w2\<lparr>jw_level := int l, jw_count := int n2 + 1\<rparr>"
  have at3: "jw_at holds F w3 ((c @ [left]) @ body) (n2 + 1) l" using w2(2) by (simp add: jw_at_def w3_def)
  have cl: "jw_WriteClose B right w2 = seq (jw_NewLine B) (jw_char B right) w3"
    using w2(2,3) len unfolding bt
    by (simp add: jw_WriteClose_def seq_def int_dec_def int_inc_def jw_at_def w3_def)
  have "length ((c @ [left]) @ body) + length (newline_text F l @ [right]) < 2 ^ 31"
    using len unfolding bt by simp
  from emits_textD [OF emits_text_seq [OF emits_newline emits_char] at3 this] obtain w4 where
    w4: "seq (jw_NewLine B) (jw_char B right) w3 = Inr w4"
      "jw_at holds F w4 (((c @ [left]) @ body) @ newline_text F l @ [right]) (n2 + 1) l" by blast
  show "\<exists>w' n'. seq (jw_WriteOpen B left) (seq m (jw_WriteClose B right)) w = Inr w' \<and>
      jw_at holds F w' (c @ block_text F l left right xs) n' l \<and> (n' = n \<or> 0 < n') \<and>
      n' < length (c @ block_text F l left right xs)"
    using op w2(1,3) cl w4 unfolding bt by (intro exI [of _ w4] exI [of _ "n2 + 1"]) (simp add: seq_def)
qed

lemma emits_block:
  assumes "emits_body P F (l + 1) True m xs" and "P 0"
  shows "emits_value F l (seq (jw_WriteOpen B left) (seq m (jw_WriteClose B right))) (block_text F l left right xs)"
proof (rule emits_brackets)
  fix w c assume "jw_at holds F w c 0 (l + 1)" "0 < length c" "l + 1 \<le> length c"
    "length c + length (body_text F (l + 1) True xs) < 2 ^ 31"
  then show "\<exists>w' n'. m w = Inr w' \<and> jw_at holds F w' (c @ body_text F (l + 1) True xs) n' (l + 1) \<and>
        n' < length (c @ body_text F (l + 1) True xs)"
    using emits_bodyD [OF assms(1) _ assms(2), of w c] by blast
qed

text \<open>The serializer\<close>

lemma emits_body_cong:
  assumes "\<And>w c n. jw_at holds F w c n l \<Longrightarrow> m w = m' w" and "emits_body P F l first m' xs"
  shows "emits_body P F l first m xs"
  unfolding emits_body_def
proof (intro allI impI, elim conjE)
  fix w c n
  assume at: "jw_at holds F w c n l" "P n" "(n = 0) = first" "n < length c" "l \<le> length c"
    "length c + length (body_text F l first xs) < 2 ^ 31"
  from emits_bodyD [OF assms(2) at] obtain w' n' where "m' w = Inr w'" "jw_at holds F w' (c @ body_text F l first xs) n' l"
    "P n'" "(n' = 0) = (first \<and> xs = [])" "n' < length (c @ body_text F l first xs)" .
  then show "\<exists>w' n'. m w = Inr w' \<and> jw_at holds F w' (c @ body_text F l first xs) n' l \<and> P n' \<and>
           (n' = 0) = (first \<and> xs = []) \<and> n' < length (c @ body_text F l first xs)"
    using assms(1) [OF at(1)] by (intro exI [of _ w'] exI [of _ n']) simp
qed

lemma emits_text_then_value:
  assumes "emits_text F l m a" and "emits_value F l m' b"
  shows "emits_value F l (seq m m') (a @ b)"
  unfolding emits_value_def
proof (intro allI impI, elim conjE)
  fix w c n
  assume at: "jw_at holds F w c n l" "n \<le> length c" "l \<le> length c" and len: "length c + length (a @ b) < 2 ^ 31"
  obtain w1 where w1: "m w = Inr w1" "jw_at holds F w1 (c @ a) n l"
    using emits_textD [OF assms(1) at(1)] len by auto
  have "n \<le> length (c @ a)" "l \<le> length (c @ a)" "length (c @ a) + length b < 2 ^ 31" using at len by simp_all
  with assms(2) w1(2) obtain w2 n2 where "m' w1 = Inr w2" "jw_at holds F w2 ((c @ a) @ b) n2 l"
    "n2 = n \<or> 0 < n2" "n2 < length ((c @ a) @ b)" unfolding emits_value_def by blast
  with w1(1) show "\<exists>w' n'. seq m m' w = Inr w' \<and> jw_at holds F w' (c @ a @ b) n' l \<and> (n' = n \<or> 0 < n') \<and>
      n' < length (c @ a @ b)" by (intro exI [of _ w2] exI [of _ n2]) (simp add: seq_def)
qed

lemma emits_member:
  assumes "emits_value F l m t"
  shows "emits_body (\<lambda>_. True) F l first (seq (js_WriteName B (jf_rapidjson F) (FieldName md)) m)
    [(True, member_text F md t)]"
proof -
  have "member_text F md t = member_text F md [] @ t" by (simp add: member_text_def)
  with emits_item [OF emits_text_then_value [OF emits_name assms], of first md] show ?thesis
    by (simp add: js_WriteName_def seq_assoc)
qed

lemma emits_bytes:
  assumes "writes_json (jf_rapidjson F)"
  shows "emits_body (\<lambda>_. True) F l first (js_WriteBytes B (jf_rapidjson F) bs)
    (map (\<lambda>c. (True, basic_text (jf_rapidjson F) (VInt8 c))) bs)"
proof (induction bs arbitrary: first)
  case (Cons c bs)
  have "emits_value F l (jw_Write B (jf_rapidjson F) (VInt8 c)) (basic_text (jf_rapidjson F) (VInt8 c))"
    using basic_text_not_Nil [OF assms, of "VInt8 c"] by (intro emits_text_value emits_basic) simp_all
  from emits_body_seq [OF emits_item [OF this] Cons.IH] show ?case by (simp add: seq_assoc)
qed (simp add: emits_body_Nil)

lemma emits_basic_value:
  assumes "writes_json (jf_rapidjson F)" and "is_basic v" and "json_value v"
  shows "emits_text F l (js_Write B (jf_rapidjson F) v) (value_text F l v)" and "value_text F l v \<noteq> []"
  using assms emits_basic basic_text_not_Nil by (simp_all add: js_Write_basic value_text_basic)

lemma emits_basic_json:
  "writes_json (jf_rapidjson F) \<Longrightarrow> is_basic v \<Longrightarrow> json_value v \<Longrightarrow>
    emits_value F l (js_Write B (jf_rapidjson F) v) (value_text F l v)"
  by (intro emits_text_value emits_basic_value)

lemma emits_list:
  assumes "emits_body (\<lambda>_. True) F (l + 1) True (js_WriteItems B (jf_rapidjson F) vs) (items_text F (l + 1) vs)"
  shows "emits_value F l (js_Write B (jf_rapidjson F) (VList t vs)) (value_text F l (VList t vs))"
    and "emits_value F l (js_Write B (jf_rapidjson F) (VSet t vs)) (value_text F l (VSet t vs))"
  unfolding js_Write.simps value_text.simps by (rule emits_block [OF assms TrueI])+

lemma emits_blob:
  assumes "writes_json (jf_rapidjson F)"
  shows "emits_value F l (js_Write B (jf_rapidjson F) (VBlob b)) (value_text F l (VBlob b))"
  unfolding js_Write.simps value_text.simps by (rule emits_block [OF emits_bytes [OF assms] TrueI])

lemma emits_basic_pair:
  assumes "writes_json (jf_rapidjson F)" and "is_basic k" and "json_value k" and "is_basic v" and "json_value v"
    and "emits_body even F l False (js_WritePairs B (jf_rapidjson F) 2 kvs) (pairs_text F l False kvs)"
  shows "emits_body even F l first (js_WritePairs B (jf_rapidjson F) 2 ((k, v) # kvs)) (pairs_text F l False ((k, v) # kvs))"
proof -
  have "emits_body even F l first
      (seq (seq (jw_WriteSeparator B 1) (js_Write B (jf_rapidjson F) k)) (seq (jw_WriteSeparator B 2) (js_Write B (jf_rapidjson F) v)))
      [(True, value_text F l k), (False, value_text F l v)]"
    by (intro emits_pair emits_basic_value assms)
  from emits_body_seq [OF this] assms(6) show ?thesis by (simp add: seq_assoc)
qed

lemma emits_complex_pair:
  assumes "emits_value F l (js_Write B (jf_rapidjson F) k) (value_text F l k)"
    and "emits_value F l (js_Write B (jf_rapidjson F) v) (value_text F l v)"
    and "emits_body (\<lambda>_. True) F l False (js_WritePairs B (jf_rapidjson F) 1 kvs) (pairs_text F l True kvs)"
  shows "emits_body (\<lambda>_. True) F l first (js_WritePairs B (jf_rapidjson F) 1 ((k, v) # kvs)) (pairs_text F l True ((k, v) # kvs))"
  using emits_body_seq [OF emits_item [OF assms(1)] emits_body_seq [OF emits_item [OF assms(2)]], of first] assms(3)
  by (simp add: seq_assoc)

lemma emits_field:
  assumes "emits_value F l (js_Write B (jf_rapidjson F) v) (value_text F l v)"
  shows "emits_body (\<lambda>_. True) F l first (js_Field B (jf_rapidjson F) (Field fid md v)) (field_text F l (Field fid md v))"
    and "emits_body (\<lambda>_. True) F l first (js_Field B (jf_rapidjson F) (MaybeField fid md t (Some v)))
      (field_text F l (MaybeField fid md t (Some v)))"
proof -
  show "emits_body (\<lambda>_. True) F l first (js_Field B (jf_rapidjson F) (Field fid md v)) (field_text F l (Field fid md v))"
  proof (rule emits_body_cong)
    show "js_Field B (jf_rapidjson F) (Field fid md v) w =
        (if jf_all_fields F \<or> \<not> omit_field True md v
         then seq (js_WriteName B (jf_rapidjson F) (FieldName md)) (js_Write B (jf_rapidjson F) v) else Inr) w"
      if "jw_at holds F w c n l" for w c n
      using that by (simp add: jw_at_def)
  qed (simp add: emits_member [OF assms] emits_body_Nil)
qed (simp add: emits_member [OF assms])

lemma emits_serialized:
  assumes J: "writes_json (jf_rapidjson F)"
  shows "json_value v \<Longrightarrow> emits_value F l (js_Write B (jf_rapidjson F) v) (value_text F l v)"
    and "json_items vs \<Longrightarrow>
      emits_body (\<lambda>_. True) F l first (js_WriteItems B (jf_rapidjson F) vs) (items_text F l vs)"
    and "json_pairs t kvs \<Longrightarrow>
      emits_body (if is_basic_tag t then even else (\<lambda>_. True)) F l first
        (js_WritePairs B (jf_rapidjson F) (if is_basic_tag t then 2 else 1) kvs) (pairs_text F l (\<not> is_basic_tag t) kvs)"
    and "json_field f \<Longrightarrow>
      emits_body (\<lambda>_. True) F l first (js_Field B (jf_rapidjson F) f) (field_text F l f)"
    and "json_fields fs \<Longrightarrow>
      emits_body (\<lambda>_. True) F l first (js_Fields B (jf_rapidjson F) fs) (fields_text F l fs)"
    and "json_struct s \<Longrightarrow>
      emits_body (\<lambda>_. True) F l first (js_members B (jf_rapidjson F) s) (members_text F l s)"
proof (induction v and vs and t kvs and f and fs and s
    arbitrary: l and l first and l first and l first and l first and l first
    rule: json_value_json_items_json_pairs_json_field_json_fields_json_struct.induct)
  case (5 k t kvs)
  then have "emits_body (if is_basic_tag t then even else (\<lambda>_. True)) F (l + 1) True
      (js_WritePairs B (jf_rapidjson F) (if is_basic_tag t then 2 else 1) kvs) (pairs_text F (l + 1) (\<not> is_basic_tag t) kvs)"
    by simp
  then show ?case unfolding js_Write.simps value_text.simps by (rule emits_block) simp
next
  case (6 s)
  then have "emits_value F l
      (seq (jw_WriteOpen B LBRACE) (seq (js_members B (jf_rapidjson F) s) (jw_WriteClose B RBRACE)))
      (block_text F l LBRACE RBRACE (members_text F (l + 1) s))"
    by (intro emits_block [where P = "\<lambda>_. True"]) simp_all
  then show ?case using 6 by (simp add: js_Write_struct del: js_Write.simps)
next
  case "7_12"
  show ?case by (rule emits_blob [OF J])
next
  case (9 v vs)
  then show ?case using emits_body_seq [OF emits_item] by (simp add: seq_assoc)
next
  case (11 t k v kvs)
  then have kv: "is_basic k" "json_value k" "json_value v" "GetTypeId v = t" "json_pairs t kvs" by simp_all
  show ?case
  proof (cases "is_basic_tag t")
    case True
    with kv have "is_basic v" by (auto simp: is_basic_tag_GetTypeId)
    then show ?thesis using emits_basic_pair [OF J kv(1,2) _ kv(3)] "11.IH"(3) [OF kv(5), of l False] True by simp
  next
    case False
    then show ?thesis
      using emits_complex_pair [OF "11.IH"(1) [OF kv(2)] "11.IH"(2) [OF kv(3)]] "11.IH"(3) [OF kv(5), of l False] by simp
  qed
next
  case (12 fid md v)
  then show ?case by (intro emits_field) simp
next
  case (14 fid md t v)
  then show ?case by (intro emits_field) simp
next
  case (16 f fs)
  then show ?case unfolding js_Fields.simps fields_text.simps by (intro emits_body_seq) simp_all
next
  case (18 md b fs)
  then show ?case unfolding js_members.simps members_text.simps by (intro emits_body_seq) simp_all
qed (simp_all add: emits_list emits_basic_json [OF J] emits_body_Nil del: js_Write.simps value_text.simps)

lemma emits_nullable:
  assumes "writes_json (jf_rapidjson F)" and "case x of None \<Rightarrow> True | Some v \<Rightarrow> json_value v"
  shows "emits_value F l (js_WriteNullable B (jf_rapidjson F) x) (nullable_text F l x)"
proof (cases x)
  case None
  have "emits_value F l (jw_mem B null_text) null_text"
    by (intro emits_text_value emits_mem) (simp add: null_text_def)
  with None show ?thesis by (simp add: js_WriteNullable_def jw_WriteNull_def nullable_text_def)
next
  case (Some v)
  with assms(2) have v: "json_value v" by simp
  have "emits_value F l (seq (jw_WriteOpen B LBRACK) (seq (js_Write B (jf_rapidjson F) v) (jw_WriteClose B RBRACK)))
      (block_text F l LBRACK RBRACK [(False, value_text F (l + 1) v)])"
  proof (rule emits_brackets)
    fix w c assume "jw_at holds F w c 0 (l + 1)" "0 < length c" "l + 1 \<le> length c"
      "length c + length (body_text F (l + 1) True [(False, value_text F (l + 1) v)]) < 2 ^ 31"
    then show "\<exists>w' n'. js_Write B (jf_rapidjson F) v w = Inr w' \<and>
        jw_at holds F w' (c @ body_text F (l + 1) True [(False, value_text F (l + 1) v)]) n' (l + 1) \<and>
        n' < length (c @ body_text F (l + 1) True [(False, value_text F (l + 1) v)])"
      using emits_serialized(1) [OF assms(1) v, of "l + 1"] unfolding emits_value_def by fastforce
  qed
  with Some show ?thesis by (simp add: js_WriteNullable_def nullable_text_def)
qed

lemma emits_Serialize:
  assumes "writes_json (jf_rapidjson F)" and "json_value (VStruct s)" and "jw_at holds F w c 0 0"
    and "length c + length (value_text F 0 (VStruct s)) < 2 ^ 31"
  shows "\<exists>w'. js_Serialize B (jf_rapidjson F) s w = Inr w' \<and> holds (jw_output w') (c @ value_text F 0 (VStruct s))"
  using emits_serialized(1) [OF assms(1,2), of 0] assms(3,4) unfolding js_Serialize_def emits_value_def jw_at_def
  by fastforce

text \<open>An omitted list or set is written as the empty array, an omitted map as the empty object.\<close>

lemma emits_omitted:
  assumes "writes_json (jf_rapidjson F)"
  shows "t \<in> {BT_LIST, BT_SET} \<Longrightarrow> emits_body (\<lambda>_. True) F l first (js_OmittedValue B (jf_rapidjson F) fid md t)
      [(True, member_text F md (block_text F l LBRACK RBRACK []))]"
    and "emits_body (\<lambda>_. True) F l first (js_OmittedValue B (jf_rapidjson F) fid md BT_MAP)
      [(True, member_text F md (block_text F l LBRACE RBRACE []))]"
proof -
  have block: "emits_value F l (seq (jw_WriteOpen B left) (jw_WriteClose B right)) (block_text F l left right [])" for left right
    using emits_block [OF emits_body_Nil [where P = "\<lambda>_. True"], where F = F and l = l] by simp
  show "t \<in> {BT_LIST, BT_SET} \<Longrightarrow> emits_body (\<lambda>_. True) F l first (js_OmittedValue B (jf_rapidjson F) fid md t)
      [(True, member_text F md (block_text F l LBRACK RBRACK []))]"
    using emits_member [OF block, of first md LBRACK RBRACK] by auto
  show "emits_body (\<lambda>_. True) F l first (js_OmittedValue B (jf_rapidjson F) fid md BT_MAP)
      [(True, member_text F md (block_text F l LBRACE RBRACE []))]"
    unfolding js_OmittedValue.simps by (rule emits_member [OF block])
qed

end

end
