(* ===== verification/Json_Roundtrip.thy ===== *)
theory Json_Roundtrip
  imports Json_Reader Json_Writer_Correct Roundtrip
begin

text \<open>
  Simple JSON can be read back. RapidJSON makes a document of a text; what is relied on of it is that
  the document has the structure of the tree that the text denotes, and that numbers and strings read
  as the values they were written for (\<open>reads_json\<close>). An instance that conforms to its schema, whose
  member names are distinct and whose floating point numbers RapidJSON reads back exactly, is the
  instance that the DOM parser makes of the document of its tree.
\<close>

section \<open>What is relied on of RapidJSON\<close>

text \<open>UTF-16 in which every surrogate is one of a pair\<close>

fun utf16_ok :: "u16 list \<Rightarrow> bool" where
  "utf16_ok [] = True"
| "utf16_ok (u # us) =
     (if 0xd800 \<le> u \<and> u < 0xdc00
      then (case us of [] \<Rightarrow> False | l # us' \<Rightarrow> 0xdc00 \<le> l \<and> l < 0xe000 \<and> utf16_ok us')
      else \<not> (0xdc00 \<le> u \<and> u < 0xe000) \<and> utf16_ok us)"

definition reads_signed :: "'j rapidjson_value \<Rightarrow> u64 \<Rightarrow> 'j \<Rightarrow> bool" where
  "reads_signed D x j \<longleftrightarrow> rv_IsInt64 D j \<and> rv_GetInt64 D j = x \<and>
     (- (2 ^ 31) \<le> sint x \<and> sint x < 2 ^ 31 \<longrightarrow> rv_IsInt D j \<and> rv_GetInt D j = ucast x)"

definition reads_unsigned :: "'j rapidjson_value \<Rightarrow> u64 \<Rightarrow> 'j \<Rightarrow> bool" where
  "reads_unsigned D x j \<longleftrightarrow> rv_IsUint64 D j \<and> rv_GetUint64 D j = x \<and> (unat x < 2 ^ 32 \<longrightarrow> rv_IsUint D j)"

definition reads_json :: "'j rapidjson_value \<Rightarrow> rapidjson_writer \<Rightarrow> (json \<Rightarrow> 'j) \<Rightarrow> bool" where
  "reads_json D J doc \<longleftrightarrow>
     (\<forall>b. rv_IsBool D (doc (JBool b)) \<and> rv_GetBool D (doc (JBool b)) = b \<and> rv_IsTrue D (doc (JBool b)) = b) \<and>
     (\<forall>x. reads_signed D x (doc (JNumber (rj_WriteInt64 J x)))) \<and>
     (\<forall>x. reads_unsigned D x (doc (JNumber (rj_WriteUint64 J x)))) \<and>
     (\<forall>d. double_is_finite d \<longrightarrow> rv_IsNumber D (doc (JNumber (rj_WriteDouble J d)))) \<and>
     (\<forall>s. rv_IsString D (doc (JString (literal_chars (rj_WriteString J s)))) \<and>
          rv_GetString D (doc (JString (literal_chars (rj_WriteString J s)))) = s) \<and>
     (\<forall>cs us. string_units cs = Some us \<and> utf16_ok us \<longrightarrow>
          rv_IsString D (doc (JString cs)) \<and> rv_utf_to_utf D (rv_GetString D (doc (JString cs))) = Some us) \<and>
     (\<forall>vs. rv_IsArray D (doc (JArray vs)) \<and> rv_Elements D (doc (JArray vs)) = map doc vs) \<and>
     (\<forall>ms. rv_IsObject D (doc (JObject ms)) \<and>
          rv_Members D (doc (JObject ms)) = map (\<lambda>(k, v). (rv_GetString D (doc (JString k)), doc v)) ms)"

section \<open>Instances that can be read back\<close>

text \<open>
  Basic values that RapidJSON reads exactly; structs whose member names are distinct, as C strings,
  over all the bases, and no decimal numbers.
\<close>

fun basic_exact :: "'j rapidjson_value \<Rightarrow> rapidjson_writer \<Rightarrow> (json \<Rightarrow> 'j) \<Rightarrow> bvalue \<Rightarrow> bool" where
  "basic_exact D J doc (VFloat x) =
     (double_is_finite (float_to_double x) \<and>
      double_to_float (rv_GetDouble D (doc (JNumber (rj_WriteDouble J (float_to_double x))))) = x)"
| "basic_exact D J doc (VDouble x) =
     (double_is_finite x \<and> rv_GetDouble D (doc (JNumber (rj_WriteDouble J x))) = x)"
| "basic_exact D J doc (VWString s) = utf16_ok (map ucast s)"
| "basic_exact D J doc v = True"

fun hierarchy_fields :: "sschema \<Rightarrow> fdef list" where
  "hierarchy_fields (Schema md None fs) = fs"
| "hierarchy_fields (Schema md (Some b) fs) = hierarchy_fields b @ fs"

definition field_key :: "fdef \<Rightarrow> byte list" where
  "field_key fd = c_str (bytes_of_string (FieldName (fd_metadata fd)))"

definition json_names_ok :: "'j rapidjson_value \<Rightarrow> fdef list \<Rightarrow> bool" where
  "json_names_ok D fds \<longleftrightarrow> distinct (map field_key fds) \<and> list_all (\<lambda>fd. rv_lexical_uint16 D (field_key fd) = None) fds"

function (sequential) json_exact ::
    "'j rapidjson_value \<Rightarrow> rapidjson_writer \<Rightarrow> (json \<Rightarrow> 'j) \<Rightarrow> btype \<Rightarrow> bvalue \<Rightarrow> bool"
  and json_exact_fields ::
    "'j rapidjson_value \<Rightarrow> rapidjson_writer \<Rightarrow> (json \<Rightarrow> 'j) \<Rightarrow> fdef list \<Rightarrow> bfield list \<Rightarrow> bool"
  and json_exact_struct ::
    "'j rapidjson_value \<Rightarrow> rapidjson_writer \<Rightarrow> (json \<Rightarrow> 'j) \<Rightarrow> sschema \<Rightarrow> bstruct \<Rightarrow> bool" where
  "json_exact D J doc (TBasic t) v = basic_exact D J doc v"
| "json_exact D J doc TBlob v = True"
| "json_exact D J doc (TNullable e) v = False"
| "json_exact D J doc (TList e) v = list_all (json_exact D J doc e) (items_of v)"
| "json_exact D J doc (TSet t) v = list_all (basic_exact D J doc) (items_of v)"
| "json_exact D J doc (TMap k e) v =
     (case v of VMap kt t kvs \<Rightarrow> list_all (\<lambda>(x, y). basic_exact D J doc x \<and> json_exact D J doc e y) kvs
      | _ \<Rightarrow> True)"
| "json_exact D J doc (TStruct s) v =
     (json_names_ok D (hierarchy_fields s) \<and> json_exact_struct D J doc s (struct_of v))"
| "json_exact_fields D J doc (FieldDef fid md mb t # fs) (f # vs) =
     (json_exact_fields D J doc fs vs \<and>
      (case f of
         Field fid' md' v \<Rightarrow> json_exact D J doc t v
       | MaybeField fid' md' t' v \<Rightarrow> (case v of None \<Rightarrow> True | Some v \<Rightarrow> json_exact D J doc t v)))"
| "json_exact_fields D J doc fs vs = True"
| "json_exact_struct D J doc (Schema md None fs) x = json_exact_fields D J doc fs (fields_of x)"
| "json_exact_struct D J doc (Schema md (Some b) fs) x =
     (json_exact_fields D J doc fs (fields_of x) \<and> json_exact_struct D J doc b (the (base_of x)))"
  by pat_completeness auto
termination
  by (relation "measure (case_sum (\<lambda>(D, J, doc, t, v). size t)
      (case_sum (\<lambda>(D, J, doc, fs, vs). size_list size fs) (\<lambda>(D, J, doc, s, x). size s)))") auto

section \<open>Basic values\<close>

lemma reads_jsonD:
  assumes "reads_json D J doc"
  shows "rv_IsBool D (doc (JBool b))" "rv_GetBool D (doc (JBool b)) = b" "rv_IsTrue D (doc (JBool b)) = b"
    and "reads_signed D x (doc (JNumber (rj_WriteInt64 J x)))"
    and "reads_unsigned D x (doc (JNumber (rj_WriteUint64 J x)))"
    and "double_is_finite d \<Longrightarrow> rv_IsNumber D (doc (JNumber (rj_WriteDouble J d)))"
    and "rv_IsString D (doc (JString (literal_chars (rj_WriteString J s))))"
    and "rv_GetString D (doc (JString (literal_chars (rj_WriteString J s)))) = s"
    and "string_units cs = Some us \<Longrightarrow> utf16_ok us \<Longrightarrow> rv_IsString D (doc (JString cs))"
    and "string_units cs = Some us \<Longrightarrow> utf16_ok us \<Longrightarrow> rv_utf_to_utf D (rv_GetString D (doc (JString cs))) = Some us"
    and "rv_IsArray D (doc (JArray vs))" "rv_Elements D (doc (JArray vs)) = map doc vs"
    and "rv_IsObject D (doc (JObject ms))"
    and "rv_Members D (doc (JObject ms)) = map (\<lambda>(k, v). (rv_GetString D (doc (JString k)), doc v)) ms"
  using assms unfolding reads_json_def by blast+

lemma sint_scast_small:
  "- (2 ^ 31) \<le> sint (scast (x :: u8) :: u64)" "sint (scast (x :: u8) :: u64) < 2 ^ 31"
  "- (2 ^ 31) \<le> sint (scast (y :: u16) :: u64)" "sint (scast (y :: u16) :: u64) < 2 ^ 31"
  "- (2 ^ 31) \<le> sint (scast (z :: u32) :: u64)" "sint (scast (z :: u32) :: u64) < 2 ^ 31"
  using sint_ge [of x] sint_lt [of x] sint_ge [of y] sint_lt [of y] sint_ge [of z] sint_lt [of z]
  by (simp_all add: sint_up_scast is_up)

lemma narrow_signed:
  "ucast (scast (x :: u8) :: u64) = x" "ucast (scast (y :: u16) :: u64) = y" "ucast (scast (z :: u32) :: u64) = z"
  "ucast (ucast (scast (x :: u8) :: u64) :: u32) = x"
  by (rule bit_word_eqI; simp add: bit_simps)+

lemma narrow_unsigned:
  "ucast (ucast (x :: u8) :: u64) = x" "ucast (ucast (y :: u16) :: u64) = y" "ucast (ucast (z :: u32) :: u64) = z"
  by (rule bit_word_eqI; simp add: bit_simps)+

lemma unat_ucast_small:
  "unat (ucast (x :: u8) :: u64) < 2 ^ 32" "unat (ucast (y :: u16) :: u64) < 2 ^ 32" "unat (ucast (z :: u32) :: u64) < 2 ^ 32"
  using unsigned_less [of x, where ?'a = nat] unsigned_less [of y, where ?'a = nat] unsigned_less [of z, where ?'a = nat]
  by (simp_all add: unsigned_ucast_eq take_bit_nat_eq_self)

lemma wide_units: "\<forall>c \<in> set s. unat (c :: u32) < 2 ^ 16 \<Longrightarrow> map (\<lambda>c. ucast (ucast c :: u16)) s = s"
proof (induction s)
  case (Cons c s)
  then have "unat (ucast c :: u16) = unat c" by (simp add: unsigned_ucast_eq take_bit_nat_eq_self)
  then have "ucast (ucast c :: u16) = c" by (simp add: word_unat_eq_iff unsigned_ucast_eq unsigned_take_bit_eq take_bit_nat_eq_self)
  with Cons show ?case by simp
qed simp

lemma json_Read_exact:
  assumes J: "reads_json D (jf_rapidjson F) doc" and "is_basic x" and "basic_exact D (jf_rapidjson F) doc x" and "wf_value mo x"
  shows "json_Read D (GetTypeId x) (doc (value_tree F x)) = Inr x"
    and "BasicTypeMatch D (JsonTypeMatching_init (GetTypeId x) (GetTypeId x) False) (doc (value_tree F x))"
proof -
  note signed = reads_jsonD(4) [OF J, unfolded reads_signed_def]
  note unsigned = reads_jsonD(5) [OF J, unfolded reads_unsigned_def]
  note simps = json_Read_bool_def json_Read_float_def json_Read_signed_def json_Read_unsigned_def json_Read_string_def
    json_Read_wstring_def rv_get_def BasicTypeMatch_def JsonTypeMatching_init_def in_range_def chars_of_def
    narrow_signed narrow_unsigned
  have "json_Read D (GetTypeId x) (doc (value_tree F x)) = Inr x \<and>
      BasicTypeMatch D (JsonTypeMatching_init (GetTypeId x) (GetTypeId x) False) (doc (value_tree F x))"
  proof (cases x)
    case (VWString s)
    with assms(3,4) reads_jsonD(9,10) [OF J string_units_wstring, of s] show ?thesis by (simp add: simps wide_units comp_def)
  qed (use assms(2,3) reads_jsonD [OF J] signed unsigned sint_scast_small unat_ucast_small in \<open>simp_all add: simps\<close>)
  then show "json_Read D (GetTypeId x) (doc (value_tree F x)) = Inr x"
    "BasicTypeMatch D (JsonTypeMatching_init (GetTypeId x) (GetTypeId x) False) (doc (value_tree F x))" by simp_all
qed


text \<open>Every value is of a kind that matches its type.\<close>

lemma tree_matches:
  assumes J: "reads_json D (jf_rapidjson F) doc" and "shaped t x" and "json_exact D (jf_rapidjson F) doc t x" and "wf_value mo x"
  shows "TypeMatch D (JsonTypeMatching_init (get_type_id t) (get_type_id t) False) (doc (value_tree F x))"
proof (cases t)
  case (TBasic b)
  with assms json_Read_exact(2) [OF J, of x] show ?thesis by (simp add: TypeMatch_def)
qed (use assms reads_jsonD [OF J] in \<open>auto simp: TypeMatch_def ComplexTypeMatch_def JsonTypeMatching_init_def split: bvalue.splits\<close>)

section \<open>Containers\<close>

definition reads_to :: "('j, bvalue) st \<Rightarrow> 'j \<Rightarrow> bvalue \<Rightarrow> bool" where
  "reads_to m j x \<longleftrightarrow> (\<exists>v. m j = Inr (v, j) \<and> erase v = erase x)"

lemma json_array [simp]:
  assumes "reads_json D J doc"
  shows "jr_array D (doc (JArray vs)) = map doc vs" "ArraySize D (doc (JArray vs)) = of_nat (length vs)"
  using reads_jsonD(11,12) [OF assms, of vs] by (simp_all add: jr_array_def ArraySize_def)

lemma length_items_tree [simp]: "length (items_tree F xs) = length xs"
  by (induction xs) simp_all

lemma json_list_items_exact:
  "(\<And>x. x \<in> set xs \<Longrightarrow> TypeMatch D m (doc (value_tree F x)) \<and> reads_to (element d) (doc (value_tree F x)) x) \<Longrightarrow>
   \<exists>ys. json_list_items D m element (replicate (length xs) d) (map doc (items_tree F xs)) = Inr ys \<and> map erase ys = map erase xs"
proof (induction xs)
  case (Cons x xs)
  from Cons.IH Cons.prems obtain ys where
    "json_list_items D m element (replicate (length xs) d) (map doc (items_tree F xs)) = Inr ys" "map erase ys = map erase xs"
    by auto
  with Cons.prems [of x] show ?case by (auto simp: reads_to_def TypeMatch_def)
qed simp

lemma json_set_items_exact:
  assumes J: "reads_json D (jf_rapidjson F) doc"
  shows "sorted_wrt key_less (s @ xs) \<Longrightarrow> list_all (basic_of t) xs \<Longrightarrow> list_all (basic_exact D (jf_rapidjson F) doc) xs \<Longrightarrow>
    wf_items mo t xs \<Longrightarrow> json_set_items D t (map doc (items_tree F xs)) s = Inr (s @ xs)"
proof (induction xs arbitrary: s)
  case (Cons x xs)
  then have "set_insert x s = s @ [x]" by (intro set_insert_last) (auto simp: sorted_wrt_append)
  with Cons json_Read_exact [OF J, of x mo] show ?case by auto
qed simp

lemma json_map_items_exact:
  assumes J: "reads_json D (jf_rapidjson F) doc"
  shows "sorted_wrt key_less (map fst m @ map fst kvs) \<Longrightarrow>
   (\<And>x y. (x, y) \<in> set kvs \<Longrightarrow> basic_of k x \<and> basic_exact D (jf_rapidjson F) doc x \<and> wf_value mo x \<and>
      reads_to (element d) (doc (value_tree F y)) y) \<Longrightarrow>
   \<exists>m'. json_map_items D k element d (map doc (pairs_tree F kvs)) m = Inr (m @ m') \<and>
     map (map_prod erase erase) m' = map (map_prod erase erase) kvs"
proof (induction kvs arbitrary: m)
  case (Cons p kvs)
  obtain x y where p: "p = (x, y)" by (cases p)
  have xy: "basic_of k x" "basic_exact D (jf_rapidjson F) doc x" "wf_value mo x" "reads_to (element d) (doc (value_tree F y)) y"
    using Cons.prems(2) [of x y] p by auto
  from xy(4) obtain v where v: "element d (doc (value_tree F y)) = Inr (v, doc (value_tree F y))" "erase v = erase y"
    by (auto simp: reads_to_def)
  have fresh: "\<forall>(z, w) \<in> set m. key_less z x" using Cons.prems(1) p by (auto simp: sorted_wrt_append)
  have "\<exists>m'. json_map_items D k element d (map doc (pairs_tree F kvs)) (m @ [(x, v)]) = Inr ((m @ [(x, v)]) @ m') \<and>
     map (map_prod erase erase) m' = map (map_prod erase erase) kvs"
    using Cons.prems p by (intro Cons.IH) auto
  then show ?case
    using xy v p json_Read_exact [OF J xy(1) [THEN conjunct1] xy(2,3)] mapped_at_fresh [OF fresh] map_assign_last [OF fresh]
    by auto
qed simp

lemma json_blob_exact:
  assumes J: "reads_json D (jf_rapidjson F) doc" and "alloc_ok alloc" and "blob_wf b"
  shows "reads_to (json_blob D alloc var) (doc (value_tree F (VBlob b))) (VBlob b)"
proof -
  define bs where "bs = blob_bytes b"
  define js where "js = map (\<lambda>c. doc (JNumber (rj_WriteInt64 (jf_rapidjson F) (scast c)))) bs"
  have len: "length bs < 2 ^ 32"
    using blob_wf_length [OF assms(3)] unsigned_less [of "blob_length b", where ?'a = nat] by (simp add: bs_def)
  have int: "rv_IsInt D (doc (JNumber (rj_WriteInt64 (jf_rapidjson F) (scast c)))) \<and>
      rv_GetInt D (doc (JNumber (rj_WriteInt64 (jf_rapidjson F) (scast c)))) = ucast (scast c :: u64)" for c :: byte
    using reads_jsonD(4) [OF J] sint_scast_small(1,2) by (simp add: reads_signed_def)
  have js: "jr_array D (doc (value_tree F (VBlob b))) = js" "ArraySize D (doc (value_tree F (VBlob b))) = of_nat (length bs)"
    using json_array [OF J] by (simp_all add: js_def bs_def)
  have bytes: "map (\<lambda>x. ucast (rv_GetInt D x)) (filter (rv_IsInt D) js) = bs"
    using int narrow_signed(4) unfolding js_def by (induction bs) simp_all
  have "length (filter (rv_IsInt D) js) = length bs" using bytes by (metis length_map)
  then have take: "take (unat (of_nat (length bs) :: u32)) (filter (rv_IsInt D) js) = filter (rv_IsInt D) js"
    using len by (simp add: unat_of_nat_small)
  show ?thesis
  proof (cases "bs = []")
    case True
    with js show ?thesis by (simp add: reads_to_def json_blob_def bs_def)
  next
    case False
    from assms(2) obtain a where a: "alloc (of_nat (length bs)) = Inr a" "unat a + unat (of_nat (length bs) :: u32) < 2 ^ 64"
      by (auto simp: alloc_ok_def)
    have "(of_nat (length bs) :: u32) \<noteq> 0"
    proof
      assume "(of_nat (length bs) :: u32) = 0"
      then have "unat (of_nat (length bs) :: u32) = 0" by simp
      with len False show False by (simp add: unat_of_nat_small)
    qed
    with a js bytes take len blob_shared_Inr [OF a(2), of bs] show ?thesis
      by (simp add: reads_to_def json_blob_def Let_def unat_of_nat_small) (simp add: bs_def)
  qed
qed

lemma json_bools_exact:
  assumes J: "reads_json D (jf_rapidjson F) doc" and "list_all (basic_of BT_BOOL) xs"
  shows "reads_to (json_bools D var) (doc (value_tree F (VList BT_BOOL xs))) (VList BT_BOOL xs)"
proof -
  have "map (\<lambda>x. VBool (rv_IsTrue D x)) (map doc (items_tree F xs)) = xs"
    using assms(2)
  proof (induction xs)
    case (Cons x xs)
    then show ?case using reads_jsonD(3) [OF J] by (cases x) auto
  qed simp
  then show ?thesis using json_array [OF J] by (simp add: reads_to_def json_bools_def)
qed

lemma json_list_exact:
  assumes J: "reads_json D (jf_rapidjson F) doc" and len: "length xs < 2 ^ 32"
    and items: "\<And>x. x \<in> set xs \<Longrightarrow>
      TypeMatch D (JsonTypeMatching_init (get_type_id e) (get_type_id e) False) (doc (value_tree F x)) \<and>
      reads_to (element (default_value e)) (doc (value_tree F x)) x"
  shows "reads_to (json_list D (TList e) e element (VList (get_type_id e) []))
    (doc (value_tree F (VList (get_type_id e) xs))) (VList (get_type_id e) xs)"
proof -
  from items obtain ys where
    "json_list_items D (JsonTypeMatching_init (get_type_id e) (get_type_id e) False) element
       (replicate (length xs) (default_value e)) (map doc (items_tree F xs)) = Inr ys" "map erase ys = map erase xs"
    using json_list_items_exact by blast
  with json_array [OF J] len show ?thesis
    by (simp add: reads_to_def json_list_def json_resize_def resize_list_def unat_of_nat_small)
qed

lemma json_set_exact:
  assumes J: "reads_json D (jf_rapidjson F) doc" and "sorted_wrt key_less xs" and "list_all (basic_of t) xs"
    and "list_all (basic_exact D (jf_rapidjson F) doc) xs" and "wf_items mo t xs"
  shows "reads_to (json_set D t var) (doc (value_tree F (VSet t xs))) (VSet t xs)"
  using json_array [OF J] json_set_items_exact [OF J, of "[]" xs t mo] assms by (simp add: reads_to_def json_set_def)

lemma json_map_exact:
  assumes J: "reads_json D (jf_rapidjson F) doc" and "sorted_wrt key_less (map fst kvs)"
    and "\<And>x y. (x, y) \<in> set kvs \<Longrightarrow> basic_of k x \<and> basic_exact D (jf_rapidjson F) doc x \<and> wf_value mo x \<and>
      reads_to (element (default_value e)) (doc (value_tree F y)) y"
  shows "reads_to (json_map D k e element var) (doc (value_tree F (VMap k (get_type_id e) kvs))) (VMap k (get_type_id e) kvs)"
proof -
  have "\<exists>m'. json_map_items D k element (default_value e) (map doc (pairs_tree F kvs)) [] = Inr ([] @ m') \<and>
     map (map_prod erase erase) m' = map (map_prod erase erase) kvs"
    using assms(2,3) by (intro json_map_items_exact [OF J, of "[]" kvs k mo element "default_value e"]) auto
  with json_array [OF J] show ?thesis by (auto simp: reads_to_def json_map_def)
qed

section \<open>Looking up the fields of an object\<close>

fun instance_fields :: "bstruct \<Rightarrow> bfield list" where
  "instance_fields (Struct md None fs) = fs"
| "instance_fields (Struct md (Some b) fs) = instance_fields b @ fs"

fun written :: "json_format \<Rightarrow> bfield \<Rightarrow> bvalue option" where
  "written F (Field fid md v) = (if jf_all_fields F \<or> \<not> omit_field True md v then Some v else None)"
| "written F (MaybeField fid md t v) = v"

definition found ::
    "'j rapidjson_value \<Rightarrow> (json \<Rightarrow> 'j) \<Rightarrow> json_format \<Rightarrow> 'j \<Rightarrow> fdef \<Rightarrow> bfield \<Rightarrow> bool" where
  "found D doc F j fd f \<longleftrightarrow>
     FindField D (fd_id fd) (fd_metadata fd) (get_type_id (fd_type fd)) False j =
       map_option (\<lambda>v. doc (value_tree F v)) (written F f)"

lemma fields_tree_concat: "fields_tree F fs = concat (map (field_tree F) fs)"
  by (induction fs) simp_all

lemma members_tree_concat: "members_tree F x = concat (map (field_tree F) (instance_fields x))"
  by (induction x rule: instance_fields.induct) (simp_all add: fields_tree_concat)

lemma find_middle:
  "(\<And>x. x \<in> set A \<Longrightarrow> \<not> P x) \<Longrightarrow> (\<And>x. x \<in> set C \<Longrightarrow> \<not> P x) \<Longrightarrow> find P (A @ B @ C) = find P B"
proof (induction A)
  case Nil
  then have "find P C = None" by (simp add: find_None_iff)
  then show ?case by (induction B) simp_all
qed simp

text \<open>The members that a field is written as: at most one, of the name of the field\<close>

definition field_members ::
    "'j rapidjson_value \<Rightarrow> (json \<Rightarrow> 'j) \<Rightarrow> json_format \<Rightarrow> bfield \<Rightarrow> (byte list \<times> 'j) list" where
  "field_members D doc F f = map (\<lambda>(k, v). (rv_GetString D (doc (JString k)), doc v)) (field_tree F f)"

lemma field_members_written:
  assumes "reads_json D (jf_rapidjson F) doc" and "field_var fd f"
  shows "field_members D doc F f =
    (case written F f of None \<Rightarrow> [] | Some v \<Rightarrow> [(bytes_of_string (FieldName (fd_metadata fd)), doc (value_tree F v))])"
  using assms(2) reads_jsonD(8) [OF assms(1)]
  by (cases fd; cases f) (auto simp: field_members_def field_var_def chars_of_def split: option.splits)

lemma found_fields:
  assumes J: "reads_json D (jf_rapidjson F) doc" and names: "json_names_ok D fds"
    and vars: "list_all2 field_var fds fs"
    and kinds: "list_all2 (\<lambda>fd f. \<forall>v. written F f = Some v \<longrightarrow>
      TypeMatch D (JsonTypeMatching_init (get_type_id (fd_type fd)) (get_type_id (fd_type fd)) False) (doc (value_tree F v))) fds fs"
  shows "list_all2 (found D doc F (doc (JObject (concat (map (field_tree F) fs))))) fds fs"
proof (rule list_all2_all_nthI)
  show len: "length fds = length fs" using vars by (rule list_all2_lengthD)
  fix i assume i: "i < length fds"
  define type where "type = JsonTypeMatching_init (get_type_id (fd_type (fds ! i))) (get_type_id (fd_type (fds ! i))) False"
  define P where "P = (\<lambda>(n, v). TypeMatch D type v \<and>
    (c_str n = field_key (fds ! i) \<or> rv_lexical_uint16 D (c_str n) = Some (fd_id (fds ! i))))"
  have mem: "field_members D doc F (fs ! k) = (case written F (fs ! k) of None \<Rightarrow> []
      | Some v \<Rightarrow> [(bytes_of_string (FieldName (fd_metadata (fds ! k))), doc (value_tree F v))])" if "k < length fs" for k
    using that len vars by (intro field_members_written [OF J]) (auto simp: list_all2_conv_all_nth)
  have other: "\<not> P m" if "m \<in> set (field_members D doc F (fs ! k))" "k < length fs" "k \<noteq> i" for m k
  proof -
    have "field_key (fds ! k) \<noteq> field_key (fds ! i)"
      using names that(2,3) i len nth_eq_iff_index_eq [of "map field_key fds" k i] by (simp add: json_names_ok_def)
    moreover have "rv_lexical_uint16 D (field_key (fds ! k)) = None" using names that(2) len by (simp add: json_names_ok_def list_all_length)
    ultimately show ?thesis using that(1) mem [OF that(2)] by (auto simp: P_def field_key_def split: option.splits)
  qed
  let ?A = "concat (map (field_members D doc F) (take i fs))" and ?C = "concat (map (field_members D doc F) (drop (Suc i) fs))"
  have "fs = take i fs @ [fs ! i] @ drop (Suc i) fs" using i len by (simp add: Cons_nth_drop_Suc)
  then have "concat (map (field_members D doc F) fs) = ?A @ field_members D doc F (fs ! i) @ ?C"
    by (metis concat.simps(2) concat_append list.simps(9) map_append append_Cons append_Nil)
  moreover have "find P (?A @ field_members D doc F (fs ! i) @ ?C) = find P (field_members D doc F (fs ! i))"
  proof (rule find_middle)
    show "\<not> P m" if "m \<in> set ?A" for m
    proof -
      from that obtain f where f: "f \<in> set (take i fs)" "m \<in> set (field_members D doc F f)" by auto
      then obtain k where "k < i" "f = fs ! k" "k < length fs" by (auto simp: in_set_conv_nth)
      with f(2) other [of m k] show ?thesis by simp
    qed
    show "\<not> P m" if "m \<in> set ?C" for m
    proof -
      from that obtain f where f: "f \<in> set (drop (Suc i) fs)" "m \<in> set (field_members D doc F f)" by auto
      from f(1) obtain l where "l < length fs - Suc i" "f = drop (Suc i) fs ! l" unfolding in_set_conv_nth by auto
      with f(2) other [of m "Suc i + l"] show ?thesis by simp
    qed
  qed
  moreover have "map_option snd (find P (field_members D doc F (fs ! i))) = map_option (\<lambda>v. doc (value_tree F v)) (written F (fs ! i))"
    using mem [of i] i len kinds by (auto simp: P_def field_key_def type_def list_all2_conv_all_nth split: option.splits)
  moreover have "jr_members D (doc (JObject (concat (map (field_tree F) fs)))) = concat (map (field_members D doc F) fs)"
    using reads_jsonD(13,14) [OF J] by (simp add: jr_members_def field_members_def [abs_def] map_concat comp_def)
  ultimately show "found D doc F (doc (JObject (concat (map (field_tree F) fs)))) (fds ! i) (fs ! i)"
    by (simp add: found_def FindField_def Let_def P_def type_def field_key_def)
qed

section \<open>Reading the fields\<close>

text \<open>What reading a field takes: its value is read back, or its default value is the value\<close>

definition reads_back :: "(json \<Rightarrow> 'j) \<Rightarrow> json_format \<Rightarrow> fdef \<times> 'j jassign \<Rightarrow> bfield \<Rightarrow> bool" where
  "reads_back doc F h f \<longleftrightarrow>
     (\<forall>v var. written F f = Some v \<and> (is_basic_type (fd_type (fst h)) \<or> var = default_value (fd_type (fst h))) \<longrightarrow>
        reads_to (snd h var) (doc (value_tree F v)) v)"

lemma written_None:
  assumes "written F f = None" and "field_var fd f" and "wf_field True f" and "exact_fields [fd] [f]"
  shows "md_modifier (fd_metadata fd) = Optional \<and> erase_field f = default_field fd"
  using assms by (cases fd; cases f) (auto simp: field_var_def omit_field_def split: if_splits option.splits)

lemma read_written:
  assumes "written F f = Some v" and "field_var fd f" and "reads_back doc F (fd, m) f"
  shows "\<exists>g. AssignToVar fd m (default_field fd) (doc (value_tree F v)) = Inr (g, doc (value_tree F v)) \<and>
    erase_field g = erase_field f"
proof -
  obtain fid md mb t where fd: "fd = FieldDef fid md mb t" by (cases fd)
  have read: "\<exists>w. m var (doc (value_tree F v)) = Inr (w, doc (value_tree F v)) \<and> erase w = erase v"
    if "is_basic_type t \<or> var = default_value t" for var
    using assms(1,3) that unfolding reads_back_def reads_to_def fd by auto
  show ?thesis
  proof (cases f)
    case (Field fid' md' v')
    then have v: "f = Field fid md v" "mb = False" using assms(1,2) by (auto simp: field_var_def fd split: if_splits)
    obtain var where var: "default_field fd = Field fid md var" "is_basic_type t \<or> var = default_value t"
      unfolding fd v(2) by (cases t) auto
    from read [OF var(2)] show ?thesis by (auto simp: var(1) v bind_def ret_def)
  next
    case (MaybeField fid' md' t' v')
    then have v: "f = MaybeField fid md (get_type_id t) (Some v)" "mb = True" using assms(1,2) by (auto simp: field_var_def fd)
    from read [of "default_value t"] show ?thesis by (auto simp: fd v bind_def ret_def)
  qed
qed

lemma dom_ReadFields_exact:
  "sorted_wrt (<) (map fd_id (ps @ map fst heads)) \<Longrightarrow> (\<forall>fd \<in> set (map fst heads). fd_id fd \<noteq> invalid_field_id) \<Longrightarrow>
   list_all2 (found D doc F j) (map fst heads) vs \<Longrightarrow> list_all2 field_var (map fst heads) vs \<Longrightarrow> wf_fields True vs \<Longrightarrow>
   exact_fields (map fst heads) vs \<Longrightarrow> list_all2 (reads_back doc F) heads vs \<Longrightarrow>
   \<exists>ws. dom_ReadFields D (ps @ map fst heads) heads (default_fields (map fst heads)) (next_required_field (map fst heads) 0) j =
      Inr ((ws, next_required_field [] 0), j) \<and> map erase_field ws = map erase_field vs"
proof (induction heads arbitrary: ps vs)
  case (Cons h heads)
  obtain fd m where h: "h = (fd, m)" by (cases h)
  obtain f ws where vs: "vs = f # ws" using Cons.prems(3) by (auto simp: list_all2_Cons1)
  have ex: "exact_fields [fd] [f]" "exact_fields (map fst heads) ws" using Cons.prems(6) vs h by (cases fd; auto)+
  have "\<exists>ws'. dom_ReadFields D ((ps @ [fd]) @ map fst heads) heads (default_fields (map fst heads)) (next_required_field (map fst heads) 0) j =
      Inr ((ws', next_required_field [] 0), j) \<and> map erase_field ws' = map erase_field ws"
    using Cons.prems vs h ex by (intro Cons.IH) auto
  then obtain ws' where rest: "dom_ReadFields D (ps @ fd # map fst heads) heads (default_fields (map fst heads))
      (next_required_field (map fst heads) 0) j = Inr ((ws', next_required_field [] 0), j)" "map erase_field ws' = map erase_field ws"
    by auto
  have fdj: "found D doc F j fd f" and fv: "field_var fd f" and wf: "wf_field True f" and rb: "reads_back doc F (fd, m) f"
    using Cons.prems vs h by auto
  show ?case
  proof (cases "written F f")
    case None
    with written_None [OF None fv wf ex(1)] rest fdj show ?thesis
      by (auto simp: h vs found_def bind_def ret_def next_required_cons erase_default)
  next
    case (Some v)
    from read_written [OF Some fv rb] obtain g where
      g: "AssignToVar fd m (default_field fd) (doc (value_tree F v)) = Inr (g, doc (value_tree F v))" "erase_field g = erase_field f"
      by auto
    have "Validate_field (ps @ fd # map fst heads) fd (next_required_field (fd # map fst heads) 0) = Inr (next_required_field (map fst heads) 0)"
      using Cons.prems(1,2) h by (intro Validate_field_next) auto
    with g rest fdj Some show ?thesis
      by (auto simp: h vs found_def bind_def ret_def child_reader_def To_Field_def lift_res_def)
  qed
qed (simp add: ret_def)

lemma exact_ids: "shaped_fields fs vs \<Longrightarrow> exact_fields fs vs \<Longrightarrow> \<forall>fd \<in> set fs. fd_id fd \<noteq> invalid_field_id"
  unfolding shaped_fields_iff
proof (induction rule: list_all2_induct)
  case (Cons fd fs f vs)
  then show ?case by (cases fd) auto
qed simp

lemma dom_level_exact:
  assumes "schema_sorted_fields fs" and "list_all2 (found D doc F j) fs vs" and "shaped_fields fs vs"
    and "wf_fields True vs" and "exact_fields fs vs" and "list_all2 (reads_back doc F) (dom_fields D alloc fs) vs"
  shows "\<exists>ws. dom_Read_struct D (dom_fields D alloc fs) md b (default_fields fs) j = Inr (Struct md b ws, j) \<and>
    map erase_field ws = map erase_field vs"
proof -
  have "\<exists>ws. dom_ReadFields D ([] @ map fst (dom_fields D alloc fs)) (dom_fields D alloc fs)
      (default_fields (map fst (dom_fields D alloc fs))) (next_required_field (map fst (dom_fields D alloc fs)) 0) j =
        Inr ((ws, next_required_field [] 0), j) \<and> map erase_field ws = map erase_field vs"
    using assms schema_sorted_ids [OF assms(1)] exact_ids [OF assms(3,5)]
    by (intro dom_ReadFields_exact) (simp_all add: shaped_fields_iff)
  then show ?thesis
    by (auto simp: dom_Read_struct_def bind_def ret_def lift_res_def Validate_struct_def next_required_field_def)
qed

section \<open>Reading an object\<close>

lemma hierarchy_matches:
  assumes J: "reads_json D (jf_rapidjson F) doc"
  shows "shaped_struct s x \<Longrightarrow> json_exact_struct D (jf_rapidjson F) doc s x \<Longrightarrow> wf_struct True x \<Longrightarrow>
    list_all2 field_var (hierarchy_fields s) (instance_fields x) \<and>
    list_all2 (\<lambda>fd f. \<forall>v. written F f = Some v \<longrightarrow>
      TypeMatch D (JsonTypeMatching_init (get_type_id (fd_type fd)) (get_type_id (fd_type fd)) False) (doc (value_tree F v)))
      (hierarchy_fields s) (instance_fields x)"
proof -
  have level: "list_all2 (\<lambda>fd f. \<forall>v. written F f = Some v \<longrightarrow>
      TypeMatch D (JsonTypeMatching_init (get_type_id (fd_type fd)) (get_type_id (fd_type fd)) False) (doc (value_tree F v))) fs vs"
    if "shaped_fields fs vs" "json_exact_fields D (jf_rapidjson F) doc fs vs" "wf_fields True vs" for fs vs
    using that unfolding shaped_fields_iff
  proof (induction rule: list_all2_induct)
    case (Cons fd fs f vs)
    obtain fid md mb t where fd: "fd = FieldDef fid md mb t" by (cases fd)
    have "TypeMatch D (JsonTypeMatching_init (get_type_id t) (get_type_id t) False) (doc (value_tree F v))"
      if "written F f = Some v" for v
      using Cons.hyps(1) Cons.prems that fd
      by (intro tree_matches [OF J, where mo = True]; cases f; auto simp: field_var_def split: if_splits)
    with Cons fd show ?case by (cases f) auto
  qed simp
  show "shaped_struct s x \<Longrightarrow> json_exact_struct D (jf_rapidjson F) doc s x \<Longrightarrow> wf_struct True x \<Longrightarrow> ?thesis"
  proof (induction s arbitrary: x rule: hierarchy_fields.induct)
    case (1 md fs)
    then show ?case using level by (cases x) (auto simp: shaped_fields_iff)
  next
    case (2 md b fs)
    then show ?case using level by (cases x) (auto simp: shaped_fields_iff intro!: list_all2_appendI split: option.splits)
  qed
qed

lemma dom_exact:
  assumes "alloc_ok alloc"
  shows "D' = D \<Longrightarrow> alloc' = alloc \<Longrightarrow> reads_json D (jf_rapidjson F) doc \<Longrightarrow> schema_ok_type t \<Longrightarrow> schema_sorted_type t \<Longrightarrow>
     shaped t x \<Longrightarrow> exact t x \<Longrightarrow> json_exact D (jf_rapidjson F) doc t x \<Longrightarrow> wf_value True x \<Longrightarrow>
     is_basic_type t \<or> var = default_value t \<Longrightarrow> reads_to (dom_type D' alloc' t var) (doc (value_tree F x)) x"
  "D' = D \<Longrightarrow> alloc' = alloc \<Longrightarrow> reads_json D (jf_rapidjson F) doc \<Longrightarrow> schema_ok_fields fs \<Longrightarrow> schema_sorted_fields fs \<Longrightarrow>
     shaped_fields fs xs \<Longrightarrow> exact_fields fs xs \<Longrightarrow> json_exact_fields D (jf_rapidjson F) doc fs xs \<Longrightarrow> wf_fields True xs \<Longrightarrow>
     list_all2 (reads_back doc F) (dom_fields D' alloc' fs) xs"
  "D' = D \<Longrightarrow> alloc' = alloc \<Longrightarrow> reads_json D (jf_rapidjson F) doc \<Longrightarrow> schema_ok s \<Longrightarrow> schema_sorted s \<Longrightarrow>
     shaped_struct s y \<Longrightarrow> exact_struct s y \<Longrightarrow> json_exact_struct D (jf_rapidjson F) doc s y \<Longrightarrow> wf_struct True y \<Longrightarrow>
     list_all2 (found D doc F j) (hierarchy_fields s) (instance_fields y) \<Longrightarrow>
     \<exists>z. dom_struct D' alloc' s (default_struct s) j = Inr (z, j) \<and> erase_struct z = erase_struct y"
proof (induction D' alloc' t and D' alloc' fs and D' alloc' s arbitrary: var x and xs and y j
    rule: dom_type_dom_fields_dom_struct.induct)
  case (1 D' alloc' t)
  then show ?case using json_Read_exact(1) [of D F doc x True] by (simp add: reads_to_def jr_Read_def)
next
  case (2 D' alloc')
  then show ?case using json_blob_exact [OF _ assms] by (auto split: bvalue.splits)
next
  case (4 D' alloc' e)
  from 4 obtain xs where x: "x = VList (get_type_id e) xs" "list_all (shaped e) xs" "wf_items True (get_type_id e) xs" "length xs < 2 ^ 32"
    by (cases x) auto
  show ?case
  proof (cases "e = TBasic BT_BOOL")
    case True
    with 4 x json_bools_exact show ?thesis by (simp add: shaped_TBasic)
  next
    case False
    have "reads_to (json_list D (TList e) e (dom_type D alloc e) (VList (get_type_id e) []))
        (doc (value_tree F (VList (get_type_id e) xs))) (VList (get_type_id e) xs)"
    proof (rule json_list_exact)
      fix y assume y: "y \<in> set xs"
      then have "shaped e y" "exact e y" "json_exact D (jf_rapidjson F) doc e y" "wf_value True y"
        using "4.prems" x by (auto simp: list_all_iff wf_items_iff)
      with 4 False tree_matches show "TypeMatch D (JsonTypeMatching_init (get_type_id e) (get_type_id e) False) (doc (value_tree F y)) \<and>
          reads_to (dom_type D alloc e (default_value e)) (doc (value_tree F y)) y"
        by auto
    qed (use 4 x in simp_all)
    with False "4.prems" x show ?thesis by simp
  qed
next
  case (5 D' alloc' t)
  then show ?case using json_set_exact [where mo = True and t = t] by (auto split: bvalue.splits)
next
  case (6 D' alloc' k e)
  from 6 obtain kvs where x: "x = VMap k (get_type_id e) kvs" "list_all (\<lambda>(x, y). basic_of k x \<and> shaped e y) kvs"
      "wf_pairs True k (get_type_id e) kvs" "sorted_wrt key_less (map fst kvs)"
    by (cases x) auto
  have "reads_to (json_map D k e (dom_type D alloc e) var)
      (doc (value_tree F (VMap k (get_type_id e) kvs))) (VMap k (get_type_id e) kvs)"
  proof (rule json_map_exact [where mo = True])
    fix z y assume "(z, y) \<in> set kvs"
    then have "basic_of k z" "basic_exact D (jf_rapidjson F) doc z" "wf_value True z"
        "shaped e y" "exact e y" "json_exact D (jf_rapidjson F) doc e y" "wf_value True y"
      using "6.prems" x by (auto simp: list_all_iff wf_pairs_iff)
    with 6 show "basic_of k z \<and> basic_exact D (jf_rapidjson F) doc z \<and> wf_value True z \<and>
        reads_to (dom_type D alloc e (default_value e)) (doc (value_tree F y)) y"
      by auto
  qed (use 6 x in simp_all)
  with "6.prems" x show ?case by simp
next
  case (7 D' alloc' s)
  then obtain y where x: "x = VStruct y" "shaped_struct s y" by (cases x) auto
  have "list_all2 (found D doc F (doc (JObject (members_tree F y)))) (hierarchy_fields s) (instance_fields y)"
    using hierarchy_matches [of D F doc s y] "7.prems" x unfolding members_tree_concat by (intro found_fields) auto
  then obtain z where "dom_struct D alloc s (default_struct s) (doc (JObject (members_tree F y))) =
      Inr (z, doc (JObject (members_tree F y)))" "erase_struct z = erase_struct y"
    using 7 x by auto
  with "7.prems" x show ?case by (simp add: reads_to_def bind_def ret_def)
next
  case (9 D' alloc' fid md mb t fs)
  then obtain f ws where xs: "xs = f # ws" "field_var (FieldDef fid md mb t) f" "shaped_fields fs ws"
    by (auto simp: shaped_fields_iff list_all2_Cons1)
  have "reads_back doc F (FieldDef fid md mb t, dom_type D alloc t) f"
    unfolding reads_back_def fst_conv snd_conv fdef.sel
  proof (intro allI impI, elim conjE)
    fix v var assume v: "written F f = Some v" "is_basic_type t \<or> var = default_value t"
    then have "shaped t v" "exact t v" "json_exact D (jf_rapidjson F) doc t v" "wf_value True v"
      using "9.prems" xs by (cases f; auto simp: field_var_def split: if_splits)+
    with 9 v(2) show "reads_to (dom_type D alloc t var) (doc (value_tree F v)) v" by auto
  qed
  moreover have "list_all2 (reads_back doc F) (dom_fields D alloc fs) ws" using "9.IH"(2) "9.prems" xs by simp
  ultimately show ?case using xs(1) "9.prems" by simp
next
  case (10 D' alloc' md fs)
  then obtain vs where y: "y = Struct md None vs" "shaped_fields fs vs" by (cases y) auto
  have "list_all2 (reads_back doc F) (dom_fields D alloc fs) vs" using 10 y by simp
  then obtain ws where "dom_Read_struct D (dom_fields D alloc fs) md None (default_fields fs) j = Inr (Struct md None ws, j)"
      "map erase_field ws = map erase_field vs"
    using dom_level_exact [of fs D doc F j vs alloc md None] "10.prems" y by auto
  with "10.prems" y show ?case by simp
next
  case (11 D' alloc' md b fs)
  then obtain c vs where y: "y = Struct md (Some c) vs" "shaped_fields fs vs" "shaped_struct b c"
    by (cases y) (auto split: option.splits)
  have "length (hierarchy_fields b) = length (instance_fields c)"
    using hierarchy_matches [of D F doc b c] "11.prems" y by (auto dest: list_all2_lengthD)
  with "11.prems"(10) y have found: "list_all2 (found D doc F j) (hierarchy_fields b) (instance_fields c)"
      "list_all2 (found D doc F j) fs vs"
    by (simp_all add: list_all2_append)
  obtain z where z: "dom_struct D alloc b (default_struct b) j = Inr (z, j)" "erase_struct z = erase_struct c"
    using "11.IH"(1) [of c j] "11.prems" y found by auto
  have "list_all2 (reads_back doc F) (dom_fields D alloc fs) vs" using "11.IH"(2) "11.prems" y by simp
  then obtain ws where
    "dom_Read_struct D (dom_fields D alloc fs) md (Some z) (default_fields fs) j = Inr (Struct md (Some z) ws, j)"
      "map erase_field ws = map erase_field vs"
    using dom_level_exact [of fs D doc F j vs alloc md "Some z"] "11.prems" y found by auto
  with "11.prems" y z show ?case by (simp add: bind_def)
qed (simp_all)

section \<open>Reading a document from a stream\<close>

text \<open>
  What is still to be read through the adapter of input streams, and a parser that makes the
  document of a text; RapidJSON reads the text with \<open>Peek\<close> and \<open>Take\<close>, which go through it character
  by character as long as none of them is NUL.
\<close>

definition ris_text :: "RapidJsonInputStream \<Rightarrow> byte list" where
  "ris_text s = (if ris_current s = 0 then [] else [ris_current s]) @ ib_rest (ris_input s)"

definition parses_text :: "(RapidJsonInputStream, 'j) st \<Rightarrow> byte list \<Rightarrow> 'j \<Rightarrow> bool" where
  "parses_text ParseStream t j \<longleftrightarrow>
     (\<forall>s. ib_ok (ris_input s) \<and> ris_text s = t \<longrightarrow> (\<exists>s'. ParseStream s = Inr (j, s')))"

lemma ris_init_text:
  assumes "ib_at ib (c # t)" and "c \<noteq> 0"
  shows "\<exists>s. RapidJsonInputStream_init ib = Inr s \<and> ib_ok (ris_input s) \<and> ris_text s = c # t \<and> ris_Tell s = 0"
  using ib_read_u8_Cons [OF assms(1)] ib_at_adv [of ib "c # t" 1] assms
  by (auto simp: RapidJsonInputStream_init_def ris_text_def ris_Tell_def ib_at_def)

lemma ris_Peek_text:
  assumes "ib_ok (ris_input s)" and "ris_text s = c # t" and "c \<noteq> 0"
  shows "\<exists>s'. ris_Peek s = Inr (c, s') \<and> ib_ok (ris_input s') \<and> ris_text s' = c # t \<and> ris_Tell s' = ris_Tell s"
  using ib_read_u8_Cons [of "ris_input s" c t] ib_at_adv [of "ris_input s" "c # t" 1] assms
  by (auto simp: ris_Peek_def ris_text_def ris_Tell_def ib_at_def split: if_splits)

lemma ris_Take_text:
  assumes "ib_ok (ris_input s)" and "ris_text s = c # t"
  shows "\<exists>s'. ris_Take s = Inr (c, s') \<and> ib_ok (ris_input s') \<and> ris_text s' = t \<and> ris_Tell s' = ris_Tell s + 1"
  using ib_read_u8_Cons [of "ris_input s" c t] ib_at_adv [of "ris_input s" "c # t" 1] assms
  by (auto simp: ris_Take_def ris_text_def ris_Tell_def ib_at_def split: if_splits)

lemma ris_end:
  assumes "ib_ok (ris_input s)" and "ris_text s = []"
  shows "ris_Peek s = Inl (EofException (ris_input s) 1)" "ris_Take s = Inl (EofException (ris_input s) 1)"
  using ib_read_u8_Nil [of "ris_input s"] assms
  by (auto simp: ris_Peek_def ris_Take_def ris_text_def ib_at_def split: if_splits)

text \<open>The instances that Simple JSON preserves\<close>

definition json_fits ::
    "'j rapidjson_value \<Rightarrow> rapidjson_writer \<Rightarrow> (json \<Rightarrow> 'j) \<Rightarrow> sschema \<Rightarrow> bstruct \<Rightarrow> bool" where
  "json_fits D J doc s x \<longleftrightarrow>
     conforms s x \<and> wf_struct True x \<and> json_value (VStruct x) \<and> json_names_ok D (hierarchy_fields s) \<and>
     json_exact_struct D J doc s x"

lemma json_Deserialize_exact:
  assumes "alloc_ok alloc" and J: "reads_json D (jf_rapidjson F) doc" and x: "json_fits D (jf_rapidjson F) doc s x"
    and ib: "ib_at ib (value_text F 0 (VStruct x))"
    and parse: "parses_text ParseStream (value_text F 0 (VStruct x)) (doc (value_tree F (VStruct x)))"
  shows "\<exists>ris y ris'. RapidJsonInputStream_init ib = Inr ris \<and>
    json_Deserialize D alloc ParseStream s ris = Inr (y, ris') \<and> erase_struct y = erase_struct x"
proof -
  let ?j = "doc (JObject (members_tree F x))"
  obtain t where t: "value_text F 0 (VStruct x) = LBRACE # t" by (simp add: block_text_def)
  from ris_init_text [of ib LBRACE t] ib obtain ris where
    ris: "RapidJsonInputStream_init ib = Inr ris" "ib_ok (ris_input ris)" "ris_text ris = value_text F 0 (VStruct x)"
    unfolding t by auto
  with parse obtain ris' where p: "ParseStream ris = Inr (?j, ris')" by (auto simp: parses_text_def)
  have "list_all2 (found D doc F ?j) (hierarchy_fields s) (instance_fields x)"
    using hierarchy_matches [OF J, of s x] x unfolding members_tree_concat
    by (intro found_fields [OF J]) (auto simp: json_fits_def conforms_def)
  then obtain y where "dom_struct D alloc s (default_struct s) ?j = Inr (y, ?j)" "erase_struct y = erase_struct x"
    using dom_exact(3) [OF assms(1) refl refl J, of s x ?j] x by (auto simp: json_fits_def conforms_def)
  with ris(1) p show ?thesis by (auto simp: json_Deserialize_def bind_def lift_res_def)
qed

end
