(* ===== verification/Json_Instance.thy ===== *)
theory Json_Instance
  imports Json_Roundtrip
begin

text \<open>
  A concrete instance of what the JSON theories rely on of RapidJSON, for which the laws \<open>writes_json\<close>
  and \<open>reads_json\<close> hold: a document is the tree of its text; numbers are decimal; a string is written
  with its quotes, backslashes and control characters escaped, and a code unit beyond ASCII that was
  escaped is decoded to three bytes.
\<close>

unbundle bit_operations_syntax

section \<open>The writer\<close>

definition plain_char :: "byte \<Rightarrow> byte list" where
  "plain_char c = (if c < 0x20 \<or> c = QUOTE \<or> c = BACKSLASH then unicode_escape (ucast c) else [c])"

definition plain_writer :: rapidjson_writer where
  "plain_writer = decimal_writer\<lparr>rj_WriteString := (\<lambda>s. string_literal (concat (map plain_char s)))\<rparr>"

lemma string_chars_escape: "string_chars (unicode_escape c @ cs) = string_chars cs"
  by (simp add: unicode_escape_def hex_value_HexDigit)

lemma string_chars_plain: "string_chars (concat (map plain_char s))"
  by (induction s) (auto simp: plain_char_def string_chars_escape not_less)

lemma writes_json_plain: "writes_json plain_writer"
  using writes_json_decimal string_chars_plain by (auto simp: writes_json_def plain_writer_def is_string_def)

section \<open>Numbers\<close>

definition decimal_value :: "byte list \<Rightarrow> nat" where
  "decimal_value ds = foldl (\<lambda>n c. 10 * n + unat (c - 0x30)) 0 ds"

definition number_value :: "byte list \<Rightarrow> int" where
  "number_value t = (if t \<noteq> [] \<and> hd t = 0x2d then - int (decimal_value (tl t)) else int (decimal_value t))"

lemma decimal_value_decimal: "decimal_value (decimal n) = n"
proof (induction n rule: decimal.induct)
  case (1 n)
  have digit: "unat ((0x30 + of_nat m :: byte) - 0x30) = m" if "m < 10" for m
    using that by (simp add: unat_of_nat)
  from 1 digit [of n] digit [of "n mod 10"] show ?case
    by (subst decimal.simps) (auto simp: decimal_value_def)
qed

lemma decimal_not_minus: "decimal n \<noteq> [] \<and> hd (decimal n) \<noteq> 0x2d"
proof -
  have "decimal n \<noteq> [] \<and> is_digit (hd (decimal n))" using decimal_digits [of n] by (cases "decimal n") (auto simp: is_digits_def)
  then show ?thesis by (auto simp: is_digit_def)
qed

lemma number_value_decimal: "number_value (decimal n) = int n" "number_value (0x2d # decimal n) = - int n"
  using decimal_not_minus [of n] by (simp_all add: number_value_def decimal_value_decimal)

section \<open>Strings\<close>

definition unit_bytes :: "u16 \<Rightarrow> byte list" where
  "unit_bytes u = (if u < 0x80 then [ucast u] else [0xff, ucast (drop_bit 8 u), ucast u])"

fun string_bytes :: "byte list \<Rightarrow> byte list" where
  "string_bytes [] = []"
| "string_bytes (c # cs) =
     (if c = BACKSLASH
      then (case cs of
              [] \<Rightarrow> []
            | e # cs' \<Rightarrow>
                if e = LETTER_u
                then (case cs' of
                        h1 # h2 # h3 # h4 # cs'' \<Rightarrow>
                          unit_bytes (push_bit 12 (hex_value h1) OR push_bit 8 (hex_value h2) OR
                            push_bit 4 (hex_value h3) OR hex_value h4) @ string_bytes cs''
                      | _ \<Rightarrow> [])
                else (case escape_unit e of None \<Rightarrow> [] | Some u \<Rightarrow> unit_bytes u @ string_bytes cs'))
      else c # string_bytes cs)"

fun bytes_units :: "byte list \<Rightarrow> u16 list option" where
  "bytes_units [] = Some []"
| "bytes_units (c # cs) =
     (if c < 0x80 then map_option (Cons (ucast c)) (bytes_units cs)
      else case cs of
        h # l # cs' \<Rightarrow> map_option (Cons (push_bit 8 (ucast h) OR ucast l)) (bytes_units cs')
      | _ \<Rightarrow> None)"

lemma bytes_units_unit: "bytes_units (unit_bytes u @ bs) = map_option (Cons u) (bytes_units bs)"
proof (cases "u < 0x80")
  case True
  then have "unat u < 128" by (simp add: word_less_nat_alt)
  then have "(ucast u :: byte) < 0x80" "ucast (ucast u :: byte) = u"
    by (simp_all add: word_less_nat_alt word_unat_eq_iff unsigned_ucast_eq unsigned_take_bit_eq take_bit_nat_eq_self)
  with True show ?thesis by (simp add: unit_bytes_def)
next
  case False
  have "push_bit 8 (ucast (ucast (drop_bit 8 u) :: byte)) OR ucast (ucast u :: byte) = u"
    by (rule bit_word_eqI) (auto simp: bit_simps not_less dest: le_Suc_ex)
  with False show ?thesis by (simp add: unit_bytes_def)
qed

lemma bytes_units_string: "string_units cs = Some us \<Longrightarrow> bytes_units (string_bytes cs) = Some us"
proof (induction cs arbitrary: us rule: string_units.induct)
  case (2 c cs)
  show ?case
  proof (cases "c = BACKSLASH")
    case bs: True
    with "2.prems" obtain e cs' where cs: "cs = e # cs'" by (cases cs) simp_all
    show ?thesis
    proof (cases "e = LETTER_u")
      case True
      with "2.prems" bs cs obtain h1 h2 h3 h4 cs'' us' where
        h: "cs' = h1 # h2 # h3 # h4 # cs''" "is_hex h1 \<and> is_hex h2 \<and> is_hex h3 \<and> is_hex h4"
          "string_units cs'' = Some us'"
        by (cases cs' rule: json_hex4_cases) (auto split: if_split_asm)
      with "2.IH"(1) bs cs True "2.prems" show ?thesis by (auto simp: bytes_units_unit)
    next
      case False
      with "2.prems" bs cs obtain u us' where "escape_unit e = Some u" "string_units cs' = Some us'"
        by (cases "escape_unit e") auto
      with "2.IH"(2) bs cs False "2.prems" show ?thesis by (auto simp: bytes_units_unit)
    qed
  next
    case False
    with "2.prems" obtain us' where "string_units cs = Some us'" by (auto split: if_split_asm)
    with "2.IH"(3) False "2.prems" show ?thesis by (auto split: if_split_asm)
  qed
qed simp

lemma string_bytes_plain: "string_bytes (concat (map plain_char s)) = s"
proof (induction s)
  case (Cons c s)
  show ?case
  proof (cases "c < 0x20 \<or> c = QUOTE \<or> c = BACKSLASH")
    case True
    then have "unat c < 128" by (auto simp: word_less_nat_alt)
    moreover have "(ucast (ucast c :: u32) :: u16) = ucast c" "ucast (ucast c :: u16) = c"
      by (rule bit_word_eqI; auto simp: bit_simps)+
    ultimately have "unit_bytes (ucast (ucast c :: u32)) = [c]"
      by (simp add: unit_bytes_def word_less_nat_alt unsigned_ucast_eq take_bit_nat_eq_self)
    moreover have "string_bytes (unicode_escape (ucast c) @ cs) = unit_bytes (ucast (ucast c :: u32)) @ string_bytes cs" for cs
      by (simp add: unicode_escape_def hex_value_HexDigit unicode_bits del: signed_drop_bit_0)
    ultimately show ?thesis using True Cons by (simp add: plain_char_def)
  next
    case False
    with Cons show ?thesis by (simp add: plain_char_def)
  qed
qed simp

section \<open>The documents\<close>

definition number_is :: "(int \<Rightarrow> bool) \<Rightarrow> json \<Rightarrow> bool" where
  "number_is P j = (case j of JNumber t \<Rightarrow> P (number_value t) | _ \<Rightarrow> False)"

definition number_get :: "json \<Rightarrow> 'a :: len word" where
  "number_get j = (case j of JNumber t \<Rightarrow> of_int (number_value t) | _ \<Rightarrow> 0)"

definition plain_value :: "json rapidjson_value" where
  "plain_value =
     \<lparr>rv_IsNull = (\<lambda>j. case j of JNull \<Rightarrow> True | _ \<Rightarrow> False),
      rv_IsBool = (\<lambda>j. case j of JBool b \<Rightarrow> True | _ \<Rightarrow> False),
      rv_IsTrue = (\<lambda>j. case j of JBool b \<Rightarrow> b | _ \<Rightarrow> False),
      rv_IsInt = number_is (\<lambda>n. - (2 ^ 31) \<le> n \<and> n < 2 ^ 31),
      rv_IsUint = number_is (\<lambda>n. 0 \<le> n \<and> n < 2 ^ 32),
      rv_IsInt64 = number_is (\<lambda>n. - (2 ^ 63) \<le> n \<and> n < 2 ^ 63),
      rv_IsUint64 = number_is (\<lambda>n. 0 \<le> n \<and> n < 2 ^ 64),
      rv_IsNumber = number_is (\<lambda>n. True),
      rv_IsString = (\<lambda>j. case j of JString s \<Rightarrow> True | _ \<Rightarrow> False),
      rv_IsArray = (\<lambda>j. case j of JArray vs \<Rightarrow> True | _ \<Rightarrow> False),
      rv_IsObject = (\<lambda>j. case j of JObject ms \<Rightarrow> True | _ \<Rightarrow> False),
      rv_GetBool = (\<lambda>j. case j of JBool b \<Rightarrow> b | _ \<Rightarrow> False),
      rv_GetInt = number_get, rv_GetInt64 = number_get, rv_GetUint64 = number_get, rv_GetDouble = number_get,
      rv_GetString = (\<lambda>j. case j of JString s \<Rightarrow> string_bytes s | _ \<Rightarrow> []),
      rv_Elements = (\<lambda>j. case j of JArray vs \<Rightarrow> vs | _ \<Rightarrow> []),
      rv_Members = (\<lambda>j. case j of JObject ms \<Rightarrow> map (\<lambda>(k, v). (string_bytes k, v)) ms | _ \<Rightarrow> []),
      rv_utf_to_utf = bytes_units,
      rv_lexical_uint16 = (\<lambda>s. if is_digits s \<and> decimal_value s < 2 ^ 16 then Some (of_nat (decimal_value s)) else None)\<rparr>"

lemma number_value_int64: "number_value (rj_WriteInt64 plain_writer x) = sint x"
proof (cases "x <s 0")
  case True
  then show ?thesis by (simp add: plain_writer_def decimal_writer_def number_value_decimal word_sless_alt)
next
  case False
  then have "0 \<le> sint x" by (simp add: word_sless_alt)
  have "uint x = take_bit 64 (sint x)"
    using uint_word_of_int_eq [of "sint x", where 'a = 64] by simp
  also have "\<dots> = sint x" using \<open>0 \<le> sint x\<close> sint_lt [of x] by (simp add: take_bit_int_eq_self)
  finally have "int (unat x) = sint x" by simp
  with False show ?thesis by (simp add: plain_writer_def decimal_writer_def number_value_decimal)
qed

lemma number_value_uint64: "number_value (rj_WriteUint64 plain_writer x) = uint x"
  by (simp add: plain_writer_def decimal_writer_def number_value_decimal)

lemma reads_json_plain: "reads_json plain_value plain_writer (\<lambda>t. t)"
proof -
  have down: "(scast (x :: u64) :: u32) = ucast x" for x by (rule bit_word_eqI) (simp add: bit_simps)
  have small: "unat (x :: u64) < 4294967296 \<Longrightarrow> uint x < 4294967296" for x
    by (metis of_nat_less_iff of_nat_numeral uint_nat)
  have "reads_signed plain_value x (JNumber (rj_WriteInt64 plain_writer x))" for x
    using sint_ge [of x] sint_lt [of x] down
    by (simp add: reads_signed_def plain_value_def number_is_def number_get_def number_value_int64)
  moreover have "reads_unsigned plain_value x (JNumber (rj_WriteUint64 plain_writer x))" for x
    using unsigned_less [of x, where ?'a = int] small
    by (simp add: reads_unsigned_def plain_value_def number_is_def number_get_def number_value_uint64)
  moreover have "rv_GetString plain_value (JString (literal_chars (rj_WriteString plain_writer s))) = s" for s
    by (simp add: plain_value_def plain_writer_def string_bytes_plain)
  moreover have "rv_utf_to_utf plain_value (rv_GetString plain_value (JString cs)) = Some us" if "string_units cs = Some us" for cs us
    using bytes_units_string [OF that] by (simp add: plain_value_def)
  moreover have "rv_Members plain_value (JObject ms) = map (\<lambda>(k, v). (rv_GetString plain_value (JString k), v)) ms" for ms
    by (simp add: plain_value_def)
  ultimately show ?thesis
    unfolding reads_json_def by (intro conjI allI impI) (simp_all add: plain_value_def number_is_def)
qed

end
