(* ===== verification/Nullable.thy ===== *)
theory Nullable
  imports Bond_Prelude
begin

text \<open>
  The class template \<^verbatim>\<open>nullable<T>\<close> of \<^verbatim>\<open>src/cpp/inc/bond/core/nullable.h\<close> for values that it keeps in storage
  of its own (the second specialization), and the treatment of a nullable as a list. A nullable is an
  allocator and a pointer; the storage is an explicit map from addresses to blocks. Allocators that
  compare equal are one value of the type \<open>'al\<close>: storage of one may be given back to the other.
\<close>

section \<open>Storage\<close>

text \<open>
  A block remembers the allocator that handed it out and the object that was constructed in it, if any.
  The outcome \<open>None\<close> of an operation is undefined behaviour: an access to an object that does not exist, a
  second destruction, storage given back twice or to another allocator. The answer of the allocator to the
  one request that an operation makes is an argument, an address or an exception.
\<close>

type_synonym ('t, 'al) blocks = "nat \<rightharpoonup> 'al \<times> 't option"
type_synonym ('t, 'al, 'a) heap_op = "('t, 'al) blocks \<Rightarrow> ('a res \<times> ('t, 'al) blocks) option"

definition heap_ret :: "'a \<Rightarrow> ('t, 'al, 'a) heap_op" where
  "heap_ret x m = Some (Inr x, m)"

definition heap_bind :: "('t, 'al, 'a) heap_op \<Rightarrow> ('a \<Rightarrow> ('t, 'al, 'b) heap_op) \<Rightarrow> ('t, 'al, 'b) heap_op" where
  "heap_bind f g m = (case f m of None \<Rightarrow> None | Some (Inl e, m) \<Rightarrow> Some (Inl e, m) | Some (Inr x, m) \<Rightarrow> g x m)"

definition allocate_block :: "nat res \<Rightarrow> 'al \<Rightarrow> ('t, 'al) blocks \<Rightarrow> nat res \<times> ('t, 'al) blocks" where
  "allocate_block ans al m = (case ans of Inl e \<Rightarrow> (Inl e, m) | Inr p \<Rightarrow> (Inr p, m(p \<mapsto> (al, None))))"

definition deallocate_block :: "nat \<Rightarrow> 'al \<Rightarrow> ('t, 'al) blocks \<Rightarrow> ('t, 'al) blocks option" where
  "deallocate_block p al m = (case m p of Some (b, None) \<Rightarrow> if b = al then Some (m(p := None)) else None | _ \<Rightarrow> None)"

definition destroy_object :: "nat \<Rightarrow> ('t, 'al) blocks \<Rightarrow> ('t, 'al) blocks option" where
  "destroy_object p m = (case m p of Some (b, Some t) \<Rightarrow> Some (m(p \<mapsto> (b, None))) | _ \<Rightarrow> None)"

definition object_at :: "nat \<Rightarrow> ('t, 'al) blocks \<Rightarrow> 't option" where
  "object_at p m = Option.bind (m p) snd"

definition put_object :: "nat \<Rightarrow> 't \<Rightarrow> ('t, 'al) blocks \<Rightarrow> ('t, 'al) blocks" where
  "put_object p t m = (case m p of None \<Rightarrow> m | Some (b, _) \<Rightarrow> m(p \<mapsto> (b, Some t)))"

section \<open>The element type\<close>

text \<open>
  What the nullable uses of \<open>T\<close>: its constructors (default, copy and move, each also with an allocator)
  and assignments, which may throw. A move also gives what it leaves in its source, an assignment what
  is in its target then.
\<close>

record ('t, 'al) element_ops =
  el_uses_allocator :: bool
  el_init :: "'t res"
  el_init_alloc :: "'al \<Rightarrow> 't res"
  el_copy :: "'t \<Rightarrow> 't res"
  el_copy_alloc :: "'t \<Rightarrow> 'al \<Rightarrow> 't res"
  el_move :: "'t \<Rightarrow> 't res \<times> 't"
  el_move_alloc :: "'t \<Rightarrow> 'al \<Rightarrow> 't res \<times> 't"
  el_copy_assign :: "'t \<Rightarrow> 't \<Rightarrow> unit res \<times> 't"
  el_move_assign :: "'t \<Rightarrow> 't \<Rightarrow> unit res \<times> 't"

text \<open>The arguments that \<open>new_value\<close> forwards to a constructor: a value, or an object in storage that is copied or moved.\<close>

definition from_value :: "'t res \<Rightarrow> ('t, 'al, 't) heap_op" where
  "from_value r m = Some (r, m)"

definition from_copy :: "('t \<Rightarrow> 't res) \<Rightarrow> nat \<Rightarrow> ('t, 'al, 't) heap_op" where
  "from_copy f q m = map_option (\<lambda>t. (f t, m)) (object_at q m)"

definition from_move :: "('t \<Rightarrow> 't res \<times> 't) \<Rightarrow> nat \<Rightarrow> ('t, 'al, 't) heap_op" where
  "from_move f q m = map_option (\<lambda>t. case f t of (r, t') \<Rightarrow> (r, put_object q t' m)) (object_at q m)"

section \<open>The nullable\<close>

record 'al nullable =
  nb_alloc :: 'al
  nb_value :: "nat option"

text \<open>\<open>new_value\<close>: when the constructor throws, the storage goes back before the exception leaves.\<close>

definition nullable_new_value :: "nat res \<Rightarrow> ('t, 'al, 't) heap_op \<Rightarrow> 'al \<Rightarrow> ('t, 'al, nat) heap_op" where
  "nullable_new_value ans ctor al m = (case allocate_block ans al m of
       (Inl e, m) \<Rightarrow> Some (Inl e, m)
     | (Inr p, m) \<Rightarrow> (case ctor m of
           None \<Rightarrow> None
         | Some (Inl e, m) \<Rightarrow> map_option (\<lambda>m. (Inl e, m)) (deallocate_block p al m)
         | Some (Inr t, m) \<Rightarrow> Some (Inr p, put_object p t m)))"

definition nullable_delete_value :: "'al nullable \<Rightarrow> ('t, 'al) blocks \<Rightarrow> ('t, 'al) blocks option" where
  "nullable_delete_value n m = (case nb_value n of None \<Rightarrow> None
     | Some p \<Rightarrow> Option.bind (destroy_object p m) (deallocate_block p (nb_alloc n)))"

definition nullable_hasvalue :: "'al nullable \<Rightarrow> bool" where
  "nullable_hasvalue n \<longleftrightarrow> nb_value n \<noteq> None"

definition nullable_empty :: "'al nullable \<Rightarrow> bool" where
  "nullable_empty n \<longleftrightarrow> \<not> nullable_hasvalue n"

text \<open>\<open>value\<close> asserts that there is one; without the assertion the null pointer is dereferenced.\<close>

definition nullable_value :: "'al nullable \<Rightarrow> ('t, 'al) blocks \<Rightarrow> 't option" where
  "nullable_value n m = Option.bind (nb_value n) (\<lambda>p. object_at p m)"

definition nullable_reset :: "'al nullable \<Rightarrow> ('t, 'al) blocks \<Rightarrow> ('al nullable \<times> ('t, 'al) blocks) option" where
  "nullable_reset n m = (if nullable_hasvalue n
     then map_option (\<lambda>m. (n\<lparr>nb_value := None\<rparr>, m)) (nullable_delete_value n m) else Some (n, m))"

definition nullable_destroy :: "'al nullable \<Rightarrow> ('t, 'al) blocks \<Rightarrow> ('t, 'al) blocks option" where
  "nullable_destroy n m = map_option snd (nullable_reset n m)"

definition nullable_swap :: "'al nullable \<Rightarrow> 'al nullable \<Rightarrow> 'al nullable \<times> 'al nullable" where
  "nullable_swap x y = (x\<lparr>nb_alloc := nb_alloc y, nb_value := nb_value y\<rparr>, y\<lparr>nb_alloc := nb_alloc x, nb_value := nb_value x\<rparr>)"

subsection \<open>Constructors\<close>

definition nullable_init :: "'al \<Rightarrow> 'al nullable" where
  "nullable_init al = \<lparr>nb_alloc = al, nb_value = None\<rparr>"

definition nullable_with_value :: "nat res \<Rightarrow> ('t, 'al, 't) heap_op \<Rightarrow> 'al \<Rightarrow> ('t, 'al, 'al nullable) heap_op" where
  "nullable_with_value ans ctor al = heap_bind (nullable_new_value ans ctor al)
     (\<lambda>p. heap_ret \<lparr>nb_alloc = al, nb_value = Some p\<rparr>)"

definition nullable_copy :: "('t, 'al) element_ops \<Rightarrow> nat res \<Rightarrow> 'al nullable \<Rightarrow> ('t, 'al, 'al nullable) heap_op" where
  "nullable_copy T ans other = (case nb_value other of
       None \<Rightarrow> heap_ret (nullable_init (nb_alloc other))
     | Some q \<Rightarrow> nullable_with_value ans (from_copy (el_copy T) q) (nb_alloc other))"

definition nullable_copy_alloc ::
    "('t, 'al) element_ops \<Rightarrow> nat res \<Rightarrow> 'al nullable \<Rightarrow> 'al \<Rightarrow> ('t, 'al, 'al nullable) heap_op" where
  "nullable_copy_alloc T ans other al = (case nb_value other of
       None \<Rightarrow> heap_ret (nullable_init al)
     | Some q \<Rightarrow> nullable_with_value ans (from_copy (\<lambda>t. el_copy_alloc T t al) q) al)"

text \<open>The move constructors return the new nullable and what is left of the other one.\<close>

definition nullable_move :: "'al nullable \<Rightarrow> 'al nullable \<times> 'al nullable" where
  "nullable_move other = (\<lparr>nb_alloc = nb_alloc other, nb_value = nb_value other\<rparr>, other\<lparr>nb_value := None\<rparr>)"

definition nullable_move_alloc ::
    "('t, 'al) element_ops \<Rightarrow> nat res \<Rightarrow> 'al nullable \<Rightarrow> 'al \<Rightarrow> ('t, 'al, 'al nullable \<times> 'al nullable) heap_op" where
  "nullable_move_alloc T ans other al = heap_bind
     (if nb_alloc other = al then heap_ret \<lparr>nb_alloc = al, nb_value = nb_value other\<rparr>
      else case nb_value other of
          None \<Rightarrow> heap_ret (nullable_init al)
        | Some q \<Rightarrow> nullable_with_value ans (from_move (\<lambda>t. el_move_alloc T t al) q) al)
     (\<lambda>n. heap_ret (n, other\<lparr>nb_value := None\<rparr>))"

definition nullable_from_value :: "('t, 'al) element_ops \<Rightarrow> nat res \<Rightarrow> 't \<Rightarrow> 'al \<Rightarrow> ('t, 'al, 'al nullable) heap_op" where
  "nullable_from_value T ans v al = nullable_with_value ans (from_value (el_copy T v)) al"

definition nullable_from_rvalue :: "('t, 'al) element_ops \<Rightarrow> nat res \<Rightarrow> 't \<Rightarrow> 'al \<Rightarrow> ('t, 'al, 'al nullable) heap_op" where
  "nullable_from_rvalue T ans v al = nullable_with_value ans (from_value (fst (el_move T v))) al"

subsection \<open>Assignment and set\<close>

text \<open>Assignments swap with a temporary, which is destroyed then.\<close>

definition nullable_swap_destroy :: "'al nullable \<Rightarrow> 'al nullable \<Rightarrow> ('t, 'al, 'al nullable) heap_op" where
  "nullable_swap_destroy tmp this m = (case nullable_swap tmp this of (tmp, this) \<Rightarrow>
     map_option (\<lambda>m. (Inr this, m)) (nullable_destroy tmp m))"

definition nullable_assign ::
    "('t, 'al) element_ops \<Rightarrow> nat res \<Rightarrow> 'al nullable \<Rightarrow> 'al nullable \<Rightarrow> ('t, 'al, 'al nullable) heap_op" where
  "nullable_assign T ans this other = heap_bind (nullable_copy T ans other) (\<lambda>tmp. nullable_swap_destroy tmp this)"

text \<open>\<open>set()\<close>: an element type that uses allocators is constructed with the one of the nullable.\<close>

definition nullable_set_value :: "('t, 'al) element_ops \<Rightarrow> nat res \<Rightarrow> 'al nullable \<Rightarrow> ('t, 'al, nat) heap_op" where
  "nullable_set_value T ans n = nullable_new_value ans
     (from_value (if el_uses_allocator T then el_init_alloc T (nb_alloc n) else el_init T)) (nb_alloc n)"

definition nullable_set :: "('t, 'al) element_ops \<Rightarrow> nat res \<Rightarrow> 'al nullable \<Rightarrow> ('t, 'al, 'al nullable) heap_op" where
  "nullable_set T ans n = (if nullable_empty n
     then heap_bind (nullable_set_value T ans n) (\<lambda>p. heap_ret (n\<lparr>nb_value := Some p\<rparr>)) else heap_ret n)"

text \<open>\<open>set(value)\<close> constructs or assigns, by the copy or the move that its argument was forwarded to.\<close>

definition nullable_set_to ::
    "'t res \<Rightarrow> ('t \<Rightarrow> unit res \<times> 't) \<Rightarrow> nat res \<Rightarrow> 'al nullable \<Rightarrow> ('t, 'al, 'al nullable) heap_op" where
  "nullable_set_to construct assign ans n m = (case nb_value n of
       None \<Rightarrow> heap_bind (nullable_new_value ans (from_value construct) (nb_alloc n)) (\<lambda>p. heap_ret (n\<lparr>nb_value := Some p\<rparr>)) m
     | Some p \<Rightarrow> (case object_at p m of None \<Rightarrow> None
         | Some t \<Rightarrow> case assign t of (r, t') \<Rightarrow> Some (map_sum id (\<lambda>_. n) r, put_object p t' m)))"

definition nullable_set_copy :: "('t, 'al) element_ops \<Rightarrow> 't \<Rightarrow> nat res \<Rightarrow> 'al nullable \<Rightarrow> ('t, 'al, 'al nullable) heap_op" where
  "nullable_set_copy T v = nullable_set_to (el_copy T v) (\<lambda>t. el_copy_assign T t v)"

definition nullable_set_move :: "('t, 'al) element_ops \<Rightarrow> 't \<Rightarrow> nat res \<Rightarrow> 'al nullable \<Rightarrow> ('t, 'al, 'al nullable) heap_op" where
  "nullable_set_move T v = nullable_set_to (fst (el_move T v)) (\<lambda>t. el_move_assign T t v)"

section \<open>Programs\<close>

text \<open>
  The nullables of a program are variables; a command is one call of an operation on them. A constructor
  that throws leaves no object, every other operation leaves its objects as they are at the throw.
\<close>

record ('t, 'al) nullable_state =
  ns_vars :: "nat \<rightharpoonup> 'al nullable"
  ns_blocks :: "('t, 'al) blocks"

datatype ('t, 'al) nullable_cmd =
    NInit nat 'al
  | NCopy nat nat
  | NCopyAlloc nat nat 'al
  | NMove nat nat
  | NMoveAlloc nat nat 'al
  | NFromValue nat 't 'al
  | NFromRvalue nat 't 'al
  | NAssign nat nat
  | NMoveAssign nat nat
  | NSet nat
  | NSetCopy nat 't
  | NSetMove nat 't
  | NReset nat
  | NSwap nat nat
  | NDestroy nat

text \<open>A variable comes into being by a constructor and exists for every other use.\<close>

fun nullable_scoped :: "('t, 'al) nullable_cmd \<Rightarrow> (nat \<rightharpoonup> 'al nullable) \<Rightarrow> bool" where
  "nullable_scoped (NInit x al) v \<longleftrightarrow> v x = None"
| "nullable_scoped (NCopy x y) v \<longleftrightarrow> v x = None \<and> v y \<noteq> None"
| "nullable_scoped (NCopyAlloc x y al) v \<longleftrightarrow> v x = None \<and> v y \<noteq> None"
| "nullable_scoped (NMove x y) v \<longleftrightarrow> v x = None \<and> v y \<noteq> None"
| "nullable_scoped (NMoveAlloc x y al) v \<longleftrightarrow> v x = None \<and> v y \<noteq> None"
| "nullable_scoped (NFromValue x t al) v \<longleftrightarrow> v x = None"
| "nullable_scoped (NFromRvalue x t al) v \<longleftrightarrow> v x = None"
| "nullable_scoped (NAssign x y) v \<longleftrightarrow> v x \<noteq> None \<and> v y \<noteq> None"
| "nullable_scoped (NMoveAssign x y) v \<longleftrightarrow> v x \<noteq> None \<and> v y \<noteq> None"
| "nullable_scoped (NSet x) v \<longleftrightarrow> v x \<noteq> None"
| "nullable_scoped (NSetCopy x t) v \<longleftrightarrow> v x \<noteq> None"
| "nullable_scoped (NSetMove x t) v \<longleftrightarrow> v x \<noteq> None"
| "nullable_scoped (NReset x) v \<longleftrightarrow> v x \<noteq> None"
| "nullable_scoped (NSwap x y) v \<longleftrightarrow> v x \<noteq> None \<and> v y \<noteq> None"
| "nullable_scoped (NDestroy x) v \<longleftrightarrow> v x \<noteq> None"

text \<open>\<open>store_var\<close> keeps the nullable that an operation gives for the variable, when it does not throw.\<close>

definition store_var ::
    "nat \<Rightarrow> ('t, 'al, 'al nullable) heap_op \<Rightarrow> ('t, 'al) nullable_state \<Rightarrow> (unit res \<times> ('t, 'al) nullable_state) option" where
  "store_var x f s = map_option (\<lambda>(r, m). case r of
       Inl e \<Rightarrow> (Inl e, s\<lparr>ns_blocks := m\<rparr>)
     | Inr n \<Rightarrow> (Inr (), s\<lparr>ns_vars := (ns_vars s)(x \<mapsto> n), ns_blocks := m\<rparr>)) (f (ns_blocks s))"

definition with_var :: "nat \<Rightarrow> ('al nullable \<Rightarrow> 'b option) \<Rightarrow> ('t, 'al) nullable_state \<Rightarrow> 'b option" where
  "with_var x f s = Option.bind (ns_vars s x) f"

fun nullable_exec ::
    "('t, 'al) element_ops \<Rightarrow> nat res \<Rightarrow> ('t, 'al) nullable_cmd \<Rightarrow> ('t, 'al) nullable_state \<Rightarrow>
     (unit res \<times> ('t, 'al) nullable_state) option" where
  "nullable_exec T ans (NInit x al) s = store_var x (heap_ret (nullable_init al)) s"
| "nullable_exec T ans (NCopy x y) s = with_var y (\<lambda>other. store_var x (nullable_copy T ans other) s) s"
| "nullable_exec T ans (NCopyAlloc x y al) s = with_var y (\<lambda>other. store_var x (nullable_copy_alloc T ans other al) s) s"
| "nullable_exec T ans (NMove x y) s = with_var y (\<lambda>other. case nullable_move other of (n, other) \<Rightarrow>
     Some (Inr (), s\<lparr>ns_vars := (ns_vars s)(y \<mapsto> other, x \<mapsto> n)\<rparr>)) s"
| "nullable_exec T ans (NMoveAlloc x y al) s = with_var y (\<lambda>other.
     case nullable_move_alloc T ans other al (ns_blocks s) of
       None \<Rightarrow> None
     | Some (Inl e, m) \<Rightarrow> Some (Inl e, s\<lparr>ns_blocks := m\<rparr>)
     | Some (Inr (n, other), m) \<Rightarrow> Some (Inr (), s\<lparr>ns_vars := (ns_vars s)(y \<mapsto> other, x \<mapsto> n), ns_blocks := m\<rparr>)) s"
| "nullable_exec T ans (NFromValue x t al) s = store_var x (nullable_from_value T ans t al) s"
| "nullable_exec T ans (NFromRvalue x t al) s = store_var x (nullable_from_rvalue T ans t al) s"
| "nullable_exec T ans (NAssign x y) s = with_var x (\<lambda>this. with_var y (\<lambda>other.
     store_var x (nullable_assign T ans this other) s) s) s"
| "nullable_exec T ans (NMoveAssign x y) s = with_var y (\<lambda>other. case nullable_move other of (tmp, other) \<Rightarrow>
     (let s = s\<lparr>ns_vars := (ns_vars s)(y \<mapsto> other)\<rparr>
      in with_var x (\<lambda>this. store_var x (nullable_swap_destroy tmp this) s) s)) s"
| "nullable_exec T ans (NSet x) s = with_var x (\<lambda>n. store_var x (nullable_set T ans n) s) s"
| "nullable_exec T ans (NSetCopy x t) s = with_var x (\<lambda>n. store_var x (nullable_set_copy T t ans n) s) s"
| "nullable_exec T ans (NSetMove x t) s = with_var x (\<lambda>n. store_var x (nullable_set_move T t ans n) s) s"
| "nullable_exec T ans (NReset x) s = with_var x (\<lambda>n. store_var x (\<lambda>m. map_option (map_prod Inr id) (nullable_reset n m)) s) s"
| "nullable_exec T ans (NSwap x y) s = with_var x (\<lambda>n. with_var y (\<lambda>k. case nullable_swap n k of (n, k) \<Rightarrow>
     Some (Inr (), s\<lparr>ns_vars := (ns_vars s)(x \<mapsto> n, y \<mapsto> k)\<rparr>)) s) s"
| "nullable_exec T ans (NDestroy x) s = with_var x (\<lambda>n. map_option
     (\<lambda>m. (Inr (), s\<lparr>ns_vars := (ns_vars s)(x := None), ns_blocks := m\<rparr>)) (nullable_destroy n (ns_blocks s))) s"

text \<open>
  A run of a program; the storage that the allocator hands out is not in use. \<open>lost\<close> collects the blocks
  that an extended move to a different allocator abandons.
\<close>

definition answer_ok :: "nat res \<Rightarrow> ('t, 'al) blocks \<Rightarrow> bool" where
  "answer_ok ans m \<longleftrightarrow> (\<forall>p. ans = Inr p \<longrightarrow> m p = None)"

fun nullable_abandons :: "('t, 'al) nullable_cmd \<Rightarrow> unit res \<Rightarrow> (nat \<rightharpoonup> 'al nullable) \<Rightarrow> nat set" where
  "nullable_abandons (NMoveAlloc x y al) (Inr u) v =
     (case v y of None \<Rightarrow> {} | Some n \<Rightarrow> if nb_alloc n = al then {} else set_option (nb_value n))"
| "nullable_abandons c r v = {}"

inductive nullable_run :: "('t, 'al) element_ops \<Rightarrow> ('t, 'al) nullable_state \<Rightarrow> nat set \<Rightarrow> bool" for T where
  start: "nullable_run T \<lparr>ns_vars = Map.empty, ns_blocks = Map.empty\<rparr> {}"
| step: "nullable_run T s lost \<Longrightarrow> nullable_scoped c (ns_vars s) \<Longrightarrow> answer_ok ans (ns_blocks s) \<Longrightarrow>
    nullable_exec T ans c s = Some (r, s') \<Longrightarrow> nullable_run T s' (lost \<union> nullable_abandons c r (ns_vars s))"

section \<open>Ownership\<close>

text \<open>
  Every nullable with a value has a block of its own, from an allocator equal to its own, with an object
  in it; all blocks in use are owned in this way or lost.
\<close>

definition block_of :: "(nat \<rightharpoonup> 'al nullable) \<Rightarrow> nat \<rightharpoonup> nat" where
  "block_of v x = Option.bind (v x) nb_value"

definition nullable_inv :: "(nat \<rightharpoonup> 'al nullable) \<Rightarrow> ('t, 'al) blocks \<Rightarrow> nat set \<Rightarrow> bool" where
  "nullable_inv v m lost \<longleftrightarrow>
     (\<forall>x n p. v x = Some n \<longrightarrow> nb_value n = Some p \<longrightarrow> (\<exists>t. m p = Some (nb_alloc n, Some t))) \<and>
     (\<forall>x y p. block_of v x = Some p \<longrightarrow> block_of v y = Some p \<longrightarrow> x = y) \<and>
     dom m = ran (block_of v) \<union> lost \<and> ran (block_of v) \<inter> lost = {}"

text \<open>The value that each variable stands for.\<close>

definition nullable_abs :: "(nat \<rightharpoonup> 'al nullable) \<Rightarrow> ('t, 'al) blocks \<Rightarrow> (nat \<rightharpoonup> 'al \<times> 't option)" where
  "nullable_abs v m x = map_option (\<lambda>n. (nb_alloc n, nullable_value n m)) (v x)"


section \<open>The operations on storage\<close>

lemma object_at_iff: "object_at p m = Some t \<longleftrightarrow> (\<exists>b. m p = Some (b, Some t))"
  by (auto simp: object_at_def bind_eq_Some_conv)

lemma nullable_update [simp]:
  "n\<lparr>nb_value := q\<rparr> = \<lparr>nb_alloc = nb_alloc n, nb_value = q\<rparr>" for n :: "'al nullable"
  by (cases n) simp

lemma nullable_eta [simp]: "\<lparr>nb_alloc = nb_alloc n, nb_value = nb_value n\<rparr> = n" for n :: "'al nullable"
  by (cases n) simp

lemma new_value_fails:
  "nullable_new_value (Inl e) ctor al m = Some (Inl e, m)"
  by (simp add: nullable_new_value_def allocate_block_def)

lemma new_value_from_value:
  "m p = None \<Longrightarrow> nullable_new_value (Inr p) (from_value r) al m = Some (case r of
     Inl e \<Rightarrow> (Inl e, m) | Inr t \<Rightarrow> (Inr p, m(p \<mapsto> (al, Some t))))"
  by (auto simp: nullable_new_value_def allocate_block_def from_value_def deallocate_block_def put_object_def
      fun_upd_idem split: sum.split)

lemma new_value_from_copy:
  "m p = None \<Longrightarrow> m q = Some (b, Some u) \<Longrightarrow> nullable_new_value (Inr p) (from_copy f q) al m = Some (case f u of
     Inl e \<Rightarrow> (Inl e, m) | Inr t \<Rightarrow> (Inr p, m(p \<mapsto> (al, Some t))))"
  by (auto simp: nullable_new_value_def allocate_block_def from_copy_def deallocate_block_def put_object_def
      object_at_def fun_upd_idem split: sum.split)

lemma new_value_from_move:
  assumes "m p = None" and "m q = Some (b, Some u)"
  shows "nullable_new_value (Inr p) (from_move f q) al m = Some (case f u of
     (Inl e, u') \<Rightarrow> (Inl e, m(q \<mapsto> (b, Some u')))
   | (Inr t, u') \<Rightarrow> (Inr p, m(q \<mapsto> (b, Some u'), p \<mapsto> (al, Some t))))"
proof -
  have "p \<noteq> q" using assms by auto
  with assms show ?thesis
    by (auto simp: nullable_new_value_def allocate_block_def from_move_def deallocate_block_def put_object_def
        object_at_def fun_upd_idem fun_upd_twist split: sum.split prod.split)
qed

lemmas new_value_simps = new_value_fails new_value_from_value new_value_from_copy new_value_from_move

lemma with_value_eq:
  "nullable_with_value ans ctor al m =
     map_option (map_prod (map_sum id (\<lambda>p. \<lparr>nb_alloc = al, nb_value = Some p\<rparr>)) id) (nullable_new_value ans ctor al m)"
  by (auto simp: nullable_with_value_def heap_bind_def heap_ret_def split: option.split sum.split)

lemma delete_value_eq:
  "nb_value n = Some p \<Longrightarrow> m p = Some (nb_alloc n, Some t) \<Longrightarrow> nullable_delete_value n m = Some (m(p := None))"
  by (simp add: nullable_delete_value_def destroy_object_def deallocate_block_def)

lemma reset_eq:
  "nb_value n = Some p \<Longrightarrow> m p = Some (nb_alloc n, Some t) \<Longrightarrow>
     nullable_reset n m = Some (\<lparr>nb_alloc = nb_alloc n, nb_value = None\<rparr>, m(p := None))"
  "nb_value n = None \<Longrightarrow> nullable_reset n m = Some (n, m)"
  by (simp_all add: nullable_reset_def nullable_hasvalue_def delete_value_eq)

lemma destroy_eq:
  "nb_value n = Some p \<Longrightarrow> m p = Some (nb_alloc n, Some t) \<Longrightarrow> nullable_destroy n m = Some (m(p := None))"
  "nb_value n = None \<Longrightarrow> nullable_destroy n m = Some m"
  by (simp_all add: nullable_destroy_def reset_eq)

lemma swap_eq [simp]:
  "nullable_swap x y = (y, x)" for x y :: "'al nullable"
  by (cases x; cases y) (simp add: nullable_swap_def)

lemma swap_destroy_eq:
  "nullable_swap_destroy tmp this m = map_option (\<lambda>m. (Inr tmp, m)) (nullable_destroy this m)"
  for tmp this :: "'al nullable"
  by (simp add: nullable_swap_destroy_def)

section \<open>The operations on ownership and values\<close>

lemma block_of_upd [simp]:
  "block_of (v(x \<mapsto> n)) = (block_of v)(x := nb_value n)"
  "block_of (v(x := None)) = (block_of v)(x := None)"
  by (auto simp: block_of_def fun_eq_iff)

lemma block_of_iff: "block_of v x = Some p \<longleftrightarrow> (\<exists>n. v x = Some n \<and> nb_value n = Some p)"
  by (auto simp: block_of_def bind_eq_Some_conv)

lemma nullable_invI:
  assumes "\<And>x n p. v x = Some n \<Longrightarrow> nb_value n = Some p \<Longrightarrow> \<exists>t. m p = Some (nb_alloc n, Some t)"
    and "\<And>x y p. block_of v x = Some p \<Longrightarrow> block_of v y = Some p \<Longrightarrow> x = y"
    and "dom m = ran (block_of v) \<union> lost" and "ran (block_of v) \<inter> lost = {}"
  shows "nullable_inv v m lost"
  using assms unfolding nullable_inv_def by blast

lemma nullable_invD:
  assumes "nullable_inv v m lost"
  shows "v x = Some n \<Longrightarrow> nb_value n = Some p \<Longrightarrow> \<exists>t. m p = Some (nb_alloc n, Some t)"
    and "block_of v x = Some p \<Longrightarrow> block_of v y = Some p \<Longrightarrow> x = y"
    and "dom m = ran (block_of v) \<union> lost" and "ran (block_of v) \<inter> lost = {}"
    and "block_of v x = Some p \<Longrightarrow> p \<notin> lost"
  using assms unfolding nullable_inv_def by (blast intro: ranI)+

lemma inv_not_in_use:
  "nullable_inv v m lost \<Longrightarrow> m p = None \<Longrightarrow> p \<notin> lost \<and> block_of v x \<noteq> Some p \<and> p \<notin> ran (block_of v)"
  using nullable_invD(3) [of v m lost] by (auto intro: ranI)

lemma other_block:
  "nullable_inv v m lost \<Longrightarrow> block_of v x = Some p \<Longrightarrow> v y = Some n \<Longrightarrow> y \<noteq> x \<Longrightarrow> nb_value n \<noteq> Some p"
  using nullable_invD(2) [of v m lost x p y] by (auto simp: block_of_iff)

lemma ran_clear:
  assumes "nullable_inv v m lost" and "block_of v x = Some p"
  shows "ran ((block_of v)(x := None)) = ran (block_of v) - {p}"
proof -
  have "y \<noteq> x" if "block_of v y = Some q" and "q \<noteq> p" for y q
    using that assms(2) by auto
  then show ?thesis
    using nullable_invD(2) [OF assms] by (auto simp: ran_def)
qed

text \<open>Storage that a nullable does not use has no effect on its value.\<close>

lemma nullable_value_upd [simp]: "nb_value n \<noteq> Some p \<Longrightarrow> nullable_value n (m(p := b)) = nullable_value n m"
  by (cases "nb_value n") (simp_all add: nullable_value_def object_at_def)

lemma nullable_value_own [simp]:
  "nullable_value \<lparr>nb_alloc = al, nb_value = Some p\<rparr> (m(p \<mapsto> (b, t))) = t"
  "nullable_value \<lparr>nb_alloc = al, nb_value = None\<rparr> m = None"
  by (simp_all add: nullable_value_def object_at_def)

text \<open>A new block for a variable that has none.\<close>

lemma inv_add:
  assumes inv: "nullable_inv v m lost" and m: "m p = None" and x: "block_of v x = None"
  shows "nullable_inv (v(x \<mapsto> \<lparr>nb_alloc = al, nb_value = Some p\<rparr>)) (m(p \<mapsto> (al, Some t))) lost"
proof (rule nullable_invI)
  note p = inv_not_in_use [OF inv m]
  fix y n q assume "(v(x \<mapsto> \<lparr>nb_alloc = al, nb_value = Some p\<rparr>)) y = Some n" and "nb_value n = Some q"
  then show "\<exists>u. (m(p \<mapsto> (al, Some t))) q = Some (nb_alloc n, Some u)"
    using p [of y] nullable_invD(1) [OF inv, of y n q] by (auto simp: block_of_iff split: if_splits)
next
  fix y z q
  assume "block_of (v(x \<mapsto> \<lparr>nb_alloc = al, nb_value = Some p\<rparr>)) y = Some q"
    and "block_of (v(x \<mapsto> \<lparr>nb_alloc = al, nb_value = Some p\<rparr>)) z = Some q"
  then show "y = z"
    using inv_not_in_use [OF inv m, of y] inv_not_in_use [OF inv m, of z] nullable_invD(2) [OF inv, of y q z]
    by (auto split: if_splits)
qed (use x inv_not_in_use [OF inv m] nullable_invD(3,4) [OF inv] in \<open>simp_all add: ran_map_upd\<close>)

lemma abs_add:
  assumes inv: "nullable_inv v m lost" and m: "m p = None"
  shows "nullable_abs (v(x \<mapsto> \<lparr>nb_alloc = al, nb_value = Some p\<rparr>)) (m(p \<mapsto> (al, Some t))) = (nullable_abs v m)(x \<mapsto> (al, Some t))"
proof
  fix y
  show "nullable_abs (v(x \<mapsto> \<lparr>nb_alloc = al, nb_value = Some p\<rparr>)) (m(p \<mapsto> (al, Some t))) y = ((nullable_abs v m)(x \<mapsto> (al, Some t))) y"
    using inv_not_in_use [OF inv m, of y]
    by (cases "v y") (auto simp: nullable_abs_def block_of_iff)
qed

lemma inv_empty:
  "nullable_inv v m lost \<Longrightarrow> block_of v x = None \<Longrightarrow> nullable_inv (v(x \<mapsto> \<lparr>nb_alloc = al, nb_value = None\<rparr>)) m lost"
  by (auto simp: nullable_inv_def fun_upd_idem)

lemma abs_empty: "nullable_abs (v(x \<mapsto> \<lparr>nb_alloc = al, nb_value = None\<rparr>)) m = (nullable_abs v m)(x \<mapsto> (al, None))"
  by (auto simp: nullable_abs_def fun_eq_iff nullable_value_def)

text \<open>The block of a variable is given back.\<close>

lemma inv_clear:
  assumes inv: "nullable_inv v m lost" and x: "block_of v x = Some p"
  shows "nullable_inv (v(x \<mapsto> \<lparr>nb_alloc = al, nb_value = None\<rparr>)) (m(p := None)) lost"
proof (rule nullable_invI)
  fix y n q assume "(v(x \<mapsto> \<lparr>nb_alloc = al, nb_value = None\<rparr>)) y = Some n" and "nb_value n = Some q"
  then show "\<exists>u. (m(p := None)) q = Some (nb_alloc n, Some u)"
    using nullable_invD(1) [OF inv, of y n q] nullable_invD(2) [OF inv x, of y] by (auto simp: block_of_iff split: if_splits)
next
  fix y z q
  assume "block_of (v(x \<mapsto> \<lparr>nb_alloc = al, nb_value = None\<rparr>)) y = Some q"
    and "block_of (v(x \<mapsto> \<lparr>nb_alloc = al, nb_value = None\<rparr>)) z = Some q"
  then show "y = z" using nullable_invD(2) [OF inv, of y q z] by (auto split: if_splits)
qed (use nullable_invD(3,4) [OF inv] nullable_invD(5) [OF inv x] in \<open>auto simp: ran_clear [OF inv x]\<close>)

lemma abs_clear:
  assumes inv: "nullable_inv v m lost" and x: "block_of v x = Some p"
  shows "nullable_abs (v(x \<mapsto> \<lparr>nb_alloc = al, nb_value = None\<rparr>)) (m(p := None)) = (nullable_abs v m)(x \<mapsto> (al, None))"
proof
  fix y
  show "nullable_abs (v(x \<mapsto> \<lparr>nb_alloc = al, nb_value = None\<rparr>)) (m(p := None)) y = ((nullable_abs v m)(x \<mapsto> (al, None))) y"
    using other_block [OF inv x, of y] by (cases "v y") (auto simp: nullable_abs_def)
qed

text \<open>Its block goes to another variable, or is abandoned.\<close>

lemma inv_transfer:
  assumes inv: "nullable_inv v m lost" and y: "v y = Some n" "nb_value n = Some p" and x: "block_of v x = None"
  shows "nullable_inv (v(y \<mapsto> \<lparr>nb_alloc = al, nb_value = None\<rparr>, x \<mapsto> \<lparr>nb_alloc = nb_alloc n, nb_value = Some p\<rparr>)) m lost"
proof -
  have y': "block_of v y = Some p" using y by (simp add: block_of_iff)
  have xy: "x \<noteq> y" using x y' by auto
  have mp: "m p = Some (nb_alloc n, snd (the (m p)))" using nullable_invD(1) [OF inv y] by auto
  obtain t where t: "m p = Some (nb_alloc n, Some t)" using nullable_invD(1) [OF inv y] by blast
  have "nullable_inv (v(y \<mapsto> \<lparr>nb_alloc = al, nb_value = None\<rparr>)) (m(p := None)) lost"
    by (rule inv_clear [OF inv y'])
  then have "nullable_inv (v(y \<mapsto> \<lparr>nb_alloc = al, nb_value = None\<rparr>, x \<mapsto> \<lparr>nb_alloc = nb_alloc n, nb_value = Some p\<rparr>))
      (m(p := None, p \<mapsto> (nb_alloc n, Some t))) lost"
    by (rule inv_add) (use x xy in auto)
  then show ?thesis using t by (simp add: fun_upd_idem)
qed

lemma abs_transfer:
  assumes inv: "nullable_inv v m lost" and y: "v y = Some n" "nb_value n = Some p"
  shows "nullable_abs (v(y \<mapsto> \<lparr>nb_alloc = al, nb_value = None\<rparr>, x \<mapsto> \<lparr>nb_alloc = nb_alloc n, nb_value = Some p\<rparr>)) m =
    (nullable_abs v m)(y \<mapsto> (al, None), x \<mapsto> (nb_alloc n, object_at p m))"
  by (auto simp: nullable_abs_def fun_eq_iff nullable_value_def)

lemma inv_abandon:
  assumes inv: "nullable_inv v m lost" and y: "block_of v y = Some p"
  shows "nullable_inv (v(y \<mapsto> \<lparr>nb_alloc = al, nb_value = None\<rparr>)) m (lost \<union> {p})"
proof (rule nullable_invI)
  fix x n q assume "(v(y \<mapsto> \<lparr>nb_alloc = al, nb_value = None\<rparr>)) x = Some n" and "nb_value n = Some q"
  then show "\<exists>t. m q = Some (nb_alloc n, Some t)"
    using nullable_invD(1) [OF inv, of x n q] by (auto split: if_splits)
next
  fix x z q
  assume "block_of (v(y \<mapsto> \<lparr>nb_alloc = al, nb_value = None\<rparr>)) x = Some q"
    and "block_of (v(y \<mapsto> \<lparr>nb_alloc = al, nb_value = None\<rparr>)) z = Some q"
  then show "x = z" using nullable_invD(2) [OF inv, of x q z] by (auto split: if_splits)
qed (use nullable_invD(3,4) [OF inv] y in \<open>auto simp: ran_clear [OF inv y] intro: ranI\<close>)

text \<open>An object changes, a variable without a block goes out of scope, two variables swap.\<close>

lemma inv_object:
  assumes inv: "nullable_inv v m lost" and p: "m p = Some (b, Some t)"
  shows "nullable_inv v (m(p \<mapsto> (b, Some u))) lost"
proof (rule nullable_invI)
  fix x n q assume "v x = Some n" and "nb_value n = Some q"
  then show "\<exists>t. (m(p \<mapsto> (b, Some u))) q = Some (nb_alloc n, Some t)"
    using nullable_invD(1) [OF inv, of x n q] p by auto
qed (use nullable_invD(2,3,4) [OF inv] p in \<open>auto simp: insert_absorb\<close>)

lemma abs_object:
  assumes inv: "nullable_inv v m lost" and x: "v x = Some n" "nb_value n = Some p"
  shows "nullable_abs v (m(p \<mapsto> (b, Some u))) = (nullable_abs v m)(x \<mapsto> (nb_alloc n, Some u))"
proof
  fix y
  have "block_of v x = Some p" using x by (simp add: block_of_iff)
  then show "nullable_abs v (m(p \<mapsto> (b, Some u))) y = ((nullable_abs v m)(x \<mapsto> (nb_alloc n, Some u))) y"
    using other_block [OF inv, of x p y] x
    by (cases "v y") (auto simp: nullable_abs_def nullable_value_def [of n] object_at_def)
qed

lemma inv_drop: "nullable_inv v m lost \<Longrightarrow> block_of v x = None \<Longrightarrow> nullable_inv (v(x := None)) m lost"
  by (auto simp: nullable_inv_def fun_upd_idem)

lemma abs_drop: "nullable_abs (v(x := None)) m = (nullable_abs v m)(x := None)"
  by (auto simp: nullable_abs_def fun_eq_iff)

lemma inv_swap:
  assumes inv: "nullable_inv v m lost" and x: "v x = Some n" and y: "v y = Some k"
  shows "nullable_inv (v(x \<mapsto> k, y \<mapsto> n)) m lost"
proof -
  define s where "s = (\<lambda>z. if z = x then y else if z = y then x else z)"
  have inj: "s z = s w \<Longrightarrow> z = w" and inv_s: "s (s z) = z" for z w
    by (auto simp: s_def split: if_splits)
  have v: "(v(x \<mapsto> k, y \<mapsto> n)) z = v (s z)" for z using x y by (auto simp: s_def)
  then have b: "block_of (v(x \<mapsto> k, y \<mapsto> n)) z = block_of v (s z)" for z by (simp only: block_of_def v)
  have r: "ran (block_of (v(x \<mapsto> k, y \<mapsto> n))) = ran (block_of v)"
  proof (intro equalityI subsetI)
    fix p assume "p \<in> ran (block_of v)"
    then obtain z where "block_of v (s (s z)) = Some p" by (auto simp: ran_def inv_s)
    then show "p \<in> ran (block_of (v(x \<mapsto> k, y \<mapsto> n)))" unfolding b [symmetric] by (rule ranI)
  qed (auto simp: ran_def b simp del: block_of_upd)
  show ?thesis
    using nullable_invD(1) [OF inv] nullable_invD(2) [OF inv] nullable_invD(3,4) [OF inv]
    unfolding nullable_inv_def v b r by (blast dest: inj)
qed

lemma abs_swap:
  "nullable_abs (v(x \<mapsto> k, y \<mapsto> n)) m = (nullable_abs v m)(x \<mapsto> (nb_alloc k, nullable_value k m), y \<mapsto> (nb_alloc n, nullable_value n m))"
  by (auto simp: nullable_abs_def fun_eq_iff)

section \<open>The specification: an optional value with an allocator\<close>

text \<open>A command on variables that hold an allocator and perhaps a value; no storage is involved.\<close>

definition spec_put :: "nat \<Rightarrow> 'al \<Rightarrow> 't res \<Rightarrow> (nat \<rightharpoonup> 'al \<times> 't option) \<Rightarrow> unit res \<times> (nat \<rightharpoonup> 'al \<times> 't option)" where
  "spec_put x al r v = (case r of Inl e \<Rightarrow> (Inl e, v) | Inr t \<Rightarrow> (Inr (), v(x \<mapsto> (al, Some t))))"

definition spec_copy :: "('t \<Rightarrow> 't res) \<Rightarrow> nat \<Rightarrow> 'al \<Rightarrow> 't option \<Rightarrow> (nat \<rightharpoonup> 'al \<times> 't option) \<Rightarrow>
    unit res \<times> (nat \<rightharpoonup> 'al \<times> 't option)" where
  "spec_copy f x al w v = (case w of None \<Rightarrow> (Inr (), v(x \<mapsto> (al, None))) | Some t \<Rightarrow> spec_put x al (f t) v)"

definition spec_assign :: "'t res \<Rightarrow> ('t \<Rightarrow> unit res \<times> 't) \<Rightarrow> nat \<Rightarrow> 'al \<times> 't option \<Rightarrow> (nat \<rightharpoonup> 'al \<times> 't option) \<Rightarrow>
    unit res \<times> (nat \<rightharpoonup> 'al \<times> 't option)" where
  "spec_assign c f x a v = (case a of (al, None) \<Rightarrow> spec_put x al c v
     | (al, Some t) \<Rightarrow> case f t of (r, t') \<Rightarrow> (r, v(x \<mapsto> (al, Some t'))))"

fun nullable_spec :: "('t, 'al) element_ops \<Rightarrow> ('t, 'al) nullable_cmd \<Rightarrow> (nat \<rightharpoonup> 'al \<times> 't option) \<Rightarrow>
    unit res \<times> (nat \<rightharpoonup> 'al \<times> 't option)" where
  "nullable_spec T (NInit x al) v = (Inr (), v(x \<mapsto> (al, None)))"
| "nullable_spec T (NCopy x y) v = (case the (v y) of (al, w) \<Rightarrow> spec_copy (el_copy T) x al w v)"
| "nullable_spec T (NCopyAlloc x y b) v = spec_copy (\<lambda>t. el_copy_alloc T t b) x b (snd (the (v y))) v"
| "nullable_spec T (NMove x y) v = (case the (v y) of (al, w) \<Rightarrow> (Inr (), v(y \<mapsto> (al, None), x \<mapsto> (al, w))))"
| "nullable_spec T (NMoveAlloc x y b) v = (case the (v y) of
       (al, None) \<Rightarrow> (Inr (), v(x \<mapsto> (b, None)))
     | (al, Some t) \<Rightarrow> if al = b then (Inr (), v(y \<mapsto> (al, None), x \<mapsto> (b, Some t)))
         else (case el_move_alloc T t b of (Inl e, t') \<Rightarrow> (Inl e, v(y \<mapsto> (al, Some t')))
                 | (Inr u, t') \<Rightarrow> (Inr (), v(y \<mapsto> (al, None), x \<mapsto> (b, Some u)))))"
| "nullable_spec T (NFromValue x t al) v = spec_put x al (el_copy T t) v"
| "nullable_spec T (NFromRvalue x t al) v = spec_put x al (fst (el_move T t)) v"
| "nullable_spec T (NAssign x y) v = (case the (v y) of (al, w) \<Rightarrow> spec_copy (el_copy T) x al w v)"
| "nullable_spec T (NMoveAssign x y) v = (case the (v y) of (al, w) \<Rightarrow> (Inr (), v(y \<mapsto> (al, None), x \<mapsto> (al, w))))"
| "nullable_spec T (NSet x) v = spec_assign
     (if el_uses_allocator T then el_init_alloc T (fst (the (v x))) else el_init T) (\<lambda>t. (Inr (), t)) x (the (v x)) v"
| "nullable_spec T (NSetCopy x w) v = spec_assign (el_copy T w) (\<lambda>t. el_copy_assign T t w) x (the (v x)) v"
| "nullable_spec T (NSetMove x w) v = spec_assign (fst (el_move T w)) (\<lambda>t. el_move_assign T t w) x (the (v x)) v"
| "nullable_spec T (NReset x) v = (Inr (), v(x \<mapsto> (fst (the (v x)), None)))"
| "nullable_spec T (NSwap x y) v = (Inr (), v(x := v y, y := v x))"
| "nullable_spec T (NDestroy x) v = (Inr (), v(x := None))"

text \<open>
  What a command may give: an outcome and a state that owns all its blocks but the lost ones, with the
  values of the specification, or with the old ones when the allocator has thrown.
\<close>

definition step_ok ::
    "(unit res \<Rightarrow> nat set) \<Rightarrow> nat res \<Rightarrow> unit res \<times> (nat \<rightharpoonup> 'al \<times> 't option) \<Rightarrow> (nat \<rightharpoonup> 'al \<times> 't option) \<Rightarrow>
     (unit res \<times> ('t, 'al) nullable_state) option \<Rightarrow> bool" where
  "step_ok lost ans spec old out \<longleftrightarrow> (case out of None \<Rightarrow> False | Some (r, s) \<Rightarrow>
     nullable_inv (ns_vars s) (ns_blocks s) (lost r) \<and>
     (spec = (r, nullable_abs (ns_vars s) (ns_blocks s)) \<or>
      (\<exists>e. ans = Inl e \<and> r = Inl e \<and> nullable_abs (ns_vars s) (ns_blocks s) = old)))"

text \<open>The shape of an operation that constructs a value in new storage.\<close>

definition puts :: "nat res \<Rightarrow> 't res \<Rightarrow> 'al \<Rightarrow> ('t, 'al) blocks \<Rightarrow> ('al nullable res \<times> ('t, 'al) blocks)" where
  "puts ans r al m = (case ans of Inl e \<Rightarrow> (Inl e, m)
     | Inr p \<Rightarrow> (case r of Inl e \<Rightarrow> (Inl e, m) | Inr t \<Rightarrow> (Inr \<lparr>nb_alloc = al, nb_value = Some p\<rparr>, m(p \<mapsto> (al, Some t)))))"

lemma with_value_puts:
  "answer_ok ans m \<Longrightarrow> nullable_with_value ans (from_value r) al m = Some (puts ans r al m)"
  "answer_ok ans m \<Longrightarrow> m q = Some (b, Some u) \<Longrightarrow> nullable_with_value ans (from_copy f q) al m = Some (puts ans (f u) al m)"
  by (auto simp: puts_def answer_ok_def with_value_eq new_value_simps split: sum.split)

lemma store_puts:
  assumes inv: "nullable_inv (ns_vars s) (ns_blocks s) lost" and ans: "answer_ok ans (ns_blocks s)"
    and x: "block_of (ns_vars s) x = None" and f: "f (ns_blocks s) = Some (puts ans r al (ns_blocks s))"
  shows "step_ok (\<lambda>_. lost) ans (spec_put x al r (nullable_abs (ns_vars s) (ns_blocks s))) (nullable_abs (ns_vars s) (ns_blocks s)) (store_var x f s)"
  using inv ans inv_add [OF inv _ x] abs_add [OF inv]
  by (auto simp: step_ok_def store_var_def f puts_def spec_put_def answer_ok_def split: sum.split)

lemma abs_var: "v x = Some n \<Longrightarrow> nullable_abs v m x = Some (nb_alloc n, nullable_value n m)"
  by (simp add: nullable_abs_def)

lemma store_empty:
  assumes "nullable_inv (ns_vars s) (ns_blocks s) lost" and "block_of (ns_vars s) x = None"
  shows "step_ok (\<lambda>_. lost) ans (Inr (), (nullable_abs (ns_vars s) (ns_blocks s))(x \<mapsto> (al, None))) old
    (store_var x (heap_ret (nullable_init al)) s)"
  using inv_empty [OF assms] by (simp add: step_ok_def store_var_def heap_ret_def nullable_init_def abs_empty)

text \<open>Constructors that copy.\<close>

lemma store_copy:
  assumes inv: "nullable_inv (ns_vars s) (ns_blocks s) lost" and ans: "answer_ok ans (ns_blocks s)"
    and x: "block_of (ns_vars s) x = None" and y: "ns_vars s y = Some n"
    and f: "f = (case nb_value n of None \<Rightarrow> heap_ret (nullable_init al) | Some q \<Rightarrow> nullable_with_value ans (from_copy g q) al)"
  shows "step_ok (\<lambda>_. lost) ans (spec_copy g x al (nullable_value n (ns_blocks s)) (nullable_abs (ns_vars s) (ns_blocks s)))
    (nullable_abs (ns_vars s) (ns_blocks s)) (store_var x f s)"
proof (cases "nb_value n")
  case None
  then show ?thesis
    using store_empty [OF inv x] by (simp add: f nullable_value_def spec_copy_def)
next
  case (Some q)
  then obtain t where t: "ns_blocks s q = Some (nb_alloc n, Some t)" using nullable_invD(1) [OF inv y] by auto
  with Some show ?thesis
    using store_puts [OF inv ans x, of "nullable_with_value ans (from_copy g q) al", OF with_value_puts(2) [OF ans t]]
    by (simp add: f nullable_value_def object_at_def spec_copy_def)
qed

lemma exec_constructors:
  assumes inv: "nullable_inv (ns_vars s) (ns_blocks s) lost" and ans: "answer_ok ans (ns_blocks s)"
    and sc: "nullable_scoped c (ns_vars s)"
    and c: "c = NInit x al \<or> c = NCopy x y \<or> c = NCopyAlloc x y al \<or> c = NFromValue x t al \<or> c = NFromRvalue x t al"
  shows "step_ok (\<lambda>_. lost) ans (nullable_spec T c (nullable_abs (ns_vars s) (ns_blocks s)))
    (nullable_abs (ns_vars s) (ns_blocks s)) (nullable_exec T ans c s)"
proof -
  have x: "block_of (ns_vars s) x = None" using sc c by (auto simp: block_of_def)
  have from_value: "step_ok (\<lambda>_. lost) ans (spec_put x a r (nullable_abs (ns_vars s) (ns_blocks s)))
      (nullable_abs (ns_vars s) (ns_blocks s)) (store_var x (nullable_with_value ans (from_value r) a) s)" for a r
    by (rule store_puts [OF inv ans x]) (simp add: with_value_puts(1) [OF ans])
  note copy = store_copy [OF inv ans x _ nullable_copy_def [of T ans]]
  note copy_alloc = store_copy [OF inv ans x _ nullable_copy_alloc_def [of T ans]]
  show ?thesis
    using c sc store_empty [OF inv x] from_value copy [of y] copy_alloc [of y]
    by (auto simp: with_var_def abs_var nullable_from_value_def nullable_from_rvalue_def)
qed

text \<open>Assignments: the old block of the target is given back once the new one is constructed.\<close>

lemma inv_replace:
  assumes inv: "nullable_inv v m lost" and p: "m p = None" and x: "block_of v x = Some q"
  shows "nullable_inv (v(x \<mapsto> \<lparr>nb_alloc = al, nb_value = Some p\<rparr>)) (m(p \<mapsto> (al, Some t), q := None)) lost"
    and "nullable_abs (v(x \<mapsto> \<lparr>nb_alloc = al, nb_value = Some p\<rparr>)) (m(p \<mapsto> (al, Some t), q := None)) = (nullable_abs v m)(x \<mapsto> (al, Some t))"
proof -
  have pq: "p \<noteq> q" using inv_not_in_use [OF inv p, of x] x by auto
  note clear = inv_clear [OF inv x, of al] abs_clear [OF inv x, of al]
  have "nullable_inv (v(x \<mapsto> \<lparr>nb_alloc = al, nb_value = None\<rparr>, x \<mapsto> \<lparr>nb_alloc = al, nb_value = Some p\<rparr>)) (m(q := None, p \<mapsto> (al, Some t))) lost"
    by (rule inv_add [OF clear(1)]) (use p in auto)
  moreover have "nullable_abs (v(x \<mapsto> \<lparr>nb_alloc = al, nb_value = None\<rparr>, x \<mapsto> \<lparr>nb_alloc = al, nb_value = Some p\<rparr>)) (m(q := None, p \<mapsto> (al, Some t))) =
      (nullable_abs v m)(x \<mapsto> (al, None), x \<mapsto> (al, Some t))"
    unfolding clear(2) [symmetric] by (rule abs_add [OF clear(1)]) (use p in auto)
  ultimately show "nullable_inv (v(x \<mapsto> \<lparr>nb_alloc = al, nb_value = Some p\<rparr>)) (m(p \<mapsto> (al, Some t), q := None)) lost"
    and "nullable_abs (v(x \<mapsto> \<lparr>nb_alloc = al, nb_value = Some p\<rparr>)) (m(p \<mapsto> (al, Some t), q := None)) = (nullable_abs v m)(x \<mapsto> (al, Some t))"
    using pq by (simp_all add: fun_upd_twist)
qed

lemma exec_assign:
  assumes inv: "nullable_inv (ns_vars s) (ns_blocks s) lost" and ans: "answer_ok ans (ns_blocks s)"
    and x: "ns_vars s x = Some this" and y: "ns_vars s y = Some n"
  shows "step_ok (\<lambda>_. lost) ans (nullable_spec T (NAssign x y) (nullable_abs (ns_vars s) (ns_blocks s)))
    (nullable_abs (ns_vars s) (ns_blocks s)) (nullable_exec T ans (NAssign x y) s)"
proof (cases "nb_value this")
  case None
  then have b: "block_of (ns_vars s) x = None" using x by (simp add: block_of_def)
  have "nullable_assign T ans this n = nullable_copy T ans n"
    using None by (auto simp: nullable_assign_def heap_bind_def swap_destroy_eq destroy_eq fun_eq_iff split: option.split sum.split)
  then show ?thesis
    using store_copy [OF inv ans b y refl, where al = "nb_alloc n" and g = "el_copy T"] x y
    by (simp add: with_var_def abs_var nullable_copy_def)
next
  case (Some q)
  then have b: "block_of (ns_vars s) x = Some q" using x by (simp add: block_of_def)
  obtain u where u: "ns_blocks s q = Some (nb_alloc this, Some u)" using nullable_invD(1) [OF inv x Some] by blast
  show ?thesis
  proof (cases "nb_value n")
    case None
    with Some show ?thesis
      using inv_clear [OF inv b] abs_clear [OF inv b] x y u
      by (simp add: with_var_def abs_var nullable_assign_def nullable_copy_def heap_bind_def heap_ret_def swap_destroy_eq destroy_eq
          nullable_init_def store_var_def step_ok_def spec_copy_def nullable_value_def)
  next
    fix p assume p: "nb_value n = Some p"
    obtain t where t: "ns_blocks s p = Some (nb_alloc n, Some t)" using nullable_invD(1) [OF inv y p] by blast
    have ne: "q \<noteq> r" if "ans = Inr r" for r using that ans u by (auto simp: answer_ok_def)
    show ?thesis
      using inv ans x y p u t Some ne inv_replace [OF inv _ b, of _ "nb_alloc n"]
      by (auto simp: with_var_def abs_var nullable_assign_def nullable_copy_def heap_bind_def with_value_puts(2) [OF ans t] puts_def
          swap_destroy_eq destroy_eq store_var_def step_ok_def spec_copy_def spec_put_def nullable_value_def object_at_def
          answer_ok_def split: sum.split)
  qed
qed

text \<open>Moves.\<close>

lemma move_eq: "nullable_move n = (n, \<lparr>nb_alloc = nb_alloc n, nb_value = None\<rparr>)" for n :: "'al nullable"
  by (cases n) (simp add: nullable_move_def)

lemma inv_move:
  assumes inv: "nullable_inv v m lost" and y: "v y = Some n" and x: "block_of v x = None" and xy: "x \<noteq> y"
  shows "nullable_inv (v(y \<mapsto> \<lparr>nb_alloc = nb_alloc n, nb_value = None\<rparr>, x \<mapsto> n)) m lost"
    and "nullable_abs (v(y \<mapsto> \<lparr>nb_alloc = nb_alloc n, nb_value = None\<rparr>, x \<mapsto> n)) m =
      (nullable_abs v m)(y \<mapsto> (nb_alloc n, None), x \<mapsto> (nb_alloc n, nullable_value n m))"
proof -
  have n: "n = \<lparr>nb_alloc = nb_alloc n, nb_value = nb_value n\<rparr>" by simp
  show "nullable_inv (v(y \<mapsto> \<lparr>nb_alloc = nb_alloc n, nb_value = None\<rparr>, x \<mapsto> n)) m lost"
  proof (cases "nb_value n")
    case None
    then have "block_of v y = None" using y by (simp add: block_of_def)
    from inv_empty [OF inv this] have "nullable_inv (v(y \<mapsto> \<lparr>nb_alloc = nb_alloc n, nb_value = None\<rparr>)) m lost" .
    from inv_empty [OF this] x xy None show ?thesis by (metis block_of_upd(1) fun_upd_other n)
  next
    case (Some p)
    from inv_transfer [OF inv y this x, of "nb_alloc n"] show ?thesis using Some by (metis n)
  qed
  show "nullable_abs (v(y \<mapsto> \<lparr>nb_alloc = nb_alloc n, nb_value = None\<rparr>, x \<mapsto> n)) m =
      (nullable_abs v m)(y \<mapsto> (nb_alloc n, None), x \<mapsto> (nb_alloc n, nullable_value n m))"
    by (auto simp: nullable_abs_def fun_eq_iff)
qed

lemma exec_move:
  assumes inv: "nullable_inv (ns_vars s) (ns_blocks s) lost" and x: "ns_vars s x = None" and y: "ns_vars s y = Some n"
  shows "step_ok (\<lambda>_. lost) ans (nullable_spec T (NMove x y) (nullable_abs (ns_vars s) (ns_blocks s)))
    (nullable_abs (ns_vars s) (ns_blocks s)) (nullable_exec T ans (NMove x y) s)"
proof -
  have "x \<noteq> y" and "block_of (ns_vars s) x = None" using x y by (auto simp: block_of_def)
  then show ?thesis using inv_move [OF inv y] y by (simp add: with_var_def abs_var move_eq step_ok_def)
qed

text \<open>The target of a move assignment gives its block back and then gets the other one; moving to itself changes nothing.\<close>

lemma exec_move_assign:
  assumes inv: "nullable_inv (ns_vars s) (ns_blocks s) lost" and x: "ns_vars s x = Some this" and y: "ns_vars s y = Some n"
  shows "step_ok (\<lambda>_. lost) ans (nullable_spec T (NMoveAssign x y) (nullable_abs (ns_vars s) (ns_blocks s)))
    (nullable_abs (ns_vars s) (ns_blocks s)) (nullable_exec T ans (NMoveAssign x y) s)"
proof (cases "x = y")
  case True
  then have "n = this" using x y by simp
  then show ?thesis using True inv x
    by (auto simp: with_var_def abs_var move_eq step_ok_def swap_destroy_eq destroy_eq store_var_def fun_upd_idem)
next
  case False
  show ?thesis
  proof (cases "nb_value this")
    case None
    then have "block_of (ns_vars s) x = None" using x by (simp add: block_of_def)
    with None show ?thesis using inv_move [OF inv y _ False] x y False
      by (simp add: with_var_def abs_var move_eq step_ok_def swap_destroy_eq destroy_eq store_var_def)
  next
    case (Some q)
    then have b: "block_of (ns_vars s) x = Some q" using x by (simp add: block_of_def)
    obtain u where u: "ns_blocks s q = Some (nb_alloc this, Some u)" using nullable_invD(1) [OF inv x Some] by blast
    note clear = inv_clear [OF inv b, of "nb_alloc n"] abs_clear [OF inv b, of "nb_alloc n"]
    let ?v = "(ns_vars s)(x \<mapsto> \<lparr>nb_alloc = nb_alloc n, nb_value = None\<rparr>)"
    have y': "?v y = Some n" and "block_of ?v x = None" using y False by simp_all
    note m = inv_move [OF clear(1) this False]
    have val: "nullable_value n ((ns_blocks s)(q := None)) = nullable_value n (ns_blocks s)"
      using other_block [OF inv b y] False by simp
    show ?thesis using m Some x y u False
      by (simp add: with_var_def abs_var move_eq step_ok_def swap_destroy_eq destroy_eq store_var_def clear(2) val fun_upd_twist)
  qed
qed

lemma exec_move_alloc:
  assumes inv: "nullable_inv (ns_vars s) (ns_blocks s) lost" and ans: "answer_ok ans (ns_blocks s)"
    and x: "ns_vars s x = None" and y: "ns_vars s y = Some n"
  shows "step_ok (\<lambda>r. lost \<union> nullable_abandons (NMoveAlloc x y al) r (ns_vars s)) ans
    (nullable_spec T (NMoveAlloc x y al) (nullable_abs (ns_vars s) (ns_blocks s)))
    (nullable_abs (ns_vars s) (ns_blocks s)) (nullable_exec T ans (NMoveAlloc x y al) s)"
proof (cases "nb_alloc n = al")
  case True
  have xy: "x \<noteq> y" and b: "block_of (ns_vars s) x = None" using x y by (auto simp: block_of_def)
  have "nullable_value n (ns_blocks s) = None \<Longrightarrow> (nullable_abs (ns_vars s) (ns_blocks s))(y \<mapsto> (al, None)) = nullable_abs (ns_vars s) (ns_blocks s)"
    using y True by (simp add: abs_var fun_upd_idem)
  then show ?thesis using inv_move [OF inv y b xy] y True
    by (auto simp: with_var_def abs_var nullable_move_alloc_def heap_bind_def heap_ret_def step_ok_def split: option.split)
next
  case False
  have b: "block_of (ns_vars s) x = None" using x by (simp add: block_of_def)
  have xy: "x \<noteq> y" using x y by auto
  show ?thesis
  proof (cases "nb_value n")
    case None
    then have "\<lparr>nb_alloc = nb_alloc n, nb_value = None\<rparr> = n" by (cases n) simp
    then show ?thesis using inv_empty [OF inv b] None False x y xy
      by (simp add: with_var_def abs_var nullable_move_alloc_def heap_bind_def heap_ret_def step_ok_def nullable_init_def
          nullable_value_def abs_empty fun_upd_idem)
  next
    case (Some q)
    obtain u where u: "ns_blocks s q = Some (nb_alloc n, Some u)" using nullable_invD(1) [OF inv y Some] by blast
    have bq: "block_of (ns_vars s) y = Some q" using y Some by (simp add: block_of_def)
    obtain r u' where mv: "el_move_alloc T u al = (r, u')" by fastforce
    note object = inv_object [OF inv u, of u'] abs_object [OF inv y Some, of "nb_alloc n" u']
    note abandon = inv_abandon [OF object(1) bq, of "nb_alloc n"]
    have val: "nullable_value n (ns_blocks s) = Some u" using Some u by (simp add: nullable_value_def object_at_def)
    show ?thesis
    proof (cases ans)
      case (Inl e)
      then show ?thesis using inv y Some False by (simp add: with_var_def abs_var nullable_move_alloc_def heap_bind_def with_value_eq
          new_value_simps step_ok_def)
    next
      case (Inr p)
      then have p: "ns_blocks s p = None" using ans by (simp add: answer_ok_def)
      note new = new_value_from_move [of "ns_blocks s" p q "nb_alloc n" u, OF p u]
      have pq: "p \<noteq> q" using p u by auto
      let ?v = "(ns_vars s)(y \<mapsto> \<lparr>nb_alloc = nb_alloc n, nb_value = None\<rparr>)"
      have "block_of ?v x = None" using b xy by simp
      note added = inv_add [OF abandon _ this, of p al] abs_add [OF abandon, of p x al]
      have "nullable_abs ?v ((ns_blocks s)(q \<mapsto> (nb_alloc n, Some u'))) = (nullable_abs (ns_vars s) (ns_blocks s))(y \<mapsto> (nb_alloc n, None))"
        by (simp add: abs_empty object)
      then show ?thesis
        using added object p pq Inr y Some False mv val new [of "\<lambda>t. el_move_alloc T t al" al]
        by (cases r) (simp_all add: with_var_def abs_var nullable_move_alloc_def heap_bind_def heap_ret_def with_value_eq step_ok_def)
    qed
  qed
qed

text \<open>Set, reset, swap and the destructor.\<close>

lemma exec_set_to:
  assumes inv: "nullable_inv (ns_vars s) (ns_blocks s) lost" and ans: "answer_ok ans (ns_blocks s)" and x: "ns_vars s x = Some n"
  shows "step_ok (\<lambda>_. lost) ans (spec_assign c f x (nb_alloc n, nullable_value n (ns_blocks s)) (nullable_abs (ns_vars s) (ns_blocks s)))
    (nullable_abs (ns_vars s) (ns_blocks s)) (store_var x (nullable_set_to c f ans n) s)"
proof (cases "nb_value n")
  case None
  then have b: "block_of (ns_vars s) x = None" using x by (simp add: block_of_def)
  have "nullable_set_to c f ans n = nullable_with_value ans (from_value c) (nb_alloc n)"
    using None by (simp add: nullable_set_to_def nullable_with_value_def fun_eq_iff)
  then show ?thesis
    using store_puts [OF inv ans b, of "nullable_set_to c f ans n" c "nb_alloc n"] None
    by (simp add: with_value_puts(1) [OF ans] nullable_value_def spec_assign_def)
next
  case (Some p)
  then obtain t where t: "ns_blocks s p = Some (nb_alloc n, Some t)" using nullable_invD(1) [OF inv x] by auto
  obtain r t' where f: "f t = (r, t')" by fastforce
  show ?thesis
    using inv_object [OF inv t, of t'] abs_object [OF inv x Some, of _ t'] Some t f x
    by (cases r) (simp_all add: nullable_set_to_def object_at_def nullable_value_def put_object_def spec_assign_def store_var_def
        step_ok_def fun_upd_idem)
qed

lemma exec_set:
  assumes inv: "nullable_inv (ns_vars s) (ns_blocks s) lost" and ans: "answer_ok ans (ns_blocks s)" and x: "ns_vars s x = Some n"
  shows "step_ok (\<lambda>_. lost) ans (nullable_spec T (NSet x) (nullable_abs (ns_vars s) (ns_blocks s)))
    (nullable_abs (ns_vars s) (ns_blocks s)) (nullable_exec T ans (NSet x) s)"
proof -
  let ?c = "if el_uses_allocator T then el_init_alloc T (nb_alloc n) else el_init T"
  have "nullable_set T ans n (ns_blocks s) = nullable_set_to ?c (\<lambda>t. (Inr (), t)) ans n (ns_blocks s)"
  proof (cases "nb_value n")
    case None
    then show ?thesis
      by (simp add: nullable_set_def nullable_set_to_def nullable_set_value_def nullable_empty_def nullable_hasvalue_def)
  next
    case (Some p)
    then obtain t where "ns_blocks s p = Some (nb_alloc n, Some t)" using nullable_invD(1) [OF inv x] by auto
    with Some show ?thesis
      by (simp add: nullable_set_def nullable_set_to_def nullable_empty_def nullable_hasvalue_def heap_ret_def object_at_def
          put_object_def fun_upd_idem)
  qed
  then have "store_var x (nullable_set T ans n) s = store_var x (nullable_set_to ?c (\<lambda>t. (Inr (), t)) ans n) s"
    by (simp add: store_var_def)
  with exec_set_to [OF inv ans x, of ?c "\<lambda>t. (Inr (), t)"] x show ?thesis
    by (cases "el_uses_allocator T") (simp_all add: with_var_def abs_var)
qed

lemma exec_reset_destroy:
  assumes inv: "nullable_inv (ns_vars s) (ns_blocks s) lost" and x: "ns_vars s x = Some n" and c: "c = NReset x \<or> c = NDestroy x"
  shows "step_ok (\<lambda>_. lost) ans (nullable_spec T c (nullable_abs (ns_vars s) (ns_blocks s)))
    (nullable_abs (ns_vars s) (ns_blocks s)) (nullable_exec T ans c s)"
proof (cases "nb_value n")
  case None
  then have b: "block_of (ns_vars s) x = None" and n: "n = \<lparr>nb_alloc = nb_alloc n, nb_value = None\<rparr>"
    using x by (cases n, simp_all add: block_of_def)
  show ?thesis
    using c inv_drop [OF inv b] inv x None abs_empty [of "ns_vars s" x "nb_alloc n" "ns_blocks s"] n
    by (auto simp: with_var_def abs_var reset_eq destroy_eq store_var_def step_ok_def abs_drop fun_upd_idem)
next
  case (Some p)
  then have b: "block_of (ns_vars s) x = Some p" using x by (simp add: block_of_def)
  obtain t where t: "ns_blocks s p = Some (nb_alloc n, Some t)" using nullable_invD(1) [OF inv x Some] by blast
  note clear = inv_clear [OF inv b, of "nb_alloc n"] abs_clear [OF inv b, of "nb_alloc n"]
  note drop = inv_drop [OF clear(1), of x]
    abs_drop [where v = "(ns_vars s)(x \<mapsto> \<lparr>nb_alloc = nb_alloc n, nb_value = None\<rparr>)" and x = x and m = "(ns_blocks s)(p := None)"]
  show ?thesis
    using c clear drop x Some t
    by (auto simp: with_var_def abs_var reset_eq destroy_eq store_var_def step_ok_def)
qed

lemma exec_swap:
  assumes inv: "nullable_inv (ns_vars s) (ns_blocks s) lost" and x: "ns_vars s x = Some n" and y: "ns_vars s y = Some k"
  shows "step_ok (\<lambda>_. lost) ans (nullable_spec T (NSwap x y) (nullable_abs (ns_vars s) (ns_blocks s)))
    (nullable_abs (ns_vars s) (ns_blocks s)) (nullable_exec T ans (NSwap x y) s)"
  using inv_swap [OF inv x y] x y by (simp add: with_var_def abs_var step_ok_def abs_swap)

section \<open>Runs\<close>

lemma nullable_exec_ok:
  assumes inv: "nullable_inv (ns_vars s) (ns_blocks s) lost" and ans: "answer_ok ans (ns_blocks s)"
    and sc: "nullable_scoped c (ns_vars s)"
  shows "step_ok (\<lambda>r. lost \<union> nullable_abandons c r (ns_vars s)) ans (nullable_spec T c (nullable_abs (ns_vars s) (ns_blocks s)))
    (nullable_abs (ns_vars s) (ns_blocks s)) (nullable_exec T ans c s)"
proof (cases c)
  case (NMoveAlloc x y al)
  with sc exec_move_alloc [OF inv ans, of x y] show ?thesis by auto
next
  case (NAssign x y)
  with sc exec_assign [OF inv ans, of x _ y] show ?thesis by (auto simp del: nullable_spec.simps nullable_exec.simps)
next
  case (NMove x y)
  with sc exec_move [OF inv, of x y] show ?thesis by (auto simp del: nullable_spec.simps nullable_exec.simps)
next
  case (NMoveAssign x y)
  with sc exec_move_assign [OF inv, of x _ y] show ?thesis by (auto simp del: nullable_spec.simps nullable_exec.simps)
next
  case (NSwap x y)
  with sc exec_swap [OF inv, of x _ y] show ?thesis by (auto simp del: nullable_spec.simps nullable_exec.simps)
next
  case (NSet x)
  with sc exec_set [OF inv ans, of x] show ?thesis by (auto simp del: nullable_spec.simps nullable_exec.simps)
next
  case (NSetCopy x t)
  with sc exec_set_to [OF inv ans, of x] show ?thesis by (auto simp: with_var_def abs_var nullable_set_copy_def)
next
  case (NSetMove x t)
  with sc exec_set_to [OF inv ans, of x] show ?thesis by (auto simp: with_var_def abs_var nullable_set_move_def)
next
  case (NReset x)
  with sc exec_reset_destroy [OF inv, of x _ c] show ?thesis by (auto simp del: nullable_spec.simps nullable_exec.simps)
next
  case (NDestroy x)
  with sc exec_reset_destroy [OF inv, of x _ c] show ?thesis by (auto simp del: nullable_spec.simps nullable_exec.simps)
qed (use sc exec_constructors [OF inv ans sc] in \<open>auto simp del: nullable_spec.simps nullable_exec.simps\<close>)

lemma nullable_run_inv: "nullable_run T s lost \<Longrightarrow> nullable_inv (ns_vars s) (ns_blocks s) lost"
proof (induction rule: nullable_run.induct)
  case start
  then show ?case by (simp add: nullable_inv_def block_of_def ran_def)
next
  case (step s lost c ans r s')
  from nullable_exec_ok [OF step.IH step.hyps(3,2), of T] step.hyps(4) show ?case by (simp add: step_ok_def)
qed

lemma nullable_run_step:
  "nullable_run T s lost \<Longrightarrow> nullable_scoped c (ns_vars s) \<Longrightarrow> answer_ok ans (ns_blocks s) \<Longrightarrow>
     nullable_exec T ans c s = Some (r, s') \<Longrightarrow> lost' = lost \<union> nullable_abandons c r (ns_vars s) \<Longrightarrow> nullable_run T s' lost'"
  using nullable_run.step by blast

section \<open>A nullable as a list\<close>

definition nullable_container_size :: "'al nullable \<Rightarrow> u32" where
  "nullable_container_size n = (if nullable_empty n then 0 else 1)"

definition nullable_resize_list ::
    "('t, 'al) element_ops \<Rightarrow> nat res \<Rightarrow> 'al nullable \<Rightarrow> u32 \<Rightarrow> ('t, 'al, 'al nullable) heap_op" where
  "nullable_resize_list T ans n count m = (if count \<noteq> 0 then nullable_set T ans n m
     else map_option (map_prod Inr id) (nullable_reset n m))"

text \<open>The enumerator; \<open>next\<close> asserts that there is a value.\<close>

record 'al nullable_enumerator =
  ne_value :: "'al nullable"
  ne_more :: bool

definition nullable_enumerator_init :: "'al nullable \<Rightarrow> 'al nullable_enumerator" where
  "nullable_enumerator_init n = \<lparr>ne_value = n, ne_more = nullable_hasvalue n\<rparr>"

definition nullable_next ::
    "'al nullable_enumerator \<Rightarrow> ('t, 'al) blocks \<Rightarrow> ('t \<times> 'al nullable_enumerator) option" where
  "nullable_next e m = map_option (\<lambda>t. (t, e\<lparr>ne_more := False\<rparr>)) (nullable_value (ne_value e) m)"

lemma nullable_next_more: "nullable_next e m = Some (t, e') \<Longrightarrow> \<not> ne_more e'"
  by (auto simp: nullable_next_def)

text \<open>The loop \<open>while (items.more()) items.next()\<close> of the code that enumerates a container.\<close>

function nullable_enumerate :: "'al nullable_enumerator \<Rightarrow> ('t, 'al) blocks \<Rightarrow> 't list option" where
  "nullable_enumerate e m = (if ne_more e
     then (case nullable_next e m of None \<Rightarrow> None | Some (t, e') \<Rightarrow> map_option ((#) t) (nullable_enumerate e' m))
     else Some [])"
  by auto
termination by (relation "measure (\<lambda>(e, m). of_bool (ne_more e))") (auto dest: nullable_next_more)

declare nullable_enumerate.simps [simp del]

lemma nullable_enumerate_done: "\<not> ne_more e \<Longrightarrow> nullable_enumerate e m = Some []"
  by (simp add: nullable_enumerate.simps)

lemma enumerate_value:
  assumes "nullable_inv v m lost" and "v x = Some n"
  shows "nullable_enumerate (nullable_enumerator_init n) m = Some (case nullable_value n m of None \<Rightarrow> [] | Some t \<Rightarrow> [t])"
proof (cases "nb_value n")
  case None
  then show ?thesis
    by (simp add: nullable_enumerate.simps nullable_enumerator_init_def nullable_hasvalue_def nullable_value_def)
next
  case (Some p)
  then obtain t where "m p = Some (nb_alloc n, Some t)" using nullable_invD(1) [OF assms] by blast
  with Some show ?thesis
    by (simp add: nullable_enumerate.simps [of "\<lparr>ne_value = n, ne_more = True\<rparr>"] nullable_enumerate_done nullable_enumerator_init_def
        nullable_hasvalue_def nullable_value_def object_at_def nullable_next_def)
qed

text \<open>\<open>operator==\<close> compares the values where both exist.\<close>

definition nullable_equal :: "('t \<Rightarrow> 't \<Rightarrow> bool) \<Rightarrow> 'al nullable \<Rightarrow> 'al nullable \<Rightarrow> ('t, 'al) blocks \<Rightarrow> bool option" where
  "nullable_equal eq x y m = (if nullable_hasvalue x \<noteq> nullable_hasvalue y then Some False
     else if \<not> nullable_hasvalue x then Some True
     else (case (nullable_value x m, nullable_value y m) of (Some t, Some u) \<Rightarrow> Some (eq t u) | _ \<Rightarrow> None))"

section \<open>A concrete element type\<close>

text \<open>An element type for the witnesses: numbers, which a move sets to 0.\<close>

definition plain_element :: "(nat, 'al) element_ops" where
  "plain_element = \<lparr>el_uses_allocator = False, el_init = Inr 0, el_init_alloc = (\<lambda>_. Inr 0), el_copy = Inr,
     el_copy_alloc = (\<lambda>t _. Inr t), el_move = (\<lambda>t. (Inr t, 0)), el_move_alloc = (\<lambda>t _. (Inr t, 0)),
     el_copy_assign = (\<lambda>_ t. (Inr (), t)), el_move_assign = (\<lambda>_ t. (Inr (), t))\<rparr>"

text \<open>A run with two variables: 0 has the value \<open>t\<close>, 1 was moved from.\<close>

lemma sample_run:
  assumes "el_copy T t = Inr u"
  shows "nullable_run T \<lparr>ns_vars = [1 \<mapsto> \<lparr>nb_alloc = a, nb_value = None\<rparr>, 0 \<mapsto> \<lparr>nb_alloc = a, nb_value = Some p\<rparr>],
    ns_blocks = [p \<mapsto> (a, Some u)]\<rparr> {}"
proof -
  let ?s0 = "\<lparr>ns_vars = Map.empty, ns_blocks = Map.empty\<rparr>"
  let ?s1 = "\<lparr>ns_vars = [1 \<mapsto> \<lparr>nb_alloc = a, nb_value = Some p\<rparr>], ns_blocks = [p \<mapsto> (a, Some u)]\<rparr>"
  have "nullable_run T ?s1 {}"
    by (rule nullable_run_step [OF nullable_run.start, of "NFromValue 1 t a" "Inr p" _ "Inr ()"])
       (simp_all add: assms answer_ok_def store_var_def nullable_from_value_def with_value_eq new_value_simps)
  then show ?thesis
    by (rule nullable_run_step [of _ _ _ "NMove 0 1" "Inl BadAlloc" "Inr ()"])
       (simp_all add: answer_ok_def with_var_def move_eq)
qed

end
