(* ===== verification/Maybe.thy ===== *)
theory Maybe
  imports Nullable Serializer
begin

text \<open>
  The class templates that hold a value in place: \<^verbatim>\<open>maybe<T>\<close> of \<^verbatim>\<open>src/cpp/inc/bond/core/maybe.h\<close>, the type of
  fields whose default is \<^verbatim>\<open>nothing\<close>, and the first specialization of \<^verbatim>\<open>nullable<T>\<close>, for basic types, strings and
  containers. Both wrap a \<^verbatim>\<open>boost::optional\<close>, whose operations are an argument of the model.
\<close>

section \<open>The operations of an optional\<close>

text \<open>
  Copy and move construction, assignment and \<open>emplace\<close>, which destroys the value of its target before it constructs
  the new one. A move gives the result and what is left of the source; an assignment gives the
  outcome and the new target, a move assignment also the source.
\<close>

record 't optional_ops =
  op_copy :: "'t option \<Rightarrow> 't option res"
  op_move :: "'t option \<Rightarrow> 't option res \<times> 't option"
  op_copy_assign :: "'t option \<Rightarrow> 't option \<Rightarrow> unit res \<times> 't option"
  op_move_assign :: "'t option \<Rightarrow> 't option \<Rightarrow> unit res \<times> 't option \<times> 't option"
  op_emplace :: "'t option \<Rightarrow> 't res \<Rightarrow> unit res \<times> 't option"

text \<open>
  What its documentation promises: a copy or move has a value exactly if the source has one, a source
  that was moved from still has its (moved-from) value, and \<open>emplace\<close> leaves the constructed value, or nothing
  when the constructor throws.
\<close>

definition optional_laws :: "'t optional_ops \<Rightarrow> bool" where
  "optional_laws P \<longleftrightarrow>
     (\<forall>v u. op_copy P v = Inr u \<longrightarrow> (u = None \<longleftrightarrow> v = None)) \<and>
     (\<forall>v u v'. op_move P v = (Inr u, v') \<longrightarrow> (u = None \<longleftrightarrow> v = None) \<and> (v' = None \<longleftrightarrow> v = None)) \<and>
     (\<forall>w v u. op_copy_assign P w v = (Inr (), u) \<longrightarrow> (u = None \<longleftrightarrow> v = None)) \<and>
     (\<forall>w v u v'. op_move_assign P w v = (Inr (), u, v') \<longrightarrow> (u = None \<longleftrightarrow> v = None) \<and> (v' = None \<longleftrightarrow> v = None)) \<and>
     (\<forall>v t. op_emplace P v (Inr t) = (Inr (), Some t)) \<and> (\<forall>v e. op_emplace P v (Inl e) = (Inl e, None))"

lemma optional_lawsD:
  assumes "optional_laws P"
  shows "op_copy P v = Inr u \<Longrightarrow> u = None \<longleftrightarrow> v = None"
    and "op_move P v = (Inr u, v') \<Longrightarrow> (u = None \<longleftrightarrow> v = None) \<and> (v' = None \<longleftrightarrow> v = None)"
    and "op_copy_assign P w v = (Inr x, u) \<Longrightarrow> u = None \<longleftrightarrow> v = None"
    and "op_move_assign P w v = (Inr x, u, v') \<Longrightarrow> (u = None \<longleftrightarrow> v = None) \<and> (v' = None \<longleftrightarrow> v = None)"
    and "op_emplace P v (Inr t) = (Inr (), Some t)" and "op_emplace P v (Inl e) = (Inl e, None)"
  using assms unfolding optional_laws_def by (simp, metis, simp, metis old.unit.exhaust, simp, simp)

text \<open>An instance: an optional over an element type whose moves are described by its operations.\<close>

definition sample_optional :: "('t, 'al) element_ops \<Rightarrow> 't optional_ops" where
  "sample_optional T = \<lparr>
     op_copy = (\<lambda>v. case v of None \<Rightarrow> Inr None | Some t \<Rightarrow> map_sum id Some (el_copy T t)),
     op_move = (\<lambda>v. case v of None \<Rightarrow> (Inr None, None) | Some t \<Rightarrow> map_prod (map_sum id Some) Some (el_move T t)),
     op_copy_assign = (\<lambda>w v. case v of None \<Rightarrow> (Inr (), None) | Some t \<Rightarrow> (case el_copy T t of Inl e \<Rightarrow> (Inl e, w) | Inr u \<Rightarrow> (Inr (), Some u))),
     op_move_assign = (\<lambda>w v. case v of None \<Rightarrow> (Inr (), None, None)
        | Some t \<Rightarrow> (case el_move T t of (Inl e, t') \<Rightarrow> (Inl e, w, Some t') | (Inr u, t') \<Rightarrow> (Inr (), Some u, Some t'))),
     op_emplace = (\<lambda>_ r. case r of Inl e \<Rightarrow> (Inl e, None) | Inr t \<Rightarrow> (Inr (), Some t))\<rparr>"

lemma sample_optional_laws: "optional_laws (sample_optional T)"
  by (auto simp: optional_laws_def sample_optional_def map_sum_def map_prod_def split: option.splits sum.splits prod.splits)

section \<open>The common base of maybe\<close>

definition mc_with_value :: "'t optional_ops \<Rightarrow> 't res \<Rightarrow> 't option res" where
  "mc_with_value P r = (case op_emplace P None r of (Inl e, _) \<Rightarrow> Inl e | (Inr _, v) \<Rightarrow> Inr v)"

definition mc_move :: "'t optional_ops \<Rightarrow> 't option \<Rightarrow> 't option res \<times> 't option" where
  "mc_move P that = (case op_move P that of (Inl e, that) \<Rightarrow> (Inl e, that) | (Inr v, that) \<Rightarrow> (Inr v, None))"

definition mc_is_nothing :: "'t option \<Rightarrow> bool" where
  "mc_is_nothing v \<longleftrightarrow> v = None"

definition mc_set_nothing :: "'t option \<Rightarrow> 't option" where
  "mc_set_nothing v = None"

definition mc_emplace :: "'t optional_ops \<Rightarrow> 't res \<Rightarrow> 't option \<Rightarrow> unit res \<times> 't option" where
  "mc_emplace P r v = op_emplace P v r"

definition mc_value :: "'t option \<Rightarrow> 't res" where
  "mc_value v = (if mc_is_nothing v then Inl NothingException else Inr (the v))"

text \<open>\<open>value(std::nothrow)\<close> only asserts that there is a value.\<close>

definition mc_value_nothrow :: "'t option \<Rightarrow> 't res" where
  "mc_value_nothrow v = (if mc_is_nothing v then Inl AssertionFailed else Inr (the v))"

definition mc_equal :: "('t \<Rightarrow> 't \<Rightarrow> bool) \<Rightarrow> 't option \<Rightarrow> 't option \<Rightarrow> bool" where
  "mc_equal eq lhs rhs = (case (lhs, rhs) of (None, None) \<Rightarrow> True | (Some a, Some b) \<Rightarrow> eq a b | _ \<Rightarrow> False)"

definition mc_equal_value :: "('t \<Rightarrow> 't \<Rightarrow> bool) \<Rightarrow> 't option \<Rightarrow> 't \<Rightarrow> bool" where
  "mc_equal_value eq lhs rhs = (case lhs of None \<Rightarrow> False | Some a \<Rightarrow> eq a rhs)"

text \<open>The assignments are the defaults, those of the optional.\<close>

definition mc_copy_assign :: "'t optional_ops \<Rightarrow> 't option \<Rightarrow> 't option \<Rightarrow> unit res \<times> 't option" where
  "mc_copy_assign P this that = op_copy_assign P this that"

definition mc_move_assign :: "'t optional_ops \<Rightarrow> 't option \<Rightarrow> 't option \<Rightarrow> unit res \<times> 't option \<times> 't option" where
  "mc_move_assign P this that = op_move_assign P this that"

section \<open>The maybe of a type with allocators\<close>

text \<open>The maybe of a type without allocators has the same operations less those with an allocator.\<close>

record ('t, 'al) maybe =
  my_value :: "'t option"
  my_alloc :: 'al

definition maybe_init :: "'al \<Rightarrow> ('t, 'al) maybe" where
  "maybe_init al = \<lparr>my_value = None, my_alloc = al\<rparr>"

definition maybe_copy :: "'t optional_ops \<Rightarrow> ('t, 'al) maybe \<Rightarrow> ('t, 'al) maybe res" where
  "maybe_copy P that = map_sum id (\<lambda>v. \<lparr>my_value = v, my_alloc = my_alloc that\<rparr>) (op_copy P (my_value that))"

definition maybe_move :: "'t optional_ops \<Rightarrow> ('t, 'al) maybe \<Rightarrow> ('t, 'al) maybe res \<times> ('t, 'al) maybe" where
  "maybe_move P that = (case mc_move P (my_value that) of
     (r, left) \<Rightarrow> (map_sum id (\<lambda>v. \<lparr>my_value = v, my_alloc = my_alloc that\<rparr>) r, that\<lparr>my_value := left\<rparr>))"

definition maybe_emplaced :: "'t optional_ops \<Rightarrow> 't res \<Rightarrow> 'al \<Rightarrow> ('t, 'al) maybe res" where
  "maybe_emplaced P r al = map_sum id (\<lambda>v. \<lparr>my_value = v, my_alloc = al\<rparr>) (mc_with_value P r)"

definition maybe_copy_alloc ::
    "'t optional_ops \<Rightarrow> ('t, 'al) element_ops \<Rightarrow> ('t, 'al) maybe \<Rightarrow> 'al \<Rightarrow> ('t, 'al) maybe res" where
  "maybe_copy_alloc P T that al = (if mc_is_nothing (my_value that) then Inr (maybe_init al)
     else maybe_emplaced P (el_copy_alloc T (the (my_value that)) al) al)"

definition maybe_move_alloc ::
    "'t optional_ops \<Rightarrow> ('t, 'al) element_ops \<Rightarrow> ('t, 'al) maybe \<Rightarrow> 'al \<Rightarrow> ('t, 'al) maybe res \<times> ('t, 'al) maybe" where
  "maybe_move_alloc P T that al = (if mc_is_nothing (my_value that) then (Inr (maybe_init al), that)
     else case el_move_alloc T (the (my_value that)) al of (r, t') \<Rightarrow>
       (case maybe_emplaced P r al of Inl e \<Rightarrow> (Inl e, that\<lparr>my_value := Some t'\<rparr>)
          | Inr n \<Rightarrow> (Inr n, that\<lparr>my_value := None\<rparr>)))"

text \<open>A maybe made from a value has a default allocator, whatever the value uses.\<close>

definition maybe_from_value :: "'t optional_ops \<Rightarrow> ('t, 'al) element_ops \<Rightarrow> 'al \<Rightarrow> 't \<Rightarrow> ('t, 'al) maybe res" where
  "maybe_from_value P T dflt t = maybe_emplaced P (el_copy T t) dflt"

definition maybe_from_rvalue :: "'t optional_ops \<Rightarrow> ('t, 'al) element_ops \<Rightarrow> 'al \<Rightarrow> 't \<Rightarrow> ('t, 'al) maybe res" where
  "maybe_from_rvalue P T dflt t = maybe_emplaced P (fst (el_move T t)) dflt"

definition maybe_copy_assign :: "'t optional_ops \<Rightarrow> ('t, 'al) maybe \<Rightarrow> ('t, 'al) maybe \<Rightarrow> unit res \<times> ('t, 'al) maybe" where
  "maybe_copy_assign P this that = (case mc_copy_assign P (my_value this) (my_value that) of
       (Inl e, v) \<Rightarrow> (Inl e, this\<lparr>my_value := v\<rparr>)
     | (Inr u, v) \<Rightarrow> (Inr u, this\<lparr>my_value := v, my_alloc := my_alloc that\<rparr>))"

definition maybe_move_assign ::
    "'t optional_ops \<Rightarrow> ('t, 'al) maybe \<Rightarrow> ('t, 'al) maybe \<Rightarrow> unit res \<times> ('t, 'al) maybe \<times> ('t, 'al) maybe" where
  "maybe_move_assign P this that = (case mc_move_assign P (my_value this) (my_value that) of
       (Inl e, v, left) \<Rightarrow> (Inl e, this\<lparr>my_value := v\<rparr>, that\<lparr>my_value := left\<rparr>)
     | (Inr u, v, left) \<Rightarrow> (Inr u, this\<lparr>my_value := v, my_alloc := my_alloc that\<rparr>, that\<lparr>my_value := left\<rparr>))"

definition maybe_assign_value :: "'t optional_ops \<Rightarrow> 't res \<Rightarrow> ('t, 'al) maybe \<Rightarrow> unit res \<times> ('t, 'al) maybe" where
  "maybe_assign_value P r this = map_prod id (\<lambda>v. this\<lparr>my_value := v\<rparr>) (mc_emplace P r (my_value this))"

definition maybe_set_value :: "'t optional_ops \<Rightarrow> ('t, 'al) element_ops \<Rightarrow> ('t, 'al) maybe \<Rightarrow> unit res \<times> ('t, 'al) maybe" where
  "maybe_set_value P T this = (if mc_is_nothing (my_value this)
     then map_prod id (\<lambda>v. this\<lparr>my_value := v\<rparr>) (mc_emplace P (el_init_alloc T (my_alloc this)) (my_value this))
     else (Inr (), this))"

definition maybe_swap :: "('t, 'al) maybe \<Rightarrow> ('t, 'al) maybe \<Rightarrow> ('t, 'al) maybe \<times> ('t, 'al) maybe" where
  "maybe_swap x y = (x\<lparr>my_value := my_value y, my_alloc := my_alloc y\<rparr>, y\<lparr>my_value := my_value x, my_alloc := my_alloc x\<rparr>)"

section \<open>The nullable that holds its value in place\<close>

record ('t, 'al) nullable_in_place =
  nv_value :: "'t option"
  nv_alloc :: 'al

definition nv_init :: "'al \<Rightarrow> ('t, 'al) nullable_in_place" where
  "nv_init al = \<lparr>nv_value = None, nv_alloc = al\<rparr>"

definition nv_hasvalue :: "('t, 'al) nullable_in_place \<Rightarrow> bool" where
  "nv_hasvalue n \<longleftrightarrow> nv_value n \<noteq> None"

definition nv_copy_alloc ::
    "'t optional_ops \<Rightarrow> ('t, 'al) element_ops \<Rightarrow> ('t, 'al) nullable_in_place \<Rightarrow> 'al \<Rightarrow> ('t, 'al) nullable_in_place res" where
  "nv_copy_alloc P T other al = (if nv_hasvalue other
     then (case op_emplace P None (el_copy_alloc T (the (nv_value other)) al) of
         (Inl e, _) \<Rightarrow> Inl e | (Inr _, v) \<Rightarrow> Inr \<lparr>nv_value = v, nv_alloc = al\<rparr>)
     else Inr (nv_init al))"

definition nv_move ::
    "'t optional_ops \<Rightarrow> ('t, 'al) nullable_in_place \<Rightarrow> ('t, 'al) nullable_in_place res \<times> ('t, 'al) nullable_in_place" where
  "nv_move P other = (case op_move P (nv_value other) of
       (Inl e, left) \<Rightarrow> (Inl e, other\<lparr>nv_value := left\<rparr>)
     | (Inr v, left) \<Rightarrow> (Inr \<lparr>nv_value = v, nv_alloc = nv_alloc other\<rparr>, other\<lparr>nv_value := None\<rparr>))"

text \<open>The allocator is the one of the value, if the type has one.\<close>

definition nv_from_value ::
    "'t res \<Rightarrow> ('t \<Rightarrow> 'al) \<Rightarrow> ('t, 'al) element_ops \<Rightarrow> 'al \<Rightarrow> 't \<Rightarrow> ('t, 'al) nullable_in_place res" where
  "nv_from_value r get_allocator T dflt t = map_sum id
     (\<lambda>v. \<lparr>nv_value = Some v, nv_alloc = if el_uses_allocator T then get_allocator t else dflt\<rparr>) r"

text \<open>The move assignment, of another nullable.\<close>

definition nv_move_assign ::
    "'t optional_ops \<Rightarrow> ('t, 'al) nullable_in_place \<Rightarrow> ('t, 'al) nullable_in_place \<Rightarrow>
     unit res \<times> ('t, 'al) nullable_in_place \<times> ('t, 'al) nullable_in_place" where
  "nv_move_assign P this other = (let this = this\<lparr>nv_alloc := nv_alloc other\<rparr>
     in case op_move_assign P (nv_value this) (nv_value other) of
       (Inl e, v, left) \<Rightarrow> (Inl e, this\<lparr>nv_value := v\<rparr>, other\<lparr>nv_value := left\<rparr>)
     | (Inr u, v, left) \<Rightarrow> (Inr u, this\<lparr>nv_value := v\<rparr>, other\<lparr>nv_value := None\<rparr>))"

definition nv_set :: "'t optional_ops \<Rightarrow> ('t, 'al) element_ops \<Rightarrow> ('t, 'al) nullable_in_place \<Rightarrow> unit res \<times> ('t, 'al) nullable_in_place" where
  "nv_set P T n = (if nv_hasvalue n then (Inr (), n)
     else map_prod id (\<lambda>v. n\<lparr>nv_value := v\<rparr>) (op_emplace P (nv_value n)
       (if el_uses_allocator T then el_init_alloc T (nv_alloc n) else el_init T)))"

definition nv_reset :: "('t, 'al) nullable_in_place \<Rightarrow> ('t, 'al) nullable_in_place" where
  "nv_reset n = n\<lparr>nv_value := None\<rparr>"

definition nv_swap ::
    "('t, 'al) nullable_in_place \<Rightarrow> ('t, 'al) nullable_in_place \<Rightarrow> ('t, 'al) nullable_in_place \<times> ('t, 'al) nullable_in_place" where
  "nv_swap x y = (x\<lparr>nv_alloc := nv_alloc y, nv_value := nv_value y\<rparr>, y\<lparr>nv_alloc := nv_alloc x, nv_value := nv_value x\<rparr>)"

definition nv_set_to :: "'t optional_ops \<Rightarrow> 't res \<Rightarrow> ('t \<Rightarrow> unit res \<times> 't) \<Rightarrow> ('t, 'al) nullable_in_place \<Rightarrow>
    unit res \<times> ('t, 'al) nullable_in_place" where
  "nv_set_to P construct assign n = (case nv_value n of
       None \<Rightarrow> (case construct of Inl e \<Rightarrow> (Inl e, n) | Inr t \<Rightarrow> (Inr (), n\<lparr>nv_value := Some t\<rparr>))
     | Some t \<Rightarrow> (case assign t of (r, t') \<Rightarrow> (r, n\<lparr>nv_value := Some t'\<rparr>)))"

section \<open>What is left of the source of a move\<close>

lemma mc_move_Inr:
  assumes "optional_laws P" and "mc_move P that = (Inr v, left)"
  shows "left = None \<and> (v = None \<longleftrightarrow> that = None)"
  using assms optional_lawsD(2) [OF assms(1), of that]
  by (auto simp: mc_move_def split: prod.splits sum.splits)

lemma maybe_move_Inr:
  assumes "optional_laws P" and "maybe_move P that = (Inr n, left)"
  shows "my_value left = None \<and> my_alloc n = my_alloc that \<and> (my_value n = None \<longleftrightarrow> my_value that = None)"
  using assms mc_move_Inr [OF assms(1)]
  by (auto simp: maybe_move_def map_sum_def split: prod.splits sum.splits)

lemma maybe_emplaced_Inr:
  assumes "optional_laws P" and "maybe_emplaced P r al = Inr n"
  shows "\<exists>t. r = Inr t \<and> n = \<lparr>my_value = Some t, my_alloc = al\<rparr>"
  using assms optional_lawsD(5,6) [OF assms(1)]
  by (cases r) (auto simp: maybe_emplaced_def mc_with_value_def)

lemma maybe_move_alloc_Inr:
  assumes "optional_laws P" and "maybe_move_alloc P T that al = (Inr n, left)"
  shows "my_value left = None \<and> my_alloc n = al \<and> (my_value n = None \<longleftrightarrow> my_value that = None)"
  using assms maybe_emplaced_Inr [OF assms(1)]
  by (fastforce simp: maybe_move_alloc_def mc_is_nothing_def maybe_init_def split: prod.splits sum.splits if_splits)

lemma maybe_move_assign_Inr:
  assumes "optional_laws P" and "maybe_move_assign P this that = (Inr u, n, left)"
  shows "(my_value left = None \<longleftrightarrow> my_value that = None) \<and> my_alloc n = my_alloc that \<and> (my_value n = None \<longleftrightarrow> my_value that = None)"
  using assms optional_lawsD(4) [OF assms(1), of "my_value this" "my_value that"]
  by (auto simp: maybe_move_assign_def mc_move_assign_def split: prod.splits sum.splits)

text \<open>The nullable is empty after both moves.\<close>

lemma nv_moved_from:
  "nv_move P other = (Inr n, left) \<Longrightarrow> nv_value left = None"
  "nv_move_assign P this other = (Inr u, n', left) \<Longrightarrow> nv_value left = None"
  by (auto simp: nv_move_def nv_move_assign_def Let_def split: prod.splits sum.splits)

end
