(* ===== verification/Random_Reader.thy ===== *)
theory Random_Reader
  imports Bond_Prelude
begin

text \<open>
  The protocol of \<^verbatim>\<open>src/cpp/inc/bond/protocol/random_protocol.h\<close>, which reads values that a pseudo-random
  generator makes up: its generator and the reading of basic values, strings, blobs and sizes of containers.
\<close>

section \<open>The generator\<close>

text \<open>The state is a static array of two 64-bit words; \<open>Next\<close> is a variant of xorshift.\<close>

type_synonym random_state = "u64 \<times> u64"

definition rp_seed1 :: u64 where "rp_seed1 = 234578354"

definition rp_seed2 :: u64 where "rp_seed2 = 753478"

definition rp_Seed :: "u64 \<Rightarrow> u64 \<Rightarrow> (random_state, unit) st" where
  "rp_Seed s0 s1 state = Inr ((), (s0, s1))"

definition rp_Next :: "(random_state, u64) st" where
  "rp_Next state = (case state of (s1, s0) \<Rightarrow>
     let s1 = s1 XOR push_bit 23 s1;
         t = s1 XOR s0 XOR drop_bit 17 s1 XOR drop_bit 26 s0
     in Inr (t + s0, (s0, t)))"

section \<open>The reader\<close>

record RandomProtocolReader =
  rp_max_string_length :: u32
  rp_max_list_size :: u32
  rp_json :: bool

text \<open>\<open>Read\<close> of a trivially copyable type takes the low bytes of one random number.\<close>

definition rp_Read :: "(random_state, 'a::len word) st" where
  "rp_Read = bind rp_Next (\<lambda>random. ret (ucast random))"

definition rp_Read_uint64 :: "RandomProtocolReader \<Rightarrow> (random_state, u64) st" where
  "rp_Read_uint64 r = bind rp_Next (\<lambda>value. ret (if rp_json r then drop_bit 1 value else value))"

definition rp_Read_bool :: "(random_state, bool) st" where
  "rp_Read_bool = bind rp_Read (\<lambda>n. ret (0 < sint (n :: 8 word)))"

text \<open>Floating point numbers are their bits.\<close>

definition rp_Read_double :: "(random_state, u64) st" where
  "rp_Read_double = bind rp_Read (\<lambda>sign :: u8. bind rp_Read (\<lambda>exponent :: u8. bind rp_Read (\<lambda>mantissa :: u32.
     let exponent = if exponent = 0 then 0x80 else exponent
     in ret (push_bit 63 (ucast sign) OR push_bit (52 + 3) (ucast exponent) OR ucast mantissa))))"

definition rp_Read_float :: "(random_state, u32) st" where
  "rp_Read_float = bind rp_Read (\<lambda>sign :: u8. bind rp_Read (\<lambda>exponent :: u8. bind rp_Read (\<lambda>mantissa :: u16.
     let exponent = if exponent = 0 \<or> exponent = 0xff then 0x80 else exponent
     in ret (push_bit 31 (ucast sign) OR push_bit 23 (ucast exponent) OR ucast mantissa))))"

text \<open>A size below a limit, at least 1; the remainder by a limit of 0 is undefined.\<close>

definition rp_size :: "u32 \<Rightarrow> (random_state, u32) st" where
  "rp_size limit = bind rp_Read (\<lambda>n. if limit = 0 then throw AssertionFailed
     else let n = n mod limit in ret (if n \<noteq> 0 then n else 1))"

definition rp_Read_char :: "(random_state, 'c::len word) st" where
  "rp_Read_char = bind rp_Read (\<lambda>c :: u8. ret (of_nat (32 + unat c mod (122 - 32))))"

definition rp_Read_string :: "RandomProtocolReader \<Rightarrow> (random_state, 'c::len word list) st" where
  "rp_Read_string r = bind (rp_size (rp_max_string_length r)) (\<lambda>length. collect_st (unat length) rp_Read_char)"

definition rp_Read_blob :: "u32 \<Rightarrow> (random_state, byte list) st" where
  "rp_Read_blob n = collect_st (unat n) rp_Read"

definition rp_ReadContainerBegin :: "RandomProtocolReader \<Rightarrow> (random_state, u32) st" where
  "rp_ReadContainerBegin r = rp_size (rp_max_list_size r)"

section \<open>The generator is invertible\<close>

definition rp_unshift_left :: "u64 \<Rightarrow> u64" where
  "rp_unshift_left y = y XOR push_bit 23 y XOR push_bit 46 y"

definition rp_unshift_right :: "u64 \<Rightarrow> u64" where
  "rp_unshift_right y = y XOR drop_bit 17 y XOR drop_bit 34 y XOR drop_bit 51 y"

lemma unshift_left: "rp_unshift_left (x XOR push_bit 23 x) = x"
proof -
  have "push_bit 69 x = 0" by (simp add: bit_eq_iff bit_simps)
  then show ?thesis
    by (simp add: rp_unshift_left_def push_bit_xor push_bit_push_bit ac_simps)
qed

lemma unshift_right: "rp_unshift_right (x XOR drop_bit 17 x) = x"
proof -
  have "drop_bit 68 x = 0" by (simp add: bit_eq_iff bit_simps bit_word.rep_eq)
  then show ?thesis
    by (simp add: rp_unshift_right_def drop_bit_xor drop_bit_drop_bit ac_simps)
qed

definition rp_previous :: "random_state \<Rightarrow> random_state" where
  "rp_previous state = (case state of (s0, t) \<Rightarrow>
     (rp_unshift_left (rp_unshift_right (t XOR s0 XOR drop_bit 26 s0)), s0))"

lemma previous_Next:
  assumes "rp_Next s = Inr (x, s')"
  shows "rp_previous s' = s"
proof -
  obtain a b where s: "s = (a, b)" by fastforce
  let ?u = "a XOR push_bit 23 a"
  have s': "s' = (b, ?u XOR b XOR drop_bit 17 ?u XOR drop_bit 26 b)" using assms s by (simp add: rp_Next_def Let_def)
  have "(?u XOR b XOR drop_bit 17 ?u XOR drop_bit 26 b) XOR b XOR drop_bit 26 b = ?u XOR drop_bit 17 ?u"
    by (simp add: ac_simps)
  then show ?thesis by (simp only: rp_previous_def s s' prod.case unshift_right unshift_left)
qed

text \<open>Hence every state has exactly one predecessor, and the zero state is only its own.\<close>

definition rp_step :: "random_state \<Rightarrow> random_state" where
  "rp_step s = (case rp_Next s of Inr (x, s') \<Rightarrow> s' | Inl e \<Rightarrow> s)"

lemma Next_step: "\<exists>x. rp_Next s = Inr (x, rp_step s)"
  by (auto simp: rp_step_def rp_Next_def Let_def split: prod.split)

lemma previous_step [simp]: "rp_previous (rp_step s) = s"
  using Next_step [of s] previous_Next by blast

lemma bij_step: "bij rp_step"
proof -
  have "inj rp_step" by (rule inj_on_inverseI [of _ rp_previous]) simp
  then show ?thesis by (simp add: bij_def finite_UNIV_inj_surj)
qed

lemma step_zero: "rp_step (0, 0) = (0, 0)"
  by (simp add: rp_step_def rp_Next_def)

lemma step_eq_zero: "rp_step s = (0, 0) \<longleftrightarrow> s = (0, 0)"
  using previous_step [of s] previous_step [of "(0, 0)"] by (metis step_zero)

section \<open>The values that are read\<close>

lemma rp_Read_Inr: "\<exists>x s'. rp_Read s = Inr (x, s')"
  using Next_step [of s] by (auto simp: rp_Read_def bind_def ret_def)

text \<open>\<open>all_of P m\<close>: the operation succeeds in every state, with a result that satisfies \<open>P\<close>.\<close>

definition all_of :: "('a \<Rightarrow> bool) \<Rightarrow> (random_state, 'a) st \<Rightarrow> bool" where
  "all_of P m \<longleftrightarrow> (\<forall>s. \<exists>x s'. m s = Inr (x, s') \<and> P x)"

lemma all_ofD: "all_of P m \<Longrightarrow> \<exists>x s'. m s = Inr (x, s') \<and> P x"
  unfolding all_of_def by blast

lemma all_of_Read: "all_of (\<lambda>_. True) rp_Read"
  unfolding all_of_def using rp_Read_Inr by blast

lemma all_of_Next: "all_of (\<lambda>_. True) rp_Next"
  unfolding all_of_def using Next_step by blast

lemma all_of_ret: "P x \<Longrightarrow> all_of P (ret x)"
  by (simp add: all_of_def ret_def)

lemma all_of_bind: "all_of Q m \<Longrightarrow> (\<And>x. Q x \<Longrightarrow> all_of P (f x)) \<Longrightarrow> all_of P (bind m f)"
  unfolding all_of_def bind_def by (metis (no_types, lifting) old.prod.case sum.case(2))

lemma all_of_weaken: "all_of Q m \<Longrightarrow> (\<And>x. Q x \<Longrightarrow> P x) \<Longrightarrow> all_of P m"
  unfolding all_of_def by metis

lemma all_of_collect: "all_of P m \<Longrightarrow> all_of (\<lambda>xs. length xs = n \<and> list_all P xs) (collect_st n m)"
proof (induction n)
  case (Suc n)
  show ?case unfolding collect_st.simps
    by (rule all_of_bind [OF Suc.prems], rule all_of_bind [OF Suc.IH [OF Suc.prems]], rule all_of_ret) simp
qed (simp add: all_of_ret)

lemma rp_size_range:
  assumes "0 < limit"
  shows "all_of (\<lambda>n. 1 \<le> unat n \<and> unat n \<le> max 1 (unat limit - 1)) (rp_size limit)"
  unfolding rp_size_def
proof (rule all_of_bind [OF all_of_Read])
  fix n :: u32
  have "0 < unat limit" using assms by (simp add: word_less_nat_alt)
  then have "unat (n mod limit) < unat limit" by (simp add: unat_mod)
  moreover have "n mod limit \<noteq> 0 \<Longrightarrow> 0 < unat (n mod limit)" by (simp add: unat_gt_0)
  ultimately show "all_of (\<lambda>n. 1 \<le> unat n \<and> unat n \<le> max 1 (unat limit - 1))
      (if limit = 0 then throw AssertionFailed else let n = n mod limit in ret (if n \<noteq> 0 then n else 1))"
    using assms by (auto simp: Let_def intro!: all_of_ret)
qed

lemma rp_size_zero: "rp_size 0 s = Inl AssertionFailed"
proof -
  obtain n s' where "(rp_Read :: (random_state, u32) st) s = Inr (n, s')" using rp_Read_Inr by blast
  then show ?thesis by (simp add: rp_size_def bind_def throw_def)
qed

text \<open>The exponent fields of the formats of 64 and 32 bits.\<close>

definition double_exponent :: "u64 \<Rightarrow> u64" where
  "double_exponent x = take_bit 11 (drop_bit 52 x)"

definition float_exponent :: "u32 \<Rightarrow> u32" where
  "float_exponent x = take_bit 8 (drop_bit 23 x)"

lemma double_exponent_eq:
  fixes sign e :: u8 and m :: u32
  shows "double_exponent (push_bit 63 (ucast sign) OR push_bit (52 + 3) (ucast e) OR ucast m) = push_bit 3 (ucast e)"
  by (rule bit_eqI) (auto simp: double_exponent_def bit_simps dest: bit_imp_le_length)

lemma float_exponent_eq:
  fixes sign e :: u8 and m :: u16
  shows "float_exponent (push_bit 31 (ucast sign) OR push_bit 23 (ucast e) OR ucast m) = ucast e"
  by (rule bit_eqI) (auto simp: float_exponent_def bit_simps dest: bit_imp_le_length)

lemma rp_double_range:
  "all_of (\<lambda>x. double_exponent x \<noteq> 0 \<and> double_exponent x \<noteq> mask 11) rp_Read_double"
  unfolding rp_Read_double_def
proof (rule all_of_bind [OF all_of_Read], rule all_of_bind [OF all_of_Read], rule all_of_bind [OF all_of_Read])
  fix sign e :: u8 and m :: u32
  define e' where "e' = (if e = 0 then 0x80 else e)"
  have "e' \<noteq> 0" by (simp add: e'_def)
  then obtain i where "bit e' i" by (auto simp: bit_eq_iff)
  then have "bit (push_bit 3 (ucast e') :: u64) (i + 3)" by (auto simp: bit_simps dest: bit_imp_le_length)
  then have "push_bit 3 (ucast e') \<noteq> (0 :: u64)" by auto
  moreover have "\<not> bit (push_bit 3 (ucast e') :: u64) 0" by (simp add: bit_simps)
  then have "push_bit 3 (ucast e') \<noteq> (mask 11 :: u64)" by (auto simp: bit_mask_iff)
  ultimately show "all_of (\<lambda>x. double_exponent x \<noteq> 0 \<and> double_exponent x \<noteq> mask 11)
      (let exponent = if e = 0 then 0x80 else e
       in ret (push_bit 63 (ucast sign) OR push_bit (52 + 3) (ucast exponent) OR ucast m))"
    unfolding Let_def e'_def [symmetric] by (intro all_of_ret) (simp only: double_exponent_eq not_False_eq_True simp_thms)
qed

lemma rp_float_range:
  "all_of (\<lambda>x. float_exponent x \<noteq> 0 \<and> float_exponent x \<noteq> mask 8) rp_Read_float"
  unfolding rp_Read_float_def
proof (rule all_of_bind [OF all_of_Read], rule all_of_bind [OF all_of_Read], rule all_of_bind [OF all_of_Read])
  fix sign e :: u8 and m :: u16
  define e' where "e' = (if e = 0 \<or> e = 0xff then 0x80 else e)"
  have "e' \<noteq> 0" and "e' \<noteq> mask 8" by (auto simp: e'_def mask_eq_exp_minus_1 split: if_splits)
  then have "ucast e' \<noteq> (0 :: u32)" and "ucast e' \<noteq> (mask 8 :: u32)"
    by (auto simp: bit_eq_iff bit_simps) (meson less_le_trans numeral_le_iff semiring_norm)+
  then show "all_of (\<lambda>x. float_exponent x \<noteq> 0 \<and> float_exponent x \<noteq> mask 8)
      (let exponent = if e = 0 \<or> e = 0xff then 0x80 else e
       in ret (push_bit 31 (ucast sign) OR push_bit 23 (ucast exponent) OR ucast m))"
    unfolding Let_def e'_def [symmetric] by (intro all_of_ret) (simp only: float_exponent_eq not_False_eq_True simp_thms)
qed

text \<open>A character is one of the 90 from the blank to \<open>y\<close>, in a character type of any width.\<close>

lemma rp_char_range:
  assumes "8 \<le> LENGTH('c)"
  shows "all_of (\<lambda>c :: 'c::len word. 32 \<le> unat c \<and> unat c < 122) rp_Read_char"
  unfolding rp_Read_char_def
proof (rule all_of_bind [OF all_of_Read], rule all_of_ret)
  fix c :: u8
  have "(2 :: nat) ^ 8 \<le> 2 ^ LENGTH('c)" using assms by (rule power_increasing) simp
  moreover have "unat c mod 90 < 90" by simp
  ultimately have "32 + unat c mod 90 < 2 ^ LENGTH('c)" by simp
  from unat_of_nat_small [OF this] have "unat (of_nat (32 + unat c mod (122 - 32)) :: 'c word) = 32 + unat c mod 90"
    by simp
  then show "32 \<le> unat (of_nat (32 + unat c mod (122 - 32)) :: 'c word) \<and> unat (of_nat (32 + unat c mod (122 - 32)) :: 'c word) < 122"
    using \<open>unat c mod 90 < 90\<close> by simp
qed

lemma rp_string_range:
  assumes "8 \<le> LENGTH('c)" and "0 < rp_max_string_length r"
  shows "all_of (\<lambda>cs :: 'c::len word list. 1 \<le> length cs \<and> length cs \<le> max 1 (unat (rp_max_string_length r) - 1) \<and>
    (\<forall>c\<in>set cs. 32 \<le> unat c \<and> unat c < 122)) (rp_Read_string r)"
  unfolding rp_Read_string_def
  by (rule all_of_bind [OF rp_size_range [OF assms(2)]], rule all_of_weaken [OF all_of_collect [OF rp_char_range [OF assms(1)]]])
     (auto simp: list_all_iff)

lemma rp_uint64_range: "rp_json r \<Longrightarrow> all_of (\<lambda>x. unat x < 2 ^ 63) (rp_Read_uint64 r)"
  unfolding rp_Read_uint64_def
proof (rule all_of_bind [OF all_of_Next], rule all_of_ret)
  fix x :: u64 assume "rp_json r"
  have "unat x < 2 ^ 64" using unsigned_less [of x, where ?'a = nat] by simp
  then have "unat x div 2 < 2 ^ 63" by simp
  then show "unat (if rp_json r then drop_bit 1 x else x) < 2 ^ 63"
    using \<open>rp_json r\<close> by (simp add: drop_bit_Suc unat_div flip: drop_bit_eq_div)
qed

end
