(* ===== verification/Transcoder.thy ===== *)
theory Transcoder
  imports Compact_Writer Readers
begin

text \<open>
  The transform \<open>Serializer\<close> of \<^verbatim>\<open>src/cpp/inc/bond/core/transforms.h\<close> applied to serialized data:
  \<open>bonded<T>::Serialize\<close>, which transcodes a payload. The parsers of \<^verbatim>\<open>core/parser.h\<close> call the
  transform for every field of the payload, known to the schema or not; the functions of
  \<^verbatim>\<open>core/value.h\<close> and \<^verbatim>\<open>core/detail/typeid_value.h\<close> that take a container to a variable take it to
  the transform in the same way.

  A step of the transform maps a writer and a position of the reader to new ones: \<open>'w transform\<close>.
\<close>

type_synonym 'w transform = "'w \<Rightarrow> (InputBuffer, 'w) st"

definition write_out :: "('w \<Rightarrow> 'w res) \<Rightarrow> 'w transform" where
  "write_out f w = lift_res (f w)"

definition tseq :: "'w transform \<Rightarrow> 'w transform \<Rightarrow> 'w transform" where
  "tseq m m' w = bind (m w) m'"

fun times :: "nat \<Rightarrow> 'w transform \<Rightarrow> 'w transform" where
  "times 0 m = ret"
| "times (Suc n) m = tseq m (times n m)"

section \<open>Values of the payload\<close>

text \<open>
  What is known of the type of a value: \<open>value<T, Reader>\<close> of a known type, or
  \<open>value<void, Reader>\<close> of which only the type id is known, because the payload disagrees with the
  schema or the field is unknown. The schema of such a value has no list of structs, so parsing it as a
  struct would read \<open>structs[0]\<close> of an empty vector: undefined behaviour, here \<open>OutOfBounds\<close>.
\<close>

datatype source = Typed btype | TypeOnly BondDataType

fun source_type :: "source \<Rightarrow> BondDataType" where
  "source_type (Typed t) = get_type_id t"
| "source_type (TypeOnly t) = t"

text \<open>The schema \<open>Unknown\<close>: a struct without fields\<close>

definition unknown_schema :: sschema where
  "unknown_schema = Schema Metadata_init None []"

definition is_complex :: "BondDataType \<Rightarrow> bool" where
  "is_complex t \<longleftrightarrow> t = BT_SET \<or> t = BT_MAP \<or> t = BT_LIST \<or> t = BT_STRUCT"

text \<open>\<open>Serializer::Container\<close>, with the code for a value as a parameter\<close>

definition Container :: "'w Writer \<Rightarrow> (source \<Rightarrow> 'w transform) \<Rightarrow> source \<Rightarrow> u32 \<Rightarrow> 'w transform" where
  "Container W value element sz =
     tseq (write_out (w_WriteContainerBegin W sz (source_type element)))
       (tseq (times (unat sz) (value element)) (write_out (w_WriteContainerEnd W)))"

definition Container2 :: "'w Writer \<Rightarrow> (source \<Rightarrow> 'w transform) \<Rightarrow> source \<Rightarrow> source \<Rightarrow> u32 \<Rightarrow> 'w transform" where
  "Container2 W value key element sz =
     tseq (write_out (w_WriteContainerBegin2 W sz (source_type key, source_type element)))
       (tseq (times (unat sz) (tseq (value key) (value element))) (write_out (w_WriteContainerEnd W)))"

text \<open>
  \<open>DeserializeContainer\<close> and \<open>BasicTypeContainer\<close> with a transform. A type that is no type of a value
  is only asserted against: then nothing is written.
\<close>

definition BasicTypeContainer :: "'w Writer \<Rightarrow> (source \<Rightarrow> 'w transform) \<Rightarrow> BondDataType \<Rightarrow> u32 \<Rightarrow> 'w transform" where
  "BasicTypeContainer W value type sz =
     (if is_basic_tag type then Container W value (Typed (TBasic type)) sz else ret)"

definition TransformContainer :: "Reader \<Rightarrow> 'w Writer \<Rightarrow> (source \<Rightarrow> 'w transform) \<Rightarrow> source \<Rightarrow> 'w transform" where
  "TransformContainer R W value element w =
     bind (r_ReadContainerBegin R (source_type element)) (\<lambda>(sz, type).
       if is_complex type
       then (if type = source_type element then Container W value element sz w
             else Container W value (TypeOnly type) sz w)
       else BasicTypeContainer W value type sz w)"

text \<open>\<open>MapByKey\<close>, \<open>MapByElement\<close> and \<open>DeserializeMap\<close> with a transform\<close>

definition TransformMapByKey :: "'w Writer \<Rightarrow> (source \<Rightarrow> 'w transform) \<Rightarrow> BondDataType \<Rightarrow> source \<Rightarrow> u32 \<Rightarrow> 'w transform" where
  "TransformMapByKey W value keyType element sz =
     (if is_basic_tag keyType then Container2 W value (Typed (TBasic keyType)) element sz else ret)"

definition MapByElement ::
    "'w Writer \<Rightarrow> (source \<Rightarrow> 'w transform) \<Rightarrow> BondDataType \<Rightarrow> BondDataType \<Rightarrow> u32 \<Rightarrow> 'w transform" where
  "MapByElement W value keyType elementType sz =
     (if is_basic_tag elementType then TransformMapByKey W value keyType (Typed (TBasic elementType)) sz else ret)"

definition TransformMap ::
    "Reader \<Rightarrow> 'w Writer \<Rightarrow> (source \<Rightarrow> 'w transform) \<Rightarrow> BondDataType \<Rightarrow> source \<Rightarrow> 'w transform" where
  "TransformMap R W value keyType element w =
     bind (r_ReadContainerBegin2 R (keyType, source_type element)) (\<lambda>(sz, keyType, elementType).
       if is_complex elementType
       then (if elementType = source_type element then TransformMapByKey W value keyType element sz w
             else TransformMapByKey W value keyType (TypeOnly elementType) sz w)
       else MapByElement W value keyType elementType sz w)"

section \<open>Fields\<close>

text \<open>\<open>WriteField\<close> for a serialized value, which is never of a basic type itself\<close>

definition WriteField_value ::
    "'w Writer \<Rightarrow> (source \<Rightarrow> 'w transform) \<Rightarrow> u16 \<Rightarrow> Metadata \<Rightarrow> source \<Rightarrow> 'w transform" where
  "WriteField_value W value fid md src =
     tseq (write_out (w_WriteFieldBegin W (source_type src) fid md)) (tseq (value src) (write_out (w_WriteFieldEnd W)))"

definition Transcode_Field :: "'w Writer \<Rightarrow> (source \<Rightarrow> 'w transform) \<Rightarrow> fdef \<Rightarrow> 'w transform" where
  "Transcode_Field W value fd = WriteField_value W value (fd_id fd) (fd_metadata fd) (Typed (fd_type fd))"

text \<open>\<open>DynamicParser::UnknownField\<close> and \<open>Serializer::UnknownField\<close>\<close>

definition Transcode_UnknownField ::
    "'w Writer \<Rightarrow> (source \<Rightarrow> 'w transform) \<Rightarrow> u16 \<Rightarrow> BondDataType \<Rightarrow> 'w transform" where
  "Transcode_UnknownField W value fid type =
     (if type = BT_STRUCT then WriteField_value W value fid Metadata_init (Typed (TStruct unknown_schema))
      else if type = BT_LIST \<or> type = BT_SET \<or> type = BT_MAP then WriteField_value W value fid Metadata_init (TypeOnly type)
      else if is_basic_tag type then WriteField_value W value fid Metadata_init (Typed (TBasic type))
      else ret)"

text \<open>\<open>UnknownFieldOrTypeMismatch\<close> with \<open>BasicTypeField\<close>\<close>

definition Transcode_Mismatch ::
    "'w Writer \<Rightarrow> (source \<Rightarrow> 'w transform) \<Rightarrow> fdef \<Rightarrow> u16 \<Rightarrow> BondDataType \<Rightarrow> 'w transform" where
  "Transcode_Mismatch W value fd fid type =
     (if is_basic_type (fd_type fd) \<and> fid = fd_id fd \<and> \<not> is_complex type
      then (if is_basic_tag type then WriteField_value W value (fd_id fd) (fd_metadata fd) (Typed (TBasic type)) else ret)
      else Transcode_UnknownField W value fid type)"

definition Transcode_Omitted :: "'w Writer \<Rightarrow> fdef \<Rightarrow> 'w transform" where
  "Transcode_Omitted W fd = write_out (w_WriteFieldOmitted W (get_type_id (fd_type fd)) (fd_id fd) (fd_metadata fd))"

section \<open>The dynamic parser\<close>

text \<open>
  As in \<open>dp_ReadFields\<close>, the loops end because every tag consumes input. \<open>Transcode_Rest\<close> is the loop
  after the last field of the schema, \<open>Transcode_Unknown\<close> is \<open>ReadUnknownFields\<close>, which also ends the
  levels of the hierarchy that the schema does not have.
\<close>

type_synonym 'w parsed = "(('w \<times> BondDataType \<times> u16) \<times> InputBuffer) res"

function Transcode_Rest ::
    "Reader \<Rightarrow> 'w Writer \<Rightarrow> (source \<Rightarrow> 'w transform) \<Rightarrow> 'w \<Rightarrow> BondDataType \<Rightarrow> u16 \<Rightarrow> InputBuffer \<Rightarrow> 'w parsed" where
  "Transcode_Rest R W value w type fid ib =
     (if is_stop type then Inr ((w, type, fid), ib)
      else res_bind (Transcode_UnknownField W value fid type w ib) (\<lambda>(w, ib1).
             res_bind (r_ReadFieldBegin R ib1) (\<lambda>((type, fid), ib2).
               if left ib2 < left ib then Transcode_Rest R W value w type fid ib2 else Inl OutOfFuel)))"
  by pat_completeness auto
termination by (relation "measure (\<lambda>(R, W, value, w, type, fid, ib). left ib)") auto

function Transcode_Unknown ::
    "Reader \<Rightarrow> 'w Writer \<Rightarrow> (source \<Rightarrow> 'w transform) \<Rightarrow> 'w \<Rightarrow> BondDataType \<Rightarrow> u16 \<Rightarrow> InputBuffer \<Rightarrow> ('w \<times> InputBuffer) res" where
  "Transcode_Unknown R W value w type fid ib =
     (if type = BT_STOP then Inr (w, ib)
      else res_bind (if type = BT_STOP_BASE then write_out (w_WriteStructEnd W True) w ib
                     else Transcode_UnknownField W value fid type w ib) (\<lambda>(w, ib1).
             res_bind (r_ReadFieldBegin R ib1) (\<lambda>((type, fid), ib2).
               if left ib2 < left ib then Transcode_Unknown R W value w type fid ib2 else Inl OutOfFuel)))"
  by pat_completeness auto
termination by (relation "measure (\<lambda>(R, W, value, w, type, fid, ib). left ib)") auto

declare Transcode_Rest.simps [simp del] Transcode_Unknown.simps [simp del]

function (sequential) Transcode_Fields ::
    "Reader \<Rightarrow> 'w Writer \<Rightarrow> (source \<Rightarrow> 'w transform) \<Rightarrow> fdef list \<Rightarrow> 'w \<Rightarrow> BondDataType \<Rightarrow> u16 \<Rightarrow> InputBuffer \<Rightarrow> 'w parsed" where
  "Transcode_Fields R W value [] w type fid ib = Transcode_Rest R W value w type fid ib"
| "Transcode_Fields R W value (fd # fds) w type fid ib =
     (if (fd_id fd = fid \<and> get_type_id (fd_type fd) = type) \<or> (fd_id fd \<ge> fid \<and> \<not> is_stop type)
      then res_bind ((if fd_id fd = fid \<and> get_type_id (fd_type fd) = type then Transcode_Field W value fd
                      else Transcode_Mismatch W value fd fid type) w ib)
             (\<lambda>(w, ib1).
               res_bind (r_ReadFieldBegin R ib1) (\<lambda>((type, fid), ib2).
                 if fd_id fd < fid \<or> is_stop type then Transcode_Fields R W value fds w type fid ib2
                 else if left ib2 < left ib then Transcode_Fields R W value (fd # fds) w type fid ib2
                 else Inl OutOfFuel))
      else res_bind (Transcode_Omitted W fd w ib) (\<lambda>(w, ib). Transcode_Fields R W value fds w type fid ib))"
  by pat_completeness auto
termination
  by (relation "measures [\<lambda>(R, W, value, fds, w, type, fid, ib). length fds,
      \<lambda>(R, W, value, fds, w, type, fid, ib). left ib]") auto

declare Transcode_Fields.simps [simp del]

definition Transcode_DynamicFields ::
    "Reader \<Rightarrow> 'w Writer \<Rightarrow> (source \<Rightarrow> 'w transform) \<Rightarrow> bool \<Rightarrow> fdef list \<Rightarrow> 'w transform" where
  "Transcode_DynamicFields R W value base fds w =
     bind (r_ReadFieldBegin R) (\<lambda>(type, fid).
       bind (Transcode_Fields R W value fds w type fid) (\<lambda>(w, type, fid).
         if \<not> base then Transcode_Unknown R W value w type fid else ret w))"

section \<open>The static parser\<close>

fun Transcode_StaticFields :: "'w Writer \<Rightarrow> (source \<Rightarrow> 'w transform) \<Rightarrow> fdef list \<Rightarrow> 'w transform" where
  "Transcode_StaticFields W value [] = ret"
| "Transcode_StaticFields W value (fd # fds) = tseq (Transcode_Field W value fd) (Transcode_StaticFields W value fds)"

section \<open>Structs\<close>

text \<open>
  \<open>Parser::Apply\<close> with \<open>ParserInheritance::Read\<close>. \<open>Serializer::Base\<close> answers \<open>false\<close> whatever the
  parser of the base returned, so the fields of the struct are always read next.
\<close>

definition Transcode_ReadFields ::
    "Reader \<Rightarrow> 'w Writer \<Rightarrow> (source \<Rightarrow> 'w transform) \<Rightarrow> bool \<Rightarrow> fdef list \<Rightarrow> 'w transform" where
  "Transcode_ReadFields R W value base fds =
     (if r_static R then Transcode_StaticFields W value fds else Transcode_DynamicFields R W value base fds)"

fun Transcode_struct :: "Reader \<Rightarrow> 'w Writer \<Rightarrow> (source \<Rightarrow> 'w transform) \<Rightarrow> sschema \<Rightarrow> bool \<Rightarrow> 'w transform" where
  "Transcode_struct R W value (Schema md None fds) base =
     (\<lambda>w. bind (r_ReadStructBegin R base) (\<lambda>_.
        tseq (write_out (w_WriteStructBegin W md base))
          (tseq (Transcode_ReadFields R W value base fds) (write_out (w_WriteStructEnd W base))) w))"
| "Transcode_struct R W value (Schema md (Some b) fds) base =
     (\<lambda>w. bind (r_ReadStructBegin R base) (\<lambda>_.
        tseq (write_out (w_WriteStructBegin W md base))
          (tseq (Transcode_struct R W value b True)
            (tseq (Transcode_ReadFields R W value base fds) (write_out (w_WriteStructEnd W base)))) w))"

text \<open>
  \<open>Write\<close> of a serialized value: a basic value is read and written, any other is applied. The code
  recurses as deep as the payload nests; the model has fuel for that.
\<close>

fun Transcode_Apply :: "Reader \<Rightarrow> 'w Writer \<Rightarrow> (source \<Rightarrow> 'w transform) \<Rightarrow> source \<Rightarrow> 'w transform" where
  "Transcode_Apply R W value (Typed (TBasic t)) = (\<lambda>w. bind (r_Read R t) (\<lambda>v. write_out (w_Write W v) w))"
| "Transcode_Apply R W value (Typed TBlob) = TransformContainer R W value (Typed (TBasic BT_INT8))"
| "Transcode_Apply R W value (Typed (TNullable e)) = TransformContainer R W value (Typed e)"
| "Transcode_Apply R W value (Typed (TList e)) = TransformContainer R W value (Typed e)"
| "Transcode_Apply R W value (Typed (TSet t)) = TransformContainer R W value (Typed (TBasic t))"
| "Transcode_Apply R W value (Typed (TMap k e)) = TransformMap R W value k (Typed e)"
| "Transcode_Apply R W value (Typed (TStruct s)) = Transcode_struct R W value s False"
| "Transcode_Apply R W value (TypeOnly t) =
     (if t = BT_STRUCT then (\<lambda>w. throw OutOfBounds)
      else if t = BT_MAP then TransformMap R W value BT_STRUCT (Typed (TStruct unknown_schema))
      else TransformContainer R W value (Typed (TStruct unknown_schema)))"

fun Transcode_Write :: "Reader \<Rightarrow> 'w Writer \<Rightarrow> nat \<Rightarrow> source \<Rightarrow> 'w transform" where
  "Transcode_Write R W 0 src = (\<lambda>w. throw OutOfFuel)"
| "Transcode_Write R W (Suc n) src = Transcode_Apply R W (Transcode_Write R W n) src"

text \<open>\<open>Apply(Serializer(output), bonded<T>)\<close>; every level of nesting has at least one byte of the payload.\<close>

definition Transcode :: "Reader \<Rightarrow> 'w Writer \<Rightarrow> sschema \<Rightarrow> 'w transform" where
  "Transcode R W s w ib = Transcode_struct R W (Transcode_Write R W (left ib)) s False w ib"

text \<open>
  The same with the compact writer, which may need two passes; \<open>bonded<T>\<close> holds its reader by value, so
  each pass starts at the beginning of the payload.
\<close>

definition cw_Transcode ::
    "(nat \<Rightarrow> u32) \<Rightarrow> 'b Buffer \<Rightarrow> Reader \<Rightarrow> sschema \<Rightarrow> 'b CompactBinaryWriter transform" where
  "cw_Transcode noinit B R s w ib =
     (if cw_NeedPass0 w
      then res_bind (Transcode R (compact_writer counter_stream) s
                       (CompactBinaryWriter_init noinit OutputCounter_init (cw_version w)) ib) (\<lambda>(pass0, _).
             res_bind (Transcode R (compact_writer B) s (cw_WithPass0 pass0 w) ib) (\<lambda>(w, ib').
               Inr (w\<lparr>cw_it := None\<rparr>, ib')))
      else Transcode R (compact_writer B) s w ib)"

end
