(* ===== verification/Merger.thy ===== *)
theory Merger
  imports Transcoder
begin

text \<open>
  Merging, \<^verbatim>\<open>src/cpp/inc/bond/core/merge.h\<close>: the transform \<open>Merger\<close> writes a payload again with the values of
  an object in place of those of the payload, and keeps the fields of the payload that the object does not
  have. It derives from \<open>Serializer\<close>; the parsers of \<^verbatim>\<open>core/parser.h\<close> and the functions of \<^verbatim>\<open>core/value.h\<close> call it
  as they call the transcoder.
\<close>

section \<open>The object's side\<close>

text \<open>
  The variable that a merger refers to: its type and value. \<open>None\<close> is a variable of type \<open>maybe<T>\<close>, which no
  overload of \<open>Container\<close> for a matching type takes.
\<close>

type_synonym merge_var = "(btype \<times> bvalue) option"

definition merge_var_of :: "fdef \<Rightarrow> bfield \<Rightarrow> merge_var" where
  "merge_var_of fd f = (case f of Field fid md v \<Rightarrow> Some (fd_type fd, v) | MaybeField fid md t v \<Rightarrow> None)"

definition MergerContainerException :: exn where
  "MergerContainerException = CoreException ''Merge failed: container mismatch''"

fun is_struct_type :: "btype \<Rightarrow> bool" where
  "is_struct_type (TStruct s) = True"
| "is_struct_type t = False"

fun is_struct_container :: "btype \<Rightarrow> bool" where
  "is_struct_container (TMap k e) = (is_struct_type e \<or> is_struct_container e)"
| "is_struct_container (TList e) = (is_struct_type e \<or> is_struct_container e)"
| "is_struct_container (TNullable e) = (is_struct_type e \<or> is_struct_container e)"
| "is_struct_container t = False"

text \<open>
  The destructor of a value that was not read skips it and swallows exceptions; where that leaves the input is
  a parameter.
\<close>

definition Skip_unread :: "Reader \<Rightarrow> (exn \<Rightarrow> InputBuffer \<Rightarrow> InputBuffer) \<Rightarrow> btype \<Rightarrow> (InputBuffer, unit) st" where
  "Skip_unread R residue t ib = (case r_SkipValue R t ib of Inr r \<Rightarrow> Inr r | Inl e \<Rightarrow> Inr ((), residue e ib))"

section \<open>Containers\<close>

text \<open>\<open>DeserializeContainer\<close> and \<open>DeserializeMap\<close> with a transform, the member \<open>Container\<close> of which is an argument\<close>

definition SourceContainer :: "Reader \<Rightarrow> (source \<Rightarrow> u32 \<Rightarrow> 'w transform) \<Rightarrow> source \<Rightarrow> 'w transform" where
  "SourceContainer R C element w =
     bind (r_ReadContainerBegin R (source_type element)) (\<lambda>(sz, type).
       if is_complex type
       then (if type = source_type element then C element sz w else C (TypeOnly type) sz w)
       else if is_basic_tag type then C (Typed (TBasic type)) sz w else ret w)"

definition SourceMapByKey :: "(source \<Rightarrow> source \<Rightarrow> u32 \<Rightarrow> 'w transform) \<Rightarrow> BondDataType \<Rightarrow> source \<Rightarrow> u32 \<Rightarrow> 'w transform" where
  "SourceMapByKey C keyType element sz = (if is_basic_tag keyType then C (Typed (TBasic keyType)) element sz else ret)"

definition SourceMap ::
    "Reader \<Rightarrow> (source \<Rightarrow> source \<Rightarrow> u32 \<Rightarrow> 'w transform) \<Rightarrow> BondDataType \<Rightarrow> source \<Rightarrow> 'w transform" where
  "SourceMap R C keyType element w =
     bind (r_ReadContainerBegin2 R (keyType, source_type element)) (\<lambda>(sz, keyType, elementType).
       if is_complex elementType
       then (if elementType = source_type element then SourceMapByKey C keyType element sz w
             else SourceMapByKey C keyType (TypeOnly elementType) sz w)
       else if is_basic_tag elementType then SourceMapByKey C keyType (Typed (TBasic elementType)) sz w else ret w)"

lemma SourceContainer_Serializer: "SourceContainer R (Container W value) = TransformContainer R W value"
  by (auto simp: SourceContainer_def TransformContainer_def BasicTypeContainer_def fun_eq_iff
      intro!: bind_cong split: prod.splits)

lemma SourceMap_Serializer: "SourceMap R (Container2 W value) = TransformMap R W value"
  by (auto simp: SourceMap_def TransformMap_def SourceMapByKey_def TransformMapByKey_def MapByElement_def fun_eq_iff
      intro!: bind_cong split: prod.splits)

text \<open>
  \<open>Merger::Container\<close>: elements match when they are not basic, since the elements of the variable are not. \<open>merge\<close> is
  \<open>Merge\<close> of one element. Where they do not match, the member of \<open>Serializer\<close> is taken.
\<close>

fun basic_source :: "source \<Rightarrow> bool" where
  "basic_source (Typed (TBasic t)) = True"
| "basic_source src = False"

fun merge_list_var :: "merge_var \<Rightarrow> (btype \<times> bvalue list) option" where
  "merge_list_var (Some (TList e, VList t xs)) = Some (e, xs)"
| "merge_list_var (Some (TNullable e, VList t xs)) = Some (e, xs)"
| "merge_list_var var = None"

fun merge_map_var :: "merge_var \<Rightarrow> (BondDataType \<times> btype \<times> (bvalue \<times> bvalue) list) option" where
  "merge_map_var (Some (TMap k e, VMap k' t kvs)) = Some (k, e, kvs)"
| "merge_map_var var = None"

fun Merge_items :: "(bvalue \<Rightarrow> 'w transform) \<Rightarrow> bvalue list \<Rightarrow> 'w transform" where
  "Merge_items merge [] = ret"
| "Merge_items merge (x # xs) = tseq (merge x) (Merge_items merge xs)"

definition Merge_elements ::
    "'w Writer \<Rightarrow> (merge_var \<Rightarrow> source \<Rightarrow> 'w transform) \<Rightarrow> btype \<Rightarrow> bvalue list \<Rightarrow> source \<Rightarrow> u32 \<Rightarrow> 'w transform" where
  "Merge_elements W merge e xs element sz =
     (if sz \<noteq> of_nat (length xs) then (\<lambda>w. throw MergerContainerException)
      else tseq (write_out (w_WriteContainerBegin W sz (get_type_id e)))
             (tseq (Merge_items (\<lambda>x. merge (Some (e, x)) element) xs) (write_out (w_WriteContainerEnd W))))"

definition Merger_Container ::
    "'w Writer \<Rightarrow> (source \<Rightarrow> 'w transform) \<Rightarrow> (merge_var \<Rightarrow> source \<Rightarrow> 'w transform) \<Rightarrow> merge_var \<Rightarrow> source \<Rightarrow> u32 \<Rightarrow> 'w transform" where
  "Merger_Container W value merge var element sz = (case merge_list_var var of
       Some (e, xs) \<Rightarrow> if basic_source element then Container W value element sz else Merge_elements W merge e xs element sz
     | None \<Rightarrow> Container W value element sz)"

text \<open>\<open>mapped_at\<close> of a constant map throws when the key is not there.\<close>

fun const_mapped_at :: "bvalue \<Rightarrow> (bvalue \<times> bvalue) list \<Rightarrow> bvalue res" where
  "const_mapped_at k [] = Inl ElementNotFoundException"
| "const_mapped_at k ((k', v) # m) =
     (if key_less k' k then const_mapped_at k m else if key_less k k' then Inl ElementNotFoundException else Inr v)"

text \<open>The elements of a map are looked up by the keys of the payload.\<close>

definition Merge_pair ::
    "Reader \<Rightarrow> 'w Writer \<Rightarrow> (merge_var \<Rightarrow> source \<Rightarrow> 'w transform) \<Rightarrow> BondDataType \<Rightarrow> btype \<Rightarrow> (bvalue \<times> bvalue) list \<Rightarrow>
     BondDataType \<Rightarrow> source \<Rightarrow> 'w transform" where
  "Merge_pair R W merge k e kvs keyType element w =
     bind (Deserialize_basic R keyType k (default_basic k)) (\<lambda>key.
       bind (write_out (w_Write W key) w) (\<lambda>w.
         bind (lift_res (const_mapped_at key kvs)) (\<lambda>x. merge (Some (e, x)) element w)))"

definition Merge_pairs ::
    "Reader \<Rightarrow> 'w Writer \<Rightarrow> (merge_var \<Rightarrow> source \<Rightarrow> 'w transform) \<Rightarrow> BondDataType \<Rightarrow> btype \<Rightarrow> (bvalue \<times> bvalue) list \<Rightarrow>
     BondDataType \<Rightarrow> source \<Rightarrow> u32 \<Rightarrow> 'w transform" where
  "Merge_pairs R W merge k e kvs keyType element sz =
     (if sz \<noteq> of_nat (length kvs) then (\<lambda>w. throw MergerContainerException)
      else tseq (write_out (w_WriteContainerBegin2 W sz (k, get_type_id e)))
             (tseq (times (unat sz) (Merge_pair R W merge k e kvs keyType element)) (write_out (w_WriteContainerEnd W))))"

definition Merger_Container2 ::
    "Reader \<Rightarrow> 'w Writer \<Rightarrow> (source \<Rightarrow> 'w transform) \<Rightarrow> (merge_var \<Rightarrow> source \<Rightarrow> 'w transform) \<Rightarrow> merge_var \<Rightarrow>
     source \<Rightarrow> source \<Rightarrow> u32 \<Rightarrow> 'w transform" where
  "Merger_Container2 R W value merge var key element sz = (case (merge_map_var var, key) of
       (Some (k, e, kvs), Typed (TBasic keyType)) \<Rightarrow>
         if is_matching_basic keyType k \<and> \<not> basic_source element
         then Merge_pairs R W merge k e kvs keyType element sz else Container2 W value key element sz
     | _ \<Rightarrow> Container2 W value key element sz)"

section \<open>Fields\<close>

text \<open>
  \<open>Merger::Field\<close>: a struct or a container of structs is merged; any other field is written from the object, and
  the value of the payload, which nobody reads, is skipped when it is destroyed. \<open>OmittedField\<close> writes the
  field of the object too.
\<close>

definition Merge_Field ::
    "'w Writer \<Rightarrow> (btype \<Rightarrow> (InputBuffer, unit) st) \<Rightarrow> (merge_var \<Rightarrow> source \<Rightarrow> 'w transform) \<Rightarrow> fdef \<Rightarrow> bfield \<Rightarrow> 'w transform" where
  "Merge_Field W skip merge fd f =
     (if is_struct_type (fd_type fd) \<or> is_struct_container (fd_type fd)
      then tseq (write_out (w_WriteFieldBegin W (get_type_id (fd_type fd)) (fd_id fd) (fd_metadata fd)))
             (tseq (merge (merge_var_of fd f) (Typed (fd_type fd))) (write_out (w_WriteFieldEnd W)))
      else tseq (write_out (Serializer_Field W f)) (\<lambda>w. bind (skip (fd_type fd)) (\<lambda>_. ret w)))"

definition Merge_Omitted :: "'w Writer \<Rightarrow> bfield \<Rightarrow> 'w transform" where
  "Merge_Omitted W f = write_out (Serializer_Field W f)"

section \<open>The parsers\<close>

text \<open>
  \<open>DynamicParser::ReadFields\<close> with a compile-time schema; fields that the schema does not have, or not with this
  type, are taken by the members of \<open>Serializer\<close>. \<open>merge_field\<close> is \<open>Field\<close> of the merger.
\<close>

function (sequential) Merge_Fields ::
    "Reader \<Rightarrow> 'w Writer \<Rightarrow> (source \<Rightarrow> 'w transform) \<Rightarrow> (fdef \<Rightarrow> bfield \<Rightarrow> 'w transform) \<Rightarrow> (fdef \<times> bfield) list \<Rightarrow>
     'w \<Rightarrow> BondDataType \<Rightarrow> u16 \<Rightarrow> InputBuffer \<Rightarrow> 'w parsed" where
  "Merge_Fields R W value merge_field [] w type fid ib = Transcode_Rest R W value w type fid ib"
| "Merge_Fields R W value merge_field ((fd, f) # fds) w type fid ib =
     (if (fd_id fd = fid \<and> get_type_id (fd_type fd) = type) \<or> (fd_id fd \<ge> fid \<and> \<not> is_stop type)
      then res_bind ((if fd_id fd = fid \<and> get_type_id (fd_type fd) = type then merge_field fd f
                      else Transcode_Mismatch W value fd fid type) w ib)
             (\<lambda>(w, ib1).
               res_bind (r_ReadFieldBegin R ib1) (\<lambda>((type, fid), ib2).
                 if fd_id fd < fid \<or> is_stop type then Merge_Fields R W value merge_field fds w type fid ib2
                 else if left ib2 < left ib then Merge_Fields R W value merge_field ((fd, f) # fds) w type fid ib2
                 else Inl OutOfFuel))
      else res_bind (Merge_Omitted W f w ib) (\<lambda>(w, ib). Merge_Fields R W value merge_field fds w type fid ib))"
  by pat_completeness auto
termination
  by (relation "measures [\<lambda>(R, W, value, mf, fds, w, type, fid, ib). length fds,
      \<lambda>(R, W, value, mf, fds, w, type, fid, ib). left ib]") auto

declare Merge_Fields.simps [simp del]

text \<open>A base is done when the payload ends with it; the struct itself reads the rest of the payload.\<close>

definition Merge_DynamicFields ::
    "Reader \<Rightarrow> 'w Writer \<Rightarrow> (source \<Rightarrow> 'w transform) \<Rightarrow> (fdef \<Rightarrow> bfield \<Rightarrow> 'w transform) \<Rightarrow> bool \<Rightarrow> (fdef \<times> bfield) list \<Rightarrow>
     'w \<Rightarrow> (InputBuffer, 'w \<times> bool) st" where
  "Merge_DynamicFields R W value merge_field base fds w =
     bind (r_ReadFieldBegin R) (\<lambda>(type, fid).
       bind (Merge_Fields R W value merge_field fds w type fid) (\<lambda>(w, type, fid).
         if \<not> base then bind (Transcode_Unknown R W value w type fid) (\<lambda>w. ret (w, False))
         else ret (w, type = BT_STOP)))"

fun Merge_StaticFields :: "(fdef \<Rightarrow> bfield \<Rightarrow> 'w transform) \<Rightarrow> (fdef \<times> bfield) list \<Rightarrow> 'w transform" where
  "Merge_StaticFields merge_field [] = ret"
| "Merge_StaticFields merge_field ((fd, f) # fds) = tseq (merge_field fd f) (Merge_StaticFields merge_field fds)"

definition Merge_ReadFields ::
    "Reader \<Rightarrow> 'w Writer \<Rightarrow> (source \<Rightarrow> 'w transform) \<Rightarrow> (fdef \<Rightarrow> bfield \<Rightarrow> 'w transform) \<Rightarrow> bool \<Rightarrow> (fdef \<times> bfield) list \<Rightarrow>
     'w \<Rightarrow> (InputBuffer, 'w \<times> bool) st" where
  "Merge_ReadFields R W value merge_field base fds w =
     (if r_static R then bind (Merge_StaticFields merge_field fds w) (\<lambda>w. ret (w, False))
      else Merge_DynamicFields R W value merge_field base fds w)"

text \<open>
  \<open>Parser::Apply\<close> with \<open>Begin\<close> and \<open>End\<close>. Unlike \<open>Serializer::Base\<close>, the one of the merger returns what the parser of the
  base has returned: when the payload has ended with the base, the fields of the struct are not visited. An
  object that does not have the type of the schema does not exist.
\<close>

fun Merge_struct ::
    "Reader \<Rightarrow> 'w Writer \<Rightarrow> (source \<Rightarrow> 'w transform) \<Rightarrow> (fdef \<Rightarrow> bfield \<Rightarrow> 'w transform) \<Rightarrow> sschema \<Rightarrow> bstruct \<Rightarrow> bool \<Rightarrow>
     'w \<Rightarrow> (InputBuffer, 'w \<times> bool) st" where
  "Merge_struct R W value merge_field (Schema md None fds) (Struct md' None vs) base =
     (\<lambda>w. bind (r_ReadStructBegin R base) (\<lambda>_. bind (write_out (w_WriteStructBegin W md base) w) (\<lambda>w.
        bind (Merge_ReadFields R W value merge_field base (zip fds vs) w) (\<lambda>(w, done).
          bind (write_out (w_WriteStructEnd W base) w) (\<lambda>w. ret (w, done))))))"
| "Merge_struct R W value merge_field (Schema md (Some b) fds) (Struct md' (Some y) vs) base =
     (\<lambda>w. bind (r_ReadStructBegin R base) (\<lambda>_. bind (write_out (w_WriteStructBegin W md base) w) (\<lambda>w.
        bind (Merge_struct R W value merge_field b y True w) (\<lambda>(w, done).
          bind (if done then ret (w, True) else Merge_ReadFields R W value merge_field base (zip fds vs) w) (\<lambda>(w, done).
            bind (write_out (w_WriteStructEnd W base) w) (\<lambda>w. ret (w, done)))))))"
| "Merge_struct R W value merge_field s y base = (\<lambda>w. throw AssertionFailed)"

section \<open>Merge\<close>

text \<open>
  \<open>Apply\<close> of a merger to a value of the payload, as of the transcoder. A \<open>value<void>\<close> that holds a struct of unknown type
  is parsed with the schema \<open>Unknown\<close>, for which a merger acts as a serializer. Mergers are not applied to
  basic values.
\<close>

definition Merge_Apply_struct ::
    "Reader \<Rightarrow> 'w Writer \<Rightarrow> (btype \<Rightarrow> (InputBuffer, unit) st) \<Rightarrow> (source \<Rightarrow> 'w transform) \<Rightarrow>
     (merge_var \<Rightarrow> source \<Rightarrow> 'w transform) \<Rightarrow> merge_var \<Rightarrow> sschema \<Rightarrow> 'w transform" where
  "Merge_Apply_struct R W skip value merge var s = (case var of
       Some (t, VStruct y) \<Rightarrow>
         if t = TStruct s
         then (\<lambda>w. bind (Merge_struct R W value (Merge_Field W skip merge) s y False w) (\<lambda>(w, done). ret w))
         else Transcode_struct R W value s False
     | _ \<Rightarrow> Transcode_struct R W value s False)"

fun Merge_Apply ::
    "Reader \<Rightarrow> 'w Writer \<Rightarrow> (btype \<Rightarrow> (InputBuffer, unit) st) \<Rightarrow> (source \<Rightarrow> 'w transform) \<Rightarrow>
     (merge_var \<Rightarrow> source \<Rightarrow> 'w transform) \<Rightarrow> merge_var \<Rightarrow> source \<Rightarrow> 'w transform" where
  "Merge_Apply R W skip value merge var (TypeOnly t) =
     (if t = BT_STRUCT then (\<lambda>w. throw OutOfBounds)
      else if t = BT_MAP then SourceMap R (Merger_Container2 R W value merge var) BT_STRUCT (Typed (TStruct unknown_schema))
      else SourceContainer R (Merger_Container W value merge var) (Typed (TStruct unknown_schema)))"
| "Merge_Apply R W skip value merge var (Typed t) = (case t of
       TStruct s \<Rightarrow> Merge_Apply_struct R W skip value merge var s
     | TNullable e \<Rightarrow> SourceContainer R (Merger_Container W value merge var) (Typed e)
     | TList e \<Rightarrow> SourceContainer R (Merger_Container W value merge var) (Typed e)
     | TMap k e \<Rightarrow> SourceMap R (Merger_Container2 R W value merge var) k (Typed e)
     | _ \<Rightarrow> (\<lambda>w. throw AssertionFailed))"

fun Merge_value ::
    "Reader \<Rightarrow> 'w Writer \<Rightarrow> (exn \<Rightarrow> InputBuffer \<Rightarrow> InputBuffer) \<Rightarrow> nat \<Rightarrow> merge_var \<Rightarrow> source \<Rightarrow> 'w transform" where
  "Merge_value R W residue 0 var src = (\<lambda>w. throw OutOfFuel)"
| "Merge_value R W residue (Suc n) var src =
     Merge_Apply R W (Skip_unread R residue) (Transcode_Write R W n) (Merge_value R W residue n) var src"

text \<open>\<open>Merge(obj, input, output)\<close>, with fuel for the nesting of the payload, and with two passes\<close>

definition Merge ::
    "(exn \<Rightarrow> InputBuffer \<Rightarrow> InputBuffer) \<Rightarrow> Reader \<Rightarrow> 'w Writer \<Rightarrow> sschema \<Rightarrow> bstruct \<Rightarrow> 'w transform" where
  "Merge residue R W s y w ib = bind (Merge_struct R W (Transcode_Write R W (left ib))
     (Merge_Field W (Skip_unread R residue) (Merge_value R W residue (left ib))) s y False w) (\<lambda>(w, done). ret w) ib"

definition cw_Merge ::
    "(exn \<Rightarrow> InputBuffer \<Rightarrow> InputBuffer) \<Rightarrow> (nat \<Rightarrow> u32) \<Rightarrow> 'b Buffer \<Rightarrow> Reader \<Rightarrow> sschema \<Rightarrow> bstruct \<Rightarrow> 'b CompactBinaryWriter transform" where
  "cw_Merge residue noinit B R s y w ib =
     (if cw_NeedPass0 w
      then res_bind (Merge residue R (compact_writer counter_stream) s y
                       (CompactBinaryWriter_init noinit OutputCounter_init (cw_version w)) ib) (\<lambda>(pass0, _).
             res_bind (Merge residue R (compact_writer B) s y (cw_WithPass0 pass0 w) ib) (\<lambda>(w, ib').
               Inr (w\<lparr>cw_it := None\<rparr>, ib')))
      else Merge residue R (compact_writer B) s y w ib)"

end
