(* ===== verification/Transcode_Correct.thy ===== *)
theory Transcode_Correct
  imports Transcoder Roundtrip
begin

text \<open>
  Transcoding a payload between tagged protocols: the transform writes exactly the encoding of the
  payload in the target protocol, whatever the schema says about its fields, and the reader ends behind
  the payload. The locale \<open>tagged_writer\<close> adds to the contract of a writer that the levels of a
  hierarchy follow each other, \<open>transcodable_reader\<close> to that of a tagged reader that containers have a
  header; \<open>transcoder\<close> joins the two.
\<close>

section \<open>What a step of the transform conveys\<close>

text \<open>
  On the bytes \<open>bs\<close> the step does what \<open>act\<close> does to the writer, moves past \<open>bs\<close> and returns \<open>k\<close> of
  the writer.
\<close>

definition conveys :: "('w \<Rightarrow> 'r) \<Rightarrow> ('w \<Rightarrow> 'w res) \<Rightarrow> ('w \<Rightarrow> (InputBuffer, 'r) st) \<Rightarrow> byte list \<Rightarrow> bool" where
  "conveys k act m bs \<longleftrightarrow> (\<forall>ib w rest. ib_at ib (bs @ rest) \<longrightarrow>
     m w ib = res_bind (act w) (\<lambda>w'. Inr (k w', ib_adv (length bs) ib)))"

lemma conveysI:
  "(\<And>ib w rest. ib_at ib (bs @ rest) \<Longrightarrow> m w ib = res_bind (act w) (\<lambda>w'. Inr (k w', ib_adv (length bs) ib))) \<Longrightarrow>
   conveys k act m bs"
  by (simp add: conveys_def)

lemma conveysD:
  "conveys k act m bs \<Longrightarrow> ib_at ib (bs @ rest) \<Longrightarrow> m w ib = res_bind (act w) (\<lambda>w'. Inr (k w', ib_adv (length bs) ib))"
  by (auto simp: conveys_def)

lemma conveys_bind:
  assumes "conveys k act m bs" and "conveys k' act' (\<lambda>w. f (k w)) bs'"
  shows "conveys k' (seq act act') (\<lambda>w. bind (m w) f) (bs @ bs')"
proof (rule conveysI)
  fix ib w rest assume at: "ib_at ib ((bs @ bs') @ rest)"
  then have at1: "ib_at ib (bs @ bs' @ rest)" by simp
  from conveysD [OF assms(1) at1] conveysD [OF assms(2) ib_at_adv_append [OF at1]]
  show "bind (m w) f ib = res_bind (seq act act' w) (\<lambda>w'. Inr (k' w', ib_adv (length (bs @ bs')) ib))"
    by (cases "act w") (auto simp: bind_def seq_def)
qed

lemma conveys_read:
  assumes "decodes r bs v" and "conveys k act (f v) bs'"
  shows "conveys k act (\<lambda>w. bind r (\<lambda>v. f v w)) (bs @ bs')"
proof (rule conveysI)
  fix ib w rest assume at: "ib_at ib ((bs @ bs') @ rest)"
  then have at1: "ib_at ib (bs @ bs' @ rest)" by simp
  from decodesD [OF assms(1) at1] conveysD [OF assms(2) ib_at_adv_append [OF at1]]
  show "bind r (\<lambda>v. f v w) ib = res_bind (act w) (\<lambda>w'. Inr (k w', ib_adv (length (bs @ bs')) ib))"
    by (simp add: bind_def)
qed

lemma conveys_out: "conveys (\<lambda>w. w) f (write_out f) []"
  by (rule conveysI) (simp add: write_out_def lift_res_def)

lemma conveys_ret: "conveys (\<lambda>w. k w) Inr (\<lambda>w. ret (k w)) []"
  by (rule conveysI) (simp add: ret_def)

lemma tseq_assoc: "tseq (tseq a b) c = tseq a (tseq b c)"
  by (auto simp: tseq_def [abs_def] bind_def fun_eq_iff split: sum.splits)

section \<open>Encodings by levels\<close>

fun em_fields :: "format \<Rightarrow> (u16 \<times> bvalue) list \<Rightarrow> emission" where
  "em_fields F [] = ([], [])"
| "em_fields F ((fid, x) # ps) = em_append (f_field F (GetTypeId x) fid, []) (em_append (enc_value F x) (em_fields F ps))"

text \<open>The levels of a struct without the stop byte of the last one, which ends the struct\<close>

fun em_open :: "format \<Rightarrow> level list \<Rightarrow> emission" where
  "em_open F [] = ([], [])"
| "em_open F [(ps, base)] = em_fields F ps"
| "em_open F ((ps, base) # l # ls) = em_append (em_fields F ps) (em_append ([stop_byte True], []) (em_open F (l # ls)))"

fun em_levels :: "format \<Rightarrow> level list \<Rightarrow> emission" where
  "em_levels F [] = ([], [])"
| "em_levels F ((ps, base) # ls) = em_append (em_fields F ps) (em_append ([stop_byte base], []) (em_levels F ls))"

lemma em_append_assoc: "em_append (em_append a b) c = em_append a (em_append b c)"
  by (simp add: em_append_def)

lemma fst_em_fields: "fst (em_fields F ps) = wire_fields F ps"
  by (induction F ps rule: em_fields.induct) auto

lemma em_fields_append: "em_fields F (ps @ qs) = em_append (em_fields F ps) (em_fields F qs)"
  by (induction F ps rule: em_fields.induct) (auto simp: em_append_assoc)

lemma em_levels_append: "em_levels F (L @ L') = em_append (em_levels F L) (em_levels F L')"
  by (induction F L rule: em_levels.induct) (auto simp: em_append_assoc)

lemma em_open_append:
  "\<forall>l \<in> set L. snd l \<Longrightarrow> M \<noteq> [] \<Longrightarrow> em_open F (L @ M) = em_append (em_levels F L) (em_open F M)"
proof (induction L)
  case (Cons l L)
  then show ?case by (cases l; cases "L @ M") (auto simp: em_append_assoc)
qed simp

lemma em_open_Cons: "em_open F ((ps, base) # ls) = em_append (em_fields F ps) (em_open F (([], base) # ls))"
  by (cases ls) (auto simp: em_append_assoc)

lemma em_fields_enc: "f_may_omit_fields F \<Longrightarrow> em_fields F (concat (map (present True) fs)) = enc_fields F fs"
proof (induction fs)
  case (Cons f fs)
  then show ?case by (cases "(True, f)" rule: present.cases) (auto simp: em_append_assoc)
qed simp

lemma enc_items_VInt8: "(\<And>b. f_basic F (VInt8 b) = [b]) \<Longrightarrow> enc_items F (map VInt8 bs) = (bs, [])"
  by (induction bs) (auto simp: em_append_def)

lemma enc_payload_items:
  assumes "\<And>b. f_basic F (VInt8 b) = [b]" and "wf_value True x" and "GetTypeId x = BT_LIST \<or> GetTypeId x = BT_SET"
  shows "enc_value F x = em_append (f_container F (of_nat (length (snd (payload_items x)))) (fst (payload_items x)), [])
    (enc_items F (snd (payload_items x)))"
  using assms by (cases x) (auto simp: enc_items_VInt8 em_append_def blob_wf_def)

lemma blob_length_bound: "unat (blob_length b) < 4294967296"
  using unsigned_less [of "blob_length b", where ?'a = nat] by simp

lemma payload_items_wf:
  assumes "wf_value True x" and "GetTypeId x = BT_LIST \<or> GetTypeId x = BT_SET"
  shows "length (snd (payload_items x)) < 2 ^ 32 \<and> is_value_type (fst (payload_items x)) \<and>
    wf_items True (fst (payload_items x)) (snd (payload_items x))"
  using assms by (cases x) (auto simp: blob_wf_def wf_items_iff list_all_iff intro: blob_length_bound)

lemma complete_split: "complete (L @ M) \<Longrightarrow> M \<noteq> [] \<Longrightarrow> complete M \<and> (\<forall>l \<in> set L. snd l)"
proof (induction L)
  case (Cons l L)
  then show ?case by (cases l; cases "L @ M") auto
qed simp

lemma not_complex_basic: "is_value_type t \<Longrightarrow> \<not> is_complex t \<Longrightarrow> is_basic_tag t"
  by (cases t) (simp_all add: is_complex_def)

text \<open>The parts of a value are well-formed and have shorter encodings.\<close>

lemma item_le: "y \<in> set xs \<Longrightarrow> length (fst (enc_value F y)) \<le> length (fst (enc_items F xs))"
  by (induction xs) auto

lemma pair_le: "(x, y) \<in> set kvs \<Longrightarrow>
  length (fst (enc_value F x)) \<le> length (fst (enc_pairs F kvs)) \<and> length (fst (enc_value F y)) \<le> length (fst (enc_pairs F kvs))"
  by (induction kvs) auto

lemma wire_field_le: "p \<in> set ps \<Longrightarrow> length (fst (enc_value F (snd p))) \<le> length (wire_fields F ps)"
  by (induction ps) auto

lemma wire_level_less: "p \<in> set (fst l) \<Longrightarrow> l \<in> set L \<Longrightarrow> length (fst (enc_value F (snd p))) < length (wire_levels F L)"
proof (induction L)
  case (Cons l' L)
  then show ?case using wire_field_le [of p "fst l" F] by (cases l') fastforce
qed simp

lemma present_wf: "wf_field True f \<Longrightarrow> p \<in> set (present True f) \<Longrightarrow> wf_value True (snd p)"
  by (cases "(True, f)" rule: present.cases) (auto split: if_splits)

lemma levels_wf: "wf_struct True y \<Longrightarrow> l \<in> set (levels True base y) \<Longrightarrow> p \<in> set (fst l) \<Longrightarrow> wf_value True (snd p)"
  by (induction True base y rule: levels.induct) (fastforce simp: wf_fields_iff list_all_iff dest: present_wf)+

section \<open>The contract of a tagged writer\<close>

locale tagged_writer = protocol_writer W G emits
  for W :: "'w Writer" and G :: format and emits :: "('w \<Rightarrow> 'w res) \<Rightarrow> emission \<Rightarrow> bool" +
  assumes omits: "w_may_omit_fields W"
    and base_begin: "emits (w_WriteStructBegin W md True) ([], [])"
    and base_end: "emits (w_WriteStructEnd W True) ([stop_byte True], [])"
    and base_format: "f_struct G True e = (fst e @ [stop_byte True], snd e)"
    and int8_format: "f_basic G (VInt8 b) = [b]"
begin

definition carries :: "('w \<Rightarrow> 'r) \<Rightarrow> ('w \<Rightarrow> (InputBuffer, 'r) st) \<Rightarrow> byte list \<Rightarrow> emission \<Rightarrow> bool" where
  "carries k m bs e \<longleftrightarrow> (\<exists>act. emits act e \<and> conveys k act m bs)"

abbreviation "passes \<equiv> carries (\<lambda>w. w)"

lemma carries_bind:
  "carries k m bs e \<Longrightarrow> carries k' (\<lambda>w. f (k w)) bs' e' \<Longrightarrow> carries k' (\<lambda>w. bind (m w) f) (bs @ bs') (em_append e e')"
  unfolding carries_def using conveys_bind emits_seq by blast

lemma passes_tseq: "passes m bs e \<Longrightarrow> passes m' bs' e' \<Longrightarrow> passes (tseq m m') (bs @ bs') (em_append e e')"
  using carries_bind [of "\<lambda>w. w" m bs e "\<lambda>w. w" m' bs' e'] by (simp add: tseq_def [abs_def])

lemma carries_read:
  assumes "decodes r bs v" and "carries k (f v) bs' e"
  shows "carries k (\<lambda>w. bind r (\<lambda>v. f v w)) (bs @ bs') e"
  using assms(2) conveys_read [OF assms(1)] unfolding carries_def by blast

lemma passes_out: "emits f e \<Longrightarrow> passes (write_out f) [] e"
  unfolding carries_def using conveys_out by blast

lemma carries_ret: "carries k (\<lambda>w. ret (k w)) [] ([], [])"
  unfolding carries_def using conveys_ret emits_Nil by blast

lemma passes_ret: "passes ret [] ([], [])"
  using carries_ret [of "\<lambda>w. w"] by simp

lemma passes_write: "emits f e \<Longrightarrow> passes m bs e' \<Longrightarrow> passes (tseq (write_out f) m) bs (em_append e e')"
  using passes_tseq [OF passes_out] by simp

lemma passes_end: "passes m bs e \<Longrightarrow> emits f ([], []) \<Longrightarrow> passes (tseq m (write_out f)) bs e"
  using passes_tseq [OF _ passes_out] by fastforce

lemma carries_cong: "carries k m bs e \<Longrightarrow> bs = bs' \<Longrightarrow> e = e' \<Longrightarrow> carries k m bs' e'"
  by simp

lemma passes_struct:
  assumes "passes m bs e"
  shows "passes (tseq (write_out (w_WriteStructBegin W md base)) (tseq m (write_out (w_WriteStructEnd W base)))) bs (f_struct G base e)"
proof -
  obtain act where act: "emits act e" "conveys (\<lambda>w. w) act m bs" using assms by (auto simp: carries_def)
  have "conveys (\<lambda>w. w) (seq (w_WriteStructBegin W md base) (seq act (w_WriteStructEnd W base)))
      (tseq (write_out (w_WriteStructBegin W md base)) (tseq m (write_out (w_WriteStructEnd W base)))) ([] @ bs @ [])"
    unfolding tseq_def [abs_def] by (rule conveys_bind [OF conveys_out conveys_bind [OF act(2) conveys_out]])
  with StructBegin_End [OF act(1)] show ?thesis by (auto simp: carries_def)
qed

lemma passes_times:
  assumes "\<And>x. x \<in> set xs \<Longrightarrow> passes m (fst (enc_value F x)) (enc_value G x)"
  shows "passes (times (length xs) m) (fst (enc_items F xs)) (enc_items G xs)"
  using assms by (induction xs) (auto intro: passes_ret passes_tseq)

lemma passes_times_pairs:
  assumes "\<And>x y. (x, y) \<in> set kvs \<Longrightarrow> passes m (fst (enc_value F x)) (enc_value G x) \<and> passes m' (fst (enc_value F y)) (enc_value G y)"
  shows "passes (times (length kvs) (tseq m m')) (fst (enc_pairs F kvs)) (enc_pairs G kvs)"
  using assms
proof (induction kvs)
  case (Cons p kvs)
  obtain x y where p: "p = (x, y)" by (cases p)
  have "passes m (fst (enc_value F x)) (enc_value G x)" "passes m' (fst (enc_value F y)) (enc_value G y)"
    using Cons.prems p by auto
  moreover have "passes (times (length kvs) (tseq m m')) (fst (enc_pairs F kvs)) (enc_pairs G kvs)"
    using Cons by (intro Cons.IH) auto
  ultimately show ?case using p by (auto simp: tseq_assoc intro: passes_tseq)
qed (simp add: passes_ret)

lemma passes_field:
  assumes "passes (val src) (fst (enc_value F x)) (enc_value G x)" and "source_type src = GetTypeId x"
  shows "passes (WriteField_value W val fid md src) (fst (enc_value F x)) (em_append (f_field G (GetTypeId x) fid, []) (enc_value G x))"
  unfolding WriteField_value_def using assms FieldBegin [of "GetTypeId x" fid md] FieldEnd
  by (intro passes_write passes_end) auto

lemma passes_Container:
  assumes "length xs < 2 ^ 32" and "is_value_type t" and "source_type src = t"
    and "\<And>x. x \<in> set xs \<Longrightarrow> passes (val src) (fst (enc_value F x)) (enc_value G x)"
  shows "passes (Container W val src (of_nat (length xs))) (fst (enc_items F xs))
    (em_append (f_container G (of_nat (length xs)) t, []) (enc_items G xs))"
proof -
  have "unat (of_nat (length xs) :: u32) = length xs" using assms(1) by (intro unat_of_nat_small) simp
  then show ?thesis
    unfolding Container_def using assms ContainerBegin ContainerEnd
    by (intro passes_write passes_end passes_tseq) (auto intro: passes_times)
qed

lemma passes_Container2:
  assumes "length kvs < 2 ^ 32" and "is_value_type k" "is_value_type t" and "source_type ksrc = k" "source_type src = t"
    and "\<And>x y. (x, y) \<in> set kvs \<Longrightarrow> passes (val ksrc) (fst (enc_value F x)) (enc_value G x) \<and>
      passes (val src) (fst (enc_value F y)) (enc_value G y)"
  shows "passes (Container2 W val ksrc src (of_nat (length kvs))) (fst (enc_pairs F kvs))
    (em_append (f_container2 G (of_nat (length kvs)) k t, []) (enc_pairs G kvs))"
proof -
  have "unat (of_nat (length kvs) :: u32) = length kvs" using assms(1) by (intro unat_of_nat_small) simp
  then show ?thesis
    unfolding Container2_def using assms ContainerBegin2 ContainerEnd
    by (intro passes_write passes_end) (auto intro: passes_times_pairs)
qed

text \<open>The encoding of a struct by its levels\<close>

lemma enc_base_em: "base \<Longrightarrow> enc_struct G base y = em_levels G (levels True base y)"
  by (induction True base y rule: levels.induct)
    (auto simp: base_format em_fields_enc may_omit omits em_levels_append em_append_assoc em_append_def)

lemma enc_struct_em: "enc_struct G False y = f_struct G False (em_open G (levels True False y))"
proof (cases y)
  case (Struct md b fs)
  then show ?thesis
    using bases_levels [of True] by (cases b) (auto simp: em_fields_enc may_omit omits enc_base_em em_open_append)
qed

end

section \<open>The sources that fit a payload\<close>

text \<open>
  How the code looks at a value of an unknown field, at the elements of a container, and the elements
  that it finds there; \<open>schema_levels\<close> lists the fields of a schema from its root base down.
\<close>

definition unknown_source :: "BondDataType \<Rightarrow> source" where
  "unknown_source t = (if t = BT_STRUCT then Typed (TStruct unknown_schema)
     else if is_complex t then TypeOnly t else Typed (TBasic t))"

definition item_source :: "source \<Rightarrow> BondDataType \<Rightarrow> source" where
  "item_source e t = (if is_complex t then if t = source_type e then e else TypeOnly t else Typed (TBasic t))"

fun element_source :: "source \<Rightarrow> source option" where
  "element_source (Typed TBlob) = Some (Typed (TBasic BT_INT8))"
| "element_source (Typed (TNullable e)) = Some (Typed e)"
| "element_source (Typed (TList e)) = Some (Typed e)"
| "element_source (Typed (TSet t)) = Some (Typed (TBasic t))"
| "element_source (Typed t) = None"
| "element_source (TypeOnly t) = (if t = BT_STRUCT \<or> t = BT_MAP then None else Some (Typed (TStruct unknown_schema)))"

fun map_source :: "source \<Rightarrow> (BondDataType \<times> source) option" where
  "map_source (Typed (TMap k e)) = Some (k, Typed e)"
| "map_source (Typed t) = None"
| "map_source (TypeOnly t) = (if t = BT_MAP then Some (BT_STRUCT, Typed (TStruct unknown_schema)) else None)"

fun schema_levels :: "sschema \<Rightarrow> fdef list list" where
  "schema_levels (Schema md None fds) = [fds]"
| "schema_levels (Schema md (Some b) fds) = schema_levels b @ [fds]"

lemma length_schema_levels: "length (schema_levels s) = depth s"
  by (induction s rule: schema_levels.induct) auto

inductive fits :: "source \<Rightarrow> bvalue \<Rightarrow> bool" where
  basic: "is_basic x \<Longrightarrow> fits (Typed (TBasic (GetTypeId x))) x"
| items: "element_source src = Some e \<Longrightarrow> GetTypeId x = BT_LIST \<or> GetTypeId x = BT_SET \<Longrightarrow> source_type src = GetTypeId x \<Longrightarrow>
    (\<forall>y \<in> set (snd (payload_items x)). fits (item_source e (fst (payload_items x))) y) \<Longrightarrow> fits src x"
| map: "map_source src = Some (k', e) \<Longrightarrow> is_basic_tag k \<Longrightarrow> source_type src = BT_MAP \<Longrightarrow>
    (\<forall>p \<in> set kvs. fits (item_source e t) (snd p)) \<Longrightarrow> fits src (VMap k t kvs)"
| struct: "(\<forall>l \<in> set (levels True False y). \<forall>p \<in> set (fst l). fits (unknown_source (GetTypeId (snd p))) (snd p)) \<Longrightarrow>
    depth s \<le> length (levels True False y) \<Longrightarrow>
    (\<forall>fds \<in> set (schema_levels s). \<forall>fd \<in> set fds. is_value_type (get_type_id (fd_type fd))) \<Longrightarrow>
    (\<forall>q \<in> set (zip (schema_levels s) (levels True False y)). \<forall>p \<in> set (fst (snd q)). \<forall>fd \<in> set (fst q).
       fd_id fd = fst p \<and> get_type_id (fd_type fd) = GetTypeId (snd p) \<longrightarrow> fits (Typed (fd_type fd)) (snd p)) \<Longrightarrow>
    fits (Typed (TStruct s)) (VStruct y)"

inductive_cases fits_struct_cases: "fits (Typed (TStruct s)) x"

lemma fits_source_type: "fits src x \<Longrightarrow> source_type src = GetTypeId x"
  by (induction rule: fits.induct) simp_all

section \<open>The parser conveys a payload\<close>

locale transcodable_reader = tagged_reader R F for R :: Reader and F :: format +
  assumes container_nonempty: "f_container F n t \<noteq> []" and container2_nonempty: "f_container2 F n k t \<noteq> []"

locale transcoder = transcodable_reader R F + tagged_writer W G emits
  for R :: Reader and F :: format and W :: "'w Writer" and G :: format and emits :: "('w \<Rightarrow> 'w res) \<Rightarrow> emission \<Rightarrow> bool"
begin

text \<open>A turn of a loop: a step, the next tag, and what follows for that tag\<close>

lemma carries_turn:
  assumes m: "passes m bs e"
    and S: "\<And>ib w ib2. left ib2 < left ib \<Longrightarrow> S ib w (fst (first_tag l)) (snd (first_tag l)) ib2 = K w ib2"
    and K: "carries k K (after_tag F l @ cs) e'"
  shows "carries k (\<lambda>w ib. res_bind (m w ib) (\<lambda>(w, ib1). res_bind (r_ReadFieldBegin R ib1) (\<lambda>((type, fid), ib2).
    S ib w type fid ib2))) (bs @ wire_level F l @ cs) (em_append e e')"
proof -
  obtain act act' where act: "emits act e" "conveys (\<lambda>w. w) act m bs" "emits act' e'" "conveys k act' K (after_tag F l @ cs)"
    using m K by (auto simp: carries_def)
  have "conveys k (seq act act') (\<lambda>w ib. res_bind (m w ib) (\<lambda>(w, ib1). res_bind (r_ReadFieldBegin R ib1)
      (\<lambda>((type, fid), ib2). S ib w type fid ib2))) (bs @ wire_level F l @ cs)"
  proof (rule conveysI)
    fix ib w rest assume at: "ib_at ib ((bs @ wire_level F l @ cs) @ rest)"
    let ?ib1 = "ib_adv (length bs) ib" and ?n = "length (tag_bytes F l)"
    have at0: "ib_at ib (bs @ wire_level F l @ cs @ rest)" using at by simp
    have at1: "ib_at ?ib1 (tag_bytes F l @ after_tag F l @ cs @ rest)"
      using ib_at_adv_append [OF at0] by (simp add: wire_level_tag)
    have at2: "ib_at (ib_adv ?n ?ib1) ((after_tag F l @ cs) @ rest)" using ib_at_adv_append [OF at1] by simp
    have "left (ib_adv ?n ?ib1) < left ib"
      using at0 at2 tag_nonempty [of l] by (simp add: left_def ib_at_def wire_level_tag)
    note S = S [OF this]
    note tag = decodesD [OF tag_decodes at1]
    show "res_bind (m w ib) (\<lambda>(w, ib1). res_bind (r_ReadFieldBegin R ib1) (\<lambda>((type, fid), ib2). S ib w type fid ib2)) =
      res_bind (seq act act' w) (\<lambda>w'. Inr (k w', ib_adv (length (bs @ wire_level F l @ cs)) ib))"
      using conveysD [OF act(2) at0] conveysD [OF act(4) at2] tag S
      by (cases "act w") (auto simp: seq_def wire_level_tag case_prod_unfold add.assoc)
  qed
  with emits_seq [OF act(1,3)] show ?thesis unfolding carries_def by blast
qed

lemmas carries_turn_level = carries_turn [where cs = "[]", unfolded append_Nil append_Nil2]

abbreviation "conv val src x \<equiv> passes (val src) (fst (enc_value F x)) (enc_value G x)"

definition fields_conv :: "(source \<Rightarrow> 'w transform) \<Rightarrow> fdef list \<Rightarrow> (u16 \<times> bvalue) list \<Rightarrow> bool" where
  "fields_conv val fds ps \<longleftrightarrow> (\<forall>p \<in> set ps. conv val (unknown_source (GetTypeId (snd p))) (snd p) \<and>
     (\<forall>fd \<in> set fds. fd_id fd = fst p \<and> get_type_id (fd_type fd) = GetTypeId (snd p) \<longrightarrow> conv val (Typed (fd_type fd)) (snd p)))"

lemma fields_conv_simps [simp]:
  "fields_conv val fds []"
  "fields_conv val fds ((fid, x) # ps) \<longleftrightarrow> conv val (unknown_source (GetTypeId x)) x \<and>
     (\<forall>fd \<in> set fds. fd_id fd = fid \<and> get_type_id (fd_type fd) = GetTypeId x \<longrightarrow> conv val (Typed (fd_type fd)) x) \<and>
     fields_conv val fds ps"
  by (auto simp: fields_conv_def)

lemma fields_conv_mono: "fields_conv val fds ps \<Longrightarrow> set fds' \<subseteq> set fds \<Longrightarrow> fields_conv val fds' ps"
  by (auto simp: fields_conv_def)

abbreviation "em_field fid x \<equiv> em_append (f_field G (GetTypeId x) fid, []) (enc_value G x)"

lemma source_type_unknown [simp]: "source_type (unknown_source t) = t"
  by (simp add: unknown_source_def)

lemma UnknownField_passes:
  assumes "conv val (unknown_source (GetTypeId x)) x"
  shows "passes (Transcode_UnknownField W val fid (GetTypeId x)) (fst (enc_value F x)) (em_field fid x)"
proof -
  have "is_complex (GetTypeId x) \<longleftrightarrow> GetTypeId x = BT_STRUCT \<or> GetTypeId x = BT_LIST \<or> GetTypeId x = BT_SET \<or> GetTypeId x = BT_MAP"
    and "\<not> is_complex (GetTypeId x) \<Longrightarrow> is_basic_tag (GetTypeId x)"
    by (cases x; simp add: is_complex_def)+
  then have "Transcode_UnknownField W val fid (GetTypeId x) =
      WriteField_value W val fid Metadata_init (unknown_source (GetTypeId x))"
    by (auto simp: Transcode_UnknownField_def unknown_source_def)
  with passes_field [where val = val and F = F, OF assms] show ?thesis by simp
qed

lemma Mismatch_passes:
  assumes "conv val (unknown_source (GetTypeId x)) x"
  shows "passes (Transcode_Mismatch W val fd fid (GetTypeId x)) (fst (enc_value F x)) (em_field fid x)"
proof (cases "is_basic_type (fd_type fd) \<and> fid = fd_id fd \<and> \<not> is_complex (GetTypeId x)")
  case True
  then have "is_basic_tag (GetTypeId x)" "unknown_source (GetTypeId x) = Typed (TBasic (GetTypeId x))"
    by (cases x; simp add: is_complex_def unknown_source_def)+
  with True passes_field [where val = val and F = F, OF assms] show ?thesis by (simp add: Transcode_Mismatch_def)
next
  case False
  show ?thesis
    unfolding Transcode_Mismatch_def if_not_P [OF False] by (rule UnknownField_passes [of val x, OF assms])
qed

lemma Rest_carries:
  assumes "fields_conv val fds ps"
  shows "carries (\<lambda>w. (w, stop_tag base, 0))
    (\<lambda>w. Transcode_Rest R W val w (fst (first_tag (ps, base))) (snd (first_tag (ps, base)))) (after_tag F (ps, base)) (em_fields G ps)"
  using assms
proof (induction ps)
  case Nil
  have "(\<lambda>w. Transcode_Rest R W val w (stop_tag base) 0) = (\<lambda>w. ret (w, stop_tag base, 0))"
    by (simp add: fun_eq_iff Transcode_Rest.simps ret_def)
  then show ?case using carries_ret [of "\<lambda>w. (w, stop_tag base, 0)"] by simp
next
  case (Cons p ps)
  obtain fid x where p: "p = (fid, x)" by (cases p)
  have "carries (\<lambda>w. (w, stop_tag base, 0)) (\<lambda>w ib. res_bind (Transcode_UnknownField W val fid (GetTypeId x) w ib)
      (\<lambda>(w, ib1). res_bind (r_ReadFieldBegin R ib1) (\<lambda>((type, fid), ib2).
        if left ib2 < left ib then Transcode_Rest R W val w type fid ib2 else Inl OutOfFuel)))
      (fst (enc_value F x) @ wire_level F (ps, base)) (em_append (em_field fid x) (em_fields G ps))"
    using Cons p by (intro carries_turn_level [where l = "(ps, base)"] UnknownField_passes) auto
  moreover have "Transcode_Rest R W val w (GetTypeId x) fid = (\<lambda>ib. res_bind (Transcode_UnknownField W val fid (GetTypeId x) w ib)
      (\<lambda>(w, ib1). res_bind (r_ReadFieldBegin R ib1) (\<lambda>((type, fid), ib2).
        if left ib2 < left ib then Transcode_Rest R W val w type fid ib2 else Inl OutOfFuel)))" for w
    by (rule ext, subst Transcode_Rest.simps) simp
  ultimately show ?case using p by (simp add: em_append_assoc)
qed

lemma Omitted_then:
  assumes "carries k K bs e"
  shows "carries k (\<lambda>w ib. res_bind (Transcode_Omitted W fd w ib) (\<lambda>(w, ib). K w ib)) bs e"
proof -
  have "passes (Transcode_Omitted W fd) [] ([], [])"
    unfolding Transcode_Omitted_def by (intro passes_out FieldOmitted omits)
  from carries_bind [OF this, of k K bs e] assms
  have "carries k (\<lambda>w. bind (Transcode_Omitted W fd w) K) bs e" by simp
  moreover have "bind (Transcode_Omitted W fd w) K = (\<lambda>ib. res_bind (Transcode_Omitted W fd w ib) (\<lambda>(w, ib). K w ib))" for w
    by (auto simp: bind_def fun_eq_iff res_bind_def split: sum.splits)
  ultimately show ?thesis by simp
qed

lemma Fields_carries:
  assumes "fields_conv val fds ps" and "\<forall>fd \<in> set fds. is_value_type (get_type_id (fd_type fd))"
  shows "carries (\<lambda>w. (w, stop_tag base, 0))
    (\<lambda>w. Transcode_Fields R W val fds w (fst (first_tag (ps, base))) (snd (first_tag (ps, base)))) (after_tag F (ps, base)) (em_fields G ps)"
  using assms
proof (induction fds arbitrary: ps)
  case Nil
  then show ?case using Rest_carries by (simp add: Transcode_Fields.simps [abs_def])
next
  case (Cons fd fds)
  let ?k = "\<lambda>w. (w, stop_tag base, 0 :: u16)"
  have next_field: "carries ?k (\<lambda>w. Transcode_Fields R W val fds w (fst (first_tag (ps, base))) (snd (first_tag (ps, base))))
      (after_tag F (ps, base)) (em_fields G ps)" if "fields_conv val (fd # fds) ps" for ps
    using Cons.IH [of ps] fields_conv_mono [OF that, of fds] Cons.prems(2) by auto
  from Cons.prems(1) show ?case
  proof (induction ps)
    case Nil
    have "get_type_id (fd_type fd) \<noteq> stop_tag base"
      using Cons.prems(2) by (auto simp: stop_tag_def)
    then have "Transcode_Fields R W val (fd # fds) w (stop_tag base) 0 =
        (\<lambda>ib. res_bind (Transcode_Omitted W fd w ib) (\<lambda>(w, ib). Transcode_Fields R W val fds w (stop_tag base) 0 ib))" for w
      by (simp add: fun_eq_iff Transcode_Fields.simps)
    with Omitted_then [OF next_field [of "[]"]] show ?case by simp
  next
    case (Cons p ps)
    obtain fid x where p: "p = (fid, x)" by (cases p)
    let ?step = "if fd_id fd = fid \<and> get_type_id (fd_type fd) = GetTypeId x then Transcode_Field W val fd
      else Transcode_Mismatch W val fd fid (GetTypeId x)"
    show ?case
    proof (cases "fd_id fd = fid \<and> get_type_id (fd_type fd) = GetTypeId x \<or> fid \<le> fd_id fd")
      case True
      have step: "passes ?step (fst (enc_value F x)) (em_field fid x)"
        using Cons.prems p Mismatch_passes passes_field [where val = val and F = F and src = "Typed (fd_type fd)" and x = x]
        by (auto simp: Transcode_Field_def)
      let ?S = "\<lambda>ib w type fid ib2. if fd_id fd < fid \<or> is_stop type then Transcode_Fields R W val fds w type fid ib2
        else if left ib2 < left ib then Transcode_Fields R W val (fd # fds) w type fid ib2 else Inl OutOfFuel"
      let ?next = "fd_id fd < snd (first_tag (ps, base)) \<or> is_stop (fst (first_tag (ps, base)))"
      let ?K = "\<lambda>w. if ?next then Transcode_Fields R W val fds w (fst (first_tag (ps, base))) (snd (first_tag (ps, base)))
        else Transcode_Fields R W val (fd # fds) w (fst (first_tag (ps, base))) (snd (first_tag (ps, base)))"
      have "carries ?k ?K (after_tag F (ps, base)) (em_fields G ps)"
        using next_field [of ps] Cons.IH Cons.prems p by (cases ?next) simp_all
      then have "carries ?k (\<lambda>w ib. res_bind (?step w ib) (\<lambda>(w, ib1). res_bind (r_ReadFieldBegin R ib1)
          (\<lambda>((type, fid), ib2). ?S ib w type fid ib2))) (fst (enc_value F x) @ wire_level F (ps, base))
          (em_append (em_field fid x) (em_fields G ps))"
        by (intro carries_turn_level [where l = "(ps, base)" and K = ?K and S = ?S] step) simp_all
      moreover have "Transcode_Fields R W val (fd # fds) w (GetTypeId x) fid =
          (\<lambda>ib. res_bind (?step w ib) (\<lambda>(w, ib1). res_bind (r_ReadFieldBegin R ib1) (\<lambda>((type, fid), ib2). ?S ib w type fid ib2)))" for w
        using True by (intro ext, subst Transcode_Fields.simps(2)) auto
      ultimately show ?thesis using p by (simp add: em_append_assoc)
    next
      case False
      then have "Transcode_Fields R W val (fd # fds) w (GetTypeId x) fid =
          (\<lambda>ib. res_bind (Transcode_Omitted W fd w ib) (\<lambda>(w, ib). Transcode_Fields R W val fds w (GetTypeId x) fid ib))" for w
        by (auto simp: fun_eq_iff Transcode_Fields.simps)
      with Omitted_then [OF next_field [OF Cons.prems]] p show ?thesis by simp
    qed
  qed
qed

lemma Unknown_turn:
  assumes "conv val (unknown_source (GetTypeId x)) x"
    and "passes (\<lambda>w. Transcode_Unknown R W val w (fst (first_tag l)) (snd (first_tag l))) (after_tag F l @ cs) e"
  shows "passes (\<lambda>w. Transcode_Unknown R W val w (GetTypeId x) fid) (fst (enc_value F x) @ wire_level F l @ cs)
    (em_append (em_field fid x) e)"
proof -
  have "passes (\<lambda>w ib. res_bind (Transcode_UnknownField W val fid (GetTypeId x) w ib)
      (\<lambda>(w, ib1). res_bind (r_ReadFieldBegin R ib1) (\<lambda>((type, fid), ib2).
        if left ib2 < left ib then Transcode_Unknown R W val w type fid ib2 else Inl OutOfFuel)))
      (fst (enc_value F x) @ wire_level F l @ cs) (em_append (em_field fid x) e)"
    by (rule carries_turn [OF UnknownField_passes [of val x, OF assms(1)] _ assms(2)]) simp
  moreover have "Transcode_Unknown R W val w (GetTypeId x) fid = (\<lambda>ib. res_bind (Transcode_UnknownField W val fid (GetTypeId x) w ib)
      (\<lambda>(w, ib1). res_bind (r_ReadFieldBegin R ib1) (\<lambda>((type, fid), ib2).
        if left ib2 < left ib then Transcode_Unknown R W val w type fid ib2 else Inl OutOfFuel)))" for w
  proof -
    have "GetTypeId x \<noteq> BT_STOP" "GetTypeId x \<noteq> BT_STOP_BASE" by (cases x; simp)+
    then show ?thesis by (intro ext, subst Transcode_Unknown.simps) simp
  qed
  ultimately show ?thesis by simp
qed

lemma Unknown_end:
  assumes "passes (\<lambda>w. Transcode_Unknown R W val w (fst (first_tag l)) (snd (first_tag l))) (after_tag F l @ cs) e"
  shows "passes (\<lambda>w. Transcode_Unknown R W val w BT_STOP_BASE fid) (wire_level F l @ cs) (em_append ([stop_byte True], []) e)"
proof -
  have "passes (\<lambda>w ib. res_bind (write_out (w_WriteStructEnd W True) w ib)
      (\<lambda>(w, ib1). res_bind (r_ReadFieldBegin R ib1) (\<lambda>((type, fid), ib2).
        if left ib2 < left ib then Transcode_Unknown R W val w type fid ib2 else Inl OutOfFuel)))
      ([] @ wire_level F l @ cs) (em_append ([stop_byte True], []) e)"
    by (rule carries_turn [OF passes_out [OF base_end] _ assms]) simp
  moreover have "Transcode_Unknown R W val w BT_STOP_BASE fid = (\<lambda>ib. res_bind (write_out (w_WriteStructEnd W True) w ib)
      (\<lambda>(w, ib1). res_bind (r_ReadFieldBegin R ib1) (\<lambda>((type, fid), ib2).
        if left ib2 < left ib then Transcode_Unknown R W val w type fid ib2 else Inl OutOfFuel)))" for w
    by (intro ext, subst Transcode_Unknown.simps) simp
  ultimately show ?thesis by simp
qed

lemma Unknown_passes:
  assumes "complete ((ps, base) # ls)" and "\<forall>l \<in> set ((ps, base) # ls). fields_conv val [] (fst l)"
  shows "passes (\<lambda>w. Transcode_Unknown R W val w (fst (first_tag (ps, base))) (snd (first_tag (ps, base))))
    (after_tag F (ps, base) @ wire_levels F ls) (em_open G ((ps, base) # ls))"
  using assms
proof (induction ls arbitrary: ps base)
  case Nil
  from Nil.prems(2) show ?case
  proof (induction ps)
    case Nil
    have "(\<lambda>w. Transcode_Unknown R W val w BT_STOP 0) = ret"
      by (simp add: fun_eq_iff Transcode_Unknown.simps ret_def)
    with \<open>complete [(_, base)]\<close> show ?case using passes_ret by (simp add: stop_tag_def)
  next
    case (Cons p ps)
    obtain fid x where p: "p = (fid, x)" by (cases p)
    show ?case using Unknown_turn [of val x "(ps, base)" "[]" _ fid] Cons p by (simp add: em_append_assoc)
  qed
next
  case (Cons l ls)
  obtain ps' base' where l: "l = (ps', base')" by (cases l)
  have base: base and more: "complete (l # ls)" using Cons.prems(1) by auto
  from Cons.prems(2) show ?case
  proof (induction ps)
    case Nil
    have "passes (\<lambda>w. Transcode_Unknown R W val w (fst (first_tag l)) (snd (first_tag l))) (after_tag F l @ wire_levels F ls) (em_open G (l # ls))"
      using Cons.IH [of ps' base'] more Nil l by simp
    then show ?case using Unknown_end [of val l "wire_levels F ls"] base l by (simp add: stop_tag_def)
  next
    case (Cons p ps)
    obtain fid x where p: "p = (fid, x)" by (cases p)
    show ?case using Unknown_turn [of val x "(ps, base)" "wire_levels F (l # ls)" _ fid] Cons p
      by (simp add: em_append_assoc)
  qed
qed

definition levels_conv :: "(source \<Rightarrow> 'w transform) \<Rightarrow> fdef list list \<Rightarrow> level list \<Rightarrow> bool" where
  "levels_conv val S L \<longleftrightarrow> (\<forall>q \<in> set (zip S L). fields_conv val (fst q) (fst (snd q))) \<and>
     (\<forall>l \<in> set L. fields_conv val [] (fst l)) \<and> (\<forall>fds \<in> set S. \<forall>fd \<in> set fds. is_value_type (get_type_id (fd_type fd)))"

lemma DynamicFields_base:
  assumes "fields_conv val fds ps" and "\<forall>fd \<in> set fds. is_value_type (get_type_id (fd_type fd))"
  shows "passes (Transcode_DynamicFields R W val True fds) (wire_level F (ps, base)) (em_fields G ps)"
proof -
  have "passes (\<lambda>w. bind (Transcode_Fields R W val fds w (fst (first_tag (ps, base))) (snd (first_tag (ps, base))))
      (\<lambda>(w, type, fid). ret w)) (after_tag F (ps, base) @ []) (em_append (em_fields G ps) ([], []))"
    by (rule carries_bind [OF Fields_carries [OF assms]]) (simp add: passes_ret)
  from carries_read [OF tag_decodes [of "(ps, base)"], where f = "\<lambda>(type, fid) w.
      bind (Transcode_Fields R W val fds w type fid) (\<lambda>(w, type, fid). ret w)", of "\<lambda>w. w"] this
  show ?thesis by (simp add: Transcode_DynamicFields_def [abs_def] wire_level_tag case_prod_unfold)
qed

lemma DynamicFields_top:
  assumes "fields_conv val fds ps" and "\<forall>fd \<in> set fds. is_value_type (get_type_id (fd_type fd))"
    and "complete ((ps, base) # ls)" and "\<forall>l \<in> set ls. fields_conv val [] (fst l)"
  shows "passes (Transcode_DynamicFields R W val False fds) (wire_levels F ((ps, base) # ls)) (em_open G ((ps, base) # ls))"
proof -
  have "complete (([], base) # ls)" using assms(3) by (cases ls) auto
  then have "passes (\<lambda>w. Transcode_Unknown R W val w (stop_tag base) 0) (wire_levels F ls) (em_open G (([], base) # ls))"
    using Unknown_passes [of "[]" base ls val] assms(4) by simp
  then have "passes (\<lambda>w. bind (Transcode_Fields R W val fds w (fst (first_tag (ps, base))) (snd (first_tag (ps, base))))
      (\<lambda>(w, type, fid). Transcode_Unknown R W val w type fid)) (after_tag F (ps, base) @ wire_levels F ls)
      (em_append (em_fields G ps) (em_open G (([], base) # ls)))"
    by (intro carries_bind [OF Fields_carries [OF assms(1,2)]]) simp
  from carries_read [OF tag_decodes [of "(ps, base)"], where f = "\<lambda>(type, fid) w.
      bind (Transcode_Fields R W val fds w type fid) (\<lambda>(w, type, fid). Transcode_Unknown R W val w type fid)", of "\<lambda>w. w"] this
  show ?thesis
    by (simp add: Transcode_DynamicFields_def [abs_def] wire_level_tag case_prod_unfold em_open_Cons [of G ps])
qed

lemma list_last_level: "length L = Suc n \<Longrightarrow> \<exists>L' ps base. L = L' @ [(ps, base)] \<and> length L' = n"
  by (cases L rule: rev_cases) auto

lemma base_struct_passes:
  assumes "length L = depth s" and "\<forall>l \<in> set L. snd l" and "levels_conv val (schema_levels s) L"
  shows "passes (Transcode_struct R W val s True) (wire_levels F L) (em_levels G L)"
  using assms
proof (induction s arbitrary: L rule: depth.induct)
  case (1 md fds)
  then obtain ps where L: "L = [(ps, True)]" by (cases L) auto
  have fields: "passes (Transcode_DynamicFields R W val True fds) (wire_level F (ps, True)) (em_fields G ps)"
    using "1.prems"(3) L by (intro DynamicFields_base) (auto simp: levels_conv_def)
  from carries_read [OF base_StructBegin passes_struct [OF fields, of md True]]
  show ?case using L dynamic by (simp add: Transcode_ReadFields_def base_format em_append_def)
next
  case (2 md b fds)
  have "length L = Suc (depth b)" using "2.prems"(1) by simp
  from list_last_level [OF this] "2.prems"(2) obtain L' ps where L: "L = L' @ [(ps, True)]" "length L' = depth b"
    by auto
  have base: "passes (Transcode_struct R W val b True) (wire_levels F L') (em_levels G L')"
    using "2.prems" L length_schema_levels [of b] by (intro "2.IH") (auto simp: levels_conv_def)
  have fields: "passes (Transcode_DynamicFields R W val True fds) (wire_level F (ps, True)) (em_fields G ps)"
    using "2.prems"(3) L length_schema_levels [of b] by (intro DynamicFields_base) (auto simp: levels_conv_def)
  from carries_read [OF base_StructBegin passes_struct [OF passes_tseq [OF base fields], of md True]]
  show ?case using L dynamic
    by (simp add: Transcode_ReadFields_def base_format em_levels_append em_append_def tseq_assoc)
qed

lemma top_struct_passes:
  assumes begin_ok: "decodes (r_ReadStructBegin R False) pre ()" and "depth s \<le> length L" and "complete L"
    and "levels_conv val (schema_levels s) L"
  shows "passes (Transcode_struct R W val s False) (pre @ wire_levels F L) (f_struct G False (em_open G L))"
proof (cases s rule: depth.cases)
  case (1 md fds)
  obtain ps base ls where L: "L = (ps, base) # ls" using assms(3) by (cases L) auto
  have fields: "passes (Transcode_DynamicFields R W val False fds) (wire_levels F L) (em_open G L)"
    unfolding L using assms(3,4) L 1 by (intro DynamicFields_top) (auto simp: levels_conv_def)
  from carries_read [OF begin_ok passes_struct [OF fields, of md False]] 1 dynamic
  show ?thesis by (simp add: Transcode_ReadFields_def)
next
  case (2 md b fds)
  let ?d = "depth b"
  obtain ps base ls where d: "drop ?d L = (ps, base) # ls"
    using assms(2) 2 by (cases "drop ?d L") auto
  let ?L = "take ?d L"
  have L: "L = ?L @ (ps, base) # ls" using d append_take_drop_id [of ?d L] by simp
  have len: "length ?L = length (schema_levels b)" using assms(2) 2 by (simp add: length_schema_levels)
  have compl: "complete ((ps, base) # ls)" "\<forall>l \<in> set ?L. snd l"
    using complete_split [of ?L "(ps, base) # ls"] assms(3) L by auto
  have conv: "levels_conv val (schema_levels b @ [fds]) (?L @ (ps, base) # ls)" using assms(4) 2 L by simp
  have b: "passes (Transcode_struct R W val b True) (wire_levels F ?L) (em_levels G ?L)"
    using conv len compl(2) by (intro base_struct_passes) (auto simp: levels_conv_def length_schema_levels)
  have fields: "passes (Transcode_DynamicFields R W val False fds) (wire_levels F ((ps, base) # ls)) (em_open G ((ps, base) # ls))"
    using conv len compl(1) by (intro DynamicFields_top) (auto simp: levels_conv_def)
  have "passes (Transcode_struct R W val s False) (pre @ (wire_levels F ?L @ wire_levels F ((ps, base) # ls)))
      (f_struct G False (em_append (em_levels G ?L) (em_open G ((ps, base) # ls))))"
    using carries_read [OF begin_ok passes_struct [OF passes_tseq [OF b fields], of md False]] 2 dynamic
    by (simp add: Transcode_ReadFields_def tseq_assoc)
  moreover have "em_open G L = em_append (em_levels G ?L) (em_open G ((ps, base) # ls))"
    by (subst L, rule em_open_append [OF compl(2)]) simp
  moreover have "wire_levels F L = wire_levels F ?L @ wire_levels F ((ps, base) # ls)"
    by (subst L) simp
  ultimately show ?thesis by simp
qed

text \<open>Containers\<close>

lemma container_length: "0 < length (f_container F n t)" "0 < length (f_container2 F n k t)"
  using container_nonempty container2_nonempty by simp_all

lemma Container_conv:
  assumes x: "wf_value True x" "GetTypeId x = BT_LIST \<or> GetTypeId x = BT_SET"
    and items: "\<And>y. y \<in> set (snd (payload_items x)) \<Longrightarrow> conv val (item_source e (fst (payload_items x))) y"
  shows "passes (TransformContainer R W val e) (fst (enc_value F x)) (enc_value G x)"
proof -
  obtain t xs where xs: "payload_items x = (t, xs)" by (cases "payload_items x")
  note wf = payload_items_wf [OF x, unfolded xs fst_conv snd_conv]
  let ?e = "item_source e t"
  have src: "source_type ?e = t" by (simp add: item_source_def)
  have elements: "passes (Container W val ?e (of_nat (length xs))) (fst (enc_items F xs))
      (em_append (f_container G (of_nat (length xs)) t, []) (enc_items G xs))"
    using items xs wf src by (intro passes_Container) auto
  have "is_basic_tag t" if "\<not> is_complex t"
    using wf that by (simp add: not_complex_basic)
  let ?f = "\<lambda>(sz, type) w. if is_complex type then (if type = source_type e then Container W val e sz w else Container W val (TypeOnly type) sz w)
    else BasicTypeContainer W val type sz w" and ?n = "of_nat (length xs) :: u32"
  have "?f (?n, t) = Container W val ?e ?n"
    using \<open>\<not> is_complex t \<Longrightarrow> is_basic_tag t\<close> by (auto simp: item_source_def BasicTypeContainer_def)
  with elements wf dynamic have "passes (\<lambda>w. bind (r_ReadContainerBegin R (source_type e)) (\<lambda>v. ?f v w))
      (f_container F ?n t @ fst (enc_items F xs)) (em_append (f_container G ?n t, []) (enc_items G xs))"
    by (intro carries_read [OF ContainerBegin_decodes]) simp_all
  then have "passes (TransformContainer R W val e) (f_container F ?n t @ fst (enc_items F xs))
      (em_append (f_container G ?n t, []) (enc_items G xs))"
    by (simp add: TransformContainer_def [abs_def] case_prod_unfold)
  with enc_payload_items [of F x, OF int8_byte x] enc_payload_items [of G x, OF int8_format x] xs
  show ?thesis by simp
qed

lemma Map_conv:
  assumes wf: "wf_value True (VMap k t kvs)" and k: "is_basic_tag k"
    and keys: "\<And>x y. (x, y) \<in> set kvs \<Longrightarrow> conv val (Typed (TBasic k)) x"
    and items: "\<And>x y. (x, y) \<in> set kvs \<Longrightarrow> conv val (item_source e t) y"
  shows "passes (TransformMap R W val k' e) (fst (enc_value F (VMap k t kvs))) (enc_value G (VMap k t kvs))"
proof -
  let ?e = "item_source e t" and ?n = "of_nat (length kvs) :: u32"
  have src: "source_type ?e = t" by (simp add: item_source_def)
  have elements: "passes (Container2 W val (Typed (TBasic k)) ?e ?n) (fst (enc_pairs F kvs))
      (em_append (f_container2 G ?n k t, []) (enc_pairs G kvs))"
    using keys items wf src by (intro passes_Container2) auto
  have "is_basic_tag t" if "\<not> is_complex t"
    using wf that by (simp add: not_complex_basic)
  let ?f = "\<lambda>(sz, k, type) w. if is_complex type then (if type = source_type e then TransformMapByKey W val k e sz w
      else TransformMapByKey W val k (TypeOnly type) sz w) else MapByElement W val k type sz w"
  have "?f (?n, k, t) = Container2 W val (Typed (TBasic k)) ?e ?n"
    using k \<open>\<not> is_complex t \<Longrightarrow> is_basic_tag t\<close> by (auto simp: item_source_def TransformMapByKey_def MapByElement_def)
  with elements wf dynamic have "passes (\<lambda>w. bind (r_ReadContainerBegin2 R (k', source_type e)) (\<lambda>v. ?f v w))
      (f_container2 F ?n k t @ fst (enc_pairs F kvs)) (em_append (f_container2 G ?n k t, []) (enc_pairs G kvs))"
    by (intro carries_read [OF ContainerBegin2_decodes]) simp_all
  then show ?thesis by (simp add: TransformMap_def [abs_def] case_prod_unfold)
qed

text \<open>Values\<close>

lemma basic_conv:
  assumes "is_basic x" and "wf_value True x"
  shows "passes (\<lambda>w. bind (r_Read R (GetTypeId x)) (\<lambda>v. write_out (w_Write W v) w)) (fst (enc_value F x)) (enc_value G x)"
  using carries_read [OF Read_decodes [OF assms], where k = "\<lambda>w. w" and f = "\<lambda>v w. write_out (w_Write W v) w",
      OF passes_out [OF WriteBasic [OF assms(1)]]] assms omits
  by (simp add: enc_value_basic)

lemma element_Apply: "element_source src = Some e \<Longrightarrow> Transcode_Apply R W val src = TransformContainer R W val e"
  by (cases src rule: element_source.cases) (auto split: if_splits)

lemma map_Apply: "map_source src = Some (k', e) \<Longrightarrow> Transcode_Apply R W val src = TransformMap R W val k' e"
  by (cases src rule: map_source.cases) (auto split: if_splits)

lemma struct_conv:
  assumes fit: "fits (Typed (TStruct s)) (VStruct y)" and wf: "wf_struct True y"
    and len: "length (fst (enc_struct F False y)) < 2 ^ 32"
    and val: "\<And>src x. fits src x \<Longrightarrow> wf_value True x \<Longrightarrow> length (fst (enc_value F x)) < length (fst (enc_struct F False y)) \<Longrightarrow> conv val src x"
  shows "passes (Transcode_struct R W val s False) (fst (enc_struct F False y)) (enc_struct G False y)"
proof -
  let ?L = "levels True False y"
  obtain pre where pre: "fst (enc_struct F False y) = pre @ wire_levels F ?L" "decodes (r_ReadStructBegin R False) pre ()"
    using enc_levels [OF len] by blast
  have sub: "conv val src (snd p)" if "l \<in> set ?L" "p \<in> set (fst l)" "fits src (snd p)" for l p src
    using val [OF that(3) levels_wf [OF wf that(1,2)]] wire_level_less [OF that(2,1), of F] pre(1) by simp
  from fit have "depth s \<le> length ?L" "levels_conv val (schema_levels s) ?L"
    by (auto elim!: fits_struct_cases simp: levels_conv_def fields_conv_def intro!: sub dest: set_zip_rightD split: prod.splits)
      (metis (no_types, lifting) fst_conv set_zip_rightD snd_conv sub)+
  from top_struct_passes [OF pre(2) this(1) complete_levels this(2)] pre(1) show ?thesis
    by (simp add: enc_struct_em)
qed

lemma Write_conv:
  "fits src x \<Longrightarrow> wf_value True x \<Longrightarrow> length (fst (enc_value F x)) < n \<Longrightarrow> length (fst (enc_value F x)) < 2 ^ 32 \<Longrightarrow>
   conv (Transcode_Write R W n) src x"
proof (induction n arbitrary: src x)
  case (Suc n)
  note IH = Suc.IH
  from Suc.prems(1) show ?case
  proof cases
    case basic
    then show ?thesis using basic_conv [OF basic(2) Suc.prems(2)] by simp
  next
    case (items e)
    have less: "length (fst (enc_value F y)) < length (fst (enc_value F x))" if "y \<in> set (snd (payload_items x))" for y
      using item_le [OF that, of F] enc_payload_items [of F x, OF int8_byte Suc.prems(2) items(2)] container_length
      by (simp add: add.commute less_add_same_cancel1 le_less_trans)
    have "conv (Transcode_Write R W n) (item_source e (fst (payload_items x))) y" if "y \<in> set (snd (payload_items x))" for y
      using IH [of "item_source e (fst (payload_items x))" y] less [OF that] Suc.prems items(4) that
        payload_items_wf [OF Suc.prems(2) items(2)] by (auto simp: wf_items_iff list_all_iff)
    from Container_conv [of x "Transcode_Write R W n" e, OF Suc.prems(2) items(2) this] element_Apply [OF items(1)] show ?thesis by simp
  next
    case (map k' e k kvs t)
    have less: "length (fst (enc_value F a)) < length (fst (enc_value F x))" "length (fst (enc_value F b)) < length (fst (enc_value F x))"
      if "(a, b) \<in> set kvs" for a b
      using pair_le [OF that, of F] container_length(2) [of "of_nat (length kvs)" k t] map(1)
      by (simp_all del: length_greater_0_conv)
    have wf: "wf_value True a" "wf_value True b" "GetTypeId a = k" if "(a, b) \<in> set kvs" for a b
      using Suc.prems(2) map(1) that by (auto simp: wf_pairs_iff list_all_iff)
    have "conv (Transcode_Write R W n) (Typed (TBasic k)) a" if ab: "(a, b) \<in> set kvs" for a b
      using IH [of "Typed (TBasic k)" a] less [OF ab] wf [OF ab] Suc.prems map(3) fits.basic [of a]
      by (simp flip: is_basic_tag_GetTypeId)
    moreover have "conv (Transcode_Write R W n) (item_source e t) b" if ab: "(a, b) \<in> set kvs" for a b
      using IH [of "item_source e t" b] less [OF ab] wf [OF ab] Suc.prems map(5) ab by fastforce
    ultimately show ?thesis
      using Map_conv [of k t kvs "Transcode_Write R W n" e k'] Suc.prems(2) map map_Apply [OF map(2)] by simp
  next
    case (struct y s)
    have "conv (Transcode_Write R W n) src' x'" if "fits src' x'" "wf_value True x'"
        "length (fst (enc_value F x')) < length (fst (enc_struct F False y))" for src' x'
      using IH [OF that(1,2)] that(3) Suc.prems struct by simp
    from struct_conv [of s y, OF _ _ _ this] Suc.prems struct show ?thesis by simp
  qed
qed simp

lemma Transcode_conv:
  assumes fit: "fits (Typed (TStruct s)) (VStruct y)" and wf: "wf_struct True y"
    and len: "length (fst (enc_struct F False y)) < 2 ^ 32"
  shows "\<exists>act. emits act (enc_struct G False y) \<and> (\<forall>ib w rest. ib_at ib (fst (enc_struct F False y) @ rest) \<longrightarrow>
    length rest = n \<longrightarrow> Transcode R W s w ib = res_bind (act w) (\<lambda>w'. Inr (w', ib_adv (length (fst (enc_struct F False y))) ib)))"
proof -
  let ?bs = "fst (enc_struct F False y)"
  have "passes (Transcode_struct R W (Transcode_Write R W (length ?bs + n)) s False) ?bs (enc_struct G False y)"
    by (rule struct_conv [OF fit wf len]) (use len in \<open>auto intro: Write_conv\<close>)
  then obtain act where act: "emits act (enc_struct G False y)"
      "conveys (\<lambda>w. w) act (Transcode_struct R W (Transcode_Write R W (length ?bs + n)) s False) ?bs"
    by (auto simp: carries_def)
  have "Transcode R W s w ib = res_bind (act w) (\<lambda>w'. Inr (w', ib_adv (length ?bs) ib))"
    if "ib_at ib (?bs @ rest)" "length rest = n" for ib w rest
    using conveysD [OF act(2) that(1)] that by (simp add: Transcode_def left_def ib_at_def)
  with act(1) show ?thesis by blast
qed

end

section \<open>Payloads that fit\<close>

lemma pair_size: "(x, y) \<in> set kvs \<Longrightarrow> size y \<le> size_list (size_prod size size) kvs"
  by (induction kvs) auto

lemma item_size: "x \<in> set xs \<Longrightarrow> size x \<le> size_list size xs"
  by (induction xs) auto

text \<open>The keys of all maps of a payload are of basic types.\<close>

function (sequential) basic_keys :: "bvalue \<Rightarrow> bool"
  and basic_keys_field :: "bfield \<Rightarrow> bool"
  and basic_keys_struct :: "bstruct \<Rightarrow> bool" where
  "basic_keys (VList t vs) = list_all basic_keys vs"
| "basic_keys (VSet t vs) = list_all basic_keys vs"
| "basic_keys (VMap k t kvs) = (is_basic_tag k \<and> list_all (\<lambda>(x, y). basic_keys y) kvs)"
| "basic_keys (VStruct s) = basic_keys_struct s"
| "basic_keys v = True"
| "basic_keys_field (Field fid md v) = basic_keys v"
| "basic_keys_field (MaybeField fid md t (Some v)) = basic_keys v"
| "basic_keys_field (MaybeField fid md t None) = True"
| "basic_keys_struct (Struct md None fs) = list_all basic_keys_field fs"
| "basic_keys_struct (Struct md (Some b) fs) = (basic_keys_struct b \<and> list_all basic_keys_field fs)"
  by pat_completeness auto
termination
  by (relation "measure (case_sum size (case_sum size size))")
    (auto dest!: item_size pair_size)

lemma GetTypeId_complex: "is_complex (GetTypeId x) \<longleftrightarrow> \<not> is_basic x"
  by (cases x) (simp_all add: is_complex_def)

lemma unknown_items: "GetTypeId y = t \<Longrightarrow> item_source (Typed (TStruct unknown_schema)) t = unknown_source (GetTypeId y)"
  by (auto simp: item_source_def unknown_source_def is_complex_def)

lemma unknown_container:
  assumes "GetTypeId x = BT_LIST \<or> GetTypeId x = BT_SET" and "wf_value True x"
    and "\<And>y. y \<in> set (snd (payload_items x)) \<Longrightarrow> fits (unknown_source (GetTypeId y)) y"
  shows "fits (unknown_source (GetTypeId x)) x"
proof (rule fits.items)
  show "element_source (unknown_source (GetTypeId x)) = Some (Typed (TStruct unknown_schema))"
    using assms(1) by (auto simp: unknown_source_def is_complex_def)
  show "\<forall>y \<in> set (snd (payload_items x)). fits (item_source (Typed (TStruct unknown_schema)) (fst (payload_items x))) y"
    using assms(3) payload_items_wf [OF assms(2,1)] by (auto simp: wf_items_iff list_all_iff unknown_items)
qed (use assms(1) in \<open>auto simp: unknown_source_def is_complex_def\<close>)

lemma basic_unknown: "is_basic x \<Longrightarrow> fits (unknown_source (GetTypeId x)) x"
  using fits.basic [of x] GetTypeId_complex [of x] by (auto simp: unknown_source_def is_complex_def)

lemma blob_unknown:
  assumes "wf_value True (VBlob b)"
  shows "fits (unknown_source (GetTypeId (VBlob b))) (VBlob b)"
proof (rule unknown_container)
  show "fits (unknown_source (GetTypeId y)) y" if "y \<in> set (snd (payload_items (VBlob b)))" for y
    using that basic_unknown [of y] by auto
qed (use assms in simp_all)

lemma unknown_fits:
  "basic_keys x \<Longrightarrow> wf_value True x \<Longrightarrow> fits (unknown_source (GetTypeId x)) x"
  "basic_keys_field f \<Longrightarrow> wf_field True f \<Longrightarrow> \<forall>p \<in> set (present True f). fits (unknown_source (GetTypeId (snd p))) (snd p)"
  "basic_keys_struct y \<Longrightarrow> wf_struct True y \<Longrightarrow>
    \<forall>l \<in> set (levels True base y). \<forall>p \<in> set (fst l). fits (unknown_source (GetTypeId (snd p))) (snd p)"
proof (induction x and f and y arbitrary: and and base rule: basic_keys_basic_keys_field_basic_keys_struct.induct)
  case (1 t vs)
  have "basic_keys y" "wf_value True y" if "y \<in> set vs" for y
    using "1.prems" that by (simp_all add: wf_items_iff list_all_iff)
  then have "fits (unknown_source (GetTypeId y)) y" if "y \<in> set vs" for y
    using "1.IH" [OF that] that by blast
  then show ?case using unknown_container [of "VList t vs", OF _ "1.prems"(2)] by simp
next
  case (2 t vs)
  have "basic_keys y" "wf_value True y" if "y \<in> set vs" for y
    using "2.prems" that by (simp_all add: wf_items_iff list_all_iff)
  then have "fits (unknown_source (GetTypeId y)) y" if "y \<in> set vs" for y
    using "2.IH" [OF that] that by blast
  then show ?case using unknown_container [of "VSet t vs", OF _ "2.prems"(2)] by simp
next
  case (3 k t kvs)
  have "fits (item_source (Typed (TStruct unknown_schema)) t) y" if "(x, y) \<in> set kvs" for x y
  proof -
    have "basic_keys y" "wf_value True y" "GetTypeId y = t"
      using "3.prems" that by (auto simp: wf_pairs_iff list_all_iff)
    with "3.IH" [OF that] unknown_items [of y t] show ?thesis by simp
  qed
  then have "\<forall>p \<in> set kvs. fits (item_source (Typed (TStruct unknown_schema)) t) (snd p)" by auto
  then have "fits (TypeOnly BT_MAP) (VMap k t kvs)"
    using 3 by (intro fits.map [where k' = BT_STRUCT and e = "Typed (TStruct unknown_schema)"]) auto
  then show ?case by (simp add: unknown_source_def is_complex_def)
next
  case (4 s)
  have "fits (Typed (TStruct unknown_schema)) (VStruct s)"
    using 4 complete_levels [of True s] by (intro fits.struct) (auto simp: unknown_schema_def Suc_le_eq dest: set_zip_leftD)
  then show ?case by (simp add: unknown_source_def)
next
  case "5_14"
  then show ?case using blob_unknown by blast
next
  case (9 md fs)
  then show ?case by (auto simp: wf_fields_iff list_all_iff)
next
  case (10 md b fs)
  then show ?case by (auto simp: wf_fields_iff list_all_iff)
qed ((rule basic_unknown, simp; fail) | (auto split: if_splits; fail))+

text \<open>A payload fits the schema that describes it.\<close>

lemma basic_has_keys: "is_basic x \<Longrightarrow> basic_keys x"
  by (cases x) simp_all

lemma shaped_keys:
  "schema_ok_type t \<Longrightarrow> shaped t x \<Longrightarrow> basic_keys x"
  "schema_ok_fields fs \<Longrightarrow> shaped_fields fs vs \<Longrightarrow> list_all basic_keys_field vs"
  "schema_ok s \<Longrightarrow> shaped_struct s y \<Longrightarrow> basic_keys_struct y"
proof (induction t x and fs vs and s y rule: shaped_shaped_fields_shaped_struct.induct)
  case (1 t v)
  then show ?case by (simp add: basic_has_keys)
next
  case (2 v)
  then show ?case by (cases v) auto
next
  case (3 e v)
  then show ?case by (cases v) (auto simp: list_all_iff)
next
  case (4 e v)
  then show ?case by (cases v) (auto simp: list_all_iff)
next
  case (5 t v)
  then show ?case by (cases v) (auto simp: list_all_iff basic_has_keys)
next
  case (6 k e v)
  then show ?case by (cases v) (auto simp: list_all_iff)
next
  case (7 s v)
  then show ?case by (cases v) auto
next
  case (9 fid md mb t fs vs)
  then show ?case by (cases vs) (auto split: bfield.splits option.splits)
next
  case (10 md fs x)
  then show ?case by (cases x) auto
next
  case (11 md s fs x)
  then show ?case by (cases x) (auto split: option.splits)
qed simp

lemma schema_ok_field: "schema_ok_fields fs \<Longrightarrow> fd \<in> set fs \<Longrightarrow> schema_ok_type (fd_type fd)"
proof (induction fs)
  case (Cons f fs)
  then show ?case by (cases f) auto
qed simp

lemma schema_ok_levels: "schema_ok s \<Longrightarrow> fds \<in> set (schema_levels s) \<Longrightarrow> fd \<in> set fds \<Longrightarrow> is_value_type (get_type_id (fd_type fd))"
  by (induction s rule: schema_levels.induct) (auto intro: get_type_id_value schema_ok_field)

lemma fits_item: "fits (Typed e) y \<Longrightarrow> fits (item_source (Typed e) (get_type_id e)) y"
  using fits_source_type [of "Typed e" y] fits.basic [of y] GetTypeId_complex [of y]
  by (auto simp: item_source_def)

lemma basic_item: "is_basic y \<Longrightarrow> GetTypeId y = t \<Longrightarrow> fits (item_source e t) y"
  using fits.basic [of y] GetTypeId_complex [of y] by (auto simp: item_source_def)

definition level_fits :: "fdef list \<Rightarrow> level \<Rightarrow> bool" where
  "level_fits fds l \<longleftrightarrow> (\<forall>p \<in> set (fst l). \<forall>fd \<in> set fds. fd_id fd = fst p \<longrightarrow> fits (Typed (fd_type fd)) (snd p))"

lemma level_fitsI:
  assumes "sorted_wrt (<) (map fd_id fds)" and "list_all2 field_var fds vs"
    and "\<forall>q \<in> set (zip fds vs). \<forall>p \<in> set (present True (snd q)). fits (Typed (fd_type (fst q))) (snd p)"
  shows "level_fits fds (concat (map (present True) vs), base)"
  unfolding level_fits_def
proof (intro ballI impI)
  fix p fd assume p: "p \<in> set (fst (concat (map (present True) vs), base))" and fd: "fd \<in> set fds" "fd_id fd = fst p"
  then obtain f where f: "f \<in> set vs" "p \<in> set (present True f)" by auto
  then obtain i where i: "i < length vs" "vs ! i = f" by (auto simp: in_set_conv_nth)
  have len: "length fds = length vs" using assms(2) by (rule list_all2_lengthD)
  have zip: "(fds ! i, f) \<in> set (zip fds vs)" using i len by (auto simp: in_set_conv_nth intro!: exI [of _ i])
  have "field_var (fds ! i) f" using assms(2) i len by (auto simp: list_all2_conv_all_nth)
  then have "fd_id (fds ! i) = fd_id fd" using present_id [OF f(2)] fd(2) shaped_field_id by simp
  moreover have "distinct (map fd_id fds)" using assms(1) by (simp add: strict_sorted_iff)
  moreover have "fds ! i \<in> set fds" using i len by simp
  ultimately have "fds ! i = fd" using fd(1) by (auto simp: distinct_map dest: inj_onD)
  with bspec [OF assms(3) zip] f(2) show "fits (Typed (fd_type fd)) (snd p)" by simp
qed

lemma levels_fit_struct:
  assumes "schema_ok s" and "shaped_struct s y" and "wf_struct True y"
    and "list_all2 level_fits (schema_levels s) (levels True False y)"
  shows "fits (Typed (TStruct s)) (VStruct y)"
proof (rule fits.struct)
  show "\<forall>l \<in> set (levels True False y). \<forall>p \<in> set (fst l). fits (unknown_source (GetTypeId (snd p))) (snd p)"
    using unknown_fits(3) shaped_keys(3) assms(1-3) by blast
  show "depth s \<le> length (levels True False y)"
    using list_all2_lengthD [OF assms(4)] by (simp add: length_schema_levels)
  show "\<forall>fds \<in> set (schema_levels s). \<forall>fd \<in> set fds. is_value_type (get_type_id (fd_type fd))"
    using schema_ok_levels [OF assms(1)] by blast
  show "\<forall>q \<in> set (zip (schema_levels s) (levels True False y)). \<forall>p \<in> set (fst (snd q)). \<forall>fd \<in> set (fst q).
      fd_id fd = fst p \<and> get_type_id (fd_type fd) = GetTypeId (snd p) \<longrightarrow> fits (Typed (fd_type fd)) (snd p)"
    using assms(4) by (fastforce simp: list_all2_iff level_fits_def)
qed

lemma shaped_fits:
  "schema_ok_type t \<Longrightarrow> schema_sorted_type t \<Longrightarrow> shaped t x \<Longrightarrow> wf_value True x \<Longrightarrow> fits (Typed t) x"
  "schema_ok_fields fs \<Longrightarrow> schema_sorted_fields fs \<Longrightarrow> shaped_fields fs vs \<Longrightarrow> wf_fields True vs \<Longrightarrow>
    \<forall>q \<in> set (zip fs vs). \<forall>p \<in> set (present True (snd q)). fits (Typed (fd_type (fst q))) (snd p)"
  "schema_ok s \<Longrightarrow> schema_sorted s \<Longrightarrow> shaped_struct s y \<Longrightarrow> wf_struct True y \<Longrightarrow>
    list_all2 level_fits (schema_levels s) (levels True base y)"
proof (induction t x and fs vs and s y arbitrary: and and base rule: shaped_shaped_fields_shaped_struct.induct)
  case (1 t v)
  then show ?case using fits.basic [of v] by simp
next
  case (2 v)
  then obtain b where "v = VBlob b" by (cases v) auto
  then show ?case by (intro fits.items [where e = "Typed (TBasic BT_INT8)"]) (auto simp: basic_item)
next
  case (3 e v)
  then obtain vs where v: "v = VList (get_type_id e) vs" "list_all (shaped e) vs" by (cases v) auto
  have "fits (item_source (Typed e) (get_type_id e)) z" if "z \<in> set vs" for z
    using "3.IH" "3.prems" v that by (auto simp: list_all_iff wf_items_iff intro!: fits_item)
  with v show ?case by (intro fits.items [where e = "Typed e"]) auto
next
  case (4 e v)
  then obtain vs where v: "v = VList (get_type_id e) vs" "list_all (shaped e) vs" by (cases v) auto
  have "fits (item_source (Typed e) (get_type_id e)) z" if "z \<in> set vs" for z
    using "4.IH" "4.prems" v that by (auto simp: list_all_iff wf_items_iff intro!: fits_item)
  with v show ?case by (intro fits.items [where e = "Typed e"]) auto
next
  case (5 t v)
  then obtain vs where v: "v = VSet t vs" "list_all (basic_of t) vs" by (cases v) (auto simp: list_all_iff)
  then show ?case by (intro fits.items [where e = "Typed (TBasic t)"]) (auto simp: list_all_iff basic_item)
next
  case (6 k e v)
  then obtain kvs where v: "v = VMap k (get_type_id e) kvs" "list_all (\<lambda>(x, y). basic_of k x \<and> shaped e y) kvs"
    by (cases v) auto
  have "fits (item_source (Typed e) (get_type_id e)) b" if "(a, b) \<in> set kvs" for a b
    using "6.IH" "6.prems" v that by (fastforce simp: list_all_iff wf_pairs_iff intro!: fits_item)
  then have "\<forall>p \<in> set kvs. fits (item_source (Typed e) (get_type_id e)) (snd p)" by auto
  then have "fits (Typed (TMap k e)) (VMap k (get_type_id e) kvs)"
    using "6.prems" by (intro fits.map [where k' = k and e = "Typed e"]) auto
  then show ?case using v(1) by simp
next
  case (7 s v)
  then obtain y where v: "v = VStruct y" by (cases v) auto
  with 7 show ?case by (auto intro: levels_fit_struct)
next
  case (9 fid md mb t fs vs)
  then obtain f vs' where vs: "vs = f # vs'" by (cases vs) auto
  have "\<forall>p \<in> set (present True f). fits (Typed t) (snd p)"
    using 9 vs by (cases f) (auto split: option.splits if_splits)
  moreover have "\<forall>q \<in> set (zip fs vs'). \<forall>p \<in> set (present True (snd q)). fits (Typed (fd_type (fst q))) (snd p)"
    using 9 vs by simp
  ultimately show ?case using vs by simp
next
  case (10 md fs x)
  then obtain vs where x: "x = Struct md None vs" "shaped_fields fs vs" by (cases x) auto
  from 10 x have "level_fits fs (concat (map (present True) vs), base)"
    by (intro level_fitsI) (simp_all add: schema_sorted_ids shaped_fields_iff)
  with x show ?case by simp
next
  case (11 md s fs x)
  then obtain b vs where x: "x = Struct md (Some b) vs" "shaped_fields fs vs" "shaped_struct s b"
    by (cases x) (auto split: option.splits)
  from 11 x have "level_fits fs (concat (map (present True) vs), base)"
    by (intro level_fitsI) (simp_all add: schema_sorted_ids shaped_fields_iff)
  with 11 x show ?case by (simp add: list_all2_appendI)
qed simp

lemma known_struct_fits: "conforms s x \<Longrightarrow> wf_struct True x \<Longrightarrow> fits (Typed (TStruct s)) (VStruct x)"
  unfolding conforms_def by (intro levels_fit_struct shaped_fits(3)) auto

lemma unknown_struct_fits:
  "basic_keys_struct x \<Longrightarrow> wf_struct True x \<Longrightarrow> fits (Typed (TStruct unknown_schema)) (VStruct x)"
  using unknown_fits(1) [of "VStruct x"] by (simp add: unknown_source_def)

lemma conforms_keys: "conforms s x \<Longrightarrow> basic_keys_struct x"
  unfolding conforms_def using shaped_keys(3) by blast

end
