(* ===== verification/Transcode_Protocols.thy ===== *)
theory Transcode_Protocols
  imports Transcode_Correct
begin

text \<open>
  Transcoding between the tagged protocols of the library: the writers of Fast Binary and of both
  passes of Compact Binary are tagged writers, the readers of Compact and Fast Binary are transcodable,
  and the two passes of the compact writer over a payload agree.
\<close>

sublocale output_stream \<subseteq> tagged_fast: tagged_writer "fast_writer B" fast_format "\<lambda>m e. stream_appends holds m (fst e)"
  by unfold_locales (use Write_law [of "[1]"] in \<open>auto simp: fb_writer_defs stop_byte_def stream_appends_Nil\<close>)

sublocale compact_pass \<subseteq> tagged_compact: tagged_writer "compact_writer B" "compact_format v" emits
  by unfold_locales
    (use put_law [OF Write_law, of "[1]"] nil_law in \<open>auto simp: cw_writer_defs compact_format_simps compact_struct_def stop_byte_def\<close>)

section \<open>From a tagged reader to each writer\<close>

text \<open>Two passes of the compact writer over the same payload\<close>

lemma two_passes:
  assumes pass1: "\<exists>act. emits_pass1 os_holds v act e \<and> (\<forall>w. run w = res_bind (act w) (\<lambda>w'. Inr (w', ib')))"
    and pass0: "v = v2 \<Longrightarrow> \<exists>act. emits_pass0 act e \<and>
      count (CompactBinaryWriter_init noinit OutputCounter_init v2) = res_bind (act (CompactBinaryWriter_init noinit OutputCounter_init v2)) (\<lambda>w'. Inr (w', ib'))"
    and lengths: "length (snd e) \<le> length (fst e)"
    and w: "os_holds (cw_output w) c" "cw_it w = None" "cw_version w = v" and room: "length c + length (fst e) < 2 ^ 31"
  shows "\<exists>w'. (if cw_NeedPass0 w
      then res_bind (count (CompactBinaryWriter_init noinit OutputCounter_init (cw_version w))) (\<lambda>(p, _).
             res_bind (run (cw_WithPass0 p w)) (\<lambda>(w, ib'). Inr (w\<lparr>cw_it := None\<rparr>, ib')))
      else run w) = Inr (w', ib') \<and> os_holds (cw_output w') (c @ fst e) \<and> cw_it w' = None \<and> cw_version w' = v"
proof -
  from pass1 obtain act where act: "emits_pass1 os_holds v act e" "\<And>w. run w = res_bind (act w) (\<lambda>w'. Inr (w', ib'))" by blast
  show ?thesis
  proof (cases "v = v2")
    case True
    with pass0 obtain act0 where act0: "emits_pass0 act0 e"
      "count (CompactBinaryWriter_init noinit OutputCounter_init v2) = res_bind (act0 (CompactBinaryWriter_init noinit OutputCounter_init v2)) (\<lambda>w'. Inr (w', ib'))"
      by blast
    have "length (fst e) < 2 ^ 31" using room by simp
    from pass0_lengths [OF act0(1) this lengths, of noinit] obtain p junk where
      p: "act0 (CompactBinaryWriter_init noinit OutputCounter_init v2) = Inr p" "sa_data (cw_lengths p) = snd e @ junk" by blast
    from emits_pass1D [OF act(1), of "cw_WithPass0 p w" c junk] w room p True act0(2) act(2) show ?thesis
      by (auto simp: cw_NeedPass0_def cw_WithPass0_def)
  next
    case False
    with emits_pass1D [OF act(1), of w c] w room act(2) show ?thesis by (auto simp: cw_NeedPass0_def)
  qed
qed

context transcodable_reader
begin

lemma to_fast: "transcoder R F (fast_writer memory_stream) fast_format (\<lambda>m e. stream_appends os_holds m (fst e))"
  by intro_locales

lemma to_compact: "transcoder R F (compact_writer memory_stream) (compact_format v) (emits_pass1 os_holds v)"
  by intro_locales

lemma to_pass0: "transcoder R F (compact_writer counter_stream) (compact_format v2) emits_pass0"
  by intro_locales

text \<open>To Fast Binary\<close>

lemma Transcode_fast:
  assumes fit: "fits (Typed (TStruct s)) (VStruct y)" and wf: "wf_struct True y"
    and at: "ib_at ib (fst (enc_struct F False y) @ rest)"
    and w: "os_holds w c" "length c + length (fst (enc_struct fast_format False y)) < 2 ^ 31"
  shows "\<exists>w'. Transcode R (fast_writer memory_stream) s w ib = Inr (w', ib_adv (length (fst (enc_struct F False y))) ib) \<and>
    os_holds w' (c @ fst (enc_struct fast_format False y))"
proof -
  have "length (fst (enc_struct F False y)) < 2 ^ 32" using ib_at_bound [OF at] by simp
  from transcoder.Transcode_conv [OF to_fast fit wf this, of "length rest"] obtain act where
      act: "stream_appends os_holds act (fst (enc_struct fast_format False y))"
      "Transcode R (fast_writer memory_stream) s w ib = res_bind (act w) (\<lambda>w'. Inr (w', ib_adv (length (fst (enc_struct F False y))) ib))"
    using at by blast
  from stream_appendsD [OF act(1) w] act(2) show ?thesis by auto
qed

text \<open>To Compact Binary\<close>

lemma cw_Transcode_encodes:
  assumes fit: "fits (Typed (TStruct s)) (VStruct y)" and wf: "wf_struct True y"
    and at: "ib_at ib (fst (enc_struct F False y) @ rest)"
    and w: "os_holds (cw_output w) c" "cw_it w = None" "cw_version w = v"
    and room: "length c + length (fst (enc_struct (compact_format v) False y)) < 2 ^ 31"
  shows "\<exists>w'. cw_Transcode noinit memory_stream R s w ib = Inr (w', ib_adv (length (fst (enc_struct F False y))) ib) \<and>
    os_holds (cw_output w') (c @ fst (enc_struct (compact_format v) False y)) \<and> cw_it w' = None \<and> cw_version w' = v"
proof -
  let ?ib = "ib_adv (length (fst (enc_struct F False y))) ib"
  have len: "length (fst (enc_struct F False y)) < 2 ^ 32" using ib_at_bound [OF at] by simp
  have pass1: "\<exists>act. emits_pass1 os_holds v act (enc_struct (compact_format v) False y) \<and>
      (\<forall>w. Transcode R (compact_writer memory_stream) s w ib = res_bind (act w) (\<lambda>w'. Inr (w', ?ib)))"
    using transcoder.Transcode_conv [OF to_compact fit wf len, of v "length rest"] at by blast
  have pass0: "\<exists>act. emits_pass0 act (enc_struct (compact_format v) False y) \<and>
      Transcode R (compact_writer counter_stream) s (CompactBinaryWriter_init noinit OutputCounter_init v2) ib =
        res_bind (act (CompactBinaryWriter_init noinit OutputCounter_init v2)) (\<lambda>w'. Inr (w', ?ib))" if "v = v2"
    unfolding that using transcoder.Transcode_conv [OF to_pass0 fit wf len, of "length rest"] at by blast
  from two_passes [where run = "\<lambda>w. Transcode R (compact_writer memory_stream) s w ib"
      and count = "\<lambda>w. Transcode R (compact_writer counter_stream) s w ib", OF pass1 pass0 enc_lengths_le_bytes(6) w room] show ?thesis
    by (simp add: cw_Transcode_def)
qed

end

interpretation compact_tr: transcodable_reader "compact_reader version" "compact_format version" for version
  by unfold_locales (auto simp: compact_format_simps compact_container_def)

interpretation fast_tr: transcodable_reader fast_reader fast_format
  by unfold_locales (auto simp: fast_format_simps)

end
