(* ===== verification/Merge_Correct.thy ===== *)
theory Merge_Correct
  imports Merger Transcode_Protocols
begin

text \<open>
  What merging means, on trees instead of bytes, and that the transform writes it. \<open>merges var src x z\<close> says
  that merging the value \<open>x\<close> of the payload, seen as \<open>src\<close>, with the object's variable \<open>var\<close> gives \<open>z\<close>; there is no such \<open>z\<close>
  where the code throws. \<open>Merge_conv\<close>, in the locale \<open>transcoder\<close>, shows that the transform writes the
  encoding of \<open>z\<close>.
\<close>

section \<open>The fields of a level\<close>

text \<open>
  \<open>M fd f x rs\<close>: the fields \<open>rs\<close> are written when the payload has \<open>x\<close> for the field \<open>fd\<close>, which is \<open>f\<close> in the object.
  The object's field is written when the payload does not have it, except when the payload's field before it
  is unknown: the parser has left the field of the schema by then.
\<close>

type_synonym merger = "fdef \<Rightarrow> bfield \<Rightarrow> bvalue \<Rightarrow> (u16 \<times> bvalue) list \<Rightarrow> bool"

definition passed :: "fdef \<Rightarrow> (u16 \<times> bvalue) list \<Rightarrow> bool" where
  "passed fd ps \<longleftrightarrow> ps = [] \<or> fd_id fd < fst (hd ps)"

inductive merge_fields :: "merger \<Rightarrow> (fdef \<times> bfield) list \<Rightarrow> (u16 \<times> bvalue) list \<Rightarrow> (u16 \<times> bvalue) list \<Rightarrow> bool"
  for M :: merger where
  rest: "merge_fields M [] ps ps"
| omitted: "passed fd ps \<Longrightarrow> merge_fields M ovs ps qs \<Longrightarrow> merge_fields M ((fd, f) # ovs) ps (present True f @ qs)"
| matched: "get_type_id (fd_type fd) = GetTypeId x \<Longrightarrow> M fd f x rs \<Longrightarrow>
    merge_fields M (if passed fd ps then ovs else (fd, f) # ovs) ps qs \<Longrightarrow>
    merge_fields M ((fd, f) # ovs) ((fd_id fd, x) # ps) (rs @ qs)"
| kept: "fid \<le> fd_id fd \<Longrightarrow> \<not> (fd_id fd = fid \<and> get_type_id (fd_type fd) = GetTypeId x) \<Longrightarrow>
    merge_fields M (if passed fd ps then ovs else (fd, f) # ovs) ps qs \<Longrightarrow>
    merge_fields M ((fd, f) # ovs) ((fid, x) # ps) ((fid, x) # qs)"

lemma merge_fields_mono:
  assumes "merge_fields M ovs ps qs" and "\<And>fd f x rs. M fd f x rs \<Longrightarrow> M' fd f x rs"
  shows "merge_fields M' ovs ps qs"
  using assms by (induction rule: merge_fields.induct) (auto intro: merge_fields.intros)

fun merge_levels :: "merger \<Rightarrow> (fdef \<times> bfield) list list \<Rightarrow> level list \<Rightarrow> level list \<Rightarrow> bool" where
  "merge_levels M [] L L' = (L' = L)"
| "merge_levels M (ovs # V) ((ps, b) # L) ((qs, b') # L') = (b' = b \<and> merge_fields M ovs ps qs \<and> merge_levels M V L L')"
| "merge_levels M V L L' = False"

lemma merge_levels_mono [mono]:
  "(\<And>fd f x rs. M fd f x rs \<longrightarrow> M' fd f x rs) \<Longrightarrow> merge_levels M V L L' \<longrightarrow> merge_levels M' V L L'"
  by (induction M V L L' rule: merge_levels.induct) (auto intro: merge_fields_mono)

section \<open>Values\<close>

text \<open>The fields of an object by levels, as \<open>levels\<close> of a payload\<close>

fun object_levels :: "sschema \<Rightarrow> bstruct \<Rightarrow> (fdef \<times> bfield) list list" where
  "object_levels (Schema md None fds) (Struct md' None vs) = [zip fds vs]"
| "object_levels (Schema md (Some b) fds) (Struct md' (Some y) vs) = object_levels b y @ [zip fds vs]"
| "object_levels s y = []"

fun merges_type :: "source \<Rightarrow> bool" where
  "merges_type (Typed (TBasic t)) = False"
| "merges_type (Typed TBlob) = False"
| "merges_type (Typed (TSet t)) = False"
| "merges_type src = True"

text \<open>Whether the merger does anything but write the payload again\<close>

definition merge_applies :: "merge_var \<Rightarrow> source \<Rightarrow> bvalue \<Rightarrow> bool" where
  "merge_applies var src x = (case element_source src of
       Some el \<Rightarrow> merge_list_var var \<noteq> None \<and> \<not> basic_source (item_source el (fst (payload_items x)))
     | None \<Rightarrow> (case map_source src of
         Some (k', el) \<Rightarrow> (case (merge_map_var var, x) of
             (Some (k, e, m), VMap kt t kvs) \<Rightarrow> is_matching_basic kt k \<and> \<not> basic_source (item_source el t)
           | _ \<Rightarrow> False)
       | None \<Rightarrow> (case (src, var) of (Typed (TStruct s), Some (t, VStruct y)) \<Rightarrow> t = TStruct s | _ \<Rightarrow> False)))"

definition payload_list :: "BondDataType \<Rightarrow> BondDataType \<Rightarrow> bvalue list \<Rightarrow> bvalue" where
  "payload_list type t zs = (if type = BT_SET then VSet t zs else VList t zs)"

inductive merges :: "merge_var \<Rightarrow> source \<Rightarrow> bvalue \<Rightarrow> bvalue \<Rightarrow> bool" where
  kept: "fits src x \<Longrightarrow> merges_type src \<Longrightarrow> \<not> merge_applies var src x \<Longrightarrow> merges var src x x"
| items: "element_source src = Some el \<Longrightarrow> GetTypeId x = BT_LIST \<or> GetTypeId x = BT_SET \<Longrightarrow> source_type src = GetTypeId x \<Longrightarrow>
    merges_type src \<Longrightarrow> merge_list_var var = Some (e, ys) \<Longrightarrow> is_value_type (get_type_id e) \<Longrightarrow>
    \<not> basic_source (item_source el (fst (payload_items x))) \<Longrightarrow> length ys = length (snd (payload_items x)) \<Longrightarrow>
    list_all2 (\<lambda>p z. merges (Some (e, fst p)) (item_source el (fst (payload_items x))) (snd p) z) (zip ys (snd (payload_items x))) zs \<Longrightarrow>
    merges var src x (payload_list (GetTypeId x) (get_type_id e) zs)"
| map: "map_source src = Some (k', el) \<Longrightarrow> source_type src = BT_MAP \<Longrightarrow> merge_map_var var = Some (k, e, m) \<Longrightarrow>
    is_basic_tag k \<Longrightarrow> is_basic_tag kt \<Longrightarrow> is_value_type (get_type_id e) \<Longrightarrow> is_matching_basic kt k \<Longrightarrow>
    \<not> basic_source (item_source el t) \<Longrightarrow> length m = length kvs \<Longrightarrow>
    list_all2 (\<lambda>p q. fst q = static_cast k (fst p) \<and>
      (\<exists>y. const_mapped_at (fst q) m = Inr y \<and> merges (Some (e, y)) (item_source el t) (snd p) (snd q))) kvs zs \<Longrightarrow>
    merges var src (VMap kt t kvs) (VMap k (get_type_id e) zs)"
| struct: "length (object_levels s y) = depth s \<Longrightarrow>
    (\<forall>fds \<in> set (schema_levels s). \<forall>fd \<in> set fds. is_value_type (get_type_id (fd_type fd))) \<Longrightarrow>
    (\<forall>l \<in> set (levels True False x). \<forall>p \<in> set (fst l). fits (unknown_source (GetTypeId (snd p))) (snd p)) \<Longrightarrow>
    merge_levels (\<lambda>fd f x rs.
        (is_struct_type (fd_type fd) \<or> is_struct_container (fd_type fd) \<longrightarrow>
           (\<exists>z. rs = [(fd_id fd, z)] \<and> merges (merge_var_of fd f) (Typed (fd_type fd)) x z)) \<and>
        (\<not> (is_struct_type (fd_type fd) \<or> is_struct_container (fd_type fd)) \<longrightarrow> rs = present True f))
      (object_levels s y) (levels True False x) (levels True False z) \<Longrightarrow>
    merges (Some (TStruct s, VStruct y)) (Typed (TStruct s)) (VStruct x) (VStruct z)"


text \<open>What becomes of a field of a struct\<close>

definition struct_merger :: merger where
  "struct_merger fd f x rs \<longleftrightarrow>
     (is_struct_type (fd_type fd) \<or> is_struct_container (fd_type fd) \<longrightarrow>
        (\<exists>z. rs = [(fd_id fd, z)] \<and> merges (merge_var_of fd f) (Typed (fd_type fd)) x z)) \<and>
     (\<not> (is_struct_type (fd_type fd) \<or> is_struct_container (fd_type fd)) \<longrightarrow> rs = present True f)"

text \<open>The parts of a well-formed variable\<close>

definition merge_var_wf :: "merge_var \<Rightarrow> bool" where
  "merge_var_wf var \<longleftrightarrow> (\<forall>t v. var = Some (t, v) \<longrightarrow> wf_value True v)"

lemma merge_var_wf_simps [simp]: "merge_var_wf None" "merge_var_wf (Some (t, v)) \<longleftrightarrow> wf_value True v"
  by (simp_all add: merge_var_wf_def)

lemma merge_var_of_wf: "wf_field True f \<Longrightarrow> merge_var_wf (merge_var_of fd f)"
  by (cases f) (simp_all add: merge_var_of_def)

lemma merge_list_var_wf: "merge_list_var var = Some (e, ys) \<Longrightarrow> merge_var_wf var \<Longrightarrow> y \<in> set ys \<Longrightarrow> wf_value True y"
  by (cases var rule: merge_list_var.cases) (auto simp: wf_items_iff list_all_iff)

lemma const_mapped_at_in: "const_mapped_at k m = Inr y \<Longrightarrow> \<exists>k'. (k', y) \<in> set m"
  by (induction m) (auto split: if_splits)

lemma merge_map_var_wf: "merge_map_var var = Some (k, e, m) \<Longrightarrow> merge_var_wf var \<Longrightarrow> const_mapped_at a m = Inr y \<Longrightarrow> wf_value True y"
  by (cases var rule: merge_map_var.cases) (auto simp: wf_pairs_iff list_all_iff dest: const_mapped_at_in)

lemma list_all2_mono':
  assumes "list_all2 P xs ys" and "\<And>x y. x \<in> set xs \<Longrightarrow> P x y \<Longrightarrow> Q x y"
  shows "list_all2 Q xs ys"
  using assms by (auto simp: list_all2_conv_all_nth)

lemma zip_parts: "p \<in> set (zip xs ys) \<Longrightarrow> fst p \<in> set xs \<and> snd p \<in> set ys"
  by (cases p) (auto dest: set_zip_leftD set_zip_rightD)

lemma object_levels_wf:
  "ovs \<in> set (object_levels s y) \<Longrightarrow> p \<in> set ovs \<Longrightarrow> wf_struct True y \<Longrightarrow>
   wf_field True (snd p) \<and> (\<exists>fds \<in> set (schema_levels s). fst p \<in> set fds)"
  by (induction s y rule: object_levels.induct)
    (auto simp: wf_fields_iff list_all_iff dest: zip_parts)

lemma merges_type_id: "merges var src x z \<Longrightarrow> GetTypeId z = source_type src"
  by (cases rule: merges.cases) (auto simp: fits_source_type payload_list_def)

section \<open>The parsers write the merged levels\<close>

context transcoder
begin

definition field_merges :: "(fdef \<Rightarrow> bfield \<Rightarrow> 'w transform) \<Rightarrow> merger \<Rightarrow> (fdef \<times> bfield) list \<Rightarrow> (u16 \<times> bvalue) list \<Rightarrow> bool" where
  "field_merges mf M ovs ps \<longleftrightarrow>
     (\<forall>p \<in> set ovs. is_value_type (get_type_id (fd_type (fst p))) \<and> emits (Serializer_Field W (snd p)) (em_fields G (present True (snd p))) \<and>
       (\<forall>q \<in> set ps. \<forall>rs. get_type_id (fd_type (fst p)) = GetTypeId (snd q) \<longrightarrow> M (fst p) (snd p) (snd q) rs \<longrightarrow>
          passes (mf (fst p) (snd p)) (fst (enc_value F (snd q))) (em_fields G rs)))"

lemma field_merges_Cons:
  assumes "field_merges mf M ((fd, f) # ovs) ps"
  shows "field_merges mf M ovs ps" and "is_value_type (get_type_id (fd_type fd))"
    and "emits (Serializer_Field W f) (em_fields G (present True f))"
  using assms by (auto simp: field_merges_def)

lemma field_merges_step:
  "field_merges mf M ((fd, f) # ovs) ((fid, x) # ps) \<Longrightarrow> get_type_id (fd_type fd) = GetTypeId x \<Longrightarrow> M fd f x rs \<Longrightarrow>
   passes (mf fd f) (fst (enc_value F x)) (em_fields G rs)"
  by (auto simp: field_merges_def)

lemma field_merges_tl: "field_merges mf M ovs (p # ps) \<Longrightarrow> field_merges mf M ovs ps"
  by (auto simp: field_merges_def)

lemma field_merges_rest: "field_merges mf M ((fd, f) # ovs) (p # ps) \<Longrightarrow> field_merges mf M (if b then ovs else (fd, f) # ovs) ps"
  by (cases b) (auto dest: field_merges_tl field_merges_Cons(1))

lemma passed_first: "passed fd ps \<longleftrightarrow> fd_id fd < snd (first_tag (ps, base)) \<or> is_stop (fst (first_tag (ps, base)))"
  by (cases ps) (auto simp: passed_def)

lemma Merge_Omitted_then:
  assumes "emits (Serializer_Field W f) e" and "carries k K bs e'"
  shows "carries k (\<lambda>w ib. res_bind (Merge_Omitted W f w ib) (\<lambda>(w, ib). K w ib)) bs (em_append e e')"
proof -
  have "passes (Merge_Omitted W f) [] e" unfolding Merge_Omitted_def by (rule passes_out [OF assms(1)])
  from carries_bind [OF this, of k K bs e'] assms(2)
  have "carries k (\<lambda>w. bind (Merge_Omitted W f w) K) bs (em_append e e')" by simp
  moreover have "bind (Merge_Omitted W f w) K = (\<lambda>ib. res_bind (Merge_Omitted W f w ib) (\<lambda>(w, ib). K w ib))" for w
    by (auto simp: bind_def fun_eq_iff res_bind_def split: sum.splits)
  ultimately show ?thesis by simp
qed

lemma Merge_Fields_turn:
  assumes step: "passes (if fd_id fd = fid \<and> get_type_id (fd_type fd) = GetTypeId x then mf fd f
      else Transcode_Mismatch W val fd fid (GetTypeId x)) (fst (enc_value F x)) e"
    and reach: "fid \<le> fd_id fd"
    and IH: "carries k (\<lambda>w. Merge_Fields R W val mf (if passed fd ps then ovs else (fd, f) # ovs) w
      (fst (first_tag (ps, base))) (snd (first_tag (ps, base)))) (after_tag F (ps, base)) e'"
  shows "carries k (\<lambda>w. Merge_Fields R W val mf ((fd, f) # ovs) w (GetTypeId x) fid)
    (fst (enc_value F x) @ wire_level F (ps, base)) (em_append e e')"
proof -
  let ?step = "if fd_id fd = fid \<and> get_type_id (fd_type fd) = GetTypeId x then mf fd f else Transcode_Mismatch W val fd fid (GetTypeId x)"
  let ?S = "\<lambda>ib w type fid ib2. if fd_id fd < fid \<or> is_stop type then Merge_Fields R W val mf ovs w type fid ib2
    else if left ib2 < left ib then Merge_Fields R W val mf ((fd, f) # ovs) w type fid ib2 else Inl OutOfFuel"
  let ?K = "\<lambda>w. Merge_Fields R W val mf (if passed fd ps then ovs else (fd, f) # ovs) w (fst (first_tag (ps, base))) (snd (first_tag (ps, base)))"
  have "?S ib w (fst (first_tag (ps, base))) (snd (first_tag (ps, base))) ib2 = ?K w ib2" if "left ib2 < left ib" for ib w ib2
    using that by (simp add: passed_first [of fd ps base])
  from carries_turn_level [where l = "(ps, base)" and K = ?K and S = ?S, OF step this IH]
  have "carries k (\<lambda>w ib. res_bind (?step w ib) (\<lambda>(w, ib1). res_bind (r_ReadFieldBegin R ib1)
      (\<lambda>((type, fid), ib2). ?S ib w type fid ib2))) (fst (enc_value F x) @ wire_level F (ps, base)) (em_append e e')" .
  moreover have "Merge_Fields R W val mf ((fd, f) # ovs) w (GetTypeId x) fid =
      (\<lambda>ib. res_bind (?step w ib) (\<lambda>(w, ib1). res_bind (r_ReadFieldBegin R ib1) (\<lambda>((type, fid), ib2). ?S ib w type fid ib2)))" for w
    using reach by (intro ext, subst Merge_Fields.simps(2)) auto
  ultimately show ?thesis by simp
qed

lemma Merge_Fields_carries:
  assumes "merge_fields M ovs ps qs" and "fields_conv val [] ps" and "field_merges mf M ovs ps"
  shows "carries (\<lambda>w. (w, stop_tag base, 0))
    (\<lambda>w. Merge_Fields R W val mf ovs w (fst (first_tag (ps, base))) (snd (first_tag (ps, base)))) (after_tag F (ps, base)) (em_fields G qs)"
  using assms
proof (induction rule: merge_fields.induct)
  case (rest ps)
  then show ?case using Rest_carries by (simp add: Merge_Fields.simps [abs_def])
next
  case (omitted fd ps ovs qs f)
  note f = field_merges_Cons [OF omitted.prems(2)]
  have "\<not> ((fd_id fd = snd (first_tag (ps, base)) \<and> get_type_id (fd_type fd) = fst (first_tag (ps, base))) \<or>
      (snd (first_tag (ps, base)) \<le> fd_id fd \<and> \<not> is_stop (fst (first_tag (ps, base)))))"
    using omitted.hyps(1) f(2) by (cases ps) (auto simp: passed_def stop_tag_def is_stop_def)
  then have "Merge_Fields R W val mf ((fd, f) # ovs) w (fst (first_tag (ps, base))) (snd (first_tag (ps, base))) =
      (\<lambda>ib. res_bind (Merge_Omitted W f w ib) (\<lambda>(w, ib).
        Merge_Fields R W val mf ovs w (fst (first_tag (ps, base))) (snd (first_tag (ps, base))) ib))" for w
    by (intro ext, subst Merge_Fields.simps(2)) auto
  with Merge_Omitted_then [OF f(3) omitted.IH [OF omitted.prems(1) f(1)]] show ?case by (simp add: em_fields_append)
next
  case (matched fd x f rs ps ovs qs)
  have "passes (mf fd f) (fst (enc_value F x)) (em_fields G rs)"
    using field_merges_step [OF matched.prems(2) matched.hyps(1,2)] .
  from Merge_Fields_turn [where fd = fd and fid = "fd_id fd" and x = x and mf = mf and f = f and val = val, OF _ _ matched.IH [OF _ field_merges_rest [OF matched.prems(2)]]] this
  show ?case using matched.hyps(1) matched.prems(1) by (simp add: em_fields_append)
next
  case (kept fid fd x ps ovs f qs)
  have "passes (Transcode_Mismatch W val fd fid (GetTypeId x)) (fst (enc_value F x)) (em_field fid x)"
    using kept.prems(1) by (intro Mismatch_passes) simp
  from Merge_Fields_turn [where fd = fd and fid = fid and x = x and mf = mf and f = f and val = val and e = "em_field fid x", OF _ kept.hyps(1) kept.IH [OF _ field_merges_rest [OF kept.prems(2)]]] this
  show ?case using kept.hyps(2) kept.prems(1) by (simp add: em_append_assoc)
qed

text \<open>Levels\<close>

lemma Merge_base_fields:
  assumes "merge_fields M ovs ps qs" and "fields_conv val [] ps" and "field_merges mf M ovs ps"
  shows "carries (\<lambda>w. (w, False)) (Merge_DynamicFields R W val mf True ovs) (wire_level F (ps, True)) (em_fields G qs)"
proof -
  have "carries (\<lambda>w. (w, False)) (\<lambda>w. bind (Merge_Fields R W val mf ovs w (fst (first_tag (ps, True))) (snd (first_tag (ps, True))))
      (\<lambda>(w, type, fid). ret (w, type = BT_STOP))) (after_tag F (ps, True) @ []) (em_append (em_fields G qs) ([], []))"
    by (rule carries_bind [OF Merge_Fields_carries [OF assms]]) (simp add: stop_tag_def carries_ret)
  from carries_read [OF tag_decodes [of "(ps, True)"], where f = "\<lambda>(type, fid) w.
      bind (Merge_Fields R W val mf ovs w type fid) (\<lambda>(w, type, fid). ret (w, type = BT_STOP))", of "\<lambda>w. (w, False)"] this
  show ?thesis by (simp add: Merge_DynamicFields_def [abs_def] wire_level_tag case_prod_unfold)
qed

lemma Merge_top_fields:
  assumes "merge_fields M ovs ps qs" and "fields_conv val [] ps" and "field_merges mf M ovs ps"
    and "complete ((ps, base) # ls)" and "\<forall>l \<in> set ls. fields_conv val [] (fst l)"
  shows "carries (\<lambda>w. (w, False)) (Merge_DynamicFields R W val mf False ovs) (wire_levels F ((ps, base) # ls)) (em_open G ((qs, base) # ls))"
proof -
  have "complete (([], base) # ls)" using assms(4) by (cases ls) auto
  then have unknown: "passes (\<lambda>w. Transcode_Unknown R W val w (stop_tag base) 0) (wire_levels F ls) (em_open G (([], base) # ls))"
    using Unknown_passes [of "[]" base ls val] assms(5) by simp
  have "carries (\<lambda>w. (w, False)) (\<lambda>w. bind (Transcode_Unknown R W val w (stop_tag base) 0) (\<lambda>w. ret (w, False)))
      (wire_levels F ls) (em_open G (([], base) # ls))"
    using carries_bind [OF unknown, where f = "\<lambda>w. ret (w, False)"] carries_ret [of "\<lambda>w. (w, False)"] by fastforce
  then have "carries (\<lambda>w. (w, False)) (\<lambda>w. bind (Merge_Fields R W val mf ovs w (fst (first_tag (ps, base))) (snd (first_tag (ps, base))))
      (\<lambda>(w, type, fid). bind (Transcode_Unknown R W val w type fid) (\<lambda>w. ret (w, False)))) (after_tag F (ps, base) @ wire_levels F ls)
      (em_append (em_fields G qs) (em_open G (([], base) # ls)))"
    by (intro carries_bind [OF Merge_Fields_carries [OF assms(1-3)]]) simp
  from carries_read [OF tag_decodes [of "(ps, base)"], where f = "\<lambda>(type, fid) w.
      bind (Merge_Fields R W val mf ovs w type fid) (\<lambda>(w, type, fid). bind (Transcode_Unknown R W val w type fid) (\<lambda>w. ret (w, False)))",
      of "\<lambda>w. (w, False)"] this
  show ?thesis
    by (simp add: Merge_DynamicFields_def [abs_def] wire_level_tag case_prod_unfold em_open_Cons [of G qs])
qed

lemma carries_struct:
  assumes "carries (\<lambda>w. (w, False)) m bs e"
  shows "carries (\<lambda>w. (w, False)) (\<lambda>w. bind (write_out (w_WriteStructBegin W md base) w) (\<lambda>w. bind (m w) (\<lambda>(w, done).
    bind (write_out (w_WriteStructEnd W base) w) (\<lambda>w. ret (w, done))))) bs (f_struct G base e)"
proof -
  let ?k = "\<lambda>w. (w, False)"
  obtain act where act: "emits act e" "conveys ?k act m bs" using assms by (auto simp: carries_def)
  have "conveys ?k (seq (w_WriteStructEnd W base) Inr) (\<lambda>w. bind (write_out (w_WriteStructEnd W base) w) (\<lambda>w. ret (w, False))) ([] @ [])"
    by (rule conveys_bind [OF conveys_out]) (rule conveys_ret)
  then have "conveys ?k (seq act (seq (w_WriteStructEnd W base) Inr)) (\<lambda>w. bind (m w) (\<lambda>(w, done).
      bind (write_out (w_WriteStructEnd W base) w) (\<lambda>w. ret (w, done)))) (bs @ [] @ [])"
    by (intro conveys_bind [OF act(2)]) simp
  then have "conveys ?k (seq (w_WriteStructBegin W md base) (seq act (seq (w_WriteStructEnd W base) Inr)))
      (\<lambda>w. bind (write_out (w_WriteStructBegin W md base) w) (\<lambda>w. bind (m w) (\<lambda>(w, done).
        bind (write_out (w_WriteStructEnd W base) w) (\<lambda>w. ret (w, done))))) ([] @ bs @ [] @ [])"
    by (rule conveys_bind [OF conveys_out])
  with StructBegin_End [OF act(1)] show ?thesis by (auto simp: carries_def)
qed

definition levels_merge :: "(source \<Rightarrow> 'w transform) \<Rightarrow> (fdef \<Rightarrow> bfield \<Rightarrow> 'w transform) \<Rightarrow> merger \<Rightarrow> (fdef \<times> bfield) list list \<Rightarrow> level list \<Rightarrow> bool" where
  "levels_merge val mf M V L \<longleftrightarrow> (\<forall>q \<in> set (zip V L). field_merges mf M (fst q) (fst (snd q))) \<and> (\<forall>l \<in> set L. fields_conv val [] (fst l))"

lemma merge_levels_append:
  "merge_levels M (V @ [ovs]) L L' \<Longrightarrow> \<exists>L1 L1' ps qs b ls. L = L1 @ (ps, b) # ls \<and> L' = L1' @ (qs, b) # ls \<and> length L1 = length V \<and>
     merge_levels M V L1 L1' \<and> merge_fields M ovs ps qs \<and> map snd L1' = map snd L1"
proof (induction V arbitrary: L L')
  case Nil
  then obtain ps b ls qs where "L = (ps, b) # ls" "L' = (qs, b) # ls" "merge_fields M ovs ps qs"
    by (cases L; cases L') auto
  then show ?case by (intro exI [of _ "[]"] exI [of _ ps] exI [of _ qs] exI [of _ b] exI [of _ ls]) auto
next
  case (Cons v V)
  then obtain ps b L0 qs L0' where L: "L = (ps, b) # L0" "L' = (qs, b) # L0'" "merge_fields M v ps qs" "merge_levels M (V @ [ovs]) L0 L0'"
    by (cases L; cases L') auto
  from Cons.IH [OF L(4)] obtain L1 L1' ps' qs' b' ls where "L0 = L1 @ (ps', b') # ls" "L0' = L1' @ (qs', b') # ls" "length L1 = length V"
    "merge_levels M V L1 L1'" "merge_fields M ovs ps' qs'" "map snd L1' = map snd L1" by blast
  with L show ?case
    by (intro exI [of _ "(ps, b) # L1"] exI [of _ "(qs, b) # L1'"] exI [of _ ps'] exI [of _ qs'] exI [of _ b'] exI [of _ ls]) auto
qed

lemma Merge_ReadFields_dynamic: "Merge_ReadFields R W val mf base ovs = Merge_DynamicFields R W val mf base ovs"
  using dynamic by (simp add: Merge_ReadFields_def fun_eq_iff)

lemma carries_then_fields:
  assumes "carries (\<lambda>w. (w, False)) m bs e" and "carries (\<lambda>w. (w, False)) m' bs' e'"
  shows "carries (\<lambda>w. (w, False)) (\<lambda>w. bind (m w) (\<lambda>(w, done). if done then ret (w, True) else m' w)) (bs @ bs') (em_append e e')"
  by (rule carries_bind [OF assms(1)]) (simp add: assms(2))

text \<open>A struct with a base, its body as one step\<close>

lemma Merge_struct_base:
  "Merge_struct R W val mf (Schema md (Some b) fds) (Struct md' (Some y) vs) base =
     (\<lambda>w. bind (r_ReadStructBegin R base) (\<lambda>_. bind (write_out (w_WriteStructBegin W md base) w) (\<lambda>w.
        bind (bind (Merge_struct R W val mf b y True w) (\<lambda>(w, done).
          if done then ret (w, True) else Merge_DynamicFields R W val mf base (zip fds vs) w)) (\<lambda>(w, done).
            bind (write_out (w_WriteStructEnd W base) w) (\<lambda>w. ret (w, done))))))"
  by (simp add: Merge_ReadFields_dynamic bind_assoc case_prod_unfold cong: if_cong)

lemma Merge_base_struct:
  assumes "length (object_levels s y) = depth s" and "merge_levels M (object_levels s y) L L'" and "length L = depth s"
    and "\<forall>l \<in> set L. snd l" and "levels_merge val mf M (object_levels s y) L"
  shows "carries (\<lambda>w. (w, False)) (Merge_struct R W val mf s y True) (wire_levels F L) (em_levels G L')"
  using assms
proof (induction s arbitrary: y L L' rule: depth.induct)
  case (1 md fds)
  then obtain md' vs where y: "y = Struct md' None vs" by (cases "(Schema md None fds, y)" rule: object_levels.cases) auto
  with 1 obtain ps qs where L: "L = [(ps, True)]" "L' = [(qs, True)]" "merge_fields M (zip fds vs) ps qs"
    by (cases L; cases L') auto
  have "carries (\<lambda>w. (w, False)) (Merge_DynamicFields R W val mf True (zip fds vs)) (wire_level F (ps, True)) (em_fields G qs)"
    using "1.prems"(5) L y by (intro Merge_base_fields [OF L(3)]) (auto simp: levels_merge_def)
  from carries_read [OF base_StructBegin carries_struct [OF this, of md True]] L y show ?case
    by (simp add: Merge_ReadFields_dynamic base_format em_append_def)
next
  case (2 md b fds)
  then obtain md' y0 vs where y: "y = Struct md' (Some y0) vs" "length (object_levels b y0) = depth b"
    by (cases "(Schema md (Some b) fds, y)" rule: object_levels.cases) auto
  from "2.prems"(2) y merge_levels_append [of M "object_levels b y0" "zip fds vs" L L'] obtain L1 L1' ps qs f ls where
    L: "L = L1 @ (ps, f) # ls" "L' = L1' @ (qs, f) # ls" "length L1 = length (object_levels b y0)"
      "merge_levels M (object_levels b y0) L1 L1'" "merge_fields M (zip fds vs) ps qs" by auto
  with "2.prems"(3,4) y have end_: "ls = []" "f" by auto
  have base: "carries (\<lambda>w. (w, False)) (Merge_struct R W val mf b y0 True) (wire_levels F L1) (em_levels G L1')"
    using "2.prems" L y by (intro "2.IH") (auto simp: levels_merge_def)
  have "carries (\<lambda>w. (w, False)) (Merge_DynamicFields R W val mf True (zip fds vs)) (wire_level F (ps, True)) (em_fields G qs)"
    using "2.prems"(5) L y by (intro Merge_base_fields [OF L(5)]) (auto simp: levels_merge_def)
  from carries_read [OF base_StructBegin carries_struct [OF carries_then_fields [OF base this], of md True]] L y end_ show ?case
    unfolding y(1) Merge_struct_base by (simp add: base_format em_levels_append em_append_def)
qed

lemma Merge_top_struct:
  assumes begin_ok: "decodes (r_ReadStructBegin R False) pre ()" and "length (object_levels s y) = depth s" and "complete L"
    and "merge_levels M (object_levels s y) L L'" and "levels_merge val mf M (object_levels s y) L"
  shows "carries (\<lambda>w. (w, False)) (Merge_struct R W val mf s y False) (pre @ wire_levels F L) (f_struct G False (em_open G L'))"
proof (cases "(s, y)" rule: object_levels.cases)
  case (1 md fds md' vs)
  with assms(4) obtain ps base ls qs where L: "L = (ps, base) # ls" "L' = (qs, base) # ls" "merge_fields M (zip fds vs) ps qs"
    by (cases L; cases L') auto
  have "carries (\<lambda>w. (w, False)) (Merge_DynamicFields R W val mf False (zip fds vs)) (wire_levels F L) (em_open G L')"
    unfolding L(1,2) using assms(3,5) L 1 by (intro Merge_top_fields [OF L(3)]) (auto simp: levels_merge_def)
  from carries_read [OF begin_ok carries_struct [OF this, of md False]] 1 show ?thesis
    by (simp add: Merge_ReadFields_dynamic)
next
  case (2 md b fds md' y0 vs)
  then have sy: "s = Schema md (Some b) fds" "y = Struct md' (Some y0) vs" by simp_all
  with assms(2) have len: "length (object_levels b y0) = depth b" by simp
  from assms(4) 2 merge_levels_append [of M "object_levels b y0" "zip fds vs" L L'] obtain L1 L1' ps qs f ls where
    L: "L = L1 @ (ps, f) # ls" "L' = L1' @ (qs, f) # ls" "length L1 = length (object_levels b y0)"
      "merge_levels M (object_levels b y0) L1 L1'" "merge_fields M (zip fds vs) ps qs" "map snd L1' = map snd L1" by auto
  have compl: "complete ((ps, f) # ls)" "\<forall>l \<in> set L1. snd l" using complete_split [of L1 "(ps, f) # ls"] assms(3) L by auto
  have compl': "\<forall>l \<in> set L1'. snd l" using compl(2) L(6) by (metis (no_types, lifting) list.set_map imageE imageI)
  have base: "carries (\<lambda>w. (w, False)) (Merge_struct R W val mf b y0 True) (wire_levels F L1) (em_levels G L1')"
    using assms(5) L 2 len compl(2) by (intro Merge_base_struct) (auto simp: levels_merge_def)
  have "carries (\<lambda>w. (w, False)) (Merge_DynamicFields R W val mf False (zip fds vs)) (wire_levels F ((ps, f) # ls)) (em_open G ((qs, f) # ls))"
    using assms(5) L 2 compl(1) by (intro Merge_top_fields [OF L(5)]) (auto simp: levels_merge_def)
  from carries_read [OF begin_ok carries_struct [OF carries_then_fields [OF base this], of md False]] L em_open_append [OF compl', of "(qs, f) # ls"]
  show ?thesis unfolding sy Merge_struct_base by simp
qed (use assms(2) in \<open>auto elim: depth.elims\<close>)

text \<open>Containers\<close>

lemma SourceContainer_passes:
  assumes x: "wf_value True x" "GetTypeId x = BT_LIST \<or> GetTypeId x = BT_SET" and xs: "payload_items x = (t, xs)"
    and items: "passes (C (item_source e t) (of_nat (length xs))) (fst (enc_items F xs)) E"
  shows "passes (SourceContainer R C e) (fst (enc_value F x)) E"
proof -
  note wf = payload_items_wf [OF x, unfolded xs fst_conv snd_conv]
  have "is_basic_tag t" if "\<not> is_complex t"
    using wf that by (simp add: not_complex_basic)
  let ?f = "\<lambda>(sz, type) w. if is_complex type then (if type = source_type e then C e sz w else C (TypeOnly type) sz w)
    else if is_basic_tag type then C (Typed (TBasic type)) sz w else ret w" and ?n = "of_nat (length xs) :: u32"
  have "?f (?n, t) = C (item_source e t) ?n"
    using \<open>\<not> is_complex t \<Longrightarrow> is_basic_tag t\<close> by (auto simp: item_source_def)
  with items wf dynamic have "passes (\<lambda>w. bind (r_ReadContainerBegin R (source_type e)) (\<lambda>v. ?f v w))
      (f_container F ?n t @ fst (enc_items F xs)) E"
    by (intro carries_read [OF ContainerBegin_decodes]) simp_all
  then have "passes (SourceContainer R C e) (f_container F ?n t @ fst (enc_items F xs)) E"
    by (simp add: SourceContainer_def [abs_def] case_prod_unfold)
  with enc_payload_items [of F x, OF int8_byte x] xs show ?thesis by simp
qed

lemma SourceMap_passes:
  assumes wf: "wf_value True (VMap k t kvs)" and k: "is_basic_tag k"
    and items: "passes (C (Typed (TBasic k)) (item_source e t) (of_nat (length kvs))) (fst (enc_pairs F kvs)) E"
  shows "passes (SourceMap R C k' e) (fst (enc_value F (VMap k t kvs))) E"
proof -
  let ?n = "of_nat (length kvs) :: u32"
  have "is_basic_tag t" if "\<not> is_complex t"
    using wf that by (simp add: not_complex_basic)
  let ?f = "\<lambda>(sz, k, type) w. if is_complex type then (if type = source_type e then SourceMapByKey C k e sz w
      else SourceMapByKey C k (TypeOnly type) sz w) else if is_basic_tag type then SourceMapByKey C k (Typed (TBasic type)) sz w else ret w"
  have "?f (?n, k, t) = C (Typed (TBasic k)) (item_source e t) ?n"
    using k \<open>\<not> is_complex t \<Longrightarrow> is_basic_tag t\<close> by (auto simp: item_source_def SourceMapByKey_def)
  with items wf dynamic have "passes (\<lambda>w. bind (r_ReadContainerBegin2 R (k', source_type e)) (\<lambda>v. ?f v w))
      (f_container2 F ?n k t @ fst (enc_pairs F kvs)) E"
    by (intro carries_read [OF ContainerBegin2_decodes]) simp_all
  then show ?thesis by (simp add: SourceMap_def [abs_def] case_prod_unfold)
qed

lemma Merge_items_passes:
  assumes "length ys = length xs"
    and "list_all2 (\<lambda>p z. passes (merge (Some (e, fst p)) src) (fst (enc_value F (snd p))) (enc_value G z)) (zip ys xs) zs"
  shows "passes (Merge_items (\<lambda>y. merge (Some (e, y)) src) ys) (fst (enc_items F xs)) (enc_items G zs)"
  using assms
proof (induction ys xs arbitrary: zs rule: list_induct2)
  case (Cons y ys x xs)
  then obtain z zs' where zs: "zs = z # zs'" "passes (merge (Some (e, y)) src) (fst (enc_value F x)) (enc_value G z)"
      "list_all2 (\<lambda>p z. passes (merge (Some (e, fst p)) src) (fst (enc_value F (snd p))) (enc_value G z)) (zip ys xs) zs'"
    by (auto simp: list_all2_Cons1)
  from passes_tseq [OF zs(2) Cons.IH [OF zs(3)]] zs(1) show ?case by simp
qed (simp add: passes_ret)

lemma Merge_elements_passes:
  assumes "length ys = length xs" and "is_value_type (get_type_id e)"
    and items: "list_all2 (\<lambda>p z. passes (merge (Some (e, fst p)) src) (fst (enc_value F (snd p))) (enc_value G z)) (zip ys xs) zs"
  shows "passes (Merge_elements W merge e ys src (of_nat (length xs))) (fst (enc_items F xs))
    (em_append (f_container G (of_nat (length zs)) (get_type_id e), []) (enc_items G zs))"
proof -
  have "length zs = length xs" using list_all2_lengthD [OF items] assms(1) by simp
  with assms ContainerBegin [OF assms(2)] ContainerEnd show ?thesis
    by (auto simp: Merge_elements_def intro!: passes_write passes_end Merge_items_passes)
qed

lemma Deserialize_key:
  assumes "is_basic a" and "wf_value True a" and "GetTypeId a = kt"
  shows "decodes (Deserialize_basic R kt k v) (f_basic F a) (static_cast k a)"
  using Read_decodes [OF assms(1,2)] assms(3) static_cast_same [of a] decodes_map [OF Read_decodes [OF assms(1,2)], of "static_cast k"]
  by (auto simp: Deserialize_basic_def)

lemma static_cast_wf: "is_basic a \<Longrightarrow> wf_value True a \<Longrightarrow> is_matching_basic (GetTypeId a) k \<Longrightarrow> wf_value True (static_cast k a)"
  by (cases a; cases k) (simp_all add: is_matching_basic_def is_unsigned_tag_def is_signed_tag_def)

lemma Merge_pair_passes:
  assumes a: "is_basic a" "wf_value True a" "GetTypeId a = kt" "is_matching_basic kt k"
    and y: "const_mapped_at (static_cast k a) m = Inr y"
    and merge: "passes (merge (Some (e, y)) src) (fst (enc_value F x)) (enc_value G z)"
  shows "passes (Merge_pair R W merge k e m kt src) (fst (enc_value F a) @ fst (enc_value F x))
    (em_append (enc_value G (static_cast k a)) (enc_value G z))"
proof -
  let ?key = "static_cast k a"
  have key: "is_basic ?key" "wf_value True ?key" using static_cast_type [of a k] static_cast_wf [OF a(1,2)] a by auto
  have "passes (tseq (write_out (w_Write W ?key)) (merge (Some (e, y)) src)) (fst (enc_value F x)) (em_append (f_basic G ?key, []) (enc_value G z))"
    using WriteBasic [OF key(1)] key(2) omits by (intro passes_write merge) simp
  moreover have "bind (lift_res (const_mapped_at ?key m)) (\<lambda>x. merge (Some (e, x)) src w) = merge (Some (e, y)) src w" for w
    by (auto simp: y lift_res_def bind_def fun_eq_iff)
  ultimately have "passes (\<lambda>w. bind (write_out (w_Write W ?key) w) (\<lambda>w. bind (lift_res (const_mapped_at ?key m))
      (\<lambda>x. merge (Some (e, x)) src w))) (fst (enc_value F x)) (em_append (f_basic G ?key, []) (enc_value G z))"
    by (simp add: tseq_def [abs_def])
  from carries_read [where f = "\<lambda>key w. bind (write_out (w_Write W key) w) (\<lambda>w. bind (lift_res (const_mapped_at key m))
      (\<lambda>x. merge (Some (e, x)) src w))", OF Deserialize_key [OF a(1-3)] this] a(1) key(1)
  show ?thesis by (simp add: Merge_pair_def [abs_def] enc_value_basic)
qed

lemma passes_times_pairs2:
  assumes "list_all2 (\<lambda>p q. passes m (fst (enc_value F (fst p)) @ fst (enc_value F (snd p)))
    (em_append (enc_value G (fst q)) (enc_value G (snd q)))) kvs zs"
  shows "passes (times (length kvs) m) (fst (enc_pairs F kvs)) (enc_pairs G zs)"
  using assms
proof (induction rule: list_all2_induct)
  case (Cons p kvs q zs)
  from passes_tseq [OF Cons(1,3)] show ?case by (cases p; cases q) (simp add: em_append_assoc)
qed (simp add: passes_ret)

lemma Merge_pairs_passes:
  assumes len: "length m = length kvs" "length kvs < 2 ^ 32" and types: "is_basic_tag k" "is_value_type (get_type_id e)" "is_matching_basic kt k"
    and keys: "\<forall>p \<in> set kvs. is_basic (fst p) \<and> wf_value True (fst p) \<and> GetTypeId (fst p) = kt"
    and items: "list_all2 (\<lambda>p q. fst q = static_cast k (fst p) \<and> (\<exists>y. const_mapped_at (fst q) m = Inr y \<and>
      passes (merge (Some (e, y)) src) (fst (enc_value F (snd p))) (enc_value G (snd q)))) kvs zs"
  shows "passes (Merge_pairs R W merge k e m kt src (of_nat (length kvs))) (fst (enc_pairs F kvs))
    (em_append (f_container2 G (of_nat (length zs)) k (get_type_id e), []) (enc_pairs G zs))"
proof -
  have n: "unat (of_nat (length kvs) :: u32) = length kvs" using len(2) by (intro unat_of_nat_small) simp
  have "list_all2 (\<lambda>p q. passes (Merge_pair R W merge k e m kt src) (fst (enc_value F (fst p)) @ fst (enc_value F (snd p)))
      (em_append (enc_value G (fst q)) (enc_value G (snd q)))) kvs zs"
    unfolding list_all2_conv_all_nth
  proof (intro conjI allI impI)
    show "length kvs = length zs" using items by (rule list_all2_lengthD)
    fix i assume i: "i < length kvs"
    with items obtain y where "fst (zs ! i) = static_cast k (fst (kvs ! i))" "const_mapped_at (fst (zs ! i)) m = Inr y"
        "passes (merge (Some (e, y)) src) (fst (enc_value F (snd (kvs ! i)))) (enc_value G (snd (zs ! i)))"
      by (auto simp: list_all2_conv_all_nth)
    with keys types(3) i show "passes (Merge_pair R W merge k e m kt src) (fst (enc_value F (fst (kvs ! i))) @ fst (enc_value F (snd (kvs ! i))))
        (em_append (enc_value G (fst (zs ! i))) (enc_value G (snd (zs ! i))))"
      using Merge_pair_passes [of "fst (kvs ! i)" kt k m y merge e src "snd (kvs ! i)" "snd (zs ! i)"] by simp
  qed
  from passes_times_pairs2 [OF this] n len(1) list_all2_lengthD [OF items] ContainerBegin2 [of k "get_type_id e"] types ContainerEnd
  show ?thesis by (auto simp: Merge_pairs_def is_basic_tag_value_type intro!: passes_write passes_end)
qed

text \<open>Fields\<close>

lemma Skip_unread_decodes:
  assumes "wf_value True x" and "GetTypeId x = get_type_id t"
  shows "decodes (Skip_unread R residue t) (fst (enc_value F x)) ()"
proof -
  have "decodes (r_SkipValue R t) (fst (enc_value F x)) ()"
    using Skip_decodes [OF _ assms(1)] assms(2) dynamic SkipValue_tag by simp
  then show ?thesis by (auto simp: decodes_def Skip_unread_def)
qed

lemma Serializer_Field_emits: "wf_field True f \<Longrightarrow> emits (Serializer_Field W f) (em_fields G (present True f))"
  using emits_serializer_aux(4) [of True f] em_fields_enc [of G "[f]"] omits by (simp add: may_omit)

lemma Merge_Field_basic:
  assumes "wf_field True f" and "wf_value True x" and "GetTypeId x = get_type_id (fd_type fd)"
    and "\<not> (is_struct_type (fd_type fd) \<or> is_struct_container (fd_type fd))"
  shows "passes (Merge_Field W (Skip_unread R residue) merge fd f) (fst (enc_value F x)) (em_fields G (present True f))"
proof -
  have "passes (\<lambda>w. bind (Skip_unread R residue (fd_type fd)) (\<lambda>_. ret w)) (fst (enc_value F x) @ []) ([], [])"
    using carries_read [where f = "\<lambda>_ w. ret w", OF Skip_unread_decodes [OF assms(2,3)]] passes_ret by blast
  from passes_write [OF Serializer_Field_emits [OF assms(1)] this] assms(4) show ?thesis by (simp add: Merge_Field_def)
qed

lemma Merge_Field_struct:
  assumes "passes (merge (merge_var_of fd f) (Typed (fd_type fd))) (fst (enc_value F x)) (enc_value G z)"
    and "GetTypeId z = get_type_id (fd_type fd)" and "is_struct_type (fd_type fd) \<or> is_struct_container (fd_type fd)"
  shows "passes (Merge_Field W skip merge fd f) (fst (enc_value F x)) (em_fields G [(fd_id fd, z)])"
proof -
  have "is_value_type (get_type_id (fd_type fd))" using assms(2) is_value_type_GetTypeId [of z] by simp
  then show ?thesis
    using assms FieldBegin FieldEnd by (auto simp: Merge_Field_def intro!: passes_write passes_end)
qed

text \<open>Structs\<close>

abbreviation "merge_conv merge var src x z \<equiv> passes (merge var src) (fst (enc_value F x)) (enc_value G z)"

lemma struct_merge_conv:
  assumes y: "length (object_levels s y) = depth s" "wf_struct True y"
    and types: "\<forall>fds \<in> set (schema_levels s). \<forall>fd \<in> set fds. is_value_type (get_type_id (fd_type fd))"
    and unknown: "\<forall>l \<in> set (levels True False x). \<forall>p \<in> set (fst l). fits (unknown_source (GetTypeId (snd p))) (snd p)"
    and merged: "merge_levels struct_merger (object_levels s y) (levels True False x) (levels True False z)"
    and x: "wf_struct True x" "length (fst (enc_struct F False x)) < 2 ^ 32"
    and val: "\<And>src x'. fits src x' \<Longrightarrow> wf_value True x' \<Longrightarrow> length (fst (enc_value F x')) < length (fst (enc_struct F False x)) \<Longrightarrow> conv val src x'"
    and merge: "\<And>var src x' z'. merges var src x' z' \<Longrightarrow> merge_var_wf var \<Longrightarrow> wf_value True x' \<Longrightarrow>
      length (fst (enc_value F x')) < length (fst (enc_struct F False x)) \<Longrightarrow> merge_conv merge var src x' z'"
  shows "carries (\<lambda>w. (w, False)) (Merge_struct R W val (Merge_Field W (Skip_unread R residue) merge) s y False)
    (fst (enc_struct F False x)) (enc_struct G False z)"
proof -
  let ?L = "levels True False x" and ?mf = "Merge_Field W (Skip_unread R residue) merge"
  obtain pre where pre: "fst (enc_struct F False x) = pre @ wire_levels F ?L" "decodes (r_ReadStructBegin R False) pre ()"
    using enc_levels [OF x(2)] by blast
  have less: "length (fst (enc_value F (snd p))) < length (fst (enc_struct F False x))" if "l \<in> set ?L" "p \<in> set (fst l)" for l p
    using wire_level_less [OF that(2,1), of F] pre(1) by simp
  note wf = levels_wf [OF x(1)]
  have "fields_conv val [] (fst l)" if l: "l \<in> set ?L" for l
    using unknown l less [OF l] wf [OF l] by (auto simp: fields_conv_def intro!: val)
  moreover have "field_merges ?mf struct_merger ovs (fst l)" if "ovs \<in> set (object_levels s y)" "l \<in> set ?L" for ovs l
    unfolding field_merges_def
  proof (intro ballI conjI allI impI)
    fix p assume p: "p \<in> set ovs"
    note f = object_levels_wf [OF that(1) p y(2)]
    show "is_value_type (get_type_id (fd_type (fst p)))" using f types by blast
    show "emits (Serializer_Field W (snd p)) (em_fields G (present True (snd p)))" using f Serializer_Field_emits by blast
    fix q rs assume q: "q \<in> set (fst l)" "get_type_id (fd_type (fst p)) = GetTypeId (snd q)" and m: "struct_merger (fst p) (snd p) (snd q) rs"
    show "passes (?mf (fst p) (snd p)) (fst (enc_value F (snd q))) (em_fields G rs)"
    proof (cases "is_struct_type (fd_type (fst p)) \<or> is_struct_container (fd_type (fst p))")
      case True
      with m obtain z' where z: "rs = [(fd_id (fst p), z')]" "merges (merge_var_of (fst p) (snd p)) (Typed (fd_type (fst p))) (snd q) z'"
        by (auto simp: struct_merger_def)
      have "merge_conv merge (merge_var_of (fst p) (snd p)) (Typed (fd_type (fst p))) (snd q) z'"
        using f by (intro merge z(2) less [OF that(2) q(1)] wf [OF that(2) q(1)] merge_var_of_wf) blast
      from Merge_Field_struct [of merge, OF this] z merges_type_id [OF z(2)] True show ?thesis by simp
    next
      case False
      with m Merge_Field_basic [of "snd p" "snd q" "fst p" residue merge] f wf [OF that(2) q(1)] q(2) show ?thesis
        by (simp add: struct_merger_def)
    qed
  qed
  ultimately have "levels_merge val ?mf struct_merger (object_levels s y) ?L"
    by (auto simp: levels_merge_def dest!: zip_parts)
  from Merge_top_struct [OF pre(2) y(1) complete_levels merged this] pre(1) show ?thesis
    by (simp add: enc_struct_em)
qed

text \<open>Values\<close>

lemma element_Merge_Apply:
  "element_source src = Some el \<Longrightarrow> merges_type src \<Longrightarrow>
   Merge_Apply R W skip val merge var src = SourceContainer R (Merger_Container W val merge var) el"
  by (cases src rule: element_source.cases) (auto split: if_splits)

lemma map_Merge_Apply:
  "map_source src = Some (k', el) \<Longrightarrow> Merge_Apply R W skip val merge var src = SourceMap R (Merger_Container2 R W val merge var) k' el"
  by (cases src rule: map_source.cases) (auto split: if_splits)

lemma item_less:
  assumes "wf_value True x" and "GetTypeId x = BT_LIST \<or> GetTypeId x = BT_SET" and "y \<in> set (snd (payload_items x))"
  shows "length (fst (enc_value F y)) < length (fst (enc_value F x)) \<and> wf_value True y"
  using item_le [OF assms(3), of F] enc_payload_items [of F x, OF int8_byte assms(1,2)] container_length
    payload_items_wf [OF assms(1,2)] assms(3)
  by (auto simp: wf_items_iff list_all_iff add.commute less_add_same_cancel1 le_less_trans)

lemma pair_less:
  assumes "wf_value True (VMap k t kvs)" and "(a, b) \<in> set kvs"
  shows "length (fst (enc_value F a)) < length (fst (enc_value F (VMap k t kvs)))"
    and "length (fst (enc_value F b)) < length (fst (enc_value F (VMap k t kvs)))"
    and "wf_value True a" "wf_value True b" "GetTypeId a = k"
  using pair_le [OF assms(2), of F] container_length(2) [of "of_nat (length kvs)" k t] assms
  by (auto simp: wf_pairs_iff list_all_iff simp del: length_greater_0_conv)

lemma kept_items_conv:
  assumes fit: "element_source src = Some el" "merges_type src" and x: "wf_value True x" "GetTypeId x = BT_LIST \<or> GetTypeId x = BT_SET"
    and alone: "merge_list_var var = None \<or> basic_source (item_source el (fst (payload_items x)))"
    and items: "\<And>y. y \<in> set (snd (payload_items x)) \<Longrightarrow> conv val (item_source el (fst (payload_items x))) y"
  shows "merge_conv (Merge_Apply R W skip val merge) var src x x"
proof -
  obtain t xs where xs: "payload_items x = (t, xs)" by (cases "payload_items x")
  note wf = payload_items_wf [OF x, unfolded xs fst_conv snd_conv]
  have "Merger_Container W val merge var (item_source el t) n = Container W val (item_source el t) n" for n
    using alone xs by (auto simp: Merger_Container_def split: option.splits)
  moreover have "passes (Container W val (item_source el t) (of_nat (length xs))) (fst (enc_items F xs))
      (em_append (f_container G (of_nat (length xs)) t, []) (enc_items G xs))"
    using items xs wf by (intro passes_Container) (auto simp: item_source_def)
  ultimately have "passes (SourceContainer R (Merger_Container W val merge var) el) (fst (enc_value F x))
      (em_append (f_container G (of_nat (length xs)) t, []) (enc_items G xs))"
    by (intro SourceContainer_passes [OF x xs]) simp
  with element_Merge_Apply [OF fit] enc_payload_items [of G x, OF int8_format x] xs show ?thesis by simp
qed

lemma kept_map_conv:
  assumes fit: "map_source src = Some (k', el)" and wf: "wf_value True (VMap kt t kvs)" and k: "is_basic_tag kt"
    and alone: "\<not> (\<exists>k e m. merge_map_var var = Some (k, e, m) \<and> is_matching_basic kt k \<and> \<not> basic_source (item_source el t))"
    and items: "\<And>a b. (a, b) \<in> set kvs \<Longrightarrow> conv val (Typed (TBasic kt)) a \<and> conv val (item_source el t) b"
  shows "merge_conv (Merge_Apply R W skip val merge) var src (VMap kt t kvs) (VMap kt t kvs)"
proof -
  have "Merger_Container2 R W val merge var (Typed (TBasic kt)) (item_source el t) n = Container2 W val (Typed (TBasic kt)) (item_source el t) n" for n
    using alone by (auto simp: Merger_Container2_def split: option.splits prod.splits)
  moreover have "passes (Container2 W val (Typed (TBasic kt)) (item_source el t) (of_nat (length kvs))) (fst (enc_pairs F kvs))
      (em_append (f_container2 G (of_nat (length kvs)) kt t, []) (enc_pairs G kvs))"
    using items wf by (intro passes_Container2) (auto simp: item_source_def)
  ultimately have "passes (SourceMap R (Merger_Container2 R W val merge var) k' el) (fst (enc_value F (VMap kt t kvs)))
      (em_append (f_container2 G (of_nat (length kvs)) kt t, []) (enc_pairs G kvs))"
    by (intro SourceMap_passes [OF wf k]) simp
  with map_Merge_Apply [OF fit] show ?thesis by simp
qed

lemma kept_conv:
  assumes "fits src x" and "merges_type src" and alone: "\<not> merge_applies var src x" and wf: "wf_value True x"
    and val: "\<And>src' x'. fits src' x' \<Longrightarrow> wf_value True x' \<Longrightarrow> length (fst (enc_value F x')) < length (fst (enc_value F x)) \<Longrightarrow> conv val src' x'"
    and len: "length (fst (enc_value F x)) < 2 ^ 32"
  shows "merge_conv (Merge_Apply R W skip val merge) var src x x"
  using assms(1)
proof cases
  case basic
  with assms(2) show ?thesis by simp
next
  case (items el)
  from alone items(1) have "merge_list_var var = None \<or> basic_source (item_source el (fst (payload_items x)))"
    by (cases "merge_list_var var") (auto simp: merge_applies_def)
  from kept_items_conv [OF items(1) assms(2) wf items(2) this] items(4) item_less [OF wf items(2)] val show ?thesis by blast
next
  case (map k' el k kvs t)
  have "element_source src = None" using map(2) by (cases src rule: map_source.cases) (auto split: if_splits)
  with alone map(1,2) have alone: "\<not> (\<exists>k'' e m. merge_map_var var = Some (k'', e, m) \<and> is_matching_basic k k'' \<and> \<not> basic_source (item_source el t))"
    by (auto simp: merge_applies_def)
  note wf = wf [unfolded map(1)] and val = val [unfolded map(1)]
  have "conv val (Typed (TBasic k)) a \<and> conv val (item_source el t) b" if "(a, b) \<in> set kvs" for a b
  proof
    show "conv val (Typed (TBasic k)) a"
      using val [of "Typed (TBasic k)" a] pair_less [OF wf that] map(3) fits.basic [of a] by (simp flip: is_basic_tag_GetTypeId)
    show "conv val (item_source el t) b" using val pair_less [OF wf that] map(5) that by fastforce
  qed
  from kept_map_conv [OF map(2) wf map(3) alone this] map(1) show ?thesis by simp
next
  case (struct y s)
  with alone have "Merge_Apply R W skip val merge var src = Transcode_struct R W val s False"
    by (auto simp: merge_applies_def Merge_Apply_struct_def split: option.splits prod.splits bvalue.splits)
  moreover have "conv (\<lambda>src. Transcode_struct R W val s False) src x"
    using struct_conv [of s y val] struct assms(1) wf val len by simp
  ultimately show ?thesis by simp
qed

lemma merged_items_conv:
  assumes fit: "element_source src = Some el" "merges_type src" and x: "wf_value True x" "GetTypeId x = BT_LIST \<or> GetTypeId x = BT_SET"
    and var: "merge_list_var var = Some (e, ys)" "is_value_type (get_type_id e)" "\<not> basic_source (item_source el (fst (payload_items x)))"
      "length ys = length (snd (payload_items x))"
    and items: "list_all2 (\<lambda>p z. merge_conv merge (Some (e, fst p)) (item_source el (fst (payload_items x))) (snd p) z)
      (zip ys (snd (payload_items x))) zs"
  shows "merge_conv (Merge_Apply R W skip val merge) var src x (payload_list (GetTypeId x) (get_type_id e) zs)"
proof -
  obtain t xs where xs: "payload_items x = (t, xs)" by (cases "payload_items x")
  have "Merger_Container W val merge var (item_source el t) n = Merge_elements W merge e ys (item_source el t) n" for n
    using var(1,3) xs by (simp add: Merger_Container_def)
  moreover have "passes (Merge_elements W merge e ys (item_source el t) (of_nat (length xs))) (fst (enc_items F xs))
      (em_append (f_container G (of_nat (length zs)) (get_type_id e), []) (enc_items G zs))"
    using items var xs by (intro Merge_elements_passes) auto
  ultimately have "passes (SourceContainer R (Merger_Container W val merge var) el) (fst (enc_value F x))
      (em_append (f_container G (of_nat (length zs)) (get_type_id e), []) (enc_items G zs))"
    by (intro SourceContainer_passes [OF x xs]) simp
  with element_Merge_Apply [OF fit] show ?thesis by (simp add: payload_list_def)
qed

lemma merged_map_conv:
  assumes fit: "map_source src = Some (k', el)" and wf: "wf_value True (VMap kt t kvs)"
    and var: "merge_map_var var = Some (k, e, m)" "is_basic_tag k" "is_basic_tag kt" "is_value_type (get_type_id e)"
      "is_matching_basic kt k" "\<not> basic_source (item_source el t)" "length m = length kvs"
    and items: "list_all2 (\<lambda>p q. fst q = static_cast k (fst p) \<and> (\<exists>y. const_mapped_at (fst q) m = Inr y \<and>
      merge_conv merge (Some (e, y)) (item_source el t) (snd p) (snd q))) kvs zs"
  shows "merge_conv (Merge_Apply R W skip val merge) var src (VMap kt t kvs) (VMap k (get_type_id e) zs)"
proof -
  have "Merger_Container2 R W val merge var (Typed (TBasic kt)) (item_source el t) n = Merge_pairs R W merge k e m kt (item_source el t) n" for n
    using var(1,5,6) by (simp add: Merger_Container2_def)
  moreover have "\<forall>p \<in> set kvs. is_basic (fst p) \<and> wf_value True (fst p) \<and> GetTypeId (fst p) = kt"
    using pair_less [OF wf] var(3) is_basic_tag_GetTypeId by fastforce
  with items var wf have "passes (Merge_pairs R W merge k e m kt (item_source el t) (of_nat (length kvs))) (fst (enc_pairs F kvs))
      (em_append (f_container2 G (of_nat (length zs)) k (get_type_id e), []) (enc_pairs G zs))"
    by (intro Merge_pairs_passes) auto
  ultimately have "passes (SourceMap R (Merger_Container2 R W val merge var) k' el) (fst (enc_value F (VMap kt t kvs)))
      (em_append (f_container2 G (of_nat (length zs)) k (get_type_id e), []) (enc_pairs G zs))"
    by (intro SourceMap_passes [OF wf var(3)]) simp
  with map_Merge_Apply [OF fit] show ?thesis by simp
qed

lemma merged_struct_conv:
  assumes "carries (\<lambda>w. (w, False)) (Merge_struct R W val (Merge_Field W skip merge) s y False) (fst (enc_struct F False x)) (enc_struct G False z)"
  shows "merge_conv (Merge_Apply R W skip val merge) (Some (TStruct s, VStruct y)) (Typed (TStruct s)) (VStruct x) (VStruct z)"
proof -
  have "passes (\<lambda>w. bind (Merge_struct R W val (Merge_Field W skip merge) s y False w) (\<lambda>(w, done). ret w))
      (fst (enc_struct F False x) @ []) (em_append (enc_struct G False z) ([], []))"
    by (rule carries_bind [OF assms]) (simp add: passes_ret)
  then show ?thesis by (simp add: Merge_Apply_struct_def)
qed

lemma Merge_Apply_conv:
  assumes "merges var src x z" and var: "merge_var_wf var" and wf: "wf_value True x" and len: "length (fst (enc_value F x)) < 2 ^ 32"
    and val: "\<And>src' x'. fits src' x' \<Longrightarrow> wf_value True x' \<Longrightarrow> length (fst (enc_value F x')) < length (fst (enc_value F x)) \<Longrightarrow> conv val src' x'"
    and merge: "\<And>var src' x' z'. merges var src' x' z' \<Longrightarrow> merge_var_wf var \<Longrightarrow> wf_value True x' \<Longrightarrow>
      length (fst (enc_value F x')) < length (fst (enc_value F x)) \<Longrightarrow> merge_conv merge var src' x' z'"
  shows "merge_conv (Merge_Apply R W (Skip_unread R residue) val merge) var src x z"
  using assms(1)
proof cases
  case kept
  with kept_conv [OF kept(2-4) wf val len] show ?thesis by simp
next
  case (items el e ys zs)
  have "list_all2 (\<lambda>p z. merge_conv merge (Some (e, fst p)) (item_source el (fst (payload_items x))) (snd p) z)
      (zip ys (snd (payload_items x))) zs"
    using items(10)
  proof (rule list_all2_mono')
    fix p z' assume p: "p \<in> set (zip ys (snd (payload_items x)))"
      and m: "merges (Some (e, fst p)) (item_source el (fst (payload_items x))) (snd p) z'"
    have "wf_value True (fst p)" using merge_list_var_wf [OF items(6) var] zip_parts [OF p] by blast
    with merge [OF m] item_less [OF wf items(3), of "snd p"] zip_parts [OF p]
    show "merge_conv merge (Some (e, fst p)) (item_source el (fst (payload_items x))) (snd p) z'" by simp
  qed
  from merged_items_conv [where e = e and merge = merge, OF items(2,5) wf items(3,6-9) this] items show ?thesis by simp
next
  case (map k' el k e m kt t kvs zs)
  note wf = wf [unfolded map(1)] and merge = merge [unfolded map(1)]
  have "list_all2 (\<lambda>p q. fst q = static_cast k (fst p) \<and> (\<exists>y. const_mapped_at (fst q) m = Inr y \<and>
      merge_conv merge (Some (e, y)) (item_source el t) (snd p) (snd q))) kvs zs"
    using map(12)
  proof (rule list_all2_mono')
    fix p q assume p: "p \<in> set kvs" and m: "fst q = static_cast k (fst p) \<and> (\<exists>y. const_mapped_at (fst q) m = Inr y \<and>
      merges (Some (e, y)) (item_source el t) (snd p) (snd q))"
    then obtain y where y: "const_mapped_at (fst q) m = Inr y" "merges (Some (e, y)) (item_source el t) (snd p) (snd q)" by blast
    with merge [OF y(2)] merge_map_var_wf [OF map(5) var y(1)] pair_less [OF wf, of "fst p" "snd p"] p m
    show "fst q = static_cast k (fst p) \<and> (\<exists>y. const_mapped_at (fst q) m = Inr y \<and>
      merge_conv merge (Some (e, y)) (item_source el t) (snd p) (snd q))" by auto
  qed
  from merged_map_conv [where merge = merge, OF map(3) wf map(5-11) this] map(1,2) show ?thesis by simp
next
  case (struct s y x' z')
  have "merge_levels struct_merger (object_levels s y) (levels True False x') (levels True False z')"
    using struct(8) by (simp add: struct_merger_def [abs_def])
  note val = val [unfolded struct(3)] and merge = merge [unfolded struct(3)]
  have "wf_struct True y" "wf_struct True x'" "length (fst (enc_struct F False x')) < 2 ^ 32"
    using var wf len struct(1,3) by simp_all
  with struct_merge_conv [where merge = merge and val = val and residue = residue,
      OF struct(5) _ struct(6,7) \<open>merge_levels struct_merger _ _ _\<close>] val merge
  have "carries (\<lambda>w. (w, False)) (Merge_struct R W val (Merge_Field W (Skip_unread R residue) merge) s y False)
      (fst (enc_struct F False x')) (enc_struct G False z')" by simp
  then show ?thesis unfolding struct(1-4) by (rule merged_struct_conv)
qed

lemma Merge_value_conv:
  "merges var src x z \<Longrightarrow> merge_var_wf var \<Longrightarrow> wf_value True x \<Longrightarrow> length (fst (enc_value F x)) < n \<Longrightarrow>
   length (fst (enc_value F x)) < 2 ^ 32 \<Longrightarrow> merge_conv (Merge_value R W residue n) var src x z"
proof (induction n arbitrary: var src x z)
  case (Suc n)
  have "merge_conv (Merge_Apply R W (Skip_unread R residue) (Transcode_Write R W n) (Merge_value R W residue n)) var src x z"
    using Suc.prems by (intro Merge_Apply_conv Suc.IH Write_conv) auto
  then show ?case by simp
qed simp

text \<open>A payload that ends with the base: the fields of the struct are not visited.\<close>

lemma Transcode_Rest_stop: "Transcode_Rest R W val w BT_STOP fid = (\<lambda>ib. Inr ((w, BT_STOP, fid), ib))"
  by (simp add: fun_eq_iff Transcode_Rest.simps is_stop_def)

lemma Merge_struct_done:
  assumes "decodes (r_ReadStructBegin R False) pre ()"
  shows "conveys (\<lambda>w. (w, True)) (seq (w_WriteStructBegin W md False)
      (seq (seq (w_WriteStructBegin W mdb True) (w_WriteStructEnd W True)) (w_WriteStructEnd W False)))
    (Merge_struct R W val mf (Schema md (Some (Schema mdb None [])) fds) (Struct md' (Some (Struct mdb' None [])) vs) False)
    (pre @ [stop_byte False])"
proof (rule conveysI)
  fix ib w rest assume "ib_at ib ((pre @ [stop_byte False]) @ rest)"
  then have at: "ib_at ib (pre @ [stop_byte False] @ rest)" by simp
  let ?ib1 = "ib_adv (length pre) ib"
  have at1: "ib_at ?ib1 ([stop_byte False] @ rest)" using ib_at_adv_append [OF at] .
  then have at2: "ib_at ?ib1 ([] @ [stop_byte False] @ rest)" by simp
  note read = decodesD [OF assms at] decodesD [OF base_StructBegin at2] decodesD [OF FieldBegin_stop at1]
  note steps = Merge_ReadFields_dynamic Merge_DynamicFields_def Merge_Fields.simps(1) Transcode_Rest_stop bind_def write_out_def
    lift_res_def seq_def ret_def stop_tag_def is_stop_def
  show "Merge_struct R W val mf (Schema md (Some (Schema mdb None [])) fds) (Struct md' (Some (Struct mdb' None [])) vs) False w ib =
    res_bind (seq (w_WriteStructBegin W md False) (seq (seq (w_WriteStructBegin W mdb True) (w_WriteStructEnd W True))
      (w_WriteStructEnd W False)) w) (\<lambda>w'. Inr ((w', True), ib_adv (length (pre @ [stop_byte False])) ib))"
  proof (cases "w_WriteStructBegin W md False w")
    case (Inr w1)
    note begin1 = this
    show ?thesis
    proof (cases "w_WriteStructBegin W mdb True w1")
      case (Inr w2)
      note begin2 = this
      show ?thesis
        by (cases "w_WriteStructEnd W True w2"; cases "w_WriteStructEnd W False (projr (w_WriteStructEnd W True w2))")
          (simp_all add: steps read begin1 begin2)
    qed (simp add: steps read begin1)
  qed (simp add: steps read)
qed

lemma Merge_shallow_conv:
  assumes "decodes (r_ReadStructBegin R False) pre ()"
  shows "\<exists>act. emits act (f_struct G False ([stop_byte True], [])) \<and> (\<forall>ib w rest. ib_at ib (pre @ [stop_byte False] @ rest) \<longrightarrow>
    Merge residue R W (Schema md (Some (Schema mdb None [])) fds) (Struct md' (Some (Struct mdb' None [])) vs) w ib =
      res_bind (act w) (\<lambda>w'. Inr (w', ib_adv (Suc (length pre)) ib)))"
proof -
  let ?act = "seq (w_WriteStructBegin W md False) (seq (seq (w_WriteStructBegin W mdb True) (w_WriteStructEnd W True)) (w_WriteStructEnd W False))"
  have "emits (seq (w_WriteStructBegin W mdb True) (w_WriteStructEnd W True)) ([stop_byte True], [])"
    using emits_seq [OF base_begin base_end] by simp
  from StructBegin_End [OF this] have "emits ?act (f_struct G False ([stop_byte True], []))" .
  moreover have "Merge residue R W (Schema md (Some (Schema mdb None [])) fds) (Struct md' (Some (Struct mdb' None [])) vs) w ib =
      res_bind (?act w) (\<lambda>w'. Inr (w', ib_adv (Suc (length pre)) ib))" if "ib_at ib (pre @ [stop_byte False] @ rest)" for ib w rest
    using conveysD [OF Merge_struct_done [OF assms, of md mdb "Transcode_Write R W (left ib)"
        "Merge_Field W (Skip_unread R residue) (Merge_value R W residue (left ib))" fds md' mdb' vs], of ib rest w] that
    by (cases "?act w") (simp_all add: Merge_def bind_def ret_def)
  ultimately show ?thesis by blast
qed

lemma Merge_conv:
  assumes merged: "merges (Some (TStruct s, VStruct y)) (Typed (TStruct s)) (VStruct x) (VStruct z)"
    and wf: "wf_struct True y" "wf_struct True x"
    and len: "length (fst (enc_struct F False x)) < 2 ^ 32"
  shows "\<exists>act. emits act (enc_struct G False z) \<and> (\<forall>ib w rest. ib_at ib (fst (enc_struct F False x) @ rest) \<longrightarrow>
    length rest = n \<longrightarrow> Merge residue R W s y w ib = res_bind (act w) (\<lambda>w'. Inr (w', ib_adv (length (fst (enc_struct F False x))) ib)))"
proof -
  let ?bs = "fst (enc_struct F False x)"
  have "passes (Merge_Apply R W (Skip_unread R residue) (Transcode_Write R W (length ?bs + n)) (Merge_value R W residue (length ?bs + n))
      (Some (TStruct s, VStruct y)) (Typed (TStruct s))) (fst (enc_value F (VStruct x))) (enc_value G (VStruct z))"
    using wf len by (intro Merge_Apply_conv [OF merged] Write_conv Merge_value_conv) auto
  then obtain act where act: "emits act (enc_struct G False z)"
      "conveys (\<lambda>w. w) act (\<lambda>w. bind (Merge_struct R W (Transcode_Write R W (length ?bs + n))
        (Merge_Field W (Skip_unread R residue) (Merge_value R W residue (length ?bs + n))) s y False w) (\<lambda>(w, done). ret w)) ?bs"
    by (auto simp: carries_def Merge_Apply_struct_def)
  have "Merge residue R W s y w ib = res_bind (act w) (\<lambda>w'. Inr (w', ib_adv (length ?bs) ib))"
    if "ib_at ib (?bs @ rest)" "length rest = n" for ib w rest
    using conveysD [OF act(2) that(1)] that by (simp add: Merge_def left_def ib_at_def)
  with act(1) show ?thesis by blast
qed

end

section \<open>Merging between the tagged protocols\<close>

context transcodable_reader
begin

lemma Merge_fast:
  assumes merged: "merges (Some (TStruct s, VStruct y)) (Typed (TStruct s)) (VStruct x) (VStruct z)"
    and wf: "wf_struct True y" "wf_struct True x" and at: "ib_at ib (fst (enc_struct F False x) @ rest)"
    and w: "os_holds w c" "length c + length (fst (enc_struct fast_format False z)) < 2 ^ 31"
  shows "\<exists>w'. Merge residue R (fast_writer memory_stream) s y w ib = Inr (w', ib_adv (length (fst (enc_struct F False x))) ib) \<and>
    os_holds w' (c @ fst (enc_struct fast_format False z))"
proof -
  have "length (fst (enc_struct F False x)) < 2 ^ 32" using ib_at_bound [OF at] by simp
  from transcoder.Merge_conv [OF to_fast merged wf this, of "length rest" residue] obtain act where
      act: "stream_appends os_holds act (fst (enc_struct fast_format False z))"
      "Merge residue R (fast_writer memory_stream) s y w ib = res_bind (act w) (\<lambda>w'. Inr (w', ib_adv (length (fst (enc_struct F False x))) ib))"
    using at by blast
  from stream_appendsD [OF act(1) w] act(2) show ?thesis by auto
qed

lemma Merge_shallow:
  assumes "decodes (r_ReadStructBegin R False) [] ()" and "ib_at ib ([stop_byte False] @ rest)" and "os_holds w c" "length c < 2 ^ 31 - 2"
  shows "\<exists>w' ib'. Merge residue R (fast_writer memory_stream) (Schema md (Some (Schema mdb None [])) fds)
      (Struct md' (Some (Struct mdb' None [])) vs) w ib = Inr (w', ib') \<and>
    os_holds w' (c @ fst (enc_struct fast_format False (Struct md' (Some (Struct mdb' None [])) [])))"
proof -
  from transcoder.Merge_shallow_conv [OF to_fast assms(1), of residue md mdb fds md' mdb' vs] assms(2) obtain act where
    act: "stream_appends os_holds act (fst (f_struct fast_format False ([stop_byte True], [])))"
      "Merge residue R (fast_writer memory_stream) (Schema md (Some (Schema mdb None [])) fds) (Struct md' (Some (Struct mdb' None [])) vs) w ib =
        res_bind (act w) (\<lambda>w'. Inr (w', ib_adv (Suc 0) ib))"
    by auto
  have bytes: "fst (enc_struct fast_format False (Struct md' (Some (Struct mdb' None [])) [])) =
      fst (f_struct fast_format False ([stop_byte True], []))" "length (fst (f_struct fast_format False ([stop_byte True], []))) = 2"
    by (simp_all add: fast_format_simps stop_byte_def em_append_def)
  from stream_appendsD [OF act(1) assms(3)] assms(4) act(2) bytes show ?thesis by auto
qed

lemma cw_Merge_encodes:
  assumes merged: "merges (Some (TStruct s, VStruct y)) (Typed (TStruct s)) (VStruct x) (VStruct z)"
    and wf: "wf_struct True y" "wf_struct True x" and at: "ib_at ib (fst (enc_struct F False x) @ rest)"
    and w: "os_holds (cw_output w) c" "cw_it w = None" "cw_version w = v"
    and room: "length c + length (fst (enc_struct (compact_format v) False z)) < 2 ^ 31"
  shows "\<exists>w'. cw_Merge residue noinit memory_stream R s y w ib = Inr (w', ib_adv (length (fst (enc_struct F False x))) ib) \<and>
    os_holds (cw_output w') (c @ fst (enc_struct (compact_format v) False z))"
proof -
  let ?ib = "ib_adv (length (fst (enc_struct F False x))) ib"
  have len: "length (fst (enc_struct F False x)) < 2 ^ 32" using ib_at_bound [OF at] by simp
  have pass1: "\<exists>act. emits_pass1 os_holds v act (enc_struct (compact_format v) False z) \<and>
      (\<forall>w. Merge residue R (compact_writer memory_stream) s y w ib = res_bind (act w) (\<lambda>w'. Inr (w', ?ib)))"
    using transcoder.Merge_conv [OF to_compact merged wf len, of v "length rest" residue] at by blast
  have pass0: "\<exists>act. emits_pass0 act (enc_struct (compact_format v) False z) \<and>
      Merge residue R (compact_writer counter_stream) s y (CompactBinaryWriter_init noinit OutputCounter_init v2) ib =
        res_bind (act (CompactBinaryWriter_init noinit OutputCounter_init v2)) (\<lambda>w'. Inr (w', ?ib))" if "v = v2"
    unfolding that using transcoder.Merge_conv [OF to_pass0 merged wf len, of "length rest" residue] at by blast
  from two_passes [where run = "\<lambda>w. Merge residue R (compact_writer memory_stream) s y w ib"
      and count = "\<lambda>w. Merge residue R (compact_writer counter_stream) s y w ib", OF pass1 pass0 enc_lengths_le_bytes(6) w room] show ?thesis
    by (auto simp: cw_Merge_def)
qed

end

end
