(* ===== verification/Merge_Object.thy ===== *)
theory Merge_Object
  imports Merge_Correct
begin

text \<open>
  Merging an object with a payload of its own schema. \<open>alike s y x\<close>: the containers of structs of the payload \<open>x\<close> have as many
  elements, and the same keys, as those of the object \<open>y\<close>. Then merging gives the object itself, and fields of
  the payload beyond those of the schema are kept.
\<close>

section \<open>Payloads with the containers of the object\<close>

function (sequential) alike :: "btype \<Rightarrow> bvalue \<Rightarrow> bvalue \<Rightarrow> bool"
  and alike_fields :: "fdef list \<Rightarrow> bfield list \<Rightarrow> bfield list \<Rightarrow> bool"
  and alike_struct :: "sschema \<Rightarrow> bstruct \<Rightarrow> bstruct \<Rightarrow> bool" where
  "alike (TNullable e) v x = (length (items_of v) = length (items_of x) \<and> list_all (\<lambda>p. alike e (fst p) (snd p)) (zip (items_of v) (items_of x)))"
| "alike (TList e) v x = (length (items_of v) = length (items_of x) \<and> list_all (\<lambda>p. alike e (fst p) (snd p)) (zip (items_of v) (items_of x)))"
| "alike (TMap k e) v x = (case (v, x) of (VMap k1 t1 kvs, VMap k2 t2 kvs') \<Rightarrow>
       map fst kvs = map fst kvs' \<and> list_all (\<lambda>p. alike e (snd (fst p)) (snd (snd p))) (zip kvs kvs') | _ \<Rightarrow> False)"
| "alike (TStruct s) v x = alike_struct s (struct_of v) (struct_of x)"
| "alike t v x = True"
| "alike_fields (FieldDef fid md mb t # fs) (f # vs) (g # us) = (alike_fields fs vs us \<and>
     (is_struct_type t \<or> is_struct_container t \<longrightarrow>
        list_all (\<lambda>p. \<not> mb \<and> present True f \<noteq> [] \<and> alike t (snd (hd (present True f))) (snd p)) (present True g)))"
| "alike_fields fs vs us = True"
| "alike_struct (Schema md None fs) y x = alike_fields fs (fields_of y) (fields_of x)"
| "alike_struct (Schema md (Some b) fs) y x =
     (alike_fields fs (fields_of y) (fields_of x) \<and> alike_struct b (the (base_of y)) (the (base_of x)))"
  by pat_completeness auto
termination
  by (relation "measure (case_sum (\<lambda>(t, v, x). size t)
      (case_sum (\<lambda>(fs, vs, us). size_list size fs) (\<lambda>(s, y, x). size s)))") auto

section \<open>One level\<close>

definition fields_same :: "fdef list \<Rightarrow> bfield list \<Rightarrow> bfield list \<Rightarrow> bool" where
  "fields_same fs vs us \<longleftrightarrow>
     list_all2 (\<lambda>fd q. \<forall>p \<in> set (present True (snd q)). struct_merger fd (fst q) (snd p) (present True (fst q))) fs (zip vs us)"

lemma present_shape:
  assumes "field_var fd g"
  obtains "present True g = []" | x where "present True g = [(fd_id fd, x)]" "GetTypeId x = get_type_id (fd_type fd)"
proof (cases g)
  case (Field fid md v)
  with assms that show ?thesis
    by (cases fd; cases "omit_field True md v") (auto simp: field_var_def shaped_GetTypeId)
next
  case (MaybeField fid md t v)
  with assms that show ?thesis by (cases fd; cases v) (auto simp: field_var_def shaped_GetTypeId)
qed

lemma fields_above:
  assumes "list_all2 field_var fs us" and "\<forall>fd \<in> set fs. i < fd_id fd" and "q \<in> set (concat (map (present True) us))"
  shows "i < fst q"
proof -
  from assms(3) obtain g where g: "g \<in> set us" "fst q = field_id g" using present_id by fastforce
  then have "fst q \<in> set (map field_id us)" by auto
  also have "map field_id us = map fd_id fs" using assms(1) shaped_field_ids by (simp add: shaped_fields_iff)
  finally show ?thesis using assms(2) by auto
qed

lemma merge_fields_same:
  "sorted_wrt (<) (map fd_id fs) \<Longrightarrow> list_all2 field_var fs vs \<Longrightarrow> list_all2 field_var fs us \<Longrightarrow> fields_same fs vs us \<Longrightarrow>
   \<forall>q \<in> set es. \<forall>fd \<in> set fs. fd_id fd < fst q \<Longrightarrow>
   merge_fields struct_merger (zip fs vs) (concat (map (present True) us) @ es) (concat (map (present True) vs) @ es)"
proof (induction fs arbitrary: vs us)
  case Nil
  then show ?case by (simp add: merge_fields.rest)
next
  case (Cons fd fs)
  then obtain f vs' g us' where vs: "vs = f # vs'" "us = g # us'" "field_var fd f" "field_var fd g"
      "list_all2 field_var fs vs'" "list_all2 field_var fs us'"
    by (auto simp: list_all2_Cons1)
  let ?ps = "concat (map (present True) us') @ es"
  have IH: "merge_fields struct_merger (zip fs vs') ?ps (concat (map (present True) vs') @ es)"
    using Cons vs by (intro Cons.IH) (auto simp: fields_same_def)
  have "\<forall>q \<in> set ?ps. fd_id fd < fst q"
    using fields_above [OF vs(6), of "fd_id fd"] Cons.prems(1,5) by auto
  then have passed: "passed fd ?ps" by (cases ?ps) (auto simp: passed_def)
  from vs(4) show ?case
  proof (cases rule: present_shape)
    case 1
    with merge_fields.omitted [OF passed IH, of f] vs(1,2) show ?thesis by simp
  next
    case (2 x)
    have "struct_merger fd f x (present True f)" using Cons.prems(4) vs(1,2) 2 by (auto simp: fields_same_def)
    from merge_fields.matched [where M = struct_merger, OF 2(2) [symmetric] this, of ?ps "zip fs vs'"] IH passed vs(1,2) 2(1) show ?thesis by simp
  qed
qed

section \<open>Values\<close>

lemma lex_less_irrefl: "(\<And>x. \<not> lt x x) \<Longrightarrow> \<not> lex_less lt xs xs"
  by (induction xs) auto

lemma key_less_irrefl: "\<not> key_less k k"
  by (cases k) (simp_all add: key_less_def double_less_def lex_less_irrefl)

lemma const_mapped_at_nth:
  "sorted_wrt key_less (map fst m) \<Longrightarrow> i < length m \<Longrightarrow> const_mapped_at (fst (m ! i)) m = Inr (snd (m ! i))"
proof (induction m arbitrary: i)
  case (Cons p m)
  obtain k v where p: "p = (k, v)" by (cases p)
  show ?case
  proof (cases i)
    case 0
    with p show ?thesis by (simp add: key_less_irrefl)
  next
    case (Suc j)
    then have "key_less k (fst (m ! j))" using Cons.prems p by auto
    with Suc Cons p show ?thesis by simp
  qed
qed simp

lemma object_levels_depth: "shaped_struct s y \<Longrightarrow> length (object_levels s y) = depth s"
  by (induction s y rule: object_levels.induct) auto

text \<open>Elements of a container of structs are merged as what they are.\<close>

lemma struct_element: "is_struct_type e \<or> is_struct_container e \<Longrightarrow> item_source (Typed e) (get_type_id e) = Typed e"
  by (cases e) (auto simp: item_source_def is_complex_def)

lemma merges_list:
  assumes X: "X = TList e \<or> X = TNullable e" and e: "is_struct_type e \<or> is_struct_container e" "schema_ok_type X"
    and v: "shaped X v" "shaped X x" "alike X v x" and wf: "wf_value True x"
    and IH: "\<And>y z. y \<in> set (items_of v) \<Longrightarrow> z \<in> set (items_of x) \<Longrightarrow> alike e y z \<Longrightarrow> merges (Some (e, y)) (Typed e) z y"
  shows "merges (Some (X, v)) (Typed X) x v"
proof -
  obtain ys where ys: "v = VList (get_type_id e) ys" using X v(1) by (cases v) auto
  obtain xs where xs: "x = VList (get_type_id e) xs" using X v(2) by (cases x) auto
  note v' = ys xs
  have len: "length ys = length xs" using v(3) X v' by auto
  have "is_value_type (get_type_id e)" using e(2) X get_type_id_value [of e] by auto
  moreover have "list_all2 (\<lambda>p z. merges (Some (e, fst p)) (Typed e) (snd p) z) (zip ys xs) ys"
    unfolding list_all2_conv_all_nth
  proof (intro conjI allI impI)
    fix i assume i: "i < length (zip ys xs)"
    have "\<forall>p \<in> set (zip ys xs). alike e (fst p) (snd p)" using v(3) X v' by (elim disjE) (simp_all add: list_all_iff)
    moreover have "(ys ! i, xs ! i) \<in> set (zip ys xs)" using i len by (auto simp: set_zip)
    ultimately show "merges (Some (e, fst (zip ys xs ! i))) (Typed e) (snd (zip ys xs ! i)) (ys ! i)"
      using i len v' IH [of "ys ! i" "xs ! i"] by auto
  qed (simp add: len)
  moreover have "\<not> basic_source (Typed e)" using e(1) by (cases e) auto
  ultimately show ?thesis
    using merges.items [of "Typed X" "Typed e" x "Some (X, v)" e ys ys] X v' len struct_element [OF e(1)]
    by (auto simp: payload_list_def)
qed

lemma merges_map:
  assumes e: "is_struct_type e \<or> is_struct_container e" "schema_ok_type (TMap k e)"
    and v: "shaped (TMap k e) v" "shaped (TMap k e) x" "alike (TMap k e) v x" "exact (TMap k e) v" and wf: "wf_value True x"
    and IH: "\<And>k1 t1 ys k2 t2 xs p q. v = VMap k1 t1 ys \<Longrightarrow> x = VMap k2 t2 xs \<Longrightarrow> p \<in> set ys \<Longrightarrow> q \<in> set xs \<Longrightarrow>
      alike e (snd p) (snd q) \<Longrightarrow> merges (Some (e, snd p)) (Typed e) (snd q) (snd p)"
  shows "merges (Some (TMap k e, v)) (Typed (TMap k e)) x v"
proof -
  obtain ys where ys: "v = VMap k (get_type_id e) ys" using v(1) by (cases v) auto
  obtain xs where xs: "x = VMap k (get_type_id e) xs" using v(2) by (cases x) auto
  note v' = ys xs
  have keys: "map fst ys = map fst xs" and alike: "\<forall>p \<in> set (zip ys xs). alike e (snd (fst p)) (snd (snd p))"
    using v(3) v' by (auto simp: list_all_iff)
  then have len: "length ys = length xs" using map_eq_imp_length_eq by blast
  have sorted: "sorted_wrt key_less (map fst ys)" using v(4) v' by simp
  have "list_all2 (\<lambda>p q. fst q = static_cast k (fst p) \<and>
      (\<exists>y. const_mapped_at (fst q) ys = Inr y \<and> merges (Some (e, y)) (Typed e) (snd p) (snd q))) xs ys"
    unfolding list_all2_conv_all_nth
  proof (intro conjI allI impI)
    fix i assume i: "i < length xs"
    have key: "fst (ys ! i) = fst (xs ! i)" using keys i len by (metis nth_map)
    have "basic_of k (fst (xs ! i))" using v(2) v' i by (auto simp: list_all_iff case_prod_unfold)
    then show "fst (ys ! i) = static_cast k (fst (xs ! i))" using key static_cast_same [of "fst (xs ! i)"] by auto
    have "(ys ! i, xs ! i) \<in> set (zip ys xs)" using i len by (auto simp: set_zip)
    then have "merges (Some (e, snd (ys ! i))) (Typed e) (snd (xs ! i)) (snd (ys ! i))"
      using alike i len v' by (intro IH [of _ _ ys _ _ xs]) auto
    with const_mapped_at_nth [OF sorted, of i] i len
    show "\<exists>y. const_mapped_at (fst (ys ! i)) ys = Inr y \<and> merges (Some (e, y)) (Typed e) (snd (xs ! i)) (snd (ys ! i))" by auto
  qed (simp add: len)
  moreover have "is_basic_tag k" "is_value_type (get_type_id e)" using e(2) get_type_id_value [of e] by auto
  moreover have "\<not> basic_source (Typed e)" using e(1) by (cases e) auto
  ultimately show ?thesis
    using merges.map [of "Typed (TMap k e)" k "Typed e" "Some (TMap k e, v)" k e ys k "get_type_id e" xs ys] v' len struct_element [OF e(1)]
    by (auto simp: is_matching_basic_def)
qed

section \<open>Merging gives the object\<close>

lemma merge_levels_level:
  "merge_fields M ovs ps qs \<Longrightarrow> merge_levels M V L L' \<Longrightarrow> merge_levels M (ovs # V) ((ps, b) # L) ((qs, b) # L')"
  by simp

lemma struct_merges_same:
  assumes s: "schema_ok s" "shaped_struct s y" "shaped_struct s x" "wf_struct True x"
    and L: "merge_levels struct_merger (object_levels s y) (levels True False x) (levels True False y)"
  shows "merges (Some (TStruct s, VStruct y)) (Typed (TStruct s)) (VStruct x) (VStruct y)"
proof (rule merges.struct)
  show "length (object_levels s y) = depth s" using s(2) by (rule object_levels_depth)
  show "\<forall>fds \<in> set (schema_levels s). \<forall>fd \<in> set fds. is_value_type (get_type_id (fd_type fd))"
    using schema_ok_levels [OF s(1)] by blast
  show "\<forall>l \<in> set (levels True False x). \<forall>p \<in> set (fst l). fits (unknown_source (GetTypeId (snd p))) (snd p)"
    using unknown_fits(3) [OF shaped_keys(3) [OF s(1,3)] s(4)] by blast
qed (use L in \<open>simp add: struct_merger_def [abs_def]\<close>)

lemma merges_same:
  "is_struct_type t \<or> is_struct_container t \<Longrightarrow> schema_ok_type t \<Longrightarrow> schema_sorted_type t \<Longrightarrow> shaped t v \<Longrightarrow> shaped t x \<Longrightarrow> exact t v \<Longrightarrow>
     wf_value True x \<Longrightarrow> alike t v x \<Longrightarrow> merges (Some (t, v)) (Typed t) x v"
  "schema_ok_fields fs \<Longrightarrow> schema_sorted_fields fs \<Longrightarrow> shaped_fields fs vs \<Longrightarrow> shaped_fields fs us \<Longrightarrow> exact_fields fs vs \<Longrightarrow>
     wf_fields True us \<Longrightarrow> alike_fields fs vs us \<Longrightarrow> fields_same fs vs us"
  "schema_ok s \<Longrightarrow> schema_sorted s \<Longrightarrow> shaped_struct s y \<Longrightarrow> shaped_struct s z \<Longrightarrow> exact_struct s y \<Longrightarrow> wf_struct True z \<Longrightarrow>
     alike_struct s y z \<Longrightarrow> merge_levels struct_merger V L L' \<Longrightarrow>
     merge_levels struct_merger (object_levels s y @ V) (levels True base z @ L) (levels True base y @ L')"
proof (induction t and fs and s arbitrary: v x and vs us and y z base V L L'
    rule: schema_sorted_type_schema_sorted_fields_schema_sorted.induct)
  case (1 e)
  show ?case
  proof (rule merges_list)
    fix y z assume "y \<in> set (items_of v)" "z \<in> set (items_of x)" "alike e y z"
    moreover obtain ys where "v = VList (get_type_id e) ys" using "1.prems"(4) by (cases v) auto
    moreover obtain xs where "x = VList (get_type_id e) xs" using "1.prems"(5) by (cases x) auto
    ultimately show "merges (Some (e, y)) (Typed e) z y"
      using "1.prems" by (intro "1.IH") (auto simp: list_all_iff wf_items_iff)
  qed (use "1.prems" in auto)
next
  case (2 e)
  show ?case
  proof (rule merges_list)
    fix y z assume "y \<in> set (items_of v)" "z \<in> set (items_of x)" "alike e y z"
    moreover obtain ys where "v = VList (get_type_id e) ys" using "2.prems"(4) by (cases v) auto
    moreover obtain xs where "x = VList (get_type_id e) xs" using "2.prems"(5) by (cases x) auto
    ultimately show "merges (Some (e, y)) (Typed e) z y"
      using "2.prems" by (intro "2.IH") (auto simp: list_all_iff wf_items_iff)
  qed (use "2.prems" in auto)
next
  case (3 k e)
  show ?case
  proof (rule merges_map)
    fix k1 t1 ys k2 t2 xs p q
    assume v: "v = VMap k1 t1 ys" "x = VMap k2 t2 xs" and pq: "p \<in> set ys" "q \<in> set xs" and a: "alike e (snd p) (snd q)"
    have "is_struct_type e \<or> is_struct_container e" "schema_ok_type e" "schema_sorted_type e" using "3.prems" by simp_all
    moreover have "shaped e (snd p)" "shaped e (snd q)" "exact e (snd p)" "wf_value True (snd q)"
      using "3.prems" v pq by (auto simp: list_all_iff wf_pairs_iff)
    ultimately show "merges (Some (e, snd p)) (Typed e) (snd q) (snd p)" using a by (intro "3.IH")
  qed (use "3.prems" in auto)
next
  case (4 s)
  obtain y where y: "v = VStruct y" using "4.prems"(4) by (cases v) auto
  moreover obtain z where "x = VStruct z" using "4.prems"(5) by (cases x) auto
  ultimately have v: "v = VStruct y" "x = VStruct z" by simp_all
  with 4 "4.IH" [of y z "[]" "[]" "[]" False] show ?case by (auto intro: struct_merges_same)
next
  case (7 fid md mb t fs)
  then obtain f vs' g us' where vs: "vs = f # vs'" "us = g # us'" "field_var (FieldDef fid md mb t) f" "field_var (FieldDef fid md mb t) g"
      "shaped_fields fs vs'" "shaped_fields fs us'"
    by (auto simp: shaped_fields_iff list_all2_Cons1)
  have IH: "fields_same fs vs' us'" using 7 vs by auto
  have "struct_merger (FieldDef fid md mb t) f (snd p) (present True f)" if p: "p \<in> set (present True g)" for p
  proof (cases "is_struct_type t \<or> is_struct_container t")
    case True
    with "7.prems"(7) vs(1,2) p have a: "\<not> mb" "present True f \<noteq> []" "alike t (snd (hd (present True f))) (snd p)"
      by (auto simp: list_all_iff)
    with vs(3) obtain v where f: "f = Field fid md v" "shaped t v" "present True f = [(fid, v)]"
      by (cases f) (auto simp: field_var_def split: if_splits)
    from a(1) vs(4) obtain x where g: "g = Field fid md x" "shaped t x" by (cases g) (auto simp: field_var_def)
    with p have "snd p = x" by (auto split: if_splits)
    moreover have "merges (Some (t, v)) (Typed t) x v"
      using "7.prems" vs(1,2) f g a True \<open>snd p = x\<close> by (intro "7.IH"(1)) auto
    ultimately show ?thesis using True f by (auto simp: struct_merger_def merge_var_of_def)
  next
    case False
    then show ?thesis by (simp add: struct_merger_def)
  qed
  with IH vs(1,2) show ?case by (simp add: fields_same_def)
next
  case (8 md fs)
  then obtain vs us where y: "y = Struct md None vs" "z = Struct md None us" "shaped_fields fs vs" "shaped_fields fs us"
    by (cases y; cases z) auto
  have "fields_same fs vs us" using 8 y by auto
  then have "merge_fields struct_merger (zip fs vs) (concat (map (present True) us)) (concat (map (present True) vs))"
    using merge_fields_same [of fs vs us "[]"] schema_sorted_ids "8.prems"(2) y by (simp add: shaped_fields_iff)
  with "8.prems"(8) y show ?case by simp
next
  case (9 md b fs)
  then obtain y0 vs z0 us where y: "y = Struct md (Some y0) vs" "z = Struct md (Some z0) us" "shaped_fields fs vs" "shaped_fields fs us"
      "shaped_struct b y0" "shaped_struct b z0"
    by (cases y; cases z) (auto split: option.splits)
  have "fields_same fs vs us" using 9 y by auto
  then have "merge_fields struct_merger (zip fs vs) (concat (map (present True) us)) (concat (map (present True) vs))"
    using merge_fields_same [of fs vs us "[]"] schema_sorted_ids "9.prems"(2) y by (simp add: shaped_fields_iff)
  with "9.IH"(1) [of y0 z0 "zip fs vs # V" "(concat (map (present True) us), base) # L" "(concat (map (present True) vs), base) # L'" True]
    "9.prems" y show ?case by simp
qed (auto simp: fields_same_def)

text \<open>A payload with more fields than the schema has, the ids of which are above those of the schema\<close>

lemma merges_extended:
  assumes y: "conforms (Schema md b fs) (Struct md y vs)" and x: "shaped_struct (Schema md b fs) (Struct md z us)"
    and alike: "alike_struct (Schema md b fs) (Struct md y vs) (Struct md z us)"
    and wf: "wf_struct True (Struct md' z (us @ es))" "basic_keys_struct (Struct md' z (us @ es))"
    and above: "\<forall>e \<in> set es. \<forall>fd \<in> set fs. fd_id fd < field_id e"
  shows "merges (Some (TStruct (Schema md b fs), VStruct (Struct md y vs))) (Typed (TStruct (Schema md b fs)))
    (VStruct (Struct md' z (us @ es))) (VStruct (Struct md' y (vs @ es)))"
proof (rule merges.struct)
  let ?s = "Schema md b fs" and ?es = "concat (map (present True) es)"
  have s: "schema_ok ?s" "schema_sorted ?s" "shaped_struct ?s (Struct md y vs)" "exact_struct ?s (Struct md y vs)"
    using y by (simp_all add: conforms_def)
  show "length (object_levels ?s (Struct md y vs)) = depth ?s" using s(3) by (rule object_levels_depth)
  show "\<forall>fds \<in> set (schema_levels ?s). \<forall>fd \<in> set fds. is_value_type (get_type_id (fd_type fd))"
    using schema_ok_levels [OF s(1)] by blast
  show "\<forall>l \<in> set (levels True False (Struct md' z (us @ es))). \<forall>p \<in> set (fst l). fits (unknown_source (GetTypeId (snd p))) (snd p)"
    using unknown_fits(3) [OF wf(2,1)] by blast
  have parts: "schema_ok_fields fs" "schema_sorted_fields fs" "shaped_fields fs vs" "shaped_fields fs us" "exact_fields fs vs" "wf_fields True us"
    "alike_fields fs vs us"
    using s x alike wf(1) by (cases b; cases z; auto simp: wf_fields_iff)+
  have "\<forall>q \<in> set ?es. \<forall>fd \<in> set fs. fd_id fd < fst q" using above present_id by fastforce
  with parts have top: "merge_fields struct_merger (zip fs vs) (concat (map (present True) (us @ es))) (concat (map (present True) (vs @ es)))"
    using merge_fields_same [of fs vs us ?es] schema_sorted_ids merges_same(2) [of fs vs us] by (simp add: shaped_fields_iff)
  have "merge_levels struct_merger (object_levels ?s (Struct md y vs)) (levels True False (Struct md' z (us @ es))) (levels True False (Struct md' y (vs @ es)))"
  proof (cases b)
    case None
    with s(3) x top show ?thesis by (cases y; cases z) auto
  next
    case (Some b0)
    with s(3) x obtain y0 z0 where b: "y = Some y0" "z = Some z0" "shaped_struct b0 y0" "shaped_struct b0 z0"
      by (cases y; cases z) auto
    with merges_same(3) [of b0 y0 z0 "[zip fs vs]" "[(concat (map (present True) (us @ es)), False)]"
        "[(concat (map (present True) (vs @ es)), False)]" True] s alike wf(1) top Some
    show ?thesis by simp
  qed
  then show "merge_levels (\<lambda>fd f x rs.
      (is_struct_type (fd_type fd) \<or> is_struct_container (fd_type fd) \<longrightarrow>
         (\<exists>z. rs = [(fd_id fd, z)] \<and> merges (merge_var_of fd f) (Typed (fd_type fd)) x z)) \<and>
      (\<not> (is_struct_type (fd_type fd) \<or> is_struct_container (fd_type fd)) \<longrightarrow> rs = present True f))
    (object_levels ?s (Struct md y vs)) (levels True False (Struct md' z (us @ es))) (levels True False (Struct md' y (vs @ es)))"
    by (simp add: struct_merger_def [abs_def])
qed

lemma merged_object_ok:
  assumes s: "schema_sorted (Schema md b fs)" "shaped_struct (Schema md b fs) (Struct md y vs)" "wf_struct True (Struct md y vs)"
    and x: "wf_struct True (Struct md' z (us @ es))" "ordered_struct (Struct md' z (us @ es))"
    and above: "\<forall>e \<in> set es. \<forall>fd \<in> set fs. fd_id fd < field_id e"
  shows "wf_struct True (Struct md' y (vs @ es))" and "ordered_struct (Struct md' y (vs @ es))"
    and "filter (\<lambda>f. field_id f \<in> fd_id ` set fs) (vs @ es) = vs"
proof -
  have "shaped_fields fs vs" using s(2) by (cases b) auto
  note ids = shaped_field_ids [OF this]
  then have known: "field_id f \<in> fd_id ` set fs" if "f \<in> set vs" for f
    using that by (metis imageI list.set_map)
  show "wf_struct True (Struct md' y (vs @ es))" using s(3) x(1) by (cases y; cases z) (auto simp: wf_fields_iff)
  have "ordered_struct (Struct md y vs)" using shaped_ordered(3) [OF s(1,2)] .
  then show "ordered_struct (Struct md' y (vs @ es))" using x(2) known above by (fastforce simp: sorted_wrt_append)
  have "field_id e \<notin> fd_id ` set fs" if "e \<in> set es" for e using above that by fastforce
  with known show "filter (\<lambda>f. field_id f \<in> fd_id ` set fs) (vs @ es) = vs" by (simp add: filter_id_conv)
qed

end
