(* ===== verification/Spec2Isabelle.thy ===== *)
theory Spec2Isabelle
  imports Pass_Through Static_Skip Compatible_Payload Marshaling Concurrent_Counter Shared_Counter Json_Safety Json_Instance Maybe Random_Reader Merge_Object
begin

text \<open>
  A verification library for the C++ core of Bond: how instances of structs are written to a stream by
  the three binary protocols and by Simple JSON, and how bytes are read back into objects.

  Parts of the program and the theories that model them (paths under \<^verbatim>\<open>src/cpp/inc/bond/\<close>):

  \<^item> Memory. \<open>Checked_Arith\<close> is \<^verbatim>\<open>core/detail/checked.h\<close>; \<open>Blob\<close> is \<^verbatim>\<open>core/blob.h\<close>, a blob being its
    pointers, its length and the bytes it points to.
  \<^item> Streams. \<open>Input_Buffer\<close> is \<^verbatim>\<open>stream/input_buffer.h\<close> (the record \<open>InputBuffer\<close> has the members
    \<open>_blob\<close> and \<open>_pointer\<close>), \<open>Varint\<close> has the three varint readers and writers and the zigzag
    coding of \<^verbatim>\<open>protocol/encoding.h\<close>, \<open>Output_Buffer\<close> is \<^verbatim>\<open>stream/output_buffer.h\<close> with its chain of
    ranges over a heap of buffers, \<open>Output_Counter\<close> is \<^verbatim>\<open>stream/output_counter.h\<close>, and
    \<open>Simple_Array\<close> is \<^verbatim>\<open>protocol/detail/simple_array.h\<close>. \<open>Output_Stream\<close> is the interface \<open>Buffer\<close> of
    a writer; its locale \<open>output_stream\<close> is interpreted on the memory stream and on the counter.
  \<^item> Data. \<open>Bond_Types\<close> has type tags, metadata and instances of structs as trees, \<open>Bond_Schema\<close>
    compile-time schemas with the traits of \<^verbatim>\<open>core/reflection.h\<close>, default construction and the ordered
    containers of \<^verbatim>\<open>core/stl_containers.h\<close>.
  \<^item> Writing. \<open>Serializer\<close> is the transform of \<^verbatim>\<open>core/transforms.h\<close> applied to an instance, together
    with the encoding that a protocol specifies (record \<open>format\<close>, functions \<open>enc_value\<close> to
    \<open>enc_struct\<close>); \<open>Compact_Writer\<close>, \<open>Fast_Binary\<close> and \<open>Simple_Binary\<close> are the writers of
    \<^verbatim>\<open>protocol/compact_binary.h\<close>, \<^verbatim>\<open>fast_binary.h\<close> and \<^verbatim>\<open>simple_binary.h\<close>. Compact Binary 2 runs
    the transform twice, first over the counter to collect the lengths of structs (\<open>cw_Serialize\<close>).
  \<^item> Readers. \<open>Reading\<close> is the calculus of decoding, \<open>Wire_Scalars\<close> what the protocols share,
    \<open>Compact_Reader\<close>, \<open>Fast_Binary\<close> and \<open>Simple_Binary\<close> the members of the readers with skipping,
    \<open>Pass_Through\<close> is \<^verbatim>\<open>core/detail/pass_through.h\<close>.
  \<^item> Deserialization. \<open>Deserializer\<close> models \<^verbatim>\<open>core/value.h\<close>, \<^verbatim>\<open>core/detail/typeid_value.h\<close>,
    \<^verbatim>\<open>core/parser.h\<close>, \<^verbatim>\<open>core/detail/inheritance.h\<close> and the transform \<open>To\<close> of
    \<^verbatim>\<open>core/transforms.h\<close>, over the record \<open>Reader\<close> of the members that the templates call;
    \<open>Readers\<close> has the three readers as instances of it and the skipping by schema of the static
    parser.

  \<^item> Marshaling. \<open>Marshaling\<close> has the transform \<open>Marshaler\<close>, the selection of a protocol from the
    header of a payload or by its magic number (\<^verbatim>\<open>core/select_protocol.h\<close>) and the functions
    \<open>Marshal\<close> and \<open>Unmarshal\<close> of \<^verbatim>\<open>core/bond.h\<close>.
  \<^item> Run-time schemas. \<open>Runtime_Schema\<close> has \<open>SchemaDef\<close>, \<open>RuntimeSchema\<close> and the transform that builds
    the run-time schema of a type (\<^verbatim>\<open>core/schema.h\<close>); \<open>Schema_Validation\<close> is
    \<^verbatim>\<open>core/detail/validate.h\<close> and \<^verbatim>\<open>core/validate.h\<close>.
  \<^item> Transcoding. \<open>Transcoder\<close> is the transform \<open>Serializer\<close> applied to serialized data: both parsers
    and the containers of \<^verbatim>\<open>core/value.h\<close> and \<^verbatim>\<open>core/detail/typeid_value.h\<close> with a transform in
    place of a variable.
  \<^item> Merging. \<open>Merger\<close> is \<^verbatim>\<open>core/merge.h\<close>, the transform that writes a payload again with the values of
    an object, with the parsers and containers that call it.
  \<^item> JSON. \<open>Json_Writer\<close> is \<^verbatim>\<open>protocol/simple_json_writer.h\<close>: the writer over any output stream and the
    transform \<open>Serializer\<close> specialized for it. \<open>Json_Reader\<close> is \<^verbatim>\<open>protocol/simple_json_reader.h\<close> with
    \<^verbatim>\<open>simple_json_reader_impl.h\<close>, the stream adapter and the matching of kinds of
    \<^verbatim>\<open>protocol/detail/rapidjson_helper.h\<close>, and \<open>DOMParser\<close> of \<^verbatim>\<open>core/parser.h\<close>, over the record
    \<open>rapidjson_value\<close> of the members of RapidJSON's values that the code calls. \<open>Json_Text\<close> has the
    grammar of JSON and the text and the tree of an instance.
  \<^item> Extensions. \<open>Counters\<close> has \<^verbatim>\<open>ext/single_threaded_counter.h\<close> and the allocator adapter of
    \<^verbatim>\<open>ext/capped_allocator.h\<close> over the locale \<open>counter\<close>; \<open>Concurrent_Counter\<close> is
    \<^verbatim>\<open>ext/multi_threaded_counter.h\<close> as a step relation on interleavings of threads, \<open>Shared_Counter\<close>
    is \<^verbatim>\<open>ext/shared_counter.h\<close> with its count of references.
  \<^item> User types. \<open>Nullable\<close> is the pointer variant of \<^verbatim>\<open>core/nullable.h\<close> over an explicit heap of blocks (the
    record \<open>nullable\<close> is its allocator and pointer, \<open>nullable_exec\<close> runs one call); \<open>Maybe\<close> is \<^verbatim>\<open>core/maybe.h\<close>
    and the other variant, over the operations of \<^verbatim>\<open>boost::optional\<close> (record \<open>optional_ops\<close>).
    \<open>Random_Reader\<close> is \<^verbatim>\<open>protocol/random_protocol.h\<close>.

  State is passed explicitly: an operation of a writer maps a state to \<open>exn + state\<close>, an operation
  of a reader is a function \<open>(InputBuffer, 'a) st\<close> from a buffer to \<open>exn + 'a \<times> buffer\<close>. Every throw
  is a value of \<open>exn\<close>; undefined behaviour of the code (a shift by the width of the type or more, an
  access outside a buffer) and the exhaustion of fuel are values of \<open>exn\<close> of their own, which the
  safety theorems exclude.

  What the lemmas show:

  \<^item> Streams append exactly the bytes they are given, across the boundaries of buffers and with blobs
    chained or copied, and give them back as one blob or as a list of blobs; varints of the three
    widths, the zigzag coding and the checked arithmetic meet their specifications.
  \<^item> Each writer emits the encoding of its format (locale \<open>protocol_writer\<close> of
    \<open>Serializer\<close>, \<open>compact_pass\<close>); the first pass of Compact Binary 2 collects the lengths the second pass needs.
  \<^item> \<open>Deserialize_Safety\<close> (locale \<open>safe_reader\<close>, interpreted on the three readers): deserialization of
    arbitrary bytes terminates inside the buffer and returns an object of the type of the schema.
  \<^item> \<open>Payload_View\<close> gives the meaning of deserialization on trees: \<open>view_object s x\<close> is the object of
    schema \<open>s\<close> that a payload \<open>x\<close>, of any schema, stands for. \<open>Read_Containers\<close> and \<open>Tagged_Parser\<close>
    (locales \<open>encoded_reader\<close> and \<open>tagged_reader\<close>, interpreted on Compact and Fast Binary) show that
    the parser computes this view from the encoding.
  \<^item> \<open>Roundtrip\<close>: the view of an object in its own schema is the object, hence the round trips of
    Compact and Fast Binary; the locale \<open>untagged_reader\<close> has the round trip of Simple Binary.
  \<^item> \<open>Schema_Evolution\<close>: slicing, added and removed fields, required fields and promotion as facts
    about the view; \<open>Static_Skip\<close>: skipping by schema.
  \<^item> \<open>Runtime_Schema\<close>: the run-time schema represents the compile-time one (\<open>represents\<close>: the partial
    map of completed structs approximates the schema, and grows while the transform runs);
    \<open>Schema_Validation\<close>: validation ends on recursive schemas, because each nested call has one open
    pair of structs less. \<open>Validation_Sound\<close> and \<open>Compatible_Payload\<close>: validation is sound. It
    establishes the relations \<open>compat_type\<close> and \<open>compat_struct\<close> between compile-time schemas, and for
    compatible schemas the view of every payload exists.

  \<^item> \<open>Transcode_Correct\<close> (locales \<open>tagged_writer\<close>, \<open>transcodable_reader\<close> and \<open>transcoder\<close>): the transform
    conveys every payload that fits the schema (\<open>fits\<close>), in particular every payload of the schema and,
    with the schema of an unknown type, every payload at all whose map keys are basic;
    \<open>Transcode_Protocols\<close> interprets them on the readers and writers and adds the two passes.
  \<^item> \<open>Merge_Correct\<close>: the relation \<open>merges\<close> is the merge of a variable and a value of the payload as trees
    (\<open>merge_fields\<close> on one level), and in the locale \<open>transcoder\<close> the transform writes its result.
    \<open>Merge_Object\<close>: for a payload of the same or a newer schema with the containers of the object the
    result exists and is the object with what it does not know.
  \<^item> \<open>Json_Text\<close>: the text prescribed for an instance is a text of the grammar that denotes its tree, and
    wide strings decode to their characters; \<open>Json_Writer_Correct\<close>: the writer produces this text on
    every output stream. What RapidJSON writes for numbers and narrow strings is a parameter that is
    relied on to be JSON (\<open>writes_json\<close>). \<open>Json_Roundtrip\<close>: the DOM parser makes the instance of the
    document of its tree, given that RapidJSON reads what it wrote (\<open>reads_json\<close>) and makes the document
    of a text (\<open>parses_text\<close>); \<open>Json_Safety\<close>: the outcomes of reading an arbitrary document;
    \<open>Json_Instance\<close>: a concrete writer and concrete documents for which the laws hold.
  \<^item> \<open>Counters\<close>: what is charged is what is alive; \<open>Concurrent_Counter\<close>: the invariant of all reachable
    states and a refinement of the single-threaded counter; \<open>Shared_Counter\<close>: references are handles.
  \<^item> \<open>Nullable\<close>: ownership of storage as an invariant of all runs and the refinement of optional values;
    \<open>Maybe\<close>: what moves leave behind; \<open>Random_Reader\<close>: an inverse of the generator and the ranges of what is read.

  Results of deserialization are compared after \<open>erase\<close>, which keeps the content of a blob and
  forgets its address. \<open>conforms s x\<close> says that an object has the shape of its schema, that sets and
  maps are sorted, that ids are below 65535, and that a field which a tagged protocol omits has
  exactly its default value (this excludes -0.0 for the default 0.0, see the section on divergences).

  Bounds: skipping by type runs on fuel \<open>2 * n + 2\<close> for \<open>n\<close> remaining bytes, and the loops of the
  parsers check that each tag consumes input; both are proved never to fail. Transcoding and merging have one unit
  of fuel for each byte that is left, since every level of nesting has a byte of its own; the theorems
  on payloads that fit the schema show that this is enough. Streams are bounded by
  \<open>2 ^ 31\<close> bytes, where the 32-bit sizes of the code stay exact. Recursive schemas are represented by
  their unfolding to the depth of the data, and the recursion of the C++ code is not bounded by a stack.

  Assumptions on the platform: little-endian byte order, \<open>wchar_t\<close> of 32 bits, a build without
  asserts (a failing assertion of the JSON code is the value \<open>AssertionFailed\<close>), an allocator whose addresses do not wrap around (\<open>alloc_ok\<close>) and, for the capped
  allocator, one that refuses what cannot be addressed (\<open>addressable\<close>); loads of the concurrent counter
  may return any earlier value, which is weaker than the orders that the code asks for; the order of floating point
  keys is that of the numbers, and conversion from \<open>float\<close> to \<open>double\<close> is the one of IEEE 754.

  Not modelled: the JSON serializer on serialized data, symbolic values of enumerations in JSON; parsing with run-time schemas, the check of serialized
  schemas for unknown fields; \<open>bonded\<close> fields and the type-erased readers; type aliases
  and custom containers; messages of exceptions; command line arguments, stdio streams, gRPC; the compiler, and the C#, Java and Python code.
\<close>

unbundle bit_operations_syntax

section \<open>Sample data\<close>

text \<open>
  A struct with a base, a nested struct and a container, a stream, a blob and an allocator, on which
  the witnesses apply the theorems.
\<close>

definition sample_inner :: bstruct where
  "sample_inner = Struct Metadata_init None [Field 1 Metadata_init (VUInt32 300)]"

definition sample_struct :: bstruct where
  "sample_struct =
     Struct Metadata_init (Some (Struct Metadata_init None [Field 0 Metadata_init (VBool True)]))
       [Field 6 Metadata_init (VStruct sample_inner),
        Field 300 Metadata_init (VList BT_INT16 [VInt16 1, VInt16 2])]"

definition sample_stream :: OutputMemoryStream where
  "sample_stream = OutputMemoryStream_empty (\<lambda>_. 0)"

definition sample_blob :: "byte list \<Rightarrow> blob" where
  "sample_blob bs =
     \<lparr>blob_buffer = Some 64, blob_content = 64, blob_length = of_nat (length bs), blob_bytes = bs\<rparr>"

definition sample_alloc :: "u32 \<Rightarrow> u64 res" where
  "sample_alloc n = Inr 64"

lemma sample_wf: "wf_struct True sample_struct" "wf_value True (VStruct sample_struct)"
    "wf_struct False sample_struct"
  by (simp_all add: sample_struct_def sample_inner_def)

lemma sample_stream_holds: "os_holds sample_stream []"
  by (simp add: sample_stream_def os_holds_def os_ok_empty)

lemma sample_alloc_ok: "alloc_ok sample_alloc"
  unfolding alloc_ok_def sample_alloc_def
proof
  fix n :: u32
  show "\<exists>a. Inr 64 = (Inr a :: u64 res) \<and> unat a + unat n < 2 ^ 64"
    using unat_u32_bound [of n] by auto
qed

lemma sample_blob_wf: "length bs < 2 ^ 32 \<Longrightarrow> blob_wf (sample_blob bs)"
  by (simp add: sample_blob_def blob_wf_def unat_of_nat_small)

lemma sample_at: "length bs < 2 ^ 32 \<Longrightarrow> ib_at (InputBuffer_of (sample_blob bs)) bs"
  using ib_at_InputBuffer_of [OF sample_blob_wf] by (simp add: sample_blob_def)

lemmas encode_simps = compact_format_simps fast_format_simps simple_format_simps
  compact_struct_def compact_field_def compact_container_def simple_size_def string_length_def
  omit_field_def Metadata_init_def Variant_init_def varint.simps v1_def v2_def
  EncodeZigZag_def em_append_def le_bytes_numeral

lemma sample_compact:
  "fst (enc_struct (compact_format v2) False sample_struct) =
     [17, 0x02, 1, 1, 0xca, 6, 4, 0x25, 0xac, 0x02, 0, 0xeb, 0x2c, 0x01, 0x6f, 2, 4, 0]"
  "snd (enc_struct (compact_format v2) False sample_struct) = [17, 4]"
  by (simp_all add: sample_struct_def sample_inner_def encode_simps)

lemma sample_fast:
  "fst (enc_struct fast_format False sample_struct) =
     [2, 0, 0, 1, 1, 10, 6, 0, 5, 1, 0, 0x2c, 1, 0, 0, 0, 11, 0x2c, 1, 15, 2, 1, 0, 2, 0, 0]"
  by (simp add: sample_struct_def sample_inner_def encode_simps)

lemma sample_simple:
  "fst (enc_struct (simple_format v1) False sample_struct) =
     [1, 0x2c, 1, 0, 0, 2, 0, 0, 0, 1, 0, 2, 0]"
  by (simp add: sample_struct_def sample_inner_def encode_simps)


definition sample_base_schema :: sschema where
  "sample_base_schema = Schema Metadata_init None [FieldDef 0 Metadata_init False (TBasic BT_BOOL)]"

definition sample_inner_schema :: sschema where
  "sample_inner_schema = Schema Metadata_init None [FieldDef 1 Metadata_init False (TBasic BT_UINT32)]"

definition sample_fields :: "fdef list" where
  "sample_fields =
     [FieldDef 6 Metadata_init False (TStruct sample_inner_schema),
      FieldDef 300 Metadata_init False (TList (TBasic BT_INT16))]"

definition sample_schema :: sschema where
  "sample_schema = Schema Metadata_init (Some sample_base_schema) sample_fields"

lemmas sample_schema_simps = conforms_def sample_schema_def sample_fields_def sample_base_schema_def
  sample_inner_schema_def sample_struct_def sample_inner_def Metadata_init_def Variant_init_def
  invalid_field_id_def omit_field_def

lemma sample_conforms: "conforms sample_schema sample_struct"
  by (simp add: sample_schema_simps)

section \<open>From a stream to a reader\<close>

text \<open>What a memory stream holds can be taken as one blob and read from an input buffer.\<close>

lemma stream_to_buffer:
  assumes "os_holds s bs" and "length bs < 2 ^ 31" and "alloc_ok alloc"
  shows "\<exists>b. os_GetBuffer alloc addr s = Inr b \<and> blob_bytes b = bs \<and> ib_at (InputBuffer_of b) bs"
  using os_GetBuffer_content [OF _ assms(3), of s addr] assms(1,2) ib_at_InputBuffer_of
  by (fastforce simp: os_holds_def)

lemma eof_after_all:
  assumes "ib_at ib bs"
  shows "ib_IsEof (ib_adv (length bs) ib)"
  using unat_ib_adv [OF assms, of "length bs"] ib_at_end [OF assms]
  by (simp add: ib_IsEof_def word_unat_eq_iff)

lemma written_then_read:
  assumes "stream_appends os_holds w bs" and "decodes r bs v" and "alloc_ok alloc" and "length bs < 2 ^ 31"
  shows "\<exists>s b ib. w (OutputMemoryStream_empty junk) = Inr s \<and> os_GetBuffer alloc addr s = Inr b \<and>
    r (InputBuffer_of b) = Inr (v, ib) \<and> ib_IsEof ib"
proof -
  have "os_holds (OutputMemoryStream_empty junk) []" by (simp add: os_holds_def os_ok_empty)
  from stream_appendsD [OF assms(1) this] assms(4)
  obtain s where s: "w (OutputMemoryStream_empty junk) = Inr s" "os_holds s bs" by auto
  then obtain b where b: "os_GetBuffer alloc addr s = Inr b" "ib_at (InputBuffer_of b) bs"
    using stream_to_buffer [OF s(2) assms(4,3)] by blast
  with decodesD [OF assms(2), of "InputBuffer_of b" "[]"] s eof_after_all show ?thesis by auto
qed

lemma compact_written:
  assumes "wf_struct True s" and "length (fst (enc_struct (compact_format v) False s)) < 2 ^ 31"
    and "alloc_ok alloc"
  shows "\<exists>w b. cw_Serialize noinit memory_stream s
      (CompactBinaryWriter_init noinit (OutputMemoryStream_empty junk) v) = Inr w \<and>
    os_GetBuffer alloc addr (cw_output w) = Inr b \<and>
    blob_bytes b = fst (enc_struct (compact_format v) False s) \<and>
    ib_at (InputBuffer_of b) (fst (enc_struct (compact_format v) False s))"
proof -
  let ?w = "CompactBinaryWriter_init noinit (OutputMemoryStream_empty junk) v"
  have "os_holds (cw_output ?w) []" by (simp add: CompactBinaryWriter_init_def os_holds_def os_ok_empty)
  then obtain w where w: "cw_Serialize noinit memory_stream s ?w = Inr w"
      "os_holds (cw_output w) (fst (enc_struct (compact_format v) False s))"
    using plain.cw_Serialize_encodes [OF assms(1), of ?w "[]" v] assms(2)
    by (auto simp: CompactBinaryWriter_init_def)
  with stream_to_buffer [OF w(2) assms(2,3)] show ?thesis by blast
qed

lemma stream_written:
  assumes "stream_appends os_holds w bs" and "alloc_ok alloc" and "length bs < 2 ^ 31"
  shows "\<exists>s b. w (OutputMemoryStream_empty junk) = Inr s \<and> os_GetBuffer alloc addr s = Inr b \<and>
    ib_at (InputBuffer_of b) bs"
proof -
  have "os_holds (OutputMemoryStream_empty junk) []" by (simp add: os_holds_def os_ok_empty)
  from stream_appendsD [OF assms(1) this] assms(3)
  obtain s where s: "w (OutputMemoryStream_empty junk) = Inr s" "os_holds s bs" by auto
  with stream_to_buffer [OF s(2) assms(3,2)] show ?thesis by blast
qed

lemma read_to_end:
  assumes "yields E m bs (Inr v)" and "ib_at ib bs"
  shows "\<exists>y ib'. m ib = Inr (y, ib') \<and> E y = v \<and> ib_IsEof ib'"
  using yields_Inr [OF assms(1), of ib "[]"] assms(2) eof_after_all [OF assms(2)] by auto

section \<open>Compact Binary\<close>

text \<open>
  Serializing a well-formed struct with the compact binary writer (version 1, or version 2 with
  its double pass) to a fresh memory stream succeeds; the buffer of the stream holds exactly the
  specified encoding of the struct; and the compact binary reader, asked to skip a struct at the
  start of that buffer, ends exactly at the end of it.
\<close>

theorem compact_serialize_skip:
  assumes "wf_struct True s" and "length (fst (enc_struct (compact_format v) False s)) < 2 ^ 31"
    and "alloc_ok alloc"
  shows "\<exists>w b ib.
    cw_Serialize noinit memory_stream s
      (CompactBinaryWriter_init noinit (OutputMemoryStream_empty junk) v) = Inr w \<and>
    os_GetBuffer alloc addr (cw_output w) = Inr b \<and>
    blob_bytes b = fst (enc_struct (compact_format v) False s) \<and>
    cr_SkipType v BT_STRUCT (InputBuffer_of b) = Inr ((), ib) \<and> ib_IsEof ib"
proof -
  from compact_written [OF assms, of noinit junk addr] obtain w b where
      w: "cw_Serialize noinit memory_stream s (CompactBinaryWriter_init noinit (OutputMemoryStream_empty junk) v) = Inr w"
      and b: "os_GetBuffer alloc addr (cw_output w) = Inr b"
      "blob_bytes b = fst (enc_struct (compact_format v) False s)"
      "ib_at (InputBuffer_of b) (fst (enc_struct (compact_format v) False s))"
    by blast
  then have "cr_SkipType v BT_STRUCT (InputBuffer_of b) =
      Inr ((), ib_adv (length (fst (enc_struct (compact_format v) False s))) (InputBuffer_of b))"
    using cr_SkipType_encoded [of "VStruct s" "InputBuffer_of b" v "[]"] assms(1) by simp
  with w b eof_after_all [OF b(3)] show ?thesis by blast
qed

theorem compact_serialize_skip_witness:
  "\<exists>w b ib.
    cw_Serialize (\<lambda>_. 0) memory_stream sample_struct
      (CompactBinaryWriter_init (\<lambda>_. 0) (OutputMemoryStream_empty (\<lambda>_. 0)) v2) = Inr w \<and>
    os_GetBuffer sample_alloc (\<lambda>_. 64) (cw_output w) = Inr b \<and>
    blob_bytes b = [17, 0x02, 1, 1, 0xca, 6, 4, 0x25, 0xac, 0x02, 0, 0xeb, 0x2c, 0x01, 0x6f, 2, 4, 0] \<and>
    cr_SkipType v2 BT_STRUCT (InputBuffer_of b) = Inr ((), ib) \<and> ib_IsEof ib"
  using compact_serialize_skip [OF sample_wf(1) _ sample_alloc_ok, of v2] by (simp add: sample_compact)

text \<open>
  On a memory stream in any state, serializing a struct with the compact binary writer appends
  the encoding to what the stream already holds and leaves the writer ready for the next struct: the
  pointer to the lengths of the first pass is null again and the version is unchanged.
\<close>

theorem compact_serialize_appends:
  assumes "wf_struct True s" and "os_holds (cw_output w) c" and "cw_it w = None"
    and "length c + length (fst (enc_struct (compact_format (cw_version w)) False s)) < 2 ^ 31"
  shows "\<exists>w'. cw_Serialize noinit memory_stream s w = Inr w' \<and>
    os_holds (cw_output w') (c @ fst (enc_struct (compact_format (cw_version w)) False s)) \<and>
    cw_it w' = None \<and> cw_version w' = cw_version w"
  using plain.cw_Serialize_encodes [OF assms(1-3) refl assms(4)] .

theorem compact_serialize_appends_witness:
  "\<exists>w'. cw_Serialize (\<lambda>_. 0) memory_stream sample_struct
      (CompactBinaryWriter_init (\<lambda>_. 0) sample_stream v2) = Inr w' \<and>
    os_holds (cw_output w') [17, 0x02, 1, 1, 0xca, 6, 4, 0x25, 0xac, 0x02, 0, 0xeb, 0x2c, 0x01, 0x6f, 2, 4, 0] \<and>
    cw_it w' = None \<and> cw_version w' = v2"
  using compact_serialize_appends [OF sample_wf(1), of "CompactBinaryWriter_init (\<lambda>_. 0) sample_stream v2" "[]" "\<lambda>_. 0"]
    sample_stream_holds
  by (simp add: CompactBinaryWriter_init_def sample_compact)

text \<open>
  C13. The first pass of the version 2 writer: run over the counting stream it records, in the order
  in which structs begin, exactly the lengths of the struct bodies of the encoding, and its counter
  is the number of bytes of the whole encoding.
\<close>

theorem compact_pass0_lengths:
  assumes "wf_struct True s" and "length (fst (enc_struct (compact_format v2) False s)) < 2 ^ 31"
  shows "\<exists>w junk. Serializer_Apply (compact_writer counter_stream) False s
      (CompactBinaryWriter_init noinit OutputCounter_init v2) = Inr w \<and>
    sa_data (cw_lengths w) = snd (enc_struct (compact_format v2) False s) @ junk \<and>
    unat (oc_GetCount (cw_output w)) = length (fst (enc_struct (compact_format v2) False s))"
  using pass0_Apply [OF assms] .

theorem compact_pass0_lengths_witness:
  "\<exists>w junk. Serializer_Apply (compact_writer counter_stream) False sample_struct
      (CompactBinaryWriter_init (\<lambda>_. 0) OutputCounter_init v2) = Inr w \<and>
    sa_data (cw_lengths w) = [17, 4] @ junk \<and> unat (oc_GetCount (cw_output w)) = 18"
  using compact_pass0_lengths [OF sample_wf(1), of "\<lambda>_. 0"] by (auto simp: sample_compact)

text \<open>
  Skipping a value by its type, in either version of the protocol: wherever the encoding of a
  well-formed value stands in a buffer, \<open>Skip\<close> moves exactly past it.
\<close>

theorem compact_skip_encoded:
  assumes "wf_value True x" and "ib_at ib (fst (enc_value (compact_format v) x) @ rest)"
  shows "cr_SkipType v (GetTypeId x) ib =
    Inr ((), ib_adv (length (fst (enc_value (compact_format v) x))) ib)"
  using cr_SkipType_encoded [OF assms] .

theorem compact_skip_encoded_witness:
  "cr_SkipType v2 BT_STRUCT (InputBuffer_of (sample_blob
      (fst (enc_struct (compact_format v2) False sample_struct) @ [7, 7]))) =
   Inr ((), ib_adv (length (fst (enc_struct (compact_format v2) False sample_struct)))
      (InputBuffer_of (sample_blob (fst (enc_struct (compact_format v2) False sample_struct) @ [7, 7]))))"
  using compact_skip_encoded [OF sample_wf(2), of _ v2 "[7, 7]"] sample_at by (simp add: sample_compact)

text \<open>
  C21. Skipping on arbitrary input, hostile or truncated, in any version: the recursion ends (the fuel
  of the model, twice the number of remaining bytes plus two, is never exhausted) and the outcome is
  either a position inside the buffer not before the current one or one of the library's
  exceptions; no undefined shift and no access outside the buffer happens.
\<close>

theorem compact_skip_safe:
  assumes "ib_ok ib"
  shows "(\<exists>e. cr_SkipType v t ib = Inl e \<and> documented e) \<or>
    (\<exists>k. cr_SkipType v t ib = Inr ((), ib_adv k ib) \<and> k \<le> length (ib_rest ib))"
  by (rule reads_safelyE [OF cr_SkipType_safe assms order_refl]) auto

theorem compact_skip_safe_witness:
  "(\<exists>e. cr_SkipType v1 BT_LIST (InputBuffer_of (sample_blob [11, 0xff])) = Inl e \<and> documented e) \<or>
   (\<exists>k. cr_SkipType v1 BT_LIST (InputBuffer_of (sample_blob [11, 0xff])) =
      Inr ((), ib_adv k (InputBuffer_of (sample_blob [11, 0xff]))) \<and>
      k \<le> length (ib_rest (InputBuffer_of (sample_blob [11, 0xff]))))"
  by (rule compact_skip_safe, rule ib_at_ok, rule sample_at) simp

text \<open>
  A basic value written by the compact binary writer and read back by the reader is the same
  value, and the reader stops at the end of what was written.
\<close>

theorem compact_basic_roundtrip:
  assumes "is_basic x" and "wf_value True x" and "length (compact_basic x) < 2 ^ 31" and "alloc_ok alloc"
  shows "\<exists>w b ib.
    cw_Write memory_stream x (CompactBinaryWriter_init noinit (OutputMemoryStream_empty junk) v1) = Inr w \<and>
    os_GetBuffer alloc addr (cw_output w) = Inr b \<and>
    cr_Read (GetTypeId x) (InputBuffer_of b) = Inr (x, ib) \<and> ib_IsEof ib"
proof -
  let ?w = "CompactBinaryWriter_init noinit (OutputMemoryStream_empty junk) v1"
  have "emits_pass1 os_holds v1 (cw_Write memory_stream x) (compact_basic x, [])"
    using assms(1,2) by (rule plain.pass1.write_law)
  from emits_pass1D [OF this, of ?w "[]"] assms(3)
  obtain w where w: "cw_Write memory_stream x ?w = Inr w" "os_holds (cw_output w) (compact_basic x)"
    by (auto simp: CompactBinaryWriter_init_def os_holds_def os_ok_empty v1_def v2_def)
  then obtain b where b: "os_GetBuffer alloc addr (cw_output w) = Inr b"
      "ib_at (InputBuffer_of b) (compact_basic x)"
    using stream_to_buffer [OF w(2) assms(3,4)] by blast
  with w decodesD [OF decodes_cr_Read [OF assms(1,2)], of "InputBuffer_of b" "[]"] eof_after_all
  show ?thesis by auto
qed

theorem compact_basic_roundtrip_witness:
  "\<exists>w b ib.
    cw_Write memory_stream (VInt32 (- 3))
      (CompactBinaryWriter_init (\<lambda>_. 0) (OutputMemoryStream_empty (\<lambda>_. 0)) v1) = Inr w \<and>
    os_GetBuffer sample_alloc (\<lambda>_. 64) (cw_output w) = Inr b \<and>
    cr_Read BT_INT32 (InputBuffer_of b) = Inr (VInt32 (- 3), ib) \<and> ib_IsEof ib"
  using compact_basic_roundtrip [of "VInt32 (- 3)", OF _ _ _ sample_alloc_ok] by (simp add: encode_simps)

section \<open>Fast Binary\<close>

text \<open>
  Serializing a well-formed struct with the fast binary writer to a memory stream appends its
  encoding to what the stream holds.
\<close>

theorem fast_serialize:
  assumes "wf_struct True s" and "os_holds out c"
    and "length c + length (fst (enc_struct fast_format base s)) < 2 ^ 31"
  shows "\<exists>out'. Serializer_Apply (fast_writer memory_stream) base s out = Inr out' \<and>
    os_holds out' (c @ fst (enc_struct fast_format base s))"
  using mem.fast.emits_Serializer_Apply [of s base] assms stream_appendsD
  by (auto simp: fast_writer_def)

theorem fast_serialize_witness:
  "\<exists>out'. Serializer_Apply (fast_writer memory_stream) False sample_struct sample_stream = Inr out' \<and>
    os_holds out' [2, 0, 0, 1, 1, 10, 6, 0, 5, 1, 0, 0x2c, 1, 0, 0, 0, 11, 0x2c, 1, 15, 2, 1, 0, 2, 0, 0]"
  using fast_serialize [OF sample_wf(1) sample_stream_holds, of False] by (simp add: sample_fast)

text \<open>
  Skipping a value by its type in fast binary moves exactly past its encoding, bases of structs
  included.
\<close>

theorem fast_skip_encoded:
  assumes "wf_value True x" and "ib_at ib (fst (enc_value fast_format x) @ rest)"
  shows "fb_SkipType (GetTypeId x) ib = Inr ((), ib_adv (length (fst (enc_value fast_format x))) ib)"
  using fb_SkipType_encoded [OF assms] .

theorem fast_skip_encoded_witness:
  "fb_SkipType BT_STRUCT (InputBuffer_of (sample_blob (fst (enc_struct fast_format False sample_struct) @ [9]))) =
   Inr ((), ib_adv (length (fst (enc_struct fast_format False sample_struct)))
     (InputBuffer_of (sample_blob (fst (enc_struct fast_format False sample_struct) @ [9]))))"
  using fast_skip_encoded [OF sample_wf(2), of _ "[9]"] sample_at by (simp add: sample_fast)

text \<open>
  Skipping on arbitrary input in fast binary terminates, stays inside the buffer and throws only
  exceptions of the library.
\<close>

theorem fast_skip_safe:
  assumes "ib_ok ib"
  shows "(\<exists>e. fb_SkipType t ib = Inl e \<and> documented e) \<or>
    (\<exists>k. fb_SkipType t ib = Inr ((), ib_adv k ib) \<and> k \<le> length (ib_rest ib))"
  by (rule reads_safelyE [OF fb_SkipType_safe assms order_refl]) auto

theorem fast_skip_safe_witness:
  "(\<exists>e. fb_SkipType BT_STRUCT (InputBuffer_of (sample_blob [13, 1, 0, 2, 2, 0xff])) = Inl e \<and> documented e) \<or>
   (\<exists>k. fb_SkipType BT_STRUCT (InputBuffer_of (sample_blob [13, 1, 0, 2, 2, 0xff])) =
      Inr ((), ib_adv k (InputBuffer_of (sample_blob [13, 1, 0, 2, 2, 0xff]))) \<and>
      k \<le> length (ib_rest (InputBuffer_of (sample_blob [13, 1, 0, 2, 2, 0xff]))))"
  by (rule fast_skip_safe, rule ib_at_ok, rule sample_at) simp

text \<open>
  A basic value written by the fast binary writer to a fresh stream and read back from the
  stream's buffer is the same value.
\<close>

theorem fast_basic_roundtrip:
  assumes "is_basic x" and "wf_value True x" and "length (fast_basic x) < 2 ^ 31" and "alloc_ok alloc"
  shows "\<exists>s b ib. fb_Write memory_stream x (OutputMemoryStream_empty junk) = Inr s \<and>
    os_GetBuffer alloc addr s = Inr b \<and> fb_Read (GetTypeId x) (InputBuffer_of b) = Inr (x, ib) \<and> ib_IsEof ib"
  using written_then_read [OF mem.fb_Write_appends [OF assms(1,2)] decodes_fb_Read [OF assms(1,2)] assms(4,3)] .

theorem fast_basic_roundtrip_witness:
  "\<exists>s b ib. fb_Write memory_stream (VWString [0x416, 0x20ac]) (OutputMemoryStream_empty (\<lambda>_. 0)) = Inr s \<and>
    os_GetBuffer sample_alloc (\<lambda>_. 64) s = Inr b \<and>
    fb_Read BT_WSTRING (InputBuffer_of b) = Inr (VWString [0x416, 0x20ac], ib) \<and> ib_IsEof ib"
  using fast_basic_roundtrip [of "VWString [0x416, 0x20ac]", OF _ _ _ sample_alloc_ok]
  by (simp add: encode_simps wstring_bytes_def)

section \<open>Simple Binary\<close>

text \<open>
  Serializing a well-formed struct with the simple binary writer, in either version, appends its
  encoding. The protocol omits no field, so a field of type \<open>maybe\<close> must have a value.
\<close>

theorem simple_serialize:
  assumes "wf_struct False s" and "os_holds out c"
    and "length c + length (fst (enc_struct (simple_format v) base s)) < 2 ^ 31"
  shows "\<exists>out'. Serializer_Apply (simple_writer memory_stream v) base s out = Inr out' \<and>
    os_holds out' (c @ fst (enc_struct (simple_format v) base s))"
  using mem.simple.emits_Serializer_Apply [of v s base] assms stream_appendsD
  by (auto simp: simple_writer_def)

theorem simple_serialize_witness:
  "\<exists>out'. Serializer_Apply (simple_writer memory_stream v1) False sample_struct sample_stream = Inr out' \<and>
    os_holds out' [1, 0x2c, 1, 0, 0, 2, 0, 0, 0, 1, 0, 2, 0]"
  using simple_serialize [OF sample_wf(3) sample_stream_holds, of v1 False] by (simp add: sample_simple)

text \<open>
  A basic value written by the simple binary writer and read back, in the same version, is the
  same value; skipping it ends at the same position.
\<close>

theorem simple_basic_roundtrip:
  assumes "is_basic x" and "wf_value True x" and "length (simple_basic v x) < 2 ^ 31" and "alloc_ok alloc"
  shows "\<exists>s b ib. sb_Write memory_stream v x (OutputMemoryStream_empty junk) = Inr s \<and>
    os_GetBuffer alloc addr s = Inr b \<and> sr_Read v (GetTypeId x) (InputBuffer_of b) = Inr (x, ib) \<and>
    sr_Skip v (GetTypeId x) (InputBuffer_of b) = Inr ((), ib) \<and> ib_IsEof ib"
proof -
  have "decodes (\<lambda>ib. res_bind (sr_Read v (GetTypeId x) ib) (\<lambda>(y, i).
      res_bind (sr_Skip v (GetTypeId x) ib) (\<lambda>(_, j). if i = j then Inr (y, i) else Inl OutOfBounds)))
      (simple_basic v x) x"
    using decodesD [OF decodes_sr_Read [OF assms(1,2)]] decodesD [OF decodes_sr_Skip [OF assms(1,2)]]
    by (intro decodesI) simp
  from written_then_read [OF mem.sb_Write_appends [OF assms(1,2)] this assms(4,3)]
  show ?thesis by (fastforce simp: res_bind_Inr_iff split: if_splits prod.splits)
qed

theorem simple_basic_roundtrip_witness:
  "\<exists>s b ib. sb_Write memory_stream v1 (VString [104, 105]) (OutputMemoryStream_empty (\<lambda>_. 0)) = Inr s \<and>
    os_GetBuffer sample_alloc (\<lambda>_. 64) s = Inr b \<and>
    sr_Read v1 BT_STRING (InputBuffer_of b) = Inr (VString [104, 105], ib) \<and>
    sr_Skip v1 BT_STRING (InputBuffer_of b) = Inr ((), ib) \<and> ib_IsEof ib"
  using simple_basic_roundtrip [of "VString [104, 105]" v1, OF _ _ _ sample_alloc_ok]
  by (simp add: encode_simps)

text \<open>
  A field that a transcoder reports as omitted is written by the simple binary writer as the
  default value of its metadata, so that a reader of the untagged payload gets that value.
\<close>

theorem simple_omitted_default:
  assumes "VariantGet (md_default_value md) t = Some x" and "wf_value True x"
    and "os_holds out c" and "length c + length (simple_basic v x) < 2 ^ 31"
  shows "\<exists>out'. sb_WriteFieldOmitted memory_stream v t fid md out = Inr out' \<and>
    os_holds out' (c @ simple_basic v x) \<and> decodes (sr_Read v t) (simple_basic v x) x"
proof -
  have x: "GetTypeId x = t" "is_basic x" using VariantGet_type [OF assms(1)] by auto
  from stream_appendsD [OF mem.sb_Write_appends [OF x(2) assms(2)] assms(3,4)]
  show ?thesis
    using decodes_sr_Read [OF x(2) assms(2)] x(1)
    by (simp add: sb_WriteFieldOmitted_default [OF assms(1)])
qed

theorem simple_omitted_default_witness:
  "\<exists>out'. sb_WriteFieldOmitted memory_stream v1 BT_UINT16 3
      (Metadata_init\<lparr>md_default_value := Variant_init\<lparr>uint_value := 200\<rparr>\<rparr>) sample_stream = Inr out' \<and>
    os_holds out' [200, 0] \<and> decodes (sr_Read v1 BT_UINT16) [200, 0] (VUInt16 200)"
  using simple_omitted_default [of "Metadata_init\<lparr>md_default_value := Variant_init\<lparr>uint_value := 200\<rparr>\<rparr>"
      BT_UINT16 "VUInt16 200", OF _ _ sample_stream_holds]
  by (simp add: encode_simps)

section \<open>Deserialization: round trips\<close>

text \<open>
  C1. The round trip of Compact Binary, in both versions: an object that conforms to its schema,
  serialized to a fresh memory stream and deserialized from the stream's buffer with the same schema,
  is the object again (blobs compared by content), and the whole buffer is consumed.
\<close>

theorem compact_roundtrip:
  assumes "conforms s x" and "wf_struct True x"
    and "length (fst (enc_struct (compact_format v) False x)) < 2 ^ 31" and "alloc_ok alloc"
  shows "\<exists>w b y ib.
    cw_Serialize noinit memory_stream x
      (CompactBinaryWriter_init noinit (OutputMemoryStream_empty junk) v) = Inr w \<and>
    os_GetBuffer alloc addr (cw_output w) = Inr b \<and>
    Deserialize (compact_reader v) s (InputBuffer_of b) = Inr (y, ib) \<and>
    erase_struct y = erase_struct x \<and> ib_IsEof ib"
  using compact_written [OF assms(2-4), of noinit junk addr]
    read_to_end [OF compact.Deserialize_roundtrip [OF assms(1,2)]] by blast

theorem compact_roundtrip_witness:
  "\<exists>w b y ib.
    cw_Serialize (\<lambda>_. 0) memory_stream sample_struct
      (CompactBinaryWriter_init (\<lambda>_. 0) (OutputMemoryStream_empty (\<lambda>_. 0)) v2) = Inr w \<and>
    os_GetBuffer sample_alloc (\<lambda>_. 64) (cw_output w) = Inr b \<and>
    Deserialize (compact_reader v2) sample_schema (InputBuffer_of b) = Inr (y, ib) \<and>
    erase_struct y = erase_struct sample_struct \<and> ib_IsEof ib"
  using compact_roundtrip [OF sample_conforms sample_wf(1) _ sample_alloc_ok, of v2] by (simp add: sample_compact)

text \<open>
  C2. The round trip of Fast Binary: an object that conforms to its schema, serialized to a fresh
  memory stream and deserialized from the stream's buffer by the dynamic parser, is the object again.
\<close>

theorem fast_roundtrip:
  assumes "conforms s x" and "wf_struct True x"
    and "length (fst (enc_struct fast_format False x)) < 2 ^ 31" and "alloc_ok alloc"
  shows "\<exists>out b y ib.
    Serializer_Apply (fast_writer memory_stream) False x (OutputMemoryStream_empty junk) = Inr out \<and>
    os_GetBuffer alloc addr out = Inr b \<and>
    Deserialize fast_reader s (InputBuffer_of b) = Inr (y, ib) \<and>
    erase_struct y = erase_struct x \<and> ib_IsEof ib"
proof -
  have "stream_appends os_holds (Serializer_Apply (fast_writer memory_stream) False x)
      (fst (enc_struct fast_format False x))"
    using mem.fast.emits_Serializer_Apply [of x False] assms(2) by (simp add: fast_writer_def)
  from stream_written [OF this assms(4,3), of junk addr]
    read_to_end [OF fast.Deserialize_roundtrip [OF assms(1,2)]] show ?thesis by blast
qed

theorem fast_roundtrip_witness:
  "\<exists>out b y ib.
    Serializer_Apply (fast_writer memory_stream) False sample_struct (OutputMemoryStream_empty (\<lambda>_. 0)) = Inr out \<and>
    os_GetBuffer sample_alloc (\<lambda>_. 64) out = Inr b \<and>
    Deserialize fast_reader sample_schema (InputBuffer_of b) = Inr (y, ib) \<and>
    erase_struct y = erase_struct sample_struct \<and> ib_IsEof ib"
  using fast_roundtrip [OF sample_conforms sample_wf(1) _ sample_alloc_ok] by (simp add: sample_fast)

text \<open>
  C3. The round trip of Simple Binary, in both versions, with the static parser. The protocol omits
  no field, so every \<open>maybe\<close> field has a value.
\<close>

theorem simple_roundtrip:
  assumes "conforms s x" and "wf_struct False x"
    and "length (fst (enc_struct (simple_format v) False x)) < 2 ^ 31" and "alloc_ok alloc"
  shows "\<exists>out b y ib.
    Serializer_Apply (simple_writer memory_stream v) False x (OutputMemoryStream_empty junk) = Inr out \<and>
    os_GetBuffer alloc addr out = Inr b \<and>
    Deserialize (simple_reader v) s (InputBuffer_of b) = Inr (y, ib) \<and>
    erase_struct y = erase_struct x \<and> ib_IsEof ib"
proof -
  have "stream_appends os_holds (Serializer_Apply (simple_writer memory_stream v) False x)
      (fst (enc_struct (simple_format v) False x))"
    using mem.simple.emits_Serializer_Apply [of v x False] assms(2) by (simp add: simple_writer_def)
  from stream_written [OF this assms(4,3), of junk addr]
    read_to_end [OF simple.static_Deserialize_roundtrip [OF assms(1,2)]] show ?thesis by blast
qed

theorem simple_roundtrip_witness:
  "\<exists>out b y ib.
    Serializer_Apply (simple_writer memory_stream v1) False sample_struct (OutputMemoryStream_empty (\<lambda>_. 0)) = Inr out \<and>
    os_GetBuffer sample_alloc (\<lambda>_. 64) out = Inr b \<and>
    Deserialize (simple_reader v1) sample_schema (InputBuffer_of b) = Inr (y, ib) \<and>
    erase_struct y = erase_struct sample_struct \<and> ib_IsEof ib"
  using simple_roundtrip [OF sample_conforms sample_wf(3) _ sample_alloc_ok, of v1] by (simp add: sample_simple)

section \<open>Deserialization: arbitrary input\<close>

definition binary_reader :: "Reader \<Rightarrow> bool" where
  "binary_reader R \<longleftrightarrow> (\<exists>v. R = compact_reader v) \<or> R = fast_reader \<or> (\<exists>v. R = simple_reader v)"

lemma binary_Deserialize:
  assumes "binary_reader R" and "schema_ok s" and "ib_ok ib"
  shows "outcome 0 (shaped_struct s) ib (Deserialize R s ib)"
  using assms(1)
  by (auto simp: binary_reader_def intro!: runsD [OF _ assms(3)] compact.Deserialize_runs [OF assms(2)]
      fast.Deserialize_runs [OF assms(2)] simple.Deserialize_runs [OF assms(2)])

text \<open>
  C5. Deserialization of arbitrary bytes, hostile or truncated, into any schema with any of the three
  binary protocols terminates: no loop of the parsers runs without consuming input, no shift is
  undefined and no byte outside the buffer is accessed. The outcome is an exception of the library
  (or the load of a \<open>bool\<close> from a byte that is neither 0 nor 1) or a position inside the buffer.
\<close>

theorem deserialize_terminates:
  assumes "binary_reader R" and "schema_ok s" and "ib_ok ib"
  shows "(\<exists>e. Deserialize R s ib = Inl e \<and> e \<notin> {UndefinedShift, OutOfBounds, OutOfFuel}) \<or>
    (\<exists>y k. Deserialize R s ib = Inr (y, ib_adv k ib) \<and> k \<le> length (ib_rest ib))"
  using binary_Deserialize [OF assms] by (cases rule: outcomeE) (auto simp: defined_exn_def)

theorem deserialize_terminates_witness:
  "(\<exists>e. Deserialize (compact_reader v1) sample_schema (InputBuffer_of (sample_blob [0x2b, 0xff])) = Inl e \<and>
      e \<notin> {UndefinedShift, OutOfBounds, OutOfFuel}) \<or>
   (\<exists>y k. Deserialize (compact_reader v1) sample_schema (InputBuffer_of (sample_blob [0x2b, 0xff])) =
      Inr (y, ib_adv k (InputBuffer_of (sample_blob [0x2b, 0xff]))) \<and>
      k \<le> length (ib_rest (InputBuffer_of (sample_blob [0x2b, 0xff]))))"
proof (rule deserialize_terminates)
  show "binary_reader (compact_reader v1)" by (auto simp: binary_reader_def)
  show "schema_ok sample_schema" using sample_conforms by (simp add: conforms_def)
  show "ib_ok (InputBuffer_of (sample_blob [0x2b, 0xff]))" by (rule ib_at_ok, rule sample_at) simp
qed

text \<open>
  C6. Whatever the bytes are, an object that deserialization returns has the type its schema says:
  every variable holds a value of the declared type, every list, set and map elements of the declared
  element type, a nullable at most one, and the base is there. So no payload can put a value of a wrong
  type into an object.
\<close>

theorem deserialize_typed:
  assumes "binary_reader R" and "schema_ok s" and "ib_ok ib" and "Deserialize R s ib = Inr (y, ib')"
  shows "shaped_struct s y"
  using binary_Deserialize [OF assms(1-3)] assms(4) by (auto simp: outcome_def)

theorem deserialize_typed_witness:
  "\<exists>y ib'. Deserialize fast_reader sample_inner_schema (InputBuffer_of (sample_blob [3, 1, 0, 7, 0])) = Inr (y, ib') \<and>
     shaped_struct sample_inner_schema y"
proof -
  let ?x = "Struct Metadata_init None [Field 1 Metadata_init (VUInt8 7)]"
    and ?ib = "InputBuffer_of (sample_blob [3, 1, 0, 7, 0])"
  have enc: "fst (enc_struct fast_format False ?x) = [3, 1, 0, 7, 0]" by (simp add: encode_simps)
  have "yields erase_struct (Deserialize fast_reader sample_inner_schema) (fst (enc_struct fast_format False ?x))
      (view_object sample_inner_schema ?x)"
    by (rule fast.Deserialize_view) (simp_all add: sample_inner_schema_def)
  moreover have "view_object sample_inner_schema ?x =
      Inr (Struct Metadata_init None [Field 1 Metadata_init (VUInt32 7)])"
    unfolding sample_inner_schema_def
    by (subst view_widened) (simp_all add: is_matching_basic_def is_unsigned_tag_def omit_field_def
        Metadata_init_def Variant_init_def invalid_field_id_def)
  ultimately have "yields erase_struct (Deserialize fast_reader sample_inner_schema) [3, 1, 0, 7, 0]
      (Inr (Struct Metadata_init None [Field 1 Metadata_init (VUInt32 7)]))"
    using enc by simp
  from read_to_end [OF this, of ?ib] obtain y ib' where
      y: "Deserialize fast_reader sample_inner_schema ?ib = Inr (y, ib')"
    using sample_at [of "[3, 1, 0, 7, 0]"] by auto
  have "shaped_struct sample_inner_schema y"
  proof (rule deserialize_typed [OF _ _ _ y])
    show "binary_reader fast_reader" by (simp add: binary_reader_def)
    show "schema_ok sample_inner_schema" by (simp add: sample_inner_schema_def)
    show "ib_ok ?ib" by (rule ib_at_ok, rule sample_at) simp
  qed
  with y show ?thesis by blast
qed

section \<open>Deserialization: payloads of another schema\<close>

lemma tagged_read:
  assumes "tagged_protocol R F" "schema_ok s" "schema_sorted s" "wf_struct True x" "ordered_struct x"
    and "ib_at ib (fst (enc_struct F False x) @ rest)" and "view_object s x = Inr z"
  shows "\<exists>y. Deserialize R s ib = Inr (y, ib_adv (length (fst (enc_struct F False x))) ib) \<and> erase_struct y = z"
  using tagged_Deserialize_view [OF assms(1-5)] yields_Inr assms(6,7) by fastforce

text \<open>
  C4. The parser of the tagged protocols refines a declarative view of the payload: for every
  well-formed struct, whatever its schema, and every schema of the reader, deserializing the encoding
  of the struct gives what \<open>view_object\<close> computes on the trees (matching fields are taken over, numbers
  promoted, unknown fields and derived levels ignored, required fields checked), errors included, and
  the reader ends exactly behind the encoding.
\<close>

theorem deserialize_view:
  assumes "tagged_protocol R F" and "schema_ok s" "schema_sorted s"
    and "wf_struct True x" "ordered_struct x" and "ib_at ib (fst (enc_struct F False x) @ rest)"
  shows "case view_object s x of
      Inl e \<Rightarrow> Deserialize R s ib = Inl e
    | Inr z \<Rightarrow> \<exists>y. Deserialize R s ib = Inr (y, ib_adv (length (fst (enc_struct F False x))) ib) \<and>
        erase_struct y = z"
  using tagged_read [OF assms] yields_Inl [OF _ assms(6)] tagged_Deserialize_view [OF assms(1-5)]
  by (fastforce split: sum.split)

theorem deserialize_view_witness:
  "\<exists>y. Deserialize fast_reader sample_inner_schema (InputBuffer_of (sample_blob [3, 1, 0, 7, 14, 2, 0, 7, 0])) =
      Inr (y, ib_adv (length [3, 1, 0, 7, 14, 2, 0, 7, 0 :: byte]) (InputBuffer_of (sample_blob [3, 1, 0, 7, 14, 2, 0, 7, 0]))) \<and>
     erase_struct y = Struct Metadata_init None [Field 1 Metadata_init (VUInt32 7)]"
proof -
  let ?x = "Struct Metadata_init None [Field 1 Metadata_init (VUInt8 7), Field 2 Metadata_init (VInt8 7)]"
    and ?bs = "[3, 1, 0, 7, 14, 2, 0, 7, 0] :: byte list"
  have enc: "fst (enc_struct fast_format False ?x) = ?bs" by (simp add: encode_simps)
  have "view_object sample_inner_schema ?x = view_object sample_inner_schema
      (Struct Metadata_init None [Field 1 Metadata_init (VUInt8 7)])"
    unfolding sample_inner_schema_def
    by (subst view_known) (simp_all add: base_shaped_def field_id_def)
  also have "\<dots> = Inr (Struct Metadata_init None [Field 1 Metadata_init (VUInt32 7)])"
    unfolding sample_inner_schema_def
    by (subst view_widened) (simp_all add: is_matching_basic_def is_unsigned_tag_def omit_field_def
        Metadata_init_def Variant_init_def invalid_field_id_def)
  finally have "view_object sample_inner_schema ?x = Inr (Struct Metadata_init None [Field 1 Metadata_init (VUInt32 7)])" .
  moreover have "ib_at (InputBuffer_of (sample_blob ?bs)) (fst (enc_struct fast_format False ?x) @ [])"
    unfolding enc using sample_at [of ?bs] by simp
  note deserialize_view [OF tagged_protocol_simps(2) _ _ _ _ this, of sample_inner_schema, unfolded enc]
  ultimately show ?thesis
    by (simp add: sample_inner_schema_def field_id_def)
qed

text \<open>
  Slicing: the payload of a derived struct, deserialized with the schema of its base, gives the
  base part of the object; the fields of the derived levels are skipped to the end of the struct.
\<close>

theorem derived_read_as_base:
  assumes "tagged_protocol R F" and "conforms (Schema md (Some b) fs) (Struct md (Some y) vs)"
    and "wf_struct True (Struct md (Some y) vs)"
    and "ib_at ib (fst (enc_struct F False (Struct md (Some y) vs)) @ rest)"
  shows "\<exists>z. Deserialize R b ib =
      Inr (z, ib_adv (length (fst (enc_struct F False (Struct md (Some y) vs)))) ib) \<and>
    erase_struct z = erase_struct y"
proof -
  have b: "schema_ok b" "schema_sorted b" "shaped_struct b y" "exact_struct b y" "wf_struct True y"
    using assms(2,3) by (auto simp: conforms_def)
  from tagged_read [OF assms(1) b(1,2) assms(3) conforms_ordered [OF assms(2)] assms(4) view_derived [OF b]]
  show ?thesis .
qed

theorem derived_read_as_base_witness:
  "\<exists>z. Deserialize fast_reader sample_base_schema (InputBuffer_of (sample_blob (fst (enc_struct fast_format False sample_struct)))) =
      Inr (z, ib_adv (length (fst (enc_struct fast_format False sample_struct))) (InputBuffer_of (sample_blob (fst (enc_struct fast_format False sample_struct))))) \<and>
    erase_struct z = Struct Metadata_init None [Field 0 Metadata_init (VBool True)]"
  using derived_read_as_base [of fast_reader fast_format Metadata_init sample_base_schema sample_fields
      "Struct Metadata_init None [Field 0 Metadata_init (VBool True)]" _ _ "[]",
      OF _ sample_conforms [unfolded sample_schema_def sample_struct_def]
        sample_wf(1) [unfolded sample_struct_def], folded sample_struct_def]
    sample_at [of "fst (enc_struct fast_format False sample_struct)"]
  by (simp add: sample_fast)

text \<open>
  The payload of a base cannot be read as a derived struct: where the fields of the derived struct
  should follow the payload ends, and deserialization fails with the exception for an unexpected end of
  the struct.
\<close>

theorem base_read_as_derived:
  assumes "tagged_protocol R F" and "conforms b y" and "wf_struct True y"
    and "schema_ok (Schema md (Some b) fs)" "schema_sorted (Schema md (Some b) fs)"
    and "ib_at ib (fst (enc_struct F False y) @ rest)"
  shows "Deserialize R (Schema md (Some b) fs) ib = Inl UnexpectedStructStopException"
  using tagged_Deserialize_view [OF assms(1,4,5,3) conforms_ordered [OF assms(2)]]
    view_base_as_derived [OF assms(2,3)] yields_Inl [OF _ assms(6)] by simp

theorem base_read_as_derived_witness:
  "Deserialize (compact_reader v1) sample_schema (InputBuffer_of (sample_blob [2, 1, 0])) =
     Inl UnexpectedStructStopException"
proof -
  let ?y = "Struct Metadata_init None [Field 0 Metadata_init (VBool True)]"
  have "fst (enc_struct (compact_format v1) False ?y) = [2, 1, 0]" by (simp add: encode_simps)
  then show ?thesis
    using base_read_as_derived [of "compact_reader v1" "compact_format v1" sample_base_schema ?y Metadata_init
        sample_fields "InputBuffer_of (sample_blob [2, 1, 0])" "[]"]
      sample_at [of "[2, 1, 0]"]
    by (simp add: sample_schema_simps)
qed

text \<open>
  C15. Forward compatibility: fields that the reader's schema does not have, of any type, are skipped
  wherever they stand among the others; the object is the one that would have been written without
  them.
\<close>

theorem unknown_fields_ignored:
  assumes "tagged_protocol R F" and "conforms (Schema md b fs) (Struct md x vs)"
    and "wf_struct True (Struct md' x ws)" "ordered_struct (Struct md' x ws)"
    and "filter (\<lambda>f. field_id f \<in> fd_id ` set fs) ws = vs"
    and "ib_at ib (fst (enc_struct F False (Struct md' x ws)) @ rest)"
  shows "\<exists>y. Deserialize R (Schema md b fs) ib =
      Inr (y, ib_adv (length (fst (enc_struct F False (Struct md' x ws)))) ib) \<and>
    erase_struct y = erase_struct (Struct md x vs)"
proof -
  have "wf_fields True vs"
    using assms(3,5) by (cases x) (auto simp: wf_fields_iff list_all_iff)
  then have "wf_struct True (Struct md x vs)" using assms(3) by (cases x) auto
  from view_unknown_ignored [OF assms(2) this assms(5)] tagged_read [OF assms(1) _ _ assms(3,4,6)]
  show ?thesis using assms(2) by (simp add: conforms_def)
qed

theorem unknown_fields_ignored_witness:
  "\<exists>y. Deserialize (compact_reader v1) sample_base_schema (InputBuffer_of (sample_blob [2, 1, 0x2e, 7, 0])) =
      Inr (y, ib_adv (length [2, 1, 0x2e, 7, 0 :: byte]) (InputBuffer_of (sample_blob [2, 1, 0x2e, 7, 0]))) \<and>
    erase_struct y = Struct Metadata_init None [Field 0 Metadata_init (VBool True)]"
proof -
  let ?x = "Struct Metadata_init None [Field 0 Metadata_init (VBool True), Field 1 Metadata_init (VInt8 7)]"
  have "fst (enc_struct (compact_format v1) False ?x) = [2, 1, 0x2e, 7, 0]" by (simp add: encode_simps)
  then show ?thesis
    using unknown_fields_ignored [of "compact_reader v1" "compact_format v1" Metadata_init None
        "[FieldDef 0 Metadata_init False (TBasic BT_BOOL)]" None "[Field 0 Metadata_init (VBool True)]"
        Metadata_init "[Field 0 Metadata_init (VBool True), Field 1 Metadata_init (VInt8 7)]"
        "InputBuffer_of (sample_blob [2, 1, 0x2e, 7, 0])" "[]"]
      sample_at [of "[2, 1, 0x2e, 7, 0]"]
    by (simp add: sample_schema_simps field_id_def)
qed

text \<open>
  C16. Backward compatibility: a payload written with a schema that has only the fields \<open>old\<close>, read
  with a schema that adds optional fields, gives the old fields as written and every added field with
  the default value of its metadata.
\<close>

theorem added_fields_default:
  assumes "tagged_protocol R F" and "conforms (Schema md b (filter old fs)) (Struct md x vs)"
    and "wf_struct True (Struct md x vs)"
    and "schema_ok (Schema md b fs)" "schema_sorted (Schema md b fs)"
    and "\<forall>fd \<in> set fs. \<not> old fd \<longrightarrow> md_modifier (fd_metadata fd) \<noteq> Required"
    and "ib_at ib (fst (enc_struct F False (Struct md x vs)) @ rest)"
  shows "\<exists>y. Deserialize R (Schema md b fs) ib =
      Inr (y, ib_adv (length (fst (enc_struct F False (Struct md x vs)))) ib) \<and>
    erase_struct y = Struct md (map_option erase_struct x) (with_defaults old fs (map erase_field vs))"
proof -
  have "ordered_struct (Struct md x vs)" using conforms_ordered [OF assms(2)] by (cases x) auto
  from tagged_read [OF assms(1,4,5,3) this assms(7) view_added_defaults [OF assms(2-6)]] show ?thesis .
qed

theorem added_fields_default_witness:
  "\<exists>y. Deserialize (compact_reader v1)
      (Schema Metadata_init None [FieldDef 0 Metadata_init False (TBasic BT_BOOL), FieldDef 1 Metadata_init False (TBasic BT_STRING)])
      (InputBuffer_of (sample_blob [2, 1, 0])) =
        Inr (y, ib_adv (length [2, 1, 0 :: byte]) (InputBuffer_of (sample_blob [2, 1, 0]))) \<and>
    erase_struct y = Struct Metadata_init None [Field 0 Metadata_init (VBool True), Field 1 Metadata_init (VString [])]"
proof -
  let ?x = "Struct Metadata_init None [Field 0 Metadata_init (VBool True)]"
    and ?fs = "[FieldDef 0 Metadata_init False (TBasic BT_BOOL), FieldDef 1 Metadata_init False (TBasic BT_STRING)]"
  have "fst (enc_struct (compact_format v1) False ?x) = [2, 1, 0]" by (simp add: encode_simps)
  then show ?thesis
    using added_fields_default [of "compact_reader v1" "compact_format v1" Metadata_init None "\<lambda>fd. fd_id fd = 0" ?fs
        None "[Field 0 Metadata_init (VBool True)]" "InputBuffer_of (sample_blob [2, 1, 0])" "[]"]
      sample_at [of "[2, 1, 0]"]
    by (simp add: sample_schema_simps)
qed





section \<open>Skipping by schema\<close>

text \<open>
  Skipping a value of an untagged protocol, which has no type tags, by the type of its schema: in
  either version of Simple Binary the reader moves exactly past the encoding of a value of that type.
\<close>

theorem simple_skip_value:
  assumes "shaped t x" and "wf_value False x"
    and "ib_at ib (fst (enc_value (simple_format version) x) @ rest)"
  shows "sr_SkipValue version t ib = Inr ((), ib_adv (length (fst (enc_value (simple_format version) x))) ib)"
  using sr_SkipValue_encoded [OF assms] .

theorem simple_skip_value_witness:
  "sr_SkipValue v1 (TStruct sample_schema) (InputBuffer_of (sample_blob [1, 0x2c, 1, 0, 0, 2, 0, 0, 0, 1, 0, 2, 0])) =
     Inr ((), ib_adv (length [1, 0x2c, 1, 0, 0, 2, 0, 0, 0, 1, 0, 2, 0 :: byte])
       (InputBuffer_of (sample_blob [1, 0x2c, 1, 0, 0, 2, 0, 0, 0, 1, 0, 2, 0])))"
proof -
  have "shaped (TStruct sample_schema) (VStruct sample_struct)" using sample_conforms by (simp add: conforms_def)
  moreover have "wf_value False (VStruct sample_struct)" using sample_wf(3) by simp
  ultimately show ?thesis
    using simple_skip_value [where rest = "[]", of "TStruct sample_schema" "VStruct sample_struct"]
      sample_at [of "fst (enc_struct (simple_format v1) False sample_struct)"]
    by (simp add: sample_simple)
qed

section \<open>The type switches\<close>

text \<open>
  The cases of the switches over element and key types are complete: for every element type
  \<open>e\<close>, the types with a case are basic, and a payload type that matches \<open>e\<close> always has one, so a
  matching container is never skipped by the default branch.
\<close>

theorem switches_cover_matching:
  assumes "is_basic_tag e"
  shows "IsMatching e type \<longleftrightarrow> type \<in> set (matching_cases e) \<and> is_matching_basic type e"
  using matching_in_cases [OF _ assms] matching_cases_basic by (auto simp: IsMatching_def)

theorem switches_cover_matching_witness:
  "IsMatching BT_UINT32 BT_UINT16 \<and> \<not> IsMatching BT_UINT16 BT_UINT32 \<and> \<not> IsMatching BT_UINT8 BT_BOOL"
  using switches_cover_matching [of BT_UINT32 BT_UINT16] switches_cover_matching [of BT_UINT16 BT_UINT32]
    switches_cover_matching [of BT_UINT8 BT_BOOL]
  by (simp add: is_matching_basic_def is_unsigned_tag_def is_signed_tag_def)

lemmas validate_simps = Validate_def GetRuntimeSchema_def RuntimeSchema_of_def push_field_def ValidateStruct.simps
  ValidateFields.simps ValidateType.simps ValidateTypeId_def GetStruct_def schema_depth_def HasBase_def Let_def

section \<open>Transcoding\<close>

text \<open>
  C9. Transcoding a payload of a tagged protocol to another one, with any schema that fits the payload,
  appends exactly the encoding of the payload in the target protocol and moves the reader behind the
  payload: Compact to Fast Binary, Fast to Compact Binary and between the versions of Compact Binary,
  with the two passes where the writer needs them. Fields and levels that the schema does not have are
  written like all others.
\<close>

theorem transcode_preserves:
  assumes "fits (Typed (TStruct s)) (VStruct x)" and "wf_struct True x"
    and "os_holds out c" and "os_holds (cw_output w) c" "cw_it w = None" "cw_version w = v"
    and "length c + length (fst (enc_struct fast_format False x)) < 2 ^ 31"
    and "length c + length (fst (enc_struct (compact_format v) False x)) < 2 ^ 31"
  shows
    "(ib_at ib (fst (enc_struct (compact_format rv) False x) @ rest) \<longrightarrow>
       (\<exists>out'. Transcode (compact_reader rv) (fast_writer memory_stream) s out ib =
           Inr (out', ib_adv (length (fst (enc_struct (compact_format rv) False x))) ib) \<and>
         os_holds out' (c @ fst (enc_struct fast_format False x))) \<and>
       (\<exists>w'. cw_Transcode noinit memory_stream (compact_reader rv) s w ib =
           Inr (w', ib_adv (length (fst (enc_struct (compact_format rv) False x))) ib) \<and>
         os_holds (cw_output w') (c @ fst (enc_struct (compact_format v) False x)))) \<and>
     (ib_at ib (fst (enc_struct fast_format False x) @ rest) \<longrightarrow>
       (\<exists>w'. cw_Transcode noinit memory_stream fast_reader s w ib =
           Inr (w', ib_adv (length (fst (enc_struct fast_format False x))) ib) \<and>
         os_holds (cw_output w') (c @ fst (enc_struct (compact_format v) False x))))"
  using compact_tr.Transcode_fast [OF assms(1,2) _ assms(3,7), of ib rv rest]
    compact_tr.cw_Transcode_encodes [OF assms(1,2) _ assms(4-6,8), of ib rv rest noinit]
    fast_tr.cw_Transcode_encodes [OF assms(1,2) _ assms(4-6,8), of ib rest noinit] by blast

theorem transcode_preserves_witness:
  "\<exists>b n stream. Transcode (compact_reader v2) (fast_writer memory_stream) unknown_schema sample_stream (InputBuffer_of b) =
      Inr (stream, ib_adv n (InputBuffer_of b)) \<and>
    os_holds stream (fst (enc_struct fast_format False sample_struct))"
proof -
  let ?w = "CompactBinaryWriter_init (\<lambda>_. 0) sample_stream v2" and ?bs = "fst (enc_struct (compact_format v2) False sample_struct)"
  have w: "os_holds (cw_output ?w) []" "cw_it ?w = None" "cw_version ?w = v2"
    using sample_stream_holds by (simp_all add: CompactBinaryWriter_init_def)
  have len: "length ([] :: byte list) + length (fst (enc_struct fast_format False sample_struct)) < 2 ^ 31"
      "length ([] :: byte list) + length ?bs < 2 ^ 31"
    by (simp_all add: sample_fast sample_compact)
  have at: "ib_at (InputBuffer_of (sample_blob ?bs)) (?bs @ [])" using len(2) by (simp add: sample_at)
  note preserved = transcode_preserves [OF unknown_struct_fits [OF conforms_keys [OF sample_conforms] sample_wf(1)] sample_wf(1)
      sample_stream_holds w len, of "InputBuffer_of (sample_blob ?bs)" v2 "[]"]
  from conjunct1 [OF mp [OF conjunct1 [OF preserved] at]] show ?thesis by auto
qed

text \<open>
  C10. An object of any schema, written with Fast Binary, transcoded to either version of Compact Binary
  by code that knows nothing of its type, and deserialized with its schema, is the object again. (The
  manual: "Bond is able to preserve all fields, even those that are not part of struct T".)
\<close>

theorem transcode_unknown_roundtrip:
  assumes "conforms s x" and "wf_struct True x" and "alloc_ok alloc"
    and "length (fst (enc_struct fast_format False x)) < 2 ^ 31"
    and "length (fst (enc_struct (compact_format v) False x)) < 2 ^ 31"
  shows "\<exists>out b w ib c y ib'.
    Serializer_Apply (fast_writer memory_stream) False x (OutputMemoryStream_empty junk) = Inr out \<and>
    os_GetBuffer alloc addr out = Inr b \<and>
    cw_Transcode noinit memory_stream fast_reader unknown_schema
      (CompactBinaryWriter_init noinit (OutputMemoryStream_empty junk) v) (InputBuffer_of b) = Inr (w, ib) \<and>
    ib_IsEof ib \<and> os_GetBuffer alloc addr (cw_output w) = Inr c \<and>
    Deserialize (compact_reader v) s (InputBuffer_of c) = Inr (y, ib') \<and>
    erase_struct y = erase_struct x \<and> ib_IsEof ib'"
proof -
  have "stream_appends os_holds (Serializer_Apply (fast_writer memory_stream) False x)
      (fst (enc_struct fast_format False x))"
    using mem.fast.emits_Serializer_Apply [of x False] assms(2) by (simp add: fast_writer_def)
  from stream_written [OF this assms(3,4), of junk addr] obtain out b where out:
      "Serializer_Apply (fast_writer memory_stream) False x (OutputMemoryStream_empty junk) = Inr out"
      "os_GetBuffer alloc addr out = Inr b" "ib_at (InputBuffer_of b) (fst (enc_struct fast_format False x))" by blast
  let ?w = "CompactBinaryWriter_init noinit (OutputMemoryStream_empty junk) v"
  have w: "os_holds (cw_output ?w) []" "cw_it ?w = None" "cw_version ?w = v"
    by (simp_all add: CompactBinaryWriter_init_def os_holds_def os_ok_empty)
  have at: "ib_at (InputBuffer_of b) (fst (enc_struct fast_format False x) @ [])" using out(3) by simp
  from fast_tr.cw_Transcode_encodes [OF unknown_struct_fits [OF conforms_keys [OF assms(1)] assms(2)] assms(2) at w] assms(5)
  obtain w' where w': "cw_Transcode noinit memory_stream fast_reader unknown_schema ?w (InputBuffer_of b) =
        Inr (w', ib_adv (length (fst (enc_struct fast_format False x))) (InputBuffer_of b))"
      "os_holds (cw_output w') (fst (enc_struct (compact_format v) False x))" by auto
  from stream_to_buffer [OF w'(2) assms(5,3), of addr] obtain c where c: "os_GetBuffer alloc addr (cw_output w') = Inr c"
      "ib_at (InputBuffer_of c) (fst (enc_struct (compact_format v) False x))" by blast
  from read_to_end [OF compact.Deserialize_roundtrip [OF assms(1,2)] c(2)] obtain y ib' where
      "Deserialize (compact_reader v) s (InputBuffer_of c) = Inr (y, ib')" "erase_struct y = erase_struct x" "ib_IsEof ib'" by blast
  moreover have "ib_IsEof (ib_adv (length (fst (enc_struct fast_format False x))) (InputBuffer_of b))"
    using eof_after_all [OF out(3)] .
  ultimately show ?thesis using out w' c by blast
qed

theorem transcode_unknown_roundtrip_witness:
  "\<exists>b w ib c y ib'. cw_Transcode (\<lambda>_. 0) memory_stream fast_reader unknown_schema
      (CompactBinaryWriter_init (\<lambda>_. 0) (OutputMemoryStream_empty (\<lambda>_. 0)) v2) (InputBuffer_of b) = Inr (w, ib) \<and>
    os_GetBuffer sample_alloc (\<lambda>_. 64) (cw_output w) = Inr c \<and>
    Deserialize (compact_reader v2) sample_schema (InputBuffer_of c) = Inr (y, ib') \<and> erase_struct y = erase_struct sample_struct"
proof -
  have len: "length (fst (enc_struct fast_format False sample_struct)) < 2 ^ 31"
      "length (fst (enc_struct (compact_format v2) False sample_struct)) < 2 ^ 31"
    by (simp_all add: sample_fast sample_compact)
  from transcode_unknown_roundtrip [OF sample_conforms sample_wf(1) sample_alloc_ok len] show ?thesis by blast
qed


section \<open>Merging\<close>

lemma tagged_transcodable: "tagged_protocol R F \<Longrightarrow> transcodable_reader R F"
  unfolding tagged_protocol_def using compact_tr.transcodable_reader_axioms fast_tr.transcodable_reader_axioms by blast

text \<open>
  C11. Merging refines the merge of trees: when merging the payload \<open>x\<close> with the object \<open>y\<close> of schema
  \<open>s\<close> gives \<open>z\<close>, reading \<open>x\<close> from either tagged protocol and writing to either of them (with the
  two passes of Compact Binary where needed) appends exactly the encoding of \<open>z\<close> and moves the reader
  behind the payload. Values of the payload that are replaced are skipped; unknown fields and levels are
  written like all others; structs and containers of structs are merged recursively, maps by key.
\<close>

theorem merge_writes:
  assumes "tagged_protocol R F" and "merges (Some (TStruct s, VStruct y)) (Typed (TStruct s)) (VStruct x) (VStruct z)"
    and "wf_struct True y" "wf_struct True x" and "ib_at ib (fst (enc_struct F False x) @ rest)"
    and "os_holds out c" and "os_holds (cw_output w) c" "cw_it w = None" "cw_version w = v"
    and "length c + length (fst (enc_struct fast_format False z)) < 2 ^ 31"
    and "length c + length (fst (enc_struct (compact_format v) False z)) < 2 ^ 31"
  shows "(\<exists>out'. Merge residue R (fast_writer memory_stream) s y out ib =
      Inr (out', ib_adv (length (fst (enc_struct F False x))) ib) \<and>
      os_holds out' (c @ fst (enc_struct fast_format False z))) \<and>
    (\<exists>w'. cw_Merge residue noinit memory_stream R s y w ib =
      Inr (w', ib_adv (length (fst (enc_struct F False x))) ib) \<and>
      os_holds (cw_output w') (c @ fst (enc_struct (compact_format v) False z)))"
  using transcodable_reader.Merge_fast [OF tagged_transcodable, OF assms(1-6,10)]
    transcodable_reader.cw_Merge_encodes [OF tagged_transcodable, OF assms(1-5,7-9,11)] by blast

abbreviation sample_number :: "u16 \<Rightarrow> bvalue \<Rightarrow> bstruct" where
  "sample_number fid v \<equiv> Struct Metadata_init None [Field fid Metadata_init v]"

abbreviation sample_number_schema :: "u16 \<Rightarrow> sschema" where
  "sample_number_schema fid \<equiv> Schema Metadata_init None [FieldDef fid Metadata_init False (TBasic BT_INT32)]"

text \<open>A payload with one field that the schema does not have, or not with this type\<close>

lemma sample_merge_kept:
  assumes "is_basic v" and "fid \<le> fid'" and "\<not> (fid' = fid \<and> GetTypeId v = BT_INT32)" and "\<not> omit_field True Metadata_init v"
  shows "merges (Some (TStruct (sample_number_schema fid'), VStruct (sample_number fid' (VInt32 n))))
    (Typed (TStruct (sample_number_schema fid'))) (VStruct (sample_number fid v)) (VStruct (sample_number fid v))"
proof (rule merges.struct)
  let ?fd = "FieldDef fid' Metadata_init False (TBasic BT_INT32)"
  have "merge_fields M [(?fd, Field fid' Metadata_init (VInt32 n))] [(fid, v)] [(fid, v)]" for M
    using assms by (intro merge_fields.kept) (auto simp: passed_def intro: merge_fields.rest)
  then show "merge_levels (\<lambda>fd f x rs.
      (is_struct_type (fd_type fd) \<or> is_struct_container (fd_type fd) \<longrightarrow>
         (\<exists>z. rs = [(fd_id fd, z)] \<and> merges (merge_var_of fd f) (Typed (fd_type fd)) x z)) \<and>
      (\<not> (is_struct_type (fd_type fd) \<or> is_struct_container (fd_type fd)) \<longrightarrow> rs = present True f))
    (object_levels (sample_number_schema fid') (sample_number fid' (VInt32 n)))
    (levels True False (sample_number fid v)) (levels True False (sample_number fid v))"
    using assms(4) by simp
qed (use assms basic_unknown in auto)

text \<open>A payload of \<open>sample_schema\<close> with another number in the nested struct and a field that the schema does not have\<close>

definition sample_known :: "bfield list" where
  "sample_known =
     [Field 6 Metadata_init (VStruct (Struct Metadata_init None [Field 1 Metadata_init (VUInt32 7)])),
      Field 300 Metadata_init (VList BT_INT16 [])]"

definition sample_newer :: bstruct where
  "sample_newer = Struct Metadata_init (Some (Struct Metadata_init None [Field 0 Metadata_init (VBool False)]))
     (sample_known @ [Field 400 Metadata_init (VString [0x61])])"

definition sample_merged :: bstruct where
  "sample_merged = Struct Metadata_init (base_of sample_struct) (fields_of sample_struct @ [Field 400 Metadata_init (VString [0x61])])"

lemma sample_newer_wf: "wf_struct True sample_newer" "basic_keys_struct sample_newer" "ordered_struct sample_newer"
  by (simp_all add: sample_newer_def sample_known_def field_id_def)

lemma sample_newer_alike:
  "shaped_struct sample_schema (Struct Metadata_init (base_of sample_newer) sample_known)"
  "alike_struct sample_schema sample_struct (Struct Metadata_init (base_of sample_newer) sample_known)"
  by (simp_all add: sample_newer_def sample_known_def sample_schema_simps omit_field_def)

lemma sample_newer_merges:
  "merges (Some (TStruct sample_schema, VStruct sample_struct)) (Typed (TStruct sample_schema)) (VStruct sample_newer) (VStruct sample_merged)"
  using merges_extended [of Metadata_init "Some sample_base_schema" sample_fields "base_of sample_struct" "fields_of sample_struct"
      "base_of sample_newer" sample_known Metadata_init "[Field 400 Metadata_init (VString [0x61])]"]
    sample_conforms sample_newer_alike sample_newer_wf
  by (simp add: sample_schema_def sample_struct_def sample_newer_def sample_merged_def sample_fields_def field_id_def)

theorem merge_writes_witness:
  "\<exists>out ib. Merge (\<lambda>_ ib. ib) fast_reader (fast_writer memory_stream) sample_schema sample_struct sample_stream
      (InputBuffer_of (sample_blob (fst (enc_struct fast_format False sample_newer)))) = Inr (out, ib) \<and>
    os_holds out (fst (enc_struct fast_format False sample_merged))"
proof -
  let ?w = "CompactBinaryWriter_init (\<lambda>_. 0) sample_stream v2" and ?bs = "fst (enc_struct fast_format False sample_newer)"
  have len: "length ?bs < 2 ^ 31" "length ([] :: byte list) + length (fst (enc_struct fast_format False sample_merged)) < 2 ^ 31"
      "length ([] :: byte list) + length (fst (enc_struct (compact_format v2) False sample_merged)) < 2 ^ 31"
    by (simp_all add: sample_newer_def sample_known_def sample_merged_def sample_struct_def sample_inner_def encode_simps)
  have at: "ib_at (InputBuffer_of (sample_blob ?bs)) (?bs @ [])" using len(1) by (simp add: sample_at)
  have w: "os_holds (cw_output ?w) []" "cw_it ?w = None" "cw_version ?w = v2"
    using sample_stream_holds by (simp_all add: CompactBinaryWriter_init_def)
  from merge_writes [where residue = "\<lambda>_ ib. ib" and noinit = "\<lambda>_. 0", OF tagged_protocol_simps(2) sample_newer_merges sample_wf(1) sample_newer_wf(1) at sample_stream_holds w len(2,3)]
  show ?thesis by auto
qed

text \<open>
  C12. Merging updates what is known and keeps what is unknown. A payload of a newer version of the schema,
  which adds fields with higher ids, is merged with an object; its containers of structs agree with those of
  the object in lengths and keys (\<open>alike_struct\<close>). The result is the encoding of the object's fields followed by the
  additional fields of the payload, and deserializing it from the stream's buffer gives the object. (The
  manual: "the value in the object is serialized, otherwise the value for the unknown field in the payload is
  preserved".)
\<close>

theorem merge_updates_object:
  assumes "tagged_protocol R F" and "conforms (Schema md b fs) (Struct md y vs)" "wf_struct True (Struct md y vs)"
    and "shaped_struct (Schema md b fs) (Struct md z us)" and "alike_struct (Schema md b fs) (Struct md y vs) (Struct md z us)"
    and "wf_struct True (Struct md' z (us @ es))" "basic_keys_struct (Struct md' z (us @ es))" "ordered_struct (Struct md' z (us @ es))"
    and "\<forall>e \<in> set es. \<forall>fd \<in> set fs. fd_id fd < field_id e"
    and "ib_at ib (fst (enc_struct F False (Struct md' z (us @ es))) @ rest)" and "alloc_ok alloc"
    and "length (fst (enc_struct (compact_format v) False (Struct md' y (vs @ es)))) < 2 ^ 31"
  shows "\<exists>w c obj ib'. cw_Merge residue noinit memory_stream R (Schema md b fs) (Struct md y vs)
      (CompactBinaryWriter_init noinit (OutputMemoryStream_empty junk) v) ib =
        Inr (w, ib_adv (length (fst (enc_struct F False (Struct md' z (us @ es))))) ib) \<and>
    os_GetBuffer alloc addr (cw_output w) = Inr c \<and>
    blob_bytes c = fst (enc_struct (compact_format v) False (Struct md' y (vs @ es))) \<and>
    Deserialize (compact_reader v) (Schema md b fs) (InputBuffer_of c) = Inr (obj, ib') \<and>
    erase_struct obj = erase_struct (Struct md y vs) \<and> ib_IsEof ib'"
proof -
  let ?z = "Struct md' y (vs @ es)" and ?w = "CompactBinaryWriter_init noinit (OutputMemoryStream_empty junk) v"
  have merged: "merges (Some (TStruct (Schema md b fs), VStruct (Struct md y vs))) (Typed (TStruct (Schema md b fs)))
      (VStruct (Struct md' z (us @ es))) (VStruct ?z)"
    by (rule merges_extended [OF assms(2,4,5,6,7,9)])
  have s: "schema_ok (Schema md b fs)" "schema_sorted (Schema md b fs)" "shaped_struct (Schema md b fs) (Struct md y vs)"
    using assms(2) by (simp_all add: conforms_def)
  note z = merged_object_ok [OF s(2,3) assms(3,6,8,9)]
  have w: "os_holds (cw_output ?w) []" "cw_it ?w = None" "cw_version ?w = v"
    by (simp_all add: CompactBinaryWriter_init_def os_holds_def os_ok_empty)
  from transcodable_reader.cw_Merge_encodes [OF tagged_transcodable, OF assms(1) merged assms(3,6,10) w] assms(12) obtain w' where w':
      "cw_Merge residue noinit memory_stream R (Schema md b fs) (Struct md y vs) ?w ib =
        Inr (w', ib_adv (length (fst (enc_struct F False (Struct md' z (us @ es))))) ib)"
      "os_holds (cw_output w') (fst (enc_struct (compact_format v) False ?z))" by auto
  from stream_to_buffer [OF w'(2) assms(12,11), of addr] obtain c where c: "os_GetBuffer alloc addr (cw_output w') = Inr c"
      "blob_bytes c = fst (enc_struct (compact_format v) False ?z)"
      "ib_at (InputBuffer_of c) (fst (enc_struct (compact_format v) False ?z))" by blast
  have "yields erase_struct (Deserialize (compact_reader v) (Schema md b fs)) (fst (enc_struct (compact_format v) False ?z))
      (Inr (erase_struct (Struct md y vs)))"
    using compact.Deserialize_view [OF s(1,2) z(1,2), of v] view_unknown_ignored [OF assms(2,3) z(3), of md'] by simp
  from read_to_end [OF this c(3)] w'(1) c show ?thesis by blast
qed

theorem merge_updates_object_witness:
  "\<exists>w ib c obj ib'. cw_Merge (\<lambda>_ ib. ib) (\<lambda>_. 0) memory_stream fast_reader sample_schema sample_struct
      (CompactBinaryWriter_init (\<lambda>_. 0) (OutputMemoryStream_empty (\<lambda>_. 0)) v2)
      (InputBuffer_of (sample_blob (fst (enc_struct fast_format False sample_newer)))) = Inr (w, ib) \<and>
    os_GetBuffer sample_alloc (\<lambda>_. 0) (cw_output w) = Inr c \<and>
    blob_bytes c = fst (enc_struct (compact_format v2) False sample_merged) \<and>
    Deserialize (compact_reader v2) sample_schema (InputBuffer_of c) = Inr (obj, ib') \<and>
    erase_struct obj = erase_struct sample_struct \<and> ib_IsEof ib'"
proof -
  let ?bs = "fst (enc_struct fast_format False sample_newer)" and ?es = "[Field 400 Metadata_init (VString [0x61])]"
  have parts: "sample_schema = Schema Metadata_init (Some sample_base_schema) sample_fields"
    "sample_struct = Struct Metadata_init (base_of sample_struct) (fields_of sample_struct)"
    "sample_newer = Struct Metadata_init (base_of sample_newer) (sample_known @ ?es)"
    "sample_merged = Struct Metadata_init (base_of sample_struct) (fields_of sample_struct @ ?es)"
    by (simp_all add: sample_schema_def sample_struct_def sample_newer_def sample_merged_def)
  have len: "length ?bs < 2 ^ 31" "length (fst (enc_struct (compact_format v2) False sample_merged)) < 2 ^ 31"
    by (simp_all add: sample_newer_def sample_known_def sample_merged_def sample_struct_def sample_inner_def encode_simps)
  have at: "ib_at (InputBuffer_of (sample_blob ?bs)) (?bs @ [])" using len(1) by (simp add: sample_at)
  have above: "\<forall>e \<in> set ?es. \<forall>fd \<in> set sample_fields. fd_id fd < field_id e" by (simp add: sample_fields_def field_id_def)
  from merge_updates_object [of fast_reader fast_format Metadata_init "Some sample_base_schema" sample_fields "base_of sample_struct"
      "fields_of sample_struct" "base_of sample_newer" sample_known Metadata_init ?es "InputBuffer_of (sample_blob ?bs)" "[]"
      sample_alloc v2 "\<lambda>_ ib. ib" "\<lambda>_. 0" "\<lambda>_. 0" "\<lambda>_. 0", folded parts, OF tagged_protocol_simps(2) sample_conforms sample_wf(1)
      sample_newer_alike [unfolded parts(1), folded parts(1)] sample_newer_wf above at sample_alloc_ok len(2)]
  show ?thesis by blast
qed

text \<open>
  C38. Three divergences from the manual's "the value in the object is serialized": the value of a field of the
  object is lost when the payload has a field with a smaller id that the schema does not have and then no
  more fields (the parser leaves the field of the schema without calling \<open>OmittedField\<close>); when the payload has a
  value of another type for the field (the value of the payload is written again, and read in place of the
  object's where the type promotes); and when the payload ends with the base (\<open>Base\<close> says that the struct is
  done, and its fields are not visited). In the first two cases the output is the payload, in the third the
  level of the field is empty.
\<close>

theorem merge_loses_object_values:
  assumes "os_holds out c" and "length c < 2 ^ 31 - 100" and "m \<noteq> 0" and "k \<noteq> 0"
  shows
    "(\<exists>out' ib. Merge residue fast_reader (fast_writer memory_stream) (sample_number_schema 2) (sample_number 2 (VInt32 n)) out
        (InputBuffer_of (sample_blob (fst (enc_struct fast_format False (sample_number 1 (VInt32 m)))))) = Inr (out', ib) \<and>
      os_holds out' (c @ fst (enc_struct fast_format False (sample_number 1 (VInt32 m))))) \<and>
    (\<exists>out' ib. Merge residue fast_reader (fast_writer memory_stream) (sample_number_schema 2) (sample_number 2 (VInt32 n)) out
        (InputBuffer_of (sample_blob (fst (enc_struct fast_format False (sample_number 2 (VInt16 k)))))) = Inr (out', ib) \<and>
      os_holds out' (c @ fst (enc_struct fast_format False (sample_number 2 (VInt16 k))))) \<and>
    (\<exists>out' ib. Merge residue fast_reader (fast_writer memory_stream)
        (Schema Metadata_init (Some (Schema Metadata_init None [])) [FieldDef 2 Metadata_init False (TBasic BT_INT32)])
        (Struct Metadata_init (Some (Struct Metadata_init None [])) [Field 2 Metadata_init (VInt32 n)]) out
        (InputBuffer_of (sample_blob (fst (enc_struct fast_format False (Struct Metadata_init None []))))) = Inr (out', ib) \<and>
      os_holds out' (c @ fst (enc_struct fast_format False (Struct Metadata_init (Some (Struct Metadata_init None [])) []))))"
proof (intro conjI)
  have kept: "\<exists>out' ib. Merge residue fast_reader (fast_writer memory_stream) (sample_number_schema fid') (sample_number fid' (VInt32 n)) out
        (InputBuffer_of (sample_blob (fst (enc_struct fast_format False (sample_number fid v))))) = Inr (out', ib) \<and>
      os_holds out' (c @ fst (enc_struct fast_format False (sample_number fid v)))"
    if "merges (Some (TStruct (sample_number_schema fid'), VStruct (sample_number fid' (VInt32 n))))
        (Typed (TStruct (sample_number_schema fid'))) (VStruct (sample_number fid v)) (VStruct (sample_number fid v))"
      "wf_value True v" "length (fst (enc_struct fast_format False (sample_number fid v))) \<le> 100" for fid fid' v
    using fast_tr.Merge_fast [OF that(1) _ _ _ assms(1), of "InputBuffer_of (sample_blob (fst (enc_struct fast_format False (sample_number fid v))))" "[]" residue]
      that(2,3) assms(2) sample_at by auto
  show "\<exists>out' ib. Merge residue fast_reader (fast_writer memory_stream) (sample_number_schema 2) (sample_number 2 (VInt32 n)) out
        (InputBuffer_of (sample_blob (fst (enc_struct fast_format False (sample_number 1 (VInt32 m)))))) = Inr (out', ib) \<and>
      os_holds out' (c @ fst (enc_struct fast_format False (sample_number 1 (VInt32 m))))"
    using assms(3) by (intro kept sample_merge_kept) (simp_all add: encode_simps)
  show "\<exists>out' ib. Merge residue fast_reader (fast_writer memory_stream) (sample_number_schema 2) (sample_number 2 (VInt32 n)) out
        (InputBuffer_of (sample_blob (fst (enc_struct fast_format False (sample_number 2 (VInt16 k)))))) = Inr (out', ib) \<and>
      os_holds out' (c @ fst (enc_struct fast_format False (sample_number 2 (VInt16 k))))"
    using assms(4) by (intro kept sample_merge_kept) (simp_all add: encode_simps)
  let ?s = "Schema Metadata_init (Some (Schema Metadata_init None [])) [FieldDef 2 Metadata_init False (TBasic BT_INT32)]"
    and ?y = "Struct Metadata_init (Some (Struct Metadata_init None [])) [Field 2 Metadata_init (VInt32 n)]"
  show "\<exists>out' ib. Merge residue fast_reader (fast_writer memory_stream) ?s ?y out
        (InputBuffer_of (sample_blob (fst (enc_struct fast_format False (Struct Metadata_init None []))))) = Inr (out', ib) \<and>
      os_holds out' (c @ fst (enc_struct fast_format False (Struct Metadata_init (Some (Struct Metadata_init None [])) [])))"
  proof -
    have "fst (enc_struct fast_format False (Struct Metadata_init None [])) = [0]" by (simp add: encode_simps)
    moreover have "decodes (r_ReadStructBegin fast_reader False) [] ()" by (simp add: fast_reader_def fb_ReadStructBegin_def decodes_ret)
    ultimately show ?thesis
      using fast_tr.Merge_shallow [of "InputBuffer_of (sample_blob [0])" "[]" out c] sample_at [of "[0]"] assms(1,2)
      by (simp add: stop_byte_def del: enc_struct.simps)
  qed
qed

theorem merge_loses_object_values_witness:
  "\<exists>out' ib. Merge (\<lambda>_ ib. ib) fast_reader (fast_writer memory_stream) (sample_number_schema 2) (sample_number 2 (VInt32 5)) sample_stream
      (InputBuffer_of (sample_blob (fst (enc_struct fast_format False (sample_number 1 (VInt32 7)))))) = Inr (out', ib) \<and>
    os_holds out' ([] @ fst (enc_struct fast_format False (sample_number 1 (VInt32 7))))"
proof -
  have "length ([] :: byte list) < 2 ^ 31 - 100" "(7 :: u32) \<noteq> 0" "(7 :: u16) \<noteq> 0" by simp_all
  from merge_loses_object_values [OF sample_stream_holds this, of "\<lambda>_ ib. ib" 5] show ?thesis by blast
qed

section \<open>Counters and the capped allocator\<close>






lemma sample_reachable:
  "reachable (shared_init 10 2) (goto 1 (Entered 4) (goto 0 (Entered 20) (shared_init 10 2)))"
  by (intro reachable.step [OF reachable.step [OF reachable.init mt_step.call] mt_step.call])
    (simp_all add: shared_init_def nth_Cons')


text \<open>
  A thread that runs alone from the beginning of \<open>try_add\<close>, whatever the other threads were doing
  when they stopped, returns after three of its steps with the answer of the single-threaded counter,
  and from inside the loop it returns after at most two steps. (\<open>alone\<close> is a step of the thread by
  \<open>alone_step\<close>.)
\<close>

theorem concurrent_counter_returns:
  assumes "reachable (shared_init m k) s" and "i < length (sh_threads s)" and "pc_of s i = Entered n"
  shows "mt_step i s (alone i s) \<and> (pc_of (alone i s) i = Returning n (fst (st_try_add n (counter_of s))) \<or>
    (mt_step i (alone i s) (alone i (alone i s)) \<and> mt_step i (alone i (alone i s)) (alone i (alone i (alone i s))) \<and>
     pc_of (alone i (alone i (alone i s))) i = Returning n (fst (st_try_add n (counter_of s)))))"
proof (cases "n \<le> sh_max s")
  case True
  have "sh_value s \<in> set (sh_values s)" using reachable_ok [OF assms(1) shared_init_ok] by (simp add: shared_ok_def)
  with assms(2,3) True show ?thesis
    using mt_step.test [OF assms(2,3)] mt_step.load [of i "goto i (Loading n) s" n "sh_value s"]
      mt_step.exit [of i "goto i (Trying n (sh_value s)) (goto i (Loading n) s)" n "sh_value s"]
      mt_step.exchange [of i "goto i (Trying n (sh_value s)) (goto i (Loading n) s)" n "sh_value s"]
    by (simp add: alone_def st_try_add_def counter_of_def)
next
  case False
  with assms(2,3) show ?thesis
    using mt_step.test [OF assms(2,3)] by (simp add: alone_def st_try_add_def counter_of_def)
qed

theorem concurrent_counter_returns_witness:
  "mt_step 1 (goto 1 (Entered 4) (goto 0 (Entered 20) (shared_init 10 2)))
     (alone 1 (goto 1 (Entered 4) (goto 0 (Entered 20) (shared_init 10 2))))"
  using concurrent_counter_returns [OF sample_reachable, of 1 4] by (simp add: shared_init_def)

text \<open>
  C30. Handles of a shared counter: in every run, an object exists exactly while handles refer to it,
  its number of references is the number of those handles, and its counter is within its limit; so an
  operation of a handle never meets an object that is gone, and the last handle deletes the object.
\<close>

theorem shared_counter_references:
  assumes "sc_run allocate deallocate sizeof handles m"
  shows "(\<forall>p. p \<in> set handles \<longleftrightarrow> (\<exists>c. cm_cells m p = Some c)) \<and>
    (\<forall>p c. cm_cells m p = Some c \<longrightarrow> unat (ic_refs c) = count_list handles p \<and> ct_value (ic_counter c) \<le> ct_max (ic_counter c)) \<and>
    (\<forall>p \<in> set handles. \<exists>m'. intrusive_ptr_release deallocate sizeof p m = Some m' \<and>
       (cm_cells m' p = None \<longleftrightarrow> count_list handles p = 1))"
proof -
  note ok = run_refs_ok [OF assms]
  have release: "\<exists>m'. intrusive_ptr_release deallocate sizeof p m = Some m' \<and> (cm_cells m' p = None \<longleftrightarrow> count_list handles p = 1)"
    if p: "p \<in> set handles" for p
  proof -
    obtain c where c: "cm_cells m p = Some c" using refs_ok_in [OF ok p] by blast
    have "ic_refs c - 1 = 0 \<longleftrightarrow> count_list handles p = 1"
      using refs_okD [OF ok c] by (metis eq_iff_diff_eq_0 unat_1 word_unat_eq_iff)
    with c show ?thesis by (auto simp: intrusive_ptr_release_def delete_this_def Let_def)
  qed
  show ?thesis using refs_okD [OF ok] refs_ok_in [OF ok] release by (auto simp: counter_ok_def)
qed

theorem shared_counter_references_witness:
  "\<exists>m. sc_run (\<lambda>n a. (Inr a, a + unat n)) (\<lambda>_ _ a. a) 48 [5] m \<and>
    map_option (\<lambda>c. (unat (ic_refs c), ct_value (ic_counter c))) (cm_cells m 5) = Some (1, 48)"
proof -
  let ?allocate = "\<lambda>n a. (Inr a, a + unat (n :: u64))"
  have "sc_run ?allocate (\<lambda>_ _ a. a) 48 [5] \<lparr>cm_cells = [5 \<mapsto>
      \<lparr>ic_counter = \<lparr>ct_max = 100, ct_value = 48\<rparr>, ic_refs = 1, ic_own_alloc = True\<rparr>], cm_alloc = 53\<rparr>"
    by (rule sc_run.new_alloc [where m = "\<lparr>cm_cells = Map.empty, cm_alloc = 5\<rparr>" and max_value = 100])
      (simp_all add: allocate_counter_Inr sc_run.empty)
  from this shared_counter_references [OF this] show ?thesis by (intro exI conjI) (assumption, simp)
qed

section \<open>Marshaling\<close>

text \<open>
  Marshaling a struct with any of the three protocols, in any of their versions, appends the magic
  number and the version of the protocol and the encoding of the struct to a memory stream in any state.
\<close>

theorem marshal_appends:
  assumes "wf_struct (f_may_omit_fields (format_of p)) x" and "os_holds out c"
    and "length c + 4 + length (encoding p x) < 2 ^ 31"
  shows "\<exists>out'. Marshal noinit memory_stream p x out = Inr out' \<and>
    os_holds out' (c @ le_bytes 2 (magic_of p) @ le_bytes 2 (version_of p) @ encoding p x)"
  using stream_appendsD [OF plain.Marshal_appends [OF assms(1)] assms(2)] assms(3) by (simp add: header_def)

theorem marshal_appends_witness:
  "\<exists>out'. Marshal (\<lambda>_. 0) memory_stream (CompactBinary v2) sample_struct sample_stream = Inr out' \<and>
    os_holds out' [0x43, 0x42, 2, 0, 17, 0x02, 1, 1, 0xca, 6, 4, 0x25, 0xac, 0x02, 0, 0xeb, 0x2c, 0x01, 0x6f, 2, 4, 0]"
proof -
  have "le_bytes 2 compact_magic = [0x43, 0x42]" "le_bytes 2 v2 = [2, 0]" by code_simp+
  then show ?thesis
    using marshal_appends [of "CompactBinary v2" sample_struct sample_stream "[]" "\<lambda>_. 0"] sample_wf(1) sample_stream_holds
    by (simp add: sample_compact compact_format_simps)
qed

text \<open>
  C7. Marshaled objects come back: an object that conforms to its schema, marshaled with any of the
  three protocols in a version that the readers support and unmarshaled from the stream's buffer, is the
  object again, and the protocol that was found is the one it was written with.
\<close>

theorem marshal_roundtrip:
  assumes "supported p" and "conforms s x" and "wf_struct (f_may_omit_fields (format_of p)) x"
    and "4 + length (encoding p x) < 2 ^ 31" and "alloc_ok alloc"
  shows "\<exists>out b y. Marshal noinit memory_stream p x (OutputMemoryStream_empty junk) = Inr out \<and>
    os_GetBuffer alloc addr out = Inr b \<and>
    Unmarshal s (InputBuffer_of b) = Inr (magic_of p, y) \<and> erase_struct y = erase_struct x"
proof -
  obtain out b where "Marshal noinit memory_stream p x (OutputMemoryStream_empty junk) = Inr out"
      "os_GetBuffer alloc addr out = Inr b" "ib_at (InputBuffer_of b) (header p @ encoding p x)"
    using stream_written [OF plain.Marshal_appends [OF assms(3)] assms(5)] assms(4) by force
  with Unmarshal_header [OF assms(1) _ assms(2,3), of "InputBuffer_of b" "[]"] show ?thesis by auto
qed

theorem marshal_roundtrip_witness:
  "\<exists>out b y. Marshal (\<lambda>_. 0) memory_stream FastBinary sample_struct (OutputMemoryStream_empty (\<lambda>_. 0)) = Inr out \<and>
    os_GetBuffer sample_alloc (\<lambda>_. 64) out = Inr b \<and>
    Unmarshal sample_schema (InputBuffer_of b) = Inr (fast_magic, y) \<and> erase_struct y = erase_struct sample_struct"
  using marshal_roundtrip [OF _ sample_conforms _ _ sample_alloc_ok, where p = FastBinary] sample_wf(1)
  by (simp add: supported_def fast_version_def v2_def fast_format_simps sample_fast)

text \<open>
  Which protocol a payload is read with depends only on its magic number and version: a known magic
  number with a version that the protocol supports selects its reader, which is applied behind the
  header, and every other header is refused as an unsupported protocol.
\<close>

theorem unmarshal_dispatch:
  assumes "ib_at ib (le_bytes 2 m @ le_bytes 2 v @ rest)"
  shows "Unmarshal s ib =
    (if m = compact_magic \<and> v \<le> v2 then res_bind (Deserialize (compact_reader v) s (ib_adv 4 ib)) (\<lambda>(y, _). Inr (m, y))
     else if m = simple_magic \<and> v \<le> v2 then res_bind (Deserialize (simple_reader v) s (ib_adv 4 ib)) (\<lambda>(y, _). Inr (m, y))
     else if m = fast_magic \<and> v \<le> fast_version then res_bind (Deserialize fast_reader s (ib_adv 4 ib)) (\<lambda>(y, _). Inr (m, y))
     else Inl UnknownProtocolException)"
  by (simp add: Unmarshal_def dispatched_def NextProtocol_header [OF assms])

theorem unmarshal_dispatch_witness:
  "Unmarshal sample_schema (InputBuffer_of (sample_blob [0x4a, 0x53, 1, 0])) = Inl UnknownProtocolException"
proof -
  have "le_bytes 2 (0x534a :: u16) @ le_bytes 2 (1 :: u16) @ [] = [0x4a, 0x53, 1, 0]" by code_simp
  with unmarshal_dispatch [where ib = "InputBuffer_of (sample_blob [0x4a, 0x53, 1, 0])" and m = "0x534a" and v = 1 and rest = "[]"]
    sample_at [of "[0x4a, 0x53, 1, 0]"]
  show ?thesis by (simp add: compact_magic_def simple_magic_def fast_magic_def del: le_bytes.simps)
qed

text \<open>
  C8. Unmarshaling arbitrary bytes terminates with an exception of the library or with an object of the
  type of the schema, read by one of the three protocols.
\<close>

theorem unmarshal_safe:
  assumes "schema_ok s" and "ib_ok ib"
  shows "(\<exists>e. Unmarshal s ib = Inl e \<and> e \<notin> {UndefinedShift, OutOfBounds, OutOfFuel}) \<or>
    (\<exists>m y. Unmarshal s ib = Inr (m, y) \<and> m \<in> {compact_magic, simple_magic, fast_magic} \<and> shaped_struct s y)"
  using Unmarshal_safe [OF assms] by (auto simp: defined_exn_def split: sum.splits)

theorem unmarshal_safe_witness:
  "(\<exists>e. Unmarshal sample_schema (InputBuffer_of (sample_blob [0x43, 0x42, 1])) = Inl e \<and>
      e \<notin> {UndefinedShift, OutOfBounds, OutOfFuel}) \<or>
   (\<exists>m y. Unmarshal sample_schema (InputBuffer_of (sample_blob [0x43, 0x42, 1])) = Inr (m, y) \<and>
      m \<in> {compact_magic, simple_magic, fast_magic} \<and> shaped_struct sample_schema y)"
proof (rule unmarshal_safe)
  show "schema_ok sample_schema" using sample_conforms by (simp add: conforms_def)
  show "ib_ok (InputBuffer_of (sample_blob [0x43, 0x42, 1]))" by (rule ib_at_ok, rule sample_at) simp
qed

section \<open>Run-time schemas\<close>

text \<open>
  C14. What \<open>Validate\<close> promises: when the run-time schema of a struct validates against that of another
  one, every payload of the first, written by a tagged protocol, is deserialized as the second without
  an error; the reader ends behind the payload, and the result is the view of the payload in the
  destination schema.
\<close>

theorem validated_deserializes:
  assumes "tagged_protocol R F" and "Validate (GetRuntimeSchema src) (GetRuntimeSchema dst) = Inr identical"
    and "names_ok src" "names_ok dst" "declared src" "declared dst" and "shaped_struct src x" "wf_struct True x"
    and "ib_at ib (fst (enc_struct F False x) @ rest)"
  shows "\<exists>y. Deserialize R dst ib = Inr (y, ib_adv (length (fst (enc_struct F False x))) ib) \<and>
    view_object dst x = Inr (erase_struct y) \<and> shaped_struct dst (erase_struct y)"
  using assms by (rule Validate_Deserialize)

theorem validated_deserializes_witness:
  "\<exists>y. Deserialize fast_reader
      (Schema Metadata_init None [FieldDef 1 Metadata_init False (TBasic BT_UINT32), FieldDef 2 Metadata_init False (TBasic BT_STRING)])
      (InputBuffer_of (sample_blob [3, 1, 0, 7, 0])) =
        Inr (y, ib_adv (length [3, 1, 0, 7, 0 :: byte]) (InputBuffer_of (sample_blob [3, 1, 0, 7, 0])))"
proof -
  let ?src = "Schema Metadata_init None [FieldDef 1 Metadata_init False (TBasic BT_UINT8)]"
    and ?dst = "Schema Metadata_init None [FieldDef 1 Metadata_init False (TBasic BT_UINT32), FieldDef 2 Metadata_init False (TBasic BT_STRING)]"
    and ?x = "Struct Metadata_init None [Field 1 Metadata_init (VUInt8 7)]"
  have enc: "fst (enc_struct fast_format False ?x) = [3, 1, 0, 7, 0]" by (simp add: encode_simps)
  have at: "ib_at (InputBuffer_of (sample_blob [3, 1, 0, 7, 0])) (fst (enc_struct fast_format False ?x) @ [])"
    unfolding enc using sample_at [of "[3, 1, 0, 7, 0]"] by simp
  have "Validate (GetRuntimeSchema ?src) (GetRuntimeSchema ?dst) = Inr False"
    by (simp add: validate_simps Metadata_init_def)
  moreover have "names_ok ?src" "names_ok ?dst" by (simp_all add: names_ok_def)
  moreover have "declared ?src" "declared ?dst" by (simp_all add: declared_def invalid_field_id_def)
  moreover have "shaped_struct ?src ?x" "wf_struct True ?x" by simp_all
  ultimately show ?thesis
    using validated_deserializes [OF tagged_protocol_simps(2) _ _ _ _ _ _ _ at] unfolding enc by blast
qed

text \<open>
  C19. The run-time schema built for a compile-time schema represents it: the root and the types of all
  fields, elements and bases lead to the structs of the compile-time schema, each struct is there
  with its metadata and its fields in order, and a struct that is used twice or that is being built is
  found by its name.
\<close>

theorem runtime_schema_represents:
  assumes "names_ok s"
  shows "represents (GetRuntimeSchema s) s"
  using assms by (rule GetRuntimeSchema_represents)

theorem runtime_schema_represents_witness:
  "represents
     (GetRuntimeSchema (Schema Metadata_init (Some (Schema (Metadata_init\<lparr>md_qualified_name := ''b''\<rparr>) None []))
        [FieldDef 1 Metadata_init False (TList (TStruct (Schema (Metadata_init\<lparr>md_qualified_name := ''b''\<rparr>) None [])))]))
     (Schema Metadata_init (Some (Schema (Metadata_init\<lparr>md_qualified_name := ''b''\<rparr>) None []))
        [FieldDef 1 Metadata_init False (TList (TStruct (Schema (Metadata_init\<lparr>md_qualified_name := ''b''\<rparr>) None [])))])"
  by (rule runtime_schema_represents) (simp add: names_ok_def Metadata_init_def)

text \<open>
  C20. Validation of two well-formed run-time schemas ends with a verdict or with one of the
  exceptions for incompatible schemas, also when their structs refer to themselves through fields and
  elements.
\<close>

theorem validation_terminates:
  assumes "rs_ok src" and "rs_ok dst" and "rs_GetTypeId src = BT_STRUCT" and "rs_GetTypeId dst = BT_STRUCT"
  shows "(\<exists>identical. Validate src dst = Inr identical) \<or> (\<exists>m. Validate src dst = Inl (CoreException m))"
  using Validate_ends [OF assms] by (cases "Validate src dst") (auto simp: validated_def)

text \<open>a struct with a list of itself\<close>

definition tree_schema :: RuntimeSchema where
  "tree_schema = RuntimeSchema_of \<lparr>sd_structs =
     [\<lparr>st_metadata = Metadata_init, st_base_def = None,
       st_fields = [\<lparr>rf_metadata = Metadata_init, rf_id = 0, rf_type = TypeDef BT_LIST 0 (Some (struct_td 0)) None False\<rparr>]\<rparr>],
     sd_root = struct_td 0\<rparr>"

theorem validation_terminates_witness:
  "(\<exists>identical. Validate tree_schema tree_schema = Inr identical) \<or>
   (\<exists>m. Validate tree_schema tree_schema = Inl (CoreException m))"
  by (rule validation_terminates)
     (simp_all add: tree_schema_def RuntimeSchema_of_def rs_ok_def schema_def_ok_def struct_ok_def schema_depth_def
       HasBase_def GetStruct_def)

section \<open>Pass-through\<close>

text \<open>
  Fast pass-through copies exactly one struct: with a compact binary reader positioned at an
  encoded struct, the bytes of that struct are appended to the output and the reader is left just
  after it.
\<close>

theorem compact_pass_through:
  assumes "wf_struct True s" and "ib_at ib (fst (enc_struct (compact_format v) False s) @ rest)"
    and "os_holds out c" and "length c + length (fst (enc_struct (compact_format v) False s)) < 2 ^ 31"
  shows "\<exists>out'. PassThrough (cr_SkipType v BT_STRUCT) memory_stream ib out =
      Inr (ib_adv (length (fst (enc_struct (compact_format v) False s))) ib, out') \<and>
    os_holds out' (c @ fst (enc_struct (compact_format v) False s))"
  using mem.PassThrough_copies [OF _ assms(2-4), of "cr_SkipType v BT_STRUCT"]
    cr_SkipType_encoded [of "VStruct s" ib v rest] assms(1,2) by simp

theorem compact_pass_through_witness:
  "\<exists>out'. PassThrough (cr_SkipType v2 BT_STRUCT) memory_stream
      (InputBuffer_of (sample_blob (fst (enc_struct (compact_format v2) False sample_struct) @ [7, 7])))
      sample_stream =
      Inr (ib_adv (length (fst (enc_struct (compact_format v2) False sample_struct)))
        (InputBuffer_of (sample_blob (fst (enc_struct (compact_format v2) False sample_struct) @ [7, 7]))), out') \<and>
    os_holds out' (fst (enc_struct (compact_format v2) False sample_struct))"
  using compact_pass_through [OF sample_wf(1) _ sample_stream_holds, of _ v2 "[7, 7]"] sample_at
  by (simp add: sample_compact)

section \<open>Streams\<close>

text \<open>
  C22. Writing a block of memory to an output memory stream, whether it fits the current buffer or
  is split over the current and a newly allocated one, appends the block to the content; the blob
  returned by \<open>GetBuffer\<close> and the blobs returned by \<open>GetBuffers\<close> have exactly that content.
\<close>

theorem memory_stream_write:
  assumes "os_ok s" and "length (os_content s) + length buffer < 2 ^ 31" and "alloc_ok alloc"
  shows "\<exists>s' b. os_write_mem buffer s = Inr s' \<and> os_ok s' \<and>
    os_GetBuffer alloc addr s' = Inr b \<and> blob_bytes b = os_content s @ buffer \<and>
    concat (map blob_bytes (os_GetBuffers addr s')) = os_content s @ buffer"
proof -
  from os_appendsD [OF os_write_mem_appends assms(1,2)]
  obtain s' where s': "os_write_mem buffer s = Inr s'" "os_ok s'" "os_content s' = os_content s @ buffer"
    by blast
  then show ?thesis
    using os_GetBuffer_content [OF s'(2) assms(3), of addr] os_GetBuffers_content(1) [OF s'(2), of addr] assms(2)
    by auto
qed

theorem memory_stream_write_witness:
  "\<exists>s' b. os_write_mem [1, 2, 3] (OutputMemoryStream_on (\<lambda>_. 0) [9, 9] 2 32 (- 1)) = Inr s' \<and> os_ok s' \<and>
    os_GetBuffer sample_alloc (\<lambda>_. 64) s' = Inr b \<and> blob_bytes b = [1, 2, 3] \<and>
    concat (map blob_bytes (os_GetBuffers (\<lambda>_. 64) s')) = [1, 2, 3]"
  using memory_stream_write [of "OutputMemoryStream_on (\<lambda>_. 0) [9, 9] 2 32 (- 1)" "[1, 2, 3]",
      OF _ _ sample_alloc_ok, of "\<lambda>_. 64"] by (simp add: os_ok_on)

text \<open>
  Writing a blob to an output memory stream, whether it is copied or chained, appends its bytes;
  the bytes written before are unchanged.
\<close>

theorem memory_stream_write_blob:
  assumes "os_ok s" and "blob_wf b" and "length (os_content s) + length (blob_bytes b) < 2 ^ 31"
  shows "\<exists>s'. os_write_blob b s = Inr s' \<and> os_ok s' \<and> os_content s' = os_content s @ blob_bytes b"
  using os_appendsD [OF os_write_blob_appends [OF assms(2)] assms(1,3)] .

theorem memory_stream_write_blob_witness:
  "\<exists>s'. os_write_blob (sample_blob [1, 2, 3]) (OutputMemoryStream_on (\<lambda>_. 0) [9, 9] 2 3 (- 1)) = Inr s' \<and>
    os_ok s' \<and> os_content s' = [1, 2, 3]"
  using memory_stream_write_blob [of "OutputMemoryStream_on (\<lambda>_. 0) [9, 9] 2 3 (- 1)" "sample_blob [1, 2, 3]"]
    sample_blob_wf [of "[1, 2, 3]"] by (simp add: os_ok_on) (simp add: sample_blob_def)



section \<open>Variable-length integers\<close>

text \<open>
  C27. \<open>WriteVariableUnsigned\<close> followed by \<open>ReadVariableUnsigned\<close> is the identity for the three
  widths the library instantiates, on the unrolled and on the generic paths of both.
\<close>

theorem varint_roundtrip:
  fixes x :: "'a::len word"
  assumes "LENGTH('a) \<in> {16, 32, 64}" and "alloc_ok alloc" and "length buffer < 2 ^ 32"
  shows "\<exists>s b ib. os_WriteVariableUnsigned x (OutputMemoryStream_on noinit buffer (of_nat (length buffer)) mn mx) = Inr s \<and>
    os_GetBuffer alloc addr s = Inr b \<and> ReadVariableUnsigned (InputBuffer_of b) = Inr (x, ib) \<and> ib_IsEof ib"
proof -
  let ?s = "OutputMemoryStream_on noinit buffer (of_nat (length buffer)) mn mx"
  have "length (varint (unat x)) < 2 ^ 31"
    using length_varint_word [OF assms(1), of x] assms(1) by auto
  moreover have "os_holds ?s []"
    using assms(3) by (simp add: os_holds_def os_ok_on unat_of_nat_small)
  ultimately obtain s where s: "os_WriteVariableUnsigned x ?s = Inr s" "os_holds s (varint (unat x))"
    using stream_appendsD [OF os_holds_appends [OF os_WriteVariableUnsigned_appends [OF assms(1), of x]], of ?s "[]"]
    by auto
  with \<open>length (varint (unat x)) < 2 ^ 31\<close> obtain b where b: "os_GetBuffer alloc addr s = Inr b"
      "ib_at (InputBuffer_of b) (varint (unat x))"
    using stream_to_buffer [OF s(2) _ assms(2)] by blast
  with s decodesD [OF decodes_varint [OF assms(1), of x], of "InputBuffer_of b" "[]"] eof_after_all
  show ?thesis by auto
qed

theorem varint_roundtrip_witness:
  "\<exists>s b ib. os_WriteVariableUnsigned (300 :: u32) (OutputMemoryStream_on (\<lambda>_. 0) [0] 1 32 (- 1)) = Inr s \<and>
    os_GetBuffer sample_alloc (\<lambda>_. 64) s = Inr b \<and>
    ReadVariableUnsigned (InputBuffer_of b) = Inr (300 :: u32, ib) \<and> ib_IsEof ib"
  using varint_roundtrip [where x = "300 :: u32" and buffer = "[0]", OF _ sample_alloc_ok] by simp

text \<open>
  \<open>ReadVariableUnsigned\<close> on arbitrary bytes either throws the end-of-stream exception or
  consumes at least one byte and no more than the buffer has; neither path reads outside the buffer
  or shifts by too much.
\<close>

theorem varint_read_safe:
  assumes "LENGTH('a::len) \<in> {16, 32, 64}" and "ib_ok ib"
  shows "(\<exists>x k. (ReadVariableUnsigned ib :: ('a word \<times> InputBuffer) res) = Inr (x, ib_adv k ib) \<and>
      0 < k \<and> k \<le> length (ib_rest ib)) \<or>
    (\<exists>e. (ReadVariableUnsigned ib :: ('a word \<times> InputBuffer) res) = Inl (EofException e 1))"
  using ReadVariableUnsigned_safe [OF assms] .

theorem varint_read_safe_witness:
  "(\<exists>x k. (ReadVariableUnsigned (InputBuffer_of (sample_blob [0xff, 0xff])) :: (u32 \<times> InputBuffer) res) =
      Inr (x, ib_adv k (InputBuffer_of (sample_blob [0xff, 0xff]))) \<and>
      0 < k \<and> k \<le> length (ib_rest (InputBuffer_of (sample_blob [0xff, 0xff])))) \<or>
    (\<exists>e. (ReadVariableUnsigned (InputBuffer_of (sample_blob [0xff, 0xff])) :: (u32 \<times> InputBuffer) res) =
      Inl (EofException e 1))"
  by (rule varint_read_safe) (simp, rule ib_at_ok, rule sample_at, simp)

text \<open>
  The zigzag encoding has the documented numbering (0, -1, 1, -2 are 0, 1, 2, 3) and the decoder
  inverts it, at every width.
\<close>

theorem zigzag_numbering:
  "DecodeZigZag (EncodeZigZag x) = x \<and>
   uint (EncodeZigZag x) = (if 0 \<le> sint x then 2 * sint x else - 2 * sint x - 1)"
  by (simp only: DecodeZigZag_EncodeZigZag EncodeZigZag_numbering simp_thms)


section \<open>Blobs and checked arithmetic\<close>

text \<open>
  A view of a blob is created exactly when it lies inside the blob, and is that slice of it;
  otherwise the constructor throws, also when offset and length overflow 32 bits.
\<close>

theorem blob_range_bounds:
  assumes "blob_wf b"
  shows "(unat offset + unat len \<le> unat (blob_length b) \<and>
      (\<exists>r. blob_range b offset len = Inr r \<and> blob_wf r \<and>
         blob_bytes r = take (unat len) (drop (unat offset) (blob_bytes b)))) \<or>
    (unat (blob_length b) < unat offset + unat len \<and>
      blob_range b offset len =
        Inl (if unat offset + unat len < 2 ^ 32 then InvalidArgument else OverflowError))"
proof (cases "unat offset + unat len \<le> unat (blob_length b)")
  case True
  with blob_range_Inr [OF assms, of offset len] show ?thesis by auto
next
  case False
  with blob_range_Inl [of b offset len] show ?thesis by simp
qed

theorem blob_range_bounds_witness:
  "\<exists>r. blob_range (sample_blob [1, 2, 3]) 1 2 = Inr r \<and> blob_bytes r = [2, 3]"
  using blob_range_bounds [OF sample_blob_wf [of "[1, 2, 3]"], of 1 2]
  by (auto simp: sample_blob_def)

text \<open>
  Merging a sequence of blobs gives a blob with the concatenation of their bytes; when the total
  does not fit 32 bits the merge throws instead of wrapping around.
\<close>

theorem blob_merge_all_concat:
  assumes "alloc_ok alloc" and "\<forall>b \<in> set bs. blob_wf b"
  shows "if length (concat (map blob_bytes bs)) < 2 ^ 32
    then \<exists>r. blob_merge_all alloc bs = Inr r \<and> blob_wf r \<and> blob_bytes r = concat (map blob_bytes bs)
    else blob_merge_all alloc bs = Inl OverflowError"
  using blob_merge_all_Inr [OF assms] blob_merge_all_Inl [OF assms(2)] by simp

theorem blob_merge_all_concat_witness:
  "\<exists>r. blob_merge_all sample_alloc [sample_blob [1, 2], sample_blob [3]] = Inr r \<and> blob_wf r \<and>
     blob_bytes r = [1, 2, 3]"
  using blob_merge_all_concat [OF sample_alloc_ok, of "[sample_blob [1, 2], sample_blob [3]]"]
    sample_blob_wf [of "[1, 2]"] sample_blob_wf [of "[3]"] by (simp add: sample_blob_def)

text \<open>
  \<open>checked_multiply\<close> of a 32-bit size and a byte returns the exact product, or throws when the
  product does not fit.
\<close>

theorem checked_multiply_exact:
  "checked_multiply (sz :: u32) n =
    (if unat sz * unat n < 2 ^ 32 then Inr (of_nat (unat sz * unat n)) else Inl OverflowError)"
  using checked_multiply_spec [of sz n] by simp

text \<open>
  The growable array of the compact writer is a stack: elements pushed onto it, growing the
  storage as often as needed, are popped in reverse order, and what was there before is untouched.
\<close>

theorem simple_array_lifo:
  assumes "sa_ok a" and "length (sa_list a) + length xs \<le> 2 ^ 31"
  shows "\<exists>a' a''. sa.push_all xs a = Inr a' \<and> sa.pop_all (length xs) a' = Inr (rev xs, a'') \<and>
    sa_ok a'' \<and> sa_list a'' = sa_list a"
  using sa.push_pop_all [OF assms] .

theorem simple_array_lifo_witness:
  "\<exists>a' a''. sa.push_all [1 :: u32, 2, 3] (SimpleArray_empty (\<lambda>_. 0)) = Inr a' \<and>
    sa.pop_all 3 a' = Inr ([3, 2, 1], a'') \<and> sa_ok a'' \<and> sa_list a'' = []"
  using simple_array_lifo [of "SimpleArray_empty (\<lambda>_. 0)" "[1 :: u32, 2, 3]"]
  by (simp add: sa_ok_empty numeral_3_eq_3)

section \<open>Simple JSON\<close>



text \<open>
  Writing a wide string to a memory stream appends a string literal, and decoding its escapes gives
  the characters back, truncated to 16 bits: strings of UTF-16 code units are preserved, whatever
  quotes, control characters and surrogates they have.
\<close>

theorem json_wstring_roundtrip:
  assumes "os_holds os c" and "length c + length (wstring_text s) + 2 < 2 ^ 31"
  shows "\<exists>w t. jw_WriteWString memory_stream s (SimpleJsonWriter_init os False 4 True) = Inr w \<and>
    os_holds (jw_output w) (c @ string_literal t) \<and> string_units t = Some (map ucast s)"
proof -
  let ?F = "\<lparr>jf_rapidjson = decimal_writer, jf_pretty = False, jf_indent = 4, jf_all_fields = True\<rparr>"
  have "jw_at os_holds ?F (SimpleJsonWriter_init os False 4 True) c 0 0"
    using assms(1) by (simp add: jw_at_def SimpleJsonWriter_init_def)
  with mem.emits_textD [OF mem.emits_wstring this, of s] assms(2) string_units_wstring [of s] show ?thesis
    by (auto simp: jw_at_def string_literal_def)
qed

theorem json_wstring_roundtrip_witness:
  "\<exists>w t. jw_WriteWString memory_stream [0x22, 0x41, 0x0a, 0x01, 0xd83d, 0xde00]
       (SimpleJsonWriter_init sample_stream False 4 True) = Inr w \<and>
     os_holds (jw_output w) (string_literal t) \<and> string_units t = Some [0x22, 0x41, 0x0a, 0x01, 0xd83d, 0xde00]"
  using json_wstring_roundtrip [of sample_stream "[]" "[0x22, 0x41, 0x0a, 0x01, 0xd83d, 0xde00]"]
  by (simp add: sample_stream_holds wstring_text_def wchar_text_def escaped_def escape_letter_def unicode_escape_def)

text \<open>
  C40. A field that a payload does not have is written by \<open>OmittedField\<close> with its default value. For a map
  this is the empty object, but an empty map is written as the empty array everywhere else, which is
  what the reader expects; for a struct the writer runs into a failing assertion.
\<close>

theorem json_omitted_map_is_object:
  assumes "writes_json (jf_rapidjson F)" and "jw_at os_holds F w c n l" and "n < length c" and "l \<le> length c"
    and "jf_all_fields F" and "\<not> nothing (md_default_value md)"
    and "length c + length (body_text F l (n = 0) [(True, member_text F md (block_text F l LBRACE RBRACE []))]) < 2 ^ 31"
  shows "(\<exists>w'. js_OmittedField memory_stream (jf_rapidjson F) fid md BT_MAP w = Inr w' \<and>
      os_holds (jw_output w') (c @ body_text F l (n = 0) [(True, member_text F md (block_text F l LBRACE RBRACE []))])) \<and>
    json_text (block_text F l LBRACE RBRACE []) (JObject []) \<and>
    json_text (value_text F l (VMap k t [])) (JArray []) \<and>
    js_OmittedField memory_stream (jf_rapidjson F) fid md BT_STRUCT w = Inl AssertionFailed"
proof -
  have "jw_all_fields w" using assms(2,5) by (simp add: jw_at_def)
  moreover from mem.emits_bodyD [OF mem.emits_omitted(2) [OF assms(1)] assms(2) TrueI refl assms(3,4,7)] obtain w' where
    "js_OmittedValue memory_stream (jf_rapidjson F) fid md BT_MAP w = Inr w'"
    "os_holds (jw_output w') (c @ body_text F l (n = 0) [(True, member_text F md (block_text F l LBRACE RBRACE []))])"
    unfolding jw_at_def by blast
  moreover have "json_text (block_text F l LBRACE RBRACE []) (JObject [])" by (rule block_text_object) simp
  moreover have "json_text (value_text F l (VMap k t [])) (JArray [])" by (simp add: block_text_array)
  ultimately show ?thesis using assms(6) by (simp add: js_OmittedField_def)
qed

theorem json_omitted_map_is_object_witness:
  "\<exists>w w'. jw_WriteOpen memory_stream LBRACE (SimpleJsonWriter_init sample_stream False 4 True) = Inr w \<and>
     js_OmittedField memory_stream decimal_writer 0 Metadata_init BT_MAP w = Inr w' \<and>
     os_holds (jw_output w') ([LBRACE] @ [QUOTE, QUOTE, COLON, LBRACE, RBRACE])"
proof -
  define F where "F = \<lparr>jf_rapidjson = decimal_writer, jf_pretty = False, jf_indent = 4, jf_all_fields = True\<rparr>"
  have "jw_at os_holds F (SimpleJsonWriter_init sample_stream False 4 True) [] 0 0"
    by (simp add: jw_at_def SimpleJsonWriter_init_def F_def sample_stream_holds)
  then obtain w0 where w0: "jw_char memory_stream LBRACE (SimpleJsonWriter_init sample_stream False 4 True) = Inr w0"
      "jw_at os_holds F w0 [LBRACE] 0 0"
    using mem.emits_textD [OF mem.emits_char, of F _ "[]" 0 0 LBRACE] by auto
  define w where "w = w0\<lparr>jw_level := 1, jw_count := 0\<rparr>"
  have "jw_WriteOpen memory_stream LBRACE (SimpleJsonWriter_init sample_stream False 4 True) = Inr w"
    using w0 by (simp add: jw_WriteOpen_def seq_def int_inc_def jw_at_def w_def)
  moreover have at: "jw_at os_holds F w [LBRACE] 0 1" using w0(2) by (simp add: jw_at_def w_def)
  moreover have "body_text F 1 True [(True, member_text F Metadata_init (block_text F 1 LBRACE RBRACE []))] =
      [QUOTE, QUOTE, COLON, LBRACE, RBRACE]"
    by (simp add: F_def newline_text_def member_text_def name_text_def FieldName_def Metadata_init_def bytes_of_string_def
        decimal_writer_def string_literal_def block_text_def)
  ultimately show ?thesis
    using json_omitted_map_is_object [of F w "[LBRACE]" 0 1 Metadata_init 0] writes_json_decimal
    by (auto simp: F_def Metadata_init_def Variant_init_def)
qed


definition sample_json_schema :: sschema where
  "sample_json_schema =
     Schema Metadata_init
       (Some (Schema Metadata_init None [FieldDef 0 (Metadata_init\<lparr>md_name := ''flag''\<rparr>) False (TBasic BT_BOOL)]))
       [FieldDef 1 (Metadata_init\<lparr>md_name := ''name''\<rparr>) False (TBasic BT_WSTRING),
        FieldDef 2 (Metadata_init\<lparr>md_name := ''map''\<rparr>) False (TMap BT_UINT8 (TList (TBasic BT_INT16)))]"

definition sample_json :: bstruct where
  "sample_json =
     Struct Metadata_init (Some (Struct Metadata_init None [Field 0 (Metadata_init\<lparr>md_name := ''flag''\<rparr>) (VBool True)]))
       [Field 1 (Metadata_init\<lparr>md_name := ''name''\<rparr>) (VWString [0x22, 0xd83d, 0xde00]),
        Field 2 (Metadata_init\<lparr>md_name := ''map''\<rparr>) (VMap BT_UINT8 BT_LIST [(VUInt8 1, VList BT_INT16 [VInt16 (-5)])])]"


definition sample_parser :: "byte list \<Rightarrow> json \<Rightarrow> (RapidJsonInputStream, json) st" where
  "sample_parser t j s = (if ris_text s = t then Inr (j, s) else Inl AssertionFailed)"

lemma sample_json_fits: "json_fits plain_value plain_writer (\<lambda>t. t) sample_json_schema sample_json"
proof -
  have "conforms sample_json_schema sample_json"
    by (simp add: conforms_def sample_json_schema_def sample_json_def Metadata_init_def Variant_init_def
        invalid_field_id_def omit_field_def)
  moreover have "json_exact_struct plain_value plain_writer (\<lambda>t. t) sample_json_schema sample_json"
    by (simp add: sample_json_schema_def sample_json_def)
  moreover have "json_names_ok plain_value (hierarchy_fields sample_json_schema)"
    by (simp add: json_names_ok_def sample_json_schema_def field_key_def FieldName_def bytes_of_string_def c_str_def
        plain_value_def is_digits_def is_digit_def Metadata_init_def)
  ultimately show ?thesis by (simp add: json_fits_def sample_json_def)
qed


text \<open>
  C25. Whatever document RapidJSON makes of a text, deserialization gives an object of the type of the
  schema or throws one of four exceptions of the library. It runs into an assertion of RapidJSON only
  if the schema has a map to a basic type.
\<close>

theorem json_deserialize_typed:
  assumes "kinds_ok D" and "alloc_ok alloc" and "schema_ok s" and "ParseStream ris = Inr (document, ris')"
  shows "case json_Deserialize D alloc ParseStream s ris of
      Inl e \<Rightarrow> e \<in> {InvalidKeyTypeException, ElementNotFoundException, MissingFieldException, UnicodeConversionException} \<or>
        may_assert_struct s \<and> e = AssertionFailed
    | Inr (y, ris'') \<Rightarrow> shaped_struct s y \<and> ris'' = ris'"
  using json_Deserialize_outcome [where ParseStream = ParseStream, OF assms(2,1,3,4)]
  by (auto simp: dom_outcome_def res_outcome_def json_exn_def split: sum.splits)

theorem json_deserialize_typed_witness:
  "let ris = \<lparr>ris_input = InputBuffer_of (sample_blob []), ris_current = 0, ris_count = 0\<rparr>;
       document = JObject [([0x66, 0x6c, 0x61, 0x67], JNull), ([0x6d, 0x61, 0x70], JArray [JNumber [0x31]])]
   in case json_Deserialize plain_value sample_alloc (sample_parser [] document) sample_json_schema ris of
      Inl e \<Rightarrow> e \<in> {InvalidKeyTypeException, ElementNotFoundException, MissingFieldException, UnicodeConversionException} \<or>
        may_assert_struct sample_json_schema \<and> e = AssertionFailed
    | Inr (y, ris'') \<Rightarrow> shaped_struct sample_json_schema y \<and> ris'' = ris"
proof -
  have "kinds_ok plain_value"
    by (auto simp: kinds_ok_def plain_value_def number_is_def split: json.splits)
  moreover have "schema_ok sample_json_schema" using sample_json_fits by (simp add: json_fits_def conforms_def)
  moreover have "ris_text \<lparr>ris_input = InputBuffer_of (sample_blob []), ris_current = 0, ris_count = 0\<rparr> = []"
    using sample_at [of "[]"] by (simp add: ris_text_def ib_at_def)
  ultimately show ?thesis
    unfolding Let_def
    by (intro json_deserialize_typed [OF _ sample_alloc_ok]) (simp_all add: sample_parser_def)
qed

text \<open>
  C39. The reader checks the kind of a document before it reads an element of a list or a set or a key
  of a map, but not before it reads a value of a map: where a list ignores an element of another kind,
  a map runs into the assertion of the accessor.
\<close>

theorem json_map_value_unchecked:
  assumes "rv_IsArray D j" and "rv_Elements D j = [k, v]" and "rv_IsArray D j'" and "rv_Elements D j' = [v]"
    and "BasicTypeMatch D (JsonTypeMatching_init BT_STRING BT_STRING False) k" and "rv_IsString D k"
    and "\<not> TypeMatch D (JsonTypeMatching_init BT_INT32 BT_INT32 False) v" and "\<not> rv_IsInt64 D v"
  shows "dom_type D alloc (TMap BT_STRING (TBasic BT_INT32)) (default_value (TMap BT_STRING (TBasic BT_INT32))) j =
      Inl AssertionFailed \<and>
    dom_type D alloc (TList (TBasic BT_INT32)) (default_value (TList (TBasic BT_INT32))) j' =
      Inr (VList BT_INT32 [VInt32 0], j')"
  using assms
  by (simp add: json_map_def json_list_def jr_array_def ArraySize_def json_resize_def resize_list_def TypeMatch_def
      jr_Read_def json_Read_string_def json_Read_signed_def rv_get_def Variant_init_def)

theorem json_map_value_unchecked_witness:
  "dom_type plain_value sample_alloc (TMap BT_STRING (TBasic BT_INT32)) (default_value (TMap BT_STRING (TBasic BT_INT32)))
     (JArray [JString [], JBool True]) = Inl AssertionFailed"
  using json_map_value_unchecked [of plain_value "JArray [JString [], JBool True]" "JString []" "JBool True" "JArray [JBool True]" sample_alloc]
  by (simp add: plain_value_def TypeMatch_def ComplexTypeMatch_def BasicTypeMatch_def JsonTypeMatching_init_def number_is_def
      in_range_def)

section \<open>Nullable and maybe\<close>

text \<open>
  C32. In every run the storage in use is exactly the storage that nullables own, each block one
  nullable with an equal allocator and a live object, and the blocks that were lost by moving a value to a
  nullable with a different allocator; when all nullables are gone, only the lost blocks are left.
\<close>

theorem nullable_blocks_owned:
  assumes "nullable_run T s lost"
  shows "dom (ns_blocks s) = {p. \<exists>x n. ns_vars s x = Some n \<and> nb_value n = Some p} \<union> lost
    \<and> (\<forall>x n p. ns_vars s x = Some n \<longrightarrow> nb_value n = Some p \<longrightarrow>
         (\<exists>t. ns_blocks s p = Some (nb_alloc n, Some t)) \<and> p \<notin> lost \<and>
         (\<forall>y k. ns_vars s y = Some k \<longrightarrow> nb_value k = Some p \<longrightarrow> y = x))
    \<and> (ns_vars s = Map.empty \<longrightarrow> dom (ns_blocks s) = lost)"
proof -
  note inv = nullable_run_inv [OF assms]
  have ran: "ran (block_of (ns_vars s)) = {p. \<exists>x n. ns_vars s x = Some n \<and> nb_value n = Some p}"
    by (auto simp: ran_def block_of_iff)
  then have "dom (ns_blocks s) = {p. \<exists>x n. ns_vars s x = Some n \<and> nb_value n = Some p} \<union> lost"
    using nullable_invD(3) [OF inv] by simp
  moreover have "\<exists>t. ns_blocks s p = Some (nb_alloc n, Some t)" and "p \<notin> lost"
      and "ns_vars s y = Some k \<Longrightarrow> nb_value k = Some p \<Longrightarrow> y = x"
    if n: "ns_vars s x = Some n" "nb_value n = Some p" for x y n k p
  proof -
    have b: "block_of (ns_vars s) x = Some p" using n by (simp add: block_of_iff)
    show "\<exists>t. ns_blocks s p = Some (nb_alloc n, Some t)" by (rule nullable_invD(1) [OF inv n])
    show "p \<notin> lost" by (rule nullable_invD(5) [OF inv b])
    show "ns_vars s y = Some k \<Longrightarrow> nb_value k = Some p \<Longrightarrow> y = x"
      using other_block [OF inv b, of y k] by blast
  qed
  ultimately show ?thesis by (intro conjI) (blast, blast, simp)
qed

theorem nullable_blocks_owned_witness:
  "dom [8 :: nat \<mapsto> (5 :: nat, Some (3 :: nat))] = {p. \<exists>x n. [1 :: nat \<mapsto> \<lparr>nb_alloc = 5 :: nat, nb_value = None\<rparr>,
     0 \<mapsto> \<lparr>nb_alloc = 5, nb_value = Some 8\<rparr>] x = Some n \<and> nb_value n = Some p}"
proof -
  have c: "el_copy (plain_element :: (nat, nat) element_ops) 3 = Inr 3" by (simp add: plain_element_def)
  from nullable_blocks_owned [OF sample_run [OF c, of 5 8], THEN conjunct1] show ?thesis
    by (simp only: nullable_state.simps Un_empty_right)
qed

text \<open>
  C31. A nullable refines an optional value with an allocator. Whatever operations have been called on the
  nullables of a program, and whatever the allocators answer and the elements throw, the next call does
  not use an object that does not exist, destroy one twice or give storage back twice or to another allocator;
  it has the effect that the specification gives for optional values, or, when the allocator throws, throws
  the same and leaves all values as they were.
\<close>

theorem nullable_refines_optional:
  assumes "nullable_run T s lost" and "nullable_scoped c (ns_vars s)" and "answer_ok ans (ns_blocks s)"
  shows "\<exists>r s'. nullable_exec T ans c s = Some (r, s') \<and>
    (nullable_spec T c (nullable_abs (ns_vars s) (ns_blocks s)) = (r, nullable_abs (ns_vars s') (ns_blocks s')) \<or>
     (\<exists>e. ans = Inl e \<and> r = Inl e \<and> nullable_abs (ns_vars s') (ns_blocks s') = nullable_abs (ns_vars s) (ns_blocks s)))"
  using nullable_exec_ok [OF nullable_run_inv [OF assms(1)] assms(3,2), of T]
  by (auto simp: step_ok_def split: option.splits)

theorem nullable_refines_optional_witness:
  "nullable_spec plain_element (NAssign 1 0) (nullable_abs [1 \<mapsto> \<lparr>nb_alloc = 5, nb_value = None\<rparr>,
       0 \<mapsto> \<lparr>nb_alloc = 5, nb_value = Some 8\<rparr>] [8 \<mapsto> (5 :: nat, Some 3)]) =
   (Inr (), nullable_abs [1 \<mapsto> \<lparr>nb_alloc = 5, nb_value = Some 9\<rparr>, 0 \<mapsto> \<lparr>nb_alloc = 5, nb_value = Some 8\<rparr>]
       [8 \<mapsto> (5, Some 3), 9 \<mapsto> (5, Some 3)])"
  using nullable_refines_optional [OF sample_run [of plain_element 3 3 "5 :: nat" 8], of "NAssign 1 0" "Inr 9"]
  by (simp add: plain_element_def answer_ok_def with_var_def store_var_def nullable_assign_def nullable_copy_def heap_bind_def
      with_value_eq new_value_simps swap_destroy_eq destroy_eq fun_upd_twist)

text \<open>
  C33. The move constructor with an allocator leaks: a value moved to a nullable whose allocator differs is
  constructed anew, and the moved-from object and its storage are never given back, although every
  nullable is destroyed.
\<close>

theorem nullable_extended_move_leaks:
  assumes "el_copy T t = Inr u" and "el_move_alloc T u b = (Inr w, u')" and "a \<noteq> b" and "p \<noteq> q"
  shows "nullable_run T \<lparr>ns_vars = Map.empty, ns_blocks = [p \<mapsto> (a, Some u')]\<rparr> {p}"
proof -
  let ?src = "\<lparr>nb_alloc = a, nb_value = Some p\<rparr>" and ?left = "\<lparr>nb_alloc = a, nb_value = None\<rparr>"
  let ?new = "\<lparr>nb_alloc = b, nb_value = Some q\<rparr>"
  have "nullable_run T \<lparr>ns_vars = [0 \<mapsto> ?src], ns_blocks = [p \<mapsto> (a, Some u)]\<rparr> {}"
    by (rule nullable_run_step [OF nullable_run.start, of "NFromValue 0 t a" "Inr p" _ "Inr ()"])
       (simp_all add: assms answer_ok_def store_var_def nullable_from_value_def with_value_eq new_value_simps)
  then have "nullable_run T \<lparr>ns_vars = [0 \<mapsto> ?left, 1 \<mapsto> ?new], ns_blocks = [p \<mapsto> (a, Some u'), q \<mapsto> (b, Some w)]\<rparr> {p}"
    by (rule nullable_run_step [of _ _ _ "NMoveAlloc 1 0 b" "Inr q" "Inr ()"])
       (use assms in \<open>simp_all add: answer_ok_def with_var_def nullable_move_alloc_def heap_bind_def heap_ret_def with_value_eq
         new_value_simps\<close>)
  then have "nullable_run T \<lparr>ns_vars = [1 \<mapsto> ?new], ns_blocks = [p \<mapsto> (a, Some u'), q \<mapsto> (b, Some w)]\<rparr> {p}"
    by (rule nullable_run_step [of _ _ _ "NDestroy 0" "Inl BadAlloc" "Inr ()"])
       (use assms in \<open>simp_all add: answer_ok_def with_var_def destroy_eq fun_eq_iff\<close>)
  then show ?thesis
    by (rule nullable_run_step [of _ _ _ "NDestroy 1" "Inl BadAlloc" "Inr ()"])
       (use assms in \<open>simp_all add: answer_ok_def with_var_def destroy_eq fun_eq_iff\<close>)
qed

theorem nullable_extended_move_leaks_witness:
  "nullable_run plain_element \<lparr>ns_vars = Map.empty, ns_blocks = [8 \<mapsto> (1 :: nat, Some 0)]\<rparr> {8}"
  by (rule nullable_extended_move_leaks [of plain_element 3 3 2 3 0 1 8 9]) (simp_all add: plain_element_def)

text \<open>
  A maybe that was moved from by one of its move constructors holds nothing, as is documented; the move assignment,
  which is that of the optional, leaves its source with a moved-from value. The target has a value exactly
  if the source had one, and the allocator that the operation says.
\<close>

theorem maybe_moved_from:
  assumes "optional_laws P"
  shows "(\<forall>n left. maybe_move P that = (Inr n, left) \<longrightarrow>
      my_value left = None \<and> my_alloc n = my_alloc that \<and> (my_value n = None \<longleftrightarrow> my_value that = None)) \<and>
    (\<forall>n left. maybe_move_alloc P T that al = (Inr n, left) \<longrightarrow>
      my_value left = None \<and> my_alloc n = al \<and> (my_value n = None \<longleftrightarrow> my_value that = None)) \<and>
    (\<forall>n left. maybe_move_assign P this that = (Inr (), n, left) \<longrightarrow>
      (my_value left = None \<longleftrightarrow> my_value that = None) \<and> my_alloc n = my_alloc that \<and> (my_value n = None \<longleftrightarrow> my_value that = None))"
  by (intro conjI allI impI)
     ((drule maybe_move_Inr [OF assms] maybe_move_alloc_Inr [OF assms] maybe_move_assign_Inr [OF assms], simp)+)

theorem maybe_moved_from_witness:
  "my_value (snd (snd (maybe_move_assign (sample_optional plain_element) (maybe_init 5) \<lparr>my_value = Some 3, my_alloc = 7 :: nat\<rparr>))) \<noteq> None"
  using maybe_moved_from [OF sample_optional_laws [of plain_element], of "\<lparr>my_value = Some 3, my_alloc = 7 :: nat\<rparr>" plain_element 7 "maybe_init 5"]
  by (auto simp: maybe_move_assign_def mc_move_assign_def sample_optional_def plain_element_def)

section \<open>The random protocol\<close>

text \<open>
  The generator never gets stuck: its step can be undone, so that no two states have the same successor, and from a
  state that is not all zero, as the default seed is, it never comes to the zero state, however many numbers are read.
\<close>

theorem random_generator_invertible:
  "(\<exists>x. rp_Next s = Inr (x, rp_step s)) \<and> rp_previous (rp_step s) = s \<and> rp_step (rp_previous s) = s \<and>
    ((rp_step ^^ n) s = (0, 0) \<longleftrightarrow> s = (0, 0)) \<and> (rp_step ^^ n) (rp_seed1, rp_seed2) \<noteq> (0, 0)"
proof -
  have zero: "(rp_step ^^ n) s = (0, 0) \<longleftrightarrow> s = (0, 0)" for s
    by (induction n) (simp_all add: step_eq_zero)
  moreover have "rp_step (rp_previous s) = s"
    using bij_step previous_step [of "inv rp_step s"] by (simp add: bij_is_surj surj_f_inv_f)
  ultimately show ?thesis using Next_step [of s] by (simp add: rp_seed1_def)
qed

text \<open>
  C34. Whatever the state of the generator, reading succeeds and stays in range: strings are of printable characters
  and, like containers, neither empty nor as long as the limit (or of length 1), floating point numbers are normal, neither
  infinite nor NaN, and unsigned integers for JSON fit in 63 bits. A limit of 0 is undefined.
\<close>

theorem random_values_in_range:
  assumes "0 < rp_max_string_length r" and "0 < rp_max_list_size r" and "rp_json r"
  shows "(\<exists>cs s'. rp_Read_string r s = Inr (cs :: byte list, s') \<and> 1 \<le> length cs \<and> length cs \<le> max 1 (unat (rp_max_string_length r) - 1) \<and>
      (\<forall>c\<in>set cs. 32 \<le> unat c \<and> unat c < 122)) \<and>
    (\<exists>n s'. rp_ReadContainerBegin r s = Inr (n, s') \<and> 1 \<le> unat n \<and> unat n \<le> max 1 (unat (rp_max_list_size r) - 1)) \<and>
    (\<exists>x s'. rp_Read_double s = Inr (x, s') \<and> double_exponent x \<noteq> 0 \<and> double_exponent x \<noteq> mask 11) \<and>
    (\<exists>x s'. rp_Read_float s = Inr (x, s') \<and> float_exponent x \<noteq> 0 \<and> float_exponent x \<noteq> mask 8) \<and>
    (\<exists>x s'. rp_Read_uint64 r s = Inr (x, s') \<and> unat x < 2 ^ 63) \<and>
    rp_size 0 s = Inl AssertionFailed"
proof (intro conjI)
  show "\<exists>cs s'. rp_Read_string r s = Inr (cs :: byte list, s') \<and> 1 \<le> length cs \<and> length cs \<le> max 1 (unat (rp_max_string_length r) - 1) \<and>
      (\<forall>c\<in>set cs. 32 \<le> unat c \<and> unat c < 122)"
    using assms(1) by (intro all_ofD rp_string_range) simp
  show "\<exists>n s'. rp_ReadContainerBegin r s = Inr (n, s') \<and> 1 \<le> unat n \<and> unat n \<le> max 1 (unat (rp_max_list_size r) - 1)"
    unfolding rp_ReadContainerBegin_def by (rule all_ofD [OF rp_size_range [OF assms(2)]])
  show "\<exists>x s'. rp_Read_double s = Inr (x, s') \<and> double_exponent x \<noteq> 0 \<and> double_exponent x \<noteq> mask 11"
    by (rule all_ofD [OF rp_double_range])
  show "\<exists>x s'. rp_Read_float s = Inr (x, s') \<and> float_exponent x \<noteq> 0 \<and> float_exponent x \<noteq> mask 8"
    by (rule all_ofD [OF rp_float_range])
  show "\<exists>x s'. rp_Read_uint64 r s = Inr (x, s') \<and> unat x < 2 ^ 63"
    by (rule all_ofD [OF rp_uint64_range [OF assms(3)]])
  show "rp_size 0 s = Inl AssertionFailed" by (rule rp_size_zero)
qed

theorem random_values_in_range_witness:
  "\<exists>n s'. rp_ReadContainerBegin \<lparr>rp_max_string_length = 50, rp_max_list_size = 20, rp_json = True\<rparr> (rp_seed1, rp_seed2) = Inr (n, s') \<and>
     1 \<le> unat n \<and> unat n \<le> 19"
  using random_values_in_range [of "\<lparr>rp_max_string_length = 50, rp_max_list_size = 20, rp_json = True\<rparr>" "(rp_seed1, rp_seed2)"]
  by simp

section \<open>Divergences\<close>

text \<open>
  \<open>SimpleBinaryReader::Skip\<close> computes the number of bytes of a wide string without the checked
  multiplication that the other protocols use: for a length of \<open>2 ^ 31\<close> characters it skips nothing
  and reports no error, where the compact reader throws.
\<close>

theorem simple_wstring_skip_wraps:
  "sr_Skip v1 BT_WSTRING (InputBuffer_of (sample_blob [0, 0, 0, 0x80])) =
     Inr ((), ib_adv 4 (InputBuffer_of (sample_blob [0, 0, 0, 0x80]))) \<and>
   cr_SkipType v1 BT_WSTRING (InputBuffer_of (sample_blob [0x80, 0x80, 0x80, 0x80, 8])) = Inl OverflowError"
proof -
  have "of_le [0, 0, 0, 0x80 :: byte] * 2 = (0 :: u32)" by code_simp
  then have "sr_Skip v1 BT_WSTRING (InputBuffer_of (sample_blob [0, 0, 0, 0x80])) =
     Inr ((), ib_adv 4 (InputBuffer_of (sample_blob [0, 0, 0, 0x80])))"
    using ib_read_le_at [where sz = 4 and ?'a = 32, OF sample_at [of "[0, 0, 0, 0x80]"]]
      ib_skip_at [where sz = 0, OF ib_at_adv [where n = 4, OF sample_at [of "[0, 0, 0, 0x80]"]]]
    by (simp add: bind_def sr_ReadSize_def del: of_le.simps)
  moreover have "ReadVariableUnsigned (InputBuffer_of (sample_blob [0x80, 0x80, 0x80, 0x80, 8])) =
      Inr (0x80000000 :: u32, ib_adv (Suc (Suc (Suc (Suc (Suc 0))))) (InputBuffer_of (sample_blob [0x80, 0x80, 0x80, 0x80, 8])))"
    using decodesD [where rest = "[]", OF decodes_varint32 [where n = "0x80000000"]] sample_at [where bs = "[0x80, 0x80, 0x80, 0x80, 8]"]
    by (simp add: varint.simps)
  then have "cr_SkipType v1 BT_WSTRING (InputBuffer_of (sample_blob [0x80, 0x80, 0x80, 0x80, 8])) = Inl OverflowError"
    by (simp add: cr_SkipType_def bind_def skip_fixed_def lift_res_def checked_multiply_spec)
  ultimately show ?thesis by simp
qed

text \<open>
  C36. \<open>Validate\<close> is documented to return true when schemas are wire-format equivalent. It compares the
  numbers of fields, not their ids: for two structs with one field of the same type but different ids
  it returns true, although neither reader sees the field of the other.
\<close>

theorem validate_equal_counts_identical:
  "Validate (GetRuntimeSchema (Schema md None [FieldDef i m1 b1 (TBasic BT_INT32)]))
            (GetRuntimeSchema (Schema md None [FieldDef j (Metadata_init\<lparr>md_modifier := Optional\<rparr>) b2 (TBasic BT_INT32)])) = Inr True"
  by (simp add: validate_simps)

text \<open>
  An optional field of type \<open>double\<close> with default 0.0 is omitted by the tagged protocols when its
  value is -0.0, because the comparison with the default is numeric: the encoding is empty although
  the bits differ from the default.
\<close>

theorem negative_zero_omitted:
  "enc_field fast_format (Field fid Metadata_init (VDouble 0x8000000000000000)) = ([], []) \<and>
   VariantGet (md_default_value Metadata_init) BT_DOUBLE = Some (VDouble 0) \<and>
   VDouble 0x8000000000000000 \<noteq> VDouble 0"
  by (simp add: omit_field_def Metadata_init_def Variant_init_def fast_format_simps
      double_eq_def double_is_nan_def double_is_zero_def)


end
